(* ===== verification/Prelude.thy ===== *)
theory Prelude
  imports Main "HOL-Library.Sublist" "HOL-Library.Word"
begin

text \<open>
  What the theories of the development share: the named collections their proofs use, the
  \<^verbatim>\<open>std::string\<close> operations of the sources written over \<open>string\<close> (a \<open>char list\<close>, one
  \<open>char\<close> per byte), the integer conversions of C++ (\<^verbatim>\<open>std::to_string\<close>, \<^verbatim>\<open>strtoul\<close>,
  narrowing casts), and the generic lemmas about them.
\<close>

named_theorems agent_defs \<open>definitions of the agent a component proof unfolds\<close>
named_theorems agent_intros \<open>introduction rules the components share\<close>

section \<open>Prefixes, splitting and trimming\<close>

text \<open>\<^verbatim>\<open>s.rfind(p, 0) == 0\<close>: the string starts with \<open>p\<close>.\<close>

definition starts_with :: "string \<Rightarrow> string \<Rightarrow> bool" where
  "starts_with s p \<longleftrightarrow> take (length p) s = p"

text \<open>\<^verbatim>\<open>s.substr(0, s.find(c))\<close>: everything before the first \<open>c\<close>, or all of \<open>s\<close>.\<close>

definition before :: "char \<Rightarrow> string \<Rightarrow> string" where
  "before c s = takeWhile (\<lambda>x. x \<noteq> c) s"

text \<open>\<^verbatim>\<open>s.substr(s.find(c) + 1)\<close> where \<open>c\<close> occurs.\<close>

definition after :: "char \<Rightarrow> string \<Rightarrow> string" where
  "after c s = drop 1 (dropWhile (\<lambda>x. x \<noteq> c) s)"

text \<open>\<^verbatim>\<open>s.substr(0, s.find_last_of(c))\<close> and \<^verbatim>\<open>s.substr(s.find_last_of(c) + 1)\<close> where \<open>c\<close> occurs.\<close>

definition before_last :: "char \<Rightarrow> string \<Rightarrow> string" where
  "before_last c s = rev (drop 1 (dropWhile (\<lambda>x. x \<noteq> c) (rev s)))"

definition after_last :: "char \<Rightarrow> string \<Rightarrow> string" where
  "after_last c s = rev (takeWhile (\<lambda>x. x \<noteq> c) (rev s))"

lemma starts_with_iff_prefix: "starts_with s p \<longleftrightarrow> prefix p s"
  by (auto simp: starts_with_def prefix_def) (metis append_take_drop_id)

lemma starts_with_append [simp]: "starts_with (p @ s) p"
  by (simp add: starts_with_def)

lemma starts_with_Nil [simp]: "starts_with s []"
  by (simp add: starts_with_def)

lemma before_no_sep [simp]: "c \<notin> set s \<Longrightarrow> before c s = s"
  by (auto simp: before_def takeWhile_eq_all_conv)

lemma takeWhile_sep [simp]: "c \<notin> set s \<Longrightarrow> takeWhile (\<lambda>x. x \<noteq> c) (s @ c # t) = s"
  by (induction s) auto

lemma dropWhile_sep [simp]: "c \<notin> set s \<Longrightarrow> dropWhile (\<lambda>x. x \<noteq> c) (s @ c # t) = c # t"
  by (induction s) auto

lemma before_append_sep [simp]: "c \<notin> set s \<Longrightarrow> before c (s @ c # t) = s"
  by (simp add: before_def)

lemma after_append_sep [simp]: "c \<notin> set s \<Longrightarrow> after c (s @ c # t) = t"
  by (simp add: after_def)

lemma before_after: "c \<in> set s \<Longrightarrow> s = before c s @ c # after c s"
  unfolding before_def after_def by (induction s) auto

lemma before_last_after_last: "c \<in> set s \<Longrightarrow> s = before_last c s @ c # after_last c s"
proof -
  assume "c \<in> set s"
  then have "rev s = before c (rev s) @ c # after c (rev s)"
    by (intro before_after) simp
  then have "rev (rev s) = rev (after c (rev s)) @ c # rev (before c (rev s))"
    by (metis append.assoc append_Cons append_Nil rev.simps(2) rev_append)
  then show ?thesis
    by (simp add: before_last_def after_last_def before_def after_def)
qed

lemma after_last_no_sep: "c \<notin> set (after_last c s)"
  unfolding after_last_def by (metis (full_types) set_rev set_takeWhileD)

lemma before_last_length: "c \<in> set s \<Longrightarrow> length (before_last c s) < length s"
  using before_last_after_last [of c s] by (metis add_Suc_right length_Cons length_append le_add1 le_imp_less_Suc)

lemma before_last_append [simp]:
  "c \<notin> set t \<Longrightarrow> before_last c (s @ c # t) = s"
  by (simp add: before_last_def)

lemma after_last_append [simp]:
  "c \<notin> set t \<Longrightarrow> after_last c (s @ c # t) = t"
  by (simp add: after_last_def)

text \<open>\<^verbatim>\<open>std::tolower\<close> in the C locale, on one byte and on a string.\<close>

definition lower_char :: "char \<Rightarrow> char" where
  "lower_char c =
     (let n = (of_char c :: nat) in if 65 \<le> n \<and> n \<le> 90 then char_of (n + 32) else c)"

definition ascii_lower :: "string \<Rightarrow> string" where
  "ascii_lower s = map lower_char s"

lemma lower_char_idem [simp]: "lower_char (lower_char c) = lower_char c"
  by (simp add: lower_char_def Let_def)

lemma ascii_lower_idem [simp]: "ascii_lower (ascii_lower s) = ascii_lower s"
  by (simp add: ascii_lower_def)

lemma length_ascii_lower [simp]: "length (ascii_lower s) = length s"
  by (simp add: ascii_lower_def)

text \<open>Drop trailing characters that satisfy a predicate: \<^verbatim>\<open>while (p(s.back())) s.pop_back()\<close>.\<close>

definition rstrip :: "(char \<Rightarrow> bool) \<Rightarrow> string \<Rightarrow> string" where
  "rstrip p s = rev (dropWhile p (rev s))"

text \<open>Split at every separator: the components a path scan compares one by one.\<close>

fun split_on :: "char \<Rightarrow> string \<Rightarrow> string list" where
  "split_on c [] = [[]]"
| "split_on c (x # xs) =
     (if x = c then [] # split_on c xs
      else (case split_on c xs of [] \<Rightarrow> [[x]] | y # ys \<Rightarrow> (x # y) # ys))"

lemma split_on_nonempty [simp]: "split_on c s \<noteq> []"
  by (induction s) (auto split: list.splits)

lemma split_on_no_sep: "c \<notin> set s \<Longrightarrow> split_on c s = [s]"
  by (induction s) auto

lemma split_on_append: "c \<notin> set s \<Longrightarrow> split_on c (s @ c # t) = s # split_on c t"
  by (induction s) auto

lemma split_on_sep_free: "x \<in> set (split_on c s) \<Longrightarrow> c \<notin> set x"
  by (induction s arbitrary: x) (auto split: if_splits list.splits)

text \<open>The lines \<^verbatim>\<open>std::getline\<close> gives: a final line feed ends a line, it does not begin another.\<close>

definition getlines :: "string \<Rightarrow> string list" where
  "getlines s = (let ls = split_on CHR 0x0A s in if last ls = [] then butlast ls else ls)"

text \<open>A text between single quotes, as the error messages show the argument they refuse.\<close>

definition quoted :: "string \<Rightarrow> string" where
  "quoted s = [CHR 0x27] @ s @ [CHR 0x27]"

section \<open>C strings\<close>

text \<open>
  A \<^verbatim>\<open>std::string\<close> may hold NUL bytes; \<^verbatim>\<open>c_str()\<close> hands them to C code, which reads up to the
  first one. \<open>c_str\<close> is what C sees, and \<open>strncmp_eq n a b\<close> is \<^verbatim>\<open>strncmp(a, b, n) == 0\<close>.
\<close>

definition c_str :: "string \<Rightarrow> string" where
  "c_str s = takeWhile (\<lambda>c. c \<noteq> CHR 0x00) s"

definition c_char :: "string \<Rightarrow> char" where
  "c_char s = (case s of [] \<Rightarrow> CHR 0x00 | c # _ \<Rightarrow> c)"

fun strncmp_eq :: "nat \<Rightarrow> string \<Rightarrow> string \<Rightarrow> bool" where
  "strncmp_eq 0 a b = True"
| "strncmp_eq (Suc n) a b =
     (c_char a = c_char b \<and> (c_char a = CHR 0x00 \<or> strncmp_eq n (tl a) (tl b)))"

lemma c_str_id [simp]: "CHR 0x00 \<notin> set s \<Longrightarrow> c_str s = s"
  by (auto simp: c_str_def takeWhile_eq_all_conv)

lemma c_str_no_nul [simp]: "CHR 0x00 \<notin> set (c_str s)"
  using set_takeWhileD [of "CHR 0x00" "\<lambda>c. c \<noteq> CHR 0x00" s] by (auto simp: c_str_def)

text \<open>On text without a NUL, comparing \<open>length a\<close> characters is the prefix test.\<close>

lemma strncmp_eq_prefix:
  "CHR 0x00 \<notin> set a \<Longrightarrow> CHR 0x00 \<notin> set b \<Longrightarrow> strncmp_eq (length a) a b \<longleftrightarrow> prefix a b"
proof (induction a arbitrary: b)
  case (Cons x a)
  then show ?case
    by (cases b) (auto simp: c_char_def)
qed simp

section \<open>Numbers and their text\<close>

definition digit_char :: "nat \<Rightarrow> char" where
  "digit_char d = char_of (48 + d)"

definition is_digit :: "char \<Rightarrow> bool" where
  "is_digit c \<longleftrightarrow> 48 \<le> (of_char c :: nat) \<and> (of_char c :: nat) \<le> 57"

definition digit_val :: "char \<Rightarrow> nat" where
  "digit_val c = of_char c - 48"

text \<open>\<^verbatim>\<open>std::to_string\<close> of an unsigned and of a signed integer.\<close>

fun nat_text :: "nat \<Rightarrow> string" where
  "nat_text n = (if n < 10 then [digit_char n] else nat_text (n div 10) @ [digit_char (n mod 10)])"

declare nat_text.simps [simp del]

definition int_text :: "int \<Rightarrow> string" where
  "int_text i = (if i < 0 then CHR ''-'' # nat_text (nat (- i)) else nat_text (nat i))"

definition digits_value :: "string \<Rightarrow> nat" where
  "digits_value s = foldl (\<lambda>a c. 10 * a + digit_val c) 0 s"

lemma digit_char_props: "d < 10 \<Longrightarrow> is_digit (digit_char d) \<and> digit_val (digit_char d) = d"
  by (simp add: digit_char_def is_digit_def digit_val_def)

lemma nat_text_digits: "\<forall>c \<in> set (nat_text n). is_digit c"
proof (induction n rule: nat_text.induct)
  case (1 n)
  then show ?case
    by (subst nat_text.simps) (auto simp: digit_char_props)
qed

lemma nat_text_nonempty [simp]: "nat_text n \<noteq> []"
  by (subst nat_text.simps) simp

lemma digits_value_snoc: "digits_value (s @ [c]) = 10 * digits_value s + digit_val c"
  by (simp add: digits_value_def)

lemma digits_value_nat_text [simp]: "digits_value (nat_text n) = n"
proof (induction n rule: nat_text.induct)
  case (1 n)
  show ?case
  proof (cases "n < 10")
    case True
    then show ?thesis
      by (subst nat_text.simps) (simp add: digits_value_def digit_char_props)
  next
    case False
    with 1 show ?thesis
      by (subst nat_text.simps) (simp add: digits_value_snoc digit_char_props)
  qed
qed

lemma nat_text_inject [simp]: "nat_text m = nat_text n \<longleftrightarrow> m = n"
  by (metis digits_value_nat_text)

text \<open>
  \<^verbatim>\<open>strtoul(s, nullptr, 10)\<close> with a 64-bit \<^verbatim>\<open>unsigned long\<close>: leading white space is skipped,
  one sign is accepted (a minus sign negates the unsigned result), no digits read as 0, and an
  overflow saturates.
\<close>

definition is_space :: "char \<Rightarrow> bool" where
  "is_space c \<longleftrightarrow> (let n = (of_char c :: nat) in n = 32 \<or> (9 \<le> n \<and> n \<le> 13))"

definition ulong_max :: nat where
  "ulong_max = 2 ^ 64 - 1"

definition strtoul10 :: "string \<Rightarrow> nat" where
  "strtoul10 s =
     (let t = dropWhile is_space s;
          neg = (t \<noteq> [] \<and> hd t = CHR ''-'');
          u = (if t \<noteq> [] \<and> (hd t = CHR ''-'' \<or> hd t = CHR ''+'') then tl t else t);
          v = digits_value (takeWhile is_digit u)
      in if ulong_max < v then ulong_max
         else if neg then (2 ^ 64 - v) mod 2 ^ 64 else v)"

lemma is_digit_not_space: "is_digit c \<Longrightarrow> \<not> is_space c"
  by (auto simp: is_digit_def is_space_def Let_def)

lemma is_digit_not_sign: "is_digit c \<Longrightarrow> c \<noteq> CHR ''-'' \<and> c \<noteq> CHR ''+''"
  by (auto simp: is_digit_def)

lemma strtoul10_nat_text:
  assumes "n \<le> ulong_max"
  shows "strtoul10 (CHR '' '' # nat_text n) = n"
proof -
  obtain d ds where d: "nat_text n = d # ds"
    by (cases "nat_text n") auto
  with nat_text_digits [of n] have dig: "is_digit d" "\<forall>c \<in> set ds. is_digit c"
    by auto
  have sp: "is_space CHR '' ''" by (simp add: is_space_def)
  have tw: "takeWhile is_digit (nat_text n) = nat_text n"
    using nat_text_digits [of n] by (simp add: takeWhile_eq_all_conv)
  have dw: "dropWhile is_space (CHR '' '' # nat_text n) = nat_text n"
    using sp is_digit_not_space [OF dig(1)] by (simp add: d)
  have hd: "hd (nat_text n) \<noteq> CHR ''-''" "hd (nat_text n) \<noteq> CHR ''+''"
    using is_digit_not_sign [OF dig(1)] by (simp_all add: d)
  show ?thesis
    using assms by (simp only: strtoul10_def Let_def dw hd tw digits_value_nat_text simp_thms if_False
        not_less if_cancel HOL.if_not_P)
qed

text \<open>The narrowing casts to a signed 32-bit and 64-bit integer.\<close>

definition to_int32 :: "int \<Rightarrow> int" where
  "to_int32 i = sint (word_of_int i :: 32 word)"

definition to_int64 :: "int \<Rightarrow> int" where
  "to_int64 i = sint (word_of_int i :: 64 word)"

lemma to_int32_small: "- (2 ^ 31) \<le> i \<Longrightarrow> i < 2 ^ 31 \<Longrightarrow> to_int32 i = i"
  by (simp add: to_int32_def sint_sbintrunc' signed_take_bit_int_eq_self)

lemma to_int64_small: "- (2 ^ 63) \<le> i \<Longrightarrow> i < 2 ^ 63 \<Longrightarrow> to_int64 i = i"
  by (simp add: to_int64_def sint_sbintrunc' signed_take_bit_int_eq_self)

lemma to_int64_bounds: "- (2 ^ 63) \<le> to_int64 i \<and> to_int64 i < 2 ^ 63"
  using sint_greater_eq [of "word_of_int i :: 64 word"] sint_less [of "word_of_int i :: 64 word"]
  by (simp add: to_int64_def)

section \<open>Lists\<close>

text \<open>Keep the first occurrence of each element: the stable de-duplication of the start-up code.\<close>

fun dedup :: "'a list \<Rightarrow> 'a list \<Rightarrow> 'a list" where
  "dedup acc [] = acc"
| "dedup acc (x # xs) = (if x \<in> set acc then dedup acc xs else dedup (acc @ [x]) xs)"

lemma set_dedup [simp]: "set (dedup acc xs) = set acc \<union> set xs"
  by (induction acc xs rule: dedup.induct) auto

lemma distinct_dedup [simp]: "distinct acc \<Longrightarrow> distinct (dedup acc xs)"
  by (induction acc xs rule: dedup.induct) auto

lemma list_all_append_iff: "list_all P (xs @ ys) \<longleftrightarrow> list_all P xs \<and> list_all P ys"
  by (induction xs) auto

text \<open>A path without its trailing slashes; a path of slashes alone keeps one.\<close>

definition drop_slashes :: "string \<Rightarrow> string" where
  "drop_slashes s =
     (let t = rev (dropWhile (\<lambda>c. c = CHR ''/'') (rev s)) in if t = [] \<and> s \<noteq> [] then [hd s] else t)"

lemma drop_slashes_set: "set (drop_slashes s) \<subseteq> set s"
proof -
  have "set (dropWhile (\<lambda>c. c = CHR ''/'') (rev s)) \<subseteq> set s" using set_dropWhileD by fastforce
  then show ?thesis by (auto simp: drop_slashes_def Let_def)
qed

end
