(* ===== verification/Json.thy ===== *)
theory Json
  imports Prelude
begin

text \<open>
  JSON values as the agent handles them, the accessors its handlers use on \<^verbatim>\<open>nlohmann::json\<close>
  with the exceptions those throw, the error codes of \<^verbatim>\<open>agent/main.cpp\<close>, and the reply a
  handler sends. Serializing (\<^verbatim>\<open>dump\<close>) and parsing text are that library's code: they are
  parameters of the definitions that use them.
\<close>

section \<open>Values\<close>

text \<open>
  Objects keep their fields in the order written. An integer is any 64-bit value, signed or
  unsigned; a floating-point number keeps its literal text, which no handler reads.
\<close>

datatype json =
    JNull
  | JBool bool
  | JInt int
  | JFloat string
  | JStr string
  | JArr "json list"
  | JObj "(string \<times> json) list"

text \<open>\<^verbatim>\<open>j.find(k)\<close> against \<^verbatim>\<open>j.end()\<close>: also the end on a value that is not an object.\<close>

fun jfind :: "string \<Rightarrow> json \<Rightarrow> json option" where
  "jfind k (JObj kvs) = map_of kvs k"
| "jfind k _ = None"

definition jhas :: "string \<Rightarrow> json \<Rightarrow> bool" where
  "jhas k j \<longleftrightarrow> jfind k j \<noteq> None"

fun jstring :: "json \<Rightarrow> string option" where
  "jstring (JStr s) = Some s"
| "jstring _ = None"

fun jint :: "json \<Rightarrow> int option" where
  "jint (JInt i) = Some i"
| "jint _ = None"

fun jbool :: "json \<Rightarrow> bool option" where
  "jbool (JBool b) = Some b"
| "jbool _ = None"

fun jarray :: "json \<Rightarrow> json list option" where
  "jarray (JArr xs) = Some xs"
| "jarray _ = None"

fun is_jobject :: "json \<Rightarrow> bool" where
  "is_jobject (JObj _) = True"
| "is_jobject _ = False"

text \<open>The field \<open>k\<close> if it is present and has the wanted type (\<^verbatim>\<open>it != end() && it->is_string()\<close>).\<close>

definition str_field :: "string \<Rightarrow> json \<Rightarrow> string option" where
  "str_field k j = Option.bind (jfind k j) jstring"

definition int_field :: "string \<Rightarrow> json \<Rightarrow> int option" where
  "int_field k j = Option.bind (jfind k j) jint"

definition bool_field :: "string \<Rightarrow> json \<Rightarrow> bool option" where
  "bool_field k j = Option.bind (jfind k j) jbool"

definition array_field :: "string \<Rightarrow> json \<Rightarrow> json list option" where
  "array_field k j = Option.bind (jfind k j) jarray"

text \<open>
  \<^verbatim>\<open>j.value(k, dflt)\<close> for a boolean default throws on a value that is not an object
  (type_error.306) and on a field of another type (type_error.302).
\<close>

datatype json_exn = TypeError302 | TypeError306

definition value_bool :: "string \<Rightarrow> bool \<Rightarrow> json \<Rightarrow> json_exn + bool" where
  "value_bool k dflt j =
     (if \<not> is_jobject j then Inl TypeError306
      else case jfind k j of
        None \<Rightarrow> Inr dflt
      | Some v \<Rightarrow> (case jbool v of Some b \<Rightarrow> Inr b | None \<Rightarrow> Inl TypeError302))"

text \<open>Setting a field: \<^verbatim>\<open>j[k] = v\<close> on an object replaces it or adds it at the end.\<close>

fun jset :: "string \<Rightarrow> json \<Rightarrow> json \<Rightarrow> json" where
  "jset k v (JObj kvs) =
     JObj (if k \<in> fst ` set kvs then map (\<lambda>(k', v'). if k' = k then (k', v) else (k', v')) kvs
           else kvs @ [(k, v)])"
| "jset k v j = j"

lemma map_of_replace:
  "map_of (map (\<lambda>(k', v'). if k' = k then (k', v) else (k', v')) kvs) k' =
     (if k' = k then (if k \<in> fst ` set kvs then Some v else None) else map_of kvs k')"
  by (induction kvs) force+

lemma jfind_jset [simp]:
  "is_jobject j \<Longrightarrow> jfind k' (jset k v j) = (if k' = k then Some v else jfind k' j)"
proof (cases j)
  case (JObj kvs)
  have "map_of kvs k'' = None" if "k'' \<notin> fst ` set kvs" for k''
    using that by (simp add: map_of_eq_None_iff)
  with JObj show ?thesis
    by (simp add: map_of_replace map_add_def split: option.split)
qed auto

lemma is_jobject_jset [simp]: "is_jobject (jset k v j) = is_jobject j"
  by (cases j) auto

section \<open>Error codes and replies\<close>

datatype rpc_error =
    KInternal | KNotFound | KInvalidRequest | KGitFailed | KLspFailed
  | KPermissionDenied | KVersionMismatch | KCancelled

fun error_code :: "rpc_error \<Rightarrow> int" where
  "error_code KInternal = 1000"
| "error_code KNotFound = 1001"
| "error_code KInvalidRequest = 1002"
| "error_code KGitFailed = 1003"
| "error_code KLspFailed = 1004"
| "error_code KPermissionDenied = 1005"
| "error_code KVersionMismatch = 1006"
| "error_code KCancelled = 1007"

lemma error_code_inject [simp]: "error_code a = error_code b \<longleftrightarrow> a = b"
  by (cases a; cases b) auto

text \<open>
  What a handler does with its request: one \<^verbatim>\<open>rsp.result\<close>, one \<^verbatim>\<open>rsp.error\<close>, or an exception
  that leaves it (which \<^verbatim>\<open>workerLoop\<close> turns into an error reply).
\<close>

datatype reply =
    Result json
  | Error rpc_error string
  | Throws json_exn

definition ok_reply :: reply where
  "ok_reply = Result (JObj [(''ok'', JBool True)])"

text \<open>\<^verbatim>\<open>reqStr\<close>: the required string parameter, or the INVALID_REQUEST reply.\<close>

definition reqStr :: "json \<Rightarrow> string \<Rightarrow> string \<Rightarrow> reply + string" where
  "reqStr params key method =
     (case str_field key params of
        None \<Rightarrow> Inl (Error KInvalidRequest
                  (method @ '' requires string param '' @ [CHR 0x27] @ key @ [CHR 0x27]))
      | Some s \<Rightarrow> Inr s)"

text \<open>\<^verbatim>\<open>reqStrOptional\<close>: the parameter if it is a string, silently nothing otherwise.\<close>

definition reqStrOptional :: "json \<Rightarrow> string \<Rightarrow> string option" where
  "reqStrOptional params key = str_field key params"

text \<open>Several checks in a row: the first failure is the reply.\<close>

definition bindr :: "'e + 'a \<Rightarrow> ('a \<Rightarrow> 'e + 'b) \<Rightarrow> 'e + 'b" where
  "bindr x f = (case x of Inl e \<Rightarrow> Inl e | Inr a \<Rightarrow> f a)"

lemma bindr_simps [simp]: "bindr (Inl e) f = Inl e" "bindr (Inr a) f = f a"
  by (simp_all add: bindr_def)

lemma bindr_Inr: "bindr x f = Inr b \<longleftrightarrow> (\<exists>a. x = Inr a \<and> f a = Inr b)"
  by (cases x) auto

lemma reqStr_Inr: "reqStr p k m = Inr s \<longleftrightarrow> str_field k p = Some s"
  by (auto simp: reqStr_def split: option.splits)

lemma reqStr_Inl: "reqStr p k m = Inl r \<Longrightarrow> \<exists>msg. r = Error KInvalidRequest msg"
  by (auto simp: reqStr_def split: option.splits)

lemma str_field_Some: "str_field k j = Some s \<longleftrightarrow> jfind k j = Some (JStr s)"
proof
  show "str_field k j = Some s \<Longrightarrow> jfind k j = Some (JStr s)"
    unfolding str_field_def by (cases "jfind k j"; cases "the (jfind k j)") auto
qed (simp add: str_field_def)

lemma int_field_Some: "int_field k j = Some i \<longleftrightarrow> jfind k j = Some (JInt i)"
proof
  show "int_field k j = Some i \<Longrightarrow> jfind k j = Some (JInt i)"
    unfolding int_field_def by (cases "jfind k j"; cases "the (jfind k j)") auto
qed (simp add: int_field_def)

end
