(* ===== verification/Config.thy ===== *)
theory Config
  imports Json
begin

text \<open>
  The settings of the process, written once by \<^verbatim>\<open>main\<close> before any worker starts and only
  read afterwards: the namespace-scope variables of \<^verbatim>\<open>agent/main.cpp\<close> (\<^verbatim>\<open>g_allowWrite\<close>,
  \<^verbatim>\<open>g_gitExecAllowed\<close>, ...), and the environment variable \<^verbatim>\<open>HOME\<close> the path anchoring reads.
\<close>

record agent_config =
  g_allowWrite :: bool
  g_gitExecAllowed :: "string list"
  g_gitExecReadForms :: bool
  g_gitExecEditors :: bool
  g_gitExecConfigKeys :: "string list"
  g_allowedRoots :: "string list"
  g_allowedRootsAsGiven :: "string list"
  g_configUnreadable :: "string list"
  g_configLoaded :: "string list"
  env_HOME :: "string option"

definition initial_config :: "string option \<Rightarrow> agent_config" where
  "initial_config home =
     \<lparr>g_allowWrite = False, g_gitExecAllowed = [], g_gitExecReadForms = False,
      g_gitExecEditors = False, g_gitExecConfigKeys = [], g_allowedRoots = [],
      g_allowedRootsAsGiven = [], g_configUnreadable = [], g_configLoaded = [],
      env_HOME = home\<rparr>"

text \<open>
  \<^verbatim>\<open>resolveRoot\<close>: an absolute path passes through, anything else is anchored under \<^verbatim>\<open>$HOME\<close>
  (or \<^verbatim>\<open>/tmp\<close> when that is unset or empty).
\<close>

definition resolveRoot :: "agent_config \<Rightarrow> string \<Rightarrow> string" where
  "resolveRoot cfg p =
     (if p \<noteq> [] \<and> hd p = CHR ''/'' then p
      else (let base = (case env_HOME cfg of
                          Some h \<Rightarrow> if h \<noteq> [] then h else ''/tmp''
                        | None \<Rightarrow> ''/tmp'')
            in base @ ''/'' @ p))"

text \<open>\<^verbatim>\<open>remoteHome\<close>: the \<^verbatim>\<open>$HOME\<close> reported to clients, empty when unset.\<close>

definition remoteHome :: "agent_config \<Rightarrow> string" where
  "remoteHome cfg = (case env_HOME cfg of Some h \<Rightarrow> h | None \<Rightarrow> [])"

lemma resolveRoot_absolute [simp]: "p \<noteq> [] \<Longrightarrow> hd p = CHR ''/'' \<Longrightarrow> resolveRoot cfg p = p"
  by (simp add: resolveRoot_def)

lemma resolveRoot_relative:
  assumes "env_HOME cfg = Some h" and "h \<noteq> []" and "p = [] \<or> hd p \<noteq> CHR ''/''"
  shows "resolveRoot cfg p = h @ ''/'' @ p"
  using assms by (auto simp: resolveRoot_def)

lemma resolveRoot_idem:
  assumes "\<And>h. env_HOME cfg = Some h \<Longrightarrow> h = [] \<or> hd h = CHR ''/''"
  shows "resolveRoot cfg (resolveRoot cfg p) = resolveRoot cfg p"
  using assms by (auto simp: resolveRoot_def Let_def hd_append split: option.splits)

end
