(* ===== verification/Lanes.thy ===== *)
theory Lanes
  imports Json
begin

text \<open>
  The priority lanes (\<^verbatim>\<open>enum class Lane\<close>), their names and defaults, and the container both
  the writer and the work queue are built on: one first-in first-out queue per lane, scanned
  from the highest priority (\<^verbatim>\<open>std::array<std::deque<T>, kLaneCount>\<close>).
\<close>

section \<open>Lanes\<close>

datatype lane = Interactive | Normal | Bulk

fun lane_index :: "lane \<Rightarrow> nat" where
  "lane_index Interactive = 0"
| "lane_index Normal = 1"
| "lane_index Bulk = 2"

lemma lane_index_inject [simp]: "lane_index a = lane_index b \<longleftrightarrow> a = b"
  by (cases a; cases b) auto

text \<open>A lane is smaller the earlier the scan meets it.\<close>

instantiation lane :: linorder
begin

definition less_eq_lane :: "lane \<Rightarrow> lane \<Rightarrow> bool" where
  "less_eq_lane a b \<longleftrightarrow> lane_index a \<le> lane_index b"

definition less_lane :: "lane \<Rightarrow> lane \<Rightarrow> bool" where
  "less_lane a b \<longleftrightarrow> lane_index a < lane_index b"

instance
  by standard (auto simp: less_eq_lane_def less_lane_def)

end

definition lanes :: "lane list" where
  "lanes = [Interactive, Normal, Bulk]"

lemma all_lanes: "(\<forall>l. P l) \<longleftrightarrow> P Interactive \<and> P Normal \<and> P Bulk"
  by (metis lane.exhaust)

lemma ex_lane: "(\<exists>l. P l) \<longleftrightarrow> P Interactive \<or> P Normal \<or> P Bulk"
  by (metis lane.exhaust)

lemma set_lanes [simp]: "set lanes = UNIV"
  by (auto simp: lanes_def) (metis lane.exhaust)

fun laneName :: "lane \<Rightarrow> string" where
  "laneName Interactive = ''interactive''"
| "laneName Normal = ''normal''"
| "laneName Bulk = ''bulk''"

definition laneFromString :: "string \<Rightarrow> lane \<Rightarrow> lane" where
  "laneFromString s fallback =
     (if s = ''interactive'' then Interactive
      else if s = ''normal'' then Normal
      else if s = ''bulk'' then Bulk
      else fallback)"

definition defaultLaneFor :: "string \<Rightarrow> lane" where
  "defaultLaneFor m =
     (if m = ''meta.debug'' then Normal
      else if m = ''index.run'' \<or> m = ''git.clone'' \<or> m = ''git.fetch''
              \<or> m = ''git.ensureRepository'' then Bulk
      else if m = ''cred.selftest'' then Normal
      else if m = ''git.exec'' then Normal
      else if m = ''lsp.tunnelOpen'' then Normal
      else Interactive)"

lemma laneFromString_laneName [simp]: "laneFromString (laneName l) d = l"
  by (cases l) (simp_all add: laneFromString_def)

text \<open>\<^verbatim>\<open>logTag\<close>: the prefix of a request's log lines; \<open>idText\<close> is the id's serialization.\<close>

definition logTag :: "string \<Rightarrow> lane \<Rightarrow> string" where
  "logTag idText l = ''[id='' @ idText @ '' lane='' @ laneName l @ ''] ''"

section \<open>One queue per lane\<close>

type_synonym 'a lane_queues = "lane \<Rightarrow> 'a list"

definition no_queues :: "'a lane_queues" where
  "no_queues = (\<lambda>_. [])"

definition lq_push :: "lane \<Rightarrow> 'a \<Rightarrow> 'a lane_queues \<Rightarrow> 'a lane_queues" where
  "lq_push l x q = q(l := q l @ [x])"

text \<open>The first lane in priority order that is not empty and that \<open>ok\<close> admits.\<close>

definition lq_pick :: "(lane \<Rightarrow> bool) \<Rightarrow> 'a lane_queues \<Rightarrow> lane option" where
  "lq_pick ok q = find (\<lambda>l. q l \<noteq> [] \<and> ok l) lanes"

definition lq_pop :: "lane \<Rightarrow> 'a lane_queues \<Rightarrow> 'a lane_queues" where
  "lq_pop l q = q(l := tl (q l))"

definition lq_empty :: "'a lane_queues \<Rightarrow> bool" where
  "lq_empty q \<longleftrightarrow> (\<forall>l \<in> set lanes. q l = [])"

lemma lq_empty_iff: "lq_empty q \<longleftrightarrow> (\<forall>l. q l = [])"
  by (simp add: lq_empty_def)

lemma lq_empty_no_queues [simp]: "lq_empty no_queues"
  by (simp add: lq_empty_iff no_queues_def)

lemma lq_pick_None: "lq_pick ok q = None \<longleftrightarrow> (\<forall>l. q l = [] \<or> \<not> ok l)"
  by (auto simp: lq_pick_def find_None_iff)

lemma lq_pick_Some:
  "lq_pick ok q = Some l \<longleftrightarrow>
     q l \<noteq> [] \<and> ok l \<and> (\<forall>l' < l. q l' = [] \<or> \<not> ok l')"
  unfolding lq_pick_def lanes_def
  by (cases l) (simp_all add: less_lane_def all_lanes)

text \<open>How many elements are queued, over all lanes.\<close>

definition lq_size :: "'a lane_queues \<Rightarrow> nat" where
  "lq_size q = sum_list (map (\<lambda>l. length (q l)) lanes)"

lemma lq_size_push [simp]: "lq_size (lq_push l x q) = Suc (lq_size q)"
  by (cases l) (auto simp: lq_size_def lq_push_def lanes_def)

lemma lq_size_pop [simp]: "q l \<noteq> [] \<Longrightarrow> Suc (lq_size (lq_pop l q)) = lq_size q"
  by (cases l; cases "q l") (auto simp: lq_size_def lq_pop_def lanes_def)

lemma lq_size_0: "lq_size q = 0 \<longleftrightarrow> lq_empty q"
  by (auto simp: lq_size_def lq_empty_def)

lemma lq_push_lookup [simp]: "lq_push l x q l' = (if l' = l then q l @ [x] else q l')"
  by (simp add: lq_push_def)

lemma lq_pop_lookup [simp]: "lq_pop l q l' = (if l' = l then tl (q l) else q l')"
  by (simp add: lq_pop_def)

end
