(* ===== verification/GitPolicy.thy ===== *)
theory GitPolicy
  imports Config
begin

text \<open>
  The policy of \<^verbatim>\<open>git.exec\<close> and \<^verbatim>\<open>git.spawn\<close>: which git subcommands, arguments and
  configuration settings a request may pass (\<^verbatim>\<open>agent/main.cpp\<close>, from \<^verbatim>\<open>kGitExecReadOnly\<close> to
  \<^verbatim>\<open>gitExecNeedsCredentials\<close>). An argument list is a \<open>string list\<close>; where the code scans
  \<^verbatim>\<open>args[from..]\<close> the model takes that suffix.
\<close>

section \<open>The allowlists\<close>

definition kGitExecReadOnly :: "string list" where
  "kGitExecReadOnly =
     [''blame'', ''cat-file'', ''check-attr'', ''check-ignore'', ''check-ref-format'',
      ''count-objects'', ''describe'', ''diff'', ''diff-files'', ''diff-index'',
      ''diff-tree'', ''for-each-ref'', ''grep'', ''log'', ''ls-files'', ''ls-remote'',
      ''ls-tree'', ''merge-base'', ''name-rev'', ''patch-id'', ''rev-list'',
      ''rev-parse'', ''shortlog'', ''show'', ''show-ref'', ''status'',
      ''var'', ''verify-commit'', ''verify-tag'', ''version'', ''whatchanged'']"

definition kGitExecMagit :: "string list" where
  "kGitExecMagit =
     [''add'', ''am'', ''apply'', ''bisect'', ''checkout'', ''cherry'', ''cherry-pick'',
      ''clean'', ''commit'', ''fetch'', ''format-patch'', ''merge'', ''mv'', ''notes'',
      ''pull'', ''push'', ''range-diff'', ''rebase'', ''reflog'', ''remote'', ''reset'',
      ''restore'', ''revert'', ''rm'', ''stash'', ''submodule'', ''switch'',
      ''update-index'', ''worktree'',
      ''branch'', ''tag'', ''symbolic-ref'',
      ''read-tree'', ''write-tree'', ''commit-tree'', ''update-ref'', ''mktree'',
      ''hash-object'', ''checkout-index'', ''merge-tree'', ''sparse-checkout'',
      ''request-pull'', ''bundle'', ''subtree'', ''init'', ''interpret-trailers'',
      ''rerere'', ''stripspace'',
      ''config'']"

definition kGitExecConfigDefaults :: "string list" where
  "kGitExecConfigDefaults =
     [''advice'', ''color'',
      ''core.abbrev'', ''core.commitgraph'', ''core.preloadindex'',
      ''core.quotepath'', ''core.untrackedcache'',
      ''diff.algorithm'', ''diff.context'', ''diff.mnemonicprefix'',
      ''diff.noprefix'', ''diff.renames'', ''diff.submodule'',
      ''gc.auto'', ''i18n.logoutputencoding'',
      ''log.date'', ''log.showsignature'',
      ''status.relativepaths'', ''status.showuntrackedfiles'']"

section \<open>Reading forms of the subcommands that also write\<close>

definition is_option :: "string \<Rightarrow> bool" where
  "is_option a \<longleftrightarrow> a \<noteq> [] \<and> hd a = CHR ''-''"

definition config_actions :: "string list" where
  "config_actions =
     [''--get'', ''--get-all'', ''--get-regexp'', ''--get-urlmatch'',
      ''--list'', ''-l'', ''--get-color'', ''--get-colorbool'']"

definition config_modifiers :: "string list" where
  "config_modifiers =
     [''--local'', ''--global'', ''--system'', ''--worktree'',
      ''-z'', ''--null'', ''--name-only'', ''--show-origin'', ''--show-scope'',
      ''--includes'', ''--no-includes'', ''--include'',
      ''--bool'', ''--int'', ''--bool-or-int'', ''--path'', ''--expiry-date'',
      ''--fixed-value'']"

text \<open>The loop of \<^verbatim>\<open>isReadOnlyConfigQuery\<close>, with \<^verbatim>\<open>sawAction\<close> carried along.\<close>

fun config_query_loop :: "bool \<Rightarrow> string list \<Rightarrow> bool" where
  "config_query_loop sawAction [] = sawAction"
| "config_query_loop sawAction (a # rest) =
     (if \<not> is_option a then config_query_loop sawAction rest
      else if a \<in> set config_actions then config_query_loop True rest
      else if a \<in> set config_modifiers
              \<or> starts_with a ''--type='' \<or> starts_with a ''--default=''
        then config_query_loop sawAction rest
      else False)"

definition isReadOnlyConfigQuery :: "string list \<Rightarrow> bool" where
  "isReadOnlyConfigQuery args = config_query_loop False args"

text \<open>
  \<^verbatim>\<open>onlyTheseOptions\<close>: \<open>None\<close> when an option is not one of \<open>allowed\<close>, else whether a positional
  argument was seen.
\<close>

definition option_listed :: "string list \<Rightarrow> string \<Rightarrow> bool" where
  "option_listed allowed a \<longleftrightarrow>
     (\<exists>opt \<in> set allowed.
        if opt \<noteq> [] \<and> last opt = CHR ''='' then starts_with a opt else a = opt)"

fun onlyTheseOptions :: "string list \<Rightarrow> bool \<Rightarrow> string list \<Rightarrow> bool option" where
  "onlyTheseOptions allowed saw [] = Some saw"
| "onlyTheseOptions allowed saw (a # rest) =
     (if \<not> is_option a then onlyTheseOptions allowed True rest
      else if option_listed allowed a then onlyTheseOptions allowed saw rest
      else None)"

definition hasArg :: "string list \<Rightarrow> string list \<Rightarrow> bool" where
  "hasArg args any \<longleftrightarrow> (\<exists>a \<in> set args. a \<in> set any)"

definition branch_read_options :: "string list" where
  "branch_read_options =
     [''--list'', ''-l'', ''-a'', ''--all'', ''-r'', ''--remotes'', ''-v'', ''-vv'',
      ''--verbose'', ''--show-current'', ''--no-color'', ''--color'',
      ''--color='', ''--no-column'', ''--column'', ''--column='',
      ''--format='', ''--sort='', ''--abbrev='', ''--no-abbrev'',
      ''-i'', ''--ignore-case'', ''--contains='', ''--no-contains='',
      ''--merged='', ''--no-merged='', ''--points-at='']"

definition tag_read_options :: "string list" where
  "tag_read_options =
     [''--list'', ''-l'', ''-n'', ''--no-color'', ''--color'', ''--color='',
      ''--no-column'', ''--column'', ''--column='', ''--format='',
      ''--sort='', ''-i'', ''--ignore-case'', ''--contains='',
      ''--no-contains='', ''--merged='', ''--no-merged='',
      ''--points-at='']"

definition symref_read_options :: "string list" where
  "symref_read_options = [''--short'', ''-q'', ''--quiet'', ''--no-recurse'']"

definition isReadOnlyInvocation :: "string \<Rightarrow> string list \<Rightarrow> bool" where
  "isReadOnlyInvocation subcommand args =
     (if subcommand = ''config'' then isReadOnlyConfigQuery args
      else if subcommand = ''branch'' then
        (case onlyTheseOptions branch_read_options False args of
           None \<Rightarrow> False
         | Some positional \<Rightarrow> \<not> positional \<or> hasArg args [''--list'', ''-l''])
      else if subcommand = ''tag'' then
        (case onlyTheseOptions tag_read_options False args of
           None \<Rightarrow> False
         | Some positional \<Rightarrow> \<not> positional \<or> hasArg args [''--list'', ''-l''])
      else if subcommand = ''symbolic-ref'' then
        (case onlyTheseOptions symref_read_options False args of
           None \<Rightarrow> False
         | Some _ \<Rightarrow> length (filter (\<lambda>a. a \<noteq> [] \<and> hd a \<noteq> CHR ''-'') args) = 1)
      else False)"

section \<open>Refused arguments\<close>

text \<open>
  \<^verbatim>\<open>spellsLongOption\<close> compares with \<^verbatim>\<open>strncmp\<close> over the length of the name, which stops at a
  NUL byte of the name.
\<close>

definition spellsLongOption :: "string \<Rightarrow> string \<Rightarrow> bool" where
  "spellsLongOption arg denied =
     (if length arg < 3 \<or> arg ! 0 \<noteq> CHR ''-'' \<or> arg ! 1 \<noteq> CHR ''-'' then False
      else (let name = before CHR ''='' arg in strncmp_eq (length name) name denied))"

definition hasShortOption :: "string \<Rightarrow> char \<Rightarrow> bool" where
  "hasShortOption arg letter \<longleftrightarrow>
     length arg \<ge> 2 \<and> arg ! 0 = CHR ''-'' \<and> arg ! 1 \<noteq> CHR ''-'' \<and> letter \<in> set (drop 1 arg)"

definition leavesTheRepository :: "string \<Rightarrow> bool" where
  "leavesTheRepository arg =
     (if arg = [] \<or> hd arg = CHR ''-'' then False
      else if hd arg = CHR ''/'' then True
      else ''..'' \<in> set (split_on CHR ''/'' arg))"

definition isForbiddenFor :: "string \<Rightarrow> string \<Rightarrow> bool" where
  "isForbiddenFor subcommand arg \<longleftrightarrow>
     ((subcommand = ''diff'' \<or> subcommand = ''grep'') \<and> spellsLongOption arg ''--no-index'')
   \<or> (subcommand = ''diff'' \<and> leavesTheRepository arg)
   \<or> (subcommand = ''grep'' \<and>
        (spellsLongOption arg ''--open-files-in-pager'' \<or> spellsLongOption arg ''--file''
         \<or> hasShortOption arg CHR ''O'' \<or> hasShortOption arg CHR ''f''))
   \<or> ((subcommand = ''blame'' \<or> subcommand = ''annotate'') \<and>
        (spellsLongOption arg ''--contents'' \<or> spellsLongOption arg ''--ignore-revs-file''
         \<or> hasShortOption arg CHR ''S''))
   \<or> (subcommand = ''ls-files'' \<and>
        (spellsLongOption arg ''--exclude-from'' \<or> hasShortOption arg CHR ''X''))"

definition kDeny :: "string list" where
  "kDeny =
     [''--config-env'', ''--exec-path'', ''--upload-pack'', ''--receive-pack'',
      ''--git-dir'', ''--work-tree'', ''--namespace'', ''--ext-diff'',
      ''--output'', ''--gpg-sign'', ''--textconv'', ''--pathspec-from-file'']"

definition isForbiddenGitArg :: "string \<Rightarrow> string \<Rightarrow> bool" where
  "isForbiddenGitArg subcommand arg =
     (if arg \<in> set [''-c'', ''-C''] then True
      else if starts_with arg ''-c='' then True
      else if starts_with arg ''-O'' then True
      else if starts_with arg ''--textconv'' then True
      else (let name = before CHR ''='' arg
            in if name = ''--text'' \<and> subcommand \<noteq> ''cat-file'' then False
               else if name = ''--path'' \<and> subcommand = ''config'' then False
               else (\<exists>deny \<in> set kDeny. spellsLongOption arg deny)))"

definition isAllowedGlobalGitArg :: "string \<Rightarrow> bool" where
  "isAllowedGlobalGitArg arg \<longleftrightarrow>
     arg \<in> set [''--no-pager'', ''--paginate'', ''--no-replace-objects'',
                ''--literal-pathspecs'', ''--no-optional-locks'', ''--bare'']"

definition isAllowedGitConfig :: "agent_config \<Rightarrow> string \<Rightarrow> bool" where
  "isAllowedGitConfig cfg setting =
     (let key = ascii_lower (before CHR ''='' setting)
      in if key = [] then False
         else (let section = before CHR ''.'' key
               in \<exists>allowed \<in> set (g_gitExecConfigKeys cfg).
                    key = allowed \<or> (CHR ''.'' \<notin> set allowed \<and> section = allowed)))"

section \<open>The decision\<close>

text \<open>
  Pass 1 of \<^verbatim>\<open>gitExecPermitted\<close>: the global options, up to the subcommand. It gives the
  arguments from the subcommand on, or the message naming the offending argument.
\<close>

fun global_pass :: "agent_config \<Rightarrow> string list \<Rightarrow> string + string list" where
  "global_pass cfg [] = Inl ''git.exec requires a subcommand''"
| "global_pass cfg (a # rest) =
     (if \<not> is_option a then Inr (a # rest)
      else if a = ''-c'' then
        (case rest of
           [] \<Rightarrow> Inl ''-c requires a <key>=<value> argument''
         | setting # rest' \<Rightarrow>
             if \<not> isAllowedGitConfig cfg setting
             then Inl (''config setting '' @ quoted setting @
                       '' is not permitted; this agent allows -c only for a fixed set of '' @
                       ''formatting and local-behavior keys (extend with --git-exec-config)'')
             else global_pass cfg rest')
      else if \<not> isAllowedGlobalGitArg a
        then Inl (''global option '' @ quoted a @
                  '' is not permitted before a git.exec subcommand'')
      else global_pass cfg rest)"

text \<open>Pass 2: the arguments after the subcommand (\<open>j > i\<close>), in order.\<close>

definition arg_problem :: "string \<Rightarrow> string \<Rightarrow> string option" where
  "arg_problem subcommand a =
     (if isForbiddenFor subcommand a
      then Some (''argument '' @ quoted a @ '' is refused for '' @ [CHR 0x27] @ ''git '' @
                 subcommand @ [CHR 0x27] @
                 '': it reaches outside the repository or runs a program'')
      else if isForbiddenGitArg subcommand a
      then Some (''argument '' @ quoted a @ '' is refused: it would let the request run an '' @
                 ''arbitrary command through git'')
      else None)"

definition exempt_arg :: "string \<Rightarrow> string \<Rightarrow> bool" where
  "exempt_arg subcommand a \<longleftrightarrow>
     (subcommand = ''rev-parse'' \<and> a = ''--git-dir'') \<or> a = ''-c'' \<or> a = ''-C''"

fun args_pass :: "string \<Rightarrow> string list \<Rightarrow> string option" where
  "args_pass subcommand [] = None"
| "args_pass subcommand (a # rest) =
     (if exempt_arg subcommand a then args_pass subcommand rest
      else case arg_problem subcommand a of
        Some err \<Rightarrow> Some err
      | None \<Rightarrow> args_pass subcommand rest)"

definition gitExecPermitted :: "agent_config \<Rightarrow> string list \<Rightarrow> string + string" where
  "gitExecPermitted cfg args =
     (if g_gitExecAllowed cfg = []
      then Inl (''git.exec is disabled; start the agent with --git-exec <subcommand> '' @
                ''or --git-exec-preset <read-only|magit>'')
      else case global_pass cfg args of
        Inl err \<Rightarrow> Inl err
      | Inr [] \<Rightarrow> Inl ''git.exec requires a subcommand''
      | Inr (subcommand # rest) \<Rightarrow>
          (let readForm = g_gitExecReadForms cfg \<and> isReadOnlyInvocation subcommand rest
           in if \<not> readForm \<and> subcommand \<notin> set (g_gitExecAllowed cfg)
              then Inl (''git subcommand '' @ quoted subcommand @
                        '' is not in this agent's git.exec allowlist'')
              else (case arg_problem subcommand subcommand of
                      Some err \<Rightarrow> Inl err
                    | None \<Rightarrow>
                        (case args_pass subcommand rest of
                           Some err \<Rightarrow> Inl err
                         | None \<Rightarrow> Inr subcommand))))"

definition gitExecNeedsCredentials :: "string \<Rightarrow> bool" where
  "gitExecNeedsCredentials subcommand \<longleftrightarrow>
     subcommand \<in> set [''fetch'', ''pull'', ''push'', ''ls-remote'', ''clone'', ''submodule'']"


section \<open>What the decision guarantees\<close>

text \<open>
  How git reads an option, for the statements below: a long option may be abbreviated to any
  prefix of its name and may carry a value after \<^verbatim>\<open>=\<close>. git sees an argument up to its first
  NUL byte (\<open>c_str\<close>), since it travels through \<^verbatim>\<open>execvp\<close>.
\<close>

definition git_abbreviates :: "string \<Rightarrow> string \<Rightarrow> bool" where
  "git_abbreviates arg opt \<longleftrightarrow>
     (let name = before CHR ''='' arg
      in 3 \<le> length name \<and> prefix ''--'' name \<and> prefix name opt)"

definition git_bundles :: "string \<Rightarrow> char \<Rightarrow> bool" where
  "git_bundles arg letter \<longleftrightarrow>
     (\<exists>cs. arg = CHR ''-'' # cs \<and> cs \<noteq> [] \<and> hd cs \<noteq> CHR ''-'' \<and> letter \<in> set cs)"

fun globals_ok :: "agent_config \<Rightarrow> string list \<Rightarrow> bool" where
  "globals_ok cfg [] = True"
| "globals_ok cfg (a # gs) =
     (if a = ''-c''
      then (case gs of [] \<Rightarrow> False | s # gs' \<Rightarrow> isAllowedGitConfig cfg s \<and> globals_ok cfg gs')
      else isAllowedGlobalGitArg a \<and> globals_ok cfg gs)"

lemma set_beforeD: "x \<in> set (before c s) \<Longrightarrow> x \<in> set s"
  unfolding before_def by (meson set_takeWhileD)

lemma nth_takeWhile_01:
  assumes "prefix ''--'' (before CHR ''='' arg)"
  shows "2 \<le> length arg \<and> arg ! 0 = CHR ''-'' \<and> arg ! 1 = CHR ''-''"
proof -
  have "prefix (before CHR ''='' arg) arg"
    unfolding before_def by (simp add: takeWhile_is_prefix)
  with assms have "prefix ''--'' arg"
    by (rule prefix_order.trans)
  then show ?thesis
    by (auto simp: prefix_def)
qed

lemma abbreviation_is_spelled:
  assumes "git_abbreviates arg opt" and "CHR 0x00 \<notin> set arg" and "CHR 0x00 \<notin> set opt"
  shows "spellsLongOption arg opt"
proof -
  let ?name = "before CHR ''='' arg"
  have "3 \<le> length ?name" "prefix ''--'' ?name" "prefix ?name opt"
    using assms(1) by (simp_all add: git_abbreviates_def Let_def)
  moreover have "length ?name \<le> length arg"
    unfolding before_def by (rule length_takeWhile_le)
  moreover have "CHR 0x00 \<notin> set ?name"
    using assms(2) by (auto dest: set_beforeD)
  ultimately show ?thesis
    using assms(3) nth_takeWhile_01 [of arg]
    by (simp add: spellsLongOption_def Let_def strncmp_eq_prefix)
qed

lemma bundle_is_short_option: "git_bundles arg letter \<Longrightarrow> hasShortOption arg letter"
  by (auto simp: git_bundles_def hasShortOption_def neq_Nil_conv)

lemma kDeny_clean: "d \<in> set kDeny \<Longrightarrow> CHR 0x00 \<notin> set d"
  by (auto simp: kDeny_def)

lemma global_pass_sound:
  "global_pass cfg args = Inr rest \<Longrightarrow>
     \<exists>gs. args = gs @ rest \<and> globals_ok cfg gs \<and> rest \<noteq> [] \<and> \<not> is_option (hd rest)"
proof (induction cfg args rule: global_pass.induct)
  case (2 cfg a rest')
  show ?case
  proof (cases "is_option a")
    case False
    with "2.prems" show ?thesis by (intro exI [of _ "[]"]) auto
  next
    case opt: True
    show ?thesis
    proof (cases "a = ''-c''")
      case True
      then obtain s tl' where s: "rest' = s # tl'" "isAllowedGitConfig cfg s"
          "global_pass cfg tl' = Inr rest"
        using "2.prems" opt by (auto split: list.splits if_splits)
      from "2.IH"(1) [OF _ True s(1)] opt s obtain gs where
        "tl' = gs @ rest" "globals_ok cfg gs" "rest \<noteq> []" "\<not> is_option (hd rest)"
        by auto
      with s True show ?thesis by (intro exI [of _ "a # s # gs"]) auto
    next
      case False
      with "2.prems" opt have "isAllowedGlobalGitArg a" "global_pass cfg rest' = Inr rest"
        by (auto split: if_splits)
      with "2.IH"(2) [OF _ False] opt obtain gs where
        "rest' = gs @ rest" "globals_ok cfg gs" "rest \<noteq> []" "\<not> is_option (hd rest)"
        by auto
      with False \<open>isAllowedGlobalGitArg a\<close> show ?thesis by (intro exI [of _ "a # gs"]) auto
    qed
  qed
qed simp

lemma gitExecPermitted_cases:
  assumes "gitExecPermitted cfg args = Inr sub"
  obtains gs rest where "args = gs @ sub # rest" and "globals_ok cfg gs" and "\<not> is_option sub"
    and "sub \<in> set (g_gitExecAllowed cfg)
         \<or> (g_gitExecReadForms cfg \<and> isReadOnlyInvocation sub rest)"
    and "args_pass sub rest = None"
proof -
  from assms obtain rest where rest: "global_pass cfg args = Inr (sub # rest)"
      "sub \<in> set (g_gitExecAllowed cfg)
       \<or> (g_gitExecReadForms cfg \<and> isReadOnlyInvocation sub rest)"
      "args_pass sub rest = None"
    unfolding gitExecPermitted_def Let_def
    by (auto split: sum.splits list.splits if_splits option.splits)
  then show ?thesis
    using global_pass_sound [OF rest(1)] that by fastforce
qed

text \<open>The options, long and single-letter, that are a way out for one subcommand in particular.\<close>

definition dangerous_option :: "string \<Rightarrow> string \<Rightarrow> bool" where
  "dangerous_option sub d \<longleftrightarrow>
     ((sub = ''diff'' \<or> sub = ''grep'') \<and> d = ''--no-index'')
   \<or> (sub = ''grep'' \<and> (d = ''--open-files-in-pager'' \<or> d = ''--file''))
   \<or> ((sub = ''blame'' \<or> sub = ''annotate'') \<and> (d = ''--contents'' \<or> d = ''--ignore-revs-file''))
   \<or> (sub = ''ls-files'' \<and> d = ''--exclude-from'')"

definition dangerous_letter :: "string \<Rightarrow> char \<Rightarrow> bool" where
  "dangerous_letter sub l \<longleftrightarrow>
     (sub = ''grep'' \<and> (l = CHR ''O'' \<or> l = CHR ''f''))
   \<or> ((sub = ''blame'' \<or> sub = ''annotate'') \<and> l = CHR ''S'')
   \<or> (sub = ''ls-files'' \<and> l = CHR ''X'')"

text \<open>
  What an argument must not be: an option, in any spelling git takes, that hands git a program to run, moves the
  repository, or reads or writes a file of the client's choosing; for \<^verbatim>\<open>diff\<close> also a path out of the work tree.
  \<^verbatim>\<open>--text\<close> and \<^verbatim>\<open>--path\<close> are options of their own although they begin a denied one.
\<close>

definition denied_options :: "string list" where
  "denied_options =
     [''--exec-path'', ''--upload-pack'', ''--receive-pack'', ''--ext-diff'', ''--gpg-sign'', ''--textconv'', ''--config-env'',
      ''--git-dir'', ''--work-tree'', ''--namespace'',
      ''--output'', ''--pathspec-from-file'']"

definition climbs_out :: "string \<Rightarrow> bool" where
  "climbs_out a \<longleftrightarrow>
     prefix ''/'' a
     \<or> \<not> prefix ''-'' a \<and> (\<exists>x y. a = x @ ''..'' @ y \<and> (x = [] \<or> last x = CHR ''/'') \<and> (y = [] \<or> hd y = CHR ''/''))"

definition way_out :: "string \<Rightarrow> string \<Rightarrow> bool" where
  "way_out sub a \<longleftrightarrow>
     a = ''-c'' \<or> a = ''-C'' \<or> prefix ''-c='' a \<or> prefix ''-O'' a \<or> prefix ''--textconv'' a \<or> prefix ''--='' a
     \<or> (\<exists>d \<in> set denied_options. git_abbreviates a d)
         \<and> \<not> (before CHR ''='' a = ''--text'' \<and> sub \<noteq> ''cat-file'') \<and> \<not> (before CHR ''='' a = ''--path'' \<and> sub = ''config'')
     \<or> (\<exists>d. dangerous_option sub d \<and> git_abbreviates a d)
     \<or> (\<exists>l. dangerous_letter sub l \<and> git_bundles a l)
     \<or> sub = ''diff'' \<and> climbs_out a"

text \<open>The spellings of these a subcommand gives a meaning of its own.\<close>

definition own_meaning :: "string \<Rightarrow> string \<Rightarrow> bool" where
  "own_meaning sub a \<longleftrightarrow> a = ''-c'' \<or> a = ''-C'' \<or> sub = ''rev-parse'' \<and> a = ''--git-dir''"

text \<open>
  What may stand before the subcommand: switches that only change how git shows or finds things, and \<^verbatim>\<open>-c\<close> with a
  setting whose key, whatever its case, is listed, or lies in a section that is listed without a dot.
\<close>

definition setting_listed :: "agent_config \<Rightarrow> string \<Rightarrow> bool" where
  "setting_listed cfg setting \<longleftrightarrow>
     (\<exists>key. key = ascii_lower (before CHR ''='' setting) \<and> key \<noteq> []
        \<and> (key \<in> set (g_gitExecConfigKeys cfg)
           \<or> (\<exists>sec more. sec \<in> set (g_gitExecConfigKeys cfg) \<and> CHR ''.'' \<notin> set sec \<and> key = sec @ CHR ''.'' # more)))"

fun leading_ok :: "agent_config \<Rightarrow> string list \<Rightarrow> bool" where
  "leading_ok cfg [] = True"
| "leading_ok cfg [a] =
     (a \<in> {''--bare'', ''--literal-pathspecs'', ''--no-optional-locks'', ''--no-pager'', ''--no-replace-objects'', ''--paginate''})"
| "leading_ok cfg (a # b # gs) =
     (if a = ''-c'' then setting_listed cfg b \<and> leading_ok cfg gs
      else a \<in> {''--bare'', ''--literal-pathspecs'', ''--no-optional-locks'', ''--no-pager'', ''--no-replace-objects'', ''--paginate''}
           \<and> leading_ok cfg (b # gs))"

definition accepted_form :: "agent_config \<Rightarrow> string \<Rightarrow> string list \<Rightarrow> bool" where
  "accepted_form cfg sub args \<longleftrightarrow>
     g_gitExecAllowed cfg \<noteq> []
     \<and> (\<exists>gs rest. args = gs @ sub # rest \<and> leading_ok cfg gs \<and> \<not> prefix ''-'' sub
         \<and> (sub \<in> set (g_gitExecAllowed cfg) \<or> (g_gitExecReadForms cfg \<and> isReadOnlyInvocation sub rest))
         \<and> (\<forall>a \<in> set rest. CHR 0x00 \<notin> set a \<longrightarrow> way_out sub a \<longrightarrow> own_meaning sub a))"

lemma is_option_prefix: "is_option a \<longleftrightarrow> prefix ''-'' a"
  by (cases a) (auto simp: is_option_def)

lemma isAllowedGitConfig_iff: "isAllowedGitConfig cfg s \<longleftrightarrow> setting_listed cfg s"
proof -
  let ?key = "ascii_lower (before CHR ''='' s)"
  have "before CHR ''.'' ?key = sec \<longleftrightarrow> ?key = sec \<or> (\<exists>more. ?key = sec @ CHR ''.'' # more)" if "CHR ''.'' \<notin> set sec" for sec
  proof (cases "CHR ''.'' \<in> set ?key")
    case True
    with before_after [OF True] that show ?thesis by (metis before_append_sep)
  next
    case False
    then show ?thesis by auto
  qed
  then have "(CHR ''.'' \<notin> set sec \<and> before CHR ''.'' ?key = sec) \<longleftrightarrow>
      CHR ''.'' \<notin> set sec \<and> (?key = sec \<or> (\<exists>more. ?key = sec @ CHR ''.'' # more))" for sec by blast
  then have "(\<exists>allowed \<in> set (g_gitExecConfigKeys cfg). ?key = allowed \<or> (CHR ''.'' \<notin> set allowed \<and> before CHR ''.'' ?key = allowed))
    \<longleftrightarrow> ?key \<in> set (g_gitExecConfigKeys cfg)
        \<or> (\<exists>sec more. sec \<in> set (g_gitExecConfigKeys cfg) \<and> CHR ''.'' \<notin> set sec \<and> ?key = sec @ CHR ''.'' # more)"
    by metis
  then show ?thesis
    unfolding isAllowedGitConfig_def setting_listed_def Let_def by (simp del: before_no_sep)
qed

lemma globals_ok_iff: "globals_ok cfg gs \<longleftrightarrow> leading_ok cfg gs"
  by (induction cfg gs rule: leading_ok.induct) (auto simp: isAllowedGitConfig_iff isAllowedGlobalGitArg_def)

lemma global_pass_complete:
  assumes "globals_ok cfg gs" and "\<not> is_option sub"
  shows "global_pass cfg (gs @ sub # rest) = Inr (sub # rest)"
  using assms
proof (induction cfg gs rule: globals_ok.induct)
  case (2 cfg a gs)
  then show ?case
    by (cases "a = ''-c''") (auto simp: is_option_def isAllowedGlobalGitArg_def split: list.splits)
qed simp

lemma args_pass_iff:
  "args_pass sub rest = None \<longleftrightarrow>
     (\<forall>a \<in> set rest. \<not> exempt_arg sub a \<longrightarrow> \<not> isForbiddenFor sub a \<and> \<not> isForbiddenGitArg sub a)"
  by (induction sub rest rule: args_pass.induct) (auto simp: arg_problem_def split: option.splits)

lemma dots_component:
  "x \<in> set (split_on c a) \<longleftrightarrow>
     c \<notin> set x \<and> (\<exists>u v. a = u @ x @ v \<and> (u = [] \<or> last u = c) \<and> (v = [] \<or> hd v = c))"
proof (induction "length a" arbitrary: a rule: less_induct)
  case less
  show ?case
  proof (cases "c \<in> set a")
    case False
    have "a = u @ x @ v \<and> (u = [] \<or> last u = c) \<and> (v = [] \<or> hd v = c) \<longleftrightarrow> u = [] \<and> v = [] \<and> a = x" for u v
    proof
      assume e: "a = u @ x @ v \<and> (u = [] \<or> last u = c) \<and> (v = [] \<or> hd v = c)"
      have "u = []" using e False last_in_set [of u] by (metis Un_iff set_append)
      moreover have "v = []" using e False hd_in_set [of v] by (metis Un_iff set_append)
      ultimately show "u = [] \<and> v = [] \<and> a = x" using e by simp
    qed auto
    then show ?thesis using False by (auto simp: split_on_no_sep)
  next
    case True
    then obtain s t where a: "a = s @ c # t" "c \<notin> set s" by (meson split_list_first)
    have "x \<in> set (split_on c a) \<longleftrightarrow> x = s \<or> x \<in> set (split_on c t)"
      using a by (simp add: split_on_append)
    also have "\<dots> \<longleftrightarrow> c \<notin> set x \<and> (\<exists>u v. a = u @ x @ v \<and> (u = [] \<or> last u = c) \<and> (v = [] \<or> hd v = c))" (is "?L \<longleftrightarrow> ?R")
    proof
      assume ?L
      then show ?R
      proof
        assume "x = s"
        with a show ?R by (intro conjI exI [of _ "[]"] exI [of _ "c # t"]) auto
      next
        assume "x \<in> set (split_on c t)"
        with less a obtain u v where uv: "c \<notin> set x" "t = u @ x @ v" "u = [] \<or> last u = c" "v = [] \<or> hd v = c" by auto
        with a show ?R by (intro conjI exI [of _ "s @ c # u"] exI [of _ v]) auto
      qed
    next
      assume ?R
      then obtain u v where uv: "c \<notin> set x" "a = u @ x @ v" "u = [] \<or> last u = c" "v = [] \<or> hd v = c" by blast
      show ?L
      proof (cases "u = []")
        case True
        with uv a have "x @ v = s @ c # t" by simp
        with uv a have "x = s" by (metis (no_types, opaque_lifting) append_Nil2 append_eq_append_conv_if append_take_drop_id before_append_sep before_no_sep hd_Cons_tl list.sel(1) neq_Nil_conv split_list_first)
        then show ?L by simp
      next
        case False
        with uv obtain u' where u: "u = u' @ [c]" by (metis append_butlast_last_id)
        have "\<exists>w. u = s @ c # w"
        proof -
          from u obtain p q where "u = p @ c # q" "c \<notin> set p" by (metis in_set_conv_decomp_first in_set_conv_decomp)
          moreover with uv a have "p = s"
            by (metis append.assoc append_Cons before_append_sep)
          ultimately show ?thesis by blast
        qed
        then obtain w where w: "u = s @ c # w" by blast
        with uv a have t: "t = w @ x @ v" by simp
        moreover have "w = [] \<or> last w = c" using w uv(3) False by (auto split: if_split_asm)
        ultimately show ?L using less a uv by auto
      qed
    qed
    finally show ?thesis .
  qed
qed

lemma leavesTheRepository_iff: "leavesTheRepository a \<longleftrightarrow> climbs_out a"
proof -
  have "''..'' \<in> set (split_on CHR ''/'' a) \<longleftrightarrow>
      (\<exists>x y. a = x @ ''..'' @ y \<and> (x = [] \<or> last x = CHR ''/'') \<and> (y = [] \<or> hd y = CHR ''/''))"
    unfolding dots_component by simp
  then show ?thesis
    unfolding leavesTheRepository_def climbs_out_def by (cases a) auto
qed

lemma spelled_iff:
  assumes "CHR 0x00 \<notin> set a" and "CHR 0x00 \<notin> set d" and "prefix ''--'' d"
  shows "spellsLongOption a d \<longleftrightarrow> git_abbreviates a d \<or> prefix ''--='' a"
proof
  assume s: "spellsLongOption a d"
  then have len: "3 \<le> length a" "a ! 0 = CHR ''-''" "a ! 1 = CHR ''-''"
    by (auto simp: spellsLongOption_def split: if_splits)
  then obtain c cs where a: "a = ''--'' @ c # cs"
    by (cases a; cases "tl a"; cases "tl (tl a)") auto
  have nul: "CHR 0x00 \<notin> set (before CHR ''='' a)" using assms(1) by (auto dest: set_beforeD)
  have p: "prefix (before CHR ''='' a) d"
    using s len by (auto simp: spellsLongOption_def Let_def strncmp_eq_prefix nul assms(2) split: if_splits)
  show "git_abbreviates a d \<or> prefix ''--='' a"
    using p unfolding a by (cases "c = CHR ''=''") (auto simp: git_abbreviates_def before_def Let_def)
next
  assume "git_abbreviates a d \<or> prefix ''--='' a"
  then show "spellsLongOption a d"
  proof
    assume "git_abbreviates a d"
    then show ?thesis by (rule abbreviation_is_spelled) (use assms in auto)
  next
    assume "prefix ''--='' a"
    then obtain t where a: "a = ''--='' @ t" by (auto simp: prefix_def)
    have "before CHR ''='' a = ''--''" by (simp add: a before_def)
    moreover have "strncmp_eq (length ''--'') ''--'' d"
      using assms(2,3) by (subst strncmp_eq_prefix) auto
    ultimately show ?thesis by (simp add: a spellsLongOption_def del: strncmp_eq.simps)
  qed
qed

lemma short_iff: "hasShortOption a l \<longleftrightarrow> git_bundles a l"
proof
  assume "hasShortOption a l"
  then show "git_bundles a l"
    by (cases a; cases "tl a") (auto simp: hasShortOption_def git_bundles_def)
qed (rule bundle_is_short_option)

lemma forbidden_for_iff:
  assumes "CHR 0x00 \<notin> set a" and "\<not> prefix ''--='' a"
  shows "isForbiddenFor sub a \<longleftrightarrow>
     (\<exists>d. dangerous_option sub d \<and> git_abbreviates a d) \<or> (\<exists>l. dangerous_letter sub l \<and> git_bundles a l)
     \<or> sub = ''diff'' \<and> climbs_out a"
proof -
  have long: "spellsLongOption a d \<longleftrightarrow> git_abbreviates a d" if "CHR 0x00 \<notin> set d" "prefix ''--'' d" for d
    using spelled_iff [OF assms(1) that] assms(2) by blast
  have ex: "(\<exists>d. dangerous_option sub d \<and> git_abbreviates a d) \<longleftrightarrow>
      ((sub = ''diff'' \<or> sub = ''grep'') \<and> git_abbreviates a ''--no-index'')
      \<or> (sub = ''grep'' \<and> (git_abbreviates a ''--open-files-in-pager'' \<or> git_abbreviates a ''--file''))
      \<or> ((sub = ''blame'' \<or> sub = ''annotate'') \<and> (git_abbreviates a ''--contents'' \<or> git_abbreviates a ''--ignore-revs-file''))
      \<or> (sub = ''ls-files'' \<and> git_abbreviates a ''--exclude-from'')"
    unfolding dangerous_option_def conj_disj_distribR conj_disj_distribL ex_disj_distrib conj_assoc ex_simps simp_thms
    by (rule refl | argo)
  have el: "(\<exists>l. dangerous_letter sub l \<and> git_bundles a l) \<longleftrightarrow>
      (sub = ''grep'' \<and> (git_bundles a CHR ''O'' \<or> git_bundles a CHR ''f''))
      \<or> ((sub = ''blame'' \<or> sub = ''annotate'') \<and> git_bundles a CHR ''S'')
      \<or> (sub = ''ls-files'' \<and> git_bundles a CHR ''X'')"
    unfolding dangerous_letter_def conj_disj_distribR conj_disj_distribL ex_disj_distrib conj_assoc ex_simps simp_thms
    by (rule refl | argo)
  have longs: "spellsLongOption a ''--no-index'' = git_abbreviates a ''--no-index''"
    "spellsLongOption a ''--open-files-in-pager'' = git_abbreviates a ''--open-files-in-pager''"
    "spellsLongOption a ''--file'' = git_abbreviates a ''--file''"
    "spellsLongOption a ''--contents'' = git_abbreviates a ''--contents''"
    "spellsLongOption a ''--ignore-revs-file'' = git_abbreviates a ''--ignore-revs-file''"
    "spellsLongOption a ''--exclude-from'' = git_abbreviates a ''--exclude-from''"
    by (rule long; simp)+
  show ?thesis
    unfolding isForbiddenFor_def leavesTheRepository_iff short_iff ex el longs by argo
qed

lemma denied_options_iff: "set denied_options = set kDeny"
  by (auto simp: denied_options_def kDeny_def)

lemma forbidden_arg_iff:
  assumes "CHR 0x00 \<notin> set a"
  shows "isForbiddenGitArg sub a \<longleftrightarrow>
     a = ''-c'' \<or> a = ''-C'' \<or> prefix ''-c='' a \<or> prefix ''-O'' a \<or> prefix ''--textconv'' a \<or> prefix ''--='' a
     \<or> (\<exists>d \<in> set denied_options. git_abbreviates a d)
         \<and> \<not> (before CHR ''='' a = ''--text'' \<and> sub \<noteq> ''cat-file'') \<and> \<not> (before CHR ''='' a = ''--path'' \<and> sub = ''config'')"
proof -
  have "prefix ''--'' d" if "d \<in> set kDeny" for d using that by (auto simp: kDeny_def)
  then have long: "spellsLongOption a d \<longleftrightarrow> git_abbreviates a d \<or> prefix ''--='' a" if "d \<in> set kDeny" for d
    using spelled_iff [OF assms] kDeny_clean that by blast
  have name: "before CHR ''='' a = ''--''" if "prefix ''--='' a"
    using that by (auto simp: prefix_def before_def)
  have ex: "''--git-dir'' \<in> set kDeny" by (simp add: kDeny_def)
  have deny: "(\<exists>d \<in> set kDeny. spellsLongOption a d) \<longleftrightarrow> (\<exists>d \<in> set kDeny. git_abbreviates a d) \<or> prefix ''--='' a"
    using long ex by blast
  have nh: "\<not> (before CHR ''='' a = ''--text'' \<and> sub \<noteq> ''cat-file'') \<and> \<not> (before CHR ''='' a = ''--path'' \<and> sub = ''config'')"
    if "prefix ''--='' a" unfolding name [OF that] by simp
  have two: "a \<in> set [''-c'', ''-C''] \<longleftrightarrow> a = ''-c'' \<or> a = ''-C''" by simp
  show ?thesis
    unfolding isForbiddenGitArg_def Let_def denied_options_iff starts_with_iff_prefix deny two
    using nh by (simp only: if_bool_eq_disj) blast
qed

lemma refused_iff:
  assumes "CHR 0x00 \<notin> set a"
  shows "isForbiddenFor sub a \<or> isForbiddenGitArg sub a \<longleftrightarrow> way_out sub a"
proof (cases "prefix ''--='' a")
  case True
  then show ?thesis using forbidden_arg_iff [OF assms, of sub] by (simp add: way_out_def)
next
  case False
  show ?thesis
    unfolding forbidden_for_iff [OF assms False] forbidden_arg_iff [OF assms] way_out_def by (simp only: disj_ac)
qed

lemma exempt_arg_iff: "exempt_arg sub a \<longleftrightarrow> own_meaning sub a"
  by (auto simp: exempt_arg_def own_meaning_def)

lemma plain_word_passes:
  assumes "\<not> is_option sub"
  shows "arg_problem sub sub = None"
proof -
  have "\<not> isForbiddenGitArg sub sub"
    using assms by (cases sub) (auto simp: is_option_def isForbiddenGitArg_def starts_with_def spellsLongOption_def Let_def)
  moreover have "\<not> isForbiddenFor sub sub"
    using assms by (cases "sub = ''diff''"; cases sub)
      (auto simp: is_option_def isForbiddenFor_def spellsLongOption_def hasShortOption_def leavesTheRepository_def)
  ultimately show ?thesis by (simp add: arg_problem_def)
qed


definition demo_config :: agent_config where
  "demo_config =
     (initial_config (Some ''/home/dev''))
       \<lparr>g_gitExecAllowed := kGitExecReadOnly, g_gitExecReadForms := True,
        g_gitExecConfigKeys := kGitExecConfigDefaults\<rparr>"


section \<open>The read-only preset serves reading forms only\<close>

lemma before_starts_with:
  "CHR ''='' \<notin> set p \<Longrightarrow> starts_with a (p @ ''='') \<Longrightarrow> before CHR ''='' a = p"
  by (auto simp: starts_with_iff_prefix prefix_def)

lemma option_listed_name:
  assumes "option_listed allowed a"
  shows "before CHR ''='' a \<in> set (map (before CHR ''='') allowed)"
proof -
  from assms obtain opt where opt: "opt \<in> set allowed"
      "if opt \<noteq> [] \<and> last opt = CHR ''='' then starts_with a opt else a = opt"
    by (auto simp: option_listed_def)
  have "before CHR ''='' a = before CHR ''='' opt"
  proof (cases "opt \<noteq> [] \<and> last opt = CHR ''=''")
    case True
    with opt(2) have "prefix opt a" by (simp add: starts_with_iff_prefix)
    moreover from True have "CHR ''='' \<in> set opt" using last_in_set by fastforce
    then obtain x y where "opt = x @ CHR ''='' # y" "CHR ''='' \<notin> set x"
      by (meson split_list_first)
    ultimately show ?thesis by (auto simp: prefix_def)
  next
    case False
    with opt(2) show ?thesis by (simp split: if_splits)
  qed
  with opt(1) show ?thesis by (auto intro!: image_eqI)
qed

lemma onlyTheseOptions_sound:
  "onlyTheseOptions allowed saw args = Some b \<Longrightarrow>
     (\<forall>a \<in> set args. is_option a \<longrightarrow> option_listed allowed a)
     \<and> (b \<longleftrightarrow> saw \<or> (\<exists>a \<in> set args. \<not> is_option a))"
  by (induction allowed saw args rule: onlyTheseOptions.induct) (auto split: if_splits)

lemma config_option_listed:
  assumes "a \<in> set config_actions \<or> a \<in> set config_modifiers \<or> starts_with a ''--type='' \<or> starts_with a ''--default=''"
  shows "option_listed (config_actions @ config_modifiers @ [''--type='', ''--default='']) a"
proof -
  have plain: "list_all (\<lambda>w. last w \<noteq> CHR ''='') (config_actions @ config_modifiers)" by code_simp
  show ?thesis
    using assms
  proof (elim disjE)
    assume "starts_with a ''--type=''"
    then show ?thesis unfolding option_listed_def by (intro bexI [of _ "''--type=''"]) auto
  next
    assume "starts_with a ''--default=''"
    then show ?thesis unfolding option_listed_def by (intro bexI [of _ "''--default=''"]) auto
  qed (use plain in \<open>auto simp: option_listed_def list_all_iff intro!: bexI [of _ a]\<close>)
qed

lemma config_query_loop_sound:
  "config_query_loop saw args \<Longrightarrow>
     (saw \<or> (\<exists>a \<in> set args. a \<in> set config_actions))
     \<and> (\<forall>a \<in> set args. is_option a \<longrightarrow>
          option_listed (config_actions @ config_modifiers @ [''--type='', ''--default='']) a)"
  by (induction saw args rule: config_query_loop.induct) (auto simp: config_option_listed split: if_splits)

text \<open>The options that make the four subcommands write.\<close>

definition writing_options :: "string \<Rightarrow> string list" where
  "writing_options sub =
     (if sub = ''config'' then
        [''--add'', ''--replace-all'', ''--unset'', ''--unset-all'', ''--rename-section'',
         ''--remove-section'', ''--edit'', ''-e'', ''--file'', ''-f'', ''--blob'', ''--comment'']
      else if sub = ''branch'' then
        [''-d'', ''-D'', ''--delete'', ''-m'', ''-M'', ''--move'', ''-c'', ''-C'', ''--copy'',
         ''-f'', ''--force'', ''-u'', ''--set-upstream-to'', ''--unset-upstream'', ''-t'',
         ''--track'', ''--no-track'', ''--edit-description'', ''--create-reflog'']
      else if sub = ''tag'' then
        [''-d'', ''--delete'', ''-a'', ''--annotate'', ''-s'', ''--sign'', ''-u'',
         ''--local-user'', ''-f'', ''--force'', ''-m'', ''--message'', ''-F'', ''--file'',
         ''-e'', ''--edit'', ''--create-reflog'']
      else [''-d'', ''--delete'', ''-m''])"

definition uses_option :: "string \<Rightarrow> string \<Rightarrow> bool" where
  "uses_option a m \<longleftrightarrow> before CHR ''='' a = m \<or> git_abbreviates a m"

definition read_names :: "string \<Rightarrow> string list" where
  "read_names sub =
     map (before CHR ''='')
       (if sub = ''config''
        then config_actions @ config_modifiers @ [''--type='', ''--default'' @ ''='']
        else if sub = ''branch'' then branch_read_options
        else if sub = ''tag'' then tag_read_options
        else symref_read_options)"

definition name_clash :: "string \<Rightarrow> string \<Rightarrow> bool" where
  "name_clash n m \<longleftrightarrow> n = m \<or> (3 \<le> length n \<and> take 2 n = ''--'' \<and> take (length n) m = n)"

lemma no_name_clash:
  "list_all (\<lambda>sub. list_all (\<lambda>n. list_all (\<lambda>m. \<not> name_clash n m) (writing_options sub))
     (read_names sub)) [''config'', ''branch'', ''tag'', ''symbolic-ref'']"
  by code_simp

lemma read_name_writes_nothing:
  assumes "sub \<in> set [''config'', ''branch'', ''tag'', ''symbolic-ref'']"
    and "before CHR ''='' a \<in> set (read_names sub)" and "m \<in> set (writing_options sub)"
  shows "\<not> uses_option a m"
proof -
  have clash: "\<not> name_clash (before CHR ''='' a) m"
    using no_name_clash assms unfolding list_all_iff by blast
  show ?thesis
  proof
    assume "uses_option a m"
    then have "before CHR ''='' a = m
      \<or> (3 \<le> length (before CHR ''='' a) \<and> prefix ''--'' (before CHR ''='' a)
         \<and> prefix (before CHR ''='' a) m)"
      by (simp add: uses_option_def git_abbreviates_def Let_def)
    then have "name_clash (before CHR ''='' a) m"
      by (auto simp: name_clash_def prefix_def)
    with clash show False by contradiction
  qed
qed

lemma read_form_shape:
  assumes "isReadOnlyInvocation sub rest"
  shows "sub \<in> set [''config'', ''branch'', ''tag'', ''symbolic-ref'']"
    and "\<forall>a \<in> set rest. is_option a \<longrightarrow> before CHR ''='' a \<in> set (read_names sub)"
proof -
  show sub: "sub \<in> set [''config'', ''branch'', ''tag'', ''symbolic-ref'']"
    using assms by (auto simp: isReadOnlyInvocation_def split: if_split_asm)
  then consider "sub = ''config''" | "sub = ''branch''" | "sub = ''tag''" | "sub = ''symbolic-ref''"
    by auto
  then show "\<forall>a \<in> set rest. is_option a \<longrightarrow> before CHR ''='' a \<in> set (read_names sub)"
  proof cases
    case 1
    with assms have "config_query_loop False rest"
      by (simp add: isReadOnlyInvocation_def isReadOnlyConfigQuery_def)
    from config_query_loop_sound [OF this] 1 show ?thesis
      by (auto simp: read_names_def dest!: option_listed_name)
  next
    case 2
    with assms obtain b where "onlyTheseOptions branch_read_options False rest = Some b"
      by (auto simp: isReadOnlyInvocation_def split: option.splits)
    from onlyTheseOptions_sound [OF this] 2 show ?thesis
      using option_listed_name by (force simp: read_names_def)
  next
    case 3
    with assms obtain b where "onlyTheseOptions tag_read_options False rest = Some b"
      by (auto simp: isReadOnlyInvocation_def split: option.splits)
    from onlyTheseOptions_sound [OF this] 3 show ?thesis
      using option_listed_name by (force simp: read_names_def)
  next
    case 4
    with assms obtain b where "onlyTheseOptions symref_read_options False rest = Some b"
      by (auto simp: isReadOnlyInvocation_def split: option.splits)
    from onlyTheseOptions_sound [OF this] 4 show ?thesis
      using option_listed_name by (force simp: read_names_def)
  qed
qed

text \<open>
   only reading subcommands allowlisted (the read-only preset), whatever
  \<^verbatim>\<open>gitExecPermitted\<close> accepts is one of those subcommands, or \<^verbatim>\<open>config\<close>, \<^verbatim>\<open>branch\<close>, \<^verbatim>\<open>tag\<close> or
  \<^verbatim>\<open>symbolic-ref\<close> with no option (in any abbreviation, with or without a value) that makes it
  write; \<^verbatim>\<open>config\<close> then has an explicit getter, \<^verbatim>\<open>branch\<close> and \<^verbatim>\<open>tag\<close> take a positional argument
  only when a listing is asked for, and \<^verbatim>\<open>symbolic-ref\<close> names exactly one reference.
\<close>

theorem read_only_preset_reads:
  assumes "gitExecPermitted cfg args = Inr sub"
    and "set (g_gitExecAllowed cfg) \<subseteq> set kGitExecReadOnly"
  shows "sub \<in> set kGitExecReadOnly
    \<or> (\<exists>gs rest. args = gs @ sub # rest
        \<and> sub \<in> set [''config'', ''branch'', ''tag'', ''symbolic-ref'']
        \<and> (\<forall>a \<in> set rest. is_option a \<longrightarrow> (\<forall>m \<in> set (writing_options sub). \<not> uses_option a m))
        \<and> (sub = ''config'' \<longrightarrow> hasArg rest config_actions)
        \<and> (sub \<in> set [''branch'', ''tag''] \<longrightarrow>
             (\<forall>a \<in> set rest. is_option a) \<or> hasArg rest [''--list'', ''-l''])
        \<and> (sub = ''symbolic-ref'' \<longrightarrow>
             length (filter (\<lambda>a. a \<noteq> [] \<and> hd a \<noteq> CHR ''-'') rest) = 1))"
proof (cases "sub \<in> set kGitExecReadOnly")
  case False
  from assms(1) obtain gs rest where *: "args = gs @ sub # rest"
      "sub \<in> set (g_gitExecAllowed cfg) \<or> isReadOnlyInvocation sub rest"
    by (rule gitExecPermitted_cases) blast
  with False assms(2) have read: "isReadOnlyInvocation sub rest" by blast
  note shape = read_form_shape [OF read]
  have "hasArg rest config_actions" if "sub = ''config''"
    using read that config_query_loop_sound [of False rest]
    by (auto simp: isReadOnlyInvocation_def isReadOnlyConfigQuery_def hasArg_def)
  moreover have "(\<forall>a \<in> set rest. is_option a) \<or> hasArg rest [''--list'', ''-l'']"
    if "sub \<in> set [''branch'', ''tag'']"
  proof -
    from that consider "sub = ''branch''" | "sub = ''tag''" by auto
    then obtain al b where "onlyTheseOptions al False rest = Some b"
        "\<not> b \<or> hasArg rest [''--list'', ''-l'']"
      using read by cases (auto simp: isReadOnlyInvocation_def split: option.splits)
    then show ?thesis using onlyTheseOptions_sound [of al False rest b] by blast
  qed
  moreover have "length (filter (\<lambda>a. a \<noteq> [] \<and> hd a \<noteq> CHR ''-'') rest) = 1"
    if "sub = ''symbolic-ref''"
    using read that by (simp add: isReadOnlyInvocation_def split: option.splits)
  moreover have "\<forall>a \<in> set rest. is_option a \<longrightarrow> (\<forall>m \<in> set (writing_options sub). \<not> uses_option a m)"
    using shape read_name_writes_nothing by blast
  ultimately show ?thesis using *(1) shape(1) by blast
qed blast

theorem read_only_preset_reads_witness:
  "gitExecPermitted demo_config [''branch'', ''--list'', ''main''] = Inr ''branch''
   \<and> hasArg [''--list'', ''main''] [''--list'', ''-l'']
   \<and> (\<exists>gs rest. [''branch'', ''--list'', ''main''] = gs @ ''branch'' # rest)"
proof -
  have h: "gitExecPermitted demo_config [''branch'', ''--list'', ''main''] = Inr ''branch''"
    by code_simp
  have s: "set (g_gitExecAllowed demo_config) \<subseteq> set kGitExecReadOnly"
    by (simp add: demo_config_def)
  have "''branch'' \<notin> set kGitExecReadOnly" by code_simp
  with read_only_preset_reads [OF h s] h show ?thesis
    by (auto simp: hasArg_def)
qed

section \<open>Gaps of the argument scan\<close>

lemma non_option_not_forbidden: "\<not> is_option a \<Longrightarrow> \<not> isForbiddenGitArg sub a"
  by (cases a) (auto simp: is_option_def isForbiddenGitArg_def starts_with_def
      spellsLongOption_def Let_def)

text \<open>
  The scan has gaps. A NUL byte ends the comparison of \<^verbatim>\<open>spellsLongOption\<close> but also the
  argument git is given, so an abbreviation of a denied option followed by a NUL passes and
  reaches git as that option (here the program \<^verbatim>\<open>ls-remote\<close> runs for \<^verbatim>\<open>--upload-pack\<close>); and
  outside \<^verbatim>\<open>grep\<close>, \<^verbatim>\<open>blame\<close> and \<^verbatim>\<open>ls-files\<close> short options are not looked for inside bundles,
  so \<^verbatim>\<open>-pO<file>\<close> reaches \<^verbatim>\<open>log\<close> although \<^verbatim>\<open>-O<file>\<close> is refused.
\<close>

theorem scan_gaps:
  assumes "''ls-remote'' \<in> set (g_gitExecAllowed cfg)" and "''log'' \<in> set (g_gitExecAllowed cfg)"
    and "\<not> is_option program" and "\<not> is_option url"
  shows "gitExecPermitted cfg [''ls-remote'', ''--upload-pac'' @ [CHR 0x00], program, url]
           = Inr ''ls-remote''
         \<and> git_abbreviates (c_str (''--upload-pac'' @ [CHR 0x00])) ''--upload-pack''
         \<and> gitExecPermitted cfg [''log'', ''-pO'' @ file] = Inr ''log''
         \<and> (\<exists>err. gitExecPermitted cfg [''log'', ''-O'' @ file] = Inl err)"
proof -
  have nul: "\<not> isForbiddenGitArg ''ls-remote'' (''--upload-pac'' @ [CHR 0x00])" by code_simp
  have allowed: "g_gitExecAllowed cfg \<noteq> []" using assms(1) by auto
  have opt: "\<not> is_option ''ls-remote''" "\<not> is_option ''log''" by (simp_all add: is_option_def)
  have bundled: "\<not> isForbiddenGitArg ''log'' (''-pO'' @ file)"
    by (simp add: isForbiddenGitArg_def starts_with_def spellsLongOption_def before_def Let_def)
  have order: "isForbiddenGitArg ''log'' (''-O'' @ file)"
    by (simp add: isForbiddenGitArg_def starts_with_def)
  have "gitExecPermitted cfg [''ls-remote'', ''--upload-pac'' @ [CHR 0x00], program, url]
          = Inr ''ls-remote''"
    using assms nul opt allowed
    by (simp add: gitExecPermitted_def arg_problem_def isForbiddenFor_def exempt_arg_def
        non_option_not_forbidden)
  moreover have "gitExecPermitted cfg [''log'', ''-pO'' @ file] = Inr ''log''"
    using assms(2) bundled opt allowed
    by (simp add: gitExecPermitted_def arg_problem_def isForbiddenFor_def exempt_arg_def
        non_option_not_forbidden)
  moreover have "\<exists>err. gitExecPermitted cfg [''log'', ''-O'' @ file] = Inl err"
    using assms(2) order opt allowed
    by (simp add: gitExecPermitted_def arg_problem_def isForbiddenFor_def exempt_arg_def
        non_option_not_forbidden)
  moreover have "git_abbreviates (c_str (''--upload-pac'' @ [CHR 0x00])) ''--upload-pack''"
    by code_simp
  ultimately show ?thesis by blast
qed

theorem scan_gaps_witness:
  "gitExecPermitted demo_config
     [''ls-remote'', ''--upload-pac'' @ [CHR 0x00], ''touch /tmp/x'', ''.''] = Inr ''ls-remote''"
proof -
  have "''ls-remote'' \<in> set (g_gitExecAllowed demo_config)"
       "''log'' \<in> set (g_gitExecAllowed demo_config)"
       "\<not> is_option ''touch /tmp/x''" "\<not> is_option ''.''"
    by (simp_all add: demo_config_def kGitExecReadOnly_def is_option_def)
  from scan_gaps [OF this] show ?thesis by blast
qed

section \<open>Configuration settings\<close>

definition running_keys :: "string list" where
  "running_keys =
     [''core.pager'', ''core.editor'', ''core.sshcommand'', ''core.askpass'', ''core.hookspath'',
      ''core.fsmonitor'', ''core.gitproxy'', ''diff.external'', ''sequence.editor'',
      ''gpg.program'', ''credential.helper'', ''core.alternaterefscommand'']"

definition running_sections :: "string list" where
  "running_sections =
     [''alias'', ''pager'', ''filter'', ''credential'', ''difftool'', ''mergetool'', ''merge'',
      ''http'', ''url'', ''remote'', ''protocol'', ''include'', ''includeif'', ''gpg'',
      ''browser'', ''man'', ''hook'', ''sendemail'', ''uploadpack'', ''receive'']"

text \<open>
  Under the default keys a request's \<^verbatim>\<open>-c\<close> setting is accepted exactly when its key, in any
  letter case, is one of the listed ones or lies in the sections \<^verbatim>\<open>advice\<close> or \<^verbatim>\<open>color\<close>; so no
  spelling of a key of another section that makes git run a program (aliases, pagers, editors,
  ssh commands, credential helpers, external diffs, filters, hooks) is ever accepted.
\<close>

theorem default_config_keys_run_nothing:
  assumes "g_gitExecConfigKeys cfg = kGitExecConfigDefaults"
  shows "(isAllowedGitConfig cfg setting \<longleftrightarrow>
            ascii_lower (before CHR ''='' setting) \<in> set kGitExecConfigDefaults
            \<or> before CHR ''.'' (ascii_lower (before CHR ''='' setting)) \<in> {''advice'', ''color''})
     \<and> (ascii_lower (before CHR ''='' setting) \<in> set running_keys
        \<or> before CHR ''.'' (ascii_lower (before CHR ''='' setting)) \<in> set running_sections
        \<longrightarrow> \<not> isAllowedGitConfig cfg setting)"
proof -
  let ?key = "ascii_lower (before CHR ''='' setting)"
  have sections: "filter (\<lambda>k. CHR ''.'' \<notin> set k) kGitExecConfigDefaults = [''advice'', ''color'']"
    by code_simp
  have one: "isAllowedGitConfig cfg setting \<longleftrightarrow>
      ?key \<in> set kGitExecConfigDefaults \<or> before CHR ''.'' ?key \<in> {''advice'', ''color''}"
  proof (cases "?key = []")
    case True
    then show ?thesis
      by (auto simp: isAllowedGitConfig_def Let_def kGitExecConfigDefaults_def before_def)
  next
    case False
    have "(\<exists>k \<in> set kGitExecConfigDefaults. CHR ''.'' \<notin> set k \<and> before CHR ''.'' ?key = k)
          \<longleftrightarrow> before CHR ''.'' ?key \<in> set (filter (\<lambda>k. CHR ''.'' \<notin> set k) kGitExecConfigDefaults)"
      by auto
    also have "\<dots> \<longleftrightarrow> before CHR ''.'' ?key \<in> {''advice'', ''color''}"
      unfolding sections by simp
    finally show ?thesis
      using False assms by (auto simp: isAllowedGitConfig_def Let_def)
  qed
  have disjoint: "list_all (\<lambda>k. k \<notin> set kGitExecConfigDefaults
        \<and> before CHR ''.'' k \<notin> set [''advice'', ''color'']) running_keys"
      "list_all (\<lambda>s. s \<notin> set (map (before CHR ''.'') kGitExecConfigDefaults)) running_sections"
    by code_simp+
  have "?key \<notin> set kGitExecConfigDefaults \<and> before CHR ''.'' ?key \<notin> {''advice'', ''color''}"
    if "?key \<in> set running_keys \<or> before CHR ''.'' ?key \<in> set running_sections"
    using that
  proof
    assume "?key \<in> set running_keys"
    with disjoint(1) show ?thesis unfolding list_all_iff by simp
  next
    assume s: "before CHR ''.'' ?key \<in> set running_sections"
    with disjoint(2) have "before CHR ''.'' ?key \<notin> set (map (before CHR ''.'') kGitExecConfigDefaults)"
      unfolding list_all_iff by blast
    moreover have "{''advice'', ''color''} \<subseteq> set (map (before CHR ''.'') kGitExecConfigDefaults)"
      by code_simp
    ultimately show ?thesis by auto
  qed
  with one show ?thesis by blast
qed

theorem default_config_keys_run_nothing_witness:
  "\<not> isAllowedGitConfig demo_config ''Core.SSHCommand=evil''"
proof -
  have "g_gitExecConfigKeys demo_config = kGitExecConfigDefaults"
    by (simp add: demo_config_def)
  moreover have "ascii_lower (before CHR ''='' ''Core.SSHCommand=evil'') \<in> set running_keys"
    by code_simp
  ultimately show ?thesis using default_config_keys_run_nothing by blast
qed

end
