(* ===== verification/Codec.thy ===== *)
theory Codec
  imports Prelude
begin

text \<open>
  Base64 (\<^verbatim>\<open>base64Encode\<close>, \<^verbatim>\<open>base64Decode\<close> of \<^verbatim>\<open>agent/main.cpp\<close>), which carries arbitrary bytes
  through JSON strings: response chunks, tunnel data, file contents, git's standard input. The
  bit operations are on 32-bit words, as the code's \<^verbatim>\<open>unsigned\<close> and \<^verbatim>\<open>int\<close> are. The interface the
  other components rely on is the locale \<open>byte_codec\<close>.
\<close>

unbundle bit_operations_syntax

section \<open>The interface\<close>

locale byte_codec =
  fixes enc :: "string \<Rightarrow> string"
    and dec :: "string \<Rightarrow> string option"
  assumes dec_enc: "dec (enc s) = Some s"
begin

lemma enc_inject: "enc s = enc t \<longleftrightarrow> s = t"
  by (metis dec_enc option.inject)

text \<open>Cutting the encoding into pieces and joining them again loses nothing.\<close>

lemma dec_pieces: "concat pieces = enc s \<Longrightarrow> dec (concat pieces) = Some s"
  by (simp add: dec_enc)

lemma enc_eq_dec: "enc s = t \<Longrightarrow> dec t = Some s"
  using dec_enc by blast

end

section \<open>Encoding\<close>

definition b64_table :: string where
  "b64_table = ''ABCDEFGHIJKLMNOPQRSTUVWXYZabcdefghijklmnopqrstuvwxyz0123456789+/''"

definition byte_word :: "char \<Rightarrow> 32 word" where
  "byte_word c = ucast (word_of_nat (of_char c) :: 8 word)"

definition word_char :: "32 word \<Rightarrow> char" where
  "word_char w = char_of (unat w)"

text \<open>\<^verbatim>\<open>T[(n >> k) & 63]\<close>.\<close>

definition b64_digit :: "32 word \<Rightarrow> nat \<Rightarrow> char" where
  "b64_digit n k = b64_table ! unat (drop_bit k n AND 63)"

fun base64Encode :: "string \<Rightarrow> string" where
  "base64Encode (a # b # c # rest) =
     (let n = push_bit 16 (byte_word a) OR push_bit 8 (byte_word b) OR byte_word c
      in b64_digit n 18 # b64_digit n 12 # b64_digit n 6 # b64_digit n 0 # base64Encode rest)"
| "base64Encode [a, b] =
     (let n = push_bit 16 (byte_word a) OR push_bit 8 (byte_word b)
      in [b64_digit n 18, b64_digit n 12, b64_digit n 6, CHR ''=''])"
| "base64Encode [a] =
     (let n = push_bit 16 (byte_word a)
      in [b64_digit n 18, b64_digit n 12, CHR ''='', CHR ''=''])"
| "base64Encode [] = []"

section \<open>Decoding\<close>

definition b64_value :: "char \<Rightarrow> nat option" where
  "b64_value c =
     (let n = (of_char c :: nat)
      in if 65 \<le> n \<and> n \<le> 90 then Some (n - 65)
         else if 97 \<le> n \<and> n \<le> 122 then Some (n - 97 + 26)
         else if 48 \<le> n \<and> n \<le> 57 then Some (n - 48 + 52)
         else if c = CHR ''+'' then Some 62
         else if c = CHR ''/'' then Some 63
         else None)"

definition b64_skipped :: "char \<Rightarrow> bool" where
  "b64_skipped c \<longleftrightarrow> c = CHR ''='' \<or> c = CHR 0x0A \<or> c = CHR 0x0D"

fun decode_loop :: "32 word \<Rightarrow> nat \<Rightarrow> string \<Rightarrow> string option" where
  "decode_loop buf bits [] = Some []"
| "decode_loop buf bits (c # cs) =
     (if b64_skipped c then decode_loop buf bits cs
      else case b64_value c of
        None \<Rightarrow> None
      | Some v \<Rightarrow>
          (let buf' = push_bit 6 buf OR word_of_nat v; bits' = bits + 6
           in if 8 \<le> bits'
              then map_option (\<lambda>out. word_char (drop_bit (bits' - 8) buf' AND 255) # out)
                     (decode_loop buf' (bits' - 8) cs)
              else decode_loop buf' bits' cs))"

definition base64Decode :: "string \<Rightarrow> string option" where
  "base64Decode s = decode_loop 0 0 s"

section \<open>Round trip\<close>

lemma table_values: "map b64_value b64_table = map Some [0..<64]"
  by (simp add: b64_table_def b64_value_def upt_rec)

lemma table_not_skipped: "list_all (\<lambda>c. \<not> b64_skipped c) b64_table"
  by (simp add: b64_table_def b64_skipped_def)

lemma length_table [simp]: "length b64_table = 64"
  by (simp add: b64_table_def)

lemma and_63: "(x AND 63 :: 32 word) = take_bit 6 x"
proof -
  have "(63 :: 32 word) = mask 6" by (simp add: mask_eq_exp_minus_1)
  then show ?thesis by (simp only: take_bit_eq_mask)
qed

lemma and_255: "(x AND 255 :: 32 word) = take_bit 8 x"
proof -
  have "(255 :: 32 word) = mask 8" by (simp add: mask_eq_exp_minus_1)
  then show ?thesis by (simp only: take_bit_eq_mask)
qed

lemma digit_index: "unat (take_bit 6 x :: 32 word) < 64"
  by (simp add: unsigned_take_bit_eq take_bit_nat_def)

lemma digit_value [simp]: "b64_value (b64_digit n k) = Some (unat (take_bit 6 (drop_bit k n)))"
  using arg_cong [OF table_values, of "\<lambda>xs. xs ! unat (take_bit 6 (drop_bit k n))"]
    digit_index [of "drop_bit k n"]
  by (simp add: b64_digit_def and_63)

lemma digit_not_skipped [simp]: "\<not> b64_skipped (b64_digit n k)"
  using table_not_skipped digit_index [of "drop_bit k n"]
  by (simp add: b64_digit_def and_63 list_all_length)

lemma unat_byte_word: "unat (byte_word c) = of_char c"
proof -
  have "(of_char c :: nat) < 256" by simp
  then have "(of_char c :: nat) mod 4294967296 = of_char c" by (intro mod_less) linarith
  then show ?thesis
    by (simp add: byte_word_def unsigned_ucast_eq unat_of_nat take_bit_nat_def)
qed

lemma word_char_byte_word [simp]: "word_char (byte_word c) = c"
  by (simp add: word_char_def unat_byte_word)

lemma bit_byte_word: "8 \<le> n \<Longrightarrow> \<not> bit (byte_word c) n"
proof -
  assume n: "8 \<le> n"
  have "\<not> bit (word_of_nat (of_char c) :: 8 word) n"
    using bit_imp_le_length [of "word_of_nat (of_char c) :: 8 word" n] n by auto
  then show ?thesis by (simp add: byte_word_def bit_ucast_iff)
qed

lemmas or_bits = bit_take_bit_iff bit_drop_bit_eq o_apply bit_push_bit_iff bit_or_iff

lemma less_8: "(i::nat) < 8 \<longleftrightarrow> i = 0 \<or> i = 1 \<or> i = 2 \<or> i = 3 \<or> i = 4 \<or> i = 5 \<or> i = 6 \<or> i = 7"
  by arith

lemma byte_eqI:
  fixes u v :: "32 word"
  assumes "\<And>i. 8 \<le> i \<Longrightarrow> \<not> bit v i" and "\<And>i. i < 8 \<Longrightarrow> bit u i = bit v i"
  shows "take_bit 8 u = v"
proof (rule bit_word_eqI)
  fix i
  show "bit (take_bit 8 u) i = bit v i"
    using assms [of i] by (cases "i < 8") (simp_all add: bit_take_bit_iff)
qed

text \<open>The three bytes a group of four digits gives back, whatever the buffer held before.\<close>

lemma group_byte1:
  assumes "n = push_bit 16 (byte_word a) OR m" and "\<And>i. 16 \<le> i \<Longrightarrow> \<not> bit m i"
  shows "take_bit 8 (drop_bit 4 (push_bit 6 (push_bit 6 buf OR take_bit 6 (drop_bit 18 n))
           OR take_bit 6 (drop_bit 12 n))) = byte_word a"
proof (rule byte_eqI)
  fix i :: nat
  assume "i < 8"
  then show "bit (drop_bit 4 (push_bit 6 (push_bit 6 buf OR take_bit 6 (drop_bit 18 n))
           OR take_bit 6 (drop_bit 12 n))) i = bit (byte_word a) i"
    unfolding less_8 by (elim disjE; hypsubst) (simp_all add: assms or_bits)
qed (rule bit_byte_word)

lemma group_byte2:
  assumes "n = push_bit 16 (byte_word a) OR push_bit 8 (byte_word b) OR m"
    and "\<And>i. 8 \<le> i \<Longrightarrow> \<not> bit m i"
  shows "take_bit 8 (drop_bit 2 (push_bit 6 (push_bit 6 buf OR take_bit 6 (drop_bit 12 n))
           OR take_bit 6 (drop_bit 6 n))) = byte_word b"
proof (rule byte_eqI)
  fix i :: nat
  assume "i < 8"
  then show "bit (drop_bit 2 (push_bit 6 (push_bit 6 buf OR take_bit 6 (drop_bit 12 n))
           OR take_bit 6 (drop_bit 6 n))) i = bit (byte_word b) i"
    unfolding less_8 by (elim disjE; hypsubst) (simp_all add: assms or_bits bit_byte_word)
qed (rule bit_byte_word)

lemma group_byte3:
  assumes "n = push_bit 16 (byte_word a) OR push_bit 8 (byte_word b) OR byte_word c"
  shows "take_bit 8 (push_bit 6 (push_bit 6 buf OR take_bit 6 (drop_bit 6 n))
           OR take_bit 6 n) = byte_word c"
proof (rule byte_eqI)
  fix i :: nat
  assume "i < 8"
  then show "bit (push_bit 6 (push_bit 6 buf OR take_bit 6 (drop_bit 6 n)) OR take_bit 6 n) i
      = bit (byte_word c) i"
    unfolding less_8 by (elim disjE; hypsubst) (simp_all add: assms or_bits bit_byte_word)
qed (rule bit_byte_word)

lemma decode_digit:
  "decode_loop buf bits (b64_digit n k # cs) =
     (let buf' = push_bit 6 buf OR take_bit 6 (drop_bit k n)
      in if 8 \<le> bits + 6
         then map_option (\<lambda>out. word_char (take_bit 8 (drop_bit (bits + 6 - 8) buf')) # out)
                (decode_loop buf' (bits + 6 - 8) cs)
         else decode_loop buf' (bits + 6) cs)"
  by (simp add: and_255 Let_def)

lemma decode_pad [simp]: "decode_loop buf bits (CHR ''='' # cs) = decode_loop buf bits cs"
  by (simp add: b64_skipped_def)

lemma high_bits: "16 \<le> i \<Longrightarrow> \<not> bit (push_bit 8 (byte_word b)) i"
  "16 \<le> i \<Longrightarrow> \<not> bit (push_bit 8 (byte_word b) OR byte_word c) i"
  by (simp_all add: or_bits bit_byte_word)

lemma decode_group3:
  "\<exists>buf'. decode_loop buf 0 (base64Encode (a # b # c # rest)) =
           map_option (\<lambda>out. a # b # c # out) (decode_loop buf' 0 (base64Encode rest))"
proof -
  define n where "n = push_bit 16 (byte_word a) OR push_bit 8 (byte_word b) OR byte_word c"
  have n': "n = push_bit 16 (byte_word a) OR (push_bit 8 (byte_word b) OR byte_word c)"
    by (simp add: n_def or.assoc)
  note g = group_byte1 [OF n' high_bits(2)] group_byte2 [OF n_def bit_byte_word]
    group_byte3 [OF n_def]
  have "base64Encode (a # b # c # rest) =
      b64_digit n 18 # b64_digit n 12 # b64_digit n 6 # b64_digit n 0 # base64Encode rest"
    by (simp add: n_def Let_def)
  then show ?thesis
    using g by (intro exI) (simp add: decode_digit Let_def option.map_comp comp_def
        del: decode_loop.simps(2) base64Encode.simps)
qed

lemma decode_group2: "decode_loop buf 0 (base64Encode [a, b]) = Some [a, b]"
proof -
  define n where "n = push_bit 16 (byte_word a) OR push_bit 8 (byte_word b)"
  have n': "n = push_bit 16 (byte_word a) OR push_bit 8 (byte_word b) OR 0"
    by (simp add: n_def)
  have g: "\<And>buf. take_bit 8 (drop_bit 4 (push_bit 6 (push_bit 6 buf OR take_bit 6 (drop_bit 18 n))
           OR take_bit 6 (drop_bit 12 n))) = byte_word a"
    by (rule group_byte1 [OF n_def high_bits(1)])
  note g2 = group_byte2 [OF n', simplified]
  have "base64Encode [a, b] = [b64_digit n 18, b64_digit n 12, b64_digit n 6, CHR ''='']"
    by (simp add: n_def Let_def)
  then show ?thesis
    using g g2 by (simp add: decode_digit Let_def del: base64Encode.simps decode_loop.simps(2))
qed

lemma decode_group1: "decode_loop buf 0 (base64Encode [a]) = Some [a]"
proof -
  define n where "n = push_bit 16 (byte_word a)"
  have n': "n = push_bit 16 (byte_word a) OR 0"
    by (simp add: n_def)
  note g = group_byte1 [OF n', simplified]
  have "base64Encode [a] = [b64_digit n 18, b64_digit n 12, CHR ''='', CHR ''='']"
    by (simp add: n_def Let_def)
  then show ?thesis
    using g by (simp add: decode_digit Let_def del: base64Encode.simps decode_loop.simps(2))
qed

lemma decode_encode: "decode_loop buf 0 (base64Encode s) = Some s"
proof (induction s arbitrary: buf rule: base64Encode.induct)
  case (1 a b c rest)
  then show ?case using decode_group3 [of buf a b c rest] by auto
qed (simp_all add: decode_group2 decode_group1 del: base64Encode.simps(1-3))

text \<open>
  Base64 is what other components rely on: decoding gives back exactly the bytes encoded, for
  every string of bytes.
\<close>

interpretation b64: byte_codec base64Encode base64Decode
  by unfold_locales (simp add: base64Decode_def decode_encode)

section \<open>Size and alphabet\<close>

lemma length_base64Encode: "length (base64Encode s) = 4 * ((length s + 2) div 3)"
proof (induction s rule: base64Encode.induct)
  case (1 a b c rest)
  have "(5 + length rest) div 3 = Suc (Suc (Suc (length rest)) div 3)"
    by presburger
  with 1 show ?case by (simp add: Let_def)
qed (simp_all add: Let_def)

lemma b64_digit_in_table: "b64_digit n k \<in> set b64_table"
  using digit_index [of "drop_bit k n"] by (simp add: b64_digit_def and_63)

text \<open>No character of the encoding needs escaping in a JSON string.\<close>

lemma base64Encode_alphabet: "set (base64Encode s) \<subseteq> insert CHR ''='' (set b64_table)"
  by (induction s rule: base64Encode.induct) (auto simp: Let_def b64_digit_in_table)

text \<open>
  The decoder is total but lenient: padding and line breaks are skipped wherever they stand, and
  a last group that is too short to hold a byte is dropped. It refuses exactly the characters
  outside the alphabet.
\<close>

lemma decode_loop_None:
  "decode_loop buf bits s = None \<longleftrightarrow> (\<exists>c \<in> set s. \<not> b64_skipped c \<and> b64_value c = None)"
  by (induction s arbitrary: buf bits) (auto simp: Let_def split: option.splits)

lemma decode_loop_length:
  "decode_loop buf bits s = Some t \<Longrightarrow> bits < 8 \<Longrightarrow>
     length t = (bits + 6 * length (filter (\<lambda>c. \<not> b64_skipped c) s)) div 8"
proof (induction s arbitrary: buf bits t)
  case (Cons c cs)
  show ?case
  proof (cases "b64_skipped c \<or> b64_value c = None")
    case True
    with Cons show ?thesis by auto
  next
    case False
    then obtain v where v: "b64_value c = Some v" "\<not> b64_skipped c" by auto
    with Cons.prems show ?thesis
      using Cons.IH [of "push_bit 6 buf OR word_of_nat v" "bits - 2"]
        Cons.IH [of "push_bit 6 buf OR word_of_nat v" "bits + 6" t]
      by (auto simp: Let_def split: if_splits)
  qed
qed simp

section \<open>The properties\<close>

text \<open>
  Base64 loses nothing: decoding an encoding gives the bytes back, for every byte string; the
  encoding has four characters per started group of three bytes, all from the alphabet.
\<close>

theorem base64_roundtrip:
  "base64Decode (base64Encode s) = Some s
   \<and> length (base64Encode s) = 4 * ((length s + 2) div 3)
   \<and> set (base64Encode s) \<subseteq> insert CHR ''='' (set b64_table)"
  by (simp add: b64.dec_enc length_base64Encode base64Encode_alphabet)

text \<open>
  The decoder is total and its refusals are exact: it returns nothing precisely when some
  character is neither skipped (padding, line breaks) nor in the alphabet. Every other input
  decodes, also one no encoder writes (a lone digit, padding in the middle), to one byte per
  eight bits of digits: the comment that promises nothing \<open>on any malformed input\<close> overstates it.
\<close>

theorem base64_decode_exact:
  "(base64Decode s = None \<longleftrightarrow> (\<exists>c \<in> set s. \<not> b64_skipped c \<and> b64_value c = None))
   \<and> pred_option (\<lambda>t. length t = 6 * length (filter (\<lambda>c. \<not> b64_skipped c) s) div 8) (base64Decode s)
   \<and> base64Decode ''A'' = Some [] \<and> base64Decode ''QU=JD'' = Some ''ABC''"
proof -
  have "base64Decode ''A'' = Some []" "base64Decode ''QU=JD'' = Some ''ABC''"
    by code_simp+
  moreover have "pred_option (\<lambda>t. length t = 6 * length (filter (\<lambda>c. \<not> b64_skipped c) s) div 8)
      (base64Decode s)"
    using decode_loop_length [of 0 0 s] by (cases "base64Decode s") (simp_all add: base64Decode_def)
  ultimately show ?thesis by (simp add: base64Decode_def decode_loop_None)
qed

end
