(* ===== verification/Framing.thy ===== *)
theory Framing
  imports Prelude
begin

text \<open>
  The LSP-style framing of both directions of the pipe: \<^verbatim>\<open>readHeaderLine\<close>, \<^verbatim>\<open>headerIs\<close>,
  \<^verbatim>\<open>readExact\<close>, \<^verbatim>\<open>readFrame\<close> and the reader loop of \<^verbatim>\<open>main\<close>, and the bytes \<^verbatim>\<open>Writer::loop\<close> puts
  around a frame body (\<^verbatim>\<open>agent/main.cpp\<close>). Standard input is the string of the bytes still to be
  read; its end is the end of the stream. A \<^verbatim>\<open>read\<close> that returns short is invisible here: the
  code loops until it has its bytes or the end.
\<close>

section \<open>Reading one header line\<close>

definition LF :: char where "LF = CHR 0x0A"
definition CR :: char where "CR = CHR 0x0D"
definition CRLF :: string where "CRLF = [CR, LF]"

text \<open>\<^verbatim>\<open>line.back() == '\r'\<close> is dropped once.\<close>

definition chomp_cr :: "string \<Rightarrow> string" where
  "chomp_cr l = (if l \<noteq> [] \<and> last l = CR then butlast l else l)"

fun header_line_loop :: "string \<Rightarrow> string \<Rightarrow> string option \<times> string" where
  "header_line_loop line [] = (None, [])"
| "header_line_loop line (c # cs) =
     (if c = LF then (Some (chomp_cr line), cs) else header_line_loop (line @ [c]) cs)"

definition readHeaderLine :: "string \<Rightarrow> string option \<times> string" where
  "readHeaderLine s = header_line_loop [] s"

definition headerIs :: "string \<Rightarrow> string \<Rightarrow> bool" where
  "headerIs line name \<longleftrightarrow> length name \<le> length line
     \<and> list_all (\<lambda>i. lower_char (line ! i) = lower_char (name ! i)) [0..<length name]"

lemma header_line_loop_shorter:
  "header_line_loop acc s = (Some l, rest) \<Longrightarrow> length rest < length s"
  by (induction acc s rule: header_line_loop.induct) (auto split: if_splits)

lemma readHeaderLine_shorter: "readHeaderLine s = (Some l, rest) \<Longrightarrow> length rest < length s"
  unfolding readHeaderLine_def by (rule header_line_loop_shorter)

lemma header_line_loop_line:
  "LF \<notin> set l \<Longrightarrow> header_line_loop acc (l @ LF # s) = (Some (chomp_cr (acc @ l)), s)"
  by (induction l arbitrary: acc) auto

lemma readHeaderLine_crlf [simp]:
  "LF \<notin> set l \<Longrightarrow> readHeaderLine (l @ CRLF @ s) = (Some l, s)"
  using header_line_loop_line [of "l @ [CR]" "[]" s]
  by (simp add: readHeaderLine_def CRLF_def chomp_cr_def LF_def CR_def)

lemma header_line_loop_split:
  "header_line_loop acc s = (Some l, rest) \<Longrightarrow>
     \<exists>raw. s = raw @ LF # rest \<and> LF \<notin> set raw \<and> l = chomp_cr (acc @ raw)"
proof (induction acc s rule: header_line_loop.induct)
  case (2 line c cs)
  show ?case
  proof (cases "c = LF")
    case True
    with 2 show ?thesis by (intro exI [of _ "[]"]) auto
  next
    case False
    with 2 obtain raw where "cs = raw @ LF # rest" "LF \<notin> set raw" "l = chomp_cr ((line @ [c]) @ raw)"
      by auto
    with False show ?thesis by (intro exI [of _ "c # raw"]) auto
  qed
qed simp

lemma headerIs_append:
  "headerIs (name @ t) name"
  by (simp add: headerIs_def list_all_iff nth_append)

section \<open>Reading one frame\<close>

datatype frame_status = FrameOk | FrameEof | FrameMalformed

record frame_read =
  fr_status :: frame_status
  fr_body :: string
  fr_reason :: string

definition kCL :: string where
  "kCL = ''Content-Length:''"

text \<open>
  \<^verbatim>\<open>readExact\<close>: \<^verbatim>\<open>out.resize(n)\<close> throws (\<^verbatim>\<open>length_error\<close>, \<^verbatim>\<open>bad_alloc\<close>) when \<open>n\<close> exceeds what a
  string can hold. \<open>mem\<close> is that limit, a parameter of the process.
\<close>

datatype alloc_exn = AllocFailed

definition readExact :: "nat \<Rightarrow> nat \<Rightarrow> string \<Rightarrow> alloc_exn + (string option \<times> string)" where
  "readExact mem n s =
     (if mem < n then Inl AllocFailed
      else if length s < n then Inr (None, [])
      else Inr (Some (take n s), drop n s))"

text \<open>The length a header line announces: \<^verbatim>\<open>strtoul(line.c_str() + strlen(kCL), nullptr, 10)\<close>.\<close>

definition announced :: "string \<Rightarrow> nat" where
  "announced line = strtoul10 (c_str (drop (length kCL) line))"

text \<open>
  The header loop of \<^verbatim>\<open>readFrame\<close>, with its locals \<^verbatim>\<open>contentLength\<close>, \<^verbatim>\<open>haveLength\<close>,
  \<^verbatim>\<open>sawAnyHeader\<close>. \<open>None\<close> is the early return at the end of the stream.
\<close>

function header_block ::
  "nat \<Rightarrow> bool \<Rightarrow> bool \<Rightarrow> string \<Rightarrow> (nat \<times> bool \<times> bool) option \<times> string" where
  "header_block contentLength haveLength sawAnyHeader s =
     (case readHeaderLine s of
        (None, rest) \<Rightarrow> (None, rest)
      | (Some line, rest) \<Rightarrow>
          if line = [] then (Some (contentLength, haveLength, sawAnyHeader), rest)
          else if headerIs line kCL then header_block (announced line) True True rest
          else header_block contentLength haveLength True rest)"
  by pat_completeness auto
termination
  by (relation "measure (\<lambda>(_, _, _, s). length s)") (auto dest: readHeaderLine_shorter [OF sym])

declare header_block.simps [simp del]

definition readFrame :: "nat \<Rightarrow> string \<Rightarrow> alloc_exn + (frame_read \<times> string)" where
  "readFrame mem s =
     (case header_block 0 False False s of
        (None, rest) \<Rightarrow> Inr (\<lparr>fr_status = FrameEof, fr_body = [], fr_reason = []\<rparr>, rest)
      | (Some (contentLength, haveLength, sawAnyHeader), rest) \<Rightarrow>
          if \<not> haveLength then
            (if \<not> sawAnyHeader
             then Inr (\<lparr>fr_status = FrameMalformed, fr_body = [], fr_reason = []\<rparr>, rest)
             else Inr (\<lparr>fr_status = FrameMalformed, fr_body = [],
                        fr_reason = ''frame header block carried no Content-Length''\<rparr>, rest))
          else case readExact mem contentLength rest of
            Inl e \<Rightarrow> Inl e
          | Inr (None, rest') \<Rightarrow> Inr (\<lparr>fr_status = FrameEof, fr_body = [], fr_reason = []\<rparr>, rest')
          | Inr (Some body, rest') \<Rightarrow> Inr (\<lparr>fr_status = FrameOk, fr_body = body, fr_reason = []\<rparr>, rest'))"

lemma header_block_shorter:
  "header_block n h a s = (Some r, rest) \<Longrightarrow> length rest < length s"
proof (induction n h a s rule: header_block.induct)
  case (1 n h a s)
  show ?case
  proof (cases "readHeaderLine s")
    case (Pair l rest')
    show ?thesis
    proof (cases l)
      case None
      with 1 Pair show ?thesis by (simp add: header_block.simps [of n h a s])
    next
      case (Some line)
      note sh = readHeaderLine_shorter [OF Pair [unfolded Some]]
      show ?thesis
        using 1 Pair Some sh
        by (auto simp: header_block.simps [of n h a s] split: if_splits dest: less_trans)
    qed
  qed
qed

lemma readFrame_shorter:
  assumes "readFrame mem s = Inr (fr, rest)" and "fr_status fr \<noteq> FrameEof"
  shows "length rest < length s"
proof -
  obtain n h a rest' where hb: "header_block 0 False False s = (Some (n, h, a), rest')"
    using assms by (auto simp: readFrame_def split: prod.splits option.splits)
  have "length rest \<le> length rest'"
    using assms hb by (auto simp: readFrame_def readExact_def split: if_splits)
  with header_block_shorter [OF hb] show ?thesis by simp
qed

section \<open>The reader loop\<close>

text \<open>
  What the loop of \<^verbatim>\<open>main\<close> does with its input: bodies go to \<^verbatim>\<open>handleIncoming\<close>, a reason goes to
  \<^verbatim>\<open>sendNullIdError\<close>, a malformed block without a reason is skipped. The session ends with the
  stream, or with an exception nothing on the reader thread catches (\<^verbatim>\<open>std::terminate\<close>).
\<close>

datatype reader_event = Incoming string | FramingError string

datatype session_end = TransportClosed | ReaderDied

function read_session :: "nat \<Rightarrow> string \<Rightarrow> reader_event list \<times> session_end" where
  "read_session mem s =
     (case readFrame mem s of
        Inl _ \<Rightarrow> ([], ReaderDied)
      | Inr (frame, rest) \<Rightarrow>
          if fr_status frame = FrameEof then ([], TransportClosed)
          else if fr_status frame = FrameMalformed then
            (if fr_reason frame \<noteq> []
             then apfst ((#) (FramingError (fr_reason frame))) (read_session mem rest)
             else read_session mem rest)
          else apfst ((#) (Incoming (fr_body frame))) (read_session mem rest))"
  by pat_completeness auto
termination
  by (relation "measure (\<lambda>(_, s). length s)") (auto intro: readFrame_shorter)

declare read_session.simps [simp del]

section \<open>What the writer puts around a body\<close>

definition frame_bytes :: "string \<Rightarrow> string" where
  "frame_bytes frame =
     ''Content-Length: '' @ nat_text (length frame) @ CRLF @ CRLF @ frame"

section \<open>The interface\<close>

text \<open>
  What both ends of the pipe rely on: a frame written is a frame read, whatever follows it, and
  the empty stream is the end of a session. \<open>fits\<close> is the receiver's limit on a body.
\<close>

locale frame_codec =
  fixes fits :: "string \<Rightarrow> bool"
    and enc :: "string \<Rightarrow> string"
    and dec :: "string \<Rightarrow> reader_event list \<times> session_end"
  assumes dec_frame: "fits b \<Longrightarrow> dec (enc b @ s) = apfst ((#) (Incoming b)) (dec s)"
    and dec_end: "dec [] = ([], TransportClosed)"
begin

lemma dec_frames:
  "list_all fits bs \<Longrightarrow>
     dec (concat (map enc bs) @ s) = apfst ((@) (map Incoming bs)) (dec s)"
  by (induction bs) (auto simp: dec_frame apfst_def map_prod_def split: prod.splits)

lemma dec_session:
  "list_all fits bs \<Longrightarrow> dec (concat (map enc bs)) = (map Incoming bs, TransportClosed)"
  using dec_frames [of bs "[]"] by (simp add: dec_end)

text \<open>Two sequences of frames that look the same on the wire are the same.\<close>

lemma wire_inject:
  "list_all fits bs \<Longrightarrow> list_all fits cs \<Longrightarrow>
     concat (map enc bs) = concat (map enc cs) \<Longrightarrow> bs = cs"
proof -
  assume "list_all fits bs" "list_all fits cs" "concat (map enc bs) = concat (map enc cs)"
  then have "map Incoming bs = map Incoming cs"
    using dec_session [of bs] dec_session [of cs] by simp
  then show "bs = cs" by (rule map_injective) (simp add: inj_def)
qed

end

section \<open>Reading back what was written\<close>

lemma nat_text_no [simp]: "c \<in> {LF, CR, CHR 0x00} \<Longrightarrow> c \<notin> set (nat_text n)"
  using nat_text_digits [of n] by (auto simp: is_digit_def LF_def CR_def)

lemma length_header_announced:
  "n \<le> ulong_max \<Longrightarrow> announced (kCL @ CHR '' '' # nat_text n) = n"
  by (simp add: announced_def c_str_id strtoul10_nat_text)

lemma header_block_line:
  assumes "LF \<notin> set l" and "l \<noteq> []"
  shows "header_block n h a (l @ CRLF @ s) =
    (if headerIs l kCL then header_block (announced l) True True s else header_block n h True s)"
  using assms by (simp add: header_block.simps [of n h a])

lemma header_block_blank [simp]: "header_block n h a (CRLF @ s) = (Some (n, h, a), s)"
  using readHeaderLine_crlf [of "[]" s] by (simp add: header_block.simps [of n h a])

lemma kCL_facts: "kCL \<noteq> []" "LF \<notin> set kCL"
  by (simp_all add: kCL_def LF_def)

lemma readFrame_frame_bytes:
  assumes "length b \<le> mem" and "length b \<le> ulong_max"
  shows "readFrame mem (frame_bytes b @ s) =
           Inr (\<lparr>fr_status = FrameOk, fr_body = b, fr_reason = []\<rparr>, s)"
proof -
  let ?l = "kCL @ CHR '' '' # nat_text (length b)"
  have l: "LF \<notin> set ?l" "?l \<noteq> []" "headerIs ?l kCL"
    using kCL_facts by (auto simp: headerIs_append LF_def)
  have "frame_bytes b @ s = ?l @ CRLF @ CRLF @ b @ s"
    by (simp add: frame_bytes_def kCL_def)
  then have "header_block 0 False False (frame_bytes b @ s) = (Some (length b, True, True), b @ s)"
    by (simp only: header_block_line [OF l(1,2)] l(3) if_True header_block_blank
        length_header_announced [OF assms(2)])
  with assms(1) show ?thesis
    by (simp add: readFrame_def readExact_def)
qed

interpretation pipe: frame_codec "\<lambda>b. length b \<le> mem \<and> length b \<le> ulong_max" frame_bytes
    "read_session mem" for mem
proof unfold_locales
  fix b s :: string
  assume "length b \<le> mem \<and> length b \<le> ulong_max"
  then show "read_session mem (frame_bytes b @ s) = apfst ((#) (Incoming b)) (read_session mem s)"
    by (simp add: read_session.simps [of mem "frame_bytes b @ s"] readFrame_frame_bytes)
next
  show "read_session mem [] = ([], TransportClosed)"
    by (simp add: read_session.simps [of mem "[]"] readFrame_def header_block.simps [of 0]
        readHeaderLine_def)
qed

section \<open>Resynchronization and the end of a session\<close>

text \<open>A block of header lines without a length: each on its line, none announcing a length.\<close>

definition junk_line :: "string \<Rightarrow> bool" where
  "junk_line l \<longleftrightarrow> l \<noteq> [] \<and> LF \<notin> set l \<and> \<not> headerIs l kCL"

definition junk_block :: "string list \<Rightarrow> string" where
  "junk_block ls = concat (map (\<lambda>l. l @ CRLF) ls) @ CRLF"

lemma header_block_junk:
  "list_all junk_line ls \<Longrightarrow> header_block n h a (junk_block ls @ s) = (Some (n, h, a \<or> ls \<noteq> []), s)"
  by (induction ls arbitrary: a) (simp_all add: junk_block_def junk_line_def header_block_line)

lemma read_session_junk:
  assumes "list_all junk_line ls"
  shows "read_session mem (junk_block ls @ s) =
    (if ls = [] then read_session mem s
     else apfst ((#) (FramingError ''frame header block carried no Content-Length''))
            (read_session mem s))"
  using header_block_junk [OF assms, of 0 False False s]
  by (simp add: read_session.simps [of mem "junk_block ls @ s"] readFrame_def)

text \<open>Some header line of the input announces a length no string can have.\<close>

definition announces_too_much :: "nat \<Rightarrow> string \<Rightarrow> bool" where
  "announces_too_much mem s \<longleftrightarrow>
     (\<exists>i < length s. \<exists>l rest. readHeaderLine (drop i s) = (Some l, rest)
        \<and> headerIs l kCL \<and> mem < announced l)"

lemma announces_drop:
  assumes "announces_too_much mem (drop k s)"
  shows "announces_too_much mem s"
proof -
  obtain i l rest where "i < length s - k" "readHeaderLine (drop (i + k) s) = (Some l, rest)"
    "headerIs l kCL" "mem < announced l"
    using assms by (auto simp: announces_too_much_def)
  then show ?thesis
    unfolding announces_too_much_def
    by (intro exI [of _ "i + k"] conjI exI [of _ l] exI [of _ rest]) auto
qed

lemma readHeaderLine_drop:
  "readHeaderLine s = (Some l, rest) \<Longrightarrow> \<exists>k. rest = drop k s"
  unfolding readHeaderLine_def using header_line_loop_split [of "[]" s l rest]
  by (metis append_Cons append_Nil append_assoc append_eq_conv_conj)

lemma header_block_drop:
  "header_block n h a s = (Some r, rest) \<Longrightarrow> \<exists>k. rest = drop k s"
proof (induction n h a s rule: header_block.induct)
  case (1 n h a s)
  obtain line rest' where rl: "readHeaderLine s = (Some line, rest')"
    using 1(3) by (auto simp: header_block.simps [of n h a s] split: prod.splits option.splits)
  obtain k where k: "rest' = drop k s" using readHeaderLine_drop [OF rl] by auto
  show ?case
    using 1 rl k by (auto simp: header_block.simps [of n h a s] split: if_splits)
qed

lemma header_block_announced:
  "header_block n h a s = (Some (m, True, b), rest) \<Longrightarrow>
     (h \<and> m = n) \<or> (\<exists>i < length s. \<exists>l r. readHeaderLine (drop i s) = (Some l, r)
        \<and> headerIs l kCL \<and> m = announced l)"
proof (induction n h a s rule: header_block.induct)
  case (1 n h a s)
  obtain line rest' where rl: "readHeaderLine s = (Some line, rest')"
    using 1(3) by (auto simp: header_block.simps [of n h a s] split: prod.splits option.splits)
  obtain k where k: "rest' = drop k s" using readHeaderLine_drop [OF rl] by auto
  have here: "0 < length s" using readHeaderLine_shorter [OF rl] by (cases s) simp_all
  have later: "\<exists>i < length s. \<exists>l r. readHeaderLine (drop i s) = (Some l, r) \<and> headerIs l kCL \<and> m = announced l"
    if "i < length rest'" "readHeaderLine (drop i rest') = (Some l, r)" "headerIs l kCL" "m = announced l"
    for i l r
    using that k by (intro exI [of _ "i + k"]) auto
  show ?case
  proof (cases "line = []")
    case True
    with 1(3) rl show ?thesis by (simp add: header_block.simps [of n h a s])
  next
    case False
    show ?thesis
    proof (cases "headerIs line kCL")
      case True
      with 1(3) rl False
      have "header_block (announced line) True True rest' = (Some (m, True, b), rest)"
        by (simp add: header_block.simps [of n h a s])
      from 1(1) [OF rl [symmetric] refl False True this] show ?thesis
        using True rl here later by (metis drop0)
    next
      case no: False
      with 1(3) rl False have "header_block n h True rest' = (Some (m, True, b), rest)"
        by (simp add: header_block.simps [of n h a s])
      from 1(2) [OF rl [symmetric] refl False no this] show ?thesis
        using later by metis
    qed
  qed
qed

lemma read_session_died:
  "snd (read_session mem s) = ReaderDied \<Longrightarrow> announces_too_much mem s"
proof (induction mem s rule: read_session.induct)
  case (1 mem s)
  show ?case
  proof (cases "readFrame mem s")
    case (Inl e)
    then obtain m b rest where hb: "header_block 0 False False s = (Some (m, True, b), rest)" "mem < m"
      by (auto simp: readFrame_def readExact_def split: prod.splits option.splits if_splits sum.splits)
    with header_block_announced [OF hb(1)] show ?thesis
      unfolding announces_too_much_def by auto
  next
    case (Inr p)
    obtain frame rest where p: "readFrame mem s = Inr (frame, rest)"
      using Inr by (cases p) auto
    have ne: "fr_status frame \<noteq> FrameEof"
      using 1(4) p by (auto simp: read_session.simps [of mem s])
    then obtain k where k: "rest = drop k s"
      using p header_block_drop [of 0 False False s]
      by (force simp: readFrame_def readExact_def split: prod.splits option.splits if_splits)
    have "snd (read_session mem rest) = ReaderDied"
      using 1(4) p ne by (auto simp: read_session.simps [of mem s] split: if_splits)
    then have "announces_too_much mem rest"
      using 1(1-3) [OF p refl ne] by (cases "fr_status frame = FrameMalformed"; cases "fr_reason frame = []") simp_all
    with k announces_drop show ?thesis by blast
  qed
qed

section \<open>The properties\<close>

text \<open>
  C13. What the writer frames, a reader of the same protocol reads back: any sequence of bodies
  comes out whole, in order and with nothing in between, whatever bytes the bodies hold and
  whatever follows them on the pipe.
\<close>

theorem framing_roundtrip:
  assumes "list_all (\<lambda>b. length b \<le> mem \<and> length b \<le> ulong_max) bs"
  shows "read_session mem (concat (map frame_bytes bs) @ s)
           = apfst ((@) (map Incoming bs)) (read_session mem s)"
  using assms by (rule pipe.dec_frames)

theorem framing_roundtrip_witness:
  "read_session 100 (concat (map frame_bytes [''{}'', [], CRLF @ ''Content-Length: 7'' @ CRLF]) @ [])
     = ([Incoming ''{}'', Incoming [], Incoming (CRLF @ ''Content-Length: 7'' @ CRLF)], TransportClosed)"
  using framing_roundtrip [of 100 "[''{}'', [], CRLF @ ''Content-Length: 7'' @ CRLF]" "[]"]
  by (simp add: pipe.dec_end CRLF_def ulong_max_def)

text \<open>
  C33. The reader resynchronizes: a block of header lines without a length (a login banner, a
  mistyped header) is reported once, a blank line between frames is skipped silently, and the
  frame that follows is served as if nothing had come before it.
\<close>

theorem framing_resync:
  assumes "list_all junk_line ls" and "length b \<le> mem" and "length b \<le> ulong_max"
  shows "read_session mem (junk_block ls @ frame_bytes b @ s) =
    (if ls = [] then apfst ((#) (Incoming b)) (read_session mem s)
     else apfst (\<lambda>es. FramingError ''frame header block carried no Content-Length'' # Incoming b # es)
            (read_session mem s))"
  using assms pipe.dec_frame [of b mem s]
  by (simp add: read_session_junk apfst_def map_prod_def split: prod.splits)

theorem framing_resync_witness:
  "read_session 10 (junk_block [''Welcome'', ''motd: 3''] @ frame_bytes ''{}'' @ []) =
     ([FramingError ''frame header block carried no Content-Length'', Incoming ''{}''], TransportClosed)"
  using framing_resync [of "[''Welcome'', ''motd: 3'']" "''{}''" 10 "[]"]
  by (simp add: pipe.dec_end ulong_max_def junk_line_def headerIs_def kCL_def LF_def)

text \<open>
  The session always ends, and it ends with the stream unless a header line announces more
  than a string can hold. Such a line does end the process: \<^verbatim>\<open>strtoul\<close> reads a negative length as a
  huge one, the allocation throws on the reader thread, and nothing catches it.
\<close>

theorem reader_death:
  "(snd (read_session mem s) = ReaderDied \<longrightarrow> announces_too_much mem s)
   \<and> (mem < ulong_max \<longrightarrow>
        read_session mem (''Content-Length: -1'' @ CRLF @ CRLF @ s) = ([], ReaderDied))"
proof -
  have a: "announced ''Content-Length: -1'' = ulong_max"
    by (simp add: announced_def kCL_def c_str_def strtoul10_def is_space_def is_digit_def
        digits_value_def digit_val_def ulong_max_def)
  have h: "headerIs ''Content-Length: -1'' kCL" "LF \<notin> set ''Content-Length: -1''"
    by (simp_all add: headerIs_def kCL_def LF_def upt_rec)
  have "header_block 0 False False (''Content-Length: -1'' @ CRLF @ CRLF @ s) = (Some (ulong_max, True, True), s)"
    by (simp only: header_block_line [OF h(2) list.distinct(2)] h(1) if_True a header_block_blank)
  then have "mem < ulong_max \<Longrightarrow>
      read_session mem (''Content-Length: -1'' @ CRLF @ CRLF @ s) = ([], ReaderDied)"
    by (simp only: read_session.simps [of mem "''Content-Length: -1'' @ CRLF @ CRLF @ s"]
        readFrame_def readExact_def if_True if_False simp_thms option.case prod.case sum.case)
  then show ?thesis
    using read_session_died [of mem s] by blast
qed

theorem reader_death_witness:
  "read_session 1000 (''Content-Length: -1'' @ CRLF @ CRLF @ ''{}'') = ([], ReaderDied)"
  using reader_death [of 1000 "''{}''"] by (simp add: ulong_max_def)

end
