(* ===== verification/LaneFifo.thy ===== *)
theory LaneFifo
  imports Lanes
begin

text \<open>
  The contract the single writer and the work queue share: elements are pushed on a lane and
  taken one at a time; what a lane gives out is what it was given, in order, each element once.
  The interface is the locale \<open>lane_fifo\<close>; the two containers of \<^verbatim>\<open>agent/main.cpp\<close> interpret it.
\<close>

datatype 'a qop = Push lane 'a | Pop

text \<open>What was pushed on, and what was taken from, one lane.\<close>

fun pushes :: "lane \<Rightarrow> 'a qop list \<Rightarrow> 'a list" where
  "pushes l [] = []"
| "pushes l (Push l' x # ops) = (if l' = l then x # pushes l ops else pushes l ops)"
| "pushes l (Pop # ops) = pushes l ops"

definition taken :: "lane \<Rightarrow> (lane \<times> 'a) list \<Rightarrow> 'a list" where
  "taken l xs = map snd (filter (\<lambda>p. fst p = l) xs)"

lemma taken_simps [simp]:
  "taken l [] = []"
  "taken l ((l', x) # xs) = (if l' = l then x # taken l xs else taken l xs)"
  "taken l (xs @ ys) = taken l xs @ taken l ys"
  by (simp_all add: taken_def)

text \<open>
  \<open>push\<close> and \<open>pop\<close> are the two operations on a container of type \<open>'q\<close>, \<open>held\<close> what each lane holds,
  and \<open>admits\<close> which lanes the container may take from now.
\<close>

locale lane_fifo =
  fixes push :: "lane \<Rightarrow> 'a \<Rightarrow> 'q \<Rightarrow> 'q"
    and pop :: "'q \<Rightarrow> (lane \<times> 'a \<times> 'q) option"
    and held :: "'q \<Rightarrow> lane \<Rightarrow> 'a list"
    and admits :: "'q \<Rightarrow> lane \<Rightarrow> bool"
  assumes held_push: "held (push l x q) l' = (if l' = l then held q l @ [x] else held q l')"
    and pop_Some: "pop q = Some (l, x, q') \<Longrightarrow>
          held q l = x # held q' l \<and> (\<forall>l'. l' \<noteq> l \<longrightarrow> held q' l' = held q l')
          \<and> admits q l \<and> (\<forall>l' < l. held q l' = [] \<or> \<not> admits q l')"
    and pop_None: "pop q = None \<longleftrightarrow> (\<forall>l. held q l = [] \<or> \<not> admits q l)"
begin

text \<open>A sequence of pushes and pops; a pop that finds nothing it may take leaves all as it is.\<close>

fun exec :: "'a qop list \<Rightarrow> 'q \<Rightarrow> (lane \<times> 'a) list \<times> 'q" where
  "exec [] q = ([], q)"
| "exec (Push l x # ops) q = exec ops (push l x q)"
| "exec (Pop # ops) q =
     (case pop q of
        None \<Rightarrow> exec ops q
      | Some (l, x, q') \<Rightarrow> (let (out, q'') = exec ops q' in ((l, x) # out, q'')))"

lemma exec_conserves:
  "exec ops q = (out, q') \<Longrightarrow> taken l out @ held q' l = held q l @ pushes l ops"
proof (induction ops q arbitrary: out q' rule: exec.induct)
  case (2 l' x ops q)
  then show ?case by (auto simp: held_push)
next
  case (3 ops q)
  show ?case
  proof (cases "pop q")
    case None
    with 3 show ?thesis by simp
  next
    case (Some r)
    obtain l1 x1 q1 where r: "r = (l1, x1, q1)" by (cases r)
    obtain out1 q2 where e: "exec ops q1 = (out1, q2)" by force
    have "taken l out1 @ held q2 l = held q1 l @ pushes l ops"
      using 3(2) [OF Some r [symmetric] refl e] by simp
    moreover have "out = (l1, x1) # out1" "q' = q2"
      using 3(3) Some r e by auto
    ultimately show ?thesis
      using pop_Some [OF Some [unfolded r]] by auto
  qed
qed simp

lemma exec_fifo:
  "exec ops q = (out, q') \<Longrightarrow> held q l = [] \<Longrightarrow> prefix (taken l out) (pushes l ops)"
  using exec_conserves [of ops q out q' l] by (metis append_Nil prefixI)

lemma pop_highest:
  "pop q = Some (l, x, q') \<Longrightarrow> held q l' \<noteq> [] \<Longrightarrow> admits q l' \<Longrightarrow> l \<le> l'"
  using pop_Some by (meson linorder_not_less)

lemma pop_ready: "held q l \<noteq> [] \<Longrightarrow> admits q l \<Longrightarrow> pop q \<noteq> None"
  using pop_None by blast

end

end
