(* ===== verification/Writer.thy ===== *)
theory Writer
  imports LaneFifo Framing
begin

text \<open>
  The single writer (\<^verbatim>\<open>class Writer\<close> of \<^verbatim>\<open>agent/main.cpp\<close>): the only code that writes standard
  output. Producers enqueue frames on a lane under the mutex; the writer's thread takes the
  highest-priority frame at every frame boundary and writes its header and body.
\<close>

section \<open>State and operations\<close>

text \<open>
  The members \<^verbatim>\<open>q_\<close>, \<^verbatim>\<open>bytes_\<close> (a 64-bit \<^verbatim>\<open>size_t\<close>) and \<^verbatim>\<open>stop_\<close>, what standard output received, and
  whether the thread has returned from its loop.
\<close>

record writer =
  w_q :: "string lane_queues"
  w_bytes :: "64 word"
  w_stop :: bool
  w_stdout :: string
  w_returned :: bool

definition new_writer :: writer where
  "new_writer = \<lparr>w_q = no_queues, w_bytes = 0, w_stop = False, w_stdout = [], w_returned = False\<rparr>"

definition writer_enqueue :: "lane \<Rightarrow> string \<Rightarrow> writer \<Rightarrow> writer" where
  "writer_enqueue l payload w =
     w\<lparr>w_bytes := w_bytes w + word_of_nat (length payload), w_q := lq_push l payload (w_q w)\<rparr>"

definition queuedBytes :: "writer \<Rightarrow> nat" where
  "queuedBytes w = unat (w_bytes w)"

definition writer_stop :: "writer \<Rightarrow> writer" where
  "writer_stop w = w\<lparr>w_stop := True\<rparr>"

definition anyReadyLocked :: "writer \<Rightarrow> bool" where
  "anyReadyLocked w \<longleftrightarrow> \<not> lq_empty (w_q w)"

text \<open>The locked part of one iteration: the frame of the first lane that has one.\<close>

definition writer_take :: "writer \<Rightarrow> (lane \<times> string \<times> writer) option" where
  "writer_take w =
     (case lq_pick (\<lambda>_. True) (w_q w) of
        None \<Rightarrow> None
      | Some l \<Rightarrow>
          (let frame = hd (w_q w l)
           in Some (l, frame, w\<lparr>w_q := lq_pop l (w_q w),
                               w_bytes := w_bytes w - word_of_nat (length frame)\<rparr>)))"

text \<open>
  One iteration of \<^verbatim>\<open>loop\<close>. \<open>None\<close>: the thread waits on the condition variable (or has returned).
  \<open>accepted\<close> is what \<^verbatim>\<open>fwrite\<close> does: \<open>None\<close> when both writes succeed, \<open>Some k\<close> when only \<open>k\<close> bytes
  went out, which ends the thread.
\<close>

definition writer_iter :: "nat option \<Rightarrow> writer \<Rightarrow> writer option" where
  "writer_iter accepted w =
     (if w_returned w \<or> \<not> (w_stop w \<or> anyReadyLocked w) then None
      else case writer_take w of
        None \<Rightarrow> Some (w\<lparr>w_returned := True\<rparr>)
      | Some (l, frame, w') \<Rightarrow>
          (case accepted of
             None \<Rightarrow> Some (w'\<lparr>w_stdout := w_stdout w' @ frame_bytes frame\<rparr>)
           | Some k \<Rightarrow> Some (w'\<lparr>w_stdout := w_stdout w' @ take k (frame_bytes frame),
                               w_returned := True\<rparr>)))"

section \<open>The writer is a lane queue\<close>

lemma held_enqueue [simp]: "w_q (writer_enqueue l p w) = lq_push l p (w_q w)"
  by (simp add: writer_enqueue_def)

lemma writer_take_None: "writer_take w = None \<longleftrightarrow> lq_empty (w_q w)"
  by (auto simp: writer_take_def lq_pick_None lq_pick_Some lq_empty_iff Let_def split: option.splits)

lemma writer_take_Some:
  "writer_take w = Some (l, frame, w') \<longleftrightarrow>
     lq_pick (\<lambda>_. True) (w_q w) = Some l \<and> frame = hd (w_q w l)
     \<and> w' = w\<lparr>w_q := lq_pop l (w_q w), w_bytes := w_bytes w - word_of_nat (length frame)\<rparr>"
  by (auto simp: writer_take_def Let_def split: option.splits)

interpretation wq: lane_fifo writer_enqueue writer_take w_q "\<lambda>_ _. True"
proof unfold_locales
  fix w l x w'
  assume "writer_take w = Some (l, x, w')"
  then show "w_q w l = x # w_q w' l \<and> (\<forall>l'. l' \<noteq> l \<longrightarrow> w_q w' l' = w_q w l')
      \<and> True \<and> (\<forall>l' < l. w_q w l' = [] \<or> \<not> True)"
    by (auto simp: writer_take_Some lq_pick_Some)
qed (auto simp: writer_take_None lq_empty_iff)

section \<open>The byte count\<close>

definition queued_sizes :: "writer \<Rightarrow> nat" where
  "queued_sizes w = (\<Sum>l\<leftarrow>lanes. sum_list (map length (w_q w l)))"

definition writer_wf :: "writer \<Rightarrow> bool" where
  "writer_wf w \<longleftrightarrow> w_bytes w = word_of_nat (queued_sizes w)"

lemma queued_sizes_enqueue [simp]:
  "queued_sizes (writer_enqueue l p w) = queued_sizes w + length p"
  by (cases l) (simp_all add: queued_sizes_def lanes_def)

lemma queued_sizes_take:
  "writer_take w = Some (l, frame, w') \<Longrightarrow> queued_sizes w = queued_sizes w' + length frame"
  using wq.pop_Some [of w l frame w'] by (cases l) (simp_all add: queued_sizes_def lanes_def)

lemma wf_new [simp]: "writer_wf new_writer"
  by (simp add: writer_wf_def new_writer_def queued_sizes_def no_queues_def lanes_def)

lemma wf_enqueue: "writer_wf w \<Longrightarrow> writer_wf (writer_enqueue l p w)"
  by (simp add: writer_wf_def) (simp add: writer_enqueue_def)

lemma wf_take:
  assumes "writer_wf w" and "writer_take w = Some (l, frame, w')"
  shows "writer_wf w'"
proof -
  have "w_bytes w' = w_bytes w - word_of_nat (length frame)"
    using assms(2) by (simp add: writer_take_Some)
  with assms(1) queued_sizes_take [OF assms(2)] show ?thesis
    by (simp add: writer_wf_def)
qed

lemma wf_iter:
  assumes "writer_wf w" and "writer_iter acc w = Some w'"
  shows "writer_wf w'"
proof (cases "writer_take w")
  case None
  with assms show ?thesis
    by (auto simp: writer_iter_def writer_wf_def queued_sizes_def split: if_splits)
next
  case (Some r)
  obtain l f w1 where r: "r = (l, f, w1)" by (cases r)
  have "writer_wf w1" using wf_take [OF assms(1) Some [unfolded r]] .
  with assms(2) Some r show ?thesis
    by (auto simp: writer_iter_def writer_wf_def queued_sizes_def split: if_splits option.splits)
qed

section \<open>Steps of the process\<close>

text \<open>
  Everything that touches the writer after start-up, in any interleaving: a producer enqueues,
  the main thread asks it to stop, the writer's thread runs one iteration. \<open>sent\<close> lists the frames
  that iteration wrote in full, with their lanes.
\<close>

datatype wevent = WEnqueue lane string | WStop | WIter "nat option"

inductive wstep :: "writer \<Rightarrow> wevent \<Rightarrow> writer \<Rightarrow> bool" where
  enqueue: "wstep w (WEnqueue l p) (writer_enqueue l p w)"
| stop: "wstep w WStop (writer_stop w)"
| iter: "writer_iter acc w = Some w' \<Longrightarrow> wstep w (WIter acc) w'"

inductive_cases wstep_enqueueE: "wstep w (WEnqueue l p) w'"
inductive_cases wstep_stopE: "wstep w WStop w'"
inductive_cases wstep_iterE: "wstep w (WIter acc) w'"

definition iter_sent :: "nat option \<Rightarrow> writer \<Rightarrow> (lane \<times> string) list" where
  "iter_sent acc w =
     (case writer_take w of
        Some (l, frame, _) \<Rightarrow> if acc = None then [(l, frame)] else []
      | None \<Rightarrow> [])"

fun event_sent :: "wevent \<Rightarrow> writer \<Rightarrow> (lane \<times> string) list" where
  "event_sent (WIter acc) w = iter_sent acc w"
| "event_sent _ w = []"

fun enqueued :: "lane \<Rightarrow> wevent list \<Rightarrow> string list" where
  "enqueued l [] = []"
| "enqueued l (WEnqueue l' p # es) = (if l' = l then p # enqueued l es else enqueued l es)"
| "enqueued l (_ # es) = enqueued l es"

text \<open>A run, with its events and the frames sent. The pipe stays up while every write is accepted.\<close>

inductive wrun :: "writer \<Rightarrow> wevent list \<Rightarrow> (lane \<times> string) list \<Rightarrow> writer \<Rightarrow> bool" where
  nil: "wrun w [] [] w"
| cons: "wstep w e w1 \<Longrightarrow> wrun w1 es sent w2 \<Longrightarrow> wrun w (e # es) (event_sent e w @ sent) w2"

definition pipe_up :: "wevent list \<Rightarrow> bool" where
  "pipe_up es \<longleftrightarrow> list_all (\<lambda>e. case e of WIter acc \<Rightarrow> acc = None | _ \<Rightarrow> True) es"

lemma pipe_up_simps [simp]:
  "pipe_up []" "pipe_up (WEnqueue l p # es) = pipe_up es" "pipe_up (WStop # es) = pipe_up es"
  "pipe_up (WIter acc # es) \<longleftrightarrow> acc = None \<and> pipe_up es"
  by (simp_all add: pipe_up_def)

lemma iter_up:
  assumes "writer_iter None w = Some w'"
  shows "taken l (iter_sent None w) @ w_q w' l = w_q w l
    \<and> w_stdout w' = w_stdout w @ concat (map (\<lambda>p. frame_bytes (snd p)) (iter_sent None w))"
proof (cases "writer_take w")
  case None
  with assms show ?thesis by (auto simp: writer_iter_def iter_sent_def split: if_splits)
next
  case (Some r)
  obtain l1 f w1 where r: "r = (l1, f, w1)" by (cases r)
  have p: "w_q w l1 = f # w_q w1 l1" "l' \<noteq> l1 \<Longrightarrow> w_q w1 l' = w_q w l'" for l'
    using wq.pop_Some [OF Some [unfolded r]] by auto
  have "w_stdout w1 = w_stdout w" using Some r by (simp add: writer_take_Some)
  with assms Some r p show ?thesis
    by (auto simp: writer_iter_def iter_sent_def split: if_splits)
qed

lemma wrun_conserves:
  assumes "wrun w es sent w'" and "pipe_up es"
  shows "taken l sent @ w_q w' l = w_q w l @ enqueued l es
    \<and> w_stdout w' = w_stdout w @ concat (map (\<lambda>p. frame_bytes (snd p)) sent)"
  using assms
proof (induction rule: wrun.induct)
  case (cons w e w1 es sent w2)
  from cons.hyps(1) show ?case
  proof cases
    case (enqueue l' p)
    with cons show ?thesis by (simp add: writer_enqueue_def)
  next
    case stop
    with cons show ?thesis by (simp add: writer_stop_def)
  next
    case (iter acc)
    with cons.prems have "acc = None" "pipe_up es" by simp_all
    with cons.IH iter iter_up [of w w1] show ?thesis
      by (metis append.assoc concat_append enqueued.simps(4) event_sent.simps(1) map_append
          taken_simps(3))
  qed
qed simp

lemma wrun_wf: "wrun w es sent w' \<Longrightarrow> writer_wf w \<Longrightarrow> writer_wf w'"
proof (induction rule: wrun.induct)
  case (cons w e w1 es sent w2)
  from cons.hyps(1) have "writer_wf w1"
  proof cases
    case stop
    with cons.prems show ?thesis by (simp add: writer_wf_def writer_stop_def queued_sizes_def)
  qed (use cons.prems in \<open>auto intro: wf_enqueue wf_iter\<close>)
  then show ?case by (rule cons.IH)
qed

section \<open>Shutting down\<close>

text \<open>The iterations of the thread once nothing is enqueued any more.\<close>

fun writer_drain :: "nat \<Rightarrow> writer \<Rightarrow> writer" where
  "writer_drain 0 w = w"
| "writer_drain (Suc n) w =
     (case writer_iter None w of None \<Rightarrow> w | Some w' \<Rightarrow> writer_drain n w')"

definition drain_order :: "writer \<Rightarrow> string list" where
  "drain_order w = concat (map (w_q w) lanes)"

lemma drain_order_take:
  "writer_take w = Some (l, frame, w') \<Longrightarrow> drain_order w = frame # drain_order w'"
  by (cases l) (auto simp: writer_take_Some lq_pick_Some drain_order_def lanes_def all_lanes
      less_lane_def)

lemma drain_order_None: "writer_take w = None \<Longrightarrow> drain_order w = []"
  by (simp add: writer_take_None lq_empty_iff drain_order_def lanes_def)

lemma length_drain_order: "length (drain_order w) = lq_size (w_q w)"
  by (simp add: drain_order_def lq_size_def lanes_def)

lemma writer_drain_all:
  assumes "w_stop w" and "\<not> w_returned w" and "length (drain_order w) < n"
  shows "w_returned (writer_drain n w) \<and> lq_empty (w_q (writer_drain n w))
    \<and> w_stdout (writer_drain n w) = w_stdout w @ concat (map frame_bytes (drain_order w))"
  using assms
proof (induction n arbitrary: w)
  case (Suc n)
  show ?case
  proof (cases "writer_take w")
    case None
    then have "writer_iter None w = Some (w\<lparr>w_returned := True\<rparr>)"
      using Suc.prems by (simp add: writer_iter_def)
    moreover have "writer_drain n (w\<lparr>w_returned := True\<rparr>) = w\<lparr>w_returned := True\<rparr>"
      by (cases n) (simp_all add: writer_iter_def)
    ultimately show ?thesis
      using None drain_order_None [OF None] by (simp add: writer_take_None)
  next
    case (Some r)
    obtain l f w1 where r: "r = (l, f, w1)" by (cases r)
    define w2 where "w2 = w1\<lparr>w_stdout := w_stdout w1 @ frame_bytes f\<rparr>"
    have w1: "w_stdout w1 = w_stdout w" "w_stop w1" "\<not> w_returned w1"
      using Some r Suc.prems by (auto simp: writer_take_Some)
    have it: "writer_iter None w = Some w2"
      using Some r Suc.prems by (simp add: writer_iter_def w2_def)
    have d: "drain_order w = f # drain_order w2"
      using drain_order_take [OF Some [unfolded r]] by (simp add: drain_order_def w2_def)
    have "w_returned (writer_drain n w2) \<and> lq_empty (w_q (writer_drain n w2))
        \<and> w_stdout (writer_drain n w2) = w_stdout w2 @ concat (map frame_bytes (drain_order w2))"
      using Suc.prems(3) w1 d by (intro Suc.IH) (simp_all add: w2_def)
    with it d w1 show ?thesis by (simp add: w2_def)
  qed
qed simp

section \<open>The properties\<close>

text \<open>
  C14. While the pipe accepts what it is given, the writer loses, repeats and reorders nothing
  within a lane: in every interleaving, the frames sent on a lane are an initial part of those
  enqueued on it and the rest is still queued, and standard output holds exactly the frames sent, so a
  reader of the protocol gets their bodies in the order they were sent. The byte counter the
  tunnels throttle on is the exact number of bytes queued, modulo its 64 bits.
\<close>

theorem writer_delivers:
  assumes "wrun new_writer es sent w" and "pipe_up es"
    and "list_all (\<lambda>p. length (snd p) \<le> mem \<and> length (snd p) \<le> ulong_max) sent"
  shows "taken l sent @ w_q w l = enqueued l es
    \<and> read_session mem (w_stdout w) = (map (\<lambda>p. Incoming (snd p)) sent, TransportClosed)
    \<and> queuedBytes w = queued_sizes w mod 2 ^ 64"
proof -
  have c: "taken l sent @ w_q w l = enqueued l es"
    "w_stdout w = concat (map frame_bytes (map snd sent))"
    using wrun_conserves [OF assms(1,2), of l]
    by (simp_all add: new_writer_def no_queues_def comp_def)
  have "list_all (\<lambda>b. length b \<le> mem \<and> length b \<le> ulong_max) (map snd sent)"
    using assms(3) by (simp add: list_all_iff)
  from pipe.dec_session [OF this] c(2)
  have "read_session mem (w_stdout w) = (map (\<lambda>p. Incoming (snd p)) sent, TransportClosed)"
    by simp
  moreover have "writer_wf w" using wrun_wf [OF assms(1) wf_new] .
  ultimately show ?thesis
    using c by (simp add: writer_wf_def queuedBytes_def unat_of_nat)
qed

theorem writer_delivers_witness:
  "\<exists>sent w. wrun new_writer [WEnqueue Bulk ''b'', WEnqueue Interactive ''i'', WIter None] sent w
     \<and> sent = [(Interactive, ''i'')] \<and> taken Bulk sent @ w_q w Bulk = [''b'']
     \<and> read_session 5 (w_stdout w) = ([Incoming ''i''], TransportClosed)"
proof -
  let ?w2 = "writer_enqueue Interactive ''i'' (writer_enqueue Bulk ''b'' new_writer)"
  have "w_q ?w2 Bulk = [''b'']" "\<not> w_returned ?w2"
    by (simp_all add: new_writer_def writer_enqueue_def no_queues_def)
  then have "writer_iter None ?w2 \<noteq> None"
    by (force simp: writer_iter_def anyReadyLocked_def lq_empty_iff split: option.splits)
  then obtain w3 where w3: "writer_iter None ?w2 = Some w3" by blast
  have s: "iter_sent None ?w2 = [(Interactive, ''i'')]"
    by (simp add: iter_sent_def writer_take_def lq_pick_def lanes_def Let_def new_writer_def
        no_queues_def)
  have "wrun new_writer [WEnqueue Bulk ''b'', WEnqueue Interactive ''i'', WIter None]
     ([] @ [] @ iter_sent None ?w2 @ []) w3"
    using wrun.cons [OF wstep.enqueue wrun.cons [OF wstep.enqueue wrun.cons [OF wstep.iter [OF w3] wrun.nil]]]
    by simp
  then have r: "wrun new_writer [WEnqueue Bulk ''b'', WEnqueue Interactive ''i'', WIter None]
     [(Interactive, ''i'')] w3" by (simp add: s)
  with writer_delivers [OF r, of 5 Bulk] show ?thesis
    by (intro exI [of _ "[(Interactive, ''i'')]"] exI [of _ w3]) (simp add: ulong_max_def)
qed

text \<open>
  A frame boundary always goes to the most urgent traffic: the frame an iteration sends is
  the oldest of its lane, and every more urgent lane was empty at that moment. The thread waits
  only when nothing at all is queued and no stop was asked for.
\<close>

theorem writer_priority:
  "(iter_sent acc w = [(l, frame)] \<longrightarrow>
       w_q w l \<noteq> [] \<and> frame = hd (w_q w l) \<and> (\<forall>l'. l' < l \<longrightarrow> w_q w l' = []))
   \<and> (\<not> w_returned w \<longrightarrow> (writer_iter acc w = None \<longleftrightarrow> (\<forall>l. w_q w l = []) \<and> \<not> w_stop w))"
proof (intro conjI impI)
  assume "iter_sent acc w = [(l, frame)]"
  then obtain w' where "writer_take w = Some (l, frame, w')"
    by (auto simp: iter_sent_def split: option.splits if_splits)
  from wq.pop_Some [OF this]
  show "w_q w l \<noteq> []" "frame = hd (w_q w l)" "\<forall>l'. l' < l \<longrightarrow> w_q w l' = []"
    by auto
next
  assume "\<not> w_returned w"
  then show "writer_iter acc w = None \<longleftrightarrow> (\<forall>l. w_q w l = []) \<and> \<not> w_stop w"
    by (auto simp: writer_iter_def anyReadyLocked_def lq_empty_iff writer_take_None
        split: option.splits)
qed

theorem writer_priority_witness:
  "iter_sent None (writer_enqueue Normal ''n'' new_writer) = [(Normal, ''n'')]
   \<and> w_q (writer_enqueue Normal ''n'' new_writer) Interactive = []"
proof -
  let ?w = "writer_enqueue Normal ''n'' new_writer"
  have s: "iter_sent None ?w = [(Normal, ''n'')]"
    by (simp add: iter_sent_def writer_take_def lq_pick_def lanes_def Let_def new_writer_def
        no_queues_def)
  then have "\<forall>l'. l' < Normal \<longrightarrow> w_q ?w l' = []"
    using writer_priority [of None ?w Normal "''n''"] by blast
  then have "w_q ?w Interactive = []" using less_lane_def [of Interactive Normal] by (metis lane_index.simps(1,2) zero_less_one)
  with s show ?thesis by blast
qed

text \<open>
  The writer stops only when it has nothing left: asked to stop, with no producer left and the
  pipe up, its thread returns after as many iterations as there are frames, plus one, and by then
  every queued frame is on the pipe, the urgent lanes first.
\<close>

theorem writer_drains:
  assumes "\<not> w_returned w"
  shows "let w' = writer_drain (Suc (lq_size (w_q w))) (writer_stop w)
    in w_returned w' \<and> lq_empty (w_q w')
       \<and> w_stdout w' = w_stdout w
           @ concat (map frame_bytes (w_q w Interactive @ w_q w Normal @ w_q w Bulk))"
  using writer_drain_all [of "writer_stop w" "Suc (lq_size (w_q w))"] assms
  by (simp add: writer_stop_def length_drain_order drain_order_def lanes_def Let_def)
     (simp add: lq_size_def lanes_def)

theorem writer_drains_witness:
  "let w' = writer_drain (Suc (lq_size (w_q (writer_enqueue Bulk ''b'' new_writer))))
              (writer_stop (writer_enqueue Bulk ''b'' new_writer))
   in w_returned w' \<and> w_stdout w' = frame_bytes ''b''"
  using writer_drains [of "writer_enqueue Bulk ''b'' new_writer"]
  by (simp add: Let_def new_writer_def writer_enqueue_def no_queues_def)

end
