(* ===== verification/Respond.thy ===== *)
theory Respond
  imports Writer Codec
begin

text \<open>
  The response path of \<^verbatim>\<open>agent/main.cpp\<close>: \<^verbatim>\<open>deflateBytes\<close>, \<^verbatim>\<open>respondEnvelope\<close>, \<^verbatim>\<open>Responder\<close> and
  \<^verbatim>\<open>sendNullIdError\<close>. Serializing JSON (nlohmann's \<^verbatim>\<open>dump\<close>) and zlib's \<^verbatim>\<open>compress2\<close> are code of
  other libraries: the parameters \<open>dump\<close> and \<open>compress2\<close>.
\<close>

section \<open>Transport state\<close>

text \<open>The atomics \<^verbatim>\<open>g_frameCap\<close> and \<^verbatim>\<open>g_deflate\<close>, and the writer \<^verbatim>\<open>g_writer\<close>.\<close>

definition kMinFrameCap :: nat where "kMinFrameCap = 64 * 1024"
definition kMaxFrameCap :: nat where "kMaxFrameCap = 256 * 1024"
definition kDefaultFrameCap :: nat where "kDefaultFrameCap = 128 * 1024"

record transport =
  g_frameCap :: nat
  g_deflate :: bool
  g_writer :: writer

definition initial_transport :: transport where
  "initial_transport = \<lparr>g_frameCap = kDefaultFrameCap, g_deflate = False, g_writer = new_writer\<rparr>"

definition enqueue_frame :: "lane \<Rightarrow> transport \<Rightarrow> string \<Rightarrow> transport" where
  "enqueue_frame l t frame = t\<lparr>g_writer := writer_enqueue l frame (g_writer t)\<rparr>"

section \<open>Compression\<close>

definition kDeflateMinResponse :: nat where "kDeflateMinResponse = 1024"

text \<open>
  \<^verbatim>\<open>deflateBytes\<close>: the compressed bytes, or nothing when zlib fails or the result is not at least an
  eighth smaller. \<open>compress2\<close> gives \<^verbatim>\<open>None\<close> for any status but \<^verbatim>\<open>Z_OK\<close>.
\<close>

definition deflateBytes :: "(string \<Rightarrow> string option) \<Rightarrow> string \<Rightarrow> string option" where
  "deflateBytes compress2 s =
     (case compress2 s of
        None \<Rightarrow> None
      | Some out \<Rightarrow>
          (let bound = length out
           in if length s \<le> bound + bound div 8 then None else Some out))"

lemma deflateBytes_shrinks: "deflateBytes z s = Some p \<Longrightarrow> z s = Some p \<and> length p < length s"
  by (auto simp: deflateBytes_def Let_def split: option.splits if_splits)

section \<open>Chunks\<close>

definition chunk_note :: "json \<Rightarrow> int \<Rightarrow> bool \<Rightarrow> string \<Rightarrow> json" where
  "chunk_note rid seq is_last chunk =
     JObj [(''jsonrpc'', JStr ''2.0''), (''method'', JStr ''rpc.chunk''),
           (''params'', JObj [(''id'', rid), (''seq'', JInt seq), (''last'', JBool is_last),
                              (''data'', JStr chunk)])]"

definition chunk_final :: "json \<Rightarrow> nat \<Rightarrow> bool \<Rightarrow> json" where
  "chunk_final rid bytes packed =
     JObj [(''jsonrpc'', JStr ''2.0''), (''id'', rid),
           (''result'', JObj ([(''streamed'', JBool True), (''bytes'', JInt (int bytes))]
              @ (if packed then [(''encoding'', JStr ''deflate'')] else [])))]"

text \<open>
  The \<^verbatim>\<open>while (off < b64.size())\<close> loop, which advances by \<^verbatim>\<open>take\<close> and would not end for a
  \<^verbatim>\<open>maxData\<close> of 0: \<open>None\<close> is not ending.
\<close>

partial_function (option) chunk_loop ::
  "(json \<Rightarrow> string) \<Rightarrow> json \<Rightarrow> nat \<Rightarrow> string \<Rightarrow> nat \<Rightarrow> int \<Rightarrow> string list option" where
  "chunk_loop dump rid maxData b64 off seq =
     (if off < length b64
      then (let tk = min maxData (length b64 - off);
                is_last = (length b64 \<le> off + tk);
                note = chunk_note rid seq is_last (take tk (drop off b64))
            in Option.bind (chunk_loop dump rid maxData b64 (off + tk) (seq + 1))
                 (\<lambda>frames. Some (dump note # frames)))
      else Some [])"

definition max_data :: "nat \<Rightarrow> nat" where
  "max_data cap = (let headroom = 4096 in if headroom < cap then cap - headroom else cap div 2)"

text \<open>What compression does to one response, with \<open>plain\<close> the thread's \<^verbatim>\<open>t_plainReply\<close>.\<close>

definition packed_envelope ::
  "(string \<Rightarrow> string option) \<Rightarrow> bool \<Rightarrow> bool \<Rightarrow> string \<Rightarrow> string option" where
  "packed_envelope compress2 deflate plain envelope =
     (if deflate \<and> \<not> plain \<and> kDeflateMinResponse \<le> length envelope
      then deflateBytes compress2 envelope else None)"

text \<open>The frames of one response, in the order they are enqueued.\<close>

definition respond_frames ::
  "(json \<Rightarrow> string) \<Rightarrow> (string \<Rightarrow> string option) \<Rightarrow> nat \<Rightarrow> bool \<Rightarrow> bool \<Rightarrow> json \<Rightarrow> string
    \<Rightarrow> string list option" where
  "respond_frames dump compress2 cap deflate plain rid envelope =
     (let packed = packed_envelope compress2 deflate plain envelope
      in if packed = None \<and> length envelope \<le> cap then Some [envelope]
         else (let b64 = base64Encode (case packed of Some p \<Rightarrow> p | None \<Rightarrow> envelope)
               in Option.bind (chunk_loop dump rid (max_data cap) b64 0 0)
                    (\<lambda>frames. Some (frames @ [dump (chunk_final rid (length envelope) (packed \<noteq> None))]))))"

definition respondEnvelope ::
  "(json \<Rightarrow> string) \<Rightarrow> (string \<Rightarrow> string option) \<Rightarrow> bool \<Rightarrow> json \<Rightarrow> lane \<Rightarrow> string \<Rightarrow> transport
    \<Rightarrow> transport option" where
  "respondEnvelope dump compress2 plain rid l envelope t =
     map_option (foldl (enqueue_frame l) t)
       (respond_frames dump compress2 (g_frameCap t) (g_deflate t) plain rid envelope)"

section \<open>Responder\<close>

record responder =
  rsp_id :: json
  rsp_idKey :: string
  rsp_lane :: lane

definition result_envelope :: "json \<Rightarrow> json \<Rightarrow> json" where
  "result_envelope rid r = JObj [(''jsonrpc'', JStr ''2.0''), (''id'', rid), (''result'', r)]"

definition error_envelope :: "json \<Rightarrow> rpc_error \<Rightarrow> string \<Rightarrow> json" where
  "error_envelope rid code message =
     JObj [(''jsonrpc'', JStr ''2.0''), (''id'', rid),
           (''error'', JObj [(''code'', JInt (error_code code)), (''message'', JStr message)])]"

text \<open>
  \<^verbatim>\<open>Responder::result\<close> and \<^verbatim>\<open>Responder::error\<close>; an exception that reaches \<^verbatim>\<open>workerLoop\<close> is answered
  by \<^verbatim>\<open>rsp.error(kInternal, "agent exception: " + e.what())\<close>, with \<open>what\<close> nlohmann's text for it.
\<close>

definition responder_result ::
  "(json \<Rightarrow> string) \<Rightarrow> (string \<Rightarrow> string option) \<Rightarrow> bool \<Rightarrow> responder \<Rightarrow> json \<Rightarrow> transport
    \<Rightarrow> transport option" where
  "responder_result dump z plain rsp r =
     respondEnvelope dump z plain (rsp_id rsp) (rsp_lane rsp) (dump (result_envelope (rsp_id rsp) r))"

definition responder_error ::
  "(json \<Rightarrow> string) \<Rightarrow> (string \<Rightarrow> string option) \<Rightarrow> bool \<Rightarrow> responder \<Rightarrow> rpc_error \<Rightarrow> string
    \<Rightarrow> transport \<Rightarrow> transport option" where
  "responder_error dump z plain rsp code message =
     respondEnvelope dump z plain (rsp_id rsp) (rsp_lane rsp)
       (dump (error_envelope (rsp_id rsp) code message))"

definition send_reply ::
  "(json \<Rightarrow> string) \<Rightarrow> (string \<Rightarrow> string option) \<Rightarrow> (json_exn \<Rightarrow> string) \<Rightarrow> bool \<Rightarrow> responder
    \<Rightarrow> reply \<Rightarrow> transport \<Rightarrow> transport option" where
  "send_reply dump z what plain rsp r =
     (case r of
        Result j \<Rightarrow> responder_result dump z plain rsp j
      | Error code message \<Rightarrow> responder_error dump z plain rsp code message
      | Throws e \<Rightarrow> responder_error dump z plain rsp KInternal (''agent exception: '' @ what e))"

definition sendNullIdError :: "(json \<Rightarrow> string) \<Rightarrow> rpc_error \<Rightarrow> string \<Rightarrow> transport \<Rightarrow> transport" where
  "sendNullIdError dump code message t =
     enqueue_frame Normal t (dump (error_envelope JNull code message))"

section \<open>The loop cuts the text into pieces\<close>

fun pieces :: "nat \<Rightarrow> string \<Rightarrow> string list" where
  "pieces n s = (if s = [] \<or> n = 0 then [] else take n s # pieces n (drop n s))"

declare pieces.simps [simp del]

lemma pieces_Nil [simp]: "pieces n [] = []"
  by (simp add: pieces.simps)

lemma pieces_step: "s \<noteq> [] \<Longrightarrow> 0 < n \<Longrightarrow> pieces n s = take n s # pieces n (drop n s)"
  by (subst pieces.simps) simp

lemma concat_pieces: "0 < n \<Longrightarrow> concat (pieces n s) = s"
proof (induction n s rule: pieces.induct)
  case (1 n s)
  then show ?case by (cases "s = []") (simp_all add: pieces_step)
qed

lemma pieces_bounds: "list_all (\<lambda>p. p \<noteq> [] \<and> length p \<le> n) (pieces n s)"
proof (induction n s rule: pieces.induct)
  case (1 n s)
  then show ?case by (subst pieces.simps) auto
qed

lemma pieces_eq_Nil: "0 < n \<Longrightarrow> pieces n s = [] \<longleftrightarrow> s = []"
  by (subst pieces.simps) simp

definition chunk_notes :: "json \<Rightarrow> int \<Rightarrow> string list \<Rightarrow> json list" where
  "chunk_notes rid seq ps =
     map (\<lambda>i. chunk_note rid (seq + int i) (Suc i = length ps) (ps ! i)) [0..<length ps]"

lemma chunk_notes_Cons:
  "chunk_notes rid seq (p # ps) = chunk_note rid seq (ps = []) p # chunk_notes rid (seq + 1) ps"
proof -
  have "[0..<length (p # ps)] = 0 # map Suc [0..<length ps]"
    by (simp add: map_Suc_upt upt_conv_Cons del: upt_Suc)
  then show ?thesis
    by (simp add: chunk_notes_def comp_def algebra_simps del: upt_Suc)
qed

lemma chunk_loop_pieces:
  assumes "0 < n" and "off \<le> length b64"
  shows "chunk_loop dump rid n b64 off seq = Some (map dump (chunk_notes rid seq (pieces n (drop off b64))))"
  using assms
proof (induction "length b64 - off" arbitrary: off seq rule: less_induct)
  case less
  show ?case
  proof (cases "off < length b64")
    case False
    then show ?thesis
      using less.prems by (subst chunk_loop.simps) (simp add: chunk_notes_def)
  next
    case True
    define tk where "tk = min n (length b64 - off)"
    have tk: "0 < tk" "off + tk \<le> length b64" "take tk (drop off b64) = take n (drop off b64)"
      "drop (off + tk) b64 = drop n (drop off b64)"
      using True less.prems by (auto simp: tk_def min_def add.commute)
    have ne: "drop off b64 \<noteq> []" using True by simp
    have last_iff: "length b64 \<le> off + tk \<longleftrightarrow> pieces n (drop (off + tk) b64) = []"
      using less.prems by (simp add: pieces_eq_Nil)
    have IH: "chunk_loop dump rid n b64 (off + tk) (seq + 1)
        = Some (map dump (chunk_notes rid (seq + 1) (pieces n (drop (off + tk) b64))))"
      using tk True less.prems by (intro less.hyps) auto
    have P: "pieces n (drop off b64) = take n (drop off b64) # pieces n (drop (off + tk) b64)"
      using pieces_step [OF ne less.prems(1)] tk by simp
    have "chunk_loop dump rid n b64 off seq =
        Some (dump (chunk_note rid seq (length b64 \<le> off + tk) (take tk (drop off b64)))
          # map dump (chunk_notes rid (seq + 1) (pieces n (drop (off + tk) b64))))"
      using True IH by (subst chunk_loop.simps) (simp add: tk_def [symmetric] Let_def)
    then show ?thesis
      by (simp only: P chunk_notes_Cons last_iff tk(3) list.map)
  qed
qed

section \<open>What a client can put together again\<close>

lemma max_data_pos: "2 \<le> cap \<Longrightarrow> 0 < max_data cap"
  by (simp add: max_data_def Let_def)

lemma max_data_less: "0 < cap \<Longrightarrow> max_data cap < cap"
  by (simp add: max_data_def Let_def)

lemma enqueue_frames:
  "w_q (g_writer (foldl (enqueue_frame l) t frames)) l' =
     (if l' = l then w_q (g_writer t) l @ frames else w_q (g_writer t) l')
   \<and> g_frameCap (foldl (enqueue_frame l) t frames) = g_frameCap t
   \<and> g_deflate (foldl (enqueue_frame l) t frames) = g_deflate t"
  by (induction frames arbitrary: t) (auto simp: enqueue_frame_def)

lemma enqueue_frames_wf:
  "writer_wf (g_writer t) \<Longrightarrow> writer_wf (g_writer (foldl (enqueue_frame l) t frames))"
  by (induction frames arbitrary: t) (auto simp: enqueue_frame_def wf_enqueue)

lemma respond_frames_chunked:
  assumes "2 \<le> cap" and "packed = packed_envelope z deflate plain env"
    and "packed \<noteq> None \<or> cap < length env"
  defines "payload \<equiv> (case packed of Some p \<Rightarrow> p | None \<Rightarrow> env)"
  shows "respond_frames dump z cap deflate plain rid env =
    Some (map dump (chunk_notes rid 0 (pieces (max_data cap) (base64Encode payload))
           @ [chunk_final rid (length env) (packed \<noteq> None)]))"
proof -
  have "\<not> (packed = None \<and> length env \<le> cap)" using assms(3) by auto
  then show ?thesis
    using chunk_loop_pieces [OF max_data_pos [OF assms(1)], of 0 "base64Encode payload" dump rid 0]
    by (simp only: respond_frames_def Let_def assms(2) [symmetric] payload_def [symmetric] if_False
        drop_0 le0 simp_thms Option.bind.bind_lunit map_append list.map)
qed

text \<open>
  C6. Every response goes out, whole and decodable. With any negotiated frame cap the loop
  ends; a response within the cap that is not compressed is one frame, its envelope; any other is a
  run of \<^verbatim>\<open>rpc.chunk\<close> frames numbered from 0, only the last of them marked \<^verbatim>\<open>last\<close>, none empty and none
  with more data than the cap allows, then the envelope that announces the size. The data of
  the chunks, joined and decoded (and inflated when the final envelope says so), is the envelope.
  The frames go to the response's lane in that order, behind what the lane already holds.
\<close>

theorem response_reassembles:
  assumes "2 \<le> g_frameCap t" and "\<forall>s p. compress2 s = Some p \<longrightarrow> inflate p = s"
  shows "\<exists>t' ps frames.
     (let packed = packed_envelope compress2 (g_deflate t) plain env
      in respondEnvelope dump compress2 plain rid l env t = Some t'
       \<and> w_q (g_writer t') = (w_q (g_writer t))(l := w_q (g_writer t) l @ frames)
       \<and> (if packed = None \<and> length env \<le> g_frameCap t then frames = [env]
          else frames = map dump (chunk_notes rid 0 ps @ [chunk_final rid (length env) (packed \<noteq> None)])
             \<and> map_option (if packed = None then (\<lambda>p. p) else inflate) (base64Decode (concat ps)) = Some env
             \<and> list_all (\<lambda>p. p \<noteq> [] \<and> length p \<le> max_data (g_frameCap t)) ps))"
proof -
  let ?cap = "g_frameCap t"
  define packed where "packed = packed_envelope compress2 (g_deflate t) plain env"
  define payload where "payload = (case packed of Some p \<Rightarrow> p | None \<Rightarrow> env)"
  define ps where "ps = pieces (max_data ?cap) (base64Encode payload)"
  have inflated: "(if packed = None then (\<lambda>p. p) else inflate) payload = env"
  proof (cases packed)
    case (Some p)
    then have "compress2 env = Some p"
      using deflateBytes_shrinks [of compress2 env p] by (simp add: packed_def packed_envelope_def split: if_splits)
    with Some assms(2) show ?thesis by (simp add: payload_def)
  qed (simp add: payload_def)
  have joined: "base64Decode (concat ps) = Some payload"
    using concat_pieces [OF max_data_pos [OF assms(1)], of "base64Encode payload"]
    by (simp add: ps_def b64.dec_enc)
  have lanes: "w_q (g_writer (foldl (enqueue_frame l) t frames)) =
      (w_q (g_writer t))(l := w_q (g_writer t) l @ frames)" for frames
    using enqueue_frames [of l t frames] by (simp add: fun_eq_iff)
  show ?thesis
  proof (cases "packed = None \<and> length env \<le> ?cap")
    case True
    then have "respondEnvelope dump compress2 plain rid l env t = Some (foldl (enqueue_frame l) t [env])"
      by (simp add: respondEnvelope_def respond_frames_def packed_def)
    then have "respondEnvelope dump compress2 plain rid l env t = Some (foldl (enqueue_frame l) t [env])
      \<and> w_q (g_writer (foldl (enqueue_frame l) t [env])) = (w_q (g_writer t))(l := w_q (g_writer t) l @ [env])
      \<and> (if packed = None \<and> length env \<le> ?cap then [env] = [env]
          else [env] = map dump (chunk_notes rid 0 [] @ [chunk_final rid (length env) (packed \<noteq> None)])
             \<and> map_option (if packed = None then (\<lambda>p. p) else inflate) (base64Decode (concat [])) = Some env
             \<and> list_all (\<lambda>p. p \<noteq> [] \<and> length p \<le> max_data ?cap) [])"
      by (intro conjI lanes) (simp_all only: if_P [OF True])
    then show ?thesis
      unfolding Let_def packed_def [symmetric] by (intro exI)
  next
    case False
    define frames where "frames = map dump (chunk_notes rid 0 ps @ [chunk_final rid (length env) (packed \<noteq> None)])"
    have "respondEnvelope dump compress2 plain rid l env t = Some (foldl (enqueue_frame l) t frames)"
      using respond_frames_chunked [OF assms(1) packed_def, of dump rid] False
      by (auto simp: respondEnvelope_def frames_def ps_def payload_def)
    moreover have "map_option (if packed = None then (\<lambda>p. p) else inflate) (base64Decode (concat ps)) = Some env"
      by (simp only: joined option.map inflated)
    moreover have "list_all (\<lambda>p. p \<noteq> [] \<and> length p \<le> max_data ?cap) ps"
      by (simp only: ps_def pieces_bounds)
    ultimately have "respondEnvelope dump compress2 plain rid l env t = Some (foldl (enqueue_frame l) t frames)
      \<and> w_q (g_writer (foldl (enqueue_frame l) t frames)) = (w_q (g_writer t))(l := w_q (g_writer t) l @ frames)
      \<and> (if packed = None \<and> length env \<le> ?cap then frames = [env]
          else frames = map dump (chunk_notes rid 0 ps @ [chunk_final rid (length env) (packed \<noteq> None)])
             \<and> map_option (if packed = None then (\<lambda>p. p) else inflate) (base64Decode (concat ps)) = Some env
             \<and> list_all (\<lambda>p. p \<noteq> [] \<and> length p \<le> max_data ?cap) ps)"
      by (intro conjI lanes) (simp_all only: if_not_P [OF False] frames_def [symmetric] simp_thms)
    then show ?thesis
      unfolding Let_def packed_def [symmetric] by (intro exI)
  qed
qed

theorem response_reassembles_witness:
  "\<exists>t' ps frames.
     respondEnvelope (\<lambda>_. ''j'') (\<lambda>_. None) False JNull Bulk ''hello'' (initial_transport\<lparr>g_frameCap := 4\<rparr>) = Some t'
     \<and> frames = map (\<lambda>_. ''j'') (chunk_notes JNull 0 ps @ [chunk_final JNull 5 False])
     \<and> map_option (\<lambda>p. p) (base64Decode (concat ps)) = Some ''hello''
     \<and> list_all (\<lambda>p. p \<noteq> [] \<and> length p \<le> max_data 4) ps"
proof -
  let ?t = "initial_transport\<lparr>g_frameCap := 4\<rparr>"
  have p: "packed_envelope (\<lambda>_. None) (g_deflate ?t) False ''hello'' = None"
    by (simp add: packed_envelope_def initial_transport_def)
  have n: "\<not> ((None :: string option) = None \<and> length ''hello'' \<le> g_frameCap ?t)" "length ''hello'' = 5"
    "g_frameCap ?t = 4" "2 \<le> g_frameCap ?t"
    by simp_all
  have h: "\<forall>s p. (None :: string option) = Some p \<longrightarrow> p = (s :: string)" by simp
  from response_reassembles [of ?t "\<lambda>_. None" "\<lambda>p. p" False "''hello''" "\<lambda>_. ''j''" JNull Bulk, OF n(4) h]
  obtain t' ps frames where
    "respondEnvelope (\<lambda>_. ''j'') (\<lambda>_. None) False JNull Bulk ''hello'' ?t = Some t'"
    "frames = map (\<lambda>_. ''j'') (chunk_notes JNull 0 ps @ [chunk_final JNull 5 False])"
    "map_option (\<lambda>p. p) (base64Decode (concat ps)) = Some ''hello''"
    "list_all (\<lambda>p. p \<noteq> [] \<and> length p \<le> max_data 4) ps"
    unfolding p Let_def if_not_P [OF n(1)] n(2,3) by (simp only: simp_thms) (elim exE conjE, simp)
  then show ?thesis by (intro exI conjI)
qed

text \<open>
  Compression never makes a response larger, and never touches what must stay readable: a
  response shorter than the threshold, one sent before the client negotiated it, and the reply of
  the hello that negotiates it all go out as they are; anything compressed is strictly smaller
  than the envelope it replaces.
\<close>

theorem compression_only_when_agreed:
  "pred_option (\<lambda>p. deflate \<and> \<not> plain \<and> kDeflateMinResponse \<le> length env
       \<and> compress2 env = Some p \<and> length p < length env)
     (packed_envelope compress2 deflate plain env)"
  by (cases "packed_envelope compress2 deflate plain env")
     (auto simp: packed_envelope_def dest: deflateBytes_shrinks split: if_splits)

end
