(* ===== verification/WorkQueue.thy ===== *)
theory WorkQueue
  imports LaneFifo "HOL-Library.Multiset"
begin

text \<open>
  The scheduler of \<^verbatim>\<open>agent/main.cpp\<close>: \<^verbatim>\<open>class CancelRegistry\<close>, \<^verbatim>\<open>class WorkQueue\<close> with its per-lane
  caps, and the pool of threads that runs \<^verbatim>\<open>workerLoop\<close>, as steps between the points where the
  threads take the two mutexes.
\<close>

section \<open>Cancelled ids\<close>

type_synonym cancel_registry = "string set"

definition cancel_cancel :: "string \<Rightarrow> cancel_registry \<Rightarrow> cancel_registry" where
  "cancel_cancel key c = insert key c"

definition isCancelled :: "string \<Rightarrow> cancel_registry \<Rightarrow> bool" where
  "isCancelled key c \<longleftrightarrow> key \<in> c"

definition cancel_forget :: "string \<Rightarrow> cancel_registry \<Rightarrow> cancel_registry" where
  "cancel_forget key c = c - {key}"

section \<open>The queue\<close>

record job =
  job_id :: json
  job_idKey :: string
  job_method :: string
  job_params :: json
  job_lane :: lane

definition kPoolSize :: nat where "kPoolSize = 16"
definition kNormalSlots :: nat where "kNormalSlots = 8"
definition kBulkSlots :: nat where "kBulkSlots = 2"

record work_queue =
  q_jobs :: "job lane_queues"
  q_active :: "lane \<Rightarrow> int"
  q_stop :: bool

definition new_work_queue :: work_queue where
  "new_work_queue = \<lparr>q_jobs = no_queues, q_active = (\<lambda>_. 0), q_stop = False\<rparr>"

text \<open>\<^verbatim>\<open>push\<close>: \<^verbatim>\<open>q_[static_cast<int>(j.lane)].push_back(std::move(j))\<close>.\<close>

definition queue_insert :: "lane \<Rightarrow> job \<Rightarrow> work_queue \<Rightarrow> work_queue" where
  "queue_insert l j q = q\<lparr>q_jobs := lq_push l j (q_jobs q)\<rparr>"

definition queue_push :: "job \<Rightarrow> work_queue \<Rightarrow> work_queue" where
  "queue_push j q = queue_insert (job_lane j) j q"

fun queue_cap :: "lane \<Rightarrow> nat" where
  "queue_cap Normal = kNormalSlots"
| "queue_cap Bulk = kBulkSlots"
| "queue_cap Interactive = kPoolSize"

text \<open>\<^verbatim>\<open>pickRunnableLocked\<close>: the most urgent lane that has work and a free slot.\<close>

definition pickRunnableLocked :: "work_queue \<Rightarrow> lane option" where
  "pickRunnableLocked q = lq_pick (\<lambda>l. q_active q l < int (queue_cap l)) (q_jobs q)"

text \<open>
  One pass of the loop in \<^verbatim>\<open>pop\<close>: a job is taken, or \<^verbatim>\<open>pop\<close> returns \<^verbatim>\<open>false\<close>, or the thread waits.
\<close>

datatype pop_outcome = Popped job work_queue | Stopped | Waits

definition queue_pop :: "work_queue \<Rightarrow> pop_outcome" where
  "queue_pop q =
     (case pickRunnableLocked q of
        Some l \<Rightarrow> Popped (hd (q_jobs q l))
                    (q\<lparr>q_jobs := lq_pop l (q_jobs q), q_active := (q_active q)(l := q_active q l + 1)\<rparr>)
      | None \<Rightarrow> if q_stop q \<and> lq_empty (q_jobs q) then Stopped else Waits)"

definition queue_finish :: "lane \<Rightarrow> work_queue \<Rightarrow> work_queue" where
  "queue_finish l q = q\<lparr>q_active := (q_active q)(l := q_active q l - 1)\<rparr>"

definition queue_stop :: "work_queue \<Rightarrow> work_queue" where
  "queue_stop q = q\<lparr>q_stop := True\<rparr>"

text \<open>\<^verbatim>\<open>stat\<close>: the depths per lane, for \<^verbatim>\<open>meta.stat\<close>.\<close>

definition queue_stat :: "work_queue \<Rightarrow> json" where
  "queue_stat q =
     (let lane = (\<lambda>l. JObj [(''queued'', JInt (to_int32 (int (length (q_jobs q l))))),
                            (''active'', JInt (q_active q l))])
      in JObj [(''interactive'', lane Interactive), (''normal'', lane Normal), (''bulk'', lane Bulk)])"

text \<open>Every queued job sits in the queue of its own lane.\<close>

definition lanes_right :: "work_queue \<Rightarrow> bool" where
  "lanes_right q \<longleftrightarrow> (\<forall>l. \<forall>j \<in> set (q_jobs q l). job_lane j = l)"

definition queue_take :: "work_queue \<Rightarrow> (lane \<times> job \<times> work_queue) option" where
  "queue_take q =
     (case queue_pop q of
        Popped j q' \<Rightarrow> map_option (\<lambda>l. (l, j, q')) (pickRunnableLocked q)
      | _ \<Rightarrow> None)"

lemma queue_take_eq:
  "queue_take q = map_option (\<lambda>l. (l, hd (q_jobs q l),
      q\<lparr>q_jobs := lq_pop l (q_jobs q), q_active := (q_active q)(l := q_active q l + 1)\<rparr>))
    (pickRunnableLocked q)"
  by (simp add: queue_take_def queue_pop_def split: option.splits)

interpretation jobq: lane_fifo queue_insert queue_take q_jobs
    "\<lambda>q l. q_active q l < int (queue_cap l)"
proof unfold_locales
  fix q l x q'
  assume "queue_take q = Some (l, x, q')"
  then show "q_jobs q l = x # q_jobs q' l \<and> (\<forall>l'. l' \<noteq> l \<longrightarrow> q_jobs q' l' = q_jobs q l')
      \<and> q_active q l < int (queue_cap l)
      \<and> (\<forall>l' < l. q_jobs q l' = [] \<or> \<not> q_active q l' < int (queue_cap l'))"
    by (auto simp: queue_take_eq pickRunnableLocked_def lq_pick_Some)
next
  fix q
  show "queue_take q = None \<longleftrightarrow> (\<forall>l. q_jobs q l = [] \<or> \<not> q_active q l < int (queue_cap l))"
    by (simp add: queue_take_eq pickRunnableLocked_def lq_pick_None)
qed (simp add: queue_insert_def)

lemma queue_pop_Popped:
  assumes "queue_pop q = Popped j q'"
  obtains l where "queue_take q = Some (l, j, q')" and "q_active q' = (q_active q)(l := q_active q l + 1)"
    and "q_stop q' = q_stop q"
  using assms by (auto simp: queue_take_eq queue_pop_def split: option.splits if_splits)

lemma queue_pop_Stopped: "queue_pop q = Stopped \<longleftrightarrow> q_stop q \<and> lq_empty (q_jobs q)"
  using jobq.pop_None [of q]
  by (auto simp: queue_pop_def queue_take_eq lq_empty_iff pickRunnableLocked_def lq_pick_Some
      split: option.splits)

lemma lanes_right_push: "lanes_right q \<Longrightarrow> lanes_right (queue_push j q)"
  by (auto simp: lanes_right_def queue_push_def queue_insert_def)

section \<open>The pool\<close>

text \<open>
  Where a thread of \<^verbatim>\<open>workerLoop\<close> is: blocked in \<^verbatim>\<open>pop\<close>, with a job it has not looked at, inside
  \<^verbatim>\<open>dispatch\<close>, after its reply, after \<^verbatim>\<open>g_cancel.forget\<close>, or returned.
\<close>

datatype worker = Waiting | Holding job | Dispatching job | Replied job | Forgot job | Returned

fun worker_job :: "worker \<Rightarrow> job option" where
  "worker_job (Holding j) = Some j"
| "worker_job (Dispatching j) = Some j"
| "worker_job (Replied j) = Some j"
| "worker_job (Forgot j) = Some j"
| "worker_job _ = None"

record pool =
  p_queue :: work_queue
  p_cancel :: cancel_registry
  p_workers :: "worker list"

definition initial_pool :: pool where
  "initial_pool = \<lparr>p_queue = new_work_queue, p_cancel = {}, p_workers = replicate kPoolSize Waiting\<rparr>"

text \<open>
  The reader submits, cancels and stops; worker \<open>i\<close> pops, quits, dispatches or refuses the job it
  holds, replies (a \<^verbatim>\<open>dispatch\<close> that throws is answered too), forgets the id and frees its slot.
  Nothing is submitted once the queue is stopped: \<^verbatim>\<open>main\<close> stops it after its reader loop.
\<close>

datatype pevent =
    Submit job | Cancel string | StopAll
  | PopJob nat job | Quit nat | Dispatch nat job | Refuse nat job | Reply nat job
  | Forget nat job | Finish nat job

definition set_worker :: "nat \<Rightarrow> worker \<Rightarrow> pool \<Rightarrow> pool" where
  "set_worker i w p = p\<lparr>p_workers := (p_workers p)[i := w]\<rparr>"

definition worker_at :: "pool \<Rightarrow> nat \<Rightarrow> worker \<Rightarrow> bool" where
  "worker_at p i w \<longleftrightarrow> i < length (p_workers p) \<and> p_workers p ! i = w"

inductive pstep :: "pool \<Rightarrow> pevent \<Rightarrow> pool \<Rightarrow> bool" where
  submit: "\<not> q_stop (p_queue p) \<Longrightarrow> pstep p (Submit j) (p\<lparr>p_queue := queue_push j (p_queue p)\<rparr>)"
| cancel: "pstep p (Cancel key) (p\<lparr>p_cancel := cancel_cancel key (p_cancel p)\<rparr>)"
| stop: "pstep p StopAll (p\<lparr>p_queue := queue_stop (p_queue p)\<rparr>)"
| pop: "worker_at p i Waiting \<Longrightarrow> queue_pop (p_queue p) = Popped j q' \<Longrightarrow>
    pstep p (PopJob i j) (set_worker i (Holding j) (p\<lparr>p_queue := q'\<rparr>))"
| quit: "worker_at p i Waiting \<Longrightarrow> queue_pop (p_queue p) = Stopped \<Longrightarrow>
    pstep p (Quit i) (set_worker i Returned p)"
| dispatch: "worker_at p i (Holding j) \<Longrightarrow> \<not> isCancelled (job_idKey j) (p_cancel p) \<Longrightarrow>
    pstep p (Dispatch i j) (set_worker i (Dispatching j) p)"
| refuse: "worker_at p i (Holding j) \<Longrightarrow> isCancelled (job_idKey j) (p_cancel p) \<Longrightarrow>
    pstep p (Refuse i j) (set_worker i (Replied j) p)"
| reply: "worker_at p i (Dispatching j) \<Longrightarrow> pstep p (Reply i j) (set_worker i (Replied j) p)"
| forget: "worker_at p i (Replied j) \<Longrightarrow>
    pstep p (Forget i j) (set_worker i (Forgot j) (p\<lparr>p_cancel := cancel_forget (job_idKey j) (p_cancel p)\<rparr>))"
| finish: "worker_at p i (Forgot j) \<Longrightarrow>
    pstep p (Finish i j) (set_worker i Waiting (p\<lparr>p_queue := queue_finish (job_lane j) (p_queue p)\<rparr>))"

inductive_cases pstep_dispatchE: "pstep p (Dispatch i j) p'"

inductive prun :: "pool \<Rightarrow> pevent list \<Rightarrow> pool \<Rightarrow> bool" where
  nil: "prun p [] p"
| snoc: "prun p es p1 \<Longrightarrow> pstep p1 e p2 \<Longrightarrow> prun p (es @ [e]) p2"

section \<open>The invariant\<close>

definition on_lane :: "lane \<Rightarrow> worker \<Rightarrow> bool" where
  "on_lane l w \<longleftrightarrow> map_option job_lane (worker_job w) = Some l"

definition running :: "lane \<Rightarrow> pool \<Rightarrow> nat" where
  "running l p = length (filter (on_lane l) (p_workers p))"

definition pool_inv :: "pool \<Rightarrow> bool" where
  "pool_inv p \<longleftrightarrow> length (p_workers p) = kPoolSize \<and> lanes_right (p_queue p)
     \<and> (\<forall>l. q_active (p_queue p) l = int (running l p) \<and> running l p \<le> queue_cap l)
     \<and> (Returned \<in> set (p_workers p) \<longrightarrow> q_stop (p_queue p) \<and> lq_empty (q_jobs (p_queue p)))"

lemma length_filter_update:
  assumes "i < length xs"
  shows "int (length (filter P (xs[i := x]))) =
    int (length (filter P xs)) + (if P x then 1 else 0) - (if P (xs ! i) then 1 else 0)"
proof -
  have "xs = take i xs @ xs ! i # drop (Suc i) xs" by (simp add: id_take_nth_drop assms)
  then have "length (filter P xs) = length (filter P (take i xs @ xs ! i # drop (Suc i) xs))" by simp
  then show ?thesis using assms by (simp add: upd_conv_take_nth_drop)
qed

lemma running_set_worker:
  assumes "worker_at p i w0"
  shows "int (running l (set_worker i w p)) =
    int (running l p) + (if on_lane l w then 1 else 0) - (if on_lane l w0 then 1 else 0)"
  using assms length_filter_update [of i "p_workers p" "on_lane l" w]
  by (simp add: running_def set_worker_def worker_at_def)

lemma running_simps [simp]:
  "running l (p\<lparr>p_queue := q\<rparr>) = running l p" "running l (p\<lparr>p_cancel := c\<rparr>) = running l p"
  by (simp_all add: running_def)

lemma on_lane_simps [simp]:
  "\<not> on_lane l Waiting" "\<not> on_lane l Returned"
  "on_lane l (Holding j) \<longleftrightarrow> job_lane j = l" "on_lane l (Dispatching j) \<longleftrightarrow> job_lane j = l"
  "on_lane l (Replied j) \<longleftrightarrow> job_lane j = l" "on_lane l (Forgot j) \<longleftrightarrow> job_lane j = l"
  by (auto simp: on_lane_def)

lemma pool_inv_initial [simp]: "pool_inv initial_pool"
  by (simp add: pool_inv_def initial_pool_def new_work_queue_def lanes_right_def no_queues_def
      running_def kPoolSize_def)

lemma worker_at_simps [simp]:
  "worker_at (p\<lparr>p_queue := q\<rparr>) i w = worker_at p i w"
  "worker_at (p\<lparr>p_cancel := c\<rparr>) i w = worker_at p i w"
  by (simp_all add: worker_at_def)

lemma set_worker_simps [simp]:
  "p_queue (set_worker i w p) = p_queue p" "p_cancel (set_worker i w p) = p_cancel p"
  "length (p_workers (set_worker i w p)) = length (p_workers p)"
  by (simp_all add: set_worker_def)

lemma returned_set_worker:
  "Returned \<in> set (p_workers (set_worker i w p)) \<Longrightarrow> w = Returned \<or> Returned \<in> set (p_workers p)"
  by (auto simp: set_worker_def dest: set_update_subset_insert [THEN subsetD])

text \<open>Moving one worker on while the queue stays as it is keeps the invariant if its lane does.\<close>

lemma pool_inv_move:
  assumes "pool_inv p" and "worker_at p i w0" and "\<And>l. on_lane l w \<longleftrightarrow> on_lane l w0"
    and "w = Returned \<Longrightarrow> q_stop (p_queue p) \<and> lq_empty (q_jobs (p_queue p))"
  shows "pool_inv (set_worker i w p)"
proof -
  have "running l (set_worker i w p) = running l p" for l
    using running_set_worker [OF assms(2), of l w] assms(3) by simp
  with assms show ?thesis
    by (auto simp: pool_inv_def dest: returned_set_worker)
qed

lemma pool_inv_pop:
  assumes "pool_inv p" and w: "worker_at p i Waiting" and pop: "queue_pop (p_queue p) = Popped j q'"
  shows "pool_inv (set_worker i (Holding j) (p\<lparr>p_queue := q'\<rparr>))"
proof -
  let ?p = "set_worker i (Holding j) (p\<lparr>p_queue := q'\<rparr>)"
  obtain l where t: "queue_take (p_queue p) = Some (l, j, q')"
    and a: "q_active q' = (q_active (p_queue p))(l := q_active (p_queue p) l + 1)"
    and s: "q_stop q' = q_stop (p_queue p)"
    by (rule queue_pop_Popped [OF pop])
  note h = jobq.pop_Some [OF t]
  have jl: "job_lane j = l" and lr: "lanes_right q'"
    using assms(1) h unfolding pool_inv_def lanes_right_def
    by (metis list.set_intros(1), metis list.set_intros(2))
  have r: "int (running l' ?p) = int (running l' p) + (if l' = l then 1 else 0)" for l'
    using running_set_worker [of "p\<lparr>p_queue := q'\<rparr>" i Waiting l' "Holding j"] w jl by simp
  have "running l' ?p \<le> queue_cap l'" for l'
    using r [of l'] h assms(1) by (cases "l' = l") (auto simp: pool_inv_def)
  moreover have "\<not> lq_empty (q_jobs (p_queue p))"
    using h unfolding lq_empty_iff by (metis list.distinct(1))
  ultimately show ?thesis
    using r assms(1) a lr by (auto simp: pool_inv_def dest: returned_set_worker)
qed

lemma pool_inv_step: "pstep p e p' \<Longrightarrow> pool_inv p \<Longrightarrow> pool_inv p'"
proof (induction rule: pstep.induct)
  case (submit p j)
  then show ?case
    using lanes_right_push [of "p_queue p" j]
    by (simp add: pool_inv_def queue_push_def queue_insert_def)
next
  case (forget p i j)
  have "pool_inv (p\<lparr>p_cancel := cancel_forget (job_idKey j) (p_cancel p)\<rparr>)"
    using forget.prems by (simp add: pool_inv_def)
  then show ?case by (rule pool_inv_move) (use forget in auto)
next
  case (finish p i j)
  let ?p = "p\<lparr>p_queue := queue_finish (job_lane j) (p_queue p)\<rparr>"
  have r: "int (running l (set_worker i Waiting ?p)) = int (running l p) - (if job_lane j = l then 1 else 0)" for l
    using running_set_worker [of ?p i "Forgot j" l Waiting] finish.hyps by simp
  have "running l (set_worker i Waiting ?p) \<le> queue_cap l" for l
    using r [of l] finish.prems by (auto simp: pool_inv_def split: if_splits) (smt (verit) of_nat_le_iff)+
  with r finish.prems show ?case
    by (auto simp: pool_inv_def queue_finish_def lanes_right_def dest: returned_set_worker)
next
  case (pop p i j q')
  then show ?case by (intro pool_inv_pop)
next
  case (quit p i)
  then show ?case by (intro pool_inv_move [OF quit.prems quit.hyps(1)]) (simp_all add: queue_pop_Stopped)
next
  case (dispatch p i j)
  then show ?case by (intro pool_inv_move [OF dispatch.prems dispatch.hyps(1)]) simp_all
next
  case (refuse p i j)
  then show ?case by (intro pool_inv_move [OF refuse.prems refuse.hyps(1)]) simp_all
next
  case (reply p i j)
  then show ?case by (intro pool_inv_move [OF reply.prems reply.hyps(1)]) simp_all
qed (simp_all add: pool_inv_def queue_stop_def lanes_right_def)

lemma pool_inv_reachable: "prun initial_pool es p \<Longrightarrow> pool_inv p"
  by (induction initial_pool es p rule: prun.induct) (auto intro: pool_inv_step)

section \<open>Every job once\<close>

text \<open>The jobs submitted, the jobs answered (dispatched or refused), and those in between.\<close>

fun submitted :: "pevent list \<Rightarrow> job multiset" where
  "submitted [] = {#}"
| "submitted (Submit j # es) = add_mset j (submitted es)"
| "submitted (_ # es) = submitted es"

fun answered :: "pevent list \<Rightarrow> job multiset" where
  "answered [] = {#}"
| "answered (Dispatch i j # es) = add_mset j (answered es)"
| "answered (Refuse i j # es) = add_mset j (answered es)"
| "answered (_ # es) = answered es"

definition queued_jobs :: "work_queue \<Rightarrow> job multiset" where
  "queued_jobs q = mset (q_jobs q Interactive) + mset (q_jobs q Normal) + mset (q_jobs q Bulk)"

fun held_job :: "worker \<Rightarrow> job multiset" where
  "held_job (Holding j) = {#j#}"
| "held_job _ = {#}"

definition held_jobs :: "pool \<Rightarrow> job multiset" where
  "held_jobs p = sum_list (map held_job (p_workers p))"

lemma submitted_append [simp]: "submitted (es @ fs) = submitted es + submitted fs"
  by (induction es rule: submitted.induct) auto

lemma answered_append [simp]: "answered (es @ fs) = answered es + answered fs"
  by (induction es rule: answered.induct) auto

lemma queued_jobs_push [simp]: "queued_jobs (queue_push j q) = add_mset j (queued_jobs q)"
  by (cases "job_lane j") (simp_all add: queued_jobs_def queue_push_def queue_insert_def)

lemma queued_jobs_pop:
  assumes "queue_pop q = Popped j q'"
  shows "queued_jobs q = add_mset j (queued_jobs q')"
proof -
  obtain l where t: "queue_take q = Some (l, j, q')" by (rule queue_pop_Popped [OF assms])
  from jobq.pop_Some [OF t] show ?thesis
    by (cases l) (simp_all add: queued_jobs_def)
qed

lemma sum_list_map_update:
  fixes f :: "'a \<Rightarrow> 'b :: comm_monoid_add"
  shows "i < length xs \<Longrightarrow> sum_list (map f (xs[i := x])) + f (xs ! i) = sum_list (map f xs) + f x"
proof (induction xs arbitrary: i)
  case (Cons y ys)
  show ?case
  proof (cases i)
    case (Suc k)
    then show ?thesis using Cons by (simp add: add.assoc)
  qed (simp add: ac_simps)
qed simp

lemma held_jobs_set_worker:
  assumes "worker_at p i w0"
  shows "held_jobs (set_worker i w p) + held_job w0 = held_jobs p + held_job w"
  using assms sum_list_map_update [of i "p_workers p" held_job w]
  by (auto simp: held_jobs_def set_worker_def worker_at_def)

lemma held_jobs_simps [simp]:
  "held_jobs (p\<lparr>p_queue := q\<rparr>) = held_jobs p" "held_jobs (p\<lparr>p_cancel := c\<rparr>) = held_jobs p"
  by (simp_all add: held_jobs_def)

lemma jobs_conserved_step:
  "pstep p e p' \<Longrightarrow>
     submitted [e] + queued_jobs (p_queue p) + held_jobs p
       = answered [e] + queued_jobs (p_queue p') + held_jobs p'"
proof (induction rule: pstep.induct)
  case (pop p i j q')
  then show ?case
    using held_jobs_set_worker [of "p\<lparr>p_queue := q'\<rparr>" i Waiting "Holding j"]
      queued_jobs_pop [OF pop(2)] by simp
next
  case (quit p i)
  then show ?case using held_jobs_set_worker [of p i Waiting Returned] by simp
next
  case (dispatch p i j)
  then show ?case using held_jobs_set_worker [of p i "Holding j" "Dispatching j"] by simp
next
  case (refuse p i j)
  then show ?case using held_jobs_set_worker [of p i "Holding j" "Replied j"] by simp
next
  case (reply p i j)
  then show ?case using held_jobs_set_worker [of p i "Dispatching j" "Replied j"] by simp
next
  case (forget p i j)
  then show ?case
    using held_jobs_set_worker [of "p\<lparr>p_cancel := cancel_forget (job_idKey j) (p_cancel p)\<rparr>" i
        "Replied j" "Forgot j"] by simp
next
  case (finish p i j)
  then show ?case
    using held_jobs_set_worker [of "p\<lparr>p_queue := queue_finish (job_lane j) (p_queue p)\<rparr>" i
        "Forgot j" Waiting] by (simp add: queued_jobs_def queue_finish_def)
next
  case (stop p)
  then show ?case by (simp add: queued_jobs_def queue_stop_def)
qed simp_all

lemma held_jobs_initial: "held_jobs initial_pool = {#}"
  by (simp add: held_jobs_def initial_pool_def kPoolSize_def numeral_eq_Suc)

lemma jobs_conserved:
  "prun initial_pool es p \<Longrightarrow>
     submitted es = answered es + queued_jobs (p_queue p) + held_jobs p"
proof (induction initial_pool es p rule: prun.induct)
  case nil
  show ?case
    by (simp add: held_jobs_initial) (simp add: queued_jobs_def initial_pool_def new_work_queue_def no_queues_def)
next
  case (snoc es p1 e p2)
  from jobs_conserved_step [OF snoc(3)] snoc(2) show ?case
    by (simp add: ac_simps)
qed

section \<open>Shutting down\<close>

text \<open>Steps the workers still have to take: six for a queued job, less for one in progress.\<close>

fun worker_todo :: "worker \<Rightarrow> nat" where
  "worker_todo (Holding j) = 5"
| "worker_todo (Dispatching j) = 4"
| "worker_todo (Replied j) = 3"
| "worker_todo (Forgot j) = 2"
| "worker_todo Waiting = 1"
| "worker_todo Returned = 0"

definition pool_todo :: "pool \<Rightarrow> nat" where
  "pool_todo p = 6 * size (queued_jobs (p_queue p)) + sum_list (map worker_todo (p_workers p))"

fun by_worker :: "pevent \<Rightarrow> bool" where
  "by_worker (Submit _) = False"
| "by_worker (Cancel _) = False"
| "by_worker StopAll = False"
| "by_worker _ = True"

lemma todo_set_worker:
  assumes "worker_at p i w0"
  shows "sum_list (map worker_todo (p_workers (set_worker i w p))) + worker_todo w0
       = sum_list (map worker_todo (p_workers p)) + worker_todo w"
  using assms sum_list_map_update [of i "p_workers p" worker_todo w]
  by (auto simp: set_worker_def worker_at_def)

lemma todo_decreases: "pstep p e p' \<Longrightarrow> by_worker e \<Longrightarrow> pool_todo p' < pool_todo p"
proof (induction rule: pstep.induct)
  case (pop p i j q')
  then show ?case
    using todo_set_worker [of "p\<lparr>p_queue := q'\<rparr>" i Waiting "Holding j"] queued_jobs_pop [OF pop(2)]
    by (simp add: pool_todo_def)
next
  case (quit p i)
  then show ?case using todo_set_worker [of p i Waiting Returned] by (simp add: pool_todo_def)
next
  case (dispatch p i j)
  then show ?case using todo_set_worker [of p i "Holding j" "Dispatching j"] by (simp add: pool_todo_def)
next
  case (refuse p i j)
  then show ?case using todo_set_worker [of p i "Holding j" "Replied j"] by (simp add: pool_todo_def)
next
  case (reply p i j)
  then show ?case using todo_set_worker [of p i "Dispatching j" "Replied j"] by (simp add: pool_todo_def)
next
  case (forget p i j)
  then show ?case
    using todo_set_worker [of "p\<lparr>p_cancel := cancel_forget (job_idKey j) (p_cancel p)\<rparr>" i
        "Replied j" "Forgot j"] by (simp add: pool_todo_def)
next
  case (finish p i j)
  then show ?case
    using todo_set_worker [of "p\<lparr>p_queue := queue_finish (job_lane j) (p_queue p)\<rparr>" i
        "Forgot j" Waiting] by (simp add: pool_todo_def queued_jobs_def queue_finish_def)
qed simp_all

lemma busy_enabled:
  assumes "i < length (p_workers p)" and "worker_job (p_workers p ! i) = Some j"
  shows "\<exists>e p'. by_worker e \<and> pstep p e p'"
proof -
  have w: "worker_at p i (p_workers p ! i)" using assms(1) by (simp add: worker_at_def)
  show ?thesis
  proof (cases "p_workers p ! i")
    case (Holding j')
    show ?thesis
      using pstep.refuse [OF w [unfolded Holding]] pstep.dispatch [OF w [unfolded Holding]]
      by (metis by_worker.simps(6,7))
  next
    case (Dispatching j')
    from pstep.reply [OF w [unfolded this]] show ?thesis by (metis by_worker.simps(8))
  next
    case (Replied j')
    from pstep.forget [OF w [unfolded this]] show ?thesis by (metis by_worker.simps(9))
  next
    case (Forgot j')
    from pstep.finish [OF w [unfolded this]] show ?thesis by (metis by_worker.simps(10))
  qed (use assms(2) in simp_all)
qed

lemma cap_reached_busy:
  assumes "pool_inv p" and "\<not> q_active (p_queue p) l < int (queue_cap l)"
  shows "\<exists>i j. i < length (p_workers p) \<and> worker_job (p_workers p ! i) = Some j"
proof -
  have "q_active (p_queue p) l = int (running l p)" using assms(1) by (simp add: pool_inv_def)
  with assms(2) have "queue_cap l \<le> running l p" by linarith
  then have "filter (on_lane l) (p_workers p) \<noteq> []"
    by (cases l) (auto simp: running_def kPoolSize_def kNormalSlots_def kBulkSlots_def)
  then obtain i where "i < length (p_workers p)" "on_lane l (p_workers p ! i)"
    by (auto simp: filter_empty_conv in_set_conv_nth)
  then show ?thesis by (auto simp: on_lane_def)
qed

lemma worker_enabled:
  assumes "pool_inv p" and "i < length (p_workers p)" and "p_workers p ! i \<noteq> Returned"
    and "q_stop (p_queue p)"
  shows "\<exists>e p'. by_worker e \<and> pstep p e p'"
proof (cases "worker_job (p_workers p ! i)")
  case (Some j)
  with assms(2) show ?thesis by (rule busy_enabled)
next
  case None
  then have w: "worker_at p i Waiting"
    using assms(2,3) by (cases "p_workers p ! i") (auto simp: worker_at_def)
  show ?thesis
  proof (cases "queue_pop (p_queue p)")
    case (Popped j q')
    from pstep.pop [OF w this] show ?thesis by (metis by_worker.simps(4))
  next
    case Stopped
    from pstep.quit [OF w this] show ?thesis by (metis by_worker.simps(5))
  next
    case Waits
    then have "queue_take (p_queue p) = None" "\<not> lq_empty (q_jobs (p_queue p))"
      using assms(4) by (auto simp: queue_take_def queue_pop_def split: option.splits if_splits)
    then obtain l where "\<not> q_active (p_queue p) l < int (queue_cap l)"
      using jobq.pop_None [of "p_queue p"] by (auto simp: lq_empty_iff)
    from cap_reached_busy [OF assms(1) this] show ?thesis using busy_enabled by blast
  qed
qed

section \<open>The properties\<close>

text \<open>A request to run the properties on: one interactive job, submitted and popped by thread 0.\<close>

definition demo_job :: job where
  "demo_job = \<lparr>job_id = JInt 1, job_idKey = ''1'', job_method = ''fs.stat'', job_params = JObj [],
     job_lane = Interactive\<rparr>"

definition demo_pool :: pool where
  "demo_pool = initial_pool\<lparr>p_queue := queue_push demo_job new_work_queue\<rparr>"

lemma demo_submit: "pstep (initial_pool\<lparr>p_cancel := c\<rparr>) (Submit demo_job) (demo_pool\<lparr>p_cancel := c\<rparr>)"
  using pstep.submit [of "initial_pool\<lparr>p_cancel := c\<rparr>" demo_job]
  by (simp add: demo_pool_def initial_pool_def new_work_queue_def)

lemma demo_run: "prun initial_pool [Submit demo_job] demo_pool"
  using prun.snoc [OF prun.nil demo_submit [of "{}"]] by (simp add: initial_pool_def demo_pool_def)

lemma demo_idle: "i < 16 \<Longrightarrow> worker_at demo_pool i Waiting"
  by (simp add: demo_pool_def initial_pool_def worker_at_def kPoolSize_def)

lemma demo_queued: "q_jobs (p_queue demo_pool) Interactive = [demo_job]"
  by (simp add: demo_pool_def queue_push_def queue_insert_def new_work_queue_def no_queues_def
      demo_job_def)

lemma three_lanes:
  "length ws = length (filter (on_lane Interactive) ws) + length (filter (on_lane Normal) ws)
     + length (filter (on_lane Bulk) ws) + length (filter (\<lambda>w. worker_job w = None) ws)"
proof (induction ws)
  case (Cons w ws)
  then show ?case
    by (cases "worker_job w") (auto simp: on_lane_def intro: lane.exhaust)
qed simp

text \<open>
  C3. The reserved interactive capacity holds in every interleaving: never more than 8
  normal and 2 bulk jobs are in the hands of workers, the counters the caps are checked against are
  the exact numbers of such jobs, so at least 6 of the 16 threads are idle or on interactive work.
\<close>

theorem interactive_capacity:
  assumes "prun initial_pool es p"
  shows "running Normal p \<le> 8 \<and> running Bulk p \<le> 2
    \<and> q_active (p_queue p) l = int (running l p)
    \<and> 6 \<le> length (filter (\<lambda>w. on_lane Interactive w \<or> worker_job w = None) (p_workers p))"
proof -
  have inv: "pool_inv p" using assms by (rule pool_inv_reachable)
  then have c: "running Normal p \<le> 8" "running Bulk p \<le> 2" "length (p_workers p) = 16"
    using queue_cap.simps unfolding pool_inv_def kNormalSlots_def kBulkSlots_def kPoolSize_def
    by metis+
  have "length (filter (\<lambda>w. on_lane Interactive w \<or> worker_job w = None) ws)
      = length (filter (on_lane Interactive) ws) + length (filter (\<lambda>w. worker_job w = None) ws)" for ws
    by (induction ws) (auto simp: on_lane_def)
  with c three_lanes [of "p_workers p"] inv show ?thesis
    by (simp add: running_def pool_inv_def)
qed

theorem interactive_capacity_witness:
  "running Normal demo_pool \<le> 8 \<and> q_active (p_queue demo_pool) Bulk = int (running Bulk demo_pool)"
  using interactive_capacity [OF demo_run, of Bulk] by blast

text \<open>
  No interactive request waits behind other traffic while a thread is free: whatever
  else is queued and running, a thread that pops takes the oldest interactive job.
\<close>

theorem interactive_first:
  assumes "prun initial_pool es p" and "worker_at p i Waiting"
    and "q_jobs (p_queue p) Interactive = j # js"
  shows "\<exists>q'. queue_pop (p_queue p) = Popped j q'
     \<and> pstep p (PopJob i j) (set_worker i (Holding j) (p\<lparr>p_queue := q'\<rparr>))"
proof -
  have inv: "pool_inv p" using assms(1) by (rule pool_inv_reachable)
  have "filter (on_lane Interactive) (p_workers p) \<noteq> p_workers p"
    using assms(2) by (metis filter_id_conv nth_mem on_lane_simps(1) worker_at_def)
  then have "running Interactive p < kPoolSize"
    using inv length_filter_less [of Waiting "p_workers p" "on_lane Interactive"] assms(2)
    by (auto simp: running_def pool_inv_def worker_at_def in_set_conv_nth)
  then have "q_active (p_queue p) Interactive < int (queue_cap Interactive)"
    using inv by (simp add: pool_inv_def)
  with assms(3) have "pickRunnableLocked (p_queue p) = Some Interactive"
    by (simp add: pickRunnableLocked_def lq_pick_Some less_lane_def)
  with assms(3) obtain q' where "queue_pop (p_queue p) = Popped j q'"
    by (simp add: queue_pop_def)
  with pstep.pop [OF assms(2) this] show ?thesis by blast
qed

theorem interactive_first_witness:
  "\<exists>q'. queue_pop (p_queue demo_pool) = Popped demo_job q'
     \<and> pstep demo_pool (PopJob 3 demo_job) (set_worker 3 (Holding demo_job) (demo_pool\<lparr>p_queue := q'\<rparr>))"
  using interactive_first [OF demo_run demo_idle [of 3] demo_queued] by simp

text \<open>
  Each request is answered at most once, and at shutdown exactly once: the jobs dispatched or
  refused are among the jobs submitted, with multiplicity, and when every thread has returned they
  are all of them.
\<close>

theorem jobs_answered_once:
  assumes "prun initial_pool es p"
  shows "answered es \<subseteq># submitted es
    \<and> (set (p_workers p) \<subseteq> {Returned} \<longrightarrow> answered es = submitted es)"
proof -
  note c = jobs_conserved [OF assms]
  have inv: "pool_inv p" using assms by (rule pool_inv_reachable)
  have "answered es = submitted es" if r: "set (p_workers p) \<subseteq> {Returned}"
  proof -
    have "p_workers p \<noteq> []" using inv by (auto simp: pool_inv_def kPoolSize_def)
    with r have "Returned \<in> set (p_workers p)" by (cases "p_workers p") auto
    with inv have "queued_jobs (p_queue p) = {#}"
      by (auto simp: pool_inv_def lq_empty_iff queued_jobs_def)
    moreover have "set ws \<subseteq> {Returned} \<Longrightarrow> sum_list (map held_job ws) = {#}" for ws
      by (induction ws) auto
    then have "held_jobs p = {#}" using r by (simp add: held_jobs_def)
    ultimately show ?thesis using c by simp
  qed
  with c show ?thesis by (auto simp: ac_simps)
qed

theorem jobs_answered_once_witness: "answered [Submit demo_job] \<subseteq># {#demo_job#}"
  using jobs_answered_once [OF demo_run] by simp

text \<open>
  Shutdown terminates: once the queue is stopped, as long as some thread has not returned some
  worker step is possible, and every worker step shrinks the work left, so that any schedule of
  them ends with all threads returned.
\<close>

theorem pool_shuts_down:
  assumes "prun initial_pool es p" and "q_stop (p_queue p)"
  shows "(set (p_workers p) \<subseteq> {Returned} \<or> (\<exists>e p'. by_worker e \<and> pstep p e p'))
    \<and> (\<forall>e p'. by_worker e \<and> pstep p e p' \<longrightarrow> pool_todo p' < pool_todo p)"
proof -
  have "\<exists>e p'. by_worker e \<and> pstep p e p'" if "\<not> set (p_workers p) \<subseteq> {Returned}"
  proof -
    from that obtain w where "w \<in> set (p_workers p)" "w \<noteq> Returned" by auto
    then obtain i where "i < length (p_workers p)" "p_workers p ! i \<noteq> Returned"
      by (metis in_set_conv_nth)
    with worker_enabled [OF pool_inv_reachable [OF assms(1)] _ _ assms(2)] show ?thesis by blast
  qed
  with todo_decreases show ?thesis by blast
qed

theorem pool_shuts_down_witness:
  "\<exists>e p'. by_worker e \<and> pstep (initial_pool\<lparr>p_queue := queue_stop new_work_queue\<rparr>) e p'"
proof -
  let ?p = "initial_pool\<lparr>p_queue := queue_stop new_work_queue\<rparr>"
  have r: "prun initial_pool [StopAll] ?p"
    using prun.snoc [OF prun.nil pstep.stop [of initial_pool]] by (simp add: initial_pool_def)
  have "\<not> set (p_workers ?p) \<subseteq> {Returned}"
    by (simp add: initial_pool_def kPoolSize_def)
  with pool_shuts_down [OF r] show ?thesis by (simp add: queue_stop_def)
qed

text \<open>
  A cancelled request does not run: from the moment its key is in the registry, no job with
  that key is dispatched until some job with that key has been answered and forgotten.
\<close>

theorem cancelled_not_dispatched:
  assumes "prun p es p'" and "isCancelled key (p_cancel p)"
    and "\<forall>i j. Forget i j \<in> set es \<longrightarrow> job_idKey j \<noteq> key"
  shows "\<forall>i j. Dispatch i j \<in> set es \<longrightarrow> job_idKey j \<noteq> key"
proof -
  have "isCancelled key (p_cancel p') \<and> (\<forall>i j. Dispatch i j \<in> set es \<longrightarrow> job_idKey j \<noteq> key)"
    using assms
  proof (induction rule: prun.induct)
    case (snoc p es p1 e p2)
    then have IH: "isCancelled key (p_cancel p1)" "\<forall>i j. Dispatch i j \<in> set es \<longrightarrow> job_idKey j \<noteq> key"
      by auto
    from snoc.hyps(2) have "isCancelled key (p_cancel p2) \<and> (\<forall>i j. e = Dispatch i j \<longrightarrow> job_idKey j \<noteq> key)"
      using IH(1) snoc.prems(2)
      by cases (auto simp: isCancelled_def cancel_cancel_def cancel_forget_def)
    with IH show ?case by auto
  qed simp
  then show ?thesis by blast
qed

theorem cancelled_not_dispatched_witness:
  "\<not> (\<exists>i. Dispatch i demo_job \<in> set [Submit demo_job])
   \<and> prun (initial_pool\<lparr>p_cancel := {''1''}\<rparr>) [Submit demo_job] (demo_pool\<lparr>p_cancel := {''1''}\<rparr>)"
proof -
  have r: "prun (initial_pool\<lparr>p_cancel := {''1''}\<rparr>) [Submit demo_job] (demo_pool\<lparr>p_cancel := {''1''}\<rparr>)"
    using prun.snoc [OF prun.nil demo_submit [of "{''1''}"]] by simp
  have "\<forall>i j. Dispatch i j \<in> set [Submit demo_job] \<longrightarrow> job_idKey j \<noteq> ''1''"
    by (rule cancelled_not_dispatched [OF r]) (simp_all add: isCancelled_def)
  with r show ?thesis by (simp add: demo_job_def)
qed

end
