(* ===== verification/IdTable.thy ===== *)
theory IdTable
  imports Prelude
begin

text \<open>
  The pattern the agent uses for every long-lived object a client holds by name (tunnels,
  indexers, HEAD watches, pending credentials): a table from ids to objects, and a counter the next id is
  made from (\<^verbatim>\<open>"t-" + std::to_string(g_tunSeq.fetch_add(1) + 1)\<close>). The contract is the locale
  \<open>id_registry\<close>; the components that keep such a table interpret it.
\<close>

section \<open>The interface\<close>

text \<open>
  \<open>alloc\<close> enters an object under a fresh id, \<open>lookup\<close> finds it, \<open>remove\<close> forgets it; \<open>issued\<close> are the
  ids given out so far, forgotten or not.
\<close>

locale id_registry =
  fixes alloc :: "'e \<Rightarrow> 's \<Rightarrow> string \<times> 's"
    and lookup :: "string \<Rightarrow> 's \<Rightarrow> 'e option"
    and remove :: "string \<Rightarrow> 's \<Rightarrow> 's"
    and issued :: "string \<Rightarrow> 's \<Rightarrow> bool"
    and ok :: "'s \<Rightarrow> bool"
  assumes alloc_ok: "ok s \<Longrightarrow> ok (snd (alloc e s))"
    and alloc_fresh: "ok s \<Longrightarrow> \<not> issued (fst (alloc e s)) s"
    and alloc_issued: "ok s \<Longrightarrow> issued i (snd (alloc e s)) \<longleftrightarrow> issued i s \<or> i = fst (alloc e s)"
    and alloc_lookup: "ok s \<Longrightarrow>
          lookup i (snd (alloc e s)) = (if i = fst (alloc e s) then Some e else lookup i s)"
    and remove_ok: "ok s \<Longrightarrow> ok (remove i s)"
    and remove_issued: "ok s \<Longrightarrow> issued j (remove i s) \<longleftrightarrow> issued j s"
    and remove_lookup: "ok s \<Longrightarrow> lookup j (remove i s) = (if j = i then None else lookup j s)"
    and lookup_issued: "ok s \<Longrightarrow> lookup i s \<noteq> None \<Longrightarrow> issued i s"
begin

lemma fresh_unknown: "ok s \<Longrightarrow> lookup (fst (alloc e s)) s = None"
  using lookup_issued alloc_fresh by blast

text \<open>An id once forgotten stays unknown, whatever is allocated and forgotten afterwards.\<close>

definition gone :: "string \<Rightarrow> 's \<Rightarrow> bool" where
  "gone i s \<longleftrightarrow> issued i s \<and> lookup i s = None"

lemma gone_remove: "ok s \<Longrightarrow> lookup i s \<noteq> None \<Longrightarrow> gone i (remove i s)"
  by (simp add: gone_def remove_issued remove_lookup lookup_issued)

lemma gone_alloc: "ok s \<Longrightarrow> gone i s \<Longrightarrow> gone i (snd (alloc e s))"
  using alloc_fresh [of s e] by (auto simp: gone_def alloc_issued alloc_lookup)

lemma gone_other: "ok s \<Longrightarrow> gone i s \<Longrightarrow> gone i (remove j s)"
  by (simp add: gone_def remove_issued remove_lookup)

inductive later :: "'s \<Rightarrow> 's \<Rightarrow> bool" where
  same: "later s s"
| alloc: "later s s1 \<Longrightarrow> later s (snd (alloc e s1))"
| remove: "later s s1 \<Longrightarrow> later s (remove i s1)"

lemma later_ok: "later s s' \<Longrightarrow> ok s \<Longrightarrow> ok s'"
  by (induction rule: later.induct) (auto intro: alloc_ok remove_ok)

lemma gone_forever: "later s s' \<Longrightarrow> ok s \<Longrightarrow> gone i s \<Longrightarrow> gone i s'"
  by (induction rule: later.induct) (auto intro: gone_alloc gone_other later_ok)

text \<open>Two objects entered one after the other never share an id.\<close>

lemma ids_distinct:
  assumes "ok s" and "later (snd (alloc e s)) s'"
  shows "fst (alloc e' s') \<noteq> fst (alloc e s)"
proof -
  have "later s1 s2 \<Longrightarrow> ok s1 \<Longrightarrow> issued i s1 \<Longrightarrow> issued i s2" for s1 s2 i
    by (induction rule: later.induct) (auto simp: alloc_issued remove_issued later_ok)
  then have "issued (fst (alloc e s)) s'"
    using assms alloc_issued alloc_ok by blast
  moreover have "ok s'" using assms alloc_ok later_ok by blast
  ultimately show ?thesis using alloc_fresh by metis
qed

end

section \<open>The table\<close>

record 'e id_table =
  tab_entries :: "string \<Rightarrow> 'e option"
  tab_seq :: nat

definition empty_table :: "'e id_table" where
  "empty_table = \<lparr>tab_entries = Map.empty, tab_seq = 0\<rparr>"

definition tab_id :: "string \<Rightarrow> nat \<Rightarrow> string" where
  "tab_id pre n = pre @ nat_text n"

definition tab_alloc :: "string \<Rightarrow> 'e \<Rightarrow> 'e id_table \<Rightarrow> string \<times> 'e id_table" where
  "tab_alloc pre e t =
     (let i = tab_id pre (tab_seq t + 1)
      in (i, t\<lparr>tab_seq := tab_seq t + 1, tab_entries := (tab_entries t)(i \<mapsto> e)\<rparr>))"

definition tab_lookup :: "string \<Rightarrow> 'e id_table \<Rightarrow> 'e option" where
  "tab_lookup i t = tab_entries t i"

definition tab_update :: "string \<Rightarrow> 'e \<Rightarrow> 'e id_table \<Rightarrow> 'e id_table" where
  "tab_update i e t = t\<lparr>tab_entries := (tab_entries t)(i \<mapsto> e)\<rparr>"

definition tab_remove :: "string \<Rightarrow> 'e id_table \<Rightarrow> 'e id_table" where
  "tab_remove i t = t\<lparr>tab_entries := (tab_entries t)(i := None)\<rparr>"

definition tab_issued :: "string \<Rightarrow> string \<Rightarrow> 'e id_table \<Rightarrow> bool" where
  "tab_issued pre i t \<longleftrightarrow> (\<exists>n \<in> {1..tab_seq t}. i = tab_id pre n)"

definition tab_ok :: "string \<Rightarrow> 'e id_table \<Rightarrow> bool" where
  "tab_ok pre t \<longleftrightarrow> (\<forall>i. tab_entries t i \<noteq> None \<longrightarrow> tab_issued pre i t)"

lemma tab_id_inject [simp]: "tab_id p m = tab_id p n \<longleftrightarrow> m = n"
  by (simp add: tab_id_def)

lemma tab_ok_empty [simp]: "tab_ok pre empty_table"
  by (simp add: tab_ok_def empty_table_def)

lemma tab_registry:
  "id_registry (tab_alloc pre) tab_lookup tab_remove (tab_issued pre) (tab_ok pre)"
proof
  fix s :: "'e id_table" and e
  assume ok: "tab_ok pre s"
  show "tab_ok pre (snd (tab_alloc pre e s))"
    using ok unfolding tab_ok_def tab_issued_def
    by (auto simp: tab_alloc_def Let_def)
  show "\<not> tab_issued pre (fst (tab_alloc pre e s)) s"
    by (auto simp: tab_alloc_def Let_def tab_issued_def)
  show "tab_issued pre i (snd (tab_alloc pre e s)) \<longleftrightarrow>
      tab_issued pre i s \<or> i = fst (tab_alloc pre e s)" for i
    by (auto simp: tab_alloc_def Let_def tab_issued_def le_Suc_eq)
  show "tab_lookup i (snd (tab_alloc pre e s)) =
      (if i = fst (tab_alloc pre e s) then Some e else tab_lookup i s)" for i
    by (simp add: tab_alloc_def Let_def tab_lookup_def)
  show "tab_ok pre (tab_remove i s)" for i
    using ok by (auto simp: tab_ok_def tab_remove_def tab_issued_def)
  show "tab_issued pre j (tab_remove i s) \<longleftrightarrow> tab_issued pre j s" for i j
    by (simp add: tab_remove_def tab_issued_def)
  show "tab_lookup j (tab_remove i s) = (if j = i then None else tab_lookup j s)" for i j
    by (simp add: tab_remove_def tab_lookup_def)
  show "tab_lookup i s \<noteq> None \<Longrightarrow> tab_issued pre i s" for i
    using ok by (simp add: tab_ok_def tab_lookup_def)
qed

end
