(* ===== verification/Tunnel.thy ===== *)
theory Tunnel
  imports IdTable Respond "HOL-Library.List_Lexorder" "HOL-Library.Char_ord"
begin

text \<open>
  Tunnels (\<^verbatim>\<open>struct Tunnel\<close> and the functions on it in \<^verbatim>\<open>agent/main.cpp\<close>): a process with its
  standard input and output carried over the connection. One thread per tunnel writes the process's
  input from a bounded queue that the reader thread fills, another reads its output. The objects
  are shared between the table, the graveyard and the threads, so they live in a store and the
  table and graveyard hold their ids.
\<close>

section \<open>One tunnel\<close>

definition kTunnelChunk :: nat where "kTunnelChunk = 32 * 1024"
definition kTunnelWriterHighWater :: nat where "kTunnelWriterHighWater = 4 * 1024 * 1024"
definition kTunnelOutqMax :: nat where "kTunnelOutqMax = 8 * 1024 * 1024"
definition kDeflateMinTunnel :: nat where "kDeflateMinTunnel = 512"

text \<open>
  Where \<^verbatim>\<open>tunnelStdinLoop\<close> is: waiting for something to write, writing the rest of a chunk, or
  returned. \<open>tn_received\<close> is what the process's standard input was given so far.
\<close>

datatype stdin_thread = StdinWaiting | StdinWriting string | StdinReturned

record tunnel =
  tn_pid :: int
  tn_isGit :: bool
  tn_closing :: bool
  tn_reaped :: bool
  tn_stdinDone :: bool
  tn_stdoutDone :: bool
  tn_outq :: "string list"
  tn_outqBytes :: nat
  tn_eof :: bool
  tn_stdinGone :: bool
  tn_stdin :: stdin_thread
  tn_received :: string

definition new_tunnel :: "int \<Rightarrow> bool \<Rightarrow> tunnel" where
  "new_tunnel pid git =
     \<lparr>tn_pid = pid, tn_isGit = git, tn_closing = False, tn_reaped = False, tn_stdinDone = False,
      tn_stdoutDone = False, tn_outq = [], tn_outqBytes = 0, tn_eof = False, tn_stdinGone = False,
      tn_stdin = StdinWaiting, tn_received = []\<rparr>"

section \<open>The thread that writes the process's input\<close>

text \<open>
  The locked part of one iteration. \<open>None\<close>: the thread waits. Otherwise it returns, closing the
  process's input, or takes the oldest chunk.
\<close>

definition stdin_take :: "tunnel \<Rightarrow> tunnel option" where
  "stdin_take t =
     (if tn_stdin t \<noteq> StdinWaiting
         \<or> \<not> (tn_closing t \<or> tn_eof t \<or> tn_stdinGone t \<or> tn_outq t \<noteq> []) then None
      else if tn_outq t = [] \<or> tn_stdinGone t
      then Some (t\<lparr>tn_stdin := StdinReturned, tn_stdinDone := True\<rparr>)
      else (let chunk = hd (tn_outq t)
            in Some (t\<lparr>tn_outq := tl (tn_outq t), tn_outqBytes := tn_outqBytes t - length chunk,
                       tn_stdin := StdinWriting chunk\<rparr>)))"

text \<open>
  One pass of the write loop: \<open>w\<close> is what \<^verbatim>\<open>write\<close> returned, between 1 and what was offered, or not
  positive when the process's input is gone.
\<close>

definition stdin_write :: "int \<Rightarrow> tunnel \<Rightarrow> tunnel option" where
  "stdin_write w t =
     (case tn_stdin t of
        StdinWriting rest \<Rightarrow>
          (if rest = [] then Some (t\<lparr>tn_stdin := StdinWaiting\<rparr>)
           else if w \<le> 0
           then Some (t\<lparr>tn_stdinGone := True, tn_stdin := StdinReturned, tn_stdinDone := True\<rparr>)
           else if nat w \<le> length rest
           then Some (t\<lparr>tn_received := tn_received t @ take (nat w) rest,
                        tn_stdin := StdinWriting (drop (nat w) rest)\<rparr>)
           else None)
      | _ \<Rightarrow> None)"

section \<open>What the reader thread queues\<close>

text \<open>
  The blocking part of \<^verbatim>\<open>tunnelSend\<close>: \<open>None\<close> while it waits for room. A tunnel that is closing or
  whose process is gone lets the sender go and drops the bytes.
\<close>

definition tunnel_enqueue :: "string \<Rightarrow> bool \<Rightarrow> tunnel \<Rightarrow> tunnel option" where
  "tunnel_enqueue bytes eof t =
     (if \<not> (tn_closing t \<or> tn_stdinGone t \<or> tn_outqBytes t < kTunnelOutqMax) then None
      else if tn_closing t \<or> tn_stdinGone t then Some t
      else Some (t\<lparr>tn_outqBytes := tn_outqBytes t + length bytes, tn_outq := tn_outq t @ [bytes],
                   tn_eof := tn_eof t \<or> eof\<rparr>))"

definition tunnel_eof :: "tunnel \<Rightarrow> tunnel" where
  "tunnel_eof t = t\<lparr>tn_eof := True\<rparr>"

text \<open>What the thread that reads the output does when the process is gone, and what a close sets.\<close>

definition tunnel_exit :: "tunnel \<Rightarrow> tunnel" where
  "tunnel_exit t = t\<lparr>tn_reaped := True, tn_stdinGone := True\<rparr>"

definition tunnel_closing :: "tunnel \<Rightarrow> tunnel" where
  "tunnel_closing t = t\<lparr>tn_closing := True\<rparr>"

text \<open>
  The life of one tunnel as the threads interleave: \<open>TSend\<close> is accepted bytes (with the frame's
  \<^verbatim>\<open>eof\<close>), \<open>TDrop\<close> a send that was let go.
\<close>

datatype tevent =
    TSend string bool | TDrop string | TEof | TTake | TWrite int | TExit | TClose

inductive tstep :: "tunnel \<Rightarrow> tevent \<Rightarrow> tunnel \<Rightarrow> bool" where
  send: "\<not> tn_closing t \<Longrightarrow> \<not> tn_stdinGone t \<Longrightarrow> tunnel_enqueue bytes eof t = Some t' \<Longrightarrow>
    tstep t (TSend bytes eof) t'"
| drop: "tn_closing t \<or> tn_stdinGone t \<Longrightarrow> tunnel_enqueue bytes eof t = Some t' \<Longrightarrow>
    tstep t (TDrop bytes) t'"
| eof: "tstep t TEof (tunnel_eof t)"
| take: "stdin_take t = Some t' \<Longrightarrow> tstep t TTake t'"
| wrote: "stdin_write w t = Some t' \<Longrightarrow> tstep t (TWrite w) t'"
| exit: "tstep t TExit (tunnel_exit t)"
| close: "tstep t TClose (tunnel_closing t)"

inductive trun :: "tunnel \<Rightarrow> tevent list \<Rightarrow> tunnel \<Rightarrow> bool" where
  nil: "trun t [] t"
| snoc: "trun t es t1 \<Longrightarrow> tstep t1 e t2 \<Longrightarrow> trun t (es @ [e]) t2"

text \<open>The bytes accepted, in the order the reader thread queued them.\<close>

fun accepted :: "tevent list \<Rightarrow> string" where
  "accepted [] = []"
| "accepted (TSend bytes eof # es) = bytes @ accepted es"
| "accepted (_ # es) = accepted es"

fun in_hand :: "stdin_thread \<Rightarrow> string" where
  "in_hand (StdinWriting rest) = rest"
| "in_hand _ = []"

definition tunnel_inv :: "tunnel \<Rightarrow> bool" where
  "tunnel_inv t \<longleftrightarrow> tn_outqBytes t = length (concat (tn_outq t))
     \<and> (tn_stdinDone t \<longleftrightarrow> tn_stdin t = StdinReturned)"

lemma accepted_append [simp]: "accepted (es @ fs) = accepted es @ accepted fs"
  by (induction es rule: accepted.induct) auto

lemma tunnel_inv_new [simp]: "tunnel_inv (new_tunnel pid git)"
  by (simp add: tunnel_inv_def new_tunnel_def)

lemma tunnel_inv_step: "tstep t e t' \<Longrightarrow> tunnel_inv t \<Longrightarrow> tunnel_inv t'"
proof (induction rule: tstep.induct)
  case (take t t')
  then show ?case
    by (cases "tn_outq t") (auto simp: tunnel_inv_def stdin_take_def Let_def split: if_splits)
next
  case (wrote w t t')
  then show ?case
    by (auto simp: tunnel_inv_def stdin_write_def split: if_splits stdin_thread.splits)
qed (auto simp: tunnel_inv_def tunnel_enqueue_def tunnel_eof_def tunnel_exit_def tunnel_closing_def
       split: if_splits)

lemma tunnel_inv_run: "trun t es t' \<Longrightarrow> tunnel_inv t \<Longrightarrow> tunnel_inv t'"
  by (induction rule: trun.induct) (auto intro: tunnel_inv_step)

text \<open>Bytes given to the process, in the thread's hand and queued: what was accepted, until the thread returns.\<close>

definition in_flight :: "tunnel \<Rightarrow> string" where
  "in_flight t = tn_received t @ in_hand (tn_stdin t) @ concat (tn_outq t)"

lemma in_flight_step:
  assumes "tstep t e t'" and "tn_stdin t' \<noteq> StdinReturned"
  shows "in_flight t' = in_flight t @ accepted [e] \<and> tn_stdin t \<noteq> StdinReturned"
  using assms
proof (induction rule: tstep.induct)
  case (take t t')
  then show ?case
    by (cases "tn_outq t") (auto simp: in_flight_def stdin_take_def Let_def split: if_splits)
next
  case (wrote w t t')
  then show ?case
    by (auto simp: in_flight_def stdin_write_def split: if_splits stdin_thread.splits)
qed (auto simp: in_flight_def tunnel_enqueue_def tunnel_eof_def tunnel_exit_def tunnel_closing_def
       split: if_splits)

lemma received_step:
  "tstep t e t' \<Longrightarrow> prefix (tn_received t') (in_flight t @ accepted [e])
     \<and> (tn_stdin t = StdinReturned \<longrightarrow> tn_received t' = tn_received t \<and> tn_stdin t' = StdinReturned)"
proof (induction rule: tstep.induct)
  case (wrote w t t')
  then show ?case
    by (cases "tn_stdin t")
       (auto simp: in_flight_def stdin_write_def take_is_prefix intro: prefix_prefix split: if_splits)
qed (auto simp: in_flight_def stdin_take_def Let_def tunnel_enqueue_def tunnel_eof_def tunnel_exit_def
       tunnel_closing_def split: if_splits)

lemma tunnel_order_run:
  assumes "trun (new_tunnel pid git) es t"
  shows "(tn_stdin t \<noteq> StdinReturned \<longrightarrow> in_flight t = accepted es) \<and> prefix (tn_received t) (accepted es)"
  using assms
proof (induction "new_tunnel pid git" es t rule: trun.induct)
  case nil
  then show ?case by (simp add: new_tunnel_def in_flight_def)
next
  case (snoc es t1 e t2)
  show ?case
  proof (cases "tn_stdin t1 = StdinReturned")
    case True
    with snoc received_step [OF snoc(3)] show ?thesis by auto
  next
    case False
    with snoc have "in_flight t1 = accepted es" by blast
    with received_step [OF snoc(3)] in_flight_step [OF snoc(3)] show ?thesis by auto
  qed
qed

lemma tunnel_bounded_step:
  assumes "tstep t e t'" and "tunnel_inv t" and "tn_outqBytes t < kTunnelOutqMax + m"
    and "\<And>bytes eof. e = TSend bytes eof \<Longrightarrow> length bytes \<le> m"
  shows "tn_outqBytes t' < kTunnelOutqMax + m"
  using assms
proof (induction rule: tstep.induct)
  case (wrote w t t')
  then show ?case by (auto simp: stdin_write_def split: if_splits stdin_thread.splits)
qed (auto simp: tunnel_enqueue_def stdin_take_def Let_def tunnel_eof_def tunnel_exit_def tunnel_closing_def
       split: if_splits intro: less_le_trans add_less_le_mono)

lemma returned_stays: "trun t es t' \<Longrightarrow> tn_stdin t = StdinReturned \<Longrightarrow>
    tn_received t' = tn_received t \<and> tn_stdin t' = StdinReturned"
  by (induction rule: trun.induct) (auto dest: received_step)

section \<open>The table of tunnels\<close>

text \<open>
  \<^verbatim>\<open>g_tunnels\<close> with \<^verbatim>\<open>g_tunSeq\<close>, and \<^verbatim>\<open>g_tunnelGraveyard\<close>. \<open>ts_objs\<close> holds the objects the shared
  pointers point to; the table maps an id to itself, the object's place in the store.
\<close>

record tunnels =
  ts_objs :: "string \<Rightarrow> tunnel option"
  ts_table :: "string id_table"
  ts_graveyard :: "string list"

definition no_tunnels :: tunnels where
  "no_tunnels = \<lparr>ts_objs = Map.empty, ts_table = empty_table, ts_graveyard = []\<rparr>"

interpretation tun: id_registry "tab_alloc ''t-''" tab_lookup tab_remove "tab_issued ''t-''" "tab_ok ''t-''"
  by (rule tab_registry)

definition tunnel_at :: "string \<Rightarrow> tunnels \<Rightarrow> tunnel option" where
  "tunnel_at tid ts = Option.bind (tab_lookup tid (ts_table ts)) (ts_objs ts)"

definition set_tunnel :: "string \<Rightarrow> tunnel \<Rightarrow> tunnels \<Rightarrow> tunnels" where
  "set_tunnel tid t ts = ts\<lparr>ts_objs := (ts_objs ts)(tid \<mapsto> t)\<rparr>"

text \<open>\<^verbatim>\<open>reapTunnelGraveyardLocked\<close>: those whose threads have both finished are joined and dropped.\<close>

definition reapable :: "tunnels \<Rightarrow> string \<Rightarrow> bool" where
  "reapable ts tid = (case ts_objs ts tid of
      Some t \<Rightarrow> tn_stdinDone t \<and> tn_stdoutDone t | None \<Rightarrow> False)"

definition reapTunnelGraveyardLocked :: "tunnels \<Rightarrow> tunnels" where
  "reapTunnelGraveyardLocked ts =
     ts\<lparr>ts_graveyard := filter (\<lambda>tid. \<not> reapable ts tid) (ts_graveyard ts)\<rparr>"

text \<open>Entering a started process: \<^verbatim>\<open>handleTunnelOpen\<close> and \<^verbatim>\<open>handleGitSpawn\<close> both end with it.\<close>

definition register_tunnel :: "tunnel \<Rightarrow> tunnels \<Rightarrow> string \<times> tunnels" where
  "register_tunnel t ts =
     (let tid = tab_id ''t-'' (tab_seq (ts_table ts) + 1);
          tbl = snd (tab_alloc ''t-'' tid (ts_table ts))
      in (tid, reapTunnelGraveyardLocked
                 (ts\<lparr>ts_table := tbl, ts_objs := (ts_objs ts)(tid \<mapsto> t)\<rparr>)))"

text \<open>The signal a close sends: to the process, or to the group a git process leads.\<close>

datatype signal = SigTerm | SigKill

type_synonym kill_request = "int \<times> signal"

definition kill_target :: "tunnel \<Rightarrow> int" where
  "kill_target t = (if tn_isGit t then - tn_pid t else tn_pid t)"

definition closeTunnel :: "string \<Rightarrow> bool \<Rightarrow> tunnels \<Rightarrow> kill_request list \<times> tunnels" where
  "closeTunnel tid force ts =
     (case tunnel_at tid ts of
        None \<Rightarrow> ([], ts)
      | Some t \<Rightarrow>
          (let ts1 = reapTunnelGraveyardLocked
                       (ts\<lparr>ts_table := tab_remove tid (ts_table ts), ts_graveyard := ts_graveyard ts @ [tid]\<rparr>);
               ts2 = set_tunnel tid (tunnel_closing t) ts1
           in (if tn_reaped t then [] else [(kill_target t, if force then SigKill else SigTerm)], ts2)))"

definition handleTunnelClose :: "json \<Rightarrow> tunnels \<Rightarrow> reply \<times> kill_request list \<times> tunnels" where
  "handleTunnelClose p ts =
     (case reqStr p ''tunnelId'' ''lsp.tunnelClose'' of
        Inl r \<Rightarrow> (r, [], ts)
      | Inr tid \<Rightarrow> (let (kills, ts') = closeTunnel tid False ts in (ok_reply, kills, ts')))"

section \<open>Bytes from the client\<close>

text \<open>The notification a client gets for a tunnel it should no longer be using, and at its end.\<close>

definition closed_note :: "string \<Rightarrow> int option \<Rightarrow> string \<Rightarrow> json" where
  "closed_note tid exitCode reason =
     JObj [(''jsonrpc'', JStr ''2.0''), (''method'', JStr ''lsp.tunnelClosed''),
           (''params'', JObj [(''tunnelId'', JStr tid),
              (''exitCode'', case exitCode of Some c \<Rightarrow> JInt c | None \<Rightarrow> JNull),
              (''reason'', JStr reason)])]"

text \<open>
  \<^verbatim>\<open>tunnelSend\<close>, on the reader thread: what it enqueues for the client and the new state, or waiting
  for room, or an exception of \<^verbatim>\<open>p.value("eof", false)\<close>.
\<close>

datatype send_outcome = Sent "json list" tunnels | SendWaits | SendThrows json_exn

definition tunnelSend :: "json \<Rightarrow> tunnels \<Rightarrow> send_outcome" where
  "tunnelSend p ts =
     (case value_bool ''eof'' False p of
        Inl e \<Rightarrow> SendThrows e
      | Inr eof \<Rightarrow>
          (case str_field ''tunnelId'' p of
             None \<Rightarrow> Sent [] ts
           | Some tid \<Rightarrow>
               if \<not> eof \<and> str_field ''data'' p = None then Sent [] ts
               else case tunnel_at tid ts of
                 None \<Rightarrow> Sent [closed_note tid None ''unknown tunnel''] ts
               | Some t \<Rightarrow>
                   if tn_closing t then Sent [closed_note tid None ''unknown tunnel''] ts
                   else (case (case str_field ''data'' p of Some d \<Rightarrow> base64Decode d | None \<Rightarrow> Some []) of
                       None \<Rightarrow> Sent [] ts
                     | Some bytes \<Rightarrow>
                         if bytes = [] then Sent [] (if eof then set_tunnel tid (tunnel_eof t) ts else ts)
                         else (case tunnel_enqueue bytes eof t of
                             None \<Rightarrow> SendWaits
                           | Some t' \<Rightarrow> Sent [] (set_tunnel tid t' ts)))))"

section \<open>Bytes to the client\<close>

definition recv_note :: "(string \<Rightarrow> string option) \<Rightarrow> bool \<Rightarrow> string \<Rightarrow> string \<Rightarrow> json" where
  "recv_note compress2 deflate tid buf =
     (let packed = (if deflate \<and> kDeflateMinTunnel \<le> length buf then deflateBytes compress2 buf else None)
      in JObj [(''jsonrpc'', JStr ''2.0''), (''method'', JStr ''lsp.tunnelRecv''),
               (''params'', JObj ([(''tunnelId'', JStr tid),
                   (''data'', JStr (base64Encode (case packed of Some z \<Rightarrow> z | None \<Rightarrow> buf)))]
                   @ (if packed = None then [] else [(''z'', JBool True)])))])"

text \<open>
  One pass of \<^verbatim>\<open>tunnelStdoutLoop\<close> that reads \<open>buf\<close> (\<open>1\<close> to \<^verbatim>\<open>kTunnelChunk\<close> bytes). \<open>None\<close>: the thread is
  holding back because the writer is behind.
\<close>

definition stdout_read ::
  "(json \<Rightarrow> string) \<Rightarrow> (string \<Rightarrow> string option) \<Rightarrow> string \<Rightarrow> string \<Rightarrow> tunnel \<Rightarrow> transport \<Rightarrow> transport option" where
  "stdout_read dump compress2 tid buf t tr =
     (if kTunnelWriterHighWater < queuedBytes (g_writer tr) \<and> \<not> tn_closing t
         \<or> buf = [] \<or> kTunnelChunk < length buf then None
      else Some (enqueue_frame Interactive tr (dump (recv_note compress2 (g_deflate tr) tid buf))))"

text \<open>How the process ended: \<^verbatim>\<open>waitpid\<close> failed, it exited, or a signal ended it.\<close>

datatype wait_status = WaitFailed | Exited int | Signaled int

fun exit_code :: "wait_status \<Rightarrow> int" where
  "exit_code WaitFailed = -1"
| "exit_code (Exited c) = c"
| "exit_code (Signaled n) = 128 + n"

fun exit_reason :: "wait_status \<Rightarrow> string" where
  "exit_reason (Signaled n) = ''signal '' @ int_text n"
| "exit_reason _ = ''exit''"

text \<open>
  The end of \<^verbatim>\<open>tunnelStdoutLoop\<close>: the process is reaped, writers to it are let go, a git command
  forgets itself (\<open>barrier\<close> is \<^verbatim>\<open>fsBarrier\<close>, which announces pending file changes first), the client is told.
\<close>

definition stdout_end ::
  "(json \<Rightarrow> string) \<Rightarrow> (transport \<Rightarrow> transport) \<Rightarrow> string \<Rightarrow> wait_status \<Rightarrow> tunnels \<Rightarrow> transport
    \<Rightarrow> tunnels \<times> transport" where
  "stdout_end dump barrier tid status ts tr =
     (case ts_objs ts tid of
        None \<Rightarrow> (ts, tr)
      | Some t \<Rightarrow>
          (let ts1 = set_tunnel tid (tunnel_exit t) ts;
               tr1 = (if tn_isGit t then barrier tr else tr);
               ts2 = (if tn_isGit t \<and> tab_lookup tid (ts_table ts1) \<noteq> None
                      then ts1\<lparr>ts_graveyard := ts_graveyard ts1 @ [tid],
                               ts_table := tab_remove tid (ts_table ts1)\<rparr>
                      else ts1);
               tr2 = enqueue_frame Interactive tr1
                       (dump (closed_note tid (Some (exit_code status)) (exit_reason status)));
               ts3 = set_tunnel tid ((tunnel_exit t)\<lparr>tn_stdoutDone := True\<rparr>) ts2
           in (ts3, tr2)))"

section \<open>Starting a language server\<close>

text \<open>What a child executes: the program, its arguments, its directory, whether it leads a group.\<close>

record exec_request =
  ex_program :: string
  ex_args :: "string list"
  ex_cwd :: string
  ex_env :: "string list"
  ex_group :: bool

text \<open>The outcome of the two pipes and the fork; the texts are \<^verbatim>\<open>strerror(errno)\<close>.\<close>

datatype spawn_outcome = PipeFailed string | ForkFailed string | Spawned int

definition kLangTypeScript :: int where "kLangTypeScript = 4"
definition kLangJavaScript :: int where "kLangJavaScript = 3"

text \<open>
  \<^verbatim>\<open>handleTunnelOpen\<close>. \<open>server_path\<close> is the core's \<^verbatim>\<open>grc_language_server_path\<close>, \<open>executable\<close> is
  \<^verbatim>\<open>access(path, X_OK) == 0\<close>, \<open>spawn\<close> what the system calls give.
\<close>

definition handleTunnelOpen ::
  "(int \<Rightarrow> string option) \<Rightarrow> (string \<Rightarrow> bool) \<Rightarrow> spawn_outcome \<Rightarrow> json \<Rightarrow> tunnels
    \<Rightarrow> reply \<times> exec_request option \<times> tunnels" where
  "handleTunnelOpen server_path executable spawn p ts =
     (case reqStr p ''workspacePath'' ''lsp.tunnelOpen'' of
        Inl r \<Rightarrow> (r, None, ts)
      | Inr ws \<Rightarrow>
          (case int_field ''language'' p of
             None \<Rightarrow> (Error KInvalidRequest (''lsp.tunnelOpen requires int param '' @ quoted ''language''), None, ts)
           | Some i \<Rightarrow>
               (let lang = to_int32 i
                in case server_path lang of
                  None \<Rightarrow> (Error KLspFailed (''no language server known for language '' @ int_text lang), None, ts)
                | Some serverPath \<Rightarrow>
                    if CHR ''/'' \<notin> set serverPath \<or> \<not> executable serverPath
                    then (Error KLspFailed (''language server not installed: '' @ serverPath), None, ts)
                    else (let args = (if lang = kLangTypeScript \<or> lang = kLangJavaScript then [''--stdio''] else [])
                          in case spawn of
                            PipeFailed e \<Rightarrow> (Error KInternal (''pipe() failed: '' @ e), None, ts)
                          | ForkFailed e \<Rightarrow> (Error KInternal (''fork() failed: '' @ e), None, ts)
                          | Spawned pid \<Rightarrow>
                              (let (tid, ts') = register_tunnel (new_tunnel pid False) ts
                               in (Result (JObj [(''tunnelId'', JStr tid), (''serverPath'', JStr serverPath)]),
                                   Some \<lparr>ex_program = serverPath, ex_args = args, ex_cwd = ws, ex_env = [],
                                         ex_group = False\<rparr>,
                                   ts'))))))"

section \<open>Signals to what a git command started\<close>

text \<open>
  \<^verbatim>\<open>handleGitSignal\<close>. \<open>getpgid\<close> and \<open>kill_ok\<close> are the system's; the reply comes with the signal sent, if any.
  \<^verbatim>\<open>std::to_string(pid)\<close> and the narrowing to \<^verbatim>\<open>pid_t\<close> keep their 32 bits.
\<close>

definition kSignals :: "(string \<times> int) list" where
  "kSignals = [(''USR1'', 10), (''USR2'', 12), (''TERM'', 15), (''INT'', 2), (''HUP'', 1), (''KILL'', 9)]"

definition signal_number :: "string \<Rightarrow> int" where
  "signal_number name =
     (let n = (if starts_with name ''SIG'' then drop 3 name else name)
      in case map_of kSignals n of Some s \<Rightarrow> s | None \<Rightarrow> 0)"

definition is_our_group :: "int \<Rightarrow> tunnels \<Rightarrow> bool" where
  "is_our_group grp ts =
     list_ex (\<lambda>n. case tunnel_at (tab_id ''t-'' n) ts of
                    Some t \<Rightarrow> tn_isGit t \<and> \<not> tn_reaped t \<and> tn_pid t = grp
                  | None \<Rightarrow> False) [1..<tab_seq (ts_table ts) + 1]"

definition handleGitSignal ::
  "(int \<Rightarrow> int) \<Rightarrow> (int \<Rightarrow> int \<Rightarrow> bool) \<Rightarrow> json \<Rightarrow> tunnels \<Rightarrow> reply \<times> (int \<times> int) option" where
  "handleGitSignal getpgid kill_ok params ts =
     (case int_field ''pid'' params of
        None \<Rightarrow> (Error KInvalidRequest (''git.signal requires int param '' @ quoted ''pid''), None)
      | Some i \<Rightarrow>
          (case reqStr params ''signal'' ''git.signal'' of
             Inl r \<Rightarrow> (r, None)
           | Inr name0 \<Rightarrow>
               (let pid = to_int32 (to_int64 i);
                    name = (if starts_with name0 ''SIG'' then drop 3 name0 else name0);
                    signo = signal_number name0
                in if signo = 0
                   then (Error KInvalidRequest (''git.signal: unsupported signal '' @ quoted name), None)
                   else if pid \<le> 1
                   then (Error KPermissionDenied ''git.signal: not a process of ours'', None)
                   else if \<not> is_our_group (getpgid pid) ts
                   then (Error KPermissionDenied (''git.signal: process '' @ int_text pid
                           @ '' was not started by a git.spawn command''), None)
                   else (Result (JObj [(''ok'', JBool (kill_ok pid signo))]), Some (pid, signo)))))"

section \<open>Shutdown\<close>

definition table_ids :: "tunnels \<Rightarrow> string list" where
  "table_ids ts = sort (filter (\<lambda>tid. tab_lookup tid (ts_table ts) \<noteq> None)
                          (map (tab_id ''t-'') [1..<tab_seq (ts_table ts) + 1]))"

definition kill_dead :: "tunnels \<Rightarrow> string \<Rightarrow> kill_request list" where
  "kill_dead ts tid = (case ts_objs ts tid of
      Some t \<Rightarrow> if tn_reaped t then [] else [(kill_target t, SigKill)] | None \<Rightarrow> [])"

text \<open>
  \<^verbatim>\<open>shutdownTunnels\<close>: every tunnel is closed by force, everything in the graveyard that is not
  reaped is killed again and told to close, its threads are joined (they end: the process is gone), and
  the graveyard is emptied.
\<close>

definition mark_closing :: "string list \<Rightarrow> tunnels \<Rightarrow> tunnels" where
  "mark_closing ids ts = foldl (\<lambda>s tid. case ts_objs s tid of
      Some t \<Rightarrow> set_tunnel tid (tunnel_closing t) s | None \<Rightarrow> s) ts ids"

definition shutdownTunnels :: "tunnels \<Rightarrow> kill_request list \<times> tunnels" where
  "shutdownTunnels ts =
     (let (kills, ts1) = foldl (\<lambda>(ks, s) tid. let (k, s') = closeTunnel tid True s in (ks @ k, s'))
                            ([], ts) (table_ids ts);
          dead = ts_graveyard ts1
      in (kills @ concat (map (kill_dead ts1) dead), (mark_closing dead ts1)\<lparr>ts_graveyard := []\<rparr>))"

section \<open>The properties\<close>

text \<open>
  C20. The bytes a client sends reach the process in order and unaltered, whatever the
  interleaving of the reader thread, the writing thread, the process's exit and a close: what the
  process was given is an initial part of what was accepted, and until the writing thread returns
  nothing accepted is lost. The queue stays bounded: it never holds more than its limit and one
  more frame, where \<open>m\<close> bounds the frames.
\<close>

theorem tunnel_stream:
  assumes "trun (new_tunnel pid git) es t"
    and "\<forall>bytes eof. TSend bytes eof \<in> set es \<longrightarrow> length bytes \<le> m"
  shows "prefix (tn_received t) (accepted es)
    \<and> (tn_stdin t \<noteq> StdinReturned \<longrightarrow> tn_received t @ in_hand (tn_stdin t) @ concat (tn_outq t) = accepted es)
    \<and> tn_outqBytes t = length (concat (tn_outq t)) \<and> tn_outqBytes t < kTunnelOutqMax + m"
proof -
  have b: "tn_outqBytes t < kTunnelOutqMax + m"
    using assms
  proof (induction "new_tunnel pid git" es t rule: trun.induct)
    case nil
    then show ?case by (simp add: new_tunnel_def kTunnelOutqMax_def)
  next
    case (snoc es t1 e t2)
    show ?case
      by (rule tunnel_bounded_step [OF snoc(3)]) (use snoc tunnel_inv_run [OF snoc(1)] in auto)
  qed
  have "tunnel_inv t" using tunnel_inv_run [OF assms(1)] by simp
  with b tunnel_order_run [OF assms(1)] show ?thesis
    by (simp add: tunnel_inv_def in_flight_def)
qed

lemma send_step:
  "\<lbrakk>\<not> tn_closing t; \<not> tn_stdinGone t; tn_outqBytes t < kTunnelOutqMax\<rbrakk> \<Longrightarrow>
     tstep t (TSend bytes eof) (t\<lparr>tn_outqBytes := tn_outqBytes t + length bytes,
       tn_outq := tn_outq t @ [bytes], tn_eof := tn_eof t \<or> eof\<rparr>)"
  by (rule tstep.send) (simp_all add: tunnel_enqueue_def)

theorem tunnel_stream_witness:
  "\<exists>t. trun (new_tunnel 7 False) [TSend ''ab'' False] t \<and> prefix (tn_received t) ''ab''
     \<and> tn_outqBytes t < kTunnelOutqMax + 2"
proof -
  have "tstep (new_tunnel 7 False) (TSend ''ab'' False)
      ((new_tunnel 7 False)\<lparr>tn_outqBytes := 2, tn_outq := [''ab''], tn_eof := False\<rparr>)"
    using send_step [of "new_tunnel 7 False" "''ab''" False]
    by (simp add: new_tunnel_def kTunnelOutqMax_def numeral_2_eq_2)
  from trun.snoc [OF trun.nil this]
  have r: "trun (new_tunnel 7 False) [TSend ''ab'' False]
      ((new_tunnel 7 False)\<lparr>tn_outqBytes := 2, tn_outq := [''ab''], tn_eof := False\<rparr>)" by simp
  have "\<forall>bytes eof. TSend bytes eof \<in> set [TSend ''ab'' False] \<longrightarrow> length bytes \<le> 2" by simp
  from tunnel_stream [OF r this] r show ?thesis by auto
qed

text \<open>
  A process that exits frees everyone who waits for it: from then on a send returns at once
  with the bytes dropped, and the writing thread ends at its next step (a write in progress fails or
  makes progress).
\<close>

theorem tunnel_exit_frees:
  assumes "tn_stdinGone t"
  shows "tunnel_enqueue bytes eof t = Some t
    \<and> (tn_stdin t = StdinWaiting \<longrightarrow> pred_option tn_stdinDone (stdin_take t) \<and> stdin_take t \<noteq> None)
    \<and> (\<forall>c rest. tn_stdin t = StdinWriting (c # rest) \<longrightarrow>
         pred_option tn_stdinDone (stdin_write (-1) t) \<and> stdin_write (-1) t \<noteq> None)"
  using assms by (simp add: tunnel_enqueue_def stdin_take_def stdin_write_def)

theorem tunnel_exit_frees_witness:
  "tunnel_enqueue ''x'' False (tunnel_exit (new_tunnel 7 True)) = Some (tunnel_exit (new_tunnel 7 True))
   \<and> stdin_take (tunnel_exit (new_tunnel 7 True)) \<noteq> None"
  using tunnel_exit_frees [of "tunnel_exit (new_tunnel 7 True)" "''x''" False]
  by (simp add: tunnel_exit_def new_tunnel_def)

text \<open>
  After the end of input was announced and the queue written out, the writing thread is gone but the
  process is not marked gone: later sends are accepted, never reach the process, and once they fill
  the queue the reader thread of the whole connection waits, with no step of this tunnel's writing
  thread left to wake it. Only the process's exit or a close, which the waiting thread can no longer
  receive as a notification, ends that.
\<close>

theorem sends_after_eof_block:
  "\<exists>es t. trun (new_tunnel pid git) es t \<and> es = [TEof, TTake, TSend (replicate kTunnelOutqMax CHR ''x'') False]
     \<and> tn_received t = [] \<and> tunnel_enqueue ''y'' False t = None
     \<and> (\<forall>es' t'. trun t es' t' \<longrightarrow> tn_received t' = [])
     \<and> stdin_take t = None \<and> stdin_write w t = None"
proof -
  let ?x = "replicate kTunnelOutqMax CHR ''x''"
  let ?t1 = "tunnel_eof (new_tunnel pid git)"
  let ?t2 = "?t1\<lparr>tn_stdin := StdinReturned, tn_stdinDone := True\<rparr>"
  let ?t3 = "?t2\<lparr>tn_outqBytes := kTunnelOutqMax, tn_outq := [?x], tn_eof := True\<rparr>"
  have s2: "tstep ?t1 TTake ?t2"
    by (rule tstep.take) (simp add: stdin_take_def tunnel_eof_def new_tunnel_def)
  have s3: "tstep ?t2 (TSend ?x False) ?t3"
    using send_step [of ?t2 ?x False] by (simp add: tunnel_eof_def new_tunnel_def kTunnelOutqMax_def)
  have r: "trun (new_tunnel pid git) [TEof, TTake, TSend ?x False] ?t3"
    using trun.snoc [OF trun.snoc [OF trun.snoc [OF trun.nil tstep.eof] s2] s3] by simp
  have "tn_received t' = []" if "trun ?t3 es' t'" for es' t'
    using returned_stays [OF that] by (simp add: tunnel_eof_def new_tunnel_def)
  with r show ?thesis
    by (intro exI [of _ "[TEof, TTake, TSend ?x False]"] exI [of _ ?t3])
       (simp add: tunnel_enqueue_def tunnel_eof_def new_tunnel_def stdin_take_def stdin_write_def)
qed

text \<open>
  \<^verbatim>\<open>git.signal\<close> reaches nothing but what a live \<^verbatim>\<open>git.spawn\<close> command started: whatever the request
  says, a signal is sent only to a process above 1 whose group is led by a git process still in
  the table and not yet reaped, and it is one of the six signals allowed.
\<close>

theorem git_signal_scope:
  assumes "handleGitSignal getpgid kill_ok params ts = (r, Some (pid, signo))"
  shows "1 < pid \<and> signo \<in> snd ` set kSignals
    \<and> (\<exists>tid t. tunnel_at tid ts = Some t \<and> tn_isGit t \<and> \<not> tn_reaped t \<and> tn_pid t = getpgid pid)"
proof -
  obtain name where n: "signo = signal_number name" "signo \<noteq> 0" "1 < pid" "is_our_group (getpgid pid) ts"
    using assms by (auto simp: handleGitSignal_def Let_def split: option.splits sum.splits if_splits)
  then have "signo \<in> snd ` set kSignals"
    by (force simp: signal_number_def Let_def split: option.splits if_splits dest: map_of_SomeD)
  with n show ?thesis
    by (auto simp: is_our_group_def list_ex_iff split: option.splits)
qed

theorem git_signal_scope_witness:
  "\<exists>ts r. handleGitSignal (\<lambda>_. 42) (\<lambda>_ _. True)
        (JObj [(''pid'', JInt 43), (''signal'', JStr ''SIGTERM'')]) ts = (r, Some (43, 15))
     \<and> (\<exists>tid t. tunnel_at tid ts = Some t \<and> tn_isGit t \<and> tn_pid t = 42)"
proof -
  let ?ts = "snd (register_tunnel (new_tunnel 42 True) no_tunnels)"
  have "handleGitSignal (\<lambda>_. 42) (\<lambda>_ _. True)
        (JObj [(''pid'', JInt 43), (''signal'', JStr ''SIGTERM'')]) ?ts
      = (Result (JObj [(''ok'', JBool True)]), Some (43, 15))"
    by (simp add: handleGitSignal_def int_field_def reqStr_def str_field_def to_int32_small to_int64_small
        signal_number_def kSignals_def starts_with_def is_our_group_def register_tunnel_def no_tunnels_def
        empty_table_def tab_alloc_def tunnel_at_def tab_lookup_def reapTunnelGraveyardLocked_def
        new_tunnel_def Let_def)
  from git_signal_scope [OF this] this show ?thesis by blast
qed

end
