(* ===== verification/FileSystem.thy ===== *)
theory FileSystem
  imports Prelude
begin

text \<open>
  The part of a POSIX file system the agent uses: a tree of directories, regular files and symbolic
  links, and \<^verbatim>\<open>realpath\<close>, \<^verbatim>\<open>stat\<close> and \<^verbatim>\<open>lstat\<close> on it. A node is named by the list of the directory names
  that lead to it from the root. Permissions of the host are not modelled: an operation a kernel refuses
  for lack of them changes nothing.
\<close>

section \<open>Trees\<close>

text \<open>A regular file has its bytes, permission bits and modification time in nanoseconds.\<close>

datatype node =
    File (file_bytes: string) (file_mode: int) (file_mtime: int)
  | Dir (dir_mode: int)
  | Link string

type_synonym path = "string list"

type_synonym filesystem = "path \<Rightarrow> node option"

datatype errno = ENOENT | ENOTDIR | ELOOP | EEXIST | EISDIR | ENOTEMPTY | EINVAL

fun strerror :: "errno \<Rightarrow> string" where
  "strerror ENOENT = ''No such file or directory''"
| "strerror ENOTDIR = ''Not a directory''"
| "strerror ELOOP = ''Too many levels of symbolic links''"
| "strerror EEXIST = ''File exists''"
| "strerror EISDIR = ''Is a directory''"
| "strerror ENOTEMPTY = ''Directory not empty''"
| "strerror EINVAL = ''Invalid argument''"

definition dir_at :: "filesystem \<Rightarrow> path \<Rightarrow> bool" where
  "dir_at fs p \<longleftrightarrow> p = [] \<or> (case fs p of Some (Dir _) \<Rightarrow> True | _ \<Rightarrow> False)"

section \<open>Names\<close>

definition render :: "path \<Rightarrow> string" where
  "render p = (if p = [] then ''/'' else concat (map (\<lambda>c. CHR ''/'' # c) p))"

definition good_name :: "string \<Rightarrow> bool" where
  "good_name c \<longleftrightarrow> c \<noteq> [] \<and> CHR ''/'' \<notin> set c \<and> c \<noteq> ''.'' \<and> c \<noteq> ''..'' \<and> CHR 0x00 \<notin> set c"

definition good_path :: "path \<Rightarrow> bool" where
  "good_path p \<longleftrightarrow> list_all good_name p"

lemma good_path_simps [simp]:
  "good_path []" "good_path (c # p) \<longleftrightarrow> good_name c \<and> good_path p"
  "good_path (p @ q) \<longleftrightarrow> good_path p \<and> good_path q"
  by (simp_all add: good_path_def list_all_append_iff)

lemma good_path_butlast: "good_path p \<Longrightarrow> good_path (butlast p)"
  by (cases p rule: rev_cases) simp_all

section \<open>Resolving a name\<close>

text \<open>How many symbolic links one resolution follows before it gives up.\<close>

definition max_links :: nat where "max_links = 40"

text \<open>
  \<open>walk fs n cur todo\<close> resolves the components \<open>todo\<close> from the directory \<open>cur\<close>, following at most \<open>n\<close>
  links: the algorithm of \<^verbatim>\<open>realpath\<close>.
\<close>

function walk :: "filesystem \<Rightarrow> nat \<Rightarrow> path \<Rightarrow> string list \<Rightarrow> errno + path" where
  "walk fs n cur [] = Inr cur"
| "walk fs n cur (c # cs) =
     (if c = [] \<or> c = ''.'' then walk fs n cur cs
      else if c = ''..'' then walk fs n (butlast cur) cs
      else case fs (cur @ [c]) of
        None \<Rightarrow> Inl ENOENT
      | Some (Dir _) \<Rightarrow> walk fs n (cur @ [c]) cs
      | Some (File _ _ _) \<Rightarrow> if cs = [] then Inr (cur @ [c]) else Inl ENOTDIR
      | Some (Link target) \<Rightarrow>
          (case n of
             0 \<Rightarrow> Inl ELOOP
           | Suc m \<Rightarrow>
               if target = [] then Inl ENOENT
               else walk fs m (if hd target = CHR ''/'' then [] else cur) (split_on CHR ''/'' target @ cs)))"
  by pat_completeness auto
termination
  by (relation "measures [\<lambda>(_, n, _, _). n, \<lambda>(_, _, _, todo). length todo]") auto

text \<open>\<^verbatim>\<open>realpath(s)\<close> for a process whose working directory is \<open>cwd\<close>; C sees the text up to a NUL.\<close>

definition realpath :: "filesystem \<Rightarrow> path \<Rightarrow> string \<Rightarrow> errno + path" where
  "realpath fs cwd s =
     (let t = c_str s
      in if t = [] then Inl ENOENT
         else walk fs max_links (if hd t = CHR ''/'' then [] else cwd) (split_on CHR ''/'' t))"

text \<open>
  A physical path: every directory on the way is a directory, not a link, and what it names is no
  link either. A name the kernel is given in this form leads to this node and nowhere else.
\<close>

definition physical :: "filesystem \<Rightarrow> path \<Rightarrow> bool" where
  "physical fs p \<longleftrightarrow> (\<forall>i < length p. dir_at fs (take i p))
     \<and> (dir_at fs p \<or> (\<exists>b m t. fs p = Some (File b m t)))"

lemma physical_root [simp]: "physical fs []"
  by (simp add: physical_def dir_at_def)

lemma physical_dir_snoc:
  "physical fs p \<Longrightarrow> dir_at fs p \<Longrightarrow> dir_at fs (p @ [c]) \<or> (\<exists>b m t. fs (p @ [c]) = Some (File b m t)) \<Longrightarrow>
     physical fs (p @ [c])"
  by (auto simp: physical_def less_Suc_eq)

lemma physical_butlast:
  assumes "physical fs p"
  shows "physical fs (butlast p) \<and> (p \<noteq> [] \<longrightarrow> dir_at fs (butlast p))"
proof (cases p rule: rev_cases)
  case (snoc q c)
  have "dir_at fs (take i q)" if "i \<le> length q" for i
    using assms snoc that by (auto simp: physical_def dest!: spec [of _ i])
  moreover from this [of "length q"] have "dir_at fs q" by simp
  ultimately show ?thesis using snoc by (auto simp: physical_def)
qed simp

lemma split_on_names: "c \<in> set (split_on CHR ''/'' s) \<Longrightarrow> CHR ''/'' \<notin> set c"
  by (rule split_on_sep_free)

lemma split_on_nul: "CHR 0x00 \<notin> set s \<Longrightarrow> c \<in> set (split_on k s) \<Longrightarrow> CHR 0x00 \<notin> set c"
  by (induction s arbitrary: c) (auto split: if_splits list.splits)

text \<open>Link targets hold no NUL: they are read back as C strings.\<close>

definition links_ok :: "filesystem \<Rightarrow> bool" where
  "links_ok fs \<longleftrightarrow> (\<forall>p t. fs p = Some (Link t) \<longrightarrow> CHR 0x00 \<notin> set t)"

lemma walk_physical:
  assumes "walk fs n cur todo = Inr p" and "physical fs cur" and "dir_at fs cur" and "good_path cur"
    and "links_ok fs" and "\<forall>c \<in> set todo. CHR ''/'' \<notin> set c \<and> CHR 0x00 \<notin> set c"
  shows "physical fs p \<and> good_path p"
  using assms
proof (induction fs n cur todo rule: walk.induct)
  case (2 fs n cur c cs)
  show ?case
  proof (cases "c = [] \<or> c = ''.'' \<or> c = ''..''")
    case True
    with 2 physical_butlast [of fs cur] good_path_butlast [of cur] show ?thesis
      by (cases "cur = []") (auto simp: dir_at_def)
  next
    case False
    with 2(10) have g: "good_name c" by (auto simp: good_name_def)
    show ?thesis
    proof (cases "fs (cur @ [c])")
      case None
      with 2(5) False show ?thesis by simp
    next
      case (Some nd)
      show ?thesis
      proof (cases nd)
        case (File b m t)
        with 2 Some False g physical_dir_snoc [of fs cur c] show ?thesis by (auto split: if_splits)
      next
        case (Dir m)
        then have d: "dir_at fs (cur @ [c])" using Some by (simp add: dir_at_def)
        with 2 Some Dir False g physical_dir_snoc [of fs cur c] show ?thesis by auto
      next
        case (Link t)
        with 2(5) Some False obtain k where k: "n = Suc k" "t \<noteq> []"
          by (auto split: nat.splits if_splits)
        have nul: "CHR 0x00 \<notin> set t" using 2(9) Some Link by (auto simp: links_ok_def)
        have names: "\<forall>x \<in> set (split_on CHR ''/'' t @ cs). CHR ''/'' \<notin> set x \<and> CHR 0x00 \<notin> set x"
          using 2(10) split_on_names split_on_nul [OF nul] by auto
        have w: "walk fs k (if hd t = CHR ''/'' then [] else cur) (split_on CHR ''/'' t @ cs) = Inr p"
          using 2(5) Some Link False k by simp
        show ?thesis
          by (rule 2(4) [OF _ _ Some Link k(1) k(2) w]) (use False 2 names in \<open>auto simp: dir_at_def\<close>)
      qed
    qed
  qed
qed simp

lemma realpath_physical:
  assumes "realpath fs cwd s = Inr p" and "links_ok fs"
    and "physical fs cwd" and "dir_at fs cwd" and "good_path cwd"
  shows "physical fs p \<and> good_path p"
proof -
  have "\<forall>c \<in> set (split_on CHR ''/'' (c_str s)). CHR ''/'' \<notin> set c \<and> CHR 0x00 \<notin> set c"
    using split_on_names split_on_nul [OF c_str_no_nul] by blast
  moreover obtain cur where "walk fs max_links cur (split_on CHR ''/'' (c_str s)) = Inr p"
    "cur = [] \<or> cur = cwd"
    using assms(1) by (auto simp: realpath_def Let_def split: if_splits)
  ultimately show ?thesis
    using assms(2-5) walk_physical [of fs max_links cur] by (auto simp: dir_at_def)
qed

end
