(* ===== verification/Sandbox.thy ===== *)
theory Sandbox
  imports FileSystem Config
begin

text \<open>
  The file-system sandbox of \<^verbatim>\<open>agent/main.cpp\<close>: \<^verbatim>\<open>isUnderRoot\<close>, \<^verbatim>\<open>resolveAndAuthorize\<close> and its two
  variants for paths that do not exist yet and for symbolic links. What the handlers rely on is the
  locale \<open>authorizer\<close>.
\<close>

section \<open>Below a root\<close>

definition isUnderRoot :: "string \<Rightarrow> string \<Rightarrow> bool" where
  "isUnderRoot path root =
     (if root = [] then False
      else if length path < length root then False
      else if take (length root) path \<noteq> root then False
      else if length path = length root then True
      else if last root = CHR ''/'' then True
      else path ! length root = CHR ''/'')"

lemma render_append: "p \<noteq> [] \<Longrightarrow> render (p @ q) = render p @ concat (map (\<lambda>c. CHR ''/'' # c) q)"
  by (simp add: render_def)

lemma render_nonempty [simp]: "render p \<noteq> []"
  by (auto simp: render_def)

lemma render_hd [simp]: "hd (render p) = CHR ''/''"
  by (cases p) (auto simp: render_def)

lemma render_last: "good_path p \<Longrightarrow> p \<noteq> [] \<Longrightarrow> last (render p) \<noteq> CHR ''/''"
  by (cases p rule: rev_cases) (auto simp: render_def good_name_def dest: last_in_set)

lemma concat_names_prefix:
  assumes "good_path p" and "good_path r"
    and "concat (map (\<lambda>c. CHR ''/'' # c) p) = concat (map (\<lambda>c. CHR ''/'' # c) r) @ t"
    and "t = [] \<or> hd t = CHR ''/''"
  shows "prefix r p"
  using assms
proof (induction r arbitrary: p)
  case (Cons c r)
  then obtain d q where p: "p = d # q" by (cases p) auto
  let ?f = "\<lambda>xs. concat (map (\<lambda>c. CHR ''/'' # c) xs)"
  have eq: "d @ ?f q = c @ (?f r @ t)" using Cons.prems(3) p by simp
  have names: "CHR ''/'' \<notin> set c" "CHR ''/'' \<notin> set d"
    using Cons.prems p by (auto simp: good_name_def)
  have t1: "?f q = [] \<or> hd (?f q) = CHR ''/''" by (cases q) auto
  have t2: "?f r @ t = [] \<or> hd (?f r @ t) = CHR ''/''" using Cons.prems(4) by (cases r) auto
  have "takeWhile (\<lambda>x. x \<noteq> CHR ''/'') (d @ ?f q) = d"
    using names t1 by (cases "?f q") (auto simp: takeWhile_append takeWhile_eq_all_conv)
  moreover have "takeWhile (\<lambda>x. x \<noteq> CHR ''/'') (c @ (?f r @ t)) = c"
    using names t2 by (cases "?f r @ t") (auto simp: takeWhile_append takeWhile_eq_all_conv)
  ultimately have "d = c" using eq by simp
  moreover have "prefix r q"
    by (rule Cons.IH) (use Cons.prems p eq \<open>d = c\<close> in auto)
  ultimately show ?case using p by simp
qed simp

lemma isUnderRoot_render:
  assumes "good_path p" and "good_path r"
  shows "isUnderRoot (render p) (render r) \<longleftrightarrow> prefix r p"
proof (cases "r = []")
  case True
  then show ?thesis
    by (cases p) (auto simp: isUnderRoot_def render_def)
next
  case False
  show ?thesis
  proof
    assume "prefix r p"
    then obtain q where "p = r @ q" by (auto simp: prefix_def)
    with False show "isUnderRoot (render p) (render r)"
      by (cases q) (auto simp: isUnderRoot_def render_append)
  next
    assume u: "isUnderRoot (render p) (render r)"
    then have tk: "take (length (render r)) (render p) = render r"
      "length (render p) = length (render r) \<or> render p ! length (render r) = CHR ''/''"
      "length (render r) \<le> length (render p)"
      using render_last [OF assms(2) False] by (auto simp: isUnderRoot_def split: if_splits)
    define t where "t = drop (length (render r)) (render p)"
    have eq: "render p = render r @ t" using tk(1) by (metis append_take_drop_id t_def)
    have t: "t = [] \<or> hd t = CHR ''/''"
      using tk(2,3) by (cases "length (render p) = length (render r)") (auto simp: t_def hd_drop_conv_nth)
    show "prefix r p"
    proof (cases "p = []")
      case True
      then have "length (render r) \<le> 1" using tk(3) by (simp add: render_def)
      moreover obtain c r' where "r = c # r'" using False by (cases r) auto
      ultimately show ?thesis using assms(2) by (auto simp: render_def good_name_def)
    next
      case pne: False
      then have "concat (map (\<lambda>c. CHR ''/'' # c) p) = concat (map (\<lambda>c. CHR ''/'' # c) r) @ t"
        using eq False by (simp add: render_def)
      then show ?thesis using concat_names_prefix [OF assms _ t] by blast
    qed
  qed
qed

section \<open>Authorizing a path\<close>

type_synonym denial = "rpc_error \<times> string"

definition outside_message :: "string \<Rightarrow> string" where
  "outside_message canon =
     ''path '' @ quoted canon @ '' is outside the agent'' @ [CHR 0x27]
       @ ''s allowed roots (configure with --allow-root)''"

definition resolveAndAuthorize ::
  "agent_config \<Rightarrow> filesystem \<Rightarrow> path \<Rightarrow> string \<Rightarrow> denial + string" where
  "resolveAndAuthorize cfg fs cwd userPath =
     (case realpath fs cwd (resolveRoot cfg userPath) of
        Inl e \<Rightarrow> Inl (KNotFound, ''could not resolve '' @ quoted userPath @ '': '' @ strerror e)
      | Inr p \<Rightarrow>
          (let canon = render p
           in if list_ex (isUnderRoot canon) (g_allowedRoots cfg) then Inr canon
              else Inl (KPermissionDenied, outside_message canon)))"

text \<open>
  The loop of \<^verbatim>\<open>resolveAndAuthorizeForCreate\<close> that peels off trailing components until something
  exists: the part that exists and the names that are missing, innermost first, or why it gives up.
\<close>

datatype peel_failure = AtRoot | MissingDotDot

function peel :: "filesystem \<Rightarrow> path \<Rightarrow> string \<Rightarrow> string list \<Rightarrow> peel_failure + string \<times> string list" where
  "peel fs cwd existing missing =
     (if CHR ''/'' \<notin> set existing \<or> before_last CHR ''/'' existing = [] then Inl AtRoot
      else (let leaf = after_last CHR ''/'' existing; existing' = before_last CHR ''/'' existing
            in if leaf = [] \<or> leaf = ''.'' then peel fs cwd existing' missing
               else if leaf = ''..'' then Inl MissingDotDot
               else (case realpath fs cwd existing' of
                       Inr _ \<Rightarrow> Inr (existing', missing @ [leaf])
                     | Inl _ \<Rightarrow> peel fs cwd existing' (missing @ [leaf]))))"
  by pat_completeness auto
termination
  by (relation "measure (\<lambda>(_, _, existing, _). length existing)") (auto intro: before_last_length)

declare peel.simps [simp del]

definition resolveAndAuthorizeForCreate ::
  "agent_config \<Rightarrow> filesystem \<Rightarrow> path \<Rightarrow> string \<Rightarrow> denial + string" where
  "resolveAndAuthorizeForCreate cfg fs cwd userPath =
     (let anchored = resolveRoot cfg userPath
      in case realpath fs cwd anchored of
           Inr _ \<Rightarrow> resolveAndAuthorize cfg fs cwd userPath
         | Inl _ \<Rightarrow>
             (case peel fs cwd anchored [] of
                Inl AtRoot \<Rightarrow> Inl (KInvalidRequest,
                    ''refusing to create '' @ quoted userPath @ '' at the filesystem root'')
              | Inl MissingDotDot \<Rightarrow> Inl (KInvalidRequest,
                    quoted userPath @ '' traverses '' @ quoted ''..'' @ '' through a missing directory'')
              | Inr (existing, missing) \<Rightarrow>
                  bindr (resolveAndAuthorize cfg fs cwd existing)
                    (\<lambda>out. Inr (out @ concat (map (\<lambda>c. CHR ''/'' # c) (rev missing))))))"

definition resolveAndAuthorizeNoFollow ::
  "agent_config \<Rightarrow> filesystem \<Rightarrow> path \<Rightarrow> string \<Rightarrow> denial + string" where
  "resolveAndAuthorizeNoFollow cfg fs cwd userPath =
     (let anchored = resolveRoot cfg userPath
      in if CHR ''/'' \<notin> set anchored \<or> before_last CHR ''/'' anchored = []
         then resolveAndAuthorize cfg fs cwd userPath
         else (let leaf = after_last CHR ''/'' anchored
               in if leaf = [] \<or> leaf = ''.'' \<or> leaf = ''..''
                  then resolveAndAuthorize cfg fs cwd userPath
                  else (case resolveAndAuthorize cfg fs cwd (before_last CHR ''/'' anchored) of
                          Inr canonParent \<Rightarrow> Inr (canonParent @ ''/'' @ leaf)
                        | Inl _ \<Rightarrow> resolveAndAuthorize cfg fs cwd userPath)))"

section \<open>Soundness\<close>

text \<open>
  A configuration whose roots are canonical, as \<^verbatim>\<open>main\<close> makes them, and a process in a real directory.
\<close>

definition roots_ok :: "agent_config \<Rightarrow> bool" where
  "roots_ok cfg \<longleftrightarrow> (\<forall>r \<in> set (g_allowedRoots cfg). \<exists>p. r = render p \<and> good_path p)"

definition world_ok :: "filesystem \<Rightarrow> path \<Rightarrow> bool" where
  "world_ok fs cwd \<longleftrightarrow> links_ok fs \<and> physical fs cwd \<and> dir_at fs cwd \<and> good_path cwd"

text \<open>The node a path names is inside the allowed roots.\<close>

definition inside :: "agent_config \<Rightarrow> path \<Rightarrow> bool" where
  "inside cfg p \<longleftrightarrow> (\<exists>r. render r \<in> set (g_allowedRoots cfg) \<and> good_path r \<and> prefix r p)"

lemma inside_below: "inside cfg p \<Longrightarrow> inside cfg (p @ q)"
  by (auto simp: inside_def intro: prefix_prefix)

lemma resolveAndAuthorize_inside:
  assumes "resolveAndAuthorize cfg fs cwd s = Inr canon" and "roots_ok cfg" and "world_ok fs cwd"
  shows "\<exists>p. canon = render p \<and> physical fs p \<and> good_path p \<and> inside cfg p
    \<and> realpath fs cwd (resolveRoot cfg s) = Inr p"
proof -
  obtain p r where p: "realpath fs cwd (resolveRoot cfg s) = Inr p" "canon = render p"
    "r \<in> set (g_allowedRoots cfg)" "isUnderRoot canon r"
    using assms(1) by (auto simp: resolveAndAuthorize_def Let_def list_ex_iff split: sum.splits if_splits)
  have pg: "physical fs p \<and> good_path p"
    using realpath_physical [OF p(1)] assms(3) by (auto simp: world_ok_def)
  obtain q where "r = render q" "good_path q"
    using assms(2) p(3) by (auto simp: roots_ok_def)
  with p pg isUnderRoot_render have "inside cfg p"
    unfolding inside_def by metis
  with p pg show ?thesis by blast
qed

text \<open>A plain component: the names the peeling loop keeps.\<close>

definition plain_name :: "string \<Rightarrow> bool" where
  "plain_name c \<longleftrightarrow> c \<noteq> [] \<and> CHR ''/'' \<notin> set c \<and> c \<noteq> ''.'' \<and> c \<noteq> ''..''"

lemma peel_missing:
  assumes "peel fs cwd existing missing = Inr (out, names)"
    and "list_all plain_name missing"
  shows "list_all plain_name names
    \<and> names \<noteq> [] \<and> (\<exists>p. realpath fs cwd out = Inr p)"
  using assms
proof (induction fs cwd existing missing rule: peel.induct)
  case (1 fs cwd existing missing)
  let ?leaf = "after_last CHR ''/'' existing" and ?ex = "before_last CHR ''/'' existing"
  have stop: "\<not> (CHR ''/'' \<notin> set existing \<or> ?ex = [])"
    using 1(3) by (subst (asm) peel.simps) (auto split: if_splits)
  show ?case
  proof (cases "?leaf = [] \<or> ?leaf = ''.''")
    case True
    then have "peel fs cwd ?ex missing = Inr (out, names)"
      using 1(3) stop by (subst (asm) peel.simps) (auto simp: Let_def)
    from 1(1) [OF stop refl refl True this 1(4)] show ?thesis .
  next
    case False
    have dd: "?leaf \<noteq> ''..''"
      using 1(3) stop False by (subst (asm) peel.simps) (auto simp: Let_def split: if_splits)
    have names: "list_all plain_name (missing @ [?leaf])"
    proof -
      have "plain_name ?leaf"
        using False dd after_last_no_sep [of "CHR ''/''" existing] by (simp add: plain_name_def)
      with 1(4) show ?thesis by simp
    qed
    show ?thesis
    proof (cases "realpath fs cwd ?ex")
      case (Inl e)
      then have "peel fs cwd ?ex (missing @ [?leaf]) = Inr (out, names)"
        using 1(3) stop False dd by (subst (asm) peel.simps) (simp add: Let_def)
      from 1(2) [OF stop refl refl False dd Inl this names] show ?thesis .
    next
      case (Inr p)
      then have "out = ?ex \<and> names = missing @ [?leaf]"
        using 1(3) stop False dd by (subst (asm) peel.simps) (simp add: Let_def)
      with names Inr show ?thesis by (simp only:) blast
    qed
  qed
qed

lemma render_snoc_names: "p \<noteq> [] \<Longrightarrow> render p @ concat (map (\<lambda>c. CHR ''/'' # c) q) = render (p @ q)"
  by (simp add: render_append)

text \<open>
  What a path authorized for creation is: an authorized real directory (or file), then names that are plain
  components, the first of which did not resolve when it was checked.
\<close>

lemma resolveAndAuthorizeForCreate_shape:
  assumes "resolveAndAuthorizeForCreate cfg fs cwd s = Inr canon" and "roots_ok cfg" and "world_ok fs cwd"
  shows "\<exists>p q. canon = render p @ concat (map (\<lambda>c. CHR ''/'' # c) q)
    \<and> physical fs p \<and> good_path p \<and> inside cfg p
    \<and> list_all plain_name q
    \<and> (q = [] \<longrightarrow> realpath fs cwd (resolveRoot cfg s) = Inr p)"
proof (cases "realpath fs cwd (resolveRoot cfg s)")
  case (Inr p0)
  then have "resolveAndAuthorize cfg fs cwd s = Inr canon"
    using assms(1) by (simp add: resolveAndAuthorizeForCreate_def Let_def)
  then obtain p where "canon = render p" "physical fs p" "good_path p" "inside cfg p"
    "realpath fs cwd (resolveRoot cfg s) = Inr p"
    using resolveAndAuthorize_inside assms(2,3) by blast
  then show ?thesis by (intro exI [of _ p] exI [of _ "[]"]) simp
next
  case (Inl e)
  then obtain existing missing base where p: "peel fs cwd (resolveRoot cfg s) [] = Inr (existing, missing)"
    "resolveAndAuthorize cfg fs cwd existing = Inr base"
    "canon = base @ concat (map (\<lambda>c. CHR ''/'' # c) (rev missing))"
    using assms(1) by (auto simp: resolveAndAuthorizeForCreate_def Let_def bindr_Inr
        split: sum.splits peel_failure.splits)
  obtain b where b: "base = render b" "physical fs b" "good_path b" "inside cfg b"
    using resolveAndAuthorize_inside [OF p(2) assms(2,3)] by blast
  have "list_all plain_name missing \<and> missing \<noteq> []"
    using peel_missing [OF p(1)] by simp
  with b p(3) show ?thesis
    by (intro exI [of _ b] exI [of _ "rev missing"]) (simp add: list_all_iff)
qed

text \<open>Resolving a name goes on from the directory its first components lead to.\<close>

lemma walk_append:
  assumes "walk fs n cur xs = Inr p" and "dir_at fs p"
  shows "\<exists>m. \<forall>ys. walk fs n cur (xs @ ys) = walk fs m p ys"
  using assms
proof (induction fs n cur xs rule: walk.induct)
  case (2 fs n cur c cs)
  consider "c = [] \<or> c = ''.''" | "c = ''..''" | (name) "\<not> (c = [] \<or> c = ''.'')" "c \<noteq> ''..''" by blast
  then show ?case
  proof cases
    case name
    then obtain nd where nd: "fs (cur @ [c]) = Some nd" using "2.prems"(1) by (cases "fs (cur @ [c])") auto
    show ?thesis
    proof (cases nd)
      case (File b m t)
      then have "p = cur @ [c]" using "2.prems"(1) nd name by (auto split: if_splits)
      with "2.prems"(2) nd File show ?thesis by (simp add: dir_at_def)
    next
      case (Dir m)
      then show ?thesis using 2 nd name by simp
    next
      case (Link t)
      then obtain k where "n = Suc k" "t \<noteq> []" using "2.prems"(1) nd name by (auto split: nat.splits if_splits)
      then show ?thesis using 2 nd name Link by simp
    qed
  qed (use 2 in auto)
qed auto

lemma split_on_sep: "split_on c (a @ c # b) = split_on c a @ split_on c b"
  by (induction a) (auto split: list.splits)

definition skipped :: "string \<Rightarrow> bool" where
  "skipped c \<longleftrightarrow> c = [] \<or> c = ''.''"

lemma walk_skipped: "list_all skipped cs \<Longrightarrow> walk fs n cur cs = Inr cur"
  by (induction cs) (auto simp: skipped_def)

lemma c_str_append: "c_str (a @ b) = (if CHR 0x00 \<in> set a then c_str a else a @ c_str b)"
  by (induction a) (auto simp: c_str_def)

lemma below_unresolved:
  assumes res: "realpath fs cwd out = Inr p" and d: "dir_at fs p" and leaf: "CHR ''/'' \<notin> set leaf"
    and junk: "list_all skipped junk"
    and fail: "realpath fs cwd (out @ CHR ''/'' # leaf @ concat (map (\<lambda>c. CHR ''/'' # c) junk)) = Inl e"
  shows "plain_name (c_str leaf) \<and> \<not> dir_at fs (p @ [c_str leaf])"
proof -
  let ?junk = "concat (map (\<lambda>c. CHR ''/'' # c) junk)"
  let ?start = "if hd (c_str out) = CHR ''/'' then [] else cwd"
  have clean: "CHR 0x00 \<notin> set out"
    using res fail by (auto simp: realpath_def c_str_append [of out])
  have ne: "out \<noteq> []" using res clean by (auto simp: realpath_def)
  define tail where "tail = c_str (leaf @ ?junk)"
  have splits: "\<exists>js. list_all skipped js \<and> split_on CHR ''/'' tail = c_str leaf # js"
  proof (cases "CHR 0x00 \<in> set leaf")
    case True
    have "CHR ''/'' \<notin> set (c_str leaf)" using leaf by (auto simp: c_str_def dest: set_takeWhileD)
    with True show ?thesis by (intro exI [of _ "[]"]) (simp add: tail_def c_str_append [of leaf] split_on_no_sep)
  next
    case False
    have "CHR 0x00 \<notin> set ?junk" using junk by (induction junk) (auto simp: skipped_def)
    moreover have "split_on CHR ''/'' (x @ ?junk) = x # junk" if "CHR ''/'' \<notin> set x" for x
      using junk that
    proof (induction junk arbitrary: x)
      case (Cons j js)
      then have "CHR ''/'' \<notin> set j" by (auto simp: skipped_def)
      with Cons show ?case by (simp add: split_on_append)
    qed (simp add: split_on_no_sep)
    ultimately show ?thesis using False leaf junk
      by (intro exI [of _ junk]) (simp add: tail_def c_str_append [of leaf])
  qed
  then obtain js where js: "list_all skipped js" "split_on CHR ''/'' tail = c_str leaf # js" by blast
  have w: "walk fs max_links ?start (split_on CHR ''/'' out) = Inr p"
    using res clean ne by (simp add: realpath_def)
  obtain m where m: "\<And>ys. walk fs max_links ?start (split_on CHR ''/'' out @ ys) = walk fs m p ys"
    using walk_append [OF w d] by blast
  have "c_str (out @ CHR ''/'' # leaf @ ?junk) = out @ CHR ''/'' # tail"
    using clean c_str_append [of "[CHR ''/'']" "leaf @ ?junk"] by (simp add: c_str_append [of out] tail_def)
  then have "walk fs m p (c_str leaf # js) = Inl e"
    using fail ne clean js(2) m by (simp add: realpath_def split_on_sep)
  moreover have "CHR ''/'' \<notin> set (c_str leaf)" using leaf by (auto simp: c_str_def dest: set_takeWhileD)
  ultimately show ?thesis
    using walk_skipped [OF js(1)]
    by (auto simp: plain_name_def dir_at_def split: if_splits option.splits node.splits)
qed

text \<open>
  The peeling loop splits the name it is given: the longest part in front that resolves, and behind it the names the
  rest consists of, leaving out empty ones and \<^verbatim>\<open>.\<close>; what it found in front holds no directory under the first of
  those names.
\<close>

lemma peel_spec:
  assumes "peel fs cwd existing missing = Inr (out, names)"
    and "list_all skipped junk" and "realpath fs cwd (existing @ concat (map (\<lambda>c. CHR ''/'' # c) junk)) = Inl e"
  shows "\<exists>tail q p. existing = out @ CHR ''/'' # tail \<and> q = filter (\<lambda>c. \<not> skipped c) (split_on CHR ''/'' tail)
     \<and> rev names = q @ rev missing \<and> q \<noteq> [] \<and> ''..'' \<notin> set q \<and> realpath fs cwd out = Inr p
     \<and> (dir_at fs p \<longrightarrow> \<not> dir_at fs (p @ [c_str (hd q)]))"
  using assms
proof (induction fs cwd existing missing arbitrary: junk e rule: peel.induct)
  case (1 fs cwd existing missing)
  let ?leaf = "after_last CHR ''/'' existing" and ?ex = "before_last CHR ''/'' existing"
  have stop: "\<not> (CHR ''/'' \<notin> set existing \<or> ?ex = [])"
    using 1(3) by (subst (asm) peel.simps) (auto split: if_splits)
  then have ex: "existing = ?ex @ CHR ''/'' # ?leaf" by (auto dest: before_last_after_last)
  have leaf: "CHR ''/'' \<notin> set ?leaf" by (rule after_last_no_sep)
  have one: "split_on CHR ''/'' (t @ CHR ''/'' # ?leaf) = split_on CHR ''/'' t @ [?leaf]" for t
    using leaf by (simp add: split_on_sep split_on_no_sep)
  show ?case
  proof (cases "?leaf = [] \<or> ?leaf = ''.''")
    case True
    then have pl: "peel fs cwd ?ex missing = Inr (out, names)"
      using 1(3) stop by (subst (asm) peel.simps) (auto simp: Let_def)
    have sk: "list_all skipped (?leaf # junk)" using True 1(4) skipped_def [of ?leaf] by auto
    have f: "realpath fs cwd (?ex @ concat (map (\<lambda>c. CHR ''/'' # c) (?leaf # junk))) = Inl e"
      using 1(5) by (subst (asm) ex) simp
    from 1(1) [OF stop refl refl True pl sk f] obtain tail q p where t: "?ex = out @ CHR ''/'' # tail"
      "q = filter (\<lambda>c. \<not> skipped c) (split_on CHR ''/'' tail)" "rev names = q @ rev missing" "q \<noteq> []"
      "''..'' \<notin> set q" "realpath fs cwd out = Inr p" "dir_at fs p \<longrightarrow> \<not> dir_at fs (p @ [c_str (hd q)])" by blast
    show ?thesis
      by (rule exI [of _ "tail @ CHR ''/'' # ?leaf"], rule exI [of _ q], rule exI [of _ p])
         (use t ex True one [of tail] in \<open>simp add: skipped_def\<close>)
  next
    case False
    have dd: "?leaf \<noteq> ''..''"
      using 1(3) stop False by (subst (asm) peel.simps) (auto simp: Let_def split: if_splits)
    show ?thesis
    proof (cases "realpath fs cwd ?ex")
      case (Inl e')
      then have pl: "peel fs cwd ?ex (missing @ [?leaf]) = Inr (out, names)"
        using 1(3) stop False dd by (subst (asm) peel.simps) (simp add: Let_def)
      have f: "realpath fs cwd (?ex @ concat (map (\<lambda>c. CHR ''/'' # c) [])) = Inl e'" using Inl by simp
      from 1(2) [OF stop refl refl False dd Inl pl _ f] obtain tail q p where t: "?ex = out @ CHR ''/'' # tail"
        "q = filter (\<lambda>c. \<not> skipped c) (split_on CHR ''/'' tail)" "rev names = q @ rev (missing @ [?leaf])" "q \<noteq> []"
        "''..'' \<notin> set q" "realpath fs cwd out = Inr p" "dir_at fs p \<longrightarrow> \<not> dir_at fs (p @ [c_str (hd q)])" by auto
      show ?thesis
        by (rule exI [of _ "tail @ CHR ''/'' # ?leaf"], rule exI [of _ "q @ [?leaf]"], rule exI [of _ p])
           (use t ex False dd one [of tail] in \<open>simp add: skipped_def\<close>)
    next
      case (Inr p)
      then have o: "out = ?ex" "names = missing @ [?leaf]"
        using 1(3) stop False dd by (subst (asm) peel.simps, simp add: Let_def)+
      have f: "realpath fs cwd (?ex @ CHR ''/'' # ?leaf @ concat (map (\<lambda>c. CHR ''/'' # c) junk)) = Inl e"
        using 1(5) by (subst (asm) ex) simp
      have nd: "dir_at fs p \<longrightarrow> \<not> dir_at fs (p @ [c_str ?leaf])"
        using below_unresolved [OF Inr _ leaf 1(4) f] by blast
      show ?thesis
        by (rule exI [of _ ?leaf], rule exI [of _ "[?leaf]"], rule exI [of _ p])
           (use o ex False dd Inr nd leaf in \<open>simp add: skipped_def split_on_no_sep\<close>)
    qed
  qed
qed

section \<open>The interface\<close>

text \<open>
  What a handler relies on: every path an authorizer lets through consists of a base that is a real
  node inside the roots and of plain names below it, so nothing it does with the path under those
  names starts outside the roots. \<open>auth\<close> is the authorizer; \<open>plain\<close> what it promises of the names.
\<close>

locale authorizer =
  fixes auth :: "agent_config \<Rightarrow> filesystem \<Rightarrow> path \<Rightarrow> string \<Rightarrow> denial + string"
    and plain :: "string \<Rightarrow> bool"
  assumes auth_base: "auth cfg fs cwd s = Inr canon \<Longrightarrow> roots_ok cfg \<Longrightarrow> world_ok fs cwd \<Longrightarrow>
      \<exists>p q. canon = render p @ concat (map (\<lambda>c. CHR ''/'' # c) q)
        \<and> physical fs p \<and> inside cfg p \<and> list_all plain q"
    and no_roots: "g_allowedRoots cfg = [] \<Longrightarrow> \<exists>d. auth cfg fs cwd s = Inl d"
begin

text \<open>A handler that runs on the authorized path only, or answers with the denial.\<close>

definition authorized :: "agent_config \<Rightarrow> filesystem \<Rightarrow> path \<Rightarrow> string \<Rightarrow> (string \<Rightarrow> 'a) \<Rightarrow> (denial \<Rightarrow> 'a) \<Rightarrow> 'a" where
  "authorized cfg fs cwd s run deny = (case auth cfg fs cwd s of Inl d \<Rightarrow> deny d | Inr c \<Rightarrow> run c)"

lemma authorized_cases:
  assumes "roots_ok cfg" and "world_ok fs cwd"
  obtains (denied) d where "authorized cfg fs cwd s run deny = deny d"
  | (allowed) p q where "authorized cfg fs cwd s run deny = run (render p @ concat (map (\<lambda>c. CHR ''/'' # c) q))"
      and "physical fs p" and "inside cfg p" and "list_all plain q"
proof (cases "auth cfg fs cwd s")
  case (Inl d)
  then show ?thesis using denied [of d] by (simp add: authorized_def)
next
  case (Inr c)
  then show ?thesis
    using auth_base [OF Inr assms] allowed by (auto simp: authorized_def)
qed

lemma locked_down: "g_allowedRoots cfg = [] \<Longrightarrow> \<exists>d. authorized cfg fs cwd s run deny = deny d"
proof -
  assume "g_allowedRoots cfg = []"
  then obtain d where "auth cfg fs cwd s = Inl d" using no_roots by blast
  then have "authorized cfg fs cwd s run deny = deny d" by (simp add: authorized_def)
  then show "\<exists>d. authorized cfg fs cwd s run deny = deny d" ..
qed

end

lemma resolveAndAuthorize_no_roots:
  "g_allowedRoots cfg = [] \<Longrightarrow> resolveAndAuthorize cfg fs cwd s \<noteq> Inr canon"
  by (simp add: resolveAndAuthorize_def Let_def split: sum.splits)

lemma Inl_if_not_Inr: "(\<And>c. x \<noteq> Inr c) \<Longrightarrow> \<exists>d. x = Inl d"
  by (cases x) auto

interpretation auth: authorizer resolveAndAuthorize "\<lambda>_. False"
proof
  fix cfg :: agent_config and fs cwd s canon
  assume "resolveAndAuthorize cfg fs cwd s = Inr canon" "roots_ok cfg" "world_ok fs cwd"
  then obtain p where "canon = render p" "physical fs p" "inside cfg p"
    using resolveAndAuthorize_inside by blast
  then show "\<exists>p q. canon = render p @ concat (map (\<lambda>c. CHR ''/'' # c) q)
      \<and> physical fs p \<and> inside cfg p \<and> list_all (\<lambda>_. False) q"
    by (intro exI [of _ p] exI [of _ "[]"]) simp
qed (rule Inl_if_not_Inr [OF resolveAndAuthorize_no_roots])

interpretation auth_create: authorizer resolveAndAuthorizeForCreate plain_name
proof
  fix cfg :: agent_config and fs cwd s canon
  assume "resolveAndAuthorizeForCreate cfg fs cwd s = Inr canon" "roots_ok cfg" "world_ok fs cwd"
  from resolveAndAuthorizeForCreate_shape [OF this]
  show "\<exists>p q. canon = render p @ concat (map (\<lambda>c. CHR ''/'' # c) q)
      \<and> physical fs p \<and> inside cfg p \<and> list_all plain_name q"
    by blast
next
  fix cfg :: agent_config and fs cwd s
  assume "g_allowedRoots cfg = []"
  then show "\<exists>d. resolveAndAuthorizeForCreate cfg fs cwd s = Inl d"
    using resolveAndAuthorize_no_roots [of cfg fs cwd]
    by (intro Inl_if_not_Inr)
       (simp add: resolveAndAuthorizeForCreate_def Let_def bindr_Inr
         split: sum.splits peel_failure.splits prod.splits)
qed

interpretation auth_link: authorizer resolveAndAuthorizeNoFollow plain_name
proof
  fix cfg :: agent_config and fs cwd s canon
  assume a: "resolveAndAuthorizeNoFollow cfg fs cwd s = Inr canon" "roots_ok cfg" "world_ok fs cwd"
  let ?anchored = "resolveRoot cfg s"
  let ?leaf = "after_last CHR ''/'' ?anchored" and ?parent = "before_last CHR ''/'' ?anchored"
  consider (whole) "resolveAndAuthorize cfg fs cwd s = Inr canon"
    | (leaf) parent where "resolveAndAuthorize cfg fs cwd ?parent = Inr parent"
        "canon = parent @ ''/'' @ ?leaf" "plain_name ?leaf"
    using a(1) after_last_no_sep [of "CHR ''/''" ?anchored]
    unfolding resolveAndAuthorizeNoFollow_def Let_def
    by (fastforce simp: plain_name_def split: if_split_asm sum.split_asm)
  then show "\<exists>p q. canon = render p @ concat (map (\<lambda>c. CHR ''/'' # c) q)
      \<and> physical fs p \<and> inside cfg p \<and> list_all plain_name q"
  proof cases
    case whole
    then obtain p where "canon = render p" "physical fs p" "inside cfg p"
      using resolveAndAuthorize_inside a(2,3) by blast
    then show ?thesis by (intro exI [of _ p] exI [of _ "[]"]) simp
  next
    case leaf
    from resolveAndAuthorize_inside [OF leaf(1) a(2,3)]
    obtain p where "parent = render p" "physical fs p" "inside cfg p" by blast
    with leaf(2,3) show ?thesis by (intro exI [of _ p] exI [of _ "[?leaf]"]) simp
  qed
next
  fix cfg :: agent_config and fs cwd s
  assume "g_allowedRoots cfg = []"
  then show "\<exists>d. resolveAndAuthorizeNoFollow cfg fs cwd s = Inl d"
    using resolveAndAuthorize_no_roots [of cfg fs cwd]
    by (intro Inl_if_not_Inr) (simp add: resolveAndAuthorizeNoFollow_def Let_def split: sum.splits)
qed

section \<open>The properties\<close>

lemma resolveAndAuthorize_outside:
  assumes "roots_ok cfg" and "world_ok fs cwd" and "realpath fs cwd (resolveRoot cfg s) = Inr p" and "\<not> inside cfg p"
  shows "resolveAndAuthorize cfg fs cwd s = Inl (KPermissionDenied, outside_message (render p))"
proof -
  have "resolveAndAuthorize cfg fs cwd s \<noteq> Inr canon" for canon
    using resolveAndAuthorize_inside [of cfg fs cwd s canon] assms by auto
  from this [of "render p"] show ?thesis using assms(3) by (auto simp: resolveAndAuthorize_def Let_def split: if_splits)
qed

lemma forCreate_split:
  assumes "resolveAndAuthorizeForCreate cfg fs cwd s = Inr canon" and "roots_ok cfg" and "world_ok fs cwd"
  shows "case realpath fs cwd (resolveRoot cfg s) of
      Inr p \<Rightarrow> canon = render p \<and> physical fs p \<and> inside cfg p
    | Inl _ \<Rightarrow> (\<exists>p q front rest. resolveRoot cfg s = front @ CHR ''/'' # rest \<and> realpath fs cwd (resolveRoot cfg front) = Inr p
        \<and> physical fs p \<and> inside cfg p
        \<and> q = filter (\<lambda>c. c \<noteq> [] \<and> c \<noteq> ''.'') (split_on CHR ''/'' rest) \<and> q \<noteq> [] \<and> ''..'' \<notin> set q
        \<and> (prefix ''/'' front \<and> dir_at fs p \<longrightarrow> \<not> dir_at fs (p @ [c_str (hd q)]))
        \<and> canon = render p @ concat (map (\<lambda>c. CHR ''/'' # c) q))"
proof (cases "realpath fs cwd (resolveRoot cfg s)")
  case (Inr p0)
  then have "resolveAndAuthorize cfg fs cwd s = Inr canon"
    using assms(1) by (simp add: resolveAndAuthorizeForCreate_def Let_def)
  from resolveAndAuthorize_inside [OF this assms(2,3)] Inr show ?thesis by auto
next
  case (Inl e)
  then obtain out names base where p: "peel fs cwd (resolveRoot cfg s) [] = Inr (out, names)"
    "resolveAndAuthorize cfg fs cwd out = Inr base"
    "canon = base @ concat (map (\<lambda>c. CHR ''/'' # c) (rev names))"
    using assms(1) by (auto simp: resolveAndAuthorizeForCreate_def Let_def bindr_Inr
        split: sum.splits peel_failure.splits)
  from resolveAndAuthorize_inside [OF p(2) assms(2,3)]
  obtain b where b: "base = render b" "physical fs b" "inside cfg b" "realpath fs cwd (resolveRoot cfg out) = Inr b" by blast
  have f: "realpath fs cwd (resolveRoot cfg s @ concat (map (\<lambda>c. CHR ''/'' # c) [])) = Inl e" using Inl by simp
  from peel_spec [OF p(1) _ f] obtain tail q p' where t: "resolveRoot cfg s = out @ CHR ''/'' # tail"
    "q = filter (\<lambda>c. \<not> skipped c) (split_on CHR ''/'' tail)" "rev names = q" "q \<noteq> []" "''..'' \<notin> set q"
    "realpath fs cwd out = Inr p'" "dir_at fs p' \<longrightarrow> \<not> dir_at fs (p' @ [c_str (hd q)])" by auto
  have same: "p' = b" if "prefix ''/'' out"
  proof -
    from that have "resolveRoot cfg out = out" by (cases out) auto
    with b(4) t(6) show ?thesis by simp
  qed
  have q: "q = filter (\<lambda>c. c \<noteq> [] \<and> c \<noteq> ''.'') (split_on CHR ''/'' tail)"
    using t(2) by (simp add: skipped_def)
  show ?thesis
    unfolding Inl sum.case
    by (rule exI [of _ b], rule exI [of _ q], rule exI [of _ out], rule exI [of _ tail])
       (use b t(1,3-7) q p(3) same in blast)
qed

lemma noFollow_split:
  assumes "resolveAndAuthorizeNoFollow cfg fs cwd s = Inr canon" and "roots_ok cfg" and "world_ok fs cwd"
  shows "resolveAndAuthorize cfg fs cwd s = Inr canon
      \<or> (\<exists>p parent leaf. resolveRoot cfg s = parent @ CHR ''/'' # leaf \<and> plain_name leaf
           \<and> realpath fs cwd (resolveRoot cfg parent) = Inr p \<and> physical fs p \<and> inside cfg p \<and> canon = render p @ CHR ''/'' # leaf)"
proof (cases "resolveAndAuthorize cfg fs cwd s = Inr canon")
  case False
  let ?anchored = "resolveRoot cfg s"
  let ?leaf = "after_last CHR ''/'' ?anchored" and ?parent = "before_last CHR ''/'' ?anchored"
  have slash: "CHR ''/'' \<in> set ?anchored" and leaf: "?leaf \<noteq> []" "?leaf \<noteq> ''.''" "?leaf \<noteq> ''..''"
    and par: "\<exists>parent. resolveAndAuthorize cfg fs cwd ?parent = Inr parent \<and> canon = parent @ ''/'' @ ?leaf"
    using assms(1) False
    unfolding resolveAndAuthorizeNoFollow_def Let_def
    by (auto split: if_split_asm sum.split_asm)
  obtain parent where parent: "resolveAndAuthorize cfg fs cwd ?parent = Inr parent" "canon = parent @ ''/'' @ ?leaf"
    using par by blast
  from resolveAndAuthorize_inside [OF parent(1) assms(2,3)]
  obtain p where "parent = render p" "physical fs p" "inside cfg p" "realpath fs cwd (resolveRoot cfg ?parent) = Inr p" by blast
  moreover have "plain_name ?leaf" using leaf after_last_no_sep by (simp add: plain_name_def)
  moreover have "?anchored = ?parent @ CHR ''/'' # ?leaf" using slash by (rule before_last_after_last)
  ultimately show ?thesis using parent(2) by (intro disjI2 exI conjI) auto
qed blast

text \<open>
  The comparison with a root is the one on components, not on text: for canonical names it
  holds exactly when the root's components are an initial part of the path's, so that \<^verbatim>\<open>/a/bc\<close> is not
  below \<^verbatim>\<open>/a/b\<close>.
\<close>

theorem isUnderRoot_components:
  assumes "good_path p" and "good_path r"
  shows "isUnderRoot (render p) (render r) \<longleftrightarrow> prefix r p"
  using assms by (rule isUnderRoot_render)

theorem isUnderRoot_components_witness:
  "\<not> isUnderRoot (render [''a'', ''bc'']) (render [''a'', ''b''])"
  using isUnderRoot_components [of "[''a'', ''bc'']" "[''a'', ''b'']"] by (simp add: good_name_def)

text \<open>
  C2. Whatever a client names (relative, through links, with \<^verbatim>\<open>..\<close>), \<^verbatim>\<open>resolveAndAuthorize\<close> goes on only with
  the name of a node inside an allowed root with no link anywhere on the way, and refuses a name that leads
  outside; \<^verbatim>\<open>resolveAndAuthorizeForCreate\<close> treats every name that resolves in the same way. A name that does not
  resolve it splits after the longest part that does: what comes out is the canonical name of that part, which is
  inside, followed by the remaining components, none of them \<^verbatim>\<open>..\<close>, and there is no directory yet under the first
  of them (what is there, if anything, is a file or a link that did not resolve; a system call that follows such a
  link can still leave the roots, as \<open>create_escapes\<close> of the theory \<open>FsSafety\<close> shows).
  \<^verbatim>\<open>resolveAndAuthorizeNoFollow\<close> gives the canonical name of the parent, which is inside, and the last component
  unresolved, or what the ordinary route gives. With no root configured nothing passes any of the three.
\<close>

theorem sandbox_sound:
  assumes "roots_ok cfg" and "world_ok fs cwd"
  shows "(resolveAndAuthorize cfg fs cwd s = Inr canon \<longrightarrow>
      (\<exists>p. realpath fs cwd (resolveRoot cfg s) = Inr p \<and> canon = render p \<and> physical fs p \<and> inside cfg p))
    \<and> (\<forall>p. realpath fs cwd (resolveRoot cfg s) = Inr p \<and> \<not> inside cfg p \<longrightarrow>
         resolveAndAuthorize cfg fs cwd s = Inl (KPermissionDenied, outside_message (render p))
         \<and> resolveAndAuthorizeForCreate cfg fs cwd s = Inl (KPermissionDenied, outside_message (render p)))
    \<and> (resolveAndAuthorizeForCreate cfg fs cwd s = Inr canon \<longrightarrow>
      (case realpath fs cwd (resolveRoot cfg s) of
         Inr p \<Rightarrow> canon = render p \<and> physical fs p \<and> inside cfg p
       | Inl _ \<Rightarrow> (\<exists>p q front rest. resolveRoot cfg s = front @ CHR ''/'' # rest \<and> realpath fs cwd (resolveRoot cfg front) = Inr p
           \<and> physical fs p \<and> inside cfg p
           \<and> q = filter (\<lambda>c. c \<noteq> [] \<and> c \<noteq> ''.'') (split_on CHR ''/'' rest) \<and> q \<noteq> [] \<and> ''..'' \<notin> set q
           \<and> (prefix ''/'' front \<and> dir_at fs p \<longrightarrow> \<not> dir_at fs (p @ [c_str (hd q)]))
           \<and> canon = render p @ concat (map (\<lambda>c. CHR ''/'' # c) q))))
    \<and> (resolveAndAuthorizeNoFollow cfg fs cwd s = Inr canon \<longrightarrow>
      resolveAndAuthorize cfg fs cwd s = Inr canon
      \<or> (\<exists>p parent leaf. resolveRoot cfg s = parent @ CHR ''/'' # leaf \<and> plain_name leaf
           \<and> realpath fs cwd (resolveRoot cfg parent) = Inr p \<and> physical fs p \<and> inside cfg p \<and> canon = render p @ CHR ''/'' # leaf))
    \<and> (g_allowedRoots cfg = [] \<longrightarrow> (\<exists>d. resolveAndAuthorize cfg fs cwd s = Inl d)
         \<and> (\<exists>d. resolveAndAuthorizeForCreate cfg fs cwd s = Inl d)
         \<and> (\<exists>d. resolveAndAuthorizeNoFollow cfg fs cwd s = Inl d))"
proof (intro conjI)
  show "resolveAndAuthorize cfg fs cwd s = Inr canon \<longrightarrow>
      (\<exists>p. realpath fs cwd (resolveRoot cfg s) = Inr p \<and> canon = render p \<and> physical fs p \<and> inside cfg p)"
    using resolveAndAuthorize_inside [OF _ assms] by blast
  show "\<forall>p. realpath fs cwd (resolveRoot cfg s) = Inr p \<and> \<not> inside cfg p \<longrightarrow>
         resolveAndAuthorize cfg fs cwd s = Inl (KPermissionDenied, outside_message (render p))
         \<and> resolveAndAuthorizeForCreate cfg fs cwd s = Inl (KPermissionDenied, outside_message (render p))"
    using resolveAndAuthorize_outside [OF assms] by (auto simp: resolveAndAuthorizeForCreate_def Let_def)
  show "resolveAndAuthorizeForCreate cfg fs cwd s = Inr canon \<longrightarrow>
      (case realpath fs cwd (resolveRoot cfg s) of
         Inr p \<Rightarrow> canon = render p \<and> physical fs p \<and> inside cfg p
       | Inl _ \<Rightarrow> (\<exists>p q front rest. resolveRoot cfg s = front @ CHR ''/'' # rest \<and> realpath fs cwd (resolveRoot cfg front) = Inr p
           \<and> physical fs p \<and> inside cfg p
           \<and> q = filter (\<lambda>c. c \<noteq> [] \<and> c \<noteq> ''.'') (split_on CHR ''/'' rest) \<and> q \<noteq> [] \<and> ''..'' \<notin> set q
           \<and> (prefix ''/'' front \<and> dir_at fs p \<longrightarrow> \<not> dir_at fs (p @ [c_str (hd q)]))
           \<and> canon = render p @ concat (map (\<lambda>c. CHR ''/'' # c) q)))"
    using forCreate_split [OF _ assms] by blast
  show "resolveAndAuthorizeNoFollow cfg fs cwd s = Inr canon \<longrightarrow>
      resolveAndAuthorize cfg fs cwd s = Inr canon
      \<or> (\<exists>p parent leaf. resolveRoot cfg s = parent @ CHR ''/'' # leaf \<and> plain_name leaf
           \<and> realpath fs cwd (resolveRoot cfg parent) = Inr p \<and> physical fs p \<and> inside cfg p \<and> canon = render p @ CHR ''/'' # leaf)"
    using noFollow_split [OF _ assms] by blast
qed (use auth.no_roots auth_create.no_roots auth_link.no_roots in blast)

text \<open>A small tree to evaluate on: a root, a file in it, a link out of it, and a file outside.\<close>

definition demo_fs :: filesystem where
  "demo_fs = map_of
     [([''r''], Dir 493), ([''r'', ''f''], File ''data'' 420 1),
      ([''r'', ''out''], Link ''/s''), ([''r'', ''dangling''], Link ''/x''),
      ([''s''], File ''secret'' 384 2)]"

definition demo_cfg :: agent_config where
  "demo_cfg = (initial_config None)\<lparr>g_allowedRoots := [''/r''], g_allowWrite := True\<rparr>"

lemma demo_world: "world_ok demo_fs []"
  by (auto simp: world_ok_def links_ok_def dir_at_def demo_fs_def split: if_splits)

lemma demo_roots: "roots_ok demo_cfg"
proof -
  have "''/r'' = render [''r'']" "good_path [''r'']"
    by (simp_all add: render_def good_name_def)
  then show ?thesis by (auto simp: roots_ok_def demo_cfg_def)
qed

theorem sandbox_sound_witness:
  "resolveAndAuthorize demo_cfg demo_fs [] ''/r/../r/./f'' = Inr ''/r/f''
   \<and> (\<exists>p. ''/r/f'' = render p \<and> physical demo_fs p \<and> inside demo_cfg p)
   \<and> resolveAndAuthorizeForCreate demo_cfg demo_fs [] ''/r/out'' = Inl (KPermissionDenied, outside_message ''/s'')
   \<and> resolveAndAuthorizeForCreate demo_cfg demo_fs [] ''/r/./new//./sub/'' = Inr ''/r/new/sub''"
proof -
  have ok: "resolveAndAuthorize demo_cfg demo_fs [] ''/r/../r/./f'' = Inr ''/r/f''"
    "resolveAndAuthorizeForCreate demo_cfg demo_fs [] ''/r/out'' = Inl (KPermissionDenied, outside_message ''/s'')"
    "resolveAndAuthorizeForCreate demo_cfg demo_fs [] ''/r/./new//./sub/'' = Inr ''/r/new/sub''"
    by code_simp+
  have "\<exists>p. ''/r/f'' = render p \<and> physical demo_fs p \<and> inside demo_cfg p"
    using sandbox_sound [OF demo_roots demo_world, of "''/r/../r/./f''" "''/r/f''"] ok(1) by blast
  with ok show ?thesis by blast
qed

text \<open>
  The sandbox refuses nothing it should allow and its refusals say why: a path that resolves is
  granted exactly when the node it leads to is inside the roots, and the answer is its canonical name;
  otherwise the error is NOT_FOUND when it does not resolve and PERMISSION_DENIED when it leads outside.
\<close>

theorem sandbox_exact:
  assumes "roots_ok cfg" and "world_ok fs cwd"
  shows "resolveAndAuthorize cfg fs cwd s =
    (case realpath fs cwd (resolveRoot cfg s) of
       Inl e \<Rightarrow> Inl (KNotFound, ''could not resolve '' @ quoted s @ '': '' @ strerror e)
     | Inr p \<Rightarrow> if inside cfg p then Inr (render p)
               else Inl (KPermissionDenied, outside_message (render p)))"
proof (cases "realpath fs cwd (resolveRoot cfg s)")
  case (Inr p)
  have "good_path p" using realpath_physical [OF Inr] assms(2) by (auto simp: world_ok_def)
  moreover have "r \<in> set (g_allowedRoots cfg) \<Longrightarrow> \<exists>q. r = render q \<and> good_path q" for r
    using assms(1) by (auto simp: roots_ok_def)
  ultimately have "list_ex (isUnderRoot (render p)) (g_allowedRoots cfg) \<longleftrightarrow> inside cfg p"
    unfolding list_ex_iff inside_def by (metis isUnderRoot_render)
  with Inr show ?thesis by (simp add: resolveAndAuthorize_def Let_def)
qed (simp add: resolveAndAuthorize_def)

theorem sandbox_exact_witness:
  "resolveAndAuthorize demo_cfg demo_fs [] ''/r/f'' = Inr (render [''r'', ''f''])"
proof -
  have r: "realpath demo_fs [] (resolveRoot demo_cfg ''/r/f'') = Inr [''r'', ''f'']" by code_simp
  have "render [''r''] \<in> set (g_allowedRoots demo_cfg)" "good_path [''r'']"
    by (simp_all add: render_def good_name_def demo_cfg_def)
  then have "inside demo_cfg [''r'', ''f'']"
    unfolding inside_def by (intro exI [of _ "[''r'']"]) simp
  with r sandbox_exact [OF demo_roots demo_world, of "''/r/f''"] show ?thesis by simp
qed

end
