(* ===== verification/FsMeta.thy ===== *)
theory FsMeta
  imports Sandbox Codec
begin

text \<open>
  Looking at files: \<^verbatim>\<open>statJson\<close>, \<^verbatim>\<open>attributedEntry\<close>, \<^verbatim>\<open>fs.stat\<close>, \<^verbatim>\<open>fs.statBatch\<close> and \<^verbatim>\<open>fs.readFile\<close> of
  \<^verbatim>\<open>agent/main.cpp\<close>.
\<close>

section \<open>The host\<close>

text \<open>
  The file system the agent runs on, with what the model of trees leaves to the host: the size and
  time of a directory, a node's owner, and what \<^verbatim>\<open>access\<close> answers (\<open>R_OK\<close>, \<open>W_OK\<close>).
\<close>

record host =
  h_fs :: filesystem
  h_cwd :: path
  h_dirstat :: "path \<Rightarrow> int \<times> int"
  h_owner :: "path \<Rightarrow> int \<times> int"
  h_access :: "path \<Rightarrow> bool \<times> bool"

definition node_at :: "filesystem \<Rightarrow> path \<Rightarrow> node option" where
  "node_at fs p = (if p = [] then Some (Dir 493) else fs p)"

text \<open>\<^verbatim>\<open>stat\<close>: the node a name leads to, links followed.\<close>

definition stat_of :: "host \<Rightarrow> string \<Rightarrow> (path \<times> node) option" where
  "stat_of h s =
     (case realpath (h_fs h) (h_cwd h) s of
        Inl _ \<Rightarrow> None
      | Inr p \<Rightarrow> map_option (Pair p) (node_at (h_fs h) p))"

text \<open>
  The place a name denotes without following its last component: the directory before it is
  resolved, the last component is taken as it is. A name that ends in a slash, \<^verbatim>\<open>.\<close> or \<^verbatim>\<open>..\<close> has no
  such place of its own and is followed.
\<close>

definition slot_of :: "filesystem \<Rightarrow> path \<Rightarrow> string \<Rightarrow> errno + path" where
  "slot_of fs cwd s =
     (let t = c_str s; comps = split_on CHR ''/'' t; leaf = last comps;
          start = (if t \<noteq> [] \<and> hd t = CHR ''/'' then [] else cwd)
      in if leaf = [] \<or> leaf = ''.'' \<or> leaf = ''..'' then realpath fs cwd s
         else bindr (walk fs max_links start (butlast comps))
                (\<lambda>d. if dir_at fs d then Inr (d @ [leaf]) else Inl ENOTDIR))"

text \<open>\<^verbatim>\<open>lstat\<close>: the node at that place.\<close>

definition lstat_of :: "host \<Rightarrow> string \<Rightarrow> (path \<times> node) option" where
  "lstat_of h s =
     (case slot_of (h_fs h) (h_cwd h) s of
        Inl _ \<Rightarrow> None
      | Inr p \<Rightarrow> map_option (Pair p) (node_at (h_fs h) p))"

fun is_link :: "node \<Rightarrow> bool" where
  "is_link (Link _) = True"
| "is_link _ = False"

fun is_dir :: "node \<Rightarrow> bool" where
  "is_dir (Dir _) = True"
| "is_dir _ = False"

fun is_file :: "node \<Rightarrow> bool" where
  "is_file (File _ _ _) = True"
| "is_file _ = False"

fun link_target :: "node \<Rightarrow> string" where
  "link_target (Link t) = t"
| "link_target _ = []"

definition node_mtime :: "host \<Rightarrow> path \<Rightarrow> node \<Rightarrow> int" where
  "node_mtime h p n = (case n of File _ _ t \<Rightarrow> t | _ \<Rightarrow> snd (h_dirstat h p))"

definition node_size :: "host \<Rightarrow> path \<Rightarrow> node \<Rightarrow> int" where
  "node_size h p n = (case n of File b _ _ \<Rightarrow> int (length b) | _ \<Rightarrow> fst (h_dirstat h p))"

fun node_mode :: "node \<Rightarrow> int" where
  "node_mode (File _ m _) = m mod 4096"
| "node_mode (Dir m) = m mod 4096"
| "node_mode (Link _) = 511"

section \<open>Attributes\<close>

text \<open>\<^verbatim>\<open>statJson\<close>, with \<^verbatim>\<open>mtimeNanos\<close>. \<^verbatim>\<open>readlink\<close> fills a buffer of 4095 bytes.\<close>

definition statJson :: "host \<Rightarrow> string \<Rightarrow> json" where
  "statJson h s =
     (let lst = lstat_of h s; link = (case lst of Some (_, n) \<Rightarrow> is_link n | None \<Rightarrow> False);
          target = (case lst of Some (_, n) \<Rightarrow> take 4095 (link_target n) | None \<Rightarrow> [])
      in case stat_of h s of
           None \<Rightarrow>
             (if link then
                JObj [(''exists'', JBool True), (''isDir'', JBool False), (''isRegular'', JBool False),
                      (''isSymlink'', JBool True), (''symlinkTarget'', JStr target), (''size'', JInt 0),
                      (''mtime'', JInt 0), (''mode'', JInt (node_mode (snd (the lst)))),
                      (''readable'', JBool False), (''writable'', JBool False)]
              else JObj [(''exists'', JBool False)])
         | Some (p, n) \<Rightarrow>
             JObj [(''exists'', JBool True), (''isDir'', JBool (is_dir n)), (''isRegular'', JBool (is_file n)),
                   (''isSymlink'', JBool link), (''symlinkTarget'', JStr (if link then target else [])),
                   (''size'', JInt (node_size h p n)), (''mtime'', JInt (node_mtime h p n div 1000000000)),
                   (''mtimeNs'', JInt (node_mtime h p n)), (''mode'', JInt (node_mode n)),
                   (''uid'', JInt (fst (h_owner h p))), (''gid'', JInt (snd (h_owner h p))),
                   (''readable'', JBool (fst (h_access h p))), (''writable'', JBool (snd (h_access h p)))])"

definition entry_keys :: "string list" where
  "entry_keys = [''size'', ''mtime'', ''mtimeNs'', ''mode'', ''isSymlink'', ''symlinkTarget'', ''isRegular'',
     ''uid'', ''gid'', ''readable'', ''writable'']"

text \<open>\<^verbatim>\<open>realpath(child, real) != nullptr ? real : child\<close>.\<close>

definition real_or :: "host \<Rightarrow> string \<Rightarrow> string" where
  "real_or h s = (case realpath (h_fs h) (h_cwd h) s of Inr p \<Rightarrow> render p | Inl _ \<Rightarrow> s)"

definition bool_value :: "string \<Rightarrow> json \<Rightarrow> bool" where
  "bool_value k j = (bool_field k j = Some True)"

definition attributedEntry :: "host \<Rightarrow> string \<Rightarrow> string \<Rightarrow> json" where
  "attributedEntry h dir name =
     (let child = dir @ ''/'' @ name; st = statJson h child
      in if \<not> bool_value ''exists'' st
         then JObj [(''name'', JStr name), (''deleted'', JBool True)]
         else JObj ([(''name'', JStr name), (''isDir'', JBool (bool_value ''isDir'' st))]
                @ List.map_filter (\<lambda>k. map_option (Pair k) (jfind k st)) entry_keys
                @ [(''path'', JStr (real_or h child))]))"

section \<open>fs.stat and fs.statBatch\<close>

fun denial_reply :: "denial \<Rightarrow> reply" where
  "denial_reply (code, err) = Error code err"

definition handleFsStat :: "agent_config \<Rightarrow> host \<Rightarrow> json \<Rightarrow> reply" where
  "handleFsStat cfg h params =
     (case reqStr params ''path'' ''fs.stat'' of
        Inl r \<Rightarrow> r
      | Inr path \<Rightarrow>
          (case resolveAndAuthorizeNoFollow cfg (h_fs h) (h_cwd h) path of
             Inl (code, err) \<Rightarrow>
               (if code = KNotFound then Result (JObj [(''exists'', JBool False)]) else Error code err)
           | Inr canon \<Rightarrow> Result (jset ''path'' (JStr (real_or h canon)) (statJson h canon))))"

definition stat_one :: "agent_config \<Rightarrow> host \<Rightarrow> json \<Rightarrow> json" where
  "stat_one cfg h entry =
     (case jstring entry of
        None \<Rightarrow> JObj [(''exists'', JBool False), (''error'', JStr ''path is not a string'')]
      | Some s \<Rightarrow>
          (case resolveAndAuthorizeForCreate cfg (h_fs h) (h_cwd h) s of
             Inl (code, err) \<Rightarrow>
               JObj ((''exists'', JBool False)
                 # (if code = KPermissionDenied then [(''denied'', JBool True)] else []))
           | Inr canon \<Rightarrow> jset ''path'' (JStr canon) (statJson h canon)))"

definition handleFsStatBatch :: "agent_config \<Rightarrow> host \<Rightarrow> json \<Rightarrow> reply" where
  "handleFsStatBatch cfg h params =
     (case array_field ''paths'' params of
        None \<Rightarrow> Error KInvalidRequest (''fs.statBatch requires array param '' @ quoted ''paths'')
      | Some entries \<Rightarrow> Result (JObj [(''stats'', JArr (map (stat_one cfg h) entries))]))"

section \<open>fs.readFile\<close>

text \<open>
  \<^verbatim>\<open>j.value(k, dflt)\<close> on the attributes \<^verbatim>\<open>statJson\<close> made, for an integer field.
\<close>

definition int_value :: "string \<Rightarrow> json \<Rightarrow> int" where
  "int_value k j = (case int_field k j of Some i \<Rightarrow> i | None \<Rightarrow> 0)"

definition size_mtime_mode :: "json \<Rightarrow> (string \<times> json) list" where
  "size_mtime_mode st = map (\<lambda>k. (k, JInt (int_value k st))) [''size'', ''mtime'', ''mtimeNs'', ''mode'']"

text \<open>
  \<^verbatim>\<open>GRCError\<close> of the core with \<^verbatim>\<open>grcErrName\<close>, and \<^verbatim>\<open>grc_fs_read_file\<close>: regular files only.
\<close>

datatype grc_error =
    GrcInvalidArgument | GrcNoLanguageServer | GrcConnectionFailed | GrcTimeout | GrcLspError
  | GrcNotInitialized | GrcAllocationFailed | GrcDatabaseError

fun grcErrName :: "grc_error \<Rightarrow> string" where
  "grcErrName GrcInvalidArgument = ''INVALID_ARGUMENT''"
| "grcErrName GrcNoLanguageServer = ''NO_LANGUAGE_SERVER''"
| "grcErrName GrcConnectionFailed = ''CONNECTION_FAILED''"
| "grcErrName GrcTimeout = ''TIMEOUT''"
| "grcErrName GrcLspError = ''LSP_ERROR''"
| "grcErrName GrcNotInitialized = ''NOT_INITIALIZED''"
| "grcErrName GrcAllocationFailed = ''ALLOCATION_FAILED''"
| "grcErrName GrcDatabaseError = ''DATABASE_ERROR''"

definition grc_fs_read_file :: "host \<Rightarrow> string \<Rightarrow> grc_error + string" where
  "grc_fs_read_file h s =
     (case stat_of h s of
        Some (p, File b _ _) \<Rightarrow> if fst (h_access h p) then Inr b else Inl GrcConnectionFailed
      | _ \<Rightarrow> Inl GrcConnectionFailed)"

definition too_large :: "host \<Rightarrow> string \<Rightarrow> json \<Rightarrow> json option" where
  "too_large h canon params =
     (case (int_field ''maxBytes'' params, stat_of h canon) of
        (Some limit, Some (p, n)) \<Rightarrow>
          (if is_file n \<and> to_int64 limit < node_size h p n
           then Some (JObj [(''tooLarge'', JBool True), (''size'', JInt (node_size h p n)),
                            (''mtime'', JInt (node_mtime h p n div 1000000000)),
                            (''mtimeNs'', JInt (node_mtime h p n)), (''mode'', JInt (node_mode n))])
           else None)
      | _ \<Rightarrow> None)"

definition throwing :: "json_exn + 'a \<Rightarrow> reply + 'a" where
  "throwing x = (case x of Inl e \<Rightarrow> Inl (Throws e) | Inr a \<Rightarrow> Inr a)"

definition either_reply :: "reply + reply \<Rightarrow> reply" where
  "either_reply x = (case x of Inl r \<Rightarrow> r | Inr r \<Rightarrow> r)"

definition read_reply :: "host \<Rightarrow> string \<Rightarrow> string \<Rightarrow> json \<Rightarrow> reply + reply" where
  "read_reply h canon content params =
     bindr (throwing (value_bool ''base64'' False params)) (\<lambda>b64.
     bindr (throwing (value_bool ''stat'' False params)) (\<lambda>wantStat.
       Inr (Result (JObj
         ((if b64 then (''contentBase64'', JStr (base64Encode content)) else (''content'', JStr content))
          # (if wantStat then size_mtime_mode (statJson h canon) else []))))))"

definition handleFsReadFile :: "agent_config \<Rightarrow> host \<Rightarrow> json \<Rightarrow> reply" where
  "handleFsReadFile cfg h params =
     (case reqStr params ''path'' ''fs.readFile'' of
        Inl r \<Rightarrow> r
      | Inr path \<Rightarrow>
          (case resolveAndAuthorize cfg (h_fs h) (h_cwd h) path of
             Inl d \<Rightarrow> denial_reply d
           | Inr canon \<Rightarrow>
               (case too_large h canon params of
                  Some j \<Rightarrow> Result j
                | None \<Rightarrow>
                    (case grc_fs_read_file h canon of
                       Inl e \<Rightarrow>
                         Error (if e = GrcInvalidArgument then KInvalidRequest else KNotFound)
                           (''could not read '' @ quoted canon @ '': '' @ grcErrName e)
                     | Inr content \<Rightarrow> either_reply (read_reply h canon content params)))))"

section \<open>What a read shows\<close>

lemma split_on_render:
  assumes "good_path p" and "p \<noteq> []"
  shows "split_on CHR ''/'' (render p) = [] # p"
proof -
  have "good_path q \<Longrightarrow> CHR ''/'' \<notin> set c \<Longrightarrow>
      split_on CHR ''/'' (c @ concat (map (\<lambda>c. CHR ''/'' # c) q)) = c # q" for c q
    by (induction q arbitrary: c) (auto simp: split_on_no_sep split_on_append good_name_def)
  from this [of p "[]"] assms show ?thesis by (simp add: render_def)
qed

lemma render_no_nul: "good_path p \<Longrightarrow> CHR 0x00 \<notin> set (render p)"
  by (auto simp: render_def good_path_def good_name_def list_all_iff)

lemma walk_physical_id:
  assumes "physical fs (cur @ p)" and "good_path p"
  shows "walk fs n cur p = Inr (cur @ p)"
  using assms
proof (induction p arbitrary: cur)
  case (Cons c p)
  have g: "c \<noteq> []" "c \<noteq> ''.''" "c \<noteq> ''..''" using Cons.prems by (auto simp: good_name_def)
  show ?case
  proof (cases "p = []")
    case True
    with Cons.prems g show ?thesis
      by (auto simp: physical_def dir_at_def split: option.splits node.splits)
  next
    case False
    have "dir_at fs (take (Suc (length cur)) (cur @ c # p))"
    proof -
      have "\<forall>i < length (cur @ c # p). dir_at fs (take i (cur @ c # p))"
        using Cons.prems(1) unfolding physical_def by blast
      moreover have "Suc (length cur) < length (cur @ c # p)" using False by simp
      ultimately show ?thesis by blast
    qed
    then obtain m where "fs (cur @ [c]) = Some (Dir m)"
      by (auto simp: dir_at_def split: option.splits node.splits)
    with Cons.IH [of "cur @ [c]"] Cons.prems g show ?thesis by simp
  qed
qed simp

text \<open>A canonical name resolves to the node it names: what was authorized is what is opened.\<close>

lemma realpath_render:
  assumes "physical fs p" and "good_path p"
  shows "realpath fs cwd (render p) = Inr p"
proof (cases "p = []")
  case True
  then show ?thesis by (simp add: realpath_def render_def c_str_def)
next
  case False
  then show ?thesis
    using walk_physical_id [of fs "[]" p max_links] assms
    by (simp add: realpath_def Let_def c_str_id [OF render_no_nul] split_on_render)
qed

lemma stat_of_render:
  "physical (h_fs h) p \<Longrightarrow> good_path p \<Longrightarrow> stat_of h (render p) = map_option (Pair p) (node_at (h_fs h) p)"
  by (simp add: stat_of_def realpath_render)

lemma read_reply_content:
  "read_reply h canon content params = Inr (Result (JObj kvs)) \<Longrightarrow>
     map_of kvs ''content'' = Some (JStr content)
     \<or> map_of kvs ''contentBase64'' = Some (JStr (base64Encode content))"
  by (auto simp: read_reply_def bindr_Inr throwing_def split: sum.splits if_splits)

text \<open>
  What \<^verbatim>\<open>fs.readFile\<close> returns is the content of a file inside the roots, byte for byte: a reply with
  content means that the request led, with no link left to follow, to a regular file below an allowed
  root, and the text (or what its base64 decodes to) is exactly that file's bytes.
\<close>

theorem readFile_inside:
  assumes "roots_ok cfg" and "world_ok (h_fs h) (h_cwd h)"
    and "handleFsReadFile cfg h params = Result (JObj kvs)" and "map_of kvs ''tooLarge'' = None"
  shows "\<exists>p b m t. physical (h_fs h) p \<and> inside cfg p \<and> h_fs h p = Some (File b m t)
    \<and> (map_of kvs ''content'' = Some (JStr b)
       \<or> (\<exists>e. map_of kvs ''contentBase64'' = Some (JStr e) \<and> base64Decode e = Some b))"
proof -
  obtain path canon where pc: "reqStr params ''path'' ''fs.readFile'' = Inr path"
    "resolveAndAuthorize cfg (h_fs h) (h_cwd h) path = Inr canon"
    using assms(3) by (auto simp: handleFsReadFile_def split: sum.splits dest: reqStr_Inl elim: denial_reply.elims)
  have nl: "too_large h canon params = None"
    using assms(3,4) pc by (auto simp: handleFsReadFile_def too_large_def split: option.splits prod.splits if_splits)
  obtain content where c: "grc_fs_read_file h canon = Inr content"
    "either_reply (read_reply h canon content params) = Result (JObj kvs)"
    using assms(3) pc nl by (auto simp: handleFsReadFile_def split: sum.splits if_splits)
  have "read_reply h canon content params = Inr (Result (JObj kvs))"
    using c(2) by (auto simp: read_reply_def bindr_def throwing_def either_reply_def split: sum.splits)
  note rc = read_reply_content [OF this]
  obtain p where p: "canon = render p" "physical (h_fs h) p" "good_path p" "inside cfg p"
    using resolveAndAuthorize_inside [OF pc(2) assms(1,2)] by blast
  obtain b m t where n: "node_at (h_fs h) p = Some (File b m t)" "content = b"
    using c(1) p by (auto simp: grc_fs_read_file_def stat_of_render split: option.splits node.splits if_splits)
  then have "h_fs h p = Some (File b m t)" by (auto simp: node_at_def split: if_splits)
  moreover have "map_of kvs ''content'' = Some (JStr b)
       \<or> (\<exists>e. map_of kvs ''contentBase64'' = Some (JStr e) \<and> base64Decode e = Some b)"
    using rc n(2) b64.dec_enc by blast
  ultimately show ?thesis using p by blast
qed

definition demo_host :: host where
  "demo_host = \<lparr>h_fs = demo_fs, h_cwd = [], h_dirstat = (\<lambda>_. (4096, 0)), h_owner = (\<lambda>_. (1, 1)),
     h_access = (\<lambda>_. (True, True))\<rparr>"

theorem readFile_inside_witness:
  "\<exists>p b m t. physical demo_fs p \<and> inside demo_cfg p \<and> demo_fs p = Some (File b m t) \<and> b = ''data''"
proof -
  have r: "handleFsReadFile demo_cfg demo_host (JObj [(''path'', JStr ''/r/f''), (''base64'', JBool True)])
      = Result (JObj [(''contentBase64'', JStr ''ZGF0YQ=='')])"
    by code_simp
  have "base64Decode ''ZGF0YQ=='' = Some ''data''" by code_simp
  with readFile_inside [OF demo_roots _ r] demo_world show ?thesis
    by (simp add: demo_host_def)
qed

end
