(* ===== verification/FsWrite.thy ===== *)
theory FsWrite
  imports FsMeta
begin

text \<open>
  Changing files: the system calls and \<^verbatim>\<open>std::filesystem\<close> functions the agent uses, as functions on the
  tree, and the handlers \<^verbatim>\<open>fs.writeFile\<close>, \<^verbatim>\<open>fs.mkdir\<close>, \<^verbatim>\<open>fs.delete\<close>, \<^verbatim>\<open>fs.rename\<close>, \<^verbatim>\<open>fs.copy\<close> and
  \<^verbatim>\<open>fs.chmod\<close> of \<^verbatim>\<open>agent/main.cpp\<close>.
\<close>

section \<open>System calls\<close>

definition exists_at :: "filesystem \<Rightarrow> path \<Rightarrow> bool" where
  "exists_at fs p \<longleftrightarrow> p = [] \<or> fs p \<noteq> None"

text \<open>\<^verbatim>\<open>open(s, O_WRONLY | O_CREAT | O_EXCL, mode)\<close>: a new empty file, never through a link.\<close>

definition create_excl :: "filesystem \<Rightarrow> path \<Rightarrow> string \<Rightarrow> int \<Rightarrow> int \<Rightarrow> errno + (path \<times> filesystem)" where
  "create_excl fs cwd s mode now =
     bindr (slot_of fs cwd s) (\<lambda>p.
       if exists_at fs p then Inl EEXIST else Inr (p, fs(p \<mapsto> File [] mode now)))"

definition unlink_at :: "filesystem \<Rightarrow> path \<Rightarrow> filesystem" where
  "unlink_at fs p = fs(p := None)"

text \<open>\<^verbatim>\<open>rename(2)\<close>: the subtree at \<open>p\<close> moves to \<open>q\<close>, replacing a file or an empty directory there.\<close>

definition empty_dir :: "filesystem \<Rightarrow> path list \<Rightarrow> path \<Rightarrow> bool" where
  "empty_dir fs names p \<longleftrightarrow> list_all (\<lambda>r. \<not> (strict_prefix p r \<and> fs r \<noteq> None)) names"

definition move_tree :: "filesystem \<Rightarrow> path \<Rightarrow> path \<Rightarrow> filesystem" where
  "move_tree fs p q =
     (\<lambda>r. if prefix q r then fs (p @ drop (length q) r) else if prefix p r then None else fs r)"

definition rename_at :: "filesystem \<Rightarrow> path list \<Rightarrow> path \<Rightarrow> path \<Rightarrow> errno + filesystem" where
  "rename_at fs names p q =
     (if p = q then Inr fs
      else if p = [] \<or> q = [] \<or> prefix p q then Inl EINVAL
      else case fs p of
        None \<Rightarrow> Inl ENOENT
      | Some n \<Rightarrow>
          (case fs q of
             None \<Rightarrow> Inr (move_tree fs p q)
           | Some (Dir _) \<Rightarrow> if \<not> is_dir n then Inl EISDIR
                            else if \<not> empty_dir fs names q then Inl ENOTEMPTY
                            else Inr (move_tree fs p q)
           | Some _ \<Rightarrow> if is_dir n then Inl ENOTDIR else Inr (move_tree fs p q)))"

section \<open>std::filesystem\<close>

text \<open>
  \<^verbatim>\<open>create_directory(s, ec)\<close>: a directory already there is no error. A new one gets \<open>mode\<close>, which is
  0755 under the usual mask, or the mode of the directory being copied.
\<close>

definition status_at :: "filesystem \<Rightarrow> path \<Rightarrow> string \<Rightarrow> node option" where
  "status_at fs cwd s = (case realpath fs cwd s of Inr p \<Rightarrow> node_at fs p | Inl _ \<Rightarrow> None)"

definition is_directory_at :: "filesystem \<Rightarrow> path \<Rightarrow> string \<Rightarrow> bool" where
  "is_directory_at fs cwd s = (case status_at fs cwd s of Some n \<Rightarrow> is_dir n | None \<Rightarrow> False)"

definition create_directory :: "filesystem \<Rightarrow> path \<Rightarrow> string \<Rightarrow> int \<Rightarrow> errno option \<times> filesystem" where
  "create_directory fs cwd s mode =
     (case slot_of fs cwd s of
        Inl e \<Rightarrow> (Some e, fs)
      | Inr p \<Rightarrow>
          if exists_at fs p
          then (if is_directory_at fs cwd s then (None, fs) else (Some EEXIST, fs))
          else (None, fs(p \<mapsto> Dir mode)))"

text \<open>\<^verbatim>\<open>create_directories(s, ec)\<close>: every missing level in turn; it stops at the first error.\<close>

fun make_levels :: "path \<Rightarrow> path \<Rightarrow> string list \<Rightarrow> filesystem \<Rightarrow> errno option \<times> filesystem" where
  "make_levels cwd done [] fs = (None, fs)"
| "make_levels cwd done (c # cs) fs =
     (let here = render (done @ [c])
      in case status_at fs cwd here of
           Some n \<Rightarrow> if is_dir n then make_levels cwd (done @ [c]) cs fs else (Some ENOTDIR, fs)
         | None \<Rightarrow>
             (case create_directory fs cwd here 493 of
                (Some e, fs') \<Rightarrow> (Some e, fs')
              | (None, fs') \<Rightarrow> make_levels cwd (done @ [c]) cs fs'))"

definition create_directories :: "filesystem \<Rightarrow> path \<Rightarrow> string \<Rightarrow> errno option \<times> filesystem" where
  "create_directories fs cwd s =
     make_levels cwd [] (filter (\<lambda>c. c \<noteq> []) (split_on CHR ''/'' (c_str s))) fs"

section \<open>The state a write handler works on\<close>

text \<open>
  The host, the names its tree may hold (so that directories can be listed), the process id and
  counter the temporary names are made from, the time new files get, and how often \<^verbatim>\<open>fsBarrier\<close>
  was called.
\<close>

record fs_state =
  st_host :: host
  st_names :: "path list"
  st_pid :: nat
  st_writeSeq :: nat
  st_now :: int
  st_barriers :: nat

definition st_fs :: "fs_state \<Rightarrow> filesystem" where
  "st_fs st = h_fs (st_host st)"

definition set_fs :: "filesystem \<Rightarrow> fs_state \<Rightarrow> fs_state" where
  "set_fs fs st = st\<lparr>st_host := (st_host st)\<lparr>h_fs := fs\<rparr>\<rparr>"

definition fsBarrier :: "fs_state \<Rightarrow> fs_state" where
  "fsBarrier st = st\<lparr>st_barriers := Suc (st_barriers st)\<rparr>"

text \<open>\<^verbatim>\<open>writesPermitted\<close>: the refusal of a read-only agent.\<close>

definition writesPermitted :: "agent_config \<Rightarrow> string \<Rightarrow> reply + unit" where
  "writesPermitted cfg m =
     (if g_allowWrite cfg then Inr ()
      else Inl (Error KPermissionDenied (m @ '' is disabled; this agent is read-only ''
        @ ''(start it with --allow-write to enable the fs write surface)'')))"

definition denied :: "denial + 'a \<Rightarrow> reply + 'a" where
  "denied x = (case x of Inl d \<Rightarrow> Inl (denial_reply d) | Inr a \<Rightarrow> Inr a)"

lemma denied_Inr [simp]: "denied x = Inr a \<longleftrightarrow> x = Inr a"
  by (simp add: denied_def split: sum.splits)

section \<open>fs.writeFile\<close>

text \<open>The request: the path, and the bytes from \<^verbatim>\<open>contentBase64\<close> or \<^verbatim>\<open>content\<close>.\<close>

definition write_bytes :: "json \<Rightarrow> reply + string" where
  "write_bytes params =
     (case str_field ''contentBase64'' params of
        Some e \<Rightarrow>
          (case base64Decode e of
             None \<Rightarrow> Inl (Error KInvalidRequest (''fs.writeFile '' @ quoted ''contentBase64'' @ '' is not valid base64''))
           | Some b \<Rightarrow> Inr b)
      | None \<Rightarrow>
          (case str_field ''content'' params of
             Some b \<Rightarrow> Inr b
           | None \<Rightarrow> Inl (Error KInvalidRequest (''fs.writeFile requires string param '' @ quoted ''content''
                             @ '' or '' @ quoted ''contentBase64''))))"

definition write_request :: "agent_config \<Rightarrow> fs_state \<Rightarrow> json \<Rightarrow> reply + (string \<times> string \<times> bool)" where
  "write_request cfg st params =
     bindr (writesPermitted cfg ''fs.writeFile'') (\<lambda>_.
     bindr (reqStr params ''path'' ''fs.writeFile'') (\<lambda>path.
     bindr (write_bytes params) (\<lambda>bytes.
     bindr (denied (resolveAndAuthorizeForCreate cfg (st_fs st) (h_cwd (st_host st)) path)) (\<lambda>canon.
     bindr (throwing (value_bool ''createDirs'' False params)) (\<lambda>createDirs.
       Inr (bytes, canon, createDirs))))))"

text \<open>
  What the kernel does with the temporary file: \<open>io_write k\<close> is what \<^verbatim>\<open>write\<close> returns once \<open>k\<close> bytes
  are out, \<open>io_fsync\<close> whether the data is durable, \<open>io_errno\<close> the text when one of them fails.
\<close>

record io_outcome =
  io_write :: "nat \<Rightarrow> int"
  io_fsync :: bool
  io_errno :: string

text \<open>The write loop: how many bytes went out, and whether it failed, with every length on the way.\<close>

function write_loop :: "(nat \<Rightarrow> int) \<Rightarrow> nat \<Rightarrow> nat \<Rightarrow> nat list \<times> bool" where
  "write_loop w len written =
     (if len \<le> written then ([], False)
      else (let n = w written
            in if n \<le> 0 then ([], True)
               else (let written' = written + min (nat n) (len - written)
                     in apfst ((#) written') (write_loop w len written'))))"
  by pat_completeness auto
termination
  by (relation "measure (\<lambda>(_, len, written). len - written)") auto

declare write_loop.simps [simp del]

definition tmp_name :: "string \<Rightarrow> fs_state \<Rightarrow> string" where
  "tmp_name dir st =
     dir @ ''/.scrutiny-write-'' @ nat_text (st_pid st) @ ''-'' @ nat_text (Suc (st_writeSeq st))"

text \<open>The mode the new file gets: an explicit one, else the existing file's, else 0644.\<close>

definition write_mode :: "json \<Rightarrow> node option \<Rightarrow> int" where
  "write_mode params existing =
     (case int_field ''mode'' params of
        Some m \<Rightarrow> to_int32 m mod 4096
      | None \<Rightarrow> (case existing of Some n \<Rightarrow> node_mode n | None \<Rightarrow> 420))"

definition conflict_reply :: "host \<Rightarrow> string \<Rightarrow> bool \<Rightarrow> reply" where
  "conflict_reply h canon existed =
     (let cur = (if existed then statJson h canon else JObj [(''exists'', JBool False)])
      in Result (JObj ([(''ok'', JBool False), (''conflict'', JBool True), (''exists'', JBool existed)]
           @ map (\<lambda>k. (k, JInt (int_value k cur))) [''size'', ''mtime'', ''mtimeNs''])))"

definition installed_reply :: "host \<Rightarrow> string \<Rightarrow> reply" where
  "installed_reply h canon =
     Result (JObj ((''ok'', JBool True) # size_mtime_mode (statJson h canon)
       @ [(''entry'', attributedEntry h (before_last CHR ''/'' canon) (after_last CHR ''/'' canon))]))"

text \<open>
  Everything after the temporary file was created at \<open>tmp\<close> in \<open>fs\<close>: the reply, the resulting tree, and
  the trees in between, one for each system call that changes something.
\<close>

definition write_install ::
  "io_outcome \<Rightarrow> fs_state \<Rightarrow> json \<Rightarrow> string \<Rightarrow> string \<Rightarrow> path \<Rightarrow> filesystem \<Rightarrow> reply \<times> filesystem \<times> filesystem list" where
  "write_install io st params bytes canon tmp fs =
     (let now = st_now st; cwd = h_cwd (st_host st);
          (lens, wfailed) = write_loop (io_write io) (length bytes) 0;
          growing = map (\<lambda>k. fs(tmp \<mapsto> File (take k bytes) 384 now)) lens;
          fs1 = fs(tmp \<mapsto> File (if lens = [] then [] else take (last lens) bytes) 384 now);
          failed = (wfailed \<or> \<not> io_fsync io)
      in if failed
         then (Error KInternal (''write to '' @ quoted canon @ '' failed: '' @ io_errno io),
               unlink_at fs1 tmp, growing)
         else (let h1 = (st_host st)\<lparr>h_fs := fs1\<rparr>;
                   existing = map_option snd (stat_of h1 canon);
                   actual = (case stat_of h1 canon of Some (p, n) \<Rightarrow> node_mtime h1 p n | None \<Rightarrow> 0)
               in if (case int_field ''ifMtimeNs'' params of
                        Some i \<Rightarrow> to_int64 i \<noteq> actual | None \<Rightarrow> False)
                  then (conflict_reply ((st_host st)\<lparr>h_fs := unlink_at fs1 tmp\<rparr>) canon (existing \<noteq> None),
                        unlink_at fs1 tmp, growing)
                  else (let fs2 = fs1(tmp \<mapsto> File bytes (write_mode params existing) now)
                        in case slot_of fs2 cwd canon of
                             Inl e \<Rightarrow> (Error KInternal (''could not install '' @ quoted canon @ '': '' @ strerror e),
                                      unlink_at fs2 tmp, growing @ [fs2])
                           | Inr target \<Rightarrow>
                               (case rename_at fs2 (st_names st) tmp target of
                                  Inl e \<Rightarrow> (Error KInternal (''could not install '' @ quoted canon @ '': '' @ strerror e),
                                           unlink_at fs2 tmp, growing @ [fs2])
                                | Inr fs3 \<Rightarrow> (installed_reply ((st_host st)\<lparr>h_fs := fs3\<rparr>) canon,
                                             fs3, growing @ [fs2, fs3])))))"

definition handleFsWriteFile ::
  "agent_config \<Rightarrow> io_outcome \<Rightarrow> fs_state \<Rightarrow> json \<Rightarrow> reply \<times> fs_state \<times> filesystem list" where
  "handleFsWriteFile cfg io st params =
     (case write_request cfg st params of
        Inl r \<Rightarrow> (r, st, [])
      | Inr (bytes, canon, createDirs) \<Rightarrow>
          (let dir = before_last CHR ''/'' canon; cwd = h_cwd (st_host st);
               fs0 = (if createDirs then snd (create_directories (st_fs st) cwd dir) else st_fs st);
               tmp = tmp_name dir st;
               st1 = (set_fs fs0 st)\<lparr>st_writeSeq := Suc (st_writeSeq st)\<rparr>
           in case create_excl fs0 cwd tmp 384 (st_now st) of
                Inl e \<Rightarrow> (Error KInternal (''could not create '' @ quoted tmp @ '': '' @ strerror e), st1, [fs0])
              | Inr (tmp_path, fs1) \<Rightarrow>
                  (let (r, fs2, trace) = write_install io st1 params bytes canon tmp_path fs1;
                       st2 = set_fs fs2 st1
                   in (r, if (case r of Result j \<Rightarrow> jfind ''conflict'' j = None | _ \<Rightarrow> False) then fsBarrier st2 else st2,
                       fs0 # fs1 # trace @ [fs2]))))"

section \<open>The other write handlers\<close>

text \<open>A handler's change as the state afterwards: the tree, and the barrier before the reply.\<close>

definition changed :: "fs_state \<Rightarrow> filesystem \<Rightarrow> reply \<times> fs_state" where
  "changed st fs = (ok_reply, fsBarrier (set_fs fs st))"

definition handleFsMkdir :: "agent_config \<Rightarrow> fs_state \<Rightarrow> json \<Rightarrow> reply \<times> fs_state" where
  "handleFsMkdir cfg st params =
     (let cwd = h_cwd (st_host st)
      in case bindr (writesPermitted cfg ''fs.mkdir'') (\<lambda>_.
              bindr (reqStr params ''path'' ''fs.mkdir'') (\<lambda>path.
              bindr (denied (resolveAndAuthorizeForCreate cfg (st_fs st) cwd path)) (\<lambda>canon.
              bindr (throwing (value_bool ''parents'' False params)) (\<lambda>parents. Inr (canon, parents))))) of
           Inl r \<Rightarrow> (r, st)
         | Inr (canon, parents) \<Rightarrow>
             (let (ec, fs) = (if parents then create_directories (st_fs st) cwd canon
                              else create_directory (st_fs st) cwd canon 493)
              in case ec of
                   Some e \<Rightarrow>
                     if is_directory_at fs cwd canon then changed st fs
                     else (Error KInternal (''could not create '' @ quoted canon @ '': '' @ strerror e), set_fs fs st)
                 | None \<Rightarrow> changed st fs))"

text \<open>
  \<^verbatim>\<open>remove_all\<close> takes the whole subtree (links in it are removed, not followed), \<^verbatim>\<open>remove\<close> one node, which
  fails on a directory that is not empty. \<open>canon\<close> is physical here, so it names the node itself.
\<close>

definition remove_tree :: "filesystem \<Rightarrow> path \<Rightarrow> filesystem" where
  "remove_tree fs p = (\<lambda>r. if prefix p r then None else fs r)"

definition subtree_size :: "filesystem \<Rightarrow> path list \<Rightarrow> path \<Rightarrow> nat" where
  "subtree_size fs names p = length (filter (\<lambda>r. prefix p r \<and> fs r \<noteq> None) (remdups names))"

definition delete_request :: "agent_config \<Rightarrow> fs_state \<Rightarrow> json \<Rightarrow> reply + (string \<times> bool)" where
  "delete_request cfg st params =
     bindr (writesPermitted cfg ''fs.delete'') (\<lambda>_.
     bindr (reqStr params ''path'' ''fs.delete'') (\<lambda>path.
     bindr (denied (resolveAndAuthorize cfg (st_fs st) (h_cwd (st_host st)) path)) (\<lambda>canon.
     bindr (throwing (value_bool ''recursive'' False params)) (\<lambda>recursive. Inr (canon, recursive)))))"

definition handleFsDelete :: "agent_config \<Rightarrow> fs_state \<Rightarrow> json \<Rightarrow> reply \<times> fs_state" where
  "handleFsDelete cfg st params =
     (case delete_request cfg st params of
        Inl r \<Rightarrow> (r, st)
      | Inr (canon, recursive) \<Rightarrow>
          (case slot_of (st_fs st) (h_cwd (st_host st)) canon of
             Inl e \<Rightarrow> (Error KInternal (''could not delete '' @ quoted canon @ '': '' @ strerror e), st)
           | Inr p \<Rightarrow>
               (let gone = (\<lambda>n fs. (Result (JObj [(''ok'', JBool True), (''removed'', JInt (int n))]),
                                   fsBarrier (set_fs fs st)))
                in if recursive then gone (subtree_size (st_fs st) (st_names st) p) (remove_tree (st_fs st) p)
                   else if \<not> empty_dir (st_fs st) (st_names st) p
                   then (Error KInternal (''could not delete '' @ quoted canon @ '': '' @ strerror ENOTEMPTY), st)
                   else gone 1 (unlink_at (st_fs st) p))))"

definition handleFsRename :: "agent_config \<Rightarrow> fs_state \<Rightarrow> json \<Rightarrow> reply \<times> fs_state" where
  "handleFsRename cfg st params =
     (let cwd = h_cwd (st_host st); fs = st_fs st
      in case bindr (writesPermitted cfg ''fs.rename'') (\<lambda>_.
              bindr (reqStr params ''from'' ''fs.rename'') (\<lambda>from.
              bindr (reqStr params ''to'' ''fs.rename'') (\<lambda>to.
              bindr (denied (resolveAndAuthorize cfg fs cwd from)) (\<lambda>canonFrom.
              bindr (denied (resolveAndAuthorizeForCreate cfg fs cwd to)) (\<lambda>canonTo.
                Inr (canonFrom, canonTo)))))) of
           Inl r \<Rightarrow> (r, st)
         | Inr (canonFrom, canonTo) \<Rightarrow>
             (case bindr (slot_of fs cwd canonFrom) (\<lambda>p. bindr (slot_of fs cwd canonTo) (\<lambda>q.
                     rename_at fs (st_names st) p q)) of
                Inl e \<Rightarrow> (Error KInternal (''could not rename '' @ quoted canonFrom @ '' to ''
                              @ quoted canonTo @ '': '' @ strerror e), st)
              | Inr fs' \<Rightarrow> changed st fs'))"

definition chmod_node :: "node \<Rightarrow> int \<Rightarrow> node" where
  "chmod_node n m = (case n of File b _ t \<Rightarrow> File b m t | Dir _ \<Rightarrow> Dir m | Link t \<Rightarrow> Link t)"

definition chmod_request :: "agent_config \<Rightarrow> fs_state \<Rightarrow> json \<Rightarrow> reply + (string \<times> int)" where
  "chmod_request cfg st params =
     bindr (writesPermitted cfg ''fs.chmod'') (\<lambda>_.
     bindr (reqStr params ''path'' ''fs.chmod'') (\<lambda>path.
     bindr (case int_field ''mode'' params of
              None \<Rightarrow> Inl (Error KInvalidRequest (''fs.chmod requires int param '' @ quoted ''mode''))
            | Some m \<Rightarrow> Inr (to_int32 m mod 4096)) (\<lambda>m.
     bindr (denied (resolveAndAuthorize cfg (st_fs st) (h_cwd (st_host st)) path)) (\<lambda>canon.
       Inr (canon, m)))))"

definition handleFsChmod :: "agent_config \<Rightarrow> fs_state \<Rightarrow> json \<Rightarrow> reply \<times> fs_state" where
  "handleFsChmod cfg st params =
     (case chmod_request cfg st params of
        Inl r \<Rightarrow> (r, st)
      | Inr (canon, m) \<Rightarrow>
          (case realpath (st_fs st) (h_cwd (st_host st)) canon of
             Inl e \<Rightarrow> (Error KInternal (''could not chmod '' @ quoted canon @ '': '' @ strerror e), st)
           | Inr p \<Rightarrow> changed st
               (case st_fs st p of None \<Rightarrow> st_fs st | Some n \<Rightarrow> (st_fs st)(p \<mapsto> chmod_node n m))))"

section \<open>fs.copy\<close>

text \<open>
  \<^verbatim>\<open>std::filesystem::copy\<close> as the library does it, for the options the agent passes: statuses follow
  links on both sides, a regular file is opened for writing with \<^verbatim>\<open>O_CREAT\<close> (and \<^verbatim>\<open>O_EXCL\<close> unless
  overwriting), a directory is copied entry by entry. \<open>fuel\<close> bounds the depth of directories.
\<close>

text \<open>Where an \<^verbatim>\<open>open\<close> with \<^verbatim>\<open>O_CREAT\<close> and without \<^verbatim>\<open>O_EXCL\<close> lands: a link at the end is followed.\<close>

fun open_create :: "filesystem \<Rightarrow> path \<Rightarrow> nat \<Rightarrow> string \<Rightarrow> errno + path" where
  "open_create fs cwd 0 s = Inl ELOOP"
| "open_create fs cwd (Suc n) s =
     bindr (slot_of fs cwd s) (\<lambda>p.
       case fs p of
         Some (Link t) \<Rightarrow> open_create fs (butlast p) n t
       | Some (Dir _) \<Rightarrow> Inl EISDIR
       | _ \<Rightarrow> Inr p)"

definition copy_file ::
  "filesystem \<Rightarrow> path \<Rightarrow> bool \<Rightarrow> int \<Rightarrow> string \<Rightarrow> string \<Rightarrow> errno option \<times> filesystem" where
  "copy_file fs cwd overwrite now from to =
     (case (realpath fs cwd from, status_at fs cwd from) of
        (Inr p, Some (File b m _)) \<Rightarrow>
          (case (case status_at fs cwd to of
                   Some n \<Rightarrow>
                     if \<not> is_file n \<or> realpath fs cwd to = Inr p \<or> \<not> overwrite then Inl EEXIST
                     else realpath fs cwd to
                 | None \<Rightarrow>
                     if overwrite then open_create fs cwd max_links to
                     else bindr (slot_of fs cwd to) (\<lambda>q. if exists_at fs q then Inl EEXIST else Inr q)) of
             Inl e \<Rightarrow> (Some e, fs)
           | Inr q \<Rightarrow> (None, fs(q \<mapsto> File b m now)))
      | _ \<Rightarrow> (Some EINVAL, fs))"

definition child_names :: "filesystem \<Rightarrow> path list \<Rightarrow> path \<Rightarrow> string list" where
  "child_names fs names p =
     map last (filter (\<lambda>r. r \<noteq> [] \<and> butlast r = p \<and> fs r \<noteq> None) (remdups names))"

fun copy_tree ::
  "nat \<Rightarrow> path list \<Rightarrow> path \<Rightarrow> bool \<Rightarrow> int \<Rightarrow> string \<Rightarrow> string \<Rightarrow> filesystem \<Rightarrow> errno option \<times> filesystem" where
  "copy_tree 0 names cwd overwrite now from to fs = (Some ELOOP, fs)"
| "copy_tree (Suc fuel) names cwd overwrite now from to fs =
     (case status_at fs cwd from of
        None \<Rightarrow> (Some ENOENT, fs)
      | Some (File _ _ _) \<Rightarrow>
          copy_file fs cwd overwrite now from
            (if is_directory_at fs cwd to then to @ ''/'' @ after_last CHR ''/'' from else to)
      | Some (Link _) \<Rightarrow> (Some EINVAL, fs)
      | Some (Dir m) \<Rightarrow>
          (if (case status_at fs cwd to of Some n \<Rightarrow> is_file n | None \<Rightarrow> False) then (Some EISDIR, fs)
           else if realpath fs cwd from = realpath fs cwd to then (Some EEXIST, fs)
           else (case (if status_at fs cwd to = None then create_directory fs cwd to m else (None, fs)) of
                   (Some e, fs1) \<Rightarrow> (Some e, fs1)
                 | (None, fs1) \<Rightarrow>
                     fold (\<lambda>c acc. case acc of
                             (Some e, fs2) \<Rightarrow> (Some e, fs2)
                           | (None, fs2) \<Rightarrow>
                               copy_tree fuel names cwd overwrite now (from @ ''/'' @ c) (to @ ''/'' @ c) fs2)
                       (case realpath fs cwd from of Inr p \<Rightarrow> child_names fs1 names p | Inl _ \<Rightarrow> [])
                       (None, fs1))))"

definition copy_fuel :: nat where "copy_fuel = 256"

definition handleFsCopy :: "agent_config \<Rightarrow> fs_state \<Rightarrow> json \<Rightarrow> reply \<times> fs_state" where
  "handleFsCopy cfg st params =
     (let cwd = h_cwd (st_host st); fs = st_fs st
      in case bindr (writesPermitted cfg ''fs.copy'') (\<lambda>_.
              bindr (reqStr params ''from'' ''fs.copy'') (\<lambda>from.
              bindr (reqStr params ''to'' ''fs.copy'') (\<lambda>to.
              bindr (denied (resolveAndAuthorize cfg fs cwd from)) (\<lambda>canonFrom.
              bindr (denied (resolveAndAuthorizeForCreate cfg fs cwd to)) (\<lambda>canonTo.
              bindr (throwing (value_bool ''overwrite'' False params)) (\<lambda>overwrite.
                Inr (canonFrom, canonTo, overwrite))))))) of
           Inl r \<Rightarrow> (r, st)
         | Inr (canonFrom, canonTo, overwrite) \<Rightarrow>
             (case copy_tree copy_fuel (st_names st) cwd overwrite (st_now st) canonFrom canonTo fs of
                (Some e, fs') \<Rightarrow> (Error KInternal (''could not copy '' @ quoted canonFrom @ '' to ''
                              @ quoted canonTo @ '': '' @ strerror e), set_fs fs' st)
              | (None, fs') \<Rightarrow> changed st fs'))"

end
