(* ===== verification/FsSafety.thy ===== *)
theory FsSafety
  imports FsWrite
begin

text \<open>
  What the write surface guarantees: nothing without \<^verbatim>\<open>--allow-write\<close>, atomic replacement of files, changes
  to existing nodes only inside the roots; and where paths for creation leave them.
\<close>

lemma st_fs_simps [simp]:
  "st_fs (set_fs fs st) = fs" "st_fs (fsBarrier st) = st_fs st"
  "st_host (fsBarrier st) = st_host st" "h_cwd (st_host (set_fs fs st)) = h_cwd (st_host st)"
  by (simp_all add: st_fs_def set_fs_def fsBarrier_def)

section \<open>Read-only agents\<close>

lemma writesPermitted_off:
  "\<not> g_allowWrite cfg \<Longrightarrow> \<exists>msg. writesPermitted cfg m = Inl (Error KPermissionDenied msg)"
  by (simp add: writesPermitted_def)

definition refusal :: "reply \<Rightarrow> bool" where
  "refusal r \<longleftrightarrow> (case r of Error c _ \<Rightarrow> c = KPermissionDenied | _ \<Rightarrow> False)"

text \<open>
  C22. An agent started without \<^verbatim>\<open>--allow-write\<close> changes nothing: every one of the six methods answers
  PERMISSION_DENIED and leaves the file system, and every other part of the state, as it was.
\<close>

theorem read_only_agent:
  assumes "\<not> g_allowWrite cfg"
  shows "(case handleFsWriteFile cfg io st params of (r, st', trace) \<Rightarrow> refusal r \<and> st' = st \<and> trace = [])
    \<and> list_all (\<lambda>handler. case handler cfg st params of (r, st') \<Rightarrow> refusal r \<and> st' = st)
        [handleFsMkdir, handleFsDelete, handleFsRename, handleFsCopy, handleFsChmod]"
  using assms
  by (simp add: handleFsWriteFile_def write_request_def handleFsMkdir_def handleFsDelete_def
      delete_request_def handleFsRename_def handleFsCopy_def handleFsChmod_def chmod_request_def writesPermitted_def refusal_def Let_def)

text \<open>A small state to evaluate on.\<close>

definition demo_state :: fs_state where
  "demo_state = \<lparr>st_host = demo_host,
     st_names = [[''r''], [''r'', ''f''], [''r'', ''out''], [''r'', ''dangling''], [''s'']],
     st_pid = 1, st_writeSeq = 0, st_now = 5, st_barriers = 0\<rparr>"

definition demo_io :: io_outcome where
  "demo_io = \<lparr>io_write = (\<lambda>_. 3), io_fsync = True, io_errno = []\<rparr>"

theorem read_only_agent_witness:
  "refusal (fst (handleFsDelete (demo_cfg\<lparr>g_allowWrite := False\<rparr>) demo_state (JObj [(''path'', JStr ''/r/f'')])))"
  using read_only_agent [where cfg = "demo_cfg\<lparr>g_allowWrite := False\<rparr>" and io = demo_io and st = demo_state
      and params = "JObj [(''path'', JStr ''/r/f'')]"]
  by (simp add: split_beta)

section \<open>Trees\<close>

text \<open>Every node hangs in a directory.\<close>

definition tree_ok :: "filesystem \<Rightarrow> bool" where
  "tree_ok fs \<longleftrightarrow> (\<forall>p c. fs (p @ [c]) \<noteq> None \<longrightarrow> dir_at fs p)"

lemma nothing_below:
  assumes "tree_ok fs" and "\<not> dir_at fs p" and "strict_prefix p r"
  shows "fs r = None"
  using assms(3)
proof (induction r rule: rev_induct)
  case (snoc c r)
  then have pr: "prefix p r" by (auto simp: strict_prefix_def prefix_snoc)
  show ?case
  proof (cases "p = r")
    case True
    with assms(1,2) show ?thesis unfolding tree_ok_def by blast
  next
    case False
    with pr snoc have "fs r = None" by (simp add: strict_prefix_def)
    moreover have "r \<noteq> []" using pr False by auto
    ultimately have "\<not> dir_at fs r" by (simp add: dir_at_def)
    with assms(1) show ?thesis unfolding tree_ok_def by blast
  qed
qed simp

lemma dir_at_mono: "dir_at fs p \<Longrightarrow> q \<noteq> p \<Longrightarrow> dir_at (fs(q := n)) p"
  by (auto simp: dir_at_def)

lemma physical_upd_file:
  assumes "physical fs p" and "p = [] \<or> fs p = Some nd" and "fs q = None" and "q \<noteq> []"
  shows "physical (fs(q \<mapsto> n)) p"
proof -
  have d: "dir_at (fs(q \<mapsto> n)) r" if "dir_at fs r" for r
    using that assms(3,4) by (auto simp: dir_at_def split: option.splits)
  show ?thesis
    using assms d unfolding physical_def by (auto simp: fun_upd_apply)
qed

section \<open>Where a temporary file and its target are\<close>

lemma slot_of_physical:
  assumes "physical fs p" and "good_path p" and "p \<noteq> []"
  shows "slot_of fs cwd (render p) = Inr p"
proof -
  obtain d c where p: "p = d @ [c]" using assms(3) by (cases p rule: rev_cases) auto
  have g: "good_path d" "c \<noteq> []" "c \<noteq> ''.''" "c \<noteq> ''..''" using assms(2) p by (auto simp: good_name_def)
  have d: "physical fs d" "dir_at fs d" using physical_butlast [OF assms(1)] p by auto
  have sp: "split_on CHR ''/'' (render p) = ([] # d) @ [c]"
    using split_on_render [OF assms(2,3)] p by simp
  have w: "walk fs max_links [] ([] # d) = Inr d"
    using walk_physical_id [of fs "[]" d max_links] d g by simp
  have cs: "c_str (render p) = render p" by (rule c_str_id [OF render_no_nul [OF assms(2)]])
  show ?thesis
    unfolding slot_of_def Let_def cs sp last_snoc butlast_snoc
    using g d w by (simp add: p)
qed

lemma create_excl_new:
  assumes "create_excl fs cwd s mode now = Inr (q, fs')"
  shows "fs q = None \<and> q \<noteq> [] \<and> fs' = fs(q \<mapsto> File [] mode now)"
  using assms by (auto simp: create_excl_def bindr_Inr exists_at_def split: if_splits)

lemma write_loop_last:
  "write_loop w len written = (lens, False) \<Longrightarrow> written \<le> len \<Longrightarrow>
     (if lens = [] then written = len else last lens = len)"
proof (induction w len written arbitrary: lens rule: write_loop.induct)
  case (1 w len written)
  show ?case
  proof (cases "len \<le> written")
    case True
    with 1 show ?thesis by (simp add: write_loop.simps [of w len written])
  next
    case False
    define wr where "wr = written + min (nat (w written)) (len - written)"
    from 1(2) False have n: "0 < w written" "write_loop w len wr = (tl lens, False)" "lens = wr # tl lens"
      by (auto simp: write_loop.simps [of w len written] Let_def wr_def apfst_def map_prod_def
          split: if_splits prod.splits)
    have "wr \<le> len" using False by (simp add: wr_def)
    with 1(1) [OF False refl _ _ n(2) [unfolded wr_def]] n(1) False wr_def
    have "if tl lens = [] then wr = len else last (tl lens) = len" by simp
    with n(3) show ?thesis by (metis last_ConsL last_ConsR list.distinct(1))
  qed
qed

lemma dir_of_render:
  assumes "good_path (d @ [c])"
  shows "before_last CHR ''/'' (render (d @ [c])) = concat (map (\<lambda>c. CHR ''/'' # c) d)"
  using assms by (simp add: render_def good_name_def)

lemma levels_present:
  assumes "physical fs (done @ cs)" and "dir_at fs (done @ cs)" and "good_path (done @ cs)"
  shows "make_levels cwd done cs fs = (None, fs)"
  using assms
proof (induction cs arbitrary: "done")
  case (Cons c cs)
  have ph: "physical fs (done @ [c])" and d: "dir_at fs (done @ [c])"
  proof -
    have all: "dir_at fs (take i (done @ c # cs))" if "i \<le> length (done @ c # cs)" for i
      using Cons.prems(1,2) that by (cases "i = length (done @ c # cs)") (auto simp: physical_def)
    show d: "dir_at fs (done @ [c])" using all [of "Suc (length done)"] by (cases cs) simp_all
    have "dir_at fs (take i (done @ [c]))" if "i \<le> length (done @ [c])" for i
      using all [of i] that d by (cases "i \<le> length done") (auto simp: le_Suc_eq)
    then show "physical fs (done @ [c])" unfolding physical_def
      by (metis less_imp_le order_refl take_all)
  qed
  have "status_at fs cwd (render (done @ [c])) = fs (done @ [c])"
    using Cons.prems(3) by (simp add: status_at_def realpath_render [OF ph] node_at_def)
  moreover obtain m where "fs (done @ [c]) = Some (Dir m)"
    using d by (auto simp: dir_at_def split: option.splits node.splits)
  ultimately show ?case
    using Cons.IH [of "done @ [c]"] Cons.prems by simp
qed simp

lemma create_directories_present:
  assumes "physical fs d" and "dir_at fs d" and "good_path d"
  shows "create_directories fs cwd (concat (map (\<lambda>c. CHR ''/'' # c) d)) = (None, fs)"
proof (cases "d = []")
  case True
  then show ?thesis by (simp add: create_directories_def c_str_def)
next
  case False
  have "filter (\<lambda>c. c \<noteq> []) d = d" using assms(3) by (auto simp: good_path_def list_all_iff good_name_def filter_id_conv)
  moreover have "split_on CHR ''/'' (c_str (concat (map (\<lambda>c. CHR ''/'' # c) d))) = [] # d"
    using split_on_render [OF assms(3) False] c_str_id [OF render_no_nul [OF assms(3)]] False
    by (simp add: render_def)
  ultimately show ?thesis
    using levels_present [of fs "[]" d cwd] assms by (simp add: create_directories_def)
qed

lemma move_over_file:
  assumes "tree_ok fs" and "fs q = None" and "q \<noteq> []" and "fs p = Some (File b m t)" and "p \<noteq> []"
  shows "move_tree (fs(q \<mapsto> n)) q p = fs(p \<mapsto> n)"
proof
  fix r
  have ndq: "\<not> dir_at fs q" and ndp: "\<not> dir_at fs p" using assms by (simp_all add: dir_at_def)
  have below_q: "fs (q @ x) = None" if "x \<noteq> []" for x
    using nothing_below [OF assms(1) ndq, of "q @ x"] that by (simp add: strict_prefix_def)
  show "move_tree (fs(q \<mapsto> n)) q p r = (fs(p \<mapsto> n)) r"
  proof (cases "prefix p r")
    case True
    then obtain x where r: "r = p @ x" by (auto simp: prefix_def)
    show ?thesis
    proof (cases "x = []")
      case False
      with r nothing_below [OF assms(1) ndp, of r] below_q [of x] show ?thesis
        by (simp add: move_tree_def strict_prefix_def)
    qed (simp add: move_tree_def r)
  next
    case False
    show ?thesis
    proof (cases "prefix q r")
      case True
      then obtain x where "r = q @ x" by (auto simp: prefix_def)
      with False below_q [of x] assms(2) True show ?thesis
        by (cases "x = []") (auto simp: move_tree_def)
    next
      case nq: False
      with False show ?thesis by (auto simp: move_tree_def)
    qed
  qed
qed

lemma rename_over_file:
  assumes "tree_ok fs" and "fs q = None" and "q \<noteq> []" and "fs p = Some (File b m t)" and "p \<noteq> []"
    and "physical fs p" and "\<not> is_dir n"
  shows "rename_at (fs(q \<mapsto> n)) names q p = Inr (fs(p \<mapsto> n))"
proof -
  have "\<not> prefix q p"
  proof
    assume "prefix q p"
    then obtain x where x: "p = q @ x" by (auto simp: prefix_def)
    then have "x \<noteq> []" using assms(2,4) by auto
    moreover have "\<forall>i < length p. dir_at fs (take i p)" using assms(6) unfolding physical_def by blast
    ultimately have "dir_at fs (take (length q) p)" using x by (auto dest!: spec [of _ "length q"])
    with x assms(2,3) show False by (simp add: dir_at_def)
  qed
  moreover have "q \<noteq> p" using assms(2,4) by auto
  ultimately show ?thesis
    using assms move_over_file [OF assms(1-5)] by (simp add: rename_at_def)
qed

definition conflict_of :: "reply \<Rightarrow> bool" where
  "conflict_of r = (case r of Result j \<Rightarrow> jfind ''conflict'' j \<noteq> None | _ \<Rightarrow> False)"

definition installed :: "reply \<Rightarrow> bool" where
  "installed r = (case r of Result j \<Rightarrow> jfind ''conflict'' j = None | _ \<Rightarrow> False)"

lemma reply_kinds:
  "installed (installed_reply h s)" "\<not> conflict_of (installed_reply h s)"
  "conflict_of (conflict_reply h s e)" "\<not> installed (conflict_reply h s e)"
  "\<not> installed (Error c msg)" "\<not> conflict_of (Error c msg)"
  by (simp_all add: installed_def conflict_of_def installed_reply_def conflict_reply_def size_mtime_mode_def
      Let_def)

lemma write_install_cases:
  assumes run: "write_install io st params bytes (render p) q fs = (r, fs', trace)"
    and base: "fs = fs0(q \<mapsto> File [] 384 (st_now st))" "fs0 q = None" "q \<noteq> []"
    and old: "fs0 p = Some (File old m t)" "physical fs0 p" "good_path p" "p \<noteq> []"
    and tree: "tree_ok fs0"
  defines "new \<equiv> File bytes (write_mode params (Some (File old m t))) (st_now st)"
  shows "list_all (\<lambda>f. f p = Some (File old m t) \<or> f p = Some new) trace
    \<and> fs' = (if installed r then fs0(p \<mapsto> new) else fs0)
    \<and> (conflict_of r \<longrightarrow> (\<exists>i. int_field ''ifMtimeNs'' params = Some i \<and> to_int64 i \<noteq> t))
    \<and> (\<forall>i. int_field ''ifMtimeNs'' params = Some i \<and> to_int64 i \<noteq> t \<longrightarrow> \<not> installed r)"
proof -
  have qp: "q \<noteq> p" using base(2) old(1) by auto
  obtain lens wfailed where wl: "write_loop (io_write io) (length bytes) 0 = (lens, wfailed)" by force
  define growing where "growing = map (\<lambda>k. fs(q \<mapsto> File (take k bytes) 384 (st_now st))) lens"
  define fs1 where "fs1 = fs(q \<mapsto> File (if lens = [] then [] else take (last lens) bytes) 384 (st_now st))"
  have f1: "\<exists>n. fs1 = fs0(q \<mapsto> n) \<and> \<not> is_dir n"
    by (intro exI [of _ "File (if lens = [] then [] else take (last lens) bytes) 384 (st_now st)"])
       (simp add: fs1_def base(1))
  have un: "unlink_at fs1 q = fs0" using f1 base(2) by (auto simp: unlink_at_def fun_eq_iff)
  have grow: "list_all (\<lambda>f. f p = Some (File old m t) \<or> f p = Some new) growing"
    using qp old(1) by (auto simp: growing_def list_all_iff base(1))
  have ph: "physical (fs0(q \<mapsto> n)) p" for n
    by (rule physical_upd_file [OF old(2)]) (use old base in auto)
  have st1: "stat_of ((st_host st)\<lparr>h_fs := fs1\<rparr>) (render p) = Some (p, File old m t)"
    using f1 ph old qp by (auto simp: stat_of_render node_at_def)
  note defs = growing_def [symmetric] fs1_def [symmetric]
  show ?thesis
  proof (cases "wfailed \<or> \<not> io_fsync io")
    case True
    with run have "r = Error KInternal (''write to '' @ quoted (render p) @ '' failed: '' @ io_errno io)
        \<and> fs' = fs0 \<and> trace = growing"
      by (simp add: write_install_def wl Let_def defs un)
    with grow show ?thesis by (simp add: reply_kinds)
  next
    case ok: False
    show ?thesis
    proof (cases "case int_field ''ifMtimeNs'' params of Some i \<Rightarrow> to_int64 i \<noteq> t | None \<Rightarrow> False")
      case True
      then obtain i where i: "int_field ''ifMtimeNs'' params = Some i" "to_int64 i \<noteq> t"
        by (auto split: option.splits)
      from run ok i have "r = conflict_reply ((st_host st)\<lparr>h_fs := fs0\<rparr>) (render p) True \<and> fs' = fs0 \<and> trace = growing"
        by (auto simp: write_install_def wl Let_def defs un st1 node_mtime_def)
      with grow i show ?thesis by (simp add: reply_kinds)
    next
      case False
      define fs2 where "fs2 = fs0(q \<mapsto> new)"
      have f2: "fs1(q \<mapsto> new) = fs2" using f1 by (auto simp: fs2_def)
      have sl: "slot_of fs2 cwd (render p) = Inr p" for cwd
        by (rule slot_of_physical) (use ph old in \<open>simp_all add: fs2_def\<close>)
      have rn: "rename_at fs2 (st_names st) q p = Inr (fs0(p \<mapsto> new))"
        unfolding fs2_def by (rule rename_over_file) (use tree base old in \<open>simp_all add: new_def\<close>)
      from run ok False have "r = installed_reply ((st_host st)\<lparr>h_fs := fs0(p \<mapsto> new)\<rparr>) (render p)
          \<and> fs' = fs0(p \<mapsto> new) \<and> trace = growing @ [fs2, fs0(p \<mapsto> new)]"
        by (auto simp: write_install_def wl Let_def defs st1 node_mtime_def new_def [symmetric] f2 sl rn
            split: option.splits)
      with grow False qp old(1) show ?thesis
        by (auto simp: reply_kinds list_all_append_iff fs2_def split: option.splits)
    qed
  qed
qed

section \<open>Atomic writes\<close>

text \<open>
  Saving over a file is atomic: at every system call in between, the file holds its old bytes or
  all of the new ones, never a part. Afterwards it is the new file exactly when the reply says so; on
  an error, or when the client's \<^verbatim>\<open>ifMtimeNs\<close> does not match (and then it is always refused), the whole
  tree is what it was, with no temporary file left. Holds whatever the kernel does with the writes.
\<close>

theorem writeFile_atomic:
  assumes "write_request cfg st params = Inr (bytes, render p, createDirs)"
    and "handleFsWriteFile cfg io st params = (r, st', trace)"
    and "st_fs st p = Some (File old m t)" and "physical (st_fs st) p" and "good_path p" and "p \<noteq> []"
    and "tree_ok (st_fs st)"
  shows "list_all (\<lambda>fs. fs p = Some (File old m t)
        \<or> fs p = Some (File bytes (write_mode params (Some (File old m t))) (st_now st))) trace
    \<and> st_fs st' = (if installed r
          then (st_fs st)(p \<mapsto> File bytes (write_mode params (Some (File old m t))) (st_now st)) else st_fs st)
    \<and> (\<forall>i. int_field ''ifMtimeNs'' params = Some i \<and> to_int64 i \<noteq> t \<longrightarrow> \<not> installed r)"
proof -
  let ?fs = "st_fs st" and ?cwd = "h_cwd (st_host st)"
  let ?dir = "before_last CHR ''/'' (render p)"
  obtain d c where p: "p = d @ [c]" using assms(6) by (cases p rule: rev_cases) auto
  have dir: "?dir = concat (map (\<lambda>c. CHR ''/'' # c) d)"
    using dir_of_render [of d c] assms(5) p by simp
  have "physical ?fs d" "dir_at ?fs d" "good_path d"
    using physical_butlast [OF assms(4)] assms(5) p by auto
  then have cd: "create_directories ?fs ?cwd ?dir = (None, ?fs)"
    unfolding dir by (rule create_directories_present)
  have fs0: "(if createDirs then snd (create_directories ?fs ?cwd ?dir) else ?fs) = ?fs" by (simp add: cd)
  define st1 where "st1 = (set_fs ?fs st)\<lparr>st_writeSeq := Suc (st_writeSeq st)\<rparr>"
  have st1: "st_fs st1 = ?fs" "st_now st1 = st_now st" by (simp_all add: st1_def set_fs_def st_fs_def)
  show ?thesis
  proof (cases "create_excl ?fs ?cwd (tmp_name ?dir st) 384 (st_now st)")
    case (Inl e)
    with assms(1,2) fs0 have "(\<exists>msg. r = Error KInternal msg) \<and> st' = st1 \<and> trace = [?fs]"
      by (auto simp: handleFsWriteFile_def Let_def st1_def)
    with assms(3) st1 show ?thesis by (auto simp: reply_kinds)
  next
    case (Inr pr)
    obtain q fs1 where pr: "pr = (q, fs1)" by (cases pr)
    note new = create_excl_new [OF Inr [unfolded pr]]
    obtain r2 fs2 tr where wi: "write_install io st1 params bytes (render p) q fs1 = (r2, fs2, tr)"
      by (cases "write_install io st1 params bytes (render p) q fs1") auto
    have w: "list_all (\<lambda>f. f p = Some (File old m t)
          \<or> f p = Some (File bytes (write_mode params (Some (File old m t))) (st_now st1))) tr
      \<and> fs2 = (if installed r2 then ?fs(p \<mapsto> File bytes (write_mode params (Some (File old m t))) (st_now st1)) else ?fs)
      \<and> (conflict_of r2 \<longrightarrow> (\<exists>i. int_field ''ifMtimeNs'' params = Some i \<and> to_int64 i \<noteq> t))
      \<and> (\<forall>i. int_field ''ifMtimeNs'' params = Some i \<and> to_int64 i \<noteq> t \<longrightarrow> \<not> installed r2)"
      by (rule write_install_cases [OF wi]) (use new st1 assms in auto)
    have res: "r = r2 \<and> st_fs st' = fs2 \<and> trace = ?fs # fs1 # tr @ [fs2]"
      using assms(1,2) Inr pr wi fs0
      by (auto simp: handleFsWriteFile_def Let_def st1_def set_fs_def st_fs_def fsBarrier_def
          split: if_splits reply.splits)
    have "q \<noteq> p" using new assms(3) by auto
    with new assms(3) have "fs1 p = Some (File old m t)" by simp
    with w res st1 assms(3) show ?thesis by (auto simp: list_all_append_iff)
  qed
qed

lemma demo_tree: "tree_ok demo_fs"
  unfolding tree_ok_def
proof (intro allI impI)
  fix p c
  assume "demo_fs (p @ [c]) \<noteq> None"
  then have "p @ [c] \<in> {[''r''], [''r'', ''f''], [''r'', ''out''], [''r'', ''dangling''], [''s'']}"
    by (auto simp: demo_fs_def split: if_splits)
  then have "p = [] \<or> p = [''r'']" by (auto simp: append_eq_Cons_conv)
  then show "dir_at demo_fs p" by (auto simp: dir_at_def demo_fs_def)
qed

lemma demo_physical: "physical demo_fs [''r'', ''f'']" "good_path [''r'', ''f'']"
  by (auto simp: physical_def dir_at_def demo_fs_def good_name_def less_Suc_eq)

definition demo_write :: json where
  "demo_write = JObj [(''path'', JStr ''/r/f''), (''content'', JStr ''new!''), (''ifMtimeNs'', JInt 1)]"

theorem writeFile_atomic_witness:
  "\<exists>r st' trace. handleFsWriteFile demo_cfg demo_io demo_state demo_write = (r, st', trace)
     \<and> installed r \<and> st_fs st' = demo_fs([''r'', ''f''] \<mapsto> File ''new!'' 420 5)
     \<and> list_all (\<lambda>fs. fs [''r'', ''f''] = Some (File ''data'' 420 1)
          \<or> fs [''r'', ''f''] = Some (File ''new!'' 420 5)) trace"
proof -
  obtain r st' trace where run: "handleFsWriteFile demo_cfg demo_io demo_state demo_write = (r, st', trace)"
    by (metis prod_cases3)
  have "installed (fst (handleFsWriteFile demo_cfg demo_io demo_state demo_write))" by code_simp
  with run have inst: "installed r" by simp
  have req: "write_request demo_cfg demo_state demo_write = Inr (''new!'', render [''r'', ''f''], False)"
    "write_mode demo_write (Some (File ''data'' 420 1)) = 420"
    by code_simp+
  have fs: "st_fs demo_state = demo_fs" "st_now demo_state = 5"
    by (simp_all add: demo_state_def demo_host_def st_fs_def)
  have "st_fs demo_state [''r'', ''f''] = Some (File ''data'' 420 1)" by code_simp
  from writeFile_atomic [OF req(1) run this] demo_physical demo_tree fs req(2) inst run
  show ?thesis by (simp add: fs)
qed

section \<open>Changes to what exists stay inside\<close>

lemma realpath_root: "realpath fs cwd ''/'' = Inr []"
  by (simp add: realpath_def c_str_def)

lemma slot_of_authorized:
  assumes "physical fs p" and "good_path p"
  shows "slot_of fs cwd (render p) = Inr p"
proof (cases "p = []")
  case True
  then show ?thesis by (simp add: slot_of_def render_def c_str_def realpath_root)
qed (use assms slot_of_physical in auto)

text \<open>
  Deleting and changing modes never reaches outside the roots, whatever path is named: every node
  whose state such a request changes is below an allowed root.
\<close>

theorem delete_chmod_inside:
  assumes "roots_ok cfg" and "world_ok (st_fs st) (h_cwd (st_host st))"
    and "handleFsDelete cfg st params = (r, st') \<or> handleFsChmod cfg st params = (r, st')"
    and "st_fs st' q \<noteq> st_fs st q"
  shows "inside cfg q"
  using assms(3)
proof
  assume run: "handleFsDelete cfg st params = (r, st')"
  with assms(4) obtain canon recursive where ok: "delete_request cfg st params = Inr (canon, recursive)"
    by (auto simp: handleFsDelete_def split: sum.splits)
  then obtain path where a: "resolveAndAuthorize cfg (st_fs st) (h_cwd (st_host st)) path = Inr canon"
    by (auto simp: delete_request_def bindr_Inr)
  from resolveAndAuthorize_inside [OF a assms(1,2)] obtain p where
    p: "canon = render p" "physical (st_fs st) p" "good_path p" "inside cfg p" by blast
  have "st_fs st' = remove_tree (st_fs st) p \<or> st_fs st' = unlink_at (st_fs st) p \<or> st' = st"
    using run ok
    by (auto simp: handleFsDelete_def p slot_of_authorized [OF p(2,3)] Let_def split: if_splits)
  with assms(4) have "prefix p q"
    by (auto simp: remove_tree_def unlink_at_def split: if_splits)
  with p(4) show ?thesis by (auto simp: prefix_def intro: inside_below)
next
  assume run: "handleFsChmod cfg st params = (r, st')"
  with assms(4) obtain canon m where ok: "chmod_request cfg st params = Inr (canon, m)"
    by (auto simp: handleFsChmod_def split: sum.splits)
  then obtain path where a: "resolveAndAuthorize cfg (st_fs st) (h_cwd (st_host st)) path = Inr canon"
    by (auto simp: chmod_request_def bindr_Inr)
  from resolveAndAuthorize_inside [OF a assms(1,2)] obtain p where
    p: "canon = render p" "physical (st_fs st) p" "good_path p" "inside cfg p" by blast
  have "st_fs st' = (case st_fs st p of None \<Rightarrow> st_fs st | Some n \<Rightarrow> (st_fs st)(p \<mapsto> chmod_node n m))"
    using run ok realpath_render [OF p(2,3)]
    by (auto simp: handleFsChmod_def p(1) changed_def)
  with assms(4) have "q = p" by (auto split: option.splits if_splits)
  with p(4) show ?thesis by simp
qed

theorem delete_chmod_inside_witness:
  "st_fs (snd (handleFsDelete demo_cfg demo_state (JObj [(''path'', JStr ''/r/f'')]))) [''r'', ''f''] = None
   \<and> inside demo_cfg [''r'', ''f'']"
proof -
  have r: "st_fs (snd (handleFsDelete demo_cfg demo_state (JObj [(''path'', JStr ''/r/f'')]))) [''r'', ''f''] = None"
    "st_fs demo_state [''r'', ''f''] \<noteq> None"
    by code_simp+
  have "world_ok (st_fs demo_state) (h_cwd (st_host demo_state))"
    using demo_world by (simp add: demo_state_def demo_host_def st_fs_def)
  from delete_chmod_inside [OF demo_roots this, of "JObj [(''path'', JStr ''/r/f'')]"
      "fst (handleFsDelete demo_cfg demo_state (JObj [(''path'', JStr ''/r/f'')]))"
      "snd (handleFsDelete demo_cfg demo_state (JObj [(''path'', JStr ''/r/f'')]))" "[''r'', ''f'']"] r
  show ?thesis by simp
qed

section \<open>Where paths for creation leave the roots\<close>

text \<open>
  A root with a link to a directory outside (\<^verbatim>\<open>out\<close>) and one to itself (\<^verbatim>\<open>here\<close>). Forty times \<^verbatim>\<open>here\<close>
  uses up the links \<^verbatim>\<open>realpath\<close> follows, so that \<^verbatim>\<open>out\<close> no longer resolves and is taken for a missing
  name; the shortened path resolves again when it is used.
\<close>

definition loop_fs :: filesystem where
  "loop_fs = map_of
     [([''r''], Dir 493), ([''r'', ''here''], Link ''.''), ([''r'', ''out''], Link ''/s''), ([''s''], Dir 493)]"

definition loop_state :: fs_state where
  "loop_state = demo_state\<lparr>st_host := demo_host\<lparr>h_fs := loop_fs\<rparr>,
     st_names := [[''r''], [''r'', ''here''], [''r'', ''out''], [''s'']]\<rparr>"

definition escaping_path :: string where
  "escaping_path = ''/r'' @ concat (replicate 40 ''/here'') @ ''/out/evil''"

text \<open>
  The path a create is authorized for can leave the roots: with 40 links before it, a link to a
  directory outside is not recognized as one, and \<^verbatim>\<open>fs.writeFile\<close> and \<^verbatim>\<open>fs.mkdir\<close> create \<^verbatim>\<open>/s/evil\<close> with only
  \<^verbatim>\<open>/r\<close> allowed; named without the detour the same target is refused. So can \<^verbatim>\<open>fs.copy\<close> with
  \<^verbatim>\<open>overwrite\<close> through a link whose target does not exist yet.
\<close>

theorem create_escapes:
  "st_fs (fst (snd (handleFsWriteFile demo_cfg demo_io loop_state
        (JObj [(''path'', JStr escaping_path), (''content'', JStr ''x'')])))) [''s'', ''evil''] = Some (File ''x'' 420 5)
   \<and> st_fs (snd (handleFsMkdir demo_cfg loop_state (JObj [(''path'', JStr escaping_path)]))) [''s'', ''evil''] = Some (Dir 493)
   \<and> resolveAndAuthorizeForCreate demo_cfg loop_fs [] ''/r/out/evil''
       = Inl (KPermissionDenied, outside_message ''/s'')
   \<and> st_fs (snd (handleFsCopy demo_cfg demo_state (JObj [(''from'', JStr ''/r/f''), (''to'', JStr ''/r/dangling''),
        (''overwrite'', JBool True)]))) [''x''] = Some (File ''data'' 420 5)"
proof (intro conjI)
  show "st_fs (snd (handleFsMkdir demo_cfg loop_state (JObj [(''path'', JStr escaping_path)]))) [''s'', ''evil''] = Some (Dir 493)"
    by code_simp
  show "st_fs (fst (snd (handleFsWriteFile demo_cfg demo_io loop_state
        (JObj [(''path'', JStr escaping_path), (''content'', JStr ''x'')])))) [''s'', ''evil''] = Some (File ''x'' 420 5)"
    by code_simp
  show "resolveAndAuthorizeForCreate demo_cfg loop_fs [] ''/r/out/evil''
       = Inl (KPermissionDenied, outside_message ''/s'')"
    by code_simp
  show "st_fs (snd (handleFsCopy demo_cfg demo_state (JObj [(''from'', JStr ''/r/f''), (''to'', JStr ''/r/dangling''),
        (''overwrite'', JBool True)]))) [''x''] = Some (File ''data'' 420 5)"
    by code_simp
qed

text \<open>
  Looking at a link discloses what it points to outside the roots: \<^verbatim>\<open>fs.stat\<close> answers with the target's
  size and canonical name where \<^verbatim>\<open>fs.readFile\<close> on the same name is refused; with a NUL after \<^verbatim>\<open>..\<close> it
  describes the directory above a root. And a name that is a link is never acted on itself: deleting it
  deletes what it points to.
\<close>

theorem stat_discloses:
  "(\<exists>j. handleFsStat demo_cfg demo_host (JObj [(''path'', JStr ''/r/out'')]) = Result j
      \<and> jfind ''size'' j = Some (JInt 6) \<and> jfind ''path'' j = Some (JStr ''/s''))
   \<and> handleFsReadFile demo_cfg demo_host (JObj [(''path'', JStr ''/r/out'')])
       = Error KPermissionDenied (outside_message ''/s'')
   \<and> (\<exists>j. handleFsStat demo_cfg demo_host (JObj [(''path'', JStr (''/r/..'' @ [CHR 0x00]))]) = Result j
      \<and> jfind ''path'' j = Some (JStr ''/''))
   \<and> st_fs (snd (handleFsDelete demo_cfg
        (demo_state\<lparr>st_host := demo_host\<lparr>h_fs := demo_fs([''r'', ''l''] \<mapsto> Link ''f'')\<rparr>\<rparr>)
        (JObj [(''path'', JStr ''/r/l'')]))) = (demo_fs([''r'', ''l''] \<mapsto> Link ''f''))([''r'', ''f''] := None)"
proof (intro conjI)
  let ?st = "demo_state\<lparr>st_host := demo_host\<lparr>h_fs := demo_fs([''r'', ''l''] \<mapsto> Link ''f'')\<rparr>\<rparr>"
  have "case handleFsStat demo_cfg demo_host (JObj [(''path'', JStr ''/r/out'')]) of
      Result j \<Rightarrow> jfind ''size'' j = Some (JInt 6) \<and> jfind ''path'' j = Some (JStr ''/s'') | _ \<Rightarrow> False"
    by code_simp
  then show "\<exists>j. handleFsStat demo_cfg demo_host (JObj [(''path'', JStr ''/r/out'')]) = Result j
      \<and> jfind ''size'' j = Some (JInt 6) \<and> jfind ''path'' j = Some (JStr ''/s'')"
    by (auto split: reply.splits)
  show "handleFsReadFile demo_cfg demo_host (JObj [(''path'', JStr ''/r/out'')])
       = Error KPermissionDenied (outside_message ''/s'')"
    by code_simp
  have "case handleFsStat demo_cfg demo_host (JObj [(''path'', JStr (''/r/..'' @ [CHR 0x00]))]) of
      Result j \<Rightarrow> jfind ''path'' j = Some (JStr ''/'') | _ \<Rightarrow> False"
    by code_simp
  then show "\<exists>j. handleFsStat demo_cfg demo_host (JObj [(''path'', JStr (''/r/..'' @ [CHR 0x00]))]) = Result j
      \<and> jfind ''path'' j = Some (JStr ''/'')"
    by (auto split: reply.splits)
  have "realpath (st_fs ?st) (h_cwd (st_host ?st)) (resolveRoot demo_cfg ''/r/l'') = Inr [''r'', ''f'']"
    "case delete_request demo_cfg ?st (JObj [(''path'', JStr ''/r/l'')]) of
       Inr (c, rec) \<Rightarrow> c = ''/r/f'' \<and> \<not> rec | _ \<Rightarrow> False"
    "slot_of (st_fs ?st) (h_cwd (st_host ?st)) ''/r/f'' = Inr [''r'', ''f'']"
    "empty_dir (st_fs ?st) (st_names ?st) [''r'', ''f'']"
    by code_simp+
  then show "st_fs (snd (handleFsDelete demo_cfg ?st (JObj [(''path'', JStr ''/r/l'')])))
      = (demo_fs([''r'', ''l''] \<mapsto> Link ''f''))([''r'', ''f''] := None)"
    by (auto simp: handleFsDelete_def Let_def st_fs_def set_fs_def fsBarrier_def unlink_at_def
        split: sum.splits prod.splits)
qed

end
