(* ===== verification/DirWatch.thy ===== *)
theory DirWatch
  imports FsMeta Respond "HOL-Library.AList" "HOL-Library.List_Lexorder" "HOL-Library.Char_ord"
begin

text \<open>
  Directory watches (\<^verbatim>\<open>class DirWatcher\<close> of \<^verbatim>\<open>agent/main.cpp\<close>, the Linux implementation) and
  \<^verbatim>\<open>fs.listDirectory\<close>, which starts them. What inotify reports and what \<^verbatim>\<open>inotify_add_watch\<close> returns
  are parameters; the notifications sent are returned as the parameters of \<^verbatim>\<open>fs.changed\<close>, in order.
\<close>

section \<open>State\<close>

definition kMaxWatches :: nat where "kMaxWatches = 2048"
definition kMaxNamesPerNote :: nat where "kMaxNamesPerNote = 256"
definition kBusyNotes :: nat where "kBusyNotes = 40"
definition kBusyWindowMs :: int where "kBusyWindowMs = 10000"

text \<open>A watch: its directory and the times of its recent notifications, oldest first.\<close>

record dir_watch =
  dw_dir :: string
  dw_notes :: "int list"

record dir_watcher =
  byDir :: "(string \<times> int) list"
  byWd :: "(int \<times> dir_watch) list"
  order :: "string list"
  dw_started :: bool
  dw_stopping :: bool

definition new_dir_watcher :: dir_watcher where
  "new_dir_watcher = \<lparr>byDir = [], byWd = [], order = [], dw_started = False, dw_stopping = False\<rparr>"

definition unwatched_note :: "string \<Rightarrow> json" where
  "unwatched_note dir = JObj [(''path'', JStr dir), (''reset'', JBool True), (''unwatched'', JBool True)]"

definition dropLocked :: "string \<Rightarrow> bool \<Rightarrow> dir_watcher \<Rightarrow> json list \<times> dir_watcher" where
  "dropLocked dir tell w =
     (case map_of (byDir w) dir of
        None \<Rightarrow> ([], w)
      | Some wd \<Rightarrow> (if tell then [unwatched_note dir] else [],
          w\<lparr>byWd := AList.delete wd (byWd w), byDir := AList.delete dir (byDir w),
            order := filter (\<lambda>d. d \<noteq> dir) (order w)\<rparr>))"

text \<open>
  The loop of \<^verbatim>\<open>watch\<close> that makes the oldest watch give way; \<open>n\<close> bounds its rounds.
\<close>

fun evict :: "nat \<Rightarrow> string \<Rightarrow> dir_watcher \<Rightarrow> json list \<times> dir_watcher" where
  "evict 0 dir w = ([], w)"
| "evict (Suc n) dir w =
     (if length (byDir w) \<le> kMaxWatches \<or> order w = [] then ([], w)
      else (let victim = hd (order w); w1 = w\<lparr>order := tl (order w)\<rparr>
            in if victim = dir then evict n dir (w1\<lparr>order := order w1 @ [dir]\<rparr>)
               else (let (notes, w2) = dropLocked victim True w1; (notes', w3) = evict n dir w2
                     in (notes @ notes', w3))))"

text \<open>
  \<^verbatim>\<open>watch\<close>: \<open>local\<close> is \<^verbatim>\<open>localFilesystem(dir)\<close>, \<open>start_ok\<close> whether inotify could be started, \<open>wd\<close> what
  \<^verbatim>\<open>inotify_add_watch\<close> returned.
\<close>

definition dw_watch :: "bool \<Rightarrow> bool \<Rightarrow> int \<Rightarrow> string \<Rightarrow> dir_watcher \<Rightarrow> bool \<times> json list \<times> dir_watcher" where
  "dw_watch local start_ok wd dir w =
     (if map_of (byDir w) dir \<noteq> None then (True, [], w)
      else if dw_stopping w \<or> \<not> local then (False, [], w)
      else if \<not> dw_started w \<and> \<not> start_ok then (False, [], w)
      else (let w1 = w\<lparr>dw_started := True\<rparr>
            in if wd < 0 then (False, [], w1)
               else (let w2 = w1\<lparr>byDir := AList.update dir wd (byDir w1),
                                 byWd := AList.update wd \<lparr>dw_dir = dir, dw_notes = []\<rparr> (byWd w1),
                                 order := order w1 @ [dir]\<rparr>;
                         (notes, w3) = evict (Suc (Suc (length (order w2)))) dir w2
                     in (True, notes, w3))))"

definition dw_forget :: "string \<Rightarrow> dir_watcher \<Rightarrow> dir_watcher" where
  "dw_forget dir w = snd (dropLocked dir False w)"

definition dw_count :: "dir_watcher \<Rightarrow> nat" where
  "dw_count w = length (byDir w)"

section \<open>Events\<close>

text \<open>
  An inotify event: the queue overflowed, the watched directory itself went away, or a name in it
  changed (\<^verbatim>\<open>ev->len == 0\<close> is no name). What the thread holds until it flushes.
\<close>

datatype inotify_event = Overflow | SelfGone int | Changed int "string option"

record pending =
  pd_names :: "(string \<times> string list) list"
  pd_resets :: "string list"
  pd_gone :: "string list"
  pd_overflow :: bool

definition no_pending :: pending where
  "no_pending = \<lparr>pd_names = [], pd_resets = [], pd_gone = [], pd_overflow = False\<rparr>"

definition on_event :: "dir_watcher \<Rightarrow> inotify_event \<Rightarrow> pending \<Rightarrow> pending" where
  "on_event w ev pd =
     (case ev of
        Overflow \<Rightarrow> pd\<lparr>pd_overflow := True\<rparr>
      | SelfGone wd \<Rightarrow>
          (case map_of (byWd w) wd of
             None \<Rightarrow> pd
           | Some dw \<Rightarrow> pd\<lparr>pd_gone := List.insert (dw_dir dw) (pd_gone pd)\<rparr>)
      | Changed wd nm \<Rightarrow>
          (case (map_of (byWd w) wd, nm) of
             (Some dw, Some name) \<Rightarrow>
               if starts_with name ''.scrutiny-write-'' then pd
               else (let dir = dw_dir dw;
                         names = (case map_of (pd_names pd) dir of Some ns \<Rightarrow> ns | None \<Rightarrow> [])
                     in if kMaxNamesPerNote \<le> length names
                        then pd\<lparr>pd_resets := List.insert dir (pd_resets pd),
                                pd_names := AList.update dir names (pd_names pd)\<rparr>
                        else pd\<lparr>pd_names := AList.update dir (List.insert name names) (pd_names pd)\<rparr>)
           | _ \<Rightarrow> pd))"

definition dir_note :: "host \<Rightarrow> string \<Rightarrow> string list \<Rightarrow> json" where
  "dir_note h dir names =
     JObj [(''path'', JStr dir), (''entries'', JArr (map (attributedEntry h dir) names)),
           (''self'', statJson h dir)]"

definition reset_note :: "string \<Rightarrow> json" where
  "reset_note dir = JObj [(''path'', JStr dir), (''reset'', JBool True)]"

definition all_reset_note :: json where
  "all_reset_note = JObj [(''all'', JBool True), (''reset'', JBool True)]"

text \<open>One directory of the flush: the watch's recent notifications are counted, a busy one is dropped.\<close>

definition flush_dir :: "host \<Rightarrow> int \<Rightarrow> string list \<Rightarrow> string \<Rightarrow> string list \<Rightarrow> dir_watcher \<Rightarrow> json list \<times> dir_watcher" where
  "flush_dir h now resets dir names w =
     (case map_of (byDir w) dir of
        None \<Rightarrow> ([], w)
      | Some wd \<Rightarrow>
          (let dw = (case map_of (byWd w) wd of Some d \<Rightarrow> d | None \<Rightarrow> \<lparr>dw_dir = [], dw_notes = []\<rparr>);
               notes = dropWhile (\<lambda>t. kBusyWindowMs < now - t) (dw_notes dw @ [now]);
               w1 = w\<lparr>byWd := AList.update wd (dw\<lparr>dw_notes := notes\<rparr>) (byWd w)\<rparr>
           in if kBusyNotes < length notes then dropLocked dir True w1
              else if dir \<in> set resets then ([reset_note dir], w1)
              else ([dir_note h dir names], w1)))"

fun flush_dirs :: "host \<Rightarrow> int \<Rightarrow> string list \<Rightarrow> (string \<times> string list) list \<Rightarrow> dir_watcher \<Rightarrow> json list \<times> dir_watcher" where
  "flush_dirs h now resets [] w = ([], w)"
| "flush_dirs h now resets ((dir, names) # ds) w =
     (let (n1, w1) = flush_dir h now resets dir names w; (n2, w2) = flush_dirs h now resets ds w1
      in (n1 @ n2, w2))"

fun drop_gone :: "string list \<Rightarrow> dir_watcher \<Rightarrow> json list \<times> dir_watcher" where
  "drop_gone [] w = ([], w)"
| "drop_gone (d # ds) w =
     (let (n1, w1) = dropLocked d True w; (n2, w2) = drop_gone ds w1 in (n1 @ n2, w2))"

text \<open>The flush: an overflow resets everything, directories that went away are dropped, the rest reported.\<close>

definition flush :: "host \<Rightarrow> int \<Rightarrow> pending \<Rightarrow> dir_watcher \<Rightarrow> json list \<times> pending \<times> dir_watcher" where
  "flush h now pd w =
     (let names = (if pd_overflow pd then [] else pd_names pd);
          resets = (if pd_overflow pd then [] else pd_resets pd);
          names' = filter (\<lambda>(d, _). d \<notin> set (pd_gone pd)) names;
          resets' = filter (\<lambda>d. d \<notin> set (pd_gone pd)) resets;
          (n1, w1) = drop_gone (pd_gone pd) w;
          (n2, w2) = flush_dirs h now resets' (sort_key fst names') w1
      in ((if pd_overflow pd then [all_reset_note] else []) @ n1 @ n2, no_pending, w2))"

section \<open>fs.listDirectory\<close>

text \<open>
  The entries, sorted by name. \<open>listing\<close> is what the directory iterator yields: the names, or the text
  of its error.
\<close>

definition wants :: "string \<Rightarrow> json \<Rightarrow> reply + bool" where
  "wants k params = throwing (value_bool k False params)"

definition list_entries :: "host \<Rightarrow> string \<Rightarrow> bool \<Rightarrow> string list \<Rightarrow> json list" where
  "list_entries h path attributes names =
     (if attributes
      then filter (\<lambda>e. \<not> bool_value ''deleted'' e) (map (attributedEntry h path) names)
      else map (\<lambda>n. JObj [(''name'', JStr n),
                          (''isDir'', JBool (case stat_of h (path @ ''/'' @ n) of Some (_, nd) \<Rightarrow> is_dir nd | None \<Rightarrow> False))])
             names)"

definition list_reply :: "host \<Rightarrow> string \<Rightarrow> bool \<Rightarrow> bool \<Rightarrow> bool \<Rightarrow> string list \<Rightarrow> json" where
  "list_reply h path attributes wantWatch watching names =
     JObj ([(''path'', JStr path), (''entries'', JArr (list_entries h path attributes names))]
       @ (if attributes then [(''self'', statJson h path)] else [])
       @ (if wantWatch then [(''watching'', JBool watching)] else []))"

definition big_reply :: "host \<Rightarrow> string \<Rightarrow> bool \<Rightarrow> bool \<Rightarrow> nat \<Rightarrow> json" where
  "big_reply h path attributes wantWatch n =
     JObj ([(''path'', JStr path), (''tooLarge'', JBool True), (''count'', JInt (int n))]
       @ (if attributes then [(''self'', statJson h path)] else [])
       @ (if wantWatch then [(''watching'', JBool False)] else []))"

text \<open>\<^verbatim>\<open>maxEntries\<close>: more entries than this are only counted.\<close>

definition over_limit :: "json \<Rightarrow> nat \<Rightarrow> bool" where
  "over_limit params n =
     (case int_field ''maxEntries'' params of
        Some m \<Rightarrow> nat (max 0 (to_int32 m)) < n
      | None \<Rightarrow> False)"

definition handleFsListDirectory ::
  "agent_config \<Rightarrow> host \<Rightarrow> bool \<Rightarrow> bool \<Rightarrow> int \<Rightarrow> (string \<Rightarrow> string + string list) \<Rightarrow> json \<Rightarrow> dir_watcher
    \<Rightarrow> reply \<times> json list \<times> dir_watcher" where
  "handleFsListDirectory cfg h local start_ok wd listing params w =
     (case bindr (reqStr params ''path'' ''fs.listDirectory'') (\<lambda>path.
           bindr (case resolveAndAuthorize cfg (h_fs h) (h_cwd h) path of
                    Inl d \<Rightarrow> Inl (denial_reply d) | Inr c \<Rightarrow> Inr c) (\<lambda>canon.
           bindr (wants ''watch'' params) (\<lambda>wantWatch. Inr (canon, wantWatch)))) of
        Inl r \<Rightarrow> (r, [], w)
      | Inr (path, wantWatch) \<Rightarrow>
          (let (watching, notes, w1) = (if wantWatch then dw_watch local start_ok wd path w else (False, [], w))
           in case listing path of
                Inl msg \<Rightarrow> (Error KNotFound (''could not list '' @ quoted path @ '': '' @ msg), notes, w1)
              | Inr names \<Rightarrow>
                  (case wants ''attributes'' params of
                     Inl r \<Rightarrow> (r, notes, w1)
                   | Inr attributes \<Rightarrow>
                       if over_limit params (length names)
                       then (Result (big_reply h path attributes wantWatch (length names)), notes,
                             if watching then dw_forget path w1 else w1)
                       else (Result (list_reply h path attributes wantWatch watching (sort names)), notes, w1))))"

section \<open>Invariant\<close>

definition watched :: "string \<Rightarrow> dir_watcher \<Rightarrow> bool" where
  "watched dir w \<longleftrightarrow> map_of (byDir w) dir \<noteq> None"

definition dw_inv :: "dir_watcher \<Rightarrow> bool" where
  "dw_inv w \<longleftrightarrow> distinct (map fst (byDir w)) \<and> distinct (order w) \<and> set (order w) = fst ` set (byDir w)
     \<and> (\<forall>(d, wd) \<in> set (byDir w). case map_of (byWd w) wd of Some x \<Rightarrow> dw_dir x = d | None \<Rightarrow> False)"

lemma dw_inv_alt:
  "dw_inv w \<longleftrightarrow> distinct (map fst (byDir w)) \<and> distinct (order w) \<and> set (order w) = fst ` set (byDir w)
     \<and> (\<forall>d wd. map_of (byDir w) d = Some wd \<longrightarrow> (\<exists>x. map_of (byWd w) wd = Some x \<and> dw_dir x = d))"
proof -
  have "distinct (map fst (byDir w)) \<Longrightarrow>
      (\<forall>(d, wd) \<in> set (byDir w). case map_of (byWd w) wd of Some x \<Rightarrow> dw_dir x = d | None \<Rightarrow> False)
      = (\<forall>d wd. map_of (byDir w) d = Some wd \<longrightarrow> (\<exists>x. map_of (byWd w) wd = Some x \<and> dw_dir x = d))"
    by (auto split: option.splits) fastforce+
  then show ?thesis unfolding dw_inv_def by blast
qed

lemma dw_inv_new [simp]: "dw_inv new_dir_watcher"
  by (simp add: dw_inv_alt new_dir_watcher_def)

lemma dw_inv_wds: "dw_inv w \<Longrightarrow> map_of (byDir w) d = Some wd \<Longrightarrow> map_of (byDir w) d' = Some wd \<Longrightarrow> d = d'"
  unfolding dw_inv_alt by (metis option.inject)

lemma dropLocked_head:
  "order w = dir # ds \<Longrightarrow> watched dir w \<Longrightarrow> dropLocked dir tell (w\<lparr>order := ds\<rparr>) = dropLocked dir tell w"
  by (auto simp: dropLocked_def watched_def)

lemma update_new: "k \<notin> fst ` set al \<Longrightarrow> AList.update k v al = al @ [(k, v)]"
  by (induction al) auto

lemma dw_inv_watched: "dw_inv w \<Longrightarrow> d \<in> set (order w) \<longleftrightarrow> watched d w"
  by (auto simp: dw_inv_alt watched_def map_of_eq_None_iff)

lemma dw_inv_length: "dw_inv w \<Longrightarrow> length (order w) = dw_count w"
  unfolding dw_inv_alt dw_count_def by (metis distinct_card length_map set_map)

lemma dropLocked_facts:
  assumes "dw_inv w" and "dropLocked dir tell w = (notes, w')"
  shows "dw_inv w' \<and> \<not> watched dir w' \<and> (\<forall>d. d \<noteq> dir \<longrightarrow> map_of (byDir w') d = map_of (byDir w) d)
    \<and> (watched dir w \<longrightarrow> Suc (dw_count w') = dw_count w \<and> (tell \<longrightarrow> notes = [unwatched_note dir]))"
proof (cases "map_of (byDir w) dir")
  case None
  with assms show ?thesis by (auto simp: dropLocked_def watched_def)
next
  case (Some wd)
  have w': "w' = w\<lparr>byWd := AList.delete wd (byWd w), byDir := AList.delete dir (byDir w),
      order := filter (\<lambda>d. d \<noteq> dir) (order w)\<rparr>" "notes = (if tell then [unwatched_note dir] else [])"
    using assms(2) Some by (auto simp: dropLocked_def)
  have d: "distinct (map fst (byDir w))" "dir \<in> fst ` set (byDir w)"
    using assms(1) Some by (auto simp: dw_inv_alt dest: map_of_SomeD intro: rev_image_eqI)
  have other: "d' \<noteq> dir \<Longrightarrow> map_of (byDir w) d' = Some wd' \<Longrightarrow> wd' \<noteq> wd" for d' wd'
    using dw_inv_wds [OF assms(1), of d' wd' dir] Some by auto
  have mem: "dir \<in> set (map fst (byDir w))" using d(2) by simp
  have keys: "map fst (AList.delete dir (byDir w)) = removeAll dir (map fst (byDir w))"
    by (rule delete_keys)
  then have "map fst (AList.delete dir (byDir w)) = remove1 dir (map fst (byDir w))"
    using distinct_remove1_removeAll [OF d(1)] by simp
  then have "length (map fst (AList.delete dir (byDir w))) = length (map fst (byDir w)) - 1"
    using mem by (simp only: length_remove1 if_True)
  then have len: "Suc (length (AList.delete dir (byDir w))) = length (byDir w)"
    using mem by (cases "byDir w") auto
  have keyset: "fst ` set (AList.delete dir (byDir w)) = fst ` set (byDir w) - {dir}"
    using arg_cong [OF keys, of set] by simp
  have inv: "dw_inv w'"
    unfolding dw_inv_alt w'
  proof (intro conjI allI impI)
    show "set (order (w\<lparr>byWd := AList.delete wd (byWd w), byDir := AList.delete dir (byDir w),
        order := filter (\<lambda>d. d \<noteq> dir) (order w)\<rparr>)) = fst ` set (byDir (w\<lparr>byWd := AList.delete wd (byWd w),
        byDir := AList.delete dir (byDir w), order := filter (\<lambda>d. d \<noteq> dir) (order w)\<rparr>))"
      using assms(1) keyset by (auto simp: dw_inv_alt)
  next
    fix d' wd'
    assume "map_of (byDir (w\<lparr>byWd := AList.delete wd (byWd w), byDir := AList.delete dir (byDir w),
        order := filter (\<lambda>d. d \<noteq> dir) (order w)\<rparr>)) d' = Some wd'"
    then have d': "d' \<noteq> dir" "map_of (byDir w) d' = Some wd'" by (auto simp: delete_conv' split: if_splits)
    with other have "wd' \<noteq> wd" by blast
    with d' assms(1) show "\<exists>x. map_of (byWd (w\<lparr>byWd := AList.delete wd (byWd w), byDir := AList.delete dir (byDir w),
        order := filter (\<lambda>d. d \<noteq> dir) (order w)\<rparr>)) wd' = Some x \<and> dw_dir x = d'"
      by (auto simp: dw_inv_alt)
  qed (use assms(1) d in \<open>auto simp: dw_inv_alt intro: distinct_delete\<close>)
  show ?thesis
    using inv Some len by (auto simp: w' watched_def dw_count_def delete_conv')
qed

text \<open>A fresh watch descriptor keeps the invariant; inotify gives one for every directory not yet watched.\<close>

lemma dw_watch_facts:
  assumes inv: "dw_inv w" and full: "dw_count w \<le> kMaxWatches" and fresh: "map_of (byWd w) wd = None"
    and run: "dw_watch local start_ok wd dir w = (ok, notes, w')"
  shows "dw_inv w' \<and> dw_count w' \<le> kMaxWatches \<and> (ok \<longrightarrow> watched dir w')
    \<and> (\<forall>d. watched d w \<and> \<not> watched d w' \<longrightarrow> unwatched_note d \<in> set notes \<and> dw_count w = kMaxWatches
          \<and> order w \<noteq> [] \<and> d = hd (order w))"
proof (cases "map_of (byDir w) dir \<noteq> None \<or> dw_stopping w \<or> \<not> local \<or> \<not> dw_started w \<and> \<not> start_ok \<or> wd < 0")
  case True
  then have s: "byDir w' = byDir w" "byWd w' = byWd w" "order w' = order w" "ok \<longrightarrow> watched dir w"
    using run by (simp_all add: dw_watch_def Let_def watched_def split: if_splits) auto
  then have "dw_inv w'" using inv by (auto simp: dw_inv_alt)
  moreover have "watched d w' = watched d w" for d using s by (simp only: watched_def)
  moreover have "dw_count w' = dw_count w" using s by (simp only: dw_count_def)
  ultimately show ?thesis using full s(4) by simp
next
  case False
  define w2 where "w2 = w\<lparr>dw_started := True, byDir := byDir w @ [(dir, wd)],
     byWd := AList.update wd \<lparr>dw_dir = dir, dw_notes = []\<rparr> (byWd w), order := order w @ [dir]\<rparr>"
  have nodir: "map_of (byDir w) dir = None" using False by simp
  then have new: "dir \<notin> fst ` set (byDir w)" by (simp add: map_of_eq_None_iff)
  have run2: "ok" "evict (Suc (Suc (length (order w2)))) dir w2 = (notes, w')"
    using run False by (auto simp: dw_watch_def Let_def w2_def update_new [OF new] simp del: evict.simps split: prod.splits)
  have other: "map_of (byDir w) d = Some wd' \<Longrightarrow> wd' \<noteq> wd" for d wd'
    using inv fresh unfolding dw_inv_alt by (metis option.distinct(1))
  have look: "map_of (byDir w2) d = (if d = dir then Some wd else map_of (byDir w) d)" for d
    using nodir by (auto simp: w2_def map_add_def split: option.splits)
  have inv2: "dw_inv w2"
    unfolding dw_inv_alt
  proof (intro conjI allI impI)
    fix d wd'
    assume "map_of (byDir w2) d = Some wd'"
    then show "\<exists>x. map_of (byWd w2) wd' = Some x \<and> dw_dir x = d"
      using inv other look by (auto simp: w2_def update_conv dw_inv_alt split: if_splits)
  qed (use inv new in \<open>auto simp: dw_inv_alt w2_def\<close>)
  have cnt: "dw_count w2 = Suc (dw_count w)" by (simp add: w2_def dw_count_def)
  have w2w: "watched d w2 \<longleftrightarrow> d = dir \<or> watched d w" for d using look by (simp add: watched_def)
  show ?thesis
  proof (cases "dw_count w2 \<le> kMaxWatches")
    case True
    then have "notes = [] \<and> w' = w2" using run2(2) by (simp add: dw_count_def)
    with inv2 True w2w run2(1) show ?thesis by auto
  next
    case over: False
    then have len: "dw_count w = kMaxWatches" using full cnt by simp
    then have "order w \<noteq> []" using dw_inv_length [OF inv] by (auto simp: kMaxWatches_def)
    then obtain v os where os: "order w = v # os" by (cases "order w") auto
    have v: "v \<noteq> dir" "watched v w" "watched v w2"
      using inv os new dw_inv_watched [OF inv, of v] w2w by (auto simp: dw_inv_alt)
    have ord2: "order w2 = v # os @ [dir]" using os by (simp add: w2_def)
    obtain n3 w3 where d: "dropLocked v True w2 = (n3, w3)" by force
    note df = dropLocked_facts [OF inv2 d]
    have "dw_count w3 = kMaxWatches" using df v(3) cnt len by simp
    then have stop: "evict n dir w3 = ([], w3)" for n
      by (cases n) (simp_all add: dw_count_def)
    have "evict (Suc n) dir w2 = (n3, w3)" for n
      using over dropLocked_head [OF ord2 v(3), of True] d v(1) ord2
      by (simp add: dw_count_def Let_def stop del: evict.simps add: evict.simps(2))
    then have "notes = n3 \<and> w' = w3" using run2(2) by simp
    moreover have "watched d w3 \<longleftrightarrow> d \<noteq> v \<and> watched d w2" for d
      using df by (cases "d = v") (auto simp: watched_def)
    ultimately show ?thesis
      using df v os w2w run2(1) \<open>dw_count w3 = kMaxWatches\<close> len by auto
  qed
qed

section \<open>Nothing is lost\<close>

text \<open>A notification that brings a client's copy of \<open>dir\<close> up to date about \<open>name\<close>, or tells it to re-read.\<close>

definition covers :: "host \<Rightarrow> string \<Rightarrow> string \<Rightarrow> json \<Rightarrow> bool" where
  "covers h dir name note \<longleftrightarrow>
     note \<in> {all_reset_note, reset_note dir, unwatched_note dir}
     \<or> (\<exists>names. name \<in> set names \<and> note = dir_note h dir names)"

lemma flush_dir_facts:
  assumes "flush_dir h now resets d names w = (notes, w')"
  shows "(d' \<noteq> d \<longrightarrow> watched d' w' = watched d' w)
    \<and> (watched d w \<longrightarrow> notes = [unwatched_note d] \<or> notes = [reset_note d]
          \<or> (d \<notin> set resets \<and> notes = [dir_note h d names]))"
  using assms
  by (auto simp: flush_dir_def Let_def watched_def dropLocked_def delete_conv' split: option.splits if_splits)

lemma flush_dirs_covers:
  assumes "flush_dirs h now resets ds w = (out, w')" and "distinct (map fst ds)"
    and "(dir, names) \<in> set ds" and "watched dir w" and "name \<in> set names \<or> dir \<in> set resets"
  shows "\<exists>note \<in> set out. covers h dir name note"
  using assms
proof (induction ds arbitrary: w out w')
  case (Cons d ds)
  obtain d0 ns where d: "d = (d0, ns)" by (cases d)
  obtain n1 w1 where f: "flush_dir h now resets d0 ns w = (n1, w1)" by force
  obtain n2 w2 where g: "flush_dirs h now resets ds w1 = (n2, w2)" by force
  have out: "out = n1 @ n2" using Cons.prems(1) d f g by simp
  show ?case
  proof (cases "d0 = dir")
    case True
    then have "ns = names" using Cons.prems(2,3) d by (force simp: rev_image_eqI)
    with True flush_dir_facts [OF f] Cons.prems(4) have "n1 = [unwatched_note dir] \<or> n1 = [reset_note dir]
        \<or> (dir \<notin> set resets \<and> n1 = [dir_note h dir names])" by simp
    then have "\<exists>note \<in> set n1. covers h dir name note"
      using Cons.prems(5) by (elim disjE conjE) (auto simp: covers_def)
    with out show ?thesis by auto
  next
    case False
    then have "(dir, names) \<in> set ds" "watched dir w1"
      using Cons.prems d flush_dir_facts [OF f, of dir] by auto
    with Cons.IH [OF g] Cons.prems(2,5) out show ?thesis by auto
  qed
qed simp


text \<open>What the thread holds accounts for a change once it has been heard.\<close>

definition pending_ok :: "pending \<Rightarrow> bool" where
  "pending_ok pd \<longleftrightarrow> distinct (map fst (pd_names pd))"

definition held :: "string \<Rightarrow> string \<Rightarrow> pending \<Rightarrow> bool" where
  "held dir name pd \<longleftrightarrow> pd_overflow pd \<or> dir \<in> set (pd_gone pd)
     \<or> (\<exists>ns. map_of (pd_names pd) dir = Some ns \<and> (name \<in> set ns \<or> dir \<in> set (pd_resets pd)))"

definition hear :: "(dir_watcher \<times> inotify_event) list \<Rightarrow> pending \<Rightarrow> pending" where
  "hear evs pd = fold (\<lambda>(w, ev). on_event w ev) evs pd"

lemma no_pending_ok [simp]: "pending_ok no_pending"
  by (simp add: pending_ok_def no_pending_def)

lemma on_event_ok: "pending_ok pd \<Longrightarrow> pending_ok (on_event w ev pd)"
  by (auto simp: on_event_def pending_ok_def Let_def distinct_update split: inotify_event.splits option.splits)

lemma on_event_held: "held dir name pd \<Longrightarrow> held dir name (on_event w ev pd)"
  by (auto simp: on_event_def held_def Let_def update_conv' split: inotify_event.splits option.splits)

lemma hear_facts: "pending_ok pd \<Longrightarrow> pending_ok (hear evs pd) \<and> (held dir name pd \<longrightarrow> held dir name (hear evs pd))"
  by (induction evs arbitrary: pd) (auto simp: hear_def on_event_ok on_event_held)

lemma on_event_hears:
  assumes "dw_inv w" and "map_of (byDir w) dir = Some wd" and "\<not> starts_with name ''.scrutiny-write-''"
  shows "held dir name (on_event w (Changed wd (Some name)) pd)"
proof -
  obtain x where "map_of (byWd w) wd = Some x" "dw_dir x = dir"
    using assms(1,2) unfolding dw_inv_alt by blast
  then show ?thesis using assms(3) by (simp add: on_event_def held_def Let_def update_conv')
qed

lemma drop_gone_facts:
  assumes "drop_gone ds w = (out, w')" and "dw_inv w"
  shows "dw_inv w' \<and> (dir \<notin> set ds \<longrightarrow> watched dir w' = watched dir w)
    \<and> (dir \<in> set ds \<and> watched dir w \<longrightarrow> unwatched_note dir \<in> set out)"
  using assms
proof (induction ds arbitrary: w out)
  case (Cons d ds)
  obtain n1 w1 where f: "dropLocked d True w = (n1, w1)" by force
  obtain n2 where g: "drop_gone ds w1 = (n2, w')" "out = n1 @ n2"
    using Cons.prems(1) f by (auto split: prod.splits)
  have df: "dw_inv w1" "d \<noteq> dir \<longrightarrow> watched dir w1 = watched dir w" "watched d w \<longrightarrow> n1 = [unwatched_note d]"
    using dropLocked_facts [OF Cons.prems(2) f] by (auto simp: watched_def)
  from Cons.IH [OF g(1) df(1)] df(2,3) g(2) show ?case by auto
qed simp

lemma flush_covers:
  assumes "pending_ok pd" and "dw_inv w" and "watched dir w" and "held dir name pd"
    and "flush h now pd w = (out, pd', w')"
  shows "\<exists>note \<in> set out. covers h dir name note"
proof -
  obtain n1 w1 where d: "drop_gone (pd_gone pd) w = (n1, w1)" by force
  note dg = drop_gone_facts [OF d assms(2), of dir]
  show ?thesis
  proof (cases "pd_overflow pd")
    case True
    then have "all_reset_note \<in> set out" using assms(5) d by (auto simp: flush_def Let_def split: prod.splits)
    then show ?thesis by (auto simp: covers_def)
  next
    case no: False
    define ds where "ds = sort_key fst (filter (\<lambda>(d, _). d \<notin> set (pd_gone pd)) (pd_names pd))"
    obtain n2 w2 where g: "flush_dirs h now (filter (\<lambda>d. d \<notin> set (pd_gone pd)) (pd_resets pd)) ds w1 = (n2, w2)"
      by force
    have out: "out = n1 @ n2" using assms(5) no d g by (simp add: flush_def ds_def Let_def)
    show ?thesis
    proof (cases "dir \<in> set (pd_gone pd)")
      case True
      with dg assms(3) out have "unwatched_note dir \<in> set out" by simp
      then show ?thesis by (auto simp: covers_def)
    next
      case False
      with no assms(4) obtain ns where ns: "map_of (pd_names pd) dir = Some ns"
        "name \<in> set ns \<or> dir \<in> set (pd_resets pd)" by (auto simp: held_def)
      have "(dir, ns) \<in> set ds" using ns(1) False by (auto simp: ds_def dest: map_of_SomeD)
      moreover have "distinct (map fst (filter (\<lambda>(d, _). d \<notin> set (pd_gone pd)) (pd_names pd)))"
        using assms(1) by (simp add: pending_ok_def distinct_map_filter)
      then have "distinct (map fst ds)"
        by (simp add: ds_def distinct_map inj_on_def)
      ultimately have "\<exists>note \<in> set n2. covers h dir name note"
        using flush_dirs_covers [OF g] False dg assms(3) ns(2) by auto
      with out show ?thesis by auto
    qed
  qed
qed

section \<open>Properties\<close>

text \<open>
  No change in a watched directory is lost. When inotify reports a change of \<open>name\<close> in a directory
  the agent watches (other than one of its own temporary files), then whatever else is reported before
  and after it, also through other states of the watch table, the next flush sends a notification that
  covers it: an entry of \<open>name\<close>, or the order to re-read the directory or everything, or word that the
  directory is no longer watched. The directory has to be still watched at the flush: one dropped before
  was announced when it was dropped.
\<close>

theorem no_change_lost:
  assumes "dw_inv w" and "map_of (byDir w) dir = Some wd" and "\<not> starts_with name ''.scrutiny-write-''"
    and "dw_inv w'" and "watched dir w'"
  shows "\<exists>note \<in> set (fst (flush h now
             (hear later (on_event w (Changed wd (Some name)) (hear earlier no_pending))) w')).
           covers h dir name note"
proof -
  let ?pd = "on_event w (Changed wd (Some name)) (hear earlier no_pending)"
  have "pending_ok ?pd" by (simp add: on_event_ok hear_facts)
  then have "pending_ok (hear later ?pd)" "held dir name (hear later ?pd)"
    using hear_facts on_event_hears [OF assms(1-3)] by blast+
  moreover obtain out pd' w'' where "flush h now (hear later ?pd) w' = (out, pd', w'')" by (metis prod_cases3)
  ultimately show ?thesis using flush_covers [OF _ assms(4,5)] by fastforce
qed

definition one_watch :: dir_watcher where
  "one_watch = snd (snd (dw_watch True True 1 ''/r/d'' new_dir_watcher))"

theorem no_change_lost_witness:
  "\<exists>note \<in> set (fst (flush demo_host 5
             (hear [(one_watch, Changed 1 (Some ''b''))]
               (on_event one_watch (Changed 1 (Some ''a'')) (hear [] no_pending))) one_watch)).
     covers demo_host ''/r/d'' ''a'' note"
  by (rule no_change_lost; code_simp)

text \<open>
  The watch table is bounded and evictions are announced. Watching a directory, with a watch
  descriptor inotify has not given out, keeps the table consistent and at no more than
  \<^verbatim>\<open>kMaxWatches\<close> entries; a \<open>true\<close> answer means the directory is watched; and a directory that stops being
  watched for it is the one watched longest ago, the table was full, and its \<^verbatim>\<open>unwatched\<close> notification is
  sent: no client keeps a copy it believes live.
\<close>

theorem watch_bounded:
  assumes "dw_inv w" and "dw_count w \<le> kMaxWatches" and "map_of (byWd w) wd = None"
    and "dw_watch local start_ok wd dir w = (ok, out, w')"
  shows "dw_inv w' \<and> dw_count w' \<le> kMaxWatches \<and> (ok \<longrightarrow> watched dir w')
    \<and> (\<forall>d. watched d w \<and> \<not> watched d w' \<longrightarrow> unwatched_note d \<in> set out \<and> dw_count w = kMaxWatches
          \<and> order w \<noteq> [] \<and> d = hd (order w))"
  using assms by (rule dw_watch_facts)

theorem watch_bounded_witness:
  "dw_inv one_watch \<and> dw_count one_watch \<le> kMaxWatches \<and> watched ''/r/d'' one_watch"
proof -
  have "dw_inv new_dir_watcher" and "dw_count new_dir_watcher \<le> kMaxWatches"
    and "map_of (byWd new_dir_watcher) 1 = None"
    and "dw_watch True True 1 ''/r/d'' new_dir_watcher = (True, [], one_watch)"
    by code_simp+
  from watch_bounded [OF this] show ?thesis by simp
qed

text \<open>
  The descriptor-freshness hypothesis of the bound is real. \<^verbatim>\<open>inotify_add_watch\<close> answers with the
  descriptor it already has when the directory is the same inode under another name, as after a rename
  of its parent. The second name then takes over the entry of the first in \<^verbatim>\<open>byWd_\<close>: the first stays in
  \<^verbatim>\<open>byDir_\<close>, asking to watch it again still answers that it is watched, and a change made in it is
  reported under the second name only.
\<close>

lemma watch_alias_is_silent:
  "let w = snd (snd (dw_watch True True 1 ''/r/e'' one_watch)) in
     watched ''/r/d'' w \<and> fst (dw_watch True True 1 ''/r/d'' w)
     \<and> pd_names (on_event w (Changed 1 (Some ''a'')) no_pending) = [(''/r/e'', [''a''])]"
  by code_simp

end
