(* ===== verification/Cred.thy ===== *)
theory Cred
  imports IdTable Json
begin

text \<open>
  The credential broker of \<^verbatim>\<open>agent/main.cpp\<close>: a git command gets the agent itself as its askpass
  program, which passes the prompt over a private socket; the broker turns it into a \<^verbatim>\<open>cred.request\<close>
  notification and hands the client's \<^verbatim>\<open>cred.provide\<close> back. \<^verbatim>\<open>g_creds\<close> is a table of pending requests,
  \<^verbatim>\<open>g_credSeq\<close> numbers both the requests and the sockets.
\<close>

section \<open>State\<close>

record pending_cred =
  pc_done :: bool
  pc_value :: string

definition new_pending :: pending_cred where
  "new_pending = \<lparr>pc_done = False, pc_value = []\<rparr>"

type_synonym creds = "pending_cred id_table"

interpretation cred: id_registry "tab_alloc ''c-''" tab_lookup tab_remove "tab_issued ''c-''" "tab_ok ''c-''"
  by (rule tab_registry)

section \<open>The socket\<close>

text \<open>
  \<^verbatim>\<open>CredBroker::start\<close>: the path below \<^verbatim>\<open>$TMPDIR\<close>, numbered by the shared counter. It fails when the path
  does not fit \<^verbatim>\<open>sockaddr_un\<close> or when \<open>sock_ok\<close>, the outcome of \<^verbatim>\<open>socket\<close>, \<^verbatim>\<open>bind\<close> and \<^verbatim>\<open>listen\<close>, is not given.
\<close>

definition sun_path_size :: nat where "sun_path_size = 108"

fun strip_slashes :: "string \<Rightarrow> nat \<Rightarrow> string" where
  "strip_slashes s 0 = s"
| "strip_slashes s (Suc n) =
     (if 1 < length s \<and> last s = CHR ''/'' then strip_slashes (butlast s) n else s)"

definition socket_base :: "string option \<Rightarrow> string" where
  "socket_base tmpdir =
     (let base = (case tmpdir of Some t \<Rightarrow> if t \<noteq> [] then t else ''/tmp'' | None \<Rightarrow> ''/tmp'')
      in strip_slashes base (length base))"

definition broker_start :: "string option \<Rightarrow> nat \<Rightarrow> bool \<Rightarrow> creds \<Rightarrow> string option \<times> creds" where
  "broker_start tmpdir pid sock_ok cs =
     (let seq = tab_seq cs + 1;
          path = socket_base tmpdir @ ''/.scrutiny-cred-'' @ nat_text pid @ ''-'' @ nat_text seq @ ''.sock'';
          cs' = cs\<lparr>tab_seq := seq\<rparr>
      in if sun_path_size \<le> length path \<or> \<not> sock_ok then (None, cs') else (Some path, cs'))"

text \<open>\<^verbatim>\<open>credEnv\<close>; \<open>self\<close> is \<^verbatim>\<open>g_selfExe\<close>.\<close>

definition credEnv :: "string \<Rightarrow> string \<Rightarrow> string list" where
  "credEnv self sock = [''GIT_ASKPASS='' @ self, ''SCRUTINY_CRED_SOCK='' @ sock, ''GIT_TERMINAL_PROMPT=0'']"

section \<open>One request\<close>

text \<open>
  \<^verbatim>\<open>CredBroker::serve\<close> in three parts: the request is entered and announced; the wait ends, because the
  answer came or after two minutes, and the value is taken; the entry is erased and the value written
  to the askpass child.
\<close>

definition cred_request :: "string \<Rightarrow> string \<Rightarrow> string \<Rightarrow> json" where
  "cred_request authOpId credId prompt =
     JObj [(''jsonrpc'', JStr ''2.0''), (''method'', JStr ''cred.request''),
           (''params'', JObj [(''authOpId'', JStr authOpId), (''credId'', JStr credId), (''prompt'', JStr prompt)])]"

definition serve_ask :: "string \<Rightarrow> string \<Rightarrow> creds \<Rightarrow> string \<times> json \<times> creds" where
  "serve_ask authOpId prompt cs =
     (let (credId, cs') = tab_alloc ''c-'' new_pending cs in (credId, cred_request authOpId credId prompt, cs'))"

definition serve_take :: "bool \<Rightarrow> string \<Rightarrow> creds \<Rightarrow> string option" where
  "serve_take timeout credId cs =
     (case tab_lookup credId cs of
        Some pc \<Rightarrow> if pc_done pc \<or> timeout then Some (pc_value pc @ [CHR 0x0A]) else None
      | None \<Rightarrow> None)"

definition serve_end :: "string \<Rightarrow> creds \<Rightarrow> creds" where
  "serve_end credId cs = tab_remove credId cs"

section \<open>cred.provide\<close>

definition handleCredProvide :: "json \<Rightarrow> creds \<Rightarrow> reply \<times> creds" where
  "handleCredProvide p cs =
     (case reqStr p ''credId'' ''cred.provide'' of
        Inl r \<Rightarrow> (r, cs)
      | Inr credId \<Rightarrow>
          (let value = (case str_field ''value'' p of Some v \<Rightarrow> v | None \<Rightarrow> [])
           in case tab_lookup credId cs of
                None \<Rightarrow> (Result (JObj [(''ok'', JBool False)]), cs)
              | Some pc \<Rightarrow> (Result (JObj [(''ok'', JBool True)]),
                           tab_update credId (pc\<lparr>pc_value := value, pc_done := True\<rparr>) cs)))"

section \<open>The askpass child\<close>

text \<open>
  What the child prints, \<open>None\<close> when it exits with 1: the socket could not be reached or written. \<open>answer\<close>
  is what comes back on it. The broker reads the prompt up to a line break, and so does the child its answer.
\<close>

definition first_line :: "string \<Rightarrow> string" where
  "first_line s = takeWhile (\<lambda>c. c \<noteq> CHR 0x0A) s"

definition askpass_request :: "string \<Rightarrow> string" where
  "askpass_request prompt = prompt @ [CHR 0x0A]"

definition askpassMain :: "bool \<Rightarrow> string \<Rightarrow> string option" where
  "askpassMain connected answer = (if connected then Some (first_line answer @ [CHR 0x0A]) else None)"

text \<open>\<^verbatim>\<open>cred.selftest\<close> strips the line ends off what the child printed.\<close>

definition selftest_got :: "string \<Rightarrow> string" where
  "selftest_got out = rstrip (\<lambda>c. c = CHR 0x0A \<or> c = CHR 0x0D) out"

section \<open>Any interleaving\<close>

text \<open>
  The threads' steps on the table: a socket is numbered, a request entered, an answer delivered, a value
  taken, a request erased.
\<close>

datatype cevent =
    CSocket | CAsk string string | CProvide json | CTake bool string string | CEnd string

inductive cstep :: "creds \<Rightarrow> cevent \<Rightarrow> creds \<Rightarrow> bool" where
  socket: "cstep cs CSocket (snd (broker_start tmpdir pid sock_ok cs))"
| ask: "serve_ask opId prompt cs = (credId, msg, cs') \<Longrightarrow> cstep cs (CAsk credId prompt) cs'"
| provide: "cstep cs (CProvide p) (snd (handleCredProvide p cs))"
| take: "serve_take timeout credId cs = Some out \<Longrightarrow> cstep cs (CTake timeout credId out) cs"
| "end": "cstep cs (CEnd credId) (serve_end credId cs)"

inductive crun :: "creds \<Rightarrow> cevent list \<Rightarrow> creds \<Rightarrow> bool" where
  nil: "crun cs [] cs"
| snoc: "crun cs es cs1 \<Longrightarrow> cstep cs1 e cs2 \<Longrightarrow> crun cs (es @ [e]) cs2"

text \<open>The answer a client gave for one request: of several, the last; \<open>None\<close> when there was none.\<close>

fun provided :: "string \<Rightarrow> cevent list \<Rightarrow> string option" where
  "provided i [] = None"
| "provided i (CProvide p # es) =
     (case provided i es of
        Some v \<Rightarrow> Some v
      | None \<Rightarrow> if str_field ''credId'' p = Some i
                then Some (case str_field ''value'' p of Some v \<Rightarrow> v | None \<Rightarrow> []) else None)"
| "provided i (_ # es) = provided i es"

definition answered_pc :: "string option \<Rightarrow> pending_cred" where
  "answered_pc v = (case v of Some x \<Rightarrow> \<lparr>pc_done = True, pc_value = x\<rparr> | None \<Rightarrow> new_pending)"

definition creds_inv :: "creds \<Rightarrow> bool" where
  "creds_inv cs \<longleftrightarrow> tab_ok ''c-'' cs"

lemma tab_ok_seq: "tab_ok pre t \<Longrightarrow> tab_ok pre (t\<lparr>tab_seq := tab_seq t + 1\<rparr>)"
  by (force simp: tab_ok_def tab_issued_def)

lemma tab_ok_update: "tab_ok pre t \<Longrightarrow> tab_lookup i t \<noteq> None \<Longrightarrow> tab_ok pre (tab_update i e t)"
  by (auto simp: tab_ok_def tab_issued_def tab_update_def tab_lookup_def)

lemma cstep_inv: "cstep cs e cs' \<Longrightarrow> creds_inv cs \<Longrightarrow> creds_inv cs'"
proof (induction rule: cstep.induct)
  case (ask opId prompt cs credId msg cs')
  then show ?case
    using cred.alloc_ok [of cs new_pending] by (auto simp: creds_inv_def serve_ask_def split: prod.splits)
qed (auto simp: creds_inv_def broker_start_def Let_def tab_ok_seq [simplified] handleCredProvide_def serve_end_def
       cred.remove_ok tab_ok_update split: sum.splits option.splits)

lemma provided_append:
  "provided i (es @ fs) = (case provided i fs of Some v \<Rightarrow> Some v | None \<Rightarrow> provided i es)"
  by (induction es rule: provided.induct) (auto split: option.splits)

lemma pending_step:
  assumes "cstep cs e cs'" and "creds_inv cs" and "tab_lookup i cs = Some (answered_pc v)"
    and "e \<noteq> CEnd i"
  shows "tab_lookup i cs' = Some (answered_pc (case provided i [e] of Some x \<Rightarrow> Some x | None \<Rightarrow> v))"
  using assms
proof (induction rule: cstep.induct)
  case (ask opId prompt cs credId msg cs')
  then have "credId \<noteq> i"
    using cred.fresh_unknown [of cs new_pending] by (auto simp: creds_inv_def serve_ask_def split: prod.splits)
  with ask show ?case
    using cred.alloc_lookup [of cs i new_pending] by (auto simp: creds_inv_def serve_ask_def split: prod.splits)
next
  case (provide cs p)
  then show ?case
    by (auto simp: handleCredProvide_def reqStr_def answered_pc_def new_pending_def tab_update_def tab_lookup_def Let_def
             split: option.splits)
qed (auto simp: broker_start_def Let_def tab_lookup_def serve_end_def tab_remove_def split: if_splits)

lemma pending_run:
  assumes "crun cs es cs'" and "creds_inv cs" and "tab_lookup i cs = Some new_pending" and "CEnd i \<notin> set es"
  shows "creds_inv cs' \<and> tab_lookup i cs' = Some (answered_pc (provided i es))"
  using assms
proof (induction rule: crun.induct)
  case (nil cs)
  then show ?case by (simp add: answered_pc_def)
next
  case (snoc cs es cs1 e cs2)
  then have "creds_inv cs1" "tab_lookup i cs1 = Some (answered_pc (provided i es))" by auto
  with pending_step [OF snoc(2), of i] cstep_inv [OF snoc(2)] snoc.prems(3) show ?case
    by (auto simp: provided_append split: option.splits)
qed

section \<open>Properties\<close>

text \<open>
  C17. A secret reaches exactly the prompt it was given for. From the moment a prompt is entered under its
  id, whatever other prompts, answers and ends interleave, the line the askpass child reads back is the
  last answer given for that id before it was taken, or empty when there was none, which happens only
  when the wait timed out; and what the child prints for git is the first line of it.
\<close>

theorem credential_delivered:
  assumes "creds_inv cs" and "serve_ask opId prompt cs = (credId, msg, cs1)" and "crun cs1 es cs2"
    and "CEnd credId \<notin> set es" and "serve_take timeout credId cs2 = Some out"
  shows "out = (case provided credId es of Some v \<Rightarrow> v | None \<Rightarrow> []) @ [CHR 0x0A]
    \<and> (provided credId es = None \<longrightarrow> timeout)
    \<and> askpassMain True out = Some (first_line out @ [CHR 0x0A])
    \<and> str_field ''credId'' (case jfind ''params'' msg of Some p \<Rightarrow> p | None \<Rightarrow> JNull) = Some credId"
proof -
  have a: "credId = fst (tab_alloc ''c-'' new_pending cs)" "cs1 = snd (tab_alloc ''c-'' new_pending cs)"
    "msg = cred_request opId credId prompt"
    using assms(2) by (auto simp: serve_ask_def split: prod.splits)
  have "creds_inv cs1" "tab_lookup credId cs1 = Some new_pending"
    using cred.alloc_ok [of cs new_pending] cred.alloc_lookup [of cs "fst (tab_alloc ''c-'' new_pending cs)" new_pending]
      assms(1) by (simp_all add: a creds_inv_def)
  from pending_run [OF assms(3) this assms(4)] assms(5) show ?thesis
    by (auto simp: serve_take_def answered_pc_def new_pending_def askpassMain_def a(3) cred_request_def str_field_def
             split: option.splits if_splits)
qed

theorem credential_delivered_witness:
  "\<exists>cs2. crun (snd (snd (serve_ask ''op'' ''Password: '' empty_table)))
       [CProvide (JObj [(''credId'', JStr ''c-1''), (''value'', JStr ''s3'')])] cs2
     \<and> serve_take False ''c-1'' cs2 = Some (''s3'' @ [CHR 0x0A])"
proof -
  let ?cs1 = "snd (snd (serve_ask ''op'' ''Password: '' empty_table))"
  let ?p = "JObj [(''credId'', JStr ''c-1''), (''value'', JStr ''s3'')]"
  let ?cs2 = "snd (handleCredProvide ?p ?cs1)"
  have one: "nat_text (Suc 0) = ''1''" by code_simp
  then have ask: "serve_ask ''op'' ''Password: '' empty_table
      = (''c-1'', cred_request ''op'' ''c-1'' ''Password: '', ?cs1)"
    by (simp add: serve_ask_def tab_alloc_def tab_id_def empty_table_def Let_def)
  have run: "crun ?cs1 [CProvide ?p] ?cs2"
    using crun.snoc [OF crun.nil cstep.provide [of ?cs1 ?p]] by simp
  have "\<exists>out. serve_take False ''c-1'' ?cs2 = Some out"
    using one by (simp add: serve_take_def handleCredProvide_def reqStr_def str_field_def tab_lookup_def
        tab_update_def serve_ask_def tab_alloc_def tab_id_def empty_table_def Let_def)
  then obtain out where take: "serve_take False ''c-1'' ?cs2 = Some out" by blast
  have "creds_inv empty_table" by (simp add: creds_inv_def)
  from credential_delivered [OF this ask run _ take]
  have "out = ''s3'' @ [CHR 0x0A]" by (simp add: str_field_def)
  with run take show ?thesis by blast
qed

end
