(* ===== verification/GitExec.thy ===== *)
theory GitExec
  imports GitPolicy FsWrite Cred Tunnel "HOL-Library.List_Lexorder" "HOL-Library.Char_ord"
begin

text \<open>
  Running git for a client (\<^verbatim>\<open>agent/main.cpp\<close>): the environment a request may set, the child process
  and the loop that feeds and drains it (\<^verbatim>\<open>runProc\<close>), \<^verbatim>\<open>git.exec\<close>, and \<^verbatim>\<open>git.spawn\<close>. What a child does is a
  parameter; every handler also returns the process it started, if any.
\<close>

section \<open>The environment of the child\<close>

definition kAllowGitEnv :: "string list" where
  "kAllowGitEnv =
     [''GIT_INDEX_FILE'', ''GIT_AUTHOR_NAME'', ''GIT_AUTHOR_EMAIL'', ''GIT_AUTHOR_DATE'',
      ''GIT_COMMITTER_NAME'', ''GIT_COMMITTER_EMAIL'', ''GIT_COMMITTER_DATE'',
      ''GIT_OPTIONAL_LOCKS'', ''GIT_REFLOG_ACTION'', ''GIT_MERGE_AUTOEDIT'',
      ''GIT_LITERAL_PATHSPECS'', ''GIT_GLOB_PATHSPECS'', ''GIT_NOGLOB_PATHSPECS'', ''GIT_ICASE_PATHSPECS'',
      ''LC_ALL'', ''LC_MESSAGES'', ''LC_CTYPE'', ''LANG'', ''LANGUAGE'', ''TZ'',
      ''INSIDE_EMACS'', ''NO_COLOR'', ''TERM'']"

definition isAllowedGitEnv :: "string \<Rightarrow> bool" where
  "isAllowedGitEnv key \<longleftrightarrow> key \<in> set kAllowGitEnv"

definition editor_variables :: "string list" where
  "editor_variables = [''GIT_EDITOR'', ''GIT_SEQUENCE_EDITOR'', ''EDITOR'', ''VISUAL'']"

text \<open>One entry of \<^verbatim>\<open>env\<close>, after those before it gave \<open>acc\<close>.\<close>

definition env_entry ::
  "agent_config \<Rightarrow> filesystem \<Rightarrow> path \<Rightarrow> string \<Rightarrow> string \<times> json \<Rightarrow> string list \<Rightarrow> reply + string list" where
  "env_entry cfg fs cwd repoPath kv acc =
     (let (key, v) = kv;
          editor = g_gitExecEditors cfg \<and> key \<in> set editor_variables
      in if v = JNull \<and> starts_with key ''GIT_'' then Inr (acc @ [key])
         else if \<not> editor \<and> \<not> isAllowedGitEnv key
         then Inl (Error KPermissionDenied (''environment variable '' @ quoted key
                @ '' is not one this agent will set for git; the command was not run''))
         else if v = JNull then Inr (acc @ [key])
         else case jstring v of
           None \<Rightarrow> Inl (Error KInvalidRequest (quoted ''env'' @ '' values must be strings or null''))
         | Some value \<Rightarrow>
             if key = ''GIT_INDEX_FILE''
             then bindr (denied (resolveAndAuthorizeForCreate cfg fs cwd
                     (if value = [] \<or> hd value = CHR ''/'' then value else repoPath @ ''/'' @ value)))
                    (\<lambda>canon. Inr (acc @ [key @ ''='' @ canon]))
             else Inr (acc @ [key @ ''='' @ value]))"

fun env_entries ::
  "agent_config \<Rightarrow> filesystem \<Rightarrow> path \<Rightarrow> string \<Rightarrow> (string \<times> json) list \<Rightarrow> string list \<Rightarrow> reply + string list" where
  "env_entries cfg fs cwd repoPath [] acc = Inr acc"
| "env_entries cfg fs cwd repoPath (kv # kvs) acc =
     bindr (env_entry cfg fs cwd repoPath kv acc) (\<lambda>acc'. env_entries cfg fs cwd repoPath kvs acc')"

text \<open>\<^verbatim>\<open>gitEnvFromParams\<close>; an object iterates in the order of its keys.\<close>

definition gitEnvFromParams ::
  "agent_config \<Rightarrow> filesystem \<Rightarrow> path \<Rightarrow> json \<Rightarrow> string \<Rightarrow> reply + string list" where
  "gitEnvFromParams cfg fs cwd params repoPath =
     (case jfind ''env'' params of
        None \<Rightarrow> Inr []
      | Some JNull \<Rightarrow> Inr []
      | Some (JObj kvs) \<Rightarrow> env_entries cfg fs cwd repoPath (sort_key fst kvs) []
      | Some _ \<Rightarrow> Inl (Error KInvalidRequest (quoted ''env'' @ '' must be an object'')))"

text \<open>
  The child's loop over the entries before \<^verbatim>\<open>exec\<close>: \<^verbatim>\<open>KEY=VALUE\<close> sets, a bare \<^verbatim>\<open>KEY\<close> unsets. \<^verbatim>\<open>setenv\<close> with an
  empty name fails and changes nothing. C strings end at their first NUL.
\<close>

type_synonym environment = "string \<Rightarrow> string option"

definition env_apply :: "string \<Rightarrow> environment \<Rightarrow> environment" where
  "env_apply kv e =
     (if CHR ''='' \<notin> set kv then e(c_str kv := None)
      else (let name = c_str (before CHR ''='' kv)
            in if name = [] then e else e(name \<mapsto> c_str (after CHR ''='' kv))))"

definition child_env :: "string list \<Rightarrow> environment \<Rightarrow> environment" where
  "child_env entries e = fold env_apply entries e"

section \<open>The child process\<close>

text \<open>
  One round of the poll loop of \<^verbatim>\<open>runProc\<close>: what \<^verbatim>\<open>write\<close> to the child's input and \<^verbatim>\<open>read\<close> from each of its
  outputs gave, where poll reported the descriptor.
\<close>

datatype write_result = Wrote nat | WouldBlock | WriteFailed

datatype read_result = Data string | EndOfFile

record round =
  rd_in :: "write_result option"
  rd_out :: "read_result option"
  rd_err :: "read_result option"

record drain =
  dr_fed :: nat
  dr_in :: bool
  dr_out :: string
  dr_outOpen :: bool
  dr_err :: string
  dr_errOpen :: bool

definition drain_start :: "string option \<Rightarrow> drain" where
  "drain_start input =
     \<lparr>dr_fed = 0, dr_in = (input \<noteq> None \<and> input \<noteq> Some []), dr_out = [], dr_outOpen = True,
      dr_err = [], dr_errOpen = True\<rparr>"

definition drain_in :: "nat \<Rightarrow> write_result option \<Rightarrow> drain \<Rightarrow> drain" where
  "drain_in len r d =
     (if \<not> dr_in d then d
      else case r of
        None \<Rightarrow> d
      | Some (Wrote w) \<Rightarrow> (let fed = dr_fed d + w in d\<lparr>dr_fed := fed, dr_in := fed < len\<rparr>)
      | Some WouldBlock \<Rightarrow> d\<lparr>dr_in := dr_fed d < len\<rparr>
      | Some WriteFailed \<Rightarrow> d\<lparr>dr_in := False\<rparr>)"

definition drain_out :: "read_result option \<Rightarrow> drain \<Rightarrow> drain" where
  "drain_out r d =
     (if \<not> dr_outOpen d then d
      else case r of None \<Rightarrow> d | Some (Data s) \<Rightarrow> d\<lparr>dr_out := dr_out d @ s\<rparr> | Some EndOfFile \<Rightarrow> d\<lparr>dr_outOpen := False\<rparr>)"

definition drain_err :: "read_result option \<Rightarrow> drain \<Rightarrow> drain" where
  "drain_err r d =
     (if \<not> dr_errOpen d then d
      else case r of None \<Rightarrow> d | Some (Data s) \<Rightarrow> d\<lparr>dr_err := dr_err d @ s\<rparr> | Some EndOfFile \<Rightarrow> d\<lparr>dr_errOpen := False\<rparr>)"

text \<open>The loop ends when both outputs are closed, or when poll fails: the rounds run out.\<close>

fun drain_rounds :: "nat \<Rightarrow> round list \<Rightarrow> drain \<Rightarrow> drain" where
  "drain_rounds len [] d = d"
| "drain_rounds len (r # rs) d =
     (if dr_outOpen d \<or> dr_errOpen d
      then drain_rounds len rs (drain_err (rd_err r) (drain_out (rd_out r) (drain_in len (rd_in r) d)))
      else d)"

text \<open>A process that could not be started, or one that ran and ended.\<close>

datatype child_outcome = NotStarted | Ran "round list" wait_status

record git_run =
  gr_exitCode :: int
  gr_out :: string
  gr_err :: string

definition runProc :: "string option \<Rightarrow> child_outcome \<Rightarrow> git_run" where
  "runProc input oc =
     (case oc of
        NotStarted \<Rightarrow> \<lparr>gr_exitCode = -1, gr_out = [], gr_err = []\<rparr>
      | Ran rounds status \<Rightarrow>
          (let d = drain_rounds (case input of Some s \<Rightarrow> length s | None \<Rightarrow> 0) rounds (drain_start input);
               code = (case status of Exited c \<Rightarrow> c | _ \<Rightarrow> -1)
           in \<lparr>gr_exitCode = code, gr_out = dr_out d, gr_err = dr_err d\<rparr>))"

text \<open>
  The children a handler starts: what each does, given its request and its input, to the file system
  and on its pipes.
\<close>

type_synonym children = "exec_request \<Rightarrow> string option \<Rightarrow> fs_state \<Rightarrow> child_outcome \<times> fs_state"

definition git_request :: "string list \<Rightarrow> string \<Rightarrow> string list \<Rightarrow> exec_request" where
  "git_request args cwd env =
     \<lparr>ex_program = ''git'', ex_args = args, ex_cwd = cwd, ex_env = env, ex_group = False\<rparr>"

definition run_child :: "children \<Rightarrow> exec_request \<Rightarrow> string option \<Rightarrow> fs_state \<Rightarrow> git_run \<times> fs_state" where
  "run_child child req input st = (let (oc, st') = child req input st in (runProc input oc, st'))"

text \<open>The host's side of the credential broker: \<^verbatim>\<open>$TMPDIR\<close>, the process id, whether the socket can be made, \<^verbatim>\<open>g_selfExe\<close>.\<close>

record broker_host =
  bh_tmpdir :: "string option"
  bh_pid :: nat
  bh_sock_ok :: bool
  bh_self :: string

definition start_broker :: "broker_host \<Rightarrow> creds \<Rightarrow> string option \<times> creds" where
  "start_broker bh cs = broker_start (bh_tmpdir bh) (bh_pid bh) (bh_sock_ok bh) cs"

definition runGitBrokered ::
  "children \<Rightarrow> broker_host \<Rightarrow> string list \<Rightarrow> string \<Rightarrow> fs_state \<Rightarrow> creds
    \<Rightarrow> git_run \<times> exec_request option \<times> fs_state \<times> creds" where
  "runGitBrokered child bh args cwd st cs =
     (case start_broker bh cs of
        (None, cs') \<Rightarrow> (\<lparr>gr_exitCode = -1, gr_out = [], gr_err = ''cred broker setup failed''\<rparr>, None, st, cs')
      | (Some sock, cs') \<Rightarrow>
          (let req = git_request args cwd (credEnv (bh_self bh) sock); (g, st') = run_child child req None st
           in (g, Some req, st', cs')))"

section \<open>git.exec\<close>

definition kGitExecMaxOutput :: nat where "kGitExecMaxOutput = 16 * 1024 * 1024"

fun all_strings :: "json list \<Rightarrow> string list option" where
  "all_strings [] = Some []"
| "all_strings (j # js) =
     (case jstring j of Some s \<Rightarrow> map_option (Cons s) (all_strings js) | None \<Rightarrow> None)"

text \<open>
  The checks \<^verbatim>\<open>git.exec\<close> and \<^verbatim>\<open>git.spawn\<close> share: the parameters, the policy, the directory and the
  environment. They give the arguments, the subcommand, the canonical directory and the entries asked for.
\<close>

definition git_command ::
  "agent_config \<Rightarrow> fs_state \<Rightarrow> string \<Rightarrow> json \<Rightarrow> reply + (string list \<times> string \<times> string \<times> string list)" where
  "git_command cfg st mname params =
     bindr (reqStr params ''repoPath'' mname) (\<lambda>repoPath0.
     bindr (case array_field ''args'' params of
              None \<Rightarrow> Inl (Error KInvalidRequest (mname @ '' requires array param '' @ quoted ''args''))
            | Some js \<Rightarrow>
                (case all_strings js of
                   None \<Rightarrow> Inl (Error KInvalidRequest (mname @ '' '' @ quoted ''args'' @ '' must contain only strings''))
                 | Some args \<Rightarrow> Inr args)) (\<lambda>args.
     bindr (case gitExecPermitted cfg args of
              Inl err \<Rightarrow> Inl (Error KPermissionDenied err) | Inr sub \<Rightarrow> Inr sub) (\<lambda>subcommand.
     bindr (denied (resolveAndAuthorize cfg (st_fs st) (h_cwd (st_host st)) repoPath0)) (\<lambda>repoPath.
     bindr (gitEnvFromParams cfg (st_fs st) (h_cwd (st_host st)) params repoPath) (\<lambda>env.
       Inr (args, subcommand, repoPath, env))))))"

definition forced_env :: "string list" where
  "forced_env = [''GIT_PAGER=cat'', ''GIT_TERMINAL_PROMPT=0'']"

definition exec_input :: "json \<Rightarrow> reply + string option" where
  "exec_input params =
     (case str_field ''stdinBase64'' params of
        None \<Rightarrow> Inr None
      | Some b \<Rightarrow>
          (case base64Decode b of
             Some bytes \<Rightarrow> Inr (Some bytes)
           | None \<Rightarrow> Inl (Error KInvalidRequest (''git.exec '' @ quoted ''stdinBase64'' @ '' is not valid base64''))))"

definition exec_reply :: "git_run \<Rightarrow> reply" where
  "exec_reply g =
     Result (JObj [(''exitCode'', JInt (gr_exitCode g)),
       (''stdout'', JStr (take kGitExecMaxOutput (gr_out g))),
       (''stderr'', JStr (take kGitExecMaxOutput (gr_err g))),
       (''truncated'', JBool (kGitExecMaxOutput < length (gr_out g) \<or> kGitExecMaxOutput < length (gr_err g)))])"

definition handleGitExec ::
  "agent_config \<Rightarrow> children \<Rightarrow> broker_host \<Rightarrow> json \<Rightarrow> fs_state \<Rightarrow> creds
    \<Rightarrow> reply \<times> exec_request option \<times> fs_state \<times> creds" where
  "handleGitExec cfg child bh params st cs =
     (case bindr (git_command cfg st ''git.exec'' params) (\<lambda>c. bindr (exec_input params) (\<lambda>input. Inr (c, input))) of
        Inl r \<Rightarrow> (r, None, st, cs)
      | Inr ((args, subcommand, repoPath, env), input) \<Rightarrow>
          if gitExecNeedsCredentials subcommand \<and> reqStrOptional params ''authOpId'' \<noteq> None
          then (if env \<noteq> [] \<or> input \<noteq> None
                then (Error KInvalidRequest (''git.exec cannot combine '' @ quoted ''authOpId'' @ '' with '' @ quoted ''env''
                        @ '' or '' @ quoted ''stdinBase64'' @ ''; use git.spawn''), None, st, cs)
                else (let (g, req, st', cs') = runGitBrokered child bh (''--no-pager'' # args) repoPath st cs
                      in (exec_reply g, req, fsBarrier st', cs')))
          else (let req = git_request (''--no-pager'' # args) repoPath (env @ forced_env);
                    (g, st') = run_child child req input st
                in (exec_reply g, Some req, fsBarrier st', cs)))"

section \<open>git.spawn\<close>

text \<open>
  The broker is best effort here: when its socket cannot be made, the command runs without. The process
  leads its own group and becomes a tunnel.
\<close>

definition spawn_env :: "broker_host \<Rightarrow> string \<Rightarrow> string list \<Rightarrow> creds \<Rightarrow> string list \<times> creds" where
  "spawn_env bh subcommand env cs =
     (if gitExecNeedsCredentials subcommand
      then (case start_broker bh cs of
              (Some sock, cs') \<Rightarrow>
                (env @ forced_env @ credEnv (bh_self bh) sock
                   @ [''SSH_ASKPASS='' @ bh_self bh, ''SSH_ASKPASS_REQUIRE=force''], cs')
            | (None, cs') \<Rightarrow> (env @ forced_env, cs'))
      else (env @ forced_env, cs))"

definition handleGitSpawn ::
  "agent_config \<Rightarrow> broker_host \<Rightarrow> spawn_outcome \<Rightarrow> json \<Rightarrow> fs_state \<Rightarrow> creds \<Rightarrow> tunnels
    \<Rightarrow> reply \<times> exec_request option \<times> creds \<times> tunnels" where
  "handleGitSpawn cfg bh spawn params st cs ts =
     (case git_command cfg st ''git.spawn'' params of
        Inl r \<Rightarrow> (r, None, cs, ts)
      | Inr (args, subcommand, repoPath, env) \<Rightarrow>
          (let (env', cs') = spawn_env bh subcommand env cs
           in case spawn of
                PipeFailed e \<Rightarrow> (Error KInternal (''pipe() failed: '' @ e), None, cs', ts)
              | ForkFailed e \<Rightarrow> (Error KInternal (''fork() failed: '' @ e), None, cs', ts)
              | Spawned pid \<Rightarrow>
                  (let (tid, ts') = register_tunnel (new_tunnel pid True) ts
                   in (Result (JObj [(''tunnelId'', JStr tid), (''pid'', JInt pid)]),
                       Some \<lparr>ex_program = ''git'', ex_args = ''--no-pager'' # args, ex_cwd = repoPath,
                             ex_env = env', ex_group = True\<rparr>,
                       cs', ts'))))"


section \<open>Feeding and draining the child\<close>

definition data_of :: "read_result option \<Rightarrow> string" where
  "data_of r = (case r of Some (Data s) \<Rightarrow> s | _ \<Rightarrow> [])"

definition closes :: "(round \<Rightarrow> read_result option) \<Rightarrow> round \<Rightarrow> bool" where
  "closes f r \<longleftrightarrow> f r = Some EndOfFile"

text \<open>What an output carried up to its end: the data read before the first end of file.\<close>

definition carried :: "(round \<Rightarrow> read_result option) \<Rightarrow> round list \<Rightarrow> string" where
  "carried f rs = concat (map (\<lambda>r. data_of (f r)) (takeWhile (\<lambda>r. \<not> closes f r) rs))"

lemma carried_Cons: "carried f (r # rs) = (if closes f r then [] else data_of (f r) @ carried f rs)"
  by (simp add: carried_def)

lemma drain_in_others [simp]:
  "dr_out (drain_in n r d) = dr_out d" "dr_outOpen (drain_in n r d) = dr_outOpen d"
  "dr_err (drain_in n r d) = dr_err d" "dr_errOpen (drain_in n r d) = dr_errOpen d"
  by (auto simp: drain_in_def Let_def split: option.splits write_result.splits)

lemma drain_out_others [simp]:
  "dr_err (drain_out r d) = dr_err d" "dr_errOpen (drain_out r d) = dr_errOpen d"
  by (auto simp: drain_out_def split: option.splits read_result.splits)

lemma drain_err_others [simp]:
  "dr_out (drain_err r d) = dr_out d" "dr_outOpen (drain_err r d) = dr_outOpen d"
  by (auto simp: drain_err_def split: option.splits read_result.splits)

lemma drain_rounds_out:
  "dr_out (drain_rounds n rs d) = dr_out d @ (if dr_outOpen d then carried rd_out rs else [])"
proof (induction rs arbitrary: d)
  case (Cons r rs)
  show ?case
    by (auto simp: Cons carried_Cons drain_out_def data_of_def closes_def split: option.splits read_result.splits)
qed (simp add: carried_def)

lemma drain_rounds_err:
  "dr_err (drain_rounds n rs d) = dr_err d @ (if dr_errOpen d then carried rd_err rs else [])"
proof (induction rs arbitrary: d)
  case (Cons r rs)
  show ?case
    by (auto simp: Cons carried_Cons drain_err_def data_of_def closes_def split: option.splits read_result.splits)
qed (simp add: carried_def)


section \<open>What reaches the environment\<close>

definition settable :: "agent_config \<Rightarrow> string \<Rightarrow> bool" where
  "settable cfg k \<longleftrightarrow> isAllowedGitEnv k \<or> g_gitExecEditors cfg \<and> k \<in> set editor_variables"

lemma settable_plain: "settable cfg k \<Longrightarrow> CHR ''='' \<notin> set k \<and> c_str k = k \<and> k \<noteq> []"
proof -
  have "list_all (\<lambda>k. CHR ''='' \<notin> set k \<and> c_str k = k \<and> k \<noteq> []) (kAllowGitEnv @ editor_variables)"
    by code_simp
  then show "settable cfg k \<Longrightarrow> CHR ''='' \<notin> set k \<and> c_str k = k \<and> k \<noteq> []"
    by (auto simp: settable_def isAllowedGitEnv_def list_all_iff)
qed

definition authorized_path :: "agent_config \<Rightarrow> filesystem \<Rightarrow> path \<Rightarrow> string \<Rightarrow> bool" where
  "authorized_path cfg fs cwd v \<longleftrightarrow> (\<exists>s canon. resolveAndAuthorizeForCreate cfg fs cwd s = Inr canon \<and> v = c_str canon)"

definition entry_ok :: "agent_config \<Rightarrow> filesystem \<Rightarrow> path \<Rightarrow> string \<Rightarrow> bool" where
  "entry_ok cfg fs cwd kv \<longleftrightarrow>
     (CHR ''='' \<notin> set kv \<and> (starts_with kv ''GIT_'' \<or> settable cfg kv))
     \<or> (\<exists>k v. kv = k @ ''='' @ v \<and> settable cfg k
          \<and> (k = ''GIT_INDEX_FILE'' \<longrightarrow> authorized_path cfg fs cwd (c_str v)))"

lemma env_entry_ok:
  assumes "env_entry cfg fs cwd repoPath (key, v) acc = Inr acc'" and "CHR ''='' \<notin> set key"
  shows "\<exists>kv. acc' = acc @ [kv] \<and> entry_ok cfg fs cwd kv"
proof (cases "v = JNull")
  case True
  then show ?thesis using assms
    by (auto simp: env_entry_def entry_ok_def settable_def Let_def split: if_splits)
next
  case False
  then obtain val where val: "jstring v = Some val" "settable cfg key"
    using assms(1) by (auto simp: env_entry_def settable_def Let_def split: if_splits option.splits)
  show ?thesis
  proof (cases "key = ''GIT_INDEX_FILE''")
    case True
    obtain s canon where c: "resolveAndAuthorizeForCreate cfg fs cwd s = Inr canon" "acc' = acc @ [key @ ''='' @ canon]"
      using assms(1) False val True
      by (simp add: env_entry_def Let_def bindr_Inr settable_def split: if_splits) blast+
    then show ?thesis using val(2) by (auto simp: entry_ok_def authorized_path_def)
  next
    case other: False
    then have "acc' = acc @ [key @ ''='' @ val]"
      using assms(1) False val by (simp add: env_entry_def Let_def settable_def split: if_splits)
    then show ?thesis using val(2) other by (auto simp: entry_ok_def dest: settable_plain)
  qed
qed

lemma env_entries_ok:
  assumes "env_entries cfg fs cwd repoPath kvs acc = Inr env" and "list_all (entry_ok cfg fs cwd) acc"
    and "\<forall>(k, v) \<in> set kvs. CHR ''='' \<notin> set k"
  shows "list_all (entry_ok cfg fs cwd) env"
  using assms
proof (induction kvs arbitrary: acc)
  case (Cons kv kvs)
  obtain k v where kv: "kv = (k, v)" by (cases kv)
  obtain acc1 where a: "env_entry cfg fs cwd repoPath kv acc = Inr acc1"
    "env_entries cfg fs cwd repoPath kvs acc1 = Inr env"
    using Cons.prems(1) by (auto simp: bindr_Inr)
  have "CHR ''='' \<notin> set k" using Cons.prems(3) kv by auto
  from env_entry_ok [OF a(1) [unfolded kv] this] Cons.prems(2) have "list_all (entry_ok cfg fs cwd) acc1" by auto
  from Cons.IH [OF a(2) this] Cons.prems(3) show ?case by auto
qed simp

definition env_kept :: "agent_config \<Rightarrow> filesystem \<Rightarrow> path \<Rightarrow> environment \<Rightarrow> environment \<Rightarrow> bool" where
  "env_kept cfg fs cwd e0 e \<longleftrightarrow>
     (\<forall>x. e x = e0 x \<or> settable cfg x \<or> starts_with x ''GIT_'' \<and> e x = None)
     \<and> (\<forall>v. e ''GIT_INDEX_FILE'' = Some v \<longrightarrow> e0 ''GIT_INDEX_FILE'' = Some v \<or> authorized_path cfg fs cwd v)"

lemma before_after_sep: "CHR ''='' \<notin> set k \<Longrightarrow> before CHR ''='' (k @ ''='' @ v) = k \<and> after CHR ''='' (k @ ''='' @ v) = v"
  by (induction k) (auto simp: before_def after_def)

lemma env_apply_kept:
  assumes "entry_ok cfg fs cwd kv" and "env_kept cfg fs cwd e0 e"
  shows "env_kept cfg fs cwd e0 (env_apply kv e)"
  using assms(1) unfolding entry_ok_def
proof (elim disjE exE conjE)
  assume kv: "CHR ''='' \<notin> set kv" "starts_with kv ''GIT_''"
  then obtain t where "kv = ''GIT_'' @ t" by (metis starts_with_iff_prefix prefix_def)
  then have "starts_with (c_str kv) ''GIT_''" by (simp add: starts_with_def c_str_def)
  with kv assms(2) show ?thesis by (simp add: env_kept_def env_apply_def)
next
  assume kv: "CHR ''='' \<notin> set kv" "settable cfg kv"
  with settable_plain [OF kv(2)] assms(2) show ?thesis by (simp add: env_kept_def env_apply_def)
next
  fix k v
  assume kv: "kv = k @ ''='' @ v" "settable cfg k" "k = ''GIT_INDEX_FILE'' \<longrightarrow> authorized_path cfg fs cwd (c_str v)"
  note p = settable_plain [OF kv(2)]
  then have "env_apply kv e = e(k \<mapsto> c_str v)"
    using before_after_sep [of k v] by (simp add: env_apply_def kv(1) Let_def)
  with kv assms(2) show ?thesis by (auto simp: env_kept_def)
qed

lemma child_env_kept:
  "list_all (entry_ok cfg fs cwd) env \<Longrightarrow> env_kept cfg fs cwd e0 e \<Longrightarrow> env_kept cfg fs cwd e0 (child_env env e)"
  by (induction env arbitrary: e) (auto simp: child_env_def env_apply_kept)

lemma child_env_forced:
  "child_env (env @ forced_env) e = (child_env env e)(''GIT_PAGER'' \<mapsto> ''cat'', ''GIT_TERMINAL_PROMPT'' \<mapsto> ''0'')"
  by (simp add: child_env_def forced_env_def env_apply_def before_def after_def c_str_def)


section \<open>Properties\<close>

lemma all_strings_map: "all_strings js = Some args \<Longrightarrow> js = map JStr args"
proof (induction js arbitrary: args)
  case (Cons j js)
  then show ?case by (cases j) (auto split: option.splits)
qed simp

lemma git_command_checks:
  assumes "git_command cfg st m params = Inr (args, sub, repoPath, env)"
  shows "array_field ''args'' params = Some (map JStr args)" and "gitExecPermitted cfg args = Inr sub"
    and "\<exists>path. resolveAndAuthorize cfg (st_fs st) (h_cwd (st_host st)) path = Inr repoPath"
    and "gitEnvFromParams cfg (st_fs st) (h_cwd (st_host st)) params repoPath = Inr env"
  using assms by (auto simp: git_command_def bindr_Inr all_strings_map split: option.splits sum.splits)

text \<open>
  The variables a request may give git: its index file, who writes a commit and when, locks and the reflog, how
  paths are matched, language and time, and what the terminal is like.
\<close>

definition requestable :: "string list" where
  "requestable =
     [''GIT_INDEX_FILE'', ''GIT_AUTHOR_NAME'', ''GIT_COMMITTER_NAME'', ''GIT_AUTHOR_EMAIL'', ''GIT_COMMITTER_EMAIL'',
      ''GIT_AUTHOR_DATE'', ''GIT_COMMITTER_DATE'', ''GIT_OPTIONAL_LOCKS'', ''GIT_REFLOG_ACTION'', ''GIT_MERGE_AUTOEDIT'',
      ''GIT_LITERAL_PATHSPECS'', ''GIT_GLOB_PATHSPECS'', ''GIT_NOGLOB_PATHSPECS'', ''GIT_ICASE_PATHSPECS'',
      ''LANG'', ''LANGUAGE'', ''LC_ALL'', ''LC_CTYPE'', ''LC_MESSAGES'', ''TZ'', ''TERM'', ''NO_COLOR'', ''INSIDE_EMACS'']"

lemma isAllowedGitEnv_requestable: "isAllowedGitEnv x \<longleftrightarrow> x \<in> set requestable"
proof -
  have "list_all (\<lambda>k. k \<in> set requestable) kAllowGitEnv \<and> list_all (\<lambda>k. k \<in> set kAllowGitEnv) requestable" by code_simp
  then show ?thesis unfolding isAllowedGitEnv_def list_all_iff by blast
qed

text \<open>
  The environment of a child against the agent's own: what the agent gives it, with \<open>broker\<close>, holds whatever the request
  says; everything else is as it was, but for what a request may set, the editors where they are served,
  and \<^verbatim>\<open>GIT_\<close> variables that are unset. The index file is a path the sandbox resolved.
\<close>

definition confined_env ::
  "agent_config \<Rightarrow> filesystem \<Rightarrow> path \<Rightarrow> (string \<Rightarrow> string option) \<Rightarrow> environment \<Rightarrow> environment \<Rightarrow> bool" where
  "confined_env cfg fs cwd broker own child \<longleftrightarrow>
     child ''GIT_PAGER'' = Some ''cat'' \<and> child ''GIT_TERMINAL_PROMPT'' = Some ''0''
     \<and> (\<forall>x v. broker x = Some v \<longrightarrow> child x = Some v)
     \<and> (\<forall>x. x \<notin> {''GIT_PAGER'', ''GIT_TERMINAL_PROMPT''} \<and> broker x = None \<longrightarrow>
          child x = own x \<or> x \<in> set requestable
          \<or> g_gitExecEditors cfg \<and> x \<in> {''GIT_EDITOR'', ''GIT_SEQUENCE_EDITOR'', ''EDITOR'', ''VISUAL''}
          \<or> prefix ''GIT_'' x \<and> child x = None)
     \<and> (\<forall>v. child ''GIT_INDEX_FILE'' = Some v \<longrightarrow>
          own ''GIT_INDEX_FILE'' = Some v
          \<or> (\<exists>s canon. resolveAndAuthorizeForCreate cfg fs cwd s = Inr canon \<and> v = c_str canon))"

text \<open>What a credential broker adds: the agent as git's askpass program and the socket, and the agent as ssh's.\<close>

definition broker_git :: "string \<Rightarrow> string \<Rightarrow> string \<Rightarrow> string option" where
  "broker_git self sock = [''GIT_ASKPASS'' \<mapsto> c_str self, ''SCRUTINY_CRED_SOCK'' \<mapsto> c_str sock]"

definition broker_ssh :: "string \<Rightarrow> string \<Rightarrow> string option" where
  "broker_ssh self = [''SSH_ASKPASS'' \<mapsto> c_str self, ''SSH_ASKPASS_REQUIRE'' \<mapsto> ''force'']"

lemma request_env_kept:
  assumes "gitEnvFromParams cfg fs cwd params repoPath = Inr env"
    and "\<forall>kvs. jfind ''env'' params = Some (JObj kvs) \<longrightarrow> (\<forall>(k, v) \<in> set kvs. CHR ''='' \<notin> set k)"
  shows "env_kept cfg fs cwd e (child_env env e)"
proof -
  have ok: "list_all (entry_ok cfg fs cwd) env"
  proof (cases "\<exists>kvs. jfind ''env'' params = Some (JObj kvs)")
    case True
    then obtain kvs where kvs: "jfind ''env'' params = Some (JObj kvs)" by blast
    with assms(2) have "\<forall>(k, v) \<in> set (sort_key fst kvs). CHR ''='' \<notin> set k" by simp
    moreover have "env_entries cfg fs cwd repoPath (sort_key fst kvs) [] = Inr env"
      using assms(1) kvs by (simp add: gitEnvFromParams_def)
    ultimately show ?thesis using env_entries_ok [of cfg fs cwd repoPath "sort_key fst kvs" "[]" env] by simp
  next
    case False
    with assms(1) have "env = []" by (auto simp: gitEnvFromParams_def split: option.splits json.splits)
    then show ?thesis by simp
  qed
  have "env_kept cfg fs cwd e e" by (simp add: env_kept_def)
  with ok show ?thesis by (rule child_env_kept)
qed

lemma child_env_append: "child_env (a @ b) e = child_env b (child_env a e)"
  by (simp add: child_env_def)

lemma env_apply_pair: "CHR ''='' \<notin> set k \<Longrightarrow> c_str k = k \<Longrightarrow> k \<noteq> [] \<Longrightarrow> env_apply (k @ CHR ''='' # v) e = e(k \<mapsto> c_str v)"
  by (simp add: env_apply_def)

lemma child_env_cred:
  "child_env (credEnv self sock) e
     = e(''GIT_ASKPASS'' \<mapsto> c_str self, ''SCRUTINY_CRED_SOCK'' \<mapsto> c_str sock, ''GIT_TERMINAL_PROMPT'' \<mapsto> ''0'')"
proof -
  have "env_apply (''GIT_ASKPASS='' @ self) e' = e'(''GIT_ASKPASS'' \<mapsto> c_str self)" for e'
    using env_apply_pair [of "''GIT_ASKPASS''" self e'] by simp
  moreover have "env_apply (''SCRUTINY_CRED_SOCK='' @ sock) e' = e'(''SCRUTINY_CRED_SOCK'' \<mapsto> c_str sock)" for e'
    using env_apply_pair [of "''SCRUTINY_CRED_SOCK''" sock e'] by simp
  moreover have "env_apply ''GIT_TERMINAL_PROMPT=0'' e' = e'(''GIT_TERMINAL_PROMPT'' \<mapsto> ''0'')" for e'
    using env_apply_pair [of "''GIT_TERMINAL_PROMPT''" "''0''" e'] by simp
  ultimately show ?thesis by (simp add: child_env_def credEnv_def)
qed

lemma child_env_ssh:
  "child_env [''SSH_ASKPASS='' @ self, ''SSH_ASKPASS_REQUIRE=force''] e
     = e(''SSH_ASKPASS'' \<mapsto> c_str self, ''SSH_ASKPASS_REQUIRE'' \<mapsto> ''force'')"
proof -
  have "env_apply (''SSH_ASKPASS='' @ self) e' = e'(''SSH_ASKPASS'' \<mapsto> c_str self)" for e'
    using env_apply_pair [of "''SSH_ASKPASS''" self e'] by simp
  moreover have "env_apply ''SSH_ASKPASS_REQUIRE=force'' e' = e'(''SSH_ASKPASS_REQUIRE'' \<mapsto> ''force'')" for e'
    using env_apply_pair [of "''SSH_ASKPASS_REQUIRE''" "''force''" e'] by simp
  ultimately show ?thesis by (simp add: child_env_def)
qed

lemma kept_confined:
  assumes "env_kept cfg fs cwd e E"
    and "child ''GIT_PAGER'' = Some ''cat''" and "child ''GIT_TERMINAL_PROMPT'' = Some ''0''"
    and "\<And>x v. broker x = Some v \<Longrightarrow> child x = Some v"
    and "\<And>x. x \<notin> {''GIT_PAGER'', ''GIT_TERMINAL_PROMPT''} \<Longrightarrow> broker x = None \<Longrightarrow> child x = E x"
    and "broker ''GIT_INDEX_FILE'' = None"
  shows "confined_env cfg fs cwd broker e child"
proof -
  have "child x = e x \<or> x \<in> set requestable \<or> g_gitExecEditors cfg \<and> x \<in> {''GIT_EDITOR'', ''GIT_SEQUENCE_EDITOR'', ''EDITOR'', ''VISUAL''}
      \<or> prefix ''GIT_'' x \<and> child x = None"
    if x: "x \<notin> {''GIT_PAGER'', ''GIT_TERMINAL_PROMPT''}" "broker x = None" for x
  proof -
    have "E x = e x \<or> settable cfg x \<or> starts_with x ''GIT_'' \<and> E x = None"
      using assms(1) unfolding env_kept_def by blast
    then show ?thesis
      unfolding assms(5) [OF x] settable_def isAllowedGitEnv_requestable starts_with_iff_prefix editor_variables_def
      by auto
  qed
  moreover have "child ''GIT_INDEX_FILE'' = E ''GIT_INDEX_FILE''" using assms(5,6) by simp
  ultimately show ?thesis
    using assms(1-4) unfolding confined_env_def env_kept_def authorized_path_def by auto
qed

lemma plain_env_confined:
  assumes "env_kept cfg fs cwd e (child_env env e)"
  shows "confined_env cfg fs cwd Map.empty e (child_env (env @ forced_env) e)"
  by (rule kept_confined [OF assms]) (simp_all add: child_env_forced)

lemma spawn_env_confined:
  assumes "env_kept cfg fs cwd e (child_env env e)"
  shows "confined_env cfg fs cwd
      (case fst (start_broker bh cs) of
         Some sock \<Rightarrow> if gitExecNeedsCredentials sub then broker_git (bh_self bh) sock ++ broker_ssh (bh_self bh) else Map.empty
       | None \<Rightarrow> Map.empty)
      e (child_env (fst (spawn_env bh sub env cs)) e)"
proof (cases "gitExecNeedsCredentials sub \<and> fst (start_broker bh cs) \<noteq> None")
  case True
  then obtain sock cs' where s: "start_broker bh cs = (Some sock, cs')" by (cases "start_broker bh cs") auto
  have "child_env (fst (spawn_env bh sub env cs)) e
      = (child_env env e)(''GIT_PAGER'' \<mapsto> ''cat'', ''GIT_TERMINAL_PROMPT'' \<mapsto> ''0'', ''GIT_ASKPASS'' \<mapsto> c_str (bh_self bh),
          ''SCRUTINY_CRED_SOCK'' \<mapsto> c_str sock, ''GIT_TERMINAL_PROMPT'' \<mapsto> ''0'',
          ''SSH_ASKPASS'' \<mapsto> c_str (bh_self bh), ''SSH_ASKPASS_REQUIRE'' \<mapsto> ''force'')"
  proof -
    have "fst (spawn_env bh sub env cs)
        = (env @ forced_env) @ credEnv (bh_self bh) sock @ [''SSH_ASKPASS='' @ bh_self bh, ''SSH_ASKPASS_REQUIRE=force'']"
      using True s by (simp add: spawn_env_def)
    then show ?thesis
      by (simp only: child_env_append [of "env @ forced_env"] child_env_append [of "credEnv _ _"] child_env_forced
          child_env_cred child_env_ssh)
  qed
  then show ?thesis
    using True s
    by (intro kept_confined [OF assms]) (auto simp: broker_git_def broker_ssh_def map_add_def split: if_splits option.splits)
next
  case False
  then have "fst (spawn_env bh sub env cs) = env @ forced_env"
    by (cases "start_broker bh cs") (auto simp: spawn_env_def split: option.splits)
  with False plain_env_confined [OF assms] show ?thesis by (auto split: option.splits)
qed

text \<open>
  C21. What the environment of git can be. When \<^verbatim>\<open>git.exec\<close> or \<^verbatim>\<open>git.spawn\<close> starts a process, and no key in
  the request's \<^verbatim>\<open>env\<close> contains an equals sign, the process pages through \<^verbatim>\<open>cat\<close> and asks nothing at a terminal
  whatever the request says, and else its environment is the agent's but for the variables a request may set, the
  editor variables where the configuration serves them, and \<^verbatim>\<open>GIT_\<close> variables that are unset; an index file is a
  path the sandbox resolved. A command of \<^verbatim>\<open>git.spawn\<close> that may authenticate also has, where a broker could be started,
  the four variables that point git and ssh at it, over anything the request said. \<^verbatim>\<open>git.exec\<close> with an
  \<^verbatim>\<open>authOpId\<close> for such a command takes no \<^verbatim>\<open>env\<close>: git has the agent's environment with the two variables of
  the broker and no prompt, and no pager set.
\<close>

theorem git_env_confined:
  assumes "\<forall>kvs. jfind ''env'' params = Some (JObj kvs) \<longrightarrow> (\<forall>(k, v) \<in> set kvs. CHR ''='' \<notin> set k)"
  shows "(handleGitExec cfg child bh params st cs = (r, Some req, st', cs') \<longrightarrow>
      (\<exists>args sub. array_field ''args'' params = Some (map JStr args) \<and> gitExecPermitted cfg args = Inr sub
        \<and> (if gitExecNeedsCredentials sub \<and> reqStrOptional params ''authOpId'' \<noteq> None
           then \<exists>sock. fst (start_broker bh cs) = Some sock
              \<and> child_env (ex_env req) e = (e ++ broker_git (bh_self bh) sock)(''GIT_TERMINAL_PROMPT'' \<mapsto> ''0'')
           else confined_env cfg (st_fs st) (h_cwd (st_host st)) Map.empty e (child_env (ex_env req) e))))
    \<and> (handleGitSpawn cfg bh spawn params st cs ts = (r, Some req, cs', ts') \<longrightarrow>
      (\<exists>args sub. array_field ''args'' params = Some (map JStr args) \<and> gitExecPermitted cfg args = Inr sub
        \<and> confined_env cfg (st_fs st) (h_cwd (st_host st))
            (case fst (start_broker bh cs) of
               Some sock \<Rightarrow> if gitExecNeedsCredentials sub then broker_git (bh_self bh) sock ++ broker_ssh (bh_self bh) else Map.empty
             | None \<Rightarrow> Map.empty)
            e (child_env (ex_env req) e)))"
proof (intro conjI impI)
  assume run: "handleGitExec cfg child bh params st cs = (r, Some req, st', cs')"
  then obtain args sub repoPath env input where c: "git_command cfg st ''git.exec'' params = Inr (args, sub, repoPath, env)"
    and i: "exec_input params = Inr input"
    by (cases "git_command cfg st ''git.exec'' params"; cases "exec_input params") (auto simp: handleGitExec_def)
  note f = git_command_checks [OF c]
  show "\<exists>args sub. array_field ''args'' params = Some (map JStr args) \<and> gitExecPermitted cfg args = Inr sub
        \<and> (if gitExecNeedsCredentials sub \<and> reqStrOptional params ''authOpId'' \<noteq> None
           then \<exists>sock. fst (start_broker bh cs) = Some sock
              \<and> child_env (ex_env req) e = (e ++ broker_git (bh_self bh) sock)(''GIT_TERMINAL_PROMPT'' \<mapsto> ''0'')
           else confined_env cfg (st_fs st) (h_cwd (st_host st)) Map.empty e (child_env (ex_env req) e))"
  proof (cases "gitExecNeedsCredentials sub \<and> reqStrOptional params ''authOpId'' \<noteq> None")
    case True
    then obtain sock where "fst (start_broker bh cs) = Some sock" "ex_env req = credEnv (bh_self bh) sock"
      using run by (auto simp: handleGitExec_def c i runGitBrokered_def git_request_def Let_def
          split: if_splits prod.splits option.splits)
    then show ?thesis using f True by (auto simp: child_env_cred broker_git_def)
  next
    case False
    then have "ex_env req = env @ forced_env"
      using run by (auto simp: handleGitExec_def c i git_request_def Let_def split: if_splits prod.splits)
    then show ?thesis using f False plain_env_confined [OF request_env_kept [OF _ assms]] by auto
  qed
next
  assume run: "handleGitSpawn cfg bh spawn params st cs ts = (r, Some req, cs', ts')"
  then obtain args sub repoPath env where c: "git_command cfg st ''git.spawn'' params = Inr (args, sub, repoPath, env)"
    by (cases "git_command cfg st ''git.spawn'' params") (auto simp: handleGitSpawn_def)
  have "ex_env req = fst (spawn_env bh sub env cs)"
    using run by (auto simp: handleGitSpawn_def c Let_def split: prod.splits spawn_outcome.splits)
  then show "\<exists>args sub. array_field ''args'' params = Some (map JStr args) \<and> gitExecPermitted cfg args = Inr sub
        \<and> confined_env cfg (st_fs st) (h_cwd (st_host st))
            (case fst (start_broker bh cs) of
               Some sock \<Rightarrow> if gitExecNeedsCredentials sub then broker_git (bh_self bh) sock ++ broker_ssh (bh_self bh) else Map.empty
             | None \<Rightarrow> Map.empty)
            e (child_env (ex_env req) e)"
    using git_command_checks [OF c] spawn_env_confined [OF request_env_kept [OF _ assms]] by metis
qed

text \<open>
  Without that condition on the keys the statement is false: a key with an equals sign and a null value
  passes as one that is only unset, and the child's loop splits it at the sign and sets the variable.
\<close>

lemma null_key_sets_any_git_variable:
  "gitEnvFromParams demo_cfg demo_fs [] (JObj [(''env'', JObj [(''GIT_SSH_COMMAND=evil'', JNull)])]) ''/r''
     = Inr [''GIT_SSH_COMMAND=evil'']
   \<and> child_env ([''GIT_SSH_COMMAND=evil''] @ forced_env) Map.empty ''GIT_SSH_COMMAND'' = Some ''evil''
   \<and> \<not> isAllowedGitEnv ''GIT_SSH_COMMAND''"
  by code_simp

text \<open>
  The poll loop that feeds the child and drains both its outputs loses and mixes nothing: whatever the
  rounds deliver and in whatever order the descriptors become ready, the result's output is what the child
  wrote to its standard output up to its end, and its errors likewise; it starts no process twice and a
  process that could not be started is the exit code -1.
\<close>

theorem child_output_exact:
  "runProc input (Ran rounds status) =
     \<lparr>gr_exitCode = (case status of Exited c \<Rightarrow> c | _ \<Rightarrow> -1),
      gr_out = carried rd_out rounds, gr_err = carried rd_err rounds\<rparr>
   \<and> runProc input NotStarted = \<lparr>gr_exitCode = -1, gr_out = [], gr_err = []\<rparr>"
  by (simp add: runProc_def Let_def drain_rounds_out drain_rounds_err drain_start_def)

lemma git_command_facts:
  assumes "git_command cfg st m params = Inr (args, sub, repoPath, env)"
    and "roots_ok cfg" and "world_ok (st_fs st) (h_cwd (st_host st))"
  shows "array_field ''args'' params = Some (map JStr args) \<and> gitExecPermitted cfg args = Inr sub
    \<and> (\<exists>p. repoPath = render p \<and> physical (st_fs st) p \<and> inside cfg p)
    \<and> gitEnvFromParams cfg (st_fs st) (h_cwd (st_host st)) params repoPath = Inr env"
  using git_command_checks [OF assms(1)] resolveAndAuthorize_inside [OF _ assms(2,3)] by blast

text \<open>Where a process comes from: the checks passed, and its request is built from what they gave.\<close>

lemma handleGitExec_child:
  assumes "handleGitExec cfg child bh params st cs = (r, Some req, st', cs')"
  shows "\<exists>args sub repoPath env j. git_command cfg st ''git.exec'' params = Inr (args, sub, repoPath, env)
    \<and> ex_program req = ''git'' \<and> ex_args req = ''--no-pager'' # args \<and> ex_cwd req = repoPath \<and> r = Result j"
proof -
  obtain args sub repoPath env where c: "git_command cfg st ''git.exec'' params = Inr (args, sub, repoPath, env)"
    using assms by (cases "git_command cfg st ''git.exec'' params") (auto simp: handleGitExec_def)
  obtain input where i: "exec_input params = Inr input"
    using assms c by (cases "exec_input params") (auto simp: handleGitExec_def)
  show ?thesis
    using assms
    by (auto simp: handleGitExec_def c i runGitBrokered_def git_request_def exec_reply_def Let_def
             split: if_splits prod.splits option.splits)
qed

lemma handleGitSpawn_child:
  assumes "handleGitSpawn cfg bh spawn params st cs ts = (r, Some req, cs', ts')"
  shows "\<exists>args sub repoPath env j. git_command cfg st ''git.spawn'' params = Inr (args, sub, repoPath, env)
    \<and> ex_program req = ''git'' \<and> ex_args req = ''--no-pager'' # args \<and> ex_cwd req = repoPath \<and> r = Result j"
  using assms by (auto simp: handleGitSpawn_def Let_def split: sum.splits prod.splits spawn_outcome.splits)

text \<open>
  C8. Only permitted git commands run, and only inside the roots. When \<^verbatim>\<open>git.exec\<close> or \<^verbatim>\<open>git.spawn\<close> starts
  a process, it is git with \<^verbatim>\<open>--no-pager\<close> and exactly the request's arguments, which the policy permits, in a
  directory that is physically inside an allowed root, and the reply is a result: an error reply always means
  that nothing was started.
\<close>

theorem git_commands_confined:
  assumes "roots_ok cfg" and "world_ok (st_fs st) (h_cwd (st_host st))"
    and "handleGitExec cfg child bh params st cs = (r, Some req, st', cs')
       \<or> handleGitSpawn cfg bh spawn params st cs ts = (r, Some req, cs', ts')"
  shows "\<exists>args sub p j. array_field ''args'' params = Some (map JStr args) \<and> gitExecPermitted cfg args = Inr sub
    \<and> ex_program req = ''git'' \<and> ex_args req = ''--no-pager'' # args
    \<and> ex_cwd req = render p \<and> physical (st_fs st) p \<and> inside cfg p \<and> r = Result j"
proof -
  obtain args sub repoPath env j m where c: "git_command cfg st m params = Inr (args, sub, repoPath, env)"
    "ex_program req = ''git''" "ex_args req = ''--no-pager'' # args" "ex_cwd req = repoPath" "r = Result j"
    using assms(3) handleGitExec_child handleGitSpawn_child by metis
  with git_command_facts [OF c(1) assms(1,2)] show ?thesis by blast
qed

text \<open>A configuration that serves the read-only preset over \<open>/r\<close>, and a child that prints a line and ends.\<close>

definition git_cfg :: agent_config where
  "git_cfg = demo_cfg\<lparr>g_gitExecAllowed := kGitExecReadOnly\<rparr>"

definition echo_child :: children where
  "echo_child req input st =
     (Ran [\<lparr>rd_in = None, rd_out = Some (Data ''ok''), rd_err = None\<rparr>,
           \<lparr>rd_in = None, rd_out = Some EndOfFile, rd_err = Some EndOfFile\<rparr>] (Exited 0), st)"

definition demo_broker :: broker_host where
  "demo_broker = \<lparr>bh_tmpdir = None, bh_pid = 7, bh_sock_ok = True, bh_self = ''/bin/agent''\<rparr>"

definition plain_state :: fs_state where
  "plain_state = \<lparr>st_host = \<lparr>h_fs = demo_fs, h_cwd = [], h_dirstat = (\<lambda>_. (0, 0)), h_owner = (\<lambda>_. (0, 0)),
      h_access = (\<lambda>_. (True, True))\<rparr>,
    st_names = [], st_pid = 7, st_writeSeq = 0, st_now = 5, st_barriers = 0\<rparr>"

definition status_request :: json where
  "status_request = JObj [(''repoPath'', JStr ''/r''), (''args'', JArr [JStr ''status'', JStr ''--short''])]"

theorem git_commands_confined_witness:
  "\<exists>r req st' cs' p. handleGitExec git_cfg echo_child demo_broker status_request plain_state empty_table
        = (r, Some req, st', cs')
     \<and> ex_cwd req = render p \<and> inside git_cfg p \<and> physical demo_fs p"
proof -
  have "git_command git_cfg plain_state ''git.exec'' status_request = Inr ([''status'', ''--short''], ''status'', ''/r'', [])"
    by code_simp
  then have "fst (snd (handleGitExec git_cfg echo_child demo_broker status_request plain_state empty_table)) \<noteq> None"
    by (simp add: handleGitExec_def exec_input_def status_request_def str_field_def gitExecNeedsCredentials_def
        Let_def split: prod.splits)
  then obtain r req st' cs' where
    run: "handleGitExec git_cfg echo_child demo_broker status_request plain_state empty_table = (r, Some req, st', cs')"
    by (cases "handleGitExec git_cfg echo_child demo_broker status_request plain_state empty_table") auto
  have "roots_ok git_cfg" using demo_roots by (simp add: roots_ok_def git_cfg_def)
  moreover have "world_ok (st_fs plain_state) (h_cwd (st_host plain_state))"
    using demo_world by (simp add: plain_state_def st_fs_def)
  ultimately have "\<exists>p. ex_cwd req = render p \<and> physical (st_fs plain_state) p \<and> inside git_cfg p"
    by (metis git_commands_confined [OF _ _ disjI1 [OF run]])
  then show ?thesis using run by (auto simp: plain_state_def st_fs_def)
qed

definition fetch_request :: json where
  "fetch_request = JObj [(''repoPath'', JStr ''/r''), (''args'', JArr [JStr ''ls-remote'']),
     (''env'', JObj [(''GIT_PAGER'', JNull), (''LANG'', JStr ''C'')])]"

theorem git_env_confined_witness:
  "\<exists>(r :: reply) req st' (cs' :: creds) r2 req2 (cs2 :: creds) (ts2 :: tunnels).
     handleGitExec git_cfg echo_child demo_broker fetch_request plain_state empty_table = (r, Some req, st', cs')
     \<and> confined_env git_cfg demo_fs [] Map.empty (\<lambda>_. Some ''x'') (child_env (ex_env req) (\<lambda>_. Some ''x''))
     \<and> handleGitSpawn git_cfg demo_broker (Spawned 9) fetch_request plain_state empty_table no_tunnels = (r2, Some req2, cs2, ts2)
     \<and> child_env (ex_env req2) (\<lambda>_. Some ''x'') ''GIT_ASKPASS'' = Some ''/bin/agent''"
proof -
  let ?e = "\<lambda>_. Some ''x''" and ?args = "[''ls-remote'']"
  have keys: "\<forall>kvs. jfind ''env'' fetch_request = Some (JObj kvs) \<longrightarrow> (\<forall>(k, v) \<in> set kvs. CHR ''='' \<notin> set k)"
    by (auto simp: fetch_request_def)
  have fs: "st_fs plain_state = demo_fs" "h_cwd (st_host plain_state) = []" by (simp_all add: plain_state_def st_fs_def)
  have c: "git_command git_cfg plain_state m fetch_request
      = Inr (?args, ''ls-remote'', ''/r'', [''GIT_PAGER'', ''LANG=C''])" if "m = ''git.exec'' \<or> m = ''git.spawn''" for m
    using that by (elim disjE; hypsubst) code_simp+
  have sub: "gitExecNeedsCredentials sub \<and> sub = ''ls-remote''" and arg: "args = ?args"
    if "array_field ''args'' fetch_request = Some (map JStr args)" "gitExecPermitted git_cfg args = Inr sub" for args sub
  proof -
    have "array_field ''args'' fetch_request = Some (map JStr ?args)" by code_simp
    with that(1) have "map JStr args = map JStr ?args" by simp
    then show a: "args = ?args" by (cases args) auto
    have "gitExecPermitted git_cfg ?args = Inr ''ls-remote''" "gitExecNeedsCredentials ''ls-remote''" by code_simp+
    with that(2) show "gitExecNeedsCredentials sub \<and> sub = ''ls-remote''" unfolding a by simp
  qed
  have opt: "reqStrOptional fetch_request ''authOpId'' = None" "exec_input fetch_request = Inr None" by code_simp+
  have "fst (snd (handleGitExec git_cfg echo_child demo_broker fetch_request plain_state empty_table)) \<noteq> None"
    using c opt by (simp add: handleGitExec_def Let_def split: prod.splits)
  then obtain r req st' cs' where run: "handleGitExec git_cfg echo_child demo_broker fetch_request plain_state empty_table = (r, Some req, st', cs')"
    by (cases "handleGitExec git_cfg echo_child demo_broker fetch_request plain_state empty_table") auto
  have "fst (snd (handleGitSpawn git_cfg demo_broker (Spawned 9) fetch_request plain_state empty_table no_tunnels)) \<noteq> None"
    using c by (simp add: handleGitSpawn_def Let_def split: prod.splits)
  then obtain r2 req2 cs2 ts2 where run2:
    "handleGitSpawn git_cfg demo_broker (Spawned 9) fetch_request plain_state empty_table no_tunnels = (r2, Some req2, cs2, ts2)"
    by (cases "handleGitSpawn git_cfg demo_broker (Spawned 9) fetch_request plain_state empty_table no_tunnels") auto
  obtain sock where sock: "fst (start_broker demo_broker empty_table) = Some sock"
  proof -
    have "fst (start_broker demo_broker empty_table) \<noteq> None" by code_simp
    then show ?thesis using that by blast
  qed
  note one = git_env_confined [OF keys, of git_cfg echo_child demo_broker plain_state empty_table r req st' cs' ?e, THEN conjunct1,
      rule_format, OF run]
  note two = git_env_confined [OF keys, where cfg = git_cfg and bh = demo_broker and spawn = "Spawned 9" and st = plain_state
      and cs = empty_table and ts = no_tunnels and e = ?e, THEN conjunct2, rule_format, OF run2]
  from one opt(1) have "confined_env git_cfg demo_fs [] Map.empty ?e (child_env (ex_env req) ?e)"
    unfolding fs by auto
  moreover from two have "child_env (ex_env req2) ?e ''GIT_ASKPASS'' = Some ''/bin/agent''"
    unfolding fs sock option.case using sub
    by (auto simp: confined_env_def broker_git_def broker_ssh_def map_add_def demo_broker_def)
  ultimately show ?thesis using run run2 by blast
qed

end
