(* ===== verification/GitTyped.thy ===== *)
theory GitTyped
  imports GitExec
begin

text \<open>
  The git methods with fixed commands (\<^verbatim>\<open>agent/main.cpp\<close>): \<^verbatim>\<open>git.showFile\<close>, \<^verbatim>\<open>git.diff\<close>, \<^verbatim>\<open>git.isAncestor\<close>,
  \<^verbatim>\<open>git.clone\<close>, \<^verbatim>\<open>git.fetch\<close>, \<^verbatim>\<open>git.ensureRepository\<close> and \<^verbatim>\<open>cred.selftest\<close>. Each returns the processes it
  started with its reply.
\<close>

section \<open>Reading commands\<close>

definition runGit :: "children \<Rightarrow> string list \<Rightarrow> string \<Rightarrow> fs_state \<Rightarrow> git_run \<times> exec_request \<times> fs_state" where
  "runGit child args cwd st =
     (let req = git_request args cwd []; (g, st') = run_child child req None st in (g, req, st'))"

definition out_or_null :: "string \<Rightarrow> git_run \<Rightarrow> reply" where
  "out_or_null key g = Result (JObj [(key, if gr_exitCode g = 0 then JStr (gr_out g) else JNull)])"

definition handleShowFile ::
  "children \<Rightarrow> json \<Rightarrow> fs_state \<Rightarrow> reply \<times> exec_request option \<times> fs_state" where
  "handleShowFile child params st =
     (case bindr (reqStr params ''path'' ''git.showFile'') (\<lambda>path.
           bindr (reqStr params ''sha'' ''git.showFile'') (\<lambda>sha.
           bindr (reqStr params ''file'' ''git.showFile'') (\<lambda>file. Inr (path, sha, file)))) of
        Inl r \<Rightarrow> (r, None, st)
      | Inr (path, sha, file) \<Rightarrow>
          (let (g, req, st') = runGit child [''show'', sha @ '':'' @ file] path st
           in (out_or_null ''content'' g, Some req, st')))"

definition handleGitDiff ::
  "children \<Rightarrow> json \<Rightarrow> fs_state \<Rightarrow> reply \<times> exec_request option \<times> fs_state" where
  "handleGitDiff child params st =
     (case bindr (reqStr params ''path'' ''git.diff'') (\<lambda>path.
           bindr (reqStr params ''from'' ''git.diff'') (\<lambda>fro.
           bindr (reqStr params ''to'' ''git.diff'') (\<lambda>to.
           bindr (reqStr params ''file'' ''git.diff'') (\<lambda>file. Inr (path, fro, to, file))))) of
        Inl r \<Rightarrow> (r, None, st)
      | Inr (path, fro, to, file) \<Rightarrow>
          (let (g, req, st') = runGit child [''diff'', ''-U3'', fro @ ''..'' @ to, ''--'', file] path st
           in (out_or_null ''diff'' g, Some req, st')))"

definition handleIsAncestor ::
  "children \<Rightarrow> json \<Rightarrow> fs_state \<Rightarrow> reply \<times> exec_request option \<times> fs_state" where
  "handleIsAncestor child params st =
     (case bindr (reqStr params ''path'' ''git.isAncestor'') (\<lambda>path.
           bindr (reqStr params ''ancestor'' ''git.isAncestor'') (\<lambda>anc.
           bindr (reqStr params ''descendant'' ''git.isAncestor'') (\<lambda>desc. Inr (path, anc, desc)))) of
        Inl r \<Rightarrow> (r, None, st)
      | Inr (path, anc, desc) \<Rightarrow>
          (let (g, req, st') = runGit child [''merge-base'', ''--is-ancestor'', anc, desc] path st
           in (Result (JObj [(''isAncestor'', JBool (gr_exitCode g = 0))]), Some req, st')))"

section \<open>Clones\<close>

definition repoKey :: "string \<Rightarrow> string" where
  "repoKey fullName = map (\<lambda>c. if c = CHR ''/'' then CHR ''_'' else c) fullName"

text \<open>
  \<^verbatim>\<open>std::filesystem::remove_all\<close> with the error ignored: a link or file is unlinked, a directory's content
  is removed and then the directory, which fails for a name that ends in a slash, \<^verbatim>\<open>.\<close> or \<^verbatim>\<open>..\<close>. Then the
  directory stays, emptied; the root of the tree stays too.
\<close>

definition remove_all :: "filesystem \<Rightarrow> path \<Rightarrow> string \<Rightarrow> filesystem" where
  "remove_all fs cwd s =
     (case slot_of fs cwd s of
        Inl _ \<Rightarrow> fs
      | Inr p \<Rightarrow>
          (let leaf = last (split_on CHR ''/'' (c_str s)); fs' = remove_tree fs p
           in if leaf \<in> {''.'', ''..''} then fs'(p := fs p) else fs'))"

definition gitFailed :: "string \<Rightarrow> git_run \<Rightarrow> reply" where
  "gitFailed what g =
     Error KGitFailed (what @ '' failed (exit '' @ int_text (gr_exitCode g) @ ''): '' @ take 600 (gr_err g))"

definition cloned_reply :: "string \<Rightarrow> string \<Rightarrow> fs_state \<Rightarrow> reply" where
  "cloned_reply dest url st =
     Result (JObj [(''localPath'', JStr dest), (''cloneURL'', JStr url), (''lastFetched'', JInt (st_now st))])"

text \<open>What \<^verbatim>\<open>git.clone\<close> and \<^verbatim>\<open>git.ensureRepository\<close> are asked for; \<^verbatim>\<open>authOpId\<close> only labels the prompts.\<close>

definition clone_params :: "agent_config \<Rightarrow> string \<Rightarrow> json \<Rightarrow> reply + (string \<times> string \<times> string)" where
  "clone_params cfg m p =
     bindr (reqStr p ''fullName'' m) (\<lambda>fullName.
     bindr (reqStr p ''cloneURL'' m) (\<lambda>cloneURL.
     bindr (reqStr p ''installDir'' m) (\<lambda>installDir.
     bindr (reqStr p ''authOpId'' m) (\<lambda>_. Inr (fullName, cloneURL, resolveRoot cfg installDir)))))"

definition handleGitClone ::
  "agent_config \<Rightarrow> children \<Rightarrow> broker_host \<Rightarrow> json \<Rightarrow> fs_state \<Rightarrow> creds
    \<Rightarrow> reply \<times> exec_request option \<times> fs_state \<times> creds" where
  "handleGitClone cfg child bh p st cs =
     (case clone_params cfg ''git.clone'' p of
        Inl r \<Rightarrow> (r, None, st, cs)
      | Inr (fullName, cloneURL, installDir) \<Rightarrow>
          (let cwd = h_cwd (st_host st);
               fs1 = snd (create_directories (st_fs st) cwd installDir);
               dest = installDir @ ''/'' @ repoKey fullName;
               fs2 = remove_all fs1 cwd dest;
               (g, req, st', cs') = runGitBrokered child bh [''clone'', ''--progress'', cloneURL, dest] installDir
                                      (set_fs fs2 st) cs
           in (if gr_exitCode g \<noteq> 0 then gitFailed ''git clone'' g else cloned_reply dest cloneURL st',
               req, st', cs')))"

definition handleGitFetch ::
  "agent_config \<Rightarrow> children \<Rightarrow> broker_host \<Rightarrow> json \<Rightarrow> fs_state \<Rightarrow> creds
    \<Rightarrow> reply \<times> exec_request option \<times> fs_state \<times> creds" where
  "handleGitFetch cfg child bh p st cs =
     (case bindr (reqStr p ''repoPath'' ''git.fetch'') (\<lambda>repoPath.
           bindr (reqStr p ''authOpId'' ''git.fetch'') (\<lambda>_. Inr (resolveRoot cfg repoPath))) of
        Inl r \<Rightarrow> (r, None, st, cs)
      | Inr repoPath \<Rightarrow>
          (let (g, req, st', cs') = runGitBrokered child bh [''fetch'', ''--all'', ''--prune''] repoPath st cs
           in (if gr_exitCode g \<noteq> 0 then gitFailed ''git fetch'' g
               else Result (JObj [(''ok'', JBool True), (''lastFetched'', JInt (st_now st'))]),
               req, st', cs')))"

definition repo_present :: "filesystem \<Rightarrow> path \<Rightarrow> string \<Rightarrow> bool" where
  "repo_present fs cwd dest \<longleftrightarrow>
     status_at fs cwd (dest @ ''/.git'') \<noteq> None \<or> status_at fs cwd (dest @ ''/HEAD'') \<noteq> None"

definition handleEnsureRepository ::
  "agent_config \<Rightarrow> children \<Rightarrow> broker_host \<Rightarrow> json \<Rightarrow> fs_state \<Rightarrow> creds
    \<Rightarrow> reply \<times> exec_request option \<times> fs_state \<times> creds" where
  "handleEnsureRepository cfg child bh p st cs =
     (case clone_params cfg ''git.ensureRepository'' p of
        Inl r \<Rightarrow> (r, None, st, cs)
      | Inr (fullName, cloneURL, installDir) \<Rightarrow>
          (let cwd = h_cwd (st_host st);
               fs1 = snd (create_directories (st_fs st) cwd installDir);
               dest = installDir @ ''/'' @ repoKey fullName;
               present = repo_present fs1 cwd dest;
               (g, req, st', cs') =
                 (if present then runGitBrokered child bh [''fetch'', ''--all'', ''--prune''] dest (set_fs fs1 st) cs
                  else runGitBrokered child bh [''clone'', ''--progress'', cloneURL, dest] installDir
                         (set_fs fs1 st) cs)
           in (if gr_exitCode g \<noteq> 0 then gitFailed (if present then ''git fetch'' else ''git clone'') g
               else cloned_reply dest cloneURL st',
               req, st', cs')))"

text \<open>\<^verbatim>\<open>cred.selftest\<close> runs the agent itself in askpass mode against a broker of its own.\<close>

definition handleCredSelftest ::
  "children \<Rightarrow> broker_host \<Rightarrow> json \<Rightarrow> fs_state \<Rightarrow> creds
    \<Rightarrow> reply \<times> exec_request option \<times> fs_state \<times> creds" where
  "handleCredSelftest child bh p st cs =
     (case bindr (reqStr p ''authOpId'' ''cred.selftest'') (\<lambda>_. reqStr p ''prompt'' ''cred.selftest'') of
        Inl r \<Rightarrow> (r, None, st, cs)
      | Inr prompt \<Rightarrow>
          (case start_broker bh cs of
             (None, cs') \<Rightarrow> (Error KInternal ''cred broker setup failed'', None, st, cs')
           | (Some sock, cs') \<Rightarrow>
               (let req = \<lparr>ex_program = bh_self bh, ex_args = [prompt], ex_cwd = ''/tmp'',
                           ex_env = [''SCRUTINY_CRED_SOCK='' @ sock], ex_group = False\<rparr>;
                    (g, st') = run_child child req None st
                in (Result (JObj [(''got'', JStr (selftest_got (gr_out g))), (''askpassExit'', JInt (gr_exitCode g))]),
                    Some req, st', cs'))))"

section \<open>Properties\<close>

lemma repoKey_no_slash: "CHR ''/'' \<notin> set (repoKey n)"
  by (auto simp: repoKey_def)

lemma remove_tree_elsewhere: "\<not> prefix p q \<Longrightarrow> remove_tree fs p q = fs q"
  by (simp add: remove_tree_def)

lemma split_on_two: "split_on c (s @ c # t) = split_on c s @ split_on c t"
  by (induction s) (auto split: list.splits)

lemma repoKey_nul: "CHR 0x00 \<notin> set n \<Longrightarrow> CHR 0x00 \<notin> set (repoKey n)"
  by (auto simp: repoKey_def split: if_splits)

lemma slot_below:
  assumes "realpath fs cwd dir = Inr d" and "dir_at fs d" and "CHR 0x00 \<notin> set dir" and "CHR 0x00 \<notin> set k"
    and "CHR ''/'' \<notin> set k" and "k \<notin> {[], ''.'', ''..''}"
  shows "slot_of fs cwd (dir @ ''/'' @ k) = Inr (d @ [k]) \<and> last (split_on CHR ''/'' (dir @ ''/'' @ k)) = k"
proof -
  have dir: "dir \<noteq> []" using assms(1) by (auto simp: realpath_def c_str_def)
  have comps: "split_on CHR ''/'' (dir @ ''/'' @ k) = split_on CHR ''/'' dir @ [k]"
    using assms(5) by (simp add: split_on_two split_on_no_sep)
  have w: "walk fs max_links (if hd dir = CHR ''/'' then [] else cwd) (split_on CHR ''/'' dir) = Inr d"
    using assms(1,3) dir by (simp add: realpath_def)
  have c: "c_str (dir @ ''/'' @ k) = dir @ ''/'' @ k" using assms(3,4) by simp
  show ?thesis
    unfolding slot_of_def Let_def c comps
    using w assms(2,6) dir by simp
qed

text \<open>
  A clone replaces one directory and nothing else. Leave aside what git itself does (the children
  change nothing): when the repository's key (its name with the
  slashes turned into underscores) is not empty, \<^verbatim>\<open>.\<close> or \<^verbatim>\<open>..\<close>, everything \<^verbatim>\<open>git.clone\<close> removes before it
  starts git is the entry of that name in the directory the install path leads to, and what is below it; and
  git is told to clone to that entry.
\<close>

theorem clone_replaces_one:
  assumes "clone_params cfg ''git.clone'' p = Inr (fullName, cloneURL, dir)"
    and "fs1 = snd (create_directories (st_fs st) (h_cwd (st_host st)) dir)"
    and "realpath fs1 (h_cwd (st_host st)) dir = Inr d" and "dir_at fs1 d"
    and "repoKey fullName \<notin> {[], ''.'', ''..''}" and "CHR 0x00 \<notin> set dir" and "CHR 0x00 \<notin> set fullName"
    and "\<forall>req input s. snd (child req input s) = s"
    and "handleGitClone cfg child bh p st cs = (r, req, st', cs')"
  shows "(\<forall>q. \<not> prefix (d @ [repoKey fullName]) q \<longrightarrow> st_fs st' q = fs1 q)
    \<and> (\<forall>x. req = Some x \<longrightarrow> ex_args x = [''clone'', ''--progress'', cloneURL, dir @ ''/'' @ repoKey fullName])"
proof -
  let ?fs2 = "remove_all fs1 (h_cwd (st_host st)) (dir @ ''/'' @ repoKey fullName)"
  note k = slot_below [OF assms(3,4,6) repoKey_nul [OF assms(7)] repoKey_no_slash assms(5)]
  have "CHR 0x00 \<notin> set (dir @ ''/'' @ repoKey fullName)" using assms(6) repoKey_nul [OF assms(7)] by auto
  then have "\<not> prefix (d @ [repoKey fullName]) q \<Longrightarrow> ?fs2 q = fs1 q" for q
    using k assms(5) by (simp add: remove_all_def Let_def remove_tree_elsewhere)
  moreover have "st_fs st' = ?fs2 \<and> (\<forall>x. req = Some x \<longrightarrow>
      ex_args x = [''clone'', ''--progress'', cloneURL, dir @ ''/'' @ repoKey fullName])"
  proof -
    have still: "child req input s = (oc, s') \<Longrightarrow> s' = s" for req input s oc s'
      using assms(8) by (metis snd_conv)
    show ?thesis
    using assms(1,2,9)
    by (auto simp: handleGitClone_def Let_def runGitBrokered_def run_child_def git_request_def st_fs_def set_fs_def
             dest!: still split: prod.splits option.splits)
  qed
  ultimately show ?thesis by simp
qed

text \<open>A host that can start nothing, to look at what the handlers do themselves.\<close>

definition no_children :: children where
  "no_children req input st = (NotStarted, st)"

definition clone_request :: "string \<Rightarrow> json" where
  "clone_request fullName = JObj [(''fullName'', JStr fullName), (''cloneURL'', JStr ''u''),
     (''installDir'', JStr ''/r/x''), (''authOpId'', JStr ''op'')]"

theorem clone_replaces_one_witness:
  "\<exists>r req st' cs'. handleGitClone demo_cfg no_children demo_broker (clone_request ''a/b'') plain_state empty_table
       = (r, req, st', cs')
     \<and> st_fs st' [''r'', ''f''] = Some (File ''data'' 420 1)"
proof -
  let ?run = "handleGitClone demo_cfg no_children demo_broker (clone_request ''a/b'') plain_state empty_table"
  let ?fs1 = "snd (create_directories (st_fs plain_state) (h_cwd (st_host plain_state)) ''/r/x'')"
  obtain r req st' cs' where run: "?run = (r, req, st', cs')" by (metis prod_cases4)
  have p: "clone_params demo_cfg ''git.clone'' (clone_request ''a/b'') = Inr (''a/b'', ''u'', ''/r/x'')" by code_simp
  have "realpath ?fs1 (h_cwd (st_host plain_state)) ''/r/x'' = Inr [''r'', ''x'']" "dir_at ?fs1 [''r'', ''x'']"
    "repoKey ''a/b'' \<notin> {[], ''.'', ''..''}" "CHR 0x00 \<notin> set ''/r/x''" "CHR 0x00 \<notin> set ''a/b''"
    by code_simp+
  from clone_replaces_one [OF p refl this _ run]
  have "st_fs st' [''r'', ''f''] = ?fs1 [''r'', ''f'']" by (simp add: repoKey_def no_children_def)
  moreover have "?fs1 [''r'', ''f''] = Some (File ''data'' 420 1)" by code_simp
  ultimately show ?thesis using run by auto
qed

definition show_request :: json where
  "show_request = JObj [(''path'', JStr ''/s''), (''sha'', JStr ''--output=/s/x''), (''file'', JStr ''f'')]"

text \<open>
  The methods with fixed commands are outside the rules of \<^verbatim>\<open>git.exec\<close>. On an agent with no roots, no
  \<^verbatim>\<open>git.exec\<close> and no write permission, a clone of a repository named \<^verbatim>\<open>..\<close> removes everything below the
  install directory's parent; and \<^verbatim>\<open>git.showFile\<close> hands git an option in the place of a revision, in any
  directory: here one that makes git write a file, which the policy of \<^verbatim>\<open>git.exec\<close> refuses even when
  \<^verbatim>\<open>show\<close> is served.
\<close>

theorem typed_git_unconfined:
  "st_fs plain_state [''r'', ''f''] \<noteq> None
   \<and> st_fs (fst (snd (snd (handleGitClone (initial_config None) no_children demo_broker (clone_request ''..'')
        plain_state empty_table)))) [''r'', ''f''] = None
   \<and> map_option ex_args (fst (snd (handleShowFile no_children show_request plain_state)))
       = Some [''show'', ''--output=/s/x:f'']
   \<and> map_option ex_cwd (fst (snd (handleShowFile no_children show_request plain_state))) = Some ''/s''
   \<and> ''show'' \<in> set (g_gitExecAllowed git_cfg)
   \<and> isl (gitExecPermitted git_cfg [''show'', ''--output=/s/x:f''])"
proof -
  have "st_fs plain_state [''r'', ''f''] \<noteq> None" by code_simp
  moreover have "st_fs (fst (snd (snd (handleGitClone (initial_config None) no_children demo_broker
      (clone_request ''..'') plain_state empty_table)))) [''r'', ''f''] = None" by code_simp
  moreover have "map_option ex_args (fst (snd (handleShowFile no_children show_request plain_state)))
       = Some [''show'', ''--output=/s/x:f'']" by code_simp
  moreover have "map_option ex_cwd (fst (snd (handleShowFile no_children show_request plain_state))) = Some ''/s''"
    by code_simp
  moreover have "''show'' \<in> set (g_gitExecAllowed git_cfg)" by code_simp
  moreover have "isl (gitExecPermitted git_cfg [''show'', ''--output=/s/x:f''])" by code_simp
  ultimately show ?thesis by blast
qed

end
