(* ===== verification/Indexer.thy ===== *)
theory Indexer
  imports Prelude "HOL-Library.List_Lexorder" "HOL-Library.Char_ord"
begin

text \<open>
  The codebase indexer of the core (\<^verbatim>\<open>core/src/indexer/Indexer.cpp\<close>) with the part of the cache it writes
  (\<^verbatim>\<open>core/src/db/LSPCache.cpp\<close>). The language server's answers, \<^verbatim>\<open>fnmatch\<close> and the directory listing are
  parameters. \<open>cancelled n\<close> is what the \<open>n\<close>-th look at the cancellation flag finds.
\<close>

section \<open>Files\<close>

definition default_includes :: "string list" where
  "default_includes = [''*.rs'', ''*.py'', ''*.js'', ''*.ts'', ''*.jsx'', ''*.tsx'', ''*.go'', ''*.c'', ''*.cpp'',
     ''*.cc'', ''*.cxx'', ''*.h'', ''*.hpp'', ''*.hxx'', ''*.swift'', ''*.java'', ''*.rb'', ''*.php'']"

definition default_excludes :: "string list" where
  "default_excludes = [''node_modules/*'', ''.git/*'', ''target/*'', ''build/*'', ''dist/*'', ''__pycache__/*'',
     ''*.pyc'', ''.venv/*'', ''venv/*'', ''vendor/*'', ''.idea/*'', ''.vscode/*'', ''*.min.js'', ''*.bundle.js'']"

definition filename :: "string \<Rightarrow> string" where
  "filename p = after_last CHR ''/'' p"

text \<open>\<open>fnm pathname pattern text\<close> is \<^verbatim>\<open>fnmatch == 0\<close>, with \<^verbatim>\<open>FNM_PATHNAME\<close> or without.\<close>

definition matchesPatterns :: "(bool \<Rightarrow> string \<Rightarrow> string \<Rightarrow> bool) \<Rightarrow> string \<Rightarrow> string list \<Rightarrow> bool" where
  "matchesPatterns fnm p patterns \<longleftrightarrow>
     list_ex (\<lambda>pat. fnm True pat p \<or> fnm False pat (filename p)) patterns"

definition shouldIncludeFile ::
  "(bool \<Rightarrow> string \<Rightarrow> string \<Rightarrow> bool) \<Rightarrow> string list \<Rightarrow> string list \<Rightarrow> string \<Rightarrow> bool" where
  "shouldIncludeFile fnm includes excludes relative \<longleftrightarrow>
     \<not> matchesPatterns fnm relative excludes \<and> (includes = [] \<or> matchesPatterns fnm relative includes)"

text \<open>
  The regular files below the workspace, each with its path relative to it; paths compare by their
  components.
\<close>

definition collectFiles ::
  "(bool \<Rightarrow> string \<Rightarrow> string \<Rightarrow> bool) \<Rightarrow> string list \<Rightarrow> string list \<Rightarrow> (string \<times> string) list \<Rightarrow> string list" where
  "collectFiles fnm includes excludes listing =
     sort_key (split_on CHR ''/'')
       (map fst (filter (\<lambda>(_, relative). shouldIncludeFile fnm includes excludes relative) listing))"

definition extension :: "string \<Rightarrow> string" where
  "extension p =
     (let n = filename p
      in if CHR ''.'' \<in> set (tl n) \<and> n \<noteq> ''..'' then CHR ''.'' # after_last CHR ''.'' n else [])"

definition language_ids :: "(string \<times> string) list" where
  "language_ids = [(''.rs'', ''rust''), (''.py'', ''python''), (''.js'', ''javascript''),
     (''.jsx'', ''javascriptreact''), (''.ts'', ''typescript''), (''.tsx'', ''typescriptreact''), (''.go'', ''go''),
     (''.c'', ''c''), (''.cpp'', ''cpp''), (''.cc'', ''cpp''), (''.cxx'', ''cpp''), (''.h'', ''c''), (''.hpp'', ''cpp''),
     (''.hxx'', ''cpp''), (''.swift'', ''swift''), (''.java'', ''java''), (''.rb'', ''ruby''), (''.php'', ''php'')]"

definition getLanguageId :: "string \<Rightarrow> string" where
  "getLanguageId p =
     (case map_of language_ids (ascii_lower (extension p)) of Some l \<Rightarrow> l | None \<Rightarrow> [])"

section \<open>Identifiers in a line\<close>

definition ident_char :: "char \<Rightarrow> bool" where
  "ident_char c \<longleftrightarrow> (CHR ''a'' \<le> c \<and> c \<le> CHR ''z'') \<or> (CHR ''A'' \<le> c \<and> c \<le> CHR ''Z'') \<or> is_digit c \<or> c = CHR ''_''"

text \<open>
  The matches of \<^verbatim>\<open>\b([a-zA-Z_][a-zA-Z0-9_]*)\b\<close>: the maximal runs of word characters that do not begin with a
  digit, each with its column.
\<close>

function words_from :: "int \<Rightarrow> string \<Rightarrow> (string \<times> int) list" where
  "words_from col [] = []"
| "words_from col (c # cs) =
     (if ident_char c
      then (let w = takeWhile ident_char (c # cs)
            in (if is_digit c then [] else [(w, col)])
               @ words_from (col + int (length w)) (dropWhile ident_char (c # cs)))
      else words_from (col + 1) cs)"
  by pat_completeness auto
termination
  by (relation "measure (length \<circ> snd)") (auto simp: le_imp_less_Suc length_dropWhile_le)

definition index_keywords :: "string list" where
  "index_keywords =
     [''if'', ''else'', ''while'', ''for'', ''do'', ''switch'', ''case'', ''default'',
      ''break'', ''continue'', ''return'', ''goto'', ''sizeof'', ''typedef'',
      ''struct'', ''union'', ''enum'', ''const'', ''static'', ''extern'', ''register'',
      ''volatile'', ''inline'', ''void'', ''char'', ''short'', ''int'', ''long'',
      ''float'', ''double'', ''signed'', ''unsigned'', ''auto'', ''class'', ''public'',
      ''private'', ''protected'', ''virtual'', ''override'', ''final'', ''new'', ''delete'',
      ''try'', ''catch'', ''throw'', ''namespace'', ''using'', ''template'', ''typename'',
      ''true'', ''false'', ''nullptr'', ''this'',
      ''def'', ''import'', ''from'', ''as'', ''with'', ''lambda'', ''pass'',
      ''raise'', ''assert'', ''yield'', ''global'', ''nonlocal'', ''del'', ''in'', ''is'',
      ''and'', ''or'', ''not'', ''None'', ''True'', ''False'', ''async'', ''await'',
      ''function'', ''var'', ''let'', ''undefined'', ''null'', ''typeof'',
      ''instanceof'', ''export'', ''extends'', ''implements'', ''interface'',
      ''fn'', ''mut'', ''pub'', ''mod'', ''use'', ''crate'', ''self'', ''super'',
      ''impl'', ''trait'', ''where'', ''match'', ''loop'', ''ref'', ''move'', ''dyn'',
      ''func'', ''package'', ''type'', ''map'', ''chan'', ''go'', ''defer'', ''select'', ''range'', ''fallthrough'',
      ''protocol'', ''extension'', ''init'', ''deinit'', ''guard'', ''associatedtype'']"

definition extractIdentifiers :: "string \<Rightarrow> (string \<times> int) list" where
  "extractIdentifiers line = filter (\<lambda>(w, _). w \<notin> set index_keywords) (words_from 0 line)"

section \<open>Symbols, definitions, references\<close>

type_synonym position = "int \<times> int"

type_synonym lsp_range = "position \<times> position"

datatype lsp_symbol = LspSymbol string int lsp_range "lsp_symbol list"

record index_definition =
  id_name :: string
  id_uri :: string
  id_kind :: int
  id_range :: lsp_range
  id_container :: string

record index_reference =
  ir_symbol :: string
  ir_fromUri :: string
  ir_fromRange :: lsp_range
  ir_toUri :: string
  ir_toRange :: lsp_range

text \<open>\<^verbatim>\<open>processSymbol\<close>: a symbol, then what it contains, with the names of what contains them.\<close>

fun symbol_definitions :: "string \<Rightarrow> string \<Rightarrow> lsp_symbol \<Rightarrow> index_definition list" where
  "symbol_definitions uri container (LspSymbol n kind rng children) =
     \<lparr>id_name = n, id_uri = uri, id_kind = kind, id_range = rng, id_container = container\<rparr>
     # concat (map (symbol_definitions uri (if container = [] then n else container @ ''::'' @ n)) children)"

text \<open>
  What the language server answers: whether it starts, which files it fails to open, a file's symbols and
  the definitions of what is at a position (\<open>None\<close> for an error).
\<close>

record lsp_server =
  ls_starts :: bool
  ls_opens :: "string \<Rightarrow> string \<Rightarrow> bool"
  ls_symbols :: "string \<Rightarrow> lsp_symbol list option"
  ls_definition :: "string \<Rightarrow> position \<Rightarrow> (string \<times> lsp_range) list option"

definition identifier_reference ::
  "lsp_server \<Rightarrow> string \<Rightarrow> int \<Rightarrow> string \<times> int \<Rightarrow> index_reference option" where
  "identifier_reference ls uri n wc =
     (let (w, col) = wc
      in if length w < 2 then None
         else case ls_definition ls uri (n, col) of
           Some ((to, rng) # _) \<Rightarrow>
             (if to \<noteq> uri \<or> fst (fst rng) \<noteq> n \<or> snd (fst rng) \<noteq> col
              then Some \<lparr>ir_symbol = w, ir_fromUri = uri, ir_fromRange = ((n, col), (n, col + int (length w))),
                         ir_toUri = to, ir_toRange = rng\<rparr>
              else None)
         | _ \<Rightarrow> None)"

definition line_references :: "lsp_server \<Rightarrow> string \<Rightarrow> int \<Rightarrow> string \<Rightarrow> index_reference list" where
  "line_references ls uri n line = List.map_filter (identifier_reference ls uri n) (extractIdentifiers line)"

section \<open>The index tables of the cache\<close>

text \<open>
  \<^verbatim>\<open>LSPCache\<close>'s tables \<^verbatim>\<open>index_definitions\<close>, \<^verbatim>\<open>index_references\<close> and \<^verbatim>\<open>indexed_files\<close>, their rows with the git
  SHA they were written under; without a SHA, or closed, the cache stores nothing and finds nothing.
\<close>

record lsp_cache =
  lc_open :: bool
  lc_sha :: string
  lc_definitions :: "(index_definition \<times> string) list"
  lc_references :: "(index_reference \<times> string) list"
  lc_files :: "(string \<times> string) list"

definition normalizeFilePath :: "string \<Rightarrow> string" where
  "normalizeFilePath p = (if starts_with p ''file://'' then drop 7 p else p)"

definition cache_active :: "lsp_cache \<Rightarrow> bool" where
  "cache_active c \<longleftrightarrow> lc_open c \<and> lc_sha c \<noteq> []"

definition storeIndexDefinition :: "index_definition \<Rightarrow> lsp_cache \<Rightarrow> lsp_cache" where
  "storeIndexDefinition d c =
     (if \<not> cache_active c then c
      else c\<lparr>lc_definitions := lc_definitions c @ [(d\<lparr>id_uri := normalizeFilePath (id_uri d)\<rparr>, lc_sha c)]\<rparr>)"

definition storeIndexReference :: "index_reference \<Rightarrow> lsp_cache \<Rightarrow> lsp_cache" where
  "storeIndexReference r c =
     (if \<not> cache_active c then c
      else c\<lparr>lc_references := lc_references c
               @ [(r\<lparr>ir_fromUri := normalizeFilePath (ir_fromUri r), ir_toUri := normalizeFilePath (ir_toUri r)\<rparr>,
                   lc_sha c)]\<rparr>)"

text \<open>The table's key is the file alone: a mark under another SHA replaces the earlier one.\<close>

definition markFileIndexed :: "string \<Rightarrow> lsp_cache \<Rightarrow> lsp_cache" where
  "markFileIndexed uri c =
     (if \<not> cache_active c then c else c\<lparr>lc_files := (normalizeFilePath uri, lc_sha c) # filter (\<lambda>(f, _). f \<noteq> normalizeFilePath uri) (lc_files c)\<rparr>)"

definition isFileIndexed :: "string \<Rightarrow> lsp_cache \<Rightarrow> bool" where
  "isFileIndexed uri c \<longleftrightarrow> cache_active c \<and> (normalizeFilePath uri, lc_sha c) \<in> set (lc_files c)"

section \<open>The indexer\<close>

record indexer =
  ix_running :: bool
  ix_definitions :: "index_definition list"
  ix_references :: "index_reference list"
  ix_cache :: "lsp_cache option"
  ix_polls :: nat

definition new_indexer :: "lsp_cache option \<Rightarrow> indexer" where
  "new_indexer c = \<lparr>ix_running = False, ix_definitions = [], ix_references = [], ix_cache = c, ix_polls = 0\<rparr>"

definition add_definition :: "index_definition \<Rightarrow> indexer \<Rightarrow> indexer" where
  "add_definition d ix =
     ix\<lparr>ix_definitions := ix_definitions ix @ [d], ix_cache := map_option (storeIndexDefinition d) (ix_cache ix)\<rparr>"

definition add_reference :: "index_reference \<Rightarrow> indexer \<Rightarrow> indexer" where
  "add_reference r ix =
     ix\<lparr>ix_references := ix_references ix @ [r], ix_cache := map_option (storeIndexReference r) (ix_cache ix)\<rparr>"

definition poll_cancel :: "(nat \<Rightarrow> bool) \<Rightarrow> indexer \<Rightarrow> bool \<times> indexer" where
  "poll_cancel cancelled ix = (cancelled (ix_polls ix), ix\<lparr>ix_polls := Suc (ix_polls ix)\<rparr>)"

text \<open>The loop over a file's lines, which looks for cancellation after each.\<close>

fun scan_lines :: "(nat \<Rightarrow> bool) \<Rightarrow> lsp_server \<Rightarrow> string \<Rightarrow> int \<Rightarrow> string list \<Rightarrow> indexer \<Rightarrow> indexer" where
  "scan_lines cancelled ls uri n [] ix = ix"
| "scan_lines cancelled ls uri n (l # lines) ix =
     (let (stop, ix') = poll_cancel cancelled (fold add_reference (line_references ls uri n l) ix)
      in if stop then ix' else scan_lines cancelled ls uri (n + 1) lines ix')"

definition file_uri :: "string \<Rightarrow> string" where
  "file_uri p = ''file://'' @ p"

definition indexFile ::
  "(nat \<Rightarrow> bool) \<Rightarrow> lsp_server \<Rightarrow> (string \<Rightarrow> string) \<Rightarrow> string \<Rightarrow> indexer \<Rightarrow> bool \<times> indexer" where
  "indexFile cancelled ls content p ix =
     (let text = content p; uri = file_uri p; lang = getLanguageId p
      in if text = [] then (False, ix)
         else if lang = [] then (False, ix)
         else if (case ix_cache ix of Some c \<Rightarrow> isFileIndexed uri c | None \<Rightarrow> False) then (True, ix)
         else if \<not> ls_opens ls uri text then (False, ix)
         else (let defs = (case ls_symbols ls uri of
                             Some syms \<Rightarrow> concat (map (symbol_definitions uri []) syms) | None \<Rightarrow> []);
                   ix1 = fold add_definition defs ix;
                   ix2 = scan_lines cancelled ls uri 0 (getlines text) ix1
               in (True, ix2\<lparr>ix_cache := map_option (markFileIndexed uri) (ix_cache ix2)\<rparr>)))"

text \<open>
  The loop over the files. The progress callback \<open>cb\<close> is told the file, its number and the total, and says
  whether to go on; its state is \<open>'c\<close>.
\<close>

fun index_files ::
  "(nat \<Rightarrow> bool) \<Rightarrow> lsp_server \<Rightarrow> (string \<Rightarrow> string) \<Rightarrow> (string \<Rightarrow> int \<Rightarrow> int \<Rightarrow> 'c \<Rightarrow> bool \<times> 'c) \<Rightarrow> int
    \<Rightarrow> string list \<Rightarrow> int \<Rightarrow> int \<Rightarrow> 'c \<Rightarrow> indexer \<Rightarrow> int \<times> 'c \<times> indexer" where
  "index_files cancelled ls content cb total' [] cur done' c ix = (done', c, ix)"
| "index_files cancelled ls content cb total' (p # ps) cur done' c ix =
     (let (stop, ix1) = poll_cancel cancelled ix
      in if stop then (done', c, ix1)
         else (let (go, c') = cb p (cur + 1) total' c
               in if \<not> go then (done', c', ix1)
                  else (let (ok, ix2) = indexFile cancelled ls content p ix1
                        in index_files cancelled ls content cb total' ps (cur + 1)
                             (if ok then done' + 1 else done') c' ix2)))"

datatype index_error = AlreadyRunning | ServerFailed

record index_result =
  xr_error :: "index_error option"
  xr_filesIndexed :: int
  xr_definitionsFound :: int
  xr_referencesFound :: int

definition failed_result :: "index_error option \<Rightarrow> index_result" where
  "failed_result e = \<lparr>xr_error = e, xr_filesIndexed = 0, xr_definitionsFound = 0, xr_referencesFound = 0\<rparr>"

text \<open>\<^verbatim>\<open>Indexer::run\<close> on the files \<^verbatim>\<open>collectFiles\<close> found. It clears an earlier cancellation first.\<close>

definition index_run ::
  "(nat \<Rightarrow> bool) \<Rightarrow> lsp_server \<Rightarrow> (string \<Rightarrow> string) \<Rightarrow> (string \<Rightarrow> int \<Rightarrow> int \<Rightarrow> 'c \<Rightarrow> bool \<times> 'c) \<Rightarrow> string list
    \<Rightarrow> 'c \<Rightarrow> indexer \<Rightarrow> index_result \<times> 'c \<times> indexer" where
  "index_run cancelled ls content cb files c ix =
     (if ix_running ix then (failed_result (Some AlreadyRunning), c, ix)
      else (let ix0 = ix\<lparr>ix_definitions := [], ix_references := [], ix_polls := 0\<rparr>
            in if files = [] then (failed_result None, c, ix0)
               else if \<not> ls_starts ls then (failed_result (Some ServerFailed), c, ix0)
               else (let (n, c', ix1) = index_files cancelled ls content cb (int (length files)) files 0 0 c ix0
                     in (\<lparr>xr_error = None, xr_filesIndexed = n,
                          xr_definitionsFound = int (length (ix_definitions ix1)),
                          xr_referencesFound = int (length (ix_references ix1))\<rparr>, c', ix1))))"


section \<open>What an undisturbed run finds\<close>

text \<open>The definitions and references of one file.\<close>

definition file_definitions :: "lsp_server \<Rightarrow> string \<Rightarrow> index_definition list" where
  "file_definitions ls p =
     (case ls_symbols ls (file_uri p) of
        Some syms \<Rightarrow> concat (map (symbol_definitions (file_uri p) []) syms) | None \<Rightarrow> [])"

fun references_from :: "lsp_server \<Rightarrow> string \<Rightarrow> int \<Rightarrow> string list \<Rightarrow> index_reference list" where
  "references_from ls uri n [] = []"
| "references_from ls uri n (l # lines) = line_references ls uri n l @ references_from ls uri (n + 1) lines"

definition file_references :: "lsp_server \<Rightarrow> (string \<Rightarrow> string) \<Rightarrow> string \<Rightarrow> index_reference list" where
  "file_references ls content p = references_from ls (file_uri p) 0 (getlines (content p))"

text \<open>The callback's state after it was told of each file in turn.\<close>

fun progress_calls :: "(string \<Rightarrow> int \<Rightarrow> int \<Rightarrow> 'c \<Rightarrow> bool \<times> 'c) \<Rightarrow> int \<Rightarrow> int \<Rightarrow> string list \<Rightarrow> 'c \<Rightarrow> 'c" where
  "progress_calls cb tot cur [] c = c"
| "progress_calls cb tot cur (p # ps) c = progress_calls cb tot (cur + 1) ps (snd (cb p (cur + 1) tot c))"

text \<open>The states that differ only in how often the flag was looked at.\<close>

definition tables :: "indexer \<Rightarrow> index_definition list \<times> index_reference list \<times> lsp_cache option" where
  "tables ix = (ix_definitions ix, ix_references ix, ix_cache ix)"

lemma fold_add_definition:
  "tables (fold add_definition ds ix) = (ix_definitions ix @ ds, ix_references ix, map_option (fold storeIndexDefinition ds) (ix_cache ix))"
  by (induction ds arbitrary: ix) (auto simp: add_definition_def tables_def option.map_comp o_def option.map_id)

lemma fold_add_reference:
  "tables (fold add_reference rs ix) = (ix_definitions ix, ix_references ix @ rs, map_option (fold storeIndexReference rs) (ix_cache ix))"
  by (induction rs arbitrary: ix) (auto simp: add_reference_def tables_def option.map_comp o_def option.map_id)

text \<open>
  What a run leaves in a cache \<open>k\<close>: with a SHA, the new rows under it behind the old ones, and the files \<open>us\<close> known
  besides those that were; without one, or without a cache, nothing.
\<close>

definition known :: "lsp_cache option \<Rightarrow> string \<Rightarrow> bool" where
  "known k p \<longleftrightarrow> (case k of Some c \<Rightarrow> isFileIndexed (file_uri p) c | None \<Rightarrow> False)"

definition stored ::
  "lsp_cache option \<Rightarrow> index_definition list \<Rightarrow> index_reference list \<Rightarrow> string set \<Rightarrow> lsp_cache option \<Rightarrow> bool" where
  "stored k ds rs us k' \<longleftrightarrow>
     (case k of
        None \<Rightarrow> k' = None
      | Some c \<Rightarrow>
          if \<not> cache_active c then k' = Some c
          else (\<exists>c'. k' = Some c' \<and> lc_open c' = lc_open c \<and> lc_sha c' = lc_sha c
                 \<and> lc_definitions c' = lc_definitions c
                     @ map (\<lambda>d. (d\<lparr>id_uri := normalizeFilePath (id_uri d)\<rparr>, lc_sha c)) ds
                 \<and> lc_references c' = lc_references c
                     @ map (\<lambda>r. (r\<lparr>ir_fromUri := normalizeFilePath (ir_fromUri r), ir_toUri := normalizeFilePath (ir_toUri r)\<rparr>,
                                  lc_sha c)) rs
                 \<and> (\<forall>p. isFileIndexed (file_uri p) c' \<longleftrightarrow> isFileIndexed (file_uri p) c \<or> p \<in> us)))"

lemma stored_trans: "stored k ds rs us k1 \<Longrightarrow> stored k1 ds' rs' us' k2 \<Longrightarrow> stored k (ds @ ds') (rs @ rs') (us \<union> us') k2"
  by (cases k; cases k1) (auto simp: stored_def cache_active_def split: if_splits)

lemma stored_refl: "stored k [] [] {} k"
  by (cases k) (auto simp: stored_def)

lemma stored_known: "stored k ds rs us k' \<Longrightarrow> p \<notin> us \<Longrightarrow> known k' p = known k p"
  by (cases k) (auto simp: stored_def known_def isFileIndexed_def split: if_splits)

lemma stored_definitions: "stored k ds [] {} (map_option (fold storeIndexDefinition ds) k)"
proof (induction ds arbitrary: k)
  case (Cons d ds)
  have "stored k [d] [] {} (map_option (storeIndexDefinition d) k)"
    by (cases k) (auto simp: stored_def storeIndexDefinition_def isFileIndexed_def cache_active_def)
  from stored_trans [OF this Cons.IH] show ?case by (cases k) simp_all
qed (simp add: stored_refl option.map_id)

lemma stored_references: "stored k [] rs {} (map_option (fold storeIndexReference rs) k)"
proof (induction rs arbitrary: k)
  case (Cons r rs)
  have "stored k [] [r] {} (map_option (storeIndexReference r) k)"
    by (cases k) (auto simp: stored_def storeIndexReference_def isFileIndexed_def cache_active_def)
  from stored_trans [OF this Cons.IH] show ?case by (cases k) simp_all
qed (simp add: stored_refl option.map_id)

lemma normalized_file_uri [simp]: "normalizeFilePath (file_uri p) = p"
  by (simp add: normalizeFilePath_def file_uri_def starts_with_def)

lemma stored_mark: "stored k [] [] {p} (map_option (markFileIndexed (file_uri p)) k)"
  by (cases k) (auto simp: stored_def markFileIndexed_def isFileIndexed_def cache_active_def)

lemma scan_lines_all:
  "\<exists>k. tables (scan_lines (\<lambda>_. False) ls uri n lines ix) = (ix_definitions ix, ix_references ix @ references_from ls uri n lines, k)
     \<and> stored (ix_cache ix) [] (references_from ls uri n lines) {} k"
proof (induction lines arbitrary: n ix)
  case (Cons l lines)
  let ?ix1 = "fold add_reference (line_references ls uri n l) ix"
  have c: "ix_definitions ?ix1 = ix_definitions ix" "ix_references ?ix1 = ix_references ix @ line_references ls uri n l"
    "stored (ix_cache ix) [] (line_references ls uri n l) {} (ix_cache ?ix1)"
    using fold_add_reference [of "line_references ls uri n l" ix] stored_references [of "ix_cache ix" "line_references ls uri n l"]
    by (simp_all add: tables_def)
  from Cons.IH [of "n + 1" "?ix1\<lparr>ix_polls := Suc (ix_polls ?ix1)\<rparr>"] obtain k where
    "tables (scan_lines (\<lambda>_. False) ls uri (n + 1) lines (?ix1\<lparr>ix_polls := Suc (ix_polls ?ix1)\<rparr>))
       = (ix_definitions ?ix1, ix_references ?ix1 @ references_from ls uri (n + 1) lines, k)"
    "stored (ix_cache ?ix1) [] (references_from ls uri (n + 1) lines) {} k"
    by auto
  with c stored_trans [OF c(3)] show ?case
    by (intro exI [of _ k]) (fastforce simp: poll_cancel_def)
qed (auto simp: tables_def stored_refl)

definition readable :: "(string \<Rightarrow> string) \<Rightarrow> string \<Rightarrow> bool" where
  "readable content p \<longleftrightarrow> content p \<noteq> [] \<and> getLanguageId p \<noteq> []"

definition counted :: "lsp_server \<Rightarrow> (string \<Rightarrow> string) \<Rightarrow> lsp_cache option \<Rightarrow> string \<Rightarrow> bool" where
  "counted ls content k p \<longleftrightarrow> readable content p \<and> (known k p \<or> ls_opens ls (file_uri p) (content p))"

definition looked_at :: "lsp_server \<Rightarrow> (string \<Rightarrow> string) \<Rightarrow> lsp_cache option \<Rightarrow> string \<Rightarrow> bool" where
  "looked_at ls content k p \<longleftrightarrow> readable content p \<and> \<not> known k p \<and> ls_opens ls (file_uri p) (content p)"

lemma indexFile_all:
  assumes "indexFile (\<lambda>_. False) ls content p ix = (ok, ix')"
  defines "new \<equiv> looked_at ls content (ix_cache ix) p"
  shows "ok = counted ls content (ix_cache ix) p
    \<and> ix_definitions ix' = ix_definitions ix @ (if new then file_definitions ls p else [])
    \<and> ix_references ix' = ix_references ix @ (if new then file_references ls content p else [])
    \<and> stored (ix_cache ix) (if new then file_definitions ls p else []) (if new then file_references ls content p else [])
        (if new then {p} else {}) (ix_cache ix')"
proof (cases new)
  case True
  let ?ix1 = "fold add_definition (file_definitions ls p) ix"
  let ?ix2 = "scan_lines (\<lambda>_. False) ls (file_uri p) 0 (getlines (content p)) ?ix1"
  have one: "ix_definitions ?ix1 = ix_definitions ix @ file_definitions ls p" "ix_references ?ix1 = ix_references ix"
    "stored (ix_cache ix) (file_definitions ls p) [] {} (ix_cache ?ix1)"
    using fold_add_definition [of "file_definitions ls p" ix] stored_definitions [of "ix_cache ix" "file_definitions ls p"]
    by (simp_all add: tables_def)
  obtain k where two: "tables ?ix2 = (ix_definitions ?ix1, ix_references ?ix1 @ file_references ls content p, k)"
    "stored (ix_cache ?ix1) [] (file_references ls content p) {} k"
    using scan_lines_all [of ls "file_uri p" 0 "getlines (content p)" ?ix1] by (auto simp: file_references_def)
  have "ok" "ix' = ?ix2\<lparr>ix_cache := map_option (markFileIndexed (file_uri p)) (ix_cache ?ix2)\<rparr>"
    using True assms(1) unfolding new_def looked_at_def readable_def known_def indexFile_def file_definitions_def Let_def
    by (auto split: if_splits)
  moreover have "stored (ix_cache ix) ((file_definitions ls p @ []) @ []) (([] @ file_references ls content p) @ []) (({} \<union> {}) \<union> {p})
      (map_option (markFileIndexed (file_uri p)) k)"
    by (rule stored_trans [OF stored_trans [OF one(3) two(2)] stored_mark])
  moreover have "counted ls content (ix_cache ix) p" using True by (auto simp: new_def counted_def looked_at_def)
  ultimately show ?thesis using True one two(1) by (simp add: tables_def)
next
  case False
  then have "ix' = ix" "ok = counted ls content (ix_cache ix) p"
    using assms(1) unfolding new_def looked_at_def counted_def readable_def known_def indexFile_def Let_def
    by (auto split: if_splits option.splits)
  with False show ?thesis by (simp add: stored_refl)
qed

lemma index_files_all:
  assumes "\<And>p i n c. fst (cb p i n c)" and "distinct ps"
  shows "\<exists>ix'. index_files (\<lambda>_. False) ls content cb tot ps cur dn c ix =
      (dn + int (length (filter (counted ls content (ix_cache ix)) ps)), progress_calls cb tot cur ps c, ix')
    \<and> ix_definitions ix' = ix_definitions ix @ concat (map (file_definitions ls) (filter (looked_at ls content (ix_cache ix)) ps))
    \<and> ix_references ix' = ix_references ix @ concat (map (file_references ls content) (filter (looked_at ls content (ix_cache ix)) ps))
    \<and> stored (ix_cache ix) (concat (map (file_definitions ls) (filter (looked_at ls content (ix_cache ix)) ps)))
        (concat (map (file_references ls content) (filter (looked_at ls content (ix_cache ix)) ps)))
        (set (filter (looked_at ls content (ix_cache ix)) ps)) (ix_cache ix')"
  using assms(2)
proof (induction ps arbitrary: cur dn c ix)
  case (Cons p ps)
  let ?ix1 = "ix\<lparr>ix_polls := Suc (ix_polls ix)\<rparr>"
  let ?k = "ix_cache ix"
  obtain ok ix2 where f: "indexFile (\<lambda>_. False) ls content p ?ix1 = (ok, ix2)" by force
  define new where "new \<longleftrightarrow> looked_at ls content ?k p"
  have t: "ok = counted ls content ?k p" "ix_definitions ix2 = ix_definitions ix @ (if new then file_definitions ls p else [])"
    "ix_references ix2 = ix_references ix @ (if new then file_references ls content p else [])"
    "stored ?k (if new then file_definitions ls p else []) (if new then file_references ls content p else [])
        (if new then {p} else {}) (ix_cache ix2)"
    using indexFile_all [OF f] by (simp_all add: new_def)
  obtain go c' where cb: "cb p (cur + 1) tot c = (go, c')" by force
  have go: "go" using assms(1) [of p "cur + 1" tot c] cb by simp
  have same: "known (ix_cache ix2) q = known ?k q" if "q \<in> set ps" for q
  proof -
    have "q \<notin> (if new then {p} else {})" using that Cons.prems by auto
    then show ?thesis by (rule stored_known [OF t(4)])
  qed
  have filters: "filter (looked_at ls content (ix_cache ix2)) ps = filter (looked_at ls content ?k) ps"
    "filter (counted ls content (ix_cache ix2)) ps = filter (counted ls content ?k) ps"
    using same by (auto simp: looked_at_def counted_def intro!: filter_cong)
  obtain ix' where ih: "index_files (\<lambda>_. False) ls content cb tot ps (cur + 1) (if ok then dn + 1 else dn) c' ix2 =
      ((if ok then dn + 1 else dn) + int (length (filter (counted ls content ?k) ps)),
       progress_calls cb tot (cur + 1) ps c', ix')"
    "ix_definitions ix' = ix_definitions ix2 @ concat (map (file_definitions ls) (filter (looked_at ls content ?k) ps))"
    "ix_references ix' = ix_references ix2 @ concat (map (file_references ls content) (filter (looked_at ls content ?k) ps))"
    "stored (ix_cache ix2) (concat (map (file_definitions ls) (filter (looked_at ls content ?k) ps)))
        (concat (map (file_references ls content) (filter (looked_at ls content ?k) ps)))
        (set (filter (looked_at ls content ?k) ps)) (ix_cache ix')"
    using Cons.IH [of "cur + 1" "if ok then dn + 1 else dn" c' ix2] Cons.prems unfolding filters by auto
  show ?case
  proof (intro exI [of _ ix'] conjI)
    show "index_files (\<lambda>_. False) ls content cb tot (p # ps) cur dn c ix =
        (dn + int (length (filter (counted ls content ?k) (p # ps))), progress_calls cb tot cur (p # ps) c, ix')"
      using f cb go ih(1) t(1) by (simp add: poll_cancel_def Let_def)
    show "stored ?k (concat (map (file_definitions ls) (filter (looked_at ls content ?k) (p # ps))))
        (concat (map (file_references ls content) (filter (looked_at ls content ?k) (p # ps))))
        (set (filter (looked_at ls content ?k) (p # ps))) (ix_cache ix')"
      using stored_trans [OF t(4) ih(4)] by (cases new) (simp_all add: new_def)
  qed (use t(2,3) ih(2,3) in \<open>simp_all add: new_def\<close>)
qed (auto simp: stored_refl)

text \<open>An inactive cache (no git SHA was set) is left as it is, and no file counts as indexed in it.\<close>

lemma inactive_store:
  "\<not> cache_active c \<Longrightarrow> fold storeIndexDefinition ds c = c \<and> fold storeIndexReference rs c = c
     \<and> markFileIndexed uri c = c \<and> \<not> isFileIndexed uri c"
proof -
  assume n: "\<not> cache_active c"
  have "fold storeIndexDefinition ds c = c" using n by (induction ds) (simp_all add: storeIndexDefinition_def)
  moreover have "fold storeIndexReference rs c = c" using n by (induction rs) (simp_all add: storeIndexReference_def)
  ultimately show ?thesis using n by (simp add: markFileIndexed_def isFileIndexed_def)
qed

lemma scan_lines_inactive:
  "ix_cache ix = Some c \<Longrightarrow> \<not> cache_active c \<Longrightarrow> ix_cache (scan_lines cancelled ls uri n lines ix) = Some c"
proof (induction lines arbitrary: n ix)
  case (Cons l lines)
  let ?ix1 = "fold add_reference (line_references ls uri n l) ix"
  have "ix_cache ?ix1 = Some c"
    using fold_add_reference [of "line_references ls uri n l" ix] Cons.prems inactive_store [OF Cons.prems(2)]
    by (simp add: tables_def)
  then show ?case
    using Cons.IH [of "?ix1\<lparr>ix_polls := Suc (ix_polls ?ix1)\<rparr>" "n + 1"] Cons.prems(2)
    by (simp add: poll_cancel_def)
qed simp

lemma indexFile_inactive:
  assumes "ix_cache ix = Some c" and "\<not> cache_active c" and "indexFile cancelled ls content p ix = (ok, ix')"
  shows "ix_cache ix' = Some c"
proof -
  have "ix_cache (fold add_definition ds ix) = Some c" for ds
    using fold_add_definition [of ds ix] assms(1) inactive_store [OF assms(2)] by (simp add: tables_def)
  from scan_lines_inactive [OF this assms(2)] show ?thesis
    using assms inactive_store [OF assms(2)] by (auto simp: indexFile_def Let_def split: if_splits)
qed

lemma index_files_inactive:
  assumes "ix_cache ix = Some c" and "\<not> cache_active c"
    and "index_files cancelled ls content cb tot ps cur dn x ix = (n, x', ix')"
  shows "ix_cache ix' = Some c"
  using assms(1,3)
proof (induction ps arbitrary: cur dn x ix)
  case (Cons p ps)
  have p: "ix_cache (ix\<lparr>ix_polls := k\<rparr>) = Some c" for k using Cons.prems(1) by simp
  show ?case
    using Cons.prems(2) Cons.prems(1) Cons.IH indexFile_inactive [OF p assms(2)]
    by (auto simp: poll_cancel_def Let_def split: if_splits prod.splits) blast+
qed simp

section \<open>Properties\<close>

text \<open>
  Where a word stands in a text and what is referred to by it: a whole word that is an identifier and no keyword, of two
  letters or more, whose first definition, as the server sees it, is somewhere else.
\<close>

definition word_at :: "string \<Rightarrow> nat \<Rightarrow> string \<Rightarrow> bool" where
  "word_at line col w \<longleftrightarrow>
     (\<exists>pre post. line = pre @ w @ post \<and> length pre = col \<and> w \<noteq> [] \<and> list_all ident_char w \<and> \<not> is_digit (hd w)
        \<and> (pre = [] \<or> \<not> ident_char (last pre)) \<and> (post = [] \<or> \<not> ident_char (hd post)))"

definition refers :: "lsp_server \<Rightarrow> string \<Rightarrow> string list \<Rightarrow> index_reference \<Rightarrow> bool" where
  "refers ls uri lines r \<longleftrightarrow>
     (\<exists>n col w to rng more. n < length lines \<and> word_at (lines ! n) col w \<and> w \<notin> set index_keywords \<and> 2 \<le> length w
        \<and> ls_definition ls uri (int n, int col) = Some ((to, rng) # more) \<and> (to, fst rng) \<noteq> (uri, (int n, int col))
        \<and> r = \<lparr>ir_symbol = w, ir_fromUri = uri, ir_fromRange = ((int n, int col), (int n, int col + int (length w))),
               ir_toUri = to, ir_toRange = rng\<rparr>)"

definition reading_order :: "index_reference \<Rightarrow> index_reference \<Rightarrow> bool" where
  "reading_order r r' \<longleftrightarrow>
     fst (fst (ir_fromRange r)) < fst (fst (ir_fromRange r'))
     \<or> fst (fst (ir_fromRange r)) = fst (fst (ir_fromRange r')) \<and> snd (fst (ir_fromRange r)) < snd (fst (ir_fromRange r'))"

lemma word_at_run:
  assumes "w0 \<noteq> []" and "list_all ident_char w0" and "rest = [] \<or> \<not> ident_char (hd rest)"
  shows "word_at (w0 @ rest) k w \<longleftrightarrow>
     (k = 0 \<and> w = w0 \<and> \<not> is_digit (hd w0)) \<or> (\<exists>k'. k = length w0 + k' \<and> word_at rest k' w)"
proof
  assume "word_at (w0 @ rest) k w"
  then obtain pre post where l: "w0 @ rest = pre @ w @ post" "length pre = k" "w \<noteq> []" "list_all ident_char w" "\<not> is_digit (hd w)"
    "pre = [] \<or> \<not> ident_char (last pre)" "post = [] \<or> \<not> ident_char (hd post)"
    by (auto simp: word_at_def)
  show "(k = 0 \<and> w = w0 \<and> \<not> is_digit (hd w0)) \<or> (\<exists>k'. k = length w0 + k' \<and> word_at rest k' w)"
  proof (cases "length pre < length w0")
    case True
    then obtain u where "w0 = pre @ u"
      using l(1) by (metis append_eq_append_conv_if append_take_drop_id less_imp_le_nat)
    then have "pre = []" using l(6) assms(2) last_in_set [of pre] by (auto simp: list_all_iff)
    moreover have whole: "takeWhile ident_char (v @ t) = v" if "list_all ident_char v" "t = [] \<or> \<not> ident_char (hd t)" for v t
      using that by (cases t) (auto simp: list_all_iff takeWhile_append)
    ultimately have "w = w0"
      using whole [OF assms(2,3)] whole [OF l(4,7)] l(1) by simp
    with l(2,5) \<open>pre = []\<close> show ?thesis by simp
  next
    case False
    then obtain pre' where p: "pre = w0 @ pre'" "rest = pre' @ w @ post"
      using l(1) by (metis append_eq_append_conv_if append_take_drop_id append_assoc same_append_eq not_less)
    then have "pre' = [] \<or> \<not> ident_char (last pre')" using l(6) by auto
    then have "word_at rest (length pre') w"
      unfolding word_at_def using l p by blast
    then show ?thesis using l(2) p(1) by auto
  qed
next
  assume "(k = 0 \<and> w = w0 \<and> \<not> is_digit (hd w0)) \<or> (\<exists>k'. k = length w0 + k' \<and> word_at rest k' w)"
  then show "word_at (w0 @ rest) k w"
  proof (elim disjE exE conjE)
    assume "k = 0" "w = w0" "\<not> is_digit (hd w0)"
    then show ?thesis unfolding word_at_def using assms by (intro exI [of _ "[]"] exI [of _ rest]) auto
  next
    fix k'
    assume k: "k = length w0 + k'" and "word_at rest k' w"
    then obtain pre post where r: "rest = pre @ w @ post" "length pre = k'" "w \<noteq> []" "list_all ident_char w" "\<not> is_digit (hd w)"
      "pre = [] \<or> \<not> ident_char (last pre)" "post = [] \<or> \<not> ident_char (hd post)"
      by (auto simp: word_at_def)
    then have "pre \<noteq> []" using assms(3) by (cases w) auto
    with r k show ?thesis unfolding word_at_def by (intro exI [of _ "w0 @ pre"] exI [of _ post]) auto
  qed
qed

lemma word_at_other:
  assumes "\<not> ident_char c"
  shows "word_at (c # cs) k w \<longleftrightarrow> (\<exists>k'. k = Suc k' \<and> word_at cs k' w)"
proof
  assume "word_at (c # cs) k w"
  then obtain pre post where l: "c # cs = pre @ w @ post" "length pre = k" "w \<noteq> []" "list_all ident_char w" "\<not> is_digit (hd w)"
    "pre = [] \<or> \<not> ident_char (last pre)" "post = [] \<or> \<not> ident_char (hd post)"
    by (auto simp: word_at_def)
  have "pre \<noteq> []" using l(1,3,4) assms by (cases w) auto
  then obtain pre' where "pre = c # pre'" "cs = pre' @ w @ post" using l(1) by (cases pre) auto
  with l show "\<exists>k'. k = Suc k' \<and> word_at cs k' w" unfolding word_at_def by (auto split: if_splits)
next
  assume "\<exists>k'. k = Suc k' \<and> word_at cs k' w"
  then obtain pre post where r: "cs = pre @ w @ post" "k = Suc (length pre)" "w \<noteq> []" "list_all ident_char w" "\<not> is_digit (hd w)"
    "pre = [] \<or> \<not> ident_char (last pre)" "post = [] \<or> \<not> ident_char (hd post)"
    by (auto simp: word_at_def)
  then show "word_at (c # cs) k w"
    unfolding word_at_def using assms by (intro exI [of _ "c # pre"] exI [of _ post]) auto
qed

lemma words_from_exact:
  "(w, c) \<in> set (words_from col line) \<longleftrightarrow> (\<exists>k. c = col + int k \<and> word_at line k w)"
proof (induction col line arbitrary: c rule: words_from.induct)
  case (1 col)
  then show ?case by (auto simp: word_at_def)
next
  case (2 col ch cs)
  show ?case
  proof (cases "ident_char ch")
    case True
    let ?w = "takeWhile ident_char (ch # cs)" and ?rest = "dropWhile ident_char (ch # cs)"
    have run: "?w \<noteq> []" "list_all ident_char ?w" "?rest = [] \<or> \<not> ident_char (hd ?rest)" "hd ?w = ch"
      using True hd_dropWhile [of ident_char "ch # cs"] by (auto simp: list_all_iff dest: set_takeWhileD)
    have shift: "(\<exists>k. c = col + int l + int k \<and> P k) \<longleftrightarrow> (\<exists>k. c = col + int k \<and> (\<exists>k'. k = l + k' \<and> P k'))" for l P
      by (metis add.assoc of_nat_add)
    have split: "word_at (ch # cs) k w \<longleftrightarrow>
        (k = 0 \<and> w = ?w \<and> \<not> is_digit ch) \<or> (\<exists>k'. k = length ?w + k' \<and> word_at ?rest k' w)" for k
      using word_at_run [OF run(1-3), of k w] unfolding takeWhile_dropWhile_id run(4) .
    have "(w, c) \<in> set (words_from col (ch # cs))
        \<longleftrightarrow> (c = col + int 0 \<and> w = ?w \<and> \<not> is_digit ch) \<or> (\<exists>k. c = col + int (length ?w) + int k \<and> word_at ?rest k w)"
      using True "2.IH"(1) [OF True refl, of c] by (auto simp: Let_def simp del: takeWhile.simps dropWhile.simps)
    also have "\<dots> \<longleftrightarrow> (\<exists>k. c = col + int k \<and> word_at (ch # cs) k w)"
      unfolding split shift by blast
    finally show ?thesis .
  next
    case False
    have shift: "(\<exists>k. c = col + 1 + int k \<and> P k) \<longleftrightarrow> (\<exists>k. c = col + int k \<and> (\<exists>k'. k = Suc k' \<and> P k'))" for P
      by (metis add.assoc of_nat_Suc)
    have "(w, c) \<in> set (words_from col (ch # cs)) \<longleftrightarrow> (w, c) \<in> set (words_from (col + 1) cs)" using False by simp
    then show ?thesis unfolding "2.IH"(2) [OF False, of c] word_at_other [OF False] shift .
  qed
qed

lemma words_from_sorted:
  "sorted_wrt (\<lambda>x y. snd x < snd y) (words_from col line) \<and> (\<forall>x \<in> set (words_from col line). col \<le> snd x)"
proof (induction col line rule: words_from.induct)
  case (2 col ch cs)
  show ?case
  proof (cases "ident_char ch")
    case True
    let ?w = "takeWhile ident_char (ch # cs)"
    have l: "0 < int (length ?w)" using True by simp
    have e: "words_from col (ch # cs) = (if is_digit ch then [] else [(?w, col)])
        @ words_from (col + int (length ?w)) (dropWhile ident_char (ch # cs))"
      by (simp only: words_from.simps(2) True if_True Let_def)
    define more where "more = words_from (col + int (length ?w)) (dropWhile ident_char (ch # cs))"
    have m: "sorted_wrt (\<lambda>x y. snd x < snd y) more" "\<forall>x \<in> set more. col + int (length ?w) \<le> snd x"
      using "2.IH"(1) [OF True refl] unfolding more_def by blast+
    have "col < snd x" if "x \<in> set more" for x using bspec [OF m(2) that] l by linarith
    with m(1) show ?thesis unfolding e more_def [symmetric] by (auto simp del: takeWhile.simps simp: order_less_imp_le)
  next
    case False
    then show ?thesis using "2.IH"(2) [OF False] by auto
  qed
qed simp

lemma line_references_exact:
  "r \<in> set (line_references ls uri (int n) line) \<longleftrightarrow>
     (\<exists>col w to rng more. word_at line col w \<and> w \<notin> set index_keywords \<and> 2 \<le> length w
        \<and> ls_definition ls uri (int n, int col) = Some ((to, rng) # more) \<and> (to, fst rng) \<noteq> (uri, (int n, int col))
        \<and> r = \<lparr>ir_symbol = w, ir_fromUri = uri, ir_fromRange = ((int n, int col), (int n, int col + int (length w))),
               ir_toUri = to, ir_toRange = rng\<rparr>)"
proof -
  have one: "identifier_reference ls uri (int n) (w, int col) = Some r \<longleftrightarrow> 2 \<le> length w
      \<and> (\<exists>to rng more. ls_definition ls uri (int n, int col) = Some ((to, rng) # more) \<and> (to, fst rng) \<noteq> (uri, (int n, int col))
        \<and> r = \<lparr>ir_symbol = w, ir_fromUri = uri, ir_fromRange = ((int n, int col), (int n, int col + int (length w))),
               ir_toUri = to, ir_toRange = rng\<rparr>)" for w col
    by (auto simp: identifier_reference_def prod_eq_iff split: option.splits list.splits if_splits)
  have ids: "x \<in> set (extractIdentifiers line) \<longleftrightarrow>
      (\<exists>col w. x = (w, int col) \<and> word_at line col w \<and> w \<notin> set index_keywords)" for x
    by (cases x) (auto simp: extractIdentifiers_def words_from_exact)
  have "r \<in> set (line_references ls uri (int n) line)
      \<longleftrightarrow> (\<exists>x \<in> set (extractIdentifiers line). identifier_reference ls uri (int n) x = Some r)"
    by (force simp: line_references_def map_filter_def)
  also have "\<dots> \<longleftrightarrow> (\<exists>col w. word_at line col w \<and> w \<notin> set index_keywords
      \<and> identifier_reference ls uri (int n) (w, int col) = Some r)"
    unfolding Bex_def ids by blast
  finally show ?thesis unfolding one by blast
qed

lemma identifier_reference_place:
  "identifier_reference ls uri n x = Some r \<Longrightarrow> fst (ir_fromRange r) = (n, snd x)"
  by (cases x) (auto simp: identifier_reference_def split: option.splits list.splits if_splits)

lemma identifier_references_sorted:
  assumes "sorted_wrt (\<lambda>x y. snd x < snd y) xs"
  shows "sorted_wrt reading_order (List.map_filter (identifier_reference ls uri n) xs)
    \<and> (\<forall>r \<in> set (List.map_filter (identifier_reference ls uri n) xs). \<exists>x \<in> set xs. fst (ir_fromRange r) = (n, snd x))"
  using assms
proof (induction xs)
  case (Cons x xs)
  show ?case
  proof (cases "identifier_reference ls uri n x")
    case None
    with Cons show ?thesis by (simp add: map_filter_simps)
  next
    case (Some r)
    then have "fst (ir_fromRange r) = (n, snd x)" by (rule identifier_reference_place)
    moreover have "reading_order r r'" if r': "r' \<in> set (List.map_filter (identifier_reference ls uri n) xs)" for r'
    proof -
      obtain y where "y \<in> set xs" "fst (ir_fromRange r') = (n, snd y)" using Cons r' by auto
      with calculation Cons.prems show ?thesis by (simp add: reading_order_def)
    qed
    ultimately show ?thesis using Some Cons by (auto simp: map_filter_simps)
  qed
qed (simp add: map_filter_simps)

lemma line_references_sorted:
  "sorted_wrt reading_order (line_references ls uri n line)
   \<and> (\<forall>r \<in> set (line_references ls uri n line). fst (fst (ir_fromRange r)) = n)"
proof -
  have "sorted_wrt (\<lambda>x y. snd x < snd y) (extractIdentifiers line)"
    using words_from_sorted [of 0 line] by (simp add: extractIdentifiers_def sorted_wrt_filter)
  from identifier_references_sorted [OF this, of ls uri n] show ?thesis
    unfolding line_references_def by (metis fst_conv)
qed

lemma references_from_exact:
  "(\<forall>r. r \<in> set (references_from ls uri (int m) lines) \<longleftrightarrow>
      (\<exists>n < length lines. r \<in> set (line_references ls uri (int (m + n)) (lines ! n))))
   \<and> sorted_wrt reading_order (references_from ls uri (int m) lines)
   \<and> (\<forall>r \<in> set (references_from ls uri (int m) lines). int m \<le> fst (fst (ir_fromRange r)))"
proof (induction lines arbitrary: m)
  case (Cons l lines)
  have next_line: "int m + 1 = int (Suc m)" by simp
  have ex: "(\<exists>n < length (l # lines). P n) \<longleftrightarrow> P 0 \<or> (\<exists>n < length lines. P (Suc n))" for P
    by (metis less_Suc_eq_0_disj length_Cons)
  have "\<forall>r. r \<in> set (references_from ls uri (int m) (l # lines)) \<longleftrightarrow>
      (\<exists>n < length (l # lines). r \<in> set (line_references ls uri (int (m + n)) ((l # lines) ! n)))"
    using Cons.IH [of "Suc m"] unfolding ex references_from.simps next_line by simp
  moreover have "sorted_wrt reading_order (references_from ls uri (int m) (l # lines))
      \<and> (\<forall>r \<in> set (references_from ls uri (int m) (l # lines)). int m \<le> fst (fst (ir_fromRange r)))"
  proof -
    have a: "sorted_wrt reading_order (line_references ls uri (int m) l)"
      "\<forall>r \<in> set (line_references ls uri (int m) l). fst (fst (ir_fromRange r)) = int m"
      using line_references_sorted [of ls uri "int m" l] by blast+
    have b: "sorted_wrt reading_order (references_from ls uri (int (Suc m)) lines)"
      "\<forall>r \<in> set (references_from ls uri (int (Suc m)) lines). int (Suc m) \<le> fst (fst (ir_fromRange r))"
      using Cons.IH [of "Suc m"] by blast+
    have "reading_order x y" if "x \<in> set (line_references ls uri (int m) l)"
      and "y \<in> set (references_from ls uri (int (Suc m)) lines)" for x y
      using bspec [OF a(2) that(1)] bspec [OF b(2) that(2)] by (simp add: reading_order_def)
    then show ?thesis
      using a b unfolding references_from.simps next_line by (auto simp: sorted_wrt_append)
  qed
  ultimately show ?case by blast
qed simp

lemma file_references_exact:
  "set (file_references ls content p) = {r. refers ls (file_uri p) (getlines (content p)) r}
   \<and> sorted_wrt reading_order (file_references ls content p)"
  using references_from_exact [of ls "file_uri p" 0 "getlines (content p)"]
  unfolding file_references_def refers_def line_references_exact by auto

text \<open>The symbols of a tree, each with the names of those around it, from the outside in.\<close>

fun with_containers :: "string list \<Rightarrow> lsp_symbol \<Rightarrow> (string list \<times> string \<times> int \<times> lsp_range) list" where
  "with_containers around (LspSymbol n kind rng children) =
     (around, n, kind, rng) # concat (map (with_containers (around @ [n])) children)"

text \<open>Names joined by colons, the empty ones in front left out.\<close>

definition scoped_name :: "string list \<Rightarrow> string" where
  "scoped_name around = fold (\<lambda>n c. if c = [] then n else c @ ''::'' @ n) around []"

definition named_symbols :: "lsp_server \<Rightarrow> string \<Rightarrow> index_definition list" where
  "named_symbols ls p =
     (case ls_symbols ls (file_uri p) of
        Some syms \<Rightarrow> map (\<lambda>(around, n, kind, rng). \<lparr>id_name = n, id_uri = file_uri p, id_kind = kind, id_range = rng,
                                                   id_container = scoped_name around\<rparr>)
                      (concat (map (with_containers []) syms))
      | None \<Rightarrow> [])"

lemma symbol_definitions_containers:
  "symbol_definitions uri (scoped_name around) t
     = map (\<lambda>(around, n, kind, rng). \<lparr>id_name = n, id_uri = uri, id_kind = kind, id_range = rng, id_container = scoped_name around\<rparr>)
         (with_containers around t)"
proof (induction around t rule: with_containers.induct)
  case (1 around n kind rng children)
  have "scoped_name (around @ [n]) = (if scoped_name around = [] then n else scoped_name around @ ''::'' @ n)"
    by (simp add: scoped_name_def)
  with 1 show ?case by (simp add: map_concat o_def cong: map_cong)
qed

lemma file_definitions_named: "file_definitions ls p = named_symbols ls p"
proof -
  have "scoped_name [] = []" by (simp add: scoped_name_def)
  then have e: "symbol_definitions (file_uri p) [] = (\<lambda>t. map (\<lambda>(around, n, kind, rng). \<lparr>id_name = n, id_uri = file_uri p,
      id_kind = kind, id_range = rng, id_container = scoped_name around\<rparr>) (with_containers [] t))"
    using symbol_definitions_containers [of "file_uri p" "[]"] by (intro ext) simp
  show ?thesis unfolding file_definitions_def named_symbols_def e by (simp add: map_concat o_def split: option.split)
qed

text \<open>
  C32. An index that nobody cancels is complete. The files are those of the listing the patterns let through, each once, in
  the order of their names, and the progress callback is told of every one with its number and the total. A file counts as
  indexed if it has text and a language, and the cache knows it under the current SHA or the server opens it; those
  the cache does not know are looked at: what the run found is, file by file, every symbol the server names with the
  names of what contains it, and, in the order of the text, a reference for exactly the whole words that are
  identifiers of two letters or more, no keywords, and whose first definition is elsewhere. A cache with a SHA
  holds all of it under that SHA behind what it held, and knows these files too; without a SHA, as in the agent, it stays as it
  was. (A file the cache knows is not looked at again, even if the run that indexed it was cancelled:
  \<open>cancelled_file_stays_indexed\<close>.)
\<close>

theorem index_complete:
  assumes "\<not> ix_running ix" and "ls_starts ls" and "\<forall>p i n c. fst (cb p i n c)" and "distinct (map fst listing)"
    and "files = collectFiles fnm inc exc listing" and "index_run (\<lambda>_. False) ls content cb files c ix = (r, c', ix')"
    and "looked = filter (looked_at ls content (ix_cache ix)) files"
  shows "set files = {p. \<exists>q. (p, q) \<in> set listing \<and> shouldIncludeFile fnm inc exc q}
    \<and> distinct files \<and> sorted (map (split_on CHR ''/'') files)
    \<and> c' = progress_calls cb (int (length files)) 0 files c
    \<and> xr_error r = None \<and> xr_filesIndexed r = int (length (filter (counted ls content (ix_cache ix)) files))
    \<and> ix_definitions ix' = concat (map (named_symbols ls) looked)
    \<and> (\<exists>refs. ix_references ix' = concat (map refs looked)
         \<and> (\<forall>p. set (refs p) = {r. refers ls (file_uri p) (getlines (content p)) r} \<and> sorted_wrt reading_order (refs p)))
    \<and> xr_definitionsFound r = int (length (ix_definitions ix')) \<and> xr_referencesFound r = int (length (ix_references ix'))
    \<and> stored (ix_cache ix) (ix_definitions ix') (ix_references ix') (set looked) (ix_cache ix')"
proof -
  have set: "set files = {p. \<exists>q. (p, q) \<in> set listing \<and> shouldIncludeFile fnm inc exc q}"
    by (force simp: assms(5) collectFiles_def)
  have order: "distinct files" "sorted (map (split_on CHR ''/'') files)"
    using assms(4) by (simp_all add: assms(5) collectFiles_def distinct_map_filter)
  let ?ix0 = "ix\<lparr>ix_definitions := [], ix_references := [], ix_polls := 0\<rparr>"
  obtain ix1 where run: "index_files (\<lambda>_. False) ls content cb (int (length files)) files 0 0 c ?ix0 =
      (0 + int (length (filter (counted ls content (ix_cache ix)) files)), progress_calls cb (int (length files)) 0 files c, ix1)"
    and t: "ix_definitions ix1 = concat (map (named_symbols ls) looked)"
      "ix_references ix1 = concat (map (file_references ls content) looked)"
      "stored (ix_cache ix) (ix_definitions ix1) (ix_references ix1) (set looked) (ix_cache ix1)"
    using index_files_all [of cb files ls content "int (length files)" 0 0 c ?ix0] assms(3,7) order(1)
    by (auto simp: file_definitions_named [abs_def])
  have found: "xr_error r = None \<and> xr_filesIndexed r = int (length (filter (counted ls content (ix_cache ix)) files))
      \<and> xr_definitionsFound r = int (length (ix_definitions ix')) \<and> xr_referencesFound r = int (length (ix_references ix'))
      \<and> ix_definitions ix' = ix_definitions ix1 \<and> ix_references ix' = ix_references ix1 \<and> ix_cache ix' = ix_cache ix1
      \<and> c' = progress_calls cb (int (length files)) 0 files c"
  proof (cases "files = []")
    case True
    then show ?thesis using assms(1,6) run by (auto simp: index_run_def failed_result_def)
  next
    case False
    then show ?thesis using assms(1,2,6) run by (auto simp: index_run_def)
  qed
  have "\<exists>refs. ix_references ix' = concat (map refs looked)
      \<and> (\<forall>p. set (refs p) = {r. refers ls (file_uri p) (getlines (content p)) r} \<and> sorted_wrt reading_order (refs p))"
    using found t(2) file_references_exact by (intro exI [of _ "file_references ls content"]) simp
  with set order found t show ?thesis by simp
qed

text \<open>A workspace with one Go file, and a server that knows one symbol and one definition elsewhere.\<close>

definition tiny_server :: lsp_server where
  "tiny_server = \<lparr>ls_starts = True, ls_opens = (\<lambda>_ _. True),
     ls_symbols = (\<lambda>_. Some [LspSymbol ''run'' 12 ((0, 0), (2, 0)) []]),
     ls_definition = (\<lambda>_ _. Some [(''file:///w/b.go'', ((3, 1), (3, 4)))])\<rparr>"

definition tiny_content :: "string \<Rightarrow> string" where
  "tiny_content p = (if p = ''/w/a.go'' then ''go fmtx'' @ [CHR 0x0A] @ ''call'' @ [CHR 0x0A] else [])"

definition suffix_match :: "bool \<Rightarrow> string \<Rightarrow> string \<Rightarrow> bool" where
  "suffix_match pathname pat s \<longleftrightarrow> pat = ''*.go'' \<and> drop (length s - 3) s = ''.go''"

definition count_calls :: "string \<Rightarrow> int \<Rightarrow> int \<Rightarrow> nat \<Rightarrow> bool \<times> nat" where
  "count_calls p i n c = (True, Suc c)"

definition sha_cache :: lsp_cache where
  "sha_cache = \<lparr>lc_open = True, lc_sha = ''abc'', lc_definitions = [], lc_references = [], lc_files = []\<rparr>"

theorem index_complete_witness:
  "\<exists>r c' ix'. index_run (\<lambda>_. False) tiny_server tiny_content count_calls
        (collectFiles suffix_match default_includes default_excludes [(''/w/a.go'', ''a.go''), (''/w/x'', ''x'')])
        0 (new_indexer (Some sha_cache)) = (r, c', ix')
     \<and> xr_filesIndexed r = 1 \<and> c' = 1 \<and> known (ix_cache ix') ''/w/a.go''"
proof -
  let ?listing = "[(''/w/a.go'', ''a.go''), (''/w/x'', ''x'')]"
  let ?files = "collectFiles suffix_match default_includes default_excludes ?listing"
  have files: "?files = [''/w/a.go'']" by code_simp
  obtain r c' ix' where run: "index_run (\<lambda>_. False) tiny_server tiny_content count_calls ?files 0 (new_indexer (Some sha_cache)) = (r, c', ix')"
    by (metis prod_cases3)
  have new: "looked_at tiny_server tiny_content (Some sha_cache) ''/w/a.go''" "counted tiny_server tiny_content (Some sha_cache) ''/w/a.go''"
    "cache_active sha_cache"
    by code_simp+
  have dist: "distinct (map fst ?listing)" by simp
  have start: "\<not> ix_running (new_indexer (Some sha_cache))" "ix_cache (new_indexer (Some sha_cache)) = Some sha_cache"
    "ls_starts tiny_server" "\<forall>p i n c. fst (count_calls p i n c)"
    by (simp_all add: new_indexer_def tiny_server_def count_calls_def)
  have "xr_filesIndexed r = int (length (filter (counted tiny_server tiny_content (Some sha_cache)) ?files))
      \<and> c' = progress_calls count_calls (int (length ?files)) 0 ?files 0
      \<and> stored (Some sha_cache) (ix_definitions ix') (ix_references ix')
          (set (filter (looked_at tiny_server tiny_content (Some sha_cache)) ?files)) (ix_cache ix')"
    using index_complete [OF start(1,3,4) dist refl run refl] unfolding start(2) by blast
  then have "xr_filesIndexed r = 1 \<and> c' = 1 \<and> stored (Some sha_cache) (ix_definitions ix') (ix_references ix') {''/w/a.go''} (ix_cache ix')"
    using new by (simp add: files count_calls_def)
  moreover from this have "known (ix_cache ix') ''/w/a.go''" using new(3) by (auto simp: stored_def known_def)
  ultimately show ?thesis using run by blast
qed

text \<open>
  A cancelled index is remembered as complete. When the cancellation is seen after the first line of a file, the
  references of its other lines are missing, but the file is marked as indexed under the current SHA
  all the same, and a later run that nobody cancels reports it as indexed without looking at it: the
  missing references are never found.
\<close>

theorem cancelled_file_stays_indexed:
  "let (r1, _, ix1) = index_run (\<lambda>n. 1 \<le> n) tiny_server tiny_content count_calls [''/w/a.go''] 0
                        (new_indexer (Some sha_cache));
       (r2, _, ix2) = index_run (\<lambda>_. False) tiny_server tiny_content count_calls [''/w/a.go''] 0 ix1
   in map ir_symbol (ix_references ix1) = [''fmtx''] \<and> xr_filesIndexed r2 = 1 \<and> ix_references ix2 = []
      \<and> map_option (\<lambda>c. map (ir_symbol \<circ> fst) (lc_references c)) (ix_cache ix2) = Some [''fmtx'']"
  by code_simp

text \<open>
  Nothing is kept by a cache whose git SHA was never set, as the agent's is: whatever a run does, the tables
  stay as they were and the next run indexes everything again.
\<close>

lemma index_without_sha_keeps_nothing:
  assumes "ix_cache ix = Some c" and "lc_sha c = []"
    and "index_run cancelled ls content cb files x ix = (r, x', ix')"
  shows "ix_cache ix' = Some c \<and> \<not> isFileIndexed uri c"
proof -
  have n: "\<not> cache_active c" using assms(2) by (simp add: cache_active_def)
  have "ix_cache (ix\<lparr>ix_definitions := [], ix_references := [], ix_polls := 0\<rparr>) = Some c" using assms(1) by simp
  then have "index_files cancelled ls content cb (int (length files)) files 0 0 x
      (ix\<lparr>ix_definitions := [], ix_references := [], ix_polls := 0\<rparr>) = (k, x', ix'') \<Longrightarrow> ix_cache ix'' = Some c" for k ix''
    by (rule index_files_inactive [OF _ n])
  then show ?thesis
    using assms(1,3) n by (auto simp: index_run_def isFileIndexed_def Let_def split: if_splits prod.splits)
qed

end
