(* ===== verification/IndexReg.thy ===== *)
theory IndexReg
  imports IdTable Respond FsWrite Indexer
begin

text \<open>
  The indexers a client holds (\<^verbatim>\<open>index.create\<close>, \<^verbatim>\<open>index.run\<close>, \<^verbatim>\<open>index.cancel\<close>, \<^verbatim>\<open>index.destroy\<close> of
  \<^verbatim>\<open>agent/main.cpp\<close>), the progress notifications of a run, and the C interface of the core in between.
\<close>

section \<open>State\<close>

text \<open>An entry: the core's indexer with its cancellation flag, and the agent's own flag.\<close>

record indexer_entry =
  ie_indexer :: indexer
  ie_stop :: bool
  ie_cancelled :: bool

type_synonym indexers = "indexer_entry id_table"

interpretation idx: id_registry "tab_alloc ''idx-''" tab_lookup tab_remove "tab_issued ''idx-''" "tab_ok ''idx-''"
  by (rule tab_registry)

section \<open>Progress\<close>

record progress =
  pg_lastPct :: int
  pg_polls :: nat
  pg_notes :: "json list"

definition no_progress :: progress where
  "no_progress = \<lparr>pg_lastPct = -1, pg_polls = 0, pg_notes = []\<rparr>"

definition progress_note :: "string \<Rightarrow> string \<Rightarrow> int \<Rightarrow> int \<Rightarrow> json" where
  "progress_note indexerId file cur tot =
     JObj [(''jsonrpc'', JStr ''2.0''), (''method'', JStr ''index.progress''),
           (''params'', JObj [(''indexerId'', JStr indexerId), (''filePath'', JStr file),
                              (''current'', JInt cur), (''total'', JInt tot)])]"

text \<open>\<^verbatim>\<open>idxProgressCb\<close>: \<open>cancelled n\<close> is what the \<open>n\<close>-th look at the agent's flag finds.\<close>

definition idxProgressCb ::
  "(nat \<Rightarrow> bool) \<Rightarrow> string \<Rightarrow> string \<Rightarrow> int \<Rightarrow> int \<Rightarrow> progress \<Rightarrow> bool \<times> progress" where
  "idxProgressCb cancelled indexerId file cur tot pg =
     (if cancelled (pg_polls pg) then (False, pg\<lparr>pg_polls := Suc (pg_polls pg)\<rparr>)
      else (let is_last = (0 < tot \<and> tot \<le> cur);
                pct = (if 0 < tot then cur * 100 div tot else 0);
                pg1 = (if pct \<noteq> pg_lastPct pg \<or> is_last
                       then pg\<lparr>pg_lastPct := pct, pg_notes := pg_notes pg @ [progress_note indexerId file cur tot]\<rparr>
                       else pg)
            in (\<not> cancelled (Suc (pg_polls pg)), pg1\<lparr>pg_polls := pg_polls pg + 2\<rparr>)))"

section \<open>Handlers\<close>

text \<open>\<^verbatim>\<open>std::filesystem::path(p).parent_path()\<close> of an absolute path.\<close>

definition parent_path :: "string \<Rightarrow> string" where
  "parent_path p = (let q = rstrip (\<lambda>c. c = CHR ''/'') (before_last CHR ''/'' p) in if q = [] then ''/'' else q)"

text \<open>
  \<^verbatim>\<open>index.create\<close>. \<open>cache_open\<close> is the core's \<^verbatim>\<open>grc_cache_create\<close> on a path, \<open>idx_error\<close> the failure of
  \<^verbatim>\<open>grc_indexer_create\<close>, if any. The new cache has no git SHA: nothing in the agent sets one.
\<close>

definition handleIndexCreate ::
  "agent_config \<Rightarrow> (string \<Rightarrow> grc_error + lsp_cache) \<Rightarrow> grc_error option \<Rightarrow> json \<Rightarrow> fs_state \<Rightarrow> indexers
    \<Rightarrow> reply \<times> fs_state \<times> indexers" where
  "handleIndexCreate cfg cache_open idx_error p st tbl =
     (case bindr (reqStr p ''workspacePath'' ''index.create'') (\<lambda>ws.
           bindr (reqStr p ''cacheDBPath'' ''index.create'') (\<lambda>db. Inr (ws, db))) of
        Inl r \<Rightarrow> (r, st, tbl)
      | Inr (ws, db) \<Rightarrow>
          (case int_field ''language'' p of
             None \<Rightarrow> (Error KInvalidRequest (''index.create requires int param '' @ quoted ''language''), st, tbl)
           | Some l \<Rightarrow>
               (let lang = to_int32 l;
                    path = resolveRoot cfg db;
                    st1 = set_fs (snd (create_directories (st_fs st) (h_cwd (st_host st)) (parent_path path))) st
                in case cache_open path of
                     Inl e \<Rightarrow> (Error KLspFailed (''index cache open failed at '' @ quoted path @ '': '' @ grcErrName e), st1, tbl)
                   | Inr cache \<Rightarrow>
                       (case idx_error of
                          Some e \<Rightarrow> (Error KLspFailed (''indexer create failed (ws='' @ quoted ws @ '' lang='' @ int_text lang
                                       @ ''): '' @ grcErrName e), st1, tbl)
                        | None \<Rightarrow>
                            (let (i, tbl') = tab_alloc ''idx-''
                                   \<lparr>ie_indexer = new_indexer (Some cache), ie_stop = False, ie_cancelled = False\<rparr> tbl
                             in (Result (JObj [(''indexerId'', JStr i)]), st1, tbl'))))))"

text \<open>\<^verbatim>\<open>toGRCError\<close> on what a run can fail with; \<open>start_error\<close> is what the language server's start gave.\<close>

definition run_error :: "grc_error \<Rightarrow> index_error \<Rightarrow> grc_error" where
  "run_error start_error e = (case e of AlreadyRunning \<Rightarrow> GrcLspError | ServerFailed \<Rightarrow> start_error)"

text \<open>
  \<^verbatim>\<open>index.run\<close> in two parts. First the entry is looked up and both flags cleared; then the run, during
  which \<open>stop\<close> and \<open>cancelled\<close> are what the looks at the flags find, and whose result is reported.
\<close>

definition index_run_begin :: "json \<Rightarrow> indexers \<Rightarrow> (reply + string) \<times> indexers" where
  "index_run_begin p tbl =
     (case reqStr p ''indexerId'' ''index.run'' of
        Inl r \<Rightarrow> (Inl r, tbl)
      | Inr i \<Rightarrow>
          (case tab_lookup i tbl of
             None \<Rightarrow> (Inl (Error KNotFound (''unknown indexerId '' @ quoted i)), tbl)
           | Some e \<Rightarrow> (Inr i, tab_update i (e\<lparr>ie_cancelled := False, ie_stop := False\<rparr>) tbl)))"

definition index_run_result :: "grc_error \<Rightarrow> bool \<Rightarrow> index_result \<Rightarrow> reply" where
  "index_run_result start_error cancelled r =
     (case xr_error r of
        Some e \<Rightarrow> Error KLspFailed (''index.run failed: '' @ grcErrName (run_error start_error e)
                    @ (if cancelled then '' (cancelled)'' else []))
      | None \<Rightarrow> Result (JObj [(''filesIndexed'', JInt (xr_filesIndexed r)),
                              (''definitionsFound'', JInt (xr_definitionsFound r)),
                              (''referencesFound'', JInt (xr_referencesFound r))]))"

definition index_run_rest ::
  "(nat \<Rightarrow> bool) \<Rightarrow> (nat \<Rightarrow> bool) \<Rightarrow> grc_error \<Rightarrow> lsp_server \<Rightarrow> (string \<Rightarrow> string) \<Rightarrow> string list \<Rightarrow> string
    \<Rightarrow> indexer_entry \<Rightarrow> reply \<times> json list \<times> indexer_entry" where
  "index_run_rest stop cancelled start_error ls content files i e =
     (let (r, pg, ix) = index_run stop ls content (idxProgressCb cancelled i) files no_progress (ie_indexer e)
      in (index_run_result start_error (cancelled (pg_polls pg)) r, pg_notes pg, e\<lparr>ie_indexer := ix\<rparr>))"

text \<open>\<^verbatim>\<open>index.cancel\<close>, a notification, sets both flags.\<close>

definition index_cancel :: "json \<Rightarrow> indexers \<Rightarrow> indexers" where
  "index_cancel p tbl =
     (case str_field ''indexerId'' p of
        None \<Rightarrow> tbl
      | Some i \<Rightarrow>
          (case tab_lookup i tbl of
             None \<Rightarrow> tbl | Some e \<Rightarrow> tab_update i (e\<lparr>ie_cancelled := True, ie_stop := True\<rparr>) tbl))"

definition handleIndexDestroy :: "json \<Rightarrow> indexers \<Rightarrow> reply \<times> indexers" where
  "handleIndexDestroy p tbl =
     (case reqStr p ''indexerId'' ''index.destroy'' of
        Inl r \<Rightarrow> (r, tbl)
      | Inr i \<Rightarrow>
          (case tab_lookup i tbl of
             None \<Rightarrow> (ok_reply, tbl)
           | Some e \<Rightarrow>
               if ix_running (ie_indexer e)
               then (Result (JObj [(''ok'', JBool False), (''running'', JBool True)]),
                     tab_update i (e\<lparr>ie_cancelled := True, ie_stop := True\<rparr>) tbl)
               else (ok_reply, tab_remove i tbl)))"

section \<open>Properties\<close>

definition pct :: "nat \<Rightarrow> nat \<Rightarrow> int" where
  "pct n k = int (k * 100 div n)"

lemma pct_int: "int k * 100 div int n = pct n k"
  by (simp add: pct_def zdiv_int)

lemma pct_mono: "k \<le> k' \<Longrightarrow> pct n k \<le> pct n k'"
  by (simp add: pct_def div_le_mono)

lemma pct_below: "k < n \<Longrightarrow> pct n k < 100"
  unfolding pct_def by (simp add: less_mult_imp_div_less mult.commute)

lemma pct_full: "0 < n \<Longrightarrow> pct n n = 100"
  by (simp add: pct_def)

lemma pct_range: "k \<le> n \<Longrightarrow> 0 \<le> pct n k \<and> pct n k \<le> 100"
  using pct_below [of k n] by (cases "k = n") (auto simp: pct_def)

text \<open>After \<open>cur\<close> of the files: which were announced, and that no percentage was announced twice.\<close>

definition progress_inv :: "string \<Rightarrow> string list \<Rightarrow> nat \<Rightarrow> progress \<Rightarrow> bool" where
  "progress_inv i files cur pg \<longleftrightarrow>
     (\<exists>ks. pg_notes pg = map (\<lambda>k. progress_note i (files ! (k - 1)) (int k) (int (length files))) ks
        \<and> sorted_wrt (<) ks \<and> set ks \<subseteq> {1..cur} \<and> sorted_wrt (<) (map (pct (length files)) ks)
        \<and> (\<forall>k \<in> set ks. pct (length files) k \<le> pg_lastPct pg))
     \<and> pg_lastPct pg \<le> pct (length files) cur"

lemma progress_step:
  assumes "progress_inv i files cur pg" and "cur < length files"
    and "idxProgressCb cancelled i (files ! cur) (int cur + 1) (int (length files)) pg = (go, pg')"
  shows "progress_inv i files (Suc cur) pg'"
proof -
  let ?n = "length files"
  obtain ks where ks: "pg_notes pg = map (\<lambda>k. progress_note i (files ! (k - 1)) (int k) (int ?n)) ks"
    "sorted_wrt (<) ks" "set ks \<subseteq> {1..cur}" "sorted_wrt (<) (map (pct ?n) ks)"
    "\<forall>k \<in> set ks. pct ?n k \<le> pg_lastPct pg" and lst: "pg_lastPct pg \<le> pct ?n cur"
    using assms(1) by (auto simp: progress_inv_def)
  have p: "(int cur + 1) * 100 div int ?n = pct ?n (Suc cur)"
    using pct_int [of "Suc cur" ?n] by (simp add: add.commute)
  then have p2: "(100 + int cur * 100) div int ?n = pct ?n (Suc cur)" by (simp add: algebra_simps)
  have up: "pct ?n cur \<le> pct ?n (Suc cur)" by (rule pct_mono) simp
  show ?thesis
  proof (cases "\<not> cancelled (pg_polls pg) \<and> (pct ?n (Suc cur) \<noteq> pg_lastPct pg \<or> ?n \<le> Suc cur)")
    case True
    have "?n = Suc cur" if "?n \<le> Suc cur" using that assms(2) by simp
    then have "?n \<le> Suc cur \<Longrightarrow> pct ?n (Suc cur) = 100"
      using pct_full [of ?n] by (metis zero_less_Suc)
    then have less: "pg_lastPct pg < pct ?n (Suc cur)"
      using True lst up pct_below [OF assms(2)] by fastforce
    have new: "pg_lastPct pg' = pct ?n (Suc cur)"
      "pg_notes pg' = pg_notes pg @ [progress_note i (files ! cur) (int (Suc cur)) (int ?n)]"
      using True assms(2,3) by (auto simp: idxProgressCb_def Let_def p p2 add.commute split: if_splits)
    have "\<forall>k \<in> set ks. k < Suc cur \<and> pct ?n k < pct ?n (Suc cur)" using ks(3,5) less by force
    then show ?thesis
      unfolding progress_inv_def new
      using ks less by (intro conjI exI [of _ "ks @ [Suc cur]"]) (auto simp: sorted_wrt_append)
  next
    case False
    then have "pg_lastPct pg' = pg_lastPct pg" "pg_notes pg' = pg_notes pg"
      using assms(2,3) by (auto simp: idxProgressCb_def Let_def p p2 add.commute split: if_splits)
    moreover have "set ks \<subseteq> {1..Suc cur}" using ks(3) by auto
    ultimately show ?thesis
      unfolding progress_inv_def using ks lst up by auto
  qed
qed

lemma progress_files:
  assumes "index_files stop ls content (idxProgressCb cancelled i) (int (length files)) ps (int cur) dn pg ix = (n, pg', ix')"
    and "progress_inv i files cur pg" and "ps = drop cur files" and "cur \<le> length files"
  shows "\<exists>cur'. progress_inv i files cur' pg' \<and> cur' \<le> length files"
  using assms
proof (induction ps arbitrary: cur dn pg ix)
  case (Cons q ps)
  have cur: "cur < length files" "files ! cur = q" "ps = drop (Suc cur) files"
    using Cons.prems(3) by (metis drop_eq_Nil leI list.distinct(1), metis nth_via_drop, metis Cons_nth_drop_Suc drop_eq_Nil leI list.distinct(1) list.inject)
  obtain go pg1 where cb: "idxProgressCb cancelled i q (int cur + 1) (int (length files)) pg = (go, pg1)" by force
  have inv: "progress_inv i files (Suc cur) pg1"
    using progress_step [OF Cons.prems(2) cur(1)] cb cur(2) by simp
  have suc: "int cur + 1 = int (Suc cur)" by simp
  show ?case
    using Cons.prems(1,2) cb inv cur Cons.IH [OF _ inv cur(3)]
    by (auto simp: poll_cancel_def Let_def suc simp del: of_nat_Suc split: if_splits prod.splits)
qed auto

text \<open>
  Progress never floods the connection. A run over any number of files, cancelled or not, sends at most
  one notification for each percentage, so at most 101; they come in the order of the files, each with
  the file's name and number and the total.
\<close>

theorem index_progress_bounded:
  assumes "index_run_rest stop cancelled start_error ls content files i e = (r, out, e')"
  shows "length out \<le> 101 \<and>
    (\<exists>ks. out = map (\<lambda>k. progress_note i (files ! (k - 1)) (int k) (int (length files))) ks
       \<and> sorted_wrt (<) ks \<and> set ks \<subseteq> {1..length files} \<and> distinct (map (pct (length files)) ks))"
proof -
  obtain res pg ix where run: "index_run stop ls content (idxProgressCb cancelled i) files no_progress (ie_indexer e) = (res, pg, ix)"
    by (metis prod_cases3)
  have out: "out = pg_notes pg" using assms run by (simp add: index_run_rest_def)
  have zero: "progress_inv i files 0 no_progress"
    by (simp add: progress_inv_def no_progress_def pct_def)
  have "\<exists>cur. progress_inv i files cur pg \<and> cur \<le> length files"
  proof (cases "pg = no_progress")
    case False
    then obtain n ix0 where "index_files stop ls content (idxProgressCb cancelled i) (int (length files)) files
        (int 0) 0 no_progress ix0 = (n, pg, ix)"
      using run by (auto simp: index_run_def Let_def split: if_splits prod.splits)
    from progress_files [OF this zero] show ?thesis by simp
  qed (use zero in auto)
  then obtain cur ks where ks: "out = map (\<lambda>k. progress_note i (files ! (k - 1)) (int k) (int (length files))) ks"
    "sorted_wrt (<) ks" "set ks \<subseteq> {1..cur}" "sorted_wrt (<) (map (pct (length files)) ks)" "cur \<le> length files"
    by (auto simp: progress_inv_def out)
  have d: "distinct (map (pct (length files)) ks)" using ks(4) strict_sorted_iff by blast
  have "set (map (pct (length files)) ks) \<subseteq> {0..100}"
  proof
    fix x
    assume "x \<in> set (map (pct (length files)) ks)"
    then obtain k where k: "k \<in> set ks" "x = pct (length files) k" by auto
    then have "k \<le> length files" using ks(3,5) by auto
    then show "x \<in> {0..100}" using pct_range [of k "length files"] k(2) by simp
  qed
  then have "card (set (map (pct (length files)) ks)) \<le> card {0..100::int}" by (intro card_mono) auto
  then have "length ks \<le> 101" using distinct_card [OF d] by simp
  then show ?thesis using ks d by force
qed

theorem index_progress_bounded_witness:
  "\<exists>r out e'. index_run_rest (\<lambda>_. False) (\<lambda>_. False) GrcTimeout tiny_server tiny_content [''/w/a.go''] ''idx-1''
       \<lparr>ie_indexer = new_indexer None, ie_stop = False, ie_cancelled = False\<rparr> = (r, out, e')
     \<and> length out \<le> 101"
proof -
  obtain r out e' where "index_run_rest (\<lambda>_. False) (\<lambda>_. False) GrcTimeout tiny_server tiny_content [''/w/a.go''] ''idx-1''
       \<lparr>ie_indexer = new_indexer None, ie_stop = False, ie_cancelled = False\<rparr> = (r, out, e')" by (metis prod_cases3)
  with index_progress_bounded [OF this] show ?thesis by blast
qed

text \<open>
  A cancellation that arrives between the request and the start of the run is lost: the run clears both flags.
\<close>

lemma early_cancel_is_lost:
  assumes "tab_lookup i tbl = Some e" and "str_field ''indexerId'' p = Some i"
  shows "snd (index_run_begin p (index_cancel p tbl)) = snd (index_run_begin p tbl)"
  using assms by (simp add: index_run_begin_def index_cancel_def reqStr_def tab_lookup_def tab_update_def)

end
