(* ===== verification/HeadWatch.thy ===== *)
theory HeadWatch
  imports IdTable Respond FsMeta
begin

text \<open>
  Watching a repository's HEAD: the core's watcher (\<^verbatim>\<open>core/src/fs/HeadWatcher.cpp\<close>, the Linux
  implementation) and the agent's registry of watches (\<^verbatim>\<open>watch.head\<close>, \<^verbatim>\<open>watch.stop\<close> in
  \<^verbatim>\<open>agent/main.cpp\<close>).
\<close>

section \<open>Finding HEAD\<close>

definition blank :: "char \<Rightarrow> bool" where
  "blank c \<longleftrightarrow> c \<in> {CHR '' '', CHR 0x09, CHR 0x0D, CHR 0x0A}"

definition trim :: "string \<Rightarrow> string" where
  "trim s = rstrip blank (dropWhile blank s)"

text \<open>The loop over the lines of a linked worktree's \<^verbatim>\<open>.git\<close> file: the first \<^verbatim>\<open>gitdir:\<close> line decides.\<close>

fun gitdir_of :: "string list \<Rightarrow> string" where
  "gitdir_of [] = []"
| "gitdir_of (l # ls) =
     (if starts_with (trim l) ''gitdir:''
      then dropWhile (\<lambda>c. c = CHR '' '' \<or> c = CHR 0x09) (drop 7 (trim l))
      else gitdir_of ls)"

definition resolveHeadPath :: "host \<Rightarrow> string \<Rightarrow> string" where
  "resolveHeadPath h clonePath =
     (let gitPath = clonePath @ ''/.git''
      in case stat_of h gitPath of
           Some (_, Dir _) \<Rightarrow> gitPath @ ''/HEAD''
         | Some (p, File b _ _) \<Rightarrow>
             if \<not> fst (h_access h p) then []
             else (let dir = gitdir_of (split_on CHR 0x0A b)
                   in if dir = [] then []
                      else (if hd dir = CHR ''/'' then dir else clonePath @ ''/'' @ dir) @ ''/HEAD'')
         | _ \<Rightarrow> [])"

section \<open>The watching thread\<close>

text \<open>
  Where the thread is: resolving and arming anew, armed on HEAD and its directory, waiting out a burst
  (\<^verbatim>\<open>kDebounceMs\<close>) or a replacement (\<^verbatim>\<open>kRenameSettleMs\<close>), pausing before it arms again, returned.
\<close>

definition kDebounceMs :: nat where "kDebounceMs = 250"
definition kRenameSettleMs :: nat where "kRenameSettleMs = 50"

datatype head_phase = Resolving | Armed | Debouncing | Settling | Pausing nat | Returned

text \<open>
  An inotify event: its mask, and the name of the entry where the watched object is a directory. \<open>file_mask\<close> and
  \<open>dir_mask\<close> are what the two watches ask for.
\<close>

datatype in_flag =
  IN_MODIFY | IN_CLOSE_WRITE | IN_DELETE_SELF | IN_MOVE_SELF | IN_ATTRIB | IN_MOVED_TO | IN_MOVED_FROM | IN_CREATE | IN_DELETE

type_synonym head_event = "in_flag list \<times> string option"

definition file_mask :: "in_flag list" where
  "file_mask = [IN_MODIFY, IN_CLOSE_WRITE, IN_DELETE_SELF, IN_MOVE_SELF, IN_ATTRIB]"

definition dir_mask :: "in_flag list" where
  "dir_mask = [IN_MOVED_TO, IN_CREATE, IN_DELETE]"

fun event_rearms :: "head_event \<Rightarrow> bool" where
  "event_rearms (m, n) \<longleftrightarrow>
     (IN_DELETE_SELF \<in> set m \<or> IN_MOVE_SELF \<in> set m)
     \<or> (IN_MOVED_TO \<in> set m \<or> IN_CREATE \<in> set m) \<and> n = Some ''HEAD''"

fun event_changes :: "head_event \<Rightarrow> bool" where
  "event_changes (m, n) \<longleftrightarrow>
     (IN_MOVED_TO \<in> set m \<or> IN_CREATE \<in> set m) \<and> n = Some ''HEAD''
     \<or> (IN_MODIFY \<in> set m \<or> IN_CLOSE_WRITE \<in> set m \<or> IN_ATTRIB \<in> set m)"

text \<open>One pass of the armed loop over the events read.\<close>

definition armed_events :: "head_event list \<Rightarrow> head_phase" where
  "armed_events evs =
     (if list_ex event_rearms evs then Settling else if list_ex event_changes evs then Debouncing else Armed)"

text \<open>
  \<open>HResolve\<close> is the attempt to arm (whether HEAD was found, whether the file and the directory could be watched),
  \<open>HEvents\<close> a read while armed, \<open>HTimeout\<close> the end of a wait: after a burst or a replacement the callback is called.
  \<open>HStop\<close> is \<^verbatim>\<open>grc_watch_destroy\<close>. Each step says whether the callback was called.
\<close>

datatype head_step = HResolve bool bool bool | HEvents "head_event list" | HTimeout | HStop

fun head_next :: "head_phase \<Rightarrow> head_step \<Rightarrow> (bool \<times> head_phase) option" where
  "head_next Returned s = None"
| "head_next p HStop = Some (False, Returned)"
| "head_next Resolving (HResolve found on_file on_dir) =
     Some (False, if \<not> found then Pausing 500 else if \<not> on_file \<and> \<not> on_dir then Pausing 200 else Armed)"
| "head_next Armed (HEvents evs) = Some (False, armed_events evs)"
| "head_next Debouncing HTimeout = Some (True, Pausing 200)"
| "head_next Settling HTimeout = Some (True, Pausing 200)"
| "head_next (Pausing n) HTimeout = Some (False, Resolving)"
| "head_next p s = None"

section \<open>The world it watches\<close>

text \<open>
  What may happen to HEAD, or to another entry of its directory, and the events the manual of inotify gives for it: on the
  file (\<open>True\<close>) or on the directory. Git replaces HEAD by renaming \<^verbatim>\<open>HEAD.lock\<close> over it.
\<close>

datatype head_change = Modified | ClosedWrite | Touched | Replaced | Created | Removed | MovedAway | OtherEntry in_flag string

fun raised :: "head_change \<Rightarrow> (bool \<times> in_flag \<times> string option) list" where
  "raised Modified = [(True, IN_MODIFY, None)]"
| "raised ClosedWrite = [(True, IN_CLOSE_WRITE, None)]"
| "raised Touched = [(True, IN_ATTRIB, None)]"
| "raised Replaced = [(False, IN_MOVED_TO, Some ''HEAD''), (True, IN_ATTRIB, None), (True, IN_DELETE_SELF, None)]"
| "raised Created = [(False, IN_CREATE, Some ''HEAD'')]"
| "raised Removed = [(True, IN_ATTRIB, None), (True, IN_DELETE_SELF, None), (False, IN_DELETE, Some ''HEAD'')]"
| "raised MovedAway = [(False, IN_MOVED_FROM, Some ''HEAD''), (True, IN_MOVE_SELF, None)]"
| "raised (OtherEntry f n) = (if n = ''HEAD'' then [] else [(False, f, Some n)])"

fun of_head :: "head_change \<Rightarrow> bool" where
  "of_head (OtherEntry f n) = False"
| "of_head _ = True"

text \<open>The file the watch was put on is no longer HEAD.\<close>

definition loses_file :: "head_change \<Rightarrow> bool" where
  "loses_file c \<longleftrightarrow> c \<in> {Replaced, Removed, MovedAway}"

record head_state =
  hs_phase :: head_phase
  hs_file :: bool
  hs_dir :: bool
  hs_queue :: "head_event list"

definition head_start :: head_state where
  "head_start = \<lparr>hs_phase = Resolving, hs_file = False, hs_dir = False, hs_queue = []\<rparr>"

text \<open>The events of a change that the watches in place asked for.\<close>

definition delivered :: "head_state \<Rightarrow> head_change \<Rightarrow> head_event list" where
  "delivered s c =
     map (\<lambda>(_, f, n). ([f], n))
       (filter (\<lambda>(on_file, f, _). if on_file then hs_file s \<and> f \<in> set file_mask else hs_dir s \<and> f \<in> set dir_mask) (raised c))"

text \<open>
  The world changes at any moment. The thread reads all that is queued, when something is; leaving the armed phase it
  closes the inotify descriptor, its watches and its queue with it.
\<close>

datatype head_action = HChange head_change | HDo head_step

inductive head_run :: "head_state \<Rightarrow> head_action \<Rightarrow> bool \<Rightarrow> head_state \<Rightarrow> bool" where
  change: "head_run s (HChange c) False
    (s\<lparr>hs_queue := hs_queue s @ delivered s c, hs_file := hs_file s \<and> \<not> loses_file c\<rparr>)"
| arm: "hs_phase s = Resolving \<Longrightarrow> head_next (hs_phase s) (HResolve found on_file on_dir) = Some (fired, p) \<Longrightarrow>
    head_run s (HDo (HResolve found on_file on_dir)) fired
      \<lparr>hs_phase = p, hs_file = (found \<and> on_file), hs_dir = (found \<and> on_dir), hs_queue = []\<rparr>"
| events: "hs_queue s \<noteq> [] \<Longrightarrow> head_next (hs_phase s) (HEvents (hs_queue s)) = Some (fired, p) \<Longrightarrow>
    head_run s (HDo (HEvents (hs_queue s))) fired
      \<lparr>hs_phase = p, hs_file = (p = Armed \<and> hs_file s), hs_dir = (p = Armed \<and> hs_dir s), hs_queue = []\<rparr>"
| wait_over: "st = HTimeout \<or> st = HStop \<Longrightarrow> head_next (hs_phase s) st = Some (fired, p) \<Longrightarrow>
    head_run s (HDo st) fired \<lparr>hs_phase = p, hs_file = False, hs_dir = False, hs_queue = []\<rparr>"

inductive head_runs :: "head_state \<Rightarrow> head_action list \<Rightarrow> nat \<Rightarrow> head_state \<Rightarrow> bool" where
  nil: "head_runs s [] 0 s"
| snoc: "head_runs s as n s1 \<Longrightarrow> head_run s1 a fired s2 \<Longrightarrow>
    head_runs s (as @ [a]) (if fired then Suc n else n) s2"

inductive_cases head_change_cases: "head_run s (HChange c) fired s'"

inductive_cases head_do_cases: "head_run s (HDo st) fired s'"

text \<open>A callback is coming: the thread waits to call it, or what is queued will make it do so.\<close>

definition report_pending :: "head_state \<Rightarrow> bool" where
  "report_pending s \<longleftrightarrow> hs_phase s \<in> {Debouncing, Settling} \<or> hs_phase s = Armed \<and> armed_events (hs_queue s) \<noteq> Armed"

text \<open>
  The changes a watch is in a position to see: all of them while it waits to call back, those of a watched file and the
  entries that appear in a watched directory while it is armed.
\<close>

definition in_view :: "head_state \<Rightarrow> head_change \<Rightarrow> bool" where
  "in_view s c \<longleftrightarrow> of_head c \<and>
     (hs_phase s \<in> {Debouncing, Settling}
      \<or> hs_phase s = Armed \<and> (hs_file s \<and> c \<noteq> Created \<or> hs_dir s \<and> c \<in> {Replaced, Created}))"

lemma armed_events_iff: "armed_events evs = Armed \<longleftrightarrow> \<not> list_ex event_changes evs \<and> \<not> list_ex event_rearms evs"
  by (auto simp: armed_events_def)

lemma armed_events_range: "armed_events evs \<in> {Armed, Debouncing, Settling}"
  by (auto simp: armed_events_def)

lemma reported_events:
  "list_ex event_changes (delivered s c) \<or> list_ex event_rearms (delivered s c) \<Longrightarrow> of_head c"
  by (cases c) (auto simp: delivered_def dir_mask_def split: if_splits)

lemma seen_pending: "head_run s (HChange c) fired s' \<Longrightarrow> in_view s c \<Longrightarrow> report_pending s'"
  by (erule head_change_cases; cases c)
    (auto simp: in_view_def report_pending_def armed_events_iff delivered_def file_mask_def dir_mask_def)

lemma report_pending_step:
  "head_run s a fired s' \<Longrightarrow> report_pending s \<Longrightarrow> fired \<or> report_pending s' \<or> hs_phase s' = Returned"
proof (induction rule: head_run.induct)
  case (events s fired p)
  then show ?case
    using armed_events_range [of "hs_queue s"] by (cases "hs_phase s") (auto simp: report_pending_def)
next
  case (wait_over st s fired p)
  then show ?case by (cases "hs_phase s") (auto simp: report_pending_def)
qed (auto simp: report_pending_def armed_events_iff)

lemma report_pending_before:
  "head_run s (HDo st) fired s' \<Longrightarrow> fired \<or> report_pending s' \<Longrightarrow> report_pending s \<and> (fired \<longrightarrow> \<not> report_pending s')"
  by (erule head_do_cases; cases "hs_phase s") (auto simp: report_pending_def armed_events_def split: if_splits)

lemma report_pending_runs:
  "head_runs s as n s' \<Longrightarrow> n = 0 \<Longrightarrow> report_pending s \<or> hs_phase s = Returned \<Longrightarrow> report_pending s' \<or> hs_phase s' = Returned"
proof (induction rule: head_runs.induct)
  case (snoc s as n s1 a fired s2)
  then have s1: "report_pending s1 \<or> hs_phase s1 = Returned" and "\<not> fired" by (auto split: if_splits)
  show ?case
  proof (cases "report_pending s1")
    case True
    with report_pending_step [OF snoc.hyps(2)] \<open>\<not> fired\<close> show ?thesis by blast
  next
    case False
    with s1 snoc.hyps(2) show ?thesis by (auto elim: head_run.cases)
  qed
qed simp

definition is_head_change :: "head_action \<Rightarrow> bool" where
  "is_head_change a \<longleftrightarrow> (case a of HChange c \<Rightarrow> of_head c | HDo _ \<Rightarrow> False)"

text \<open>No callback without a change of its own.\<close>

lemma callbacks_bounded:
  "head_runs s as n s' \<Longrightarrow> \<not> report_pending s \<Longrightarrow>
     n + (if report_pending s' then 1 else 0) \<le> length (filter is_head_change as)"
proof (induction rule: head_runs.induct)
  case (snoc s as n s1 a fired s2)
  show ?case
  proof (cases a)
    case (HChange c)
    then have "\<not> fired" "report_pending s2 \<Longrightarrow> report_pending s1 \<or> of_head c"
      using snoc.hyps(2) reported_events [of s1 c]
      by (auto simp: report_pending_def armed_events_iff elim!: head_change_cases)
    with snoc HChange show ?thesis by (auto simp: is_head_change_def split: if_splits)
  next
    case (HDo st)
    with report_pending_before [of s1 st fired s2] snoc show ?thesis
      by (auto simp: is_head_change_def split: if_splits)
  qed
qed simp

section \<open>The agent's registry\<close>

text \<open>An entry, with whether its core watch has been put into it yet.\<close>

record watch_entry =
  we_armed :: bool

type_synonym watches = "watch_entry id_table"

interpretation wat: id_registry "tab_alloc ''w-''" tab_lookup tab_remove "tab_issued ''w-''" "tab_ok ''w-''"
  by (rule tab_registry)

definition head_changed_note :: "string \<Rightarrow> json" where
  "head_changed_note i =
     JObj [(''jsonrpc'', JStr ''2.0''), (''method'', JStr ''watch.headChanged''),
           (''params'', JObj [(''watchId'', JStr i)])]"

definition watchHeadCb :: "(json \<Rightarrow> string) \<Rightarrow> string \<Rightarrow> transport \<Rightarrow> transport" where
  "watchHeadCb dump i tr = enqueue_frame Interactive tr (dump (head_changed_note i))"

text \<open>
  \<^verbatim>\<open>watch.head\<close> in its parts: the entry is made, the core watch is created (\<open>pipe_ok\<close> is its self-pipe), and the
  entry gets it or is dropped.
\<close>

definition watch_create :: "host \<Rightarrow> bool \<Rightarrow> string \<Rightarrow> bool" where
  "watch_create h pipe_ok path \<longleftrightarrow> resolveHeadPath h path \<noteq> [] \<and> pipe_ok"

definition watch_enter :: "watches \<Rightarrow> string \<times> watches" where
  "watch_enter tbl = tab_alloc ''w-'' \<lparr>we_armed = False\<rparr> tbl"

definition watch_settle :: "bool \<Rightarrow> string \<Rightarrow> string \<Rightarrow> watches \<Rightarrow> reply \<times> watches" where
  "watch_settle created path i tbl =
     (if \<not> created
      then (Error KNotFound (''could not resolve HEAD to watch at '' @ quoted path), tab_remove i tbl)
      else (Result (JObj [(''watchId'', JStr i)]),
            case tab_lookup i tbl of Some e \<Rightarrow> tab_update i (e\<lparr>we_armed := True\<rparr>) tbl | None \<Rightarrow> tbl))"

definition handleWatchHead :: "host \<Rightarrow> bool \<Rightarrow> json \<Rightarrow> watches \<Rightarrow> reply \<times> watches" where
  "handleWatchHead h pipe_ok p tbl =
     (case reqStr p ''path'' ''watch.head'' of
        Inl r \<Rightarrow> (r, tbl)
      | Inr path \<Rightarrow>
          (let (i, tbl1) = watch_enter tbl in watch_settle (watch_create h pipe_ok path) path i tbl1))"

text \<open>\<^verbatim>\<open>stopWatch\<close>: whether there was a core watch to destroy, and the table.\<close>

definition stopWatch :: "string \<Rightarrow> watches \<Rightarrow> bool \<times> watches" where
  "stopWatch i tbl =
     (case tab_lookup i tbl of None \<Rightarrow> (False, tbl) | Some e \<Rightarrow> (we_armed e, tab_remove i tbl))"

section \<open>Properties\<close>

text \<open>The thread's own next steps to the callback: the read, if it has not read yet, and the wait.\<close>

lemma callback_reached:
  assumes "report_pending s"
  shows "\<exists>as s'. head_runs s as 1 s' \<and> length as \<le> 2 \<and> set as \<subseteq> {HDo (HEvents (hs_queue s)), HDo HTimeout}"
proof -
  have wait: "\<exists>s2. head_run s1 (HDo HTimeout) True s2" if "hs_phase s1 \<in> {Debouncing, Settling}" for s1
    using head_run.wait_over [of HTimeout s1 True "Pausing 200"] that by auto
  show ?thesis
  proof (cases "hs_phase s = Armed")
    case True
    then have armed: "armed_events (hs_queue s) \<in> {Debouncing, Settling}"
      using assms armed_events_range [of "hs_queue s"] by (auto simp: report_pending_def)
    then have "hs_queue s \<noteq> []" by (auto simp: armed_events_def)
    then obtain s1 where one: "head_run s (HDo (HEvents (hs_queue s))) False s1" "hs_phase s1 = armed_events (hs_queue s)"
      using head_run.events [of s False "armed_events (hs_queue s)"] True by fastforce
    with armed wait [of s1] obtain s2 where two: "head_run s1 (HDo HTimeout) True s2" by auto
    have "head_runs s ([] @ [HDo (HEvents (hs_queue s))]) (if False then Suc 0 else 0) s1"
      by (rule head_runs.snoc [OF head_runs.nil one(1)])
    from head_runs.snoc [OF this two]
    have "head_runs s [HDo (HEvents (hs_queue s)), HDo HTimeout] 1 s2" by simp
    then show ?thesis by (intro exI conjI) auto
  next
    case False
    with assms wait [of s] obtain s2 where "head_run s (HDo HTimeout) True s2" by (auto simp: report_pending_def)
    from head_runs.snoc [OF head_runs.nil this] have "head_runs s [HDo HTimeout] 1 s2" by simp
    then show ?thesis by (intro exI conjI) auto
  qed
qed

text \<open>
  C34. A change of HEAD that the watcher is in a position to see is reported. Let HEAD be written, closed after writing,
  touched, replaced, removed or moved away while the armed watch is on the file, or replaced or created while it is on the
  directory, or change in any way while the thread waits to call back. However changes, reads, waits and a stop interleave
  afterwards, as long as the callback has not been called the thread has been stopped, or it is on its way to calling it: it is not
  pausing or resolving, every step it can take but a stop calls it or leaves it on its way, and at most two
  steps of its own, the read and the wait, reach it. And there are never more callbacks than changes of HEAD.
  What inotify queues for a change is its manual's, filtered by the masks of the two watches; a queue that
  overflows is not modelled.
\<close>

theorem head_change_reported:
  assumes "head_runs head_start as1 n1 s1" and "in_view s1 c" and "head_run s1 (HChange c) b s2"
    and "head_runs s2 as2 0 s3"
  shows "n1 \<le> length (filter is_head_change as1)
    \<and> (hs_phase s3 \<noteq> Returned \<longrightarrow>
         hs_phase s3 \<in> {Armed, Debouncing, Settling}
         \<and> (\<forall>st fired s4. head_run s3 (HDo st) fired s4 \<longrightarrow> st = HStop \<or> fired \<or> hs_phase s4 \<in> {Debouncing, Settling})
         \<and> (\<exists>as3 s4. head_runs s3 as3 1 s4 \<and> length as3 \<le> 2 \<and> set as3 \<subseteq> {HDo (HEvents (hs_queue s3)), HDo HTimeout}))"
proof (intro conjI impI)
  have "\<not> report_pending head_start" by (simp add: head_start_def report_pending_def)
  from callbacks_bounded [OF assms(1) this] show "n1 \<le> length (filter is_head_change as1)" by simp
next
  assume live: "hs_phase s3 \<noteq> Returned"
  from seen_pending [OF assms(3,2)] report_pending_runs [OF assms(4)] live have p: "report_pending s3" by blast
  then show "hs_phase s3 \<in> {Armed, Debouncing, Settling}" by (auto simp: report_pending_def)
  show "\<forall>st fired s4. head_run s3 (HDo st) fired s4 \<longrightarrow> st = HStop \<or> fired \<or> hs_phase s4 \<in> {Debouncing, Settling}"
    using p armed_events_range [of "hs_queue s3"] by (auto simp: report_pending_def elim!: head_do_cases)
  show "\<exists>as3 s4. head_runs s3 as3 1 s4 \<and> length as3 \<le> 2 \<and> set as3 \<subseteq> {HDo (HEvents (hs_queue s3)), HDo HTimeout}"
    by (rule callback_reached [OF p])
qed

definition head_armed :: "head_event list \<Rightarrow> head_state" where
  "head_armed evs = \<lparr>hs_phase = Armed, hs_file = True, hs_dir = True, hs_queue = evs\<rparr>"

lemma head_armed_run: "head_runs head_start [HDo (HResolve True True True)] 0 (head_armed [])"
proof -
  have "head_run head_start (HDo (HResolve True True True)) False (head_armed [])"
    using head_run.arm [of head_start True True True False Armed] by (simp add: head_start_def head_armed_def)
  from head_runs.snoc [OF head_runs.nil this] show ?thesis by simp
qed

lemma head_modified_run: "head_run (head_armed []) (HChange Modified) False (head_armed [([IN_MODIFY], None)])"
  using head_run.change [of "head_armed []" Modified]
  by (simp add: head_armed_def delivered_def file_mask_def loses_file_def)

theorem head_change_reported_witness:
  "\<exists>as s. head_runs (head_armed [([IN_MODIFY], None)]) as 1 s \<and> length as \<le> 2"
proof -
  have "in_view (head_armed []) Modified" by (simp add: in_view_def head_armed_def)
  from head_change_reported [OF head_armed_run this head_modified_run head_runs.nil] show ?thesis
    by (auto simp: head_armed_def)
qed

text \<open>
  A change right after a report is missed. After each callback the thread waits 200 milliseconds before
  it arms the watch again; HEAD changing in that time raises no event, and the thread goes on waiting, armed and
  with nothing queued, while its client shows the HEAD of before.
\<close>

theorem head_change_missed:
  "\<exists>s1 s. head_runs (head_armed [([IN_MODIFY], None)]) [HDo (HEvents [([IN_MODIFY], None)]), HDo HTimeout] 1 s1
     \<and> head_runs s1 [HChange Modified, HDo HTimeout, HDo (HResolve True True True)] 0 s \<and> s = head_armed []"
proof -
  let ?s = "\<lambda>p. \<lparr>hs_phase = p, hs_file = False, hs_dir = False, hs_queue = []\<rparr>"
  let ?ev = "[([IN_MODIFY], None)] :: head_event list"
  have 1: "head_run (head_armed ?ev) (HDo (HEvents ?ev)) False (?s Debouncing)"
    using head_run.events [of "head_armed ?ev" False Debouncing] by (simp add: armed_events_def head_armed_def)
  have 2: "head_run (?s Debouncing) (HDo HTimeout) True (?s (Pausing 200))"
    by (rule head_run.wait_over) simp_all
  have 3: "head_run (?s (Pausing 200)) (HChange Modified) False (?s (Pausing 200))"
    using head_run.change [of "?s (Pausing 200)" Modified] by (simp add: delivered_def)
  have 4: "head_run (?s (Pausing 200)) (HDo HTimeout) False (?s Resolving)"
    by (rule head_run.wait_over) simp_all
  have 5: "head_run (?s Resolving) (HDo (HResolve True True True)) False (head_armed [])"
    using head_run.arm [of "?s Resolving" True True True False Armed] by (simp add: head_armed_def)
  have "head_runs (head_armed ?ev) [HDo (HEvents ?ev), HDo HTimeout] 1 (?s (Pausing 200))"
    using head_runs.snoc [OF head_runs.snoc [OF head_runs.nil 1] 2] by simp
  moreover have "head_runs (?s (Pausing 200)) [HChange Modified, HDo HTimeout, HDo (HResolve True True True)] 0 (head_armed [])"
    using head_runs.snoc [OF head_runs.snoc [OF head_runs.snoc [OF head_runs.nil 3] 4] 5] by simp
  ultimately show ?thesis by blast
qed

text \<open>
  A stop that names a watch still being created removes its entry without the core watch, which is then left running.
\<close>

lemma early_stop_leaks:
  assumes "watch_enter tbl = (i, tbl1)"
  shows "fst (stopWatch i tbl1) = False
    \<and> fst (watch_settle True path i (snd (stopWatch i tbl1))) = Result (JObj [(''watchId'', JStr i)])
    \<and> tab_lookup i (snd (watch_settle True path i (snd (stopWatch i tbl1)))) = None"
  using assms by (auto simp: watch_enter_def tab_alloc_def Let_def stopWatch_def watch_settle_def tab_lookup_def tab_remove_def)

end
