(* ===== verification/GitObjects.thy ===== *)
theory GitObjects
  imports Json "HOL-Library.AList" "HOL-Library.Char_ord" "HOL-Library.List_Lexorder"
begin

text \<open>
  The objects of \<^verbatim>\<open>src/gitmanip\<close>: errors (\<^verbatim>\<open>error.cpp\<close>), object ids, signatures, commits and the repository
  calls the rewriting operations use (\<^verbatim>\<open>repository.cpp\<close>, \<^verbatim>\<open>commit.cpp\<close>), trees and \<^verbatim>\<open>TreeBuilder\<close>
  (\<^verbatim>\<open>tree_builder.cpp\<close>).

  libgit2 is a parameter, the record \<open>git_lib\<close>: what it answers where the answer is its own (merges, names
  it accepts, the id of a new commit, the failures it reports). Its object store is a map; a tree is its
  entries, in no particular order, with subtrees inline: two trees with the same id are the same tree.
  Writing a blob or a tree is taken to succeed.
\<close>

section \<open>Errors\<close>

datatype gm_code =
    Unknown | RepositoryNotFound | RepositoryCorrupted | ReferenceNotFound | CommitNotFound | InvalidOid
  | ConflictDetected | IndexLocked | WorkdirDirty | InvalidOperation | InvalidArgument | IoError
  | MergeConflict | EmptyCommit | SigningError | NotFound | NotSupported

record gm_error =
  ge_code :: gm_code
  ge_message :: string

datatype git_code =
  GIT_ENOTFOUND | GIT_ECONFLICT | GIT_ELOCKED | GIT_EUNMERGED | GIT_EINVALIDSPEC | GIT_CODE

datatype git_class =
    GIT_ERROR_REPOSITORY | GIT_ERROR_REFERENCE | GIT_ERROR_OBJECT | GIT_ERROR_INDEX | GIT_ERROR_MERGE
  | GIT_ERROR_CHECKOUT | GIT_ERROR_OS | GIT_ERROR_INVALID | GIT_ERROR_CLASS

text \<open>A negative answer of libgit2: its code, the number of the code, and what \<^verbatim>\<open>git_error_last\<close> says.\<close>

record git_failure =
  gf_code :: git_code
  gf_number :: int
  gf_last :: "(git_class \<times> string) option"

fun class_code :: "git_class \<Rightarrow> gm_code" where
  "class_code GIT_ERROR_REPOSITORY = RepositoryCorrupted"
| "class_code GIT_ERROR_REFERENCE = ReferenceNotFound"
| "class_code GIT_ERROR_OBJECT = CommitNotFound"
| "class_code GIT_ERROR_INDEX = IndexLocked"
| "class_code GIT_ERROR_MERGE = MergeConflict"
| "class_code GIT_ERROR_CHECKOUT = WorkdirDirty"
| "class_code GIT_ERROR_OS = IoError"
| "class_code GIT_ERROR_INVALID = InvalidArgument"
| "class_code GIT_ERROR_CLASS = Unknown"

definition check_libgit2_error :: "git_failure \<Rightarrow> string \<Rightarrow> gm_error" where
  "check_libgit2_error f ctx =
     (let code0 = (case gf_last f of Some (k, _) \<Rightarrow> class_code k | None \<Rightarrow> Unknown);
          msg = (case gf_last f of
                   Some (_, m) \<Rightarrow> ctx @ '': '' @ m
                 | None \<Rightarrow> ctx @ '': unknown error (code '' @ int_text (gf_number f) @ '')'');
          code = (case gf_code f of
                    GIT_ENOTFOUND \<Rightarrow> if code0 = Unknown then CommitNotFound else code0
                  | GIT_ECONFLICT \<Rightarrow> ConflictDetected
                  | GIT_ELOCKED \<Rightarrow> IndexLocked
                  | GIT_EUNMERGED \<Rightarrow> MergeConflict
                  | GIT_EINVALIDSPEC \<Rightarrow> InvalidOid
                  | GIT_CODE \<Rightarrow> code0)
      in \<lparr>ge_code = code, ge_message = msg\<rparr>)"

definition checked :: "string \<Rightarrow> git_failure + 'a \<Rightarrow> gm_error + 'a" where
  "checked ctx r = (case r of Inl f \<Rightarrow> Inl (check_libgit2_error f ctx) | Inr x \<Rightarrow> Inr x)"

lemma checked_simps [simp]:
  "checked ctx (Inr x) = Inr x" "checked ctx (Inl f) = Inl (check_libgit2_error f ctx)"
  by (simp_all add: checked_def)

lemma checked_Inr: "checked ctx r = Inr x \<longleftrightarrow> r = Inr x"
  by (cases r) auto

section \<open>Object ids and signatures\<close>

text \<open>An id by its forty lower-case hexadecimal digits, as \<^verbatim>\<open>to_string\<close> prints it.\<close>

type_synonym oid = string

definition is_hex :: "char \<Rightarrow> bool" where
  "is_hex c \<longleftrightarrow> c \<in> set ''0123456789abcdefABCDEF''"

definition HexSize :: nat where "HexSize = 40"

definition short_id :: "oid \<Rightarrow> string" where
  "short_id i = take 7 i"

definition zero_oid :: oid where
  "zero_oid = replicate HexSize CHR ''0''"

definition is_zero :: "oid \<Rightarrow> bool" where
  "is_zero i \<longleftrightarrow> list_all (\<lambda>c. c = CHR ''0'') i"

text \<open>The constructor from text: \<^verbatim>\<open>git_oid_fromstr\<close> reads the first forty digits and ignores the rest.\<close>

definition oid_of_hex :: "git_failure \<Rightarrow> string \<Rightarrow> gm_error + oid" where
  "oid_of_hex bad hex =
     (if length hex < HexSize
      then Inl \<lparr>ge_code = InvalidOid, ge_message = ''OID hex string too short: '' @ hex\<rparr>
      else if list_all is_hex (take HexSize hex) then Inr (ascii_lower (take HexSize hex))
      else checked ''parsing OID'' (Inl bad))"

record signature =
  sg_name :: string
  sg_email :: string
  sg_time :: int
  sg_offset :: int

definition two_digits :: "nat \<Rightarrow> string" where
  "two_digits n = (if n < 10 then CHR ''0'' # nat_text n else nat_text n)"

text \<open>\<^verbatim>\<open>Signature::format\<close>; C++ division rounds towards zero.\<close>

definition signature_format :: "signature \<Rightarrow> string" where
  "signature_format s =
     (let h = sgn (sg_offset s) * (\<bar>sg_offset s\<bar> div 60)
      in sg_name s @ '' <'' @ sg_email s @ ''> '' @ (if h < 0 then ''-'' else ''+'') @ two_digits (nat \<bar>h\<bar>)
           @ two_digits (nat (\<bar>sg_offset s\<bar> mod 60)))"

text \<open>
  The sign comes from the hours, so it is lost for an offset of less than an hour west: \<^verbatim>\<open>-30\<close> prints as
  \<^verbatim>\<open>+0030\<close>.
\<close>

lemma signature_format_loses_sign:
  "signature_format \<lparr>sg_name = ''n'', sg_email = ''e'', sg_time = 0, sg_offset = -30\<rparr> = ''n <e> +0030''"
  by code_simp

section \<open>Trees and commits\<close>

datatype git_entry = Blob int string | is_subtree: Subtree "(string \<times> git_entry) list" | Gitlink oid

type_synonym git_tree = "(string \<times> git_entry) list"

definition GIT_FILEMODE_BLOB :: int where "GIT_FILEMODE_BLOB = 33188"

record git_commit =
  gc_tree :: git_tree
  gc_parents :: "oid list"
  gc_message :: string
  gc_author :: signature
  gc_committer :: signature

text \<open>A \<^verbatim>\<open>Commit\<close>: the object and its id.\<close>

type_synonym commit = "oid \<times> git_commit"

text \<open>\<^verbatim>\<open>git_commit_message\<close> leaves out leading line feeds.\<close>

definition commit_message :: "commit \<Rightarrow> string" where
  "commit_message c = dropWhile (\<lambda>ch. ch = CHR 0x0A) (gc_message (snd c))"

definition commit_author :: "commit \<Rightarrow> signature" where
  "commit_author c = gc_author (snd c)"

definition commit_tree :: "commit \<Rightarrow> git_tree" where
  "commit_tree c = gc_tree (snd c)"

record git_lib =
  gl_valid_name :: "string \<Rightarrow> bool"
  gl_bad_name :: git_failure
  gl_absent :: git_failure
  gl_merge :: "git_tree \<Rightarrow> git_tree \<Rightarrow> git_tree \<Rightarrow> git_failure + git_tree option"
  gl_signature :: "signature \<Rightarrow> git_failure + signature"
  gl_commit :: "git_commit \<Rightarrow> git_failure + oid"
  gl_no_commit :: git_failure
  gl_no_ref :: git_failure
  gl_bad_hex :: git_failure
  gl_default :: "git_failure + signature"
  gl_summary :: "string \<Rightarrow> string"

section \<open>The repository\<close>

text \<open>\<open>rp_head\<close> is the reference \<^verbatim>\<open>HEAD\<close> names, itself when it is detached.\<close>

record repository =
  rp_commits :: "oid \<rightharpoonup> git_commit"
  rp_refs :: "string \<rightharpoonup> oid"
  rp_head :: string

definition resolve_ref :: "git_lib \<Rightarrow> repository \<Rightarrow> string \<Rightarrow> gm_error + oid" where
  "resolve_ref lib rp refname =
     (case rp_refs rp (if refname = ''HEAD'' then rp_head rp else refname) of
        Some i \<Rightarrow> Inr i
      | None \<Rightarrow> checked (''resolving reference '' @ refname) (Inl (gl_no_ref lib)))"

definition head_oid :: "git_lib \<Rightarrow> repository \<Rightarrow> gm_error + oid" where
  "head_oid lib rp = resolve_ref lib rp ''HEAD''"

definition lookup_commit :: "git_lib \<Rightarrow> repository \<Rightarrow> oid \<Rightarrow> gm_error + commit" where
  "lookup_commit lib rp i =
     (case rp_commits rp i of
        Some c \<Rightarrow> Inr (i, c)
      | None \<Rightarrow> checked (''looking up commit '' @ short_id i) (Inl (gl_no_commit lib)))"

definition try_lookup_commit :: "git_lib \<Rightarrow> repository \<Rightarrow> oid \<Rightarrow> gm_error + commit option" where
  "try_lookup_commit lib rp i =
     (case rp_commits rp i of
        Some c \<Rightarrow> Inr (Some (i, c))
      | None \<Rightarrow>
          if gf_code (gl_no_commit lib) = GIT_ENOTFOUND then Inr None
          else checked (''looking up commit '' @ short_id i) (Inl (gl_no_commit lib)))"

definition commit_parent :: "git_lib \<Rightarrow> repository \<Rightarrow> commit \<Rightarrow> nat \<Rightarrow> gm_error + commit" where
  "commit_parent lib rp c n =
     (case (if n < length (gc_parents (snd c)) then rp_commits rp (gc_parents (snd c) ! n) else None) of
        Some p \<Rightarrow> Inr (gc_parents (snd c) ! n, p)
      | None \<Rightarrow> checked (''getting parent '' @ nat_text n @ '' of commit '' @ short_id (fst c)) (Inl (gl_no_commit lib)))"

definition parent_id :: "commit \<Rightarrow> nat \<Rightarrow> gm_error + oid" where
  "parent_id c n =
     (if n < length (gc_parents (snd c)) then Inr (gc_parents (snd c) ! n)
      else Inl \<lparr>ge_code = InvalidArgument,
                ge_message = ''parent index '' @ nat_text n @ '' out of range for commit '' @ short_id (fst c)\<rparr>)"

definition default_signature :: "git_lib \<Rightarrow> gm_error + signature" where
  "default_signature lib = checked ''getting default signature'' (gl_default lib)"

text \<open>\<^verbatim>\<open>create_commit\<close>: nothing but the new object is added, no reference moves.\<close>

definition create_commit ::
  "git_lib \<Rightarrow> repository \<Rightarrow> string \<Rightarrow> git_tree \<Rightarrow> oid list \<Rightarrow> signature \<Rightarrow> signature \<Rightarrow> gm_error + (oid \<times> repository)" where
  "create_commit lib rp msg t parents author committer =
     bindr (checked ''creating author signature'' (gl_signature lib author)) (\<lambda>a.
     bindr (checked ''creating committer signature'' (gl_signature lib committer)) (\<lambda>c.
       (let gc = \<lparr>gc_tree = t, gc_parents = parents, gc_message = c_str msg, gc_author = a, gc_committer = c\<rparr>
        in bindr (checked ''creating commit'' (gl_commit lib gc)) (\<lambda>i.
             Inr (i, rp\<lparr>rp_commits := (rp_commits rp)(i \<mapsto> gc)\<rparr>)))))"

definition update_ref :: "repository \<Rightarrow> string \<Rightarrow> oid \<Rightarrow> repository" where
  "update_ref rp refname i = rp\<lparr>rp_refs := (rp_refs rp)(refname \<mapsto> i)\<rparr>"

lemma lookup_commit_Inr: "lookup_commit lib rp i = Inr c \<longleftrightarrow> (\<exists>g. rp_commits rp i = Some g \<and> c = (i, g))"
  by (auto simp: lookup_commit_def split: option.splits)

lemma create_commit_Inr:
  assumes "create_commit lib rp msg t parents author committer = Inr (i, rp')"
  obtains a c where "gl_signature lib author = Inr a" and "gl_signature lib committer = Inr c"
    and "gl_commit lib \<lparr>gc_tree = t, gc_parents = parents, gc_message = c_str msg, gc_author = a, gc_committer = c\<rparr> = Inr i"
    and "rp' = rp\<lparr>rp_commits := (rp_commits rp)(i \<mapsto> \<lparr>gc_tree = t, gc_parents = parents, gc_message = c_str msg,
           gc_author = a, gc_committer = c\<rparr>)\<rparr>"
  using assms by (auto simp: create_commit_def Let_def bindr_Inr checked_Inr)

section \<open>TreeBuilder\<close>

text \<open>
  The entries of the tree under construction and the blobs with a directory in their path, which wait for
  \<^verbatim>\<open>build\<close>.
\<close>

record tree_builder =
  tb_entries :: git_tree
  tb_pending :: "(string \<times> git_entry) list"

definition new_tree_builder :: "git_tree \<Rightarrow> tree_builder" where
  "new_tree_builder base = \<lparr>tb_entries = base, tb_pending = []\<rparr>"

definition treebuilder_insert :: "git_lib \<Rightarrow> string \<Rightarrow> git_entry \<Rightarrow> git_tree \<Rightarrow> git_failure + git_tree" where
  "treebuilder_insert lib nm e t =
     (if gl_valid_name lib nm then Inr (AList.update nm e t) else Inl (gl_bad_name lib))"

definition tb_insert :: "git_lib \<Rightarrow> string \<Rightarrow> git_entry \<Rightarrow> tree_builder \<Rightarrow> gm_error + tree_builder" where
  "tb_insert lib nm e tb =
     bindr (checked (''inserting '' @ nm @ '' into tree'') (treebuilder_insert lib (c_str nm) e (tb_entries tb)))
       (\<lambda>t. Inr (tb\<lparr>tb_entries := t\<rparr>))"

definition insert_blob :: "git_lib \<Rightarrow> string \<Rightarrow> string \<Rightarrow> tree_builder \<Rightarrow> gm_error + tree_builder" where
  "insert_blob lib path content tb =
     (if CHR ''/'' \<in> set path
      then Inr (tb\<lparr>tb_pending := AList.update path (Blob GIT_FILEMODE_BLOB content) (tb_pending tb)\<rparr>)
      else tb_insert lib path (Blob GIT_FILEMODE_BLOB content) tb)"

definition tb_remove :: "git_lib \<Rightarrow> string \<Rightarrow> tree_builder \<Rightarrow> gm_error + tree_builder" where
  "tb_remove lib nm tb =
     (if map_of (tb_entries tb) (c_str nm) \<noteq> None
      then Inr (tb\<lparr>tb_entries := AList.delete (c_str nm) (tb_entries tb)\<rparr>)
      else if gf_code (gl_absent lib) = GIT_ENOTFOUND then Inr tb
      else checked (''removing '' @ nm @ '' from tree'') (Inl (gl_absent lib)))"

definition tb_clear :: "tree_builder \<Rightarrow> tree_builder" where
  "tb_clear tb = \<lparr>tb_entries = [], tb_pending = []\<rparr>"

text \<open>Run a fallible step for each element, in order; the first failure is the answer.\<close>

fun each :: "('a \<Rightarrow> 'e + 'b) \<Rightarrow> 'a list \<Rightarrow> 'e + 'b list" where
  "each f [] = Inr []"
| "each f (x # xs) = bindr (f x) (\<lambda>y. bindr (each f xs) (\<lambda>ys. Inr (y # ys)))"

lemma each_cong [fundef_cong]:
  "xs = ys \<Longrightarrow> (\<And>x. x \<in> set ys \<Longrightarrow> f x = g x) \<Longrightarrow> each f xs = each g ys"
  by (induction xs arbitrary: ys) auto

text \<open>
  \<^verbatim>\<open>build_tree_recursive\<close>: of the pending paths below \<open>prefix\<close>, those without a further slash are entries,
  the others are gathered by their next directory, whose tree is built the same way. The two \<^verbatim>\<open>std::map\<close>
  loops run in the order of the names.
\<close>

definition below :: "string \<Rightarrow> (string \<times> git_entry) list \<Rightarrow> (string \<times> git_entry) list" where
  "below pre pend = map (\<lambda>(p, e). (drop (length pre) p, e)) (filter (\<lambda>(p, _). starts_with p pre) (sort_key fst pend))"

definition direct :: "(string \<times> git_entry) list \<Rightarrow> (string \<times> git_entry) list" where
  "direct rel = filter (\<lambda>(r, _). CHR ''/'' \<notin> set r) rel"

definition subdirs :: "(string \<times> git_entry) list \<Rightarrow> string list" where
  "subdirs rel = sort (remdups (map (\<lambda>(r, _). before CHR ''/'' r) (filter (\<lambda>(r, _). CHR ''/'' \<in> set r) rel)))"

definition longest :: "(string \<times> git_entry) list \<Rightarrow> nat" where
  "longest pend = Max (insert 0 (set (map (length \<circ> fst) pend)))"

lemma subdirs_below:
  assumes "d \<in> set (subdirs (below pre pend))"
  shows "\<exists>p e r. (p, e) \<in> set pend \<and> p = pre @ d @ CHR ''/'' # r \<and> CHR ''/'' \<notin> set d"
proof -
  from assms obtain p e where p: "(p, e) \<in> set pend" "starts_with p pre"
    and sl: "CHR ''/'' \<in> set (drop (length pre) p)" and d: "d = before CHR ''/'' (drop (length pre) p)"
    by (auto simp: subdirs_def below_def)
  have "p = pre @ drop (length pre) p"
    using p(2) by (metis append_take_drop_id starts_with_def)
  moreover have "drop (length pre) p = d @ CHR ''/'' # after CHR ''/'' (drop (length pre) p)"
    using before_after [OF sl] d by simp
  ultimately show ?thesis
    using p(1) d by (metis before_def set_takeWhileD)
qed

lemma longest_ge: "(p, e) \<in> set pend \<Longrightarrow> length p \<le> longest pend"
  unfolding longest_def by (rule Max_ge) (auto simp: image_iff intro!: bexI [of _ "(p, e)"])

function build_tree_recursive :: "git_lib \<Rightarrow> (string \<times> git_entry) list \<Rightarrow> string \<Rightarrow> gm_error + git_tree" where
  "build_tree_recursive lib pend pre =
     (let rel = below pre pend
      in bindr (each (\<lambda>(r, e). bindr (checked (''inserting '' @ pre @ r @ '' into tree'')
                                       (treebuilder_insert lib (c_str r) e [])) (\<lambda>_. Inr (c_str r, e)))
                     (direct rel)) (\<lambda>files.
         bindr (each (\<lambda>d. bindr (build_tree_recursive lib pend (pre @ d @ ''/'')) (\<lambda>t.
                           bindr (checked (''inserting subtree '' @ d @ '' into tree'')
                                    (treebuilder_insert lib (c_str d) (Subtree t) [])) (\<lambda>_.
                             Inr (c_str d, Subtree t))))
                     (subdirs rel)) (\<lambda>dirs.
           Inr (fold (\<lambda>(n, e). AList.update n e) (files @ dirs) []))))"
  by pat_completeness auto
termination
proof (relation "measure (\<lambda>(_, pend, pre). Suc (longest pend) - length pre)", goal_cases)
  case (2 lib pend pre rel files d)
  then obtain p e r where "(p, e) \<in> set pend" "p = pre @ d @ CHR ''/'' # r"
    using subdirs_below [of d pre pend] by auto
  with longest_ge [of p e pend] show ?case by simp
qed simp

declare build_tree_recursive.simps [simp del]

definition tb_build :: "git_lib \<Rightarrow> tree_builder \<Rightarrow> gm_error + git_tree" where
  "tb_build lib tb =
     (if tb_pending tb \<noteq> [] then build_tree_recursive lib (tb_pending tb) [] else Inr (tb_entries tb))"

text \<open>
  \<^verbatim>\<open>entry_by_path\<close>, by the names of the path; a path that ends in a slash names a directory. \<open>leaf_at\<close> leaves
  the directories out.
\<close>

fun entry_at :: "git_tree \<Rightarrow> string list \<Rightarrow> git_entry option" where
  "entry_at t [] = None"
| "entry_at t [n] = map_of t n"
| "entry_at t (n # m # ms) =
     (case map_of t n of
        Some (Subtree s) \<Rightarrow> if m = [] \<and> ms = [] then Some (Subtree s) else entry_at s (m # ms)
      | _ \<Rightarrow> None)"

definition entry_by_path :: "git_tree \<Rightarrow> string \<Rightarrow> git_entry option" where
  "entry_by_path t path = entry_at t (split_on CHR ''/'' (c_str path))"

definition blob_content :: "git_tree \<Rightarrow> string \<Rightarrow> string option" where
  "blob_content t path = (case entry_by_path t path of Some (Blob _ c) \<Rightarrow> Some c | _ \<Rightarrow> None)"

definition leaf_at :: "git_tree \<Rightarrow> string list \<Rightarrow> git_entry option" where
  "leaf_at t ns = (case entry_at t ns of Some (Subtree _) \<Rightarrow> None | x \<Rightarrow> x)"

fun slashed :: "string list \<Rightarrow> string" where
  "slashed [] = []"
| "slashed [n] = n"
| "slashed (n # m # ms) = n @ CHR ''/'' # slashed (m # ms)"

section \<open>What a build of nested paths holds\<close>

text \<open>Paths libgit2 takes: every component is a valid name, without NUL.\<close>

definition good_name_for :: "git_lib \<Rightarrow> string \<Rightarrow> bool" where
  "good_name_for lib n \<longleftrightarrow> n \<noteq> [] \<and> gl_valid_name lib n \<and> CHR 0x00 \<notin> set n"

definition pending_ok :: "git_lib \<Rightarrow> (string \<times> git_entry) list \<Rightarrow> bool" where
  "pending_ok lib pend \<longleftrightarrow> distinct (map fst pend)
     \<and> (\<forall>(p, e) \<in> set pend. list_all (good_name_for lib) (split_on CHR ''/'' p) \<and> \<not> is_subtree e
          \<and> (\<forall>(q, _) \<in> set pend. \<not> starts_with q (p @ ''/'')))"

lemma split_on_append_all: "split_on c (x @ c # y) = split_on c x @ split_on c y"
proof (induction x)
  case (Cons a x)
  then show ?case
    by (cases "split_on c x") auto
qed simp

lemma map_of_updates: "map_of (fold (\<lambda>(n, e). AList.update n e) xs t) = map_of t ++ map_of (rev xs)"
  by (induction xs arbitrary: t) (auto simp: AList.update_conv' map_add_def split: option.splits)

lemma map_of_rev_distinct: "distinct (map fst xs) \<Longrightarrow> map_of (rev xs) = map_of xs"
  by (rule map_of_inject_set [THEN iffD2]) (simp_all add: rev_map [symmetric])

lemma option_eqI: "(\<And>e. x = Some e \<longleftrightarrow> y = Some e) \<Longrightarrow> x = y"
  by (cases x; cases y) auto

lemma each_Inr: "(\<And>x. x \<in> set xs \<Longrightarrow> f x = Inr (g x)) \<Longrightarrow> each f xs = Inr (map g xs)"
  by (induction xs) auto

lemma set_below: "(r, e) \<in> set (below pre pend) \<longleftrightarrow> (pre @ r, e) \<in> set pend"
proof
  assume "(r, e) \<in> set (below pre pend)"
  then obtain p where "(p, e) \<in> set pend" "starts_with p pre" "r = drop (length pre) p"
    by (auto simp: below_def)
  then show "(pre @ r, e) \<in> set pend"
    by (metis append_take_drop_id starts_with_def)
next
  assume "(pre @ r, e) \<in> set pend"
  then show "(r, e) \<in> set (below pre pend)"
    by (force simp: below_def)
qed

lemma distinct_below: 
  assumes "distinct (map fst pend)"
  shows "distinct (map fst (below pre pend))"
proof -
  from assms have "distinct (map fst (sort_key fst pend))"
    by (simp add: distinct_map)
  then have "distinct (map fst (filter (\<lambda>(p, _). starts_with p pre) (sort_key fst pend)))"
    by (rule distinct_map_filter)
  then have "distinct (map (drop (length pre)) (map fst (filter (\<lambda>(p, _). starts_with p pre) (sort_key fst pend))))"
    by (subst distinct_map) (auto simp: inj_on_def starts_with_def, metis append_take_drop_id)
  moreover have "map fst (below pre pend)
      = map (drop (length pre)) (map fst (filter (\<lambda>(p, _). starts_with p pre) (sort_key fst pend)))"
    by (simp add: below_def comp_def case_prod_beta)
  ultimately show ?thesis by simp
qed

lemma set_direct: "(r, e) \<in> set (direct (below pre pend)) \<longleftrightarrow> (pre @ r, e) \<in> set pend \<and> CHR ''/'' \<notin> set r"
  using set_below [of r e pre pend] by (auto simp: direct_def)

lemma set_subdirs: "d \<in> set (subdirs (below pre pend))
    \<longleftrightarrow> CHR ''/'' \<notin> set d \<and> (\<exists>r e. (pre @ d @ CHR ''/'' # r, e) \<in> set pend)"
proof
  assume "d \<in> set (subdirs (below pre pend))"
  from subdirs_below [OF this] show "CHR ''/'' \<notin> set d \<and> (\<exists>r e. (pre @ d @ CHR ''/'' # r, e) \<in> set pend)"
    by auto
next
  assume "CHR ''/'' \<notin> set d \<and> (\<exists>r e. (pre @ d @ CHR ''/'' # r, e) \<in> set pend)"
  then obtain r e where d: "CHR ''/'' \<notin> set d" and "(d @ CHR ''/'' # r, e) \<in> set (below pre pend)"
    by (auto simp: set_below)
  then show "d \<in> set (subdirs (below pre pend))"
    by (force simp: subdirs_def)
qed

text \<open>A prefix the recursion reaches is empty or ends at a component.\<close>

definition aligned :: "string \<Rightarrow> bool" where
  "aligned pre \<longleftrightarrow> pre = [] \<or> last pre = CHR ''/''"

lemma aligned_split:
  assumes "aligned pre"
  shows "\<exists>ns. split_on CHR ''/'' (pre @ r) = ns @ split_on CHR ''/'' r"
proof (cases "pre = []")
  case False
  with assms have "pre @ r = butlast pre @ CHR ''/'' # r"
    by (metis aligned_def append.assoc append_Cons append_Nil append_butlast_last_id)
  then show ?thesis by (metis split_on_append_all)
qed simp

lemma aligned_next: "aligned (pre @ d @ ''/'')"
  by (simp add: aligned_def)

lemma pending_name:
  assumes "pending_ok lib pend" and "(pre @ r, e) \<in> set pend" and "aligned pre"
  shows "list_all (good_name_for lib) (split_on CHR ''/'' r)"
  using assms aligned_split [OF assms(3), of r] by (force simp: pending_ok_def)

lemma pending_no_dir:
  assumes "pending_ok lib pend" and "(p, e) \<in> set pend"
  shows "(p @ CHR ''/'' # r, e') \<notin> set pend"
proof
  assume "(p @ CHR ''/'' # r, e') \<in> set pend"
  with assms have "\<not> starts_with ((p @ ''/'') @ r) (p @ ''/'')"
    by (fastforce simp: pending_ok_def)
  then show False by (simp only: starts_with_append simp_thms)
qed

lemma good_split: "CHR ''/'' \<notin> set d \<Longrightarrow> list_all P (split_on CHR ''/'' (d @ CHR ''/'' # r)) \<Longrightarrow> P d"
  by (simp add: split_on_append)

definition plain_names :: "string list \<Rightarrow> bool" where
  "plain_names ns \<longleftrightarrow> list_all (\<lambda>n. n \<noteq> [] \<and> CHR ''/'' \<notin> set n) ns"

text \<open>
  A tree made of the subtrees \<open>T\<close> under the names in \<open>D\<close> and of \<open>files\<close> holds the pending paths, when each
  part does.
\<close>

lemma leaf_of_parts:
  assumes lookup: "\<And>n. map_of t n = (if n \<in> D then Some (Subtree (T n)) else map_of files n)"
    and leaf_files: "\<And>n s. map_of files n \<noteq> Some (Subtree s)"
    and single: "\<And>n. CHR ''/'' \<notin> set n \<Longrightarrow> map_of files n = map_of pend (pre @ n)"
    and dirs: "\<And>n r e. CHR ''/'' \<notin> set n \<Longrightarrow> (pre @ n @ CHR ''/'' # r, e) \<in> set pend \<Longrightarrow> n \<in> D"
    and no_file: "\<And>n. n \<in> D \<Longrightarrow> map_of pend (pre @ n) = None"
    and sub: "\<And>n ns. n \<in> D \<Longrightarrow> ns \<noteq> [] \<Longrightarrow> plain_names ns \<Longrightarrow> leaf_at (T n) ns = map_of pend ((pre @ n @ ''/'') @ slashed ns)"
    and ns: "ns \<noteq> []" "plain_names ns"
  shows "leaf_at t ns = map_of pend (pre @ slashed ns)"
proof (cases ns rule: slashed.cases)
  case (2 n)
  with ns no_file [of n] leaf_files [of n] single [of n] show ?thesis
    by (auto simp: leaf_at_def lookup plain_names_def split: option.splits git_entry.splits)
next
  case (3 n m ms)
  show ?thesis
  proof (cases "n \<in> D")
    case True
    with 3 ns sub [OF True, of "m # ms"] show ?thesis
      by (auto simp: leaf_at_def lookup plain_names_def)
  next
    case False
    have "map_of pend (pre @ n @ CHR ''/'' # slashed (m # ms)) = None"
      using False dirs [of n] 3 ns by (cases "map_of pend (pre @ n @ CHR ''/'' # slashed (m # ms))")
        (auto simp: plain_names_def dest!: map_of_SomeD)
    with 3 False leaf_files [of n] show ?thesis
      by (auto simp: leaf_at_def lookup split: option.splits git_entry.splits)
  qed
qed (use ns in simp)

lemma build_tree_exact:
  assumes "pending_ok lib pend" and "aligned pre"
  shows "\<exists>t. build_tree_recursive lib pend pre = Inr t
    \<and> (\<forall>ns. ns \<noteq> [] \<and> plain_names ns \<longrightarrow> leaf_at t ns = map_of pend (pre @ slashed ns))"
  using assms
proof (induction lib pend pre rule: build_tree_recursive.induct)
  case (1 lib pend pre)
  define rel where "rel = below pre pend"
  have ok: "pending_ok lib pend" and al: "aligned pre" using 1 by auto
  have name_ok: "good_name_for lib d" if "d \<in> set (subdirs rel)" for d
  proof -
    from that obtain r e where "CHR ''/'' \<notin> set d" "(pre @ d @ CHR ''/'' # r, e) \<in> set pend"
      by (auto simp: rel_def set_subdirs)
    with pending_name [OF ok _ al] good_split show ?thesis by blast
  qed
  have file_ok: "good_name_for lib r" if "(r, e) \<in> set (direct rel)" for r e
    using that pending_name [OF ok _ al] by (fastforce simp: rel_def set_direct split_on_no_sep)
  define files where "files = direct rel"
  have files: "each (\<lambda>(r, e). bindr (checked (''inserting '' @ pre @ r @ '' into tree'')
                     (treebuilder_insert lib (c_str r) e [])) (\<lambda>_. Inr (c_str r, e))) (direct rel) = Inr files"
  proof -
    have "(case x of (r, e) \<Rightarrow> bindr (checked (''inserting '' @ pre @ r @ '' into tree'')
                     (treebuilder_insert lib (c_str r) e [])) (\<lambda>_. Inr (c_str r, e))) = Inr x"
      if "x \<in> set (direct rel)" for x
      using file_ok [of "fst x" "snd x"] that
      by (auto simp: good_name_for_def treebuilder_insert_def case_prod_beta)
    from each_Inr [of "direct rel", OF this] show ?thesis by (simp add: files_def)
  qed
  have rec: "\<exists>t. build_tree_recursive lib pend (pre @ d @ ''/'') = Inr t
      \<and> (\<forall>ns. ns \<noteq> [] \<and> plain_names ns
            \<longrightarrow> leaf_at t ns = map_of pend ((pre @ d @ ''/'') @ slashed ns))" if "d \<in> set (subdirs rel)" for d
    using "1.IH" [OF rel_def that ok aligned_next] .
  define T where "T d = projr (build_tree_recursive lib pend (pre @ d @ ''/''))" for d
  have T: "build_tree_recursive lib pend (pre @ d @ ''/'') = Inr (T d)" if "d \<in> set (subdirs rel)" for d
    using rec [OF that] by (auto simp: T_def simp del: append_assoc)
  have leaf: "leaf_at (T d) ns = map_of pend ((pre @ d @ ''/'') @ slashed ns)"
    if "d \<in> set (subdirs rel)" and "ns \<noteq> []" and "plain_names ns" for d ns
    using rec [OF that(1)] that(2,3) by (auto simp: T_def simp del: append_assoc)
  define t where "t = fold (\<lambda>(n, e). AList.update n e) (files @ map (\<lambda>d. (d, Subtree (T d))) (subdirs rel)) []"
  have "each (\<lambda>d. bindr (build_tree_recursive lib pend (pre @ d @ ''/'')) (\<lambda>t.
           bindr (checked (''inserting subtree '' @ d @ '' into tree'')
              (treebuilder_insert lib (c_str d) (Subtree t) [])) (\<lambda>_. Inr (c_str d, Subtree t))))
        (subdirs rel) = Inr (map (\<lambda>d. (d, Subtree (T d))) (subdirs rel))"
    by (rule each_Inr) (use name_ok in \<open>auto simp: T good_name_for_def treebuilder_insert_def\<close>)
  with files have built: "build_tree_recursive lib pend pre = Inr t"
    by (subst build_tree_recursive.simps) (simp add: rel_def [symmetric] t_def)
  have distinct_files: "distinct (map fst files)"
    unfolding files_def direct_def rel_def
    by (rule distinct_map_filter [OF distinct_below]) (use ok in \<open>simp add: pending_ok_def\<close>)
  have lookup: "map_of t n = (if n \<in> set (subdirs rel) then Some (Subtree (T n)) else map_of files n)" for n
    unfolding t_def map_of_updates rev_append rev_map map_of_append map_of_map_restrict
    by (simp add: map_add_def restrict_map_def map_of_rev_distinct [OF distinct_files])
  have in_files: "(pre @ n, e) \<in> set pend \<and> CHR ''/'' \<notin> set n" if "map_of files n = Some e" for n e
    using map_of_SomeD [OF that] by (simp add: files_def rel_def set_direct)
  have no_dir: "map_of files n = None" if "n \<in> set (subdirs rel)" for n
  proof (rule ccontr)
    assume "map_of files n \<noteq> None"
    then obtain e where "(pre @ n, e) \<in> set pend"
      using in_files by blast
    moreover from that obtain r e' where "((pre @ n) @ CHR ''/'' # r, e') \<in> set pend"
      by (auto simp: rel_def set_subdirs)
    ultimately show False
      using pending_no_dir [OF ok] by blast
  qed
  have file_lookup: "map_of files n = map_of pend (pre @ n)" if "CHR ''/'' \<notin> set n" for n
  proof -
    have "distinct (map fst pend)" using ok by (simp only: pending_ok_def simp_thms)
    then have "map_of pend (pre @ n) = Some e \<longleftrightarrow> (pre @ n, e) \<in> set pend" for e
      by (rule map_of_eq_Some_iff)
    moreover have "map_of files n = Some e \<longleftrightarrow> (n, e) \<in> set files" for e
      using distinct_files by (rule map_of_eq_Some_iff)
    moreover have "(n, e) \<in> set files \<longleftrightarrow> (pre @ n, e) \<in> set pend" for e
      unfolding files_def rel_def set_direct using that by blast
    ultimately have "map_of files n = Some e \<longleftrightarrow> map_of pend (pre @ n) = Some e" for e
      by blast
    then show ?thesis by (rule option_eqI)
  qed
  have leaf_files: "map_of files n \<noteq> Some (Subtree s)" for n s
  proof
    assume "map_of files n = Some (Subtree s)"
    then have "(pre @ n, Subtree s) \<in> set pend" using in_files by blast
    with ok have "\<not> is_subtree (Subtree s)" by (simp only: pending_ok_def) blast
    then show False by simp
  qed
  have "leaf_at t ns = map_of pend (pre @ slashed ns)"
    if ns: "ns \<noteq> []" "plain_names ns" for ns
  proof (rule leaf_of_parts [where D = "set (subdirs rel)", OF lookup leaf_files file_lookup _ _ leaf ns])
    show "n \<in> set (subdirs rel)" if "CHR ''/'' \<notin> set n" "(pre @ n @ CHR ''/'' # r, e) \<in> set pend" for n r e
      using that by (auto simp: rel_def set_subdirs)
    show "map_of pend (pre @ n) = None" if "n \<in> set (subdirs rel)" for n
      using that no_dir [OF that] file_lookup [of n] by (simp add: rel_def set_subdirs)
  qed
  with built show ?case by auto
qed

lemma slashed_split: "slashed (split_on CHR ''/'' p) = p"
proof (induction p)
  case (Cons c p)
  then show ?case
    by (cases "split_on CHR ''/'' p" rule: slashed.cases) auto
qed simp

lemma nested_build_exact_of:
  assumes "tb_pending tb \<noteq> []" and "pending_ok lib (tb_pending tb)"
  shows "\<exists>t. tb_build lib tb = Inr t
    \<and> (\<forall>path. list_all (good_name_for lib) (split_on CHR ''/'' path)
         \<longrightarrow> leaf_at t (split_on CHR ''/'' path) = map_of (tb_pending tb) path)"
proof -
  have plain: "plain_names (split_on CHR ''/'' path)"
    if "list_all (good_name_for lib) (split_on CHR ''/'' path)" for path
    using that by (auto simp: plain_names_def list_all_iff good_name_for_def dest: split_on_sep_free)
  obtain t where "build_tree_recursive lib (tb_pending tb) [] = Inr t"
    and "\<And>ns. ns \<noteq> [] \<Longrightarrow> plain_names ns \<Longrightarrow> leaf_at t ns = map_of (tb_pending tb) (slashed ns)"
    using build_tree_exact [OF assms(2), of "[]"] by (auto simp: aligned_def)
  with assms(1) plain show ?thesis
    by (simp add: tb_build_def slashed_split)
qed

text \<open>
  A tree built with files in directories holds exactly those files: with paths libgit2 accepts, none of them a
  directory of another, the build succeeds, and a path leads to a file or link in the tree if and only if
  it was given with a slash in it, and then to that file. So nothing of the base tree, and no file
  inserted at the top level, survives such a build.
\<close>

theorem nested_build_exact:
  assumes "tb_pending tb \<noteq> []" and "pending_ok lib (tb_pending tb)"
  shows "\<exists>t. tb_build lib tb = Inr t
    \<and> (\<forall>path. list_all (good_name_for lib) (split_on CHR ''/'' path)
         \<longrightarrow> leaf_at t (split_on CHR ''/'' path) = map_of (tb_pending tb) path)"
  using assms by (rule nested_build_exact_of)

definition demo_failure :: git_failure where
  "demo_failure = \<lparr>gf_code = GIT_ENOTFOUND, gf_number = -3, gf_last = None\<rparr>"

definition demo_valid :: "string \<Rightarrow> bool" where
  "demo_valid n \<longleftrightarrow> n \<noteq> ''.git''"

definition demo_merge :: "git_tree \<Rightarrow> git_tree \<Rightarrow> git_tree \<Rightarrow> git_failure + git_tree option" where
  "demo_merge base ours theirs =
     (let new = filter (\<lambda>(n, e). map_of base n \<noteq> Some e) theirs
      in Inr (Some (fold (\<lambda>(n, e). AList.update n e) new ours)))"

definition demo_commit :: "git_commit \<Rightarrow> git_failure + oid" where
  "demo_commit c = Inr (concat (map (\<lambda>(n, _). n) (gc_tree c)) @ gc_message c @ concat (gc_parents c))"

definition demo_sig :: signature where
  "demo_sig = \<lparr>sg_name = ''n'', sg_email = ''e'', sg_time = 0, sg_offset = 0\<rparr>"

definition demo_lib :: git_lib where
  "demo_lib =
     \<lparr>gl_valid_name = demo_valid, gl_bad_name = demo_failure, gl_absent = demo_failure, gl_merge = demo_merge,
      gl_signature = Inr, gl_commit = demo_commit, gl_no_commit = demo_failure, gl_no_ref = demo_failure,
      gl_bad_hex = demo_failure, gl_default = Inr demo_sig,
      gl_summary = before CHR 0x0A\<rparr>"

definition demo_builder :: tree_builder where
  "demo_builder = \<lparr>tb_entries = [(''a'', Blob 33188 ''x'')], tb_pending = [(''d/e/f'', Blob 33188 ''y''), (''d/g'', Blob 33188 ''z'')]\<rparr>"

theorem nested_build_exact_witness:
  "\<exists>t. tb_build demo_lib demo_builder = Inr t \<and> leaf_at t [''d'', ''e'', ''f''] = Some (Blob 33188 ''y'')
     \<and> leaf_at t [''a''] = None"
proof -
  have "tb_pending demo_builder \<noteq> []" and "pending_ok demo_lib (tb_pending demo_builder)"
    by code_simp+
  from nested_build_exact [OF this] obtain t where t: "tb_build demo_lib demo_builder = Inr t"
    and "\<And>path. list_all (good_name_for demo_lib) (split_on CHR ''/'' path)
           \<Longrightarrow> leaf_at t (split_on CHR ''/'' path) = map_of (tb_pending demo_builder) path"
    by blast
  note at = this(2) [of "''d/e/f''"] this(2) [of "''a''"]
  have "list_all (good_name_for demo_lib) (split_on CHR ''/'' ''d/e/f'')"
    and "list_all (good_name_for demo_lib) (split_on CHR ''/'' ''a'')"
    and "split_on CHR ''/'' ''d/e/f'' = [''d'', ''e'', ''f'']" and "split_on CHR ''/'' ''a'' = [''a'']"
    and "map_of (tb_pending demo_builder) ''d/e/f'' = Some (Blob 33188 ''y'')"
    and "map_of (tb_pending demo_builder) ''a'' = None"
    by code_simp+
  with at have "leaf_at t [''d'', ''e'', ''f''] = Some (Blob 33188 ''y'')" and "leaf_at t [''a''] = None"
    by (simp_all only: simp_thms)
  with t show ?thesis by blast
qed

end
