(* ===== verification/RebasePlan.thy ===== *)
theory RebasePlan
  imports GitObjects
begin

text \<open>
  \<^verbatim>\<open>src/gitmanip/src/rebase_plan.cpp\<close>: the actions of a rebase, the changes a user makes to the plan before
  it runs, its validation, and its text form.
\<close>

section \<open>Actions and modifications\<close>

datatype action_type = Pick | Reword | Edit | Squash | Fixup | Drop

record rebase_action =
  ra_type :: action_type
  ra_oid :: oid
  ra_message :: string
  ra_new :: "string option"

fun type_label :: "action_type \<Rightarrow> string" where
  "type_label Pick = ''pick''"
| "type_label Reword = ''reword''"
| "type_label Edit = ''edit''"
| "type_label Squash = ''squash''"
| "type_label Fixup = ''fixup''"
| "type_label Drop = ''drop''"

definition action_of :: "action_type \<Rightarrow> commit \<Rightarrow> string option \<Rightarrow> rebase_action" where
  "action_of ty c new = \<lparr>ra_type = ty, ra_oid = fst c, ra_message = commit_message c, ra_new = new\<rparr>"

definition action_pick :: "commit \<Rightarrow> rebase_action" where
  "action_pick c = action_of Pick c None"

definition action_reword :: "commit \<Rightarrow> string \<Rightarrow> rebase_action" where
  "action_reword c msg = action_of Reword c (Some msg)"

definition action_squash :: "commit \<Rightarrow> string option \<Rightarrow> rebase_action" where
  "action_squash c msg = action_of Squash c msg"

definition action_fixup :: "commit \<Rightarrow> rebase_action" where
  "action_fixup c = action_of Fixup c None"

definition action_drop :: "commit \<Rightarrow> rebase_action" where
  "action_drop c = action_of Drop c None"

definition action_edit :: "commit \<Rightarrow> rebase_action" where
  "action_edit c = action_of Edit c None"

datatype change_type = KeepAll | DropFile | KeepOnlyFiles | ModifyHunk | InsertFile | ReplaceContent

record change_modification =
  cm_type :: change_type
  cm_paths :: "string list"
  cm_content :: "string option"
  cm_hunks :: "nat list"

definition keep_all :: change_modification where
  "keep_all = \<lparr>cm_type = KeepAll, cm_paths = [], cm_content = None, cm_hunks = []\<rparr>"

definition drop_files :: "string list \<Rightarrow> change_modification" where
  "drop_files ps = keep_all\<lparr>cm_type := DropFile, cm_paths := ps\<rparr>"

definition drop_file :: "string \<Rightarrow> change_modification" where
  "drop_file p = keep_all\<lparr>cm_type := DropFile, cm_paths := [p]\<rparr>"

definition keep_only_files :: "string list \<Rightarrow> change_modification" where
  "keep_only_files ps = keep_all\<lparr>cm_type := KeepOnlyFiles, cm_paths := ps\<rparr>"

definition insert_file :: "string \<Rightarrow> string \<Rightarrow> change_modification" where
  "insert_file p content = keep_all\<lparr>cm_type := InsertFile, cm_paths := [p], cm_content := Some content\<rparr>"

definition replace_content :: "string \<Rightarrow> string \<Rightarrow> change_modification" where
  "replace_content p content = keep_all\<lparr>cm_type := ReplaceContent, cm_paths := [p], cm_content := Some content\<rparr>"

definition keep_hunks :: "string \<Rightarrow> nat list \<Rightarrow> change_modification" where
  "keep_hunks p hs = keep_all\<lparr>cm_type := ModifyHunk, cm_paths := [p], cm_hunks := hs\<rparr>"

section \<open>The plan\<close>

record rebase_plan =
  pl_onto :: oid
  pl_actions :: "rebase_action list"
  pl_mods :: "(nat \<times> change_modification list) list"

definition new_plan :: "oid \<Rightarrow> rebase_plan" where
  "new_plan onto = \<lparr>pl_onto = onto, pl_actions = [], pl_mods = []\<rparr>"

definition plan_size :: "rebase_plan \<Rightarrow> nat" where
  "plan_size p = length (pl_actions p)"

definition plan_add :: "rebase_action \<Rightarrow> rebase_plan \<Rightarrow> rebase_plan" where
  "plan_add a p = p\<lparr>pl_actions := pl_actions p @ [a]\<rparr>"

text \<open>
  The operations on an index are \<open>None\<close> where the index is outside the vector: the source throws
  \<^verbatim>\<open>std::out_of_range\<close> in \<^verbatim>\<open>replace\<close>, and in the others its behaviour is undefined.
\<close>

definition insert_at :: "nat \<Rightarrow> 'a \<Rightarrow> 'a list \<Rightarrow> 'a list" where
  "insert_at i x xs = take i xs @ x # drop i xs"

definition remove_at :: "nat \<Rightarrow> 'a list \<Rightarrow> 'a list" where
  "remove_at i xs = take i xs @ drop (Suc i) xs"

definition plan_insert :: "nat \<Rightarrow> rebase_action \<Rightarrow> rebase_plan \<Rightarrow> rebase_plan option" where
  "plan_insert i a p =
     (if i \<le> plan_size p
      then Some (p\<lparr>pl_actions := insert_at i a (pl_actions p),
                   pl_mods := map (\<lambda>(k, ms). (if i \<le> k then k + 1 else k, ms)) (pl_mods p)\<rparr>)
      else None)"

definition plan_remove :: "nat \<Rightarrow> rebase_plan \<Rightarrow> rebase_plan option" where
  "plan_remove i p =
     (if i < plan_size p
      then Some (p\<lparr>pl_actions := remove_at i (pl_actions p),
                   pl_mods := map (\<lambda>(k, ms). (if i < k then k - 1 else k, ms)) (AList.delete i (pl_mods p))\<rparr>)
      else None)"

definition plan_replace :: "nat \<Rightarrow> rebase_action \<Rightarrow> rebase_plan \<Rightarrow> rebase_plan option" where
  "plan_replace i a p =
     (if i < plan_size p then Some (p\<lparr>pl_actions := (pl_actions p)[i := a]\<rparr>) else None)"

definition plan_move :: "nat \<Rightarrow> nat \<Rightarrow> rebase_plan \<Rightarrow> rebase_plan option" where
  "plan_move from_index to_index p =
     (if from_index = to_index then Some p
      else (let pos = (if from_index < to_index then to_index - 1 else to_index)
            in if from_index < plan_size p \<and> pos < plan_size p
               then Some (p\<lparr>pl_actions :=
                      insert_at pos (pl_actions p ! from_index) (remove_at from_index (pl_actions p))\<rparr>)
               else None))"

definition plan_clear :: "rebase_plan \<Rightarrow> rebase_plan" where
  "plan_clear p = p\<lparr>pl_actions := [], pl_mods := []\<rparr>"

definition pick_all :: "commit list \<Rightarrow> rebase_plan \<Rightarrow> rebase_plan" where
  "pick_all cs p = fold (\<lambda>c. plan_add (action_pick c)) cs p"

definition drop_all :: "rebase_plan \<Rightarrow> rebase_plan" where
  "drop_all p = p\<lparr>pl_actions := map (\<lambda>a. a\<lparr>ra_type := Drop\<rparr>) (pl_actions p)\<rparr>"

definition reword_all :: "(string \<Rightarrow> string) \<Rightarrow> rebase_plan \<Rightarrow> rebase_plan" where
  "reword_all f p =
     p\<lparr>pl_actions := map (\<lambda>a. a\<lparr>ra_type := Reword, ra_new := Some (f (ra_message a))\<rparr>) (pl_actions p)\<rparr>"

definition get_modifications :: "rebase_plan \<Rightarrow> nat \<Rightarrow> change_modification list" where
  "get_modifications p i = (case map_of (pl_mods p) i of Some ms \<Rightarrow> ms | None \<Rightarrow> [])"

definition modify_at :: "nat \<Rightarrow> change_modification \<Rightarrow> rebase_plan \<Rightarrow> rebase_plan" where
  "modify_at i m p = p\<lparr>pl_mods := AList.update i (get_modifications p i @ [m]) (pl_mods p)\<rparr>"

definition modify_changes :: "oid \<Rightarrow> change_modification \<Rightarrow> rebase_plan \<Rightarrow> gm_error + rebase_plan" where
  "modify_changes c m p =
     (case find (\<lambda>i. ra_oid (pl_actions p ! i) = c) [0..<plan_size p] of
        Some i \<Rightarrow> Inr (modify_at i m p)
      | None \<Rightarrow> Inl \<lparr>ge_code = CommitNotFound,
                     ge_message = ''commit '' @ short_id c @ '' not found in plan''\<rparr>)"

text \<open>\<^verbatim>\<open>from_range\<close>, given the commits of the walk between the two references (libgit2's).\<close>

definition from_range :: "oid \<Rightarrow> commit list \<Rightarrow> rebase_plan" where
  "from_range onto cs = pick_all cs (new_plan onto)"

section \<open>Validation\<close>

fun action_errors :: "nat \<Rightarrow> bool \<Rightarrow> rebase_action list \<Rightarrow> string list" where
  "action_errors i saw [] = []"
| "action_errors i saw (a # as) =
     (if ra_type a \<in> {Squash, Fixup} \<and> (i = 0 \<or> \<not> saw)
      then [''action '' @ nat_text i @ '' ('' @ type_label (ra_type a) @ '') cannot be at the start of the plan''] else [])
     @ (if ra_type a = Reword \<and> ra_new a = None
        then [''action '' @ nat_text i @ '' (reword) is missing new_message''] else [])
     @ action_errors (Suc i) (saw \<or> ra_type a \<notin> {Squash, Fixup, Drop}) as"

definition validation_errors :: "rebase_plan \<Rightarrow> string list" where
  "validation_errors p =
     (if is_zero (pl_onto p) then [''onto target is not set''] else []) @ action_errors 0 False (pl_actions p)"

definition is_valid :: "rebase_plan \<Rightarrow> bool" where
  "is_valid p \<longleftrightarrow> validation_errors p = []"

section \<open>The text form\<close>

definition action_line :: "(oid \<Rightarrow> string) \<Rightarrow> rebase_action \<Rightarrow> string" where
  "action_line ident a = type_label (ra_type a) @ '' '' @ ident (ra_oid a) @ '' '' @ before CHR 0x0A (ra_message a) @ [CHR 0x0A]"

definition plan_to_string :: "rebase_plan \<Rightarrow> string" where
  "plan_to_string p = concat (map (action_line short_id) (pl_actions p))"

text \<open>
  What the regular expression accepts: a command, white space, hexadecimal digits, and a rest in which the
  dot allows no carriage return (beyond white space before it).
\<close>

fun command_type :: "string \<Rightarrow> action_type option" where
  "command_type c =
     (if c \<in> {''pick'', ''p''} then Some Pick else if c \<in> {''reword'', ''r''} then Some Reword
      else if c \<in> {''edit'', ''e''} then Some Edit else if c \<in> {''squash'', ''s''} then Some Squash
      else if c \<in> {''fixup'', ''f''} then Some Fixup else if c \<in> {''drop'', ''d''} then Some Drop else None)"

definition parse_line :: "string \<Rightarrow> (action_type \<times> string) option" where
  "parse_line l =
     (let l1 = dropWhile is_space l;
          cmd = takeWhile (\<lambda>c. \<not> is_space c) l1;
          l2 = dropWhile (\<lambda>c. \<not> is_space c) l1;
          l3 = dropWhile is_space l2;
          hex = takeWhile is_hex l3;
          rest = dropWhile is_space (dropWhile is_hex l3)
      in case command_type cmd of
           Some ty \<Rightarrow> if l2 \<noteq> [] \<and> hex \<noteq> [] \<and> CHR 0x0D \<notin> set rest then Some (ty, hex) else None
         | None \<Rightarrow> None)"

fun parse_lines :: "git_lib \<Rightarrow> repository \<Rightarrow> string list \<Rightarrow> gm_error + rebase_action list" where
  "parse_lines lib rp [] = Inr []"
| "parse_lines lib rp (l # ls) =
     (if l = [] \<or> hd l = CHR ''#'' then parse_lines lib rp ls
      else case parse_line l of
        None \<Rightarrow> parse_lines lib rp ls
      | Some (ty, hex) \<Rightarrow>
          bindr (oid_of_hex (gl_bad_hex lib) hex) (\<lambda>i.
          bindr (try_lookup_commit lib rp i) (\<lambda>c.
            (case c of
               None \<Rightarrow> Inl \<lparr>ge_code = CommitNotFound, ge_message = ''commit '' @ hex @ '' not found''\<rparr>
             | Some c \<Rightarrow> bindr (parse_lines lib rp ls) (\<lambda>as. Inr (action_of ty c None # as))))))"

definition plan_parse :: "git_lib \<Rightarrow> repository \<Rightarrow> string \<Rightarrow> string \<Rightarrow> gm_error + rebase_plan" where
  "plan_parse lib rp text onto_ref =
     bindr (resolve_ref lib rp onto_ref) (\<lambda>onto.
     bindr (parse_lines lib rp (getlines text)) (\<lambda>as.
       Inr \<lparr>pl_onto = onto, pl_actions = as, pl_mods = []\<rparr>))"

section \<open>Editing a plan\<close>

text \<open>
  What a plan promises: a list of actions, each with its modifications. The source keeps the modifications
  beside the actions, by index, and renumbers them.
\<close>

definition paired :: "rebase_plan \<Rightarrow> (rebase_action \<times> change_modification list) list" where
  "paired p = map (\<lambda>i. (pl_actions p ! i, get_modifications p i)) [0..<plan_size p]"

definition plan_ok :: "rebase_plan \<Rightarrow> bool" where
  "plan_ok p \<longleftrightarrow> distinct (map fst (pl_mods p)) \<and> (\<forall>k \<in> set (map fst (pl_mods p)). k < plan_size p)"

lemma length_paired [simp]: "length (paired p) = plan_size p"
  by (simp add: paired_def)

lemma nth_paired [simp]: "i < plan_size p \<Longrightarrow> paired p ! i = (pl_actions p ! i, get_modifications p i)"
  by (simp add: paired_def)

lemma length_insert_at [simp]: "length (insert_at i x xs) = Suc (length xs)"
  by (simp add: insert_at_def)

lemma length_remove_at [simp]: "i < length xs \<Longrightarrow> length (remove_at i xs) = length xs - 1"
  by (simp add: remove_at_def)

lemma nth_insert_at:
  "i \<le> length xs \<Longrightarrow> j \<le> length xs
    \<Longrightarrow> insert_at i x xs ! j = (if j < i then xs ! j else if j = i then x else xs ! (j - 1))"
  by (auto simp: insert_at_def nth_append nth_Cons min_def split: nat.splits intro!: arg_cong [where f = "(!) xs"])

lemma nth_remove_at:
  "i < length xs \<Longrightarrow> j < length xs - 1 \<Longrightarrow> remove_at i xs ! j = (if j < i then xs ! j else xs ! Suc j)"
  by (auto simp: remove_at_def nth_append min_def)

lemma map_of_renumber:
  "inj_on f (set (map fst xs)) \<Longrightarrow> k \<in> set (map fst xs) \<Longrightarrow> map_of (map (\<lambda>(k, v). (f k, v)) xs) (f k) = map_of xs k"
proof (induction xs)
  case (Cons x xs)
  show ?case
  proof (cases "k = fst x")
    case False
    with Cons.prems have "f k \<noteq> f (fst x)" by (auto simp: inj_on_def)
    with False Cons show ?thesis by (cases x) auto
  qed (cases x; simp)
qed simp

lemma map_of_renumber_None:
  "j \<notin> f ` set (map fst xs) \<Longrightarrow> map_of (map (\<lambda>(k, v). (f k, v)) xs) j = None"
  by (induction xs) auto

lemma mods_of_renumbered:
  assumes "inj_on f (set (map fst xs))" and "pl_mods q = map (\<lambda>(k, v). (f k, v)) xs"
    and "\<And>k. k \<in> set (map fst xs) \<Longrightarrow> f k = j \<longleftrightarrow> k = i"
  shows "get_modifications q j = (case map_of xs i of Some ms \<Rightarrow> ms | None \<Rightarrow> [])"
proof (cases "i \<in> set (map fst xs)")
  case True
  with assms(3) have "f i = j" by simp
  with assms(2) map_of_renumber [OF assms(1) True] show ?thesis
    by (simp add: get_modifications_def)
next
  case False
  with assms(3) have "j \<notin> f ` set (map fst xs)" by auto
  with False assms(2) show ?thesis
    by (simp add: get_modifications_def map_of_renumber_None map_of_eq_None_iff [THEN iffD2])
qed

lemma plan_ok_renumbered:
  assumes "pl_mods q = map (\<lambda>(k, v). (f k, v)) xs" and "inj_on f (set (map fst xs))"
    and "distinct (map fst xs)" and "\<And>k. k \<in> set (map fst xs) \<Longrightarrow> f k < plan_size q"
  shows "plan_ok q"
proof -
  have "map fst (pl_mods q) = map f (map fst xs)"
    by (simp add: assms(1) comp_def case_prod_beta)
  then show ?thesis
    unfolding plan_ok_def using assms(2-4) by (simp add: distinct_map comp_inj_on)
qed

lemma paired_insert:
  assumes "plan_insert i a p = Some q" and "plan_ok p"
  shows "plan_ok q \<and> paired q = insert_at i (a, []) (paired p)"
proof -
  let ?f = "\<lambda>k. if i \<le> k then k + 1 else k"
  have i: "i \<le> plan_size p" and acts: "pl_actions q = insert_at i a (pl_actions p)"
    and mods: "pl_mods q = map (\<lambda>(k, ms). (?f k, ms)) (pl_mods p)"
    using assms(1) by (auto simp: plan_insert_def split: if_splits)
  have inj: "inj_on ?f A" for A by (auto simp: inj_on_def)
  have size: "plan_size q = Suc (plan_size p)" by (simp add: plan_size_def acts)
  have ok: "plan_ok q"
    by (rule plan_ok_renumbered [OF mods inj]) (use assms(2) in \<open>auto simp: plan_ok_def size\<close>)
  have get: "get_modifications q j = (if j < i then get_modifications p j else if j = i then []
      else get_modifications p (j - 1))" for j
  proof (cases "j = i")
    case True
    then have "j \<notin> ?f ` set (map fst (pl_mods p))" by auto
    then show ?thesis
      using True by (simp add: get_modifications_def mods map_of_renumber_None)
  next
    case False
    then have "(?f k = j) = (k = (if j < i then j else j - 1))" for k by auto
    from mods_of_renumbered [OF inj mods this] False show ?thesis
      by (auto simp: get_modifications_def)
  qed
  have "paired q = insert_at i (a, []) (paired p)"
    by (rule nth_equalityI)
      (use i in \<open>auto simp: size nth_insert_at get acts nth_insert_at [of i "pl_actions p"] plan_size_def\<close>)
  with ok show ?thesis by simp
qed

lemma paired_remove:
  assumes "plan_remove i p = Some q" and "plan_ok p"
  shows "plan_ok q \<and> paired q = remove_at i (paired p)"
proof -
  let ?f = "\<lambda>k. if i < k then k - 1 else k"
  let ?xs = "AList.delete i (pl_mods p)"
  have i: "i < plan_size p" and acts: "pl_actions q = remove_at i (pl_actions p)"
    and mods: "pl_mods q = map (\<lambda>(k, ms). (?f k, ms)) ?xs"
    using assms(1) by (auto simp: plan_remove_def split: if_splits)
  have keys_del: "set (map fst ?xs) = set (map fst (pl_mods p)) - {i}"
    by (simp add: AList.delete_keys)
  have inj: "inj_on ?f (set (map fst ?xs))" unfolding keys_del by (auto simp: inj_on_def)
  have size: "plan_size q = plan_size p - 1" using i by (simp add: plan_size_def acts)
  have "distinct (map fst ?xs)"
    using assms(2) by (simp add: plan_ok_def AList.distinct_delete)
  moreover have "?f k < plan_size p - 1" if "k \<in> set (map fst ?xs)" for k
    using that assms(2) i unfolding plan_ok_def keys_del by auto
  ultimately have ok: "plan_ok q"
    using plan_ok_renumbered [OF mods inj] unfolding size by blast
  have get: "get_modifications q j = (if j < i then get_modifications p j else get_modifications p (Suc j))" for j
  proof -
    have "(?f k = j) = (k = (if j < i then j else Suc j))" if "k \<in> set (map fst ?xs)" for k
      using that unfolding keys_del by auto
    from mods_of_renumbered [OF inj mods this] show ?thesis
      by (auto simp: get_modifications_def AList.delete_conv')
  qed
  have "paired q = remove_at i (paired p)"
    by (rule nth_equalityI)
      (use i in \<open>auto simp: size nth_remove_at get acts nth_remove_at [of i "pl_actions p"] plan_size_def\<close>)
  with ok show ?thesis by simp
qed

lemma paired_add:
  assumes "plan_ok p"
  shows "plan_ok (plan_add a p) \<and> paired (plan_add a p) = paired p @ [(a, [])]"
proof -
  have "map_of (pl_mods p) (plan_size p) = None"
    using assms by (force simp: plan_ok_def map_of_eq_None_iff)
  then have "paired (plan_add a p) = paired p @ [(a, [])]"
    by (intro nth_equalityI) (auto simp: nth_append less_Suc_eq plan_add_def plan_size_def get_modifications_def)
  with assms show ?thesis
    by (auto simp: plan_ok_def plan_add_def plan_size_def less_Suc_eq)
qed

lemma paired_replace:
  assumes "plan_replace i a p = Some q" and "plan_ok p"
  shows "plan_ok q \<and> paired q = (paired p)[i := (a, get_modifications p i)]"
proof -
  have q: "i < plan_size p" "q = p\<lparr>pl_actions := (pl_actions p)[i := a]\<rparr>"
    using assms(1) by (auto simp: plan_replace_def split: if_splits)
  then have "paired q = (paired p)[i := (a, get_modifications p i)]"
    by (intro nth_equalityI) (auto simp: plan_size_def nth_list_update get_modifications_def)
  with q assms(2) show ?thesis by (simp add: plan_ok_def plan_size_def)
qed

lemma paired_modify:
  assumes "i < plan_size p" and "plan_ok p"
  shows "plan_ok (modify_at i m p)
    \<and> paired (modify_at i m p) = (paired p)[i := (pl_actions p ! i, get_modifications p i @ [m])]"
proof -
  have "paired (modify_at i m p) = (paired p)[i := (pl_actions p ! i, get_modifications p i @ [m])]"
    by (intro nth_equalityI)
      (auto simp: plan_size_def nth_list_update modify_at_def get_modifications_def AList.update_conv')
  with assms show ?thesis
    by (auto simp: plan_ok_def modify_at_def plan_size_def AList.distinct_update AList.update_keys
        split: if_splits)
qed

text \<open>
  C18. Editing a plan keeps every action's modifications with it: while the indices of the modifications are those
  of actions, which every operation preserves, adding, inserting, removing, replacing and modifying act
  on the list of actions paired with their modifications as on any list, at exactly the place named.
\<close>

theorem plan_edits_keep_modifications:
  assumes "plan_ok p"
  shows "plan_ok (plan_add a p) \<and> paired (plan_add a p) = paired p @ [(a, [])]
    \<and> (\<forall>q. plan_insert i a p = Some q \<longrightarrow> plan_ok q \<and> paired q = insert_at i (a, []) (paired p))
    \<and> (\<forall>q. plan_remove i p = Some q \<longrightarrow> plan_ok q \<and> paired q = remove_at i (paired p))
    \<and> (\<forall>q. plan_replace i a p = Some q \<longrightarrow> plan_ok q \<and> paired q = (paired p)[i := (a, get_modifications p i)])
    \<and> (i < plan_size p \<longrightarrow> plan_ok (modify_at i m p)
          \<and> paired (modify_at i m p) = (paired p)[i := (pl_actions p ! i, get_modifications p i @ [m])])"
  using assms paired_add paired_insert paired_remove paired_replace paired_modify by blast

definition demo_oid :: "char \<Rightarrow> oid" where
  "demo_oid c = replicate 40 c"

definition demo_action :: "char \<Rightarrow> rebase_action" where
  "demo_action c = \<lparr>ra_type = Pick, ra_oid = demo_oid c, ra_message = [c], ra_new = None\<rparr>"

definition demo_plan :: rebase_plan where
  "demo_plan = \<lparr>pl_onto = demo_oid CHR ''1'', pl_actions = [demo_action CHR ''a'', demo_action CHR ''b''],
     pl_mods = [(1, [drop_file ''x''])]\<rparr>"

theorem plan_edits_keep_modifications_witness:
  "map snd (paired (the (plan_insert 1 (demo_action CHR ''c'') demo_plan))) = [[], [], [drop_file ''x'']]"
proof -
  have "plan_ok demo_plan" by code_simp
  from plan_edits_keep_modifications [OF this, of "demo_action CHR ''c''" 1]
  have "paired (the (plan_insert 1 (demo_action CHR ''c'') demo_plan))
      = insert_at 1 (demo_action CHR ''c'', []) (paired demo_plan)"
    by (simp add: plan_insert_def plan_size_def demo_plan_def)
  then show ?thesis
    by (simp add: insert_at_def paired_def plan_size_def demo_plan_def get_modifications_def upt_rec)
qed

text \<open>
  Moving does not: the actions change places and the modifications stay, so that the change meant for one
  commit is applied to another.
\<close>

lemma move_separates_modifications:
  "map snd (paired demo_plan) = [[], [drop_file ''x'']]
   \<and> map (ra_message \<circ> fst) (paired (the (plan_move 1 0 demo_plan))) = [''b'', ''a'']
   \<and> map snd (paired (the (plan_move 1 0 demo_plan))) = [[], [drop_file ''x'']]"
  by (simp add: paired_def plan_size_def demo_plan_def get_modifications_def upt_rec plan_move_def insert_at_def
      remove_at_def demo_action_def)

section \<open>What validation accepts\<close>

definition melds :: "rebase_action \<Rightarrow> bool" where
  "melds a \<longleftrightarrow> ra_type a = Squash \<or> ra_type a = Fixup"

definition stands :: "rebase_action \<Rightarrow> bool" where
  "stands a \<longleftrightarrow> ra_type a = Pick \<or> ra_type a = Reword \<or> ra_type a = Edit"

lemma stands_iff: "stands a \<longleftrightarrow> ra_type a \<notin> {Squash, Fixup, Drop}"
  by (cases "ra_type a") (auto simp: stands_def)

lemma action_errors_Nil:
  assumes "saw \<Longrightarrow> 0 < i"
  shows "action_errors i saw as = [] \<longleftrightarrow>
    (\<forall>k < length as. (melds (as ! k) \<longrightarrow> saw \<or> (\<exists>j < k. stands (as ! j)))
        \<and> (ra_type (as ! k) = Reword \<longrightarrow> ra_new (as ! k) \<noteq> None))"
  using assms
proof (induction as arbitrary: i saw)
  case (Cons a as)
  have "action_errors (Suc i) (saw \<or> stands a) as = [] \<longleftrightarrow>
    (\<forall>k < length as. (melds (as ! k) \<longrightarrow> (saw \<or> stands a) \<or> (\<exists>j < k. stands (as ! j)))
        \<and> (ra_type (as ! k) = Reword \<longrightarrow> ra_new (as ! k) \<noteq> None))"
    by (rule Cons.IH) simp
  moreover have "(\<exists>j < Suc k. stands ((a # as) ! j)) \<longleftrightarrow> stands a \<or> (\<exists>j < k. stands (as ! j))" for k
    by (metis Suc_less_eq less_Suc_eq_0_disj nth_Cons_0 nth_Cons_Suc)
  moreover have "(\<forall>k < length (a # as). P k) \<longleftrightarrow> P 0 \<and> (\<forall>k < length as. P (Suc k))" for P
    by (metis Suc_less_eq length_Cons less_Suc_eq_0_disj)
  ultimately show ?case
    using Cons.prems by (auto simp: melds_def stands_iff)
qed simp

text \<open>
   Validation says exactly what a plan needs: it accepts a plan if and only if the plan has a target, every squash
  and fixup comes after an action that keeps a commit to meld into, and every reword has its message.
\<close>

theorem validation_exact:
  "is_valid p \<longleftrightarrow> \<not> is_zero (pl_onto p)
     \<and> (\<forall>k < plan_size p. (melds (pl_actions p ! k) \<longrightarrow> (\<exists>j < k. stands (pl_actions p ! j)))
          \<and> (ra_type (pl_actions p ! k) = Reword \<longrightarrow> ra_new (pl_actions p ! k) \<noteq> None))"
  using action_errors_Nil [of False 0 "pl_actions p"]
  by (auto simp: is_valid_def validation_errors_def plan_size_def)

theorem validation_exact_witness:
  "\<not> is_valid (demo_plan\<lparr>pl_actions := [demo_action CHR ''a''\<lparr>ra_type := Drop\<rparr>, demo_action CHR ''b''\<lparr>ra_type := Fixup\<rparr>]\<rparr>)
   \<and> is_valid (demo_plan\<lparr>pl_actions := [demo_action CHR ''a'', demo_action CHR ''b''\<lparr>ra_type := Fixup\<rparr>]\<rparr>)"
proof -
  have onto: "\<not> is_zero (pl_onto demo_plan)" by code_simp
  have two: "k < Suc (Suc 0) \<longleftrightarrow> k = 0 \<or> k = 1" for k :: nat by auto
  show ?thesis
    using onto by (auto simp: validation_exact plan_size_def two melds_def stands_def demo_action_def)
qed

section \<open>Printing and parsing\<close>

lemma concat_lines:
  assumes "\<And>l. l \<in> set ls \<Longrightarrow> CHR 0x0A \<notin> set l"
  shows "split_on CHR 0x0A (concat (map (\<lambda>l. l @ [CHR 0x0A]) ls)) = ls @ [[]]"
  using assms by (induction ls) (auto simp: split_on_append)

lemma getlines_lines:
  "(\<And>l. l \<in> set ls \<Longrightarrow> CHR 0x0A \<notin> set l) \<Longrightarrow> getlines (concat (map (\<lambda>l. l @ [CHR 0x0A]) ls)) = ls"
  using concat_lines [of ls] by (simp add: getlines_def Let_def)

definition action_text :: "(oid \<Rightarrow> string) \<Rightarrow> rebase_action \<Rightarrow> string" where
  "action_text ident a = type_label (ra_type a) @ '' '' @ ident (ra_oid a) @ '' '' @ before CHR 0x0A (ra_message a)"

lemma action_line_text: "action_line ident a = action_text ident a @ [CHR 0x0A]"
  by (simp add: action_line_def action_text_def)

text \<open>An id made of hexadecimal digits, and a first line of the message without a carriage return.\<close>

definition printable :: "(oid \<Rightarrow> string) \<Rightarrow> rebase_action \<Rightarrow> bool" where
  "printable ident a \<longleftrightarrow> ident (ra_oid a) \<noteq> [] \<and> list_all is_hex (ident (ra_oid a))
     \<and> CHR 0x0D \<notin> set (before CHR 0x0A (ra_message a))"

lemma is_hex_not_space: "is_hex c \<Longrightarrow> \<not> is_space c"
  by (auto simp: is_hex_def is_space_def)

lemma label_no_space: "c \<in> set (type_label ty) \<Longrightarrow> \<not> is_space c"
  by (cases ty) (auto simp: is_space_def)

lemma label_command: "command_type (type_label ty) = Some ty"
  by (induct ty; code_simp)

lemma takeWhile_prefix: "list_all P x \<Longrightarrow> \<not> P c \<Longrightarrow> takeWhile P (x @ c # y) = x \<and> dropWhile P (x @ c # y) = c # y"
  by (induction x) auto

lemma label_nonempty: "type_label ty \<noteq> [] \<and> hd (type_label ty) \<noteq> CHR ''#''"
  by (cases ty) auto

lemma parse_action_text:
  assumes "printable ident a"
  shows "parse_line (action_text ident a) = Some (ra_type a, ident (ra_oid a))"
proof -
  let ?l = "type_label (ra_type a)" and ?h = "ident (ra_oid a)" and ?m = "before CHR 0x0A (ra_message a)"
  have sp: "is_space CHR '' ''" and hx: "\<not> is_hex CHR '' ''" by code_simp+
  have l: "list_all (\<lambda>c. \<not> is_space c) ?l" using label_no_space by (auto simp: list_all_iff)
  have line: "action_text ident a = ?l @ CHR '' '' # ?h @ CHR '' '' # ?m" by (simp add: action_text_def)
  have drop1: "dropWhile is_space (action_text ident a) = action_text ident a"
    using label_nonempty [of "ra_type a"] label_no_space [of _ "ra_type a"]
    by (cases ?l) (auto simp: line)
  have cmd: "takeWhile (\<lambda>c. \<not> is_space c) (action_text ident a) = ?l"
    "dropWhile (\<lambda>c. \<not> is_space c) (action_text ident a) = CHR '' '' # ?h @ CHR '' '' # ?m"
    using takeWhile_prefix [OF l, of "CHR '' ''" "?h @ CHR '' '' # ?m"] sp by (simp_all add: line)
  have drop3: "dropWhile is_space (CHR '' '' # ?h @ CHR '' '' # ?m) = ?h @ CHR '' '' # ?m"
    using assms sp is_hex_not_space by (cases ?h) (auto simp: printable_def)
  have hex: "takeWhile is_hex (?h @ CHR '' '' # ?m) = ?h" "dropWhile is_hex (?h @ CHR '' '' # ?m) = CHR '' '' # ?m"
    using takeWhile_prefix [of is_hex ?h "CHR '' ''" ?m] hx assms by (simp_all add: printable_def)
  have "CHR 0x0D \<notin> set (dropWhile is_space (CHR '' '' # ?m))"
    using assms by (auto simp: printable_def dest: set_dropWhileD)
  moreover have "?h \<noteq> []" using assms by (simp add: printable_def)
  ultimately show ?thesis
    unfolding parse_line_def Let_def drop1 cmd drop3 hex label_command by simp
qed

lemma action_text_line:
  assumes "printable ident a"
  shows "CHR 0x0A \<notin> set (action_text ident a)"
    and "action_text ident a \<noteq> []" and "hd (action_text ident a) \<noteq> CHR ''#''"
proof -
  have "CHR 0x0A \<notin> set (type_label (ra_type a))"
    using label_no_space [of "CHR 0x0A" "ra_type a"] by (auto simp: is_space_def)
  moreover have "CHR 0x0A \<notin> set (before CHR 0x0A (ra_message a))"
    by (auto simp: before_def dest: set_takeWhileD)
  moreover have "\<not> is_hex CHR 0x0A" by code_simp
  then have "CHR 0x0A \<notin> set (ident (ra_oid a))"
    using assms by (auto simp: printable_def list_all_iff)
  ultimately show "CHR 0x0A \<notin> set (action_text ident a)"
    by (simp add: action_text_def)
  show "action_text ident a \<noteq> []" "hd (action_text ident a) \<noteq> CHR ''#''"
    using label_nonempty [of "ra_type a"] by (auto simp: action_text_def hd_append)
qed

text \<open>An action as the parser makes it again.\<close>

definition reread :: "repository \<Rightarrow> rebase_action \<Rightarrow> bool" where
  "reread rp a \<longleftrightarrow> length (ra_oid a) = HexSize \<and> ascii_lower (ra_oid a) = ra_oid a \<and> ra_new a = None
     \<and> (case rp_commits rp (ra_oid a) of Some c \<Rightarrow> ra_message a = commit_message (ra_oid a, c) | None \<Rightarrow> False)"

lemma parse_action_texts:
  assumes "list_all (printable (\<lambda>i. i)) as" and "list_all (reread rp) as"
  shows "parse_lines lib rp (map (action_text (\<lambda>i. i)) as) = Inr as"
  using assms
proof (induction as)
  case (Cons a as)
  then obtain c where "rp_commits rp (ra_oid a) = Some c" and "ra_message a = commit_message (ra_oid a, c)"
    by (auto simp: reread_def split: option.splits)
  then have "try_lookup_commit lib rp (ra_oid a) = Inr (Some (ra_oid a, c))"
    and "action_of (ra_type a) (ra_oid a, c) None = a"
    using Cons.prems by (auto simp: try_lookup_commit_def action_of_def reread_def)
  moreover have "oid_of_hex (gl_bad_hex lib) (ra_oid a) = Inr (ra_oid a)"
    using Cons.prems by (auto simp: oid_of_hex_def reread_def printable_def)
  ultimately show ?case
    using Cons parse_action_text [of "\<lambda>i. i" a] action_text_line [of "\<lambda>i. i" a] by simp
qed simp

lemma print_lines:
  assumes "list_all (printable ident) as"
  shows "getlines (concat (map (action_line ident) as)) = map (action_text ident) as"
proof -
  have "action_line ident = (\<lambda>l. l @ [CHR 0x0A]) \<circ> action_text ident"
    by (rule ext) (simp add: action_line_text)
  moreover have "CHR 0x0A \<notin> set l" if "l \<in> set (map (action_text ident) as)" for l
    using that assms action_text_line(1) by (auto simp: list_all_iff)
  ultimately show ?thesis
    using getlines_lines [of "map (action_text ident) as"] by simp
qed

text \<open>
  Text with full ids loses nothing: a plan whose actions name commits of the repository, with their messages, and
  whose lines are written with all forty digits is read back action for action. The text \<^verbatim>\<open>to_string\<close>
  writes is not read back at all: it has seven digits of each id, and parsing the text of any plan with
  an action in it fails with \<^verbatim>\<open>InvalidOid\<close>.
\<close>

theorem plan_text_roundtrip:
  assumes "list_all (printable (\<lambda>i. i)) as" and "list_all (reread rp) as" and "resolve_ref lib rp ref = Inr onto"
  shows "plan_parse lib rp (concat (map (action_line (\<lambda>i. i)) as)) ref = Inr \<lparr>pl_onto = onto, pl_actions = as, pl_mods = []\<rparr>
    \<and> (as \<noteq> [] \<longrightarrow> plan_parse lib rp (plan_to_string \<lparr>pl_onto = onto, pl_actions = as, pl_mods = []\<rparr>) ref
         = Inl \<lparr>ge_code = InvalidOid, ge_message = ''OID hex string too short: '' @ short_id (ra_oid (hd as))\<rparr>)"
proof
  show "plan_parse lib rp (concat (map (action_line (\<lambda>i. i)) as)) ref = Inr \<lparr>pl_onto = onto, pl_actions = as, pl_mods = []\<rparr>"
    by (simp add: plan_parse_def assms(3) print_lines [OF assms(1)] parse_action_texts [OF assms(1,2)])
  show "as \<noteq> [] \<longrightarrow> plan_parse lib rp (plan_to_string \<lparr>pl_onto = onto, pl_actions = as, pl_mods = []\<rparr>) ref
         = Inl \<lparr>ge_code = InvalidOid, ge_message = ''OID hex string too short: '' @ short_id (ra_oid (hd as))\<rparr>"
  proof
    assume "as \<noteq> []"
    then obtain a rest where as: "as = a # rest" by (cases as) auto
    have short: "printable short_id x" if "x \<in> set as" for x
      using that assms(1) by (auto simp: list_all_iff printable_def short_id_def dest: in_set_takeD)
    then have "list_all (printable short_id) as" by (simp add: list_all_iff)
    from print_lines [OF this]
    have lines: "getlines (plan_to_string \<lparr>pl_onto = onto, pl_actions = as, pl_mods = []\<rparr>)
        = action_text short_id a # map (action_text short_id) rest"
      by (simp add: plan_to_string_def as)
    have "length (short_id (ra_oid a)) < HexSize" by (simp add: short_id_def HexSize_def)
    then show "plan_parse lib rp (plan_to_string \<lparr>pl_onto = onto, pl_actions = as, pl_mods = []\<rparr>) ref
         = Inl \<lparr>ge_code = InvalidOid, ge_message = ''OID hex string too short: '' @ short_id (ra_oid (hd as))\<rparr>"
      using parse_action_text [OF short, of a] action_text_line [OF short, of a] as
      by (simp add: plan_parse_def assms(3) lines [simplified as] oid_of_hex_def)
  qed
qed

definition demo_commit_a :: git_commit where
  "demo_commit_a = \<lparr>gc_tree = [], gc_parents = [], gc_message = ''a'', gc_author = demo_sig, gc_committer = demo_sig\<rparr>"

definition demo_repo :: repository where
  "demo_repo = \<lparr>rp_commits = [demo_oid CHR ''a'' \<mapsto> demo_commit_a], rp_refs = [''refs/heads/m'' \<mapsto> demo_oid CHR ''a''],
     rp_head = ''refs/heads/m''\<rparr>"

theorem plan_text_roundtrip_witness:
  "plan_parse demo_lib demo_repo (action_line (\<lambda>i. i) (demo_action CHR ''a'')) ''HEAD''
     = Inr \<lparr>pl_onto = demo_oid CHR ''a'', pl_actions = [demo_action CHR ''a''], pl_mods = []\<rparr>"
proof -
  have "list_all (printable (\<lambda>i. i)) [demo_action CHR ''a'']" and "list_all (reread demo_repo) [demo_action CHR ''a'']"
    and "resolve_ref demo_lib demo_repo ''HEAD'' = Inr (demo_oid CHR ''a'')"
    by code_simp+
  from plan_text_roundtrip [OF this] show ?thesis by simp
qed

end
