(* ===== verification/RebaseEngine.thy ===== *)
theory RebaseEngine
  imports RebasePlan
begin

text \<open>
  \<^verbatim>\<open>src/gitmanip/src/operations.cpp\<close>: the execution of a rebase plan and the operations made of it, as
  functions from the repository to the outcome and the repository afterwards.
\<close>

section \<open>Trees of rewritten commits\<close>

fun run_all :: "('a \<Rightarrow> 's \<Rightarrow> 'e + 's) \<Rightarrow> 'a list \<Rightarrow> 's \<Rightarrow> 'e + 's" where
  "run_all f [] s = Inr s"
| "run_all f (x # xs) s = bindr (f x s) (run_all f xs)"

definition apply_modification ::
  "git_lib \<Rightarrow> git_tree \<Rightarrow> change_modification \<Rightarrow> tree_builder \<Rightarrow> gm_error + tree_builder" where
  "apply_modification lib base m tb =
     (case cm_type m of
        KeepAll \<Rightarrow> Inr tb
      | DropFile \<Rightarrow> run_all (tb_remove lib) (cm_paths m) tb
      | KeepOnlyFiles \<Rightarrow> run_all (tb_remove lib) (filter (\<lambda>n. n \<notin> set (cm_paths m)) (map fst base)) tb
      | InsertFile \<Rightarrow>
          (case (cm_paths m, cm_content m) of (p # _, Some c) \<Rightarrow> insert_blob lib p c tb | _ \<Rightarrow> Inr tb)
      | ReplaceContent \<Rightarrow>
          (case (cm_paths m, cm_content m) of (p # _, Some c) \<Rightarrow> insert_blob lib p c tb | _ \<Rightarrow> Inr tb)
      | ModifyHunk \<Rightarrow> Inr tb)"

definition apply_modifications :: "git_lib \<Rightarrow> git_tree \<Rightarrow> change_modification list \<Rightarrow> gm_error + git_tree" where
  "apply_modifications lib base ms =
     (if ms = [] then Inr base
      else bindr (run_all (apply_modification lib base) ms (new_tree_builder base)) (tb_build lib))"

definition merged :: "string \<Rightarrow> git_failure + git_tree option \<Rightarrow> string \<Rightarrow> gm_error + git_tree" where
  "merged ctx r conflict =
     bindr (checked ctx r) (\<lambda>m. case m of
        Some t \<Rightarrow> Inr t | None \<Rightarrow> Inl \<lparr>ge_code = ConflictDetected, ge_message = conflict\<rparr>)"

definition cherry_pick_tree :: "git_lib \<Rightarrow> repository \<Rightarrow> commit \<Rightarrow> commit \<Rightarrow> gm_error + git_tree" where
  "cherry_pick_tree lib rp c new_parent =
     (if gc_parents (snd c) = [] then Inr (commit_tree c)
      else bindr (commit_parent lib rp c 0) (\<lambda>p.
        merged ''merging trees for cherry-pick''
          (gl_merge lib (commit_tree p) (commit_tree new_parent) (commit_tree c)) ''Cherry-pick resulted in conflicts''))"

section \<open>Executing a plan\<close>

record rebase_result =
  rr_success :: bool
  rr_new_head :: oid
  rr_mapping :: "(oid \<times> oid) list"
  rr_warnings :: "string list"
  rr_conflict_index :: "nat option"
  rr_conflict :: "string option"

text \<open>The local variables of the loop, with the parts of the result it fills and the repository.\<close>

record rebase_state =
  rs_repo :: repository
  rs_parent :: commit
  rs_message :: string
  rs_author :: "signature option"
  rs_tree :: git_tree
  rs_pending :: "oid list"
  rs_mapping :: "(oid \<times> oid) list"
  rs_warnings :: "string list"

text \<open>A failure in the loop: what was thrown, and how far the rebase had come.\<close>

definition failing :: "rebase_state \<Rightarrow> gm_error + 'a \<Rightarrow> (string \<times> rebase_state) + 'a" where
  "failing st r = (case r of Inl e \<Rightarrow> Inl (ge_message e, st) | Inr x \<Rightarrow> Inr x)"

definition next_melds :: "rebase_plan \<Rightarrow> nat \<Rightarrow> bool" where
  "next_melds p i \<longleftrightarrow> i + 1 < plan_size p \<and> ra_type (pl_actions p ! (i + 1)) \<in> {Squash, Fixup}"

text \<open>The squash and fixup branches: what they do to the pending message, author and tree.\<close>

definition meld :: "rebase_action \<Rightarrow> commit \<Rightarrow> git_tree \<Rightarrow> rebase_state \<Rightarrow> rebase_state" where
  "meld a original t st =
     (let st1 = (if rs_message st = []
                 then st\<lparr>rs_message := commit_message (rs_parent st), rs_author := Some (commit_author (rs_parent st))\<rparr>
                 else st);
          msg = (if ra_type a = Fixup then rs_message st1
                 else case ra_new a of
                   Some m \<Rightarrow> m
                 | None \<Rightarrow> rs_message st1 @ [CHR 0x0A, CHR 0x0A] @ commit_message original)
      in st1\<lparr>rs_message := msg, rs_tree := t, rs_pending := rs_pending st1 @ [ra_oid a]\<rparr>)"

definition record_commit :: "rebase_action \<Rightarrow> oid \<Rightarrow> rebase_state \<Rightarrow> rebase_state" where
  "record_commit a i st =
     st\<lparr>rs_pending := [],
        rs_mapping := rs_mapping st @ (ra_oid a, i) # map (\<lambda>old. (old, i)) (rs_pending st)\<rparr>"

text \<open>The end of an iteration: nothing in a dry run, otherwise the new commit on the current parent.\<close>

definition finish_action ::
  "git_lib \<Rightarrow> bool \<Rightarrow> rebase_action \<Rightarrow> string \<Rightarrow> signature \<Rightarrow> git_tree \<Rightarrow> rebase_state
    \<Rightarrow> (string \<times> rebase_state) + rebase_state" where
  "finish_action lib dry a msg author t st =
     (if dry then Inr st
      else bindr (failing st (bindr (default_signature lib) (\<lambda>committer.
                    create_commit lib (rs_repo st) msg t [fst (rs_parent st)] author committer))) (\<lambda>(i, rp).
           (let st1 = record_commit a i (st\<lparr>rs_repo := rp\<rparr>)
            in bindr (failing st1 (lookup_commit lib rp i)) (\<lambda>new. Inr (st1\<lparr>rs_parent := new\<rparr>)))))"

definition edit_warning :: "rebase_action \<Rightarrow> string" where
  "edit_warning a = ''Edit action at '' @ short_id (ra_oid a) @ '' treated as pick''"

definition rebase_step ::
  "git_lib \<Rightarrow> bool \<Rightarrow> rebase_plan \<Rightarrow> nat \<Rightarrow> rebase_state \<Rightarrow> (string \<times> rebase_state) + rebase_state" where
  "rebase_step lib dry p i st =
     (let a = pl_actions p ! i
      in if ra_type a = Drop then Inr st
         else bindr (failing st (bindr (lookup_commit lib (rs_repo st) (ra_oid a)) (\<lambda>original.
                bindr (cherry_pick_tree lib (rs_repo st) original (rs_parent st)) (\<lambda>t.
                bindr (apply_modifications lib t (get_modifications p i)) (\<lambda>t'. Inr (original, t')))))) (\<lambda>(original, t).
           (case ra_type a of
              Pick \<Rightarrow> finish_action lib dry a (commit_message original) (commit_author original) t st
            | Reword \<Rightarrow>
                finish_action lib dry a (case ra_new a of Some m \<Rightarrow> m | None \<Rightarrow> commit_message original)
                  (commit_author original) t st
            | Edit \<Rightarrow>
                finish_action lib dry a (commit_message original) (commit_author original) t
                  (st\<lparr>rs_warnings := rs_warnings st @ [edit_warning a]\<rparr>)
            | Drop \<Rightarrow> Inr st
            | _ \<Rightarrow>
                (let st1 = meld a original t st
                 in if next_melds p i then Inr st1
                    else finish_action lib dry a (rs_message st1)
                           (case rs_author st1 of Some s \<Rightarrow> s | None \<Rightarrow> commit_author original) (rs_tree st1)
                           (st1\<lparr>rs_message := [], rs_author := None\<rparr>)))))"

text \<open>\<open>go i\<close> is the answer of the progress callback before action \<open>i\<close>.\<close>

fun rebase_loop ::
  "git_lib \<Rightarrow> bool \<Rightarrow> (nat \<Rightarrow> bool) \<Rightarrow> rebase_plan \<Rightarrow> nat list \<Rightarrow> rebase_state
    \<Rightarrow> (string \<times> rebase_state) + rebase_state" where
  "rebase_loop lib dry go p [] st = Inr st"
| "rebase_loop lib dry go p (i # is) st =
     (if \<not> go i then Inl (''Rebase cancelled by user'', st)
      else bindr (rebase_step lib dry p i st) (rebase_loop lib dry go p is))"

definition failed_rebase :: "string \<Rightarrow> rebase_result" where
  "failed_rebase why =
     \<lparr>rr_success = False, rr_new_head = zero_oid, rr_mapping = [], rr_warnings = [], rr_conflict_index = None,
      rr_conflict = Some why\<rparr>"

definition start_state :: "repository \<Rightarrow> commit \<Rightarrow> rebase_state" where
  "start_state rp onto =
     \<lparr>rs_repo = rp, rs_parent = onto, rs_message = [], rs_author = None, rs_tree = commit_tree onto,
      rs_pending = [], rs_mapping = [], rs_warnings = []\<rparr>"

definition execute ::
  "git_lib \<Rightarrow> bool \<Rightarrow> (nat \<Rightarrow> bool) \<Rightarrow> rebase_plan \<Rightarrow> repository \<Rightarrow> rebase_result \<times> repository" where
  "execute lib dry go p rp =
     (case validation_errors p of
        e # _ \<Rightarrow> (failed_rebase (''Plan validation failed: '' @ e), rp)
      | [] \<Rightarrow>
        if plan_size p = 0
        then (\<lparr>rr_success = True, rr_new_head = pl_onto p, rr_mapping = [], rr_warnings = [], rr_conflict_index = None,
               rr_conflict = None\<rparr>, rp)
        else case lookup_commit lib rp (pl_onto p) of
          Inl e \<Rightarrow> (failed_rebase (ge_message e), rp)
        | Inr onto \<Rightarrow>
            (case rebase_loop lib dry go p [0..<plan_size p] (start_state rp onto) of
               Inl (why, st) \<Rightarrow>
                 ((failed_rebase why)\<lparr>rr_mapping := rs_mapping st, rr_warnings := rs_warnings st\<rparr>, rs_repo st)
             | Inr st \<Rightarrow>
                 (\<lparr>rr_success = True, rr_new_head = fst (rs_parent st), rr_mapping = rs_mapping st,
                   rr_warnings = rs_warnings st, rr_conflict_index = None, rr_conflict = None\<rparr>, rs_repo st)))"

section \<open>The operations made of it\<close>

record op_config =
  oc_update_refs :: bool
  oc_dry_run :: bool

definition new_operations :: op_config where
  "new_operations = \<lparr>oc_update_refs = True, oc_dry_run = False\<rparr>"

definition set_update_refs :: "bool \<Rightarrow> op_config \<Rightarrow> op_config" where
  "set_update_refs b oc = oc\<lparr>oc_update_refs := b\<rparr>"

definition set_dry_run :: "bool \<Rightarrow> op_config \<Rightarrow> op_config" where
  "set_dry_run b oc = oc\<lparr>oc_dry_run := b\<rparr>"

definition gm_fail :: "gm_code \<Rightarrow> string \<Rightarrow> gm_error + 'a" where
  "gm_fail code msg = Inl \<lparr>ge_code = code, ge_message = msg\<rparr>"

definition commit_parents :: "git_lib \<Rightarrow> repository \<Rightarrow> commit \<Rightarrow> gm_error + commit list" where
  "commit_parents lib rp c = each (commit_parent lib rp c) [0..<length (gc_parents (snd c))]"

definition amend_head ::
  "git_lib \<Rightarrow> op_config \<Rightarrow> repository \<Rightarrow> string option \<Rightarrow> git_tree option \<Rightarrow> signature option
    \<Rightarrow> gm_error + (oid \<times> repository)" where
  "amend_head lib oc rp new_message new_tree new_author =
     bindr (bindr (head_oid lib rp) (lookup_commit lib rp)) (\<lambda>head.
     bindr (commit_parents lib rp head) (\<lambda>parents.
     bindr (default_signature lib) (\<lambda>committer.
     bindr (create_commit lib rp
              (case new_message of Some m \<Rightarrow> m | None \<Rightarrow> commit_message head)
              (case new_tree of Some t \<Rightarrow> t | None \<Rightarrow> commit_tree head) (map fst parents)
              (case new_author of Some s \<Rightarrow> s | None \<Rightarrow> commit_author head) committer) (\<lambda>(i, rp1).
       Inr (i, if oc_update_refs oc then update_ref rp1 (rp_head rp1) i else rp1)))))"

text \<open>The result of a plan run for its new head alone.\<close>

definition new_head_or ::
  "string \<Rightarrow> rebase_result \<times> repository \<Rightarrow> gm_error + (oid \<times> repository)" where
  "new_head_or otherwise r =
     (if rr_success (fst r) then Inr (rr_new_head (fst r), snd r)
      else gm_fail InvalidOperation (case rr_conflict (fst r) of Some m \<Rightarrow> m | None \<Rightarrow> otherwise))"

definition reword_commit ::
  "git_lib \<Rightarrow> op_config \<Rightarrow> repository \<Rightarrow> commit \<Rightarrow> string \<Rightarrow> gm_error + (oid \<times> repository)" where
  "reword_commit lib oc rp c msg =
     bindr (head_oid lib rp) (\<lambda>head.
       if fst c = head then amend_head lib oc rp (Some msg) None None
       else if gc_parents (snd c) = []
         then gm_fail InvalidOperation ''Cannot reword root commit without full rebase''
       else bindr (parent_id c 0) (\<lambda>onto.
         new_head_or ''Reword failed''
           (execute lib (oc_dry_run oc) (\<lambda>_. True) (plan_add (action_reword c msg) (new_plan onto)) rp)))"

definition squash_plan :: "oid \<Rightarrow> commit list \<Rightarrow> string \<Rightarrow> rebase_plan" where
  "squash_plan onto cs msg =
     fold (\<lambda>c. plan_add (action_fixup c)) (tl cs)
       (plan_add (if msg = [] then action_pick (hd cs) else action_reword (hd cs) msg) (new_plan onto))"

definition squash_commits ::
  "git_lib \<Rightarrow> op_config \<Rightarrow> repository \<Rightarrow> commit list \<Rightarrow> string \<Rightarrow> gm_error + (oid \<times> repository)" where
  "squash_commits lib oc rp cs msg =
     (case cs of
        [] \<Rightarrow> gm_fail InvalidArgument ''No commits to squash''
      | [c] \<Rightarrow> reword_commit lib oc rp c msg
      | c # _ \<Rightarrow>
          if gc_parents (snd c) = [] then gm_fail InvalidOperation ''Cannot squash commits including root commit''
          else bindr (parent_id c 0) (\<lambda>onto.
            new_head_or ''Squash failed'' (execute lib (oc_dry_run oc) (\<lambda>_. True) (squash_plan onto cs msg) rp)))"

definition drop_commit ::
  "git_lib \<Rightarrow> op_config \<Rightarrow> repository \<Rightarrow> commit \<Rightarrow> gm_error + (rebase_result \<times> repository)" where
  "drop_commit lib oc rp c =
     (if gc_parents (snd c) = [] then gm_fail InvalidOperation ''Cannot drop root commit''
      else bindr (parent_id c 0) (\<lambda>onto.
        Inr (execute lib (oc_dry_run oc) (\<lambda>_. True) (plan_add (action_drop c) (new_plan onto)) rp)))"

definition op_cherry_pick ::
  "git_lib \<Rightarrow> repository \<Rightarrow> commit \<Rightarrow> string option \<Rightarrow> gm_error + (oid \<times> repository)" where
  "op_cherry_pick lib rp c new_message =
     bindr (bindr (head_oid lib rp) (lookup_commit lib rp)) (\<lambda>head.
     bindr (cherry_pick_tree lib rp c head) (\<lambda>t.
     bindr (default_signature lib) (\<lambda>committer.
       create_commit lib rp (case new_message of Some m \<Rightarrow> m | None \<Rightarrow> commit_message c) t [fst head]
         (commit_author c) committer)))"

definition op_revert ::
  "git_lib \<Rightarrow> repository \<Rightarrow> commit \<Rightarrow> string option \<Rightarrow> gm_error + (oid \<times> repository)" where
  "op_revert lib rp c msg =
     bindr (bindr (head_oid lib rp) (lookup_commit lib rp)) (\<lambda>head.
       if gc_parents (snd c) = [] then gm_fail InvalidOperation ''Cannot revert root commit''
       else bindr (commit_parent lib rp c 0) (\<lambda>parent.
       bindr (merged ''merging trees for revert''
                (gl_merge lib (commit_tree c) (commit_tree head) (commit_tree parent)) ''Revert resulted in conflicts'') (\<lambda>t.
       bindr (default_signature lib) (\<lambda>sig.
         create_commit lib rp
           (case msg of
              Some m \<Rightarrow> m
            | None \<Rightarrow> ''Revert '' @ [CHR 0x22] @ gl_summary lib (gc_message (snd c)) @ [CHR 0x22, CHR 0x0A, CHR 0x0A]
                        @ ''This reverts commit '' @ fst c @ ''.'')
           t [fst head] sig sig))))"

fun split_into ::
  "git_lib \<Rightarrow> signature \<Rightarrow> (string \<times> git_tree) list \<Rightarrow> commit \<Rightarrow> repository \<Rightarrow> gm_error + (oid list \<times> repository)" where
  "split_into lib author [] parent rp = Inr ([], rp)"
| "split_into lib author ((msg, t) # rest) parent rp =
     bindr (default_signature lib) (\<lambda>committer.
     bindr (create_commit lib rp msg t [fst parent] author committer) (\<lambda>(i, rp1).
     bindr (lookup_commit lib rp1 i) (\<lambda>new.
     bindr (split_into lib author rest new rp1) (\<lambda>(ids, rp2). Inr (i # ids, rp2)))))"

text \<open>
  The parts are what the splitter answered. For a root commit the source looks up the empty tree's id as a
  commit, which fails.
\<close>

definition split_commit ::
  "git_lib \<Rightarrow> repository \<Rightarrow> commit \<Rightarrow> (string \<times> git_tree) list \<Rightarrow> gm_error + (oid list \<times> repository)" where
  "split_commit lib rp c splits =
     (if splits = [] then gm_fail InvalidArgument ''Splitter returned no commits''
      else bindr (if gc_parents (snd c) \<noteq> [] then commit_parent lib rp c 0
                  else lookup_commit lib rp ''4b825dc642cb6eb9a060e54bf8d69288fbee4904'') (\<lambda>parent.
        split_into lib (commit_author c) splits parent rp))"

section \<open>CommitBuilder\<close>

record commit_builder =
  cb_base :: commit
  cb_message :: "string option"
  cb_author :: "signature option"
  cb_committer :: "signature option"
  cb_tree :: "git_tree option"
  cb_parents :: "oid list"
  cb_modifiers :: "(tree_builder \<Rightarrow> gm_error + tree_builder) list"

definition new_commit_builder :: "git_lib \<Rightarrow> repository \<Rightarrow> commit \<Rightarrow> gm_error + commit_builder" where
  "new_commit_builder lib rp c =
     bindr (lookup_commit lib rp (fst c)) (\<lambda>base.
       Inr \<lparr>cb_base = base, cb_message = None, cb_author = None, cb_committer = None, cb_tree = None,
            cb_parents = [], cb_modifiers = []\<rparr>)"

definition modify_tree :: "(tree_builder \<Rightarrow> gm_error + tree_builder) \<Rightarrow> commit_builder \<Rightarrow> commit_builder" where
  "modify_tree f cb = cb\<lparr>cb_modifiers := cb_modifiers cb @ [f]\<rparr>"

definition add_file :: "git_lib \<Rightarrow> string \<Rightarrow> string \<Rightarrow> commit_builder \<Rightarrow> commit_builder" where
  "add_file lib path content = modify_tree (insert_blob lib path content)"

definition remove_file :: "git_lib \<Rightarrow> string \<Rightarrow> commit_builder \<Rightarrow> commit_builder" where
  "remove_file lib path = modify_tree (tb_remove lib path)"

definition modify_file :: "git_lib \<Rightarrow> string \<Rightarrow> (string \<Rightarrow> string) \<Rightarrow> commit_builder \<Rightarrow> commit_builder" where
  "modify_file lib path f cb =
     modify_tree (\<lambda>tb. case blob_content (commit_tree (cb_base cb)) path of
                         Some content \<Rightarrow> insert_blob lib path (f content) tb
                       | None \<Rightarrow> Inr tb) cb"

text \<open>\<^verbatim>\<open>build\<close> without a signer.\<close>

definition builder_build :: "git_lib \<Rightarrow> repository \<Rightarrow> commit_builder \<Rightarrow> gm_error + (oid \<times> repository)" where
  "builder_build lib rp cb =
     (let base_tree = (case cb_tree cb of Some t \<Rightarrow> t | None \<Rightarrow> commit_tree (cb_base cb))
      in bindr (if cb_modifiers cb = [] then Inr base_tree
                else bindr (run_all (\<lambda>f. f) (cb_modifiers cb) (new_tree_builder base_tree)) (tb_build lib)) (\<lambda>t.
         bindr (if cb_parents cb = [] then bindr (commit_parents lib rp (cb_base cb)) (\<lambda>ps. Inr (map fst ps))
                else Inr (cb_parents cb)) (\<lambda>parents.
         bindr (default_signature lib) (\<lambda>sig.
           create_commit lib rp (case cb_message cb of Some m \<Rightarrow> m | None \<Rightarrow> commit_message (cb_base cb)) t parents
             (case cb_author cb of Some s \<Rightarrow> s | None \<Rightarrow> commit_author (cb_base cb))
             (case cb_committer cb of Some s \<Rightarrow> s | None \<Rightarrow> sig)))))"

section \<open>What an execution leaves alone\<close>

text \<open>
  The documented nature of git's store: the id of an object is a hash of it, and two objects do not share
  one.
\<close>

definition content_addressed :: "git_lib \<Rightarrow> bool" where
  "content_addressed lib \<longleftrightarrow> (\<forall>c c' i. gl_commit lib c = Inr i \<and> gl_commit lib c' = Inr i \<longrightarrow> c = c')"

definition store_ok :: "git_lib \<Rightarrow> repository \<Rightarrow> bool" where
  "store_ok lib rp \<longleftrightarrow> (\<forall>i c. rp_commits rp i = Some c \<longrightarrow> gl_commit lib c = Inr i)"

definition grows :: "git_lib \<Rightarrow> repository \<Rightarrow> repository \<Rightarrow> bool" where
  "grows lib rp rp' \<longleftrightarrow> rp_commits rp \<subseteq>\<^sub>m rp_commits rp' \<and> rp_refs rp' = rp_refs rp \<and> rp_head rp' = rp_head rp
     \<and> (store_ok lib rp \<longrightarrow> store_ok lib rp')"

lemma grows_refl [simp]: "grows lib rp rp"
  by (simp add: grows_def)

lemma grows_trans: "grows lib a b \<Longrightarrow> grows lib b c \<Longrightarrow> grows lib a c"
  by (auto simp: grows_def intro: map_le_trans)

lemma grows_lookup: "grows lib rp rp' \<Longrightarrow> rp_commits rp i = Some c \<Longrightarrow> rp_commits rp' i = Some c"
  by (force simp: grows_def map_le_def)

lemma create_grows:
  assumes "content_addressed lib" and "store_ok lib rp"
    and "create_commit lib rp msg t parents author committer = Inr (i, rp')"
  shows "grows lib rp rp'"
proof -
  obtain gc where gc: "gl_commit lib gc = Inr i" and rp': "rp' = rp\<lparr>rp_commits := (rp_commits rp)(i \<mapsto> gc)\<rparr>"
    using assms(3) by (rule create_commit_Inr) blast
  have "rp_commits rp i = None \<or> rp_commits rp i = Some gc"
    using assms(1,2) gc by (cases "rp_commits rp i") (auto simp: content_addressed_def store_ok_def)
  then show ?thesis
    using assms(2) gc by (auto simp: grows_def rp' map_le_def store_ok_def)
qed

lemma failing_simps [simp]: "failing st (Inl e) = Inl (ge_message e, st)" "failing st (Inr x) = Inr x"
  by (simp_all add: failing_def)

lemma failing_Inl: "failing st r = Inl e \<longleftrightarrow> (\<exists>g. r = Inl g \<and> e = (ge_message g, st))"
  by (cases r) auto

lemma failing_Inr: "failing st r = Inr x \<longleftrightarrow> r = Inr x"
  by (cases r) auto

lemma bindr_Inl: "bindr x f = Inl e \<longleftrightarrow> x = Inl e \<or> (\<exists>a. x = Inr a \<and> f a = Inl e)"
  by (cases x) auto

text \<open>The state a step reached, whether it failed or not.\<close>

definition reached :: "(string \<times> rebase_state) + rebase_state \<Rightarrow> rebase_state" where
  "reached r = (case r of Inl (_, st) \<Rightarrow> st | Inr st \<Rightarrow> st)"

lemma reached_simps [simp]: "reached (Inl (why, st)) = st" "reached (Inr st) = st"
  by (simp_all add: reached_def)

lemma record_commit_simps [simp]:
  "rs_repo (record_commit a i st) = rs_repo st" "rs_parent (record_commit a i st) = rs_parent st"
  by (simp_all add: record_commit_def)

lemma meld_repo [simp]: "rs_repo (meld a c t st) = rs_repo st"
  by (simp add: meld_def Let_def)

lemma finish_grows:
  assumes "content_addressed lib" and "store_ok lib (rs_repo st)"
  shows "grows lib (rs_repo st) (rs_repo (reached (finish_action lib dry a msg author t st)))"
proof (cases "dry")
  case False
  let ?r = "bindr (default_signature lib) (\<lambda>committer.
                    create_commit lib (rs_repo st) msg t [fst (rs_parent st)] author committer)"
  show ?thesis
  proof (cases ?r)
    case (Inl e)
    with False show ?thesis by (simp add: finish_action_def)
  next
    case (Inr x)
    obtain i rp where x: "x = (i, rp)" by (cases x)
    with Inr obtain committer where "create_commit lib (rs_repo st) msg t [fst (rs_parent st)] author committer = Inr (i, rp)"
      by (auto simp: bindr_Inr)
    from create_grows [OF assms this] Inr x False show ?thesis
      by (cases "lookup_commit lib rp i") (auto simp: finish_action_def Let_def)
  qed
qed (simp add: finish_action_def)

lemma step_grows:
  assumes "content_addressed lib" and "store_ok lib (rs_repo st)"
  shows "grows lib (rs_repo st) (rs_repo (reached (rebase_step lib dry p i st)))"
proof (cases "ra_type (pl_actions p ! i) = Drop")
  case False
  let ?r = "bindr (lookup_commit lib (rs_repo st) (ra_oid (pl_actions p ! i))) (\<lambda>original.
                bindr (cherry_pick_tree lib (rs_repo st) original (rs_parent st)) (\<lambda>t.
                bindr (apply_modifications lib t (get_modifications p i)) (\<lambda>t'. Inr (original, t'))))"
  show ?thesis
  proof (cases ?r)
    case (Inl e)
    with False show ?thesis by (simp add: rebase_step_def Let_def)
  next
    case (Inr x)
    obtain original t where x: "x = (original, t)" by (cases x)
    have finish: "grows lib (rs_repo st) (rs_repo (reached (finish_action lib dry a msg author t st1)))"
      if "rs_repo st1 = rs_repo st" for a msg author t st1
      using finish_grows [OF assms(1), of st1] assms(2) that by simp
    show ?thesis
      using Inr x False
      by (cases "ra_type (pl_actions p ! i)") (simp_all add: rebase_step_def Let_def finish)
  qed
qed (simp add: rebase_step_def)

lemma loop_grows:
  "content_addressed lib \<Longrightarrow> store_ok lib (rs_repo st)
    \<Longrightarrow> grows lib (rs_repo st) (rs_repo (reached (rebase_loop lib dry go p is st)))"
proof (induction lib dry go p "is" st rule: rebase_loop.induct)
  case (2 lib dry go p i "is" st)
  note step = step_grows [OF 2(2,3), of dry p i]
  show ?case
  proof (cases "rebase_step lib dry p i st")
    case (Inl e)
    with step show ?thesis by (cases e) auto
  next
    case (Inr st1)
    with step have g: "grows lib (rs_repo st) (rs_repo st1)" by simp
    show ?thesis
    proof (cases "go i")
      case True
      with g 2(3) have "store_ok lib (rs_repo st1)" by (simp add: grows_def)
      with 2(1) [of st1] True 2(2) Inr have "grows lib (rs_repo st1) (rs_repo (reached (rebase_loop lib dry go p is st1)))"
        by simp
      with g True Inr show ?thesis by (auto intro: grows_trans)
    qed simp
  qed
qed simp

text \<open>
  A rebase only adds. Whatever the plan, its outcome and the moment the callback cancels it, every commit of the
  repository is still there, unchanged, and no reference has moved: an execution that fails has changed
  nothing anyone can see.
\<close>

theorem rebase_only_adds:
  assumes "content_addressed lib" and "store_ok lib rp" and "execute lib dry go p rp = (r, rp')"
  shows "rp_commits rp \<subseteq>\<^sub>m rp_commits rp' \<and> rp_refs rp' = rp_refs rp \<and> rp_head rp' = rp_head rp"
proof -
  have "grows lib rp rp'"
  proof (cases "\<exists>onto. lookup_commit lib rp (pl_onto p) = Inr onto \<and> validation_errors p = [] \<and> plan_size p \<noteq> 0")
    case True
    then obtain onto where onto: "lookup_commit lib rp (pl_onto p) = Inr onto" "validation_errors p = []" "plan_size p \<noteq> 0"
      by blast
    let ?l = "rebase_loop lib dry go p [0..<plan_size p] (start_state rp onto)"
    have "rs_repo (start_state rp onto) = rp" by (simp add: start_state_def)
    with loop_grows [OF assms(1), of "start_state rp onto" dry go p "[0..<plan_size p]"] assms(2)
    have "grows lib rp (rs_repo (reached ?l))" by simp
    with assms(3) onto show ?thesis
      by (cases ?l) (auto simp: execute_def)
  next
    case False
    with assms(3) have "rp' = rp"
      by (auto simp: execute_def split: list.splits if_splits sum.splits)
    then show ?thesis by simp
  qed
  then show ?thesis by (simp add: grows_def)
qed

section \<open>What an execution builds\<close>

text \<open>The message an action gives its commit, and the actions that keep one.\<close>

definition new_text :: "rebase_action \<Rightarrow> commit \<Rightarrow> string" where
  "new_text a c = (if ra_type a = Reword then (case ra_new a of Some m \<Rightarrow> m | None \<Rightarrow> commit_message c)
                   else commit_message c)"

definition kept :: "(rebase_action \<times> change_modification list) list \<Rightarrow> (rebase_action \<times> change_modification list) list" where
  "kept = filter (\<lambda>(a, _). ra_type a \<noteq> Drop)"

text \<open>
  What the modifications of an action come to, name by name: the last one that speaks of a name decides. A file
  with content stands there with it; a dropped name, and a name of the tree that is not among those to keep, is
  gone; hunks are not spoken of. Only names of the top level are ever dropped or kept, whatever they are. If
  some modification adds a file in a directory, the tree is that of the files added in directories and nothing else.
\<close>

definition adds :: "change_modification \<Rightarrow> (string \<times> string) option" where
  "adds m =
     (if cm_type m = InsertFile \<or> cm_type m = ReplaceContent
      then (case (cm_paths m, cm_content m) of (path # _, Some content) \<Rightarrow> Some (path, content) | _ \<Rightarrow> None) else None)"

definition takes_away :: "git_tree \<Rightarrow> change_modification \<Rightarrow> string \<Rightarrow> bool" where
  "takes_away base m n \<longleftrightarrow>
     cm_type m = DropFile \<and> n \<in> c_str ` set (cm_paths m)
     \<or> cm_type m = KeepOnlyFiles \<and> n \<in> c_str ` (fst ` set base - set (cm_paths m))"

fun top_entry :: "git_tree \<Rightarrow> change_modification list \<Rightarrow> string \<Rightarrow> git_entry option" where
  "top_entry base [] n = map_of base n"
| "top_entry base (m # earlier) n =
     (case adds m of
        Some (path, content) \<Rightarrow>
          if CHR ''/'' \<notin> set path \<and> c_str path = n then Some (Blob GIT_FILEMODE_BLOB content) else top_entry base earlier n
      | None \<Rightarrow> if takes_away base m n then None else top_entry base earlier n)"

fun nested_entry :: "change_modification list \<Rightarrow> string \<Rightarrow> git_entry option" where
  "nested_entry [] path = None"
| "nested_entry (m # earlier) path =
     (case adds m of
        Some (q, content) \<Rightarrow> if CHR ''/'' \<in> set q \<and> q = path then Some (Blob GIT_FILEMODE_BLOB content) else nested_entry earlier path
      | None \<Rightarrow> nested_entry earlier path)"

definition nested_paths_ok :: "git_lib \<Rightarrow> change_modification list \<Rightarrow> bool" where
  "nested_paths_ok lib ms \<longleftrightarrow>
     (\<forall>path. nested_entry (rev ms) path \<noteq> None \<longrightarrow> list_all (good_name_for lib) (split_on CHR ''/'' path)
        \<and> (\<forall>q. nested_entry (rev ms) q \<noteq> None \<longrightarrow> \<not> prefix (path @ ''/'') q))"

definition modified :: "git_lib \<Rightarrow> git_tree \<Rightarrow> change_modification list \<Rightarrow> git_tree \<Rightarrow> bool" where
  "modified lib base ms t \<longleftrightarrow>
     (if \<forall>path. nested_entry (rev ms) path = None then map_of t = top_entry base (rev ms)
      else nested_paths_ok lib ms \<longrightarrow>
        (\<forall>path. list_all (good_name_for lib) (split_on CHR ''/'' path) \<longrightarrow>
           leaf_at t (split_on CHR ''/'' path) = nested_entry (rev ms) path))"

text \<open>The change of a commit carried over to another parent: the three-way merge, or a root's own tree.\<close>

definition carried :: "git_lib \<Rightarrow> repository \<Rightarrow> git_commit \<Rightarrow> git_commit \<Rightarrow> git_tree \<Rightarrow> bool" where
  "carried lib rp orig par t \<longleftrightarrow>
     (case gc_parents orig of
        [] \<Rightarrow> t = gc_tree orig
      | q # _ \<Rightarrow> (\<exists>old_par. rp_commits rp q = Some old_par
                     \<and> gl_merge lib (gc_tree old_par) (gc_tree par) (gc_tree orig) = Inr (Some t)))"

text \<open>
  The history a plan asks for, read off a repository: above \<open>parent\<close>, one commit for each action, whose only
  parent is the one before it, with the action's message, the original's author, and the tree of the
  original's change carried over to that parent and modified.
\<close>

definition rewritten_one ::
  "git_lib \<Rightarrow> repository \<Rightarrow> oid \<Rightarrow> rebase_action \<times> change_modification list \<Rightarrow> oid \<times> oid \<Rightarrow> bool" where
  "rewritten_one lib rp parent am on =
     (let (a, ms) = am; (old, new) = on
      in old = ra_oid a \<and>
         (case (rp_commits rp old, rp_commits rp parent, rp_commits rp new) of
            (Some orig, Some par, Some gc) \<Rightarrow>
              gc_parents gc = [parent] \<and> gc_message gc = c_str (new_text a (old, orig))
              \<and> gl_signature lib (gc_author orig) = Inr (gc_author gc)
              \<and> (\<exists>t. carried lib rp orig par t \<and> modified lib t ms (gc_tree gc))
          | _ \<Rightarrow> False))"

fun rewritten ::
  "git_lib \<Rightarrow> repository \<Rightarrow> oid \<Rightarrow> (rebase_action \<times> change_modification list) list \<Rightarrow> (oid \<times> oid) list \<Rightarrow> bool" where
  "rewritten lib rp parent [] [] = True"
| "rewritten lib rp parent (am # ams) (on # ons) \<longleftrightarrow>
     rewritten_one lib rp parent am on \<and> rewritten lib rp (snd on) ams ons"
| "rewritten lib rp parent _ _ = False"

lemma carried_grows: "grows lib rp rp' \<Longrightarrow> carried lib rp orig par t \<Longrightarrow> carried lib rp' orig par t"
  by (auto simp: carried_def dest: grows_lookup split: list.splits)

lemma cherry_pick_carried:
  "cherry_pick_tree lib rp (i, orig) (j, par) = Inr t \<Longrightarrow> carried lib rp orig par t"
  by (cases "gc_parents orig")
     (auto simp: cherry_pick_tree_def carried_def commit_parent_def commit_tree_def merged_def bindr_Inr checked_Inr
       split: option.splits if_splits)

lemma carried_from: "cherry_pick_tree lib rp c p = Inr t \<Longrightarrow> carried lib rp (snd c) (snd p) t"
  using cherry_pick_carried by (cases c; cases p) auto

lemma run_all_append: "run_all f (xs @ ys) s = bindr (run_all f xs s) (run_all f ys)"
  by (induction xs arbitrary: s) (auto simp: bindr_def split: sum.splits)

lemma run_all_remove:
  "run_all (tb_remove lib) ns tb = Inr tb' \<Longrightarrow>
     map_of (tb_entries tb') = (\<lambda>n. if n \<in> c_str ` set ns then None else map_of (tb_entries tb) n)
     \<and> tb_pending tb' = tb_pending tb"
proof (induction ns arbitrary: tb)
  case (Cons n ns)
  then obtain tb1 where tb1: "tb_remove lib n tb = Inr tb1" and rest: "run_all (tb_remove lib) ns tb1 = Inr tb'"
    by (auto simp: bindr_Inr)
  have "map_of (tb_entries tb1) = (\<lambda>k. if k = c_str n then None else map_of (tb_entries tb) k)" "tb_pending tb1 = tb_pending tb"
    using tb1 by (auto simp: tb_remove_def checked_def delete_conv fun_eq_iff split: if_splits)
  with Cons.IH [OF rest] show ?case by (auto simp: fun_eq_iff)
qed simp

lemma apply_modification_meaning:
  assumes "apply_modification lib base m tb = Inr tb'"
    and "map_of (tb_entries tb) = top_entry base earlier" and "map_of (tb_pending tb) = nested_entry earlier"
    and "distinct (map fst (tb_pending tb))"
  shows "map_of (tb_entries tb') = top_entry base (m # earlier) \<and> map_of (tb_pending tb') = nested_entry (m # earlier)
    \<and> distinct (map fst (tb_pending tb'))"
proof -
  have put: "map_of (tb_entries tb') = top_entry base (m # earlier) \<and> map_of (tb_pending tb') = nested_entry (m # earlier)
      \<and> distinct (map fst (tb_pending tb'))"
    if kind: "cm_type m = InsertFile \<or> cm_type m = ReplaceContent"
      and ins: "(case (cm_paths m, cm_content m) of (p # _, Some c) \<Rightarrow> insert_blob lib p c tb | _ \<Rightarrow> Inr tb) = Inr tb'"
  proof (cases "adds m")
    case None
    with that have "tb' = tb" by (auto simp: adds_def split: list.splits option.splits)
    with None that(1) assms(2-4) show ?thesis by (auto simp: takes_away_def fun_eq_iff)
  next
    case (Some pc)
    then obtain p c where pc: "adds m = Some (p, c)" "insert_blob lib p c tb = Inr tb'"
      using kind ins by (cases pc) (auto simp: adds_def split: list.splits option.splits if_split_asm)
    show ?thesis
    proof (cases "CHR ''/'' \<in> set p")
      case True
      with pc have tb': "tb_entries tb' = tb_entries tb"
        "tb_pending tb' = AList.update p (Blob GIT_FILEMODE_BLOB c) (tb_pending tb)"
        by (auto simp: insert_blob_def)
      with pc(1) True assms(2-4) show ?thesis
        by (auto simp: fun_eq_iff update_conv' distinct_update)
    next
      case False
      with pc have tb': "tb_entries tb' = AList.update (c_str p) (Blob GIT_FILEMODE_BLOB c) (tb_entries tb)"
        "tb_pending tb' = tb_pending tb"
        by (auto simp: insert_blob_def tb_insert_def treebuilder_insert_def bindr_Inr checked_Inr split: if_splits)
      with pc(1) False assms(2-4) show ?thesis
        by (auto simp: fun_eq_iff update_conv')
    qed
  qed
  show ?thesis
  proof (cases "cm_type m")
    case DropFile
    with assms(1) run_all_remove [of lib "cm_paths m" tb tb'] assms(2-4) show ?thesis
      by (auto simp: apply_modification_def adds_def takes_away_def fun_eq_iff)
  next
    case KeepOnlyFiles
    with assms(1) run_all_remove [of lib "filter (\<lambda>n. n \<notin> set (cm_paths m)) (map fst base)" tb tb'] assms(2-4) show ?thesis
      by (auto simp: apply_modification_def adds_def takes_away_def fun_eq_iff image_iff)
  next
    case InsertFile
    with assms(1) put show ?thesis by (simp add: apply_modification_def)
  next
    case ReplaceContent
    with assms(1) put show ?thesis by (simp add: apply_modification_def)
  qed (use assms in \<open>auto simp: apply_modification_def adds_def takes_away_def fun_eq_iff\<close>)
qed

lemma run_modifications:
  "run_all (apply_modification lib base) ms (new_tree_builder base) = Inr tb \<Longrightarrow>
     map_of (tb_entries tb) = top_entry base (rev ms) \<and> map_of (tb_pending tb) = nested_entry (rev ms)
     \<and> distinct (map fst (tb_pending tb))"
proof (induction ms arbitrary: tb rule: rev_induct)
  case Nil
  then show ?case by (auto simp: new_tree_builder_def fun_eq_iff)
next
  case (snoc m ms)
  then obtain tb1 where "run_all (apply_modification lib base) ms (new_tree_builder base) = Inr tb1"
    "apply_modification lib base m tb1 = Inr tb"
    by (auto simp: run_all_append bindr_Inr)
  with snoc.IH apply_modification_meaning [of lib base m tb1 tb "rev ms"] show ?case by simp
qed

lemma nested_entry_blob: "nested_entry ms path = Some e \<Longrightarrow> \<not> is_subtree e"
proof (induction ms)
  case (Cons m ms)
  then show ?case by (cases "adds m") (auto split: if_splits)
qed simp

lemma apply_modifications_modified:
  assumes "apply_modifications lib base ms = Inr t"
  shows "modified lib base ms t"
proof (cases "ms = []")
  case True
  with assms show ?thesis by (auto simp: apply_modifications_def modified_def fun_eq_iff)
next
  case False
  with assms obtain tb where tb: "run_all (apply_modification lib base) ms (new_tree_builder base) = Inr tb"
    and build: "tb_build lib tb = Inr t"
    by (auto simp: apply_modifications_def bindr_Inr)
  note m = run_modifications [OF tb]
  show ?thesis
  proof (cases "tb_pending tb = []")
    case True
    with m have "\<forall>path. nested_entry (rev ms) path = None" by (metis map_of.simps(1))
    with True build m show ?thesis by (simp add: modified_def tb_build_def)
  next
    case ne: False
    then obtain k where "nested_entry (rev ms) k \<noteq> None"
      using m by (metis list.set_intros(1) map_of_eq_None_iff image_eqI neq_Nil_conv)
    moreover have "\<forall>path. list_all (good_name_for lib) (split_on CHR ''/'' path) \<longrightarrow>
        leaf_at t (split_on CHR ''/'' path) = nested_entry (rev ms) path" if ok: "nested_paths_ok lib ms"
    proof -
      have entry: "nested_entry (rev ms) path = Some e" if "(path, e) \<in> set (tb_pending tb)" for path e
        using m that by (metis map_of_eq_Some_iff)
      have "pending_ok lib (tb_pending tb)"
        unfolding pending_ok_def
      proof (intro conjI ballI, goal_cases)
        case 1
        show ?case using m by blast
      next
        case (2 x)
        obtain path e where x: "x = (path, e)" by (cases x)
        with 2 have e: "nested_entry (rev ms) path = Some e" using entry by simp
        have "\<not> starts_with q (path @ ''/'')" if "(q, e') \<in> set (tb_pending tb)" for q e'
          using ok e entry [OF that] by (auto simp: nested_paths_ok_def starts_with_iff_prefix)
        with ok e nested_entry_blob [OF e] x show ?case by (auto simp: nested_paths_ok_def)
      qed
      from nested_build_exact_of [OF ne this] build m show ?thesis by auto
    qed
    ultimately show ?thesis by (auto simp: modified_def)
  qed
qed

lemma rewritten_one_grows:
  assumes "grows lib rp rp'" and "rewritten_one lib rp parent am on"
  shows "rewritten_one lib rp' parent am on"
proof -
  obtain a ms old new where [simp]: "am = (a, ms)" "on = (old, new)" by (cases am; cases on)
  from assms(2) obtain orig par gc where at: "rp_commits rp (ra_oid a) = Some orig" "rp_commits rp parent = Some par"
      "rp_commits rp new = Some gc" and old: "old = ra_oid a"
    by (auto simp: rewritten_one_def split: option.splits)
  note at' = at [THEN grows_lookup [OF assms(1)]]
  from assms(2) show ?thesis
    using carried_grows [OF assms(1)] by (auto simp: rewritten_one_def at at' old)
qed

text \<open>One action that neither melds nor drops, where it succeeds.\<close>

lemma step_finishes:
  assumes "a = pl_actions p ! i" and "ra_type a \<noteq> Drop" and "\<not> melds a"
  shows "rebase_step lib dry p i st =
    bindr (failing st (bindr (lookup_commit lib (rs_repo st) (ra_oid a)) (\<lambda>original.
             bindr (cherry_pick_tree lib (rs_repo st) original (rs_parent st)) (\<lambda>t.
             bindr (apply_modifications lib t (get_modifications p i)) (\<lambda>t'. Inr (original, t'))))))
      (\<lambda>(original, t). finish_action lib dry a (new_text a original) (commit_author original) t
         (if ra_type a = Edit then st\<lparr>rs_warnings := rs_warnings st @ [edit_warning a]\<rparr> else st))"
  using assms by (cases "ra_type a") (auto simp: rebase_step_def Let_def melds_def new_text_def intro!: arg_cong [where f = "bindr _"])

lemma step_rewrites:
  assumes step: "rebase_step lib False p i st = Inr st'"
    and a: "a = pl_actions p ! i" "ra_type a \<noteq> Drop" "\<not> melds a"
    and st: "rs_pending st = []" "rp_commits (rs_repo st) (fst (rs_parent st)) = Some (snd (rs_parent st))"
    and lib: "content_addressed lib" "store_ok lib (rs_repo st)"
  shows "grows lib (rs_repo st) (rs_repo st') \<and> rs_pending st' = []
    \<and> rp_commits (rs_repo st') (fst (rs_parent st')) = Some (snd (rs_parent st'))
    \<and> (\<exists>on. rs_mapping st' = rs_mapping st @ [on] \<and> snd on = fst (rs_parent st')
          \<and> rewritten_one lib (rs_repo st') (fst (rs_parent st)) (a, get_modifications p i) on)"
proof -
  from step a obtain original t0 t where orig: "lookup_commit lib (rs_repo st) (ra_oid a) = Inr original"
    and t0: "cherry_pick_tree lib (rs_repo st) original (rs_parent st) = Inr t0"
    and t: "apply_modifications lib t0 (get_modifications p i) = Inr t"
    and fin: "finish_action lib False a (new_text a original) (commit_author original) t
        (if ra_type a = Edit then st\<lparr>rs_warnings := rs_warnings st @ [edit_warning a]\<rparr> else st) = Inr st'"
    by (auto simp: step_finishes [OF a] bindr_Inr failing_Inr)
  define st1 where "st1 = (if ra_type a = Edit then st\<lparr>rs_warnings := rs_warnings st @ [edit_warning a]\<rparr> else st)"
  have st1: "rs_repo st1 = rs_repo st" "rs_parent st1 = rs_parent st" "rs_pending st1 = []" "rs_mapping st1 = rs_mapping st"
    using st(1) by (simp_all add: st1_def)
  from fin [folded st1_def] st1 obtain sig i' rp where True
    and made: "create_commit lib (rs_repo st) (new_text a original) t [fst (rs_parent st)] (commit_author original) sig
        = Inr (i', rp)"
    and st': "st' = (record_commit a i' (st1\<lparr>rs_repo := rp\<rparr>))\<lparr>rs_parent := (i', the (rp_commits rp i'))\<rparr>"
    and new: "rp_commits rp i' \<noteq> None"
    by (auto simp: finish_action_def Let_def bindr_Inr failing_Inr lookup_commit_Inr)
  have g: "grows lib (rs_repo st) rp" by (rule create_grows [OF lib made])
  from made obtain au co where au: "gl_signature lib (commit_author original) = Inr au"
    and rp: "rp_commits rp i' = Some \<lparr>gc_tree = t, gc_parents = [fst (rs_parent st)],
        gc_message = c_str (new_text a original), gc_author = au, gc_committer = co\<rparr>"
    by (rule create_commit_Inr) simp
  note pick = t0 [THEN carried_from]
  from orig obtain gc where gc: "rp_commits (rs_repo st) (ra_oid a) = Some gc" "original = (ra_oid a, gc)"
    by (auto simp: lookup_commit_Inr)
  have "rewritten_one lib rp (fst (rs_parent st)) (a, get_modifications p i) (ra_oid a, i')"
    using grows_lookup [OF g gc(1)] grows_lookup [OF g st(2)] rp au gc(2) apply_modifications_modified [OF t]
      carried_grows [OF g pick]
    by (auto simp: rewritten_one_def commit_author_def)
  with g st1 new show ?thesis
    unfolding st' by (auto simp: record_commit_def)
qed

lemma step_drop: "ra_type (pl_actions p ! i) = Drop \<Longrightarrow> rebase_step lib dry p i st = Inr st"
  by (simp add: rebase_step_def Let_def)

lemma rewritten_grows:
  "grows lib rp rp' \<Longrightarrow> rewritten lib rp parent ams ons \<Longrightarrow> rewritten lib rp' parent ams ons"
  by (induction lib rp parent ams ons rule: rewritten.induct) (auto intro: rewritten_one_grows)

lemma loop_rewrites:
  assumes "rebase_loop lib False go p is st = Inr st'"
    and "\<And>i. i \<in> set is \<Longrightarrow> \<not> melds (pl_actions p ! i)"
    and "rs_pending st = []" and "rp_commits (rs_repo st) (fst (rs_parent st)) = Some (snd (rs_parent st))"
    and lib: "content_addressed lib" and "store_ok lib (rs_repo st)"
  shows "\<exists>ons. rs_mapping st' = rs_mapping st @ ons
    \<and> fst (rs_parent st') = last (fst (rs_parent st) # map snd ons)
    \<and> rewritten lib (rs_repo st') (fst (rs_parent st))
        (kept (map (\<lambda>i. (pl_actions p ! i, get_modifications p i)) is)) ons"
  using assms(1-4,6)
proof (induction "is" arbitrary: st)
  case Nil
  then show ?case by (auto simp: kept_def)
next
  case (Cons i "is")
  then obtain st1 where step: "rebase_step lib False p i st = Inr st1"
    and rest: "rebase_loop lib False go p is st1 = Inr st'"
    by (auto simp: bindr_Inr split: if_splits)
  let ?a = "pl_actions p ! i"
  show ?case
  proof (cases "ra_type ?a = Drop")
    case True
    with step have "st1 = st" by (simp add: step_drop)
    with Cons.IH [OF rest] Cons.prems True show ?thesis by (simp add: kept_def)
  next
    case False
    obtain on where g: "grows lib (rs_repo st) (rs_repo st1)" and st1: "rs_pending st1 = []"
        "rp_commits (rs_repo st1) (fst (rs_parent st1)) = Some (snd (rs_parent st1))"
        "rs_mapping st1 = rs_mapping st @ [on]" "snd on = fst (rs_parent st1)"
      and one: "rewritten_one lib (rs_repo st1) (fst (rs_parent st)) (?a, get_modifications p i) on"
      using step_rewrites [OF step refl False _ Cons.prems(3,4) lib Cons.prems(5)] Cons.prems(2) by auto
    from g Cons.prems(5) have ok: "store_ok lib (rs_repo st1)" by (simp add: grows_def)
    from Cons.IH [OF rest _ st1(1,2) ok] Cons.prems(2) obtain ons where
      ons: "rs_mapping st' = rs_mapping st1 @ ons" "fst (rs_parent st') = last (fst (rs_parent st1) # map snd ons)"
      and rw: "rewritten lib (rs_repo st') (fst (rs_parent st1))
        (kept (map (\<lambda>i. (pl_actions p ! i, get_modifications p i)) is)) ons" by auto
    from loop_grows [OF lib ok, of False go p "is"] rest
    have "grows lib (rs_repo st1) (rs_repo st')" by simp
    with one have "rewritten_one lib (rs_repo st') (fst (rs_parent st)) (?a, get_modifications p i) on"
      by (rule rewritten_one_grows [rotated])
    with ons rw st1 False show ?thesis
      by (intro exI [of _ "on # ons"]) (auto simp: kept_def)
  qed
qed

text \<open>
  C9. A rebase without squashes and fixups writes the history its plan asks for: if it succeeds, the mapping
  lists one new commit for each action that is not a drop, in order; the first has the target as its only
  parent and each other the one before it; each has its action's message, its original's author, and the
  tree of its original's change merged onto that parent, with the action's modifications made to it; and the new
  head is the last of them. A modification here does what the code makes of it: a dropped or kept name is an entry
  of the top level, whole, whoever changed it; hunks stay as they are; a file added in a directory replaces the tree.
\<close>

theorem rebase_writes_the_plan:
  assumes "content_addressed lib" and "store_ok lib rp" and "list_all (\<lambda>a. \<not> melds a) (pl_actions p)"
    and "execute lib False go p rp = (r, rp')" and "rr_success r"
  shows "rewritten lib rp' (pl_onto p) (kept (paired p)) (rr_mapping r)
    \<and> rr_new_head r = last (pl_onto p # map snd (rr_mapping r))"
proof (cases "plan_size p = 0")
  case True
  with assms(4,5) show ?thesis
    by (auto simp: execute_def failed_rebase_def paired_def kept_def split: list.splits)
next
  case False
  with assms(4,5) obtain onto st where onto: "lookup_commit lib rp (pl_onto p) = Inr onto"
    and loop: "rebase_loop lib False go p [0..<plan_size p] (start_state rp onto) = Inr st"
    and r: "rr_new_head r = fst (rs_parent st)" "rr_mapping r = rs_mapping st" "rp' = rs_repo st"
    by (auto simp: execute_def failed_rebase_def split: list.splits sum.splits)
  have "\<not> melds (pl_actions p ! i)" if "i \<in> set [0..<plan_size p]" for i
    using that assms(3) by (simp add: list_all_length plan_size_def)
  from loop_rewrites [OF loop this] onto assms(1,2) show ?thesis
    by (auto simp: start_state_def lookup_commit_Inr r paired_def)
qed

section \<open>A repository to run it on\<close>

text \<open>Four commits, each adding a file, and the ids of the commits the runs below make.\<close>

definition sample_commit :: "oid list \<Rightarrow> string \<Rightarrow> string list \<Rightarrow> git_commit" where
  "sample_commit parents msg names =
     \<lparr>gc_tree = map (\<lambda>n. (n, Blob 0 n)) names, gc_parents = parents, gc_message = msg, gc_author = demo_sig,
      gc_committer = demo_sig\<rparr>"

definition sample_objects :: "(oid \<times> git_commit) list" where
  "sample_objects =
     [(''1'', sample_commit [] ''R'' [''a'']), (''2'', sample_commit [''1''] ''A'' [''a'', ''b'']),
      (''3'', sample_commit [''2''] ''B'' [''a'', ''b'', ''c'']), (''4'', sample_commit [''3''] ''C'' [''a'', ''b'', ''c'', ''d'']),
      (''5'', sample_commit [''2''] ''A'' [''a'', ''b'', ''d'']), (''6'', sample_commit [''1''] ''Q'' [''a'', ''c''])]"

definition sample_ids :: "git_commit \<Rightarrow> git_failure + oid" where
  "sample_ids c =
     (case find (\<lambda>(_, d). d = c) sample_objects of Some (i, _) \<Rightarrow> Inr i | None \<Rightarrow> Inl demo_failure)"

definition sample_lib :: git_lib where
  "sample_lib = demo_lib\<lparr>gl_commit := sample_ids\<rparr>"

definition sample_repo :: repository where
  "sample_repo = \<lparr>rp_commits = map_of (take 4 sample_objects), rp_refs = [''refs/heads/m'' \<mapsto> ''4''],
     rp_head = ''refs/heads/m''\<rparr>"

definition sample_action :: "action_type \<Rightarrow> oid \<Rightarrow> rebase_action" where
  "sample_action ty i = \<lparr>ra_type = ty, ra_oid = i, ra_message = [], ra_new = (if ty = Reword then Some ''Q'' else None)\<rparr>"

definition sample_plan :: "rebase_action list \<Rightarrow> rebase_plan" where
  "sample_plan as = \<lparr>pl_onto = ''1'', pl_actions = as, pl_mods = []\<rparr>"

lemma sample_content_addressed: "content_addressed sample_lib"
proof -
  have "c = c'" if "sample_ids c = Inr i" "sample_ids c' = Inr i" for c c' i
  proof -
    from that have "(i, c) \<in> set sample_objects" "(i, c') \<in> set sample_objects"
      by (auto simp: sample_ids_def find_Some_iff split: option.splits) (metis nth_mem)+
    moreover have "distinct (map fst sample_objects)" by code_simp
    ultimately show "c = c'" by (meson eq_key_imp_eq_value)
  qed
  then show ?thesis by (auto simp: content_addressed_def sample_lib_def)
qed

lemma sample_store: "store_ok sample_lib sample_repo"
proof -
  have "list_all (\<lambda>(i, c). gl_commit sample_lib c = Inr i) (take 4 sample_objects)" by code_simp
  then show ?thesis
    by (auto simp: store_ok_def sample_repo_def list_all_iff dest!: map_of_SomeD)
qed

theorem rebase_only_adds_witness:
  "let (r, rp) = execute sample_lib False (\<lambda>_. True) (sample_plan [sample_action Drop ''2'', sample_action Reword ''3'']) sample_repo
   in rr_success r \<and> rp_commits sample_repo \<subseteq>\<^sub>m rp_commits rp \<and> rp_refs rp = rp_refs sample_repo"
proof -
  let ?x = "execute sample_lib False (\<lambda>_. True) (sample_plan [sample_action Drop ''2'', sample_action Reword ''3'']) sample_repo"
  have "rr_success (fst ?x)" by code_simp
  with rebase_only_adds [OF sample_content_addressed sample_store, of False "\<lambda>_. True" _ "fst ?x" "snd ?x"]
  show ?thesis by (simp add: case_prod_beta Let_def)
qed

theorem rebase_writes_the_plan_witness:
  "let p = sample_plan [sample_action Drop ''2'', sample_action Reword ''3''];
       (r, rp) = execute sample_lib False (\<lambda>_. True) p sample_repo
   in rewritten sample_lib rp ''1'' (kept (paired p)) [(''3'', ''6'')] \<and> rr_new_head r = ''6''"
proof -
  let ?p = "sample_plan [sample_action Drop ''2'', sample_action Reword ''3'']"
  let ?x = "execute sample_lib False (\<lambda>_. True) ?p sample_repo"
  have no_melds: "list_all (\<lambda>a. \<not> melds a) (pl_actions ?p)" and "rr_success (fst ?x)"
    and "rr_mapping (fst ?x) = [(''3'', ''6'')]" and "pl_onto ?p = ''1''"
    by code_simp+
  with rebase_writes_the_plan [OF sample_content_addressed sample_store no_melds, of "\<lambda>_. True" "fst ?x" "snd ?x"]
  show ?thesis by (simp add: case_prod_beta Let_def)
qed

text \<open>
  Melding keeps what it should remove and loses what it should keep. A fixup adds its commit on top of the one it
  was to be melded into, which stays in the history under the same message; and of two fixups in a row the
  first one's change is gone, although the mapping says both are in the new commit.
\<close>

theorem melding_keeps_and_loses:
  "let (r, rp) = execute sample_lib False (\<lambda>_. True)
         (sample_plan [sample_action Pick ''2'', sample_action Fixup ''3'', sample_action Fixup ''4'']) sample_repo
   in rr_success r \<and> rr_mapping r = [(''2'', ''2''), (''4'', ''5''), (''3'', ''5''), (''4'', ''5'')]
      \<and> map_option gc_parents (rp_commits rp ''5'') = Some [''2''] \<and> map_option gc_parents (rp_commits rp ''2'') = Some [''1'']
      \<and> map_option gc_message (rp_commits rp ''5'') = Some ''A'' \<and> map_option gc_message (rp_commits rp ''2'') = Some ''A''
      \<and> map_option (\<lambda>c. entry_by_path (gc_tree c) ''c'') (rp_commits rp ''3'') = Some (Some (Blob 0 ''c''))
      \<and> map_option (\<lambda>c. entry_by_path (gc_tree c) ''c'') (rp_commits rp ''5'') = Some None"
  by code_simp

text \<open>
  \<^verbatim>\<open>drop_commit\<close> says it rebases the commit's children onto its parent. It runs a plan with the drop alone, which
  makes nothing: the result is the parent itself, whatever came after the commit.
\<close>

lemma drop_commit_is_the_parent:
  assumes "parent_id c 0 = Inr i" and "\<not> is_zero i" and "rp_commits rp i \<noteq> None"
  shows "\<exists>r. drop_commit lib oc rp c = Inr (r, rp) \<and> rr_success r \<and> rr_new_head r = i \<and> rr_mapping r = []"
proof -
  from assms(1) have "gc_parents (snd c) \<noteq> []" by (auto simp: parent_id_def split: if_splits)
  moreover from assms(3) obtain g where "rp_commits rp i = Some g" by blast
  ultimately show ?thesis
    using assms by (simp add: drop_commit_def execute_def plan_add_def new_plan_def action_drop_def action_of_def
        validation_errors_def plan_size_def lookup_commit_def step_drop start_state_def)
qed

end
