(* ===== verification/Logging.thy ===== *)
theory Logging
  imports Json
begin

text \<open>
  The diagnostics log of \<^verbatim>\<open>agent/main.cpp\<close>: levels, \<^verbatim>\<open>logWrite\<close> with its rotation, \<^verbatim>\<open>redactParams\<close>, and what
  \<^verbatim>\<open>logs.tail\<close> hands out. The time stamp of a line is a parameter (\<^verbatim>\<open>strftime\<close>).
\<close>

section \<open>Levels\<close>

datatype log_level = LogOff | LogError | LogWarn | LogInfo | LogDebug | LogTrace

fun level_number :: "log_level \<Rightarrow> nat" where
  "level_number LogOff = 0"
| "level_number LogError = 1"
| "level_number LogWarn = 2"
| "level_number LogInfo = 3"
| "level_number LogDebug = 4"
| "level_number LogTrace = 5"

definition parseLogLevel :: "string \<Rightarrow> log_level" where
  "parseLogLevel s =
     (if s = ''error'' then LogError else if s = ''warn'' then LogWarn else if s = ''info'' then LogInfo
      else if s = ''debug'' then LogDebug else if s = ''trace'' then LogTrace else LogOff)"

definition logLevelName :: "nat \<Rightarrow> string" where
  "logLevelName l =
     (if l = 1 then ''ERROR'' else if l = 2 then ''WARN'' else if l = 3 then ''INFO''
      else if l = 4 then ''DEBUG'' else if l = 5 then ''TRACE'' else ''OFF'')"

lemma level_names: "ascii_lower (logLevelName (level_number (parseLogLevel s))) = s \<or> parseLogLevel s = LogOff"
proof -
  have "ascii_lower (logLevelName 1) = ''error''" "ascii_lower (logLevelName 2) = ''warn''"
    "ascii_lower (logLevelName 3) = ''info''" "ascii_lower (logLevelName 4) = ''debug''"
    "ascii_lower (logLevelName 5) = ''trace''"
    by code_simp+
  then show ?thesis by (simp add: parseLogLevel_def)
qed

section \<open>Writing\<close>

text \<open>
  The log: its path (empty when there is none), the level, the file's content (\<open>None\<close> when it does not
  exist), and the rotated backup.
\<close>

record agent_log =
  lg_path :: string
  lg_level :: nat
  lg_file :: "string option"
  lg_backup :: "string option"

definition kLogRotateBytes :: nat where "kLogRotateBytes = 8 * 1024 * 1024"

definition logOn :: "log_level \<Rightarrow> agent_log \<Rightarrow> bool" where
  "logOn l lg \<longleftrightarrow> lg_path lg \<noteq> [] \<and> level_number l \<le> lg_level lg"

definition log_line :: "log_level \<Rightarrow> string \<Rightarrow> string \<Rightarrow> string" where
  "log_line l ts msg = ts @ '' '' @ logLevelName (level_number l) @ '' '' @ msg @ [CHR 0x0A]"

text \<open>
  What the file system does with a line: the file cannot be opened, takes only the first \<open>n\<close> bytes, or takes
  the line, and then a rename works or does not.
\<close>

datatype log_io = NoOpen | ShortWrite nat | Written bool

definition held :: "string option \<Rightarrow> string" where
  "held f = (case f of Some c \<Rightarrow> c | None \<Rightarrow> [])"

definition logWrite :: "log_io \<Rightarrow> log_level \<Rightarrow> string \<Rightarrow> string \<Rightarrow> agent_log \<Rightarrow> agent_log" where
  "logWrite io l ts msg lg =
     (if \<not> logOn l lg then lg
      else case io of
        NoOpen \<Rightarrow> lg
      | ShortWrite n \<Rightarrow> lg\<lparr>lg_file := Some (held (lg_file lg) @ take n (log_line l ts msg))\<rparr>
      | Written renames \<Rightarrow>
          (let content = held (lg_file lg) @ log_line l ts msg
           in if kLogRotateBytes \<le> length content \<and> renames then lg\<lparr>lg_file := None, lg_backup := Some content\<rparr>
              else lg\<lparr>lg_file := Some content\<rparr>))"

text \<open>Everything the log still holds, oldest first.\<close>

definition log_text :: "agent_log \<Rightarrow> string" where
  "log_text lg = held (lg_backup lg) @ held (lg_file lg)"

definition write_all :: "(log_io \<times> log_level \<times> string \<times> string) list \<Rightarrow> agent_log \<Rightarrow> agent_log" where
  "write_all ws lg = fold (\<lambda>(io, l, ts, msg). logWrite io l ts msg) ws lg"

definition log_bounded :: "nat \<Rightarrow> agent_log \<Rightarrow> bool" where
  "log_bounded n lg \<longleftrightarrow> length (held (lg_file lg)) < kLogRotateBytes \<and> length (held (lg_backup lg)) < kLogRotateBytes + n"

definition healthy :: "log_io \<Rightarrow> bool" where
  "healthy io \<longleftrightarrow> io = NoOpen \<or> io = Written True"

lemma held_simps [simp]: "held None = []" "held (Some c) = c"
  by (simp_all add: held_def)

lemma rotate_pos: "0 < kLogRotateBytes"
  by (simp add: kLogRotateBytes_def)

lemma logWrite_bounded:
  assumes "log_bounded n lg" and "length (log_line l ts msg) \<le> n" and "healthy io"
  shows "log_bounded n (logWrite io l ts msg lg)"
  using assms rotate_pos by (auto simp: log_bounded_def logWrite_def Let_def healthy_def)

lemma log_text_write:
  "logOn l lg \<Longrightarrow> suffix (log_line l ts msg) (log_text (logWrite (Written r) l ts msg lg))"
  by (simp add: logWrite_def Let_def log_text_def suffix_def)

text \<open>
  The log never fills the disk, and never loses its newest line: whatever is written, of lines up to \<open>n\<close>
  bytes, the file stays below the rotation size and the one backup below that plus \<open>n\<close>, as long as the
  rename works; and a line that was just written is the end of what the two hold.
\<close>

theorem log_never_fills:
  assumes "log_bounded n lg" and "list_all (\<lambda>(io, l, ts, msg). healthy io \<and> length (log_line l ts msg) \<le> n) ws"
  shows "log_bounded n (write_all ws lg)
    \<and> (logOn l (write_all ws lg) \<longrightarrow> suffix (log_line l ts msg) (log_text (logWrite (Written r) l ts msg (write_all ws lg))))"
proof -
  have "log_bounded n (write_all ws lg)"
    using assms
  proof (induction ws arbitrary: lg)
    case (Cons w ws)
    obtain io l ts msg where w: "w = (io, l, ts, msg)" by (cases w)
    with Cons.prems have "log_bounded n (logWrite io l ts msg lg)" by (simp add: logWrite_bounded)
    with Cons w show ?case by (simp add: write_all_def)
  qed (simp add: write_all_def)
  then show ?thesis using log_text_write by blast
qed

definition new_log :: "string \<Rightarrow> log_level \<Rightarrow> agent_log" where
  "new_log path l = \<lparr>lg_path = path, lg_level = level_number l, lg_file = None, lg_backup = None\<rparr>"

theorem log_never_fills_witness:
  "log_bounded 100 (write_all [(Written True, LogInfo, ''t'', ''started'')] (new_log ''/l'' LogInfo))"
proof -
  have "log_bounded 100 (new_log ''/l'' LogInfo)"
    using rotate_pos by (simp add: log_bounded_def new_log_def)
  moreover have "length (log_line LogInfo ''t'' ''started'') \<le> 100"
    by code_simp
  then have "list_all (\<lambda>(io, l, ts, msg). healthy io \<and> length (log_line l ts msg) \<le> 100)
      [(Written True, LogInfo, ''t'', ''started'')]"
    by (simp add: healthy_def)
  ultimately show ?thesis by (rule log_never_fills [THEN conjunct1])
qed

section \<open>Redaction\<close>

definition secret_keys :: "string list" where
  "secret_keys = [''value'', ''secret'', ''password'', ''token'']"

definition content_keys :: "string list" where
  "content_keys = [''fileContent'', ''content'']"

definition redact_field :: "(string \<Rightarrow> string) \<Rightarrow> string \<Rightarrow> json \<Rightarrow> json" where
  "redact_field f k c = (case str_field k c of Some s \<Rightarrow> jset k (JStr (f s)) c | None \<Rightarrow> c)"

definition secret_text :: "string \<Rightarrow> string" where
  "secret_text s = ''<redacted>''"

definition content_text :: "string \<Rightarrow> string" where
  "content_text s = ''<redacted '' @ nat_text (length s) @ ''B>''"

definition redactParams :: "nat \<Rightarrow> json \<Rightarrow> json" where
  "redactParams level p =
     (if \<not> is_jobject p then p
      else (let c = fold (redact_field secret_text) secret_keys p
            in if level_number LogTrace \<le> level then c else fold (redact_field content_text) content_keys c))"

lemma jfind_redact_field:
  "is_jobject c \<Longrightarrow> jfind k' (redact_field f k c) =
     (if k' = k then map_option (\<lambda>v. case jstring v of Some s \<Rightarrow> JStr (f s) | None \<Rightarrow> v) (jfind k c) else jfind k' c)"
  by (cases "jfind k c") (auto simp: redact_field_def str_field_def split: option.split)

lemma redact_field_object [simp]: "is_jobject (redact_field f k c) = is_jobject c"
  by (simp add: redact_field_def split: option.split)

lemma jfind_fold_redact:
  "is_jobject c \<Longrightarrow> distinct ks \<Longrightarrow> is_jobject (fold (redact_field f) ks c)
    \<and> jfind k (fold (redact_field f) ks c) =
        (if k \<in> set ks then map_option (\<lambda>v. case jstring v of Some s \<Rightarrow> JStr (f s) | None \<Rightarrow> v) (jfind k c)
         else jfind k c)"
proof (induction ks arbitrary: c)
  case (Cons k0 ks)
  then have "is_jobject (redact_field f k0 c)" by simp
  from Cons.IH [OF this] Cons.prems show ?case
    by (cases "k = k0") (simp_all add: jfind_redact_field)
qed simp

definition redacted :: "nat \<Rightarrow> string \<Rightarrow> json \<Rightarrow> json" where
  "redacted level k v =
     (case v of
        JStr s \<Rightarrow> if k \<in> set secret_keys then JStr (secret_text s)
                 else if k \<in> set content_keys \<and> level < level_number LogTrace then JStr (content_text s) else v
      | _ \<Rightarrow> v)"

text \<open>
  Redaction is exact: in the parameters that go into the log, at every level, a string under a secret's key is
  the constant text, below trace a file body is its length, and every other field of the request is there
  as it was.
\<close>

theorem redaction_exact:
  assumes "is_jobject p"
  shows "jfind k (redactParams level p) = map_option (redacted level k) (jfind k p)"
proof -
  have d: "distinct secret_keys" "distinct content_keys" "set secret_keys \<inter> set content_keys = {}"
    by code_simp+
  let ?c = "fold (redact_field secret_text) secret_keys p"
  note one = jfind_fold_redact [OF assms d(1), of secret_text k]
  then have c: "is_jobject ?c" by (rule conjunct1)
  note two = jfind_fold_redact [OF c d(2), of content_text k]
  have other: "k \<notin> set content_keys" if "k \<in> set secret_keys"
    using that d(3) by blast
  show ?thesis
  proof (cases "jfind k p")
    case None
    with one two assms show ?thesis by (simp add: redactParams_def Let_def)
  next
    case (Some v)
    with one two assms other show ?thesis
      by (cases v; cases "k \<in> set secret_keys"; cases "k \<in> set content_keys")
        (simp_all add: redactParams_def Let_def redacted_def not_le)
  qed
qed

theorem redaction_exact_witness:
  "jfind ''value'' (redactParams 4 (JObj [(''credId'', JStr ''c-1''), (''value'', JStr ''hunter2'')])) = Some (JStr ''<redacted>'')"
proof -
  have "is_jobject (JObj [(''credId'', JStr ''c-1''), (''value'', JStr ''hunter2'')])" by simp
  note redaction_exact [OF this, of "''value''" 4]
  moreover have "jfind ''value'' (JObj [(''credId'', JStr ''c-1''), (''value'', JStr ''hunter2'')]) = Some (JStr ''hunter2'')"
    "redacted 4 ''value'' (JStr ''hunter2'') = JStr ''<redacted>''"
    by code_simp+
  ultimately show ?thesis by (simp only: option.map)
qed

text \<open>The log policy withholds contents, but not those that travel encoded: these are no listed keys.\<close>

lemma encoded_contents_are_logged:
  "redactParams 4 (JObj [(''contentBase64'', JStr ''c2VjcmV0'')]) = JObj [(''contentBase64'', JStr ''c2VjcmV0'')]"
  by code_simp

section \<open>logs.tail\<close>

definition tail_limit :: "json \<Rightarrow> nat" where
  "tail_limit params =
     nat (min (1024 * 1024) (max 0 (case int_field ''maxBytes'' params of Some i \<Rightarrow> to_int64 i | None \<Rightarrow> 65536)))"

definition handleLogsTail :: "agent_log \<Rightarrow> json \<Rightarrow> reply" where
  "handleLogsTail lg params =
     (if lg_path lg = [] then Result (JObj [(''enabled'', JBool False)])
      else (let content = (case lg_file lg of Some c \<Rightarrow> c | None \<Rightarrow> []);
                txt = drop (length content - tail_limit params) content
            in Result (JObj [(''enabled'', JBool True), (''path'', JStr (lg_path lg)),
                 (''level'', JStr (logLevelName (lg_level lg))), (''bytes'', JInt (int (length txt))),
                 (''text'', JStr txt)])))"

end
