(* ===== verification/Hello.thy ===== *)
theory Hello
  imports Respond WorkQueue FsMeta Logging
begin

text \<open>
  The meta methods of \<^verbatim>\<open>agent/main.cpp\<close>: \<^verbatim>\<open>meta.hello\<close> with what it negotiates, \<^verbatim>\<open>meta.capabilities\<close>,
  \<^verbatim>\<open>meta.stat\<close>, \<^verbatim>\<open>meta.debug\<close>, and \<^verbatim>\<open>fs.selftest\<close>. The version string is a macro of the build and so a
  parameter (\<open>ver\<close>).
\<close>

section \<open>meta.hello\<close>

definition kProtocolVersion :: int where "kProtocolVersion = 1"

definition offers :: "(json \<Rightarrow> bool) \<Rightarrow> string \<Rightarrow> json \<Rightarrow> bool" where
  "offers P k params = (case array_field k params of Some vs \<Rightarrow> list_ex P vs | None \<Rightarrow> False)"

fun is_our_version :: "json \<Rightarrow> bool" where
  "is_our_version (JInt i) = (to_int32 i = kProtocolVersion)"
| "is_our_version _ = False"

definition speaks_ours :: "json \<Rightarrow> bool" where
  "speaks_ours params = offers is_our_version ''supportedProtocolVersions'' params"

definition wants_deflate :: "json \<Rightarrow> bool" where
  "wants_deflate params = offers (\<lambda>e. jstring e = Some ''deflate'') ''encodings'' params"

definition negotiated_cap :: "json \<Rightarrow> nat" where
  "negotiated_cap params =
     (case int_field ''frameCap'' params of
        None \<Rightarrow> kDefaultFrameCap
      | Some i \<Rightarrow> nat (min (int kMaxFrameCap) (max (int kMinFrameCap) (to_int64 i))))"

definition base_capabilities :: "string list" where
  "base_capabilities =
    [''git.headSha'', ''git.repoMetadata'', ''git.remotes'', ''git.branches'', ''git.commits'',
     ''git.aheadBehind'', ''git.diffForCommit'', ''git.workingTreeDiff'', ''git.stagedDiff'',
     ''git.checkoutBranch'', ''git.showFile'', ''git.diff'', ''git.isAncestor'', ''fs.readFile'',
     ''fs.listDirectory'', ''fs.stat'', ''fs.statBatch'', ''lsp.gotoDefinition'', ''lsp.findReferences'',
     ''lsp.hover'', ''lsp.documentSymbols'', ''lsp.workspaceSymbols'', ''lsp.foldingRange'',
     ''lsp.workspaceInfo'', ''lsp.tunnelOpen'', ''lsp.tunnelSend'', ''lsp.tunnelClose'', ''meta.debug'',
     ''meta.stat'', ''meta.capabilities'', ''fs.selftest'', ''logs.tail'', ''index.create'', ''index.run'',
     ''index.cancel'', ''index.destroy'', ''watch.head'', ''watch.stop'', ''git.clone'', ''git.fetch'',
     ''git.ensureRepository'', ''cred.provide'', ''diffcache.get'', ''diffcache.put'', ''diffcache.prune'']"

definition write_methods :: "string list" where
  "write_methods = [''fs.writeFile'', ''fs.mkdir'', ''fs.delete'', ''fs.rename'', ''fs.copy'', ''fs.chmod'']"

definition hello_capabilities :: "agent_config \<Rightarrow> string list" where
  "hello_capabilities cfg =
     base_capabilities
     @ (if g_gitExecAllowed cfg \<noteq> [] then [''git.exec'', ''git.spawn'', ''git.signal''] else [])
     @ (if g_allowWrite cfg then write_methods else [])"

definition kFeatures :: "string list" where
  "kFeatures =
    [''hello.facts'', ''fs.watch'', ''fs.changed.ordered'', ''fs.listDirectory.self'', ''fs.mtimeNs'',
     ''fs.writeFile.ifMtimeNs'', ''fs.listDirectory.maxEntries'', ''fs.readFile.maxBytes'',
     ''git.exec.stdin'', ''git.exec.env'', ''rpc.deflate'', ''lsp.tunnelSend.eof'']"

definition jstrs :: "string list \<Rightarrow> json" where
  "jstrs xs = JArr (map JStr xs)"

definition addHelloFacts :: "agent_config \<Rightarrow> json \<Rightarrow> json" where
  "addHelloFacts cfg hello =
     jset ''features'' (jstrs kFeatures)
      (jset ''config'' (JObj [(''loaded'', jstrs (g_configLoaded cfg)), (''unreadable'', jstrs (g_configUnreadable cfg))])
       (jset ''fileSystemAccess''
         (JObj [(''allowedRoots'', jstrs (g_allowedRoots cfg)), (''allowedRootsAsGiven'', jstrs (g_allowedRootsAsGiven cfg)),
                (''writable'', JBool (g_allowWrite cfg)), (''home'', JStr (remoteHome cfg))]) hello))"

definition hello_result :: "string \<Rightarrow> agent_config \<Rightarrow> nat \<Rightarrow> bool \<Rightarrow> json" where
  "hello_result ver cfg cap deflate =
     (let hello = addHelloFacts cfg
            (JObj [(''agentVersion'', JStr ver), (''protocolVersion'', JInt kProtocolVersion),
                   (''frameCap'', JInt (int cap)), (''capabilities'', jstrs (hello_capabilities cfg))])
      in if deflate then jset ''encoding'' (JStr ''deflate'') hello else hello)"

text \<open>
  The handler sends its own reply: plain whatever was agreed, and under the new cap. The last component is what
  has been sent; \<open>dump\<close> and \<open>z\<close> print and compress.
\<close>

definition handleHello ::
  "(json \<Rightarrow> string) \<Rightarrow> (string \<Rightarrow> string option) \<Rightarrow> string \<Rightarrow> agent_config \<Rightarrow> responder \<Rightarrow> json \<Rightarrow> transport
    \<Rightarrow> transport option" where
  "handleHello dump z ver cfg rsp params t =
     (if \<not> speaks_ours params
      then responder_error dump z False rsp KVersionMismatch (''agent speaks protocol '' @ int_text kProtocolVersion) t
      else (let cap = negotiated_cap params;
                deflate = wants_deflate params
            in responder_result dump z True rsp (hello_result ver cfg cap deflate)
                 (t\<lparr>g_frameCap := cap, g_deflate := deflate\<rparr>)))"

definition cap_ok :: "transport \<Rightarrow> bool" where
  "cap_ok t \<longleftrightarrow> kMinFrameCap \<le> g_frameCap t \<and> g_frameCap t \<le> kMaxFrameCap"

lemma cap_ok_initial: "cap_ok initial_transport"
  by (simp add: cap_ok_def initial_transport_def kMinFrameCap_def kMaxFrameCap_def kDefaultFrameCap_def)

lemma cap_ok_chunks: "cap_ok t \<Longrightarrow> 2 \<le> g_frameCap t"
  by (simp add: cap_ok_def kMinFrameCap_def)

lemma negotiated_cap_range: "kMinFrameCap \<le> negotiated_cap params \<and> negotiated_cap params \<le> kMaxFrameCap"
proof -
  have "kMinFrameCap \<le> kMaxFrameCap" "kMinFrameCap \<le> kDefaultFrameCap" "kDefaultFrameCap \<le> kMaxFrameCap"
    by (simp_all add: kMinFrameCap_def kMaxFrameCap_def kDefaultFrameCap_def)
  then show ?thesis
    by (auto simp: negotiated_cap_def split: option.split)
qed

lemma negotiated_cap_agreed:
  assumes "int_field ''frameCap'' params = Some (int n)" and "kMinFrameCap \<le> n" and "n \<le> kMaxFrameCap"
  shows "negotiated_cap params = n"
proof -
  have "to_int64 (int n) = int n"
    using assms(3) by (intro to_int64_small) (simp_all add: kMaxFrameCap_def)
  with assms show ?thesis by (simp add: negotiated_cap_def)
qed

text \<open>What one response adds to its lane, under any cap that was negotiated.\<close>

lemma plain_packed [simp]: "packed_envelope z deflate True env = None"
  by (simp add: packed_envelope_def)

lemma respond_frames_plain:
  assumes "2 \<le> cap"
  shows "respond_frames dump z cap deflate True rid env =
    Some (if length env \<le> cap then [env]
          else map dump (chunk_notes rid 0 (pieces (max_data cap) (base64Encode env)) @ [chunk_final rid (length env) False]))"
  using respond_frames_chunked [OF assms, of None z deflate True env dump rid]
  by (auto simp: respond_frames_def)

lemma respond_frames_total:
  assumes "2 \<le> cap"
  shows "\<exists>frames. respond_frames dump z cap deflate plain rid env = Some frames"
proof (cases "packed_envelope z deflate plain env = None \<and> length env \<le> cap")
  case True
  then show ?thesis by (simp add: respond_frames_def)
next
  case False
  then have "packed_envelope z deflate plain env \<noteq> None \<or> cap < length env" by auto
  from respond_frames_chunked [OF assms refl this] show ?thesis by blast
qed

lemma respondEnvelope_total:
  assumes "cap_ok t"
  shows "\<exists>t' frames. respondEnvelope dump z plain rid l env t = Some t'
    \<and> w_q (g_writer t') = (w_q (g_writer t))(l := w_q (g_writer t) l @ frames)
    \<and> respond_frames dump z (g_frameCap t) (g_deflate t) plain rid env = Some frames
    \<and> g_frameCap t' = g_frameCap t \<and> g_deflate t' = g_deflate t"
proof -
  from respond_frames_total [OF cap_ok_chunks [OF assms]] obtain frames where
    f: "respond_frames dump z (g_frameCap t) (g_deflate t) plain rid env = Some frames" by blast
  have "w_q (g_writer (foldl (enqueue_frame l) t frames)) = (w_q (g_writer t))(l := w_q (g_writer t) l @ frames)"
    using enqueue_frames [of l t frames] by (simp add: fun_eq_iff)
  with f enqueue_frames [of l t frames] show ?thesis
    by (auto simp: respondEnvelope_def)
qed

text \<open>
  The handshake decides the connection, safely. A client that does not list the agent's protocol version gets
  the version error and changes nothing. Any other gets a frame cap within the limits (its own if that is
  within them, so no cap can ever stop the chunk loop), compression if and only if it asked for it, and the
  reply itself uncompressed, whatever was agreed: one frame, or the pieces of its plain text.
\<close>

theorem hello_negotiates:
  assumes "cap_ok t"
  shows "\<exists>t'. handleHello dump z ver cfg rsp params t = Some t' \<and> cap_ok t' \<and>
    (let old = w_q (g_writer t) (rsp_lane rsp);
         new = w_q (g_writer t') (rsp_lane rsp)
     in if speaks_ours params
        then (let env = dump (result_envelope (rsp_id rsp) (hello_result ver cfg (g_frameCap t') (g_deflate t')))
              in g_deflate t' = wants_deflate params
               \<and> g_frameCap t' = negotiated_cap params
               \<and> new = old @ (if length env \<le> g_frameCap t' then [env]
                    else map dump (chunk_notes (rsp_id rsp) 0 (pieces (max_data (g_frameCap t')) (base64Encode env))
                           @ [chunk_final (rsp_id rsp) (length env) False])))
        else g_frameCap t' = g_frameCap t \<and> g_deflate t' = g_deflate t
           \<and> respond_frames dump z (g_frameCap t) (g_deflate t) False (rsp_id rsp)
                (dump (error_envelope (rsp_id rsp) KVersionMismatch (''agent speaks protocol '' @ int_text kProtocolVersion)))
              = Some (drop (length old) new))"
proof (cases "speaks_ours params")
  case False
  from respondEnvelope_total [OF assms, of dump z False "rsp_id rsp" "rsp_lane rsp"
      "dump (error_envelope (rsp_id rsp) KVersionMismatch (''agent speaks protocol '' @ int_text kProtocolVersion))"]
  show ?thesis
    using False assms unfolding handleHello_def responder_error_def cap_ok_def
    by (simp only: if_True if_False not_False_eq_True Let_def) (auto simp: fun_upd_def)
next
  case True
  let ?t = "t\<lparr>g_frameCap := negotiated_cap params, g_deflate := wants_deflate params\<rparr>"
  let ?env = "dump (result_envelope (rsp_id rsp) (hello_result ver cfg (negotiated_cap params) (wants_deflate params)))"
  have ok: "cap_ok ?t" using negotiated_cap_range by (simp add: cap_ok_def)
  from respondEnvelope_total [OF ok, of dump z True "rsp_id rsp" "rsp_lane rsp" ?env] obtain t' frames where
    t': "respondEnvelope dump z True (rsp_id rsp) (rsp_lane rsp) ?env ?t = Some t'"
    "w_q (g_writer t') (rsp_lane rsp) = w_q (g_writer t) (rsp_lane rsp) @ frames"
    "respond_frames dump z (negotiated_cap params) (wants_deflate params) True (rsp_id rsp) ?env = Some frames"
    "g_frameCap t' = negotiated_cap params" "g_deflate t' = wants_deflate params"
    by auto
  have "handleHello dump z ver cfg rsp params t = Some t'"
    using True t'(1) by (simp add: handleHello_def Let_def responder_result_def)
  moreover have "cap_ok t'" using ok t'(4) by (simp add: cap_ok_def)
  moreover note respond_frames_plain [OF cap_ok_chunks [OF ok], of dump z "wants_deflate params" "rsp_id rsp" ?env]
  ultimately show ?thesis
    using t'(2-5) True by (intro exI [of _ t']) (simp add: Let_def)
qed

definition demo_hello :: json where
  "demo_hello = JObj [(''supportedProtocolVersions'', JArr [JInt 1]), (''frameCap'', JInt 1),
     (''encodings'', JArr [JStr ''deflate''])]"

definition demo_responder :: responder where
  "demo_responder = \<lparr>rsp_id = JInt 1, rsp_idKey = ''1'', rsp_lane = Interactive\<rparr>"

definition demo_dump :: "json \<Rightarrow> string" where
  "demo_dump j = ''j''"

theorem hello_negotiates_witness:
  "\<exists>t'. handleHello demo_dump (\<lambda>_. None) ''1'' (initial_config None) demo_responder demo_hello initial_transport = Some t'
     \<and> g_frameCap t' = kMinFrameCap \<and> g_deflate t' \<and> w_q (g_writer t') Interactive = [''j'']"
proof -
  have d: "speaks_ours demo_hello" "wants_deflate demo_hello" "negotiated_cap demo_hello = kMinFrameCap"
    by (simp_all add: speaks_ours_def wants_deflate_def offers_def demo_hello_def array_field_def kProtocolVersion_def
        negotiated_cap_def int_field_def to_int32_def to_int64_def kMinFrameCap_def kMaxFrameCap_def)
  have q: "w_q (g_writer initial_transport) Interactive = []" "rsp_lane demo_responder = Interactive"
    by (simp_all add: initial_transport_def new_writer_def no_queues_def demo_responder_def)
  have l: "Suc 0 \<le> kMinFrameCap" "demo_dump j = ''j''" for j
    by (simp_all add: demo_dump_def kMinFrameCap_def)
  from hello_negotiates [OF cap_ok_initial, of demo_dump "\<lambda>_. None" "''1''" "initial_config None" demo_responder demo_hello]
  obtain t' where t': "handleHello demo_dump (\<lambda>_. None) ''1'' (initial_config None) demo_responder demo_hello initial_transport = Some t'"
    "g_frameCap t' = kMinFrameCap" "g_deflate t'" "w_q (g_writer t') Interactive = [''j'']"
    by (auto simp: Let_def d q l)
  then show ?thesis by blast
qed

text \<open>
  The version is compared as a C++ \<^verbatim>\<open>int\<close>: a client that speaks only \<open>2\<^sup>3\<^sup>2 + 1\<close> is taken for one that
  speaks 1. A second hello is served like the first and changes the cap under the responses in flight.
\<close>

lemma hello_accepts_wrapped_version:
  "speaks_ours (JObj [(''supportedProtocolVersions'', JArr [JInt 4294967297])])"
  by (simp add: speaks_ours_def offers_def array_field_def kProtocolVersion_def to_int32_def)

section \<open>meta.capabilities\<close>

text \<open>\<open>server_path\<close> is \<^verbatim>\<open>grc_language_server_path\<close>: a search for an installed server of each language, 1 to 8.\<close>

definition handleMetaCapabilities :: "string \<Rightarrow> (nat \<Rightarrow> string option) \<Rightarrow> agent_config \<Rightarrow> reply" where
  "handleMetaCapabilities ver server_path cfg =
     (let binaries = List.map_filter server_path [1..<9]
      in Result (JObj
        [(''agentVersion'', JStr ver), (''protocolVersion'', JInt kProtocolVersion),
         (''outboundIO'', jstrs [''stdio (jsonrpc to the Mac)'',
            ''git-fetch via the user-supplied transport (credentials brokered from the Mac)'',
            ''language-server child processes (stdio)'']),
         (''fileSystemAccess'', JObj
            [(''absolutePathsAllowed'', JBool True), (''relativeAnchoredUnderHome'', JBool True),
             (''allowedRoots'', jstrs (g_allowedRoots cfg)), (''allowedRootsAsGiven'', jstrs (g_allowedRootsAsGiven cfg)),
             (''writable'', JBool (g_allowWrite cfg)), (''home'', JStr (remoteHome cfg)),
             (''description'', JStr (''fs.readFile and fs.listDirectory resolve symlinks, then ''
                @ ''require the canonical path to lie inside a configured ''
                @ ''allowed root (--allow-root, repeatable; default $HOME). ''
                @ ''Relative paths anchor under $HOME (resolveRoot). Paths ''
                @ ''outside every allowed root fail PERMISSION_DENIED.''))]),
         (''languageServers'', JObj
            [(''binaries'', jstrs binaries),
             (''description'', JStr (''The agent spawns language-server binaries by absolute path ''
                @ ''from grc_language_server_path(); each speaks LSP over stdio ''
                @ ''to the agent and has no separate network surface.''))]),
         (''config'', JObj [(''loaded'', jstrs (g_configLoaded cfg)), (''unreadable'', jstrs (g_configUnreadable cfg))]),
         (''network'', JStr ''no outbound sockets opened by the agent itself''),
         (''selftestMethod'', JStr ''fs.selftest'')]))"

section \<open>meta.stat\<close>

record agent_load =
  ld_queue :: work_queue
  ld_sessions :: nat
  ld_tunnels :: nat
  ld_uptime :: int
  ld_serialize :: bool
  ld_level :: nat

definition handleMetaStat :: "string \<Rightarrow> agent_load \<Rightarrow> reply" where
  "handleMetaStat ver ld =
     Result (JObj
       [(''lanes'', queue_stat (ld_queue ld)), (''lspSessions'', JInt (to_int32 (int (ld_sessions ld)))),
        (''lspTunnels'', JInt (to_int32 (int (ld_tunnels ld)))), (''uptimeMs'', JInt (ld_uptime ld)),
        (''gitParallel'', JBool (\<not> ld_serialize ld)), (''logLevel'', JStr (logLevelName (ld_level ld))),
        (''agentVersion'', JStr ver)])"

section \<open>meta.debug\<close>

text \<open>
  \<open>cancelled k\<close> is the answer of \<^verbatim>\<open>g_cancel.isCancelled\<close> at the poll after \<open>k\<close> slices; \<open>mem\<close> is the longest
  string that can be allocated, beyond which \<^verbatim>\<open>std::string\<close> throws (\<open>None\<close>), which the worker answers.
\<close>

function debug_sleep :: "(nat \<Rightarrow> bool) \<Rightarrow> int \<Rightarrow> int \<Rightarrow> nat \<Rightarrow> nat option" where
  "debug_sleep cancelled sleepMs slept k =
     (if slept < sleepMs
      then (if cancelled k then None
            else debug_sleep cancelled sleepMs (slept + min 20 (sleepMs - slept)) (k + 1))
      else Some k)"
  by pat_completeness auto

termination
  by (relation "measure (\<lambda>(_, sleepMs, slept, _). nat (sleepMs - slept))") auto

declare debug_sleep.simps [simp del]

definition cancelled_reply :: reply where
  "cancelled_reply = Error KCancelled ''request cancelled''"

definition ms_field :: "string \<Rightarrow> json \<Rightarrow> int" where
  "ms_field k params = (case int_field k params of Some i \<Rightarrow> to_int64 i | None \<Rightarrow> 0)"

definition handleDebug :: "nat \<Rightarrow> (nat \<Rightarrow> bool) \<Rightarrow> responder \<Rightarrow> json \<Rightarrow> reply option" where
  "handleDebug mem cancelled rsp params =
     (case debug_sleep cancelled (ms_field ''sleepMs'' params) 0 0 of
        None \<Rightarrow> Some cancelled_reply
      | Some k \<Rightarrow>
          (if cancelled k then Some cancelled_reply
           else (let pad = nat (ms_field ''padBytes'' params)
                 in if mem < pad then None
                    else Some (Result (JObj [(''echoId'', rsp_id rsp), (''pad'', JStr (replicate pad CHR ''x''))])))))"

text \<open>A sleep of \<open>n\<close> slices polls before each of them and answers a cancellation at the next poll.\<close>

lemma debug_sleep_polls:
  assumes "slept \<le> sleepMs"
  shows "debug_sleep cancelled sleepMs slept k =
    (let n = nat ((sleepMs - slept + 19) div 20)
     in if \<exists>i < n. cancelled (k + i) then None else Some (k + n))"
  using assms
proof (induction cancelled sleepMs slept k rule: debug_sleep.induct)
  case (1 cancelled sleepMs slept k)
  show ?case
  proof (cases "slept < sleepMs")
    case False
    with 1(2) show ?thesis by (subst debug_sleep.simps) (simp add: Let_def)
  next
    case True
    let ?s = "slept + min 20 (sleepMs - slept)"
    define m where "m = nat ((sleepMs - ?s + 19) div 20)"
    have n: "nat ((sleepMs - slept + 19) div 20) = Suc m"
    proof (cases "sleepMs - slept \<le> 20")
      case True
      with \<open>slept < sleepMs\<close> have "(sleepMs - slept + 19) div 20 = 1" by linarith
      with True show ?thesis by (simp add: m_def)
    next
      case False
      then have "sleepMs - slept + 19 = (sleepMs - ?s + 19) + 1 * 20" by simp
      then have "(sleepMs - slept + 19) div 20 = (sleepMs - ?s + 19) div 20 + 1"
        by (simp only: div_mult_self1)
      moreover have "0 \<le> (sleepMs - ?s + 19) div 20" using False by simp
      ultimately show ?thesis by (simp add: m_def nat_add_distrib)
    qed
    show ?thesis
    proof (cases "cancelled k")
      case True
      with \<open>slept < sleepMs\<close> n show ?thesis
        by (subst debug_sleep.simps) (auto simp: Let_def intro!: exI [of _ 0])
    next
      case False
      with \<open>slept < sleepMs\<close> have IH: "debug_sleep cancelled sleepMs ?s (k + 1) =
          (if \<exists>i < m. cancelled (k + 1 + i) then None else Some (k + 1 + m))"
        using 1(1) by (simp add: Let_def m_def)
      have "(\<exists>i < Suc m. cancelled (k + i)) \<longleftrightarrow> (\<exists>i < m. cancelled (k + 1 + i))"
        using False by (auto simp: less_Suc_eq_0_disj)
      with IH False \<open>slept < sleepMs\<close> n show ?thesis
        by (subst debug_sleep.simps) (simp add: Let_def)
    qed
  qed
qed

section \<open>fs.selftest\<close>

definition kProbePath :: string where "kProbePath = ''/etc/passwd''"

definition selftest_reply :: "bool \<Rightarrow> string \<Rightarrow> (string \<times> json) list \<Rightarrow> nat \<Rightarrow> string \<Rightarrow> reply" where
  "selftest_reply ok err extra n sample =
     Result (JObj ([(''probe'', JStr kProbePath), (''succeeded'', JBool ok), (''errorCode'', JStr err)] @ extra
       @ [(''firstBytesReadable'', JInt (int n)), (''sampleSnippet'', JStr sample)]))"

definition handleFsSelftest :: "agent_config \<Rightarrow> host \<Rightarrow> reply" where
  "handleFsSelftest cfg h =
     (case resolveAndAuthorize cfg (h_fs h) (h_cwd h) kProbePath of
        Inl (code, reason) \<Rightarrow>
          selftest_reply False (if code = KPermissionDenied then ''PERMISSION_DENIED'' else ''NOT_FOUND'')
            [(''reason'', JStr reason)] 0 []
      | Inr canon \<Rightarrow>
          (case grc_fs_read_file h canon of
             Inl e \<Rightarrow> selftest_reply False (grcErrName e) [] 0 []
           | Inr content \<Rightarrow>
               (let n = min (length content) 128
                in selftest_reply True [] [] n (before CHR 0x0A (take n content)))))"

text \<open>
  The self-test tells the truth: what it reports about \<^verbatim>\<open>/etc/passwd\<close> is what \<^verbatim>\<open>fs.readFile\<close> would do for a
  client, success and failure alike, and its sample is the beginning of the first line of what a client
  would get, at most 128 bytes.
\<close>

theorem selftest_is_readFile:
  "\<exists>ok err extra n sample. handleFsSelftest cfg h = selftest_reply ok err extra n sample \<and>
     (case handleFsReadFile cfg h (JObj [(''path'', JStr kProbePath)]) of
        Result j \<Rightarrow> (\<exists>c. j = JObj [(''content'', JStr c)] \<and> ok \<and> n = min (length c) 128
                     \<and> sample = takeWhile (\<lambda>x. x \<noteq> CHR 0x0A) (take 128 c))
      | Error code msg \<Rightarrow> \<not> ok \<and> n = 0 \<and> sample = []
      | Throws e \<Rightarrow> False)"
proof -
  let ?p = "JObj [(''path'', JStr kProbePath)]"
  have fields: "reqStr ?p ''path'' ''fs.readFile'' = Inr kProbePath" "too_large h c ?p = None"
    "read_reply h c content ?p = Inr (Result (JObj [(''content'', JStr content)]))" for c content
    by (simp_all add: reqStr_def str_field_def too_large_def int_field_def read_reply_def throwing_def value_bool_def)
  show ?thesis
  proof (cases "resolveAndAuthorize cfg (h_fs h) (h_cwd h) kProbePath")
    case (Inl d)
    then show ?thesis
      by (cases d) (auto simp: handleFsSelftest_def handleFsReadFile_def fields)
  next
    case (Inr canon)
    show ?thesis
    proof (cases "grc_fs_read_file h canon")
      case (Inl e)
      with Inr show ?thesis by (auto simp: handleFsSelftest_def handleFsReadFile_def fields)
    next
      case (Inr content)
      have "take (min (length content) 128) content = take 128 content" by (simp add: min_def)
      with Inr \<open>resolveAndAuthorize _ _ _ _ = Inr canon\<close> show ?thesis
        by (auto simp: handleFsSelftest_def handleFsReadFile_def fields either_reply_def before_def Let_def)
    qed
  qed
qed

end
