(* ===== verification/Sha256.thy ===== *)
theory Sha256
  imports Prelude "HOL-Library.Word"
begin

text \<open>
  \<^verbatim>\<open>sha256hex\<close> of \<^verbatim>\<open>agent/main.cpp\<close>, which names the files of the diff cache, and the standard it implements.
\<close>

unbundle bit_operations_syntax

section \<open>SHA-256\<close>

type_synonym u32 = "32 word"

definition rotr :: "u32 \<Rightarrow> nat \<Rightarrow> u32" where
  "rotr x n = (drop_bit n x OR push_bit (32 - n) x)"

definition sha_K :: "u32 list" where
  "sha_K =
    [1116352408, 1899447441, 3049323471, 3921009573, 961987163, 1508970993, 2453635748, 2870763221,
     3624381080, 310598401, 607225278, 1426881987, 1925078388, 2162078206, 2614888103, 3248222580, 3835390401,
     4022224774, 264347078, 604807628, 770255983, 1249150122, 1555081692, 1996064986, 2554220882, 2821834349,
     2952996808, 3210313671, 3336571891, 3584528711, 113926993, 338241895, 666307205, 773529912, 1294757372,
     1396182291, 1695183700, 1986661051, 2177026350, 2456956037, 2730485921, 2820302411, 3259730800,
     3345764771, 3516065817, 3600352804, 4094571909, 275423344, 430227734, 506948616, 659060556, 883997877,
     958139571, 1322822218, 1537002063, 1747873779, 1955562222, 2024104815, 2227730452, 2361852424,
     2428436474, 2756734187, 3204031479, 3329325298]"

definition sha_H :: "u32 list" where
  "sha_H =
    [1779033703, 3144134277, 1013904242, 2773480762, 1359893119, 2600822924, 528734635, 1541459225]"

definition byte_of :: "char \<Rightarrow> u32" where
  "byte_of c = of_nat (of_char c)"

text \<open>The padding: a set bit, zeros up to 56 bytes modulo 64, and the length in bits as eight bytes.\<close>

function pad_zeros :: "string \<Rightarrow> string" where
  "pad_zeros msg = (if length msg mod 64 \<noteq> 56 then pad_zeros (msg @ [CHR 0x00]) else msg)"
  by pat_completeness auto

termination
  by (relation "measure (\<lambda>msg. if length msg mod 64 \<le> 56 then 56 - length msg mod 64 else 120 - length msg mod 64)")
    (auto simp: mod_Suc)

declare pad_zeros.simps [simp del]

definition length_bytes :: "64 word \<Rightarrow> string" where
  "length_bytes bits = map (\<lambda>i. char_of (unat (drop_bit (i * 8) bits AND 255))) [7, 6, 5, 4, 3, 2, 1, 0]"

definition sha_pad :: "string \<Rightarrow> string" where
  "sha_pad s = pad_zeros (s @ [CHR 0x80]) @ length_bytes (of_nat (length s) * 8)"

fun first_words :: "string \<Rightarrow> u32 list" where
  "first_words (a # b # c # d # rest) =
     (push_bit 24 (byte_of a) OR push_bit 16 (byte_of b) OR push_bit 8 (byte_of c) OR byte_of d) # first_words rest"
| "first_words _ = []"

text \<open>The loop that extends \<open>w\<close> from index \<open>length w\<close> on, \<open>n\<close> times.\<close>

definition next_word :: "u32 list \<Rightarrow> u32" where
  "next_word w =
     (let i = length w;
          s0 = rotr (w ! (i - 15)) 7 XOR rotr (w ! (i - 15)) 18 XOR drop_bit 3 (w ! (i - 15));
          s1 = rotr (w ! (i - 2)) 17 XOR rotr (w ! (i - 2)) 19 XOR drop_bit 10 (w ! (i - 2))
      in w ! (i - 16) + s0 + w ! (i - 7) + s1)"

fun extend_words :: "nat \<Rightarrow> u32 list \<Rightarrow> u32 list" where
  "extend_words 0 w = w"
| "extend_words (Suc n) w = extend_words n (w @ [next_word w])"

fun sha_round :: "u32 \<times> u32 \<Rightarrow> u32 list \<Rightarrow> u32 list" where
  "sha_round (k, w) [a, b, c, d, e, f, g, hh] =
     (let S1 = rotr e 6 XOR rotr e 11 XOR rotr e 25;
          ch = (e AND f) XOR (NOT e AND g);
          t1 = hh + S1 + ch + k + w;
          S0 = rotr a 2 XOR rotr a 13 XOR rotr a 22;
          maj = (a AND b) XOR (a AND c) XOR (b AND c);
          t2 = S0 + maj
      in [t1 + t2, a, b, c, d + t1, e, f, g])"
| "sha_round _ st = st"

definition sha_block :: "string \<Rightarrow> u32 list \<Rightarrow> u32 list" where
  "sha_block blk h =
     (let w = extend_words 48 (first_words blk)
      in map2 (+) h (fold sha_round (zip sha_K w) h))"

function sha_blocks :: "string \<Rightarrow> u32 list \<Rightarrow> u32 list" where
  "sha_blocks msg h = (if msg = [] then h else sha_blocks (drop 64 msg) (sha_block (take 64 msg) h))"
  by pat_completeness auto

termination
  by (relation "measure (length \<circ> fst)") auto

declare sha_blocks.simps [simp del]

definition hex_digit :: "u32 \<Rightarrow> char" where
  "hex_digit d = ''0123456789abcdef'' ! unat d"

definition word_hex :: "u32 \<Rightarrow> string" where
  "word_hex x = map (\<lambda>s. hex_digit (drop_bit s x AND 15)) [28, 24, 20, 16, 12, 8, 4, 0]"

definition sha256hex :: "string \<Rightarrow> string" where
  "sha256hex s = concat (map word_hex (sha_blocks (sha_pad s) sha_H))"

text \<open>The hash as the standard (FIPS 180-4) puts it: rotations, bitwise choice and majority, the schedule by recursion.\<close>

definition fips_sigma0 :: "u32 \<Rightarrow> u32" where
  "fips_sigma0 x = word_rotr 7 x XOR word_rotr 18 x XOR drop_bit 3 x"

definition fips_sigma1 :: "u32 \<Rightarrow> u32" where
  "fips_sigma1 x = word_rotr 17 x XOR word_rotr 19 x XOR drop_bit 10 x"

fun fips_W :: "string \<Rightarrow> nat \<Rightarrow> u32" where
  "fips_W blk t =
     (if t < 16 then (\<Sum>j < 4. byte_of (blk ! (4 * t + j)) * 2 ^ (8 * (3 - j)))
      else fips_sigma1 (fips_W blk (t - 2)) + fips_W blk (t - 7) + fips_sigma0 (fips_W blk (t - 15)) + fips_W blk (t - 16))"

declare fips_W.simps [simp del]

definition word_of_bits :: "(nat \<Rightarrow> bool) \<Rightarrow> u32" where
  "word_of_bits f = horner_sum of_bool 2 (map f [0..<32])"

definition fips_round :: "u32 \<Rightarrow> u32 \<Rightarrow> u32 list \<Rightarrow> u32 list" where
  "fips_round k w st =
     (let e = st ! 4; a = st ! 0;
          ch = word_of_bits (\<lambda>n. if bit e n then bit (st ! 5) n else bit (st ! 6) n);
          maj = word_of_bits (\<lambda>n. 2 \<le> length (filter (\<lambda>x. bit x n) [a, st ! 1, st ! 2]));
          t1 = st ! 7 + (word_rotr 6 e XOR word_rotr 11 e XOR word_rotr 25 e) + ch + k + w;
          t2 = (word_rotr 2 a XOR word_rotr 13 a XOR word_rotr 22 a) + maj
      in [t1 + t2, a, st ! 1, st ! 2, st ! 3 + t1, e, st ! 5, st ! 6])"

definition fips_block :: "string \<Rightarrow> u32 list \<Rightarrow> u32 list" where
  "fips_block blk h = map2 (+) h (fold (\<lambda>t. fips_round (sha_K ! t) (fips_W blk t)) [0..<64] h)"

lemma rotr_word_rotr: "n < 32 \<Longrightarrow> 0 < n \<Longrightarrow> rotr x n = word_rotr n x"
proof (rule bit_word_eqI)
  fix i assume n: "n < 32" "0 < n" and i: "i < LENGTH(32)"
  show "bit (rotr x n) i \<longleftrightarrow> bit (word_rotr n x) i"
  proof (cases "i + n < 32")
    case True
    with n i show ?thesis
      by (auto simp: rotr_def bit_word_rotr_iff bit_or_iff bit_drop_bit_eq bit_push_bit_iff ac_simps)
  next
    case False
    then have "(i + n) mod 32 = i + n - 32" using n i by (simp add: mod_if)
    moreover have "\<not> bit x (i + n)" using False bit_imp_le_length [of x "i + n"] by auto
    ultimately show ?thesis using n i False
      by (auto simp: rotr_def bit_word_rotr_iff bit_or_iff bit_drop_bit_eq bit_push_bit_iff ac_simps)
  qed
qed

lemma bit_word_of_bits: "bit (word_of_bits f) n \<longleftrightarrow> n < 32 \<and> f n"
  by (auto simp: word_of_bits_def bit_horner_sum_bit_iff)

lemma choice_bits: "(e AND f) XOR (NOT e AND g) = word_of_bits (\<lambda>n. if bit e n then bit f n else bit g n)"
  by (rule bit_word_eqI) (auto simp: bit_word_of_bits bit_and_iff bit_xor_iff bit_not_iff)

lemma majority_bits:
  "(a AND b) XOR (a AND c) XOR (b AND c) = word_of_bits (\<lambda>n. 2 \<le> length (filter (\<lambda>x. bit x n) [a, b, c]))"
  by (rule bit_word_eqI) (auto simp: bit_word_of_bits bit_and_iff bit_xor_iff)

lemma sha_round_fips: "length st = 8 \<Longrightarrow> sha_round (k, w) st = fips_round k w st \<and> length (fips_round k w st) = 8"
  by (auto simp: eval_nat_numeral length_Suc_conv fips_round_def Let_def rotr_word_rotr choice_bits majority_bits)


lemma bit_byte_of: "bit (byte_of c) n \<Longrightarrow> n < 8"
proof -
  assume b: "bit (byte_of c) n"
  have "(of_char c :: nat) < 2 ^ 8" by simp
  then have "take_bit 8 (of_char c :: nat) = of_char c" by (rule take_bit_nat_eq_self)
  then have "byte_of c = take_bit 8 (byte_of c)" by (simp add: byte_of_def take_bit_of_nat)
  with b show "n < 8" by (metis bit_take_bit_iff)
qed

lemma big_endian_word:
  "push_bit 24 (byte_of a) OR push_bit 16 (byte_of b) OR push_bit 8 (byte_of c) OR byte_of d =
     byte_of a * 2 ^ 24 + byte_of b * 2 ^ 16 + byte_of c * 2 ^ 8 + byte_of d"
proof -
  have "push_bit 24 (byte_of a) + (push_bit 16 (byte_of b) + (push_bit 8 (byte_of c) + byte_of d)) =
      push_bit 24 (byte_of a) OR push_bit 16 (byte_of b) OR push_bit 8 (byte_of c) OR byte_of d"
    by (subst disjunctive_add_eq_or, (auto simp: bit_eq_iff bit_and_iff bit_or_iff bit_push_bit_iff dest!: bit_byte_of)[1])+ simp
  then show ?thesis by (simp add: push_bit_eq_mult ac_simps)
qed

lemma sum_quad: "(\<Sum>j < 4. f j) = f 0 + f 1 + f 2 + (f (3::nat) :: u32)"
  by (simp add: eval_nat_numeral)

lemma first_words_fips: "length blk = 64 \<Longrightarrow> first_words blk = map (fips_W blk) [0..<16]"
proof -
  assume l: "length blk = 64"
  have take4: "first_words b = (push_bit 24 (byte_of (b ! 0)) OR push_bit 16 (byte_of (b ! 1)) OR push_bit 8 (byte_of (b ! 2))
      OR byte_of (b ! 3)) # first_words (drop 4 b)" if "4 \<le> length b" for b
    using that by (cases b rule: first_words.cases) auto
  have words: "4 * n \<le> length b \<Longrightarrow> length b mod 4 = 0 \<Longrightarrow> length b = 4 * n \<Longrightarrow>
      first_words b = map (\<lambda>t. (\<Sum>j < 4. byte_of (b ! (4 * t + j)) * 2 ^ (8 * (3 - j)))) [0..<n]" for n b
  proof (induction n arbitrary: b)
    case (Suc n)
    have "first_words (drop 4 b) = map (\<lambda>t. (\<Sum>j < 4. byte_of (drop 4 b ! (4 * t + j)) * 2 ^ (8 * (3 - j)))) [0..<n]"
      using Suc.prems by (intro Suc.IH) auto
    moreover have "[0..<Suc n] = 0 # map Suc [0..<n]" by (simp add: map_Suc_upt upt_conv_Cons)
    moreover have "drop 4 b ! (4 * t + j) = b ! (4 * Suc t + j)" for t j
      using Suc.prems by (simp add: add.assoc)
    ultimately show ?case
      using take4 [of b] Suc.prems by (simp add: big_endian_word sum_quad numeral_2_eq_2)
  qed simp
  have "first_words blk = map (\<lambda>t. (\<Sum>j < 4. byte_of (blk ! (4 * t + j)) * 2 ^ (8 * (3 - j)))) [0..<16]"
    by (rule words) (simp_all add: l)
  then show ?thesis by (simp add: fips_W.simps)
qed

lemma next_word_fips:
  assumes "16 \<le> k"
  shows "next_word (map (fips_W blk) [0..<k]) = fips_W blk k"
proof -
  have "fips_W blk k = fips_sigma1 (fips_W blk (k - 2)) + fips_W blk (k - 7) + fips_sigma0 (fips_W blk (k - 15))
      + fips_W blk (k - 16)"
    using assms by (subst fips_W.simps) simp
  with assms show ?thesis
    by (simp add: next_word_def Let_def fips_sigma0_def fips_sigma1_def rotr_word_rotr ac_simps)
qed

lemma extend_words_fips:
  "16 \<le> k \<Longrightarrow> extend_words n (map (fips_W blk) [0..<k]) = map (fips_W blk) [0..<k + n]"
proof (induction n arbitrary: k)
  case (Suc n)
  from Suc.IH [of "Suc k"] Suc.prems show ?case by (simp add: next_word_fips)
qed simp

lemma sha_block_fips:
  assumes "length blk = 64" and "length h = 8"
  shows "sha_block blk h = fips_block blk h \<and> length (fips_block blk h) = 8"
proof -
  have K: "length sha_K = 64" by (simp add: sha_K_def)
  have w: "extend_words 48 (first_words blk) = map (fips_W blk) [0..<64]"
    using extend_words_fips [of 16 48 blk] by (simp add: first_words_fips [OF assms(1)])
  have "zip sha_K (map (fips_W blk) [0..<64]) = map (\<lambda>t. (sha_K ! t, fips_W blk t)) [0..<64]"
    by (rule nth_equalityI) (simp_all add: K)
  moreover have "fold (\<lambda>t. sha_round (sha_K ! t, fips_W blk t)) ts st = fold (\<lambda>t. fips_round (sha_K ! t) (fips_W blk t)) ts st
      \<and> length (fold (\<lambda>t. fips_round (sha_K ! t) (fips_W blk t)) ts st) = 8" if "length st = 8" for ts st
    using that by (induction ts arbitrary: st) (simp_all add: sha_round_fips)
  ultimately show ?thesis
    using assms(2) by (simp add: sha_block_def fips_block_def w fold_map comp_def)
qed

lemma sha_blocks_fips:
  assumes "length h = 8" and "length msg = 64 * n"
  shows "sha_blocks msg h = fold fips_block (map (\<lambda>i. take 64 (drop (64 * i) msg)) [0..<n]) h"
  using assms
proof (induction n arbitrary: msg h)
  case 0
  then show ?case by (simp add: sha_blocks.simps)
next
  case (Suc n)
  have "length (take 64 msg) = 64" using Suc.prems by simp
  note b = sha_block_fips [OF this Suc.prems(1)]
  have "map (\<lambda>i. take 64 (drop (64 * i) (drop 64 msg))) [0..<n] = map (\<lambda>i. take 64 (drop (64 * i) msg)) (map Suc [0..<n])"
    by (simp add: add.commute)
  moreover have "sha_blocks msg h = sha_blocks (drop 64 msg) (fips_block (take 64 msg) h)"
    using Suc.prems b by (subst sha_blocks.simps) auto
  moreover have "[0..<Suc n] = 0 # map Suc [0..<n]" by (simp add: map_Suc_upt upt_conv_Cons del: upt_Suc)
  moreover have "sha_blocks (drop 64 msg) (fips_block (take 64 msg) h) =
      fold fips_block (map (\<lambda>i. take 64 (drop (64 * i) (drop 64 msg))) [0..<n]) (fips_block (take 64 msg) h)"
    using Suc.prems b by (intro Suc.IH) simp_all
  ultimately show ?case by (simp only: list.map fold.simps comp_apply mult_0_right drop_0)
qed

text \<open>The padding of the standard: a one, the fewest zeros, and the length in bits as a 64-bit number.\<close>

definition fips_pad :: "string \<Rightarrow> string" where
  "fips_pad s =
     s @ [CHR 0x80] @ replicate ((119 - length s mod 64) mod 64) CHR 0x00
       @ map (\<lambda>i. char_of (8 * length s div 256 ^ (7 - i))) [0..<8]"

lemma pad_zeros_replicate: "pad_zeros msg = msg @ replicate ((120 - length msg mod 64) mod 64) CHR 0x00"
proof (induction msg rule: pad_zeros.induct)
  case (1 msg)
  show ?case
  proof (cases "length msg mod 64 = 56")
    case False
    define r where "r = length msg mod 64"
    have r: "r < 64" "r \<noteq> 56" using False by (simp_all add: r_def)
    then have "(120 - r) mod 64 = Suc ((120 - Suc r mod 64) mod 64)"
      by (cases "r < 56") (auto simp: mod_if)
    moreover have "length (msg @ [CHR 0x00]) mod 64 = Suc r mod 64" by (simp add: r_def mod_Suc_eq)
    ultimately show ?thesis
      using 1 False by (subst pad_zeros.simps) (simp add: r_def)
  qed (subst pad_zeros.simps, simp)
qed

lemma length_bytes_digits: "length_bytes (of_nat n) = map (\<lambda>i. char_of (n div 256 ^ (7 - i))) [0..<8]"
proof -
  have "char_of (unat (drop_bit (i * 8) (of_nat n :: 64 word) AND 255)) = (char_of (n div 256 ^ i) :: char)" if "i < 8" for i
  proof -
    have "unat (drop_bit (i * 8) (of_nat n :: 64 word) AND 255) = take_bit 8 (n div 256 ^ i)"
    proof -
      have "drop_bit (i * 8) (of_nat n :: 64 word) AND 255 = take_bit 8 (drop_bit (i * 8) (of_nat n))"
        by (simp add: take_bit_eq_mask mask_eq_exp_minus_1)
      also have "unat \<dots> = take_bit 8 (drop_bit (i * 8) (take_bit 64 n))"
        by (simp add: unat_drop_bit_eq unsigned_take_bit_eq unsigned_of_nat)
      also have "\<dots> = take_bit 8 (drop_bit (i * 8) n)"
        using that by (intro bit_eqI) (auto simp: bit_take_bit_iff bit_drop_bit_eq)
      also have "\<dots> = take_bit 8 (n div 256 ^ i)"
        by (simp add: drop_bit_eq_div power_mult mult.commute [of _ 8])
      finally show ?thesis .
    qed
    then show ?thesis by (simp only: char_of_take_bit_eq order_refl)
  qed
  from this [of 7] this [of 6] this [of 5] this [of 4] this [of 3] this [of 2] this [of 1] this [of 0] show ?thesis
    unfolding length_bytes_def by (simp only: list.map) (simp add: upt_rec)
qed

lemma sha_pad_fips: "sha_pad s = fips_pad s"
proof -
  have "(120 - Suc (length s) mod 64) mod 64 = (119 - length s mod 64) mod 64"
    by (cases "length s mod 64 = 63") (simp_all add: mod_Suc)
  moreover have "(of_nat (length s) * 8 :: 64 word) = of_nat (8 * length s)" by simp
  ultimately show ?thesis
    unfolding sha_pad_def fips_pad_def pad_zeros_replicate by (simp only: length_bytes_digits) simp
qed

lemma length_fips_pad: "length (fips_pad s) mod 64 = 0"
proof -
  define q r where "q = length s div 64" and "r = length s mod 64"
  have l: "length s = 64 * q + r" and r: "r < 64" by (simp_all add: q_def r_def)
  have "\<exists>k. r + 1 + (119 - r) mod 64 + 8 = 64 * k"
  proof (cases "r \<le> 55")
    case True
    then have "(119 - r) mod 64 = 55 - r" by (simp add: mod_if)
    with True show ?thesis by (intro exI [of _ 1]) simp
  next
    case False
    then have "(119 - r) mod 64 = 119 - r" using r by simp
    with False r show ?thesis by (intro exI [of _ 2]) simp
  qed
  then obtain k where "r + 1 + (119 - r) mod 64 + 8 = 64 * k" ..
  then have "length s + 1 + (119 - r) mod 64 + 8 = 64 * (q + k)" using l by simp
  then have "(length s + 1 + (119 - length s mod 64) mod 64 + 8) mod 64 = 0" by (simp add: r_def)
  then show ?thesis by (simp add: fips_pad_def add.left_commute [of 9] add.left_commute)
qed

text \<open>
  C35. The file names of the diff cache are SHA-256: for every input, the loops of \<^verbatim>\<open>sha256hex\<close> (padding byte by byte,
  the schedule grown in an array, eight variables rotated through each round, shifts for rotations) compute
  the function of the standard, with its schedule by recursion, its rotations, and choice and majority bit by
  bit, over the padded message in blocks of 64 bytes.
\<close>

theorem sha256_is_fips:
  "sha256hex s =
     (let m = fips_pad s
      in concat (map word_hex (fold fips_block (map (\<lambda>i. take 64 (drop (64 * i) m)) [0..<length m div 64]) sha_H)))"
proof -
  have H: "length sha_H = 8" by (simp add: sha_H_def)
  have "length (fips_pad s) = 64 * (length (fips_pad s) div 64)"
    using length_fips_pad [of s] by (metis add_0_right mult_div_mod_eq)
  from sha_blocks_fips [OF H this] show ?thesis
    by (simp only: sha256hex_def sha_pad_fips Let_def)
qed

end
