(* ===== verification/DiffCache.thy ===== *)
theory DiffCache
  imports FsSafety Sha256
begin

text \<open>
  The shared diff cache of \<^verbatim>\<open>agent/main.cpp\<close>: the handlers \<^verbatim>\<open>diffcache.get\<close>, \<^verbatim>\<open>diffcache.put\<close> and \<^verbatim>\<open>diffcache.prune\<close>.
\<close>

section \<open>The handlers\<close>

definition diffCacheFile :: "string \<Rightarrow> string \<Rightarrow> string \<Rightarrow> string \<Rightarrow> string" where
  "diffCacheFile cacheDir fromSha toSha name =
     cacheDir @ ''/diffcache/'' @ sha256hex (fromSha @ [CHR 0x1F] @ toSha @ [CHR 0x1F] @ name) @ ''.json''"

definition cache_key :: "json \<Rightarrow> string \<Rightarrow> reply + (string \<times> string \<times> string \<times> string)" where
  "cache_key p m =
     bindr (reqStr p ''cacheDir'' m) (\<lambda>cacheDir.
     bindr (reqStr p ''fromSha'' m) (\<lambda>fromSha.
     bindr (reqStr p ''toSha'' m) (\<lambda>toSha.
     bindr (reqStr p ''file'' m) (\<lambda>name. Inr (cacheDir, fromSha, toSha, name)))))"

definition miss :: reply where
  "miss = Result (JObj [(''hit'', JBool False)])"

text \<open>
  \<open>parse\<close> is \<^verbatim>\<open>json::parse\<close>, nothing when it throws. What cannot be opened is a miss, and so is a directory: it can
  be opened, but there is nothing in it to parse.
\<close>

definition handleDiffCacheGet :: "(string \<Rightarrow> json option) \<Rightarrow> agent_config \<Rightarrow> host \<Rightarrow> json \<Rightarrow> reply" where
  "handleDiffCacheGet parse cfg h p =
     (case cache_key p ''diffcache.get'' of
        Inl r \<Rightarrow> r
      | Inr (cacheDir, fromSha, toSha, name) \<Rightarrow>
          (let path = diffCacheFile (resolveRoot cfg cacheDir) fromSha toSha name
           in case stat_of h path of
                Some (q, File b _ _) \<Rightarrow>
                  (case (if fst (h_access h q) then parse b else None) of
                     Some v \<Rightarrow> Result (JObj [(''hit'', JBool True), (''value'', v)])
                   | None \<Rightarrow> miss)
              | _ \<Rightarrow> miss))"

text \<open>
  \<open>wrote\<close> is how many bytes the file system takes (\<open>None\<close>: all), which the handler does not check; \<open>dump\<close> is
  \<^verbatim>\<open>dumpSafe\<close>.
\<close>

definition open_trunc :: "filesystem \<Rightarrow> path \<Rightarrow> int \<Rightarrow> string \<Rightarrow> errno + (path \<times> int)" where
  "open_trunc fs cwd mode s =
     bindr (open_create fs cwd max_links s) (\<lambda>p. Inr (p, case fs p of Some (File _ m _) \<Rightarrow> m | _ \<Rightarrow> mode))"

definition put_file ::
  "nat option \<Rightarrow> fs_state \<Rightarrow> filesystem \<Rightarrow> string \<Rightarrow> string \<Rightarrow> reply \<times> filesystem" where
  "put_file wrote st fs path content =
     (let cwd = h_cwd (st_host st); tmp = path @ ''.tmp''
      in case open_trunc fs cwd 420 tmp of
           Inl e \<Rightarrow> (Error KInternal ''diffcache write failed'', fs)
         | Inr (p, m) \<Rightarrow>
             (let fs1 = fs(p \<mapsto> File (case wrote of None \<Rightarrow> content | Some n \<Rightarrow> take n content) m (st_now st))
              in case bindr (slot_of fs1 cwd tmp) (\<lambda>t. bindr (slot_of fs1 cwd path) (\<lambda>q.
                        rename_at fs1 (st_names st) t q)) of
                   Inl e \<Rightarrow> (Error KInternal ''diffcache rename failed'',
                            case slot_of fs1 cwd tmp of Inr t \<Rightarrow> unlink_at fs1 t | Inl _ \<Rightarrow> fs1)
                 | Inr fs2 \<Rightarrow> (ok_reply, fs2)))"

definition handleDiffCachePut ::
  "(json \<Rightarrow> string) \<Rightarrow> nat option \<Rightarrow> agent_config \<Rightarrow> fs_state \<Rightarrow> json \<Rightarrow> reply \<times> fs_state" where
  "handleDiffCachePut dump wrote cfg st p =
     (case bindr (cache_key p ''diffcache.put'') (\<lambda>k.
             case jfind ''value'' p of
               None \<Rightarrow> Inl (Error KInvalidRequest (''diffcache.put requires '' @ quoted ''value''))
             | Some v \<Rightarrow> Inr (k, v)) of
        Inl r \<Rightarrow> (r, st)
      | Inr ((cacheDir, fromSha, toSha, name), v) \<Rightarrow>
          (let dir = resolveRoot cfg cacheDir;
               fs = snd (create_directories (st_fs st) (h_cwd (st_host st)) (dir @ ''/diffcache''));
               (r, fs') = put_file wrote st fs (diffCacheFile dir fromSha toSha name) (dump v)
           in (r, set_fs fs' st)))"

text \<open>
  \<open>path().extension()\<close>: from the last dot of the name, unless the name has none or is all before it. The time
  arithmetic is in nanoseconds and wraps as the compiled code does.
\<close>

definition extension :: "string \<Rightarrow> string" where
  "extension name =
     (if name = ''.'' \<or> name = ''..'' \<or> CHR ''.'' \<notin> set name \<or> before_last CHR ''.'' name = [] then []
      else CHR ''.'' # after_last CHR ''.'' name)"

definition prune_cutoff :: "int \<Rightarrow> int \<Rightarrow> int" where
  "prune_cutoff now days = to_int64 (now - to_int64 (3600000000000 * to_int64 (24 * days)))"

definition prune_entry :: "path list \<Rightarrow> host \<Rightarrow> int \<Rightarrow> string \<Rightarrow> string \<Rightarrow> filesystem \<times> nat \<Rightarrow> filesystem \<times> nat" where
  "prune_entry names h cutoff dir name acc =
     (case acc of (fs, n) \<Rightarrow>
        if extension name \<noteq> ''.json'' then acc
        else (let s = dir @ ''/'' @ name
              in case stat_of (h\<lparr>h_fs := fs\<rparr>) s of
                   None \<Rightarrow> acc
                 | Some (q, nd) \<Rightarrow>
                     (if node_mtime h q nd < cutoff
                      then (case slot_of fs (h_cwd h) s of
                              Inr p \<Rightarrow> if fs p \<noteq> None \<and> empty_dir fs names p then (unlink_at fs p, Suc n) else acc
                            | Inl _ \<Rightarrow> acc)
                      else acc)))"

definition handleDiffCachePrune :: "agent_config \<Rightarrow> fs_state \<Rightarrow> json \<Rightarrow> reply \<times> fs_state" where
  "handleDiffCachePrune cfg st p =
     (case reqStr p ''cacheDir'' ''diffcache.prune'' of
        Inl r \<Rightarrow> (r, st)
      | Inr cacheDir \<Rightarrow>
          (let days = (case int_field ''days'' p of Some i \<Rightarrow> to_int64 i | None \<Rightarrow> 0);
               dir = resolveRoot cfg cacheDir @ ''/diffcache'';
               entries = (case realpath (st_fs st) (h_cwd (st_host st)) dir of
                            Inr d \<Rightarrow> if dir_at (st_fs st) d then child_names (st_fs st) (st_names st) d else []
                          | Inl _ \<Rightarrow> []);
               (fs, removed) = fold (prune_entry (st_names st) (st_host st) (prune_cutoff (st_now st) days) dir)
                                 entries (st_fs st, 0)
           in (Result (JObj [(''removed'', JInt (int removed))]), set_fs fs st)))"

section \<open>Leaves of a directory\<close>

lemma slot_leaf:
  assumes "physical fs d" and "dir_at fs d" and "good_path (d @ [c])"
  shows "slot_of fs cwd (render (d @ [c])) = Inr (d @ [c])"
proof -
  have g: "good_path d" "c \<noteq> []" "c \<noteq> ''.''" "c \<noteq> ''..''" using assms(3) by (auto simp: good_name_def)
  have sp: "split_on CHR ''/'' (render (d @ [c])) = ([] # d) @ [c]"
    using split_on_render [OF assms(3)] by simp
  have w: "walk fs max_links [] ([] # d) = Inr d"
    using walk_physical_id [of fs "[]" d max_links] assms g by simp
  have cs: "c_str (render (d @ [c])) = render (d @ [c])" by (rule c_str_id [OF render_no_nul [OF assms(3)]])
  have hd: "render (d @ [c]) \<noteq> []" "hd (render (d @ [c])) = CHR ''/''" by (cases d; simp add: render_def)+
  show ?thesis
    unfolding slot_of_def Let_def cs sp last_snoc butlast_snoc
    using g hd w assms by simp
qed

lemma walk_physical_app:
  "physical fs (cur @ p) \<Longrightarrow> dir_at fs (cur @ p) \<Longrightarrow> good_path p \<Longrightarrow> walk fs n cur (p @ todo) = walk fs n (cur @ p) todo"
proof (induction p arbitrary: cur)
  case (Cons c p)
  have g: "c \<noteq> []" "c \<noteq> ''.''" "c \<noteq> ''..''" using Cons.prems by (auto simp: good_name_def)
  have "dir_at fs (take (Suc (length cur)) (cur @ c # p))"
    using Cons.prems(1,2) by (cases "p = []") (auto simp: physical_def dest!: spec [of _ "Suc (length cur)"])
  then obtain m where "fs (cur @ [c]) = Some (Dir m)"
    by (auto simp: dir_at_def split: option.splits node.splits)
  with Cons.IH [of "cur @ [c]"] Cons.prems g show ?case by simp
qed simp

lemma stat_leaf:
  assumes "physical (h_fs h) d" and "dir_at (h_fs h) d" and "good_path (d @ [c])"
    and "pred_option is_file (h_fs h (d @ [c]))"
  shows "stat_of h (render (d @ [c])) = map_option (Pair (d @ [c])) (h_fs h (d @ [c]))"
proof -
  have g: "good_path d" "c \<noteq> []" "c \<noteq> ''.''" "c \<noteq> ''..''" using assms(3) by (auto simp: good_name_def)
  have sp: "split_on CHR ''/'' (render (d @ [c])) = [] # d @ [c]"
    using split_on_render [OF assms(3)] by simp
  have cs: "c_str (render (d @ [c])) = render (d @ [c])" by (rule c_str_id [OF render_no_nul [OF assms(3)]])
  have hd: "render (d @ [c]) \<noteq> []" "hd (render (d @ [c])) = CHR ''/''" by (cases d; simp add: render_def)+
  have "realpath (h_fs h) (h_cwd h) (render (d @ [c])) = walk (h_fs h) max_links d [c]"
    using walk_physical_app [of "h_fs h" "[]" d max_links "[c]"] assms g hd
    by (simp add: realpath_def Let_def cs sp)
  with g assms(4) show ?thesis
    by (auto simp: stat_of_def node_at_def split: option.splits node.splits)
qed

lemma physical_leaf:
  assumes "physical fs d"
  shows "physical (fs(d @ [c] := n)) d" and "dir_at fs d \<Longrightarrow> dir_at (fs(d @ [c] := n)) d"
proof -
  have neq: "d @ [c] \<noteq> take i d" for i
  proof
    assume "d @ [c] = take i d"
    then have "length (d @ [c]) \<le> length d" by simp
    then show False by simp
  qed
  have mono: "dir_at fs (take i d) \<Longrightarrow> dir_at (fs(d @ [c] := n)) (take i d)" for i
    by (rule dir_at_mono [OF _ neq])
  from this [of "length d"] show dir: "dir_at fs d \<Longrightarrow> dir_at (fs(d @ [c] := n)) d" by simp
  from assms mono have "\<forall>i < length d. dir_at (fs(d @ [c] := n)) (take i d)" by (simp add: physical_def)
  moreover have "dir_at fs d \<or> (\<exists>b m t. fs d = Some (File b m t))" using assms by (simp add: physical_def)
  ultimately show "physical (fs(d @ [c] := n)) d" using dir by (auto simp: physical_def)
qed

section \<open>What the cache keeps\<close>

text \<open>
  A cache directory: the client's name for it leads to the directory \<open>d\<close>, with no link on the way, and its
  \<^verbatim>\<open>diffcache\<close> holds nothing but regular files.
\<close>

definition cache_path :: "path \<Rightarrow> path" where
  "cache_path d = d @ [''diffcache'']"

definition cache_dir :: "agent_config \<Rightarrow> fs_state \<Rightarrow> string \<Rightarrow> path \<Rightarrow> bool" where
  "cache_dir cfg st s d \<longleftrightarrow>
     resolveRoot cfg s = render d \<and> d \<noteq> [] \<and> good_path d \<and> tree_ok (st_fs st)
     \<and> physical (st_fs st) (cache_path d) \<and> dir_at (st_fs st) (cache_path d)
     \<and> (\<forall>c. pred_option is_file (st_fs st (cache_path d @ [c])))"

definition cache_leaf :: "string \<Rightarrow> string \<Rightarrow> string \<Rightarrow> string" where
  "cache_leaf fromSha toSha name = sha256hex (fromSha @ [CHR 0x1F] @ toSha @ [CHR 0x1F] @ name) @ ''.json''"

lemma hex_digit_plain: "hex_digit (x AND 15) \<notin> {CHR ''/'', CHR 0x00}"
proof -
  have "x AND 15 = take_bit 4 x" by (simp add: take_bit_eq_mask mask_eq_exp_minus_1)
  moreover have "unat (take_bit 4 x :: u32) < 2 ^ 4" by (simp only: unsigned_take_bit_eq take_bit_nat_less_exp)
  ultimately have "unat (x AND 15) < length ''0123456789abcdef''" by simp
  then have "hex_digit (x AND 15) \<in> set ''0123456789abcdef''"
    unfolding hex_digit_def by (rule nth_mem)
  moreover have "{CHR ''/'', CHR 0x00} \<inter> set ''0123456789abcdef'' = {}" by simp
  ultimately show ?thesis by blast
qed

lemma sha_plain: "CHR ''/'' \<notin> set (sha256hex s) \<and> CHR 0x00 \<notin> set (sha256hex s)"
proof -
  have "c \<notin> {CHR ''/'', CHR 0x00}" if "c \<in> set (sha256hex s)" for c
    using that hex_digit_plain unfolding sha256hex_def word_hex_def by auto
  then show ?thesis by blast
qed

lemma good_leaf:
  "good_name (cache_leaf a b c)" "good_name (cache_leaf a b c @ ''.tmp'')"
proof -
  have "good_name (s @ t)" if "CHR ''/'' \<notin> set s" "CHR 0x00 \<notin> set s" "CHR ''/'' \<notin> set t" "CHR 0x00 \<notin> set t" "2 < length t" for s t
  proof -
    have "length (s @ t) \<noteq> length ''.''" "length (s @ t) \<noteq> length ''..''" using that(5) by simp_all
    then have "s @ t \<noteq> ''.''" "s @ t \<noteq> ''..''" by metis+
    with that show ?thesis by (auto simp: good_name_def)
  qed
  from this [OF _ _ _ _, of "sha256hex (a @ [CHR 0x1F] @ b @ [CHR 0x1F] @ c)" "''.json''"]
    this [OF _ _ _ _, of "sha256hex (a @ [CHR 0x1F] @ b @ [CHR 0x1F] @ c)" "''.json.tmp''"] sha_plain
  show "good_name (cache_leaf a b c)" "good_name (cache_leaf a b c @ ''.tmp'')"
    unfolding cache_leaf_def append_assoc by auto
qed

lemma diffCacheFile_render:
  assumes "d \<noteq> []"
  shows "diffCacheFile (render d) a b c = render (cache_path d @ [cache_leaf a b c])"
    and "diffCacheFile (render d) a b c @ ''.tmp'' = render (cache_path d @ [cache_leaf a b c @ ''.tmp''])"
    and "render d @ ''/diffcache'' = concat (map (\<lambda>c. CHR ''/'' # c) (cache_path d))"
  using assms by (simp_all add: diffCacheFile_def render_def cache_path_def cache_leaf_def)

lemma tree_ok_leaf:
  assumes "tree_ok fs" and "dir_at fs d" and "\<not> is_dir n" and "\<not> dir_at fs (d @ [c])"
  shows "tree_ok (fs(d @ [c] \<mapsto> n))"
proof -
  have "dir_at (fs(d @ [c] \<mapsto> n)) p" if "fs (p @ [x]) \<noteq> None \<or> p @ [x] = d @ [c]" for p x
  proof -
    from that assms(1,2) have "dir_at fs p" by (auto simp: tree_ok_def)
    with assms(4) show ?thesis by (intro dir_at_mono) auto
  qed
  then show ?thesis unfolding tree_ok_def by (metis fun_upd_other)
qed

lemma move_leaf:
  assumes "tree_ok fs" and "fs p = Some n" and "\<not> is_dir n" and "p \<noteq> []" and "q \<noteq> []" and "p \<noteq> q"
    and "length p = length q" and "\<not> dir_at fs q"
  shows "move_tree fs p q = fs(q \<mapsto> n, p := None)"
proof
  fix r
  have nd: "\<not> dir_at fs p" using assms by (auto simp: dir_at_def split: node.splits)
  have "\<not> prefix p q" "\<not> prefix q p" using assms(6,7) by (auto simp: prefix_def)
  show "move_tree fs p q r = (fs(q \<mapsto> n, p := None)) r"
  proof (cases "prefix q r")
    case True
    then obtain x where r: "r = q @ x" by (auto simp: prefix_def)
    show ?thesis
    proof (cases "x = []")
      case False
      have "fs (p @ x) = None" "fs r = None"
        using nothing_below [OF assms(1) nd, of "p @ x"] nothing_below [OF assms(1,8), of r] False r
        by (simp_all add: strict_prefix_def)
      with False r \<open>\<not> prefix q p\<close> show ?thesis by (auto simp: move_tree_def)
    qed (use r assms in \<open>simp add: move_tree_def\<close>)
  next
    case False
    then show ?thesis
      using nothing_below [OF assms(1) nd, of r] by (auto simp: move_tree_def strict_prefix_def)
  qed
qed

text \<open>A complete write of one cache file.\<close>

lemma put_file_installs:
  assumes D: "physical fs D" "dir_at fs D" "D \<noteq> []" and tree: "tree_ok fs"
    and files: "\<forall>c. pred_option is_file (fs (D @ [c]))" and good: "good_path (D @ [leaf])" "good_path (D @ [tleaf])"
    and names: "path = render (D @ [leaf])" "path @ ''.tmp'' = render (D @ [tleaf])" "leaf \<noteq> tleaf"
  shows "\<exists>m. put_file None st fs path content =
    (ok_reply, fs(D @ [tleaf] \<mapsto> File content m (st_now st), D @ [leaf] \<mapsto> File content m (st_now st), D @ [tleaf] := None))"
proof -
  let ?t = "D @ [tleaf]" and ?q = "D @ [leaf]"
  have nolink: "fs ?t = None \<or> (\<exists>b m t. fs ?t = Some (File b m t))"
    using files by (cases "fs ?t"; cases "the (fs ?t)") (auto dest: spec [of _ tleaf])
  have nd: "\<not> dir_at fs (D @ [c])" for c
    using files by (auto simp: dir_at_def split: option.splits node.splits dest: spec [of _ c])
  have "open_create fs (h_cwd (st_host st)) max_links (path @ ''.tmp'') = Inr ?t"
    using slot_leaf [OF D(1,2) good(2)] nolink by (auto simp: names(2) max_links_def eval_nat_numeral split: option.splits)
  then obtain m where op: "open_trunc fs (h_cwd (st_host st)) 420 (path @ ''.tmp'') = Inr (?t, m)"
    by (simp add: open_trunc_def)
  define n where "n = File content m (st_now st)"
  define fs1 where "fs1 = fs(?t \<mapsto> n)"
  have D1: "physical fs1 D" "dir_at fs1 D" using physical_leaf [OF D(1)] D(2) by (simp_all add: fs1_def)
  have tree1: "tree_ok fs1" using tree_ok_leaf [OF tree D(2) _ nd] by (simp add: fs1_def n_def)
  have slots: "slot_of fs1 cwd (path @ ''.tmp'') = Inr ?t" "slot_of fs1 cwd path = Inr ?q" for cwd
    using slot_leaf [OF D1 good(2)] slot_leaf [OF D1 good(1)] names by simp_all
  have q: "fs1 ?q = None \<or> (\<exists>b m t. fs1 ?q = Some (File b m t))"
    using files names(3) by (cases "fs ?q"; cases "the (fs ?q)") (auto simp: fs1_def dest: spec [of _ leaf])
  then have ndq: "\<not> dir_at fs1 ?q" by (auto simp: dir_at_def)
  have "move_tree fs1 ?t ?q = fs1(?q \<mapsto> n, ?t := None)"
    by (rule move_leaf [OF tree1]) (use names(3) ndq in \<open>simp_all add: fs1_def n_def\<close>)
  moreover have "fs1 ?t = Some n" by (simp add: fs1_def)
  ultimately have "rename_at fs1 (st_names st) ?t ?q = Inr (fs1(?q \<mapsto> n, ?t := None))"
    using q names(3) by (auto simp: rename_at_def n_def)
  with op slots have "put_file None st fs path content = (ok_reply, fs1(?q \<mapsto> n, ?t := None))"
    by (simp add: put_file_def Let_def n_def fs1_def)
  then show ?thesis unfolding fs1_def n_def by blast
qed

lemma cache_key_Inr:
  "cache_key p m = Inr (a, b, c, e) \<longleftrightarrow>
     str_field ''cacheDir'' p = Some a \<and> str_field ''fromSha'' p = Some b \<and> str_field ''toSha'' p = Some c \<and> str_field ''file'' p = Some e"
  by (auto simp: cache_key_def bindr_Inr reqStr_Inr)

definition hit :: "json \<Rightarrow> reply" where
  "hit v = Result (JObj [(''hit'', JBool True), (''value'', v)])"

text \<open>What a lookup answers, in terms of the one file it depends on.\<close>

lemma get_leaf:
  assumes "cache_key p ''diffcache.get'' = Inr (dir, a, b, c)" and "cache_dir cfg st dir d"
    and "physical fs (cache_path d)" and "dir_at fs (cache_path d)"
    and "fs (cache_path d @ [cache_leaf a b c]) = f" and "pred_option is_file f"
  shows "handleDiffCacheGet parse cfg ((st_host st)\<lparr>h_fs := fs\<rparr>) p =
    (case f of
       Some (File content _ _) \<Rightarrow>
         (case (if fst (h_access (st_host st) (cache_path d @ [cache_leaf a b c])) then parse content else None) of
            Some v \<Rightarrow> hit v | None \<Rightarrow> miss)
     | _ \<Rightarrow> miss)"
proof -
  have d: "resolveRoot cfg dir = render d" "d \<noteq> []" "good_path (cache_path d @ [cache_leaf a b c])"
    using assms(2) good_leaf(1) by (auto simp: cache_dir_def cache_path_def good_name_def)
  have "stat_of ((st_host st)\<lparr>h_fs := fs\<rparr>) (render (cache_path d @ [cache_leaf a b c]))
      = map_option (Pair (cache_path d @ [cache_leaf a b c])) f"
    using stat_leaf [of "(st_host st)\<lparr>h_fs := fs\<rparr>" "cache_path d" "cache_leaf a b c"] assms(3-6) d(3) by simp
  with assms(1) d show ?thesis
    by (cases f; cases "the f") (simp_all add: handleDiffCacheGet_def diffCacheFile_render hit_def split: option.splits)
qed

text \<open>
  The diff cache returns what was stored. In a cache directory a complete \<^verbatim>\<open>diffcache.put\<close> succeeds, on a
  read-only agent too; \<^verbatim>\<open>diffcache.get\<close> with the same key then answers with the value, and with any key
  whose file has another name it answers what it answered before.
\<close>

theorem diffcache_roundtrip:
  assumes key: "cache_key p ''diffcache.put'' = Inr (dir, a, b, c)" and v: "jfind ''value'' p = Some v"
    and d: "cache_dir cfg st dir d" and parse: "parse (dump v) = Some v"
    and readable: "fst (h_access (st_host st) (cache_path d @ [cache_leaf a b c]))"
  shows "\<exists>st'. handleDiffCachePut dump None cfg st p = (ok_reply, st')
    \<and> handleDiffCacheGet parse cfg (st_host st') p = hit v
    \<and> (\<forall>p' a' b' c'. cache_key p' ''diffcache.get'' = Inr (dir, a', b', c') \<and> cache_leaf a' b' c' \<noteq> cache_leaf a b c
         \<longrightarrow> handleDiffCacheGet parse cfg (st_host st') p' = handleDiffCacheGet parse cfg (st_host st) p')"
proof -
  let ?D = "cache_path d" and ?leaf = "cache_leaf a b c" and ?t = "cache_leaf a b c @ ''.tmp''"
  let ?fs = "st_fs st"
  note c = d [unfolded cache_dir_def]
  have good: "good_path ?D" using c by (simp add: cache_path_def good_name_def)
  have gl: "good_path (?D @ [?leaf])" "good_path (?D @ [?t])" using good good_leaf by simp_all
  have "create_directories ?fs cwd (render d @ ''/diffcache'') = (None, ?fs)" for cwd
    using create_directories_present [of ?fs ?D cwd] c good diffCacheFile_render(3) [of d] by simp
  then have dirs: "snd (create_directories ?fs cwd (render d @ ''/diffcache'')) = ?fs" for cwd by simp
  have D: "?D \<noteq> []" by (simp add: cache_path_def)
  obtain m where put: "put_file None st ?fs (diffCacheFile (render d) a b c) (dump v) =
      (ok_reply, ?fs(?D @ [?t] \<mapsto> File (dump v) m (st_now st), ?D @ [?leaf] \<mapsto> File (dump v) m (st_now st), ?D @ [?t] := None))"
    using put_file_installs [of ?fs ?D ?leaf ?t "diffCacheFile (render d) a b c" st "dump v"] c D gl
      diffCacheFile_render(1,2) [of d a b c] by auto
  define fs' where "fs' = ?fs(?D @ [?t] \<mapsto> File (dump v) m (st_now st), ?D @ [?leaf] \<mapsto> File (dump v) m (st_now st), ?D @ [?t] := None)"
  have run: "handleDiffCachePut dump None cfg st p = (ok_reply, set_fs fs' st)"
    using key v c dirs put [folded fs'_def] by (simp add: handleDiffCachePut_def Let_def)
  have host: "st_host (set_fs fs' st) = (st_host st)\<lparr>h_fs := fs'\<rparr>" by (simp add: set_fs_def)
  have D': "physical fs' ?D" "dir_at fs' ?D"
    using c by (simp_all add: fs'_def physical_leaf)
  have leafneq: "?leaf \<noteq> ?t" by simp
  then have "fs' (?D @ [?leaf]) = Some (File (dump v) m (st_now st))" by (simp add: fs'_def)
  from get_leaf [OF _ d D' this] key parse readable
  have hit: "handleDiffCacheGet parse cfg (st_host (set_fs fs' st)) p = hit v"
    by (simp add: host cache_key_Inr)
  have other: "handleDiffCacheGet parse cfg (st_host (set_fs fs' st)) p' = handleDiffCacheGet parse cfg (st_host st) p'"
    if k: "cache_key p' ''diffcache.get'' = Inr (dir, a', b', c')" and n: "cache_leaf a' b' c' \<noteq> ?leaf" for p' a' b' c'
  proof -
    have "cache_leaf a' b' c' \<noteq> ?t"
    proof
      assume "cache_leaf a' b' c' = ?t"
      then have "last (cache_leaf a' b' c') = CHR ''p''" by (simp add: cache_leaf_def)
      then show False by (simp add: cache_leaf_def)
    qed
    with n have same: "fs' (?D @ [cache_leaf a' b' c']) = ?fs (?D @ [cache_leaf a' b' c'])" by (simp add: fs'_def)
    have plain: "pred_option is_file (?fs (?D @ [cache_leaf a' b' c']))" using c by blast
    have id: "(st_host st)\<lparr>h_fs := ?fs\<rparr> = st_host st" by (simp add: st_fs_def)
    from get_leaf [OF k d D' same plain, of parse] get_leaf [OF k d _ _ _ plain, of ?fs parse] c show ?thesis
      by (simp only: host id simp_thms)
  qed
  show ?thesis
    by (intro exI [of _ "set_fs fs' st"] conjI allI impI run hit) (blast intro: other)
qed

definition demo_cache_state :: fs_state where
  "demo_cache_state =
     demo_state\<lparr>st_host := demo_host\<lparr>h_fs := (\<lambda>p. if p = [''c''] \<or> p = [''c'', ''diffcache''] then Some (Dir 493) else None)\<rparr>\<rparr>"

definition demo_put :: json where
  "demo_put = JObj [(''cacheDir'', JStr ''/c''), (''fromSha'', JStr ''1''), (''toSha'', JStr ''2''), (''file'', JStr ''f''),
     (''value'', JNull)]"

theorem diffcache_roundtrip_witness:
  "\<exists>st'. handleDiffCachePut (\<lambda>_. ''null'') None (initial_config None) demo_cache_state demo_put = (ok_reply, st')
     \<and> handleDiffCacheGet (\<lambda>_. Some JNull) (initial_config None) (st_host st') demo_put = hit JNull"
proof -
  have key: "cache_key demo_put ''diffcache.put'' = Inr (''/c'', ''1'', ''2'', ''f'')" "jfind ''value'' demo_put = Some JNull"
    by code_simp+
  have fs: "st_fs demo_cache_state = (\<lambda>p. if p = [''c''] \<or> p = [''c'', ''diffcache''] then Some (Dir 493) else None)"
    by (simp add: st_fs_def demo_cache_state_def)
  have "resolveRoot (initial_config None) ''/c'' = render [''c'']" "good_path [''c'']" by code_simp+
  moreover have "tree_ok (st_fs demo_cache_state)"
    by (auto simp: tree_ok_def fs dir_at_def Cons_eq_append_conv append_eq_Cons_conv)
  moreover have "physical (st_fs demo_cache_state) (cache_path [''c''])" "dir_at (st_fs demo_cache_state) (cache_path [''c''])"
    by (auto simp: physical_def fs dir_at_def cache_path_def less_Suc_eq)
  ultimately have d: "cache_dir (initial_config None) demo_cache_state ''/c'' [''c'']"
    by (simp add: cache_dir_def fs cache_path_def)
  have r: "fst (h_access (st_host demo_cache_state) (cache_path [''c''] @ [cache_leaf ''1'' ''2'' ''f'']))"
    by (simp add: demo_cache_state_def demo_host_def)
  from diffcache_roundtrip [OF key d _ r, of "\<lambda>_. Some JNull" "\<lambda>_. ''null''"] show ?thesis by auto
qed

section \<open>Pruning\<close>

definition stale :: "filesystem \<Rightarrow> path \<Rightarrow> int \<Rightarrow> string \<Rightarrow> bool" where
  "stale fs D cutoff e \<longleftrightarrow>
     extension e = ''.json'' \<and> (case fs (D @ [e]) of Some (File _ _ t) \<Rightarrow> t < cutoff | _ \<Rightarrow> False)"

lemma tree_ok_unlink:
  assumes "tree_ok fs" and "\<not> dir_at fs p"
  shows "tree_ok (unlink_at fs p)"
proof -
  have "dir_at (unlink_at fs p) r" if "fs (r @ [c]) \<noteq> None" for r c
    using assms that unfolding unlink_at_def tree_ok_def by (metis dir_at_mono)
  then show ?thesis by (auto simp: tree_ok_def unlink_at_def)
qed

lemma prune_entry_leaf:
  assumes D: "physical fs D" "dir_at fs D" "good_path (D @ [e])" and tree: "tree_ok fs"
    and f: "fs (D @ [e]) = Some (File b m t)" and dir: "dir @ ''/'' @ e = render (D @ [e])"
  shows "prune_entry names h cutoff dir e (fs, n) = (if stale fs D cutoff e then (unlink_at fs (D @ [e]), Suc n) else (fs, n))"
proof -
  have st: "stat_of (h\<lparr>h_fs := fs\<rparr>) (dir @ ''/'' @ e) = Some (D @ [e], File b m t)"
    using stat_leaf [of "h\<lparr>h_fs := fs\<rparr>" D e] D f by (simp add: dir [simplified])
  have sl: "slot_of fs (h_cwd h) (dir @ ''/'' @ e) = Inr (D @ [e])"
    using slot_leaf [OF D] by (simp only: dir)
  have "\<not> dir_at fs (D @ [e])" using f by (simp add: dir_at_def)
  then have "empty_dir fs names (D @ [e])"
    using nothing_below [OF tree] by (auto simp: empty_dir_def list_all_iff)
  with f show ?thesis
    using st sl by (simp add: prune_entry_def stale_def Let_def node_mtime_def)
qed

lemma prune_entries:
  assumes "physical fs D" and "dir_at fs D" and "good_path D" and "tree_ok fs"
    and "\<forall>e \<in> set es. \<exists>b m t. fs (D @ [e]) = Some (File b m t)" and "\<forall>e \<in> set es. good_name e" and "distinct es"
    and "\<forall>e. dir @ ''/'' @ e = render (D @ [e])"
  shows "fold (prune_entry names h cutoff dir) es (fs, n) =
    ((\<lambda>r. if \<exists>e \<in> set es. r = D @ [e] \<and> stale fs D cutoff e then None else fs r),
     n + length (filter (stale fs D cutoff) es))"
  using assms
proof (induction es arbitrary: fs n)
  case (Cons e es)
  from Cons.prems obtain b m t where f: "fs (D @ [e]) = Some (File b m t)" by auto
  define fs1 where "fs1 = (if stale fs D cutoff e then unlink_at fs (D @ [e]) else fs)"
  have step: "prune_entry names h cutoff dir e (fs, n) = (fs1, if stale fs D cutoff e then Suc n else n)"
    using prune_entry_leaf [of fs D e b m t dir names h cutoff n] Cons.prems f by (simp add: fs1_def)
  have nd: "\<not> dir_at fs (D @ [e])" using f by (simp add: dir_at_def)
  have ok: "physical fs1 D" "dir_at fs1 D" "tree_ok fs1"
    using Cons.prems nd physical_leaf [of fs D e None] tree_ok_unlink [of fs "D @ [e]"]
    by (simp_all add: fs1_def unlink_at_def)
  have same: "fs1 (D @ [x]) = fs (D @ [x])" if "x \<in> set es" for x
    using that Cons.prems(7) by (auto simp: fs1_def unlink_at_def)
  then have st: "stale fs1 D cutoff x = stale fs D cutoff x" if "x \<in> set es" for x
    using that by (simp add: stale_def)
  have "fold (prune_entry names h cutoff dir) es (fs1, if stale fs D cutoff e then Suc n else n) =
    ((\<lambda>r. if \<exists>e \<in> set es. r = D @ [e] \<and> stale fs1 D cutoff e then None else fs1 r),
     (if stale fs D cutoff e then Suc n else n) + length (filter (stale fs1 D cutoff) es))"
    using Cons.prems ok same by (intro Cons.IH) auto
  moreover have "filter (stale fs1 D cutoff) es = filter (stale fs D cutoff) es"
    using st by (rule filter_cong [OF refl])
  moreover have "(\<lambda>r. if \<exists>x \<in> set es. r = D @ [x] \<and> stale fs1 D cutoff x then None else fs1 r) =
      (\<lambda>r. if \<exists>x \<in> set (e # es). r = D @ [x] \<and> stale fs D cutoff x then None else fs r)"
    using st by (auto simp: fs1_def unlink_at_def fun_eq_iff)
  ultimately show ?case by (simp add: step)
qed simp

lemma prune_cutoff_days:
  assumes "0 \<le> days" and "days \<le> 106751" and "0 \<le> now" and "now < 2 ^ 63"
  shows "prune_cutoff now days = now - days * (24 * 3600 * 1000000000)"
proof -
  have "to_int64 (24 * days) = 24 * days" "to_int64 (3600000000000 * (24 * days)) = 3600000000000 * (24 * days)"
    "to_int64 (now - 3600000000000 * (24 * days)) = now - 3600000000000 * (24 * days)"
    using assms by (intro to_int64_small; simp)+
  then show ?thesis by (simp add: prune_cutoff_def)
qed

text \<open>
  Pruning removes old entries and nothing else: for a number of days the clock arithmetic can hold (up to
  106751), exactly the files of the cache directory that end in \<^verbatim>\<open>.json\<close> and were written more than so many days
  ago are gone, their number is the reply, and everything else in the file system is as it was.
\<close>

theorem prune_exact:
  assumes dir: "str_field ''cacheDir'' p = Some s" and d: "cache_dir cfg st s d"
    and days: "int_field ''days'' p = Some days" "0 \<le> days" "days \<le> 106751" "0 \<le> st_now st" "st_now st < 2 ^ 63"
    and names: "\<forall>q. st_fs st q \<noteq> None \<longrightarrow> q \<in> set (st_names st) \<and> good_path q"
  defines "old \<equiv> (\<lambda>e. extension e = ''.json'' \<and> (\<exists>b m t. st_fs st (cache_path d @ [e]) = Some (File b m t)
      \<and> t < st_now st - days * (24 * 3600 * 1000000000)))"
  shows "\<exists>st'. handleDiffCachePrune cfg st p = (Result (JObj [(''removed'', JInt (int (card {e. old e})))]), st')
    \<and> (\<forall>e. st_fs st' (cache_path d @ [e]) = (if old e then None else st_fs st (cache_path d @ [e])))
    \<and> (\<forall>q. (\<nexists>e. q = cache_path d @ [e]) \<longrightarrow> st_fs st' q = st_fs st q)"
proof -
  let ?D = "cache_path d" and ?fs = "st_fs st"
  let ?cutoff = "st_now st - days * (24 * 3600 * 1000000000)"
  note c = d [unfolded cache_dir_def]
  have good: "good_path ?D" using c by (simp add: cache_path_def good_name_def)
  define es where "es = child_names ?fs (st_names st) ?D"
  have es: "e \<in> set es \<longleftrightarrow> ?fs (?D @ [e]) \<noteq> None" for e
  proof
    show "e \<in> set es \<Longrightarrow> ?fs (?D @ [e]) \<noteq> None"
      by (auto simp: es_def child_names_def) (metis append_butlast_last_id option.distinct(1))
    assume "?fs (?D @ [e]) \<noteq> None"
    with names show "e \<in> set es"
      by (auto simp: es_def child_names_def intro!: image_eqI [of _ _ "?D @ [e]"])
  qed
  have dist: "distinct es"
    unfolding es_def child_names_def distinct_map
    by (auto simp: inj_on_def) (metis append_butlast_last_id)
  have isfile: "\<exists>b m t. ?fs (?D @ [e]) = Some (File b m t)" if "?fs (?D @ [e]) \<noteq> None" for e
    using that c by (cases "the (?fs (?D @ [e]))") (auto dest: spec [of _ e])
  have gn: "good_name e" if "?fs (?D @ [e]) \<noteq> None" for e
    using that names by (metis good_path_simps(2,3))
  have path: "(render d @ ''/diffcache'') @ ''/'' @ e = render (?D @ [e])" for e
    using c by (simp add: render_def cache_path_def)
  have cut: "prune_cutoff (st_now st) (to_int64 days) = ?cutoff"
    using prune_cutoff_days [OF days(2-5)] days(2,3) by (simp add: to_int64_small)
  have old: "old e \<longleftrightarrow> stale ?fs ?D ?cutoff e" for e
    by (auto simp: old_def stale_def split: option.splits node.splits)
  have "realpath ?fs (h_cwd (st_host st)) (render ?D) = Inr ?D"
    using realpath_render [of ?fs ?D] c good by simp
  moreover have "render d @ ''/diffcache'' = render ?D" using c by (simp add: render_def cache_path_def)
  moreover have "fold (prune_entry (st_names st) (st_host st) ?cutoff (render d @ ''/diffcache'')) es (?fs, 0) =
    ((\<lambda>r. if \<exists>e \<in> set es. r = ?D @ [e] \<and> stale ?fs ?D ?cutoff e then None else ?fs r),
     0 + length (filter (stale ?fs ?D ?cutoff) es))"
    by (rule prune_entries) (use c good es isfile gn dist path in auto)
  moreover have "length (filter (stale ?fs ?D ?cutoff) es) = card {e. old e}"
  proof -
    have "set (filter (stale ?fs ?D ?cutoff) es) = {e. old e}"
      using es by (auto simp: old) (auto simp: stale_def split: option.splits)
    with dist show ?thesis by (metis distinct_card distinct_filter)
  qed
  ultimately have "handleDiffCachePrune cfg st p = (Result (JObj [(''removed'', JInt (int (card {e. old e})))]),
      set_fs (\<lambda>r. if \<exists>e \<in> set es. r = ?D @ [e] \<and> stale ?fs ?D ?cutoff e then None else ?fs r) st)"
    using dir days(1) c cut by (simp add: handleDiffCachePrune_def reqStr_def Let_def es_def)
  then show ?thesis
    using es by (auto simp: old set_fs_def st_fs_def)
qed

text \<open>
  Beyond that the arithmetic wraps: 200000 days ago is in the future, and everything goes. So it does for a
  negative number.
\<close>

lemma prune_wraps:
  "1700000000000000000 < prune_cutoff 1700000000000000000 200000"
  "1700000000000000000 < prune_cutoff 1700000000000000000 (-1)"
  by (simp_all add: prune_cutoff_def to_int64_def)

end
