(* ===== verification/Substring.thy ===== *)
theory Substring
  imports Prelude
begin

text \<open>
  \<^verbatim>\<open>std::string::find\<close> for strings, which several parts of the library use, and what it finds in a text that is put
  together.
\<close>

definition find_sub :: "string \<Rightarrow> string \<Rightarrow> nat option" where
  "find_sub pat s = List.find (\<lambda>i. starts_with (drop i s) pat) [0..<Suc (length s)]"

definition has_sub :: "string \<Rightarrow> string \<Rightarrow> bool" where
  "has_sub pat s \<longleftrightarrow> find_sub pat s \<noteq> None"

lemma find_sub_None: "find_sub pat s = None \<longleftrightarrow> (\<forall>i \<le> length s. \<not> starts_with (drop i s) pat)"
  by (auto simp: find_sub_def find_None_iff less_Suc_eq_le simp del: upt_Suc)

lemma find_upt_Some: "List.find P [0..<n] = Some i \<longleftrightarrow> i < n \<and> P i \<and> (\<forall>j < i. \<not> P j)"
  by (auto simp: find_Some_iff)

lemma find_sub_Some:
  "find_sub pat s = Some i \<longleftrightarrow> i \<le> length s \<and> starts_with (drop i s) pat \<and> (\<forall>j < i. \<not> starts_with (drop j s) pat)"
  unfolding find_sub_def find_upt_Some by (simp add: less_Suc_eq_le del: upt_Suc)

lemma has_sub_iff: "has_sub pat s \<longleftrightarrow> (\<exists>u v. s = u @ pat @ v)"
proof
  assume "has_sub pat s"
  then obtain i where "i \<le> length s" "starts_with (drop i s) pat"
    by (auto simp: has_sub_def find_sub_Some)
  then have "drop i s = pat @ drop (length pat) (drop i s)"
    unfolding starts_with_def by (metis append_take_drop_id)
  then show "\<exists>u v. s = u @ pat @ v"
    by (metis append_take_drop_id)
next
  assume "\<exists>u v. s = u @ pat @ v"
  then obtain u v where "s = u @ pat @ v" by blast
  then have "length u \<le> length s" "starts_with (drop (length u) s) pat" by simp_all
  then show "has_sub pat s" by (auto simp: has_sub_def find_sub_None)
qed

lemma has_sub_append: "has_sub pat s \<Longrightarrow> has_sub pat (u @ s @ v)"
  unfolding has_sub_iff by (metis append.assoc)

lemma has_sub_self [simp]: "has_sub pat (u @ pat @ v)"
  unfolding has_sub_iff by blast

text \<open>
  A pattern without line feeds that does not occur in the first line block is found at the start of the next:
  an occurrence cannot cross the line feed.
\<close>

lemma starts_with_cross:
  assumes "starts_with (s @ CHR 0x0A # t) pat" and "CHR 0x0A \<notin> set pat"
  shows "starts_with s pat"
proof -
  have p: "take (length pat) (s @ CHR 0x0A # t) = pat" using assms(1) by (simp add: starts_with_def)
  have "length pat \<le> length s"
  proof (rule ccontr)
    assume "\<not> length pat \<le> length s"
    then have "CHR 0x0A \<in> set (take (length pat) (s @ CHR 0x0A # t))" by (cases "length pat - length s") auto
    with p assms(2) show False by simp
  qed
  with p show ?thesis by (simp add: starts_with_def)
qed

lemma find_sub_next_line:
  assumes "\<not> has_sub pat s" and "CHR 0x0A \<notin> set pat" and "pat \<noteq> []" and "starts_with t pat"
  shows "find_sub pat (s @ CHR 0x0A # t) = Some (Suc (length s))"
proof -
  have "\<not> starts_with (drop j (s @ CHR 0x0A # t)) pat" if "j < Suc (length s)" for j
  proof
    assume a: "starts_with (drop j (s @ CHR 0x0A # t)) pat"
    from that have "drop j (s @ CHR 0x0A # t) = drop j s @ CHR 0x0A # t" by simp
    with a have "starts_with (drop j s) pat" using starts_with_cross assms(2) by metis
    with that assms(1) show False by (auto simp: has_sub_def find_sub_None)
  qed
  with assms(4) show ?thesis by (simp add: find_sub_Some)
qed

lemma find_sub_0: "starts_with t pat \<Longrightarrow> find_sub pat t = Some 0"
  by (simp add: find_sub_Some)

end
