(* ===== verification/Refs.thy ===== *)
theory Refs
  imports GitObjects Substring
begin

text \<open>
  Remotes, branches and tags (\<^verbatim>\<open>src/gitmanip/src/refs.cpp\<close>). libgit2 answers about references; its answers are a
  parameter (\<open>ref_lib\<close>), except for the store of tags, which the operations here write and read back. Signing
  and verifying are functions of a \<^verbatim>\<open>Signer\<close> and so parameters too.
\<close>

section \<open>Remotes\<close>

record git_remote =
  gr_url :: "string option"
  gr_pushurl :: "string option"
  gr_refspecs :: "(string option \<times> bool) list"

text \<open>A reference as libgit2 hands it out: full name, branch name, target, whether it is HEAD, and the upstream.\<close>

record git_ref =
  rf_name :: string
  rf_short :: "string option"
  rf_target :: "oid option"
  rf_is_head :: bool

record ref_lib =
  rl_remotes :: "git_failure + string list"
  rl_remote :: "string \<Rightarrow> git_failure + git_remote"
  rl_branches :: "bool \<Rightarrow> bool \<Rightarrow> git_failure + (git_ref \<times> bool) list"
  rl_branch :: "string \<Rightarrow> bool \<Rightarrow> git_failure + git_ref"
  rl_upstream :: "git_ref \<Rightarrow> git_failure + git_ref"
  rl_head :: "git_failure + git_ref"
  rl_detached :: bool
  rl_change :: "string list \<Rightarrow> git_failure + unit"

record remote_info =
  ri_name :: string
  ri_url :: string
  ri_push_url :: string
  ri_fetch :: "string list"
  ri_push :: "string list"

definition or_else :: "'a \<Rightarrow> 'a option \<Rightarrow> 'a" where
  "or_else d x = (case x of Some y \<Rightarrow> y | None \<Rightarrow> d)"

lemma or_else_simps [simp]: "or_else d None = d" "or_else d (Some x) = x"
  by (simp_all add: or_else_def)

definition remote_of :: "string \<Rightarrow> git_remote \<Rightarrow> remote_info" where
  "remote_of nm r =
     \<lparr>ri_name = nm, ri_url = or_else [] (gr_url r), ri_push_url = or_else (or_else [] (gr_url r)) (gr_pushurl r),
      ri_fetch = [s. (Some s, True) \<leftarrow> gr_refspecs r], ri_push = [s. (Some s, False) \<leftarrow> gr_refspecs r]\<rparr>"

text \<open>\<^verbatim>\<open>GIT_ENOTFOUND\<close> is no error here but no answer.\<close>

definition found :: "string \<Rightarrow> git_failure + 'a \<Rightarrow> gm_error + 'a option" where
  "found ctx r =
     (case r of
        Inr x \<Rightarrow> Inr (Some x)
      | Inl f \<Rightarrow> if gf_code f = GIT_ENOTFOUND then Inr None else checked ctx (Inl f))"

definition remote_get :: "ref_lib \<Rightarrow> string \<Rightarrow> gm_error + remote_info option" where
  "remote_get rl nm = bindr (found (''looking up remote '' @ nm) (rl_remote rl (c_str nm))) (\<lambda>r. Inr (map_option (remote_of nm) r))"

definition somes :: "'a option list \<Rightarrow> 'a list" where
  "somes xs = List.map_filter (\<lambda>x. x) xs"

definition remote_list :: "ref_lib \<Rightarrow> gm_error + remote_info list" where
  "remote_list rl =
     bindr (checked ''listing remotes'' (rl_remotes rl)) (\<lambda>ns.
     bindr (each (remote_get rl) ns) (\<lambda>rs. Inr (somes rs)))"

definition remote_names :: "ref_lib \<Rightarrow> gm_error + string list" where
  "remote_names rl = checked ''listing remote names'' (rl_remotes rl)"

definition remote_exists :: "ref_lib \<Rightarrow> string \<Rightarrow> bool" where
  "remote_exists rl nm = (case rl_remote rl (c_str nm) of Inr _ \<Rightarrow> True | Inl _ \<Rightarrow> False)"

text \<open>The calls that change remotes hand their arguments to libgit2 as C strings and check its answer.\<close>

definition remote_add :: "ref_lib \<Rightarrow> string \<Rightarrow> string \<Rightarrow> gm_error + unit" where
  "remote_add rl nm url = checked (''creating remote '' @ nm) (rl_change rl [''create'', c_str nm, c_str url])"

definition remote_remove :: "ref_lib \<Rightarrow> string \<Rightarrow> gm_error + unit" where
  "remote_remove rl nm = checked (''deleting remote '' @ nm) (rl_change rl [''delete'', c_str nm])"

definition remote_rename :: "ref_lib \<Rightarrow> string \<Rightarrow> string \<Rightarrow> gm_error + unit" where
  "remote_rename rl old new =
     checked (''renaming remote '' @ old @ '' to '' @ new) (rl_change rl [''rename'', c_str old, c_str new])"

definition remote_set_url :: "ref_lib \<Rightarrow> string \<Rightarrow> string \<Rightarrow> gm_error + unit" where
  "remote_set_url rl nm url = checked (''setting URL for remote '' @ nm) (rl_change rl [''set_url'', c_str nm, c_str url])"

definition remote_set_push_url :: "ref_lib \<Rightarrow> string \<Rightarrow> string \<Rightarrow> gm_error + unit" where
  "remote_set_push_url rl nm url =
     checked (''setting push URL for remote '' @ nm) (rl_change rl [''set_pushurl'', c_str nm, c_str url])"

section \<open>Branches\<close>

record branch_info =
  bi_name :: string
  bi_refname :: string
  bi_target :: oid
  bi_is_remote :: bool
  bi_is_head :: bool
  bi_upstream :: "string option"
  bi_remote_name :: "string option"

definition upstream_name :: "ref_lib \<Rightarrow> git_ref \<Rightarrow> string option" where
  "upstream_name rl r = (case rl_upstream rl r of Inr u \<Rightarrow> rf_short u | Inl _ \<Rightarrow> None)"

definition remote_part :: "string \<Rightarrow> string option" where
  "remote_part nm = (if CHR ''/'' \<in> set nm then Some (before CHR ''/'' nm) else None)"

text \<open>A default-constructed \<^verbatim>\<open>Oid\<close> is all zeros.\<close>

definition branch_of :: "ref_lib \<Rightarrow> string \<Rightarrow> bool \<Rightarrow> git_ref \<Rightarrow> branch_info" where
  "branch_of rl nm is_remote r =
     \<lparr>bi_name = nm, bi_refname = rf_name r, bi_target = or_else zero_oid (rf_target r), bi_is_remote = is_remote,
      bi_is_head = rf_is_head r, bi_upstream = (if is_remote then None else upstream_name rl r),
      bi_remote_name = (if is_remote then remote_part nm else None)\<rparr>"

definition branch_list :: "ref_lib \<Rightarrow> bool \<Rightarrow> bool \<Rightarrow> gm_error + branch_info list" where
  "branch_list rl local remote =
     (if \<not> local \<and> \<not> remote then Inr []
      else bindr (checked ''creating branch iterator'' (rl_branches rl local remote)) (\<lambda>rs.
             Inr (map (\<lambda>(r, is_remote). branch_of rl (or_else [] (rf_short r)) is_remote r) rs)))"

definition branch_get :: "ref_lib \<Rightarrow> string \<Rightarrow> bool \<Rightarrow> gm_error + branch_info option" where
  "branch_get rl nm is_remote =
     bindr (found (''looking up branch '' @ nm) (rl_branch rl (c_str nm) is_remote)) (\<lambda>r.
       Inr (map_option (branch_of rl nm is_remote) r))"

definition branch_current :: "ref_lib \<Rightarrow> branch_info option" where
  "branch_current rl =
     (if rl_detached rl then None
      else case rl_head rl of
        Inl _ \<Rightarrow> None
      | Inr r \<Rightarrow> Some ((branch_of rl (or_else [] (rf_short r)) False r)\<lparr>bi_is_head := True\<rparr>))"

definition branch_exists :: "ref_lib \<Rightarrow> string \<Rightarrow> bool \<Rightarrow> bool" where
  "branch_exists rl nm is_remote = (case rl_branch rl (c_str nm) is_remote of Inr _ \<Rightarrow> True | Inl _ \<Rightarrow> False)"

definition branch_upstream :: "ref_lib \<Rightarrow> string \<Rightarrow> branch_info option" where
  "branch_upstream rl nm =
     (case bindr (rl_branch rl (c_str nm) False) (rl_upstream rl) of
        Inl _ \<Rightarrow> None
      | Inr u \<Rightarrow>
          (let n = or_else [] (rf_short u)
           in Some \<lparr>bi_name = n, bi_refname = rf_name u, bi_target = or_else zero_oid (rf_target u), bi_is_remote = True,
                    bi_is_head = False, bi_upstream = None, bi_remote_name = remote_part n\<rparr>))"

definition set_upstream :: "ref_lib \<Rightarrow> string \<Rightarrow> string \<Rightarrow> gm_error + unit" where
  "set_upstream rl nm up =
     bindr (checked (''looking up branch '' @ nm) (rl_branch rl (c_str nm) False)) (\<lambda>r.
       checked (''setting upstream for '' @ nm) (rl_change rl [''upstream'', rf_name r, c_str up]))"

definition unset_upstream :: "ref_lib \<Rightarrow> string \<Rightarrow> gm_error + unit" where
  "unset_upstream rl nm =
     bindr (checked (''looking up branch '' @ nm) (rl_branch rl (c_str nm) False)) (\<lambda>r.
       checked (''unsetting upstream for '' @ nm) (rl_change rl [''no upstream'', rf_name r]))"

section \<open>Tags\<close>

text \<open>
  The store of tags: what the name points to (an object, or another reference), the objects, and the answers libgit2
  gives when it cannot.
\<close>

record tag_object =
  to_target :: oid
  to_type :: string
  to_name :: string
  to_tagger :: "signature option"
  to_message :: "string option"

datatype tagged = TagObject tag_object | CommitObject | OtherObject

datatype tag_target = Direct oid | Symbolic "oid option"

record tag_store =
  ts_refs :: "string \<rightharpoonup> tag_target"
  ts_objects :: "oid \<rightharpoonup> tagged"
  ts_peel :: "oid \<Rightarrow> oid option"
  ts_id :: "tag_object \<Rightarrow> oid"
  ts_missing :: git_failure
  ts_refused :: "string \<Rightarrow> bool \<Rightarrow> git_failure option"

record tag_info =
  ti_name :: string
  ti_refname :: string
  ti_target :: oid
  ti_commit_target :: oid
  ti_is_annotated :: bool
  ti_is_signed :: bool
  ti_message :: "string option"
  ti_tagger :: "signature option"
  ti_signature :: "string option"

definition PGP :: string where "PGP = ''-----BEGIN PGP SIGNATURE-----''"
definition SSH :: string where "SSH = ''-----BEGIN SSH SIGNATURE-----''"

definition trailing :: "char \<Rightarrow> bool" where
  "trailing c \<longleftrightarrow> c \<in> {CHR 0x0A, CHR 0x0D, CHR '' ''}"

text \<open>The message and the signature in it, if there is one.\<close>

definition split_signature :: "string \<Rightarrow> string \<times> string option" where
  "split_signature msg =
     (case (case find_sub PGP msg of Some i \<Rightarrow> Some i | None \<Rightarrow> find_sub SSH msg) of
        None \<Rightarrow> (msg, None)
      | Some i \<Rightarrow> (rstrip trailing (take i msg), Some (drop i msg)))"

definition resolved :: "tag_target \<Rightarrow> oid option" where
  "resolved t = (case t of Direct i \<Rightarrow> Some i | Symbolic r \<Rightarrow> r)"

definition annotated_info :: "tag_store \<Rightarrow> tag_object \<Rightarrow> tag_info \<Rightarrow> tag_info" where
  "annotated_info ts tob info =
     (let info1 = (case to_message tob of
                     None \<Rightarrow> info
                   | Some m \<Rightarrow>
                       (let (txt, sig) = split_signature m
                        in info\<lparr>ti_message := Some txt, ti_is_signed := (sig \<noteq> None), ti_signature := sig\<rparr>))
      in info1\<lparr>ti_is_annotated := True, ti_tagger := to_tagger tob,
               ti_commit_target := or_else (ti_target info) (ts_peel ts (ti_target info))\<rparr>)"

definition tag_get :: "tag_store \<Rightarrow> string \<Rightarrow> gm_error + tag_info option" where
  "tag_get ts nm =
     (case ts_refs ts (c_str nm) of
        None \<Rightarrow> found (''looking up tag '' @ nm) (Inl (ts_missing ts))
      | Some r \<Rightarrow>
          (case resolved r of
             None \<Rightarrow> Inr None
           | Some i \<Rightarrow>
               (let info = \<lparr>ti_name = nm, ti_refname = ''refs/tags/'' @ nm, ti_target = i, ti_commit_target = zero_oid,
                            ti_is_annotated = False, ti_is_signed = False, ti_message = None, ti_tagger = None,
                            ti_signature = None\<rparr>
                in Inr (Some (case ts_objects ts i of
                     Some (TagObject tob) \<Rightarrow> annotated_info ts tob info
                   | Some CommitObject \<Rightarrow> info\<lparr>ti_commit_target := i\<rparr>
                   | _ \<Rightarrow> info)))))"

definition tag_list :: "tag_store \<Rightarrow> git_failure + string list \<Rightarrow> gm_error + tag_info list" where
  "tag_list ts names =
     bindr (checked ''listing tags'' names) (\<lambda>ns. bindr (each (tag_get ts) ns) (\<lambda>infos. Inr (somes infos)))"

definition tag_exists :: "tag_store \<Rightarrow> string \<Rightarrow> bool" where
  "tag_exists ts nm \<longleftrightarrow> ts_refs ts (c_str nm) \<noteq> None"

definition pointing_to :: "tag_store \<Rightarrow> git_failure + string list \<Rightarrow> oid \<Rightarrow> gm_error + string list" where
  "pointing_to ts names i =
     bindr (tag_list ts names) (\<lambda>infos. Inr (map ti_name (filter (\<lambda>t. ti_commit_target t = i) infos)))"

text \<open>
  \<^verbatim>\<open>git_tag_create\<close> stores the message as it is and points the name to the new object; it refuses a name that is
  taken (unless forced) or not a name.
\<close>

definition git_tag_create :: "tag_store \<Rightarrow> string \<Rightarrow> oid \<Rightarrow> signature \<Rightarrow> string \<Rightarrow> bool \<Rightarrow> git_failure + tag_store" where
  "git_tag_create ts nm target sig msg force =
     (case ts_refused ts (c_str nm) force of
        Some f \<Rightarrow> Inl f
      | None \<Rightarrow>
          (let tob = \<lparr>to_target = target, to_type = ''commit'', to_name = c_str nm, to_tagger = Some sig,
                    to_message = Some (c_str msg)\<rparr>
           in Inr (ts\<lparr>ts_refs := (ts_refs ts)(c_str nm \<mapsto> Direct (ts_id ts tob)),
                      ts_objects := (ts_objects ts)(ts_id ts tob \<mapsto> TagObject tob)\<rparr>)))"

definition create_lightweight :: "tag_store \<Rightarrow> string \<Rightarrow> commit \<Rightarrow> bool \<Rightarrow> gm_error + tag_store" where
  "create_lightweight ts nm target force =
     checked (''creating lightweight tag '' @ nm)
       (case ts_refused ts (c_str nm) force of
          Some f \<Rightarrow> Inl f
        | None \<Rightarrow> Inr (ts\<lparr>ts_refs := (ts_refs ts)(c_str nm \<mapsto> Direct (fst target))\<rparr>))"

definition tagger_signature :: "git_lib \<Rightarrow> signature option \<Rightarrow> gm_error + signature" where
  "tagger_signature lib tagger =
     (case tagger of
        Some s \<Rightarrow> checked ''creating tagger signature'' (gl_signature lib s)
      | None \<Rightarrow> checked ''getting default signature for tag'' (gl_default lib))"

definition create_annotated ::
  "git_lib \<Rightarrow> tag_store \<Rightarrow> string \<Rightarrow> commit \<Rightarrow> string \<Rightarrow> signature option \<Rightarrow> bool \<Rightarrow> gm_error + tag_store" where
  "create_annotated lib ts nm target msg tagger force =
     bindr (tagger_signature lib tagger) (\<lambda>sig.
       checked (''creating annotated tag '' @ nm) (git_tag_create ts nm (fst target) sig msg force))"

text \<open>The line \<^verbatim>\<open>snprintf\<close> writes into 256 bytes.\<close>

definition tagger_line :: "signature \<Rightarrow> string" where
  "tagger_line s =
     (let h = sgn (sg_offset s) * (\<bar>sg_offset s\<bar> div 60)
      in take 255 (''tagger '' @ sg_name s @ '' <'' @ sg_email s @ ''> '' @ int_text (sg_time s) @ '' ''
           @ (if h < 0 then ''-'' else ''+'') @ two_digits (nat \<bar>h\<bar>) @ two_digits (nat (\<bar>sg_offset s\<bar> mod 60)) @ [CHR 0x0A]))"

definition tag_content :: "oid \<Rightarrow> string \<Rightarrow> string \<Rightarrow> signature option \<Rightarrow> string \<Rightarrow> string" where
  "tag_content target type nm tagger msg =
     ''object '' @ target @ [CHR 0x0A] @ ''type '' @ type @ [CHR 0x0A] @ ''tag '' @ nm @ [CHR 0x0A]
     @ (case tagger of Some s \<Rightarrow> tagger_line s | None \<Rightarrow> []) @ [CHR 0x0A] @ msg"

definition with_signature :: "string \<Rightarrow> string \<Rightarrow> string" where
  "with_signature msg sg = (if msg \<noteq> [] \<and> last msg \<noteq> CHR 0x0A then msg @ [CHR 0x0A] else msg) @ sg"

definition create_signed ::
  "git_lib \<Rightarrow> (string \<Rightarrow> gm_error + string) \<Rightarrow> tag_store \<Rightarrow> string \<Rightarrow> commit \<Rightarrow> string \<Rightarrow> signature option \<Rightarrow> bool
    \<Rightarrow> gm_error + tag_store" where
  "create_signed lib sign ts nm target msg tagger force =
     bindr (tagger_signature lib tagger) (\<lambda>sig.
     bindr (sign (tag_content (fst target) ''commit'' nm (Some sig) msg)) (\<lambda>sg.
       checked (''creating signed tag '' @ nm) (git_tag_create ts nm (fst target) sig (with_signature msg sg) force)))"

definition tag_remove :: "tag_store \<Rightarrow> string \<Rightarrow> gm_error + tag_store" where
  "tag_remove ts nm =
     checked (''deleting tag '' @ nm)
       (if ts_refs ts (c_str nm) = None then Inl (ts_missing ts)
        else Inr (ts\<lparr>ts_refs := (ts_refs ts)(c_str nm := None)\<rparr>))"

text \<open>\<open>check data sg\<close> is the signer's verdict on \<open>sg\<close> as a signature of \<open>data\<close>.\<close>

definition tag_verify :: "(string \<Rightarrow> string \<Rightarrow> bool) \<Rightarrow> tag_store \<Rightarrow> string \<Rightarrow> gm_error + bool" where
  "tag_verify check ts nm =
     bindr (tag_get ts nm) (\<lambda>got.
       case got of
         None \<Rightarrow> Inl \<lparr>ge_code = NotFound, ge_message = ''Tag '' @ nm @ '' not found''\<rparr>
       | Some info \<Rightarrow>
           (case (ti_is_signed info, ti_signature info) of
              (False, _) \<Rightarrow> Inl \<lparr>ge_code = InvalidOperation, ge_message = ''Tag '' @ nm @ '' is not signed''\<rparr>
            | (True, None) \<Rightarrow> Inl \<lparr>ge_code = InvalidOperation, ge_message = ''Tag '' @ nm @ '' has no signature''\<rparr>
            | (True, Some sg) \<Rightarrow>
                (case ts_refs ts (c_str nm) of
                   Some (Direct i) \<Rightarrow>
                     (case ts_objects ts i of
                        Some (TagObject tob) \<Rightarrow>
                          Inr (check (tag_content (to_target tob) (to_type tob) (to_name tob) (to_tagger tob)
                                        (or_else [] (ti_message info))) sg)
                      | _ \<Rightarrow> Inr False)
                 | _ \<Rightarrow> Inr False)))"

section \<open>Signing a tag and verifying it\<close>

definition marked :: "string \<Rightarrow> bool" where
  "marked sg \<longleftrightarrow> starts_with sg PGP \<or> (starts_with sg SSH \<and> \<not> has_sub PGP sg)"

lemma markers: "CHR 0x0A \<notin> set PGP" "CHR 0x0A \<notin> set SSH" "PGP \<noteq> []" "SSH \<noteq> []"
  by (simp_all add: PGP_def SSH_def)

lemma rstrip_snoc: "rstrip P (s @ [c]) = (if P c then rstrip P s else s @ [c])"
  by (simp add: rstrip_def)

lemma split_with_signature:
  assumes "\<not> has_sub PGP msg" and "\<not> has_sub SSH msg" and "marked sg"
  shows "split_signature (with_signature msg sg) =
    (rstrip trailing msg, Some sg)"
proof -
  define pat where "pat = (if starts_with sg PGP then PGP else SSH)"
  have no: "\<not> has_sub pat msg" "CHR 0x0A \<notin> set pat" "pat \<noteq> []" "starts_with sg pat"
    using assms markers by (auto simp: pat_def marked_def)
  have pgp: "find_sub PGP (u @ CHR 0x0A # sg) = None" "find_sub PGP sg = None" if "\<not> starts_with sg PGP" "\<not> has_sub PGP u" for u
  proof -
    have sub: "\<not> has_sub PGP sg" using that assms(3) by (simp add: marked_def)
    then show "find_sub PGP sg = None" by (simp add: has_sub_def)
    have "\<not> starts_with (drop j (u @ CHR 0x0A # sg)) PGP" for j
    proof (cases "j \<le> length u")
      case True
      then have "drop j (u @ CHR 0x0A # sg) = drop j u @ CHR 0x0A # sg" by simp
      with starts_with_cross [of "drop j u" sg PGP] markers that(2) True show ?thesis
        by (auto simp: has_sub_def find_sub_None)
    next
      case False
      then obtain k where "j = Suc (length u + k)" by (metis add_Suc_right less_imp_Suc_add not_le)
      then have "drop j (u @ CHR 0x0A # sg) = drop k sg" by simp
      moreover have "\<not> starts_with (drop k sg) PGP"
      proof (cases "k \<le> length sg")
        case True
        with sub show ?thesis by (auto simp: has_sub_def find_sub_None)
      qed (use markers(3) in \<open>auto simp: starts_with_def\<close>)
      ultimately show ?thesis by simp
    qed
    then show "find_sub PGP (u @ CHR 0x0A # sg) = None" by (simp add: find_sub_None)
  qed
  have at: "(case find_sub PGP (u @ CHR 0x0A # sg) of Some i \<Rightarrow> Some i | None \<Rightarrow> find_sub SSH (u @ CHR 0x0A # sg))
      = Some (Suc (length u))" if "\<not> has_sub PGP u" "\<not> has_sub SSH u" for u
    using find_sub_next_line [of pat u sg] no(2-4) that pgp(1) [OF _ that(1)]
    by (auto simp: pat_def split: if_splits)
  show ?thesis
  proof (cases "msg = []")
    case True
    have "(case find_sub PGP sg of Some i \<Rightarrow> Some i | None \<Rightarrow> find_sub SSH sg) = Some 0"
      using find_sub_0 [OF no(4)] pgp(2) [of "[]"] assms(1) True by (auto simp: pat_def split: if_splits)
    with True show ?thesis by (simp add: split_signature_def with_signature_def rstrip_def)
  next
    case False
    then obtain u where u: "with_signature msg sg = u @ CHR 0x0A # sg" "msg = u \<or> msg = u @ [CHR 0x0A]"
      by (cases "last msg = CHR 0x0A") (auto simp: with_signature_def, metis append_butlast_last_id append.assoc append_Cons append_Nil)
    have "\<not> has_sub PGP u" "\<not> has_sub SSH u"
      using u(2) assms(1,2) has_sub_append [of _ u "[]" "[CHR 0x0A]"] by auto
    from at [OF this] have "split_signature (with_signature msg sg) = (rstrip trailing (u @ [CHR 0x0A]), Some sg)"
      by (simp add: split_signature_def u(1))
    then show ?thesis using u(2) by (auto simp: rstrip_snoc trailing_def)
  qed
qed

text \<open>
  What verification checks. A tag signed over a message without a signature marker is checked, with the very
  signature that was made, against the content that was signed, but with the white space at the end of its
  message removed: the two are the same text, and a sound signer accepts, if and only if the message does not
  end in a space or line end.
\<close>

theorem signed_tag_verifies:
  assumes "create_signed lib sign ts nm target msg tagger force = Inr ts'"
    and "CHR 0x00 \<notin> set nm" and "CHR 0x00 \<notin> set msg"
    and "\<not> has_sub PGP msg" and "\<not> has_sub SSH msg"
    and "\<forall>d sg. sign d = Inr sg \<longrightarrow> marked sg \<and> CHR 0x00 \<notin> set sg"
  shows "\<exists>sig sg. sign (tag_content (fst target) ''commit'' nm (Some sig) msg) = Inr sg
    \<and> tag_verify check ts' nm = Inr (check (tag_content (fst target) ''commit'' nm (Some sig) (rstrip trailing msg)) sg)
    \<and> (tag_content (fst target) ''commit'' nm (Some sig) (rstrip trailing msg)
         = tag_content (fst target) ''commit'' nm (Some sig) msg \<longleftrightarrow> msg = [] \<or> \<not> trailing (last msg))"
proof -
  from assms(1) obtain sig sg where sig: "sign (tag_content (fst target) ''commit'' nm (Some sig) msg) = Inr sg"
    and made: "git_tag_create ts nm (fst target) sig (with_signature msg sg) force = Inr ts'"
    by (auto simp: create_signed_def bindr_Inr checked_Inr)
  from assms(6) sig have sg: "marked sg" "CHR 0x00 \<notin> set sg" by blast+
  define tob where "tob = \<lparr>to_target = fst target, to_type = ''commit'', to_name = nm, to_tagger = Some sig,
                    to_message = Some (with_signature msg sg)\<rparr>"
  have "CHR 0x00 \<notin> set (with_signature msg sg)"
    using assms(3) sg(2) by (auto simp: with_signature_def)
  with made assms(2) have ts': "ts_refs ts' nm = Some (Direct (ts_id ts tob))" "ts_objects ts' (ts_id ts tob) = Some (TagObject tob)"
    by (auto simp: git_tag_create_def tob_def [symmetric] Let_def split: option.splits)
  have "split_signature (with_signature msg sg) = (rstrip trailing msg, Some sg)"
    by (rule split_with_signature [OF assms(4,5) sg(1)])
  then obtain info where info: "tag_get ts' nm = Inr (Some info)" "ti_is_signed info" "ti_signature info = Some sg"
    "ti_message info = Some (rstrip trailing msg)"
    using ts' assms(2) by (simp add: tag_get_def resolved_def annotated_info_def tob_def)
  have "tag_verify check ts' nm = Inr (check (tag_content (fst target) ''commit'' nm (Some sig) (rstrip trailing msg)) sg)"
    using info ts' assms(2) by (simp add: tag_verify_def tob_def)
  moreover have "rstrip trailing msg = msg \<longleftrightarrow> msg = [] \<or> \<not> trailing (last msg)"
  proof (cases msg rule: rev_cases)
    case (snoc u c)
    have "length (rstrip trailing u) \<le> length u"
      using length_dropWhile_le [of trailing "rev u"] by (simp add: rstrip_def)
    then have "rstrip trailing u \<noteq> u @ [c]" by auto
    with snoc show ?thesis by (simp add: rstrip_snoc)
  qed (simp add: rstrip_def)
  ultimately show ?thesis using sig by (auto simp: tag_content_def)
qed

definition demo_tags :: tag_store where
  "demo_tags = \<lparr>ts_refs = Map.empty, ts_objects = Map.empty, ts_peel = (\<lambda>_. None), ts_id = (\<lambda>t. to_name t),
     ts_missing = demo_failure, ts_refused = (\<lambda>_ _. None)\<rparr>"

definition demo_sign :: "string \<Rightarrow> gm_error + string" where
  "demo_sign d = Inr (PGP @ '' of '' @ filter (\<lambda>c. c \<noteq> CHR 0x00) d)"

definition demo_target :: commit where
  "demo_target = (''c1'', \<lparr>gc_tree = [], gc_parents = [], gc_message = ''m'', gc_author = demo_sig, gc_committer = demo_sig\<rparr>)"

theorem signed_tag_verifies_witness:
  "case create_signed demo_lib demo_sign demo_tags ''v1'' demo_target ''one'' None False of
     Inr ts' \<Rightarrow> tag_verify (\<lambda>d sg. Inr sg = demo_sign d) ts' ''v1'' = Inr True | Inl _ \<Rightarrow> False"
proof -
  have "\<exists>ts'. create_signed demo_lib demo_sign demo_tags ''v1'' demo_target ''one'' None False = Inr ts'"
    by (simp add: create_signed_def tagger_signature_def demo_lib_def demo_sign_def git_tag_create_def demo_tags_def Let_def)
  then obtain ts' where c: "create_signed demo_lib demo_sign demo_tags ''v1'' demo_target ''one'' None False = Inr ts'" by blast
  have no: "\<not> has_sub PGP ''one''" "\<not> has_sub SSH ''one''" by code_simp+
  have sg: "\<forall>d sg. demo_sign d = Inr sg \<longrightarrow> marked sg \<and> CHR 0x00 \<notin> set sg"
  proof (intro allI impI)
    fix d sg assume "demo_sign d = Inr sg"
    then have "sg = PGP @ '' of '' @ filter (\<lambda>c. c \<noteq> CHR 0x00) d" by (simp only: demo_sign_def sum.inject)
    moreover have "CHR 0x00 \<notin> set PGP" by (simp add: PGP_def)
    ultimately show "marked sg \<and> CHR 0x00 \<notin> set sg" by (auto simp: marked_def)
  qed
  have "\<not> trailing (last ''one'')" by (simp add: trailing_def)
  with signed_tag_verifies [OF c _ _ no sg, of "\<lambda>d sg. Inr sg = demo_sign d"] show ?thesis
    by (auto simp: c)
qed

text \<open>Git ends a message with a line feed; such a tag does not verify, whatever the signer accepts only what was signed.\<close>

lemma signed_tag_with_newline_fails:
  "case create_signed demo_lib demo_sign demo_tags ''v1'' demo_target (''one'' @ [CHR 0x0A]) None False of
     Inr ts' \<Rightarrow> tag_verify (\<lambda>d sg. Inr sg = demo_sign d) ts' ''v1'' = Inr False | Inl _ \<Rightarrow> False"
  by code_simp

end
