(* ===== verification/GitWalk.thy ===== *)
theory GitWalk
  imports GitObjects Substring
begin

text \<open>
  Walking history (\<^verbatim>\<open>src/gitmanip\<close>): \<^verbatim>\<open>CommitWalker\<close> and the merge diffs of \<^verbatim>\<open>commit.cpp\<close>, \<^verbatim>\<open>FileHistory\<close> and
  \<^verbatim>\<open>CommitSearch\<close> of \<^verbatim>\<open>history.cpp\<close>. Which commits libgit2's walker yields and what its diffs contain are a parameter
  (\<open>walk_lib\<close>), and so is whether a regular expression matches.
\<close>

section \<open>Walkers and diffs\<close>

datatype sort_order = NoOrder | Topological | TimeOrder | ReverseOrder

record walker =
  wk_push :: "oid list"
  wk_hide :: "oid list"
  wk_sort :: sort_order

datatype delta_status = DUnmodified | DAdded | DDeleted | DModified | DRenamed | DCopied | DOther

record delta =
  dl_status :: delta_status
  dl_old :: "string option"
  dl_new :: "string option"
  dl_new_oid :: oid
  dl_stats :: "(nat \<times> nat) option"
  dl_patch :: "git_failure + string"

record walk_lib =
  wl_next :: "walker \<Rightarrow> oid list"
  wl_diff :: "git_tree option \<Rightarrow> git_tree \<Rightarrow> string option \<Rightarrow> git_failure + delta list"
  wl_similar :: "nat \<Rightarrow> bool \<Rightarrow> delta list \<Rightarrow> delta list"
  wl_entry :: "git_tree \<Rightarrow> string \<Rightarrow> git_failure + oid"
  wl_merge_base :: "oid \<Rightarrow> oid \<Rightarrow> git_failure + oid"
  wl_descendant :: "oid \<Rightarrow> oid \<Rightarrow> git_failure + bool"

definition new_walker :: walker where
  "new_walker = \<lparr>wk_push = [], wk_hide = [], wk_sort = NoOrder\<rparr>"

definition wk_push_oid :: "oid \<Rightarrow> walker \<Rightarrow> walker" where
  "wk_push_oid i w = w\<lparr>wk_push := wk_push w @ [i]\<rparr>"

definition wk_hide_oid :: "oid \<Rightarrow> walker \<Rightarrow> walker" where
  "wk_hide_oid i w = w\<lparr>wk_hide := wk_hide w @ [i]\<rparr>"

definition walker_push :: "git_lib \<Rightarrow> repository \<Rightarrow> oid \<Rightarrow> walker \<Rightarrow> gm_error + walker" where
  "walker_push lib rp i w =
     (if rp_commits rp i = None then checked (''pushing '' @ short_id i @ '' to walker'') (Inl (gl_no_commit lib))
      else Inr (wk_push_oid i w))"

definition walker_hide :: "git_lib \<Rightarrow> repository \<Rightarrow> oid \<Rightarrow> walker \<Rightarrow> gm_error + walker" where
  "walker_hide lib rp i w =
     (if rp_commits rp i = None then checked (''hiding '' @ short_id i @ '' from walker'') (Inl (gl_no_commit lib))
      else Inr (wk_hide_oid i w))"

definition push_ref :: "git_lib \<Rightarrow> repository \<Rightarrow> string \<Rightarrow> walker \<Rightarrow> gm_error + walker" where
  "push_ref lib rp refname w =
     (case rp_refs rp (c_str refname) of
        Some i \<Rightarrow> Inr (wk_push_oid i w)
      | None \<Rightarrow> checked (''pushing ref '' @ refname @ '' to walker'') (Inl (gl_no_ref lib)))"

definition hide_ref :: "git_lib \<Rightarrow> repository \<Rightarrow> string \<Rightarrow> walker \<Rightarrow> gm_error + walker" where
  "hide_ref lib rp refname w =
     (case rp_refs rp (c_str refname) of
        Some i \<Rightarrow> Inr (wk_hide_oid i w)
      | None \<Rightarrow> checked (''hiding ref '' @ refname @ '' from walker'') (Inl (gl_no_ref lib)))"

definition push_head :: "git_lib \<Rightarrow> repository \<Rightarrow> walker \<Rightarrow> gm_error + walker" where
  "push_head lib rp w =
     (case rp_refs rp (rp_head rp) of
        Some i \<Rightarrow> Inr (wk_push_oid i w)
      | None \<Rightarrow> checked ''pushing HEAD to walker'' (Inl (gl_no_ref lib)))"

text \<open>\<^verbatim>\<open>sort\<close> replaces the order that was set before.\<close>

definition wk_sorted :: "sort_order \<Rightarrow> walker \<Rightarrow> walker" where
  "wk_sorted s w = w\<lparr>wk_sort := s\<rparr>"

definition walk_commits :: "git_lib \<Rightarrow> walk_lib \<Rightarrow> repository \<Rightarrow> walker \<Rightarrow> gm_error + commit list" where
  "walk_commits lib wl rp w =
     each (\<lambda>i. case rp_commits rp i of
                 Some g \<Rightarrow> Inr (i, g)
               | None \<Rightarrow> checked ''looking up commit during walk'' (Inl (gl_no_commit lib))) (wl_next wl w)"

definition commits_between :: "git_lib \<Rightarrow> walk_lib \<Rightarrow> repository \<Rightarrow> string \<Rightarrow> string \<Rightarrow> gm_error + commit list" where
  "commits_between lib wl rp from_ref to_ref =
     bindr (push_ref lib rp to_ref new_walker) (\<lambda>w.
     bindr (hide_ref lib rp from_ref w) (\<lambda>w'.
       walk_commits lib wl rp (wk_sorted ReverseOrder (wk_sorted Topological w'))))"

text \<open>Two calls of \<^verbatim>\<open>sort\<close> do not combine: the walk is in reverse order of nothing in particular.\<close>

lemma between_not_topological: "wk_sorted ReverseOrder (wk_sorted Topological w) = wk_sorted ReverseOrder w"
  by (simp add: wk_sorted_def)

section \<open>Diffs of a commit\<close>

definition diff_from_parent :: "git_lib \<Rightarrow> walk_lib \<Rightarrow> repository \<Rightarrow> commit \<Rightarrow> nat \<Rightarrow> gm_error + delta list" where
  "diff_from_parent lib wl rp c n =
     (if gc_parents (snd c) = [] then checked ''creating tree-to-tree diff'' (wl_diff wl (Some []) (commit_tree c) None)
      else if length (gc_parents (snd c)) \<le> n
      then Inl \<lparr>ge_code = InvalidArgument,
                ge_message = ''parent index '' @ nat_text n @ '' out of range for commit '' @ short_id (fst c)
                  @ '' with '' @ nat_text (length (gc_parents (snd c))) @ '' parents''\<rparr>
      else bindr (commit_parent lib rp c n) (\<lambda>p.
             checked ''creating tree-to-tree diff'' (wl_diff wl (Some (commit_tree p)) (commit_tree c) None)))"

definition matches_parent :: "walk_lib \<Rightarrow> delta \<Rightarrow> git_tree \<Rightarrow> bool" where
  "matches_parent wl d t =
     (case wl_entry wl t (c_str (case dl_new d of Some p \<Rightarrow> p | None \<Rightarrow> [])) of
        Inr i \<Rightarrow> i = dl_new_oid d
      | Inl f \<Rightarrow> dl_status d = DDeleted \<and> gf_code f = GIT_ENOTFOUND)"

text \<open>The loop over the other parents, and the second one for additions.\<close>

definition same_entry :: "walk_lib \<Rightarrow> delta \<Rightarrow> git_tree \<Rightarrow> bool" where
  "same_entry wl d t = (wl_entry wl t (c_str (case dl_new d of Some p \<Rightarrow> p | None \<Rightarrow> [])) = Inr (dl_new_oid d))"

definition merge_kept :: "walk_lib \<Rightarrow> git_tree list \<Rightarrow> delta list \<Rightarrow> nat list" where
  "merge_kept wl others ds =
     filter (\<lambda>i. \<not> (list_ex (matches_parent wl (ds ! i)) others
                  \<or> (dl_status (ds ! i) = DAdded \<and> list_ex (same_entry wl (ds ! i)) others))) [0..<length ds]"

definition parent_trees :: "git_lib \<Rightarrow> repository \<Rightarrow> commit \<Rightarrow> gm_error + git_tree list" where
  "parent_trees lib rp c =
     bindr (each (commit_parent lib rp c) [0..<length (gc_parents (snd c))]) (\<lambda>ps. Inr (map commit_tree ps))"

definition merge_diff :: "git_lib \<Rightarrow> walk_lib \<Rightarrow> repository \<Rightarrow> commit \<Rightarrow> gm_error + delta list" where
  "merge_diff lib wl rp c =
     (if length (gc_parents (snd c)) \<le> 1 then diff_from_parent lib wl rp c 0
      else bindr (parent_trees lib rp c) (\<lambda>ts.
           bindr (checked ''creating base diff for merge_diff'' (wl_diff wl (Some (hd ts)) (commit_tree c) None)) (\<lambda>base.
             (let ds = wl_similar wl 50 False base
              in if merge_kept wl (tl ts) ds = []
                 then checked ''creating empty diff'' (wl_diff wl (Some (commit_tree c)) (commit_tree c) None)
                 else Inr ds))))"

definition has_merge_changes :: "git_lib \<Rightarrow> walk_lib \<Rightarrow> repository \<Rightarrow> commit \<Rightarrow> gm_error + bool" where
  "has_merge_changes lib wl rp c =
     (if length (gc_parents (snd c)) \<le> 1 then Inr False
      else bindr (parent_trees lib rp c) (\<lambda>ts.
             case wl_diff wl (Some (hd ts)) (commit_tree c) None of
               Inl _ \<Rightarrow> Inr False
             | Inr ds \<Rightarrow> Inr (list_ex (\<lambda>d. \<not> list_ex (matches_parent wl d) (tl ts)) ds)))"

lemma merge_kept_Nil:
  "merge_kept wl others ds = [] \<longleftrightarrow> (\<forall>d \<in> set ds. list_ex (matches_parent wl d) others)"
proof -
  have same: "list_ex (same_entry wl d) others \<Longrightarrow> list_ex (matches_parent wl d) others" for d
    by (induction others) (auto simp: same_entry_def matches_parent_def)
  have "merge_kept wl others ds = filter (\<lambda>i. \<not> list_ex (matches_parent wl (ds ! i)) others) [0..<length ds]"
    unfolding merge_kept_def using same by (intro filter_cong) auto
  then show ?thesis
    by (auto simp: filter_empty_conv all_set_conv_all_nth)
qed

text \<open>
  The two questions about a merge agree: where similarity finds no renames in the diff against the first parent,
  a merge commit \<^verbatim>\<open>has_merge_changes\<close> exactly if its \<^verbatim>\<open>merge_diff\<close> is not empty, and that is when some change is
  in none of the other parents.
\<close>

theorem merge_changes_agree:
  assumes "1 < length (gc_parents (snd c))" and "parent_trees lib rp c = Inr ts"
    and "wl_diff wl (Some (hd ts)) (commit_tree c) None = Inr ds" and "wl_similar wl 50 False ds = ds"
    and "wl_diff wl (Some (commit_tree c)) (commit_tree c) None = Inr []"
  shows "\<exists>d. merge_diff lib wl rp c = Inr d \<and> has_merge_changes lib wl rp c = Inr (d \<noteq> [])
    \<and> (d \<noteq> [] \<longleftrightarrow> (\<exists>x \<in> set ds. \<not> list_ex (matches_parent wl x) (tl ts)))"
proof (cases "merge_kept wl (tl ts) ds = []")
  case True
  with assms show ?thesis
    by (auto simp: merge_diff_def has_merge_changes_def merge_kept_Nil list_ex_iff)
next
  case False
  then have "ds \<noteq> []" by (auto simp: merge_kept_def)
  with False assms show ?thesis
    by (auto simp: merge_diff_def has_merge_changes_def merge_kept_Nil list_ex_iff)
qed

text \<open>But the diff is not what the name says: one change of the merge's own brings back all of the others.\<close>

lemma merge_diff_all_or_nothing:
  assumes "1 < length (gc_parents (snd c))" and "parent_trees lib rp c = Inr ts"
    and "wl_diff wl (Some (hd ts)) (commit_tree c) None = Inr ds" and "merge_kept wl (tl ts) (wl_similar wl 50 False ds) \<noteq> []"
  shows "merge_diff lib wl rp c = Inr (wl_similar wl 50 False ds)"
  using assms by (simp add: merge_diff_def)

section \<open>The history of a file\<close>

datatype change_type = Added | Modified | Renamed | Copied | Deleted

record history_options =
  ho_follow :: bool
  ho_threshold :: nat
  ho_max :: nat
  ho_since :: "oid option"
  ho_until :: "oid option"

record history_entry =
  he_commit :: oid
  he_path :: string
  he_previous :: "string option"
  he_change :: change_type
  he_added :: nat
  he_deleted :: nat

record file_history =
  fh_entries :: "history_entry list"
  fh_path :: string
  fh_renamed :: bool

definition or_empty :: "string option \<Rightarrow> string" where
  "or_empty s = (case s of Some x \<Rightarrow> x | None \<Rightarrow> [])"

definition touches :: "string \<Rightarrow> delta \<Rightarrow> bool" where
  "touches path d \<longleftrightarrow> or_empty (dl_new d) = path \<or> or_empty (dl_old d) = path"

definition change_of :: "delta_status \<Rightarrow> change_type" where
  "change_of s = (case s of DAdded \<Rightarrow> Added | DDeleted \<Rightarrow> Deleted | DRenamed \<Rightarrow> Renamed | DCopied \<Rightarrow> Copied | _ \<Rightarrow> Modified)"

definition entry_of :: "oid \<Rightarrow> string \<Rightarrow> delta \<Rightarrow> history_entry" where
  "entry_of i path d =
     \<lparr>he_commit = i, he_path = path,
      he_previous = (if dl_status d \<in> {DRenamed, DCopied} then Some (or_empty (dl_old d)) else None),
      he_change = change_of (dl_status d),
      he_added = (case dl_stats d of Some (a, _) \<Rightarrow> a | None \<Rightarrow> 0),
      he_deleted = (case dl_stats d of Some (_, r) \<Rightarrow> r | None \<Rightarrow> 0)\<rparr>"

text \<open>A rename is followed when it leads to the path we are on.\<close>

definition follows :: "history_options \<Rightarrow> string \<Rightarrow> delta \<Rightarrow> bool" where
  "follows opt path d \<longleftrightarrow> dl_status d = DRenamed \<and> ho_follow opt \<and> or_empty (dl_new d) = path"

text \<open>The deltas of one commit against its first parent, as the walk looks at them: nothing when they cannot be made.\<close>

definition commit_deltas :: "walk_lib \<Rightarrow> repository \<Rightarrow> history_options \<Rightarrow> string \<Rightarrow> git_commit \<Rightarrow> delta list" where
  "commit_deltas wl rp opt path g =
     (let parent = (if gc_parents g = [] then None else map_option gc_tree (rp_commits rp (hd (gc_parents g))))
      in case wl_diff wl parent (gc_tree g) (if ho_follow opt then None else Some (c_str path)) of
           Inl _ \<Rightarrow> []
         | Inr ds \<Rightarrow> if ho_follow opt then wl_similar wl (ho_threshold opt) True ds else ds)"

fun trace_loop :: "walk_lib \<Rightarrow> repository \<Rightarrow> history_options \<Rightarrow> oid list \<Rightarrow> oid set \<Rightarrow> file_history \<Rightarrow> file_history" where
  "trace_loop wl rp opt [] seen fh = fh"
| "trace_loop wl rp opt (i # is) seen fh =
     (if 0 < ho_max opt \<and> ho_max opt \<le> length (fh_entries fh) then fh
      else if i \<in> seen then trace_loop wl rp opt is seen fh
      else case rp_commits rp i of
        None \<Rightarrow> trace_loop wl rp opt is (insert i seen) fh
      | Some g \<Rightarrow>
          (case List.find (touches (fh_path fh)) (commit_deltas wl rp opt (fh_path fh) g) of
             None \<Rightarrow> trace_loop wl rp opt is (insert i seen) fh
           | Some d \<Rightarrow>
               trace_loop wl rp opt is (insert i seen)
                 \<lparr>fh_entries = fh_entries fh @ [entry_of i (fh_path fh) d],
                  fh_path = (if follows opt (fh_path fh) d then or_empty (dl_old d) else fh_path fh),
                  fh_renamed = (fh_renamed fh \<or> follows opt (fh_path fh) d)\<rparr>))"

definition history_walker :: "git_lib \<Rightarrow> repository \<Rightarrow> history_options \<Rightarrow> gm_error + walker" where
  "history_walker lib rp opt =
     bindr (case ho_until opt of
              Some i \<Rightarrow> if rp_commits rp i = None then checked ''pushing to walker'' (Inl (gl_no_commit lib))
                       else Inr (wk_push_oid i new_walker)
            | None \<Rightarrow> (case rp_refs rp (rp_head rp) of
                        Some i \<Rightarrow> Inr (wk_push_oid i new_walker)
                      | None \<Rightarrow> checked ''pushing to walker'' (Inl (gl_no_ref lib)))) (\<lambda>w.
       Inr (wk_sorted TimeOrder (case ho_since opt of Some i \<Rightarrow> wk_hide_oid i w | None \<Rightarrow> w)))"

definition trace :: "git_lib \<Rightarrow> walk_lib \<Rightarrow> repository \<Rightarrow> string \<Rightarrow> history_options \<Rightarrow> gm_error + file_history" where
  "trace lib wl rp path opt =
     bindr (history_walker lib rp opt) (\<lambda>w.
       Inr (trace_loop wl rp opt (wl_next wl w) {} \<lparr>fh_entries = [], fh_path = path, fh_renamed = False\<rparr>))"

text \<open>\<^verbatim>\<open>FileHistoryOptions\<close> as it is by default.\<close>

definition default_history :: history_options where
  "default_history = \<lparr>ho_follow = True, ho_threshold = 50, ho_max = 0, ho_since = None, ho_until = None\<rparr>"

definition find_introduction :: "git_lib \<Rightarrow> walk_lib \<Rightarrow> repository \<Rightarrow> string \<Rightarrow> bool \<Rightarrow> gm_error + oid option" where
  "find_introduction lib wl rp path follow =
     bindr (trace lib wl rp path (default_history\<lparr>ho_follow := follow\<rparr>)) (\<lambda>fh.
       Inr (case List.find (\<lambda>e. he_change e = Added) (rev (fh_entries fh)) of
              Some e \<Rightarrow> Some (he_commit e)
            | None \<Rightarrow> if fh_entries fh = [] then None else Some (he_commit (last (fh_entries fh)))))"

definition find_deletion :: "git_lib \<Rightarrow> walk_lib \<Rightarrow> repository \<Rightarrow> string \<Rightarrow> gm_error + oid option" where
  "find_deletion lib wl rp path =
     bindr (trace lib wl rp path (default_history\<lparr>ho_follow := False\<rparr>)) (\<lambda>fh.
       Inr (map_option he_commit (List.find (\<lambda>e. he_change e = Deleted) (fh_entries fh))))"

definition add_new :: "string \<Rightarrow> string list \<Rightarrow> string list" where
  "add_new p ps = (if p \<in> set ps then ps else ps @ [p])"

definition all_paths :: "git_lib \<Rightarrow> walk_lib \<Rightarrow> repository \<Rightarrow> string \<Rightarrow> gm_error + string list" where
  "all_paths lib wl rp path =
     bindr (trace lib wl rp path default_history) (\<lambda>fh.
       Inr (fold (\<lambda>e ps. add_new (he_path e) (case he_previous e of Some p \<Rightarrow> add_new p ps | None \<Rightarrow> ps))
              (rev (fh_entries fh)) []))"

text \<open>What ties an entry to the next older one: the path it was left with.\<close>

definition left_with :: "history_options \<Rightarrow> history_entry \<Rightarrow> string \<Rightarrow> bool" where
  "left_with opt e path \<longleftrightarrow>
     path = he_path e \<or> (ho_follow opt \<and> he_change e = Renamed \<and> he_previous e = Some path)"

fun chained :: "history_options \<Rightarrow> string \<Rightarrow> history_entry list \<Rightarrow> string \<Rightarrow> bool" where
  "chained opt p [] q = (p = q)"
| "chained opt p (e # es) q = (he_path e = p \<and> (\<exists>r. left_with opt e r \<and> chained opt r es q))"

lemma chained_snoc:
  "chained opt p es q \<Longrightarrow> he_path e = q \<Longrightarrow> left_with opt e r \<Longrightarrow> chained opt p (es @ [e]) r"
  by (induction es arbitrary: p) auto

text \<open>That an entry is a change of its path in its commit.\<close>

definition is_change :: "walk_lib \<Rightarrow> repository \<Rightarrow> history_options \<Rightarrow> history_entry \<Rightarrow> bool" where
  "is_change wl rp opt e \<longleftrightarrow>
     (\<exists>g. rp_commits rp (he_commit e) = Some g
        \<and> (\<exists>d \<in> set (commit_deltas wl rp opt (he_path e) g). touches (he_path e) d \<and> e = entry_of (he_commit e) (he_path e) d))"

lemma left_after: "left_with opt (entry_of i p d) (if follows opt p d then or_empty (dl_old d) else p)"
  by (simp add: left_with_def entry_of_def follows_def change_of_def)

definition history_ok :: "walk_lib \<Rightarrow> repository \<Rightarrow> history_options \<Rightarrow> string \<Rightarrow> file_history \<Rightarrow> bool" where
  "history_ok wl rp opt p fh \<longleftrightarrow>
     chained opt p (fh_entries fh) (fh_path fh) \<and> list_all (is_change wl rp opt) (fh_entries fh)
     \<and> (0 < ho_max opt \<longrightarrow> length (fh_entries fh) \<le> ho_max opt) \<and> distinct (map he_commit (fh_entries fh))"

lemma history_ok_step:
  assumes ok: "history_ok wl rp opt p fh" and g: "rp_commits rp i = Some g"
    and d: "d \<in> set (commit_deltas wl rp opt (fh_path fh) g)" "touches (fh_path fh) d"
    and go: "\<not> (0 < ho_max opt \<and> ho_max opt \<le> length (fh_entries fh))" and new: "i \<notin> set (map he_commit (fh_entries fh))"
  shows "history_ok wl rp opt p
    \<lparr>fh_entries = fh_entries fh @ [entry_of i (fh_path fh) d],
     fh_path = (if follows opt (fh_path fh) d then or_empty (dl_old d) else fh_path fh), fh_renamed = r\<rparr>"
proof -
  have e: "he_commit (entry_of i (fh_path fh) d) = i" "he_path (entry_of i (fh_path fh) d) = fh_path fh"
    by (simp_all add: entry_of_def)
  have "is_change wl rp opt (entry_of i (fh_path fh) d)"
    unfolding is_change_def e using d g by blast
  moreover have "chained opt p (fh_entries fh @ [entry_of i (fh_path fh) d])
      (if follows opt (fh_path fh) d then or_empty (dl_old d) else fh_path fh)"
    using ok chained_snoc [OF _ e(2) left_after] by (simp add: history_ok_def)
  ultimately show ?thesis
    using ok go new e(1) by (simp add: history_ok_def list_all_append_iff) linarith
qed

lemma trace_loop_ok:
  "history_ok wl rp opt p fh \<Longrightarrow> set (map he_commit (fh_entries fh)) \<subseteq> seen \<Longrightarrow>
     history_ok wl rp opt p (trace_loop wl rp opt is seen fh)"
proof (induction wl rp opt "is" seen fh rule: trace_loop.induct)
  case (2 wl rp opt i "is" seen fh)
  show ?case
  proof (cases "0 < ho_max opt \<and> ho_max opt \<le> length (fh_entries fh)")
    case True
    with 2(5) show ?thesis by simp
  next
    case go: False
    show ?thesis
    proof (cases "i \<in> seen")
      case True
      with go 2(1) [OF go True 2(5,6)] show ?thesis by auto
    next
      case new: False
      show ?thesis
      proof (cases "rp_commits rp i")
        case None
        with go new 2(2) [OF go new None 2(5) subset_insertI2 [OF 2(6)]] show ?thesis by auto
      next
        case g: (Some g)
        show ?thesis
        proof (cases "List.find (touches (fh_path fh)) (commit_deltas wl rp opt (fh_path fh) g)")
          case None
          with go new g 2(3) [OF go new g None 2(5) subset_insertI2 [OF 2(6)]] show ?thesis by auto
        next
          case (Some d)
          then have d: "d \<in> set (commit_deltas wl rp opt (fh_path fh) g)" "touches (fh_path fh) d"
            by (auto simp: find_Some_iff)
          have "i \<notin> set (map he_commit (fh_entries fh))" using new 2(6) by blast
          note step = history_ok_step [OF 2(5) g d go this]
          have "history_ok wl rp opt p (trace_loop wl rp opt is (insert i seen)
                 \<lparr>fh_entries = fh_entries fh @ [entry_of i (fh_path fh) d],
                  fh_path = (if follows opt (fh_path fh) d then or_empty (dl_old d) else fh_path fh),
                  fh_renamed = (fh_renamed fh \<or> follows opt (fh_path fh) d)\<rparr>)"
            using 2(6) by (intro 2(4) [OF go new g Some step]) (auto simp: entry_of_def)
          with go new g Some show ?thesis by auto
        qed
      qed
    qed
  qed
qed simp

text \<open>
  A file's history is a chain of its changes: every entry is a change of the path it names, in the commit it names
  (against its first parent), no commit comes twice, there are no more entries than asked for, and the paths form
  an unbroken chain, newest first, from the path asked about to the one the history ends with: each is the one
  before, or what that one was renamed from.
\<close>

theorem history_is_a_chain:
  assumes "trace lib wl rp path opt = Inr fh"
  shows "chained opt path (fh_entries fh) (fh_path fh)
    \<and> list_all (is_change wl rp opt) (fh_entries fh)
    \<and> (0 < ho_max opt \<longrightarrow> length (fh_entries fh) \<le> ho_max opt)
    \<and> distinct (map he_commit (fh_entries fh))"
proof -
  from assms obtain w where
    "fh = trace_loop wl rp opt (wl_next wl w) {} \<lparr>fh_entries = [], fh_path = path, fh_renamed = False\<rparr>"
    by (auto simp: trace_def bindr_Inr)
  moreover have "history_ok wl rp opt path \<lparr>fh_entries = [], fh_path = path, fh_renamed = False\<rparr>"
    by (simp add: history_ok_def)
  ultimately have "history_ok wl rp opt path fh"
    by (simp only: trace_loop_ok file_history.simps list.map list.set empty_subsetI)
  then show ?thesis by (simp add: history_ok_def)
qed

lemma trace_loop_complete:
  assumes "\<not> ho_follow opt" and "ho_max opt = 0" and "distinct is" and "seen \<inter> set is = {}"
  shows "map he_commit (fh_entries (trace_loop wl rp opt is seen fh)) = map he_commit (fh_entries fh)
      @ filter (\<lambda>i. \<exists>g. rp_commits rp i = Some g \<and> list_ex (touches (fh_path fh)) (commit_deltas wl rp opt (fh_path fh) g)) is"
  using assms
proof (induction wl rp opt "is" seen fh rule: trace_loop.induct)
  case (2 wl rp opt i "is" seen fh)
  have nf: "follows opt p d = False" for p d using 2(5) by (simp add: follows_def)
  have none: "List.find P xs = None \<longleftrightarrow> \<not> list_ex P xs" for P :: "delta \<Rightarrow> bool" and xs
    by (auto simp: find_None_iff list_ex_iff)
  have dj: "insert i seen \<inter> set is = {}" "distinct is" "i \<notin> seen" using 2(7,8) by auto
  show ?case
  proof (cases "rp_commits rp i")
    case None
    with 2(2) [OF _ _ None] 2(5,6) dj show ?thesis by simp
  next
    case (Some g)
    show ?thesis
    proof (cases "List.find (touches (fh_path fh)) (commit_deltas wl rp opt (fh_path fh) g)")
      case None
      then have "\<not> list_ex (touches (fh_path fh)) (commit_deltas wl rp opt (fh_path fh) g)" by (simp only: none [symmetric])
      with 2(3) [OF _ _ Some None] 2(5,6) dj Some None show ?thesis by simp
    next
      case (Some d)
      then have "list_ex (touches (fh_path fh)) (commit_deltas wl rp opt (fh_path fh) g)"
        by (auto simp: find_Some_iff list_ex_iff)
      with 2(4) [OF _ _ \<open>rp_commits rp i = Some g\<close> Some] 2(5,6) dj \<open>rp_commits rp i = Some g\<close> Some nf show ?thesis
        by (simp add: entry_of_def)
    qed
  qed
qed simp

text \<open>
  Without following renames nothing is missed: the history of a path, unlimited, is every commit the walk yields
  whose diff against its first parent has a change with that path, in the order of the walk.
\<close>

theorem history_complete:
  assumes "trace lib wl rp path opt = Inr fh" and "\<not> ho_follow opt" and "ho_max opt = 0"
    and "history_walker lib rp opt = Inr w" and "distinct (wl_next wl w)"
  shows "map he_commit (fh_entries fh) =
    filter (\<lambda>i. \<exists>g. rp_commits rp i = Some g \<and> list_ex (touches path) (commit_deltas wl rp opt path g)) (wl_next wl w)"
proof -
  from assms(1,4) have
    "fh = trace_loop wl rp opt (wl_next wl w) {} \<lparr>fh_entries = [], fh_path = path, fh_renamed = False\<rparr>"
    by (auto simp: trace_def)
  with trace_loop_complete [OF assms(2,3,5), of "{}" wl rp "\<lparr>fh_entries = [], fh_path = path, fh_renamed = False\<rparr>"]
  show ?thesis by simp
qed

section \<open>Searching commits\<close>

record search_options =
  so_max :: nat
  so_since :: "int option"
  so_until :: "int option"
  so_author :: "string option"
  so_committer :: "string option"
  so_start_ref :: "string option"
  so_all_branches :: bool
  so_nocase :: bool

definition default_search :: search_options where
  "default_search = \<lparr>so_max = 100, so_since = None, so_until = None, so_author = None, so_committer = None,
     so_start_ref = None, so_all_branches = False, so_nocase = True\<rparr>"

definition in_dates :: "search_options \<Rightarrow> commit \<Rightarrow> bool" where
  "in_dates opt c \<longleftrightarrow>
     (case so_since opt of Some t \<Rightarrow> t \<le> sg_time (gc_author (snd c)) | None \<Rightarrow> True)
     \<and> (case so_until opt of Some t \<Rightarrow> sg_time (gc_author (snd c)) \<le> t | None \<Rightarrow> True)"

definition by_whom :: "string option \<Rightarrow> signature \<Rightarrow> bool" where
  "by_whom who sg = (case who of Some w \<Rightarrow> has_sub w (sg_name sg) \<or> has_sub w (sg_email sg) | None \<Rightarrow> True)"

definition authored :: "search_options \<Rightarrow> commit \<Rightarrow> bool" where
  "authored opt c = by_whom (so_author opt) (gc_author (snd c))"

definition committed :: "search_options \<Rightarrow> commit \<Rightarrow> bool" where
  "committed opt c = by_whom (so_committer opt) (gc_committer (snd c))"

text \<open>The loop all searches share: it stops once it has as many results as asked for.\<close>

fun search_loop :: "nat \<Rightarrow> ('c \<Rightarrow> gm_error + bool) \<Rightarrow> 'c list \<Rightarrow> 'c list \<Rightarrow> gm_error + 'c list" where
  "search_loop limit ok [] found = Inr found"
| "search_loop limit ok (c # cs) found =
     (if 0 < limit \<and> limit \<le> length found then Inr found
      else bindr (ok c) (\<lambda>y. search_loop limit ok cs (if y then found @ [c] else found)))"

definition search_from :: "git_lib \<Rightarrow> walk_lib \<Rightarrow> repository \<Rightarrow> search_options \<Rightarrow> gm_error + commit list" where
  "search_from lib wl rp opt =
     bindr (case so_start_ref opt of Some r \<Rightarrow> push_ref lib rp r new_walker | None \<Rightarrow> push_head lib rp new_walker) (\<lambda>w.
       walk_commits lib wl rp (wk_sorted TimeOrder w))"

definition message_matches :: "search_options \<Rightarrow> string \<Rightarrow> commit \<Rightarrow> bool" where
  "message_matches opt txt c =
     (if so_nocase opt then has_sub (ascii_lower txt) (ascii_lower (commit_message c)) else has_sub txt (commit_message c))"

definition by_message :: "git_lib \<Rightarrow> walk_lib \<Rightarrow> repository \<Rightarrow> string \<Rightarrow> search_options \<Rightarrow> gm_error + commit list" where
  "by_message lib wl rp txt opt =
     bindr (search_from lib wl rp opt) (\<lambda>cs.
       search_loop (so_max opt)
         (\<lambda>c. Inr (in_dates opt c \<and> authored opt c \<and> committed opt c \<and> message_matches opt txt c)) cs [])"

text \<open>\<open>rx\<close> is the compiled expression, which honours \<open>so_nocase\<close>.\<close>

definition by_message_regex ::
  "git_lib \<Rightarrow> walk_lib \<Rightarrow> repository \<Rightarrow> (string \<Rightarrow> bool) \<Rightarrow> search_options \<Rightarrow> gm_error + commit list" where
  "by_message_regex lib wl rp rx opt =
     bindr (search_from lib wl rp opt) (\<lambda>cs.
       search_loop (so_max opt) (\<lambda>c. Inr (in_dates opt c \<and> authored opt c \<and> rx (commit_message c))) cs [])"

definition full_patch :: "delta list \<Rightarrow> gm_error + string" where
  "full_patch ds = bindr (each (\<lambda>d. checked ''creating patch from diff'' (dl_patch d)) ds) (\<lambda>ps. Inr (concat ps))"

definition changed_line :: "(string \<Rightarrow> bool) \<Rightarrow> string \<Rightarrow> bool" where
  "changed_line hit line \<longleftrightarrow> line \<noteq> [] \<and> hd line \<in> {CHR ''+'', CHR ''-''} \<and> hit line"

definition content_matches ::
  "git_lib \<Rightarrow> walk_lib \<Rightarrow> repository \<Rightarrow> search_options \<Rightarrow> (string \<Rightarrow> bool) \<Rightarrow> commit \<Rightarrow> gm_error + bool" where
  "content_matches lib wl rp opt hit c =
     (if \<not> in_dates opt c then Inr False
      else bindr (diff_from_parent lib wl rp c 0) (\<lambda>ds.
           bindr (full_patch ds) (\<lambda>patch. Inr (list_ex (changed_line hit) (getlines patch)))))"

definition by_content :: "git_lib \<Rightarrow> walk_lib \<Rightarrow> repository \<Rightarrow> string \<Rightarrow> search_options \<Rightarrow> gm_error + commit list" where
  "by_content lib wl rp txt opt =
     bindr (search_from lib wl rp opt) (\<lambda>cs. search_loop (so_max opt) (content_matches lib wl rp opt (has_sub txt)) cs [])"

definition by_content_regex ::
  "git_lib \<Rightarrow> walk_lib \<Rightarrow> repository \<Rightarrow> (string \<Rightarrow> bool) \<Rightarrow> search_options \<Rightarrow> gm_error + commit list" where
  "by_content_regex lib wl rp rx opt =
     bindr (search_from lib wl rp opt) (\<lambda>cs. search_loop (so_max opt) (content_matches lib wl rp opt rx) cs [])"

definition touching_file ::
  "git_lib \<Rightarrow> walk_lib \<Rightarrow> repository \<Rightarrow> string \<Rightarrow> bool \<Rightarrow> search_options \<Rightarrow> gm_error + commit list" where
  "touching_file lib wl rp path follow opt =
     bindr (trace lib wl rp path (default_history\<lparr>ho_follow := follow, ho_max := so_max opt\<rparr>)) (\<lambda>fh.
       each (\<lambda>e. lookup_commit lib rp (he_commit e)) (fh_entries fh))"

text \<open>Newest author date first; commits of the same date come in some order, here that of the walks.\<close>

definition touching_files ::
  "git_lib \<Rightarrow> walk_lib \<Rightarrow> repository \<Rightarrow> string list \<Rightarrow> search_options \<Rightarrow> gm_error + commit list" where
  "touching_files lib wl rp paths opt =
     bindr (each (\<lambda>p. touching_file lib wl rp p True opt) paths) (\<lambda>css.
       (let cs = sort_key (\<lambda>c. - sg_time (gc_author (snd c)))
                   (fold (\<lambda>c acc. if fst c \<in> set (map fst acc) then acc else acc @ [c]) (concat css) [])
        in Inr (if 0 < so_max opt then take (so_max opt) cs else cs)))"

text \<open>\<open>names\<close> is \<^verbatim>\<open>branch_names(true, true)\<close>: local and remote-tracking branches by their short names.\<close>

definition search_all ::
  "git_lib \<Rightarrow> walk_lib \<Rightarrow> repository \<Rightarrow> gm_error + string list \<Rightarrow> search_options \<Rightarrow> gm_error + commit list" where
  "search_all lib wl rp names opt =
     bindr (case so_start_ref opt of
              Some r \<Rightarrow> push_ref lib rp r new_walker
            | None \<Rightarrow>
                if so_all_branches opt
                then bindr names (\<lambda>ns. fold (\<lambda>b w. bindr w (push_ref lib rp (''refs/heads/'' @ b))) ns (Inr new_walker))
                else push_head lib rp new_walker) (\<lambda>w.
     bindr (walk_commits lib wl rp (wk_sorted TimeOrder w)) (\<lambda>cs.
       search_loop (so_max opt) (\<lambda>c. Inr (in_dates opt c \<and> authored opt c \<and> committed opt c)) cs []))"

definition merge_base :: "walk_lib \<Rightarrow> oid \<Rightarrow> oid \<Rightarrow> gm_error + oid option" where
  "merge_base wl a b =
     (case wl_merge_base wl a b of
        Inr i \<Rightarrow> Inr (Some i)
      | Inl f \<Rightarrow> if gf_code f = GIT_ENOTFOUND then Inr None else checked ''finding merge base'' (Inl f))"

definition is_ancestor :: "walk_lib \<Rightarrow> oid \<Rightarrow> oid \<Rightarrow> gm_error + bool" where
  "is_ancestor wl a d = checked ''checking ancestry'' (wl_descendant wl d a)"

definition at_most :: "nat \<Rightarrow> 'a list \<Rightarrow> 'a list" where
  "at_most limit xs = (if limit = 0 then xs else take limit xs)"

lemma search_loop_filter:
  "0 < limit \<longrightarrow> length found \<le> limit \<Longrightarrow>
     search_loop limit (\<lambda>c. Inr (P c)) cs found = Inr (at_most limit (found @ filter P cs))"
  by (induction cs arbitrary: found) (auto simp: at_most_def take_Cons')

text \<open>
  A search by message returns what it should: of the commits from the starting point, in the order of the walk,
  those with dates, author, committer and message as asked, and of these the first so many.
\<close>

theorem by_message_exact:
  assumes "search_from lib wl rp opt = Inr cs"
  shows "by_message lib wl rp txt opt =
    Inr (at_most (so_max opt) (filter (\<lambda>c. in_dates opt c \<and> authored opt c \<and> committed opt c \<and> message_matches opt txt c) cs))"
  using assms search_loop_filter [of "so_max opt" "[]"] by (simp add: by_message_def)

text \<open>
  Searching all branches fails as soon as the repository tracks a remote: the short name of a remote-tracking branch
  is looked up among the local ones, and unless one has that very name the whole search is an error.
\<close>

theorem all_branches_fails:
  assumes "names = Inr ns" and "b \<in> set ns" and "rp_refs rp (''refs/heads/'' @ b) = None" and "CHR 0x00 \<notin> set b"
    and "so_all_branches opt" and "so_start_ref opt = None"
  shows "\<exists>e. search_all lib wl rp names opt = Inl e"
proof -
  have none: "\<exists>e. push_ref lib rp (''refs/heads/'' @ b) w = Inl e" for w
    using assms(3,4) by (simp add: push_ref_def)
  have err: "\<exists>e. fold (\<lambda>b w. bindr w (push_ref lib rp (''refs/heads/'' @ b))) xs (Inl e0) = Inl e" for xs e0
    by (induction xs arbitrary: e0) auto
  from assms(2) obtain u v where "ns = u @ b # v" by (meson split_list)
  moreover have "\<exists>e. bindr w (push_ref lib rp (''refs/heads/'' @ b)) = Inl e" for w
    using none by (cases w) auto
  ultimately have "\<exists>e. fold (\<lambda>b w. bindr w (push_ref lib rp (''refs/heads/'' @ b))) ns (Inr new_walker) = Inl e"
    using err by (simp del: append.simps) metis
  with assms(1,5,6) show ?thesis by (auto simp: search_all_def)
qed

text \<open>
  Options that have no effect: a search by expression or by content ignores the committer (and by content the
  author too), one by file everything but the number of results. And a search by content takes the lines that name the files
  of a patch for changed lines.
\<close>

lemma committer_ignored:
  "by_message_regex lib wl rp rx (opt\<lparr>so_committer := w\<rparr>) = by_message_regex lib wl rp rx opt"
  "touching_file lib wl rp path follow (opt\<lparr>so_since := t, so_until := u, so_author := w, so_committer := w, so_start_ref := r\<rparr>)
     = touching_file lib wl rp path follow opt"
  by (simp_all add: by_message_regex_def search_from_def in_dates_def authored_def touching_file_def)

lemma file_name_is_content: "changed_line (has_sub ''TODO'') ''+++ b/TODO.txt''"
  by code_simp

section \<open>A small history\<close>

definition demo_delta :: "delta_status \<Rightarrow> string \<Rightarrow> string \<Rightarrow> delta" where
  "demo_delta s old new =
     \<lparr>dl_status = s, dl_old = Some old, dl_new = Some new, dl_new_oid = new, dl_stats = Some (1, 0), dl_patch = Inr []\<rparr>"

definition demo_object :: "oid list \<Rightarrow> string \<Rightarrow> git_commit" where
  "demo_object ps name =
     \<lparr>gc_tree = [(name, Blob 33188 ''x'')], gc_parents = ps, gc_message = ''Fix '' @ name, gc_author = demo_sig,
      gc_committer = demo_sig\<rparr>"

definition demo_history :: repository where
  "demo_history =
     \<lparr>rp_commits = [''1'' \<mapsto> demo_object [] ''a'', ''2'' \<mapsto> demo_object [''1''] ''b'', ''3'' \<mapsto> demo_object [''2'', ''1''] ''c''],
      rp_refs = [''refs/heads/main'' \<mapsto> ''2''], rp_head = ''refs/heads/main''\<rparr>"

definition demo_diff :: "git_tree option \<Rightarrow> git_tree \<Rightarrow> string option \<Rightarrow> git_failure + delta list" where
  "demo_diff old new path =
     Inr (if old = Some new then []
          else if map fst new = [''b''] then [demo_delta DRenamed ''a'' ''b'']
          else map (\<lambda>(n, _). demo_delta DAdded n n) new)"

definition demo_next :: "walker \<Rightarrow> oid list" where
  "demo_next w = (if wk_push w = [''2''] then [''2'', ''1''] else [])"

definition demo_entry :: "git_tree \<Rightarrow> string \<Rightarrow> git_failure + oid" where
  "demo_entry t p = (if p \<in> set (map fst t) then Inr p else Inl demo_failure)"

definition demo_walk :: walk_lib where
  "demo_walk =
     \<lparr>wl_next = demo_next, wl_diff = demo_diff, wl_similar = (\<lambda>_ _ ds. ds), wl_entry = demo_entry,
      wl_merge_base = (\<lambda>_ _. Inl demo_failure), wl_descendant = (\<lambda>_ _. Inr False)\<rparr>"

definition demo_merge_commit :: commit where
  "demo_merge_commit = (''3'', demo_object [''2'', ''1''] ''c'')"

theorem merge_changes_agree_witness:
  "\<exists>d. merge_diff demo_lib demo_walk demo_history demo_merge_commit = Inr d \<and> d \<noteq> []"
proof -
  have h: "1 < length (gc_parents (snd demo_merge_commit))"
    "parent_trees demo_lib demo_history demo_merge_commit = Inr [[(''b'', Blob 33188 ''x'')], [(''a'', Blob 33188 ''x'')]]"
    "wl_diff demo_walk (Some (hd [[(''b'', Blob 33188 ''x'')], [(''a'', Blob 33188 ''x'')]])) (commit_tree demo_merge_commit) None
       = Inr [demo_delta DAdded ''c'' ''c'']"
    "wl_similar demo_walk 50 False [demo_delta DAdded ''c'' ''c''] = [demo_delta DAdded ''c'' ''c'']"
    "wl_diff demo_walk (Some (commit_tree demo_merge_commit)) (commit_tree demo_merge_commit) None = Inr []"
    by code_simp+
  have "\<not> list_ex (matches_parent demo_walk (demo_delta DAdded ''c'' ''c'')) (tl [[(''b'', Blob 33188 ''x'')], [(''a'', Blob 33188 ''x'')]])"
    by code_simp
  with merge_changes_agree [OF h] show ?thesis by auto
qed

theorem history_is_a_chain_witness:
  "case trace demo_lib demo_walk demo_history ''b'' default_history of
     Inr fh \<Rightarrow> map he_path (fh_entries fh) = [''b'', ''a''] \<and> chained default_history ''b'' (fh_entries fh) ''a'' | Inl _ \<Rightarrow> False"
proof -
  have c: "case trace demo_lib demo_walk demo_history ''b'' default_history of
      Inr fh \<Rightarrow> map he_path (fh_entries fh) = [''b'', ''a''] \<and> fh_path fh = ''a'' | Inl _ \<Rightarrow> False"
    by code_simp
  show ?thesis
  proof (cases "trace demo_lib demo_walk demo_history ''b'' default_history")
    case (Inl e)
    show ?thesis using c unfolding Inl sum.case by (rule FalseE)
  next
    case (Inr fh)
    have "map he_path (fh_entries fh) = [''b'', ''a''] \<and> fh_path fh = ''a''"
      using c unfolding Inr sum.case .
    then have p: "map he_path (fh_entries fh) = [''b'', ''a'']" "fh_path fh = ''a''" by (rule conjunct1, rule conjunct2)
    from history_is_a_chain [OF Inr] show ?thesis
      unfolding Inr sum.case p by (rule conjI [OF refl conjunct1])
  qed
qed

theorem history_complete_witness:
  "case trace demo_lib demo_walk demo_history ''a'' (default_history\<lparr>ho_follow := False\<rparr>) of
     Inr fh \<Rightarrow> map he_commit (fh_entries fh) = [''2'', ''1''] | Inl _ \<Rightarrow> False"
proof -
  let ?opt = "default_history\<lparr>ho_follow := False\<rparr>"
  have w: "history_walker demo_lib demo_history ?opt = Inr (wk_sorted TimeOrder (wk_push_oid ''2'' new_walker))"
    by code_simp
  then obtain fh where fh: "trace demo_lib demo_walk demo_history ''a'' ?opt = Inr fh"
    by (simp add: trace_def)
  have lim: "\<not> ho_follow ?opt" "ho_max ?opt = 0" by (simp_all add: default_history_def)
  have d: "distinct (wl_next demo_walk (wk_sorted TimeOrder (wk_push_oid ''2'' new_walker)))"
    "wl_next demo_walk (wk_sorted TimeOrder (wk_push_oid ''2'' new_walker)) = [''2'', ''1'']"
    by code_simp+
  have "list_ex (touches ''a'') (commit_deltas demo_walk demo_history ?opt ''a'' (demo_object [''1''] ''b''))"
    "list_ex (touches ''a'') (commit_deltas demo_walk demo_history ?opt ''a'' (demo_object [] ''a''))"
    "rp_commits demo_history ''2'' = Some (demo_object [''1''] ''b'')" "rp_commits demo_history ''1'' = Some (demo_object [] ''a'')"
    by code_simp+
  with history_complete [OF fh lim w d(1)] show ?thesis
    unfolding fh d(2) by simp
qed

theorem by_message_exact_witness:
  "case by_message demo_lib demo_walk demo_history ''FIX A'' default_search of
     Inr cs \<Rightarrow> map fst cs = [''1''] | Inl _ \<Rightarrow> False"
proof -
  have s: "search_from demo_lib demo_walk demo_history default_search
      = Inr [(''2'', demo_object [''1''] ''b''), (''1'', demo_object [] ''a'')]"
    by code_simp
  have f: "map fst (at_most (so_max default_search) (filter (\<lambda>c. in_dates default_search c \<and> authored default_search c
      \<and> committed default_search c \<and> message_matches default_search ''FIX A'' c)
      [(''2'', demo_object [''1''] ''b''), (''1'', demo_object [] ''a'')])) = [''1'']"
    by code_simp
  show ?thesis
    unfolding by_message_exact [OF s] sum.case by (rule f)
qed

theorem all_branches_fails_witness:
  "\<exists>e. search_all demo_lib demo_walk demo_history (Inr [''main'', ''origin/main'']) (default_search\<lparr>so_all_branches := True\<rparr>) = Inl e"
proof -
  have "rp_refs demo_history (''refs/heads/'' @ ''origin/main'') = None" by code_simp
  from all_branches_fails [OF refl _ this, of "[''main'', ''origin/main'']" "default_search\<lparr>so_all_branches := True\<rparr>"]
  show ?thesis by (simp add: default_search_def)
qed

end
