(* ===== verification/Signing.thy ===== *)
theory Signing
  imports RebaseEngine Refs
begin

text \<open>
  Signatures (\<^verbatim>\<open>src/gitmanip/src/signing.cpp\<close>): the signers that run gpg and ssh-keygen over temporary files, what
  they make of the programs' answers, and signed commits. The programs are a parameter (\<open>programs\<close>): what a child
  writes, how it ends, and what it does to the temporary files. \<^verbatim>\<open>mkstemp\<close> picks the names, and a file may be
  stored cut off when a write fails, since no write is checked. Removing a file succeeds.
\<close>

section \<open>Running a program\<close>

type_synonym files = "string \<rightharpoonup> string"

datatype child_event = Out string | Err string

record process_result =
  pr_exit :: int
  pr_stdout :: string
  pr_stderr :: string

text \<open>
  \<open>pg_child\<close> is the run of a command: a failure of \<^verbatim>\<open>pipe\<close> or \<^verbatim>\<open>fork\<close> with the message for it, or what the child
  writes in order, its exit status unless a signal ended it, and the files afterwards.
\<close>

record programs =
  pg_child :: "string list \<Rightarrow> files \<Rightarrow> string + child_event list \<times> int option \<times> files"
  pg_pipe :: nat
  pg_temp :: "files \<Rightarrow> string \<Rightarrow> string option"
  pg_stored :: "string \<Rightarrow> string"

text \<open>
  \<^verbatim>\<open>run_command\<close> reads standard output to its end before it reads standard error. A child that fills the pipe of
  standard error meanwhile waits for a reader, and the parent for the child: None.
\<close>

fun drain :: "nat \<Rightarrow> child_event list \<Rightarrow> string \<Rightarrow> string \<Rightarrow> (string \<times> string) option" where
  "drain cap [] out err = Some (out, err)"
| "drain cap (Out s # es) out err = drain cap es (out @ s) err"
| "drain cap (Err s # es) out err = (if length (err @ s) \<le> cap then drain cap es out (err @ s) else None)"

definition run_command :: "programs \<Rightarrow> string list \<Rightarrow> files \<Rightarrow> (process_result \<times> files) option" where
  "run_command pg args fs =
     (case pg_child pg (map c_str args) fs of
        Inl msg \<Rightarrow> Some (\<lparr>pr_exit = -1, pr_stdout = [], pr_stderr = msg\<rparr>, fs)
      | Inr (evs, status, fs') \<Rightarrow>
          (case drain (pg_pipe pg) evs [] [] of
             None \<Rightarrow> None
           | Some (out, err) \<Rightarrow>
               Some (\<lparr>pr_exit = (case status of Some n \<Rightarrow> n | None \<Rightarrow> -1), pr_stdout = out, pr_stderr = err\<rparr>, fs')))"

definition create_temp_file :: "programs \<Rightarrow> files \<Rightarrow> string \<Rightarrow> string \<Rightarrow> gm_error + (string \<times> files)" where
  "create_temp_file pg fs content ending =
     (case pg_temp pg fs ending of
        None \<Rightarrow> Inl \<lparr>ge_code = IoError, ge_message = ''Failed to create temporary file''\<rparr>
      | Some f \<Rightarrow> Inr (f, fs(f \<mapsto> pg_stored pg content)))"

definition out_text :: "child_event list \<Rightarrow> string" where
  "out_text evs = concat (map (\<lambda>e. case e of Out s \<Rightarrow> s | Err _ \<Rightarrow> []) evs)"

definition err_text :: "child_event list \<Rightarrow> string" where
  "err_text evs = concat (map (\<lambda>e. case e of Out _ \<Rightarrow> [] | Err s \<Rightarrow> s) evs)"

lemma drain_exact:
  "length err \<le> cap \<Longrightarrow> drain cap evs out err =
     (if length (err @ err_text evs) \<le> cap then Some (out @ out_text evs, err @ err_text evs) else None)"
  by (induction cap evs out err rule: drain.induct) (auto simp: out_text_def err_text_def)

text \<open>
  Running a command ends exactly if what the child writes to standard error fits in a pipe; then its output and
  its errors are captured whole, however the two were interleaved.
\<close>

theorem run_command_exact:
  assumes "pg_child pg (map c_str args) fs = Inr (evs, status, fs')"
  shows "run_command pg args fs =
    (if length (err_text evs) \<le> pg_pipe pg
     then Some (\<lparr>pr_exit = (case status of Some n \<Rightarrow> n | None \<Rightarrow> -1), pr_stdout = out_text evs, pr_stderr = err_text evs\<rparr>, fs')
     else None)"
  using drain_exact [of "[]" "pg_pipe pg" evs "[]"] by (simp add: run_command_def assms)

section \<open>Configuration\<close>

datatype signing_format = OpenPGP | SSHFormat | X509

record signing_config =
  sn_format :: signing_format
  sn_key :: string
  sn_gpg :: string
  sn_ssh :: string
  sn_allowed :: "string option"
  sn_commits :: bool
  sn_tags :: bool

definition signing_defaults :: signing_config where
  "signing_defaults = \<lparr>sn_format = OpenPGP, sn_key = [], sn_gpg = ''gpg'', sn_ssh = ''ssh-keygen'', sn_allowed = None,
     sn_commits = False, sn_tags = False\<rparr>"

definition detect_signature_format :: "string \<Rightarrow> signing_format" where
  "detect_signature_format sg =
     (if has_sub PGP sg \<or> has_sub ''-----BEGIN PGP MESSAGE-----'' sg then OpenPGP
      else if has_sub SSH sg then SSHFormat
      else if has_sub ''-----BEGIN SIGNED MESSAGE-----'' sg \<or> has_sub ''-----BEGIN CERTIFICATE-----'' sg then X509
      else OpenPGP)"

text \<open>The configuration git reads: a name's value as text and as a boolean.\<close>

record git_config =
  gc_string :: "string \<Rightarrow> string option"
  gc_bool :: "string \<Rightarrow> bool option"

definition from_repo :: "git_config option \<Rightarrow> signing_config" where
  "from_repo cfg =
     (case cfg of
        None \<Rightarrow> signing_defaults
      | Some c \<Rightarrow>
          signing_defaults\<lparr>
            sn_format := (case gc_string c ''gpg.format'' of
                            None \<Rightarrow> OpenPGP
                          | Some f \<Rightarrow> if f = ''ssh'' then SSHFormat else if f = ''x509'' then X509 else OpenPGP),
            sn_key := or_else [] (gc_string c ''user.signingkey''),
            sn_gpg := or_else ''gpg'' (gc_string c ''gpg.program''),
            sn_ssh := or_else ''ssh-keygen'' (gc_string c ''gpg.ssh.program''),
            sn_allowed := gc_string c ''gpg.ssh.allowedSignersFile'',
            sn_commits := or_else False (gc_bool c ''commit.gpgsign''),
            sn_tags := or_else False (gc_bool c ''tag.gpgsign'')\<rparr>)"

definition from_file :: "string \<Rightarrow> git_config option \<Rightarrow> gm_error + signing_config" where
  "from_file path cfg =
     (case cfg of
        None \<Rightarrow> Inl \<lparr>ge_code = IoError, ge_message = ''Failed to open config file: '' @ path\<rparr>
      | Some c \<Rightarrow>
          Inr (signing_defaults\<lparr>
            sn_format := (case gc_string c ''gpg.format'' of
                            None \<Rightarrow> OpenPGP
                          | Some f \<Rightarrow> if f = ''ssh'' then SSHFormat else if f = ''x509'' then X509 else OpenPGP),
            sn_key := or_else [] (gc_string c ''user.signingkey''),
            sn_gpg := or_else ''gpg'' (gc_string c ''gpg.program''),
            sn_ssh := or_else ''ssh-keygen'' (gc_string c ''gpg.ssh.program'')\<rparr>))"

definition is_configured :: "signing_config \<Rightarrow> bool" where
  "is_configured cfg \<longleftrightarrow> sn_key cfg \<noteq> []"

text \<open>A signer: gpg with a key, or ssh-keygen with the file of a key and the file of the allowed signers.\<close>

datatype signer = GpgSigner string string | SshSigner string string "string option"

definition signer_create :: "signing_config \<Rightarrow> gm_error + signer" where
  "signer_create cfg =
     (if \<not> is_configured cfg
      then Inl \<lparr>ge_code = InvalidArgument, ge_message = ''No signing key configured. Set user.signingkey in git config.''\<rparr>
      else case sn_format cfg of
        SSHFormat \<Rightarrow> Inr (SshSigner (sn_key cfg) (sn_ssh cfg) (sn_allowed cfg))
      | OpenPGP \<Rightarrow> Inr (GpgSigner (sn_key cfg) (sn_gpg cfg))
      | X509 \<Rightarrow> Inl \<lparr>ge_code = NotSupported, ge_message = ''X.509 signing not yet implemented''\<rparr>)"

text \<open>The comment says \<^verbatim>\<open>from_file\<close> follows the logic of \<^verbatim>\<open>from_repo\<close>; the allowed signers are not read.\<close>

lemma from_file_differs:
  "gc_string c ''gpg.ssh.allowedSignersFile'' = Some f \<Longrightarrow>
     \<exists>cfg. from_file path (Some c) = Inr cfg \<and> sn_allowed cfg = None \<and> sn_allowed (from_repo (Some c)) = Some f"
  by (simp add: from_file_def from_repo_def signing_defaults_def)

section \<open>GPG\<close>

record verification =
  vr_valid :: bool
  vr_trusted :: bool
  vr_identity :: string
  vr_key :: string
  vr_message :: string
  vr_error :: "string option"
  vr_time :: "int option"

definition no_verdict :: verification where
  "no_verdict = \<lparr>vr_valid = False, vr_trusted = False, vr_identity = [], vr_key = [], vr_message = [], vr_error = None,
     vr_time = None\<rparr>"

definition gpg_sign :: "programs \<Rightarrow> string \<Rightarrow> string \<Rightarrow> string \<Rightarrow> files \<Rightarrow> ((gm_error + string) \<times> files) option" where
  "gpg_sign pg key prog data fs =
     (case create_temp_file pg fs data [] of
        Inl e \<Rightarrow> Some (Inl e, fs)
      | Inr (f, fs1) \<Rightarrow>
          (case run_command pg [prog, ''--status-fd=2'', ''-bsau'', key, ''--output'', ''-'', f] fs1 of
             None \<Rightarrow> None
           | Some (r, fs2) \<Rightarrow>
               Some (if pr_exit r \<noteq> 0
                     then Inl \<lparr>ge_code = SigningError, ge_message = ''GPG signing failed: '' @ pr_stderr r\<rparr>
                     else Inr (pr_stdout r), fs2(f := None))))"

text \<open>The two regular expressions, tried at each position in turn; a dot is any character of the line.\<close>

definition in_line :: "char \<Rightarrow> bool" where
  "in_line c \<longleftrightarrow> c \<notin> {CHR 0x0A, CHR 0x0D}"

definition is_key_digit :: "char \<Rightarrow> bool" where
  "is_key_digit c \<longleftrightarrow> c \<in> set ''0123456789ABCDEF''"

definition goodsig_here :: "string \<Rightarrow> (string \<times> string) option" where
  "goodsig_here t =
     (let u = drop (length ''[GNUPG:] GOODSIG '') t; k = takeWhile is_key_digit u; r = drop (length k) u
      in if starts_with t ''[GNUPG:] GOODSIG '' \<and> k \<noteq> [] \<and> r \<noteq> [] \<and> hd r = CHR '' '' \<and> takeWhile in_line (tl r) \<noteq> []
         then Some (k, takeWhile in_line (tl r)) else None)"

definition is_date :: "string \<Rightarrow> bool" where
  "is_date t \<longleftrightarrow> length t = 10 \<and> list_all is_digit (take 4 t) \<and> t ! 4 = CHR ''-'' \<and> list_all is_digit (take 2 (drop 5 t))
     \<and> t ! 7 = CHR ''-'' \<and> list_all is_digit (drop 8 t)"

definition validsig_here :: "string \<Rightarrow> (string \<times> string) option" where
  "validsig_here t =
     (let u = drop (length ''[GNUPG:] VALIDSIG '') t; k = takeWhile is_key_digit u; r = drop (length k) u;
          n = takeWhile is_digit (drop 12 r)
      in if starts_with t ''[GNUPG:] VALIDSIG '' \<and> k \<noteq> [] \<and> 12 < length r \<and> hd r = CHR '' '' \<and> is_date (take 10 (tl r))
           \<and> r ! 11 = CHR '' '' \<and> n \<noteq> []
         then Some (k, n) else None)"

fun regex_search :: "(string \<Rightarrow> 'a option) \<Rightarrow> string \<Rightarrow> 'a option" where
  "regex_search m [] = m []"
| "regex_search m (c # s) = (case m (c # s) of Some x \<Rightarrow> Some x | None \<Rightarrow> regex_search m s)"

text \<open>The four tests in their order, the later ones overriding; then the details.\<close>

definition gpg_verdict :: "string \<Rightarrow> string \<Rightarrow> verification" where
  "gpg_verdict status message =
     (let r0 = no_verdict\<lparr>vr_message := message\<rparr>;
          r1 = (if has_sub ''GOODSIG'' status
                then (case regex_search goodsig_here status of
                        Some (k, who) \<Rightarrow> r0\<lparr>vr_valid := True, vr_key := k, vr_identity := who\<rparr>
                      | None \<Rightarrow> r0\<lparr>vr_valid := True\<rparr>)
                else r0);
          r2 = (if has_sub ''TRUST_ULTIMATE'' status \<or> has_sub ''TRUST_FULLY'' status then r1\<lparr>vr_trusted := True\<rparr> else r1);
          r3 = (if has_sub ''BADSIG'' status then r2\<lparr>vr_valid := False, vr_error := Some ''Bad signature''\<rparr> else r2);
          r4 = (if has_sub ''ERRSIG'' status
                then r3\<lparr>vr_valid := False, vr_error := Some ''Signature verification error (missing key?)''\<rparr> else r3);
          r5 = (if has_sub ''NO_PUBKEY'' status then r4\<lparr>vr_valid := False, vr_error := Some ''Public key not found''\<rparr> else r4)
      in case regex_search validsig_here status of
           None \<Rightarrow> r5
         | Some (k, n) \<Rightarrow>
             r5\<lparr>vr_key := (if vr_key r5 = [] then k else vr_key r5),
                vr_time := (if digits_value n < 2 ^ 63 then Some (int (digits_value n)) else None)\<rparr>)"

definition gpg_verify ::
  "programs \<Rightarrow> string \<Rightarrow> string \<Rightarrow> string \<Rightarrow> files \<Rightarrow> ((gm_error + verification) \<times> files) option" where
  "gpg_verify pg prog data sg fs =
     (case create_temp_file pg fs data [] of
        Inl e \<Rightarrow> Some (Inl e, fs)
      | Inr (f, fs1) \<Rightarrow>
          (case create_temp_file pg fs1 sg ''.sig'' of
             Inl e \<Rightarrow> Some (Inl e, fs1)
           | Inr (g, fs2) \<Rightarrow>
               (case run_command pg [prog, ''--status-fd=1'', ''--keyid-format=long'', ''--verify'', g, f] fs2 of
                  None \<Rightarrow> None
                | Some (r, fs3) \<Rightarrow> Some (Inr (gpg_verdict (pr_stdout r) (pr_stderr r)), fs3(f := None, g := None)))))"

section \<open>What gpg says\<close>

text \<open>The keywords of GnuPG's status lines that can come up when a signature is verified.\<close>

definition gpg_keywords :: "string list" where
  "gpg_keywords =
     [''NEWSIG'', ''GOODSIG'', ''EXPSIG'', ''EXPKEYSIG'', ''REVKEYSIG'', ''BADSIG'', ''ERRSIG'', ''VALIDSIG'', ''SIG_ID'',
      ''NO_PUBKEY'', ''NODATA'', ''UNEXPECTED'', ''TRUST_UNDEFINED'', ''TRUST_NEVER'', ''TRUST_MARGINAL'', ''TRUST_FULLY'',
      ''TRUST_ULTIMATE'', ''KEYEXPIRED'', ''KEYREVOKED'', ''KEY_CONSIDERED'', ''PLAINTEXT'', ''NOTATION_NAME'', ''NOTATION_DATA'',
      ''POLICY_URL'', ''ERROR'', ''WARNING'', ''FAILURE'', ''PROGRESS'', ''BEGIN_DECRYPTION'', ''TOFU_STATS'', ''TOFU_USER'']"

definition gpg_words :: "string list" where
  "gpg_words = [''GOODSIG'', ''TRUST_ULTIMATE'', ''TRUST_FULLY'', ''BADSIG'', ''ERRSIG'', ''NO_PUBKEY'']"

text \<open>A status line: its keyword and its arguments.\<close>

definition status_line :: "string \<times> string \<Rightarrow> string" where
  "status_line l = ''[GNUPG:] '' @ fst l @ (if snd l = [] then [] else CHR '' '' # snd l) @ [CHR 0x0A]"

definition plain_line :: "string \<times> string \<Rightarrow> bool" where
  "plain_line l \<longleftrightarrow> fst l \<in> set gpg_keywords \<and> list_all (\<lambda>w. \<not> has_sub w (snd l)) gpg_words"

lemma has_sub_cut:
  assumes "c \<notin> set pat"
  shows "has_sub pat (s @ c # t) \<longleftrightarrow> has_sub pat s \<or> has_sub pat t"
proof
  assume "has_sub pat (s @ c # t)"
  then obtain u v where e: "u @ (pat @ v) = s @ (c # t)" unfolding has_sub_iff by auto
  from e consider (left) x where "u @ x = s" "pat @ v = x @ c # t" | (right) x where "u = s @ x" "x @ pat @ v = c # t"
    unfolding append_eq_append_conv2 by auto
  then show "has_sub pat s \<or> has_sub pat t"
  proof cases
    case left
    from left(2) consider y where "pat = x @ y" "y @ v = c # t" | y where "pat @ y = x"
      unfolding append_eq_append_conv2 by auto
    then show ?thesis
    proof cases
      case 1
      with assms have "y = []" by (cases y) auto
      with 1 left show ?thesis by (metis append_Nil2 has_sub_iff)
    next
      case 2
      with left show ?thesis unfolding has_sub_iff by metis
    qed
  next
    case right
    show ?thesis
    proof (cases x)
      case Nil
      with right assms have "pat = []" by (cases pat) auto
      then show ?thesis unfolding has_sub_iff by (metis append_Nil)
    next
      case (Cons a y)
      with right show ?thesis unfolding has_sub_iff by auto
    qed
  qed
next
  assume "has_sub pat s \<or> has_sub pat t"
  then show "has_sub pat (s @ c # t)"
    unfolding has_sub_iff by (metis append.assoc append_Cons)
qed

lemma gpg_words_apart:
  "list_all (\<lambda>w. CHR '' '' \<notin> set w \<and> CHR 0x0A \<notin> set w \<and> w \<noteq> [] \<and> \<not> has_sub w ''[GNUPG:]''
     \<and> list_all (\<lambda>k. has_sub w k = (k = w)) gpg_keywords) gpg_words"
  by code_simp

lemma word_in_line:
  assumes "plain_line l" and "w \<in> set gpg_words"
  shows "has_sub w (status_line l @ rest) \<longleftrightarrow> fst l = w \<or> has_sub w rest"
proof -
  have w: "CHR '' '' \<notin> set w" "CHR 0x0A \<notin> set w" "\<not> has_sub w ''[GNUPG:]''" "has_sub w (fst l) = (fst l = w)"
    "\<not> has_sub w (snd l)"
    using gpg_words_apart assms by (auto simp: list_all_iff plain_line_def)
  have "status_line l @ rest = (if snd l = [] then ''[GNUPG:]'' @ CHR '' '' # fst l @ CHR 0x0A # rest
      else ''[GNUPG:]'' @ CHR '' '' # fst l @ CHR '' '' # snd l @ CHR 0x0A # rest)"
    by (simp add: status_line_def)
  then show ?thesis
    using w(3,5) by (simp only: has_sub_cut [OF w(1)] has_sub_cut [OF w(2)] w(4) simp_thms split: if_split)
qed

lemma word_in_status:
  assumes "list_all plain_line ls" and "w \<in> set gpg_words"
  shows "has_sub w (concat (map status_line ls)) \<longleftrightarrow> w \<in> fst ` set ls"
  using assms(1)
proof (induction ls)
  case Nil
  have "w \<noteq> []" using gpg_words_apart assms(2) by (auto simp: list_all_iff)
  then show ?case by (simp add: has_sub_iff)
next
  case (Cons l ls)
  then show ?case using word_in_line [OF _ assms(2), of l] by auto
qed

lemma gpg_verdict_flags:
  "vr_valid (gpg_verdict status msg) \<longleftrightarrow> has_sub ''GOODSIG'' status \<and> \<not> has_sub ''BADSIG'' status
     \<and> \<not> has_sub ''ERRSIG'' status \<and> \<not> has_sub ''NO_PUBKEY'' status"
  "vr_trusted (gpg_verdict status msg) \<longleftrightarrow> has_sub ''TRUST_ULTIMATE'' status \<or> has_sub ''TRUST_FULLY'' status"
  by (simp_all add: gpg_verdict_def no_verdict_def Let_def split: option.split)

lemma not_among: "{a, b, c} \<inter> X = {} \<longleftrightarrow> a \<notin> X \<and> b \<notin> X \<and> c \<notin> X" "{a, b} \<inter> X \<noteq> {} \<longleftrightarrow> a \<in> X \<or> b \<in> X"
  by auto

text \<open>
  gpg's verdict is read as its status lines mean it, as long as nothing a signer or a key's owner chose (user ids,
  notations) contains one of the words: a signature is valid exactly if there is a line GOODSIG and none of BADSIG,
  ERRSIG and NO_PUBKEY, and trusted exactly if there is one of TRUST_ULTIMATE or TRUST_FULLY.
\<close>

theorem gpg_verdict_exact:
  assumes "list_all plain_line ls"
  shows "(vr_valid (gpg_verdict (concat (map status_line ls)) msg) \<longleftrightarrow>
      ''GOODSIG'' \<in> fst ` set ls \<and> {''BADSIG'', ''ERRSIG'', ''NO_PUBKEY''} \<inter> fst ` set ls = {})
    \<and> (vr_trusted (gpg_verdict (concat (map status_line ls)) msg) \<longleftrightarrow>
      {''TRUST_ULTIMATE'', ''TRUST_FULLY''} \<inter> fst ` set ls \<noteq> {})"
proof -
  have w: "''GOODSIG'' \<in> set gpg_words" "''TRUST_ULTIMATE'' \<in> set gpg_words" "''TRUST_FULLY'' \<in> set gpg_words"
    "''BADSIG'' \<in> set gpg_words" "''ERRSIG'' \<in> set gpg_words" "''NO_PUBKEY'' \<in> set gpg_words"
    unfolding gpg_words_def by (simp_all only: list.set insert_iff simp_thms)
  show ?thesis
    unfolding gpg_verdict_flags w [THEN word_in_status [OF assms]] not_among by (intro conjI refl)
qed

text \<open>
  Without that it is not: the words are looked for in the whole output, and the exit status is not looked at. A
  signature with a revoked key whose user id contains the word is valid, and trusted if the other word is in it.
\<close>

lemma revoked_key_is_valid:
  "let r = gpg_verdict ''[GNUPG:] REVKEYSIG 1234567890ABCDEF GOODSIG TRUST_FULLY <m@x>'' [] in vr_valid r \<and> vr_trusted r"
  unfolding Let_def gpg_verdict_flags by code_simp

section \<open>SSH\<close>

definition ssh_sign :: "programs \<Rightarrow> string \<Rightarrow> string \<Rightarrow> string \<Rightarrow> files \<Rightarrow> ((gm_error + string) \<times> files) option" where
  "ssh_sign pg key prog data fs =
     (case create_temp_file pg fs data [] of
        Inl e \<Rightarrow> Some (Inl e, fs)
      | Inr (f, fs1) \<Rightarrow>
          (case run_command pg [prog, ''-Y'', ''sign'', ''-n'', ''git'', ''-f'', key, f] fs1 of
             None \<Rightarrow> None
           | Some (r, fs2) \<Rightarrow>
               (let sg = or_else [] (fs2 (f @ ''.sig''))
                in Some (if pr_exit r \<noteq> 0 \<or> sg = []
                         then Inl \<lparr>ge_code = SigningError, ge_message = ''SSH signing failed: '' @ pr_stderr r\<rparr>
                         else Inr sg, fs2(f @ ''.sig'' := None, f := None)))))"

definition first_line :: "string \<Rightarrow> string" where
  "first_line s = takeWhile (\<lambda>c. c \<noteq> CHR 0x0A) s"

definition principal_of :: "process_result \<Rightarrow> string" where
  "principal_of r =
     (if pr_exit r = 0 \<and> pr_stdout r \<noteq> [] then rstrip (\<lambda>c. c \<in> {CHR 0x0A, CHR 0x0D}) (first_line (pr_stdout r)) else [])"

text \<open>The shell command, its parts put in as they are.\<close>

definition ssh_verify_command :: "string \<Rightarrow> string \<Rightarrow> string \<Rightarrow> string \<Rightarrow> string \<Rightarrow> string" where
  "ssh_verify_command prog allowed who g f =
     prog @ '' -Y verify -n git -f '' @ allowed @ '' -I '' @ [CHR 0x22] @ who @ [CHR 0x22] @ '' -s '' @ g @ '' < '' @ f"

definition ssh_verify ::
  "programs \<Rightarrow> string \<Rightarrow> string option \<Rightarrow> string \<Rightarrow> string \<Rightarrow> files \<Rightarrow> ((gm_error + verification) \<times> files) option" where
  "ssh_verify pg prog allowed data sg fs =
     (case allowed of
        None \<Rightarrow> Some (Inr (no_verdict\<lparr>vr_error := Some ''No allowed signers file configured (gpg.ssh.allowedSignersFile)''\<rparr>), fs)
      | Some al \<Rightarrow>
          (case create_temp_file pg fs data [] of
             Inl e \<Rightarrow> Some (Inl e, fs)
           | Inr (f, fs1) \<Rightarrow>
               (case create_temp_file pg fs1 sg ''.sig'' of
                  Inl e \<Rightarrow> Some (Inl e, fs1)
                | Inr (g, fs2) \<Rightarrow>
                    (case run_command pg [prog, ''-Y'', ''find-principals'', ''-f'', al, ''-s'', g] fs2 of
                       None \<Rightarrow> None
                     | Some (r, fs3) \<Rightarrow>
                         if principal_of r = []
                         then Some (Inr (no_verdict\<lparr>vr_error := Some ''No matching principal found in allowed signers file''\<rparr>),
                                    fs3(f := None, g := None))
                         else (case run_command pg [''/bin/sh'', ''-c'', ssh_verify_command prog al (principal_of r) g f] fs3 of
                                 None \<Rightarrow> None
                               | Some (v, fs4) \<Rightarrow>
                                   Some (Inr (if pr_exit v = 0
                                              then no_verdict\<lparr>vr_identity := principal_of r, vr_valid := True, vr_trusted := True,
                                                     vr_message := pr_stderr v\<rparr>
                                              else no_verdict\<lparr>vr_identity := principal_of r, vr_error := Some (pr_stderr v)\<rparr>),
                                         fs4(f := None, g := None)))))))"

text \<open>
  The comment speaks of proper piping; the shell also expands what the parts contain. A file of allowed signers can
  run a command.
\<close>

lemma ssh_command_is_not_quoted:
  "ssh_verify_command ''ssh-keygen'' ''/k'' ''$(reboot)'' ''/g'' ''/f''
     = ''ssh-keygen -Y verify -n git -f /k -I '' @ [CHR 0x22] @ ''$(reboot)'' @ [CHR 0x22] @ '' -s /g < /f''"
  by code_simp

definition signer_sign :: "programs \<Rightarrow> signer \<Rightarrow> string \<Rightarrow> files \<Rightarrow> ((gm_error + string) \<times> files) option" where
  "signer_sign pg s = (case s of GpgSigner key prog \<Rightarrow> gpg_sign pg key prog | SshSigner key prog _ \<Rightarrow> ssh_sign pg key prog)"

definition signer_verify ::
  "programs \<Rightarrow> signer \<Rightarrow> string \<Rightarrow> string \<Rightarrow> files \<Rightarrow> ((gm_error + verification) \<times> files) option" where
  "signer_verify pg s = (case s of GpgSigner _ prog \<Rightarrow> gpg_verify pg prog | SshSigner _ prog al \<Rightarrow> ssh_verify pg prog al)"

section \<open>Signed commits\<close>

text \<open>
  What libgit2 does with signed commits: the text of a commit to be signed, storing it with its signature, and taking
  the two apart again.
\<close>

record 's signed_store =
  ss_buffer :: "signature option \<Rightarrow> signature option \<Rightarrow> string \<Rightarrow> git_tree \<Rightarrow> git_commit option list \<Rightarrow> git_failure + string"
  ss_create :: "'s \<Rightarrow> string \<Rightarrow> string \<Rightarrow> git_failure + (oid \<times> 's)"
  ss_extract :: "'s \<Rightarrow> oid \<Rightarrow> string option \<Rightarrow> git_failure + (string \<times> string)"

definition commit_is_signed :: "'s signed_store \<Rightarrow> 's \<Rightarrow> oid \<Rightarrow> bool" where
  "commit_is_signed lb st i = (case ss_extract lb st i None of Inr (sg, _) \<Rightarrow> sg \<noteq> [] | Inl _ \<Rightarrow> False)"

definition commit_signature :: "'s signed_store \<Rightarrow> 's \<Rightarrow> oid \<Rightarrow> string option" where
  "commit_signature lb st i = (case ss_extract lb st i None of Inr (sg, _) \<Rightarrow> if sg = [] then None else Some sg | Inl _ \<Rightarrow> None)"

definition commit_signed_data :: "'s signed_store \<Rightarrow> 's \<Rightarrow> oid \<Rightarrow> string option" where
  "commit_signed_data lb st i = (case ss_extract lb st i None of Inr (_, d) \<Rightarrow> Some d | Inl _ \<Rightarrow> None)"

definition signature_field :: "'s signed_store \<Rightarrow> 's \<Rightarrow> oid \<Rightarrow> string option" where
  "signature_field lb st i =
     List.find (\<lambda>nm. case ss_extract lb st i (Some nm) of Inr (sg, _) \<Rightarrow> sg \<noteq> [] | Inl _ \<Rightarrow> False) [''gpgsig'', ''gpgsig-sha256'']"

definition extract_signature :: "'s signed_store \<Rightarrow> 's \<Rightarrow> oid \<Rightarrow> (string \<times> string \<times> signing_format) option" where
  "extract_signature lb st i =
     (case ss_extract lb st i None of
        Inl _ \<Rightarrow> None
      | Inr (sg, d) \<Rightarrow> if sg = [] then None else Some (sg, d, detect_signature_format sg))"

definition verify_commit ::
  "'s signed_store \<Rightarrow> (string \<Rightarrow> string \<Rightarrow> files \<Rightarrow> ((gm_error + verification) \<times> files) option) \<Rightarrow> 's \<Rightarrow> oid \<Rightarrow> files
    \<Rightarrow> ((gm_error + verification) \<times> files) option" where
  "verify_commit lb verify st i fs =
     (case extract_signature lb st i of
        None \<Rightarrow> Some (Inr (no_verdict\<lparr>vr_error := Some ''Commit is not signed''\<rparr>), fs)
      | Some (sg, d, _) \<Rightarrow> verify d sg fs)"

text \<open>Failures to make a signature or to find a parent leave a null pointer, which libgit2 gets to see.\<close>

definition or_null :: "'e + 'a \<Rightarrow> 'a option" where
  "or_null r = (case r of Inr x \<Rightarrow> Some x | Inl _ \<Rightarrow> None)"

definition create_commit_buffer ::
  "git_lib \<Rightarrow> 's signed_store \<Rightarrow> repository \<Rightarrow> string \<Rightarrow> git_tree \<Rightarrow> oid list \<Rightarrow> signature \<Rightarrow> signature \<Rightarrow> gm_error + string" where
  "create_commit_buffer lib lb rp msg t parents author committer =
     checked ''creating commit buffer''
       (ss_buffer lb (or_null (gl_signature lib author)) (or_null (gl_signature lib committer)) (c_str msg) t
          (map (rp_commits rp) parents))"

definition create_signed_commit ::
  "git_lib \<Rightarrow> 's signed_store \<Rightarrow> (string \<Rightarrow> files \<Rightarrow> ((gm_error + string) \<times> files) option) \<Rightarrow> repository \<Rightarrow> string \<Rightarrow> git_tree
    \<Rightarrow> oid list \<Rightarrow> signature \<Rightarrow> signature \<Rightarrow> 's \<Rightarrow> files \<Rightarrow> ((gm_error + (oid \<times> 's)) \<times> files) option" where
  "create_signed_commit lib lb sign rp msg t parents author committer st fs =
     (case create_commit_buffer lib lb rp msg t parents author committer of
        Inl e \<Rightarrow> Some (Inl e, fs)
      | Inr content \<Rightarrow>
          (case sign content fs of
             None \<Rightarrow> None
           | Some (Inl e, fs') \<Rightarrow> Some (Inl e, fs')
           | Some (Inr sg, fs') \<Rightarrow>
               Some (checked ''creating signed commit'' (ss_create lb st (c_str content) (c_str sg)), fs')))"

text \<open>\<^verbatim>\<open>CommitBuilder::build\<close> with a signer.\<close>

definition builder_build_signed ::
  "git_lib \<Rightarrow> 's signed_store \<Rightarrow> (string \<Rightarrow> files \<Rightarrow> ((gm_error + string) \<times> files) option) \<Rightarrow> repository \<Rightarrow> commit_builder \<Rightarrow> 's
    \<Rightarrow> files \<Rightarrow> ((gm_error + (oid \<times> 's)) \<times> files) option" where
  "builder_build_signed lib lb sign rp cb st fs =
     (let base_tree = (case cb_tree cb of Some t \<Rightarrow> t | None \<Rightarrow> commit_tree (cb_base cb))
      in case bindr (if cb_modifiers cb = [] then Inr base_tree
                     else bindr (run_all (\<lambda>f. f) (cb_modifiers cb) (new_tree_builder base_tree)) (tb_build lib)) (\<lambda>t.
              bindr (if cb_parents cb = [] then bindr (commit_parents lib rp (cb_base cb)) (\<lambda>ps. Inr (map fst ps))
                     else Inr (cb_parents cb)) (\<lambda>parents.
              bindr (default_signature lib) (\<lambda>sig. Inr (t, parents, sig)))) of
           Inl e \<Rightarrow> Some (Inl e, fs)
         | Inr (t, parents, sig) \<Rightarrow>
             create_signed_commit lib lb sign rp (case cb_message cb of Some m \<Rightarrow> m | None \<Rightarrow> commit_message (cb_base cb)) t
               parents (case cb_author cb of Some s \<Rightarrow> s | None \<Rightarrow> commit_author (cb_base cb))
               (case cb_committer cb of Some s \<Rightarrow> s | None \<Rightarrow> sig) st fs)"

section \<open>The contract of a signer\<close>

text \<open>
  What the rest relies on: signing and verifying leave no temporary file behind, and what was signed verifies.
  \<open>honest\<close> says that the programs behind the signer do their part.
\<close>

locale signing =
  fixes sign :: "string \<Rightarrow> files \<Rightarrow> ((gm_error + string) \<times> files) option"
    and verify :: "string \<Rightarrow> string \<Rightarrow> files \<Rightarrow> ((gm_error + verification) \<times> files) option"
    and honest :: bool
  assumes sign_cleans: "honest \<Longrightarrow> finite (dom fs) \<Longrightarrow> sign d fs = Some (r, fs') \<Longrightarrow> fs' = fs"
    and signed_verifies: "honest \<Longrightarrow> finite (dom fs) \<Longrightarrow> sign d fs = Some (Inr sg, fs') \<Longrightarrow>
      sg \<noteq> [] \<and> CHR 0x00 \<notin> set sg \<and> (\<exists>r. verify d sg fs = Some (Inr r, fs) \<and> vr_valid r)"
begin

lemma signed_commit:
  assumes "honest" "finite (dom fs)" and "create_signed_commit lib lb sign rp msg t ps a c st fs = Some (Inr (i, st'), fs')"
    and "create_commit_buffer lib lb rp msg t ps a c = Inr content" and "CHR 0x00 \<notin> set content"
    and "\<And>sg. ss_create lb st content sg = Inr (i, st') \<Longrightarrow> ss_extract lb st' i None = Inr (sg, content)"
  shows "fs' = fs \<and> commit_is_signed lb st' i \<and> (\<exists>r. verify_commit lb verify st' i fs = Some (Inr r, fs) \<and> vr_valid r)"
proof -
  from assms(3,4) obtain sg where sg: "sign content fs = Some (Inr sg, fs')"
    and cr: "ss_create lb st (c_str content) (c_str sg) = Inr (i, st')"
    by (auto simp: create_signed_commit_def checked_Inr split: option.splits sum.splits)
  from signed_verifies [OF assms(1,2) sg] obtain r where r: "sg \<noteq> []" "CHR 0x00 \<notin> set sg"
    "verify content sg fs = Some (Inr r, fs)" "vr_valid r" by blast
  have "c_str content = content" "c_str sg = sg"
    using assms(5) r(2) by (auto simp: c_str_def takeWhile_eq_all_conv)
  with cr have "ss_extract lb st' i None = Inr (sg, content)" using assms(6) by simp
  with r sign_cleans [OF assms(1,2) sg] show ?thesis
    by (simp add: commit_is_signed_def verify_commit_def extract_signature_def)
qed

end

text \<open>
  What the model relies on: \<^verbatim>\<open>mkstemp\<close> makes a file that was not there and the disk is not full; gpg, asked to
  sign, touches no file, and asked to verify its own signature of the same text says that it is good and no more than
  is plain.
\<close>

definition temp_ok :: "programs \<Rightarrow> bool" where
  "temp_ok pg \<longleftrightarrow>
     (\<forall>fs e f. pg_temp pg fs e = Some f \<longrightarrow> fs f = None \<and> fs (f @ ''.sig'') = None)
     \<and> (\<forall>fs e. finite (dom fs) \<longrightarrow> pg_temp pg fs e \<noteq> None) \<and> (\<forall>c. pg_stored pg c = c)"

definition says_good :: "string \<Rightarrow> bool" where
  "says_good status \<longleftrightarrow> (\<exists>ls. status = concat (map status_line ls) \<and> list_all plain_line ls \<and> ''GOODSIG'' \<in> fst ` set ls
     \<and> {''BADSIG'', ''ERRSIG'', ''NO_PUBKEY''} \<inter> fst ` set ls = {})"

definition gpg_honest :: "programs \<Rightarrow> string \<Rightarrow> string \<Rightarrow> bool" where
  "gpg_honest pg key prog \<longleftrightarrow> temp_ok pg
     \<and> (\<forall>f fs d r fs'. fs f = Some d
          \<and> run_command pg [prog, ''--status-fd=2'', ''-bsau'', key, ''--output'', ''-'', f] fs = Some (r, fs')
          \<longrightarrow> fs' = fs \<and> (pr_exit r = 0 \<longrightarrow> pr_stdout r \<noteq> [] \<and> CHR 0x00 \<notin> set (pr_stdout r)
            \<and> (\<forall>g h gs. gs g = Some (pr_stdout r) \<and> gs h = Some d \<longrightarrow>
                 (\<exists>v. run_command pg [prog, ''--status-fd=1'', ''--keyid-format=long'', ''--verify'', g, h] gs = Some (v, gs)
                    \<and> says_good (pr_stdout v)))))"

text \<open>
  What POSIX says of a simple command with one redirection, as far as nothing in it is expanded: words of plain characters
  and of quoted ones, and the file standard input is read from.
\<close>

definition plain_chars :: string where
  "plain_chars = ''abcdefghijklmnopqrstuvwxyzABCDEFGHIJKLMNOPQRSTUVWXYZ0123456789/._-+,:@%''"

definition plain_word :: "string \<Rightarrow> bool" where
  "plain_word w \<longleftrightarrow> w \<noteq> [] \<and> set w \<subseteq> set plain_chars"

definition quotable :: "string \<Rightarrow> bool" where
  "quotable w \<longleftrightarrow> w \<noteq> [] \<and> set w \<inter> {CHR 0x00, CHR 0x22, CHR ''$'', CHR 0x60, CHR 0x5C, CHR 0x0A, CHR 0x0D} = {}"

datatype sh_token = ShWord string | ShInput

definition sh_word :: "string option \<Rightarrow> sh_token list" where
  "sh_word cur = (case cur of None \<Rightarrow> [] | Some w \<Rightarrow> [ShWord w])"

fun sh_tokens :: "bool \<Rightarrow> string option \<Rightarrow> string \<Rightarrow> sh_token list option" where
  "sh_tokens in_quotes cur [] = (if in_quotes then None else Some (sh_word cur))"
| "sh_tokens True cur (c # cs) =
     (if c = CHR 0x22 then sh_tokens False cur cs
      else if c \<in> {CHR 0x00, CHR ''$'', CHR 0x60, CHR 0x5C} then None
      else sh_tokens True (Some (or_else [] cur @ [c])) cs)"
| "sh_tokens False cur (c # cs) =
     (if c = CHR '' '' then map_option (append (sh_word cur)) (sh_tokens False None cs)
      else if c = CHR ''<'' \<and> cur = None then map_option (Cons ShInput) (sh_tokens False None cs)
      else if c = CHR 0x22 then sh_tokens True (Some (or_else [] cur)) cs
      else if c \<in> set plain_chars then sh_tokens False (Some (or_else [] cur @ [c])) cs
      else None)"

definition sh_parse :: "string \<Rightarrow> string list \<Rightarrow> string \<Rightarrow> bool" where
  "sh_parse cmd argv inp \<longleftrightarrow> sh_tokens False None cmd = Some (map ShWord argv @ [ShInput, ShWord inp])"

text \<open>The options of a command, whatever their order, and its operands.\<close>

fun opts :: "string list \<Rightarrow> (string \<times> string) list \<times> string list" where
  "opts (x # v # args) =
     (if starts_with x ''-'' then (let (xs, rest) = opts args in ((x, v) # xs, rest)) else ([], x # v # args))"
| "opts args = ([], args)"

definition asks :: "(string \<times> string) list \<Rightarrow> string list \<Rightarrow> string list \<Rightarrow> bool" where
  "asks xs rest args \<longleftrightarrow> map_of (fst (opts args)) = map_of xs \<and> snd (opts args) = rest"

text \<open>
  The manual of ssh-keygen: \<^verbatim>\<open>sign\<close> puts a signature by the key for the file and the namespace into \<^verbatim>\<open>.sig\<close> or
  fails, \<^verbatim>\<open>find-principals\<close> prints, a line each, whom the file of allowed signers lists for the key of a signature, and \<^verbatim>\<open>verify\<close> ends
  with zero exactly for a signature of standard input and the namespace by a key listed for the identity. \<open>made_by key ns d sg\<close> and
  \<open>listed al key who\<close> are the signatures there are and what the file says.
\<close>

definition ssh_keygen ::
  "(string list \<Rightarrow> string \<Rightarrow> files \<Rightarrow> process_result \<times> files) \<Rightarrow> (string \<Rightarrow> string \<Rightarrow> string \<Rightarrow> string \<Rightarrow> bool)
    \<Rightarrow> (string \<Rightarrow> string \<Rightarrow> string \<Rightarrow> bool) \<Rightarrow> bool" where
  "ssh_keygen tool made_by listed \<longleftrightarrow>
     (\<forall>args inp fs key ns f d r fs'.
        asks [(''-Y'', ''sign''), (''-n'', ns), (''-f'', key)] [f] args \<and> fs f = Some d \<and> fs (f @ ''.sig'') = None
          \<and> tool args inp fs = (r, fs') \<longrightarrow>
        (\<exists>made. fs' = fs(f @ ''.sig'' := made)
           \<and> (pr_exit r = 0 \<longrightarrow> (\<exists>sg. made = Some sg \<and> CHR 0x00 \<notin> set sg \<and> made_by key ns d sg))))
     \<and> (\<forall>args inp fs al g key ns d sg who.
        asks [(''-Y'', ''find-principals''), (''-f'', al), (''-s'', g)] [] args \<and> fs g = Some sg
          \<and> made_by key ns d sg \<and> listed al key who \<longrightarrow>
        (\<exists>r p more. tool args inp fs = (r, fs) \<and> pr_exit r = 0 \<and> pr_stdout r = p @ CHR 0x0A # more \<and> listed al key p))
     \<and> (\<forall>args inp fs ns al who g sg.
        asks [(''-Y'', ''verify''), (''-n'', ns), (''-f'', al), (''-I'', who), (''-s'', g)] [] args \<and> fs g = Some sg \<longrightarrow>
        (\<exists>r. tool args inp fs = (r, fs) \<and> (pr_exit r = 0 \<longleftrightarrow> (\<exists>key. made_by key ns inp sg \<and> listed al key who))))"

text \<open>The program is this tool, run directly or by the shell, which connects its standard input.\<close>

definition runs_tool :: "programs \<Rightarrow> string \<Rightarrow> (string list \<Rightarrow> string \<Rightarrow> files \<Rightarrow> process_result \<times> files) \<Rightarrow> bool" where
  "runs_tool pg prog tool \<longleftrightarrow>
     (\<forall>args fs. list_all (\<lambda>a. CHR 0x00 \<notin> set a) args \<longrightarrow> run_command pg (prog # args) fs = Some (tool args [] fs))
     \<and> (\<forall>cmd args inp d fs. sh_parse cmd (prog # args) inp \<and> fs inp = Some d \<longrightarrow>
          run_command pg [''/bin/sh'', ''-c'', cmd] fs = Some (tool args d fs))"

text \<open>
  With that, what the SSH signer needs: the program's name, that of the file of allowed signers and those of the temporary files
  are plain words, since they stand unquoted in the command, the file lists the key, and the principals it lists
  can stand in quotes.
\<close>

definition ssh_honest :: "programs \<Rightarrow> string \<Rightarrow> string \<Rightarrow> string option \<Rightarrow> bool" where
  "ssh_honest pg key prog allowed \<longleftrightarrow> temp_ok pg \<and> (\<forall>fs e f. pg_temp pg fs e = Some f \<longrightarrow> plain_word f)
     \<and> plain_word prog \<and> CHR 0x00 \<notin> set key
     \<and> (\<exists>al tool made_by listed. allowed = Some al \<and> plain_word al \<and> runs_tool pg prog tool \<and> ssh_keygen tool made_by listed
          \<and> (\<exists>who. listed al key who) \<and> (\<forall>who. listed al key who \<longrightarrow> quotable who))"

lemma plain_word_nul: "plain_word w \<Longrightarrow> CHR 0x00 \<notin> set w"
proof -
  have "CHR 0x00 \<notin> set plain_chars" by code_simp
  then show "plain_word w \<Longrightarrow> CHR 0x00 \<notin> set w" by (auto simp: plain_word_def)
qed

lemma sh_tokens_plain:
  "set w \<subseteq> set plain_chars \<Longrightarrow>
     sh_tokens False cur (w @ rest) = sh_tokens False (if w = [] then cur else Some (or_else [] cur @ w)) rest"
proof (induction w arbitrary: cur)
  case (Cons c w)
  have "CHR '' '' \<notin> set plain_chars" "CHR ''<'' \<notin> set plain_chars" "CHR 0x22 \<notin> set plain_chars" by code_simp+
  with Cons.prems have "c \<noteq> CHR '' ''" "c \<noteq> CHR ''<''" "c \<noteq> CHR 0x22" "c \<in> set plain_chars" by auto
  with Cons show ?case by (simp add: or_else_def)
qed simp

lemma sh_tokens_word:
  assumes "plain_word w"
  shows "sh_tokens False None (w @ CHR '' '' # rest) = map_option (Cons (ShWord w)) (sh_tokens False None rest)"
    "sh_tokens False None w = Some [ShWord w]"
proof -
  show "sh_tokens False None (w @ CHR '' '' # rest) = map_option (Cons (ShWord w)) (sh_tokens False None rest)"
    using assms sh_tokens_plain [of w None "CHR '' '' # rest"]
    by (cases "sh_tokens False None rest") (simp_all add: plain_word_def or_else_def sh_word_def)
  show "sh_tokens False None w = Some [ShWord w]"
    using assms sh_tokens_plain [of w None "[]"] by (simp add: plain_word_def or_else_def sh_word_def)
qed

lemma sh_tokens_quoted:
  "quotable w \<or> w = [] \<Longrightarrow> sh_tokens True (Some u) (w @ CHR 0x22 # rest) = sh_tokens False (Some (u @ w)) rest"
proof (induction w arbitrary: u)
  case (Cons c w)
  then have "quotable w \<or> w = []" and "c \<notin> {CHR 0x00, CHR 0x22, CHR ''$'', CHR 0x60, CHR 0x5C}"
    by (auto simp: quotable_def)
  with Cons.IH [of "u @ [c]"] show ?case by (simp add: or_else_def)
qed simp

lemma ssh_verify_command_parses:
  assumes "plain_word prog" "plain_word al" "plain_word g" "plain_word f" "quotable who"
  shows "sh_parse (ssh_verify_command prog al who g f)
    (prog # [''-Y'', ''verify'', ''-n'', ''git'', ''-f'', al, ''-I'', who, ''-s'', g]) f"
proof -
  have words: "plain_word ''-Y''" "plain_word ''verify''" "plain_word ''-n''" "plain_word ''git''" "plain_word ''-f''"
    "plain_word ''-I''" "plain_word ''-s''"
    by code_simp+
  have q: "sh_tokens False None (CHR 0x22 # who @ CHR 0x22 # CHR '' '' # rest)
      = map_option (Cons (ShWord who)) (sh_tokens False None rest)" for rest
    using sh_tokens_quoted [of who "[]" "CHR '' '' # rest"] assms(5)
    by (cases "sh_tokens False None rest") (simp_all add: or_else_def sh_word_def)
  have input: "sh_tokens False None (CHR ''<'' # CHR '' '' # rest) = map_option (Cons ShInput) (sh_tokens False None rest)" for rest
    by (cases "sh_tokens False None rest") (simp_all add: sh_word_def)
  have command: "ssh_verify_command prog al who g f
      = prog @ CHR '' '' # ''-Y'' @ CHR '' '' # ''verify'' @ CHR '' '' # ''-n'' @ CHR '' '' # ''git'' @ CHR '' ''
          # ''-f'' @ CHR '' '' # al @ CHR '' '' # ''-I'' @ CHR '' '' # CHR 0x22 # who @ CHR 0x22 # CHR '' ''
          # ''-s'' @ CHR '' '' # g @ CHR '' '' # CHR ''<'' # CHR '' '' # f"
    by (simp add: ssh_verify_command_def)
  have "sh_tokens False None (ssh_verify_command prog al who g f) = Some [ShWord prog, ShWord ''-Y'', ShWord ''verify'',
      ShWord ''-n'', ShWord ''git'', ShWord ''-f'', ShWord al, ShWord ''-I'', ShWord who, ShWord ''-s'', ShWord g, ShInput, ShWord f]"
    unfolding command
    by (simp only: sh_tokens_word(1) [OF assms(1)] sh_tokens_word(1) [OF assms(2)] sh_tokens_word(1) [OF assms(3)]
        sh_tokens_word(2) [OF assms(4)] words [THEN sh_tokens_word(1)] q input option.map)
  then show ?thesis by (simp add: sh_parse_def)
qed

lemma create_temp_fileE:
  assumes "temp_ok pg" and "create_temp_file pg fs c e = Inr (f, fs')"
  obtains "fs' = fs(f \<mapsto> c)" "fs f = None" "fs (f @ ''.sig'') = None"
  using assms by (auto simp: create_temp_file_def temp_ok_def split: option.splits)

lemma plain_temp_file:
  "ssh_honest pg key prog allowed \<Longrightarrow> create_temp_file pg fs c e = Inr (f, fs') \<Longrightarrow> plain_word f"
  by (auto simp: create_temp_file_def ssh_honest_def split: option.splits)

lemma create_temp_file_ok:
  assumes "temp_ok pg" and "finite (dom fs)"
  obtains f where "create_temp_file pg fs c e = Inr (f, fs(f \<mapsto> c))" "fs f = None"
proof -
  from assms have "pg_temp pg fs e \<noteq> None" unfolding temp_ok_def by blast
  then obtain f where "pg_temp pg fs e = Some f" by blast
  with assms(1) that [of f] show thesis by (simp add: create_temp_file_def temp_ok_def)
qed

text \<open>Both files of a verification.\<close>

lemma two_temp_files:
  assumes "temp_ok pg" and "finite (dom fs)"
  obtains f g where "create_temp_file pg fs c [] = Inr (f, fs(f \<mapsto> c))" "f \<noteq> g" "fs f = None" "fs g = None"
    "create_temp_file pg (fs(f \<mapsto> c)) d ''.sig'' = Inr (g, fs(f \<mapsto> c, g \<mapsto> d))" "fs(f \<mapsto> c, g \<mapsto> d, f := None, g := None) = fs"
proof -
  obtain f where f: "create_temp_file pg fs c [] = Inr (f, fs(f \<mapsto> c))" "fs f = None"
    using create_temp_file_ok [OF assms] by blast
  from assms(2) have "finite (dom (fs(f \<mapsto> c)))" by simp
  from create_temp_file_ok [OF assms(1) this] obtain g where
    g: "create_temp_file pg (fs(f \<mapsto> c)) d ''.sig'' = Inr (g, fs(f \<mapsto> c, g \<mapsto> d))" "(fs(f \<mapsto> c)) g = None"
    by blast
  from g(2) have "f \<noteq> g" "fs g = None" by (auto split: if_splits)
  with f g that show thesis by (auto simp: fun_eq_iff)
qed

lemma says_good_valid: "says_good status \<Longrightarrow> vr_valid (gpg_verdict status msg)"
proof -
  assume "says_good status"
  then obtain ls where ls: "status = concat (map status_line ls)" "list_all plain_line ls" "''GOODSIG'' \<in> fst ` set ls"
    "{''BADSIG'', ''ERRSIG'', ''NO_PUBKEY''} \<inter> fst ` set ls = {}"
    unfolding says_good_def by (elim exE conjE)
  have w: "''GOODSIG'' \<in> set gpg_words" "''BADSIG'' \<in> set gpg_words" "''ERRSIG'' \<in> set gpg_words" "''NO_PUBKEY'' \<in> set gpg_words"
    unfolding gpg_words_def by (simp_all only: list.set insert_iff simp_thms)
  show ?thesis
    unfolding gpg_verdict_flags ls(1) w [THEN word_in_status [OF ls(2)]] using ls(3,4) unfolding not_among
    by (elim conjE, intro conjI)
qed

lemma gpg_honest_run:
  assumes "gpg_honest pg key prog" and "fs f = Some d"
    and "run_command pg [prog, ''--status-fd=2'', ''-bsau'', key, ''--output'', ''-'', f] fs = Some (r, fs')"
  shows "fs' = fs \<and> (pr_exit r = 0 \<longrightarrow> pr_stdout r \<noteq> [] \<and> CHR 0x00 \<notin> set (pr_stdout r)
    \<and> (\<forall>g h gs. gs g = Some (pr_stdout r) \<and> gs h = Some d \<longrightarrow>
         (\<exists>v. run_command pg [prog, ''--status-fd=1'', ''--keyid-format=long'', ''--verify'', g, h] gs = Some (v, gs)
            \<and> says_good (pr_stdout v))))"
  using assms(1) [unfolded gpg_honest_def, THEN conjunct2, rule_format, OF conjI [OF assms(2,3)]] by blast

interpretation gpg: signing "gpg_sign pg key prog" "gpg_verify pg prog" "gpg_honest pg key prog" for pg key prog
proof
  fix d fs r fs'
  assume h: "gpg_honest pg key prog" "gpg_sign pg key prog d fs = Some (r, fs')"
  then have t: "temp_ok pg" by (simp add: gpg_honest_def)
  show "fs' = fs"
  proof (cases "create_temp_file pg fs d []")
    case (Inl e)
    with h show ?thesis by (simp add: gpg_sign_def)
  next
    case (Inr x)
    obtain f fs1 where x: "x = (f, fs1)" by (cases x)
    from Inr [unfolded x] have f: "fs1 = fs(f \<mapsto> d)" "fs f = None" by (auto elim: create_temp_fileE [OF t])
    from h(2) Inr x obtain r2 fs2 where
      run: "run_command pg [prog, ''--status-fd=2'', ''-bsau'', key, ''--output'', ''-'', f] fs1 = Some (r2, fs2)"
      and fs': "fs' = fs2(f := None)"
      by (auto simp: gpg_sign_def split: option.splits)
    from f(1) have fd: "fs1 f = Some d" by simp
    have "fs2 = fs1" using gpg_honest_run [OF h(1) fd run] by (rule conjunct1)
    with f fs' show ?thesis by (auto simp: fun_eq_iff)
  qed
next
  fix d fs sg fs'
  assume h: "gpg_honest pg key prog" "finite (dom fs)" "gpg_sign pg key prog d fs = Some (Inr sg, fs')"
  then have t: "temp_ok pg" by (simp add: gpg_honest_def)
  from h(3) obtain f fs1 r2 fs2 where c: "create_temp_file pg fs d [] = Inr (f, fs1)"
    and run: "run_command pg [prog, ''--status-fd=2'', ''-bsau'', key, ''--output'', ''-'', f] fs1 = Some (r2, fs2)"
    and r2: "pr_exit r2 = 0" "sg = pr_stdout r2"
    by (auto simp: gpg_sign_def split: option.splits sum.splits if_splits)
  from c have f: "fs1 f = Some d" by (auto elim: create_temp_fileE [OF t])
  note g = gpg_honest_run [OF h(1) f run, THEN conjunct2, THEN mp, OF r2(1), folded r2(2)]
  from g have sg: "sg \<noteq> []" "CHR 0x00 \<notin> set sg"
    and v: "\<And>g h gs. gs g = Some sg \<Longrightarrow> gs h = Some d \<Longrightarrow>
        \<exists>v. run_command pg [prog, ''--status-fd=1'', ''--keyid-format=long'', ''--verify'', g, h] gs = Some (v, gs)
          \<and> says_good (pr_stdout v)"
    by (blast, blast, blast)
  obtain k g where t2: "create_temp_file pg fs d [] = Inr (k, fs(k \<mapsto> d))" "k \<noteq> g"
    "create_temp_file pg (fs(k \<mapsto> d)) sg ''.sig'' = Inr (g, fs(k \<mapsto> d, g \<mapsto> sg))" "fs(k \<mapsto> d, g \<mapsto> sg, k := None, g := None) = fs"
    using two_temp_files [OF t h(2)] by metis
  from v [of "fs(k \<mapsto> d, g \<mapsto> sg)" g k] t2(2) obtain w where
    "run_command pg [prog, ''--status-fd=1'', ''--keyid-format=long'', ''--verify'', g, k] (fs(k \<mapsto> d, g \<mapsto> sg)) = Some (w, fs(k \<mapsto> d, g \<mapsto> sg))"
    "says_good (pr_stdout w)" by auto
  with t2 sg show "sg \<noteq> [] \<and> CHR 0x00 \<notin> set sg \<and> (\<exists>r. gpg_verify pg prog d sg fs = Some (Inr r, fs) \<and> vr_valid r)"
    by (simp add: gpg_verify_def says_good_valid)
qed

lemma ssh_honest_run:
  assumes "ssh_honest pg key prog (Some al)" and "fs f = Some d" "fs (f @ ''.sig'') = None" "plain_word f"
    and "run_command pg [prog, ''-Y'', ''sign'', ''-n'', ''git'', ''-f'', key, f] fs = Some (r, fs')"
  shows "\<exists>made. fs' = fs(f @ ''.sig'' := made) \<and>
     (\<forall>sg. pr_exit r = 0 \<and> made = Some sg \<longrightarrow> CHR 0x00 \<notin> set sg
       \<and> (\<forall>g h gs. plain_word g \<and> plain_word h \<and> gs g = Some sg \<and> gs h = Some d \<longrightarrow>
            (\<exists>v w. run_command pg [prog, ''-Y'', ''find-principals'', ''-f'', al, ''-s'', g] gs = Some (v, gs)
               \<and> principal_of v \<noteq> []
               \<and> run_command pg [''/bin/sh'', ''-c'', ssh_verify_command prog al (principal_of v) g h] gs = Some (w, gs)
               \<and> pr_exit w = 0)))"
proof -
  from assms(1) obtain tool made_by listed who where plain: "plain_word prog" "plain_word al" "CHR 0x00 \<notin> set key"
    and tool: "runs_tool pg prog tool" "ssh_keygen tool made_by listed"
    and lst: "listed al key who" "\<And>who. listed al key who \<Longrightarrow> quotable who"
    unfolding ssh_honest_def by blast
  have direct: "run_command pg (prog # args) gs = Some (tool args [] gs)" if "list_all (\<lambda>a. CHR 0x00 \<notin> set a) args" for args gs
    using tool(1) that unfolding runs_tool_def by blast
  have "asks [(''-Y'', ''sign''), (''-n'', ''git''), (''-f'', key)] [f] [''-Y'', ''sign'', ''-n'', ''git'', ''-f'', key, f]"
    by (simp add: asks_def starts_with_def)
  moreover have "tool [''-Y'', ''sign'', ''-n'', ''git'', ''-f'', key, f] [] fs = (r, fs')"
    using assms(5) direct [of "[''-Y'', ''sign'', ''-n'', ''git'', ''-f'', key, f]" fs] plain(3) plain_word_nul [OF assms(4)]
    by simp
  moreover note tool(2) [unfolded ssh_keygen_def, THEN conjunct1, rule_format,
      of "''git''" key f "[''-Y'', ''sign'', ''-n'', ''git'', ''-f'', key, f]" fs d "[]" r fs']
  ultimately obtain made where made: "fs' = fs(f @ ''.sig'' := made)"
    "pr_exit r = 0 \<longrightarrow> (\<exists>sg. made = Some sg \<and> CHR 0x00 \<notin> set sg \<and> made_by key ''git'' d sg)"
    using assms(2,3) by blast
  have "\<exists>v w. run_command pg [prog, ''-Y'', ''find-principals'', ''-f'', al, ''-s'', g] gs = Some (v, gs)
       \<and> principal_of v \<noteq> []
       \<and> run_command pg [''/bin/sh'', ''-c'', ssh_verify_command prog al (principal_of v) g h] gs = Some (w, gs) \<and> pr_exit w = 0"
    if g: "plain_word g" "plain_word h" "gs g = Some sg" "gs h = Some d" and sg: "made_by key ''git'' d sg" for g h gs sg
  proof -
    let ?find = "[''-Y'', ''find-principals'', ''-f'', al, ''-s'', g]"
    have "asks [(''-Y'', ''find-principals''), (''-f'', al), (''-s'', g)] [] ?find" by (simp add: asks_def starts_with_def)
    with tool(2) [unfolded ssh_keygen_def, THEN conjunct2, THEN conjunct1, rule_format,
        of al g ?find gs sg key "''git''" d who "[]"] g(3) sg lst(1) obtain v p more where v: "tool ?find [] gs = (v, gs)" "pr_exit v = 0"
      "pr_stdout v = p @ CHR 0x0A # more" "listed al key p"
      by blast
    have p: "quotable p" using lst(2) v(4) by blast
    then have c: "p \<noteq> []" "c \<noteq> CHR 0x0A \<and> c \<noteq> CHR 0x0D" if "c \<in> set p" for c using that by (auto simp: quotable_def)
    have "first_line (pr_stdout v) = p" using c by (simp add: v(3) first_line_def)
    moreover have "dropWhile (\<lambda>c. c \<in> {CHR 0x0A, CHR 0x0D}) (rev p) = rev p"
      using c(2) [of "hd (rev p)"] hd_in_set [of "rev p"] by (auto simp: dropWhile_eq_self_iff)
    then have "rstrip (\<lambda>c. c \<in> {CHR 0x0A, CHR 0x0D}) p = p" by (simp add: rstrip_def)
    ultimately have who: "principal_of v = p" using v(2,3) by (simp add: principal_of_def)
    let ?verify = "[''-Y'', ''verify'', ''-n'', ''git'', ''-f'', al, ''-I'', p, ''-s'', g]"
    have "asks [(''-Y'', ''verify''), (''-n'', ''git''), (''-f'', al), (''-I'', p), (''-s'', g)] [] ?verify"
      by (simp add: asks_def starts_with_def)
    with tool(2) [unfolded ssh_keygen_def, THEN conjunct2, THEN conjunct2, rule_format,
        of "''git''" al p g ?verify gs sg d] g(3) sg v(4) obtain w where w: "tool ?verify d gs = (w, gs)" "pr_exit w = 0"
      by blast
    have "run_command pg [''/bin/sh'', ''-c'', ssh_verify_command prog al p g h] gs = Some (tool ?verify d gs)"
      using tool(1) ssh_verify_command_parses [OF plain(1,2) g(1,2) p] g(4) unfolding runs_tool_def by blast
    moreover have "run_command pg (prog # ?find) gs = Some (v, gs)"
      using direct [of ?find gs] v(1) plain_word_nul [OF plain(2)] plain_word_nul [OF g(1)] by simp
    ultimately show ?thesis using who p w by (auto simp: quotable_def)
  qed
  with made show ?thesis by (intro exI [of _ made]) auto
qed

text \<open>Signing with ssh-keygen, taken apart: the temporary file, the run, and what is left.\<close>

lemma ssh_sign_run:
  assumes "ssh_honest pg key prog allowed" and "ssh_sign pg key prog d fs = Some (r, fs')"
  obtains (failed) e where "r = Inl e" "fs' = fs"
    | (ran) f p made al where "allowed = Some al" "plain_word f" "fs f = None" "fs (f @ ''.sig'') = None"
      "run_command pg [prog, ''-Y'', ''sign'', ''-n'', ''git'', ''-f'', key, f] (fs(f \<mapsto> d)) = Some (p, (fs(f \<mapsto> d))(f @ ''.sig'' := made))"
      "r = (if pr_exit p \<noteq> 0 \<or> or_else [] made = []
            then Inl \<lparr>ge_code = SigningError, ge_message = ''SSH signing failed: '' @ pr_stderr p\<rparr> else Inr (or_else [] made))"
      "fs' = fs"
proof (cases "create_temp_file pg fs d []")
  case (Inl e)
  with assms(2) have "r = Inl e" "fs' = fs" by (auto simp: ssh_sign_def)
  then show thesis by (rule failed)
next
  case (Inr x)
  obtain f fs1 where x: "x = (f, fs1)" by (cases x)
  from assms(1) obtain al where al: "allowed = Some al" and t: "temp_ok pg" unfolding ssh_honest_def by blast
  from Inr [unfolded x] have f: "fs1 = fs(f \<mapsto> d)" "fs f = None" "fs (f @ ''.sig'') = None"
    by (auto elim: create_temp_fileE [OF t])
  have w: "plain_word f" by (rule plain_temp_file [OF assms(1) Inr [unfolded x]])
  from assms(2) Inr x obtain p fs2 where
    run: "run_command pg [prog, ''-Y'', ''sign'', ''-n'', ''git'', ''-f'', key, f] fs1 = Some (p, fs2)"
    and r: "r = (if pr_exit p \<noteq> 0 \<or> or_else [] (fs2 (f @ ''.sig'')) = []
            then Inl \<lparr>ge_code = SigningError, ge_message = ''SSH signing failed: '' @ pr_stderr p\<rparr>
            else Inr (or_else [] (fs2 (f @ ''.sig''))))"
    and fs': "fs' = fs2(f @ ''.sig'' := None, f := None)"
    by (auto simp: ssh_sign_def Let_def split: option.splits)
  have fd: "fs1 f = Some d" "fs1 (f @ ''.sig'') = None" using f by simp_all
  from ssh_honest_run [OF assms(1) [unfolded al] fd w run] obtain made where made: "fs2 = fs1(f @ ''.sig'' := made)" by blast
  have "fs' = fs" unfolding fs' made f(1) using f(2,3) by (auto simp: fun_eq_iff)
  moreover have "fs2 (f @ ''.sig'') = made" by (simp add: made)
  ultimately show thesis using ran [OF al w f(2,3) run [unfolded made f(1)]] r by simp
qed

interpretation ssh: signing "ssh_sign pg key prog" "ssh_verify pg prog allowed" "ssh_honest pg key prog allowed" for pg key prog allowed
proof
  fix d fs r fs'
  assume "ssh_honest pg key prog allowed" "ssh_sign pg key prog d fs = Some (r, fs')"
  then show "fs' = fs" by (rule ssh_sign_run)
next
  fix d fs sg fs'
  assume h: "ssh_honest pg key prog allowed" "finite (dom fs)" "ssh_sign pg key prog d fs = Some (Inr sg, fs')"
  then have t: "temp_ok pg" by (simp add: ssh_honest_def)
  from h(1,3) show "sg \<noteq> [] \<and> CHR 0x00 \<notin> set sg \<and> (\<exists>r. ssh_verify pg prog allowed d sg fs = Some (Inr r, fs) \<and> vr_valid r)"
  proof (cases rule: ssh_sign_run)
    case (ran f p made al)
    from ran(6) obtain m where made: "made = Some m" "m = sg" "sg \<noteq> []" and x: "pr_exit p = 0"
      by (cases made) (auto split: if_splits)
    have fd: "(fs(f \<mapsto> d)) f = Some d" "(fs(f \<mapsto> d)) (f @ ''.sig'') = None" using ran(4) by simp_all
    from ssh_honest_run [OF h(1) [unfolded ran(1)] fd ran(2,5)] obtain made' where
      m': "(fs(f \<mapsto> d))(f @ ''.sig'' := made) = (fs(f \<mapsto> d))(f @ ''.sig'' := made')"
      and good: "\<forall>s. pr_exit p = 0 \<and> made' = Some s \<longrightarrow> CHR 0x00 \<notin> set s
       \<and> (\<forall>g h gs. plain_word g \<and> plain_word h \<and> gs g = Some s \<and> gs h = Some d \<longrightarrow>
            (\<exists>v w. run_command pg [prog, ''-Y'', ''find-principals'', ''-f'', al, ''-s'', g] gs = Some (v, gs)
               \<and> principal_of v \<noteq> []
               \<and> run_command pg [''/bin/sh'', ''-c'', ssh_verify_command prog al (principal_of v) g h] gs = Some (w, gs)
               \<and> pr_exit w = 0))" by blast
    from m' made have "made' = Some sg" by (metis fun_upd_same)
    with good x have sg: "CHR 0x00 \<notin> set sg"
      and v: "\<And>g h gs. plain_word g \<Longrightarrow> plain_word h \<Longrightarrow> gs g = Some sg \<Longrightarrow> gs h = Some d \<Longrightarrow>
            \<exists>v w. run_command pg [prog, ''-Y'', ''find-principals'', ''-f'', al, ''-s'', g] gs = Some (v, gs)
               \<and> principal_of v \<noteq> []
               \<and> run_command pg [''/bin/sh'', ''-c'', ssh_verify_command prog al (principal_of v) g h] gs = Some (w, gs)
               \<and> pr_exit w = 0"
      by (blast, blast)
    obtain k g where t2: "create_temp_file pg fs d [] = Inr (k, fs(k \<mapsto> d))" "k \<noteq> g"
      "create_temp_file pg (fs(k \<mapsto> d)) sg ''.sig'' = Inr (g, fs(k \<mapsto> d, g \<mapsto> sg))" "fs(k \<mapsto> d, g \<mapsto> sg, k := None, g := None) = fs"
      using two_temp_files [OF t h(2)] by metis
    have "plain_word k" "plain_word g"
      using plain_temp_file [OF h(1) t2(1)] plain_temp_file [OF h(1) t2(3)] .
    with v [of g k "fs(k \<mapsto> d, g \<mapsto> sg)"] t2(2) obtain u w where
      "run_command pg [prog, ''-Y'', ''find-principals'', ''-f'', al, ''-s'', g] (fs(k \<mapsto> d, g \<mapsto> sg)) = Some (u, fs(k \<mapsto> d, g \<mapsto> sg))"
      "principal_of u \<noteq> []" "pr_exit w = 0"
      "run_command pg [''/bin/sh'', ''-c'', ssh_verify_command prog al (principal_of u) g k] (fs(k \<mapsto> d, g \<mapsto> sg)) = Some (w, fs(k \<mapsto> d, g \<mapsto> sg))"
      by auto
    with t2 sg made(3) ran(1) show ?thesis
      by (simp add: ssh_verify_def)
  qed simp
qed

definition honest :: "programs \<Rightarrow> signer \<Rightarrow> bool" where
  "honest pg s = (case s of GpgSigner key prog \<Rightarrow> gpg_honest pg key prog | SshSigner key prog al \<Rightarrow> ssh_honest pg key prog al)"

text \<open>
  C38. A commit that was signed verifies. When libgit2 gives back the text and the signature it stored, the commit made is
  signed, its signature is valid for its signer, and neither signing nor verifying leaves a temporary file behind. With gpg
  this rests on gpg finding its own signature of a text good; with ssh-keygen on what its manual and the shell's say of the commands
  they are given, on the key being listed in the file of allowed signers, and on names that can stand in the shell's
  command: those of the program, of that file and of the temporary files are not quoted there.
\<close>

theorem signed_commit_verifies:
  assumes "honest pg s" and "finite (dom fs)"
    and "create_signed_commit lib lb (signer_sign pg s) rp msg t ps a c st fs = Some (Inr (i, st'), fs')"
    and "create_commit_buffer lib lb rp msg t ps a c = Inr content" and "CHR 0x00 \<notin> set content"
    and "\<And>sg. ss_create lb st content sg = Inr (i, st') \<Longrightarrow> ss_extract lb st' i None = Inr (sg, content)"
  shows "fs' = fs \<and> commit_is_signed lb st' i
    \<and> (\<exists>r. verify_commit lb (signer_verify pg s) st' i fs = Some (Inr r, fs) \<and> vr_valid r)"
proof (cases s)
  case (GpgSigner key prog)
  with assms show ?thesis
    using gpg.signed_commit [of pg key prog fs lib lb rp msg t ps a c st i st' fs' content]
    by (simp add: honest_def signer_sign_def signer_verify_def)
next
  case (SshSigner key prog al)
  with assms show ?thesis
    using ssh.signed_commit [of pg key prog al fs lib lb rp msg t ps a c st i st' fs' content]
    by (simp add: honest_def signer_sign_def signer_verify_def)
qed

section \<open>Concrete inputs\<close>

definition temp_name :: "files \<Rightarrow> string" where
  "temp_name fs = replicate (Suc (Max (insert 0 (length ` dom fs)))) CHR ''x''"

lemma temp_name_fresh:
  assumes "finite (dom fs)" and "length (temp_name fs) \<le> length f"
  shows "fs f = None"
proof (rule ccontr)
  assume "fs f \<noteq> None"
  then have "length f \<in> insert 0 (length ` dom fs)" by (auto simp: dom_def)
  then have "length f \<le> Max (insert 0 (length ` dom fs))" using assms(1) by (intro Max_ge) auto
  with assms(2) show False by (simp add: temp_name_def)
qed

definition demo_programs :: programs where
  "demo_programs =
     \<lparr>pg_child = (\<lambda>args fs. Inr (if args ! 1 = ''--status-fd=2'' then [Out ''S''] else [Out (status_line (''GOODSIG'', ''A1 me''))],
                    Some 0, fs)),
      pg_pipe = 65536, pg_temp = (\<lambda>fs e. if finite (dom fs) then Some (temp_name fs) else None), pg_stored = (\<lambda>c. c)\<rparr>"

definition demo_store :: "(oid \<rightharpoonup> string \<times> string) signed_store" where
  "demo_store =
     \<lparr>ss_buffer = (\<lambda>_ _ m _ _. Inr m), ss_create = (\<lambda>st c s. Inr (''1'', st(''1'' \<mapsto> (s, c)))),
      ss_extract = (\<lambda>st i _. case st i of Some x \<Rightarrow> Inr x | None \<Rightarrow> Inl demo_failure)\<rparr>"

lemma demo_runs:
  "run_command demo_programs [a, ''--status-fd=2'', b, c, d, e, f] fs = Some (\<lparr>pr_exit = 0, pr_stdout = ''S'', pr_stderr = []\<rparr>, fs)"
  "run_command demo_programs [a, ''--status-fd=1'', b, c, g, h] fs
     = Some (\<lparr>pr_exit = 0, pr_stdout = status_line (''GOODSIG'', ''A1 me''), pr_stderr = []\<rparr>, fs)"
  by (simp_all add: run_command_def demo_programs_def c_str_def)

lemma demo_good: "plain_line (''GOODSIG'', ''A1 me'')" "says_good (status_line (''GOODSIG'', ''A1 me''))"
proof -
  show p: "plain_line (''GOODSIG'', ''A1 me'')" by code_simp
  have "''GOODSIG'' \<in> fst ` set [(''GOODSIG'', ''A1 me'')]"
    "{''BADSIG'', ''ERRSIG'', ''NO_PUBKEY''} \<inter> fst ` set [(''GOODSIG'', ''A1 me'')] = {}" by code_simp+
  moreover have "status_line (''GOODSIG'', ''A1 me'') = concat (map status_line [(''GOODSIG'', ''A1 me'')])"
    "list_all plain_line [(''GOODSIG'', ''A1 me'')]"
    using p by (simp_all only: list.map concat.simps append_Nil2 list.pred_inject simp_thms)
  ultimately show "says_good (status_line (''GOODSIG'', ''A1 me''))"
    unfolding says_good_def by (intro exI conjI)
qed

lemma demo_honest: "gpg_honest demo_programs key prog"
proof -
  have "temp_ok demo_programs"
    by (auto simp: temp_ok_def demo_programs_def intro!: temp_name_fresh split: if_splits)
  then show ?thesis
    unfolding gpg_honest_def demo_runs using demo_good(2) by simp
qed

text \<open>An ssh-keygen whose signatures are the namespace and the text, with one key and one principal.\<close>

definition demo_keygen :: "string list \<Rightarrow> string \<Rightarrow> files \<Rightarrow> process_result \<times> files" where
  "demo_keygen args inp fs =
     (let (xs, rest) = opts args; opt = (\<lambda>k. or_else [] (map_of xs k));
          ends = (\<lambda>n out. \<lparr>pr_exit = n, pr_stdout = out, pr_stderr = []\<rparr>)
      in if opt ''-Y'' = ''sign''
         then (let text = or_else [] (fs (hd rest))
               in if opt ''-f'' = ''/k'' \<and> CHR 0x00 \<notin> set (opt ''-n'' @ text)
                  then (ends 0 [], fs(hd rest @ ''.sig'' \<mapsto> opt ''-n'' @ ''|'' @ text)) else (ends 1 [], fs))
         else if opt ''-Y'' = ''find-principals'' then (ends 0 (''me'' @ [CHR 0x0A]), fs)
         else (ends (if fs (opt ''-s'') = Some (opt ''-n'' @ ''|'' @ inp) \<and> CHR 0x00 \<notin> set (opt ''-n'' @ inp) \<and> opt ''-I'' = ''me''
                     then 0 else 1) [], fs))"

definition sh_run :: "string \<Rightarrow> (string list \<times> string) option" where
  "sh_run cmd =
     (case sh_tokens False None cmd of
        None \<Rightarrow> None
      | Some ts \<Rightarrow> (case rev ts of
          ShWord f # ShInput # ws \<Rightarrow> Some (map (\<lambda>t. case t of ShWord w \<Rightarrow> w | ShInput \<Rightarrow> []) (rev ws), f) | _ \<Rightarrow> None))"

definition demo_ssh :: programs where
  "demo_ssh =
     \<lparr>pg_child = (\<lambda>args fs.
        let (r, fs') = (if hd args = ''ssh-keygen'' then demo_keygen (tl args) [] fs
                        else case sh_run (args ! 2) of
                               Some (_ # as, inp) \<Rightarrow> demo_keygen as (or_else [] (fs inp)) fs
                             | _ \<Rightarrow> (\<lparr>pr_exit = 127, pr_stdout = [], pr_stderr = []\<rparr>, fs))
        in Inr ([Out (pr_stdout r)], Some (pr_exit r), fs')),
      pg_pipe = 65536, pg_temp = (\<lambda>fs e. if finite (dom fs) then Some (temp_name fs) else None), pg_stored = (\<lambda>c. c)\<rparr>"

lemma demo_keygen_quiet: "pr_stderr (fst (demo_keygen args inp fs)) = []"
  by (simp add: demo_keygen_def Let_def split: prod.split)

lemma sh_tokens_nul: "sh_tokens q cur cmd \<noteq> None \<Longrightarrow> CHR 0x00 \<notin> set cmd"
proof (induction q cur cmd rule: sh_tokens.induct)
  case (3 cur c cs)
  have "CHR 0x00 \<notin> set plain_chars" by code_simp
  with 3 show ?case by (auto split: if_splits)
qed (auto split: if_splits)

lemma demo_runs_tool: "runs_tool demo_ssh ''ssh-keygen'' demo_keygen"
proof -
  have res: "\<lparr>pr_exit = pr_exit r, pr_stdout = pr_stdout r, pr_stderr = []\<rparr> = r" if "pr_stderr r = []" for r :: process_result
    using that by (cases r) simp
  have quiet: "pr_stderr r = []" if "demo_keygen args inp fs = (r, fs')" for args inp fs r fs'
    using demo_keygen_quiet [of args inp fs] that by simp
  have "run_command demo_ssh (''ssh-keygen'' # args) fs = Some (demo_keygen args [] fs)"
    if "list_all (\<lambda>a. CHR 0x00 \<notin> set a) args" for args fs
  proof -
    have "map c_str args = args" using that by (induction args) (auto simp: c_str_def takeWhile_eq_all_conv)
    then have "map c_str (''ssh-keygen'' # args) = ''ssh-keygen'' # args" by (simp add: c_str_def)
    moreover obtain r fs' where r: "demo_keygen args [] fs = (r, fs')" by force
    ultimately show ?thesis
      unfolding run_command_def by (simp add: demo_ssh_def r res [OF quiet [OF r]])
  qed
  moreover have "run_command demo_ssh [''/bin/sh'', ''-c'', cmd] fs = Some (demo_keygen args d fs)"
    if c: "sh_parse cmd (''ssh-keygen'' # args) inp" and d: "fs inp = Some d" for cmd args inp d fs
  proof -
    have "CHR 0x00 \<notin> set cmd" using sh_tokens_nul [of False None cmd] c by (simp add: sh_parse_def)
    then have cmd: "map c_str [''/bin/sh'', ''-c'', cmd] = [''/bin/sh'', ''-c'', cmd]"
      by (auto simp: c_str_def takeWhile_eq_all_conv)
    have run: "sh_run cmd = Some (''ssh-keygen'' # args, inp)"
      using c by (simp add: sh_run_def sh_parse_def o_def rev_map)
    obtain r fs' where r: "demo_keygen args d fs = (r, fs')" by force
    then show ?thesis
      unfolding run_command_def cmd by (simp add: demo_ssh_def run d res [OF quiet [OF r]])
  qed
  ultimately show ?thesis unfolding runs_tool_def by blast
qed

lemma demo_ssh_keygen:
  "ssh_keygen demo_keygen (\<lambda>key ns d sg. key = ''/k'' \<and> sg = ns @ ''|'' @ d \<and> CHR 0x00 \<notin> set (ns @ d))
     (\<lambda>_ key who. key = ''/k'' \<and> who = ''me'')"
proof -
  have "\<exists>made. fs = fs(x := made)" if "fs x = None" for fs :: files and x
    using that by (intro exI [of _ None]) (simp add: fun_upd_idem)
  then show ?thesis
    unfolding ssh_keygen_def asks_def demo_keygen_def
    by (intro conjI allI impI) (auto simp: Let_def split: if_splits prod.splits)
qed

lemma demo_ssh_honest: "ssh_honest demo_ssh ''/k'' ''ssh-keygen'' (Some ''/al'')"
proof -
  have "temp_ok demo_ssh"
    by (auto simp: temp_ok_def demo_ssh_def intro!: temp_name_fresh split: if_splits)
  moreover have "CHR ''x'' \<in> set plain_chars" by code_simp
  then have "\<forall>fs e f. pg_temp demo_ssh fs e = Some f \<longrightarrow> plain_word f"
    by (auto simp: demo_ssh_def plain_word_def temp_name_def split: if_splits)
  moreover have "plain_word ''ssh-keygen''" "plain_word ''/al''" "quotable ''me''" "CHR 0x00 \<notin> set ''/k''" by code_simp+
  ultimately show ?thesis unfolding ssh_honest_def using demo_runs_tool demo_ssh_keygen by blast
qed

lemma demo_temp:
  "create_temp_file demo_ssh Map.empty c e = Inr (temp_name Map.empty, [temp_name Map.empty \<mapsto> c])"
  by (simp add: create_temp_file_def demo_ssh_def)

lemma demo_ssh_signs: "ssh_sign demo_ssh ''/k'' ''ssh-keygen'' ''m'' Map.empty = Some (Inr ''git|m'', Map.empty)"
proof -
  let ?f = "temp_name Map.empty"
  let ?args = "[''-Y'', ''sign'', ''-n'', ''git'', ''-f'', ''/k'', ?f]"
  have "CHR 0x00 \<notin> set ?f" by (simp add: temp_name_def)
  then have "run_command demo_ssh (''ssh-keygen'' # ?args) [?f \<mapsto> ''m''] = Some (demo_keygen ?args [] [?f \<mapsto> ''m''])"
    using demo_runs_tool [unfolded runs_tool_def, THEN conjunct1, rule_format, of ?args] by simp
  also have "\<dots> = Some (\<lparr>pr_exit = 0, pr_stdout = [], pr_stderr = []\<rparr>, [?f \<mapsto> ''m'', ?f @ ''.sig'' \<mapsto> ''git|m''])"
    by (simp add: demo_keygen_def starts_with_def Let_def)
  finally show ?thesis by (simp add: ssh_sign_def demo_temp fun_eq_iff)
qed

theorem signed_commit_verifies_witness:
  "(\<exists>i st' r. create_signed_commit demo_lib demo_store (signer_sign demo_programs (GpgSigner ''k'' ''gpg''))
        \<lparr>rp_commits = Map.empty, rp_refs = Map.empty, rp_head = []\<rparr> ''m'' [] [] demo_sig demo_sig Map.empty Map.empty
      = Some (Inr (i, st'), Map.empty)
     \<and> verify_commit demo_store (signer_verify demo_programs (GpgSigner ''k'' ''gpg'')) st' i Map.empty = Some (Inr r, Map.empty)
     \<and> vr_valid r)
   \<and> (\<exists>i st' r. create_signed_commit demo_lib demo_store (signer_sign demo_ssh (SshSigner ''/k'' ''ssh-keygen'' (Some ''/al'')))
        \<lparr>rp_commits = Map.empty, rp_refs = Map.empty, rp_head = []\<rparr> ''m'' [] [] demo_sig demo_sig Map.empty Map.empty
      = Some (Inr (i, st'), Map.empty)
     \<and> verify_commit demo_store (signer_verify demo_ssh (SshSigner ''/k'' ''ssh-keygen'' (Some ''/al''))) st' i Map.empty
         = Some (Inr r, Map.empty)
     \<and> vr_valid r)"
proof -
  let ?rp = "\<lparr>rp_commits = Map.empty, rp_refs = Map.empty, rp_head = []\<rparr> :: repository"
  let ?gpg = "GpgSigner ''k'' ''gpg''" and ?ssh = "SshSigner ''/k'' ''ssh-keygen'' (Some ''/al'')"
  have buf: "create_commit_buffer demo_lib demo_store ?rp ''m'' [] [] demo_sig demo_sig = Inr ''m''"
    by (simp add: create_commit_buffer_def demo_store_def c_str_def)
  have "create_temp_file demo_programs Map.empty c e = Inr (temp_name Map.empty, [temp_name Map.empty \<mapsto> c])" for c e
    by (simp add: create_temp_file_def demo_programs_def)
  then have gpg: "create_signed_commit demo_lib demo_store (signer_sign demo_programs ?gpg) ?rp ''m'' [] [] demo_sig demo_sig Map.empty Map.empty
      = Some (Inr (''1'', [''1'' \<mapsto> (''S'', ''m'')]), Map.empty)"
    unfolding create_signed_commit_def buf
    by (simp add: signer_sign_def gpg_sign_def demo_runs) (simp add: demo_store_def c_str_def)
  have ssh: "create_signed_commit demo_lib demo_store (signer_sign demo_ssh ?ssh) ?rp ''m'' [] [] demo_sig demo_sig Map.empty Map.empty
      = Some (Inr (''1'', [''1'' \<mapsto> (''git|m'', ''m'')]), Map.empty)"
    unfolding create_signed_commit_def buf
    by (simp add: signer_sign_def demo_ssh_signs) (simp add: demo_store_def c_str_def)
  have h: "honest demo_programs ?gpg" "honest demo_ssh ?ssh" by (simp_all add: honest_def demo_honest demo_ssh_honest)
  have kept: "ss_extract demo_store [''1'' \<mapsto> (x, ''m'')] ''1'' None = Inr (sg, ''m'')"
    if "ss_create demo_store Map.empty ''m'' sg = Inr (''1'', [''1'' \<mapsto> (x, ''m'')])" for sg x
    using that by (auto simp: demo_store_def fun_eq_iff split: if_splits)
  from signed_commit_verifies [OF h(1) _ gpg buf _ kept] signed_commit_verifies [OF h(2) _ ssh buf _ kept] gpg ssh
  show ?thesis by auto
qed

theorem run_command_exact_witness:
  "run_command \<lparr>pg_child = (\<lambda>_ fs. Inr ([Err ''e'', Out ''o'', Err ''f''], None, fs)), pg_pipe = 1, pg_temp = (\<lambda>_ _. None), pg_stored = (\<lambda>c. c)\<rparr>
     [''gpg''] Map.empty = None"
proof -
  let ?pg = "\<lparr>pg_child = (\<lambda>_ fs. Inr ([Err ''e'', Out ''o'', Err ''f''], None, fs)), pg_pipe = 1, pg_temp = (\<lambda>_ _. None), pg_stored = (\<lambda>c. c)\<rparr>"
  have "pg_child ?pg (map c_str [''gpg'']) Map.empty = Inr ([Err ''e'', Out ''o'', Err ''f''], None, Map.empty)" by simp
  from run_command_exact [OF this] show ?thesis by (simp add: err_text_def)
qed

theorem gpg_verdict_exact_witness:
  "vr_valid (gpg_verdict (concat (map status_line [(''GOODSIG'', ''A1 me'')])) [])"
proof -
  have "list_all plain_line [(''GOODSIG'', ''A1 me'')]" using demo_good(1) by (simp only: list.pred_inject simp_thms)
  moreover have "''GOODSIG'' \<in> fst ` set [(''GOODSIG'', ''A1 me'')]
    \<and> {''BADSIG'', ''ERRSIG'', ''NO_PUBKEY''} \<inter> fst ` set [(''GOODSIG'', ''A1 me'')] = {}" by code_simp
  ultimately show ?thesis by (rule gpg_verdict_exact [THEN conjunct1, THEN iffD2])
qed

end
