(* ===== verification/GitRead.thy ===== *)
theory GitRead
  imports GitWalk Refs
begin

text \<open>
  Reading a repository for the client: the diffs of \<^verbatim>\<open>src/gitmanip/src/diff.cpp\<close>, the C bridge
  (\<^verbatim>\<open>src/core/src/GitManipBridge.cpp\<close>) and the handlers of \<^verbatim>\<open>agent/main.cpp\<close> that answer \<^verbatim>\<open>git.headSha\<close>,
  \<^verbatim>\<open>repoMetadata\<close>, \<^verbatim>\<open>remotes\<close>, \<^verbatim>\<open>branches\<close>, \<^verbatim>\<open>commits\<close>, \<^verbatim>\<open>aheadBehind\<close>, \<^verbatim>\<open>diffForCommit\<close>, \<^verbatim>\<open>workingTreeDiff\<close>,
  \<^verbatim>\<open>stagedDiff\<close> and \<^verbatim>\<open>checkoutBranch\<close>.

  The repository libgit2 opened is a record: its commits and references, what it answers about branches, its
  directories, the diffs of its index, and a work tree of some type. What a diff of two trees contains and how a
  checkout changes the work tree are parameters (\<open>git_env\<close>). The bridge turns a thrown error into an empty answer
  and keeps the message.
\<close>

section \<open>Diffs\<close>

text \<open>A patch as libgit2 hands it out. Positions are C \<^verbatim>\<open>int\<close>s.\<close>

record diff_line =
  ln_origin :: char
  ln_content :: string
  ln_old :: int
  ln_new :: int

record diff_hunk =
  hk_old_start :: int
  hk_old_lines :: int
  hk_new_start :: int
  hk_new_lines :: int
  hk_header :: string
  hk_lines :: "diff_line list"

record file_delta =
  fd_status :: int
  fd_old :: "string option"
  fd_new :: "string option"
  fd_hunks :: "git_failure + diff_hunk list"
  fd_text :: "git_failure + string"

text \<open>The enumeration has the numbers of libgit2's; a number it does not know is Unmodified.\<close>

definition convert_status :: "int \<Rightarrow> int" where
  "convert_status n = (if 0 \<le> n \<and> n \<le> 10 then n else 0)"

text \<open>What the bridge keeps of a file's delta (\<^verbatim>\<open>GMFileDiff\<close>).\<close>

record file_diff =
  gd_status :: int
  gd_old :: string
  gd_new :: string
  gd_patch :: string
  gd_hunks :: "diff_hunk list"

definition diff_hunks :: "file_delta \<Rightarrow> diff_hunk list" where
  "diff_hunks d = (case fd_hunks d of Inr hs \<Rightarrow> hs | Inl _ \<Rightarrow> [])"

definition extract_delta :: "file_delta \<Rightarrow> gm_error + file_diff" where
  "extract_delta d =
     bindr (checked ''creating patch from diff'' (fd_text d)) (\<lambda>t.
       Inr \<lparr>gd_status = convert_status (fd_status d), gd_old = or_empty (fd_old d), gd_new = or_empty (fd_new d), gd_patch = t,
            gd_hunks = diff_hunks d\<rparr>)"

definition extract_file_diffs :: "file_delta list \<Rightarrow> gm_error + file_diff list" where
  "extract_file_diffs ds = each extract_delta ds"

section \<open>The repository as it is open\<close>

record 'w opened =
  op_repo :: repository
  op_refs :: ref_lib
  op_gitdir :: string
  op_workdir :: "string option"
  op_bare :: bool
  op_unstaged :: "bool \<Rightarrow> git_failure + file_delta list"
  op_staged :: "git_tree \<Rightarrow> git_failure + file_delta list"
  op_work :: 'w

record 'w git_env =
  ev_lib :: git_lib
  ev_walk :: walk_lib
  ev_open :: "string \<Rightarrow> git_failure + 'w opened"
  ev_diff :: "git_tree \<Rightarrow> git_tree \<Rightarrow> git_failure + file_delta list"
  ev_checkout :: "'w opened \<Rightarrow> git_tree \<Rightarrow> git_failure option \<times> 'w"
  ev_set_head :: "'w opened \<Rightarrow> string \<Rightarrow> git_failure option"
  ev_revparse :: "repository \<Rightarrow> string \<Rightarrow> git_failure + (oid \<times> bool)"

text \<open>\<^verbatim>\<open>Repository::lookup_commit\<close> of a revision: what it names, and whether that is a commit.\<close>

definition lookup_rev :: "'w git_env \<Rightarrow> repository \<Rightarrow> string \<Rightarrow> gm_error + commit" where
  "lookup_rev ev rp name =
     bindr (checked (''parsing revision '' @ name) (ev_revparse ev rp (c_str name))) (\<lambda>(i, is_commit).
       if \<not> is_commit then Inl \<lparr>ge_code = InvalidArgument, ge_message = name @ '' does not resolve to a commit''\<rparr>
       else case rp_commits rp i of
         Some g \<Rightarrow> Inr (i, g)
       | None \<Rightarrow> checked ''looking up commit'' (Inl (gl_no_commit (ev_lib ev))))"

section \<open>The bridge\<close>

definition gm_open :: "'w git_env \<Rightarrow> string \<Rightarrow> gm_error + 'w opened" where
  "gm_open ev path = checked (''opening repository at '' @ c_str path) (ev_open ev (c_str path))"

definition gm_head_oid :: "'w git_env \<Rightarrow> 'w opened \<Rightarrow> gm_error + oid" where
  "gm_head_oid ev r = head_oid (ev_lib ev) (op_repo r)"

definition gm_current_branch :: "'w opened \<Rightarrow> string option" where
  "gm_current_branch r = map_option bi_name (branch_current (op_refs r))"

definition gm_remotes :: "'w opened \<Rightarrow> gm_error + remote_info list" where
  "gm_remotes r = remote_list (op_refs r)"

definition gm_branches :: "'w opened \<Rightarrow> bool \<Rightarrow> bool \<Rightarrow> gm_error + branch_info list" where
  "gm_branches r local remote = branch_list (op_refs r) local remote"

definition branch_ref :: "string \<Rightarrow> string" where
  "branch_ref b = (if starts_with b ''refs/'' then b else ''refs/heads/'' @ b)"

text \<open>The bridge does not ask the walker for an order.\<close>

definition gm_commits :: "'w git_env \<Rightarrow> 'w opened \<Rightarrow> string option \<Rightarrow> nat \<Rightarrow> gm_error + commit list" where
  "gm_commits ev r branch limit =
     bindr (case branch of
              Some b \<Rightarrow> if b \<noteq> [] then push_ref (ev_lib ev) (op_repo r) (branch_ref b) new_walker
                        else push_head (ev_lib ev) (op_repo r) new_walker
            | None \<Rightarrow> push_head (ev_lib ev) (op_repo r) new_walker) (\<lambda>w.
     bindr (walk_commits (ev_lib ev) (ev_walk ev) (op_repo r) w) (\<lambda>cs. Inr (take limit cs)))"

definition gm_uncommitted :: "'w git_env \<Rightarrow> 'w opened \<Rightarrow> gm_error + bool" where
  "gm_uncommitted ev r =
     bindr (checked ''creating index-to-workdir diff'' (op_unstaged r False)) (\<lambda>un.
       if un \<noteq> [] then Inr True
       else case bindr (head_oid (ev_lib ev) (op_repo r)) (\<lambda>i.
                 bindr (lookup_commit (ev_lib ev) (op_repo r) i) (\<lambda>c.
                   checked ''creating tree-to-index diff'' (op_staged r (commit_tree c)))) of
              Inl _ \<Rightarrow> Inr False
            | Inr st \<Rightarrow> Inr (st \<noteq> []))"

definition upstream_ref :: "string \<Rightarrow> string" where
  "upstream_ref up = ''refs/remotes/'' @ up"

definition gm_ahead_behind :: "'w git_env \<Rightarrow> 'w opened \<Rightarrow> string \<Rightarrow> gm_error + (nat \<times> nat)" where
  "gm_ahead_behind ev r branch =
     bindr (branch_get (op_refs r) branch False) (\<lambda>got.
       case got of
         None \<Rightarrow> Inr (0, 0)
       | Some info \<Rightarrow>
           (case bi_upstream info of
              None \<Rightarrow> Inr (0, 0)
            | Some up \<Rightarrow>
                bindr (lookup_commit (ev_lib ev) (op_repo r) (bi_target info)) (\<lambda>local.
                bindr (lookup_rev ev (op_repo r) (upstream_ref up)) (\<lambda>upstream.
                bindr (walk_commits (ev_lib ev) (ev_walk ev) (op_repo r)
                         (wk_hide_oid (fst local) (wk_push_oid (fst upstream) new_walker))) (\<lambda>behind.
                bindr (walk_commits (ev_lib ev) (ev_walk ev) (op_repo r)
                         (wk_hide_oid (fst upstream) (wk_push_oid (fst local) new_walker))) (\<lambda>ahead.
                  Inr (length ahead, length behind)))))))"

definition gm_commit_diff :: "'w git_env \<Rightarrow> 'w opened \<Rightarrow> string \<Rightarrow> gm_error + file_diff list" where
  "gm_commit_diff ev r sha =
     bindr (oid_of_hex (gl_bad_hex (ev_lib ev)) (c_str sha)) (\<lambda>i.
     bindr (lookup_commit (ev_lib ev) (op_repo r) i) (\<lambda>c.
     bindr (if gc_parents (snd c) = [] then Inr []
            else bindr (lookup_commit (ev_lib ev) (op_repo r) (hd (gc_parents (snd c)))) (\<lambda>p. Inr (commit_tree p))) (\<lambda>old.
     bindr (checked ''creating tree-to-tree diff'' (ev_diff ev old (commit_tree c))) extract_file_diffs)))"

definition gm_workdir_diff :: "'w opened \<Rightarrow> gm_error + file_diff list" where
  "gm_workdir_diff r = bindr (checked ''creating index-to-workdir diff'' (op_unstaged r True)) extract_file_diffs"

definition gm_staged_diff :: "'w git_env \<Rightarrow> 'w opened \<Rightarrow> gm_error + file_diff list" where
  "gm_staged_diff ev r =
     (let from = (case bindr (head_oid (ev_lib ev) (op_repo r)) (lookup_commit (ev_lib ev) (op_repo r)) of
                    Inr c \<Rightarrow> commit_tree c
                  | Inl _ \<Rightarrow> [])
      in bindr (checked ''creating tree-to-index diff'' (op_staged r from)) extract_file_diffs)"

definition local_ref :: "string \<Rightarrow> string" where
  "local_ref branch = ''refs/heads/'' @ c_str branch"

lemma local_ref_not_head [simp]: "local_ref branch \<noteq> ''HEAD''"
  by (simp add: local_ref_def)

text \<open>The branch's tree first, then HEAD. A checkout that fails may have changed the work tree before it did.\<close>

definition gm_checkout :: "'w git_env \<Rightarrow> 'w opened \<Rightarrow> string \<Rightarrow> gm_error option \<times> 'w opened" where
  "gm_checkout ev r branch =
     (let refname = local_ref branch
      in case bindr (resolve_ref (ev_lib ev) (op_repo r) refname) (lookup_commit (ev_lib ev) (op_repo r)) of
           Inl e \<Rightarrow> (Some e, r)
         | Inr c \<Rightarrow>
             (let (failed, w) = ev_checkout ev r (commit_tree c); r1 = r\<lparr>op_work := w\<rparr>
              in case failed of
                   Some f \<Rightarrow> (Some (check_libgit2_error f ''checking out tree''), r1)
                 | None \<Rightarrow>
                     (case ev_set_head ev r1 refname of
                        Some f \<Rightarrow> (Some (check_libgit2_error f (''setting HEAD to '' @ refname)), r1)
                      | None \<Rightarrow> (None, r1\<lparr>op_repo := (op_repo r)\<lparr>rp_head := refname\<rparr>\<rparr>))))"

section \<open>The handlers\<close>

definition or_nothing :: "'e + 'a list \<Rightarrow> 'a list" where
  "or_nothing x = (case x of Inr xs \<Rightarrow> xs | Inl _ \<Rightarrow> [])"

text \<open>A C string, or null.\<close>

definition strOrNull :: "string option \<Rightarrow> json" where
  "strOrNull s = (case s of Some x \<Rightarrow> JStr (c_str x) | None \<Rightarrow> JNull)"

definition nonEmptyOrNull :: "string option \<Rightarrow> json" where
  "nonEmptyOrNull s = (case s of Some x \<Rightarrow> if c_str x = [] then JNull else JStr (c_str x) | None \<Rightarrow> JNull)"

definition open_failed :: "string \<Rightarrow> gm_error \<Rightarrow> reply" where
  "open_failed path e =
     Error KNotFound (''could not open repository at '' @ [CHR 0x27] @ path @ [CHR 0x27] @ '': '' @ c_str (ge_message e))"

definition openForRequest :: "'w git_env \<Rightarrow> json \<Rightarrow> string \<Rightarrow> reply + 'w opened" where
  "openForRequest ev params meth =
     (case str_field ''path'' params of
        None \<Rightarrow> Inl (Error KInvalidRequest (meth @ '' requires string param '' @ [CHR 0x27] @ ''path'' @ [CHR 0x27]))
      | Some path \<Rightarrow> (case gm_open ev path of Inl e \<Rightarrow> Inl (open_failed path e) | Inr r \<Rightarrow> Inr r))"

text \<open>What a handler replies once it got this far: its value, or the reply that ended it before.\<close>

definition replying :: "reply + json \<Rightarrow> reply" where
  "replying x = (case x of Inl r \<Rightarrow> r | Inr j \<Rightarrow> Result j)"

definition handleHeadSha :: "'w git_env \<Rightarrow> json \<Rightarrow> reply" where
  "handleHeadSha ev params =
     replying (bindr (openForRequest ev params ''git.headSha'') (\<lambda>r.
       case gm_head_oid ev r of
         Inl _ \<Rightarrow> Inl (Error KGitFailed (''could not resolve HEAD at '' @ [CHR 0x27] @ or_else [] (str_field ''path'' params) @ [CHR 0x27]))
       | Inr i \<Rightarrow> Inr (JObj [(''headSha'', JStr (c_str i))])))"

definition handleRepoMetadata :: "'w git_env \<Rightarrow> json \<Rightarrow> reply" where
  "handleRepoMetadata ev params =
     replying (bindr (openForRequest ev params ''git.repoMetadata'') (\<lambda>r.
       Inr (JObj [(''path'', strOrNull (case op_workdir r of Some w \<Rightarrow> if w = [] then Some (op_gitdir r) else Some w
                                                        | None \<Rightarrow> Some (op_gitdir r))),
                  (''gitDir'', strOrNull (Some (op_gitdir r))),
                  (''isBare'', JBool (op_bare r)),
                  (''headSha'', strOrNull (case gm_head_oid ev r of Inr i \<Rightarrow> Some i | Inl _ \<Rightarrow> None)),
                  (''currentBranch'', strOrNull (gm_current_branch r)),
                  (''hasUncommittedChanges'', JBool (case gm_uncommitted ev r of Inr b \<Rightarrow> b | Inl _ \<Rightarrow> False))])))"

definition remote_json :: "remote_info \<Rightarrow> json" where
  "remote_json i = JObj [(''name'', JStr (c_str (ri_name i))), (''url'', JStr (c_str (ri_url i))), (''pushUrl'', JStr (c_str (ri_push_url i)))]"

definition handleRemotes :: "'w git_env \<Rightarrow> json \<Rightarrow> reply" where
  "handleRemotes ev params =
     replying (bindr (openForRequest ev params ''git.remotes'') (\<lambda>r.
       Inr (JObj [(''remotes'', JArr (map remote_json (or_nothing (gm_remotes r))))])))"

definition branch_json :: "branch_info \<Rightarrow> json" where
  "branch_json b =
     JObj [(''name'', JStr (c_str (bi_name b))), (''refname'', JStr (c_str (bi_refname b))), (''targetOid'', JStr (c_str (bi_target b))),
           (''isRemote'', JBool (bi_is_remote b)), (''isHead'', JBool (bi_is_head b)), (''upstream'', nonEmptyOrNull (bi_upstream b)),
           (''remoteName'', nonEmptyOrNull (bi_remote_name b))]"

definition handleBranches :: "'w git_env \<Rightarrow> json \<Rightarrow> reply" where
  "handleBranches ev params =
     replying (bindr (openForRequest ev params ''git.branches'') (\<lambda>r.
       Inr (JObj [(''branches'', JArr (map branch_json (or_nothing
              (gm_branches r (or_else True (bool_field ''local'' params)) (or_else False (bool_field ''remote'' params))))))])))"

definition commit_json :: "git_lib \<Rightarrow> commit \<Rightarrow> json" where
  "commit_json lib c =
     JObj [(''oid'', JStr (c_str (fst c))), (''shortOid'', JStr (c_str (short_id (fst c)))), (''message'', JStr (c_str (commit_message c))),
           (''summary'', JStr (c_str (gl_summary lib (commit_message c)))), (''authorName'', JStr (c_str (sg_name (commit_author c)))),
           (''authorEmail'', JStr (c_str (sg_email (commit_author c)))), (''authorTime'', JInt (sg_time (commit_author c))),
           (''parentOids'', JArr (map (\<lambda>p. JStr (c_str p)) (gc_parents (snd c))))]"

definition commits_limit :: "json \<Rightarrow> nat" where
  "commits_limit params = nat (case int_field ''limit'' params of Some i \<Rightarrow> to_int64 i | None \<Rightarrow> 100)"

definition handleCommits :: "'w git_env \<Rightarrow> json \<Rightarrow> reply" where
  "handleCommits ev params =
     replying (bindr (openForRequest ev params ''git.commits'') (\<lambda>r.
       Inr (JObj [(''commits'', JArr (map (commit_json (ev_lib ev)) (or_nothing
              (gm_commits ev r (map_option c_str (str_field ''branch'' params)) (commits_limit params)))))])))"

definition handleAheadBehind :: "'w git_env \<Rightarrow> json \<Rightarrow> reply" where
  "handleAheadBehind ev params =
     replying (bindr (reqStr params ''branch'' ''git.aheadBehind'') (\<lambda>branch.
     bindr (openForRequest ev params ''git.aheadBehind'') (\<lambda>r.
       (let (a, b) = (case gm_ahead_behind ev r (c_str branch) of Inr n \<Rightarrow> n | Inl _ \<Rightarrow> (0, 0))
        in Inr (JObj [(''ahead'', JInt (int a)), (''behind'', JInt (int b))])))))"

definition line_json :: "diff_line \<Rightarrow> json" where
  "line_json l = JObj [(''origin'', JStr [ln_origin l]), (''content'', JStr (c_str (ln_content l))), (''oldLineNo'', JInt (ln_old l)),
     (''newLineNo'', JInt (ln_new l))]"

definition hunk_json :: "diff_hunk \<Rightarrow> json" where
  "hunk_json h = JObj [(''oldStart'', JInt (hk_old_start h)), (''oldLines'', JInt (hk_old_lines h)), (''newStart'', JInt (hk_new_start h)),
     (''newLines'', JInt (hk_new_lines h)), (''header'', JStr (c_str (hk_header h))), (''lines'', JArr (map line_json (hk_lines h)))]"

definition file_json :: "file_diff \<Rightarrow> json" where
  "file_json d = JObj [(''status'', JInt (gd_status d)), (''oldPath'', JStr (c_str (gd_old d))), (''newPath'', JStr (c_str (gd_new d))),
     (''patch'', JStr (c_str (gd_patch d))), (''hunks'', JArr (map hunk_json (gd_hunks d)))]"

definition serializeFileDiffs :: "file_diff list \<Rightarrow> json" where
  "serializeFileDiffs ds = JArr (map file_json ds)"

definition handleDiffForCommit :: "'w git_env \<Rightarrow> json \<Rightarrow> reply" where
  "handleDiffForCommit ev params =
     replying (bindr (reqStr params ''sha'' ''git.diffForCommit'') (\<lambda>sha.
     bindr (openForRequest ev params ''git.diffForCommit'') (\<lambda>r.
       Inr (JObj [(''diffs'', serializeFileDiffs (or_nothing (gm_commit_diff ev r sha)))]))))"

definition handleWorkingTreeDiff :: "'w git_env \<Rightarrow> json \<Rightarrow> reply" where
  "handleWorkingTreeDiff ev params =
     replying (bindr (openForRequest ev params ''git.workingTreeDiff'') (\<lambda>r.
       Inr (JObj [(''diffs'', serializeFileDiffs (or_nothing (gm_workdir_diff r)))])))"

definition handleStagedDiff :: "'w git_env \<Rightarrow> json \<Rightarrow> reply" where
  "handleStagedDiff ev params =
     replying (bindr (openForRequest ev params ''git.stagedDiff'') (\<lambda>r.
       Inr (JObj [(''diffs'', serializeFileDiffs (or_nothing (gm_staged_diff ev r)))])))"

text \<open>The reply and, when the repository could be opened, its state afterwards.\<close>

definition handleCheckoutBranch :: "'w git_env \<Rightarrow> json \<Rightarrow> reply \<times> 'w opened option" where
  "handleCheckoutBranch ev params =
     (case bindr (reqStr params ''branch'' ''git.checkoutBranch'') (\<lambda>branch.
           bindr (openForRequest ev params ''git.checkoutBranch'') (\<lambda>r. Inr (branch, r))) of
        Inl reply \<Rightarrow> (reply, None)
      | Inr (branch, r) \<Rightarrow>
          (case gm_checkout ev r branch of
             (None, r') \<Rightarrow> (Result (JObj []), Some r')
           | (Some e, r') \<Rightarrow>
               (Error KInternal (if c_str (ge_message e) = [] then ''checkout failed'' else c_str (ge_message e)), Some r')))"

section \<open>What the replies look like\<close>

text \<open>The shapes of the protocol's values; an object has its fields in the order written.\<close>

datatype shape = TStr | TInt | TBool | TNullable shape | TArr shape | TObj "(string \<times> shape) list"

definition fields_fit :: "(string \<times> (json \<Rightarrow> bool)) list \<Rightarrow> (string \<times> json) list \<Rightarrow> bool" where
  "fields_fit ts kvs \<longleftrightarrow> list_all2 (\<lambda>t kv. fst kv = fst t \<and> snd t (snd kv)) ts kvs"

primrec has_shape :: "shape \<Rightarrow> json \<Rightarrow> bool" where
  "has_shape TStr = (\<lambda>j. jstring j \<noteq> None)"
| "has_shape TInt = (\<lambda>j. jint j \<noteq> None)"
| "has_shape TBool = (\<lambda>j. jbool j \<noteq> None)"
| "has_shape (TNullable t) = (\<lambda>j. j = JNull \<or> has_shape t j)"
| "has_shape (TArr t) = (\<lambda>j. case j of JArr js \<Rightarrow> list_all (has_shape t) js | _ \<Rightarrow> False)"
| "has_shape (TObj ts) = (\<lambda>j. case j of JObj kvs \<Rightarrow> fields_fit (map (map_prod (\<lambda>k. k) has_shape) ts) kvs | _ \<Rightarrow> False)"

definition remote_shape :: shape where
  "remote_shape = TObj [(''name'', TStr), (''url'', TStr), (''pushUrl'', TStr)]"

definition branch_shape :: shape where
  "branch_shape = TObj [(''name'', TStr), (''refname'', TStr), (''targetOid'', TStr), (''isRemote'', TBool), (''isHead'', TBool),
     (''upstream'', TNullable TStr), (''remoteName'', TNullable TStr)]"

definition commit_shape :: shape where
  "commit_shape = TObj [(''oid'', TStr), (''shortOid'', TStr), (''message'', TStr), (''summary'', TStr), (''authorName'', TStr),
     (''authorEmail'', TStr), (''authorTime'', TInt), (''parentOids'', TArr TStr)]"

definition diff_shape :: shape where
  "diff_shape = TObj [(''status'', TInt), (''oldPath'', TStr), (''newPath'', TStr), (''patch'', TStr),
     (''hunks'', TArr (TObj [(''oldStart'', TInt), (''oldLines'', TInt), (''newStart'', TInt), (''newLines'', TInt), (''header'', TStr),
        (''lines'', TArr (TObj [(''origin'', TStr), (''content'', TStr), (''oldLineNo'', TInt), (''newLineNo'', TInt)]))]))]"

definition metadata_shape :: shape where
  "metadata_shape = TObj [(''path'', TStr), (''gitDir'', TStr), (''isBare'', TBool), (''headSha'', TNullable TStr),
     (''currentBranch'', TNullable TStr), (''hasUncommittedChanges'', TBool)]"

text \<open>A reply of a handler that reads: a value of its shape, or one of the errors it may give.\<close>

definition reply_shape :: "rpc_error set \<Rightarrow> shape \<Rightarrow> reply \<Rightarrow> bool" where
  "reply_shape errs t r = (case r of Result j \<Rightarrow> has_shape t j | Error e _ \<Rightarrow> e \<in> errs | Throws _ \<Rightarrow> False)"

lemma reply_shape_replying:
  "(\<And>j. x = Inr j \<Longrightarrow> has_shape t j) \<Longrightarrow> (\<And>r. x = Inl r \<Longrightarrow> reply_shape errs t r) \<Longrightarrow> reply_shape errs t (replying x)"
  by (cases x) (auto simp: reply_shape_def replying_def)

lemma reply_shape_open:
  assumes "{KInvalidRequest, KNotFound} \<subseteq> errs" and "\<And>r. openForRequest ev params m = Inr r \<Longrightarrow> reply_shape errs t (replying (f r))"
  shows "reply_shape errs t (replying (bindr (openForRequest ev params m) f))"
  using assms by (auto simp: openForRequest_def open_failed_def replying_def reply_shape_def bindr_def split: option.splits sum.splits)

lemma reply_shape_req:
  assumes "{KInvalidRequest, KNotFound} \<subseteq> errs" and "\<And>s. reply_shape errs t (replying (f s))"
  shows "reply_shape errs t (replying (bindr (reqStr params k m) f))"
  using assms by (auto simp: reqStr_def replying_def reply_shape_def bindr_def split: option.splits)

lemmas shape_simps = fields_fit_def strOrNull_def nonEmptyOrNull_def list_all_iff

lemma parts_have_shape:
  "has_shape remote_shape (remote_json i)" "has_shape branch_shape (branch_json b)" "has_shape commit_shape (commit_json lib c)"
  "has_shape diff_shape (file_json d)"
  by (auto simp: remote_json_def remote_shape_def branch_json_def branch_shape_def commit_json_def commit_shape_def
      file_json_def diff_shape_def hunk_json_def line_json_def shape_simps split: option.splits)

text \<open>
  C39. Every reply of the reading handlers is well-formed: it is a value of the documented shape, every field present and
  of its type at every depth, or one of the errors INVALID_REQUEST, NOT_FOUND and, for \<^verbatim>\<open>git.headSha\<close> alone,
  GIT_FAILED. \<^verbatim>\<open>git.repoMetadata\<close> always names a path, that of the work tree or, if there is none, the git directory,
  and differs from the document in two fields: \<^verbatim>\<open>headSha\<close> is null exactly where HEAD names no commit yet, and
  \<^verbatim>\<open>currentBranch\<close> exactly where there is no current branch.
\<close>

theorem git_replies_typed:
  "reply_shape {KInvalidRequest, KNotFound, KGitFailed} (TObj [(''headSha'', TStr)]) (handleHeadSha ev p)
   \<and> reply_shape {KInvalidRequest, KNotFound} metadata_shape (handleRepoMetadata ev p)
   \<and> (case openForRequest ev p ''git.repoMetadata'' of
        Inl e \<Rightarrow> handleRepoMetadata ev p = e
      | Inr r \<Rightarrow> \<exists>j. handleRepoMetadata ev p = Result j
          \<and> str_field ''path'' j = Some (c_str (if op_workdir r \<in> {None, Some []} then op_gitdir r else the (op_workdir r)))
          \<and> (str_field ''headSha'' j = None \<longleftrightarrow> (\<exists>e. gm_head_oid ev r = Inl e))
          \<and> (str_field ''currentBranch'' j = None \<longleftrightarrow> gm_current_branch r = None))
   \<and> reply_shape {KInvalidRequest, KNotFound} (TObj [(''remotes'', TArr remote_shape)]) (handleRemotes ev p)
   \<and> reply_shape {KInvalidRequest, KNotFound} (TObj [(''branches'', TArr branch_shape)]) (handleBranches ev p)
   \<and> reply_shape {KInvalidRequest, KNotFound} (TObj [(''commits'', TArr commit_shape)]) (handleCommits ev p)
   \<and> reply_shape {KInvalidRequest, KNotFound} (TObj [(''ahead'', TInt), (''behind'', TInt)]) (handleAheadBehind ev p)
   \<and> reply_shape {KInvalidRequest, KNotFound} (TObj [(''diffs'', TArr diff_shape)]) (handleDiffForCommit ev p)
   \<and> reply_shape {KInvalidRequest, KNotFound} (TObj [(''diffs'', TArr diff_shape)]) (handleWorkingTreeDiff ev p)
   \<and> reply_shape {KInvalidRequest, KNotFound} (TObj [(''diffs'', TArr diff_shape)]) (handleStagedDiff ev p)"
proof (intro conjI)
  show "reply_shape {KInvalidRequest, KNotFound, KGitFailed} (TObj [(''headSha'', TStr)]) (handleHeadSha ev p)"
    unfolding handleHeadSha_def
    by (rule reply_shape_open) (auto simp: reply_shape_def replying_def fields_fit_def split: sum.splits)
  show "reply_shape {KInvalidRequest, KNotFound} metadata_shape (handleRepoMetadata ev p)"
    unfolding handleRepoMetadata_def
    by (rule reply_shape_open) (auto simp: reply_shape_def replying_def metadata_shape_def shape_simps split: option.splits)
  show "case openForRequest ev p ''git.repoMetadata'' of
        Inl e \<Rightarrow> handleRepoMetadata ev p = e
      | Inr r \<Rightarrow> \<exists>j. handleRepoMetadata ev p = Result j
          \<and> str_field ''path'' j = Some (c_str (if op_workdir r \<in> {None, Some []} then op_gitdir r else the (op_workdir r)))
          \<and> (str_field ''headSha'' j = None \<longleftrightarrow> (\<exists>e. gm_head_oid ev r = Inl e))
          \<and> (str_field ''currentBranch'' j = None \<longleftrightarrow> gm_current_branch r = None)"
    by (auto simp: handleRepoMetadata_def replying_def bindr_def strOrNull_def str_field_def split: sum.split option.split)
  show "reply_shape {KInvalidRequest, KNotFound} (TObj [(''remotes'', TArr remote_shape)]) (handleRemotes ev p)"
    unfolding handleRemotes_def
    by (rule reply_shape_open) (auto simp: reply_shape_def replying_def fields_fit_def list_all_iff parts_have_shape)
  show "reply_shape {KInvalidRequest, KNotFound} (TObj [(''branches'', TArr branch_shape)]) (handleBranches ev p)"
    unfolding handleBranches_def
    by (rule reply_shape_open) (auto simp: reply_shape_def replying_def fields_fit_def list_all_iff parts_have_shape)
  show "reply_shape {KInvalidRequest, KNotFound} (TObj [(''commits'', TArr commit_shape)]) (handleCommits ev p)"
    unfolding handleCommits_def
    by (rule reply_shape_open) (auto simp: reply_shape_def replying_def fields_fit_def list_all_iff parts_have_shape)
  show "reply_shape {KInvalidRequest, KNotFound} (TObj [(''ahead'', TInt), (''behind'', TInt)]) (handleAheadBehind ev p)"
    unfolding handleAheadBehind_def
    by (rule reply_shape_req, simp, rule reply_shape_open)
      (auto simp: reply_shape_def replying_def fields_fit_def split: prod.splits)
  have "has_shape (TObj [(''diffs'', TArr diff_shape)]) (JObj [(''diffs'', serializeFileDiffs ds)])" for ds
    by (simp add: fields_fit_def serializeFileDiffs_def list_all_iff parts_have_shape)
  note d = this
  show "reply_shape {KInvalidRequest, KNotFound} (TObj [(''diffs'', TArr diff_shape)]) (handleDiffForCommit ev p)"
    unfolding handleDiffForCommit_def
    by (rule reply_shape_req, simp, rule reply_shape_open) (simp_all add: reply_shape_def replying_def d del: has_shape.simps)
  show "reply_shape {KInvalidRequest, KNotFound} (TObj [(''diffs'', TArr diff_shape)]) (handleWorkingTreeDiff ev p)"
    unfolding handleWorkingTreeDiff_def
    by (rule reply_shape_open) (simp_all add: reply_shape_def replying_def d del: has_shape.simps)
  show "reply_shape {KInvalidRequest, KNotFound} (TObj [(''diffs'', TArr diff_shape)]) (handleStagedDiff ev p)"
    unfolding handleStagedDiff_def
    by (rule reply_shape_open) (simp_all add: reply_shape_def replying_def d del: has_shape.simps)
qed

section \<open>Nothing of a diff is lost\<close>

text \<open>A C string ends at its first NUL; a text without one arrives whole.\<close>

definition no_nul :: "string \<Rightarrow> bool" where
  "no_nul s \<longleftrightarrow> CHR 0x00 \<notin> set s"

lemma no_nul_c_str: "no_nul s \<Longrightarrow> c_str s = s"
  by (simp add: no_nul_def c_str_def takeWhile_eq_all_conv) (metis (full_types))

definition clean_hunk :: "diff_hunk \<Rightarrow> bool" where
  "clean_hunk h \<longleftrightarrow> no_nul (hk_header h) \<and> list_all (\<lambda>l. no_nul (ln_content l)) (hk_lines h)"

definition clean_diff :: "file_diff \<Rightarrow> bool" where
  "clean_diff d \<longleftrightarrow> no_nul (gd_old d) \<and> no_nul (gd_new d) \<and> no_nul (gd_patch d) \<and> list_all clean_hunk (gd_hunks d)"

lemma map_inj_on_clean:
  assumes "\<And>x y. P x \<Longrightarrow> P y \<Longrightarrow> f x = f y \<Longrightarrow> x = y" and "list_all P xs" "list_all P ys" and "map f xs = map f ys"
  shows "xs = ys"
  using assms(2-4)
proof (induction xs arbitrary: ys)
  case (Cons x xs)
  then obtain y ys' where ys: "ys = y # ys'" by (cases ys) auto
  with Cons.prems have "P x" "P y" "list_all P xs" "list_all P ys'" "f x = f y" "map f xs = map f ys'" by simp_all
  with Cons.IH [of ys'] assms(1) [of x y] ys show ?case by simp
qed simp

lemma line_json_inj: "no_nul (ln_content l) \<Longrightarrow> no_nul (ln_content m) \<Longrightarrow> line_json l = line_json m \<Longrightarrow> l = m"
  by (cases l; cases m) (simp add: line_json_def no_nul_c_str)

lemma hunk_json_inj:
  assumes "clean_hunk h" and "clean_hunk k" and "hunk_json h = hunk_json k"
  shows "h = k"
proof -
  from assms(3) have e: "hk_old_start h = hk_old_start k" "hk_old_lines h = hk_old_lines k" "hk_new_start h = hk_new_start k"
    "hk_new_lines h = hk_new_lines k" "c_str (hk_header h) = c_str (hk_header k)"
    "map line_json (hk_lines h) = map line_json (hk_lines k)"
    unfolding hunk_json_def by simp_all
  from assms(1,2) have c: "list_all (\<lambda>l. no_nul (ln_content l)) (hk_lines h)" "list_all (\<lambda>l. no_nul (ln_content l)) (hk_lines k)"
    and n: "no_nul (hk_header h)" "no_nul (hk_header k)"
    unfolding clean_hunk_def by blast+
  from line_json_inj c e(6) have l: "hk_lines h = hk_lines k" by (rule map_inj_on_clean)
  have hd: "hk_header h = hk_header k" using e(5) unfolding no_nul_c_str [OF n(1)] no_nul_c_str [OF n(2)] .
  show ?thesis by (rule diff_hunk.equality) (rule e l hd | simp)+
qed

lemma file_json_inj:
  assumes "clean_diff d" and "clean_diff d'" and "file_json d = file_json d'"
  shows "d = d'"
proof -
  from assms(3) have e: "gd_status d = gd_status d'" "c_str (gd_old d) = c_str (gd_old d')" "c_str (gd_new d) = c_str (gd_new d')"
    "c_str (gd_patch d) = c_str (gd_patch d')" "map hunk_json (gd_hunks d) = map hunk_json (gd_hunks d')"
    by (simp_all add: file_json_def)
  from assms(1,2) have c: "list_all clean_hunk (gd_hunks d)" "list_all clean_hunk (gd_hunks d')"
    and n: "no_nul (gd_old d)" "no_nul (gd_old d')" "no_nul (gd_new d)" "no_nul (gd_new d')" "no_nul (gd_patch d)" "no_nul (gd_patch d')"
    unfolding clean_diff_def by blast+
  note n = n [THEN no_nul_c_str]
  from hunk_json_inj c e(5) have h: "gd_hunks d = gd_hunks d'" by (rule map_inj_on_clean)
  show ?thesis by (rule file_diff.equality) (rule e(1) h e(2-4) [unfolded n] | simp)+
qed

text \<open>
  The wire format of a diff loses nothing: two lists of file diffs without NUL characters that serialize to the same
  JSON are the same, down to every hunk's position and every line's origin, text and numbers.
\<close>

theorem diffs_determined:
  assumes "list_all clean_diff ds" and "list_all clean_diff ds'" and "serializeFileDiffs ds = serializeFileDiffs ds'"
  shows "ds = ds'"
proof -
  from assms(3) have "map file_json ds = map file_json ds'" by (simp add: serializeFileDiffs_def)
  with file_json_inj assms(1,2) show ?thesis by (rule map_inj_on_clean)
qed

text \<open>With a NUL the rest of the line is lost, in the patch the rest of the file.\<close>

lemma nul_cuts_the_line:
  "line_json \<lparr>ln_origin = CHR ''+'', ln_content = ''a'' @ CHR 0x00 # ''b'', ln_old = -1, ln_new = 1\<rparr>
     = line_json \<lparr>ln_origin = CHR ''+'', ln_content = ''a'', ln_old = -1, ln_new = 1\<rparr>"
  by (simp add: line_json_def c_str_def)

section \<open>Checking out a branch\<close>

text \<open>The tree a branch stands for, where the branch and its commit are there.\<close>

definition branch_tree :: "repository \<Rightarrow> string \<Rightarrow> git_tree option" where
  "branch_tree rp branch =
     Option.bind (rp_refs rp (''refs/heads/'' @ c_str branch)) (\<lambda>i. map_option gc_tree (rp_commits rp i))"

lemma gm_checkout_cases:
  shows "gm_checkout ev r branch =
     (case branch_tree (op_repo r) branch of
        None \<Rightarrow> (fst (gm_checkout ev r branch), r)
      | Some t \<Rightarrow>
          (let (failed, w) = ev_checkout ev r t; r1 = r\<lparr>op_work := w\<rparr>
           in case failed of
                Some f \<Rightarrow> (Some (check_libgit2_error f ''checking out tree''), r1)
              | None \<Rightarrow> (case ev_set_head ev r1 (local_ref branch) of
                          Some f \<Rightarrow> (Some (check_libgit2_error f (''setting HEAD to '' @ local_ref branch)), r1)
                        | None \<Rightarrow> (None, r1\<lparr>op_repo := (op_repo r)\<lparr>rp_head := local_ref branch\<rparr>\<rparr>))))"
  "branch_tree (op_repo r) branch = None \<Longrightarrow> fst (gm_checkout ev r branch) \<noteq> None"
proof -
  have t: "branch_tree (op_repo r) branch =
      Option.bind (rp_refs (op_repo r) (local_ref branch)) (\<lambda>i. map_option gc_tree (rp_commits (op_repo r) i))"
    by (simp add: branch_tree_def local_ref_def)
  show "gm_checkout ev r branch =
     (case branch_tree (op_repo r) branch of
        None \<Rightarrow> (fst (gm_checkout ev r branch), r)
      | Some t \<Rightarrow>
          (let (failed, w) = ev_checkout ev r t; r1 = r\<lparr>op_work := w\<rparr>
           in case failed of
                Some f \<Rightarrow> (Some (check_libgit2_error f ''checking out tree''), r1)
              | None \<Rightarrow> (case ev_set_head ev r1 (local_ref branch) of
                          Some f \<Rightarrow> (Some (check_libgit2_error f (''setting HEAD to '' @ local_ref branch)), r1)
                        | None \<Rightarrow> (None, r1\<lparr>op_repo := (op_repo r)\<lparr>rp_head := local_ref branch\<rparr>\<rparr>))))" "branch_tree (op_repo r) branch = None \<Longrightarrow> fst (gm_checkout ev r branch) \<noteq> None"
    unfolding t
    by (cases "rp_refs (op_repo r) (local_ref branch)"; cases "rp_commits (op_repo r) (the (rp_refs (op_repo r) (local_ref branch)))";
        simp add: gm_checkout_def resolve_ref_def lookup_commit_def commit_tree_def bindr_def Let_def)+
qed


section \<open>Ahead and behind\<close>

text \<open>The commits a commit can be reached from going back over parents, itself among them.\<close>

definition parent_of :: "repository \<Rightarrow> oid \<Rightarrow> oid \<Rightarrow> bool" where
  "parent_of rp i j \<longleftrightarrow> (\<exists>g. rp_commits rp i = Some g \<and> j \<in> set (gc_parents g))"

definition history :: "repository \<Rightarrow> oid \<Rightarrow> oid set" where
  "history rp i = {j. (parent_of rp)\<^sup>*\<^sup>* i j}"

lemma history_None: "rp_commits rp i = None \<Longrightarrow> history rp i = {i}"
  by (auto simp: history_def parent_of_def elim: converse_rtranclpE)

lemma history_Some: "rp_commits rp i = Some g \<Longrightarrow> history rp i = insert i (\<Union>p \<in> set (gc_parents g). history rp p)"
  by (auto simp: history_def parent_of_def elim: converse_rtranclpE intro: converse_rtranclp_into_rtranclp)

text \<open>No commit's parent is missing from the store, as in a shallow clone.\<close>

definition complete_store :: "repository \<Rightarrow> bool" where
  "complete_store rp \<longleftrightarrow> (\<forall>i g p. rp_commits rp i = Some g \<and> p \<in> set (gc_parents g) \<longrightarrow> rp_commits rp p \<noteq> None)"

text \<open>What libgit2 documents of its walker: each commit reachable from what was pushed and not from what was hidden, once.\<close>

definition walks_exactly :: "walk_lib \<Rightarrow> repository \<Rightarrow> walker \<Rightarrow> bool" where
  "walks_exactly wl rp w \<longleftrightarrow> distinct (wl_next wl w)
     \<and> set (wl_next wl w) = (\<Union>i \<in> set (wk_push w). history rp i) - (\<Union>i \<in> set (wk_hide w). history rp i)"

lemma history_stored:
  assumes "complete_store rp" and "rp_commits rp i \<noteq> None" and "j \<in> history rp i"
  shows "rp_commits rp j \<noteq> None"
proof -
  from assms(3) have "(parent_of rp)\<^sup>*\<^sup>* i j" by (simp add: history_def)
  then show ?thesis
  proof (induction rule: rtranclp_induct)
    case (step j k)
    then show ?case using assms(1) unfolding complete_store_def parent_of_def by blast
  qed (rule assms(2))
qed

lemma each_all_some:
  "(\<And>i. i \<in> set is \<Longrightarrow> rp_commits rp i \<noteq> None) \<Longrightarrow>
     \<exists>cs. each (\<lambda>i. case rp_commits rp i of Some g \<Rightarrow> Inr (i, g) | None \<Rightarrow> e) is = Inr cs \<and> length cs = length is"
proof (induction "is")
  case (Cons i "is")
  from Cons.prems [of i] obtain g where "rp_commits rp i = Some g" by auto
  with Cons show ?case by (auto simp: bindr_def)
qed simp

lemma walk_counts:
  assumes "complete_store rp" and "walks_exactly wl rp (wk_hide_oid h (wk_push_oid i new_walker))" and "rp_commits rp i \<noteq> None"
  shows "\<exists>cs. walk_commits lib wl rp (wk_hide_oid h (wk_push_oid i new_walker)) = Inr cs \<and> length cs = card (history rp i - history rp h)"
proof -
  let ?is = "wl_next wl (wk_hide_oid h (wk_push_oid i new_walker))"
  from assms(2) have d: "distinct ?is" "set ?is = history rp i - history rp h"
    by (simp_all add: walks_exactly_def wk_hide_oid_def wk_push_oid_def new_walker_def)
  have "rp_commits rp j \<noteq> None" if "j \<in> set ?is" for j
    using history_stored [OF assms(1,3)] that d(2) by blast
  from each_all_some [OF this] obtain cs where
    "walk_commits lib wl rp (wk_hide_oid h (wk_push_oid i new_walker)) = Inr cs" "length cs = length ?is"
    unfolding walk_commits_def by blast
  with distinct_card [OF d(1)] d(2) show ?thesis by auto
qed

text \<open>
  How far a branch and its upstream have diverged is answered exactly: \<^verbatim>\<open>ahead\<close> is the number of commits in the
  branch's history and not in its upstream's, \<^verbatim>\<open>behind\<close> the number of those in the upstream's and not in the branch's.
\<close>

theorem ahead_behind_exact:
  assumes "str_field ''branch'' p = Some b" and "openForRequest ev p ''git.aheadBehind'' = Inr r"
    and "branch_get (op_refs r) (c_str b) False = Inr (Some info)" and "bi_upstream info = Some up"
    and "rp_commits (op_repo r) (bi_target info) \<noteq> None"
    and "lookup_rev ev (op_repo r) (upstream_ref up) = Inr u"
    and "complete_store (op_repo r)"
    and "walks_exactly (ev_walk ev) (op_repo r) (wk_hide_oid (fst u) (wk_push_oid (bi_target info) new_walker))"
    and "walks_exactly (ev_walk ev) (op_repo r) (wk_hide_oid (bi_target info) (wk_push_oid (fst u) new_walker))"
  shows "handleAheadBehind ev p = Result (JObj
    [(''ahead'', JInt (int (card (history (op_repo r) (bi_target info) - history (op_repo r) (fst u))))),
     (''behind'', JInt (int (card (history (op_repo r) (fst u) - history (op_repo r) (bi_target info)))))])"
proof -
  have u: "rp_commits (op_repo r) (fst u) \<noteq> None"
    using assms(6) by (auto simp: lookup_rev_def bindr_def split: sum.splits if_splits option.splits)
  obtain g where g: "rp_commits (op_repo r) (bi_target info) = Some g" using assms(5) by blast
  obtain as where a: "walk_commits (ev_lib ev) (ev_walk ev) (op_repo r) (wk_hide_oid (fst u) (wk_push_oid (bi_target info) new_walker)) = Inr as"
    "length as = card (history (op_repo r) (bi_target info) - history (op_repo r) (fst u))"
    using walk_counts [OF assms(7,8,5)] by blast
  obtain bs where b: "walk_commits (ev_lib ev) (ev_walk ev) (op_repo r) (wk_hide_oid (bi_target info) (wk_push_oid (fst u) new_walker)) = Inr bs"
    "length bs = card (history (op_repo r) (fst u) - history (op_repo r) (bi_target info))"
    using walk_counts [OF assms(7,9) u] by blast
  have "gm_ahead_behind ev r (c_str b) = Inr (length as, length bs)"
    unfolding gm_ahead_behind_def assms(3) by (simp add: assms(4,6) bindr_def lookup_commit_def g a(1) b(1))
  then show ?thesis
    by (simp add: handleAheadBehind_def reqStr_def assms(1,2) bindr_def replying_def a(2) b(2))
qed

text \<open>
  An error of libgit2 is no difference: a branch whose upstream was never fetched is reported as neither ahead nor
  behind, and a repository whose work tree cannot be compared as clean. An unknown branch has no commits.
\<close>

lemma failures_are_empty:
  "openForRequest ev p ''git.repoMetadata'' = Inr r \<Longrightarrow> op_unstaged r False = Inl f \<Longrightarrow>
     \<exists>kvs. handleRepoMetadata ev p = Result (JObj kvs) \<and> (''hasUncommittedChanges'', JBool False) \<in> set kvs"
  "openForRequest ev p ''git.commits'' = Inr r \<Longrightarrow> str_field ''branch'' p = Some ''x'' \<Longrightarrow>
     rp_refs (op_repo r) ''refs/heads/x'' = None \<Longrightarrow> handleCommits ev p = Result (JObj [(''commits'', JArr [])])"
  by (simp_all add: handleRepoMetadata_def gm_uncommitted_def bindr_def replying_def handleCommits_def gm_commits_def
      branch_ref_def push_ref_def or_nothing_def c_str_def starts_with_def)

section \<open>Concrete inputs\<close>

text \<open>Two commits on top of a first one: \<^verbatim>\<open>main\<close> is at the one, its upstream at the other.\<close>

definition forked :: repository where
  "forked =
     \<lparr>rp_commits = [''1'' \<mapsto> demo_object [] ''a'', ''2'' \<mapsto> demo_object [''1''] ''b'', ''3'' \<mapsto> demo_object [''1''] ''c''],
      rp_refs = [''refs/heads/main'' \<mapsto> ''2'', ''refs/remotes/o/main'' \<mapsto> ''3''], rp_head = ''refs/heads/old''\<rparr>"

definition forked_refs :: ref_lib where
  "forked_refs =
     \<lparr>rl_remotes = Inr [], rl_remote = (\<lambda>_. Inl demo_failure), rl_branches = (\<lambda>_ _. Inr []),
      rl_branch = (\<lambda>_ _. Inr \<lparr>rf_name = ''refs/heads/main'', rf_short = Some ''main'', rf_target = Some ''2'', rf_is_head = True\<rparr>),
      rl_upstream = (\<lambda>_. Inr \<lparr>rf_name = ''refs/remotes/o/main'', rf_short = Some ''o/main'', rf_target = Some ''3'', rf_is_head = False\<rparr>),
      rl_head = Inl demo_failure, rl_detached = False, rl_change = (\<lambda>_. Inr ())\<rparr>"

definition forked_open :: "nat opened" where
  "forked_open =
     \<lparr>op_repo = forked, op_refs = forked_refs, op_gitdir = ''/r/.git/'', op_workdir = Some ''/r/'', op_bare = False,
      op_unstaged = (\<lambda>_. Inr []), op_staged = (\<lambda>_. Inr []), op_work = 0\<rparr>"

definition forked_env :: "nat git_env" where
  "forked_env =
     \<lparr>ev_lib = demo_lib, ev_walk = demo_walk\<lparr>wl_next := (\<lambda>w. filter (\<lambda>i. i \<in> set (wk_push w)) [''2'', ''3''])\<rparr>,
      ev_open = (\<lambda>_. Inr forked_open), ev_diff = (\<lambda>_ _. Inr []), ev_checkout = (\<lambda>r t. (None, length t)),
      ev_set_head = (\<lambda>_ _. None), ev_revparse = (\<lambda>rp s. Inr (''3'', True))\<rparr>"

definition main_request :: json where
  "main_request = JObj [(''path'', JStr ''/r''), (''branch'', JStr ''main'')]"

lemma forked_history: "history forked ''1'' = {''1''}" "history forked ''2'' = {''2'', ''1''}" "history forked ''3'' = {''3'', ''1''}"
proof -
  have p: "gc_parents (demo_object ps n) = ps" for ps n by (simp add: demo_object_def)
  have c: "rp_commits forked ''1'' = Some (demo_object [] ''a'')" "rp_commits forked ''2'' = Some (demo_object [''1''] ''b'')"
    "rp_commits forked ''3'' = Some (demo_object [''1''] ''c'')"
    by (simp_all add: forked_def)
  show 1: "history forked ''1'' = {''1''}" by (simp add: history_Some [OF c(1)] p)
  show "history forked ''2'' = {''2'', ''1''}" by (simp add: history_Some [OF c(2)] p 1)
  show "history forked ''3'' = {''3'', ''1''}" by (simp add: history_Some [OF c(3)] p 1)
qed

lemma forked_opened: "openForRequest forked_env main_request m = Inr forked_open"
  by (simp add: openForRequest_def gm_open_def forked_env_def main_request_def str_field_def)

theorem ahead_behind_exact_witness:
  "handleAheadBehind forked_env main_request = Result (JObj [(''ahead'', JInt 1), (''behind'', JInt 1)])"
proof -
  let ?info = "\<lparr>bi_name = ''main'', bi_refname = ''refs/heads/main'', bi_target = ''2'', bi_is_remote = False, bi_is_head = True,
     bi_upstream = Some ''o/main'', bi_remote_name = None\<rparr>"
  have r: "op_repo forked_open = forked" "op_refs forked_open = forked_refs" by (simp_all add: forked_open_def)
  have "str_field ''branch'' main_request = Some ''main''" by (simp add: main_request_def str_field_def)
  moreover note forked_opened [of "''git.aheadBehind''"]
  moreover have "branch_get (op_refs forked_open) (c_str ''main'') False = Inr (Some ?info)"
    by (simp add: r branch_get_def found_def forked_refs_def branch_of_def upstream_name_def c_str_def bindr_def)
  moreover have "bi_upstream ?info = Some ''o/main''" by simp
  moreover have "rp_commits (op_repo forked_open) (bi_target ?info) \<noteq> None" by (simp add: r forked_def)
  moreover have "lookup_rev forked_env (op_repo forked_open) (upstream_ref ''o/main'') = Inr (''3'', demo_object [''1''] ''c'')"
    by (simp add: lookup_rev_def forked_env_def r forked_def bindr_def)
  moreover have "complete_store (op_repo forked_open)"
    by (auto simp: complete_store_def r forked_def demo_object_def split: if_splits)
  moreover have "walks_exactly (ev_walk forked_env) (op_repo forked_open) (wk_hide_oid (fst (''3'', demo_object [''1''] ''c'')) (wk_push_oid (bi_target ?info) new_walker))"
    "walks_exactly (ev_walk forked_env) (op_repo forked_open) (wk_hide_oid (bi_target ?info) (wk_push_oid (fst (''3'', demo_object [''1''] ''c'')) new_walker))"
    by (auto simp: walks_exactly_def forked_env_def wk_hide_oid_def wk_push_oid_def new_walker_def r forked_history)
  ultimately have "handleAheadBehind forked_env main_request = Result (JObj
    [(''ahead'', JInt (int (card (history (op_repo forked_open) (bi_target ?info) - history (op_repo forked_open) (fst (''3'', demo_object [''1''] ''c'')))))),
     (''behind'', JInt (int (card (history (op_repo forked_open) (fst (''3'', demo_object [''1''] ''c'')) - history (op_repo forked_open) (bi_target ?info)))))])"
    by (rule ahead_behind_exact)
  then show ?thesis by (simp add: r forked_history insert_Diff_if)
qed


definition small_diff :: file_diff where
  "small_diff = \<lparr>gd_status = 1, gd_old = ''a'', gd_new = ''a'', gd_patch = ''p'', gd_hunks = [\<lparr>hk_old_start = 0, hk_old_lines = 0,
     hk_new_start = 1, hk_new_lines = 1, hk_header = ''h'', hk_lines = [\<lparr>ln_origin = CHR ''+'', ln_content = ''x'', ln_old = -1, ln_new = 1\<rparr>]\<rparr>]\<rparr>"

theorem diffs_determined_witness: "serializeFileDiffs [small_diff] \<noteq> serializeFileDiffs [small_diff\<lparr>gd_hunks := []\<rparr>]"
proof
  assume e: "serializeFileDiffs [small_diff] = serializeFileDiffs [small_diff\<lparr>gd_hunks := []\<rparr>]"
  have "list_all clean_diff [small_diff]" "list_all clean_diff [small_diff\<lparr>gd_hunks := []\<rparr>]"
    by (simp_all add: small_diff_def clean_diff_def clean_hunk_def no_nul_def)
  from diffs_determined [OF this e] show False by (simp add: small_diff_def)
qed

end
