(* ===== verification/LspCache.thy ===== *)
theory LspCache
  imports Indexer
begin

text \<open>
  The cache of language-server answers (\<^verbatim>\<open>src/core/src/db/LSPCache.cpp\<close> over \<^verbatim>\<open>Database.cpp\<close>): the tables beside the
  index tables of theory \<open>Indexer\<close>, what is stored in them, found in them and deleted from them.

  A table is the list of its rows in the order of their row ids, which is the order SQLite reads them in through
  the table's index; a row is its key, its value, the git SHA it was written under and when. A statement is the
  list operation it stands for. Every statement runs under the class's mutex, so an operation is one function.
\<close>

section \<open>Tables\<close>

type_synonym ('k, 'v) table = "('k \<times> 'v \<times> string \<times> int) list"

definition add_row :: "'k \<Rightarrow> 'v \<Rightarrow> string \<Rightarrow> int \<Rightarrow> ('k, 'v) table \<Rightarrow> ('k, 'v) table" where
  "add_row k v sha now t = t @ [(k, v, sha, now)]"

definition add_rows :: "'k \<Rightarrow> 'v list \<Rightarrow> string \<Rightarrow> int \<Rightarrow> ('k, 'v) table \<Rightarrow> ('k, 'v) table" where
  "add_rows k vs sha now t = fold (\<lambda>v. add_row k v sha now) vs t"

definition rows_of :: "'k \<Rightarrow> string \<Rightarrow> ('k, 'v) table \<Rightarrow> 'v list" where
  "rows_of k sha t = map (\<lambda>(_, v, _, _). v) (filter (\<lambda>(k', _, s, _). k' = k \<and> s = sha) t)"

definition delete_key :: "'k \<Rightarrow> string \<Rightarrow> ('k, 'v) table \<Rightarrow> ('k, 'v) table" where
  "delete_key k sha t = filter (\<lambda>(k', _, s, _). \<not> (k' = k \<and> s = sha)) t"

definition keep_sha :: "string \<Rightarrow> ('k, 'v) table \<Rightarrow> ('k, 'v) table" where
  "keep_sha sha t = filter (\<lambda>(_, _, s, _). s = sha) t"

definition keep_since :: "int \<Rightarrow> ('k, 'v) table \<Rightarrow> ('k, 'v) table" where
  "keep_since cutoff t = filter (\<lambda>(_, _, _, at). cutoff \<le> at) t"

text \<open>
  The deletion of whole answers: rows asked from the file, and rows whose key has a row that points into it
  (\<^verbatim>\<open>DELETE \<dots> WHERE source_file = ? OR (key) IN (SELECT key \<dots> WHERE target_file = ?)\<close>).
\<close>

definition delete_answers :: "('k \<Rightarrow> bool) \<Rightarrow> ('v \<Rightarrow> bool) \<Rightarrow> ('k, 'v) table \<Rightarrow> ('k, 'v) table" where
  "delete_answers asked points t =
     filter (\<lambda>(k, _, _, _). \<not> (asked k \<or> k \<in> fst ` set (filter (\<lambda>(_, v, _, _). points v) t))) t"

lemma add_rows_append: "add_rows k vs sha now t = t @ map (\<lambda>v. (k, v, sha, now)) vs"
  unfolding add_rows_def by (induction vs arbitrary: t) (simp_all add: add_row_def)

lemma rows_of_add_rows [simp]:
  "rows_of k' s (add_rows k vs sha now t) = rows_of k' s t @ (if k' = k \<and> s = sha then vs else [])"
proof -
  have "filter (\<lambda>(k'', _, s'', _). k'' = k' \<and> s'' = s) (map (\<lambda>v. (k, v, sha, now)) vs)
      = (if k' = k \<and> s = sha then map (\<lambda>v. (k, v, sha, now)) vs else [])"
    by (induction vs) auto
  then show ?thesis by (simp add: add_rows_append rows_of_def comp_def)
qed

lemma rows_of_add_row [simp]:
  "rows_of k' s (add_row k v sha now t) = rows_of k' s t @ (if k' = k \<and> s = sha then [v] else [])"
  using rows_of_add_rows [of k' s k "[v]" sha now t] by (simp add: add_rows_def)

lemma rows_of_delete_key [simp]:
  "rows_of k' s (delete_key k sha t) = (if k' = k \<and> s = sha then [] else rows_of k' s t)"
  by (induction t) (auto simp: rows_of_def delete_key_def)

lemma rows_of_keep_sha: "rows_of k s (keep_sha sha t) = (if s = sha then rows_of k s t else [])"
  by (induction t) (auto simp: rows_of_def keep_sha_def)

text \<open>An answer is deleted whole or kept whole, and goes when it was asked from the file or points into it.\<close>

lemma rows_of_delete_answers:
  "rows_of k s (delete_answers asked points t) =
     (if asked k \<or> (\<exists>(k', v, _, _) \<in> set t. k' = k \<and> points v) then [] else rows_of k s t)"
proof (cases "asked k \<or> (\<exists>(k', v, _, _) \<in> set t. k' = k \<and> points v)")
  case True
  then have "asked k \<or> k \<in> fst ` set (filter (\<lambda>(_, v, _, _). points v) t)" by force
  then show ?thesis using True by (auto simp: rows_of_def delete_answers_def filter_empty_conv)
next
  case False
  then have "\<not> (asked k \<or> k \<in> fst ` set (filter (\<lambda>(_, v, _, _). points v) t))" by force
  then have "filter (\<lambda>(k', _, s', _). k' = k \<and> s' = s) (delete_answers asked points t)
      = filter (\<lambda>(k', _, s', _). k' = k \<and> s' = s) t"
    unfolding delete_answers_def by (auto simp: case_prod_unfold intro!: filter_cong)
  then show ?thesis using False by (simp add: rows_of_def)
qed

lemma rows_of_points:
  assumes "\<exists>v \<in> set (rows_of k s t). points v"
  shows "rows_of k s (delete_answers asked points t) = []"
proof -
  have "\<exists>(k', v, _, _) \<in> set t. k' = k \<and> points v"
    using assms by (force simp: rows_of_def)
  then show ?thesis by (simp only: rows_of_delete_answers if_True simp_thms)
qed


section \<open>The cache\<close>

type_synonym location = "string \<times> lsp_range"

text \<open>A symbol of a file, a symbol of the workspace, a folding range as the tables hold them.\<close>

record cached_symbol =
  cs_name :: string
  cs_kind :: string
  cs_detail :: string
  cs_range :: lsp_range

record cached_ws_symbol =
  cw_file :: string
  cw_name :: string
  cw_kind :: string
  cw_container :: string
  cw_range :: lsp_range

record cached_fold =
  cf_start :: int
  cf_end :: int
  cf_kind :: string

text \<open>
  The class: its connection, SHA and index tables, the tables of answers, and when each file's symbols were
  stored (\<^verbatim>\<open>file_cache_status\<close>, one row per file). No caller sets the column \<^verbatim>\<open>parent_id\<close>.
\<close>

record query_cache =
  qc_index :: lsp_cache
  qc_definitions :: "(string \<times> position, location) table"
  qc_references :: "(string \<times> position, location) table"
  qc_hovers :: "(string \<times> position, string) table"
  qc_symbols :: "(string, cached_symbol) table"
  qc_workspace :: "(string, cached_ws_symbol) table"
  qc_folds :: "(string, cached_fold) table"
  qc_status :: "(string \<times> string \<times> int) list"

definition qc_sha :: "query_cache \<Rightarrow> string" where
  "qc_sha c = lc_sha (qc_index c)"

definition qc_active :: "query_cache \<Rightarrow> bool" where
  "qc_active c \<longleftrightarrow> cache_active (qc_index c)"

definition setCurrentGitSha :: "string \<Rightarrow> query_cache \<Rightarrow> query_cache" where
  "setCurrentGitSha sha c = c\<lparr>qc_index := (qc_index c)\<lparr>lc_sha := sha\<rparr>\<rparr>"

definition isCacheValid :: "string \<Rightarrow> query_cache \<Rightarrow> bool" where
  "isCacheValid path c \<longleftrightarrow>
     qc_active c \<and> list_ex (\<lambda>(f, s, _). f = normalizeFilePath path \<and> s = qc_sha c) (qc_status c)"

text \<open>A location is stored without \<^verbatim>\<open>file://\<close> and read back with it; text is read up to a NUL.\<close>

definition stored_location :: "location \<Rightarrow> location" where
  "stored_location l = (normalizeFilePath (fst l), snd l)"

definition read_location :: "location \<Rightarrow> location" where
  "read_location l = (''file://'' @ c_str (fst l), snd l)"

definition answer_of :: "'a list \<Rightarrow> 'a list option" where
  "answer_of vs = (if vs = [] then None else Some vs)"

section \<open>Storing and finding answers\<close>

definition cacheDefinition :: "int \<Rightarrow> string \<Rightarrow> position \<Rightarrow> location \<Rightarrow> query_cache \<Rightarrow> query_cache" where
  "cacheDefinition now file pos target c =
     (if \<not> qc_active c then c
      else c\<lparr>qc_definitions := add_row (normalizeFilePath file, pos) (stored_location target) (qc_sha c) now (qc_definitions c)\<rparr>)"

definition getCachedDefinitions :: "string \<Rightarrow> position \<Rightarrow> query_cache \<Rightarrow> location list option" where
  "getCachedDefinitions file pos c =
     (if \<not> qc_active c then None
      else answer_of (map read_location (rows_of (normalizeFilePath file, pos) (qc_sha c) (qc_definitions c))))"

definition cacheReferences :: "int \<Rightarrow> string \<Rightarrow> position \<Rightarrow> location list \<Rightarrow> query_cache \<Rightarrow> query_cache" where
  "cacheReferences now file pos refs c =
     (if \<not> qc_active c then c
      else c\<lparr>qc_references :=
               add_rows (normalizeFilePath file, pos) (map stored_location refs) (qc_sha c) now (qc_references c)\<rparr>)"

definition getCachedReferences :: "string \<Rightarrow> position \<Rightarrow> query_cache \<Rightarrow> location list option" where
  "getCachedReferences file pos c =
     (if \<not> qc_active c then None
      else answer_of (map read_location (rows_of (normalizeFilePath file, pos) (qc_sha c) (qc_references c))))"

definition cacheHover :: "int \<Rightarrow> string \<Rightarrow> position \<Rightarrow> string \<Rightarrow> query_cache \<Rightarrow> query_cache" where
  "cacheHover now file pos contents c =
     (if \<not> qc_active c then c
      else c\<lparr>qc_hovers := add_row (normalizeFilePath file, pos) contents (qc_sha c) now (qc_hovers c)\<rparr>)"

text \<open>The first row is the answer.\<close>

definition getCachedHover :: "string \<Rightarrow> position \<Rightarrow> query_cache \<Rightarrow> string option" where
  "getCachedHover file pos c =
     (if \<not> qc_active c then None
      else case rows_of (normalizeFilePath file, pos) (qc_sha c) (qc_hovers c) of
        [] \<Rightarrow> None
      | t # _ \<Rightarrow> Some (c_str t))"

definition cacheDocumentSymbols :: "int \<Rightarrow> string \<Rightarrow> cached_symbol list \<Rightarrow> query_cache \<Rightarrow> query_cache" where
  "cacheDocumentSymbols now file syms c =
     (if \<not> qc_active c then c
      else let f = normalizeFilePath file
        in c\<lparr>qc_symbols := add_rows f syms (qc_sha c) now (delete_key f (qc_sha c) (qc_symbols c)),
             qc_status := (f, qc_sha c, now) # filter (\<lambda>(f', _). f' \<noteq> f) (qc_status c)\<rparr>)"

definition read_symbol :: "cached_symbol \<Rightarrow> cached_symbol" where
  "read_symbol s = s\<lparr>cs_name := c_str (cs_name s), cs_kind := c_str (cs_kind s), cs_detail := c_str (cs_detail s)\<rparr>"

text \<open>\<^verbatim>\<open>ORDER BY line, character\<close>.\<close>

definition by_position :: "cached_symbol list \<Rightarrow> cached_symbol list" where
  "by_position syms = sort_key (\<lambda>s. fst (fst (cs_range s))) (sort_key (\<lambda>s. snd (fst (cs_range s))) syms)"

definition getCachedDocumentSymbols :: "string \<Rightarrow> query_cache \<Rightarrow> cached_symbol list option" where
  "getCachedDocumentSymbols file c =
     (if \<not> qc_active c then None
      else answer_of (map read_symbol (by_position (rows_of (normalizeFilePath file) (qc_sha c) (qc_symbols c)))))"

definition cacheWorkspaceSymbols :: "int \<Rightarrow> string \<Rightarrow> cached_ws_symbol list \<Rightarrow> query_cache \<Rightarrow> query_cache" where
  "cacheWorkspaceSymbols now query syms c =
     (if \<not> qc_active c then c
      else c\<lparr>qc_workspace :=
               add_rows query (map (\<lambda>s. s\<lparr>cw_file := normalizeFilePath (cw_file s)\<rparr>) syms) (qc_sha c) now
                 (delete_key query (qc_sha c) (qc_workspace c))\<rparr>)"

definition read_ws_symbol :: "cached_ws_symbol \<Rightarrow> cached_ws_symbol" where
  "read_ws_symbol s = s\<lparr>cw_file := c_str (cw_file s), cw_name := c_str (cw_name s), cw_kind := c_str (cw_kind s),
                         cw_container := c_str (cw_container s)\<rparr>"

definition getCachedWorkspaceSymbols :: "string \<Rightarrow> query_cache \<Rightarrow> cached_ws_symbol list option" where
  "getCachedWorkspaceSymbols query c =
     (if \<not> qc_active c then None
      else answer_of (map read_ws_symbol (rows_of query (qc_sha c) (qc_workspace c))))"

definition cacheFoldingRanges :: "int \<Rightarrow> string \<Rightarrow> cached_fold list \<Rightarrow> query_cache \<Rightarrow> query_cache" where
  "cacheFoldingRanges now file ranges c =
     (if \<not> qc_active c then c
      else let f = normalizeFilePath file
        in c\<lparr>qc_folds := add_rows f ranges (qc_sha c) now (delete_key f (qc_sha c) (qc_folds c))\<rparr>)"

definition getCachedFoldingRanges :: "string \<Rightarrow> query_cache \<Rightarrow> cached_fold list option" where
  "getCachedFoldingRanges file c =
     (if \<not> qc_active c then None
      else answer_of (map (\<lambda>r. r\<lparr>cf_kind := c_str (cf_kind r)\<rparr>)
             (sort_key cf_start (rows_of (normalizeFilePath file) (qc_sha c) (qc_folds c)))))"

section \<open>Deleting\<close>

definition invalidateFile :: "string \<Rightarrow> query_cache \<Rightarrow> query_cache" where
  "invalidateFile path c =
     (if \<not> lc_open (qc_index c) then c
      else let f = normalizeFilePath path
        in c\<lparr>qc_definitions := delete_answers (\<lambda>k. fst k = f) (\<lambda>l. fst l = f) (qc_definitions c),
             qc_references := delete_answers (\<lambda>k. fst k = f) (\<lambda>l. fst l = f) (qc_references c),
             qc_hovers := delete_answers (\<lambda>k. fst k = f) (\<lambda>_. False) (qc_hovers c),
             qc_symbols := delete_answers (\<lambda>k. k = f) (\<lambda>_. False) (qc_symbols c),
             qc_folds := delete_answers (\<lambda>k. k = f) (\<lambda>_. False) (qc_folds c),
             qc_workspace := delete_answers (\<lambda>_. False) (\<lambda>s. cw_file s = f) (qc_workspace c),
             qc_status := filter (\<lambda>(f', _). f' \<noteq> f) (qc_status c)\<rparr>)"

text \<open>The folding ranges are not among the tables it names.\<close>

definition invalidateAllForSha :: "string \<Rightarrow> query_cache \<Rightarrow> query_cache" where
  "invalidateAllForSha sha c =
     (if \<not> lc_open (qc_index c) then c
      else c\<lparr>qc_definitions := keep_sha sha (qc_definitions c), qc_references := keep_sha sha (qc_references c),
             qc_hovers := keep_sha sha (qc_hovers c), qc_symbols := keep_sha sha (qc_symbols c),
             qc_workspace := keep_sha sha (qc_workspace c), qc_status := filter (\<lambda>(_, s, _). s = sha) (qc_status c)\<rparr>)"

definition clearIndex :: "query_cache \<Rightarrow> query_cache" where
  "clearIndex c =
     (if \<not> lc_open (qc_index c) then c
      else c\<lparr>qc_index := (qc_index c)\<lparr>lc_definitions := [], lc_references := [], lc_files := []\<rparr>\<rparr>)"

definition clearAll :: "query_cache \<Rightarrow> query_cache" where
  "clearAll c =
     (if \<not> lc_open (qc_index c) then c
      else c\<lparr>qc_definitions := [], qc_references := [], qc_hovers := [], qc_symbols := [], qc_workspace := [],
             qc_status := [],
             qc_index := (qc_index c)\<lparr>lc_definitions := [], lc_references := [], lc_files := []\<rparr>\<rparr>)"

text \<open>The cutoff is a second in the future when no age is given.\<close>

definition prune_cutoff :: "int \<Rightarrow> int \<Rightarrow> int" where
  "prune_cutoff now days = now - (if days \<le> 0 then - 1 else days * 86400)"

definition pruned :: "int \<Rightarrow> ('k, 'v) table \<Rightarrow> int" where
  "pruned cutoff t = int (length t) - int (length (keep_since cutoff t))"

definition pruneOlderThan :: "int \<Rightarrow> int \<Rightarrow> query_cache \<Rightarrow> int \<times> query_cache" where
  "pruneOlderThan now days c =
     (if \<not> lc_open (qc_index c) then (0, c)
      else let cut = prune_cutoff now days;
               status = filter (\<lambda>(_, _, at). cut \<le> at) (qc_status c)
        in (pruned cut (qc_definitions c) + pruned cut (qc_references c) + pruned cut (qc_hovers c)
              + pruned cut (qc_symbols c) + pruned cut (qc_workspace c) + pruned cut (qc_folds c)
              + (int (length (qc_status c)) - int (length status)),
            c\<lparr>qc_definitions := keep_since cut (qc_definitions c), qc_references := keep_since cut (qc_references c),
              qc_hovers := keep_since cut (qc_hovers c), qc_symbols := keep_since cut (qc_symbols c),
              qc_workspace := keep_since cut (qc_workspace c), qc_folds := keep_since cut (qc_folds c),
              qc_status := status\<rparr>))"

section \<open>Statistics and the index\<close>

record cache_stats =
  st_definitions :: int
  st_references :: int
  st_hovers :: int
  st_symbols :: int
  st_size :: int

text \<open>\<open>pages\<close> and \<open>page_size\<close> are what the two pragmas report.\<close>

definition getStats :: "int \<Rightarrow> int \<Rightarrow> query_cache \<Rightarrow> cache_stats" where
  "getStats pages page_size c =
     (if \<not> lc_open (qc_index c)
      then \<lparr>st_definitions = 0, st_references = 0, st_hovers = 0, st_symbols = 0, st_size = 0\<rparr>
      else \<lparr>st_definitions = int (length (qc_definitions c)), st_references = int (length (qc_references c)),
            st_hovers = int (length (qc_hovers c)),
            st_symbols = int (length (qc_symbols c)) + int (length (qc_workspace c)), st_size = pages * page_size\<rparr>)"

definition read_definition :: "index_definition \<Rightarrow> index_definition" where
  "read_definition d = d\<lparr>id_name := c_str (id_name d), id_uri := ''file://'' @ c_str (id_uri d), id_container := c_str (id_container d)\<rparr>"

definition read_reference :: "index_reference \<Rightarrow> index_reference" where
  "read_reference r = r\<lparr>ir_symbol := c_str (ir_symbol r), ir_fromUri := ''file://'' @ c_str (ir_fromUri r),
                         ir_toUri := ''file://'' @ c_str (ir_toUri r)\<rparr>"

definition index_definitions_where :: "(index_definition \<Rightarrow> bool) \<Rightarrow> lsp_cache \<Rightarrow> index_definition list" where
  "index_definitions_where P c =
     (if \<not> cache_active c then []
      else map (read_definition \<circ> fst) (filter (\<lambda>(d, s). P d \<and> s = lc_sha c) (lc_definitions c)))"

definition index_references_where :: "(index_reference \<Rightarrow> bool) \<Rightarrow> lsp_cache \<Rightarrow> index_reference list" where
  "index_references_where P c =
     (if \<not> cache_active c then []
      else map (read_reference \<circ> fst) (filter (\<lambda>(r, s). P r \<and> s = lc_sha c) (lc_references c)))"

definition getAllIndexDefinitions :: "lsp_cache \<Rightarrow> index_definition list" where
  "getAllIndexDefinitions = index_definitions_where (\<lambda>_. True)"

definition getAllIndexReferences :: "lsp_cache \<Rightarrow> index_reference list" where
  "getAllIndexReferences = index_references_where (\<lambda>_. True)"

definition getIndexDefinitionsForFile :: "string \<Rightarrow> lsp_cache \<Rightarrow> index_definition list" where
  "getIndexDefinitionsForFile uri = index_definitions_where (\<lambda>d. id_uri d = normalizeFilePath uri)"

definition getIndexReferencesFromFile :: "string \<Rightarrow> lsp_cache \<Rightarrow> index_reference list" where
  "getIndexReferencesFromFile uri = index_references_where (\<lambda>r. ir_fromUri r = normalizeFilePath uri)"

definition getIndexReferencesToFile :: "string \<Rightarrow> lsp_cache \<Rightarrow> index_reference list" where
  "getIndexReferencesToFile uri = index_references_where (\<lambda>r. ir_toUri r = normalizeFilePath uri)"

text \<open>Definitions, references and files of the current SHA.\<close>

definition getIndexStats :: "lsp_cache \<Rightarrow> int \<times> int \<times> int" where
  "getIndexStats c =
     (if \<not> cache_active c then (0, 0, 0)
      else (int (length (filter (\<lambda>(_, s). s = lc_sha c) (lc_definitions c))),
            int (length (filter (\<lambda>(_, s). s = lc_sha c) (lc_references c))),
            int (length (filter (\<lambda>(_, s). s = lc_sha c) (lc_files c)))))"


section \<open>Answers are whole\<close>

text \<open>
  What the users of one table rely on. A query is asked under a key; \<open>seen\<close> is how a stored value is read back;
  \<open>points f q vs\<close> says that the answer \<open>vs\<close> to \<open>q\<close> concerns the file \<open>f\<close>, by where it was asked or where it points.
\<close>

locale answer_table =
  fixes put :: "'q \<Rightarrow> 'v list \<Rightarrow> 'c \<Rightarrow> 'c"
    and get :: "'q \<Rightarrow> 'c \<Rightarrow> 'v list option"
    and forget :: "string \<Rightarrow> 'c \<Rightarrow> 'c"
    and key :: "'q \<Rightarrow> 'k"
    and seen :: "'v \<Rightarrow> 'v"
    and points :: "string \<Rightarrow> 'q \<Rightarrow> 'v list \<Rightarrow> bool"
    and fit :: "'v \<Rightarrow> bool"
    and inv :: "'c \<Rightarrow> bool"
  assumes put_same: "inv c \<Longrightarrow> get q c = None \<Longrightarrow> key q' = key q \<Longrightarrow> get q' (put q vs c) = answer_of (map seen vs)"
    and put_other: "key q' \<noteq> key q \<Longrightarrow> get q' (put q vs c) = get q' c"
    and forget_whole: "get q (forget f c) = get q c \<or> get q (forget f c) = None"
    and forget_points: "inv c \<Longrightarrow> get q c = Some vs \<Longrightarrow> points f q vs \<Longrightarrow> get q (forget f c) = None"
    and inv_put: "inv c \<Longrightarrow> list_all fit vs \<Longrightarrow> inv (put q vs c)"
    and inv_forget: "inv c \<Longrightarrow> inv (forget f c)"

text \<open>A history of the table: queries with what the server answers them, and files that change.\<close>

datatype ('q, 'v) cache_event =
    Asked 'q "'v list"
  | Changed string

fun handle_event ::
  "('q \<Rightarrow> 'v list \<Rightarrow> 'c \<Rightarrow> 'c) \<Rightarrow> ('q \<Rightarrow> 'c \<Rightarrow> 'v list option) \<Rightarrow> (string \<Rightarrow> 'c \<Rightarrow> 'c) \<Rightarrow> ('q, 'v) cache_event \<Rightarrow> 'c \<Rightarrow> 'c" where
  "handle_event put get forget (Asked q vs) c = (if get q c = None then put q vs c else c)"
| "handle_event put get forget (Changed f) c = forget f c"

definition cache_history ::
  "('q \<Rightarrow> 'v list \<Rightarrow> 'c \<Rightarrow> 'c) \<Rightarrow> ('q \<Rightarrow> 'c \<Rightarrow> 'v list option) \<Rightarrow> (string \<Rightarrow> 'c \<Rightarrow> 'c) \<Rightarrow> ('q, 'v) cache_event list \<Rightarrow> 'c \<Rightarrow> 'c" where
  "cache_history put get forget es c = fold (handle_event put get forget) es c"

fun event_fits :: "('v \<Rightarrow> bool) \<Rightarrow> ('q, 'v) cache_event \<Rightarrow> bool" where
  "event_fits fit (Asked _ vs) = list_all fit vs"
| "event_fits fit (Changed _) = True"

text \<open>The answer \<open>ws\<close> was given in \<open>es\<close> to a query with this key, and no file it concerns has changed since.\<close>

definition answered_by ::
  "('q \<Rightarrow> 'k) \<Rightarrow> ('v \<Rightarrow> 'v) \<Rightarrow> (string \<Rightarrow> 'q \<Rightarrow> 'v list \<Rightarrow> bool) \<Rightarrow> ('q, 'v) cache_event list \<Rightarrow> 'q \<Rightarrow> 'v list \<Rightarrow> bool" where
  "answered_by key seen points es q ws \<longleftrightarrow>
     (\<exists>before q0 vs since. es = before @ Asked q0 vs # since \<and> key q0 = key q \<and> ws = map seen vs
        \<and> (\<forall>f. Changed f \<in> set since \<longrightarrow> \<not> points f q ws))"

lemma answered_by_snoc:
  assumes "answered_by key seen points es q ws"
    and "\<And>f. e = Changed f \<Longrightarrow> \<not> points f q ws"
  shows "answered_by key seen points (es @ [e]) q ws"
proof -
  obtain es1 q0 vs es2 where "es = es1 @ Asked q0 vs # es2" "key q0 = key q" "ws = map seen vs"
    "\<forall>f. Changed f \<in> set es2 \<longrightarrow> \<not> points f q ws"
    using assms(1) unfolding answered_by_def by blast
  then show ?thesis unfolding answered_by_def
    using assms(2) by (intro exI [of _ es1] exI [of _ q0] exI [of _ vs] exI [of _ "es2 @ [e]"]) auto
qed

context answer_table
begin

lemma inv_history: "inv c \<Longrightarrow> list_all (event_fits fit) es \<Longrightarrow> inv (cache_history put get forget es c)"
proof (induction es arbitrary: c)
  case (Cons e es)
  have "inv (handle_event put get forget e c)"
    using Cons.prems by (cases e) (auto simp: inv_put inv_forget)
  then show ?case using Cons by (simp add: cache_history_def)
qed (simp add: cache_history_def)

lemma whole_answers:
  assumes "inv c" and "list_all (event_fits fit) es" and "\<And>q. get q c = None"
    and "get q (cache_history put get forget es c) = Some ws"
  shows "answered_by key seen points es q ws"
  using assms(2,4)
proof (induction es arbitrary: q ws rule: rev_induct)
  case Nil
  then show ?case using assms(3) by (simp add: cache_history_def)
next
  case (snoc e es)
  define c' where "c' = cache_history put get forget es c"
  have inv: "inv c'" using inv_history [OF assms(1)] snoc.prems(1) by (simp add: c'_def)
  have now: "get q (handle_event put get forget e c') = Some ws"
    using snoc.prems(2) by (simp add: cache_history_def c'_def)
  have old: "get q' c' = Some vs \<Longrightarrow> answered_by key seen points es q' vs" for q' vs
    using snoc.IH snoc.prems(1) by (simp add: c'_def)
  show ?case
  proof (cases e)
    case (Asked q0 vs)
    show ?thesis
    proof (cases "get q0 c' = None \<and> key q = key q0")
      case True
      then have "ws = map seen vs"
        using now Asked put_same [OF inv] by (auto simp: answer_of_def split: if_splits)
      then show ?thesis using Asked True unfolding answered_by_def by force
    next
      case False
      then have "get q c' = Some ws" using now Asked put_other by (cases "get q0 c'") auto
      then show ?thesis using old Asked by (intro answered_by_snoc) auto
    qed
  next
    case (Changed f)
    have "get q c' = Some ws" using now Changed forget_whole [of q f c'] by auto
    moreover have "\<not> points f q ws"
      using now Changed forget_points [OF inv \<open>get q c' = Some ws\<close>] by auto
    ultimately show ?thesis using old Changed by (intro answered_by_snoc) auto
  qed
qed

end


section \<open>The tables that hold answers with locations\<close>

text \<open>A query is when it is made, the file and the position; the client stores the definitions one by one.\<close>

type_synonym location_query = "int \<times> string \<times> position"

definition location_key :: "location_query \<Rightarrow> string \<times> position" where
  "location_key q = (normalizeFilePath (fst (snd q)), snd (snd q))"

definition seen_location :: "location \<Rightarrow> location" where
  "seen_location l = read_location (stored_location l)"

definition location_points :: "string \<Rightarrow> location_query \<Rightarrow> location list \<Rightarrow> bool" where
  "location_points f q vs \<longleftrightarrow>
     fst (location_key q) = normalizeFilePath f \<or> (\<exists>l \<in> set vs. fst l = ''file://'' @ normalizeFilePath f)"

definition location_fits :: "location \<Rightarrow> bool" where
  "location_fits l \<longleftrightarrow> CHR 0x00 \<notin> set (fst l)"

definition put_definitions :: "location_query \<Rightarrow> location list \<Rightarrow> query_cache \<Rightarrow> query_cache" where
  "put_definitions q ls c = fold (cacheDefinition (fst q) (fst (snd q)) (snd (snd q))) ls c"

definition get_definitions :: "location_query \<Rightarrow> query_cache \<Rightarrow> location list option" where
  "get_definitions q = getCachedDefinitions (fst (snd q)) (snd (snd q))"

definition put_references :: "location_query \<Rightarrow> location list \<Rightarrow> query_cache \<Rightarrow> query_cache" where
  "put_references q ls c = cacheReferences (fst q) (fst (snd q)) (snd (snd q)) ls c"

definition get_references :: "location_query \<Rightarrow> query_cache \<Rightarrow> location list option" where
  "get_references q = getCachedReferences (fst (snd q)) (snd (snd q))"

definition locations_inv :: "(query_cache \<Rightarrow> ('k, location) table) \<Rightarrow> query_cache \<Rightarrow> bool" where
  "locations_inv rows c \<longleftrightarrow> qc_active c \<and> (\<forall>(_, l, _, _) \<in> set (rows c). CHR 0x00 \<notin> set (fst l))"

lemma no_nul_normalize: "CHR 0x00 \<notin> set p \<Longrightarrow> CHR 0x00 \<notin> set (normalizeFilePath p)"
  by (auto simp: normalizeFilePath_def dest: in_set_dropD)

lemma put_definitions_rows:
  "put_definitions q ls c =
     (if \<not> qc_active c then c
      else c\<lparr>qc_definitions := add_rows (location_key q) (map stored_location ls) (qc_sha c) (fst q) (qc_definitions c)\<rparr>)"
proof (cases "qc_active c")
  case False
  then have "fold (cacheDefinition (fst q) (fst (snd q)) (snd (snd q))) ls c = c"
    by (induction ls) (simp_all add: cacheDefinition_def)
  then show ?thesis using False by (simp add: put_definitions_def)
next
  case True
  then show ?thesis unfolding put_definitions_def
  proof (induction ls arbitrary: c)
    case (Cons l ls)
    let ?c = "cacheDefinition (fst q) (fst (snd q)) (snd (snd q)) l c"
    have "?c = c\<lparr>qc_definitions := add_row (location_key q) (stored_location l) (qc_sha c) (fst q) (qc_definitions c)\<rparr>"
      using Cons.prems by (simp add: cacheDefinition_def location_key_def)
    moreover from this have "qc_active ?c" "qc_sha ?c = qc_sha c"
      using Cons.prems by (simp_all add: qc_active_def qc_sha_def)
    ultimately show ?case using Cons.IH [of ?c] Cons.prems by (simp add: add_rows_def)
  qed (simp add: add_rows_def)
qed

lemma answer_rows:
  assumes "qc_active c" and "rows_of k (qc_sha c) t = []"
  shows "rows_of k (qc_sha c) (add_rows k vs (qc_sha c) now t) = vs"
  using assms by simp

lemma points_row:
  assumes "ws = map read_location (rows_of k s t)" and "\<forall>(_, l, _, _) \<in> set t. CHR 0x00 \<notin> set (fst l)"
    and "\<exists>l \<in> set ws. fst l = ''file://'' @ f"
  shows "\<exists>l \<in> set (rows_of k s t). fst l = f"
proof -
  obtain l where l: "l \<in> set (rows_of k s t)" "''file://'' @ c_str (fst l) = ''file://'' @ f"
    using assms(1,3) by (auto simp: read_location_def)
  then have "CHR 0x00 \<notin> set (fst l)" using assms(2) by (force simp: rows_of_def)
  then show ?thesis using l by auto
qed

lemma rows_of_subset: "v \<in> set (rows_of k s t) \<Longrightarrow> \<exists>at. (k, v, s, at) \<in> set t"
  by (force simp: rows_of_def)

lemma delete_answers_subset: "set (delete_answers asked points t) \<subseteq> set t"
  by (auto simp: delete_answers_def)

lemma invalidate_active: "qc_active (invalidateFile f c) = qc_active c" "qc_sha (invalidateFile f c) = qc_sha c"
  by (simp_all add: invalidateFile_def qc_active_def qc_sha_def Let_def)

lemma active_open: "qc_active c \<Longrightarrow> lc_open (qc_index c)"
  by (simp add: qc_active_def cache_active_def)


lemma invalidate_locations:
  assumes "locations_inv rows c"
    and "rows (invalidateFile f c) = delete_answers (\<lambda>k. fst k = normalizeFilePath f) (\<lambda>l. fst l = normalizeFilePath f) (rows c)"
  shows "locations_inv rows (invalidateFile f c)"
proof -
  have "set (rows (invalidateFile f c)) \<subseteq> set (rows c)"
    by (simp add: assms(2) delete_answers_subset)
  then show ?thesis using assms(1) unfolding locations_inv_def invalidate_active by blast
qed

lemma whole_or_gone:
  "answer_of (map g (rows_of k s (delete_answers asked points t))) = answer_of (map g (rows_of k s t))
     \<or> rows_of k s (delete_answers asked points t) = []"
  by (simp add: rows_of_delete_answers)

lemma pointed_answer_gone:
  assumes "locations_inv rows c" and "map read_location (rows_of (location_key q) s (rows c)) = vs"
    and "location_points f q vs"
  shows "rows_of (location_key q) s
           (delete_answers (\<lambda>k. fst k = normalizeFilePath f) (\<lambda>l. fst l = normalizeFilePath f) (rows c)) = []"
proof (cases "fst (location_key q) = normalizeFilePath f")
  case True
  then show ?thesis by (simp add: rows_of_delete_answers)
next
  case False
  then have "\<exists>l \<in> set vs. fst l = ''file://'' @ normalizeFilePath f"
    using assms(3) unfolding location_points_def by blast
  then have "\<exists>l \<in> set (rows_of (location_key q) s (rows c)). fst l = normalizeFilePath f"
    using points_row [of vs "location_key q" s "rows c" "normalizeFilePath f"] assms(1,2)
    unfolding locations_inv_def by blast
  then show ?thesis by (rule rows_of_points)
qed

lemma added_locations:
  assumes "locations_inv rows c" and "list_all location_fits ls"
    and "rows c' = add_rows k (map stored_location ls) s now (rows c)" and "qc_active c' = qc_active c"
  shows "locations_inv rows c'"
  using assms unfolding locations_inv_def
  by (auto simp: add_rows_append list_all_iff location_fits_def stored_location_def no_nul_normalize)

lemma get_definitions_rows:
  "get_definitions q c =
     (if qc_active c then answer_of (map read_location (rows_of (location_key q) (qc_sha c) (qc_definitions c))) else None)"
  by (simp add: get_definitions_def getCachedDefinitions_def location_key_def)

lemma get_references_rows:
  "get_references q c =
     (if qc_active c then answer_of (map read_location (rows_of (location_key q) (qc_sha c) (qc_references c))) else None)"
  by (simp add: get_references_def getCachedReferences_def location_key_def)

lemma put_references_rows:
  "put_references q ls c =
     (if \<not> qc_active c then c
      else c\<lparr>qc_references := add_rows (location_key q) (map stored_location ls) (qc_sha c) (fst q) (qc_references c)\<rparr>)"
  by (simp add: put_references_def cacheReferences_def location_key_def)

lemma active_update [simp]:
  "qc_active (c\<lparr>qc_definitions := d\<rparr>) = qc_active c" "qc_sha (c\<lparr>qc_definitions := d\<rparr>) = qc_sha c"
  "qc_active (c\<lparr>qc_references := d\<rparr>) = qc_active c" "qc_sha (c\<lparr>qc_references := d\<rparr>) = qc_sha c"
  "qc_active (c\<lparr>qc_workspace := w\<rparr>) = qc_active c" "qc_sha (c\<lparr>qc_workspace := w\<rparr>) = qc_sha c"
  by (simp_all add: qc_active_def qc_sha_def)

lemma answer_of_None [simp]: "answer_of vs = None \<longleftrightarrow> vs = []"
  by (simp add: answer_of_def)

lemma answer_of_Some: "answer_of vs = Some ws \<longleftrightarrow> vs = ws \<and> ws \<noteq> []"
  by (auto simp: answer_of_def)

lemma invalidate_rows:
  assumes "qc_active c"
  shows "qc_definitions (invalidateFile f c)
      = delete_answers (\<lambda>k. fst k = normalizeFilePath f) (\<lambda>l. fst l = normalizeFilePath f) (qc_definitions c)"
    and "qc_references (invalidateFile f c)
      = delete_answers (\<lambda>k. fst k = normalizeFilePath f) (\<lambda>l. fst l = normalizeFilePath f) (qc_references c)"
    and "qc_workspace (invalidateFile f c) = delete_answers (\<lambda>_. False) (\<lambda>s. cw_file s = normalizeFilePath f) (qc_workspace c)"
  using active_open [OF assms] by (simp_all add: invalidateFile_def Let_def)

interpretation defs: answer_table put_definitions get_definitions invalidateFile location_key seen_location
  location_points location_fits "locations_inv qc_definitions"
proof unfold_locales
  fix c :: query_cache and q q' vs f ws
  show "locations_inv qc_definitions c \<Longrightarrow> get_definitions q c = None \<Longrightarrow> location_key q' = location_key q
      \<Longrightarrow> get_definitions q' (put_definitions q vs c) = answer_of (map seen_location vs)"
    by (simp add: locations_inv_def get_definitions_rows put_definitions_rows seen_location_def [abs_def] comp_def)
  show "location_key q' \<noteq> location_key q \<Longrightarrow> get_definitions q' (put_definitions q vs c) = get_definitions q' c"
    by (simp add: get_definitions_rows put_definitions_rows)
  show "get_definitions q (invalidateFile f c) = get_definitions q c \<or> get_definitions q (invalidateFile f c) = None"
    by (cases "qc_active c") (simp_all add: get_definitions_rows invalidate_active invalidate_rows whole_or_gone)
  show "get_definitions q (invalidateFile f c) = None"
    if "locations_inv qc_definitions c" "get_definitions q c = Some ws" "location_points f q ws"
  proof -
    have a: "qc_active c" "map read_location (rows_of (location_key q) (qc_sha c) (qc_definitions c)) = ws"
      using that(2) by (auto simp: get_definitions_rows answer_of_Some split: if_splits)
    then show ?thesis using pointed_answer_gone [OF that(1) a(2) that(3)]
      by (simp add: get_definitions_rows invalidate_active invalidate_rows)
  qed
  show "locations_inv qc_definitions c \<Longrightarrow> list_all location_fits vs \<Longrightarrow> locations_inv qc_definitions (put_definitions q vs c)"
    by (cases "qc_active c") (auto simp: put_definitions_rows elim: added_locations)
  show "locations_inv qc_definitions c \<Longrightarrow> locations_inv qc_definitions (invalidateFile f c)"
    by (rule invalidate_locations) (auto simp: locations_inv_def invalidate_rows)
qed

interpretation refs: answer_table put_references get_references invalidateFile location_key seen_location
  location_points location_fits "locations_inv qc_references"
proof unfold_locales
  fix c :: query_cache and q q' vs f ws
  show "locations_inv qc_references c \<Longrightarrow> get_references q c = None \<Longrightarrow> location_key q' = location_key q
      \<Longrightarrow> get_references q' (put_references q vs c) = answer_of (map seen_location vs)"
    by (simp add: locations_inv_def get_references_rows put_references_rows seen_location_def [abs_def] comp_def)
  show "location_key q' \<noteq> location_key q \<Longrightarrow> get_references q' (put_references q vs c) = get_references q' c"
    by (simp add: get_references_rows put_references_rows)
  show "get_references q (invalidateFile f c) = get_references q c \<or> get_references q (invalidateFile f c) = None"
    by (cases "qc_active c") (simp_all add: get_references_rows invalidate_active invalidate_rows whole_or_gone)
  show "get_references q (invalidateFile f c) = None"
    if "locations_inv qc_references c" "get_references q c = Some ws" "location_points f q ws"
  proof -
    have a: "qc_active c" "map read_location (rows_of (location_key q) (qc_sha c) (qc_references c)) = ws"
      using that(2) by (auto simp: get_references_rows answer_of_Some split: if_splits)
    then show ?thesis using pointed_answer_gone [OF that(1) a(2) that(3)]
      by (simp add: get_references_rows invalidate_active invalidate_rows)
  qed
  show "locations_inv qc_references c \<Longrightarrow> list_all location_fits vs \<Longrightarrow> locations_inv qc_references (put_references q vs c)"
    by (cases "qc_active c") (auto simp: put_references_rows elim: added_locations)
  show "locations_inv qc_references c \<Longrightarrow> locations_inv qc_references (invalidateFile f c)"
    by (rule invalidate_locations) (auto simp: locations_inv_def invalidate_rows)
qed


text \<open>The symbols found for a query, where the query belongs to no file.\<close>

definition seen_ws_symbol :: "cached_ws_symbol \<Rightarrow> cached_ws_symbol" where
  "seen_ws_symbol s = read_ws_symbol (s\<lparr>cw_file := normalizeFilePath (cw_file s)\<rparr>)"

definition put_workspace :: "int \<times> string \<Rightarrow> cached_ws_symbol list \<Rightarrow> query_cache \<Rightarrow> query_cache" where
  "put_workspace q syms = cacheWorkspaceSymbols (fst q) (snd q) syms"

definition get_workspace :: "int \<times> string \<Rightarrow> query_cache \<Rightarrow> cached_ws_symbol list option" where
  "get_workspace q = getCachedWorkspaceSymbols (snd q)"

definition ws_points :: "string \<Rightarrow> int \<times> string \<Rightarrow> cached_ws_symbol list \<Rightarrow> bool" where
  "ws_points f q vs \<longleftrightarrow> (\<exists>s \<in> set vs. cw_file s = normalizeFilePath f)"

definition ws_fits :: "cached_ws_symbol \<Rightarrow> bool" where
  "ws_fits s \<longleftrightarrow> CHR 0x00 \<notin> set (cw_file s)"

definition ws_inv :: "query_cache \<Rightarrow> bool" where
  "ws_inv c \<longleftrightarrow> qc_active c \<and> (\<forall>(_, s, _, _) \<in> set (qc_workspace c). ws_fits s)"

lemma get_workspace_rows:
  "get_workspace q c =
     (if qc_active c then answer_of (map read_ws_symbol (rows_of (snd q) (qc_sha c) (qc_workspace c))) else None)"
  by (simp add: get_workspace_def getCachedWorkspaceSymbols_def)

lemma put_workspace_rows:
  "put_workspace q syms c =
     (if \<not> qc_active c then c
      else c\<lparr>qc_workspace := add_rows (snd q) (map (\<lambda>s. s\<lparr>cw_file := normalizeFilePath (cw_file s)\<rparr>) syms) (qc_sha c) (fst q)
                              (delete_key (snd q) (qc_sha c) (qc_workspace c))\<rparr>)"
  by (simp add: put_workspace_def cacheWorkspaceSymbols_def)

interpretation wsyms: answer_table put_workspace get_workspace invalidateFile snd seen_ws_symbol ws_points ws_fits ws_inv
proof unfold_locales
  fix c :: query_cache and q q' :: "int \<times> string" and vs f ws
  show "ws_inv c \<Longrightarrow> get_workspace q c = None \<Longrightarrow> snd q' = snd q
      \<Longrightarrow> get_workspace q' (put_workspace q vs c) = answer_of (map seen_ws_symbol vs)"
    by (simp add: ws_inv_def get_workspace_rows put_workspace_rows seen_ws_symbol_def [abs_def] comp_def)
  show "snd q' \<noteq> snd q \<Longrightarrow> get_workspace q' (put_workspace q vs c) = get_workspace q' c"
    by (simp add: get_workspace_rows put_workspace_rows)
  show "get_workspace q (invalidateFile f c) = get_workspace q c \<or> get_workspace q (invalidateFile f c) = None"
    by (cases "qc_active c") (simp_all add: get_workspace_rows invalidate_active invalidate_rows whole_or_gone)
  show "get_workspace q (invalidateFile f c) = None"
    if inv: "ws_inv c" and got: "get_workspace q c = Some ws" and pts: "ws_points f q ws"
  proof -
    have a: "qc_active c" "map read_ws_symbol (rows_of (snd q) (qc_sha c) (qc_workspace c)) = ws"
      using got by (auto simp: get_workspace_rows answer_of_Some split: if_splits)
    obtain s where s: "s \<in> set (rows_of (snd q) (qc_sha c) (qc_workspace c))" "c_str (cw_file s) = normalizeFilePath f"
      using pts a(2) by (auto simp: ws_points_def read_ws_symbol_def)
    then have "ws_fits s" using inv by (force simp: rows_of_def ws_inv_def)
    then have "cw_file s = normalizeFilePath f" using s(2) by (simp add: ws_fits_def)
    then have "rows_of (snd q) (qc_sha c)
        (delete_answers (\<lambda>_. False) (\<lambda>s. cw_file s = normalizeFilePath f) (qc_workspace c)) = []"
      using s(1) by (intro rows_of_points) blast
    then show ?thesis using a(1) by (simp add: get_workspace_rows invalidate_active invalidate_rows)
  qed
  show "ws_inv c \<Longrightarrow> list_all ws_fits vs \<Longrightarrow> ws_inv (put_workspace q vs c)"
    by (auto simp: ws_inv_def put_workspace_rows add_rows_append list_all_iff ws_fits_def no_nul_normalize delete_key_def)
  show "ws_inv (invalidateFile f c)" if "ws_inv c"
  proof -
    have "qc_active c" using that by (simp add: ws_inv_def)
    then have "set (qc_workspace (invalidateFile f c)) \<subseteq> set (qc_workspace c)"
      by (simp add: invalidate_rows delete_answers_subset)
    then show ?thesis using that unfolding ws_inv_def invalidate_active by blast
  qed
qed

definition empty_cache :: "string \<Rightarrow> query_cache" where
  "empty_cache sha =
     \<lparr>qc_index = \<lparr>lc_open = True, lc_sha = sha, lc_definitions = [], lc_references = [], lc_files = []\<rparr>,
      qc_definitions = [], qc_references = [], qc_hovers = [], qc_symbols = [], qc_workspace = [], qc_folds = [],
      qc_status = []\<rparr>"

lemma empty_cache_facts:
  assumes "sha \<noteq> []"
  shows "locations_inv qc_definitions (empty_cache sha)" "locations_inv qc_references (empty_cache sha)"
    "ws_inv (empty_cache sha)" "get_definitions q (empty_cache sha) = None" "get_references q (empty_cache sha) = None"
    "get_workspace w (empty_cache sha) = None"
  using assms
  by (simp_all add: empty_cache_def locations_inv_def ws_inv_def qc_active_def cache_active_def get_definitions_rows
      get_references_rows get_workspace_rows rows_of_def answer_of_def)

text \<open>
  C31. The cache gives whole and current answers: however queries and changes of files follow one another, the
  definitions found for a position are all the locations the server answered for it, in its order, to a query
  made when nothing was cached, and since then neither the file the query was asked from nor any file an answer
  points to has been invalidated.
\<close>

theorem cached_answers_whole:
  assumes "sha \<noteq> []" and "list_all (event_fits location_fits) es"
    and "get_definitions q (cache_history put_definitions get_definitions invalidateFile es (empty_cache sha)) = Some ws"
  shows "answered_by location_key seen_location location_points es q ws"
  using defs.whole_answers [OF empty_cache_facts(1) assms(2) empty_cache_facts(4) assms(3)] assms(1) by simp

definition demo_events :: "(location_query, location) cache_event list" where
  "demo_events =
     [Asked (1, ''file:///w/a.c'', (3, 4)) [(''file:///w/b.c'', ((1, 0), (1, 3))), (''file:///w/c.c'', ((2, 0), (2, 3)))],
      Changed ''file:///w/b.c'',
      Asked (2, ''/w/a.c'', (3, 4)) [(''file:///w/c.c'', ((2, 0), (2, 3)))]]"

lemma demo_answer:
  "get_definitions (9, ''/w/a.c'', (3, 4))
     (cache_history put_definitions get_definitions invalidateFile demo_events (empty_cache ''abc''))
   = Some [(''file:///w/c.c'', ((2, 0), (2, 3)))]"
  by code_simp

lemma cached_answers_whole_witness:
  "answered_by location_key seen_location location_points demo_events (9, ''/w/a.c'', (3, 4))
     [(''file:///w/c.c'', ((2, 0), (2, 3)))]"
proof (rule cached_answers_whole [OF _ _ demo_answer])
  show "''abc'' \<noteq> []" by simp
  show "list_all (event_fits location_fits) demo_events" by (simp add: demo_events_def location_fits_def)
qed


lemma seen_location_file [simp]:
  "CHR 0x00 \<notin> set p \<Longrightarrow> seen_location (''file://'' @ p, r) = (''file://'' @ p, r)"
  by (simp add: seen_location_def read_location_def stored_location_def normalizeFilePath_def starts_with_iff_prefix)

section \<open>What a deletion leaves\<close>

definition concerns :: "string \<Rightarrow> string \<times> position \<Rightarrow> (string \<times> position, location) table \<Rightarrow> bool" where
  "concerns f k t \<longleftrightarrow> fst k = f \<or> list_ex (\<lambda>(k', l, _, _). k' = k \<and> fst l = f) t"

definition query_concerns :: "string \<Rightarrow> string \<Rightarrow> (string, cached_ws_symbol) table \<Rightarrow> bool" where
  "query_concerns f q t \<longleftrightarrow> list_ex (\<lambda>(q', s, _, _). q' = q \<and> cw_file s = f) t"

lemma rows_of_concerns:
  "rows_of k s (delete_answers (\<lambda>k. fst k = f) (\<lambda>l. fst l = f) t) = (if concerns f k t then [] else rows_of k s t)"
  "rows_of q s (delete_answers (\<lambda>_. False) (\<lambda>s. cw_file s = f) w) = (if query_concerns f q w then [] else rows_of q s w)"
  by (simp_all add: rows_of_delete_answers concerns_def query_concerns_def list_ex_iff)

lemma invalidated:
  fixes path :: string and c :: query_cache
  defines "f \<equiv> normalizeFilePath path" and "c' \<equiv> invalidateFile path c"
  shows "getCachedDefinitions file pos c' =
           (if concerns f (normalizeFilePath file, pos) (qc_definitions c) then None else getCachedDefinitions file pos c)"
    and "getCachedReferences file pos c' =
           (if concerns f (normalizeFilePath file, pos) (qc_references c) then None else getCachedReferences file pos c)"
    and "getCachedHover file pos c' = (if normalizeFilePath file = f then None else getCachedHover file pos c)"
    and "getCachedDocumentSymbols file c' = (if normalizeFilePath file = f then None else getCachedDocumentSymbols file c)"
    and "getCachedFoldingRanges file c' = (if normalizeFilePath file = f then None else getCachedFoldingRanges file c)"
    and "getCachedWorkspaceSymbols query c' =
           (if query_concerns f query (qc_workspace c) then None else getCachedWorkspaceSymbols query c)"
    and "isCacheValid file c' \<longleftrightarrow> normalizeFilePath file \<noteq> f \<and> isCacheValid file c"
    and "qc_index c' = qc_index c"
proof -
  have act: "qc_active c' = qc_active c" "qc_sha c' = qc_sha c" by (simp_all add: c'_def invalidate_active)
  have idx: "qc_index c' = qc_index c" by (simp add: c'_def invalidateFile_def Let_def)
  then show "qc_index c' = qc_index c" .
  have rows: "qc_active c \<Longrightarrow> qc_definitions c' = delete_answers (\<lambda>k. fst k = f) (\<lambda>l. fst l = f) (qc_definitions c)"
    "qc_active c \<Longrightarrow> qc_references c' = delete_answers (\<lambda>k. fst k = f) (\<lambda>l. fst l = f) (qc_references c)"
    "qc_active c \<Longrightarrow> qc_hovers c' = delete_answers (\<lambda>k. fst k = f) (\<lambda>_. False) (qc_hovers c)"
    "qc_active c \<Longrightarrow> qc_symbols c' = delete_answers (\<lambda>k. k = f) (\<lambda>_. False) (qc_symbols c)"
    "qc_active c \<Longrightarrow> qc_folds c' = delete_answers (\<lambda>k. k = f) (\<lambda>_. False) (qc_folds c)"
    "qc_active c \<Longrightarrow> qc_workspace c' = delete_answers (\<lambda>_. False) (\<lambda>s. cw_file s = f) (qc_workspace c)"
    "qc_active c \<Longrightarrow> qc_status c' = filter (\<lambda>(f', _). f' \<noteq> f) (qc_status c)"
    by (simp_all add: c'_def f_def invalidateFile_def active_open Let_def)
  show "getCachedDefinitions file pos c' =
      (if concerns f (normalizeFilePath file, pos) (qc_definitions c) then None else getCachedDefinitions file pos c)"
    by (simp add: getCachedDefinitions_def act rows rows_of_concerns)
  show "getCachedReferences file pos c' =
      (if concerns f (normalizeFilePath file, pos) (qc_references c) then None else getCachedReferences file pos c)"
    by (simp add: getCachedReferences_def act rows rows_of_concerns)
  show "getCachedHover file pos c' = (if normalizeFilePath file = f then None else getCachedHover file pos c)"
    by (simp add: getCachedHover_def act rows rows_of_delete_answers)
  show "getCachedDocumentSymbols file c' = (if normalizeFilePath file = f then None else getCachedDocumentSymbols file c)"
    by (simp add: getCachedDocumentSymbols_def act rows rows_of_delete_answers by_position_def)
  show "getCachedFoldingRanges file c' = (if normalizeFilePath file = f then None else getCachedFoldingRanges file c)"
    by (simp add: getCachedFoldingRanges_def act rows rows_of_delete_answers)
  show "getCachedWorkspaceSymbols query c' =
      (if query_concerns f query (qc_workspace c) then None else getCachedWorkspaceSymbols query c)"
    by (simp add: getCachedWorkspaceSymbols_def act rows rows_of_concerns)
  show "isCacheValid file c' \<longleftrightarrow> normalizeFilePath file \<noteq> f \<and> isCacheValid file c"
    by (auto simp: isCacheValid_def act rows list_ex_iff)
qed

text \<open>
  A changed file costs exactly the answers that concern it: after \<^verbatim>\<open>invalidateFile\<close> the answers asked from the
  file are gone, and so are those of its positions and queries elsewhere that have a row pointing into it, and
  every other answer, of every kind and file, is found as before.
\<close>

theorem invalidation_exact:
  "getCachedDefinitions file pos (invalidateFile path c) =
     (if concerns (normalizeFilePath path) (normalizeFilePath file, pos) (qc_definitions c) then None
      else getCachedDefinitions file pos c)
   \<and> getCachedReferences file pos (invalidateFile path c) =
     (if concerns (normalizeFilePath path) (normalizeFilePath file, pos) (qc_references c) then None
      else getCachedReferences file pos c)
   \<and> getCachedHover file pos (invalidateFile path c) =
     (if normalizeFilePath file = normalizeFilePath path then None else getCachedHover file pos c)
   \<and> getCachedDocumentSymbols file (invalidateFile path c) =
     (if normalizeFilePath file = normalizeFilePath path then None else getCachedDocumentSymbols file c)
   \<and> getCachedFoldingRanges file (invalidateFile path c) =
     (if normalizeFilePath file = normalizeFilePath path then None else getCachedFoldingRanges file c)
   \<and> getCachedWorkspaceSymbols query (invalidateFile path c) =
     (if query_concerns (normalizeFilePath path) query (qc_workspace c) then None else getCachedWorkspaceSymbols query c)
   \<and> (isCacheValid file (invalidateFile path c) \<longleftrightarrow> normalizeFilePath file \<noteq> normalizeFilePath path \<and> isCacheValid file c)
   \<and> qc_index (invalidateFile path c) = qc_index c"
  by (intro conjI invalidated)

text \<open>
  Everything a user can clear is gone after \<^verbatim>\<open>clearAll\<close>, except the folding ranges, which are found as before.
\<close>

lemma clear_all_exact:
  fixes c :: query_cache
  defines "c' \<equiv> clearAll c"
  shows "getCachedDefinitions file pos c' = None" "getCachedReferences file pos c' = None"
    and "getCachedHover file pos c' = None" "getCachedDocumentSymbols file c' = None"
    and "getCachedWorkspaceSymbols query c' = None" "\<not> isCacheValid file c'"
    and "getCachedFoldingRanges file c' = getCachedFoldingRanges file c"
  by (auto simp: c'_def clearAll_def getCachedDefinitions_def getCachedReferences_def getCachedHover_def
      getCachedDocumentSymbols_def getCachedWorkspaceSymbols_def isCacheValid_def getCachedFoldingRanges_def
      qc_active_def cache_active_def qc_sha_def rows_of_def answer_of_def by_position_def)

section \<open>Files that count as cached\<close>

datatype cache_op =
    SetSha string
  | CacheDefinition int string position location
  | CacheReferences int string position "location list"
  | CacheHover int string position string
  | CacheSymbols int string "cached_symbol list"
  | CacheWorkspace int string "cached_ws_symbol list"
  | CacheFolds int string "cached_fold list"
  | Invalidate string
  | InvalidateAll string
  | ClearIndex
  | ClearAll
  | Prune int int

fun cache_do :: "cache_op \<Rightarrow> query_cache \<Rightarrow> query_cache" where
  "cache_do (SetSha sha) c = setCurrentGitSha sha c"
| "cache_do (CacheDefinition now f p l) c = cacheDefinition now f p l c"
| "cache_do (CacheReferences now f p ls) c = cacheReferences now f p ls c"
| "cache_do (CacheHover now f p t) c = cacheHover now f p t c"
| "cache_do (CacheSymbols now f ss) c = cacheDocumentSymbols now f ss c"
| "cache_do (CacheWorkspace now q ss) c = cacheWorkspaceSymbols now q ss c"
| "cache_do (CacheFolds now f rs) c = cacheFoldingRanges now f rs c"
| "cache_do (Invalidate f) c = invalidateFile f c"
| "cache_do (InvalidateAll sha) c = invalidateAllForSha sha c"
| "cache_do ClearIndex c = clearIndex c"
| "cache_do ClearAll c = clearAll c"
| "cache_do (Prune now days) c = snd (pruneOlderThan now days c)"

text \<open>The client stores the symbols of a file only when there are any.\<close>

fun op_used :: "cache_op \<Rightarrow> bool" where
  "op_used (CacheSymbols _ _ ss) = (ss \<noteq> [])"
| "op_used _ = True"

definition status_backed :: "(string \<times> string \<times> int) list \<Rightarrow> (string, cached_symbol) table \<Rightarrow> bool" where
  "status_backed status t \<longleftrightarrow> (\<forall>(f, s, at) \<in> set status. \<exists>(k, _, s', at') \<in> set t. k = f \<and> s' = s \<and> at \<le> at')"


lemma status_backed_mono:
  assumes "status_backed status t" and "set status' \<subseteq> set status"
    and "\<And>f s at v at'. (f, s, at) \<in> set status' \<Longrightarrow> (f, v, s, at') \<in> set t \<Longrightarrow> at \<le> at' \<Longrightarrow> (f, v, s, at') \<in> set t'"
  shows "status_backed status' t'"
  unfolding status_backed_def
proof (intro ballI, clarify)
  fix f s at assume m: "(f, s, at) \<in> set status'"
  then obtain v at' where "(f, v, s, at') \<in> set t" "at \<le> at'"
    using assms(1,2) unfolding status_backed_def by fast
  then show "\<exists>(k, _, s', at') \<in> set t'. k = f \<and> s' = s \<and> at \<le> at'"
    using assms(3) [OF m] by force
qed

lemma status_backed_Cons:
  "(f, v, s, at') \<in> set t \<Longrightarrow> at \<le> at' \<Longrightarrow> status_backed status t \<Longrightarrow> status_backed ((f, s, at) # status) t"
  unfolding status_backed_def by fastforce

lemma status_backed_store:
  assumes "status_backed status t" and "ss \<noteq> []"
  shows "status_backed ((f, sha, now) # filter (\<lambda>(f', _). f' \<noteq> f) status) (add_rows f ss sha now (delete_key f sha t))"
proof -
  let ?t = "add_rows f ss sha now (delete_key f sha t)"
  have "status_backed (filter (\<lambda>(f', _). f' \<noteq> f) status) ?t"
    by (rule status_backed_mono [OF assms(1)]) (auto simp: add_rows_append delete_key_def)
  moreover have "(f, hd ss, sha, now) \<in> set ?t"
    using assms(2) by (simp add: add_rows_append)
  ultimately show ?thesis by (intro status_backed_Cons) auto
qed

lemma cache_do_backed:
  assumes "status_backed (qc_status c) (qc_symbols c)" and "op_used oper"
  shows "status_backed (qc_status (cache_do oper c)) (qc_symbols (cache_do oper c))"
proof (cases oper)
  case (CacheSymbols now f ss)
  then show ?thesis
    using assms status_backed_store [OF assms(1), of ss] by (simp add: cacheDocumentSymbols_def Let_def)
next
  case (Invalidate f)
  have "status_backed (filter (\<lambda>(f', _). f' \<noteq> normalizeFilePath f) (qc_status c))
      (delete_answers (\<lambda>k. k = normalizeFilePath f) (\<lambda>_. False) (qc_symbols c))"
    by (rule status_backed_mono [OF assms(1)]) (auto simp: delete_answers_def)
  then show ?thesis using assms(1) Invalidate by (simp add: invalidateFile_def Let_def)
next
  case (InvalidateAll sha)
  have "status_backed (filter (\<lambda>(_, s, _). s = sha) (qc_status c)) (keep_sha sha (qc_symbols c))"
    by (rule status_backed_mono [OF assms(1)]) (auto simp: keep_sha_def)
  then show ?thesis using assms(1) InvalidateAll by (simp add: invalidateAllForSha_def)
next
  case (Prune now days)
  have "status_backed (filter (\<lambda>(_, _, at). lim \<le> at) (qc_status c)) (keep_since lim (qc_symbols c))" for lim
    by (rule status_backed_mono [OF assms(1)]) (auto simp: keep_since_def)
  then show ?thesis using assms(1) Prune by (simp add: pruneOlderThan_def Let_def)
qed (use assms in \<open>simp_all add: setCurrentGitSha_def cacheDefinition_def cacheReferences_def cacheHover_def
      cacheWorkspaceSymbols_def cacheFoldingRanges_def clearIndex_def clearAll_def status_backed_def Let_def\<close>)

lemma cache_history_backed:
  "status_backed (qc_status c) (qc_symbols c) \<Longrightarrow> list_all op_used ops
    \<Longrightarrow> status_backed (qc_status (fold cache_do ops c)) (qc_symbols (fold cache_do ops c))"
  by (induction ops arbitrary: c) (simp_all add: cache_do_backed)

lemma by_position_empty [simp]: "by_position ss = [] \<longleftrightarrow> ss = []"
proof -
  have "length (by_position ss) = length ss" by (simp add: by_position_def)
  then show ?thesis by (metis length_0_conv)
qed

text \<open>
  A file that counts as cached has its symbols in the cache: after any sequence of the cache's operations, if
  \<^verbatim>\<open>isCacheValid\<close> holds for a file at the current SHA then its document symbols are found, because everything
  that deletes symbols (a change, a new SHA, a pruning by age) takes the mark away with them.
\<close>

theorem valid_means_cached:
  assumes "list_all op_used ops" and "isCacheValid file (fold cache_do ops (empty_cache sha))"
  shows "getCachedDocumentSymbols file (fold cache_do ops (empty_cache sha)) \<noteq> None"
proof -
  let ?c = "fold cache_do ops (empty_cache sha)"
  have "status_backed (qc_status ?c) (qc_symbols ?c)"
    by (rule cache_history_backed [OF _ assms(1)]) (simp add: empty_cache_def status_backed_def)
  moreover obtain at where "(normalizeFilePath file, qc_sha ?c, at) \<in> set (qc_status ?c)"
    using assms(2) by (auto simp: isCacheValid_def list_ex_iff)
  ultimately have "rows_of (normalizeFilePath file) (qc_sha ?c) (qc_symbols ?c) \<noteq> []"
    unfolding status_backed_def rows_of_def by (force simp: filter_empty_conv)
  then show ?thesis using assms(2) by (simp add: getCachedDocumentSymbols_def isCacheValid_def)
qed

definition demo_ops :: "cache_op list" where
  "demo_ops =
     [CacheSymbols 100 ''file:///w/a.c'' [\<lparr>cs_name = ''main'', cs_kind = ''12'', cs_detail = [], cs_range = ((3, 0), (9, 1))\<rparr>],
      CacheHover 101 ''/w/a.c'' (3, 4) ''int main()'', Prune 200 1, Invalidate ''/w/b.c'']"

lemma valid_means_cached_witness:
  "getCachedDocumentSymbols ''/w/a.c'' (fold cache_do demo_ops (empty_cache ''abc'')) \<noteq> None"
proof (rule valid_means_cached)
  show "list_all op_used demo_ops" by (simp add: demo_ops_def)
  show "isCacheValid ''/w/a.c'' (fold cache_do demo_ops (empty_cache ''abc''))" by code_simp
qed

section \<open>Pruning\<close>

definition on_demand_rows :: "query_cache \<Rightarrow> int" where
  "on_demand_rows c = int (length (qc_definitions c) + length (qc_references c) + length (qc_hovers c)
     + length (qc_symbols c) + length (qc_workspace c) + length (qc_folds c) + length (qc_status c))"

lemma keep_since_next: "\<forall>(_, _, _, at) \<in> set t. at \<le> now \<Longrightarrow> keep_since (now + 1) t = []"
  by (auto simp: keep_since_def filter_empty_conv)

definition written_by :: "int \<Rightarrow> query_cache \<Rightarrow> bool" where
  "written_by now c \<longleftrightarrow>
     (\<forall>(_, _, _, at) \<in> set (qc_definitions c). at \<le> now) \<and> (\<forall>(_, _, _, at) \<in> set (qc_references c). at \<le> now)
     \<and> (\<forall>(_, _, _, at) \<in> set (qc_hovers c). at \<le> now) \<and> (\<forall>(_, _, _, at) \<in> set (qc_symbols c). at \<le> now)
     \<and> (\<forall>(_, _, _, at) \<in> set (qc_workspace c). at \<le> now) \<and> (\<forall>(_, _, _, at) \<in> set (qc_folds c). at \<le> now)
     \<and> (\<forall>(_, _, at) \<in> set (qc_status c). at \<le> now)"

text \<open>
  Pruning reports exactly the rows it removed and leaves the index alone; with no age it removes every
  on-demand row, those of the current second included.
\<close>

lemma prune_counts:
  assumes "lc_open (qc_index c)"
  shows "fst (pruneOlderThan now days c) = on_demand_rows c - on_demand_rows (snd (pruneOlderThan now days c))"
    and "qc_index (snd (pruneOlderThan now days c)) = qc_index c"
  using assms by (simp_all add: pruneOlderThan_def on_demand_rows_def pruned_def Let_def)

lemma prune_everything:
  assumes "lc_open (qc_index c)" and "days \<le> 0" and "written_by now c"
  shows "on_demand_rows (snd (pruneOlderThan now days c)) = 0"
proof -
  have "prune_cutoff now days = now + 1" using assms(2) by (simp add: prune_cutoff_def)
  moreover have "filter (\<lambda>(_, _, at). now + 1 \<le> at) (qc_status c) = []"
    using assms(3) by (auto simp: written_by_def filter_empty_conv)
  ultimately show ?thesis
    using assms(1,3) by (simp add: pruneOlderThan_def on_demand_rows_def written_by_def keep_since_next Let_def)
qed

end
