(* ===== verification/LspMessage.thy ===== *)
theory LspMessage
  imports Json Substring LspCache
begin

text \<open>
  The messages between the core's language client and a language server: the framing of
  \<^verbatim>\<open>src/core/src/lsp/LSPClient.cpp\<close> (\<^verbatim>\<open>sendRequest\<close>, \<^verbatim>\<open>parseMessages\<close>), the conversions of \<^verbatim>\<open>LSPTypes.hpp\<close> and the parsing
  of the answers. Printing and parsing JSON text is nlohmann's; so are the integer a floating-point literal converts
  to and the text of an exception. An exception of that library is its number.
\<close>

section \<open>Framing\<close>

definition crlf2 :: string where
  "crlf2 = [CHR 0x0D, CHR 0x0A, CHR 0x0D, CHR 0x0A]"

definition length_field :: string where
  "length_field = ''Content-Length: ''"

definition lsp_frame :: "string \<Rightarrow> string" where
  "lsp_frame content = length_field @ nat_text (length content) @ crlf2 @ content"

definition find_from :: "string \<Rightarrow> nat \<Rightarrow> string \<Rightarrow> nat option" where
  "find_from pat start s = (if start \<le> length s then map_option ((+) start) (find_sub pat (drop start s)) else None)"

text \<open>The end of a header is an empty line, in either style of line ends; the earlier one counts.\<close>

definition header_end :: "nat \<Rightarrow> string \<Rightarrow> nat option" where
  "header_end start s =
     (case (find_from crlf2 start s, find_from [CHR 0x0A, CHR 0x0A] start s) of
        (Some crlf, None) \<Rightarrow> Some (crlf + 4)
      | (Some crlf, Some lf) \<Rightarrow> Some (if crlf < lf then crlf + 4 else lf + 2)
      | (None, Some lf) \<Rightarrow> Some (lf + 2)
      | (None, None) \<Rightarrow> None)"

text \<open>
  One turn of the loop of \<^verbatim>\<open>parseMessages\<close> on the text that remains: it waits for more, \<^verbatim>\<open>std::stoull\<close> throws outside
  the loop's handler, or there is a message, with how far the loop moves on. That sum is a \<^verbatim>\<open>size_t\<close>.
\<close>

datatype lsp_scan =
    WaitForMore
  | NumberTooLarge
  | Message string nat

definition content_length_key :: string where
  "content_length_key = ''Content-Length:''"

definition next_message :: "string \<Rightarrow> lsp_scan" where
  "next_message s =
     (case find_sub content_length_key s of
        None \<Rightarrow> WaitForMore
      | Some cl \<Rightarrow>
          (let vstart = cl + 15 + length (takeWhile (\<lambda>c. c = CHR '' '' \<or> c = CHR 0x09) (drop (cl + 15) s));
               digits = takeWhile is_digit (drop vstart s);
               n = digits_value digits
           in if digits = [] then WaitForMore
              else if ulong_max < n then NumberTooLarge
              else case header_end (vstart + length digits) s of
                None \<Rightarrow> WaitForMore
              | Some h \<Rightarrow>
                  (let adv = (h + n) mod 2 ^ 64
                   in if length s < adv then WaitForMore else Message (take n (drop h s)) adv)))"

text \<open>
  The whole loop: the bodies of the messages, the text it keeps, and whether it was left by an exception. It may not
  end.
\<close>

partial_function (option) split_messages :: "string \<Rightarrow> (string list \<times> string \<times> bool) option" where
  "split_messages s =
     (if s = [] then Some ([], [], False)
      else case next_message s of
        WaitForMore \<Rightarrow> Some ([], s, False)
      | NumberTooLarge \<Rightarrow> Some ([], s, True)
      | Message body adv \<Rightarrow>
          Option.bind (split_messages (drop adv s)) (\<lambda>(bodies, rest, thrown). Some (body # bodies, rest, thrown)))"

text \<open>The buffer over several deliveries of the reading thread (\<^verbatim>\<open>handleOutput\<close>).\<close>

fun feed_output :: "string \<Rightarrow> string list \<Rightarrow> (string list \<times> string \<times> bool) option" where
  "feed_output buffer [] = Some ([], buffer, False)"
| "feed_output buffer (chunk # chunks) =
     Option.bind (split_messages (buffer @ chunk)) (\<lambda>(bodies, rest, thrown).
       if thrown then Some (bodies, rest, True)
       else Option.bind (feed_output rest chunks) (\<lambda>(bodies', rest', thrown'). Some (bodies @ bodies', rest', thrown')))"

subsection \<open>The framing is its own inverse\<close>

lemma digits_then: "(\<forall>c \<in> set d. is_digit c) \<Longrightarrow> t = [] \<or> \<not> is_digit (hd t) \<Longrightarrow> takeWhile is_digit (d @ t) = d"
  by (induction d) (cases t; simp)+

lemma length_field_facts:
  "length length_field = 16" "drop 15 length_field = [CHR '' '']" "drop 15 (length_field @ x) = CHR '' '' # x" "drop 16 (length_field @ x) = x"
  "find_sub content_length_key (length_field @ x) = Some 0" "length_field \<noteq> []"
  by (simp_all add: length_field_def content_length_key_def find_sub_Some starts_with_def)

text \<open>What the loop sees in a text that begins with a header line and a number.\<close>

lemma next_message_head:
  assumes "\<forall>c \<in> set d. is_digit c" and "d \<noteq> []" and "t = [] \<or> \<not> is_digit (hd t)" and "digits_value d \<le> ulong_max"
  shows "next_message (length_field @ d @ t) =
     (case header_end (16 + length d) (length_field @ d @ t) of
        None \<Rightarrow> WaitForMore
      | Some h \<Rightarrow>
          (if length (length_field @ d @ t) < (h + digits_value d) mod 2 ^ 64 then WaitForMore
           else Message (take (digits_value d) (drop h (length_field @ d @ t))) ((h + digits_value d) mod 2 ^ 64)))"
proof -
  let ?s = "length_field @ d @ t"
  have "\<not> is_digit CHR '' ''" "\<not> is_digit (CHR 0x09)" by (simp_all add: is_digit_def)
  then have "hd d \<noteq> CHR '' ''" "hd d \<noteq> CHR 0x09" using assms(1,2) by (metis hd_in_set)+
  then have blank: "takeWhile (\<lambda>c. c = CHR '' '' \<or> c = CHR 0x09) (drop (0 + 15) ?s) = [CHR '' '']"
    using assms(2) by (cases d) (simp_all add: length_field_facts)
  have digits: "takeWhile is_digit (drop (0 + 15 + length [CHR '' '']) ?s) = d"
    using digits_then [OF assms(1,3)] by (simp add: length_field_facts)
  have pos: "0 + 15 + length [CHR '' ''] + length d = 16 + length d" by simp
  show ?thesis
    unfolding next_message_def length_field_facts option.case Let_def blank digits pos
    using assms(2,4) by simp
qed

lemma next_message_bare: "next_message length_field = WaitForMore"
  by code_simp


lemma find_from_drop: "start \<le> length s \<Longrightarrow> find_from pat start s = map_option ((+) start) (find_sub pat (drop start s))"
  by (simp add: find_from_def)

lemma header_end_drop:
  "header_end (length u) (u @ t) =
     (case (find_sub crlf2 t, find_sub [CHR 0x0A, CHR 0x0A] t) of
        (Some crlf, None) \<Rightarrow> Some (length u + crlf + 4)
      | (Some crlf, Some lf) \<Rightarrow> Some (if crlf < lf then length u + crlf + 4 else length u + lf + 2)
      | (None, Some lf) \<Rightarrow> Some (length u + lf + 2)
      | (None, None) \<Rightarrow> None)"
  by (simp add: header_end_def find_from_drop split: option.split)

lemma header_end_whole: "header_end (length u) (u @ crlf2 @ b) = Some (length u + 4)"
proof -
  have "find_sub crlf2 (crlf2 @ b) = Some 0" by (rule find_sub_0) simp
  moreover have "find_sub [CHR 0x0A, CHR 0x0A] (crlf2 @ b) \<noteq> Some 0"
    by (simp add: find_sub_Some crlf2_def starts_with_def)
  ultimately show ?thesis unfolding header_end_drop by (simp split: option.split)
qed

lemma header_end_partial:
  assumes "strict_prefix t crlf2"
  shows "header_end (length u) (u @ t) = None"
proof -
  have "t \<in> {[], [CHR 0x0D], [CHR 0x0D, CHR 0x0A], [CHR 0x0D, CHR 0x0A, CHR 0x0D]}"
    using assms by (auto simp: crlf2_def strict_prefix_def prefix_Cons)
  then have "find_sub crlf2 t = None" "find_sub [CHR 0x0A, CHR 0x0A] t = None"
    by (auto simp: find_sub_None crlf2_def starts_with_def less_Suc_eq_le le_Suc_eq numeral_3_eq_3)
  then show ?thesis unfolding header_end_drop by simp
qed

lemma digits_value_prefix: "digits_value d \<le> digits_value (d @ e)"
proof (induction e rule: rev_induct)
  case (snoc c e)
  have "digits_value (d @ e @ [c]) = 10 * digits_value (d @ e) + digit_val c"
    using digits_value_snoc [of "d @ e" c] by simp
  then show ?case using snoc by simp
qed simp

lemma bare_fields: "n < 16 \<Longrightarrow> next_message (take n length_field) = WaitForMore"
proof -
  have "list_all (\<lambda>n. next_message (take n length_field) = WaitForMore) [0..<16]" by code_simp
  then show "n < 16 \<Longrightarrow> next_message (take n length_field) = WaitForMore" by (simp add: list_all_iff)
qed

definition sendable :: "string \<Rightarrow> bool" where
  "sendable b \<longleftrightarrow> length b < 2 ^ 63"

lemma nat_text_length: "n < 10 ^ k \<Longrightarrow> 0 < k \<Longrightarrow> length (nat_text n) \<le> k"
proof (induction n arbitrary: k rule: nat_text.induct)
  case (1 n)
  show ?case
  proof (cases "n < 10")
    case True
    then show ?thesis using 1(3) by (simp add: nat_text.simps Suc_leI)
  next
    case False
    then have "k \<noteq> Suc 0" using 1(2) by auto
    then obtain m where m: "k = Suc m" "0 < m" using 1(3) by (cases k) auto
    then have "n div 10 < 10 ^ m" using 1(2) by (simp add: less_mult_imp_div_less)
    then show ?thesis using 1(1) [OF False, of m] m False by (simp add: nat_text.simps [of n])
  qed
qed

lemma frame_advance:
  assumes "sendable b"
  shows "(16 + length (nat_text (length b)) + 4 + length b) mod 2 ^ 64 = length (lsp_frame b)"
    and "digits_value (nat_text (length b)) \<le> ulong_max"
proof -
  have "length (nat_text (length b)) \<le> 19"
    by (rule nat_text_length) (use assms in \<open>simp_all add: sendable_def\<close>)
  then show "(16 + length (nat_text (length b)) + 4 + length b) mod 2 ^ 64 = length (lsp_frame b)"
    using assms by (simp add: sendable_def lsp_frame_def length_field_facts crlf2_def)
  show "digits_value (nat_text (length b)) \<le> ulong_max"
    using assms by (simp add: sendable_def ulong_max_def)
qed

lemma frame_message:
  assumes "sendable b"
  shows "next_message (lsp_frame b @ rest) = Message b (length (lsp_frame b))"
proof -
  let ?d = "nat_text (length b)"
  have h: "header_end (16 + length ?d) (length_field @ ?d @ crlf2 @ b @ rest) = Some (16 + length ?d + 4)"
    using header_end_whole [of "length_field @ ?d" "b @ rest"] by (simp add: length_field_facts)
  have body: "drop (16 + length ?d + 4) (length_field @ ?d @ crlf2 @ b @ rest) = b @ rest"
    by (simp add: length_field_facts crlf2_def)
  have nd: "crlf2 @ b @ rest = [] \<or> \<not> is_digit (hd (crlf2 @ b @ rest))" by (simp add: crlf2_def is_digit_def)
  have "next_message (length_field @ ?d @ crlf2 @ b @ rest) = Message b (length (lsp_frame b))"
    unfolding next_message_head [OF nat_text_digits nat_text_nonempty nd frame_advance(2) [OF assms]] h option.case
      digits_value_nat_text frame_advance(1) [OF assms] body
    by (simp add: lsp_frame_def)
  then show ?thesis by (simp add: lsp_frame_def)
qed

lemma strict_prefix_same: "strict_prefix (u @ p) (u @ q) \<longleftrightarrow> strict_prefix p q"
  by (simp add: strict_prefix_def)

lemma strict_prefix_split:
  assumes "strict_prefix p (u @ v)" and "\<not> strict_prefix p u"
  obtains t where "p = u @ t" "strict_prefix t v"
proof -
  have "prefix u p"
    using assms prefix_same_cases [of p "u @ v" u] by (auto simp: strict_prefix_def)
  then obtain t where "p = u @ t" by (auto simp: prefix_def)
  then show ?thesis using that assms(1) by (simp add: strict_prefix_same)
qed

lemma partial_frame:
  assumes "sendable b" and "strict_prefix p (lsp_frame b)"
  shows "next_message p = WaitForMore"
proof (cases "length p < 16")
  case True
  have "p = take (length p) (lsp_frame b)"
    using assms(2) by (metis strict_prefix_def prefix_def append_eq_conv_conj)
  then have "p = take (length p) length_field" using True by (simp add: lsp_frame_def length_field_facts)
  then show ?thesis using bare_fields [OF True] by metis
next
  case False
  let ?d = "nat_text (length b)"
  have "prefix length_field p"
    using False assms(2) prefix_length_prefix [of length_field "lsp_frame b" p]
    by (simp add: strict_prefix_def lsp_frame_def length_field_facts)
  then obtain q where p: "p = length_field @ q" by (auto simp: prefix_def)
  then have q: "strict_prefix q (?d @ crlf2 @ b)"
    using assms(2) by (simp add: lsp_frame_def strict_prefix_same)
  show ?thesis
  proof (cases "strict_prefix q ?d")
    case True
    then obtain e where e: "?d = q @ e" by (auto simp: prefix_def strict_prefix_def)
    then have d: "\<forall>c \<in> set q. is_digit c" "digits_value q \<le> ulong_max"
      using nat_text_digits [of "length b"] digits_value_prefix [of q e] frame_advance(2) [OF assms(1)] by auto
    show ?thesis
    proof (cases "q = []")
      case False
      have "header_end (16 + length q) (length_field @ q @ []) = None"
        using header_end_partial [of "[]" "length_field @ q"] by (simp add: length_field_facts crlf2_def)
      then show ?thesis using next_message_head [OF d(1) False _ d(2), of "[]"] p by simp
    qed (simp add: p next_message_bare)
  next
    case False
    then obtain t where t: "q = ?d @ t" "strict_prefix t (crlf2 @ b)"
      using strict_prefix_split [OF q] by blast
    have pt: "p = length_field @ ?d @ t" using p t(1) by simp
    have nd: "t = [] \<or> \<not> is_digit (hd t)"
      using t(2) by (cases t) (auto simp: crlf2_def strict_prefix_def is_digit_def)
    show ?thesis
    proof (cases "strict_prefix t crlf2")
      case True
      then have "header_end (16 + length ?d) (length_field @ ?d @ t) = None"
        using header_end_partial [OF True, of "length_field @ ?d"] by (simp add: length_field_facts)
      then show ?thesis
        unfolding pt next_message_head [OF nat_text_digits nat_text_nonempty nd frame_advance(2) [OF assms(1)]] by simp
    next
      case False
      then obtain b' where b': "t = crlf2 @ b'" "strict_prefix b' b"
        using strict_prefix_split [OF t(2)] by blast
      have "length b' < length b" using b'(2) by (rule prefix_length_less)
      then have "length (length_field @ ?d @ t) < length (lsp_frame b)"
        by (simp add: b'(1) lsp_frame_def)
      moreover have "header_end (16 + length ?d) (length_field @ ?d @ t) = Some (16 + length ?d + 4)"
        using header_end_whole [of "length_field @ ?d" b'] by (simp add: length_field_facts b'(1))
      ultimately show ?thesis
        unfolding pt next_message_head [OF nat_text_digits nat_text_nonempty nd frame_advance(2) [OF assms(1)]]
        using frame_advance(1) [OF assms(1)] by simp
    qed
  qed
qed

definition lsp_frames :: "string list \<Rightarrow> string" where
  "lsp_frames bs = concat (map lsp_frame bs)"

lemma lsp_frames_simps [simp]:
  "lsp_frames [] = []" "lsp_frames (b # bs) = lsp_frame b @ lsp_frames bs"
  "lsp_frames (bs @ cs) = lsp_frames bs @ lsp_frames cs"
  by (simp_all add: lsp_frames_def)

lemma lsp_frame_nonempty [simp]: "lsp_frame b \<noteq> []"
  by (simp add: lsp_frame_def length_field_facts)

text \<open>The text of some frames and the beginning of one more.\<close>

lemma split_frames:
  assumes "list_all sendable bs" and "p = [] \<or> (\<exists>b. sendable b \<and> strict_prefix p (lsp_frame b))"
  shows "split_messages (lsp_frames bs @ p) = Some (bs, p, False)"
  using assms(1)
proof (induction bs)
  case Nil
  then show ?case using assms(2) partial_frame by (subst split_messages.simps) auto
next
  case (Cons b bs)
  then have "next_message (lsp_frame b @ lsp_frames bs @ p) = Message b (length (lsp_frame b))"
    using frame_message by simp
  then show ?case using Cons by (subst split_messages.simps) simp
qed

lemma prefix_frames:
  assumes "prefix s (lsp_frames bs)"
  obtains us vs p where "bs = us @ vs" "s = lsp_frames us @ p"
    "p = [] \<and> vs = [] \<or> (\<exists>b ws. vs = b # ws \<and> strict_prefix p (lsp_frame b))"
  using assms
proof (induction bs arbitrary: s thesis)
  case Nil
  then show ?case by force
next
  case (Cons b bs)
  show ?case
  proof (cases "strict_prefix s (lsp_frame b)")
    case True
    then show ?thesis using Cons.prems(1) [of "[]" "b # bs" s] by simp
  next
    case False
    then have "prefix (lsp_frame b) s"
      using Cons.prems(2) prefix_same_cases [of s "lsp_frame b @ lsp_frames bs" "lsp_frame b"]
      by (auto simp: strict_prefix_def)
    then obtain t where t: "s = lsp_frame b @ t" by (auto simp: prefix_def)
    then have t2: "prefix t (lsp_frames bs)" using Cons.prems(2) by simp
    obtain us vs p where "bs = us @ vs" "t = lsp_frames us @ p"
      "p = [] \<and> vs = [] \<or> (\<exists>b ws. vs = b # ws \<and> strict_prefix p (lsp_frame b))"
      using Cons.IH [OF _ t2] by blast
    then show ?thesis using Cons.prems(1) [of "b # us" vs p] t by simp
  qed
qed

lemma feed_frames:
  assumes "list_all sendable bs" and "buffer @ concat chunks = lsp_frames bs"
    and "buffer = [] \<or> (\<exists>b cs. bs = b # cs \<and> strict_prefix buffer (lsp_frame b))"
  shows "feed_output buffer chunks = Some (bs, [], False)"
  using assms
proof (induction chunks arbitrary: buffer bs)
  case Nil
  have "bs = []"
  proof (rule ccontr)
    assume "bs \<noteq> []"
    then obtain b cs where b: "bs = b # cs" by (cases bs) auto
    then have "buffer = lsp_frame b @ lsp_frames cs" using Nil.prems(2) by simp
    moreover have "buffer = [] \<or> strict_prefix buffer (lsp_frame b)" using Nil.prems(3) b by auto
    ultimately show False by (auto simp: strict_prefix_def)
  qed
  then show ?case using Nil.prems(2) by simp
next
  case (Cons c chunks)
  have "(buffer @ c) @ concat chunks = lsp_frames bs" using Cons.prems(2) by simp
  then have pre: "prefix (buffer @ c) (lsp_frames bs)" by (metis prefixI)
  obtain us vs p where p: "bs = us @ vs" "buffer @ c = lsp_frames us @ p"
    "p = [] \<and> vs = [] \<or> (\<exists>b ws. vs = b # ws \<and> strict_prefix p (lsp_frame b))"
    using prefix_frames [OF pre] by blast
  have fits: "list_all sendable us" "list_all sendable vs" using Cons.prems(1) p(1) by simp_all
  have "p = [] \<or> (\<exists>b. sendable b \<and> strict_prefix p (lsp_frame b))" using p(3) fits(2) by auto
  then have split: "split_messages (buffer @ c) = Some (us, p, False)"
    unfolding p(2) by (rule split_frames [OF fits(1)])
  have "lsp_frames us @ p @ concat chunks = lsp_frames us @ lsp_frames vs"
    using Cons.prems(2) p(1,2) by (metis append.assoc concat.simps(2) lsp_frames_simps(3))
  then have "p @ concat chunks = lsp_frames vs" by simp
  then have "feed_output p chunks = Some (vs, [], False)"
    using Cons.IH [OF fits(2)] p(3) by blast
  then show ?case using split p(1) by simp
qed

text \<open>
  C24. Whatever pieces the language server's output arrives in, the client takes out exactly the messages that were
  framed, in order and whole, and keeps nothing: the reader waits for the rest of a message cut anywhere, in its
  header or in its body.
\<close>

theorem lsp_stream_roundtrip:
  assumes "list_all sendable bodies" and "concat chunks = lsp_frames bodies"
  shows "feed_output [] chunks = Some (bodies, [], False)"
  by (rule feed_frames) (use assms in auto)

lemma lsp_stream_roundtrip_witness:
  "feed_output [] [''Content-Len'', ''gth: 2'', [CHR 0x0D], [CHR 0x0A, CHR 0x0D, CHR 0x0A] @ ''{}Content-'', ''Length: 0'' @ crlf2]
   = Some ([''{}'', []], [], False)"
proof (rule lsp_stream_roundtrip)
  show "list_all sendable [''{}'', []]" by (simp add: sendable_def)
  show "concat [''Content-Len'', ''gth: 2'', [CHR 0x0D], [CHR 0x0A, CHR 0x0D, CHR 0x0A] @ ''{}Content-'', ''Length: 0'' @ crlf2]
      = lsp_frames [''{}'', []]"
    by code_simp
qed

text \<open>
  A number near the top of \<^verbatim>\<open>size_t\<close> makes the sum wrap: the loop moves on by nothing and takes the same message
  for ever.
\<close>

definition wrapping_number :: string where
  "wrapping_number = ''18446744073709551576''"

definition wrapping_header :: string where
  "wrapping_header = length_field @ wrapping_number @ crlf2"

lemma wrapping_number_facts:
  "digits_value wrapping_number = 18446744073709551576" "length wrapping_number = 20" "\<forall>c \<in> set wrapping_number. is_digit c"
  "wrapping_number \<noteq> []"
  by (simp_all add: wrapping_number_def digits_value_def digit_val_def is_digit_def)

lemma wrapping_next: "next_message wrapping_header = Message [] 0"
proof -
  have h: "header_end (16 + length wrapping_number) (length_field @ wrapping_number @ crlf2) = Some 40"
    using header_end_whole [of "length_field @ wrapping_number" "[]"]
    by (simp add: length_field_facts wrapping_number_facts)
  have nd: "crlf2 = [] \<or> \<not> is_digit (hd crlf2)" by (simp add: crlf2_def is_digit_def)
  have len: "length (length_field @ wrapping_number @ crlf2) = 40"
    by (simp add: length_field_facts wrapping_number_facts crlf2_def)
  have fits: "digits_value wrapping_number \<le> ulong_max"
    by (simp add: wrapping_number_facts ulong_max_def)
  have adv: "(40 + 18446744073709551576 :: nat) mod 2 ^ 64 = 0" by simp
  show ?thesis
    unfolding wrapping_header_def next_message_head [OF wrapping_number_facts(3,4) nd fits] h option.case
      wrapping_number_facts(1) adv
    using len by simp
qed

lemma reader_wedged: "split_messages wrapping_header = None"
proof (rule ccontr)
  assume "split_messages wrapping_header \<noteq> None"
  then obtain r where r: "split_messages wrapping_header = Some r" by blast
  have "wrapping_header \<noteq> wrapping_header"
  proof (rule split_messages.raw_induct [where P = "\<lambda>s r. s \<noteq> wrapping_header", OF _ r], rule notI)
    fix f s r
    assume IH: "\<And>x y. f x = Some y \<Longrightarrow> x \<noteq> wrapping_header" and s: "s = wrapping_header"
      and got: "(if s = [] then Some ([], [], False)
        else case next_message s of WaitForMore \<Rightarrow> Some ([], s, False) | NumberTooLarge \<Rightarrow> Some ([], s, True)
          | Message body adv \<Rightarrow>
              Option.bind (f (drop adv s)) (\<lambda>(bodies, rest, thrown). Some (body # bodies, rest, thrown))) = Some r"
    have "s \<noteq> []" by (simp add: s wrapping_header_def length_field_facts)
    then have "Option.bind (f (drop 0 s)) (\<lambda>(bodies, rest, thrown). Some ([] # bodies, rest, thrown)) = Some r"
      using got wrapping_next by (simp add: s)
    then obtain r' where "f (drop 0 s) = Some r'" by (cases "f (drop 0 s)") auto
    then have "drop 0 s \<noteq> wrapping_header" by (rule IH)
    then show False using s by simp
  qed
  then show False by blast
qed

section \<open>Reading JSON values\<close>

type_synonym 'a jtry = "int + 'a"

record lsp_lib =
  ll_parse :: "string \<Rightarrow> json option"
  ll_dump :: "json \<Rightarrow> string"
  ll_trunc :: "string \<Rightarrow> int"
  ll_what :: "int \<Rightarrow> string"

text \<open>\<^verbatim>\<open>get<int>()\<close> converts any number and a boolean; \<^verbatim>\<open>get<std::string>()\<close> takes a string only.\<close>

fun jget_int :: "lsp_lib \<Rightarrow> json \<Rightarrow> int jtry" where
  "jget_int lib (JInt i) = Inr (to_int32 i)"
| "jget_int lib (JFloat s) = Inr (ll_trunc lib s)"
| "jget_int lib (JBool b) = Inr (if b then 1 else 0)"
| "jget_int lib _ = Inl 302"

definition jget_str :: "json \<Rightarrow> string jtry" where
  "jget_str j = (case jstring j of Some s \<Rightarrow> Inr s | None \<Rightarrow> Inl 302)"

definition jat :: "string \<Rightarrow> json \<Rightarrow> json jtry" where
  "jat k j = (if \<not> is_jobject j then Inl 304 else case jfind k j of None \<Rightarrow> Inl 403 | Some v \<Rightarrow> Inr v)"

definition jvalue_str :: "string \<Rightarrow> string \<Rightarrow> json \<Rightarrow> string jtry" where
  "jvalue_str k dflt j = (if \<not> is_jobject j then Inl 306 else case jfind k j of None \<Rightarrow> Inr dflt | Some v \<Rightarrow> jget_str v)"

definition jvalue_int :: "lsp_lib \<Rightarrow> string \<Rightarrow> int \<Rightarrow> json \<Rightarrow> int jtry" where
  "jvalue_int lib k dflt j = (if \<not> is_jobject j then Inl 306 else case jfind k j of None \<Rightarrow> Inr dflt | Some v \<Rightarrow> jget_int lib v)"

fun is_jnumber :: "json \<Rightarrow> bool" where
  "is_jnumber (JInt _) = True"
| "is_jnumber (JFloat _) = True"
| "is_jnumber _ = False"

fun try_all :: "('a \<Rightarrow> 'b jtry) \<Rightarrow> 'a list \<Rightarrow> 'b list jtry" where
  "try_all f [] = Inr []"
| "try_all f (x # xs) = bindr (f x) (\<lambda>y. bindr (try_all f xs) (\<lambda>ys. Inr (y # ys)))"

lemma try_all_cong [fundef_cong]:
  "xs = ys \<Longrightarrow> (\<And>x. x \<in> set ys \<Longrightarrow> f x = g x) \<Longrightarrow> try_all f xs = try_all g ys"
  by (induction xs arbitrary: ys) auto

lemma bindr_cong [fundef_cong]:
  "x = y \<Longrightarrow> (\<And>a. y = Inr a \<Longrightarrow> f a = g a) \<Longrightarrow> bindr x f = bindr y g"
  by (cases y) auto

lemma try_all_Inr: "try_all f xs = Inr ys \<longleftrightarrow> list_all2 (\<lambda>x y. f x = Inr y) xs ys"
  by (induction xs arbitrary: ys) (auto simp: bindr_Inr list_all2_Cons1)

section \<open>The types of the protocol\<close>

definition position_of :: "lsp_lib \<Rightarrow> json \<Rightarrow> position jtry" where
  "position_of lib j =
     bindr (jat ''line'' j) (\<lambda>l. bindr (jget_int lib l) (\<lambda>line.
     bindr (jat ''character'' j) (\<lambda>c. bindr (jget_int lib c) (\<lambda>ch. Inr (line, ch)))))"

definition range_of :: "lsp_lib \<Rightarrow> json \<Rightarrow> lsp_range jtry" where
  "range_of lib j =
     bindr (jat ''start'' j) (\<lambda>s. bindr (position_of lib s) (\<lambda>start.
     bindr (jat ''end'' j) (\<lambda>e. bindr (position_of lib e) (\<lambda>stop. Inr (start, stop)))))"

definition location_of :: "lsp_lib \<Rightarrow> json \<Rightarrow> location jtry" where
  "location_of lib j =
     bindr (jat ''uri'' j) (\<lambda>u. bindr (jget_str u) (\<lambda>uri.
     bindr (jat ''range'' j) (\<lambda>r. bindr (range_of lib r) (\<lambda>rng. Inr (uri, rng)))))"

definition position_json :: "position \<Rightarrow> json" where
  "position_json p = JObj [(''line'', JInt (fst p)), (''character'', JInt (snd p))]"

definition range_json :: "lsp_range \<Rightarrow> json" where
  "range_json r = JObj [(''start'', position_json (fst r)), (''end'', position_json (snd r))]"

definition location_json :: "location \<Rightarrow> json" where
  "location_json l = JObj [(''uri'', JStr (fst l)), (''range'', range_json (snd l))]"

text \<open>An error is its number, 0 for none.\<close>

record lsp_error =
  le_code :: int
  le_message :: string

definition not_initialized :: int where "not_initialized = - 32002"

definition method_not_found :: int where "method_not_found = - 32601"

definition internal_error :: int where "internal_error = - 32603"

record lsp_response =
  rs_id :: "int option"
  rs_result :: "json option"
  rs_error :: "lsp_error option"

text \<open>
  Reading a response. \<^verbatim>\<open>j["error"]["code"]\<close> on a constant value throws when that is not an object, and has no defined
  behaviour when the key is missing.
\<close>

datatype 'a outcome =
    Done 'a
  | Raised int
  | Undefined

definition key_of_const :: "string \<Rightarrow> json \<Rightarrow> json outcome" where
  "key_of_const k j = (if \<not> is_jobject j then Raised 305 else case jfind k j of None \<Rightarrow> Undefined | Some v \<Rightarrow> Done v)"

fun and_then :: "'a outcome \<Rightarrow> ('a \<Rightarrow> 'b outcome) \<Rightarrow> 'b outcome" where
  "and_then (Done a) f = f a"
| "and_then (Raised n) f = Raised n"
| "and_then Undefined f = Undefined"

definition lift_try :: "'a jtry \<Rightarrow> 'a outcome" where
  "lift_try x = (case x of Inl n \<Rightarrow> Raised n | Inr a \<Rightarrow> Done a)"

definition error_of :: "lsp_lib \<Rightarrow> json \<Rightarrow> lsp_error outcome" where
  "error_of lib e =
     and_then (key_of_const ''code'' e) (\<lambda>c. and_then (lift_try (jget_int lib c)) (\<lambda>code.
     and_then (key_of_const ''message'' e) (\<lambda>m. and_then (lift_try (jget_str m)) (\<lambda>msg.
       Done \<lparr>le_code = code, le_message = msg\<rparr>))))"

definition response_of :: "lsp_lib \<Rightarrow> json \<Rightarrow> lsp_response outcome" where
  "response_of lib j =
     and_then (case jfind ''jsonrpc'' j of None \<Rightarrow> Done [] | Some v \<Rightarrow> lift_try (jget_str v)) (\<lambda>_.
     and_then (case jfind ''id'' j of
                 None \<Rightarrow> Done None
               | Some v \<Rightarrow> if v = JNull then Done None else and_then (lift_try (jget_int lib v)) (\<lambda>i. Done (Some i))) (\<lambda>i.
     and_then (case jfind ''error'' j of
                 None \<Rightarrow> Done None
               | Some e \<Rightarrow> and_then (error_of lib e) (\<lambda>err. Done (Some err))) (\<lambda>err.
       Done \<lparr>rs_id = i, rs_result = jfind ''result'' j, rs_error = err\<rparr>)))"

definition params_field :: "json \<Rightarrow> (string \<times> json) list" where
  "params_field params = (if params = JNull then [] else [(''params'', params)])"

definition request_json :: "int \<Rightarrow> string \<Rightarrow> json \<Rightarrow> json" where
  "request_json i method params =
     JObj ([(''jsonrpc'', JStr ''2.0''), (''id'', JInt i), (''method'', JStr method)] @ params_field params)"

definition notification_json :: "string \<Rightarrow> json \<Rightarrow> json" where
  "notification_json method params = JObj ([(''jsonrpc'', JStr ''2.0''), (''method'', JStr method)] @ params_field params)"

section \<open>Answers\<close>

text \<open>
  A location is in the standard form or a link (\<^verbatim>\<open>targetUri\<close>, \<^verbatim>\<open>targetRange\<close>); what cannot be read is left out. The last
  attempt of \<^verbatim>\<open>parseLocation\<close> can only throw.
\<close>

definition parse_location :: "lsp_lib \<Rightarrow> json \<Rightarrow> location option" where
  "parse_location lib j =
     (case (if jhas ''uri'' j \<and> jhas ''range'' j then location_of lib j
            else if jhas ''targetUri'' j \<and> jhas ''targetRange'' j
            then bindr (jat ''targetUri'' j) (\<lambda>u. bindr (jget_str u) (\<lambda>uri.
                 bindr (jat ''targetRange'' j) (\<lambda>r. bindr (range_of lib r) (\<lambda>rng. Inr (uri, rng)))))
            else location_of lib j) of
        Inl _ \<Rightarrow> None
      | Inr l \<Rightarrow> Some l)"

fun parse_locations :: "lsp_lib \<Rightarrow> json \<Rightarrow> location list" where
  "parse_locations lib (JArr items) = List.map_filter (parse_location lib) items"
| "parse_locations lib (JObj kvs) = (case parse_location lib (JObj kvs) of None \<Rightarrow> [] | Some l \<Rightarrow> [l])"
| "parse_locations lib _ = []"

record lsp_hover =
  ho_contents :: string
  ho_range :: "lsp_range option"

definition hover_item :: "json \<Rightarrow> string jtry" where
  "hover_item item =
     (case jstring item of
        Some s \<Rightarrow> Inr (s @ [CHR 0x0A])
      | None \<Rightarrow> (case jfind ''value'' item of
          None \<Rightarrow> Inr []
        | Some v \<Rightarrow> bindr (jget_str v) (\<lambda>s. Inr (s @ [CHR 0x0A]))))"

fun hover_contents :: "json \<Rightarrow> string jtry" where
  "hover_contents (JStr s) = Inr s"
| "hover_contents (JObj kvs) = (case jfind ''value'' (JObj kvs) of None \<Rightarrow> Inr [] | Some v \<Rightarrow> jget_str v)"
| "hover_contents (JArr items) = bindr (try_all hover_item items) (\<lambda>ts. Inr (concat ts))"
| "hover_contents _ = Inr []"

definition parse_hover :: "lsp_lib \<Rightarrow> json \<Rightarrow> lsp_hover option jtry" where
  "parse_hover lib j =
     (if j = JNull then Inr None
      else bindr (case jfind ''contents'' j of None \<Rightarrow> Inr [] | Some c \<Rightarrow> hover_contents c) (\<lambda>text.
        Inr (Some \<lparr>ho_contents = text,
                   ho_range = (case jfind ''range'' j of
                                 None \<Rightarrow> None
                               | Some r \<Rightarrow> (case range_of lib r of Inl _ \<Rightarrow> None | Inr rng \<Rightarrow> Some rng))\<rparr>)))"

text \<open>The numbers of the enumeration \<^verbatim>\<open>SymbolKind\<close>; any other is a variable.\<close>

definition symbol_kind :: "int \<Rightarrow> int" where
  "symbol_kind i = (if 1 \<le> i \<and> i \<le> 26 then i else 13)"

datatype doc_symbol =
  DocSymbol (ds_name: string) (ds_detail: string) (ds_kind: int) (ds_range: lsp_range) (ds_selection: lsp_range)
    (ds_children: "doc_symbol list")

definition no_range :: lsp_range where
  "no_range = ((0, 0), (0, 0))"

lemma pair_size: "(k, v) \<in> set kvs \<Longrightarrow> size v < Suc (size_list (size_prod (\<lambda>_. 0) size) kvs)"
  by (induction kvs) auto

lemma jfind_size: "jfind k j = Some v \<Longrightarrow> size v < size j"
  by (cases j) (auto dest!: map_of_SomeD pair_size)

lemma children_size [termination_simp]:
  assumes "array_field k j = Some cs" and "x \<in> set cs"
  shows "size x < size j"
proof -
  obtain v where v: "jfind k j = Some v" "jarray v = Some cs"
    using assms(1) by (auto simp: array_field_def bind_eq_Some_conv)
  then have "v = JArr cs" by (cases v) auto
  then have "size x < size v" using assms(2) by (simp add: less_Suc_eq_le size_list_estimation')
  then show ?thesis using jfind_size [OF v(1)] by simp
qed

fun parse_symbol :: "lsp_lib \<Rightarrow> json \<Rightarrow> doc_symbol jtry" where
  "parse_symbol lib j =
     bindr (jvalue_str ''name'' [] j) (\<lambda>n.
     bindr (jvalue_str ''detail'' [] j) (\<lambda>d.
     bindr (jvalue_int lib ''kind'' 13 j) (\<lambda>k.
     bindr (case jfind ''range'' j of None \<Rightarrow> Inr no_range | Some r \<Rightarrow> range_of lib r) (\<lambda>rng.
     bindr (case jfind ''selectionRange'' j of None \<Rightarrow> Inr rng | Some r \<Rightarrow> range_of lib r) (\<lambda>sel.
     bindr (case array_field ''children'' j of None \<Rightarrow> Inr [] | Some cs \<Rightarrow> try_all (parse_symbol lib) cs) (\<lambda>cs.
       Inr (DocSymbol n d (symbol_kind k) rng sel cs)))))))"

declare parse_symbol.simps [simp del]

text \<open>An item with a range is a symbol with its children; one with a location is a flat symbol; others are skipped.\<close>

definition flat_symbol :: "lsp_lib \<Rightarrow> json \<Rightarrow> json \<Rightarrow> doc_symbol jtry" where
  "flat_symbol lib j loc =
     bindr (jvalue_str ''name'' [] j) (\<lambda>n.
     bindr (jvalue_int lib ''kind'' 13 j) (\<lambda>k.
     bindr (case jfind ''range'' loc of None \<Rightarrow> Inr no_range | Some r \<Rightarrow> range_of lib r) (\<lambda>rng.
       Inr (DocSymbol n [] (symbol_kind k) rng rng []))))"

definition outline_item :: "lsp_lib \<Rightarrow> json \<Rightarrow> doc_symbol list jtry" where
  "outline_item lib j =
     (if jhas ''range'' j then bindr (parse_symbol lib j) (\<lambda>s. Inr [s])
      else case jfind ''location'' j of
        Some loc \<Rightarrow> bindr (flat_symbol lib j loc) (\<lambda>s. Inr [s])
      | None \<Rightarrow> Inr [])"

definition parse_document_symbols :: "lsp_lib \<Rightarrow> json \<Rightarrow> doc_symbol list jtry" where
  "parse_document_symbols lib j =
     (case jarray j of
        None \<Rightarrow> Inr []
      | Some items \<Rightarrow> bindr (try_all (outline_item lib) items) (\<lambda>sss. Inr (concat sss)))"

record symbol_info =
  si_name :: string
  si_kind :: int
  si_location :: location
  si_container :: string

definition symbol_info_of :: "lsp_lib \<Rightarrow> json \<Rightarrow> symbol_info jtry" where
  "symbol_info_of lib j =
     bindr (jvalue_str ''name'' [] j) (\<lambda>n.
     bindr (jvalue_int lib ''kind'' 13 j) (\<lambda>k.
     bindr (jvalue_str ''containerName'' [] j) (\<lambda>c.
     bindr (case jfind ''location'' j of None \<Rightarrow> Inr ([], no_range) | Some l \<Rightarrow> location_of lib l) (\<lambda>l.
       Inr \<lparr>si_name = n, si_kind = symbol_kind k, si_location = l, si_container = c\<rparr>))))"

definition parse_symbol_information :: "lsp_lib \<Rightarrow> json \<Rightarrow> symbol_info list jtry" where
  "parse_symbol_information lib j =
     (case jarray j of None \<Rightarrow> Inr [] | Some items \<Rightarrow> try_all (symbol_info_of lib) items)"

datatype fold_kind = FoldComment | FoldImports | FoldRegion

fun foldingRangeKindToString :: "fold_kind \<Rightarrow> string" where
  "foldingRangeKindToString FoldComment = ''comment''"
| "foldingRangeKindToString FoldImports = ''imports''"
| "foldingRangeKindToString FoldRegion = ''region''"

definition fold_kind_of :: "string \<Rightarrow> fold_kind option" where
  "fold_kind_of s =
     (if s = ''comment'' then Some FoldComment
      else if s = ''imports'' then Some FoldImports
      else if s = ''region'' then Some FoldRegion
      else None)"

record lsp_folding =
  fo_start :: int
  fo_end :: int
  fo_kind :: "fold_kind option"

text \<open>A field of another type is left at its default.\<close>

definition number_field :: "lsp_lib \<Rightarrow> string \<Rightarrow> json \<Rightarrow> int" where
  "number_field lib k j =
     (case jfind k j of
        Some v \<Rightarrow> (if is_jnumber v then (case jget_int lib v of Inr i \<Rightarrow> i | Inl _ \<Rightarrow> 0) else 0)
      | None \<Rightarrow> 0)"

definition folding_of :: "lsp_lib \<Rightarrow> json \<Rightarrow> lsp_folding" where
  "folding_of lib j =
     \<lparr>fo_start = number_field lib ''startLine'' j, fo_end = number_field lib ''endLine'' j,
      fo_kind = Option.bind (str_field ''kind'' j) fold_kind_of\<rparr>"

definition parse_foldings :: "lsp_lib \<Rightarrow> json \<Rightarrow> lsp_folding list" where
  "parse_foldings lib j = (case jarray j of None \<Rightarrow> [] | Some items \<Rightarrow> map (folding_of lib) items)"

lemma fold_kind_inverse [simp]: "fold_kind_of (foldingRangeKindToString k) = Some k"
  by (cases k) (simp_all add: fold_kind_of_def)

lemma symbol_kind_bounds: "1 \<le> symbol_kind i \<and> symbol_kind i \<le> 26"
  by (simp add: symbol_kind_def)

section \<open>What is read back\<close>

definition int32 :: "int \<Rightarrow> bool" where
  "int32 i \<longleftrightarrow> - (2 ^ 31) \<le> i \<and> i < 2 ^ 31"

definition int32_position :: "position \<Rightarrow> bool" where
  "int32_position p \<longleftrightarrow> int32 (fst p) \<and> int32 (snd p)"

definition int32_range :: "lsp_range \<Rightarrow> bool" where
  "int32_range r \<longleftrightarrow> int32_position (fst r) \<and> int32_position (snd r)"

lemma position_roundtrip: "int32_position p \<Longrightarrow> position_of lib (position_json p) = Inr p"
  by (simp add: position_of_def position_json_def jat_def int32_position_def int32_def to_int32_small)

lemma range_roundtrip: "int32_range r \<Longrightarrow> range_of lib (range_json r) = Inr r"
  by (simp add: range_of_def range_json_def jat_def int32_range_def position_roundtrip)

lemma location_roundtrip: "int32_range (snd l) \<Longrightarrow> location_of lib (location_json l) = Inr l"
  by (simp add: location_of_def location_json_def jat_def jget_str_def range_roundtrip)

lemma locations_roundtrip:
  "list_all (int32_range \<circ> snd) ls \<Longrightarrow> parse_locations lib (JArr (map location_json ls)) = ls"
proof (induction ls)
  case (Cons l ls)
  have "jhas ''uri'' (location_json l)" "jhas ''range'' (location_json l)"
    by (simp_all add: location_json_def jhas_def)
  then have "parse_location lib (location_json l) = Some l"
    using Cons.prems by (simp add: parse_location_def location_roundtrip)
  then show ?case using Cons by (simp add: map_filter_simps)
qed (simp add: map_filter_simps)

end
