(* ===== verification/LspWorkspace.thy ===== *)
theory LspWorkspace
  imports LspMessage
begin

text \<open>
  Preparing a workspace for its language server (\<^verbatim>\<open>src/core/src/lsp/LSPWorkspace.cpp\<close>): the search for a compile
  database or an index, the generation of a database with cmake, and the notes about what is missing.

  The machine is a state \<open>'w\<close> that a child process may change; what the file system, \<^verbatim>\<open>cmake\<close> and the environment
  say is a record of functions of it.
\<close>

section \<open>The machine\<close>

datatype language =
    LangUnknown | LangRust | LangPython | LangJavaScript | LangTypeScript | LangGo | LangCpp | LangC | LangSwift

fun language_number :: "language \<Rightarrow> int" where
  "language_number LangUnknown = 0"
| "language_number LangRust = 1"
| "language_number LangPython = 2"
| "language_number LangJavaScript = 3"
| "language_number LangTypeScript = 4"
| "language_number LangGo = 5"
| "language_number LangCpp = 6"
| "language_number LangC = 7"
| "language_number LangSwift = 8"

record 'w machine =
  ma_file :: "'w \<Rightarrow> string \<Rightarrow> bool"
  ma_dir :: "'w \<Rightarrow> string \<Rightarrow> bool"
  ma_entries :: "'w \<Rightarrow> string \<Rightarrow> (string \<times> bool) list"
  ma_content :: "'w \<Rightarrow> string \<Rightarrow> string option"
  ma_written :: "'w \<Rightarrow> string \<Rightarrow> int"
  ma_executable :: "'w \<Rightarrow> string \<Rightarrow> bool"
  ma_mkdirs :: "string \<Rightarrow> 'w \<Rightarrow> 'w"
  ma_run :: "string list \<Rightarrow> string \<Rightarrow> int \<Rightarrow> 'w \<Rightarrow> int \<times> 'w"
  ma_path :: "string option"
  ma_home :: "string option"

text \<open>\<^verbatim>\<open>operator/\<close> of two paths, the second relative.\<close>

definition sub_path :: "string \<Rightarrow> string \<Rightarrow> string" where
  "sub_path dir name =
     (if dir = [] then name else if last dir = CHR ''/'' then dir @ name else dir @ CHR ''/'' # name)"

text \<open>\<open>ma_run\<close> is the child under its deadline: its exit status, or -1 when it was killed or did not exit.\<close>

definition runBounded :: "'w machine \<Rightarrow> string list \<Rightarrow> string \<Rightarrow> int \<Rightarrow> 'w \<Rightarrow> int \<times> 'w" where
  "runBounded m argv dir timeout w = (if argv = [] \<or> timeout \<le> 0 then (- 1, w) else ma_run m argv dir timeout w)"

definition onPath :: "'w machine \<Rightarrow> 'w \<Rightarrow> string \<Rightarrow> bool" where
  "onPath m w exe \<longleftrightarrow>
     list_ex (\<lambda>dir. dir \<noteq> [] \<and> ma_executable m w (dir @ CHR ''/'' # exe))
       (split_on CHR '':'' (case ma_path m of Some p \<Rightarrow> p | None \<Rightarrow> ''/usr/local/bin:/usr/bin:/bin''))"

section \<open>Compile databases\<close>

definition compile_db :: "string \<Rightarrow> string" where
  "compile_db dir = sub_path dir ''compile_commands.json''"

text \<open>The directories one level down, hidden ones left out.\<close>

definition child_dirs :: "'w machine \<Rightarrow> 'w \<Rightarrow> string \<Rightarrow> string list" where
  "child_dirs m w ws =
     map (\<lambda>(n, _). sub_path ws n) (filter (\<lambda>(n, is_dir). is_dir \<and> n \<noteq> [] \<and> hd n \<noteq> CHR ''.'') (ma_entries m w ws))"

definition usual_build_dirs :: "string list" where
  "usual_build_dirs = [''build'', ''out'', ''cmake-build-debug'', ''cmake-build-release'']"

definition findCompileCommandsDir :: "'w machine \<Rightarrow> 'w \<Rightarrow> string \<Rightarrow> string option" where
  "findCompileCommandsDir m w ws =
     (if ma_file m w (compile_db ws) then Some ws
      else (case sort (filter (\<lambda>d. ma_file m w (compile_db d)) (child_dirs m w ws)) of
              [] \<Rightarrow> None
            | first # others \<Rightarrow>
                (case List.find (\<lambda>d. d \<in> set (first # others)) (map (sub_path ws) usual_build_dirs) of
                   Some d \<Rightarrow> Some d
                 | None \<Rightarrow> Some first)))"

definition findConfiguredCMakeBuildDirs :: "'w machine \<Rightarrow> 'w \<Rightarrow> string \<Rightarrow> string list" where
  "findConfiguredCMakeBuildDirs m w ws =
     sort (filter (\<lambda>d. ma_file m w (sub_path d ''CMakeCache.txt'') \<and> \<not> ma_file m w (compile_db d)) (child_dirs m w ws))"

text \<open>The compiler of an entry: the first argument, or the command up to its first blank.\<close>

definition entry_driver :: "json \<Rightarrow> string" where
  "entry_driver e =
     (case array_field ''arguments'' e of
        Some (JStr exe # _) \<Rightarrow> exe
      | _ \<Rightarrow> (case str_field ''command'' e of Some cmd \<Rightarrow> before CHR '' '' cmd | None \<Rightarrow> []))"

definition queryDriversFromCompileDb :: "lsp_lib \<Rightarrow> 'w machine \<Rightarrow> 'w \<Rightarrow> string \<Rightarrow> string list" where
  "queryDriversFromCompileDb lib m w dir =
     (case Option.bind (Option.bind (ma_content m w (compile_db dir)) (ll_parse lib)) jarray of
        None \<Rightarrow> []
      | Some es \<Rightarrow> sort (remdups (filter (\<lambda>exe. exe \<noteq> [] \<and> hd exe = CHR ''/'') (map entry_driver es))))"

definition hasCMakeProject :: "'w machine \<Rightarrow> 'w \<Rightarrow> string \<Rightarrow> bool" where
  "hasCMakeProject m w ws = ma_file m w (sub_path ws ''CMakeLists.txt'')"

definition private_dir :: "'w machine \<Rightarrow> 'w \<Rightarrow> string \<Rightarrow> string \<Rightarrow> string" where
  "private_dir m w ws name =
     (if ma_dir m w (sub_path ws ''.git'') then sub_path (sub_path (sub_path ws ''.git'') ''lsp-cache'') name
      else sub_path (sub_path ws ''.scrutiny-lsp'') name)"

definition generatedCompileDbDir :: "'w machine \<Rightarrow> 'w \<Rightarrow> string \<Rightarrow> string" where
  "generatedCompileDbDir m w ws = private_dir m w ws ''compile-db''"

section \<open>Xcode\<close>

definition ends_with :: "string \<Rightarrow> string \<Rightarrow> bool" where
  "ends_with s t \<longleftrightarrow> length t \<le> length s \<and> drop (length s - length t) s = t"

text \<open>The first workspace, or else the first project.\<close>

definition findXcodeContainer :: "'w machine \<Rightarrow> 'w \<Rightarrow> string \<Rightarrow> string option" where
  "findXcodeContainer m w ws =
     (let names = map fst (ma_entries m w ws)
      in map_option (sub_path ws)
           (case List.find (\<lambda>n. 12 < length n \<and> ends_with n ''.xcworkspace'') names of
              Some n \<Rightarrow> Some n
            | None \<Rightarrow> List.find (\<lambda>n. 10 < length n \<and> ends_with n ''.xcodeproj'') names))"

definition plist_value_at :: "string \<Rightarrow> string option" where
  "plist_value_at s =
     (let key = ''<key>WorkspacePath</key>''; t = dropWhile is_space (drop (length key) s); v = drop 8 t
      in if starts_with s key \<and> starts_with t ''<string>'' \<and> starts_with (dropWhile (\<lambda>c. c \<noteq> CHR ''<'') v) ''</string>''
         then Some (takeWhile (\<lambda>c. c \<noteq> CHR ''<'') v) else None)"

text \<open>The leftmost match of the regular expression.\<close>

fun workspacePathFromInfoPlist :: "string \<Rightarrow> string option" where
  "workspacePathFromInfoPlist [] = plist_value_at []"
| "workspacePathFromInfoPlist (c # s) =
     (case plist_value_at (c # s) of Some v \<Rightarrow> Some v | None \<Rightarrow> workspacePathFromInfoPlist s)"

definition data_stores :: "'w machine \<Rightarrow> 'w \<Rightarrow> string \<Rightarrow> string \<Rightarrow> string \<Rightarrow> string list" where
  "data_stores m w container root n =
     (let dir = sub_path root n; plist = sub_path dir ''info.plist''
      in if ma_file m w plist
           \<and> workspacePathFromInfoPlist (case ma_content m w plist of Some t \<Rightarrow> t | None \<Rightarrow> []) = Some container
         then filter (ma_dir m w) [sub_path dir ''Index.noindex/DataStore'', sub_path dir ''Index/DataStore'']
         else [])"

definition newer_store :: "'w machine \<Rightarrow> 'w \<Rightarrow> string \<Rightarrow> string option \<Rightarrow> string option" where
  "newer_store m w store best =
     (case best of None \<Rightarrow> Some store | Some b \<Rightarrow> if ma_written m w b < ma_written m w store then Some store else best)"

definition findXcodeIndexStore :: "'w machine \<Rightarrow> 'w \<Rightarrow> string \<Rightarrow> string \<Rightarrow> string option" where
  "findXcodeIndexStore m w container given =
     (case (if given \<noteq> [] then Some given
            else case ma_home m of
              Some h \<Rightarrow> if h = [] then None else Some (h @ ''/Library/Developer/Xcode/DerivedData'')
            | None \<Rightarrow> None) of
        None \<Rightarrow> None
      | Some root \<Rightarrow>
          (if \<not> ma_dir m w root then None
           else fold (newer_store m w)
                  (concat (map (\<lambda>(n, is_dir). if is_dir then data_stores m w container root n else []) (ma_entries m w root)))
                  None))"

section \<open>The preparation\<close>

record workspace_info =
  wi_language :: language
  wi_path :: string
  wi_arguments :: "string list"
  wi_options :: json
  wi_compile_dir :: "string option"
  wi_index_store :: "string option"
  wi_source :: string
  wi_cross :: bool
  wi_notes :: "string list"

definition new_info :: "language \<Rightarrow> string \<Rightarrow> workspace_info" where
  "new_info lang ws =
     \<lparr>wi_language = lang, wi_path = ws, wi_arguments = [], wi_options = JNull, wi_compile_dir = None,
      wi_index_store = None, wi_source = ''none'', wi_cross = False, wi_notes = []\<rparr>"

definition opt_json :: "string option \<Rightarrow> json" where
  "opt_json x = (case x of Some s \<Rightarrow> JStr s | None \<Rightarrow> JNull)"

definition info_json :: "workspace_info \<Rightarrow> json" where
  "info_json i =
     JObj [(''language'', JInt (language_number (wi_language i))), (''workspacePath'', JStr (wi_path i)),
       (''serverArguments'', JArr (map JStr (wi_arguments i))), (''initializationOptions'', wi_options i),
       (''source'', JStr (wi_source i)), (''crossFileCapable'', JBool (wi_cross i)),
       (''notes'', JArr (map JStr (wi_notes i))), (''compileCommandsDir'', opt_json (wi_compile_dir i)),
       (''indexStorePath'', opt_json (wi_index_store i))]"

definition regenerate_note :: "string \<Rightarrow> int \<Rightarrow> string" where
  "regenerate_note bd rc = ''cmake could not regenerate '' @ bd @ '' (exit '' @ int_text rc @ '')''"

text \<open>Asking cmake for the database of each configured build directory in turn: the directory, the notes, the machine.\<close>

fun regenerate ::
  "'w machine \<Rightarrow> string \<Rightarrow> int \<Rightarrow> string list \<Rightarrow> 'w \<Rightarrow> string option \<times> string list \<times> 'w" where
  "regenerate m ws timeout [] w = (None, [], w)"
| "regenerate m ws timeout (bd # bds) w =
     (if \<not> onPath m w ''cmake'' then (None, [], w)
      else let (rc, w1) = runBounded m [''cmake'', ''-DCMAKE_EXPORT_COMPILE_COMMANDS=ON'', bd] ws timeout w
        in if rc = 0 \<and> ma_file m w1 (compile_db bd) then (Some bd, [], w1)
           else let (dir, notes, w2) = regenerate m ws timeout bds w1 in (dir, regenerate_note bd rc # notes, w2))"

definition configure_note :: "int \<Rightarrow> string" where
  "configure_note rc =
     ''cmake could not configure this project on its own (exit '' @ int_text rc
     @ ''); if it needs a toolchain or package manager, configure it once yourself with ''
     @ ''-DCMAKE_EXPORT_COMPILE_COMMANDS=ON.''"

definition no_cmake_note :: string where
  "no_cmake_note = ''cmake is not installed here, so no compile database could be generated.''"

definition no_db_note :: string where
  "no_db_note =
     ''No compile_commands.json: clangd can only see the current file, so references, ''
     @ ''definitions in other files and hover on external symbols come back empty. Generate one ''
     @ ''(CMake: -DCMAKE_EXPORT_COMPILE_COMMANDS=ON; Make/other: bear -- make) in the project ''
     @ ''root or a build/ directory and reopen the file.''"

text \<open>Configuring a project that has no build directory, in a directory of its own.\<close>

definition configure :: "'w machine \<Rightarrow> string \<Rightarrow> int \<Rightarrow> 'w \<Rightarrow> string option \<times> string list \<times> 'w" where
  "configure m ws timeout w =
     (if \<not> hasCMakeProject m w ws \<or> timeout \<le> 0 then (None, [], w)
      else if \<not> onPath m w ''cmake'' then (None, [no_cmake_note], w)
      else let out = generatedCompileDbDir m w ws;
               (rc, w1) = runBounded m [''cmake'', ''-S'', ws, ''-B'', out, ''-DCMAKE_EXPORT_COMPILE_COMMANDS=ON''] ws timeout
                            (ma_mkdirs m out w)
        in if rc = 0 \<and> ma_file m w1 (compile_db out) then (Some out, [], w1) else (None, [configure_note rc], w1))"

text \<open>The directory of the database, how it was come by, the notes so far.\<close>

definition obtain_db :: "'w machine \<Rightarrow> string \<Rightarrow> int \<Rightarrow> 'w \<Rightarrow> (string \<times> string) option \<times> string list \<times> 'w" where
  "obtain_db m ws timeout w =
     (case findCompileCommandsDir m w ws of
        Some d \<Rightarrow> (Some (d, ''found''), [], w)
      | None \<Rightarrow>
          (case regenerate m ws timeout (findConfiguredCMakeBuildDirs m w ws) w of
             (Some d, ns, w1) \<Rightarrow> (Some (d, ''generated''), ns, w1)
           | (None, ns, w1) \<Rightarrow>
               (case configure m ws timeout w1 of
                  (Some d, ns', w2) \<Rightarrow> (Some (d, ''generated''), ns @ ns', w2)
                | (None, ns', w2) \<Rightarrow> (None, ns @ ns', w2))))"

definition clangd_arguments :: "string list" where
  "clangd_arguments = [''--background-index'', ''--header-insertion=never'', ''--log=error'']"

fun join_commas :: "string list \<Rightarrow> string" where
  "join_commas [] = []"
| "join_commas [d] = d"
| "join_commas (d # ds) = d @ CHR '','' # join_commas ds"

definition prepare_c :: "lsp_lib \<Rightarrow> 'w machine \<Rightarrow> language \<Rightarrow> string \<Rightarrow> int \<Rightarrow> 'w \<Rightarrow> workspace_info \<times> 'w" where
  "prepare_c lib m lang ws timeout w =
     (case obtain_db m ws timeout w of
        (Some (d, how), ns, w1) \<Rightarrow>
          (let drivers = queryDriversFromCompileDb lib m w1 d
           in ((new_info lang ws)\<lparr>wi_arguments := clangd_arguments @ [''--compile-commands-dir='' @ d]
                   @ (if drivers = [] then [] else [''--query-driver='' @ join_commas drivers]),
                 wi_compile_dir := Some d, wi_source := how, wi_cross := True, wi_notes := ns\<rparr>, w1))
      | (None, ns, w1) \<Rightarrow>
          ((new_info lang ws)\<lparr>wi_arguments := clangd_arguments, wi_notes := ns @ [no_db_note]\<rparr>, w1))"

definition no_project_note :: string where
  "no_project_note =
     ''No Package.swift or Xcode project at the workspace root: sourcekit-lsp has nothing to index.''"

definition no_index_note :: "string \<Rightarrow> string" where
  "no_index_note container =
     ''Xcode project without an index: build it once in Xcode (Cmd+B) so DerivedData holds ''
     @ ''Index.noindex/DataStore for '' @ after_last CHR ''/'' container
     @ ''; Scrutiny hands that index to sourcekit-lsp the next time the server starts.''"

definition prepare_swift :: "'w machine \<Rightarrow> string \<Rightarrow> 'w \<Rightarrow> workspace_info \<times> 'w" where
  "prepare_swift m ws w =
     (let info = new_info LangSwift ws; has_package = ma_file m w (sub_path ws ''Package.swift'');
          container = findXcodeContainer m w ws;
          store = Option.bind container (\<lambda>c. findXcodeIndexStore m w c [])
      in if store = None \<and> has_package then (info\<lparr>wi_source := ''package'', wi_cross := True\<rparr>, w)
         else case container of
           None \<Rightarrow> (info\<lparr>wi_notes := [no_project_note]\<rparr>, w)
         | Some c \<Rightarrow>
             (case store of
                Some s \<Rightarrow>
                  (let db = private_dir m w ws ''sourcekit-index-db''
                   in (info\<lparr>wi_index_store := Some s, wi_source := ''found'', wi_cross := True,
                             wi_options := JObj [(''index'', JObj [(''indexStorePath'', JStr s), (''indexDatabasePath'', JStr db)])]\<rparr>,
                       ma_mkdirs m db w))
              | None \<Rightarrow> (info\<lparr>wi_notes := [no_index_note c]\<rparr>, w)))"

definition prepareWorkspace :: "lsp_lib \<Rightarrow> 'w machine \<Rightarrow> string \<Rightarrow> language \<Rightarrow> int \<Rightarrow> 'w \<Rightarrow> workspace_info \<times> 'w" where
  "prepareWorkspace lib m ws lang timeout w =
     (if lang \<in> {LangCpp, LangC} then prepare_c lib m lang ws timeout w
      else if lang = LangSwift then prepare_swift m ws w
      else if lang = LangUnknown then (new_info lang ws, w)
      else ((new_info lang ws)\<lparr>wi_source := ''server'', wi_cross := True\<rparr>, w))"

section \<open>What the preparation finds\<close>

lemma found_has_db:
  assumes "findCompileCommandsDir m w ws = Some d"
  shows "ma_file m w (compile_db d)"
proof (cases "ma_file m w (compile_db ws)")
  case True
  then show ?thesis using assms by (simp add: findCompileCommandsDir_def)
next
  case False
  let ?found = "sort (filter (\<lambda>d. ma_file m w (compile_db d)) (child_dirs m w ws))"
  have "d \<in> set ?found"
    using assms False unfolding findCompileCommandsDir_def
    by (auto simp: find_Some_iff split: list.splits option.splits simp del: set_sort set_filter)
  then show ?thesis by simp
qed

lemma regenerated_has_db: "regenerate m ws timeout bds w = (Some d, ns, w') \<Longrightarrow> ma_file m w' (compile_db d)"
  by (induction m ws timeout bds w arbitrary: ns w' rule: regenerate.induct)
    (auto simp: Let_def split: prod.splits if_splits)

lemma configured_has_db: "configure m ws timeout w = (Some d, ns, w') \<Longrightarrow> ma_file m w' (compile_db d)"
  by (auto simp: configure_def Let_def split: prod.splits if_splits)

lemma obtained_has_db:
  "obtain_db m ws timeout w = (Some (d, how), ns, w') \<Longrightarrow> ma_file m w' (compile_db d)"
  unfolding obtain_db_def
  by (auto dest: found_has_db regenerated_has_db configured_has_db split: option.splits prod.splits)

lemma drivers_absolute:
  "exe \<in> set (queryDriversFromCompileDb lib m w dir) \<Longrightarrow> exe \<noteq> [] \<and> hd exe = CHR ''/''"
  by (auto simp: queryDriversFromCompileDb_def split: option.splits)

lemma drivers_sorted: "sorted (queryDriversFromCompileDb lib m w dir) \<and> distinct (queryDriversFromCompileDb lib m w dir)"
  by (simp add: queryDriversFromCompileDb_def split: option.split)

text \<open>Without time to generate anything, nothing is run and the machine is as it was.\<close>

lemma regenerate_no_time: "timeout \<le> 0 \<Longrightarrow> snd (snd (regenerate m ws timeout bds w)) = w"
  by (induction m ws timeout bds w rule: regenerate.induct) (auto simp: runBounded_def Let_def split: prod.split)

lemma regenerate_finds_nothing: "timeout \<le> 0 \<Longrightarrow> fst (regenerate m ws timeout bds w) = None"
  by (induction m ws timeout bds w rule: regenerate.induct) (auto simp: runBounded_def Let_def split: prod.split)

lemma no_time_no_change:
  assumes "timeout \<le> 0" and "lang \<noteq> LangSwift"
  shows "snd (prepareWorkspace lib m ws lang timeout w) = w"
proof -
  obtain d ns w1 where r: "regenerate m ws timeout (findConfiguredCMakeBuildDirs m w ws) w = (d, ns, w1)"
    by (cases "regenerate m ws timeout (findConfiguredCMakeBuildDirs m w ws) w") auto
  then have "d = None" "w1 = w"
    using regenerate_no_time [OF assms(1)] regenerate_finds_nothing [OF assms(1)] by (metis fst_conv snd_conv)+
  then have "snd (snd (obtain_db m ws timeout w)) = w"
    using r assms(1) by (simp add: obtain_db_def configure_def split: option.split)
  then have "snd (prepare_c lib m lang ws timeout w) = w"
    by (auto simp: prepare_c_def Let_def split: prod.splits option.splits)
  then show ?thesis using assms(2) by (simp add: prepareWorkspace_def)
qed

lemma prepare_c_facts:
  assumes "prepare_c lib m lang ws timeout w = (info, w')"
  shows "wi_cross info \<longleftrightarrow> wi_compile_dir info \<noteq> None"
    and "wi_compile_dir info = Some d \<Longrightarrow>
          ma_file m w' (compile_db d) \<and> ''--compile-commands-dir='' @ d \<in> set (wi_arguments info)"
    and "wi_compile_dir info = None \<Longrightarrow> no_db_note \<in> set (wi_notes info)"
proof -
  obtain got ns w1 where o: "obtain_db m ws timeout w = (got, ns, w1)" by (cases "obtain_db m ws timeout w") auto
  show "wi_cross info \<longleftrightarrow> wi_compile_dir info \<noteq> None"
    "wi_compile_dir info = None \<Longrightarrow> no_db_note \<in> set (wi_notes info)"
    using assms by (auto simp: prepare_c_def o new_info_def Let_def split: option.splits prod.splits)
  show "ma_file m w' (compile_db d) \<and> ''--compile-commands-dir='' @ d \<in> set (wi_arguments info)"
    if "wi_compile_dir info = Some d"
  proof (cases got)
    case None
    then show ?thesis using assms that by (auto simp: prepare_c_def o new_info_def)
  next
    case (Some dh)
    then have "d = fst dh" "w' = w1" "''--compile-commands-dir='' @ d \<in> set (wi_arguments info)"
      using assms that by (auto simp: prepare_c_def o new_info_def Let_def split: prod.splits)
    then show ?thesis using obtained_has_db [of m ws timeout w d "snd dh" ns w'] o Some by (cases dh) simp
  qed
qed

lemma prepare_swift_explained:
  "prepare_swift m ws w = (info, w') \<Longrightarrow> wi_cross info \<or> wi_notes info \<noteq> []"
  by (auto simp: prepare_swift_def Let_def split: if_splits option.splits)

text \<open>
  A server whose answers will be thin is explained, and one that is promised to answer across files has what it
  needs: for every language with a server, either the workspace counts as cross-file capable or there is a note
  that says what is missing; and for C and C++ it counts as such exactly when a compile database is there, in the
  directory clangd is pointed to, after whatever cmake did.
\<close>

theorem workspace_explained:
  assumes "prepareWorkspace lib m ws lang timeout w = (info, w')" and "lang \<noteq> LangUnknown"
  shows "(wi_cross info \<or> wi_notes info \<noteq> [])
    \<and> (lang \<in> {LangCpp, LangC} \<longrightarrow> (wi_cross info \<longleftrightarrow>
          (\<exists>d. wi_compile_dir info = Some d \<and> ma_file m w' (compile_db d)
             \<and> ''--compile-commands-dir='' @ d \<in> set (wi_arguments info))))"
proof (intro conjI impI)
  show "wi_cross info \<longleftrightarrow> (\<exists>d. wi_compile_dir info = Some d \<and> ma_file m w' (compile_db d)
             \<and> ''--compile-commands-dir='' @ d \<in> set (wi_arguments info))" if "lang \<in> {LangCpp, LangC}"
    using that assms(1) prepare_c_facts(1,2) [of lib m lang ws timeout w info w']
    by (auto simp: prepareWorkspace_def)
  show "wi_cross info \<or> wi_notes info \<noteq> []"
    using assms prepare_c_facts(1,3) [of lib m lang ws timeout w info w'] prepare_swift_explained [of m ws w info w']
    by (auto simp: prepareWorkspace_def split: if_splits)
qed

text \<open>A machine with one file system and a cmake that writes the database it is asked for.\<close>

definition demo_machine :: "string list machine" where
  "demo_machine =
     \<lparr>ma_file = (\<lambda>w p. p \<in> set w), ma_dir = (\<lambda>w p. p = ''/w/.git''), ma_entries = (\<lambda>w p. [(''src'', True)]),
      ma_content = (\<lambda>w p. None), ma_written = (\<lambda>w p. 0), ma_executable = (\<lambda>w p. p = ''/usr/bin/cmake''),
      ma_mkdirs = (\<lambda>p w. w),
      ma_run = (\<lambda>argv dir t w. (0, ''/w/.git/lsp-cache/compile-db/compile_commands.json'' # w)),
      ma_path = Some ''/opt::/usr/bin'', ma_home = None\<rparr>"

definition demo_lsp_lib :: lsp_lib where
  "demo_lsp_lib = \<lparr>ll_parse = (\<lambda>_. None), ll_dump = (\<lambda>_. []), ll_trunc = (\<lambda>_. 0), ll_what = (\<lambda>_. [])\<rparr>"

lemma demo_cross: "wi_cross (fst (prepareWorkspace demo_lsp_lib demo_machine ''/w'' LangCpp 60 [''/w/CMakeLists.txt'']))"
  by code_simp

lemma workspace_explained_witness:
  "\<exists>d. wi_compile_dir (fst (prepareWorkspace demo_lsp_lib demo_machine ''/w'' LangCpp 60 [''/w/CMakeLists.txt''])) = Some d
     \<and> ma_file demo_machine (snd (prepareWorkspace demo_lsp_lib demo_machine ''/w'' LangCpp 60 [''/w/CMakeLists.txt''])) (compile_db d)"
  using workspace_explained [OF surjective_pairing, of LangCpp demo_lsp_lib demo_machine "''/w''" 60 "[''/w/CMakeLists.txt'']"]
    demo_cross by auto

lemma demo_generates:
  "wi_source (fst (prepareWorkspace demo_lsp_lib demo_machine ''/w'' LangCpp 60 [''/w/CMakeLists.txt''])) = ''generated''"
  by code_simp

end
