(* ===== verification/LspClient.thy ===== *)
theory LspClient
  imports LspWorkspace
begin

text \<open>
  The class \<^verbatim>\<open>LSPClient\<close> of the core (\<^verbatim>\<open>src/core/src/lsp/LSPClient.cpp\<close>): its life, the requests that wait for an
  answer, what it does with the server's messages, the queries with their cache, and the retry while a server is
  warming up. The server's process is a parameter, and so are the clock and what the server answers.
\<close>

section \<open>The client\<close>

text \<open>How a request ended for the thread that waits on it.\<close>

datatype lsp_answer =
    Answered lsp_response
  | Stopped

text \<open>
  The fields of the class. \<open>cl_sent\<close> and \<open>cl_answers\<close> are what it wrote to the server and the promises it kept;
  \<open>cl_issued\<close> counts the requests.
\<close>

record lsp_client =
  cl_workspace :: string
  cl_language :: language
  cl_info :: workspace_info
  cl_initialized :: bool
  cl_running :: bool
  cl_cache :: "query_cache option"
  cl_next :: int
  cl_pending :: "int list"
  cl_open :: "string list"
  cl_buffer :: string
  cl_indexing :: bool
  cl_tokens :: int
  cl_started :: int
  cl_activity :: int
  cl_gave_up :: bool
  cl_sent :: "json list"
  cl_answers :: "(int \<times> lsp_answer) list"
  cl_issued :: nat

definition new_client :: "string \<Rightarrow> language \<Rightarrow> lsp_client" where
  "new_client ws lang =
     \<lparr>cl_workspace = ws, cl_language = lang, cl_info = new_info LangUnknown [], cl_initialized = False, cl_running = False,
      cl_cache = None, cl_next = 1, cl_pending = [], cl_open = [], cl_buffer = [], cl_indexing = False, cl_tokens = 0,
      cl_started = 0, cl_activity = 0, cl_gave_up = False, cl_sent = [], cl_answers = [], cl_issued = 0\<rparr>"

definition is_ready :: "lsp_client \<Rightarrow> bool" where
  "is_ready c \<longleftrightarrow> cl_initialized c \<and> cl_running c"

definition no_error :: lsp_error where
  "no_error = \<lparr>le_code = 0, le_message = []\<rparr>"

definition is_error :: "lsp_error \<Rightarrow> bool" where
  "is_error e \<longleftrightarrow> le_code e \<noteq> 0"

definition not_ready_error :: lsp_error where
  "not_ready_error = \<lparr>le_code = not_initialized, le_message = ''LSP server not initialized''\<rparr>"

section \<open>Requests\<close>

text \<open>
  \<^verbatim>\<open>sendRequest\<close> up to its wait: the identifier is taken and the promise registered before the message is written;
  a write that fails takes the promise away again.
\<close>

definition begin_request :: "bool \<Rightarrow> string \<Rightarrow> json \<Rightarrow> lsp_client \<Rightarrow> int \<times> lsp_client" where
  "begin_request written method params c =
     (let i = cl_next c; c1 = c\<lparr>cl_next := to_int32 (i + 1), cl_issued := Suc (cl_issued c)\<rparr>
      in (i, if written then c1\<lparr>cl_pending := cl_pending c @ [i], cl_sent := cl_sent c @ [request_json i method params]\<rparr>
             else c1))"

definition expire :: "int \<Rightarrow> lsp_client \<Rightarrow> lsp_client" where
  "expire i c = c\<lparr>cl_pending := filter (\<lambda>j. j \<noteq> i) (cl_pending c)\<rparr>"

text \<open>A response without an identifier, or to none that waits, is dropped.\<close>

definition handle_response :: "lsp_response \<Rightarrow> lsp_client \<Rightarrow> lsp_client" where
  "handle_response r c =
     (case rs_id r of
        None \<Rightarrow> c
      | Some i \<Rightarrow>
          (if i \<in> set (cl_pending c)
           then c\<lparr>cl_pending := filter (\<lambda>j. j \<noteq> i) (cl_pending c), cl_answers := cl_answers c @ [(i, Answered r)]\<rparr>
           else c))"

text \<open>\<^verbatim>\<open>stop()\<close>: every promise that waits is broken, the process is stopped, no document is open.\<close>

definition stop_client :: "lsp_client \<Rightarrow> lsp_client" where
  "stop_client c =
     (if \<not> cl_running c then c
      else c\<lparr>cl_running := False, cl_initialized := False, cl_pending := [],
             cl_answers := cl_answers c @ map (\<lambda>i. (i, Stopped)) (cl_pending c), cl_open := []\<rparr>)"

definition send_json :: "json \<Rightarrow> lsp_client \<Rightarrow> lsp_client" where
  "send_json j c = c\<lparr>cl_sent := cl_sent c @ [j]\<rparr>"

definition send_notification :: "string \<Rightarrow> json \<Rightarrow> lsp_client \<Rightarrow> lsp_client" where
  "send_notification method params c = send_json (notification_json method params) c"

section \<open>Messages from the server\<close>

definition note_activity :: "int \<Rightarrow> lsp_client \<Rightarrow> lsp_client" where
  "note_activity now c = c\<lparr>cl_activity := now\<rparr>"

text \<open>\<^verbatim>\<open>$/progress\<close>. An exception leaves what was done before it.\<close>

definition progress_kind :: "json \<Rightarrow> string option" where
  "progress_kind params =
     (if jhas ''token'' params then Option.bind (jfind ''value'' params) (str_field ''kind'') else None)"

definition note_progress :: "int \<Rightarrow> json \<Rightarrow> lsp_client \<Rightarrow> lsp_client" where
  "note_progress now params c =
     (let c1 = note_activity now c
      in case progress_kind params of
           None \<Rightarrow> c1
         | Some k \<Rightarrow>
             (if k = ''begin'' then c1\<lparr>cl_tokens := cl_tokens c + 1, cl_indexing := True\<rparr>
              else if k = ''end'' then c1\<lparr>cl_tokens := max 0 (cl_tokens c - 1)\<rparr>
              else c1))"

definition activity_words :: "string list" where
  "activity_words = [''ndexing'', ''Preparing '', ''Compiling '', ''Building '', ''Linking '', ''Fetching '', ''Resolving '',
     ''Updating '', ''Computing '', ''Planning '', ''Emitting '', ''Write '']"

text \<open>A step such as \<^verbatim>\<open>[3/19] Compiling\<close>.\<close>

definition build_step :: "string \<Rightarrow> bool" where
  "build_step msg \<longleftrightarrow>
     3 < length msg
     \<and> (case find_sub ''['' msg of
          None \<Rightarrow> False
        | Some b \<Rightarrow>
            (case (find_from ''/'' b msg, find_from '']'' b msg) of
               (Some slash, Some e) \<Rightarrow> slash < e \<and> e - b < 16 \<and> is_digit (msg ! (b + 1))
             | _ \<Rightarrow> False))"

definition log_activity :: "string \<Rightarrow> string \<Rightarrow> bool" where
  "log_activity log_name msg \<longleftrightarrow>
     has_sub ''Indexing'' log_name \<or> list_ex (\<lambda>k. has_sub k msg) activity_words \<or> build_step msg"

definition note_log :: "int \<Rightarrow> json \<Rightarrow> lsp_client \<Rightarrow> lsp_client" where
  "note_log now params c =
     (case (jvalue_str ''logName'' [] params, jvalue_str ''message'' [] params) of
        (Inr log_name, Inr msg) \<Rightarrow> if log_activity log_name msg then note_activity now c else c
      | _ \<Rightarrow> c)"

definition handle_notification :: "int \<Rightarrow> string \<Rightarrow> json \<Rightarrow> lsp_client \<Rightarrow> lsp_client" where
  "handle_notification now method params c =
     (if method = ''$/progress'' then note_progress now params c
      else if method = ''window/logMessage'' \<or> method = ''window/showMessage'' then note_log now params c
      else c)"

text \<open>Requests from the server are answered at once.\<close>

definition acknowledged :: "string list" where
  "acknowledged = [''client/registerCapability'', ''client/unregisterCapability'', ''window/showMessageRequest'']"

definition server_reply :: "lsp_client \<Rightarrow> string \<Rightarrow> json \<Rightarrow> string \<times> json" where
  "server_reply c method params =
     (if method = ''window/workDoneProgress/create'' \<or> method \<in> set acknowledged then (''result'', JNull)
      else if method = ''workspace/configuration''
      then (''result'', JArr (case array_field ''items'' params of None \<Rightarrow> [] | Some items \<Rightarrow> map (\<lambda>_. JNull) items))
      else if method = ''workspace/workspaceFolders''
      then (''result'', JArr [JObj [(''uri'', JStr (''file://'' @ cl_workspace c)), (''name'', JStr (cl_workspace c))]])
      else (''error'', JObj [(''code'', JInt method_not_found), (''message'', JStr (''method not supported by client: '' @ method))]))"

definition handle_server_request :: "int \<Rightarrow> json \<Rightarrow> string \<Rightarrow> json \<Rightarrow> lsp_client \<Rightarrow> lsp_client" where
  "handle_server_request now i method params c =
     (let c1 = (if method = ''window/workDoneProgress/create'' then note_activity now c else c)
      in send_json (JObj [(''jsonrpc'', JStr ''2.0''), (''id'', i), server_reply c method params]) c1)"

definition message_params :: "json \<Rightarrow> json" where
  "message_params j = (case jfind ''params'' j of Some p \<Rightarrow> p | None \<Rightarrow> JObj [])"

text \<open>One message of the loop of \<^verbatim>\<open>parseMessages\<close>; what throws is logged and dropped.\<close>

definition handle_message :: "lsp_lib \<Rightarrow> int \<Rightarrow> string \<Rightarrow> lsp_client \<Rightarrow> lsp_client outcome" where
  "handle_message lib now body c =
     (case ll_parse lib body of
        None \<Rightarrow> Done c
      | Some j \<Rightarrow>
          (case jfind ''method'' j of
             Some m \<Rightarrow>
               (case jstring m of
                  None \<Rightarrow> Done c
                | Some method \<Rightarrow>
                    (case jfind ''id'' j of
                       None \<Rightarrow> Done (handle_notification now method (message_params j) c)
                     | Some i \<Rightarrow> Done (handle_server_request now i method (message_params j) c)))
           | None \<Rightarrow>
               (case response_of lib j of
                  Done r \<Rightarrow> Done (handle_response r c)
                | Raised _ \<Rightarrow> Done c
                | Undefined \<Rightarrow> Undefined)))"

fun handle_messages :: "lsp_lib \<Rightarrow> int \<Rightarrow> string list \<Rightarrow> lsp_client \<Rightarrow> lsp_client outcome" where
  "handle_messages lib now [] c = Done c"
| "handle_messages lib now (b # bs) c = and_then (handle_message lib now b c) (handle_messages lib now bs)"

text \<open>\<^verbatim>\<open>handleOutput\<close>: \<open>None\<close> is a loop without end, \<open>Raised 0\<close> the exception of \<^verbatim>\<open>std::stoull\<close>.\<close>

definition handle_output :: "lsp_lib \<Rightarrow> int \<Rightarrow> string \<Rightarrow> lsp_client \<Rightarrow> lsp_client outcome option" where
  "handle_output lib now data c =
     map_option (\<lambda>(bodies, rest, thrown).
         and_then (handle_messages lib now bodies c) (\<lambda>c'.
           if thrown then Raised 0 else Done (c'\<lparr>cl_buffer := rest\<rparr>)))
       (split_messages (cl_buffer c @ data))"

section \<open>Life\<close>

text \<open>
  How a request ends, as the environment decides: the server answers, thirty seconds pass, the client is stopped
  meanwhile, or the message cannot be written.
\<close>

datatype request_end =
    Gets lsp_response
  | TimesOut
  | StoppedMeanwhile
  | CannotWrite

type_synonym server = "int \<Rightarrow> string \<Rightarrow> json \<Rightarrow> request_end"

text \<open>A request and its wait; the text of the exception on the left.\<close>

definition ask :: "server \<Rightarrow> string \<Rightarrow> json \<Rightarrow> lsp_client \<Rightarrow> lsp_client \<times> (string + lsp_response)" where
  "ask srv method params c =
     (case srv (cl_next c) method params of
        CannotWrite \<Rightarrow> (snd (begin_request False method params c), Inl ''Failed to send request'')
      | TimesOut \<Rightarrow>
          (let (i, c1) = begin_request True method params c in (expire i c1, Inl ''Timeout waiting for LSP response''))
      | StoppedMeanwhile \<Rightarrow> (stop_client (snd (begin_request True method params c)), Inl ''Client stopped'')
      | Gets r \<Rightarrow>
          (let (i, c1) = begin_request True method params c
           in (handle_response (r\<lparr>rs_id := Some i\<rparr>) c1, Inr (r\<lparr>rs_id := Some i\<rparr>))))"

definition client_capabilities :: json where
  "client_capabilities =
     JObj [(''textDocument'',
         JObj [(''definition'', JObj [(''linkSupport'', JBool True)]),
               (''references'', JObj [(''dynamicRegistration'', JBool False)]),
               (''hover'', JObj [(''contentFormat'', JArr [JStr ''markdown'', JStr ''plaintext''])]),
               (''documentSymbol'', JObj [(''hierarchicalDocumentSymbolSupport'', JBool True)]),
               (''foldingRange'', JObj [(''dynamicRegistration'', JBool False), (''lineFoldingOnly'', JBool True)])]),
       (''workspace'', JObj [(''symbol'', JObj [(''dynamicRegistration'', JBool False)])]),
       (''window'', JObj [(''workDoneProgress'', JBool True)]),
       (''general'', JObj [(''progressSupport'', JBool True)])]"

definition initialize_params :: "int \<Rightarrow> lsp_client \<Rightarrow> json" where
  "initialize_params pid c =
     JObj ([(''processId'', JInt pid), (''rootUri'', JStr (''file://'' @ cl_workspace c)),
            (''rootPath'', JStr (cl_workspace c)), (''capabilities'', client_capabilities)]
           @ (if is_jobject (wi_options (cl_info c)) then [(''initializationOptions'', wi_options (cl_info c))] else []))"

definition sendInitialize :: "server \<Rightarrow> int \<Rightarrow> lsp_client \<Rightarrow> lsp_client \<times> lsp_error" where
  "sendInitialize srv pid c =
     (case ask srv ''initialize'' (initialize_params pid c) c of
        (c1, Inl what) \<Rightarrow> (c1, \<lparr>le_code = internal_error, le_message = what\<rparr>)
      | (c1, Inr r) \<Rightarrow> (c1, case rs_error r of Some e \<Rightarrow> e | None \<Rightarrow> no_error))"

fun server_name :: "language \<Rightarrow> string option" where
  "server_name LangRust = Some ''rust-analyzer''"
| "server_name LangPython = Some ''pylsp''"
| "server_name LangGo = Some ''gopls''"
| "server_name LangTypeScript = Some ''typescript-language-server''"
| "server_name LangJavaScript = Some ''typescript-language-server''"
| "server_name LangCpp = Some ''clangd''"
| "server_name LangC = Some ''clangd''"
| "server_name LangSwift = Some ''sourcekit-lsp''"
| "server_name LangUnknown = None"

text \<open>\<^verbatim>\<open>findExecutable\<close>: the usual directories, then those of \<^verbatim>\<open>PATH\<close>, else the bare name.\<close>

definition search_dirs :: "'w machine \<Rightarrow> string list" where
  "search_dirs m =
     (let home = (case ma_home m of Some h \<Rightarrow> h | None \<Rightarrow> [])
      in [''/usr/local/bin'', ''/usr/bin'', ''/opt/homebrew/bin'', home @ ''/.cargo/bin'', home @ ''/.local/bin'']
         @ filter (\<lambda>d. d \<noteq> []) (case ma_path m of Some p \<Rightarrow> split_on CHR '':'' p | None \<Rightarrow> []))"

definition findExecutable :: "'w machine \<Rightarrow> 'w \<Rightarrow> string \<Rightarrow> string" where
  "findExecutable m w name =
     (case List.find (\<lambda>d. ma_executable m w (d @ CHR ''/'' # name)) (search_dirs m) of
        Some d \<Rightarrow> d @ CHR ''/'' # name
      | None \<Rightarrow> name)"

definition xcode_servers :: "string list" where
  "xcode_servers =
     [''/Applications/Xcode.app/Contents/Developer/Toolchains/XcodeDefault.xctoolchain/usr/bin/sourcekit-lsp'',
      ''/Library/Developer/CommandLineTools/usr/bin/sourcekit-lsp'']"

definition getServerConfig :: "'w machine \<Rightarrow> 'w \<Rightarrow> language \<Rightarrow> (string \<times> string list) option" where
  "getServerConfig m w lang =
     (case server_name lang of
        None \<Rightarrow> None
      | Some name \<Rightarrow>
          (let exe = findExecutable m w name
           in Some (if lang = LangSwift \<and> exe = name
                    then (case List.find (ma_executable m w) xcode_servers of Some x \<Rightarrow> x | None \<Rightarrow> exe) else exe,
                    if lang \<in> {LangTypeScript, LangJavaScript} then [''--stdio''] else [])))"

text \<open>
  \<^verbatim>\<open>start()\<close>. \<open>exists\<close> says whether a path exists and \<open>spawns\<close> whether the process runs after it was started, with
  these arguments; the file has to exist before it is tried.
\<close>

definition start_client ::
  "lsp_lib \<Rightarrow> 'w machine \<Rightarrow> ('w \<Rightarrow> string \<Rightarrow> bool) \<Rightarrow> (string \<Rightarrow> string list \<Rightarrow> bool) \<Rightarrow> server \<Rightarrow> int \<Rightarrow> int \<Rightarrow> 'w
    \<Rightarrow> lsp_client \<Rightarrow> lsp_client \<times> lsp_error \<times> 'w" where
  "start_client lib m exists spawns srv pid now w c =
     (case getServerConfig m w (cl_language c) of
        None \<Rightarrow> (c, \<lparr>le_code = method_not_found, le_message = ''No language server configured for this language''\<rparr>, w)
      | Some (exe, args) \<Rightarrow>
          (let (info, w1) = prepareWorkspace lib m (cl_workspace c) (cl_language c) 60 w;
               c1 = c\<lparr>cl_info := info\<rparr>
           in if \<not> exists w1 exe \<or> \<not> spawns exe (args @ wi_arguments info)
              then (c1, \<lparr>le_code = internal_error, le_message = ''Failed to start language server process''\<rparr>, w1)
              else (let (c2, e) = sendInitialize srv pid (c1\<lparr>cl_running := True\<rparr>)
                    in if is_error e then (stop_client c2, e, w1)
                       else ((send_notification ''initialized'' (JObj []) c2)\<lparr>cl_initialized := True, cl_started := now\<rparr>,
                             no_error, w1))))"

section \<open>Documents\<close>

definition did_open :: "string \<Rightarrow> string \<Rightarrow> int \<Rightarrow> string \<Rightarrow> lsp_client \<Rightarrow> lsp_client \<times> lsp_error" where
  "did_open uri lang_id version content c =
     (if \<not> is_ready c then (c, not_ready_error)
      else if uri \<in> set (cl_open c) then (c, no_error)
      else ((send_notification ''textDocument/didOpen''
               (JObj [(''textDocument'', JObj [(''uri'', JStr uri), (''languageId'', JStr lang_id), (''version'', JInt version),
                                                (''text'', JStr content)])]) c)\<lparr>cl_open := uri # cl_open c\<rparr>, no_error))"

definition did_close :: "string \<Rightarrow> lsp_client \<Rightarrow> lsp_client \<times> lsp_error" where
  "did_close uri c =
     (if \<not> is_ready c then (c, not_ready_error)
      else if uri \<notin> set (cl_open c) then (c, no_error)
      else ((send_notification ''textDocument/didClose'' (JObj [(''textDocument'', JObj [(''uri'', JStr uri)])]) c)
              \<lparr>cl_open := filter (\<lambda>u. u \<noteq> uri) (cl_open c)\<rparr>, no_error))"

text \<open>A change is sent whether the document is open or not.\<close>

definition did_change :: "string \<Rightarrow> int \<Rightarrow> string \<Rightarrow> lsp_client \<Rightarrow> lsp_client \<times> lsp_error" where
  "did_change uri version content c =
     (if \<not> is_ready c then (c, not_ready_error)
      else ((send_notification ''textDocument/didChange''
               (JObj [(''textDocument'', JObj [(''uri'', JStr uri), (''version'', JInt version)]),
                      (''contentChanges'', JArr [JObj [(''text'', JStr content)]])]) c)
              \<lparr>cl_cache := map_option (invalidateFile uri) (cl_cache c)\<rparr>, no_error))"

definition set_git_sha :: "string \<Rightarrow> lsp_client \<Rightarrow> lsp_client" where
  "set_git_sha sha c = c\<lparr>cl_cache := map_option (setCurrentGitSha sha) (cl_cache c)\<rparr>"

section \<open>Queries\<close>

text \<open>
  The shape the queries share: not ready, found in the cache, or asked; an error of the server is passed on, an
  exception becomes an internal error, and what was read from the result is stored.
\<close>

definition run_query ::
  "lsp_lib \<Rightarrow> server \<Rightarrow> (query_cache \<Rightarrow> 'r option) \<Rightarrow> string \<Rightarrow> json \<Rightarrow> (json \<Rightarrow> 'r jtry) \<Rightarrow> ('r \<Rightarrow> query_cache \<Rightarrow> query_cache)
    \<Rightarrow> 'r \<Rightarrow> lsp_client \<Rightarrow> lsp_client \<times> lsp_error \<times> 'r" where
  "run_query lib srv cached method params parse store none c =
     (if \<not> is_ready c then (c, not_ready_error, none)
      else case Option.bind (cl_cache c) cached of
        Some r \<Rightarrow> (c, no_error, r)
      | None \<Rightarrow>
          (case ask srv method params c of
             (c1, Inl what) \<Rightarrow> (c1, \<lparr>le_code = internal_error, le_message = what\<rparr>, none)
           | (c1, Inr resp) \<Rightarrow>
               (case (rs_error resp, rs_result resp) of
                  (Some e, _) \<Rightarrow> (c1, e, none)
                | (None, None) \<Rightarrow> (c1, no_error, none)
                | (None, Some j) \<Rightarrow>
                    (case parse j of
                       Inl n \<Rightarrow> (c1, \<lparr>le_code = internal_error, le_message = ll_what lib n\<rparr>, none)
                     | Inr r \<Rightarrow> (c1\<lparr>cl_cache := map_option (store r) (cl_cache c1)\<rparr>, no_error, r)))))"

definition document_field :: "string \<Rightarrow> string \<times> json" where
  "document_field uri = (''textDocument'', JObj [(''uri'', JStr uri)])"

definition position_field :: "position \<Rightarrow> string \<times> json" where
  "position_field pos = (''position'', position_json pos)"

definition definition_once ::
  "lsp_lib \<Rightarrow> server \<Rightarrow> int \<Rightarrow> string \<Rightarrow> position \<Rightarrow> lsp_client \<Rightarrow> lsp_client \<times> lsp_error \<times> location list" where
  "definition_once lib srv now uri pos =
     run_query lib srv (getCachedDefinitions uri pos) ''textDocument/definition'' (JObj [document_field uri, position_field pos])
       (\<lambda>j. Inr (parse_locations lib j)) (\<lambda>ls q. fold (cacheDefinition now uri pos) ls q) []"

text \<open>The cache does not tell the two kinds of reference queries apart.\<close>

definition references_once ::
  "lsp_lib \<Rightarrow> server \<Rightarrow> int \<Rightarrow> string \<Rightarrow> position \<Rightarrow> bool \<Rightarrow> lsp_client \<Rightarrow> lsp_client \<times> lsp_error \<times> location list" where
  "references_once lib srv now uri pos include_decl =
     run_query lib srv (getCachedReferences uri pos) ''textDocument/references''
       (JObj [document_field uri, position_field pos, (''context'', JObj [(''includeDeclaration'', JBool include_decl)])])
       (\<lambda>j. Inr (parse_locations lib j)) (cacheReferences now uri pos) []"

text \<open>Only the text of a hover is kept in the cache.\<close>

definition hover_once ::
  "lsp_lib \<Rightarrow> server \<Rightarrow> int \<Rightarrow> string \<Rightarrow> position \<Rightarrow> lsp_client \<Rightarrow> lsp_client \<times> lsp_error \<times> lsp_hover option" where
  "hover_once lib srv now uri pos =
     run_query lib srv
       (\<lambda>q. map_option (\<lambda>t. Some \<lparr>ho_contents = t, ho_range = None\<rparr>) (getCachedHover uri pos q))
       ''textDocument/hover'' (JObj [document_field uri, position_field pos]) (parse_hover lib)
       (\<lambda>h q. case h of None \<Rightarrow> q | Some ho \<Rightarrow> cacheHover now uri pos (ho_contents ho) q) None"

text \<open>The symbols of a file are kept without what they contain and with one of their two ranges.\<close>

definition cached_of :: "doc_symbol \<Rightarrow> cached_symbol" where
  "cached_of s = \<lparr>cs_name = ds_name s, cs_kind = int_text (ds_kind s), cs_detail = ds_detail s, cs_range = ds_range s\<rparr>"

definition stored_kind :: "string \<Rightarrow> int" where
  "stored_kind s = symbol_kind (if s = [] then 13 else int (digits_value s))"

definition of_cached :: "cached_symbol \<Rightarrow> doc_symbol" where
  "of_cached s = DocSymbol (cs_name s) (cs_detail s) (stored_kind (cs_kind s)) (cs_range s) (cs_range s) []"

definition symbols_once ::
  "lsp_lib \<Rightarrow> server \<Rightarrow> int \<Rightarrow> string \<Rightarrow> lsp_client \<Rightarrow> lsp_client \<times> lsp_error \<times> doc_symbol list" where
  "symbols_once lib srv now uri =
     run_query lib srv (\<lambda>q. map_option (map of_cached) (getCachedDocumentSymbols uri q))
       ''textDocument/documentSymbol'' (JObj [document_field uri]) (parse_document_symbols lib)
       (\<lambda>ss q. if ss = [] then q else cacheDocumentSymbols now uri (map cached_of ss) q) []"

definition cached_ws_of :: "symbol_info \<Rightarrow> cached_ws_symbol" where
  "cached_ws_of s =
     \<lparr>cw_file = fst (si_location s), cw_name = si_name s, cw_kind = int_text (si_kind s), cw_container = si_container s,
      cw_range = snd (si_location s)\<rparr>"

definition of_cached_ws :: "cached_ws_symbol \<Rightarrow> symbol_info" where
  "of_cached_ws s =
     \<lparr>si_name = cw_name s, si_kind = stored_kind (cw_kind s), si_location = (''file://'' @ cw_file s, cw_range s),
      si_container = cw_container s\<rparr>"

definition workspace_symbols_once ::
  "lsp_lib \<Rightarrow> server \<Rightarrow> int \<Rightarrow> string \<Rightarrow> lsp_client \<Rightarrow> lsp_client \<times> lsp_error \<times> symbol_info list" where
  "workspace_symbols_once lib srv now query =
     run_query lib srv (\<lambda>q. map_option (map of_cached_ws) (getCachedWorkspaceSymbols query q))
       ''workspace/symbol'' (JObj [(''query'', JStr query)]) (parse_symbol_information lib)
       (\<lambda>ss q. if ss = [] then q else cacheWorkspaceSymbols now query (map cached_ws_of ss) q) []"

definition cached_fold_of :: "lsp_folding \<Rightarrow> cached_fold" where
  "cached_fold_of f =
     \<lparr>cf_start = fo_start f, cf_end = fo_end f,
      cf_kind = (case fo_kind f of Some k \<Rightarrow> foldingRangeKindToString k | None \<Rightarrow> [])\<rparr>"

definition of_cached_fold :: "cached_fold \<Rightarrow> lsp_folding" where
  "of_cached_fold f = \<lparr>fo_start = cf_start f, fo_end = cf_end f, fo_kind = fold_kind_of (cf_kind f)\<rparr>"

definition foldings_query ::
  "lsp_lib \<Rightarrow> server \<Rightarrow> int \<Rightarrow> string \<Rightarrow> lsp_client \<Rightarrow> lsp_client \<times> lsp_error \<times> lsp_folding list" where
  "foldings_query lib srv now uri =
     run_query lib srv (\<lambda>q. map_option (map of_cached_fold) (getCachedFoldingRanges uri q))
       ''textDocument/foldingRange'' (JObj [document_field uri]) (\<lambda>j. Inr (parse_foldings lib j))
       (\<lambda>fs q. if fs = [] then q else cacheFoldingRanges now uri (map cached_fold_of fs) q) []"

section \<open>The retry while a server warms up\<close>

text \<open>What one look at the clock and the activity finds.\<close>

record warm_view =
  wv_now :: int
  wv_tokens :: int
  wv_activity :: int
  wv_started :: int

definition recently_active :: "warm_view \<Rightarrow> bool" where
  "recently_active v \<longleftrightarrow> wv_activity v \<noteq> 0 \<and> wv_now v - wv_activity v < 10000"

definition isWarmingUp :: "warm_view \<Rightarrow> bool" where
  "isWarmingUp v \<longleftrightarrow>
     0 < wv_tokens v \<or> recently_active v \<or> wv_started v \<noteq> 0 \<and> wv_activity v = 0 \<and> wv_now v - wv_started v < 5000"

definition is_busy :: "warm_view \<Rightarrow> bool" where
  "is_busy v \<longleftrightarrow> 0 < wv_tokens v \<or> recently_active v"

definition retry_deadline :: "int \<Rightarrow> warm_view \<Rightarrow> int" where
  "retry_deadline start v = start + (if is_busy v then 180000 else 20000)"

text \<open>
  \<^verbatim>\<open>withWarmupRetry\<close>: \<open>attempt n\<close> is the \<open>n\<close>-th try, with whether it got anything; \<open>first n\<close> and \<open>second n\<close> are the two
  looks after it. The result is the last try, how many there were, and whether the server was still warming up. Nothing
  in the loop itself makes it end.
\<close>

partial_function (option) retry_loop ::
  "(nat \<Rightarrow> 'c \<Rightarrow> 'c \<times> lsp_error \<times> 'r) \<Rightarrow> ('r \<Rightarrow> bool) \<Rightarrow> (nat \<Rightarrow> warm_view) \<Rightarrow> (nat \<Rightarrow> warm_view) \<Rightarrow> int \<Rightarrow> nat \<Rightarrow> 'c
    \<Rightarrow> (('c \<times> lsp_error \<times> 'r) \<times> nat \<times> bool) option" where
  "retry_loop attempt got first second start n c =
     (case attempt n c of
        (c', e, r) \<Rightarrow>
          (if is_error e \<or> got r then Some ((c', e, r), Suc n, False)
           else if \<not> isWarmingUp (first n) \<or> retry_deadline start (second n) \<le> wv_now (second n)
           then Some ((c', e, r), Suc n, isWarmingUp (first n))
           else retry_loop attempt got first second start (Suc n) c'))"

definition gotoDefinition where
  "gotoDefinition lib srv now first second start uri pos =
     retry_loop (\<lambda>n. definition_once lib (srv n) now uri pos) (\<lambda>ls. ls \<noteq> []) first second start 0"

definition findReferences where
  "findReferences lib srv now first second start uri pos include_decl =
     retry_loop (\<lambda>n. references_once lib (srv n) now uri pos include_decl)
       (\<lambda>ls. if include_decl then 1 < length ls else ls \<noteq> []) first second start 0"

definition hover_query where
  "hover_query lib srv now first second start uri pos =
     retry_loop (\<lambda>n. hover_once lib (srv n) now uri pos) (\<lambda>h. case h of Some ho \<Rightarrow> ho_contents ho \<noteq> [] | None \<Rightarrow> False)
       first second start 0"

definition documentSymbols where
  "documentSymbols lib srv now first second start uri =
     retry_loop (\<lambda>n. symbols_once lib (srv n) now uri) (\<lambda>ss. ss \<noteq> []) first second start 0"

definition workspaceSymbols where
  "workspaceSymbols lib srv now first second start query =
     retry_loop (\<lambda>n. workspace_symbols_once lib (srv n) now query) (\<lambda>ss. ss \<noteq> []) first second start 0"

text \<open>The outcome as the caller sees it, with the flag the loop leaves.\<close>

definition finish_query :: "((lsp_client \<times> lsp_error \<times> 'r) \<times> nat \<times> bool) \<Rightarrow> lsp_client \<times> lsp_error \<times> 'r" where
  "finish_query res = (case res of ((c, e, r), _, gave_up) \<Rightarrow> (c\<lparr>cl_gave_up := gave_up\<rparr>, e, r))"

text \<open>
  \<^verbatim>\<open>waitForIndexing\<close>, by the progress tokens seen at each look, a tenth of a second apart: whether it ended in time,
  and whether it marked the server as done.
\<close>

fun wait_for_indexing :: "int list \<Rightarrow> bool \<Rightarrow> int \<Rightarrow> bool \<times> bool" where
  "wait_for_indexing [] saw quiet = (False, False)"
| "wait_for_indexing (tokens # later) saw quiet =
     (if 0 < tokens then wait_for_indexing later True 0
      else if saw \<and> 1500 \<le> quiet + 100 then (True, True)
      else if \<not> saw \<and> 3000 \<le> quiet + 100 then (True, False)
      else wait_for_indexing later saw (quiet + 100))"

subsection \<open>The retry ends\<close>

lemma retry_loop_ends:
  assumes "\<And>k. start + 750 * int k \<le> wv_now (second k)" and "n \<le> 240"
  shows "\<exists>c' e r tries gave. retry_loop attempt got first second start n c = Some ((c', e, r), tries, gave)
     \<and> n < tries \<and> tries \<le> 241 \<and> (\<exists>c0. attempt (tries - 1) c0 = (c', e, r))
     \<and> (gave \<longleftrightarrow> \<not> is_error e \<and> \<not> got r \<and> isWarmingUp (first (tries - 1)))"
  using assms(2)
proof (induction "240 - n" arbitrary: n c)
  case 0
  then have n: "n = 240" by simp
  obtain c' e r where a: "attempt n c = (c', e, r)" by (cases "attempt n c") auto
  have "retry_deadline start (second n) \<le> wv_now (second n)"
    using assms(1) [of n] n by (simp add: retry_deadline_def split: if_splits)
  then show ?case using a n by (subst retry_loop.simps) auto
next
  case (Suc m)
  obtain c' e r where a: "attempt n c = (c', e, r)" by (cases "attempt n c") auto
  show ?case
  proof (cases "is_error e \<or> got r \<or> \<not> isWarmingUp (first n) \<or> retry_deadline start (second n) \<le> wv_now (second n)")
    case True
    then show ?thesis using a Suc.prems by (subst retry_loop.simps) auto
  next
    case False
    then have "retry_loop attempt got first second start n c = retry_loop attempt got first second start (Suc n) c'"
      using a by (subst retry_loop.simps) simp
    moreover have "240 - Suc n = m" "Suc n \<le> 240" using Suc by simp_all
    ultimately show ?thesis using Suc.hyps(1) [of "Suc n" c'] by force
  qed
qed

text \<open>
  C26. A query about a server that is warming up comes to an end: if every wait of 750 milliseconds really passes on the
  clock, the loop returns after at most 241 tries (180 seconds for a busy server), with what the last try gave, and
  says that it gave up exactly when that try found nothing, without an error, while the server was still warming up.
\<close>

theorem warmup_retry_ends:
  assumes "\<And>k. start + 750 * int k \<le> wv_now (second k)"
  shows "\<exists>c' e ls tries gave.
    gotoDefinition lib srv now first second start uri pos c = Some ((c', e, ls), tries, gave) \<and> tries \<le> 241
    \<and> (\<exists>c0. definition_once lib (srv (tries - 1)) now uri pos c0 = (c', e, ls))
    \<and> (gave \<longleftrightarrow> \<not> is_error e \<and> ls = [] \<and> isWarmingUp (first (tries - 1)))"
proof -
  have "\<exists>c' e ls tries gave.
      retry_loop (\<lambda>n. definition_once lib (srv n) now uri pos) (\<lambda>ls. ls \<noteq> []) first second start 0 c = Some ((c', e, ls), tries, gave)
      \<and> 0 < tries \<and> tries \<le> 241 \<and> (\<exists>c0. definition_once lib (srv (tries - 1)) now uri pos c0 = (c', e, ls))
      \<and> (gave \<longleftrightarrow> \<not> is_error e \<and> \<not> ls \<noteq> [] \<and> isWarmingUp (first (tries - 1)))"
    by (rule retry_loop_ends) (use assms in auto)
  then show ?thesis unfolding gotoDefinition_def not_not by blast
qed

definition busy_view :: "nat \<Rightarrow> warm_view" where
  "busy_view n = \<lparr>wv_now = 1000 + 750 * int n, wv_tokens = 1, wv_activity = 0, wv_started = 500\<rparr>"

lemma warmup_retry_ends_witness:
  "\<exists>c' e ls tries gave.
    gotoDefinition demo_lsp_lib (\<lambda>n i m p. TimesOut) 7 busy_view busy_view 1000 ''file:///w/a.c'' (3, 4) (new_client ''/w'' LangC)
      = Some ((c', e, ls), tries, gave) \<and> tries \<le> 241
    \<and> (\<exists>c0. definition_once demo_lsp_lib (\<lambda>i m p. TimesOut) 7 ''file:///w/a.c'' (3, 4) c0 = (c', e, ls))
    \<and> (gave \<longleftrightarrow> \<not> is_error e \<and> ls = [] \<and> isWarmingUp (busy_view (tries - 1)))"
  by (rule warmup_retry_ends [of 1000 busy_view demo_lsp_lib "\<lambda>n i m p. TimesOut" 7]) (simp add: busy_view_def)

section \<open>Every request has one answer\<close>

text \<open>What the threads that ask, the reading thread and the owner of the client do, one lock at a time.\<close>

inductive client_step :: "lsp_lib \<Rightarrow> lsp_client \<Rightarrow> lsp_client \<Rightarrow> bool" for lib where
  Request: "client_step lib c (snd (begin_request written method params c))"
| Output: "handle_output lib now data c = Some (Done c') \<Longrightarrow> client_step lib c c'"
| Timeout: "client_step lib c (expire i c)"
| Notify: "client_step lib c (send_notification method params c)"
| Stop: "client_step lib c (stop_client c)"

definition answers_fit :: "lsp_client \<Rightarrow> bool" where
  "answers_fit c \<longleftrightarrow> (\<forall>i r. (i, Answered r) \<in> set (cl_answers c) \<longrightarrow> rs_id r = Some i)"

definition promises_inv :: "lsp_client \<Rightarrow> bool" where
  "promises_inv c \<longleftrightarrow>
     distinct (cl_pending c @ map fst (cl_answers c))
     \<and> (\<forall>i \<in> set (cl_pending c). 1 \<le> i \<and> i < cl_next c)
     \<and> (\<forall>i a. (i, a) \<in> set (cl_answers c) \<longrightarrow> 1 \<le> i \<and> i < cl_next c)
     \<and> cl_next c = 1 + int (cl_issued c) \<and> answers_fit c"

lemma handle_response_promises: "promises_inv c \<Longrightarrow> promises_inv (handle_response r c)"
  by (auto simp: promises_inv_def handle_response_def answers_fit_def split: option.split)

lemma handle_response_issued [simp]: "cl_issued (handle_response r c) = cl_issued c"
  by (simp add: handle_response_def split: option.split)

definition same_promises :: "lsp_client \<Rightarrow> lsp_client \<Rightarrow> bool" where
  "same_promises c c' \<longleftrightarrow> cl_pending c' = cl_pending c \<and> cl_answers c' = cl_answers c \<and> cl_next c' = cl_next c
     \<and> cl_issued c' = cl_issued c"

lemma same_promises_refl [simp]: "same_promises c c"
  by (simp add: same_promises_def)

lemma same_promises_inv: "same_promises c c' \<Longrightarrow> promises_inv c \<Longrightarrow> promises_inv c'"
  by (auto simp: same_promises_def promises_inv_def answers_fit_def)

lemma handle_notification_same: "same_promises c (handle_notification now method params c)"
  by (simp add: same_promises_def handle_notification_def note_progress_def note_log_def note_activity_def Let_def
      split: option.split sum.split)

lemma handle_server_request_same: "same_promises c (handle_server_request now i method params c)"
  by (simp add: same_promises_def handle_server_request_def send_json_def note_activity_def Let_def)

lemma handle_message_cases:
  assumes "handle_message lib now b c = Done c'"
  shows "same_promises c c' \<or> (\<exists>r. c' = handle_response r c)"
  using assms
  by (auto simp: handle_message_def handle_notification_same handle_server_request_same split: option.splits outcome.splits)

lemma handle_messages_promises:
  "handle_messages lib now bs c = Done c' \<Longrightarrow> cl_issued c' = cl_issued c \<and> (promises_inv c \<longrightarrow> promises_inv c')"
proof (induction bs arbitrary: c)
  case (Cons b bs)
  obtain c1 where c1: "handle_message lib now b c = Done c1" "handle_messages lib now bs c1 = Done c'"
    using Cons.prems by (cases "handle_message lib now b c") auto
  have "cl_issued c1 = cl_issued c \<and> (promises_inv c \<longrightarrow> promises_inv c1)"
    using handle_message_cases [OF c1(1)] same_promises_inv handle_response_promises
    by (auto simp: same_promises_def)
  then show ?case using Cons.IH [OF c1(2)] by simp
qed simp

lemma handle_output_promises:
  assumes "handle_output lib now data c = Some (Done c')"
  shows "cl_issued c' = cl_issued c" and "promises_inv c \<Longrightarrow> promises_inv c'"
proof -
  obtain bodies rest thrown where s: "split_messages (cl_buffer c @ data) = Some (bodies, rest, thrown)"
    using assms by (auto simp: handle_output_def)
  then obtain c1 where c1: "handle_messages lib now bodies c = Done c1" "c' = c1\<lparr>cl_buffer := rest\<rparr>"
    using assms by (cases "handle_messages lib now bodies c") (auto simp: handle_output_def split: if_splits)
  have same: "same_promises c1 c'" by (simp add: c1(2) same_promises_def)
  then show "cl_issued c' = cl_issued c"
    using handle_messages_promises [OF c1(1)] by (simp add: same_promises_def)
  show "promises_inv c'" if "promises_inv c"
    using handle_messages_promises [OF c1(1)] same_promises_inv [OF same] that by blast
qed

lemma client_step_issued: "client_step lib c c' \<Longrightarrow> cl_issued c \<le> cl_issued c'"
  by (induction rule: client_step.induct)
    (simp_all add: handle_output_promises(1) begin_request_def expire_def send_notification_def send_json_def
      stop_client_def Let_def)

lemma begin_request_promises:
  assumes "promises_inv c" and "cl_issued c < 2 ^ 31 - 2"
  shows "promises_inv (snd (begin_request written method params c))"
proof -
  have next': "cl_next c = 1 + int (cl_issued c)" using assms(1) by (simp add: promises_inv_def)
  then have "to_int32 (cl_next c + 1) = cl_next c + 1"
    using assms(2) by (intro to_int32_small) auto
  moreover have "cl_next c \<notin> set (cl_pending c)" "cl_next c \<notin> fst ` set (cl_answers c)"
    using assms(1) unfolding promises_inv_def by force+
  ultimately show ?thesis
    using assms(1) next' by (auto simp: promises_inv_def begin_request_def answers_fit_def Let_def)
qed

lemma stop_promises: "promises_inv c \<Longrightarrow> promises_inv (stop_client c)"
proof -
  have "fst ` (\<lambda>i. (i, Stopped)) ` A = A" for A :: "int set" by force
  then show "promises_inv c \<Longrightarrow> promises_inv (stop_client c)"
    by (auto simp: promises_inv_def stop_client_def answers_fit_def comp_def)
qed

lemma client_step_promises:
  assumes "client_step lib c c'" and "promises_inv c" and "cl_issued c' < 2 ^ 31 - 1"
  shows "promises_inv c'"
  using assms(1)
proof (cases rule: client_step.cases)
  case (Request written mth params)
  then have "cl_issued c' = Suc (cl_issued c)" by (simp add: begin_request_def Let_def)
  then show ?thesis using Request assms(2,3) begin_request_promises by simp
next
  case (Output now data)
  then show ?thesis using handle_output_promises(2) assms(2) by blast
next
  case (Timeout i)
  then show ?thesis using assms(2) by (auto simp: promises_inv_def expire_def answers_fit_def)
next
  case (Notify mth params)
  have "same_promises c c'" by (simp add: Notify same_promises_def send_notification_def send_json_def)
  then show ?thesis using same_promises_inv assms(2) by blast
next
  case Stop
  then show ?thesis using stop_promises assms(2) by simp
qed

lemma client_run_promises:
  assumes "(client_step lib)\<^sup>*\<^sup>* (new_client ws lang) c" and "cl_issued c < 2 ^ 31 - 1"
  shows "promises_inv c"
  using assms
proof (induction rule: rtranclp_induct)
  case base
  then show ?case by (simp add: promises_inv_def new_client_def answers_fit_def)
next
  case (step c c')
  then show ?case using client_step_issued client_step_promises by fastforce
qed

text \<open>
  C25. Requests and answers are matched: however the asking threads, the reading thread, timeouts and a stop
  interleave, a request gets at most one answer, a response only reaches the request whose identifier it carries, no
  request that was answered still waits, and only requests that were made are answered (up to the 2^31 - 2 requests
  after which identifiers repeat).
\<close>

theorem requests_answered_once:
  assumes "(client_step lib)\<^sup>*\<^sup>* (new_client ws lang) c" and "cl_issued c < 2 ^ 31 - 1"
  shows "distinct (map fst (cl_answers c))
    \<and> (\<forall>i r. (i, Answered r) \<in> set (cl_answers c) \<longrightarrow> rs_id r = Some i)
    \<and> (\<forall>i \<in> set (cl_pending c). i \<notin> fst ` set (cl_answers c))
    \<and> (\<forall>i \<in> fst ` set (cl_answers c). 1 \<le> i \<and> i \<le> int (cl_issued c))"
proof -
  have inv: "promises_inv c" by (rule client_run_promises [OF assms])
  show ?thesis
  proof (intro conjI)
    show "distinct (map fst (cl_answers c))" using inv by (simp add: promises_inv_def)
    show "\<forall>i r. (i, Answered r) \<in> set (cl_answers c) \<longrightarrow> rs_id r = Some i"
      using inv by (simp add: promises_inv_def answers_fit_def)
    show "\<forall>i \<in> set (cl_pending c). i \<notin> fst ` set (cl_answers c)"
      using inv by (auto simp: promises_inv_def)
    show "\<forall>i \<in> fst ` set (cl_answers c). 1 \<le> i \<and> i \<le> int (cl_issued c)"
      using inv by (fastforce simp: promises_inv_def)
  qed
qed

definition answering_lib :: lsp_lib where
  "answering_lib = demo_lsp_lib\<lparr>ll_parse := (\<lambda>_. Some (JObj [(''id'', JInt 1), (''result'', JNull)]))\<rparr>"

definition asked_client :: lsp_client where
  "asked_client = snd (begin_request True ''initialize'' (JObj []) (new_client ''/w'' LangC))"

definition answered_client :: lsp_client where
  "answered_client = handle_response \<lparr>rs_id = Some 1, rs_result = Some JNull, rs_error = None\<rparr> asked_client"

lemma asked_output: "handle_output answering_lib 0 (lsp_frame ''{}'') asked_client = Some (Done answered_client)"
proof -
  have "split_messages (lsp_frame ''{}'') = Some ([''{}''], [], False)"
    using split_frames [of "[''{}'']" "[]"] by (simp add: sendable_def)
  moreover have "cl_buffer asked_client = []" "cl_buffer answered_client = []"
    by (simp_all add: asked_client_def answered_client_def new_client_def begin_request_def handle_response_def Let_def)
  ultimately show ?thesis
    by (simp add: handle_output_def handle_message_def answering_lib_def response_of_def lift_try_def to_int32_def
        answered_client_def)
qed

lemma requests_answered_once_witness: "distinct (map fst (cl_answers answered_client)) \<and> cl_answers answered_client \<noteq> []"
proof -
  have "client_step answering_lib (new_client ''/w'' LangC) asked_client"
    unfolding asked_client_def by (rule client_step.Request)
  moreover have "client_step answering_lib asked_client answered_client"
    by (rule client_step.Output [OF asked_output])
  ultimately have "(client_step answering_lib)\<^sup>*\<^sup>* (new_client ''/w'' LangC) answered_client" by simp
  moreover have "cl_issued answered_client < 2 ^ 31 - 1"
    by (simp add: answered_client_def asked_client_def handle_response_def begin_request_def new_client_def Let_def)
  ultimately have "distinct (map fst (cl_answers answered_client))"
    using requests_answered_once [of answering_lib "''/w''" LangC answered_client] by simp
  then show ?thesis
    by (simp add: answered_client_def asked_client_def handle_response_def begin_request_def new_client_def Let_def)
qed

section \<open>Queries through the cache\<close>

definition ready_cached :: "lsp_client \<Rightarrow> query_cache \<Rightarrow> bool" where
  "ready_cached c q \<longleftrightarrow> is_ready c \<and> cl_cache c = Some q \<and> qc_active q"

lemma run_query_cached:
  "is_ready c \<Longrightarrow> cl_cache c = Some q \<Longrightarrow> cached q = Some r
    \<Longrightarrow> run_query lib srv cached method params parse store none c = (c, no_error, r)"
  by (simp add: run_query_def)

lemma ask_ready:
  assumes "ask srv method params c = (c', Inr r)"
  shows "cl_cache c' = cl_cache c" "is_ready c' = is_ready c"
  using assms by (auto simp: ask_def begin_request_def handle_response_def is_ready_def Let_def split: request_end.splits)

text \<open>A query that was answered without an error has stored what it answered.\<close>

lemma run_query_stores:
  assumes "run_query lib srv cached method params parse store none c = (c', e, r)" and "is_ready c"
    and "cl_cache c = Some q" and "cached q = None" and "\<not> is_error e" and "r \<noteq> none"
  shows "is_ready c' \<and> cl_cache c' = Some (store r q)"
proof -
  obtain c1 a where a: "ask srv method params c = (c1, a)" by (cases "ask srv method params c") auto
  show ?thesis
  proof (cases a)
    case (Inl what)
    then show ?thesis using assms a by (simp add: run_query_def)
  next
    case (Inr resp)
    then have "cl_cache c1 = Some q" "is_ready c1" using ask_ready [of srv "method" params c c1 resp] a assms(2,3) by simp_all
    then show ?thesis
      using assms a Inr by (auto simp: run_query_def is_ready_def split: option.splits sum.splits)
  qed
qed

lemma store_definitions: "fold (cacheDefinition now uri pos) ls q = put_definitions (now, uri, pos) ls q"
  by (simp add: put_definitions_def)

text \<open>
  A definition that was found is found again, without the server: after \<^verbatim>\<open>gotoDefinition\<close> answered some locations
  with the cache attached, asking the same position again gives the same locations (as the cache reads them back, which
  is the same for file URIs) whatever the server would say now, and leaves the client as it is.
\<close>

theorem definition_cached_again:
  assumes "ready_cached c q" and "getCachedDefinitions uri pos q = None"
    and "definition_once lib srv now uri pos c = (c', e, ls)" and "\<not> is_error e" and "ls \<noteq> []"
  shows "definition_once lib srv' now' uri pos c' = (c', no_error, map seen_location ls)"
proof -
  have r: "is_ready c" "cl_cache c = Some q" "qc_active q" using assms(1) by (simp_all add: ready_cached_def)
  have st: "is_ready c' \<and> cl_cache c' = Some (fold (cacheDefinition now uri pos) ls q)"
    using run_query_stores [OF assms(3) [unfolded definition_once_def] r(1,2) assms(2,4,5)] .
  have "rows_of (normalizeFilePath uri, pos) (qc_sha q) (qc_definitions q) = []"
    using assms(2) r(3) by (simp add: getCachedDefinitions_def)
  then have "getCachedDefinitions uri pos (put_definitions (now, uri, pos) ls q) = Some (map seen_location ls)"
    using assms(5) r(3)
    by (simp add: getCachedDefinitions_def put_definitions_rows location_key_def answer_of_def seen_location_def [abs_def] comp_def)
  then show ?thesis
    using st unfolding definition_once_def store_definitions by (intro run_query_cached) simp_all
qed

definition cached_client :: lsp_client where
  "cached_client = (new_client ''/w'' LangC)\<lparr>cl_initialized := True, cl_running := True, cl_cache := Some (empty_cache ''abc'')\<rparr>"

definition one_location :: location where
  "one_location = (''file:///w/b.c'', ((1, 0), (1, 3)))"

definition locating_server :: server where
  "locating_server = (\<lambda>i m p. Gets \<lparr>rs_id = None, rs_result = Some (JArr [location_json one_location]), rs_error = None\<rparr>)"

lemma located:
  "\<exists>c'. definition_once demo_lsp_lib locating_server 5 ''file:///w/a.c'' (3, 4) cached_client = (c', no_error, [one_location])"
proof -
  have "parse_locations demo_lsp_lib (JArr [location_json one_location]) = [one_location]"
    using locations_roundtrip [of "[one_location]" demo_lsp_lib]
    by (simp add: one_location_def int32_range_def int32_position_def int32_def)
  moreover have "getCachedDefinitions ''file:///w/a.c'' (3, 4) (empty_cache ''abc'') = None" by code_simp
  moreover have "is_ready cached_client" "cl_cache cached_client = Some (empty_cache ''abc'')"
    by (simp_all add: cached_client_def is_ready_def)
  ultimately show ?thesis
    by (simp add: definition_once_def run_query_def ask_def locating_server_def begin_request_def Let_def)
qed

lemma definition_cached_again_witness:
  "\<exists>c'. definition_once demo_lsp_lib (\<lambda>i m p. CannotWrite) 6 ''file:///w/a.c'' (3, 4) c'
        = (c', no_error, map seen_location [one_location])"
proof -
  obtain c' where c': "definition_once demo_lsp_lib locating_server 5 ''file:///w/a.c'' (3, 4) cached_client = (c', no_error, [one_location])"
    using located by blast
  have none: "getCachedDefinitions ''file:///w/a.c'' (3, 4) (empty_cache ''abc'') = None" by code_simp
  have ready: "ready_cached cached_client (empty_cache ''abc'')"
    by (simp add: ready_cached_def cached_client_def is_ready_def qc_active_def cache_active_def empty_cache_def)
  have "definition_once demo_lsp_lib (\<lambda>i m p. CannotWrite) 6 ''file:///w/a.c'' (3, 4) c' = (c', no_error, map seen_location [one_location])"
    by (rule definition_cached_again [OF ready none c']) (simp_all add: is_error_def no_error_def)
  then show ?thesis by blast
qed

text \<open>Two flaws of the cached answers: a reference query is answered with what the other kind stored, and an outline loses its nesting.\<close>

lemma references_ignore_declaration:
  assumes "is_ready c" and "cl_cache c = Some q" and "getCachedReferences uri pos q = Some ls"
  shows "references_once lib srv now uri pos True c = references_once lib srv now uri pos False c"
  using run_query_cached [where cached = "getCachedReferences uri pos", OF assms] by (simp add: references_once_def)

lemma cached_outline_flat:
  assumes "is_ready c" and "cl_cache c = Some q" and "symbols_once lib srv now uri c = (c', no_error, ss)"
    and "getCachedDocumentSymbols uri q \<noteq> None"
  shows "\<forall>s \<in> set ss. ds_children s = [] \<and> ds_selection s = ds_range s"
proof -
  obtain cs where "getCachedDocumentSymbols uri q = Some cs" using assms(4) by blast
  then have "ss = map of_cached cs"
    using assms(1,2,3) by (simp add: symbols_once_def run_query_def)
  then show ?thesis by (auto simp: of_cached_def)
qed

section \<open>Requests from the server\<close>

lemma reply_key: "fst (server_reply c m params) = ''result'' \<or> fst (server_reply c m params) = ''error''"
  by (simp add: server_reply_def)

text \<open>
  Every request from the server is answered exactly once, with its own identifier, whatever its method and even when
  the client does not support it.
\<close>

lemma server_request_answered:
  assumes "ll_parse lib body = Some j" and "str_field ''method'' j = Some m" and "jfind ''id'' j = Some i"
  shows "\<exists>c' answer. handle_message lib now body c = Done c' \<and> cl_sent c' = cl_sent c @ [answer] \<and> jfind ''id'' answer = Some i
           \<and> (jhas ''result'' answer \<noteq> jhas ''error'' answer)"
proof -
  have m: "jfind ''method'' j = Some (JStr m)" using assms(2) by (simp add: str_field_Some)
  let ?c = "handle_server_request now i m (message_params j) c"
  have "handle_message lib now body c = Done ?c"
    using assms(1,3) m by (simp add: handle_message_def)
  moreover obtain k v where kv: "server_reply c m (message_params j) = (k, v)" "k = ''result'' \<or> k = ''error''"
    using reply_key [of c m "message_params j"] by (cases "server_reply c m (message_params j)") simp
  moreover have "cl_sent ?c = cl_sent c @ [JObj [(''jsonrpc'', JStr ''2.0''), (''id'', i), (k, v)]]"
    using kv(1) by (simp add: handle_server_request_def send_json_def note_activity_def Let_def)
  ultimately show ?thesis by (auto simp: jhas_def)
qed

lemma tokens_never_negative: "0 \<le> cl_tokens c \<Longrightarrow> 0 \<le> cl_tokens (handle_notification now method params c)"
  by (simp add: handle_notification_def note_progress_def note_log_def note_activity_def Let_def split: option.split sum.split)

end
