(* ===== verification/DeclSearch.thy ===== *)
theory DeclSearch
  imports LspClient
begin

text \<open>
  The text search that stands in for a language server (\<^verbatim>\<open>src/core/src/lsp/DeclarationSearch.cpp\<close>): the identifier under
  the cursor, the patterns of a declaration in each language, and the scans of a workspace for declarations and for
  occurrences. The patterns are regular expressions of the standard library, whose search is written out for the
  constructs they use: whether there is a match and where the leftmost one starts, which is all the code looks at.
\<close>

section \<open>Regular expressions\<close>

datatype rx =
    Ch "char \<Rightarrow> bool"
  | Lit string
  | Then rx rx
  | Or rx rx
  | Many rx
  | Nothing
  | AtStart
  | AtEnd
  | Boundary
  | NotBefore char

text \<open>The positions behind a match that begins at \<open>i\<close>; a repetition does not count a turn that matched nothing.\<close>

definition word_at :: "string \<Rightarrow> nat \<Rightarrow> bool" where
  "word_at s i \<longleftrightarrow> i < length s \<and> ident_char (s ! i)"

definition at_boundary :: "string \<Rightarrow> nat \<Rightarrow> bool" where
  "at_boundary s i \<longleftrightarrow> (0 < i \<and> word_at s (i - 1)) \<noteq> word_at s i"

definition repeat_from :: "(nat \<Rightarrow> nat list) \<Rightarrow> nat \<Rightarrow> nat \<Rightarrow> nat list" where
  "repeat_from step i len = fold (\<lambda>j acc. if j \<in> set acc then acc @ filter (\<lambda>k. k \<notin> set acc) (step j) else acc) [i..<Suc len] [i]"

fun rx_ends :: "rx \<Rightarrow> string \<Rightarrow> nat \<Rightarrow> nat list" where
  "rx_ends (Ch P) s i = (if i < length s \<and> P (s ! i) then [Suc i] else [])"
| "rx_ends (Lit w) s i = (if starts_with (drop i s) w then [i + length w] else [])"
| "rx_ends (Then a b) s i = concat (map (rx_ends b s) (rx_ends a s i))"
| "rx_ends (Or a b) s i = rx_ends a s i @ rx_ends b s i"
| "rx_ends (Many a) s i = repeat_from (rx_ends a s) i (length s)"
| "rx_ends Nothing s i = [i]"
| "rx_ends AtStart s i = (if i = 0 then [i] else [])"
| "rx_ends AtEnd s i = (if i = length s then [i] else [])"
| "rx_ends Boundary s i = (if at_boundary s i then [i] else [])"
| "rx_ends (NotBefore c) s i = (if i < length s \<and> s ! i = c then [] else [i])"

text \<open>\<^verbatim>\<open>regex_search\<close>: where the leftmost match starts.\<close>

definition rx_search :: "rx \<Rightarrow> string \<Rightarrow> nat option" where
  "rx_search r s = List.find (\<lambda>i. rx_ends r s i \<noteq> []) [0..<Suc (length s)]"

fun in_order :: "rx list \<Rightarrow> rx" where
  "in_order [] = Nothing"
| "in_order [r] = r"
| "in_order (r # rs) = Then r (in_order rs)"

fun one_of :: "rx list \<Rightarrow> rx" where
  "one_of [] = Nothing"
| "one_of [r] = r"
| "one_of (r # rs) = Or r (one_of rs)"

definition opt :: "rx \<Rightarrow> rx" where "opt r = Or r Nothing"

definition some :: "rx \<Rightarrow> rx" where "some r = Then r (Many r)"

definition one_word :: "string list \<Rightarrow> rx" where "one_word ws = one_of (map Lit ws)"

definition among :: "string \<Rightarrow> rx" where "among cs = Ch (\<lambda>c. c \<in> set cs)"

definition except :: "string \<Rightarrow> rx" where "except cs = Ch (\<lambda>c. c \<notin> set cs)"

definition space :: rx where "space = Ch is_space"

definition spaces :: rx where "spaces = Many space"

definition gap :: rx where "gap = some space"

section \<open>Declarations\<close>

datatype rule_extra = NoExtra | NotForwardDecl | CFunctionDef | CVariableDef

record decl_rule =
  dr_rx :: rx
  dr_rank :: nat
  dr_extra :: rule_extra

definition rule :: "rx list \<Rightarrow> nat \<Rightarrow> rule_extra \<Rightarrow> decl_rule" where
  "rule rs rank extra = \<lparr>dr_rx = in_order rs, dr_rank = rank, dr_extra = extra\<rparr>"

definition swift_rules :: "string \<Rightarrow> decl_rule list" where
  "swift_rules n =
     [rule [Boundary, one_word [''class'', ''struct'', ''enum'', ''protocol'', ''actor'', ''typealias'', ''associatedtype'',
              ''extension'', ''macro''], gap, Lit n, Boundary] 3 NoExtra,
      rule [Boundary, Lit ''func'', gap, Lit n, spaces, among ''(<''] 2 NoExtra,
      rule [Boundary, one_word [''var'', ''let'', ''case''], gap, Lit n, Boundary] 1 NoExtra]"

definition c_rules :: "string \<Rightarrow> decl_rule list" where
  "c_rules n =
     [rule [Boundary, one_of [Lit ''class'', Lit ''struct'', in_order [Lit ''enum'', opt (in_order [gap, Lit ''class''])],
              Lit ''union'', Lit ''namespace''], gap, Lit n, Boundary] 3 NotForwardDecl,
      rule [Lit ''@'', one_word [''interface'', ''implementation'', ''protocol''], gap, Lit n, Boundary] 3 NoExtra,
      rule [Lit ''#'', spaces, Lit ''define'', gap, Lit n, Boundary] 3 NoExtra,
      rule [Boundary, Lit ''using'', gap, Lit n, spaces, Lit ''=''] 3 NoExtra,
      rule [Boundary, Lit ''typedef'', Boundary, Many (except [CHR 0x0A, CHR 0x0D]), Boundary, Lit n, spaces, Lit '';''] 3 NoExtra,
      rule [AtStart, spaces, among ''-+'', spaces, Lit ''('', Many (except '')''), Lit '')'', spaces, Lit n, Boundary] 2 NoExtra,
      rule [Or AtStart (Ch (\<lambda>c. is_space c \<or> c \<in> set ''*&:~'')), Lit n, spaces, Lit ''(''] 2 CFunctionDef,
      rule [Ch (\<lambda>c. ident_char c \<or> c \<in> set ''>*&''), gap, Many (Lit ''*''), Lit n, spaces,
            one_of [in_order [Lit ''='', NotBefore CHR ''=''], Lit '';'', Lit ''['', Lit ''{'']] 1 CVariableDef]"

definition python_rules :: "string \<Rightarrow> decl_rule list" where
  "python_rules n =
     [rule [AtStart, spaces, Lit ''class'', gap, Lit n, Boundary] 3 NoExtra,
      rule [AtStart, spaces, opt (in_order [Lit ''async'', gap]), Lit ''def'', gap, Lit n, spaces, Lit ''(''] 2 NoExtra,
      rule [AtStart, spaces, Lit n, spaces, opt (in_order [Lit '':'', some (except ''='')]), Lit ''='', NotBefore CHR ''=''] 1 NoExtra]"

definition go_rules :: "string \<Rightarrow> decl_rule list" where
  "go_rules n =
     [rule [AtStart, spaces, Lit ''type'', gap, Lit n, Boundary] 3 NoExtra,
      rule [AtStart, spaces, Lit ''func'', gap, opt (in_order [Lit ''('', Many (except '')''), Lit '')'', spaces]), Lit n, spaces,
            among ''(['' ] 2 NoExtra,
      rule [AtStart, spaces, one_word [''var'', ''const''], gap, Lit n, Boundary] 1 NoExtra,
      rule [AtStart, spaces, Lit n, spaces, opt (in_order [Lit '','', spaces, some (Ch ident_char), spaces]), Lit '':=''] 1 NoExtra]"

definition rust_rules :: "string \<Rightarrow> decl_rule list" where
  "rust_rules n =
     [rule [Boundary, one_word [''struct'', ''enum'', ''trait'', ''type'', ''mod'', ''union''], gap, Lit n, Boundary] 3 NoExtra,
      rule [Boundary, Lit ''macro_rules!'', spaces, Lit n, Boundary] 3 NoExtra,
      rule [Boundary, Lit ''fn'', gap, Lit n, spaces, among ''(<''] 2 NoExtra,
      rule [Boundary, one_word [''const'', ''static'', ''let''], gap, opt (in_order [Lit ''mut'', gap]), Lit n, Boundary] 1 NoExtra]"

definition js_modifiers :: "string list" where
  "js_modifiers = [''export'', ''static'', ''async'', ''public'', ''private'', ''protected'', ''readonly'', ''get'', ''set'', ''override'']"

definition js_rules :: "string \<Rightarrow> decl_rule list" where
  "js_rules n =
     [rule [Boundary, one_word [''class'', ''interface'', ''type'', ''enum'', ''namespace''], gap, Lit n, Boundary] 3 NoExtra,
      rule [Boundary, Lit ''function'', spaces, opt (Lit ''*''), spaces, Lit n, spaces, among ''(<''] 2 NoExtra,
      rule [Boundary, Lit n, spaces, among '':='', spaces, opt (in_order [Lit ''async'', spaces]),
            one_of [in_order [Lit ''function'', Boundary],
              in_order [Lit ''('', Many (except '')''), Lit '')'', spaces, opt (in_order [Lit '':'', Many (except ''='')]), Lit ''=>''],
              in_order [Ch (\<lambda>c. (ident_char c \<and> \<not> is_digit c) \<or> c = CHR ''$''),
                Many (Ch (\<lambda>c. ident_char c \<or> c = CHR ''$'')), spaces, Lit ''=>'']]] 2 NoExtra,
      rule [AtStart, spaces, Many (in_order [one_word js_modifiers, gap]), Lit n, spaces, Lit ''('', Many (except '')''), Lit '')'',
            spaces, opt (in_order [Lit '':'', some (except ''{;'')]), Lit ''{''] 2 NoExtra,
      rule [Boundary, one_word [''const'', ''let'', ''var''], gap, Lit n, Boundary] 1 NoExtra]"

definition general_rules :: "string \<Rightarrow> decl_rule list" where
  "general_rules n =
     [rule [Boundary, one_word [''class'', ''struct'', ''enum'', ''interface'', ''trait'', ''object'', ''record'', ''type'', ''typealias'',
              ''module'', ''namespace'', ''protocol'', ''actor'', ''union''], gap, Lit n, Boundary] 3 NoExtra,
      rule [Boundary, one_word [''def'', ''fn'', ''func'', ''function'', ''fun'', ''sub'', ''proc'', ''method'', ''defp'', ''defmacro''],
            gap, Lit n, Boundary] 2 NoExtra,
      rule [AtStart, spaces, some (in_order [some (Ch (\<lambda>c. ident_char c \<or> c \<in> set ''<>[],.?:*&'')), gap]), Lit n, spaces,
            Lit ''('', Many (except '';''), AtEnd] 2 NoExtra,
      rule [Boundary, one_word [''val'', ''var'', ''let'', ''const'', ''static'', ''final'', ''my'', ''our'', ''local''], gap, Lit n,
            Boundary] 1 NoExtra,
      rule [AtStart, spaces, Lit n, spaces, Lit ''='', NotBefore CHR ''=''] 1 NoExtra]"

fun rulesFor :: "language \<Rightarrow> string \<Rightarrow> decl_rule list" where
  "rulesFor LangSwift n = swift_rules n"
| "rulesFor LangC n = c_rules n"
| "rulesFor LangCpp n = c_rules n"
| "rulesFor LangPython n = python_rules n"
| "rulesFor LangGo n = go_rules n"
| "rulesFor LangRust n = rust_rules n"
| "rulesFor LangJavaScript n = js_rules n"
| "rulesFor LangTypeScript n = js_rules n"
| "rulesFor LangUnknown n = general_rules n"

subsection \<open>Words\<close>

definition isIdentifier :: "string \<Rightarrow> bool" where
  "isIdentifier s \<longleftrightarrow> s \<noteq> [] \<and> \<not> is_digit (hd s) \<and> list_all ident_char s"

definition whole_word_at :: "string \<Rightarrow> string \<Rightarrow> nat \<Rightarrow> bool" where
  "whole_word_at line name p \<longleftrightarrow>
     starts_with (drop p line) name \<and> \<not> (0 < p \<and> word_at line (p - 1)) \<and> \<not> word_at line (p + length name)"

definition findWord :: "string \<Rightarrow> string \<Rightarrow> nat \<Rightarrow> nat option" where
  "findWord line name start =
     (if name = [] then None else List.find (whole_word_at line name) [start..<Suc (length line)])"

definition trimLeft :: "string \<Rightarrow> string" where
  "trimLeft s = dropWhile (\<lambda>c. c = CHR '' '' \<or> c = CHR 0x09) s"

definition trimRight :: "string \<Rightarrow> string" where
  "trimRight s = rstrip (\<lambda>c. c = CHR '' '' \<or> c = CHR 0x09 \<or> c = CHR 0x0D) s"

definition startsWithKeyword :: "string \<Rightarrow> string list \<Rightarrow> bool" where
  "startsWithKeyword line ws \<longleftrightarrow>
     list_ex (\<lambda>w. starts_with (trimLeft line) w \<and> \<not> word_at (trimLeft line) (length w)) ws"

definition statement_words :: "string list" where
  "statement_words = [''return'', ''if'', ''else'', ''while'', ''for'', ''switch'', ''case'', ''do'', ''throw'', ''new'', ''delete'',
     ''sizeof'', ''co_return'', ''co_await'']"

definition no_variable_words :: "string list" where
  "no_variable_words = [''extern'', ''return'', ''throw'', ''delete'', ''goto'', ''case'', ''friend'', ''using'']"

definition not_a_typeword :: "string list" where
  "not_a_typeword = [''class'', ''struct'', ''enum'', ''union'', ''namespace'', ''return'', ''new'', ''delete'', ''throw'',
     ''typedef'', ''using'', ''friend'', ''goto'', ''case'', ''else'', ''sizeof'', ''extern'', ''co_return'', ''co_yield'', ''await'',
     ''yield'', ''import'', ''export'', ''throws'']"

text \<open>The word before a column, past blanks, stars and ampersands.\<close>

definition word_before :: "string \<Rightarrow> nat \<Rightarrow> string" where
  "word_before line col =
     rev (takeWhile ident_char (dropWhile (\<lambda>c. c \<in> {CHR '' '', CHR 0x09, CHR ''*'', CHR ''&''}) (rev (take col line))))"

definition passesExtra :: "rule_extra \<Rightarrow> string \<Rightarrow> string \<Rightarrow> nat \<Rightarrow> bool" where
  "passesExtra extra line name pos =
     (case extra of
        NoExtra \<Rightarrow> True
      | NotForwardDecl \<Rightarrow>
          (let t = trimRight line in \<not> (t \<noteq> [] \<and> last t = CHR '';'' \<and> CHR ''{'' \<notin> set t))
      | CVariableDef \<Rightarrow>
          \<not> startsWithKeyword line no_variable_words
          \<and> (case findWord line name pos of None \<Rightarrow> False | Some col \<Rightarrow> word_before line col \<notin> set not_a_typeword)
      | CFunctionDef \<Rightarrow>
          CHR '';'' \<notin> set line \<and> \<not> startsWithKeyword line statement_words
          \<and> (let b = take pos line in CHR ''='' \<notin> set b \<and> CHR ''('' \<notin> set b \<and> \<not> has_sub ''return '' b)
          \<and> (case findWord line name pos of
               None \<Rightarrow> False
             | Some col \<Rightarrow>
                 \<not> (1 \<le> col \<and> line ! (col - 1) = CHR ''.'')
                 \<and> \<not> (2 \<le> col \<and> line ! (col - 2) = CHR ''-'' \<and> line ! (col - 1) = CHR ''>'')))"

definition rule_matches :: "decl_rule \<Rightarrow> string \<Rightarrow> string \<Rightarrow> bool" where
  "rule_matches r line name =
     (case rx_search (dr_rx r) line of None \<Rightarrow> False | Some pos \<Rightarrow> passesExtra (dr_extra r) line name pos)"

definition line_rank :: "decl_rule list \<Rightarrow> string \<Rightarrow> string \<Rightarrow> nat" where
  "line_rank rules line name =
     fold (\<lambda>r best. if dr_rank r \<le> best then best else if rule_matches r line name then dr_rank r else best) rules 0"

definition declarationRank :: "language \<Rightarrow> string \<Rightarrow> string \<Rightarrow> nat" where
  "declarationRank lang line name =
     (if \<not> isIdentifier name \<or> findWord line name 0 = None then 0 else line_rank (rulesFor lang name) line name)"

section \<open>The identifier under the cursor\<close>

definition identifierAt :: "string \<Rightarrow> int \<Rightarrow> int \<Rightarrow> string" where
  "identifierAt content line character =
     (let ls = split_on CHR 0x0A content
      in if line < 0 \<or> character < 0 \<or> length ls \<le> nat line then []
         else (let l = ls ! nat line; c = nat character;
                   at = (if word_at l c then Some c else if 1 \<le> c \<and> word_at l (c - 1) then Some (c - 1) else None)
               in case at of
                    None \<Rightarrow> []
                  | Some p \<Rightarrow>
                      (let w = rev (takeWhile ident_char (rev (take p l))) @ takeWhile ident_char (drop p l)
                       in if isIdentifier w then w else [])))"

section \<open>Files of the workspace\<close>

text \<open>
  What the directory iterator meets: a directory with what is in it (nothing for a link to one, which is not
  followed), a regular file with its size and its bytes when they can be had, or something else.
\<close>

datatype ws_entry =
    WsDir string "ws_entry list"
  | WsFile string "nat option" "string option"
  | WsOther string

record source_file =
  sf_path :: string
  sf_name :: string
  sf_size :: "nat option"
  sf_bytes :: "string option"

definition skippedDirs :: "string list" where
  "skippedDirs = [''node_modules'', ''DerivedData'', ''Pods'', ''build'', ''Build'', ''_build'', ''target'', ''dist'', ''out'',
     ''__pycache__'', ''venv'', ''bin'', ''obj'', ''vendor'']"

definition enters_dir :: "string \<Rightarrow> bool" where
  "enters_dir n \<longleftrightarrow> \<not> (n \<noteq> [] \<and> hd n = CHR ''.'') \<and> n \<notin> set skippedDirs"

fun entry_files :: "string \<Rightarrow> ws_entry \<Rightarrow> source_file list" where
  "entry_files dir (WsDir n es) = (if enters_dir n then concat (map (entry_files (sub_path dir n)) es) else [])"
| "entry_files dir (WsFile n sz bytes) = [\<lparr>sf_path = sub_path dir n, sf_name = n, sf_size = sz, sf_bytes = bytes\<rparr>]"
| "entry_files dir (WsOther n) = []"

definition workspace_files :: "string \<Rightarrow> ws_entry list \<Rightarrow> source_file list" where
  "workspace_files ws es = concat (map (entry_files ws) es)"

record search_limits =
  lim_files :: nat
  lim_bytes :: nat
  lim_results :: nat

definition default_limits :: search_limits where
  "default_limits = \<lparr>lim_files = 20000, lim_bytes = 1048576, lim_results = 500\<rparr>"

definition lowerExt :: "string \<Rightarrow> string" where
  "lowerExt file =
     (let base = after_last CHR ''/'' file
      in if CHR ''.'' \<in> set base then ascii_lower (CHR ''.'' # after_last CHR ''.'' base) else [])"

fun extensionsForSearch :: "language \<Rightarrow> string \<Rightarrow> string list" where
  "extensionsForSearch LangSwift req = [''.swift'']"
| "extensionsForSearch LangC req = [''.c'', ''.h'', ''.cc'', ''.cpp'', ''.cxx'', ''.hpp'', ''.hh'', ''.hxx'', ''.m'', ''.mm'', ''.inl'', ''.ipp'']"
| "extensionsForSearch LangCpp req = [''.c'', ''.h'', ''.cc'', ''.cpp'', ''.cxx'', ''.hpp'', ''.hh'', ''.hxx'', ''.m'', ''.mm'', ''.inl'', ''.ipp'']"
| "extensionsForSearch LangPython req = [''.py'', ''.pyi'']"
| "extensionsForSearch LangJavaScript req = [''.js'', ''.jsx'', ''.mjs'', ''.cjs'', ''.ts'', ''.tsx'', ''.mts'', ''.cts'']"
| "extensionsForSearch LangTypeScript req = [''.js'', ''.jsx'', ''.mjs'', ''.cjs'', ''.ts'', ''.tsx'', ''.mts'', ''.cts'']"
| "extensionsForSearch LangGo req = [''.go'']"
| "extensionsForSearch LangRust req = [''.rs'']"
| "extensionsForSearch LangUnknown req = (if lowerExt req = [] then [] else [lowerExt req])"

text \<open>The text of a file that is searched: of a wanted kind, small enough, readable and without a NUL near its start.\<close>

definition searched_text :: "string list \<Rightarrow> search_limits \<Rightarrow> source_file \<Rightarrow> string option" where
  "searched_text exts lim f =
     (if exts \<noteq> [] \<and> lowerExt (sf_name f) \<notin> set exts then None
      else case (sf_size f, sf_bytes f) of
        (Some sz, Some bytes) \<Rightarrow>
          (if lim_bytes lim < sz \<or> CHR 0x00 \<in> set (take 4096 bytes) then None else Some bytes)
      | _ \<Rightarrow> None)"

text \<open>\<^verbatim>\<open>forEachSourceFile\<close>: the visited texts, at most so many files looked at.\<close>

definition visited_texts :: "string list \<Rightarrow> search_limits \<Rightarrow> source_file list \<Rightarrow> (string \<times> string) list" where
  "visited_texts exts lim files =
     List.map_filter (\<lambda>f. map_option (\<lambda>t. (sf_path f, t)) (searched_text exts lim f)) (take (lim_files lim) files)"

section \<open>The two searches\<close>

definition parentDir :: "string \<Rightarrow> string" where
  "parentDir p = (if CHR ''/'' \<in> set p then before_last CHR ''/'' p else [])"

definition toFileUri :: "string \<Rightarrow> string" where
  "toFileUri p = (if starts_with p ''file://'' then p else ''file://'' @ p)"

definition fromFileUri :: "string \<Rightarrow> string" where
  "fromFileUri u = (if starts_with u ''file://'' then drop 7 u else u)"

definition makeLocation :: "string \<Rightarrow> nat \<Rightarrow> int \<Rightarrow> nat \<Rightarrow> location" where
  "makeLocation path line col len = (toFileUri path, ((int line, col), (int line, col + int len)))"

record ranked =
  rk_location :: location
  rk_rank :: nat
  rk_proximity :: nat

definition rk_line :: "ranked \<Rightarrow> int" where
  "rk_line r = fst (fst (snd (rk_location r)))"

definition rk_column :: "ranked \<Rightarrow> int" where
  "rk_column r = snd (fst (snd (rk_location r)))"

definition rk_uri :: "ranked \<Rightarrow> string" where
  "rk_uri r = fst (rk_location r)"

definition proximityOf :: "string \<Rightarrow> string \<Rightarrow> nat" where
  "proximityOf path req =
     (if req = [] then 2 else if path = req then 0 else if parentDir path = parentDir req then 1 else 2)"

text \<open>A column that was not found prints as -1.\<close>

definition column_of :: "nat option \<Rightarrow> int" where
  "column_of c = (case c of Some p \<Rightarrow> int p | None \<Rightarrow> - 1)"

definition declaration_in_line ::
  "decl_rule list \<Rightarrow> string \<Rightarrow> string \<Rightarrow> string \<Rightarrow> nat \<Rightarrow> string \<Rightarrow> ranked list" where
  "declaration_in_line rules name req path n line =
     (if \<not> has_sub name line then []
      else if line_rank rules line name = 0 then []
      else [\<lparr>rk_location = makeLocation path n (column_of (findWord line name 0)) (length name),
             rk_rank = line_rank rules line name, rk_proximity = proximityOf path req\<rparr>])"

definition numbered :: "string list \<Rightarrow> (nat \<times> string) list" where
  "numbered ls = zip [0..<length ls] ls"

definition declarations_in_file :: "decl_rule list \<Rightarrow> string \<Rightarrow> string \<Rightarrow> string \<times> string \<Rightarrow> ranked list" where
  "declarations_in_file rules name req f =
     (if \<not> has_sub name (snd f) then []
      else concat (map (\<lambda>(n, line). declaration_in_line rules name req (fst f) n line) (numbered (getlines (snd f)))))"

text \<open>The stable sort by rank, downwards, then proximity, URI and line.\<close>

definition order_declarations :: "ranked list \<Rightarrow> ranked list" where
  "order_declarations rs =
     sort_key (\<lambda>r. - int (rk_rank r)) (sort_key rk_proximity (sort_key rk_uri (sort_key rk_line rs)))"

definition order_occurrences :: "ranked list \<Rightarrow> ranked list" where
  "order_occurrences rs = sort_key rk_proximity (sort_key rk_uri (sort_key rk_line (sort_key rk_column rs)))"

definition findDeclarations :: "language \<Rightarrow> string \<Rightarrow> string \<Rightarrow> search_limits \<Rightarrow> source_file list \<Rightarrow> location list" where
  "findDeclarations lang req name lim files =
     (if \<not> isIdentifier name then []
      else take (lim_results lim) (map rk_location (order_declarations
             (concat (map (declarations_in_file (rulesFor lang name) name (fromFileUri req))
               (visited_texts (extensionsForSearch lang req) lim files))))))"

text \<open>The whole words of a line, each search starting behind the last.\<close>

function columns_from :: "string \<Rightarrow> string \<Rightarrow> nat \<Rightarrow> nat list" where
  "columns_from line name start =
     (case findWord line name start of
        None \<Rightarrow> []
      | Some col \<Rightarrow> col # columns_from line name (col + length name))"
  by pat_completeness auto

lemma find_between: "List.find P [a..<b] = Some p \<longleftrightarrow> a \<le> p \<and> p < b \<and> P p \<and> (\<forall>j. a \<le> j \<and> j < p \<longrightarrow> \<not> P j)"
proof (induction "b - a" arbitrary: a)
  case (Suc k)
  then have "a < b" by simp
  then have u: "[a..<b] = a # [Suc a..<b]" by (rule upt_conv_Cons)
  have "k = b - Suc a" using Suc(2) by simp
  note IH = Suc(1) [OF this]
  show ?case
  proof (cases "P a")
    case True
    then show ?thesis unfolding u using \<open>a < b\<close> by (auto simp: not_less_eq_eq)
  next
    case False
    then show ?thesis unfolding u using IH by (auto simp: Suc_le_eq) (metis le_neq_implies_less)
  qed
qed auto

lemma findWord_Some:
  "findWord line name start = Some p \<longleftrightarrow>
     name \<noteq> [] \<and> start \<le> p \<and> p \<le> length line \<and> whole_word_at line name p \<and> (\<forall>j. start \<le> j \<and> j < p \<longrightarrow> \<not> whole_word_at line name j)"
proof (cases "name = []")
  case False
  then show ?thesis by (simp add: findWord_def find_between less_Suc_eq_le del: upt_Suc)
qed (simp add: findWord_def)

termination columns_from
  by (relation "measure (\<lambda>(line, name, start). Suc (length line) - start)")
    (auto simp: findWord_Some length_greater_0_conv [symmetric] simp del: length_greater_0_conv)

declare columns_from.simps [simp del]

definition occurrences_in_line ::
  "decl_rule list \<Rightarrow> bool \<Rightarrow> string \<Rightarrow> string \<Rightarrow> string \<Rightarrow> nat \<Rightarrow> string \<Rightarrow> ranked list" where
  "occurrences_in_line rules include_decl name req path n line =
     (if \<not> include_decl \<and> findWord line name 0 \<noteq> None \<and> list_ex (\<lambda>r. rule_matches r line name) rules then []
      else map (\<lambda>col. \<lparr>rk_location = makeLocation path n (int col) (length name), rk_rank = 0,
                         rk_proximity = proximityOf path req\<rparr>) (columns_from line name 0))"

definition occurrences_in_file :: "decl_rule list \<Rightarrow> bool \<Rightarrow> string \<Rightarrow> string \<Rightarrow> string \<times> string \<Rightarrow> ranked list" where
  "occurrences_in_file rules include_decl name req f =
     (if \<not> has_sub name (snd f) then []
      else concat (map (\<lambda>(n, line). occurrences_in_line rules include_decl name req (fst f) n line)
                     (numbered (getlines (snd f)))))"

text \<open>The scan stops behind a file that mentions the name once it holds four times the results that are returned.\<close>

fun gather_occurrences ::
  "(string \<times> string \<Rightarrow> ranked list) \<Rightarrow> string \<Rightarrow> nat \<Rightarrow> (string \<times> string) list \<Rightarrow> ranked list \<Rightarrow> ranked list" where
  "gather_occurrences find_in name enough [] found = found"
| "gather_occurrences find_in name enough (f # fs) found =
     (if \<not> has_sub name (snd f) then gather_occurrences find_in name enough fs found
      else if length (found @ find_in f) < enough then gather_occurrences find_in name enough fs (found @ find_in f)
      else found @ find_in f)"

definition findOccurrences ::
  "language \<Rightarrow> string \<Rightarrow> string \<Rightarrow> bool \<Rightarrow> search_limits \<Rightarrow> source_file list \<Rightarrow> location list" where
  "findOccurrences lang req name include_decl lim files =
     (if \<not> isIdentifier name then []
      else take (lim_results lim) (map rk_location (order_occurrences
             (gather_occurrences (occurrences_in_file (rulesFor lang name) include_decl name (fromFileUri req)) name
               (4 * lim_results lim) (visited_texts (extensionsForSearch lang req) lim files) []))))"

section \<open>Whole words\<close>

lemma identifier_chars: "isIdentifier name \<Longrightarrow> i < length name \<Longrightarrow> ident_char (name ! i)"
  by (simp add: isIdentifier_def list_all_length)

lemma starts_with_nth: "starts_with (drop p s) w \<Longrightarrow> p \<le> length s \<Longrightarrow> i < length w \<Longrightarrow> p + i < length s \<and> s ! (p + i) = w ! i"
proof -
  assume "starts_with (drop p s) w" "p \<le> length s" "i < length w"
  then obtain t where t: "drop p s = w @ t" by (auto simp: starts_with_iff_prefix prefix_def)
  then have "length w + length t = length s - p" by (metis length_append length_drop)
  then show ?thesis using \<open>i < length w\<close> \<open>p \<le> length s\<close> t
    by (metis add.commute add_lessD1 less_diff_conv nth_append nth_drop trans_less_add1)
qed

lemma inside_word:
  assumes "isIdentifier name" and "whole_word_at line name p" and "p \<le> i" and "i < p + length name" and "p \<le> length line"
  shows "word_at line i"
proof -
  have "line ! (p + (i - p)) = name ! (i - p)" "p + (i - p) < length line"
    using starts_with_nth [of p line name "i - p"] assms by (auto simp: whole_word_at_def)
  then show ?thesis using identifier_chars [OF assms(1), of "i - p"] assms(3,4) by (simp add: word_at_def)
qed

text \<open>Two occurrences of a whole word do not overlap, so the scan of a line misses none.\<close>

lemma words_apart:
  assumes "isIdentifier name" and "whole_word_at line name p" and "whole_word_at line name q" and "p < q" and "p \<le> length line"
  shows "p + length name \<le> q"
proof (rule ccontr)
  assume "\<not> p + length name \<le> q"
  then have "word_at line (q - 1)" using assms by (intro inside_word [of name line p]) auto
  then show False using assms(3,4) by (simp add: whole_word_at_def)
qed

lemma columns_from_exact:
  assumes "isIdentifier name"
  shows "set (columns_from line name start) = {p. start \<le> p \<and> p \<le> length line \<and> whole_word_at line name p}"
  using assms
proof (induction line name start rule: columns_from.induct)
  case (1 line name start)
  show ?case
  proof (cases "findWord line name start")
    case None
    have "name \<noteq> []" using 1(2) by (simp add: isIdentifier_def)
    then have "\<forall>p. start \<le> p \<and> p \<le> length line \<longrightarrow> \<not> whole_word_at line name p"
      using None by (auto simp: findWord_def find_None_iff less_Suc_eq_le simp del: upt_Suc)
    then show ?thesis using None by (auto simp: columns_from.simps)
  next
    case (Some col)
    have col: "start \<le> col" "col \<le> length line" "whole_word_at line name col" "\<And>j. start \<le> j \<Longrightarrow> j < col \<Longrightarrow> \<not> whole_word_at line name j"
      using Some by (auto simp: findWord_Some)
    have rest: "set (columns_from line name (col + length name))
        = {p. col + length name \<le> p \<and> p \<le> length line \<and> whole_word_at line name p}"
      by (rule 1(1) [OF Some 1(2)])
    have "p = col \<or> col + length name \<le> p" if "start \<le> p" "p \<le> length line" "whole_word_at line name p" for p
      using that col words_apart [OF 1(2) col(3) that(3)] by (cases p col rule: linorder_cases) auto
    then show ?thesis using Some col rest by (auto simp: columns_from.simps [of line name start])
  qed
qed

section \<open>The identifier under the cursor, exactly\<close>

lemma whole_word_parts:
  "whole_word_at (u @ w @ z) w (length u) \<longleftrightarrow> (u = [] \<or> \<not> ident_char (last u)) \<and> (z = [] \<or> \<not> ident_char (hd z))"
proof -
  have "word_at (u @ w @ z) (length u + length w) \<longleftrightarrow> z \<noteq> [] \<and> ident_char (hd z)"
    by (cases z) (simp_all add: word_at_def nth_append)
  moreover have "0 < length u \<and> word_at (u @ w @ z) (length u - 1) \<longleftrightarrow> u \<noteq> [] \<and> ident_char (last u)"
    by (cases u rule: rev_cases) (simp_all add: word_at_def nth_append)
  ultimately show ?thesis by (auto simp: whole_word_at_def)
qed

definition run_word :: "string \<Rightarrow> nat \<Rightarrow> string" where
  "run_word l p = rev (takeWhile ident_char (rev (take p l))) @ takeWhile ident_char (drop p l)"

lemma run_word_whole:
  assumes "word_at l p"
  shows "\<exists>a. whole_word_at l (run_word l p) a \<and> a \<le> p \<and> p < a + length (run_word l p)"
proof -
  let ?u = "rev (dropWhile ident_char (rev (take p l)))" and ?x = "rev (takeWhile ident_char (rev (take p l)))"
  let ?y = "takeWhile ident_char (drop p l)" and ?z = "dropWhile ident_char (drop p l)"
  have left: "take p l = ?u @ ?x" by (metis rev_append rev_rev_ident takeWhile_dropWhile_id)
  have l: "l = ?u @ (?x @ ?y) @ ?z" using left by (metis append.assoc append_take_drop_id takeWhile_dropWhile_id)
  have "?u = [] \<or> \<not> ident_char (last ?u)" using hd_dropWhile [of ident_char "rev (take p l)"] by (auto simp: last_rev)
  moreover have "?z = [] \<or> \<not> ident_char (hd ?z)" using hd_dropWhile [of ident_char "drop p l"] by auto
  ultimately have whole: "whole_word_at l (?x @ ?y) (length ?u)"
    using whole_word_parts [of ?u "?x @ ?y" ?z] l by metis
  have p: "p < length l" "ident_char (l ! p)" using assms by (simp_all add: word_at_def)
  then have "drop p l = l ! p # drop (Suc p) l" by (simp add: Cons_nth_drop_Suc)
  then have "0 < length ?y" using p(2) by simp
  moreover have "length ?u + length ?x = p"
    using left p(1) by (metis length_append length_take less_imp_le min.absorb2)
  ultimately have "length ?u \<le> p \<and> p < length ?u + length (?x @ ?y)" unfolding length_append by linarith
  then show ?thesis using whole unfolding run_word_def by blast
qed

lemma run_word_chars: "list_all ident_char (run_word l p)"
  by (auto simp: run_word_def list_all_iff dest: set_takeWhileD)

lemma same_word:
  assumes "list_all ident_char v" "list_all ident_char w" "whole_word_at l v b" "whole_word_at l w a"
    and "b \<le> p" "p < b + length v" "a \<le> p" "p < a + length w" and "p < length l"
  shows "v = w \<and> a = b"
proof -
  have inside: "word_at l i" if "whole_word_at l x c" "list_all ident_char x" "c \<le> i" "i < c + length x" "c \<le> length l" for x c i
  proof -
    have "l ! i = x ! (i - c)" "i < length l"
      using starts_with_nth [of c l x "i - c"] that by (auto simp: whole_word_at_def)
    then show ?thesis using that(2-4) by (simp add: word_at_def list_all_length)
  qed
  have "\<not> a < b"
  proof
    assume "a < b"
    then have "word_at l (b - 1)" using assms by (intro inside [of w a]) auto
    then show False using assms(3) \<open>a < b\<close> by (simp add: whole_word_at_def)
  qed
  moreover have "\<not> b < a"
  proof
    assume "b < a"
    then have "word_at l (a - 1)" using assms by (intro inside [of v b]) auto
    then show False using assms(4) \<open>b < a\<close> by (simp add: whole_word_at_def)
  qed
  ultimately have ab: "a = b" by simp
  have "length v = length w"
  proof (rule ccontr)
    assume "length v \<noteq> length w"
    then consider "length v < length w" | "length w < length v" by linarith
    then show False
    proof cases
      case 1
      then have "word_at l (b + length v)" using assms ab by (intro inside [of w a]) auto
      then show False using assms(3) by (simp add: whole_word_at_def)
    next
      case 2
      then have "word_at l (a + length w)" using assms ab by (intro inside [of v b]) auto
      then show False using assms(4) by (simp add: whole_word_at_def)
    qed
  qed
  moreover have "take (length v) (drop b l) = v" "take (length w) (drop a l) = w"
    using assms(3,4) by (simp_all add: whole_word_at_def starts_with_def)
  ultimately show ?thesis using ab by simp
qed

text \<open>The line the cursor is on.\<close>

definition cursor_line :: "string \<Rightarrow> int \<Rightarrow> string option" where
  "cursor_line content line =
     (if 0 \<le> line \<and> nat line < length (split_on CHR 0x0A content) then Some (split_on CHR 0x0A content ! nat line) else None)"

lemma identifierAt_run:
  assumes "cursor_line content line = Some l" and "0 \<le> ch"
  shows "identifierAt content line ch =
    (if word_at l (nat ch) then (if isIdentifier (run_word l (nat ch)) then run_word l (nat ch) else [])
     else if 1 \<le> nat ch \<and> word_at l (nat ch - 1)
     then (if isIdentifier (run_word l (nat ch - 1)) then run_word l (nat ch - 1) else [])
     else [])"
proof -
  have "0 \<le> line" "nat line < length (split_on CHR 0x0A content)" "l = split_on CHR 0x0A content ! nat line"
    using assms(1) by (auto simp: cursor_line_def split: if_splits)
  then show ?thesis using assms(2) by (simp add: identifierAt_def run_word_def Let_def)
qed

text \<open>
   ord that is searched for is the identifier the cursor touches: \<^verbatim>\<open>identifierAt\<close> answers a word exactly when
  it is an identifier that stands as a whole word in the cursor's line, with the cursor on it or just behind it, and
  answers nothing otherwise.
\<close>

theorem identifier_under_cursor:
  assumes "w \<noteq> []"
  shows "identifierAt content line ch = w \<longleftrightarrow>
    isIdentifier w \<and> 0 \<le> ch \<and>
    (\<exists>l a. cursor_line content line = Some l \<and> whole_word_at l w a \<and> a \<le> nat ch \<and> nat ch \<le> a + length w \<and> a \<le> length l)"
proof (cases "cursor_line content line")
  case None
  then have "identifierAt content line ch = []"
    by (auto simp: identifierAt_def cursor_line_def Let_def split: if_splits)
  then show ?thesis using None assms by auto
next
  case (Some l)
  show ?thesis
  proof (cases "0 \<le> ch")
    case False
    then show ?thesis using assms by (simp add: identifierAt_def)
  next
    case True
    let ?c = "nat ch"
    note run = identifierAt_run [OF Some True]
    show ?thesis
    proof
      assume id: "identifierAt content line ch = w"
      define p where "p = (if word_at l ?c then ?c else ?c - 1)"
      have p: "word_at l p" "isIdentifier w" "w = run_word l p" "p \<le> ?c" "?c \<le> p + 1" "word_at l ?c \<or> p < ?c"
        using id run assms by (auto simp: p_def split: if_splits)
      obtain a where a: "whole_word_at l w a" "a \<le> p" "p < a + length w"
        using run_word_whole [OF p(1)] p(3) by blast
      then have "a \<le> ?c \<and> ?c \<le> a + length w \<and> a \<le> length l"
        using p(1,4,5) by (auto simp: word_at_def)
      then show "isIdentifier w \<and> 0 \<le> ch \<and> (\<exists>l a. cursor_line content line = Some l \<and> whole_word_at l w a
          \<and> a \<le> ?c \<and> ?c \<le> a + length w \<and> a \<le> length l)"
        using a(1) Some p(2) True by blast
    next
      assume "isIdentifier w \<and> 0 \<le> ch \<and> (\<exists>l a. cursor_line content line = Some l \<and> whole_word_at l w a
          \<and> a \<le> ?c \<and> ?c \<le> a + length w \<and> a \<le> length l)"
      then obtain a where w: "isIdentifier w" "whole_word_at l w a" "a \<le> ?c" "?c \<le> a + length w" "a \<le> length l"
        using Some by auto
      have len: "0 < length w" using assms by simp
      define p where "p = (if ?c < a + length w then ?c else ?c - 1)"
      have "a \<le> p \<and> p < a + length w"
      proof (cases "?c < a + length w")
        case False
        then have "p = a + length w - 1" using w(4) by (simp add: p_def)
        then show ?thesis using len by linarith
      qed (use w(3) in \<open>simp add: p_def\<close>)
      then have p: "a \<le> p" and p2: "p < a + length w" by simp_all
      have word: "word_at l p" by (rule inside_word [OF w(1,2) p p2 w(5)])
      obtain b where b: "whole_word_at l (run_word l p) b" "b \<le> p" "p < b + length (run_word l p)"
        using run_word_whole [OF word] by blast
      have "w = run_word l p"
        using same_word [OF _ run_word_chars w(2) b(1) p p2 b(2,3)] w(1) word by (simp add: isIdentifier_def word_at_def)
      moreover have "\<not> ?c < a + length w \<Longrightarrow> \<not> word_at l ?c"
        using w(2,4) by (simp add: whole_word_at_def)
      moreover have "1 \<le> ?c" if "\<not> ?c < a + length w" using that w(4) len by linarith
      ultimately show "identifierAt content line ch = w"
        using run word w(1) unfolding p_def by (auto split: if_splits)
    qed
  qed
qed

lemma identifier_under_cursor_witness:
  "identifierAt (''int a;'' @ [CHR 0x0A] @ ''x = foo_1(2);'') 1 9 = ''foo_1'' \<longleftrightarrow>
    isIdentifier ''foo_1'' \<and> 0 \<le> (9 :: int) \<and>
    (\<exists>l a. cursor_line (''int a;'' @ [CHR 0x0A] @ ''x = foo_1(2);'') 1 = Some l \<and> whole_word_at l ''foo_1'' a
       \<and> a \<le> nat 9 \<and> nat 9 \<le> a + length ''foo_1'' \<and> a \<le> length l)"
  by (rule identifier_under_cursor) simp

lemma demo_identifier: "identifierAt (''int a;'' @ [CHR 0x0A] @ ''x = foo_1(2);'') 1 9 = ''foo_1''"
  by code_simp

section \<open>What the occurrences are\<close>

lemma set_numbered: "set (numbered ls) = (\<lambda>i. (i, ls ! i)) ` {..<length ls}"
proof -
  have "numbered ls = map (\<lambda>i. (i, ls ! i)) [0..<length ls]"
    by (rule nth_equalityI) (simp_all add: numbered_def)
  then show ?thesis by auto
qed

lemma split_piece:
  "x \<in> set (split_on c s) \<Longrightarrow> \<exists>u v. s = u @ x @ v"
proof (induction s arbitrary: x)
  case (Cons a s)
  have first: "\<exists>v. s = hd (split_on c s) @ v"
  proof (induction s)
    case (Cons b s)
    then show ?case by (cases "split_on c s") (auto split: list.splits)
  qed simp
  show ?case
  proof (cases "a = c")
    case True
    then consider "x = []" | "x \<in> set (split_on c s)" using Cons.prems by auto
    then show ?thesis
    proof cases
      case 1
      then show ?thesis by (intro exI [of _ "[]"] exI [of _ "a # s"]) simp
    next
      case 2
      then obtain u v where "s = u @ x @ v" using Cons.IH by blast
      then show ?thesis by (metis append_Cons)
    qed
  next
    case False
    obtain h t where ht: "split_on c s = h # t" by (cases "split_on c s") auto
    then have "x = a # h \<or> x \<in> set t" using Cons.prems False by auto
    then show ?thesis
    proof
      assume "x = a # h"
      then show ?thesis using first ht by (metis append_Cons append_Nil list.sel(1))
    next
      assume "x \<in> set t"
      then obtain u v where "s = u @ x @ v" using Cons.IH [of x] ht by auto
      then show ?thesis by (metis append_Cons)
    qed
  qed
qed simp

lemma line_of_text: "n < length (getlines t) \<Longrightarrow> has_sub (getlines t ! n) t"
proof -
  assume "n < length (getlines t)"
  then have "getlines t ! n \<in> set (getlines t)" by simp
  then have "getlines t ! n \<in> set (split_on CHR 0x0A t)"
    by (auto simp: getlines_def Let_def dest: in_set_butlastD split: if_splits)
  then show ?thesis unfolding has_sub_iff using split_piece by blast
qed

text \<open>A line that the search with declarations left out passes over.\<close>

definition passed_over :: "decl_rule list \<Rightarrow> bool \<Rightarrow> string \<Rightarrow> string \<Rightarrow> bool" where
  "passed_over rules include_decl name line \<longleftrightarrow> \<not> include_decl \<and> list_ex (\<lambda>r. rule_matches r line name) rules"

text \<open>A whole word of a visited text, in a line that is not passed over, as a location.\<close>

definition occurrence_of ::
  "decl_rule list \<Rightarrow> bool \<Rightarrow> string \<Rightarrow> (string \<times> string) list \<Rightarrow> location \<Rightarrow> bool" where
  "occurrence_of rules include_decl name texts loc \<longleftrightarrow>
     (\<exists>(path, text) \<in> set texts. \<exists>n col. n < length (getlines text) \<and> whole_word_at (getlines text ! n) name col
        \<and> col \<le> length (getlines text ! n) \<and> \<not> passed_over rules include_decl name (getlines text ! n)
        \<and> loc = makeLocation path n (int col) (length name))"

lemma occurrences_in_line_exact:
  assumes "isIdentifier name"
  shows "rk_location ` set (occurrences_in_line rules inc name req path n line) =
    {makeLocation path n (int col) (length name) | col.
       col \<le> length line \<and> whole_word_at line name col \<and> \<not> passed_over rules inc name line}"
proof (cases "passed_over rules inc name line \<and> findWord line name 0 \<noteq> None")
  case True
  then have "occurrences_in_line rules inc name req path n line = []"
    by (auto simp: occurrences_in_line_def passed_over_def)
  then show ?thesis using True by simp
next
  case False
  show ?thesis
  proof (cases "findWord line name 0 = None")
    case True
    then have none: "\<not> (col \<le> length line \<and> whole_word_at line name col)" for col
      using assms by (auto simp: findWord_def find_None_iff isIdentifier_def less_Suc_eq_le simp del: upt_Suc split: if_splits)
    have "columns_from line name 0 = []" using True by (simp add: columns_from.simps)
    then show ?thesis using none by (auto simp: occurrences_in_line_def)
  next
    case found: False
    then have "occurrences_in_line rules inc name req path n line =
        map (\<lambda>col. \<lparr>rk_location = makeLocation path n (int col) (length name), rk_rank = 0, rk_proximity = proximityOf path req\<rparr>)
          (columns_from line name 0)"
      using False unfolding occurrences_in_line_def passed_over_def by auto
    then have "rk_location ` set (occurrences_in_line rules inc name req path n line) =
        (\<lambda>col. makeLocation path n (int col) (length name)) ` set (columns_from line name 0)"
      by (simp add: image_image)
    then show ?thesis using False found columns_from_exact [OF assms, of line 0] by auto
  qed
qed

lemma occurrences_in_file_exact:
  assumes "isIdentifier name"
  shows "rk_location ` set (occurrences_in_file rules inc name req (path, text)) =
    {loc. occurrence_of rules inc name [(path, text)] loc}"
proof (cases "has_sub name text")
  case False
  have "\<not> (n < length (getlines text) \<and> whole_word_at (getlines text ! n) name col \<and> col \<le> length (getlines text ! n))" for n col
  proof
    assume a: "n < length (getlines text) \<and> whole_word_at (getlines text ! n) name col \<and> col \<le> length (getlines text ! n)"
    then have "has_sub name (getlines text ! n)"
      by (auto simp: has_sub_def find_sub_None whole_word_at_def)
    moreover have "has_sub (getlines text ! n) text" using a by (simp add: line_of_text)
    ultimately have "has_sub name text" by (metis has_sub_append has_sub_iff)
    then show False using False by simp
  qed
  then show ?thesis using False by (auto simp: occurrences_in_file_def occurrence_of_def)
next
  case True
  have "rk_location ` set (occurrences_in_file rules inc name req (path, text)) =
      (\<Union>(n, line) \<in> set (numbered (getlines text)). rk_location ` set (occurrences_in_line rules inc name req path n line))"
    using True by (auto simp: occurrences_in_file_def)
  also have "\<dots> = (\<Union>n \<in> {..<length (getlines text)}.
      rk_location ` set (occurrences_in_line rules inc name req path n (getlines text ! n)))"
    by (simp add: set_numbered)
  also have "\<dots> = {loc. occurrence_of rules inc name [(path, text)] loc}"
    unfolding occurrences_in_line_exact [OF assms] occurrence_of_def by auto
  finally show ?thesis .
qed

lemma gather_all:
  assumes "length (found @ concat (map find_in fs)) < enough" and "\<And>f. f \<in> set fs \<Longrightarrow> \<not> has_sub name (snd f) \<Longrightarrow> find_in f = []"
  shows "gather_occurrences find_in name enough fs found = found @ concat (map find_in fs)"
  using assms by (induction fs arbitrary: found) auto

lemma gather_subset:
  "set (gather_occurrences find_in name enough fs found) \<subseteq> set found \<union> (\<Union>f \<in> set fs. set (find_in f))"
proof (induction fs arbitrary: found)
  case (Cons f fs)
  show ?case using Cons.IH [of found] Cons.IH [of "found @ find_in f"] by auto
qed simp

lemma set_order_occurrences [simp]: "set (order_occurrences rs) = set rs"
  by (simp add: order_occurrences_def)

lemma length_order_occurrences [simp]: "length (order_occurrences rs) = length rs"
  by (simp add: order_occurrences_def)

definition all_occurrences ::
  "language \<Rightarrow> string \<Rightarrow> string \<Rightarrow> bool \<Rightarrow> search_limits \<Rightarrow> source_file list \<Rightarrow> ranked list" where
  "all_occurrences lang req name inc lim files =
     concat (map (occurrences_in_file (rulesFor lang name) inc name (fromFileUri req))
       (visited_texts (extensionsForSearch lang req) lim files))"

lemma occurrence_of_union:
  "occurrence_of rules inc name texts loc \<longleftrightarrow> (\<exists>f \<in> set texts. occurrence_of rules inc name [f] loc)"
  by (auto simp: occurrence_of_def)

lemma all_occurrences_exact:
  assumes "isIdentifier name"
  shows "rk_location ` set (all_occurrences lang req name inc lim files) =
    {loc. occurrence_of (rulesFor lang name) inc name (visited_texts (extensionsForSearch lang req) lim files) loc}"
proof -
  let ?texts = "visited_texts (extensionsForSearch lang req) lim files"
  have "rk_location ` set (all_occurrences lang req name inc lim files)
      = (\<Union>f \<in> set ?texts. rk_location ` set (occurrences_in_file (rulesFor lang name) inc name (fromFileUri req) f))"
    by (auto simp: all_occurrences_def)
  also have "\<dots> = (\<Union>f \<in> set ?texts. {loc. occurrence_of (rulesFor lang name) inc name [f] loc})"
    using occurrences_in_file_exact [OF assms] by (intro SUP_cong refl) (metis prod.collapse)
  also have "\<dots> = {loc. occurrence_of (rulesFor lang name) inc name ?texts loc}"
    by (subst occurrence_of_union) auto
  finally show ?thesis .
qed

lemma found_occurrences:
  fixes lang :: language and req name :: string and lim :: search_limits and files :: "source_file list"
  assumes "isIdentifier name"
  defines "texts \<equiv> visited_texts (extensionsForSearch lang req) lim files"
  shows "set (findOccurrences lang req name inc lim files) \<subseteq> {loc. occurrence_of (rulesFor lang name) inc name texts loc}"
    and "length (findOccurrences lang req name inc lim files) \<le> lim_results lim"
    and "length (all_occurrences lang req name inc lim files) \<le> lim_results lim \<Longrightarrow> 0 < lim_results lim \<Longrightarrow>
      set (findOccurrences lang req name inc lim files) = {loc. occurrence_of (rulesFor lang name) inc name texts loc}"
proof -
  let ?in = "occurrences_in_file (rulesFor lang name) inc name (fromFileUri req)"
  let ?found = "gather_occurrences ?in name (4 * lim_results lim) texts []"
  have result: "findOccurrences lang req name inc lim files = take (lim_results lim) (map rk_location (order_occurrences ?found))"
    using assms(1) by (simp add: findOccurrences_def texts_def)
  have all: "rk_location ` set (all_occurrences lang req name inc lim files) = {loc. occurrence_of (rulesFor lang name) inc name texts loc}"
    using all_occurrences_exact [OF assms(1)] by (simp add: texts_def)
  have "set ?found \<subseteq> set (all_occurrences lang req name inc lim files)"
    using gather_subset [of ?in name "4 * lim_results lim" texts "[]"] by (auto simp: all_occurrences_def texts_def)
  then have "rk_location ` set ?found \<subseteq> {loc. occurrence_of (rulesFor lang name) inc name texts loc}"
    unfolding all [symmetric] by (rule image_mono)
  then show "set (findOccurrences lang req name inc lim files) \<subseteq> {loc. occurrence_of (rulesFor lang name) inc name texts loc}"
    unfolding result by (intro subset_trans [OF set_take_subset]) simp
  show "length (findOccurrences lang req name inc lim files) \<le> lim_results lim"
    by (simp add: result)
  show "set (findOccurrences lang req name inc lim files) = {loc. occurrence_of (rulesFor lang name) inc name texts loc}"
    if fits: "length (all_occurrences lang req name inc lim files) \<le> lim_results lim" and pos: "0 < lim_results lim"
  proof -
    have "?found = [] @ concat (map ?in texts)"
    proof (rule gather_all)
      show "length ([] @ concat (map ?in texts)) < 4 * lim_results lim"
        using fits pos by (simp add: all_occurrences_def texts_def)
      show "?in f = []" if "\<not> has_sub name (snd f)" for f
        using that by (cases f) (simp add: occurrences_in_file_def)
    qed
    then have found: "?found = all_occurrences lang req name inc lim files" by (simp add: all_occurrences_def texts_def)
    then have "length (map rk_location (order_occurrences ?found)) \<le> lim_results lim" using fits by simp
    then have "set (findOccurrences lang req name inc lim files) = rk_location ` set ?found" by (simp add: result)
    then show ?thesis using all found by simp
  qed
qed

text \<open>
  C36. The text search for references finds what is there and only that. Every location it answers is a whole-word
  occurrence of the name in a file it searches, on a line that is not passed over as a declaration, and there are at
  most as many as the limit; and when the workspace has no more occurrences than the limit, every one of them is
  answered.
\<close>

theorem occurrences_exact:
  assumes "isIdentifier name"
  shows "set (findOccurrences lang req name inc lim files)
      \<subseteq> {loc. occurrence_of (rulesFor lang name) inc name (visited_texts (extensionsForSearch lang req) lim files) loc}
    \<and> length (findOccurrences lang req name inc lim files) \<le> lim_results lim
    \<and> (length (all_occurrences lang req name inc lim files) \<le> lim_results lim \<and> 0 < lim_results lim \<longrightarrow>
       set (findOccurrences lang req name inc lim files)
         = {loc. occurrence_of (rulesFor lang name) inc name (visited_texts (extensionsForSearch lang req) lim files) loc})"
  using found_occurrences [OF assms, where lang = lang and req = req and inc = inc and lim = lim and files = files] by simp

definition demo_source :: "source_file list" where
  "demo_source =
     workspace_files ''/w''
       [WsDir ''build'' [WsFile ''gen.py'' (Some 4) (Some ''foo'')],
        WsFile ''a.py'' (Some 40) (Some (''def foo(x):'' @ [CHR 0x0A] @ ''  return foo(foo_1)'')), WsFile ''b.txt'' (Some 3) (Some ''foo'')]"

definition demo_limits :: search_limits where
  "demo_limits = \<lparr>lim_files = 20, lim_bytes = 100, lim_results = 5\<rparr>"

lemma demo_visited:
  "visited_texts (extensionsForSearch LangPython ''file:///w/a.py'') demo_limits demo_source
     = [(''/w/a.py'', ''def foo(x):'' @ [CHR 0x0A] @ ''  return foo(foo_1)'')]"
  by code_simp

lemma demo_occurrences:
  "map rk_location (all_occurrences LangPython ''file:///w/a.py'' ''foo'' False demo_limits demo_source)
     = [(''file:///w/a.py'', ((1, 9), (1, 12)))]"
  unfolding all_occurrences_def demo_visited by code_simp

lemma demo_name: "isIdentifier ''foo''"
  by (simp add: isIdentifier_def ident_char_def is_digit_def)

lemma occurrences_exact_witness:
  "set (findOccurrences LangPython ''file:///w/a.py'' ''foo'' False demo_limits demo_source)
     = {loc. occurrence_of (rulesFor LangPython ''foo'') False ''foo''
             (visited_texts (extensionsForSearch LangPython ''file:///w/a.py'') demo_limits demo_source) loc}"
proof (rule occurrences_exact [OF demo_name, THEN conjunct2, THEN conjunct2, rule_format], rule conjI)
  show "length (all_occurrences LangPython ''file:///w/a.py'' ''foo'' False demo_limits demo_source) \<le> lim_results demo_limits"
    using arg_cong [OF demo_occurrences, of length] by (simp add: demo_limits_def)
  show "0 < lim_results demo_limits" by (simp add: demo_limits_def)
qed

section \<open>The order of the declarations\<close>

text \<open>Sorting by one key keeps the order by another among equals.\<close>

lemma sort_key_refines:
  assumes "sorted_wrt R xs"
  shows "sorted_wrt (\<lambda>x y. f x < f y \<or> f x = f y \<and> R x y) (sort_key f xs)"
  using assms
proof (induction xs)
  case (Cons x xs)
  have ins: "sorted_wrt (\<lambda>x y. f x < f y \<or> f x = f y \<and> R x y) (insort_key f x ys)"
    if "sorted_wrt (\<lambda>x y. f x < f y \<or> f x = f y \<and> R x y) ys" "\<forall>y \<in> set ys. R x y" for ys
    using that by (induction ys) (auto simp: set_insort_key)
  show ?case using Cons by (auto intro!: ins)
qed simp

definition ahead_of :: "ranked \<Rightarrow> ranked \<Rightarrow> bool" where
  "ahead_of a b \<longleftrightarrow>
     rk_rank b < rk_rank a \<or> rk_rank a = rk_rank b \<and>
       (rk_proximity a < rk_proximity b \<or> rk_proximity a = rk_proximity b \<and>
         (rk_uri a < rk_uri b \<or> rk_uri a = rk_uri b \<and> rk_line a \<le> rk_line b))"

lemma declarations_ordered: "sorted_wrt ahead_of (order_declarations rs)"
proof -
  have "sorted_wrt (\<lambda>a b. rk_line a \<le> rk_line b) (sort_key rk_line rs)"
    using sorted_sort_key [of rk_line rs] by (simp add: sorted_wrt_map)
  from sort_key_refines [OF sort_key_refines [OF sort_key_refines [OF this, of rk_uri], of rk_proximity], of "\<lambda>r. - int (rk_rank r)"]
  show ?thesis unfolding order_declarations_def ahead_of_def by simp
qed

lemma set_order_declarations: "set (order_declarations rs) = set rs"
  by (simp add: order_declarations_def)

definition found_declarations :: "language \<Rightarrow> string \<Rightarrow> string \<Rightarrow> search_limits \<Rightarrow> source_file list \<Rightarrow> ranked list" where
  "found_declarations lang req name lim files =
     concat (map (declarations_in_file (rulesFor lang name) name (fromFileUri req))
       (visited_texts (extensionsForSearch lang req) lim files))"

text \<open>
  The text search for a definition answers the best candidates first: its answer is the beginning, up to the limit,
  of all declaration-shaped lines of the searched files, ordered by rank (types before functions before variables), then
  the requesting file, its directory and the rest, then by path and line.
\<close>

theorem declarations_best_first:
  assumes "isIdentifier name"
  shows "\<exists>rs. findDeclarations lang req name lim files = take (lim_results lim) (map rk_location rs)
    \<and> set rs = set (found_declarations lang req name lim files) \<and> length rs = length (found_declarations lang req name lim files)
    \<and> sorted_wrt ahead_of rs"
proof (intro exI conjI)
  let ?rs = "order_declarations (found_declarations lang req name lim files)"
  show "findDeclarations lang req name lim files = take (lim_results lim) (map rk_location ?rs)"
    using assms by (simp add: findDeclarations_def found_declarations_def)
  show "set ?rs = set (found_declarations lang req name lim files)" by (rule set_order_declarations)
  show "length ?rs = length (found_declarations lang req name lim files)" by (simp add: order_declarations_def)
  show "sorted_wrt ahead_of ?rs" by (rule declarations_ordered)
qed

lemma declarations_best_first_witness:
  "\<exists>rs. findDeclarations LangPython ''file:///w/a.py'' ''foo'' default_limits demo_source = take (lim_results default_limits) (map rk_location rs)
    \<and> set rs = set (found_declarations LangPython ''file:///w/a.py'' ''foo'' default_limits demo_source)
    \<and> length rs = length (found_declarations LangPython ''file:///w/a.py'' ''foo'' default_limits demo_source)
    \<and> sorted_wrt ahead_of rs"
  by (rule declarations_best_first [OF demo_name])

text \<open>Nothing is searched in hidden directories or those of builds and dependencies.\<close>

lemma entry_files_dirs:
  "f \<in> set (entry_files dir e) \<Longrightarrow> \<exists>ds. sf_path f = foldl sub_path dir (ds @ [sf_name f]) \<and> list_all enters_dir ds"
proof (induction dir e rule: entry_files.induct)
  case (1 dir n es)
  then obtain e where e: "enters_dir n" "e \<in> set es" "f \<in> set (entry_files (sub_path dir n) e)" by (auto split: if_splits)
  then obtain ds where "sf_path f = foldl sub_path (sub_path dir n) (ds @ [sf_name f])" "list_all enters_dir ds"
    using 1(1) by blast
  then show ?case using e(1) by (intro exI [of _ "n # ds"]) simp
next
  case (2 dir n sz bytes)
  then show ?case by (intro exI [of _ "[]"]) simp
qed simp

end
