(* ===== verification/Dispatch.thy ===== *)
theory Dispatch
  imports WorkQueue Respond Hello Tunnel IndexReg HeadWatch
begin

text \<open>
  The way of a message through the agent (\<^verbatim>\<open>src/agent/main.cpp\<close>): what the reader thread does with a frame
  (\<^verbatim>\<open>handleIncoming\<close>), which handler a method has (\<^verbatim>\<open>dispatch\<close>), and what a worker does with a job
  (\<^verbatim>\<open>workerLoop\<close>). The JSON parser and printer and the handlers themselves are parameters here; the other theories
  define the handlers.
\<close>

section \<open>The table of methods\<close>

datatype handler =
    HandleHello | HandleHeadSha | HandleRepoMetadata | HandleRemotes | HandleBranches | HandleCommits
  | HandleAheadBehind | HandleCheckoutBranch | HandleDiffForCommit | HandleWorkingTreeDiff | HandleStagedDiff
  | HandleShowFile | HandleGitDiff | HandleGitExec | HandleIsAncestor | HandleFsReadFile | HandleFsListDirectory
  | HandleLspLocations string bool | HandleLspHover | HandleLspDocumentSymbols | HandleLspWorkspaceSymbols
  | HandleLspWorkspaceInfo | HandleLspFoldingRange | HandleTunnelOpen | HandleTunnelClose | HandleGitSpawn
  | HandleGitSignal | HandleDebug | HandleMetaStat | HandleMetaCapabilities | HandleFsStat | HandleFsStatBatch
  | HandleFsWriteFile | HandleFsMkdir | HandleFsDelete | HandleFsRename | HandleFsCopy | HandleFsChmod
  | HandleFsSelftest | HandleLogsTail | HandleIndexCreate | HandleIndexRun | HandleIndexDestroy | HandleWatchHead
  | HandleGitClone | HandleGitFetch | HandleEnsureRepository | HandleCredProvide | HandleCredSelftest
  | HandleDiffCacheGet | HandleDiffCachePut | HandleDiffCachePrune

definition method_table :: "(string \<times> handler) list" where
  "method_table =
    [(''meta.hello'', HandleHello), (''git.headSha'', HandleHeadSha), (''git.repoMetadata'', HandleRepoMetadata),
     (''git.remotes'', HandleRemotes), (''git.branches'', HandleBranches), (''git.commits'', HandleCommits),
     (''git.aheadBehind'', HandleAheadBehind), (''git.checkoutBranch'', HandleCheckoutBranch),
     (''git.diffForCommit'', HandleDiffForCommit), (''git.workingTreeDiff'', HandleWorkingTreeDiff),
     (''git.stagedDiff'', HandleStagedDiff), (''git.showFile'', HandleShowFile), (''git.diff'', HandleGitDiff),
     (''git.exec'', HandleGitExec), (''git.isAncestor'', HandleIsAncestor), (''fs.readFile'', HandleFsReadFile),
     (''fs.listDirectory'', HandleFsListDirectory),
     (''lsp.gotoDefinition'', HandleLspLocations ''lsp.gotoDefinition'' False),
     (''lsp.findReferences'', HandleLspLocations ''lsp.findReferences'' True), (''lsp.hover'', HandleLspHover),
     (''lsp.documentSymbols'', HandleLspDocumentSymbols), (''lsp.workspaceSymbols'', HandleLspWorkspaceSymbols),
     (''lsp.workspaceInfo'', HandleLspWorkspaceInfo), (''lsp.foldingRange'', HandleLspFoldingRange),
     (''lsp.tunnelOpen'', HandleTunnelOpen), (''lsp.tunnelClose'', HandleTunnelClose), (''git.spawn'', HandleGitSpawn),
     (''git.signal'', HandleGitSignal), (''meta.debug'', HandleDebug), (''meta.stat'', HandleMetaStat),
     (''meta.capabilities'', HandleMetaCapabilities), (''fs.stat'', HandleFsStat), (''fs.statBatch'', HandleFsStatBatch),
     (''fs.writeFile'', HandleFsWriteFile), (''fs.mkdir'', HandleFsMkdir), (''fs.delete'', HandleFsDelete),
     (''fs.rename'', HandleFsRename), (''fs.copy'', HandleFsCopy), (''fs.chmod'', HandleFsChmod),
     (''fs.selftest'', HandleFsSelftest), (''logs.tail'', HandleLogsTail), (''index.create'', HandleIndexCreate),
     (''index.run'', HandleIndexRun), (''index.destroy'', HandleIndexDestroy), (''watch.head'', HandleWatchHead),
     (''git.clone'', HandleGitClone), (''git.fetch'', HandleGitFetch), (''git.ensureRepository'', HandleEnsureRepository),
     (''cred.provide'', HandleCredProvide), (''cred.selftest'', HandleCredSelftest), (''diffcache.get'', HandleDiffCacheGet),
     (''diffcache.put'', HandleDiffCachePut), (''diffcache.prune'', HandleDiffCachePrune)]"

definition handler_of :: "string \<Rightarrow> handler option" where
  "handler_of m = map_of method_table m"

text \<open>\<open>handle\<close> runs a handler on the parameters; a method that is in no branch is refused.\<close>

definition dispatch :: "(handler \<Rightarrow> json \<Rightarrow> 's \<Rightarrow> reply \<times> 's) \<Rightarrow> string \<Rightarrow> json \<Rightarrow> 's \<Rightarrow> reply \<times> 's" where
  "dispatch handle m params s =
     (case handler_of m of
        Some h \<Rightarrow> handle h params s
      | None \<Rightarrow> (Error KNotFound (''unknown method: '' @ m), s))"

section \<open>The reader thread\<close>

text \<open>The state the reader thread reaches: the frames to the client and the tables it changes.\<close>

record agent =
  ag_out :: transport
  ag_queue :: work_queue
  ag_cancelled :: cancel_registry
  ag_indexers :: indexers
  ag_watches :: watches
  ag_tunnels :: tunnels

text \<open>What the JSON library does for the reader: parsing, with the text of its exception, and printing.\<close>

record codec =
  co_parse :: "string \<Rightarrow> string + json"
  co_dump :: "json \<Rightarrow> string"
  co_deflate :: "string \<Rightarrow> string option"

text \<open>
  A frame is handled, or the reader waits in \<^verbatim>\<open>tunnelSend\<close> for room, or an exception ends the thread, and with it the
  agent; \<open>NoReply\<close> is a reply that cannot be cut into chunks (excluded by the negotiated frame cap).
\<close>

datatype incoming =
    Handled agent
  | ReaderWaits
  | ReaderDies json_exn
  | NoReply

definition send_note :: "(json \<Rightarrow> string) \<Rightarrow> json \<Rightarrow> transport \<Rightarrow> transport" where
  "send_note dump j t = enqueue_frame Interactive t (dump j)"

definition some_id :: "json \<Rightarrow> json option" where
  "some_id j = (case jfind ''id'' j of None \<Rightarrow> None | Some i \<Rightarrow> if i = JNull then None else Some i)"

text \<open>Four notifications are acted on; the rest are ignored.\<close>

definition handle_note :: "codec \<Rightarrow> string \<Rightarrow> json option \<Rightarrow> agent \<Rightarrow> incoming" where
  "handle_note co m params a =
     (case params of
        None \<Rightarrow> Handled a
      | Some p \<Rightarrow>
          (if m = ''$/cancelRequest''
           then Handled (case some_id p of None \<Rightarrow> a | Some i \<Rightarrow> a\<lparr>ag_cancelled := cancel_cancel (co_dump co i) (ag_cancelled a)\<rparr>)
           else if m = ''index.cancel'' then Handled (a\<lparr>ag_indexers := index_cancel p (ag_indexers a)\<rparr>)
           else if m = ''watch.stop''
           then Handled (case str_field ''watchId'' p of
                  None \<Rightarrow> a | Some i \<Rightarrow> a\<lparr>ag_watches := snd (stopWatch i (ag_watches a))\<rparr>)
           else if m = ''lsp.tunnelSend''
           then (case tunnelSend p (ag_tunnels a) of
                   Sent notes ts \<Rightarrow> Handled (a\<lparr>ag_tunnels := ts, ag_out := fold (send_note (co_dump co)) notes (ag_out a)\<rparr>)
                 | SendWaits \<Rightarrow> ReaderWaits
                 | SendThrows e \<Rightarrow> ReaderDies e)
           else Handled a))"

definition request_lane :: "string \<Rightarrow> json \<Rightarrow> lane" where
  "request_lane m msg =
     (case str_field ''lane'' msg of Some s \<Rightarrow> laneFromString s (defaultLaneFor m) | None \<Rightarrow> defaultLaneFor m)"

definition request_params :: "json \<Rightarrow> json" where
  "request_params msg = (case jfind ''params'' msg of Some p \<Rightarrow> p | None \<Rightarrow> JObj [])"

definition request_job :: "codec \<Rightarrow> json \<Rightarrow> string \<Rightarrow> json \<Rightarrow> job" where
  "request_job co i m msg =
     \<lparr>job_id = i, job_idKey = co_dump co i, job_method = m, job_params = request_params msg, job_lane = request_lane m msg\<rparr>"

definition handleIncoming :: "codec \<Rightarrow> string \<Rightarrow> agent \<Rightarrow> incoming" where
  "handleIncoming co body a =
     (case co_parse co body of
        Inl what \<Rightarrow> Handled (a\<lparr>ag_out := sendNullIdError (co_dump co) KInvalidRequest (''invalid JSON: '' @ what) (ag_out a)\<rparr>)
      | Inr msg \<Rightarrow>
          (case some_id msg of
             None \<Rightarrow> handle_note co (case str_field ''method'' msg of Some m \<Rightarrow> m | None \<Rightarrow> []) (jfind ''params'' msg) a
           | Some i \<Rightarrow>
               (case str_field ''method'' msg of
                  None \<Rightarrow>
                    (case responder_error (co_dump co) (co_deflate co) False
                            \<lparr>rsp_id = i, rsp_idKey = co_dump co i, rsp_lane = Normal\<rparr> KInvalidRequest
                            (''missing string '' @ [CHR 0x27] @ ''method'' @ [CHR 0x27]) (ag_out a) of
                       Some t \<Rightarrow> Handled (a\<lparr>ag_out := t\<rparr>)
                     | None \<Rightarrow> NoReply)
                | Some m \<Rightarrow> Handled (a\<lparr>ag_queue := queue_push (request_job co i m msg) (ag_queue a)\<rparr>))))"

section \<open>The worker\<close>

text \<open>
  One job in \<^verbatim>\<open>workerLoop\<close> between \<^verbatim>\<open>pop\<close> and \<^verbatim>\<open>forget\<close>: refused when it was cancelled before it started, and dispatched
  otherwise; \<open>what\<close> is the text of an exception. The reply goes out on the lane of the job.
\<close>

definition run_job ::
  "codec \<Rightarrow> (json_exn \<Rightarrow> string) \<Rightarrow> (handler \<Rightarrow> json \<Rightarrow> 's \<Rightarrow> reply \<times> 's) \<Rightarrow> bool \<Rightarrow> cancel_registry \<Rightarrow> job \<Rightarrow> transport \<Rightarrow> 's
    \<Rightarrow> transport option \<times> 's" where
  "run_job co what handle plain cancelled j t s =
     (let (r, s') = (if isCancelled (job_idKey j) cancelled then (Error KCancelled ''request cancelled'', s)
                     else dispatch handle (job_method j) (job_params j) s)
      in (send_reply (co_dump co) (co_deflate co) what plain
            \<lparr>rsp_id = job_id j, rsp_idKey = job_idKey j, rsp_lane = job_lane j\<rparr> r t, s'))"

section \<open>What is offered and what is served\<close>

definition reader_notes :: "string list" where
  "reader_notes = [''$/cancelRequest'', ''index.cancel'', ''watch.stop'', ''lsp.tunnelSend'']"

definition served :: "string \<Rightarrow> bool" where
  "served m \<longleftrightarrow> handler_of m \<noteq> None \<or> m \<in> set reader_notes"

text \<open>The two methods that are served and not in the list: the one that asks for it, and a diagnostic.\<close>

definition unlisted :: "string list" where
  "unlisted = [''meta.hello'', ''cred.selftest'']"

definition gated_methods :: "string list" where
  "gated_methods = [''git.exec'', ''git.spawn'', ''git.signal''] @ write_methods"

lemma base_served: "list_all served base_capabilities"
  by code_simp

lemma gated_served: "list_all served gated_methods"
  by code_simp

lemma table_listed: "list_all (\<lambda>(m, h). m \<in> set base_capabilities \<or> m \<in> set gated_methods \<or> m \<in> set unlisted) method_table"
  by code_simp

lemma table_distinct: "distinct (map fst method_table)"
  by code_simp

text \<open>
  What the agent offers is what it serves. Every method in the capabilities of \<^verbatim>\<open>meta.hello\<close>, whatever the
  configuration, has a branch of \<^verbatim>\<open>dispatch\<close> or is a notification the reader acts on; each has one branch; and the
  other way round every branch but two is in the list of an agent that allows git commands and writing.
\<close>

theorem offered_is_served:
  "list_all served (hello_capabilities cfg) \<and> distinct (map fst method_table)
   \<and> (g_gitExecAllowed full \<noteq> [] \<and> g_allowWrite full \<longrightarrow>
      set (map fst method_table) \<subseteq> set (hello_capabilities full) \<union> set unlisted)"
proof (intro conjI impI)
  show "list_all served (hello_capabilities cfg)"
    using base_served gated_served by (auto simp: hello_capabilities_def gated_methods_def list_all_iff)
  show "distinct (map fst method_table)" by (rule table_distinct)
  assume "g_gitExecAllowed full \<noteq> [] \<and> g_allowWrite full"
  then show "set (map fst method_table) \<subseteq> set (hello_capabilities full) \<union> set unlisted"
    using table_listed by (force simp: hello_capabilities_def gated_methods_def list_all_iff)
qed

lemma offered_is_served_witness:
  "set (map fst method_table)
     \<subseteq> set (hello_capabilities ((initial_config None)\<lparr>g_allowWrite := True, g_gitExecAllowed := [''log'']\<rparr>)) \<union> set unlisted"
  using offered_is_served [of "initial_config None" "(initial_config None)\<lparr>g_allowWrite := True, g_gitExecAllowed := [''log'']\<rparr>"]
  by simp

section \<open>Requests and answers\<close>

text \<open>The envelope of a reply, as \<^verbatim>\<open>Responder\<close> makes it.\<close>

definition reply_envelope :: "(json_exn \<Rightarrow> string) \<Rightarrow> json \<Rightarrow> reply \<Rightarrow> json" where
  "reply_envelope what i r =
     (case r of
        Result j \<Rightarrow> result_envelope i j
      | Error code msg \<Rightarrow> error_envelope i code msg
      | Throws e \<Rightarrow> error_envelope i KInternal (''agent exception: '' @ what e))"

lemma send_reply_envelope:
  "send_reply dump z what plain rsp r t = respondEnvelope dump z plain (rsp_id rsp) (rsp_lane rsp) (dump (reply_envelope what (rsp_id rsp) r)) t"
  by (cases r) (simp_all add: send_reply_def reply_envelope_def responder_result_def responder_error_def)

text \<open>The request in a frame.\<close>

definition is_request :: "codec \<Rightarrow> string \<Rightarrow> json \<Rightarrow> string \<Rightarrow> json \<Rightarrow> bool" where
  "is_request co body i m params \<longleftrightarrow>
     (\<exists>msg. co_parse co body = Inr msg \<and> jfind ''id'' msg = Some i \<and> i \<noteq> JNull \<and> str_field ''method'' msg = Some m
        \<and> (jfind ''params'' msg = Some params \<or> jfind ''params'' msg = None \<and> params = JObj []))"

text \<open>
  C10. A request reaches its handler and its answer goes back under its identifier. A frame with a request changes nothing
  in the agent but one queue, which gains one job at its end; and when a worker runs that job without its having been
  cancelled, the handler of its method gets exactly the parameters of the frame, and what is sent is one response with
  the identifier of the request: the handler's result or its error, an INTERNAL error for an exception, NOT_FOUND when
  no handler has the method.
\<close>

theorem request_answered:
  assumes "is_request co body i m params"
  shows "\<exists>j. handleIncoming co body a = Handled (a\<lparr>ag_queue := queue_push j (ag_queue a)\<rparr>)
    \<and> q_jobs (queue_push j (ag_queue a)) (job_lane j) = q_jobs (ag_queue a) (job_lane j) @ [j]
    \<and> (\<forall>what handle plain cancelled t s. job_idKey j \<notin> cancelled \<longrightarrow>
        run_job co what handle plain cancelled j t s =
          (let (r, s') = (case handler_of m of Some h \<Rightarrow> handle h params s | None \<Rightarrow> (Error KNotFound (''unknown method: '' @ m), s))
           in (respondEnvelope (co_dump co) (co_deflate co) plain i (job_lane j) (co_dump co (reply_envelope what i r)) t, s')))"
proof -
  obtain msg where msg: "co_parse co body = Inr msg" "some_id msg = Some i" "str_field ''method'' msg = Some m"
    "request_params msg = params"
    using assms by (auto simp: is_request_def some_id_def request_params_def)
  let ?j = "request_job co i m msg"
  have frame: "handleIncoming co body a = Handled (a\<lparr>ag_queue := queue_push ?j (ag_queue a)\<rparr>)"
    by (simp add: handleIncoming_def msg)
  have queue: "q_jobs (queue_push ?j (ag_queue a)) (job_lane ?j) = q_jobs (ag_queue a) (job_lane ?j) @ [?j]"
    by (simp add: queue_push_def queue_insert_def)
  have job: "job_id ?j = i" "job_method ?j = m" "job_params ?j = params"
    by (simp_all add: request_job_def msg(4))
  show ?thesis
  proof (intro exI [of _ ?j] conjI allI impI)
    fix what handle plain cancelled t s
    assume "job_idKey ?j \<notin> cancelled"
    then have "\<not> isCancelled (job_idKey ?j) cancelled" by (simp add: isCancelled_def)
    then show "run_job co what handle plain cancelled ?j t s =
        (let (r, s') = (case handler_of m of Some h \<Rightarrow> handle h params s | None \<Rightarrow> (Error KNotFound (''unknown method: '' @ m), s))
         in (respondEnvelope (co_dump co) (co_deflate co) plain i (job_lane ?j) (co_dump co (reply_envelope what i r)) t, s'))"
      unfolding run_job_def dispatch_def send_reply_envelope responder.simps job if_not_P by simp
  qed (rule frame queue)+
qed

definition demo_codec :: codec where
  "demo_codec =
     \<lparr>co_parse = (\<lambda>s. if s = ''{}'' then Inl ''no id''
          else if s = ''cancel''
          then Inr (JObj [(''method'', JStr ''$/cancelRequest''), (''params'', JObj [(''id'', JInt 7)])])
          else Inr (JObj [(''id'', JInt 7), (''method'', JStr ''fs.stat''), (''params'', JObj [(''path'', JStr ''/r/a'')])])),
      co_dump = (\<lambda>j. case j of JInt i \<Rightarrow> int_text i | _ \<Rightarrow> ''{}''), co_deflate = (\<lambda>_. None)\<rparr>"

definition demo_idle :: agent where
  "demo_idle =
     \<lparr>ag_out = initial_transport, ag_queue = new_work_queue, ag_cancelled = {}, ag_indexers = empty_table,
      ag_watches = empty_table, ag_tunnels = no_tunnels\<rparr>"

lemma demo_request: "is_request demo_codec ''stat'' (JInt 7) ''fs.stat'' (JObj [(''path'', JStr ''/r/a'')])"
  by (simp add: is_request_def demo_codec_def some_id_def str_field_def request_params_def)

lemma request_answered_witness:
  "\<exists>j. handleIncoming demo_codec ''stat'' demo_idle = Handled (demo_idle\<lparr>ag_queue := queue_push j (ag_queue demo_idle)\<rparr>)"
  using request_answered [OF demo_request, of demo_idle] by (elim exE conjE) (rule exI)

section \<open>Cancellation\<close>

definition is_cancel :: "codec \<Rightarrow> string \<Rightarrow> json \<Rightarrow> bool" where
  "is_cancel co body i \<longleftrightarrow>
     (\<exists>msg p. co_parse co body = Inr msg \<and> some_id msg = None \<and> str_field ''method'' msg = Some ''$/cancelRequest''
        \<and> jfind ''params'' msg = Some p \<and> some_id p = Some i)"

text \<open>
  A request that is cancelled while it waits never runs: after the reader handled the cancellation of an identifier,
  and until that job was answered, a worker that takes the job refuses it with CANCELLED and its handler is not called;
  any other job is run as before. The cancellation itself is answered with nothing and touches nothing else.
\<close>

theorem cancelled_job_refused:
  assumes "is_cancel co body i"
  shows "\<exists>a'. handleIncoming co body a = Handled a' \<and> a' = a\<lparr>ag_cancelled := ag_cancelled a'\<rparr>
    \<and> (\<forall>j what handle plain t s. job_idKey j = co_dump co i \<longrightarrow>
        run_job co what handle plain (ag_cancelled a') j t s
          = (respondEnvelope (co_dump co) (co_deflate co) plain (job_id j) (job_lane j)
               (co_dump co (error_envelope (job_id j) KCancelled ''request cancelled'')) t, s))
    \<and> (\<forall>j what handle plain t s. job_idKey j \<noteq> co_dump co i \<longrightarrow>
        run_job co what handle plain (ag_cancelled a') j t s = run_job co what handle plain (ag_cancelled a) j t s)"
proof -
  obtain msg p where msg: "co_parse co body = Inr msg" "some_id msg = None" "str_field ''method'' msg = Some ''$/cancelRequest''"
    "jfind ''params'' msg = Some p" "some_id p = Some i"
    using assms by (auto simp: is_cancel_def)
  have "handleIncoming co body a = Handled (a\<lparr>ag_cancelled := cancel_cancel (co_dump co i) (ag_cancelled a)\<rparr>)"
    by (simp add: handleIncoming_def handle_note_def msg)
  then show ?thesis
  proof (intro exI conjI allI impI)
    let ?c = "cancel_cancel (co_dump co i) (ag_cancelled a)"
    show "a\<lparr>ag_cancelled := ?c\<rparr> = a\<lparr>ag_cancelled := ag_cancelled (a\<lparr>ag_cancelled := ?c\<rparr>)\<rparr>" by simp
    fix j what handle plain t s
    show "run_job co what handle plain (ag_cancelled (a\<lparr>ag_cancelled := ?c\<rparr>)) j t s
        = (respondEnvelope (co_dump co) (co_deflate co) plain (job_id j) (job_lane j)
             (co_dump co (error_envelope (job_id j) KCancelled ''request cancelled'')) t, s)"
      if "job_idKey j = co_dump co i"
    proof -
      have "isCancelled (job_idKey j) ?c" using that by (simp add: isCancelled_def cancel_cancel_def)
      then show ?thesis by (simp add: run_job_def send_reply_envelope reply_envelope_def)
    qed
    show "run_job co what handle plain (ag_cancelled (a\<lparr>ag_cancelled := ?c\<rparr>)) j t s
        = run_job co what handle plain (ag_cancelled a) j t s"
      if "job_idKey j \<noteq> co_dump co i"
    proof -
      have "isCancelled (job_idKey j) ?c = isCancelled (job_idKey j) (ag_cancelled a)"
        using that by (simp add: isCancelled_def cancel_cancel_def)
      then show ?thesis by (simp add: run_job_def)
    qed
  qed
qed

lemma demo_cancel: "is_cancel demo_codec ''cancel'' (JInt 7)"
  by (simp add: is_cancel_def demo_codec_def some_id_def str_field_def)

lemma cancelled_job_refused_witness:
  "\<exists>a'. handleIncoming demo_codec ''cancel'' demo_idle = Handled a' \<and> a' = demo_idle\<lparr>ag_cancelled := ag_cancelled a'\<rparr>"
  using cancelled_job_refused [OF demo_cancel, of demo_idle] by (elim exE conjE) (intro exI conjI)

section \<open>What the reader may send\<close>

text \<open>
  A frame that is no request with a method leaves the queue alone, and one that cannot be parsed is answered with
  one error without an identifier.
\<close>

lemma only_requests_queue:
  assumes "handleIncoming co body a = Handled a'" and "\<nexists>i m params. is_request co body i m params"
  shows "ag_queue a' = ag_queue a"
  using assms
  by (auto simp: handleIncoming_def handle_note_def is_request_def some_id_def
      split: sum.splits option.splits send_outcome.splits if_splits)

lemma bad_json_answered:
  assumes "co_parse co body = Inl what"
  shows "handleIncoming co body a = Handled (a\<lparr>ag_out := enqueue_frame Normal (ag_out a)
      (co_dump co (error_envelope JNull KInvalidRequest (''invalid JSON: '' @ what)))\<rparr>)"
  by (simp add: handleIncoming_def assms sendNullIdError_def)

text \<open>The reader is ended by one thing only: a stray type in \<^verbatim>\<open>lsp.tunnelSend\<close>.\<close>

lemma send_throws: "tunnelSend p ts = SendThrows e \<Longrightarrow> value_bool ''eof'' False p = Inl e"
  by (simp add: tunnelSend_def Let_def split: sum.splits option.splits if_splits)

lemma note_throws:
  assumes "handle_note co m params a = ReaderDies e"
  shows "m = ''lsp.tunnelSend'' \<and> (\<exists>p. params = Some p \<and> value_bool ''eof'' False p = Inl e)"
proof -
  obtain p where p: "params = Some p" using assms by (cases params) (simp_all add: handle_note_def)
  then have m: "m = ''lsp.tunnelSend''" using assms by (simp add: handle_note_def split: if_splits)
  then have "tunnelSend p (ag_tunnels a) = SendThrows e"
    using assms p by (simp add: handle_note_def split: send_outcome.splits)
  then show ?thesis using m p send_throws by blast
qed

lemma reader_dies_only_by_eof:
  assumes "handleIncoming co body a = ReaderDies e"
  shows "\<exists>msg p. co_parse co body = Inr msg \<and> str_field ''method'' msg = Some ''lsp.tunnelSend'' \<and> jfind ''params'' msg = Some p
    \<and> value_bool ''eof'' False p = Inl e"
proof -
  obtain msg where msg: "co_parse co body = Inr msg" "some_id msg = None"
    "handle_note co (case str_field ''method'' msg of Some m \<Rightarrow> m | None \<Rightarrow> []) (jfind ''params'' msg) a = ReaderDies e"
    using assms by (auto simp: handleIncoming_def split: sum.splits option.splits)
  show ?thesis using msg(1) note_throws [OF msg(3)] by (auto split: option.splits)
qed

lemma eof_string_kills: "\<exists>a. handleIncoming (demo_codec\<lparr>co_parse := (\<lambda>_. Inr (JObj [(''method'', JStr ''lsp.tunnelSend''),
    (''params'', JObj [(''eof'', JStr ''yes'')])]))\<rparr>) [] a = ReaderDies TypeError302"
  by (simp add: handleIncoming_def handle_note_def some_id_def str_field_def tunnelSend_def value_bool_def)

end
