(* ===== verification/StartOptions.thy ===== *)
theory StartOptions
  imports Sandbox GitPolicy Logging Hello "HOL-Library.List_Lexorder" "HOL-Library.Char_ord"
begin

text \<open>
  The start of the agent (\<^verbatim>\<open>src/agent/main.cpp\<close>): the options of the command line and of configuration files, and
  what \<^verbatim>\<open>main\<close> makes of them before it serves anything: the roots of the sandbox and the git policy. Reading a
  file is a parameter: its text, or nothing when it cannot be read.
\<close>

section \<open>One setting\<close>

record startup =
  su_logPath :: string
  su_logLevel :: log_level
  su_allowedRoots :: "string list"
  su_config :: agent_config
  su_warnings :: "string list"

definition initial_startup :: "string option \<Rightarrow> startup" where
  "initial_startup home =
     \<lparr>su_logPath = [], su_logLevel = LogInfo, su_allowedRoots = [], su_config = initial_config home, su_warnings = []\<rparr>"

definition optionIsBoolean :: "string \<Rightarrow> bool" where
  "optionIsBoolean key \<longleftrightarrow> key = ''allow-write'' \<or> key = ''git-exec-editor''"

definition is_no :: "string \<Rightarrow> bool" where
  "is_no v \<longleftrightarrow> v = ''false'' \<or> v = ''no'' \<or> v = ''0''"

definition set_config :: "(agent_config \<Rightarrow> agent_config) \<Rightarrow> startup \<Rightarrow> startup" where
  "set_config f st = st\<lparr>su_config := f (su_config st)\<rparr>"

definition preset_config :: "string \<Rightarrow> agent_config \<Rightarrow> agent_config" where
  "preset_config value cfg =
     (let c1 = (if value = ''read-only'' \<or> value = ''magit''
                then cfg\<lparr>g_gitExecAllowed := g_gitExecAllowed cfg @ kGitExecReadOnly, g_gitExecReadForms := True\<rparr> else cfg)
      in if value = ''magit'' then c1\<lparr>g_gitExecAllowed := g_gitExecAllowed c1 @ kGitExecMagit, g_gitExecEditors := True\<rparr>
         else c1)"

text \<open>\<^verbatim>\<open>applyOption\<close> but for \<^verbatim>\<open>config\<close>: the new settings, or why there are none.\<close>

definition apply_setting :: "string \<Rightarrow> string \<Rightarrow> startup \<Rightarrow> string + startup" where
  "apply_setting key value st =
     (if key = ''log'' then Inr (st\<lparr>su_logPath := value\<rparr>)
      else if key = ''log-level'' then Inr (st\<lparr>su_logLevel := parseLogLevel value\<rparr>)
      else if key = ''allow-root'' then Inr (st\<lparr>su_allowedRoots := su_allowedRoots st @ [value]\<rparr>)
      else if key = ''allow-write'' then Inr (set_config (\<lambda>c. c\<lparr>g_allowWrite := \<not> is_no value\<rparr>) st)
      else if key = ''git-exec''
      then Inr (set_config (\<lambda>c. c\<lparr>g_gitExecAllowed := g_gitExecAllowed c @ [value]\<rparr>) st)
      else if key = ''git-exec-editor'' then Inr (set_config (\<lambda>c. c\<lparr>g_gitExecEditors := \<not> is_no value\<rparr>) st)
      else if key = ''git-exec-config''
      then Inr (set_config (\<lambda>c. c\<lparr>g_gitExecConfigKeys := g_gitExecConfigKeys c @ [ascii_lower value]\<rparr>) st)
      else if key = ''git-exec-preset''
      then (if value = ''read-only'' \<or> value = ''magit'' then Inr (set_config (preset_config value) st)
            else Inl (''unknown git-exec-preset '' @ quoted value @ '' (read-only|magit); ignoring''))
      else Inl (''unknown option '' @ quoted key @ ''; ignoring''))"

definition warn :: "string \<Rightarrow> startup \<Rightarrow> startup" where
  "warn text st = st\<lparr>su_warnings := su_warnings st @ [''scrutiny-agent: '' @ text]\<rparr>"

section \<open>Configuration files\<close>

definition conf_space :: "char \<Rightarrow> bool" where
  "conf_space c \<longleftrightarrow> c = CHR '' '' \<or> c = CHR 0x09 \<or> c = CHR 0x0D \<or> c = CHR 0x0A"

definition conf_trim :: "string \<Rightarrow> string" where
  "conf_trim s = rev (dropWhile conf_space (rev (dropWhile conf_space s)))"

text \<open>A line: its comment cut off, then a key with its value, or a key alone, which means true.\<close>

definition config_line :: "string \<Rightarrow> (string \<times> string) option" where
  "config_line line =
     (let t = conf_trim (before CHR ''#'' line)
      in if t = [] then None
         else if CHR ''='' \<in> set t then Some (ascii_lower (conf_trim (before CHR ''='' t)), conf_trim (after CHR ''='' t))
         else Some (ascii_lower t, ''true''))"

definition line_warning :: "string \<Rightarrow> nat \<Rightarrow> string \<Rightarrow> string" where
  "line_warning path n err = path @ '':'' @ nat_text n @ '': '' @ err"

text \<open>
  \<^verbatim>\<open>applyConfigFile\<close> with the depth the recursion may reach: a file may name another. \<open>None\<close> is a recursion deeper than
  that.
\<close>

fun apply_lines ::
  "(string \<Rightarrow> startup \<Rightarrow> startup option) \<Rightarrow> string \<Rightarrow> nat \<Rightarrow> string list \<Rightarrow> startup \<Rightarrow> startup option" where
  "apply_lines include path n [] st = Some st"
| "apply_lines include path n (l # ls) st =
     Option.bind
       (case config_line l of
          None \<Rightarrow> Some st
        | Some (key, value) \<Rightarrow>
            (if key = ''config'' then include value st
             else case apply_setting key value st of
               Inr st' \<Rightarrow> Some st' | Inl err \<Rightarrow> Some (warn (line_warning path n err) st)))
       (apply_lines include path (Suc n) ls)"

fun applyConfigFile :: "nat \<Rightarrow> (string \<Rightarrow> string option) \<Rightarrow> string \<Rightarrow> startup \<Rightarrow> startup option" where
  "applyConfigFile 0 files path st = None"
| "applyConfigFile (Suc depth) files path st =
     (let resolved = resolveRoot (su_config st) path
      in case files resolved of
           None \<Rightarrow>
             Some (set_config (\<lambda>c. c\<lparr>g_configUnreadable := g_configUnreadable c @ [resolved]\<rparr>)
               (warn (''cannot read config '' @ resolved) st))
         | Some text \<Rightarrow>
             map_option (\<lambda>st'. set_config (\<lambda>c. c\<lparr>g_configLoaded := g_configLoaded c @ [resolved]\<rparr>)
                                (warn (''config: '' @ resolved) st'))
               (apply_lines (applyConfigFile depth files) resolved 1 (getlines text) st))"

section \<open>The command line\<close>

text \<open>The recursion between \<^verbatim>\<open>applyOption\<close> and \<^verbatim>\<open>applyConfigFile\<close> of one option.\<close>

definition apply_flag :: "nat \<Rightarrow> (string \<Rightarrow> string option) \<Rightarrow> string \<Rightarrow> string \<Rightarrow> startup \<Rightarrow> startup option" where
  "apply_flag depth files key value st =
     (if key = ''config'' then applyConfigFile depth files value st
      else case apply_setting key value st of Inr st' \<Rightarrow> Some st' | Inl err \<Rightarrow> Some (warn err st))"

datatype parsed =
    Serve startup
  | PrintsVersion
  | PrintsHelp
  | TooDeep

fun parse_arguments :: "nat \<Rightarrow> (string \<Rightarrow> string option) \<Rightarrow> string list \<Rightarrow> startup \<Rightarrow> parsed" where
  "parse_arguments depth files [] st = Serve st"
| "parse_arguments depth files (flag # rest) st =
     (if flag = ''--version'' then PrintsVersion
      else if flag = ''--help'' \<or> flag = ''-h'' then PrintsHelp
      else if \<not> starts_with flag ''--'' then parse_arguments depth files rest st
      else let key = drop 2 flag
        in if key = ''rpc-stdio'' then parse_arguments depth files rest st
           else if optionIsBoolean key
           then (case apply_flag depth files key ''true'' st of
                   None \<Rightarrow> TooDeep | Some st' \<Rightarrow> parse_arguments depth files rest st')
           else (case rest of
                   [] \<Rightarrow> Serve (warn (flag @ '' needs a value'') st)
                 | value # others \<Rightarrow>
                     (case apply_flag depth files key value st of
                        None \<Rightarrow> TooDeep | Some st' \<Rightarrow> parse_arguments depth files others st')))"

section \<open>The configuration the agent runs with\<close>

text \<open>One root: its canonical path, and its spelling when that differs; what does not resolve is dropped.\<close>

definition add_root :: "filesystem \<Rightarrow> path \<Rightarrow> agent_config \<Rightarrow> string \<Rightarrow> string list \<times> string list \<Rightarrow> string list \<times> string list" where
  "add_root fs cwd cfg raw acc =
     (case acc of (roots, given) \<Rightarrow>
        (let anchored = drop_slashes (resolveRoot cfg raw)
         in case realpath fs cwd anchored of
              Inl _ \<Rightarrow> (roots, given)
            | Inr p \<Rightarrow>
                (roots @ [render p],
                 if anchored \<noteq> render p \<and> anchored \<notin> set given then given @ [anchored] else given)))"

definition home_root :: "filesystem \<Rightarrow> path \<Rightarrow> agent_config \<Rightarrow> string list" where
  "home_root fs cwd cfg =
     (case env_HOME cfg of
        Some h \<Rightarrow> (if h = [] then [] else case realpath fs cwd h of Inr p \<Rightarrow> [render p] | Inl _ \<Rightarrow> [])
      | None \<Rightarrow> [])"

definition startup_config :: "filesystem \<Rightarrow> path \<Rightarrow> startup \<Rightarrow> agent_config" where
  "startup_config fs cwd st =
     (let cfg = su_config st;
          (roots, given) = fold (add_root fs cwd cfg) (su_allowedRoots st) ([], g_allowedRootsAsGiven cfg)
      in cfg\<lparr>g_allowedRoots := dedup [] (if roots = [] then home_root fs cwd cfg else roots),
             g_allowedRootsAsGiven := given,
             g_gitExecConfigKeys := g_gitExecConfigKeys cfg @ kGitExecConfigDefaults,
             g_gitExecAllowed := sort (dedup [] (g_gitExecAllowed cfg))\<rparr>)"

definition startup_log :: "startup \<Rightarrow> (string \<times> log_level) option" where
  "startup_log st = (if su_logPath st \<noteq> [] \<and> su_logLevel st \<noteq> LogOff then Some (su_logPath st, su_logLevel st) else None)"

section \<open>The roots\<close>

text \<open>The nodes the given roots lead to, and the one the home directory leads to.\<close>

definition resolved_roots :: "filesystem \<Rightarrow> path \<Rightarrow> startup \<Rightarrow> path set" where
  "resolved_roots fs cwd st =
     {p. \<exists>raw \<in> set (su_allowedRoots st). realpath fs cwd (drop_slashes (resolveRoot (su_config st) raw)) = Inr p}"

definition resolved_home :: "filesystem \<Rightarrow> path \<Rightarrow> startup \<Rightarrow> path set" where
  "resolved_home fs cwd st = {p. \<exists>h. env_HOME (su_config st) = Some h \<and> h \<noteq> [] \<and> realpath fs cwd h = Inr p}"

lemma add_roots_form:
  assumes "fold (add_root fs cwd cfg) raws acc = (roots, given)"
  shows "set roots = set (fst acc) \<union> render ` {p. \<exists>raw \<in> set raws. realpath fs cwd (drop_slashes (resolveRoot cfg raw)) = Inr p}"
  using assms
proof (induction raws arbitrary: acc)
  case (Cons raw raws)
  obtain roots0 given0 where acc: "acc = (roots0, given0)" by (cases acc)
  show ?case
  proof (cases "realpath fs cwd (drop_slashes (resolveRoot cfg raw))")
    case (Inl e)
    then have "add_root fs cwd cfg raw acc = acc" by (simp add: acc add_root_def Let_def)
    then show ?thesis using Cons.IH [of acc] Cons.prems Inl by auto
  next
    case (Inr p)
    obtain given1 where "add_root fs cwd cfg raw acc = (roots0 @ [render p], given1)"
      using Inr by (simp add: acc add_root_def Let_def)
    then have "set roots = set (roots0 @ [render p])
        \<union> render ` {p. \<exists>raw \<in> set raws. realpath fs cwd (drop_slashes (resolveRoot cfg raw)) = Inr p}"
      using Cons.IH [of "(roots0 @ [render p], given1)"] Cons.prems by simp
    then show ?thesis using Inr by (auto simp: acc)
  qed
qed simp

lemma home_root_form: "set (home_root fs cwd (su_config st)) = render ` resolved_home fs cwd st"
proof (cases "env_HOME (su_config st)")
  case (Some h)
  show ?thesis
  proof (cases "h = []")
    case False
    then have "resolved_home fs cwd st = {p. realpath fs cwd h = Inr p}" by (simp add: resolved_home_def Some)
    then show ?thesis using False by (cases "realpath fs cwd h") (simp_all add: home_root_def Some)
  qed (simp add: home_root_def resolved_home_def Some)
qed (simp add: home_root_def resolved_home_def)

lemma startup_roots:
  "distinct (g_allowedRoots (startup_config fs cwd st))
   \<and> set (g_allowedRoots (startup_config fs cwd st))
     = render ` (if resolved_roots fs cwd st = {} then resolved_home fs cwd st else resolved_roots fs cwd st)"
proof -
  let ?c = "su_config st"
  obtain roots given where f: "fold (add_root fs cwd ?c) (su_allowedRoots st) ([], g_allowedRootsAsGiven ?c) = (roots, given)"
    by (cases "fold (add_root fs cwd ?c) (su_allowedRoots st) ([], g_allowedRootsAsGiven ?c)")
  have cfg: "g_allowedRoots (startup_config fs cwd st) = dedup [] (if roots = [] then home_root fs cwd ?c else roots)"
    using f by (auto simp: startup_config_def Let_def)
  have "set roots = render ` resolved_roots fs cwd st"
    using add_roots_form [OF f] by (simp add: resolved_roots_def)
  moreover from this have "roots = [] \<longleftrightarrow> resolved_roots fs cwd st = {}" by (metis image_is_empty set_empty)
  ultimately show ?thesis unfolding cfg using home_root_form by simp
qed

text \<open>
  C11. The roots \<^verbatim>\<open>main\<close> arrives at are exactly what the roots that were given resolve to, every one that resolves
  and nothing else; only when none of them does, they are the home directory, if that is set and resolves. Each
  is the canonical name of a file or directory that exists, and none occurs twice, so that the configuration is one
  the sandbox is sound for.
\<close>

theorem roots_canonical:
  assumes "world_ok fs cwd" and "startup_config fs cwd st = cfg"
  shows "set (g_allowedRoots cfg)
      = render ` (if resolved_roots fs cwd st = {} then resolved_home fs cwd st else resolved_roots fs cwd st)
    \<and> distinct (g_allowedRoots cfg) \<and> roots_ok cfg
    \<and> list_all (\<lambda>r. \<exists>p. r = render p \<and> physical fs p) (g_allowedRoots cfg)"
proof -
  have "physical fs p \<and> good_path p" if "p \<in> resolved_roots fs cwd st \<union> resolved_home fs cwd st" for p
    using that realpath_physical assms(1) by (auto simp: world_ok_def resolved_roots_def resolved_home_def)
  then have real: "\<exists>p. r = render p \<and> physical fs p \<and> good_path p" if "r \<in> set (g_allowedRoots cfg)" for r
    using that startup_roots [of fs cwd st] unfolding assms(2) by (cases "resolved_roots fs cwd st = {}") auto
  have "roots_ok cfg" unfolding roots_ok_def using real by blast
  moreover have "list_all (\<lambda>r. \<exists>p. r = render p \<and> physical fs p) (g_allowedRoots cfg)"
    unfolding list_all_iff using real by blast
  ultimately show ?thesis using startup_roots [of fs cwd st] unfolding assms(2) by blast
qed

definition demo_start :: startup where
  "demo_start = (initial_startup (Some ''/s''))\<lparr>su_allowedRoots := [''/r/'', ''/x'', ''/r'']\<rparr>"

lemma demo_roots_start: "g_allowedRoots (startup_config demo_fs [] demo_start) = [''/r'']"
proof -
  have "fold (add_root demo_fs [] (su_config demo_start)) (su_allowedRoots demo_start) ([], []) = ([''/r'', ''/r''], [])"
    by code_simp
  then show ?thesis
    by (simp add: startup_config_def Let_def demo_start_def initial_startup_def initial_config_def)
qed

lemma roots_canonical_witness:
  "render ` (if resolved_roots demo_fs [] demo_start = {} then resolved_home demo_fs [] demo_start
     else resolved_roots demo_fs [] demo_start) = {''/r''} \<and> roots_ok (startup_config demo_fs [] demo_start)"
  using roots_canonical [OF demo_world refl, of demo_start] demo_roots_start by simp

text \<open>
  Roots that were given and do not resolve leave the agent with the whole home directory, as if none had been given.
\<close>

lemma unresolved_roots_open_home:
  assumes "list_all (\<lambda>raw. \<exists>e. realpath fs cwd (drop_slashes (resolveRoot (su_config st) raw)) = Inl e) (su_allowedRoots st)"
    and "env_HOME (su_config st) = Some h" and "h \<noteq> []" and "realpath fs cwd h = Inr p"
  shows "g_allowedRoots (startup_config fs cwd st) = [render p]"
proof -
  have "resolved_roots fs cwd st = {}" using assms(1) by (auto simp: resolved_roots_def list_all_iff)
  moreover have "resolved_home fs cwd st = {p}" using assms(2-4) by (auto simp: resolved_home_def)
  ultimately have "distinct (g_allowedRoots (startup_config fs cwd st)) \<and> set (g_allowedRoots (startup_config fs cwd st)) = {render p}"
    using startup_roots [of fs cwd st] by simp
  then show ?thesis by (cases "g_allowedRoots (startup_config fs cwd st)") (auto simp: subset_singleton_iff)
qed

section \<open>Files and flags agree\<close>

text \<open>A key and a value that can be written on a line as they are.\<close>

definition plain_setting :: "string \<Rightarrow> string \<Rightarrow> bool" where
  "plain_setting key value \<longleftrightarrow>
     key \<noteq> [] \<and> ascii_lower key = key \<and> list_all (\<lambda>c. c \<noteq> CHR ''='' \<and> c \<noteq> CHR ''#'' \<and> \<not> conf_space c) key
     \<and> CHR ''#'' \<notin> set value \<and> conf_trim value = value \<and> key \<noteq> ''config''"

lemma conf_trim_word: "list_all (\<lambda>c. \<not> conf_space c) w \<Longrightarrow> conf_trim w = w"
proof -
  have keep: "list_all (\<lambda>c. \<not> conf_space c) v \<Longrightarrow> dropWhile conf_space v = v" for v by (cases v) simp_all
  assume "list_all (\<lambda>c. \<not> conf_space c) w"
  then show ?thesis using keep [of w] keep [of "rev w"] by (simp add: conf_trim_def list_all_iff)
qed

lemma conf_trim_pad: "conf_trim (s @ [CHR '' '']) = conf_trim s" "conf_trim (CHR '' '' # s) = conf_trim s"
proof -
  have sp [simp]: "conf_space (CHR '' '')" by (simp add: conf_space_def)
  show "conf_trim (CHR '' '' # s) = conf_trim s" by (simp add: conf_trim_def)
  show "conf_trim (s @ [CHR '' '']) = conf_trim s"
  proof (cases "list_all conf_space s")
    case True
    then have none: "dropWhile conf_space s = []" "dropWhile conf_space (s @ [CHR '' '']) = []"
      unfolding dropWhile_eq_Nil_conv by (simp_all add: list_all_iff)
    show ?thesis by (simp only: conf_trim_def none)
  next
    case False
    then have "dropWhile conf_space (s @ [CHR '' '']) = dropWhile conf_space s @ [CHR '' '']"
      by (auto simp: list_all_iff dropWhile_append)
    then show ?thesis by (simp add: conf_trim_def)
  qed
qed

lemma conf_trim_ends: "w \<noteq> [] \<Longrightarrow> \<not> conf_space (hd w) \<Longrightarrow> \<not> conf_space (last w) \<Longrightarrow> conf_trim w = w"
proof -
  have keep: "v \<noteq> [] \<Longrightarrow> \<not> conf_space (hd v) \<Longrightarrow> dropWhile conf_space v = v" for v by (cases v) simp_all
  assume "w \<noteq> []" "\<not> conf_space (hd w)" "\<not> conf_space (last w)"
  then show ?thesis using keep [of w] keep [of "rev w"] by (simp add: conf_trim_def hd_rev)
qed

lemma conf_trim_last: "conf_trim v = v \<Longrightarrow> v \<noteq> [] \<Longrightarrow> \<not> conf_space (last v)"
proof -
  assume t: "conf_trim v = v" and ne: "v \<noteq> []"
  let ?r = "dropWhile conf_space (rev (dropWhile conf_space v))"
  have "?r \<noteq> []"
  proof
    assume "?r = []"
    then have "rev ?r = []" by (rule arg_cong [where f = rev, THEN trans]) simp
    then show False using t ne by (simp only: conf_trim_def)
  qed
  then have "\<not> conf_space (hd ?r)" by (rule hd_dropWhile)
  moreover have "rev v = ?r" using t unfolding conf_trim_def by (metis rev_rev_ident)
  ultimately show ?thesis using ne by (metis hd_rev)
qed

definition setting_line :: "string \<times> string \<Rightarrow> string" where
  "setting_line s = fst s @ '' = '' @ snd s"

lemma setting_line_read:
  assumes "plain_setting key value"
  shows "config_line (setting_line (key, value)) = Some (key, value)"
proof -
  have key: "key \<noteq> []" "ascii_lower key = key" "list_all (\<lambda>c. \<not> conf_space c) key" "CHR ''='' \<notin> set key" "CHR ''#'' \<notin> set key"
    and val: "CHR ''#'' \<notin> set value" "conf_trim value = value"
    using assms by (auto simp: plain_setting_def list_all_iff)
  let ?line = "key @ '' = '' @ value"
  let ?t = "key @ '' ='' @ (if value = [] then [] else '' '' @ value)"
  have sp: "conf_space (CHR '' '')" and eq: "\<not> conf_space (CHR ''='')" by (simp_all add: conf_space_def)
  have comment: "before CHR ''#'' ?line = ?line" using key(5) val(1) by simp
  have first: "\<not> conf_space (hd key)" using key(1,3) by (cases key) simp_all
  have t: "conf_trim ?line = ?t"
  proof (cases "value = []")
    case True
    have "conf_trim ((key @ '' ='') @ [CHR '' '']) = conf_trim (key @ '' ='')" by (rule conf_trim_pad(1))
    also have "\<dots> = key @ '' =''" using key(1) first eq by (intro conf_trim_ends) simp_all
    finally show ?thesis using True by simp
  next
    case False
    then have "conf_trim ?line = ?line" using key(1) first conf_trim_last [OF val(2)] by (intro conf_trim_ends) simp_all
    then show ?thesis using False by simp
  qed
  have split: "?t = (key @ '' '') @ CHR ''='' # (if value = [] then [] else '' '' @ value)" by simp
  have parts: "before CHR ''='' ?t = key @ '' ''" "after CHR ''='' ?t = (if value = [] then [] else '' '' @ value)"
    unfolding split by (rule before_append_sep after_append_sep, use key(4) in simp)+
  have "conf_trim (key @ '' '') = key" using conf_trim_pad(1) [of key] conf_trim_word [OF key(3)] by simp
  moreover have "conf_trim (if value = [] then [] else '' '' @ value) = value"
    using conf_trim_pad(2) [of "value"] val(2) by (auto simp: conf_trim_def)
  moreover have "?t \<noteq> []" "CHR ''='' \<in> set ?t" by simp_all
  ultimately show ?thesis
    unfolding config_line_def setting_line_def fst_conv snd_conv comment t Let_def parts using key(2) by simp
qed


text \<open>The settings that are accepted: a key of the table, and one of the two presets for that key.\<close>

definition accepted :: "string \<Rightarrow> string \<Rightarrow> bool" where
  "accepted key value \<longleftrightarrow>
     key \<in> {''log'', ''log-level'', ''allow-root'', ''allow-write'', ''git-exec'', ''git-exec-editor'', ''git-exec-config''}
     \<or> key = ''git-exec-preset'' \<and> (value = ''read-only'' \<or> value = ''magit'')"

lemma accepted_applies: "accepted key value \<longleftrightarrow> (\<exists>st'. apply_setting key value st = Inr st')"
  by (simp add: accepted_def apply_setting_def)

text \<open>A flag for a setting: the boolean ones stand alone.\<close>

definition setting_args :: "string \<times> string \<Rightarrow> string list" where
  "setting_args s = (if optionIsBoolean (fst s) then [''--'' @ fst s] else [''--'' @ fst s, snd s])"

definition both_ways :: "string \<times> string \<Rightarrow> bool" where
  "both_ways s \<longleftrightarrow>
     plain_setting (fst s) (snd s) \<and> accepted (fst s) (snd s) \<and> (optionIsBoolean (fst s) \<longrightarrow> snd s = ''true'')"

lemma one_setting:
  assumes "both_ways s" and "apply_setting (fst s) (snd s) st = Inr st'"
  shows "apply_lines inc path n (setting_line s # ls) st = apply_lines inc path (Suc n) ls st'"
    and "parse_arguments depth files (setting_args s @ rest) st = parse_arguments depth files rest st'"
proof -
  obtain key v where s: "s = (key, v)" by (cases s)
  have ok: "plain_setting key v" "accepted key v" "optionIsBoolean key \<Longrightarrow> v = ''true''"
    using assms(1) by (simp_all add: s both_ways_def)
  have key: "key \<noteq> ''config''" using ok(1) by (simp add: plain_setting_def)
  have app: "apply_setting key v st = Inr st'" using assms(2) by (simp add: s)
  show "apply_lines inc path n (setting_line s # ls) st = apply_lines inc path (Suc n) ls st'"
    using key app by (simp add: s setting_line_read [OF ok(1)])
  have flag: "apply_flag depth files key v st = Some st'" using key app by (simp add: apply_flag_def)
  have names: "key \<noteq> ''version''" "key \<noteq> ''help''" "key \<noteq> ''rpc-stdio''"
    using ok(2) by (auto simp: accepted_def)
  show "parse_arguments depth files (setting_args s @ rest) st = parse_arguments depth files rest st'"
    using names flag ok(3) by (auto simp: s setting_args_def starts_with_def)
qed

lemma settings_agree:
  assumes "list_all both_ways ss"
  shows "\<exists>st'. apply_lines inc path n (map setting_line ss) st = Some st'
     \<and> parse_arguments depth files (concat (map setting_args ss)) st = Serve st'"
  using assms
proof (induction ss arbitrary: n st)
  case (Cons s ss)
  then have s: "both_ways s" and ss: "list_all both_ways ss" by simp_all
  obtain st' where st': "apply_setting (fst s) (snd s) st = Inr st'"
    using s accepted_applies by (meson both_ways_def)
  show ?case using Cons.IH [OF ss, of "Suc n" st'] by (simp only: list.map concat.simps one_setting [OF s st'])
qed simp

text \<open>
  A configuration file and the command line say the same thing. A file whose lines are \<open>key = value\<close> for settings
  the agent knows has, named by \<^verbatim>\<open>--config\<close>, the effect of giving each setting as a flag, in the same order: the
  agent starts with the same log, roots and git policy. All that is added is that the file was loaded, for
  \<^verbatim>\<open>meta.debug\<close> and the diagnostics.
\<close>

theorem file_is_flags:
  assumes "list_all both_ways ss" and "files (resolveRoot (su_config st) path) = Some text"
    and "getlines text = map setting_line ss"
  shows "\<exists>st'. parse_arguments (Suc depth) files (concat (map setting_args ss)) st = Serve st'
     \<and> parse_arguments (Suc depth) files [''--config'', path] st
        = Serve (set_config (\<lambda>c. c\<lparr>g_configLoaded := g_configLoaded c @ [resolveRoot (su_config st) path]\<rparr>)
            (warn (''config: '' @ resolveRoot (su_config st) path) st'))"
proof -
  obtain st' where st': "apply_lines (applyConfigFile depth files) (resolveRoot (su_config st) path) 1 (map setting_line ss) st = Some st'"
    "parse_arguments (Suc depth) files (concat (map setting_args ss)) st = Serve st'"
    using settings_agree [OF assms(1)] by blast
  show ?thesis
    using st' assms(2,3) by (simp add: apply_flag_def starts_with_def optionIsBoolean_def Let_def)
qed

definition demo_settings :: "(string \<times> string) list" where
  "demo_settings = [(''allow-root'', ''/r''), (''allow-write'', ''true''), (''git-exec-preset'', ''read-only'')]"

lemma demo_both_ways: "list_all both_ways demo_settings"
  by code_simp

lemma demo_lines: "getlines (concat (map (\<lambda>s. setting_line s @ [CHR 0x0A]) demo_settings)) = map setting_line demo_settings"
  by code_simp

lemma file_is_flags_witness:
  "\<exists>st. parse_arguments 1 (\<lambda>_. Some (concat (map (\<lambda>s. setting_line s @ [CHR 0x0A]) demo_settings)))
     [''--allow-root'', ''/r'', ''--allow-write'', ''--git-exec-preset'', ''read-only''] (initial_startup None) = Serve st"
proof -
  have "concat (map setting_args demo_settings) = [''--allow-root'', ''/r'', ''--allow-write'', ''--git-exec-preset'', ''read-only'']"
    by code_simp
  then show ?thesis
    using file_is_flags [where files = "\<lambda>_. Some (concat (map (\<lambda>s. setting_line s @ [CHR 0x0A]) demo_settings))"
        and st = "initial_startup None" and depth = 0 and path = "''/c''", OF demo_both_ways refl demo_lines] by auto
qed

section \<open>What only an option turns on\<close>

text \<open>No line of any file asks for a setting of the set.\<close>

definition silent :: "string set \<Rightarrow> (string \<Rightarrow> string option) \<Rightarrow> bool" where
  "silent keys files \<longleftrightarrow>
     (\<forall>p t l k v. files p = Some t \<and> l \<in> set (getlines t) \<and> config_line l = Some (k, v) \<longrightarrow> k \<notin> keys)"

text \<open>
  A property of the settings that only the settings of a set can end: the shape in which the defaults of the agent
  survive its start.
\<close>

locale setting_invariant =
  fixes keys :: "string set" and keeps :: "startup \<Rightarrow> bool"
  assumes others: "apply_setting k v st = Inr st' \<Longrightarrow> k \<notin> keys \<Longrightarrow> keeps st \<Longrightarrow> keeps st'"
    and warning [simp]: "keeps (warn t st) = keeps st"
    and unreadable [simp]: "keeps (set_config (\<lambda>c. c\<lparr>g_configUnreadable := u c\<rparr>) st) = keeps st"
    and loaded [simp]: "keeps (set_config (\<lambda>c. c\<lparr>g_configLoaded := u c\<rparr>) st) = keeps st"
begin

lemma lines_keep:
  assumes "\<And>v st st'. include v st = Some st' \<Longrightarrow> keeps st \<Longrightarrow> keeps st'"
    and "\<And>l k v. l \<in> set ls \<Longrightarrow> config_line l = Some (k, v) \<Longrightarrow> k \<notin> keys"
    and "apply_lines include path n ls st = Some st'" and "keeps st"
  shows "keeps st'"
  using assms(2-)
proof (induction ls arbitrary: n st)
  case (Cons l ls)
  obtain st1 where st1: "(case config_line l of None \<Rightarrow> Some st
        | Some (key, v) \<Rightarrow> (if key = ''config'' then include v st
             else case apply_setting key v st of Inr st' \<Rightarrow> Some st' | Inl err \<Rightarrow> Some (warn (line_warning path n err) st))) = Some st1"
    "apply_lines include path (Suc n) ls st1 = Some st'"
    using Cons.prems(2) by (auto simp: bind_eq_Some_conv)
  have "keeps st1"
    using st1(1) Cons.prems(1) [of l] Cons.prems(3) assms(1) others by (auto split: option.splits if_splits sum.splits)
  then show ?case using Cons.IH [OF _ st1(2)] Cons.prems(1) by (meson list.set_intros(2))
qed simp

lemma file_keeps:
  assumes "silent keys files" and "applyConfigFile depth files path st = Some st'" and "keeps st"
  shows "keeps st'"
  using assms(2,3)
proof (induction depth arbitrary: path st st')
  case (Suc depth)
  let ?p = "resolveRoot (su_config st) path"
  show ?case
  proof (cases "files ?p")
    case (Some t)
    obtain st1 where st1: "apply_lines (applyConfigFile depth files) ?p 1 (getlines t) st = Some st1" "keeps st' = keeps st1"
      using Suc.prems(1) Some by (auto simp: Let_def)
    have "keeps st1"
      using assms(1) Some unfolding silent_def by (intro lines_keep [OF Suc.IH _ st1(1) Suc.prems(2)]) blast+
    then show ?thesis by (simp add: st1(2))
  qed (use Suc.prems in \<open>auto simp: Let_def\<close>)
qed simp

lemma flag_keeps:
  assumes "silent keys files" and "apply_flag depth files key v st = Some st'" and "key \<notin> keys" and "keeps st"
  shows "keeps st'"
  using assms file_keeps others by (auto simp: apply_flag_def split: if_splits sum.splits)

lemma arguments_keep:
  assumes "silent keys files" and "\<And>k. k \<in> keys \<Longrightarrow> ''--'' @ k \<notin> set args"
    and "parse_arguments depth files args st = Serve st'" and "keeps st"
  shows "keeps st'"
  using assms
proof (induction depth files args st rule: parse_arguments.induct)
  case (2 depth files flag rest st)
  have key: "drop 2 flag \<notin> keys" if "starts_with flag ''--''"
  proof
    assume "drop 2 flag \<in> keys"
    moreover have "flag = ''--'' @ drop 2 flag" using that by (cases flag; cases "tl flag") (auto simp: starts_with_def)
    ultimately show False using "2.prems"(2) by (metis list.set_intros(1))
  qed
  have rest: "\<And>k. k \<in> keys \<Longrightarrow> ''--'' @ k \<notin> set rest" using "2.prems"(2) by simp
  have stays: "flag \<noteq> ''--version''" "flag \<noteq> ''--help''" "flag \<noteq> ''-h''" using "2.prems"(3) by auto
  have flag: "keeps st1" if "starts_with flag ''--''" and "apply_flag depth files (drop 2 flag) v st = Some st1" for v st1
    using flag_keeps [OF "2.prems"(1) that(2) key [OF that(1)] "2.prems"(4)] .
  consider "\<not> starts_with flag ''--''" | "starts_with flag ''--''" "drop 2 flag = ''rpc-stdio''"
    | "starts_with flag ''--''" "drop 2 flag \<noteq> ''rpc-stdio''" "optionIsBoolean (drop 2 flag)"
    | "starts_with flag ''--''" "drop 2 flag \<noteq> ''rpc-stdio''" "\<not> optionIsBoolean (drop 2 flag)"
    by blast
  then show ?case
  proof cases
    case 1
    then show ?thesis using "2.IH"(1) stays rest "2.prems"(1,3,4) by simp
  next
    case 2
    then show ?thesis using "2.IH"(2) stays rest "2.prems"(1,3,4) by simp
  next
    case 3
    then obtain st1 where st1: "apply_flag depth files (drop 2 flag) ''true'' st = Some st1" "parse_arguments depth files rest st1 = Serve st'"
      using stays "2.prems"(3) by (auto simp: Let_def split: option.splits)
    show ?thesis using "2.IH"(3) stays 3 st1 flag [OF 3(1) st1(1)] rest "2.prems"(1) by simp
  next
    case 4
    show ?thesis
    proof (cases rest)
      case Nil
      then show ?thesis using 4 stays "2.prems"(1,3,4) by (auto simp: Let_def)
    next
      case (Cons v others)
      then obtain st1 where st1: "apply_flag depth files (drop 2 flag) v st = Some st1" "parse_arguments depth files others st1 = Serve st'"
        using stays 4 "2.prems"(3) by (auto simp: Let_def split: option.splits)
      show ?thesis using "2.IH"(4) stays 4 Cons st1 flag [OF 4(1) st1(1)] rest "2.prems"(1) by simp
    qed
  qed
qed simp

end

lemma bookkeeping [simp]:
  "su_config (warn t st) = su_config st"
  "su_config (set_config f st) = f (su_config st)"
  by (simp_all add: warn_def set_config_def)

lemma preset_parts [simp]:
  "g_allowWrite (preset_config v c) = g_allowWrite c" "env_HOME (preset_config v c) = env_HOME c"
  by (simp_all add: preset_config_def Let_def)

interpretation no_write: setting_invariant "{''allow-write''}" "\<lambda>st. \<not> g_allowWrite (su_config st)"
  by unfold_locales (auto simp: apply_setting_def split: if_splits)

interpretation no_git: setting_invariant "{''git-exec'', ''git-exec-preset''}" "\<lambda>st. g_gitExecAllowed (su_config st) = []"
  by unfold_locales (auto simp: apply_setting_def split: if_splits)

interpretation same_home: setting_invariant "{}" "\<lambda>st. env_HOME (su_config st) = home" for home
  by unfold_locales (auto simp: apply_setting_def split: if_splits)

definition enabling_keys :: "string set" where
  "enabling_keys = {''allow-write'', ''git-exec'', ''git-exec-preset''}"

lemma silent_subset: "silent keys files \<Longrightarrow> keys' \<subseteq> keys \<Longrightarrow> silent keys' files"
  unfolding silent_def by blast

text \<open>
  C12. An agent that nobody told otherwise is read-only. When no line of a configuration file has one of the keys
  \<^verbatim>\<open>allow-write\<close>, \<^verbatim>\<open>git-exec\<close> and \<^verbatim>\<open>git-exec-preset\<close>, and no word of the command line is one of those options, the
  configuration the agent starts with allows neither writing nor any git command, and what it offers a client is the
  basic list of methods, whatever else it was given.
\<close>

theorem read_only_by_default:
  assumes "silent enabling_keys files" and "list_all (\<lambda>a. a \<notin> (@) ''--'' ` enabling_keys) args"
    and "parse_arguments depth files args (initial_startup home) = Serve st"
  shows "\<not> g_allowWrite (startup_config fs cwd st) \<and> g_gitExecAllowed (startup_config fs cwd st) = []
    \<and> hello_capabilities (startup_config fs cwd st) = base_capabilities"
proof -
  have words: "''--'' @ k \<notin> set args" if "k \<in> enabling_keys" for k
    using assms(2) that by (auto simp: list_all_iff)
  have "\<not> g_allowWrite (su_config st)"
    using silent_subset [OF assms(1), of "{''allow-write''}"] words
    by (intro no_write.arguments_keep [OF _ _ assms(3)]) (auto simp: enabling_keys_def initial_startup_def initial_config_def)
  moreover have "g_gitExecAllowed (su_config st) = []"
    using silent_subset [OF assms(1), of "{''git-exec'', ''git-exec-preset''}"] words
    by (intro no_git.arguments_keep [OF _ _ assms(3)]) (auto simp: enabling_keys_def initial_startup_def initial_config_def)
  ultimately show ?thesis
    by (simp add: startup_config_def Let_def hello_capabilities_def split: prod.split)
qed

lemma read_only_by_default_witness:
  "\<exists>st. parse_arguments 1 (\<lambda>_. Some ''log-level = debug'') [''--config'', ''/c'', ''--allow-root'', ''/r''] (initial_startup None) = Serve st
     \<and> \<not> g_allowWrite (startup_config demo_fs [] st) \<and> g_gitExecAllowed (startup_config demo_fs [] st) = []"
proof -
  have "case parse_arguments 1 (\<lambda>_. Some ''log-level = debug'') [''--config'', ''/c'', ''--allow-root'', ''/r''] (initial_startup None)
      of Serve st \<Rightarrow> True | _ \<Rightarrow> False"
    by code_simp
  then obtain st where st: "parse_arguments 1 (\<lambda>_. Some ''log-level = debug'') [''--config'', ''/c'', ''--allow-root'', ''/r''] (initial_startup None) = Serve st"
    by (auto split: parsed.splits)
  have "silent enabling_keys (\<lambda>_. Some ''log-level = debug'')"
  proof -
    have "getlines ''log-level = debug'' = [''log-level = debug'']" "config_line ''log-level = debug'' = Some (''log-level'', ''debug'')"
      by code_simp+
    then show ?thesis by (simp add: silent_def enabling_keys_def)
  qed
  moreover have "list_all (\<lambda>a. a \<notin> (@) ''--'' ` enabling_keys) [''--config'', ''/c'', ''--allow-root'', ''/r'']"
    by (simp add: enabling_keys_def)
  ultimately show ?thesis using read_only_by_default [OF _ _ st, of demo_fs "[]"] st by blast
qed

section \<open>Files that name files\<close>

text \<open>A rank that falls along every \<^verbatim>\<open>config\<close> line: no file reaches itself.\<close>

definition ranked :: "string option \<Rightarrow> (string \<Rightarrow> string option) \<Rightarrow> (string \<Rightarrow> nat) \<Rightarrow> bool" where
  "ranked home files rank \<longleftrightarrow>
     (\<forall>p t l v. files p = Some t \<and> l \<in> set (getlines t) \<and> config_line l = Some (''config'', v) \<longrightarrow>
        rank (resolveRoot (initial_config home) v) < rank p)"

lemma resolve_home: "env_HOME c = home \<Longrightarrow> resolveRoot c p = resolveRoot (initial_config home) p"
  by (simp add: resolveRoot_def initial_config_def)

lemma silent_empty [simp]: "silent {} files"
  by (simp add: silent_def)

lemma lines_end:
  assumes "\<And>v st. (\<exists>l \<in> set ls. config_line l = Some (''config'', v)) \<Longrightarrow> env_HOME (su_config st) = home
      \<Longrightarrow> \<exists>st'. include v st = Some st' \<and> env_HOME (su_config st') = home"
    and "env_HOME (su_config st) = home"
  shows "\<exists>st'. apply_lines include path n ls st = Some st'"
  using assms
proof (induction ls arbitrary: n st)
  case (Cons l ls)
  have "\<exists>st1. (case config_line l of None \<Rightarrow> Some st
        | Some (key, v) \<Rightarrow> (if key = ''config'' then include v st
             else case apply_setting key v st of Inr st' \<Rightarrow> Some st' | Inl err \<Rightarrow> Some (warn (line_warning path n err) st))) = Some st1
      \<and> env_HOME (su_config st1) = home"
    using Cons.prems(1) [of _ st] Cons.prems(2) same_home.others by (fastforce split: option.split sum.split)
  then obtain st1 where st1: "(case config_line l of None \<Rightarrow> Some st
        | Some (key, v) \<Rightarrow> (if key = ''config'' then include v st
             else case apply_setting key v st of Inr st' \<Rightarrow> Some st' | Inl err \<Rightarrow> Some (warn (line_warning path n err) st))) = Some st1"
    "env_HOME (su_config st1) = home" by blast
  show ?case using Cons.IH [OF _ st1(2)] Cons.prems(1) st1(1) by (simp add: bex_simps(6))
qed simp

lemma file_ends:
  assumes "ranked home files rank" and "env_HOME (su_config st) = home" and "rank (resolveRoot (su_config st) path) < depth"
  shows "\<exists>st'. applyConfigFile depth files path st = Some st'"
  using assms(2,3)
proof (induction depth arbitrary: path st)
  case (Suc depth)
  let ?p = "resolveRoot (su_config st) path"
  show ?case
  proof (cases "files ?p")
    case (Some t)
    have "\<exists>st'. applyConfigFile depth files v st1 = Some st' \<and> env_HOME (su_config st') = home"
      if "\<exists>l \<in> set (getlines t). config_line l = Some (''config'', v)" and home: "env_HOME (su_config st1) = home" for v st1
    proof -
      have "rank (resolveRoot (su_config st1) v) < rank ?p"
        using assms(1) that(1) Some resolve_home [OF home] unfolding ranked_def by metis
      then obtain st' where "applyConfigFile depth files v st1 = Some st'"
        using Suc.IH [OF home] Suc.prems(2) by fastforce
      then show ?thesis using same_home.file_keeps [OF silent_empty, where home = home] home by blast
    qed
    then obtain st' where "apply_lines (applyConfigFile depth files) ?p 1 (getlines t) st = Some st'"
      using lines_end [OF _ Suc.prems(1)] by blast
    then show ?thesis using Some by (simp add: Let_def)
  qed (simp add: Let_def)
qed simp

text \<open>More depth changes nothing once a depth was enough.\<close>

lemma lines_deeper:
  assumes "\<And>v st st'. include v st = Some st' \<Longrightarrow> include' v st = Some st'"
    and "apply_lines include path n ls st = Some st'"
  shows "apply_lines include' path n ls st = Some st'"
  using assms(2)
proof (induction ls arbitrary: n st)
  case (Cons l ls)
  then show ?case using assms(1) by (auto simp: bind_eq_Some_conv split: option.splits prod.splits if_splits)
qed simp

lemma file_deeper: "applyConfigFile d files path st = Some st' \<Longrightarrow> applyConfigFile (Suc d) files path st = Some st'"
proof (induction d arbitrary: path st st')
  case (Suc d)
  let ?p = "resolveRoot (su_config st) path"
  show ?case
  proof (cases "files ?p")
    case (Some t)
    obtain st1 where "apply_lines (applyConfigFile d files) ?p 1 (getlines t) st = Some st1"
      "st' = set_config (\<lambda>c. c\<lparr>g_configLoaded := g_configLoaded c @ [?p]\<rparr>) (warn (''config: '' @ ?p) st1)"
      using Suc.prems Some by (auto simp: Let_def)
    moreover from this(1) have "apply_lines (applyConfigFile (Suc d) files) ?p 1 (getlines t) st = Some st1"
      by (rule lines_deeper [rotated]) (rule Suc.IH)
    ultimately show ?thesis using Some by (simp only: applyConfigFile.simps Let_def option.case option.map)
  qed (use Suc.prems in \<open>simp add: Let_def\<close>)
qed simp

lemma flag_deeper: "apply_flag d files key v st = Some st' \<Longrightarrow> apply_flag (Suc d) files key v st = Some st'"
  using file_deeper [of d files v st st'] by (auto simp: apply_flag_def simp del: applyConfigFile.simps split: if_splits)

lemma flag_ends:
  assumes "ranked home files rank" and "\<And>p. rank p < depth" and "env_HOME (su_config st) = home"
  shows "\<exists>st'. apply_flag depth files key v st = Some st' \<and> apply_flag (Suc depth) files key v st = Some st' \<and> env_HOME (su_config st') = home"
proof -
  have "\<exists>st'. apply_flag depth files key v st = Some st'"
    using file_ends [OF assms(1,3) assms(2)] by (simp add: apply_flag_def split: sum.split)
  then obtain st' where st': "apply_flag depth files key v st = Some st'" by blast
  then have "env_HOME (su_config st') = home"
    using same_home.flag_keeps [OF silent_empty, where home = home] assms(3) by blast
  then show ?thesis using st' flag_deeper by blast
qed

lemma arguments_end:
  assumes "ranked home files rank" and "\<And>p. rank p < depth" and "env_HOME (su_config st) = home"
  shows "parse_arguments depth files args st \<noteq> TooDeep \<and> parse_arguments (Suc depth) files args st = parse_arguments depth files args st"
  using assms
proof (induction depth files args st rule: parse_arguments.induct)
  case (2 depth files flag rest st)
  note ends = flag_ends [OF "2.prems"]
  obtain st1 where st1: "apply_flag depth files (drop 2 flag) ''true'' st = Some st1"
    "apply_flag (Suc depth) files (drop 2 flag) ''true'' st = Some st1" "env_HOME (su_config st1) = home"
    using ends [of "drop 2 flag" "''true''"] by blast
  show ?case
  proof (cases rest)
    case Nil
    then show ?thesis using "2.IH"(1-3) "2.prems" st1 by (simp add: Let_def)
  next
    case (Cons v others)
    obtain st2 where st2: "apply_flag depth files (drop 2 flag) v st = Some st2"
      "apply_flag (Suc depth) files (drop 2 flag) v st = Some st2" "env_HOME (su_config st2) = home"
      using ends [of "drop 2 flag" v] by blast
    show ?thesis
      using "2.IH"(1,2) "2.IH"(3) [OF _ _ _ _ _ _ st1(1)] "2.IH"(4) [OF _ _ _ _ _ _ Cons st2(1)] "2.prems" st1 st2 Cons
      by (simp add: Let_def del: applyConfigFile.simps)
  qed
qed simp

text \<open>
  The start ends. When the configuration files do not name each other in a circle, which a rank that falls along
  every \<^verbatim>\<open>config\<close> line and stays below a bound says, reading the command line comes to an end at that depth with every
  file it names, whatever the words are, and a greater depth gives the same: the depth of the model is no limit of the
  program.
\<close>

theorem startup_ends:
  assumes "ranked home files rank" and "\<forall>p. rank p < depth"
  shows "\<exists>r. r \<noteq> TooDeep \<and> (\<forall>more. parse_arguments (depth + more) files args (initial_startup home) = r)"
proof -
  have home: "env_HOME (su_config (initial_startup home)) = home" by (simp add: initial_startup_def initial_config_def)
  have below: "rank p < depth + more" for p and more :: nat using assms(2) by (simp add: trans_less_add1)
  note step = arguments_end [OF assms(1) below home, of _ args]
  have "parse_arguments (depth + more) files args (initial_startup home) = parse_arguments depth files args (initial_startup home)" for more
    by (induction more) (use step in simp_all)
  then show ?thesis using step [of 0] by (intro exI [of _ "parse_arguments depth files args (initial_startup home)"]) simp
qed

definition demo_files :: "string \<Rightarrow> string option" where
  "demo_files p = (if p = ''/c'' then Some ''config = /d'' else if p = ''/d'' then Some ''allow-write'' else None)"

lemma demo_ranked: "ranked None demo_files (\<lambda>p. if p = ''/c'' then 1 else 0)"
proof -
  have texts: "getlines ''config = /d'' = [''config = /d'']" "config_line ''config = /d'' = Some (''config'', ''/d'')"
    "getlines ''allow-write'' = [''allow-write'']" "config_line ''allow-write'' = Some (''allow-write'', ''true'')"
    by code_simp+
  show ?thesis
    unfolding ranked_def demo_files_def using texts by (auto split: if_splits)
qed

lemma startup_ends_witness:
  "\<exists>r. r \<noteq> TooDeep \<and> parse_arguments (2 + 1) demo_files [''--config'', ''/c''] (initial_startup None) = r"
proof -
  have bound: "\<forall>p. (if p = ''/c'' then 1 else 0) < (2 :: nat)" by simp
  obtain r where r: "r \<noteq> TooDeep" "\<forall>more. parse_arguments (2 + more) demo_files [''--config'', ''/c''] (initial_startup None) = r"
    using startup_ends [OF demo_ranked bound] by blast
  show ?thesis using r(1) r(2) [rule_format, of 1] by (intro exI [of _ r] conjI)
qed

text \<open>A file that names itself never ends: nothing stops the recursion, and the agent does not come up.\<close>

lemma self_naming_file:
  assumes "files ''/c'' = Some ''config = /c''"
  shows "applyConfigFile depth files ''/c'' st = None"
proof (induction depth arbitrary: st)
  case (Suc depth)
  have "getlines ''config = /c'' = [''config = /c'']" "config_line ''config = /c'' = Some (''config'', ''/c'')"
    by code_simp+
  then show ?case using assms Suc.IH by (simp add: Let_def)
qed simp

end

