(* ===== verification/LspHandlers.thy ===== *)
theory LspHandlers
  imports DeclSearch
begin

text \<open>
  The queries of \<^verbatim>\<open>lsp.*\<close>: the C API of the core library between the agent and the language-server client
  (\<^verbatim>\<open>src/core/src/GitReviewCore.cpp\<close>), and the agent's registry of clients with the handlers that use it
  (\<^verbatim>\<open>src/agent/main.cpp\<close>). Strings cross the C API as NUL-terminated arrays, so each is read up to its first NUL.
\<close>

section \<open>The C API\<close>

definition toLanguage :: "int \<Rightarrow> language" where
  "toLanguage n =
     (if n = 1 then LangRust else if n = 2 then LangPython else if n = 3 then LangJavaScript
      else if n = 4 then LangTypeScript else if n = 5 then LangGo else if n = 6 then LangCpp
      else if n = 7 then LangC else if n = 8 then LangSwift else LangUnknown)"

fun language_id :: "language \<Rightarrow> string" where
  "language_id LangRust = ''rust''"
| "language_id LangPython = ''python''"
| "language_id LangJavaScript = ''javascript''"
| "language_id LangTypeScript = ''typescript''"
| "language_id LangGo = ''go''"
| "language_id LangCpp = ''cpp''"
| "language_id LangC = ''c''"
| "language_id LangSwift = ''swift''"
| "language_id LangUnknown = ''plaintext''"

definition grc_language_id :: "int \<Rightarrow> string" where
  "grc_language_id n = language_id (toLanguage n)"

text \<open>
  The path reported for a server: the client's own search is written out a second time, and unlike it this one does not
  look inside Xcode.
\<close>

definition findExecutableC :: "'w machine \<Rightarrow> 'w \<Rightarrow> string \<Rightarrow> string" where
  "findExecutableC m w name =
     (case List.find (ma_executable m w) (map (\<lambda>dir. dir @ CHR ''/'' # name) (search_dirs m)) of
        Some full \<Rightarrow> full
      | None \<Rightarrow> name)"

definition grc_language_server_path :: "'w machine \<Rightarrow> 'w \<Rightarrow> int \<Rightarrow> string option" where
  "grc_language_server_path m w n = map_option (\<lambda>name. c_str (findExecutableC m w name)) (server_name (toLanguage n))"

lemma findExecutableC_same: "findExecutableC m w name = findExecutable m w name"
proof -
  have "List.find P (map f ds) = map_option f (List.find (\<lambda>d. P (f d)) ds)" for P :: "string \<Rightarrow> bool" and f :: "string \<Rightarrow> string" and ds
    by (induction ds) simp_all
  then show ?thesis by (simp add: findExecutableC_def findExecutable_def split: option.split)
qed

definition toGRCError :: "lsp_error \<Rightarrow> int" where
  "toGRCError e =
     (if \<not> is_error e then 0
      else if le_code e = not_initialized then 6
      else if le_code e = method_not_found then 2
      else 5)"

text \<open>A client is made for every workspace that is given.\<close>

definition grc_lsp_client_create :: "string option \<Rightarrow> int \<Rightarrow> int + lsp_client" where
  "grc_lsp_client_create ws n = (case ws of None \<Rightarrow> Inl 1 | Some p \<Rightarrow> Inr (new_client (c_str p) (toLanguage n)))"

text \<open>What a location, a symbol and a folding range are after the copy into C structures.\<close>

definition convert_location :: "location \<Rightarrow> location" where
  "convert_location l = (c_str (fst l), snd l)"

fun convertDocumentSymbol :: "doc_symbol \<Rightarrow> doc_symbol" where
  "convertDocumentSymbol (DocSymbol n d k r sel cs) = DocSymbol (c_str n) (c_str d) k r sel (map convertDocumentSymbol cs)"

definition convert_symbol_information :: "symbol_info \<Rightarrow> symbol_info" where
  "convert_symbol_information s =
     s\<lparr>si_name := c_str (si_name s), si_location := convert_location (si_location s), si_container := c_str (si_container s)\<rparr>"

fun convertFoldingRangeKind :: "fold_kind \<Rightarrow> int" where
  "convertFoldingRangeKind FoldComment = 0"
| "convertFoldingRangeKind FoldImports = 1"
| "convertFoldingRangeKind FoldRegion = 2"

text \<open>
  A folding range as its fields: start, end, whether it has a kind, the kind. Without one the field is never written:
  \<open>garbage\<close> is what the memory held.
\<close>

definition convert_folding :: "int \<Rightarrow> lsp_folding \<Rightarrow> int \<times> int \<times> bool \<times> int" where
  "convert_folding garbage f =
     (fo_start f, fo_end f, fo_kind f \<noteq> None, case fo_kind f of Some k \<Rightarrow> convertFoldingRangeKind k | None \<Rightarrow> garbage)"

section \<open>What surrounds a request\<close>

text \<open>
  The environment of one request: the library, the machine and its files, whether a server's process starts and what
  the server answers to the n-th try of a query, the looks at the clock of the retry, and what unwritten memory holds.
\<close>

record 'w lsp_env =
  en_lib :: lsp_lib
  en_machine :: "'w machine"
  en_exists :: "'w \<Rightarrow> string \<Rightarrow> bool"
  en_spawns :: "string \<Rightarrow> string list \<Rightarrow> bool"
  en_pid :: int
  en_now :: int
  en_initialize :: server
  en_server :: "nat \<Rightarrow> server"
  en_first :: "nat \<Rightarrow> warm_view"
  en_second :: "nat \<Rightarrow> warm_view"
  en_start :: int
  en_tree :: "'w \<Rightarrow> string \<Rightarrow> ws_entry list"
  en_garbage :: "nat \<Rightarrow> int"

text \<open>A started client with the version of every document it was shown, and the agent's table of them.\<close>

record lsp_session =
  se_client :: lsp_client
  se_versions :: "string \<Rightarrow> int option"

record 'w lsp_agent =
  la_sessions :: "string \<Rightarrow> lsp_session option"
  la_world :: 'w

definition grc_lsp_client_start :: "'w lsp_env \<Rightarrow> 'w \<Rightarrow> lsp_client \<Rightarrow> lsp_client \<times> int \<times> 'w" where
  "grc_lsp_client_start env w c =
     (let (c', e, w') = start_client (en_lib env) (en_machine env) (en_exists env) (en_spawns env) (en_initialize env)
                          (en_pid env) (en_now env) w c
      in (c', toGRCError e, w'))"

text \<open>The synchronous queries: the client after it, the number of the error and what was found.\<close>

definition grc_answer :: "('r \<Rightarrow> 's) \<Rightarrow> lsp_client \<times> lsp_error \<times> 'r \<Rightarrow> lsp_client \<times> (int + 's)" where
  "grc_answer conv res = (case res of (c, e, r) \<Rightarrow> (c, if is_error e then Inl (toGRCError e) else Inr (conv r)))"

definition grc_lsp_client_goto_definition ::
  "'w lsp_env \<Rightarrow> string \<Rightarrow> position \<Rightarrow> lsp_client \<Rightarrow> (lsp_client \<times> (int + location list)) option" where
  "grc_lsp_client_goto_definition env uri pos c =
     map_option (grc_answer (map convert_location) \<circ> finish_query)
       (gotoDefinition (en_lib env) (en_server env) (en_now env) (en_first env) (en_second env) (en_start env) (c_str uri) pos c)"

definition grc_lsp_client_find_references ::
  "'w lsp_env \<Rightarrow> string \<Rightarrow> position \<Rightarrow> bool \<Rightarrow> lsp_client \<Rightarrow> (lsp_client \<times> (int + location list)) option" where
  "grc_lsp_client_find_references env uri pos incl c =
     map_option (grc_answer (map convert_location) \<circ> finish_query)
       (findReferences (en_lib env) (en_server env) (en_now env) (en_first env) (en_second env) (en_start env) (c_str uri) pos
         incl c)"

definition grc_lsp_client_hover ::
  "'w lsp_env \<Rightarrow> string \<Rightarrow> position \<Rightarrow> lsp_client \<Rightarrow> (lsp_client \<times> (int + lsp_hover option)) option" where
  "grc_lsp_client_hover env uri pos c =
     map_option (grc_answer (map_option (\<lambda>h. h\<lparr>ho_contents := c_str (ho_contents h)\<rparr>)) \<circ> finish_query)
       (hover_query (en_lib env) (en_server env) (en_now env) (en_first env) (en_second env) (en_start env) (c_str uri) pos c)"

definition grc_lsp_client_document_symbols ::
  "'w lsp_env \<Rightarrow> string \<Rightarrow> lsp_client \<Rightarrow> (lsp_client \<times> (int + doc_symbol list)) option" where
  "grc_lsp_client_document_symbols env uri c =
     map_option (grc_answer (map convertDocumentSymbol) \<circ> finish_query)
       (documentSymbols (en_lib env) (en_server env) (en_now env) (en_first env) (en_second env) (en_start env) (c_str uri) c)"

definition grc_lsp_client_workspace_symbols ::
  "'w lsp_env \<Rightarrow> string \<Rightarrow> lsp_client \<Rightarrow> (lsp_client \<times> (int + symbol_info list)) option" where
  "grc_lsp_client_workspace_symbols env query c =
     map_option (grc_answer (map convert_symbol_information) \<circ> finish_query)
       (workspaceSymbols (en_lib env) (en_server env) (en_now env) (en_first env) (en_second env) (en_start env) (c_str query) c)"

definition grc_lsp_client_folding_range ::
  "'w lsp_env \<Rightarrow> string \<Rightarrow> lsp_client \<Rightarrow> lsp_client \<times> (int + (int \<times> int \<times> bool \<times> int) list)" where
  "grc_lsp_client_folding_range env uri c =
     grc_answer (\<lambda>fs. map (\<lambda>(i, f). convert_folding (en_garbage env i) f) (enumerate 0 fs))
       (foldings_query (en_lib env) (en_server env 0) (en_now env) (c_str uri) c)"

text \<open>The text searches: an empty answer when there is no identifier under the cursor.\<close>

definition grc_lsp_text_definitions ::
  "'w lsp_env \<Rightarrow> 'w \<Rightarrow> string \<Rightarrow> int \<Rightarrow> string \<Rightarrow> string \<Rightarrow> position \<Rightarrow> int + location list" where
  "grc_lsp_text_definitions env w ws n uri content pos =
     (let name = identifierAt (c_str content) (fst pos) (snd pos)
      in Inr (if name = [] then []
              else map convert_location
                (findDeclarations (toLanguage n) (c_str uri) name default_limits
                   (workspace_files (c_str ws) (en_tree env w (c_str ws))))))"

definition grc_lsp_text_references ::
  "'w lsp_env \<Rightarrow> 'w \<Rightarrow> string \<Rightarrow> int \<Rightarrow> string \<Rightarrow> string \<Rightarrow> position \<Rightarrow> bool \<Rightarrow> int + location list" where
  "grc_lsp_text_references env w ws n uri content pos incl =
     (let name = identifierAt (c_str content) (fst pos) (snd pos)
      in Inr (if name = [] then []
              else map convert_location
                (findOccurrences (toLanguage n) (c_str uri) name incl default_limits
                   (workspace_files (c_str ws) (en_tree env w (c_str ws))))))"

section \<open>Sessions\<close>

definition grcErrName :: "int \<Rightarrow> string" where
  "grcErrName n =
     (if n = 0 then ''SUCCESS'' else if n = 1 then ''INVALID_ARGUMENT'' else if n = 2 then ''NO_LANGUAGE_SERVER''
      else if n = 3 then ''CONNECTION_FAILED'' else if n = 4 then ''TIMEOUT'' else if n = 5 then ''LSP_ERROR''
      else if n = 6 then ''NOT_INITIALIZED'' else if n = 7 then ''ALLOCATION_FAILED'' else if n = 8 then ''DATABASE_ERROR''
      else ''UNKNOWN'')"

fun install_hint :: "language \<Rightarrow> string" where
  "install_hint LangSwift =
     ''install a Swift toolchain on this host (https://www.swift.org/install/ or swiftly) ''
     @ ''so that `sourcekit-lsp` is on the PATH of the shell that starts the agent (the ''
     @ ''login shell over ssh), then Reconnect''"
| "install_hint LangCpp =
     ''install clangd (e.g. `apt install clangd`) and make sure the project has a ''
     @ ''compile_commands.json (CMake: -DCMAKE_EXPORT_COMPILE_COMMANDS=ON)''"
| "install_hint LangC =
     ''install clangd (e.g. `apt install clangd`) and make sure the project has a ''
     @ ''compile_commands.json (CMake: -DCMAKE_EXPORT_COMPILE_COMMANDS=ON)''"
| "install_hint LangRust = ''install rust-analyzer (`rustup component add rust-analyzer`)''"
| "install_hint LangPython = ''install python-lsp-server (`pip install python-lsp-server`)''"
| "install_hint LangGo = ''install gopls (`go install golang.org/x/tools/gopls@latest`)''"
| "install_hint LangJavaScript =
     ''install typescript-language-server (`npm install -g typescript typescript-language-server`)''"
| "install_hint LangTypeScript =
     ''install typescript-language-server (`npm install -g typescript typescript-language-server`)''"
| "install_hint LangUnknown = ''no language server is configured for this language''"

definition lspInstallHint :: "int \<Rightarrow> string" where
  "lspInstallHint n = install_hint (toLanguage n)"

definition session_key :: "string \<Rightarrow> int \<Rightarrow> string" where
  "session_key ws n = ws @ CHR 0x1F # int_text n"

text \<open>What the two failures say, from the words they begin with.\<close>

definition session_failure :: "string \<Rightarrow> string \<Rightarrow> int \<Rightarrow> string option \<Rightarrow> int \<Rightarrow> string" where
  "session_failure what ws n path err =
     what @ '' (lang='' @ int_text n @ '' server='' @ [CHR 0x27]
     @ (case path of Some p \<Rightarrow> p | None \<Rightarrow> ''<none configured>'') @ [CHR 0x27] @ '' ws='' @ [CHR 0x27] @ ws @ [CHR 0x27] @ ''): ''
     @ grcErrName err @ '' -- to fix: '' @ lspInstallHint n"

text \<open>\<^verbatim>\<open>lspSessionFor\<close>: the session there is, or a new one whose server has started.\<close>

definition lspSessionFor :: "'w lsp_env \<Rightarrow> string \<Rightarrow> int \<Rightarrow> 'w lsp_agent \<Rightarrow> (string + lsp_session) \<times> 'w lsp_agent" where
  "lspSessionFor env ws n st =
     (case la_sessions st (session_key ws n) of
        Some s \<Rightarrow> (Inr s, st)
      | None \<Rightarrow>
          (let path = grc_language_server_path (en_machine env) (la_world st) n
           in case grc_lsp_client_create (Some ws) n of
                Inl err \<Rightarrow> (Inl (session_failure ''could not create language server'' ws n path err), st)
              | Inr c \<Rightarrow>
                  (case grc_lsp_client_start env (la_world st) c of
                     (c', err, w') \<Rightarrow>
                       (let st' = st\<lparr>la_world := w'\<rparr>
                        in if err \<noteq> 0 then (Inl (session_failure ''language server failed to start'' ws n path err), st')
                           else let s = \<lparr>se_client = c', se_versions = (\<lambda>_. None)\<rparr>
                             in (Inr s, st'\<lparr>la_sessions := (la_sessions st')(session_key ws n \<mapsto> s)\<rparr>)))))"

definition put_session :: "string \<Rightarrow> int \<Rightarrow> lsp_session \<Rightarrow> 'w lsp_agent \<Rightarrow> 'w lsp_agent" where
  "put_session ws n s st = st\<lparr>la_sessions := (la_sessions st)(session_key ws n \<mapsto> s)\<rparr>"

text \<open>\<^verbatim>\<open>lspSyncDoc\<close>: the document is opened the first time and changed from then on. Whether that worked is not looked at.\<close>

definition lspSyncDoc :: "string \<Rightarrow> string \<Rightarrow> string \<Rightarrow> lsp_session \<Rightarrow> lsp_session" where
  "lspSyncDoc uri lang_id content s =
     (case se_versions s uri of
        None \<Rightarrow>
          s\<lparr>se_versions := (se_versions s)(uri \<mapsto> 1),
            se_client := fst (did_open (c_str uri) (c_str lang_id) 1 (c_str content) (se_client s))\<rparr>
      | Some v \<Rightarrow>
          s\<lparr>se_versions := (se_versions s)(uri \<mapsto> v + 1),
            se_client := fst (did_change (c_str uri) (v + 1) (c_str content) (se_client s))\<rparr>)"

section \<open>Values as JSON\<close>

definition jPos :: "position \<Rightarrow> json" where
  "jPos p = JObj [(''line'', JInt (fst p)), (''character'', JInt (snd p))]"

definition jRange :: "lsp_range \<Rightarrow> json" where
  "jRange r = JObj [(''start'', jPos (fst r)), (''end'', jPos (snd r))]"

definition jLoc :: "location \<Rightarrow> json" where
  "jLoc l = JObj [(''uri'', JStr (fst l)), (''range'', jRange (snd l))]"

fun jDocSym :: "doc_symbol \<Rightarrow> json" where
  "jDocSym (DocSymbol n d k r sel cs) =
     JObj [(''name'', JStr n), (''detail'', JStr d), (''kind'', JInt k), (''range'', jRange r),
           (''selectionRange'', jRange sel), (''children'', JArr (map jDocSym cs))]"

definition jSymInfo :: "symbol_info \<Rightarrow> json" where
  "jSymInfo s =
     JObj [(''name'', JStr (si_name s)), (''kind'', JInt (si_kind s)), (''location'', jLoc (si_location s)),
           (''containerName'', JStr (si_container s))]"

definition jFold :: "int \<times> int \<times> bool \<times> int \<Rightarrow> json" where
  "jFold f =
     (case f of (start, stop, has_kind, k) \<Rightarrow>
        JObj [(''startLine'', JInt start), (''endLine'', JInt stop), (''hasKind'', JBool has_kind), (''kind'', JInt k)])"

definition jHover :: "lsp_hover option \<Rightarrow> json" where
  "jHover h =
     (case h of
        None \<Rightarrow> JNull
      | Some ho \<Rightarrow>
          (if ho_contents ho = [] then JNull
           else JObj [(''contents'', JStr (ho_contents ho)), (''hasRange'', JBool (ho_range ho \<noteq> None)),
                      (''range'', case ho_range ho of Some r \<Rightarrow> jRange r | None \<Rightarrow> JNull)]))"

section \<open>The parameters the handlers share\<close>

text \<open>A path that is not absolute is below the workspace; trailing slashes of that are dropped, but for a single one.\<close>

definition document_uri :: "string \<Rightarrow> string \<Rightarrow> string" where
  "document_uri ws path =
     ''file://'' @ (if path \<noteq> [] \<and> hd path \<noteq> CHR ''/'' then drop_slashes ws @ CHR ''/'' # path else path)"

definition reqLanguage :: "json \<Rightarrow> string \<Rightarrow> reply + int" where
  "reqLanguage p method =
     (case int_field ''language'' p of
        None \<Rightarrow> Inl (Error KInvalidRequest (method @ '' requires int param '' @ [CHR 0x27] @ ''language'' @ [CHR 0x27]))
      | Some i \<Rightarrow> Inr (to_int32 i))"

record lsp_request =
  rq_workspace :: string
  rq_language :: int
  rq_uri :: string
  rq_language_id :: string
  rq_content :: string

definition lspCommon :: "json \<Rightarrow> string \<Rightarrow> reply + lsp_request" where
  "lspCommon p method =
     bindr (reqStr p ''workspacePath'' method) (\<lambda>ws.
     bindr (reqLanguage p method) (\<lambda>n.
     bindr (reqStr p ''filePath'' method) (\<lambda>path.
     bindr (reqStr p ''fileContent'' method) (\<lambda>content.
       Inr \<lparr>rq_workspace = ws, rq_language = n, rq_uri = document_uri ws path, rq_language_id = grc_language_id n,
            rq_content = content\<rparr>))))"

definition lspPos :: "json \<Rightarrow> string \<Rightarrow> reply + position" where
  "lspPos p method =
     (case (int_field ''line'' p, int_field ''character'' p) of
        (Some l, Some c) \<Rightarrow> Inr (to_int32 l, to_int32 c)
      | _ \<Rightarrow> Inl (Error KInvalidRequest
                (method @ '' requires int '' @ [CHR 0x27] @ ''line'' @ [CHR 0x27] @ '' and '' @ [CHR 0x27] @ ''character'' @ [CHR 0x27])))"

section \<open>The handlers\<close>

definition lsp_failed :: "string \<Rightarrow> int \<Rightarrow> reply" where
  "lsp_failed method err = Error KLspFailed (method @ '' failed (grc error '' @ int_text err @ '')'')"

text \<open>
  A query about a document once its parameters are there: the session, the document shown to its server, the query.
  \<open>None\<close> is a query that never returns.
\<close>

definition query_document ::
  "'w lsp_env \<Rightarrow> string \<Rightarrow> lsp_request \<Rightarrow> (lsp_client \<Rightarrow> (lsp_client \<times> (int + 's)) option) \<Rightarrow> ('s \<Rightarrow> json) \<Rightarrow> 'w lsp_agent
    \<Rightarrow> (reply \<times> 'w lsp_agent) option" where
  "query_document env method rq query answer st =
     (case lspSessionFor env (rq_workspace rq) (rq_language rq) st of
        (Inl err, st1) \<Rightarrow> Some (Error KLspFailed err, st1)
      | (Inr s, st1) \<Rightarrow>
          (let s1 = lspSyncDoc (rq_uri rq) (rq_language_id rq) (rq_content rq) s
           in map_option (\<lambda>(c, res). (case res of Inl e \<Rightarrow> lsp_failed method e | Inr r \<Rightarrow> Result (answer r),
                                      put_session (rq_workspace rq) (rq_language rq) (s1\<lparr>se_client := c\<rparr>) st1))
                (query (se_client s1))))"

definition handleLspHover :: "'w lsp_env \<Rightarrow> json \<Rightarrow> 'w lsp_agent \<Rightarrow> (reply \<times> 'w lsp_agent) option" where
  "handleLspHover env p st =
     (case bindr (lspCommon p ''lsp.hover'') (\<lambda>rq. bindr (lspPos p ''lsp.hover'') (\<lambda>pos. Inr (rq, pos))) of
        Inl r \<Rightarrow> Some (r, st)
      | Inr (rq, pos) \<Rightarrow>
          query_document env ''lsp.hover'' rq (grc_lsp_client_hover env (rq_uri rq) pos) (\<lambda>h. JObj [(''hover'', jHover h)]) st)"

definition handleLspDocumentSymbols :: "'w lsp_env \<Rightarrow> json \<Rightarrow> 'w lsp_agent \<Rightarrow> (reply \<times> 'w lsp_agent) option" where
  "handleLspDocumentSymbols env p st =
     (case lspCommon p ''lsp.documentSymbols'' of
        Inl r \<Rightarrow> Some (r, st)
      | Inr rq \<Rightarrow>
          query_document env ''lsp.documentSymbols'' rq (grc_lsp_client_document_symbols env (rq_uri rq))
            (\<lambda>ss. JObj [(''symbols'', JArr (map jDocSym ss))]) st)"

definition handleLspFoldingRange :: "'w lsp_env \<Rightarrow> json \<Rightarrow> 'w lsp_agent \<Rightarrow> (reply \<times> 'w lsp_agent) option" where
  "handleLspFoldingRange env p st =
     (case lspCommon p ''lsp.foldingRange'' of
        Inl r \<Rightarrow> Some (r, st)
      | Inr rq \<Rightarrow>
          query_document env ''lsp.foldingRange'' rq (\<lambda>c. Some (grc_lsp_client_folding_range env (rq_uri rq) c))
            (\<lambda>fs. JObj [(''ranges'', JArr (map jFold fs))]) st)"

text \<open>A query about a workspace shows the server no document.\<close>

definition handleLspWorkspaceSymbols :: "'w lsp_env \<Rightarrow> json \<Rightarrow> 'w lsp_agent \<Rightarrow> (reply \<times> 'w lsp_agent) option" where
  "handleLspWorkspaceSymbols env p st =
     (let method = ''lsp.workspaceSymbols''
      in case bindr (reqStr p ''workspacePath'' method) (\<lambda>ws. bindr (reqStr p ''query'' method) (\<lambda>query.
              bindr (reqLanguage p method) (\<lambda>n. Inr (ws, query, n)))) of
        Inl r \<Rightarrow> Some (r, st)
      | Inr (ws, query, n) \<Rightarrow>
          (case lspSessionFor env ws n st of
             (Inl err, st1) \<Rightarrow> Some (Error KLspFailed err, st1)
           | (Inr s, st1) \<Rightarrow>
               map_option (\<lambda>(c, res). (case res of Inl e \<Rightarrow> lsp_failed method e
                                                 | Inr ss \<Rightarrow> Result (JObj [(''symbols'', JArr (map jSymInfo ss))]),
                                       put_session ws n (s\<lparr>se_client := c\<rparr>) st1))
                 (grc_lsp_client_workspace_symbols env query (se_client s))))"

text \<open>The preparation of the workspace as its client recorded it; what cannot be parsed back is an empty object.\<close>

definition handleLspWorkspaceInfo :: "'w lsp_env \<Rightarrow> json \<Rightarrow> 'w lsp_agent \<Rightarrow> reply \<times> 'w lsp_agent" where
  "handleLspWorkspaceInfo env p st =
     (let method = ''lsp.workspaceInfo''
      in case bindr (reqStr p ''workspacePath'' method) (\<lambda>ws. bindr (reqLanguage p method) (\<lambda>n. Inr (ws, n))) of
        Inl r \<Rightarrow> (r, st)
      | Inr (ws, n) \<Rightarrow>
          (case lspSessionFor env ws n st of
             (Inl err, st1) \<Rightarrow> (Error KLspFailed err, st1)
           | (Inr s, st1) \<Rightarrow>
               (Result (case ll_parse (en_lib env) (c_str (ll_dump (en_lib env) (info_json (cl_info (se_client s))))) of
                          Some j \<Rightarrow> j | None \<Rightarrow> JObj []), st1)))"

text \<open>
  \<^verbatim>\<open>lsp.gotoDefinition\<close> and \<^verbatim>\<open>lsp.findReferences\<close>. When no server can be had, or it finds nothing, the text search
  answers and the reply says so and why.
\<close>

definition locations_reply :: "location list \<Rightarrow> string \<Rightarrow> string \<Rightarrow> reply" where
  "locations_reply ls source why =
     Result (JObj ([(''locations'', JArr (map jLoc ls)), (''source'', JStr source)]
                   @ (if why = [] then [] else [(''note'', JStr why)])))"

definition text_reply ::
  "'w lsp_env \<Rightarrow> string \<Rightarrow> bool \<Rightarrow> lsp_request \<Rightarrow> position \<Rightarrow> bool \<Rightarrow> string \<Rightarrow> 'w lsp_agent \<Rightarrow> reply" where
  "text_reply env method references rq pos incl why st =
     (case (if references
            then grc_lsp_text_references env (la_world st) (rq_workspace rq) (rq_language rq) (rq_uri rq) (rq_content rq) pos incl
            else grc_lsp_text_definitions env (la_world st) (rq_workspace rq) (rq_language rq) (rq_uri rq) (rq_content rq) pos) of
        Inl te \<Rightarrow> Error KLspFailed (method @ '' text fallback failed (grc error '' @ int_text te @ ''); '' @ why)
      | Inr ls \<Rightarrow> locations_reply ls ''text'' why)"

definition no_server_note :: "string \<Rightarrow> string" where
  "no_server_note err = ''no language server: '' @ err"

definition still_busy_note :: string where
  "still_busy_note =
     ''the language server was still preparing its index (build/indexing activity ''
     @ ''continued past the wait limit); results are a text search meanwhile''"

definition nothing_note :: string where
  "nothing_note = ''the language server answered nothing for this symbol; results are a text search''"

text \<open>A server that answers the declaration alone to a query that includes it has found nothing.\<close>

definition counts_as_empty :: "bool \<Rightarrow> bool \<Rightarrow> location list \<Rightarrow> bool" where
  "counts_as_empty references incl ls \<longleftrightarrow> (if references \<and> incl then length ls \<le> 1 else ls = [])"

text \<open>What \<^verbatim>\<open>handleLspLocations\<close> makes of the server's answer, after the client \<open>c\<close> waited for it.\<close>

definition locations_outcome ::
  "'w lsp_env \<Rightarrow> string \<Rightarrow> bool \<Rightarrow> lsp_request \<Rightarrow> position \<Rightarrow> bool \<Rightarrow> lsp_client \<Rightarrow> int + location list \<Rightarrow> 'w lsp_agent \<Rightarrow> reply" where
  "locations_outcome env method references rq pos incl c res st =
     (case res of
        Inl e \<Rightarrow> lsp_failed method e
      | Inr ls \<Rightarrow>
          (if counts_as_empty references incl ls
           then text_reply env method references rq pos incl (if cl_gave_up c then still_busy_note else nothing_note) st
           else locations_reply ls ''server'' []))"

definition includes_declaration :: "json \<Rightarrow> bool" where
  "includes_declaration p = (case bool_field ''includeDeclaration'' p of Some b \<Rightarrow> b | None \<Rightarrow> True)"

definition location_query_of :: "string \<Rightarrow> json \<Rightarrow> reply + lsp_request \<times> position" where
  "location_query_of m p = bindr (lspCommon p m) (\<lambda>rq. bindr (lspPos p m) (\<lambda>pos. Inr (rq, pos)))"

definition server_locations ::
  "'w lsp_env \<Rightarrow> bool \<Rightarrow> string \<Rightarrow> position \<Rightarrow> bool \<Rightarrow> lsp_client \<Rightarrow> (lsp_client \<times> (int + location list)) option" where
  "server_locations env references uri pos incl c =
     (if references then grc_lsp_client_find_references env uri pos incl c else grc_lsp_client_goto_definition env uri pos c)"

definition handleLspLocations ::
  "'w lsp_env \<Rightarrow> string \<Rightarrow> bool \<Rightarrow> json \<Rightarrow> 'w lsp_agent \<Rightarrow> (reply \<times> 'w lsp_agent) option" where
  "handleLspLocations env method references p st =
     (case location_query_of method p of
        Inl r \<Rightarrow> Some (r, st)
      | Inr (rq, pos) \<Rightarrow>
          (let incl = includes_declaration p
           in case lspSessionFor env (rq_workspace rq) (rq_language rq) st of
                (Inl err, st1) \<Rightarrow> Some (text_reply env method references rq pos incl (no_server_note err) st1, st1)
              | (Inr s, st1) \<Rightarrow>
                  (let s1 = lspSyncDoc (rq_uri rq) (rq_language_id rq) (rq_content rq) s
                   in map_option
                        (\<lambda>(c, res).
                           let st2 = put_session (rq_workspace rq) (rq_language rq) (s1\<lparr>se_client := c\<rparr>) st1
                           in (locations_outcome env method references rq pos incl c res st2, st2))
                        (server_locations env references (rq_uri rq) pos incl (se_client s1)))))"

section \<open>A query returns\<close>

text \<open>The clock really advances between the tries of a query.\<close>

definition clock_advances :: "'w lsp_env \<Rightarrow> bool" where
  "clock_advances env \<longleftrightarrow> (\<forall>k. en_start env + 750 * int k \<le> wv_now (en_second env k))"

lemma retry_returns:
  assumes "clock_advances env"
  shows "\<exists>res. retry_loop attempt got (en_first env) (en_second env) (en_start env) 0 c = Some res"
proof -
  have "\<exists>c' e r tries gave. retry_loop attempt got (en_first env) (en_second env) (en_start env) 0 c = Some ((c', e, r), tries, gave)
      \<and> 0 < tries \<and> tries \<le> 241 \<and> (\<exists>c0. attempt (tries - 1) c0 = (c', e, r))
      \<and> (gave \<longleftrightarrow> \<not> is_error e \<and> \<not> got r \<and> isWarmingUp (en_first env (tries - 1)))"
    by (rule retry_loop_ends) (use assms in \<open>auto simp: clock_advances_def\<close>)
  then show ?thesis by blast
qed

lemma answer_returns:
  assumes "\<exists>res. q = Some res"
  shows "\<exists>c' res. map_option (grc_answer conv \<circ> finish_query) q = Some (c', res)"
  using assms by (auto intro: surj_pair)

lemma definitions_return: "clock_advances env \<Longrightarrow> \<exists>c' res. grc_lsp_client_goto_definition env uri pos c = Some (c', res)"
  unfolding grc_lsp_client_goto_definition_def gotoDefinition_def by (intro answer_returns retry_returns)

lemma references_return: "clock_advances env \<Longrightarrow> \<exists>c' res. grc_lsp_client_find_references env uri pos incl c = Some (c', res)"
  unfolding grc_lsp_client_find_references_def findReferences_def by (intro answer_returns retry_returns)

text \<open>What the text search finds for a request.\<close>

definition text_search :: "'w lsp_env \<Rightarrow> 'w \<Rightarrow> bool \<Rightarrow> lsp_request \<Rightarrow> position \<Rightarrow> bool \<Rightarrow> location list" where
  "text_search env w references rq pos incl =
     (let name = identifierAt (c_str (rq_content rq)) (fst pos) (snd pos);
          files = workspace_files (c_str (rq_workspace rq)) (en_tree env w (c_str (rq_workspace rq)));
          lang = toLanguage (rq_language rq)
      in if name = [] then []
         else map convert_location
           (if references then findOccurrences lang (c_str (rq_uri rq)) name incl default_limits files
            else findDeclarations lang (c_str (rq_uri rq)) name default_limits files))"

lemma text_reply_search:
  "text_reply env m references rq pos incl why st = locations_reply (text_search env (la_world st) references rq pos incl) ''text'' why"
  by (simp add: text_reply_def text_search_def grc_lsp_text_references_def grc_lsp_text_definitions_def Let_def)

lemma bad_query: "location_query_of m p = Inl r \<Longrightarrow> \<exists>msg. r = Error KInvalidRequest msg"
  by (auto simp: location_query_of_def lspCommon_def lspPos_def reqLanguage_def bindr_def
      dest!: reqStr_Inl split: sum.splits option.splits)

text \<open>
  One try at the server: what it answers to the \<open>k\<close>-th request for the place, an error or the locations read from its
  answer.
\<close>

definition server_try ::
  "'w lsp_env \<Rightarrow> bool \<Rightarrow> lsp_request \<Rightarrow> position \<Rightarrow> bool \<Rightarrow> nat \<Rightarrow> lsp_client \<Rightarrow> lsp_client \<times> lsp_error \<times> location list" where
  "server_try env references rq pos incl k c =
     (if references then references_once (en_lib env) (en_server env k) (en_now env) (c_str (rq_uri rq)) pos incl c
      else definition_once (en_lib env) (en_server env k) (en_now env) (c_str (rq_uri rq)) pos c)"

definition labelled_locations :: "location list \<Rightarrow> (string \<times> json) list \<Rightarrow> reply" where
  "labelled_locations ls labels = Result (JObj ((''locations'', JArr (map jLoc ls)) # labels))"

lemma locations_tried:
  assumes "clock_advances env"
  shows "\<exists>k c0 c' e ls gave. k \<le> 240 \<and> server_try env references rq pos incl k c0 = (c', e, ls)
    \<and> (gave \<longleftrightarrow> \<not> is_error e \<and> counts_as_empty references incl ls \<and> isWarmingUp (en_first env k))
    \<and> server_locations env references (rq_uri rq) pos incl c
        = Some (c'\<lparr>cl_gave_up := gave\<rparr>, if is_error e then Inl (toGRCError e) else Inr (map convert_location ls))"
proof -
  let ?got = "\<lambda>ls :: location list. \<not> counts_as_empty references incl ls"
  let ?once = "\<lambda>n. server_try env references rq pos incl n"
  have "\<exists>c' e r tries gave. retry_loop ?once ?got (en_first env) (en_second env) (en_start env) 0 c = Some ((c', e, r), tries, gave)
      \<and> 0 < tries \<and> tries \<le> 241 \<and> (\<exists>c0. ?once (tries - 1) c0 = (c', e, r))
      \<and> (gave \<longleftrightarrow> \<not> is_error e \<and> \<not> ?got r \<and> isWarmingUp (en_first env (tries - 1)))"
    by (rule retry_loop_ends) (use assms in \<open>auto simp: clock_advances_def\<close>)
  then obtain c' e ls tries gave c0 where t:
    "retry_loop ?once ?got (en_first env) (en_second env) (en_start env) 0 c = Some ((c', e, ls), tries, gave)"
    "0 < tries" "tries \<le> 241" "?once (tries - 1) c0 = (c', e, ls)"
    "gave \<longleftrightarrow> \<not> is_error e \<and> counts_as_empty references incl ls \<and> isWarmingUp (en_first env (tries - 1))"
    by auto
  have got: "(\<lambda>ls. if incl then 1 < length ls else ls \<noteq> []) = (\<lambda>ls :: location list. \<not> counts_as_empty True incl ls)"
    "(\<lambda>ls. ls \<noteq> []) = (\<lambda>ls :: location list. \<not> counts_as_empty False incl ls)"
    by (auto simp: counts_as_empty_def)
  have run: "server_locations env references (rq_uri rq) pos incl c
      = map_option (grc_answer (map convert_location) \<circ> finish_query)
          (retry_loop ?once ?got (en_first env) (en_second env) (en_start env) 0 c)"
    unfolding server_locations_def grc_lsp_client_find_references_def grc_lsp_client_goto_definition_def
      findReferences_def gotoDefinition_def got server_try_def
    by (cases references) simp_all
  show ?thesis
    by (rule exI [of _ "tries - 1"], rule exI [of _ c0], rule exI [of _ c'], rule exI [of _ e], rule exI [of _ ls],
        rule exI [of _ gave]) (use t in \<open>auto simp: run finish_query_def grc_answer_def\<close>)
qed


definition quiet_server :: server where
  "quiet_server = (\<lambda>i m p. Gets \<lparr>rs_id = None, rs_result = Some JNull, rs_error = None\<rparr>)"

definition demo_env :: "string list lsp_env" where
  "demo_env =
     \<lparr>en_lib = demo_lsp_lib, en_machine = demo_machine, en_exists = (\<lambda>_ _. True), en_spawns = (\<lambda>_ _. True), en_pid = 7, en_now = 1,
      en_initialize = quiet_server, en_server = (\<lambda>_. quiet_server), en_first = busy_view, en_second = busy_view, en_start = 1000,
      en_tree = (\<lambda>_ _. []), en_garbage = (\<lambda>_. 0)\<rparr>"

definition demo_params :: json where
  "demo_params =
     JObj [(''workspacePath'', JStr ''/w''), (''language'', JInt 2), (''filePath'', JStr ''a.py''), (''fileContent'', JStr ''x = 1''),
           (''line'', JInt 0), (''character'', JInt 0)]"

definition demo_agent :: "string list lsp_agent" where
  "demo_agent = \<lparr>la_sessions = (\<lambda>_. None), la_world = []\<rparr>"

lemma demo_clock: "clock_advances demo_env"
  by (simp add: clock_advances_def demo_env_def busy_view_def)


section \<open>The outline as the client reads it\<close>

text \<open>A symbol within the bounds of the protocol's integers.\<close>

fun protocol_symbol :: "doc_symbol \<Rightarrow> bool" where
  "protocol_symbol (DocSymbol n d k r sel cs) \<longleftrightarrow>
     1 \<le> k \<and> k \<le> 26 \<and> int32_range r \<and> int32_range sel \<and> list_all protocol_symbol cs"

lemma jRange_json: "jRange = range_json"
  by (rule ext) (simp add: jRange_def range_json_def jPos_def position_json_def)

lemma jLoc_json: "jLoc = location_json"
  by (rule ext) (simp add: jLoc_def location_json_def jRange_json)

lemma parse_jDocSym: "protocol_symbol s \<Longrightarrow> parse_symbol lib (jDocSym s) = Inr s"
proof (induction s rule: jDocSym.induct)
  case (1 n d k r sel cs)
  have "try_all (parse_symbol lib) (map jDocSym cs) = Inr cs"
    using 1 by (auto simp: try_all_Inr list_all2_conv_all_nth list_all_iff)
  moreover have "to_int32 k = k" using "1.prems" by (intro to_int32_small) auto
  ultimately show ?case
    using "1.prems" range_roundtrip [of r lib] range_roundtrip [of sel lib]
    by (subst parse_symbol.simps)
      (simp add: jvalue_str_def jvalue_int_def jget_str_def jRange_json array_field_def symbol_kind_def)
qed

text \<open>
  The outline of a file crosses the agent whole: what \<^verbatim>\<open>lsp.documentSymbols\<close> replies reads back, by the protocol's
  own rules, as exactly the symbols that crossed the C API, with all that is nested in them.
\<close>

theorem outline_roundtrip:
  assumes "list_all protocol_symbol ss"
  shows "parse_document_symbols lib (JArr (map jDocSym ss)) = Inr ss"
proof -
  have "outline_item lib (jDocSym s) = Inr [s]" if "s \<in> set ss" for s
  proof -
    have "parse_symbol lib (jDocSym s) = Inr s"
      using that assms by (intro parse_jDocSym) (simp add: list_all_iff)
    moreover have "jhas ''range'' (jDocSym s)" by (cases s) (simp add: jhas_def)
    ultimately show ?thesis by (simp add: outline_item_def)
  qed
  then have "try_all (outline_item lib) (map jDocSym ss) = Inr (map (\<lambda>s. [s]) ss)"
    by (auto simp: try_all_Inr list_all2_conv_all_nth)
  then show ?thesis by (simp add: parse_document_symbols_def concat_map_singleton)
qed

lemma outline_roundtrip_witness:
  "parse_document_symbols demo_lsp_lib
     (JArr (map jDocSym [DocSymbol ''A'' [] 5 ((1, 0), (9, 1)) ((1, 6), (1, 7)) [DocSymbol ''f'' ''int ()'' 6 ((2, 2), (3, 3)) ((2, 6), (2, 7)) []]]))
   = Inr [DocSymbol ''A'' [] 5 ((1, 0), (9, 1)) ((1, 6), (1, 7)) [DocSymbol ''f'' ''int ()'' 6 ((2, 2), (3, 3)) ((2, 6), (2, 7)) []]]"
  by (rule outline_roundtrip) (simp add: int32_range_def int32_position_def int32_def)

end
