(* ===== verification/LspDocuments.thy ===== *)
theory LspDocuments
  imports LspHandlers
begin

text \<open>
  What the agent's language servers were shown over a history of \<^verbatim>\<open>lsp.*\<close> requests (\<^verbatim>\<open>src/agent/main.cpp\<close>): each session
  belongs to one workspace and language, and each document reaches its server in the order of its versions.
\<close>

section \<open>Sessions and documents over a history of requests\<close>

text \<open>The messages that show a document to the server, with the version each gives it.\<close>

definition document_methods :: "string set" where
  "document_methods = {''textDocument/didOpen'', ''textDocument/didChange''}"

definition doc_event :: "string \<Rightarrow> json \<Rightarrow> (string \<times> int) option" where
  "doc_event uri j =
     (case (str_field ''method'' j, Option.bind (jfind ''params'' j) (jfind ''textDocument'')) of
        (Some m, Some d) \<Rightarrow>
          (if m \<in> document_methods \<and> str_field ''uri'' d = Some uri then map_option (Pair m) (int_field ''version'' d) else None)
      | _ \<Rightarrow> None)"

definition doc_events :: "string \<Rightarrow> lsp_client \<Rightarrow> (string \<times> int) list" where
  "doc_events uri c = List.map_filter (doc_event uri) (cl_sent c)"

text \<open>A document opened as version 1 and changed to the versions up to the n-th.\<close>

definition shown_up_to :: "nat \<Rightarrow> (string \<times> int) list" where
  "shown_up_to n = map (\<lambda>i. (if i = 1 then ''textDocument/didOpen'' else ''textDocument/didChange'', int i)) [1..<Suc n]"

lemma shown_0 [simp]: "shown_up_to 0 = []" by (simp add: shown_up_to_def)

lemma shown_Suc: "0 < n \<Longrightarrow> shown_up_to (Suc n) = shown_up_to n @ [(''textDocument/didChange'', int n + 1)]"
  by (simp add: shown_up_to_def)

lemma shown_1: "shown_up_to 1 = [(''textDocument/didOpen'', 1)]" by (simp add: shown_up_to_def)

text \<open>What queries leave alone: the documents shown, and while the server runs the set of open ones.\<close>

definition quiet :: "lsp_client \<Rightarrow> lsp_client \<Rightarrow> bool" where
  "quiet c c' \<longleftrightarrow>
     cl_workspace c' = cl_workspace c \<and> cl_language c' = cl_language c \<and> (\<forall>uri. doc_events uri c' = doc_events uri c)
     \<and> (is_ready c' \<longrightarrow> is_ready c \<and> cl_open c' = cl_open c)"

lemma quiet_refl [simp]: "quiet c c" by (simp add: quiet_def)

lemma quiet_trans: "quiet c c1 \<Longrightarrow> quiet c1 c2 \<Longrightarrow> quiet c c2" by (auto simp: quiet_def)

lemma map_filter_append: "List.map_filter f (xs @ ys) = List.map_filter f xs @ List.map_filter f ys"
  by (simp add: List.map_filter_def)

lemma doc_events_sent: "cl_sent c' = cl_sent c @ [j] \<Longrightarrow> doc_events uri c' = doc_events uri c @ (case doc_event uri j of Some e \<Rightarrow> [e] | None \<Rightarrow> [])"
  by (simp add: doc_events_def map_filter_append split: option.split)

lemma doc_event_request: "m \<notin> document_methods \<Longrightarrow> doc_event uri (request_json i m params) = None"
  by (simp add: doc_event_def request_json_def params_field_def str_field_def split: option.split)

lemma ask_quiet:
  assumes "m \<notin> document_methods"
  shows "quiet c (fst (ask srv m params c))"
proof -
  have sent: "doc_events uri (c\<lparr>cl_next := n, cl_issued := k, cl_pending := ps, cl_sent := cl_sent c @ [request_json i m params],
      cl_answers := as\<rparr>) = doc_events uri c" for uri n k ps i as
    using doc_events_sent [of _ c "request_json i m params" uri] doc_event_request [OF assms] by simp
  show ?thesis
    using sent doc_events_sent [of _ c "request_json (cl_next c) m params"] doc_event_request [OF assms]
    by (auto simp: ask_def quiet_def begin_request_def expire_def handle_response_def stop_client_def is_ready_def Let_def
        doc_events_def map_filter_append split: request_end.split)
qed

lemma run_query_quiet:
  assumes "m \<notin> document_methods"
  shows "quiet c (fst (run_query lib srv cached m params parse store none c))"
proof -
  have cache: "quiet c1 (c1\<lparr>cl_cache := q\<rparr>)" for c1 q by (simp add: quiet_def doc_events_def is_ready_def)
  obtain c1 a where a: "ask srv m params c = (c1, a)" by (cases "ask srv m params c")
  then have "quiet c c1" using ask_quiet [OF assms, of c srv params] by simp
  then show ?thesis
    using a quiet_trans [OF _ cache] by (auto simp: run_query_def split: option.split sum.split)
qed

lemma retry_quiet:
  assumes "\<And>n c. quiet c (fst (attempt n c))" and "retry_loop attempt got first second start n c = Some res"
  shows "quiet c (fst (fst res))"
proof (rule retry_loop.raw_induct
    [where P = "\<lambda>att got' f s st n c res. att = attempt \<longrightarrow> quiet c (fst (fst res))", OF _ assms(2), THEN mp, OF _ refl])
  fix loop att got' f s st n c res
  assume IH: "\<And>att got' f s st n c res. loop att got' f s st n c = Some res \<Longrightarrow> att = attempt \<longrightarrow> quiet c (fst (fst res))"
    and got: "(case att n c of (c', e, r) \<Rightarrow>
          if is_error e \<or> got' r then Some ((c', e, r), Suc n, False)
          else if \<not> isWarmingUp (f n) \<or> retry_deadline st (s n) \<le> wv_now (s n) then Some ((c', e, r), Suc n, isWarmingUp (f n))
          else loop att got' f s st (Suc n) c') = Some res"
  show "att = attempt \<longrightarrow> quiet c (fst (fst res))"
  proof
    assume att: "att = attempt"
    obtain c' e r where a: "attempt n c = (c', e, r)" by (cases "attempt n c")
    then have one: "quiet c c'" using assms(1) [of c n] by simp
    show "quiet c (fst (fst res))"
    proof (cases "is_error e \<or> got' r \<or> \<not> isWarmingUp (f n) \<or> retry_deadline st (s n) \<le> wv_now (s n)")
      case True
      then have "fst res = (c', e, r)" using got a unfolding att by (auto split: if_splits)
      then show ?thesis using one by simp
    next
      case False
      then have "loop att got' f s st (Suc n) c' = Some res" using got a unfolding att by simp
      then have "quiet c' (fst (fst res))" using IH att by blast
      then show ?thesis by (rule quiet_trans [OF one])
    qed
  qed
qed

lemma once_quiet:
  "quiet c (fst (definition_once lib srv now uri pos c))" "quiet c (fst (references_once lib srv now uri pos incl c))"
  "quiet c (fst (hover_once lib srv now uri pos c))" "quiet c (fst (symbols_once lib srv now uri c))"
  "quiet c (fst (workspace_symbols_once lib srv now query c))" "quiet c (fst (foldings_query lib srv now uri c))"
  unfolding definition_once_def references_once_def hover_once_def symbols_once_def workspace_symbols_once_def foldings_query_def
  by (rule run_query_quiet; simp add: document_methods_def)+

lemma finished_quiet:
  assumes "\<And>n c. quiet c (fst (attempt n c))"
    and "map_option (grc_answer conv \<circ> finish_query) (retry_loop attempt got first second start n c) = Some (c', res)"
  shows "quiet c c'"
proof -
  obtain c1 e r k gave where r: "retry_loop attempt got first second start n c = Some ((c1, e, r), k, gave)"
    using assms(2) by auto
  have "quiet c c1" using retry_quiet [OF assms(1) r] by simp
  moreover have "c' = c1\<lparr>cl_gave_up := gave\<rparr>" using assms(2) r by (auto simp: finish_query_def grc_answer_def)
  ultimately show ?thesis by (simp add: quiet_def doc_events_def is_ready_def)
qed

lemma queries_quiet:
  "grc_lsp_client_goto_definition env uri pos c = Some (c', r1) \<Longrightarrow> quiet c c'"
  "grc_lsp_client_find_references env uri pos incl c = Some (c', r2) \<Longrightarrow> quiet c c'"
  "grc_lsp_client_hover env uri pos c = Some (c', r3) \<Longrightarrow> quiet c c'"
  "grc_lsp_client_document_symbols env uri c = Some (c', r4) \<Longrightarrow> quiet c c'"
  "grc_lsp_client_workspace_symbols env query c = Some (c', r5) \<Longrightarrow> quiet c c'"
  "grc_lsp_client_folding_range env uri c = (c', r6) \<Longrightarrow> quiet c c'"
  unfolding grc_lsp_client_goto_definition_def grc_lsp_client_find_references_def grc_lsp_client_hover_def
    grc_lsp_client_document_symbols_def grc_lsp_client_workspace_symbols_def
    gotoDefinition_def findReferences_def hover_query_def documentSymbols_def workspaceSymbols_def
       apply (erule finished_quiet [rotated], rule once_quiet)+
  using once_quiet(6) by (auto simp: grc_lsp_client_folding_range_def grc_answer_def split: prod.splits dest: sym) (metis fst_conv)

text \<open>
  A session shows its server each document as it counts: while the server runs, every version from the opening to the
  current one, in order; when it was stopped, those up to some version.
\<close>

definition shown_ok :: "bool \<Rightarrow> bool \<Rightarrow> int option \<Rightarrow> (string \<times> int) list \<Rightarrow> bool" where
  "shown_ok ready opened v events \<longleftrightarrow>
     (case v of None \<Rightarrow> True | Some n \<Rightarrow> 1 \<le> n)
     \<and> (let n = (case v of None \<Rightarrow> 0 | Some n \<Rightarrow> nat n)
        in if ready then events = shown_up_to n \<and> (opened \<longleftrightarrow> v \<noteq> None) else \<exists>k \<le> n. events = shown_up_to k)"

definition documents_ok :: "lsp_session \<Rightarrow> bool" where
  "documents_ok s \<longleftrightarrow>
     (\<forall>uri. c_str uri = uri \<longrightarrow>
        shown_ok (is_ready (se_client s)) (uri \<in> set (cl_open (se_client s))) (se_versions s uri) (doc_events uri (se_client s)))"

lemma shown_stopped: "shown_ok ready opened v events \<Longrightarrow> shown_ok False opened' v events"
  by (auto simp: shown_ok_def Let_def split: if_splits)

lemma shown_counted: "shown_ok False opened v events \<Longrightarrow> shown_ok False opened' (Some (case v of None \<Rightarrow> 1 | Some n \<Rightarrow> n + 1)) events"
proof -
  assume a: "shown_ok False opened v events"
  let ?n = "case v of None \<Rightarrow> 0 | Some n \<Rightarrow> nat n"
  obtain k where k: "k \<le> ?n" "events = shown_up_to k" using a by (auto simp: shown_ok_def Let_def)
  have "?n \<le> nat (case v of None \<Rightarrow> 1 | Some n \<Rightarrow> n + 1)" by (cases v) simp_all
  then show ?thesis using a k by (auto simp: shown_ok_def Let_def split: option.splits intro: order_trans)
qed

lemma shown_opened: "shown_ok True False None events \<Longrightarrow> shown_ok True True (Some 1) (events @ [(''textDocument/didOpen'', 1)])"
  by (simp add: shown_ok_def shown_1 [simplified])

lemma shown_changed:
  assumes "shown_ok True opened (Some v) events"
  shows "shown_ok True opened (Some (v + 1)) (events @ [(''textDocument/didChange'', v + 1)])"
proof -
  have v: "1 \<le> v" using assms by (simp add: shown_ok_def)
  then have n: "nat (v + 1) = Suc (nat v)" "0 < nat v" "int (nat v) = v" by simp_all
  show ?thesis using assms v by (simp add: shown_ok_def n(1) shown_Suc [OF n(2)] n(3))
qed

definition session_ok :: "string \<Rightarrow> lsp_session \<Rightarrow> bool" where
  "session_ok k s \<longleftrightarrow>
     (\<exists>ws n. k = session_key ws n \<and> cl_workspace (se_client s) = c_str ws \<and> cl_language (se_client s) = toLanguage n)
     \<and> documents_ok s"

lemma documents_quiet:
  assumes "documents_ok s" and "quiet (se_client s) c"
  shows "documents_ok (s\<lparr>se_client := c\<rparr>)"
  unfolding documents_ok_def
proof (intro allI impI)
  fix uri :: string
  assume "c_str uri = uri"
  then have "shown_ok (is_ready (se_client s)) (uri \<in> set (cl_open (se_client s))) (se_versions s uri) (doc_events uri c)"
    using assms by (simp add: documents_ok_def quiet_def)
  then show "shown_ok (is_ready (se_client (s\<lparr>se_client := c\<rparr>))) (uri \<in> set (cl_open (se_client (s\<lparr>se_client := c\<rparr>))))
      (se_versions (s\<lparr>se_client := c\<rparr>) uri) (doc_events uri (se_client (s\<lparr>se_client := c\<rparr>)))"
    using assms(2) shown_stopped by (cases "is_ready c") (auto simp: quiet_def)
qed

lemma session_quiet: "session_ok k s \<Longrightarrow> quiet (se_client s) c \<Longrightarrow> session_ok k (s\<lparr>se_client := c\<rparr>)"
  using documents_quiet by (auto simp: session_ok_def quiet_def)

lemma sync_facts:
  assumes "c_str uri = uri"
  shows "se_versions (lspSyncDoc uri lid content s) = (se_versions s)(uri \<mapsto> (case se_versions s uri of None \<Rightarrow> 1 | Some v \<Rightarrow> v + 1))"
    and "is_ready (se_client (lspSyncDoc uri lid content s)) = is_ready (se_client s)"
    and "cl_workspace (se_client (lspSyncDoc uri lid content s)) = cl_workspace (se_client s)"
    and "cl_language (se_client (lspSyncDoc uri lid content s)) = cl_language (se_client s)"
  by (auto simp: lspSyncDoc_def did_open_def did_change_def send_notification_def send_json_def is_ready_def split: option.split)

lemma opened_events:
  assumes "is_ready c" and "uri \<notin> set (cl_open c)"
  shows "doc_events u (fst (did_open uri lid v content c)) = doc_events u c @ (if u = uri then [(''textDocument/didOpen'', v)] else [])"
    and "set (cl_open (fst (did_open uri lid v content c))) = insert uri (set (cl_open c))"
  using assms
  by (auto simp: did_open_def send_notification_def send_json_def doc_events_def map_filter_append
      doc_event_def notification_json_def params_field_def str_field_def int_field_def document_methods_def)

lemma changed_events:
  assumes "is_ready c"
  shows "doc_events u (fst (did_change uri v content c)) = doc_events u c @ (if u = uri then [(''textDocument/didChange'', v)] else [])"
    and "cl_open (fst (did_change uri v content c)) = cl_open c"
  using assms
  by (auto simp: did_change_def send_notification_def send_json_def doc_events_def map_filter_append
      doc_event_def notification_json_def params_field_def str_field_def int_field_def document_methods_def)

lemma not_ready_documents:
  "\<not> is_ready c \<Longrightarrow> fst (did_open uri lid v content c) = c" "\<not> is_ready c \<Longrightarrow> fst (did_change uri v content c) = c"
  by (simp_all add: did_open_def did_change_def)

lemma sync_documents:
  assumes ok: "documents_ok s" and uri: "c_str uri = uri"
  shows "documents_ok (lspSyncDoc uri lid content s)"
  unfolding documents_ok_def
proof (intro allI impI)
  fix u :: string
  assume u: "c_str u = u"
  let ?c = "se_client s" and ?s = "lspSyncDoc uri lid content s"
  have old: "shown_ok (is_ready ?c) (w \<in> set (cl_open ?c)) (se_versions s w) (doc_events w ?c)" if "c_str w = w" for w
    using ok that by (simp add: documents_ok_def)
  show "shown_ok (is_ready (se_client ?s)) (u \<in> set (cl_open (se_client ?s))) (se_versions ?s u) (doc_events u (se_client ?s))"
  proof (cases "is_ready ?c")
    case False
    then have "se_client ?s = ?c" using uri not_ready_documents by (simp add: lspSyncDoc_def split: option.split)
    then show ?thesis
      using old [OF u] False shown_counted unfolding sync_facts(1) [OF uri] by auto
  next
    case True
    show ?thesis
    proof (cases "se_versions s uri")
      case None
      then have notopen: "uri \<notin> set (cl_open ?c)" using old [OF uri] True by (simp add: shown_ok_def)
      have s: "?s = s\<lparr>se_versions := (se_versions s)(uri \<mapsto> 1), se_client := fst (did_open uri (c_str lid) 1 (c_str content) ?c)\<rparr>"
        using None uri by (simp add: lspSyncDoc_def)
      have "shown_ok True True (Some 1) (doc_events uri ?c @ [(''textDocument/didOpen'', 1)])"
        using old [OF uri] True None notopen by (intro shown_opened) simp
      then show ?thesis
        using old [OF u] opened_events [OF True notopen] True sync_facts(2) [OF uri, of lid content s] by (auto simp: s)
    next
      case (Some v)
      have s: "?s = s\<lparr>se_versions := (se_versions s)(uri \<mapsto> v + 1), se_client := fst (did_change uri (v + 1) (c_str content) ?c)\<rparr>"
        using Some uri by (simp add: lspSyncDoc_def)
      have "shown_ok True (uri \<in> set (cl_open ?c)) (Some (v + 1)) (doc_events uri ?c @ [(''textDocument/didChange'', v + 1)])"
        using old [OF uri] True Some by (intro shown_changed) simp
      then show ?thesis
        using old [OF u] changed_events [OF True] True sync_facts(2) [OF uri, of lid content s] by (auto simp: s)
    qed
  qed
qed

lemma ask_open: "set (cl_open (fst (ask srv m params c))) \<subseteq> set (cl_open c)"
  by (auto simp: ask_def begin_request_def expire_def handle_response_def stop_client_def Let_def split: request_end.split)

lemma started_client:
  assumes "start_client lib m exists spawns srv pid now w (new_client ws lang) = (c, e, w')" and "\<not> is_error e"
  shows "cl_workspace c = ws" "cl_language c = lang" "doc_events uri c = []" "cl_open c = []" "is_ready c"
proof -
  obtain exe args where cfg: "getServerConfig m w lang = Some (exe, args)"
    using assms by (auto simp: start_client_def new_client_def is_error_def method_not_found_def split: option.splits)
  obtain info w1 where prep: "prepareWorkspace lib m ws lang 60 w = (info, w1)"
    by (cases "prepareWorkspace lib m ws lang 60 w")
  let ?c1 = "(new_client ws lang)\<lparr>cl_info := info, cl_running := True\<rparr>"
  obtain c2 e2 where init: "sendInitialize srv pid ?c1 = (c2, e2)" by (cases "sendInitialize srv pid ?c1")
  have c: "\<not> is_error e2" "c = (send_notification ''initialized'' (JObj []) c2)\<lparr>cl_initialized := True, cl_started := now\<rparr>"
    using assms cfg prep init
    by (auto simp: start_client_def new_client_def is_error_def no_error_def internal_error_def Let_def split: if_splits prod.splits)
  obtain r where asked: "ask srv ''initialize'' (initialize_params pid ?c1) ?c1 = (c2, Inr r)"
    using init c(1) by (auto simp: sendInitialize_def is_error_def internal_error_def split: sum.splits prod.splits)
  have q: "quiet ?c1 c2"
    using ask_quiet [of "''initialize''" ?c1 srv "initialize_params pid ?c1"] asked by (simp add: document_methods_def)
  have run: "cl_running c2" 
    using asked by (auto simp: ask_def begin_request_def handle_response_def Let_def split: request_end.splits)
  have "doc_event uri (notification_json ''initialized'' (JObj [])) = None"
    by (simp add: doc_event_def notification_json_def params_field_def str_field_def)
  then have "doc_events uri c = doc_events uri c2"
    using c(2) doc_events_sent [of c c2 "notification_json ''initialized'' (JObj [])" uri]
    by (simp add: send_notification_def send_json_def)
  also have "\<dots> = []" using q by (simp add: quiet_def doc_events_def new_client_def)
  finally show "doc_events uri c = []" .
  show "cl_workspace c = ws" "cl_language c = lang"
    using q c(2) by (simp_all add: quiet_def send_notification_def send_json_def new_client_def)
  have "set (cl_open (fst (ask srv ''initialize'' (initialize_params pid ?c1) ?c1))) \<subseteq> set (cl_open ?c1)" by (rule ask_open)
  then have "cl_open c2 = []" by (simp only: asked fst_conv) (simp add: new_client_def)
  then show "cl_open c = []" using c(2) by (simp add: send_notification_def send_json_def)
  show "is_ready c" using run c(2) by (simp add: is_ready_def send_notification_def send_json_def)
qed

definition sessions_ok :: "'w lsp_agent \<Rightarrow> bool" where
  "sessions_ok st \<longleftrightarrow> (\<forall>k s. la_sessions st k = Some s \<longrightarrow> session_ok k s)"

lemma session_for_ok:
  assumes "lspSessionFor env ws n st = (res, st')" and "sessions_ok st"
  shows "sessions_ok st'" and "res = Inr s \<Longrightarrow> session_ok (session_key ws n) s"
proof -
  have "sessions_ok st' \<and> (\<forall>s. res = Inr s \<longrightarrow> session_ok (session_key ws n) s)"
  proof (cases "la_sessions st (session_key ws n)")
    case (Some s)
    then show ?thesis using assms by (auto simp: lspSessionFor_def sessions_ok_def)
  next
    case None
    obtain c e w' where st: "start_client (en_lib env) (en_machine env) (en_exists env) (en_spawns env) (en_initialize env)
        (en_pid env) (en_now env) (la_world st) (new_client (c_str ws) (toLanguage n)) = (c, e, w')"
      by (metis prod_cases3)
    show ?thesis
    proof (cases "is_error e")
      case True
      then have "toGRCError e \<noteq> 0" by (simp add: toGRCError_def)
      then show ?thesis
        using assms None st by (auto simp: lspSessionFor_def grc_lsp_client_create_def grc_lsp_client_start_def sessions_ok_def Let_def)
    next
      case False
      note c = started_client [OF st False]
      let ?s = "\<lparr>se_client = c, se_versions = (\<lambda>_. None)\<rparr>"
      have "documents_ok ?s" using c(3-5) by (simp add: documents_ok_def shown_ok_def)
      then have "session_ok (session_key ws n) ?s" using c(1,2) by (auto simp: session_ok_def)
      moreover have "toGRCError e = 0" using False by (simp add: toGRCError_def)
      ultimately show ?thesis
        using assms None st
        by (auto simp: lspSessionFor_def grc_lsp_client_create_def grc_lsp_client_start_def sessions_ok_def Let_def split: if_splits)
    qed
  qed
  then show "sessions_ok st'" "res = Inr s \<Longrightarrow> session_ok (session_key ws n) s" by auto
qed

lemma put_session_ok: "sessions_ok st \<Longrightarrow> session_ok (session_key ws n) s \<Longrightarrow> sessions_ok (put_session ws n s st)"
  by (simp add: sessions_ok_def put_session_def)

lemma session_sync:
  assumes "session_ok k s" and "c_str uri = uri"
  shows "session_ok k (lspSyncDoc uri lid content s)"
  using assms sync_documents [OF _ assms(2)] sync_facts(3,4) [OF assms(2)] by (auto simp: session_ok_def)

subsection \<open>Any history of requests\<close>

datatype lsp_call =
    LocationsCall string bool
  | HoverCall
  | DocumentSymbolsCall
  | FoldingRangeCall
  | WorkspaceSymbolsCall
  | WorkspaceInfoCall

fun lsp_call_do :: "'w lsp_env \<Rightarrow> lsp_call \<Rightarrow> json \<Rightarrow> 'w lsp_agent \<Rightarrow> (reply \<times> 'w lsp_agent) option" where
  "lsp_call_do env (LocationsCall m references) p st = handleLspLocations env m references p st"
| "lsp_call_do env HoverCall p st = handleLspHover env p st"
| "lsp_call_do env DocumentSymbolsCall p st = handleLspDocumentSymbols env p st"
| "lsp_call_do env FoldingRangeCall p st = handleLspFoldingRange env p st"
| "lsp_call_do env WorkspaceSymbolsCall p st = handleLspWorkspaceSymbols env p st"
| "lsp_call_do env WorkspaceInfoCall p st = Some (handleLspWorkspaceInfo env p st)"

text \<open>The names in a request hold no NUL, which JSON could carry and the C API would cut them at.\<close>

definition plain_names :: "json \<Rightarrow> bool" where
  "plain_names p \<longleftrightarrow>
     list_all (\<lambda>k. case str_field k p of Some s \<Rightarrow> CHR 0x00 \<notin> set s | None \<Rightarrow> True) [''workspacePath'', ''filePath'']"

text \<open>The agent after some requests, each in an environment of its own, while the files may change.\<close>

inductive lsp_reachable :: "'w lsp_agent \<Rightarrow> bool" where
  Fresh: "lsp_reachable \<lparr>la_sessions = (\<lambda>_. None), la_world = w\<rparr>"
| Handled: "lsp_reachable st \<Longrightarrow> plain_names p \<Longrightarrow> lsp_call_do env call p st = Some (r, st') \<Longrightarrow> lsp_reachable st'"
| Elsewhere: "lsp_reachable st \<Longrightarrow> lsp_reachable (st\<lparr>la_world := w\<rparr>)"

lemma plain_uri:
  assumes "plain_names p" and "lspCommon p m = Inr rq"
  shows "c_str (rq_uri rq) = rq_uri rq"
proof -
  obtain ws path where n: "str_field ''workspacePath'' p = Some ws" "str_field ''filePath'' p = Some path"
    "rq_uri rq = document_uri ws path"
    using assms(2) by (auto simp: lspCommon_def bindr_Inr reqStr_Inr)
  then have "CHR 0x00 \<notin> set ws" "CHR 0x00 \<notin> set path" using assms(1) by (simp_all add: plain_names_def)
  then have "CHR 0x00 \<notin> set (rq_uri rq)"
    using n(3) drop_slashes_set [of ws] by (auto simp: document_uri_def)
  then show ?thesis by (simp add: c_str_id)
qed

lemma query_document_ok:
  assumes "query_document env m rq query answer st = Some (r, st')" and "sessions_ok st" and "c_str (rq_uri rq) = rq_uri rq"
    and "\<And>c c' res. query c = Some (c', res) \<Longrightarrow> quiet c c'"
  shows "sessions_ok st'"
proof -
  obtain got st1 where g: "lspSessionFor env (rq_workspace rq) (rq_language rq) st = (got, st1)"
    by (cases "lspSessionFor env (rq_workspace rq) (rq_language rq) st")
  show ?thesis
  proof (cases got)
    case (Inl err)
    then show ?thesis using assms(1) g session_for_ok(1) [OF g assms(2)] by (simp add: query_document_def)
  next
    case (Inr s)
    note s1 = session_sync [OF session_for_ok(2) [OF g assms(2) Inr] assms(3), of "rq_language_id rq" "rq_content rq"]
    show ?thesis
      using assms(1) g Inr session_for_ok(1) [OF g assms(2)] assms(4) session_quiet [OF s1]
      by (auto simp: query_document_def Let_def intro!: put_session_ok)
  qed
qed

lemma server_locations_quiet: "server_locations env references uri pos incl c = Some (c', res) \<Longrightarrow> quiet c c'"
  using queries_quiet(1,2) by (cases references) (simp_all add: server_locations_def)

lemma locations_ok:
  assumes "handleLspLocations env m references p st = Some (r, st')" and "sessions_ok st" and "plain_names p"
  shows "sessions_ok st'"
proof (cases "location_query_of m p")
  case (Inl e)
  then show ?thesis using assms by (simp add: handleLspLocations_def)
next
  case (Inr q)
  obtain rq pos where q: "q = (rq, pos)" by (cases q)
  have uri: "c_str (rq_uri rq) = rq_uri rq" using plain_uri [OF assms(3)] Inr q by (auto simp: bindr_Inr location_query_of_def)
  obtain got st1 where g: "lspSessionFor env (rq_workspace rq) (rq_language rq) st = (got, st1)"
    by (cases "lspSessionFor env (rq_workspace rq) (rq_language rq) st")
  show ?thesis
  proof (cases got)
    case (Inl err)
    then show ?thesis using assms(1) g Inr q session_for_ok(1) [OF g assms(2)] by (simp add: handleLspLocations_def Let_def)
  next
    case got: (Inr s)
    note s1 = session_sync [OF session_for_ok(2) [OF g assms(2) got] uri, of "rq_language_id rq" "rq_content rq"]
    let ?s1 = "lspSyncDoc (rq_uri rq) (rq_language_id rq) (rq_content rq) s"
    obtain c res where c: "server_locations env references (rq_uri rq) pos (includes_declaration p) (se_client ?s1) = Some (c, res)"
      "st' = put_session (rq_workspace rq) (rq_language rq) (?s1\<lparr>se_client := c\<rparr>) st1"
      using assms(1) g got Inr q by (auto simp: handleLspLocations_def Let_def)
    have "session_ok (session_key (rq_workspace rq) (rq_language rq)) (?s1\<lparr>se_client := c\<rparr>)"
      by (rule session_quiet [OF s1 server_locations_quiet [OF c(1)]])
    then show ?thesis unfolding c(2) by (rule put_session_ok [OF session_for_ok(1) [OF g assms(2)]])
  qed
qed

lemma workspace_symbols_ok:
  assumes "handleLspWorkspaceSymbols env p st = Some (r, st')" and "sessions_ok st"
  shows "sessions_ok st'"
proof (cases "bindr (reqStr p ''workspacePath'' ''lsp.workspaceSymbols'') (\<lambda>ws. bindr (reqStr p ''query'' ''lsp.workspaceSymbols'') (\<lambda>query.
              bindr (reqLanguage p ''lsp.workspaceSymbols'') (\<lambda>n. Inr (ws, query, n))))")
  case (Inl e)
  then show ?thesis using assms by (simp add: handleLspWorkspaceSymbols_def Let_def)
next
  case (Inr q)
  obtain ws query n where q: "q = (ws, query, n)" by (cases q)
  obtain got st1 where g: "lspSessionFor env ws n st = (got, st1)" by (cases "lspSessionFor env ws n st")
  note st1 = session_for_ok(1) [OF g assms(2)]
  show ?thesis
  proof (cases got)
    case got: (Inl err)
    then have "st' = st1" using assms(1) g Inr q by (simp add: handleLspWorkspaceSymbols_def Let_def)
    then show ?thesis using st1 by simp
  next
    case got: (Inr s)
    obtain c res where c: "grc_lsp_client_workspace_symbols env query (se_client s) = Some (c, res)"
      "st' = put_session ws n (s\<lparr>se_client := c\<rparr>) st1"
      using assms(1) g got Inr q by (auto simp: handleLspWorkspaceSymbols_def Let_def)
    have "session_ok (session_key ws n) (s\<lparr>se_client := c\<rparr>)"
      by (rule session_quiet [OF session_for_ok(2) [OF g assms(2) got] queries_quiet(5) [OF c(1)]])
    then show ?thesis unfolding c(2) by (rule put_session_ok [OF st1])
  qed
qed

lemma workspace_info_ok:
  assumes "sessions_ok st"
  shows "sessions_ok (snd (handleLspWorkspaceInfo env p st))"
  using assms session_for_ok(1) by (fastforce simp: handleLspWorkspaceInfo_def Let_def split: sum.split prod.split)

lemma call_ok:
  assumes "lsp_call_do env call p st = Some (r, st')" and "sessions_ok st" and "plain_names p"
  shows "sessions_ok st'"
proof (cases call)
  case (LocationsCall m references)
  then show ?thesis using assms locations_ok by simp
next
  case HoverCall
  then show ?thesis
    using assms queries_quiet(3) plain_uri [OF assms(3)]
    by (auto simp: handleLspHover_def bindr_Inr split: sum.splits elim!: query_document_ok)
next
  case DocumentSymbolsCall
  then show ?thesis
    using assms queries_quiet(4) plain_uri [OF assms(3)]
    by (auto simp: handleLspDocumentSymbols_def split: sum.splits elim!: query_document_ok)
next
  case FoldingRangeCall
  then show ?thesis
    using assms queries_quiet(6) plain_uri [OF assms(3)]
    by (auto simp: handleLspFoldingRange_def split: sum.splits elim!: query_document_ok)
next
  case WorkspaceSymbolsCall
  then show ?thesis using assms workspace_symbols_ok by simp
next
  case WorkspaceInfoCall
  then show ?thesis using assms workspace_info_ok [of st env p] by simp
qed

lemma reachable_ok: "lsp_reachable st \<Longrightarrow> sessions_ok st"
proof (induction rule: lsp_reachable.induct)
  case (Handled st p env call r st')
  then show ?case using call_ok by blast
qed (simp_all add: sessions_ok_def)

lemma session_key_inject: "session_key ws n = session_key ws' n' \<longleftrightarrow> ws = ws' \<and> int_text n = int_text n'"
proof
  have no: "CHR 0x1F \<notin> set (int_text i)" for i
    using nat_text_digits [of "nat i"] nat_text_digits [of "nat (- i)"] by (auto simp: int_text_def is_digit_def)
  assume k: "session_key ws n = session_key ws' n'"
  then have "after_last CHR 0x1F (session_key ws n) = after_last CHR 0x1F (session_key ws' n')" by simp
  then have t: "int_text n = int_text n'" using no by (simp add: session_key_def after_last_append)
  then show "ws = ws' \<and> int_text n = int_text n'" using k by (simp add: session_key_def)
qed (simp add: session_key_def)

text \<open>
  C29. Whatever requests came and however their servers behaved, each session belongs to one workspace and one language,
  and a running server has been shown every document in step with the agent's count: opened as version 1 and then
  changed to each following version up to the current one, none left out, repeated or out of order, and nothing for a
  document no request was about. (Names without NUL, fewer than 2^31 edits.)
\<close>

theorem documents_in_step:
  assumes "lsp_reachable st" and "la_sessions st k = Some s"
  shows "(\<exists>ws n. k = session_key ws n \<and> cl_workspace (se_client s) = c_str ws \<and> cl_language (se_client s) = toLanguage n)
    \<and> (is_ready (se_client s) \<longrightarrow>
       (\<forall>uri. c_str uri = uri \<longrightarrow>
          doc_events uri (se_client s) = shown_up_to (case se_versions s uri of None \<Rightarrow> 0 | Some v \<Rightarrow> nat v)))"
proof -
  have ok: "session_ok k s" using reachable_ok [OF assms(1)] assms(2) by (simp add: sessions_ok_def)
  then show ?thesis by (auto simp: session_ok_def documents_ok_def shown_ok_def Let_def)
qed

lemma demo_call:
  "\<exists>r st' s. lsp_call_do demo_env FoldingRangeCall demo_params demo_agent = Some (r, st')
     \<and> la_sessions st' (session_key ''/w'' 2) = Some s \<and> is_ready (se_client s) \<and> se_versions s ''file:///w/a.py'' = Some 1"
proof -
  have "case lsp_call_do demo_env FoldingRangeCall demo_params demo_agent of
      None \<Rightarrow> False
    | Some (r, st') \<Rightarrow>
        (case la_sessions st' (session_key ''/w'' 2) of
           None \<Rightarrow> False | Some s \<Rightarrow> is_ready (se_client s) \<and> se_versions s ''file:///w/a.py'' = Some 1)"
    by code_simp
  then show ?thesis by (auto split: option.splits)
qed

lemma documents_in_step_witness:
  "\<exists>st' s. lsp_reachable (st' :: string list lsp_agent) \<and> la_sessions st' (session_key ''/w'' 2) = Some s
     \<and> doc_events ''file:///w/a.py'' (se_client s) = shown_up_to 1"
proof -
  obtain r st' s where call: "lsp_call_do demo_env FoldingRangeCall demo_params demo_agent = Some (r, st')"
    and s: "la_sessions st' (session_key ''/w'' 2) = Some s" "is_ready (se_client s)" "se_versions s ''file:///w/a.py'' = Some 1"
    using demo_call by blast
  have "lsp_reachable demo_agent" unfolding demo_agent_def by (rule lsp_reachable.Fresh)
  then have reach: "lsp_reachable st'"
    by (rule lsp_reachable.Handled [OF _ _ call]) (simp add: plain_names_def demo_params_def str_field_def)
  have "c_str ''file:///w/a.py'' = ''file:///w/a.py''" by code_simp
  then have "doc_events ''file:///w/a.py'' (se_client s) = shown_up_to 1"
    using documents_in_step [OF reach s(1)] s(2,3) by simp
  then show ?thesis using s(1) reach by blast
qed

end
