(* ===== verification/WatchLoop.thy ===== *)
theory WatchLoop
  imports DirWatch
begin

text \<open>
  The thread of \<^verbatim>\<open>class DirWatcher\<close> (\<^verbatim>\<open>src/agent/main.cpp\<close>, the Linux implementation) and \<^verbatim>\<open>barrier\<close>, by which a handler
  that changed files waits until what it did has been reported. Each step is what one thread does under one lock or in
  one system call, so the steps of the watching thread interleave with those of the handlers and of the kernel.
\<close>

section \<open>What can be watched\<close>

text \<open>
  \<^verbatim>\<open>localFilesystem\<close> on the type \<^verbatim>\<open>statfs\<close> gives, if it succeeds: inotify does not hear what another host writes to a
  file system over the network. In the order of the switch: NFS, SMB, CIFS, SMB2, FUSE, Ceph, 9p, Lustre, GPFS, AFS, Coda, NCP.
\<close>

definition network_filesystems :: "int list" where
  "network_filesystems =
     [0x6969, 0x517B, 0xFF534D42, 0xFE534D42, 0x65735546, 0x00C36400, 0x01021997, 0x0BD00BD0, 0x47504653, 0x5346414F,
      0x73757245, 0x564C]"

definition localFilesystem :: "int option \<Rightarrow> bool" where
  "localFilesystem f_type = (case f_type of None \<Rightarrow> False | Some t \<Rightarrow> t \<notin> set network_filesystems)"

text \<open>\<^verbatim>\<open>startLocked\<close>: the descriptor of inotify afterwards, and whether the thread was started.\<close>

definition startLocked :: "int \<Rightarrow> bool \<Rightarrow> int \<times> bool" where
  "startLocked inotify piped =
     (if inotify < 0 then (inotify, False) else if \<not> piped then (-1, False) else (inotify, True))"

lemma network_not_watched:
  assumes "f_type \<in> set network_filesystems" and "map_of (byDir w) dir = None"
  shows "dw_watch (localFilesystem (Some f_type)) start_ok wd dir w = (False, [], w)"
  using assms by (simp add: dw_watch_def localFilesystem_def)

lemma not_started_is_retried:
  assumes "startLocked inotify piped = (fd, False)"
  shows "fd < 0"
  using assms by (auto simp: startLocked_def split: if_splits)

section \<open>State\<close>

definition kMaxHoldMs :: int where "kMaxHoldMs = 150"

text \<open>
  Where the thread is in a pass of its loop: in \<^verbatim>\<open>poll\<close>; after reading the wake pipe, with whether inotify was readable
  too; reading events; in the flush, whose two loops go over the directories that are gone and those that changed. The
  number is the barrier of the pass (0 for none), the time when the pass began.
\<close>

datatype phase =
    Polling
  | Woken bool int
  | Draining nat int
  | FlushStart nat
  | FlushGone nat "string list"
  | FlushDirs nat "(string \<times> string list) list"
  | LoopReturned

text \<open>
  \<open>wl_queue\<close> is the kernel's queue of events, \<open>wl_wake\<close> the bytes in the wake pipe, \<open>wl_first\<close> is \<^verbatim>\<open>firstEvent_\<close> while
  \<^verbatim>\<open>holdStartSet_\<close>. Each notification is kept with the files as they were when it was made. The last three fields are for
  the theorems alone: the events read, those read before the last flush that is over, and how many events there had
  been at each call of \<^verbatim>\<open>barrier\<close>.
\<close>

record watch_loop =
  wl_watcher :: dir_watcher
  wl_queue :: "inotify_event list"
  wl_wake :: nat
  wl_asked :: nat
  wl_done :: nat
  wl_pending :: pending
  wl_first :: "int option"
  wl_phase :: phase
  wl_out :: "(host \<times> json) list"
  wl_taken :: nat
  wl_flushed :: nat
  wl_mark :: "nat \<Rightarrow> nat"

definition new_watch_loop :: watch_loop where
  "new_watch_loop =
     \<lparr>wl_watcher = new_dir_watcher, wl_queue = [], wl_wake = 0, wl_asked = 0, wl_done = 0, wl_pending = no_pending,
      wl_first = None, wl_phase = Polling, wl_out = [], wl_taken = 0, wl_flushed = 0, wl_mark = (\<lambda>_. 0)\<rparr>"

section \<open>The other threads\<close>

text \<open>
  \<^verbatim>\<open>barrier\<close> up to its wait, or nothing when there is nothing to wait for; it returns when its number is done, when the
  watcher stops, or after half a second.
\<close>

definition barrier_ask :: "watch_loop \<Rightarrow> watch_loop option" where
  "barrier_ask s =
     (if \<not> dw_started (wl_watcher s) \<or> dw_stopping (wl_watcher s) \<or> byDir (wl_watcher s) = [] then None
      else Some (s\<lparr>wl_asked := Suc (wl_asked s), wl_wake := Suc (wl_wake s),
                   wl_mark := (wl_mark s)(Suc (wl_asked s) := wl_taken s + length (wl_queue s))\<rparr>))"

definition stop_flag :: "watch_loop \<Rightarrow> watch_loop" where
  "stop_flag s = s\<lparr>wl_watcher := (wl_watcher s)\<lparr>dw_stopping := True\<rparr>\<rparr>"

definition stop_wake :: "watch_loop \<Rightarrow> watch_loop" where
  "stop_wake s = s\<lparr>wl_wake := Suc (wl_wake s)\<rparr>"

section \<open>The watching thread\<close>

definition holding :: "pending \<Rightarrow> bool" where
  "holding pd \<longleftrightarrow> pd_names pd \<noteq> [] \<or> pd_resets pd \<noteq> [] \<or> pd_gone pd \<noteq> [] \<or> pd_overflow pd"

text \<open>What \<^verbatim>\<open>poll\<close> returned, begun at \<open>start\<close>; without either it timed out.\<close>

definition loop_poll :: "bool \<Rightarrow> bool \<Rightarrow> int \<Rightarrow> watch_loop \<Rightarrow> watch_loop" where
  "loop_poll ready woken start s =
     (if woken then s\<lparr>wl_wake := wl_wake s - min 64 (wl_wake s), wl_phase := Woken ready start\<rparr>
      else if ready then s\<lparr>wl_phase := Draining 0 start\<rparr>
      else s\<lparr>wl_phase := FlushStart 0\<rparr>)"

definition loop_woken :: "bool \<Rightarrow> int \<Rightarrow> watch_loop \<Rightarrow> watch_loop" where
  "loop_woken ready start s =
     (if dw_stopping (wl_watcher s) then s\<lparr>wl_phase := LoopReturned\<rparr>
      else if ready \<or> wl_asked s \<noteq> 0 then s\<lparr>wl_phase := Draining (wl_asked s) start\<rparr>
      else s\<lparr>wl_phase := Polling\<rparr>)"

text \<open>One \<^verbatim>\<open>read\<close> of \<open>k\<close> events, and the end of reading, when the queue is empty.\<close>

definition loop_read :: "nat \<Rightarrow> watch_loop \<Rightarrow> watch_loop" where
  "loop_read k s =
     s\<lparr>wl_pending := fold (on_event (wl_watcher s)) (take k (wl_queue s)) (wl_pending s),
       wl_queue := drop k (wl_queue s), wl_taken := wl_taken s + k\<rparr>"

definition loop_drained :: "nat \<Rightarrow> int \<Rightarrow> int \<Rightarrow> watch_loop \<Rightarrow> watch_loop" where
  "loop_drained b start now s =
     (let first = (case wl_first s of Some t \<Rightarrow> t | None \<Rightarrow> start)
      in if b \<noteq> 0 \<or> kMaxHoldMs \<le> now - first then s\<lparr>wl_first := Some first, wl_phase := FlushStart b\<rparr>
         else s\<lparr>wl_first := Some first, wl_phase := Polling\<rparr>)"

definition emit :: "host \<Rightarrow> json list \<Rightarrow> watch_loop \<Rightarrow> watch_loop" where
  "emit h notes s = s\<lparr>wl_out := wl_out s @ map (Pair h) notes\<rparr>"

definition flush_begin :: "nat \<Rightarrow> host \<Rightarrow> watch_loop \<Rightarrow> watch_loop" where
  "flush_begin b h s =
     (let pd = wl_pending s;
          s1 = s\<lparr>wl_first := None, wl_phase := FlushGone b (pd_gone pd)\<rparr>
      in if pd_overflow pd
         then emit h [all_reset_note] (s1\<lparr>wl_pending := pd\<lparr>pd_overflow := False, pd_names := [], pd_resets := []\<rparr>\<rparr>)
         else s1)"

text \<open>A directory that is gone: forgotten in what is pending, dropped and announced.\<close>

definition flush_gone :: "nat \<Rightarrow> string \<Rightarrow> string list \<Rightarrow> host \<Rightarrow> watch_loop \<Rightarrow> watch_loop" where
  "flush_gone b dir ds h s =
     (let (notes, w) = dropLocked dir True (wl_watcher s); pd = wl_pending s
      in emit h notes (s\<lparr>wl_watcher := w, wl_phase := FlushGone b ds,
           wl_pending := pd\<lparr>pd_names := filter (\<lambda>x. fst x \<noteq> dir) (pd_names pd), pd_resets := removeAll dir (pd_resets pd)\<rparr>\<rparr>))"

definition flush_sorted :: "nat \<Rightarrow> watch_loop \<Rightarrow> watch_loop" where
  "flush_sorted b s =
     s\<lparr>wl_pending := (wl_pending s)\<lparr>pd_gone := []\<rparr>, wl_phase := FlushDirs b (sort_key fst (pd_names (wl_pending s)))\<rparr>"

definition flush_changed :: "nat \<Rightarrow> string \<Rightarrow> string list \<Rightarrow> (string \<times> string list) list \<Rightarrow> host \<Rightarrow> int \<Rightarrow> watch_loop \<Rightarrow> watch_loop" where
  "flush_changed b dir names ds h now s =
     (let (notes, w) = flush_dir h now (pd_resets (wl_pending s)) dir names (wl_watcher s)
      in emit h notes (s\<lparr>wl_watcher := w, wl_phase := FlushDirs b ds\<rparr>))"

text \<open>The end of the flush answers the barrier of the pass.\<close>

definition flush_end :: "nat \<Rightarrow> watch_loop \<Rightarrow> watch_loop" where
  "flush_end b s =
     s\<lparr>wl_pending := no_pending, wl_done := max (wl_done s) b, wl_phase := Polling, wl_flushed := wl_taken s\<rparr>"

section \<open>Interleavings\<close>

datatype watch_event =
    Queued inotify_event
  | Watched string int
  | Forgotten string
  | Asked
  | Stopping
  | ThreadStep

inductive wstep :: "watch_loop \<Rightarrow> watch_event \<Rightarrow> watch_loop \<Rightarrow> bool" where
  Kernel: "wstep s (Queued ev) (s\<lparr>wl_queue := wl_queue s @ [ev]\<rparr>)"
| Watch: "dw_watch local start_ok wd dir (wl_watcher s) = (ok, notes, w)
    \<Longrightarrow> wstep s (Watched dir wd) (emit h notes (s\<lparr>wl_watcher := w\<rparr>))"
| Forget: "wstep s (Forgotten dir) (s\<lparr>wl_watcher := dw_forget dir (wl_watcher s)\<rparr>)"
| Ask: "barrier_ask s = Some s' \<Longrightarrow> wstep s Asked s'"
| Flag: "wstep s Stopping (stop_flag s)"
| Wake: "dw_stopping (wl_watcher s) \<Longrightarrow> wstep s Stopping (stop_wake s)"
| Poll: "wl_phase s = Polling \<Longrightarrow> woken \<longrightarrow> 0 < wl_wake s \<Longrightarrow> ready \<longrightarrow> wl_queue s \<noteq> []
    \<Longrightarrow> ready \<or> woken \<or> holding (wl_pending s) \<Longrightarrow> wstep s ThreadStep (loop_poll ready woken start s)"
| WokenUp: "wl_phase s = Woken ready start \<Longrightarrow> wstep s ThreadStep (loop_woken ready start s)"
| Read: "wl_phase s = Draining b start \<Longrightarrow> 0 < k \<Longrightarrow> k \<le> length (wl_queue s) \<Longrightarrow> wstep s ThreadStep (loop_read k s)"
| Drained: "wl_phase s = Draining b start \<Longrightarrow> wl_queue s = [] \<Longrightarrow> wstep s ThreadStep (loop_drained b start now s)"
| Begin: "wl_phase s = FlushStart b \<Longrightarrow> wstep s ThreadStep (flush_begin b h s)"
| Gone: "wl_phase s = FlushGone b (dir # ds) \<Longrightarrow> wstep s ThreadStep (flush_gone b dir ds h s)"
| Sorted: "wl_phase s = FlushGone b [] \<Longrightarrow> wstep s ThreadStep (flush_sorted b s)"
| Dir: "wl_phase s = FlushDirs b ((dir, names) # ds) \<Longrightarrow> wstep s ThreadStep (flush_changed b dir names ds h now s)"
| End: "wl_phase s = FlushDirs b [] \<Longrightarrow> wstep s ThreadStep (flush_end b s)"

inductive wrun :: "watch_loop \<Rightarrow> watch_event list \<Rightarrow> watch_loop \<Rightarrow> bool" where
  Here: "wrun s [] s"
| More: "wrun s es s1 \<Longrightarrow> wstep s1 e s2 \<Longrightarrow> wrun s (es @ [e]) s2"

text \<open>
  \<^verbatim>\<open>Watched\<close> carries the descriptor \<^verbatim>\<open>inotify_add_watch\<close> answers, any number: for a directory that is watched
  under another name it is that one's. The runs in which that does not happen:
\<close>

definition unshared :: "watch_loop \<Rightarrow> watch_event \<Rightarrow> bool" where
  "unshared s e \<longleftrightarrow>
     (case e of
        Watched dir wd \<Rightarrow> map_of (byDir (wl_watcher s)) dir \<noteq> None \<or> map_of (byWd (wl_watcher s)) wd = None
      | _ \<Rightarrow> True)"

inductive single_named_run :: "watch_loop \<Rightarrow> watch_event list \<Rightarrow> watch_loop \<Rightarrow> bool" where
  Rest: "single_named_run s [] s"
| Next: "single_named_run s es s1 \<Longrightarrow> wstep s1 e s2 \<Longrightarrow> unshared s1 e \<Longrightarrow> single_named_run s (es @ [e]) s2"

lemma single_named_is_run: "single_named_run s es s' \<Longrightarrow> wrun s es s'"
  by (induction rule: single_named_run.induct) (auto intro: wrun.intros)

lemmas loop_defs = loop_poll_def loop_woken_def loop_read_def loop_drained_def emit_def flush_begin_def flush_gone_def
  flush_sorted_def flush_changed_def flush_end_def stop_flag_def stop_wake_def

text \<open>
  The hold of a burst counts from the start of the pass whose \<^verbatim>\<open>poll\<close> reported its first event, so after an idle wait
  of \<open>kMaxHoldMs\<close> or more that first event is flushed alone and at once.
\<close>

lemma idle_burst_not_held:
  "wl_first s = None \<Longrightarrow> kMaxHoldMs \<le> now - start \<Longrightarrow> wl_phase (loop_drained 0 start now s) = FlushStart 0"
  by (simp add: loop_drained_def)

section \<open>Barriers and their numbers\<close>

fun phase_barrier :: "phase \<Rightarrow> nat option" where
  "phase_barrier (Draining b start) = Some b"
| "phase_barrier (FlushStart b) = Some b"
| "phase_barrier (FlushGone b ds) = Some b"
| "phase_barrier (FlushDirs b ds) = Some b"
| "phase_barrier _ = None"

fun flushing :: "phase \<Rightarrow> bool" where
  "flushing (FlushStart b) \<longleftrightarrow> True"
| "flushing (FlushGone b ds) \<longleftrightarrow> True"
| "flushing (FlushDirs b ds) \<longleftrightarrow> True"
| "flushing _ \<longleftrightarrow> False"

fun is_woken :: "phase \<Rightarrow> bool" where
  "is_woken (Woken ready start) \<longleftrightarrow> True"
| "is_woken _ \<longleftrightarrow> False"

text \<open>
  What a barrier is promised: events there were at its call are in a flush that is over before its number is done; and
  while it is not done, the thread has something that makes it go on.
\<close>

definition numbers_ok :: "watch_loop \<Rightarrow> bool" where
  "numbers_ok s \<longleftrightarrow>
     wl_done s \<le> wl_asked s \<and> wl_flushed s \<le> wl_taken s
     \<and> (\<forall>b \<le> wl_asked s. wl_mark s b \<le> wl_taken s + length (wl_queue s))
     \<and> (\<forall>b \<le> wl_done s. wl_mark s b \<le> wl_flushed s)
     \<and> (\<forall>b. phase_barrier (wl_phase s) = Some b \<longrightarrow> b \<le> wl_asked s
            \<and> (flushing (wl_phase s) \<longrightarrow> (\<forall>b' \<le> b. wl_mark s b' \<le> wl_taken s)))"

definition no_lost_wakeup :: "watch_loop \<Rightarrow> bool" where
  "no_lost_wakeup s \<longleftrightarrow>
     (wl_done s < wl_asked s \<longrightarrow> 0 < wl_wake s \<or> is_woken (wl_phase s) \<or> phase_barrier (wl_phase s) = Some (wl_asked s)
        \<or> wl_phase s = LoopReturned)
     \<and> (wl_phase s = LoopReturned \<longrightarrow> dw_stopping (wl_watcher s))"

lemma numbers_step:
  assumes "wstep s e s'" and "numbers_ok s"
  shows "numbers_ok s'"
  using assms
proof (cases rule: wstep.cases)
  case Ask
  then show ?thesis using assms(2) by (auto simp: numbers_ok_def barrier_ask_def le_Suc_eq split: if_splits)
next
  case (Read b start k)
  then show ?thesis using assms(2) by (auto simp: numbers_ok_def loop_read_def)
next
  case (End b)
  then show ?thesis using assms(2) by (auto simp: numbers_ok_def flush_end_def le_max_iff_disj)
qed (use assms(2) in \<open>force simp: numbers_ok_def loop_defs Let_def split: prod.splits if_splits\<close>)+

lemma dropLocked_stopping: "dropLocked dir tell w = (out, w') \<Longrightarrow> dw_stopping w' = dw_stopping w"
  by (auto simp: dropLocked_def split: option.splits)

lemma evict_stopping: "evict n dir w = (out, w') \<Longrightarrow> dw_stopping w' = dw_stopping w"
proof (induction n dir w arbitrary: out w' rule: evict.induct)
  case (2 n dir w)
  let ?v = "hd (order w)" and ?w1 = "w\<lparr>order := tl (order w)\<rparr>"
  consider "length (byDir w) \<le> kMaxWatches \<or> order w = []"
    | "\<not> (length (byDir w) \<le> kMaxWatches \<or> order w = [])" "?v = dir"
    | "\<not> (length (byDir w) \<le> kMaxWatches \<or> order w = [])" "?v \<noteq> dir" by blast
  then show ?case
  proof cases
    case 1
    then show ?thesis using "2.prems" by simp
  next
    case 2
    then have "evict n dir (?w1\<lparr>order := order ?w1 @ [dir]\<rparr>) = (out, w')" using "2.prems" by (simp add: Let_def)
    then show ?thesis using "2.IH"(1) [OF 2(1) refl refl 2(2)] by simp
  next
    case 3
    obtain n1 w2 where d: "dropLocked ?v True ?w1 = (n1, w2)" by force
    obtain n2 where g: "evict n dir w2 = (n2, w')" using 3 d "2.prems" by (auto simp: Let_def split: prod.splits)
    show ?thesis using "2.IH"(2) [OF 3(1) refl refl 3(2) d [symmetric] refl g] dropLocked_stopping [OF d] by simp
  qed
qed simp

lemma dw_watch_stopping: "dw_watch local start_ok wd dir w = (ok, out, w') \<Longrightarrow> dw_stopping w' = dw_stopping w"
  by (auto simp: dw_watch_def Let_def simp del: evict.simps split: if_splits prod.splits dest!: evict_stopping)

lemma wakeup_step:
  assumes "wstep s e s'" and "numbers_ok s" and "no_lost_wakeup s"
  shows "no_lost_wakeup s'"
  using assms
proof (cases rule: wstep.cases)
  case (End b)
  then show ?thesis using assms(2,3) by (auto simp: no_lost_wakeup_def flush_end_def)
next
  case (Watch local start_ok wd dir ok out w h)
  then have "dw_stopping (wl_watcher s) \<Longrightarrow> dw_stopping w" using dw_watch_stopping by blast
  then show ?thesis using Watch assms(3) by (auto simp: no_lost_wakeup_def emit_def)
next
  case (Gone b dir ds h)
  then show ?thesis using assms(3) by (auto simp: no_lost_wakeup_def loop_defs Let_def split: prod.splits)
next
  case (Dir b dir names ds h now)
  then show ?thesis using assms(3) by (auto simp: no_lost_wakeup_def loop_defs Let_def split: prod.splits)
next
  case Ask
  then show ?thesis using assms(3) by (auto simp: no_lost_wakeup_def barrier_ask_def split: if_splits)
next
  case (Forget dir)
  then show ?thesis using assms(3) by (auto simp: no_lost_wakeup_def dw_forget_def dropLocked_def split: option.splits)
qed (use assms(2,3) in \<open>auto simp: no_lost_wakeup_def numbers_ok_def loop_defs Let_def split: if_splits\<close>)

section \<open>The watch table under the other steps\<close>

lemma flush_dir_table:
  assumes "flush_dir h now resets d names w = (out, w')" and "dw_inv w"
  shows "dw_inv w' \<and> dw_count w' \<le> dw_count w \<and> (\<forall>d'. d' \<noteq> d \<longrightarrow> map_of (byDir w') d' = map_of (byDir w) d')
    \<and> (map_of (byDir w') d = map_of (byDir w) d \<or> out = [unwatched_note d])"
proof (cases "map_of (byDir w) d")
  case None
  then show ?thesis using assms by (simp add: flush_dir_def)
next
  case (Some wd)
  obtain x where x: "map_of (byWd w) wd = Some x" "dw_dir x = d" using assms(2) Some unfolding dw_inv_alt by blast
  let ?ts = "dropWhile (\<lambda>t. kBusyWindowMs < now - t) (dw_notes x @ [now])"
  let ?w1 = "w\<lparr>byWd := AList.update wd (x\<lparr>dw_notes := ?ts\<rparr>) (byWd w)\<rparr>"
  have "\<exists>y. map_of (byWd ?w1) wd' = Some y \<and> dw_dir y = d'" if "map_of (byDir w) d' = Some wd'" for d' wd'
  proof (cases "wd' = wd")
    case True
    then have "d' = d" using dw_inv_wds [OF assms(2)] that Some by blast
    then show ?thesis using True x(2) by (simp add: update_conv')
  next
    case False
    then show ?thesis using assms(2) that by (simp add: dw_inv_alt update_conv')
  qed
  then have inv: "dw_inv ?w1" using assms(2) by (simp add: dw_inv_alt)
  have run: "(out, w') = (if kBusyNotes < length ?ts then dropLocked d True ?w1
      else if d \<in> set resets then ([reset_note d], ?w1) else ([dir_note h d names], ?w1))"
    using assms(1) Some x(1) by (simp add: flush_dir_def Let_def)
  show ?thesis
  proof (cases "kBusyNotes < length ?ts")
    case True
    then have "dropLocked d True ?w1 = (out, w')" using run by simp
    then have f: "dw_inv w' \<and> \<not> watched d w' \<and> (\<forall>d'. d' \<noteq> d \<longrightarrow> map_of (byDir w') d' = map_of (byDir ?w1) d')
        \<and> (watched d ?w1 \<longrightarrow> Suc (dw_count w') = dw_count ?w1 \<and> (True \<longrightarrow> out = [unwatched_note d]))"
      by (rule dropLocked_facts [OF inv])
    then show ?thesis using Some by (simp add: watched_def dw_count_def)
  next
    case False
    then have "w' = ?w1" using run by (simp split: if_splits)
    then show ?thesis using inv by (simp add: dw_count_def)
  qed
qed

lemma evict_table: "evict n dir w = (out, w') \<Longrightarrow> map_of (byDir w') d = None \<or> map_of (byDir w') d = map_of (byDir w) d"
proof (induction n dir w arbitrary: out w' rule: evict.induct)
  case (2 n dir w)
  let ?v = "hd (order w)" and ?w1 = "w\<lparr>order := tl (order w)\<rparr>"
  show ?case
  proof (cases "length (byDir w) \<le> kMaxWatches \<or> order w = []")
    case True
    then show ?thesis using "2.prems" by simp
  next
    case False
    show ?thesis
    proof (cases "?v = dir")
      case True
      then have "evict n dir (?w1\<lparr>order := order ?w1 @ [dir]\<rparr>) = (out, w')"
        using False "2.prems" by (simp add: Let_def)
      then show ?thesis using "2.IH"(1) [OF False refl refl True] by simp
    next
      case other: False
      obtain n1 w2 where d: "dropLocked ?v True ?w1 = (n1, w2)" by force
      obtain n2 where g: "evict n dir w2 = (n2, w')" using False other d "2.prems" by (auto simp: Let_def split: prod.splits)
      have "map_of (byDir w2) d = None \<or> map_of (byDir w2) d = map_of (byDir w) d"
        using d by (auto simp: dropLocked_def delete_conv' split: option.splits)
      then show ?thesis using "2.IH"(2) [OF False refl refl other d [symmetric] refl g] by auto
    qed
  qed
qed simp

lemma dw_watch_table:
  assumes "dw_watch local start_ok wd dir w = (ok, out, w')" and "watched d w"
  shows "map_of (byDir w') d = None \<or> map_of (byDir w') d = map_of (byDir w) d"
proof (cases "map_of (byDir w) dir \<noteq> None \<or> dw_stopping w \<or> \<not> local \<or> \<not> dw_started w \<and> \<not> start_ok \<or> wd < 0")
  case True
  then have "byDir w' = byDir w" using assms(1) by (auto simp: dw_watch_def Let_def split: if_splits)
  then show ?thesis by simp
next
  case False
  let ?w2 = "w\<lparr>dw_started := True, byDir := AList.update dir wd (byDir w),
      byWd := AList.update wd \<lparr>dw_dir = dir, dw_notes = []\<rparr> (byWd w), order := order w @ [dir]\<rparr>"
  have e: "evict (Suc (Suc (length (order ?w2)))) dir ?w2 = (out, w')"
    using assms(1) False by (auto simp: dw_watch_def Let_def simp del: evict.simps split: prod.splits)
  have "map_of (byDir ?w2) d = map_of (byDir w) d" using assms(2) False by (auto simp: watched_def update_conv')
  then show ?thesis using evict_table [OF e, of d] by simp
qed

definition table_ok :: "watch_loop \<Rightarrow> bool" where
  "table_ok s \<longleftrightarrow>
     dw_inv (wl_watcher s) \<and> dw_count (wl_watcher s) \<le> kMaxWatches \<and> pending_ok (wl_pending s)
     \<and> (\<forall>b ds. wl_phase s = FlushDirs b ds \<longrightarrow> distinct (map fst ds))"

lemma unshared_facts:
  assumes "dw_inv w" and "dw_count w \<le> kMaxWatches" and "map_of (byDir w) dir \<noteq> None \<or> map_of (byWd w) wd = None"
    and "dw_watch local start_ok wd dir w = (ok, out, w')"
  shows "dw_inv w' \<and> dw_count w' \<le> kMaxWatches
    \<and> (\<forall>d. watched d w \<and> \<not> watched d w' \<longrightarrow> unwatched_note d \<in> set out)"
proof (cases "map_of (byDir w) dir = None")
  case True
  with assms(3) have "map_of (byWd w) wd = None" by simp
  from dw_watch_facts [OF assms(1,2) this assms(4)] show ?thesis by blast
next
  case False
  then have "w' = w" using assms(4) by (simp add: dw_watch_def)
  with assms(1,2) show ?thesis by simp
qed

lemma table_step:
  assumes "wstep s e s'" and "unshared s e" and "table_ok s"
  shows "table_ok s'"
  using assms(1)
proof (cases rule: wstep.cases)
  case (Watch local start_ok wd dir ok out w h)
  have "dw_inv w \<and> dw_count w \<le> kMaxWatches"
    using unshared_facts [OF _ _ _ Watch(3)] assms(2,3) Watch(1) by (simp add: table_ok_def unshared_def)
  then show ?thesis using Watch(2) assms(3) by (simp add: table_ok_def emit_def)
next
  case (Forget dir)
  obtain out w where d: "dropLocked dir False (wl_watcher s) = (out, w)" by force
  have "dw_inv w" "dw_count w \<le> dw_count (wl_watcher s)"
    using dropLocked_facts [OF _ d] assms(3) d by (auto simp: table_ok_def dropLocked_def watched_def dw_count_def split: option.splits)
  then show ?thesis using Forget assms(3) d by (simp add: table_ok_def dw_forget_def)
next
  case (Gone b dir ds h)
  obtain out w where d: "dropLocked dir True (wl_watcher s) = (out, w)" by force
  have "dw_inv w" "dw_count w \<le> dw_count (wl_watcher s)"
    using dropLocked_facts [OF _ d] assms(3) d by (auto simp: table_ok_def dropLocked_def watched_def dw_count_def split: option.splits)
  then show ?thesis using Gone assms(3) d
    by (auto simp: table_ok_def flush_gone_def emit_def pending_ok_def distinct_map_filter Let_def)
next
  case (Dir b dir names ds h now)
  obtain out w where d: "flush_dir h now (pd_resets (wl_pending s)) dir names (wl_watcher s) = (out, w)" by force
  then show ?thesis using Dir assms(3) flush_dir_table [OF d] by (auto simp: table_ok_def flush_changed_def emit_def)
next
  case (Read b start k)
  have "pending_ok (fold (on_event w) evs pd)" if "pending_ok pd" for w evs pd
    using that by (induction evs arbitrary: pd) (simp_all add: on_event_ok)
  then show ?thesis using Read assms(3) by (simp add: table_ok_def loop_read_def)
next
  case (Sorted b)
  then show ?thesis using assms(3)
    by (auto simp: table_ok_def flush_sorted_def pending_ok_def distinct_map inj_on_def)
next
  case Ask
  then show ?thesis using assms(3) by (auto simp: table_ok_def barrier_ask_def split: if_splits)
next
  case Flag
  then show ?thesis using assms(3) by (auto simp: table_ok_def stop_flag_def dw_inv_alt dw_count_def)
next
  case (Begin b h)
  then show ?thesis using assms(3) by (auto simp: table_ok_def flush_begin_def emit_def pending_ok_def Let_def)
qed (use assms(3) in \<open>auto simp: table_ok_def loop_defs Let_def split: if_splits\<close>)

section \<open>What a barrier waits for\<close>

text \<open>Among the notifications after the first \<open>n\<close> there is one that covers the change.\<close>

definition reported :: "string \<Rightarrow> string \<Rightarrow> nat \<Rightarrow> watch_loop \<Rightarrow> bool" where
  "reported dir name n s \<longleftrightarrow> (\<exists>(h, x) \<in> set (drop n (wl_out s)). covers h dir name x)"

fun owed :: "string \<Rightarrow> string \<Rightarrow> pending \<Rightarrow> phase \<Rightarrow> bool" where
  "owed dir name pd (FlushGone b ds) \<longleftrightarrow>
     dir \<in> set ds \<or> (\<exists>ns. map_of (pd_names pd) dir = Some ns \<and> (name \<in> set ns \<or> dir \<in> set (pd_resets pd)))"
| "owed dir name pd (FlushDirs b ds) \<longleftrightarrow> (\<exists>ns. (dir, ns) \<in> set ds \<and> (name \<in> set ns \<or> dir \<in> set (pd_resets pd)))"
| "owed dir name pd _ \<longleftrightarrow> held dir name pd"

text \<open>The event with index \<open>i\<close>: in the kernel's queue, or owed by the thread, or reported.\<close>

definition accounted :: "string \<Rightarrow> string \<Rightarrow> int \<Rightarrow> nat \<Rightarrow> nat \<Rightarrow> watch_loop \<Rightarrow> bool" where
  "accounted dir name wd i n s \<longleftrightarrow>
     reported dir name n s
     \<or> (map_of (byDir (wl_watcher s)) dir = Some wd
        \<and> (if i < wl_taken s then wl_flushed s \<le> i \<and> owed dir name (wl_pending s) (wl_phase s)
           else i - wl_taken s < length (wl_queue s) \<and> wl_queue s ! (i - wl_taken s) = Changed wd (Some name)))"

lemma reported_emit: "n \<le> length (wl_out s) \<Longrightarrow> reported dir name n (emit h out s) \<longleftrightarrow>
    reported dir name n s \<or> (\<exists>note \<in> set out. covers h dir name note)"
  by (auto simp: reported_def emit_def)

lemma out_grows: "wstep s e s' \<Longrightarrow> \<exists>more. wl_out s' = wl_out s @ more"
  by (cases rule: wstep.cases)
    (auto simp: loop_defs barrier_ask_def Let_def split: prod.splits if_splits option.splits)

lemma reported_step: "wstep s e s' \<Longrightarrow> n \<le> length (wl_out s) \<Longrightarrow> reported dir name n s \<Longrightarrow> reported dir name n s'"
  using out_grows [of s e s'] by (auto simp: reported_def)

lemma fold_held: "held dir name pd \<Longrightarrow> held dir name (fold (on_event w) evs pd)"
  by (induction evs arbitrary: pd) (simp_all add: on_event_held)

lemma read_held:
  assumes "dw_inv w" and "map_of (byDir w) dir = Some wd" and "\<not> starts_with name ''.scrutiny-write-''"
    and "j < length evs" and "evs ! j = Changed wd (Some name)"
  shows "held dir name (fold (on_event w) evs pd)"
proof -
  have "evs = take j evs @ evs ! j # drop (Suc j) evs" using assms(4) by (rule id_take_nth_drop)
  then have "fold (on_event w) evs pd
      = fold (on_event w) (drop (Suc j) evs) (on_event w (evs ! j) (fold (on_event w) (take j evs) pd))"
    by (metis fold_append fold_simps(2) comp_apply)
  then show ?thesis using on_event_hears [OF assms(1-3)] assms(5) by (simp add: fold_held)
qed

lemma map_of_filter_other: "d \<noteq> k \<Longrightarrow> map_of (filter (\<lambda>x. fst x \<noteq> d) al) k = map_of al k"
  by (induction al) auto

lemma accounted_step:
  assumes step: "wstep s e s'" and single: "unshared s e" and other: "e \<noteq> Forgotten dir" and table: "table_ok s" and numbers: "numbers_ok s" and temp: "\<not> starts_with name ''.scrutiny-write-''"
    and n: "n \<le> length (wl_out s)" and acc: "accounted dir name wd i n s"
  shows "accounted dir name wd i n s'"
proof (cases "reported dir name n s \<or> reported dir name n s'")
  case True
  then show ?thesis using reported_step [OF step n] by (auto simp: accounted_def)
next
  case False
  then have new: "\<not> reported dir name n s'" and
    mine: "map_of (byDir (wl_watcher s)) dir = Some wd" and
    here: "i < wl_taken s \<Longrightarrow> wl_flushed s \<le> i \<and> owed dir name (wl_pending s) (wl_phase s)"
      "\<not> i < wl_taken s \<Longrightarrow> i - wl_taken s < length (wl_queue s) \<and> wl_queue s ! (i - wl_taken s) = Changed wd (Some name)"
    using acc by (auto simp: accounted_def)
  have inv: "dw_inv (wl_watcher s)" and seen: "watched dir (wl_watcher s)" using table mine by (simp_all add: table_ok_def watched_def)
  from step show ?thesis
  proof (cases rule: wstep.cases)
    case (Kernel ev)
    then show ?thesis using mine here by (auto simp: accounted_def nth_append)
  next
    case (Watch local start_ok wd' dir' ok out w h)
    have "\<not> unwatched_note dir \<in> set out"
      using new reported_emit [of n "s\<lparr>wl_watcher := w\<rparr>" dir name h out] n Watch(2) by (auto simp: covers_def)
    then have "watched dir w" using unshared_facts [OF inv _ _ Watch(3)] single Watch(1) table seen by (auto simp: table_ok_def unshared_def)
    then have "map_of (byDir w) dir = Some wd" using dw_watch_table [OF Watch(3) seen] mine by (auto simp: watched_def)
    then show ?thesis using Watch(2) here by (auto simp: accounted_def emit_def)
  next
    case (Forget dir')
    then have "dir' \<noteq> dir" using other by simp
    then have "map_of (byDir (dw_forget dir' (wl_watcher s))) dir = Some wd"
      using mine by (auto simp: dw_forget_def dropLocked_def delete_conv' split: option.splits)
    then show ?thesis using Forget(2) here by (auto simp: accounted_def)
  next
    case (Read b start k)
    show ?thesis
    proof (cases "i < wl_taken s")
      case True
      then show ?thesis using Read mine here(1) fold_held by (auto simp: accounted_def loop_read_def)
    next
      case False
      note q = here(2) [OF False]
      show ?thesis
      proof (cases "i < wl_taken s + k")
        case True
        then have "i - wl_taken s < length (take k (wl_queue s))" "take k (wl_queue s) ! (i - wl_taken s) = Changed wd (Some name)"
          using q False by auto
        then have "held dir name (fold (on_event (wl_watcher s)) (take k (wl_queue s)) (wl_pending s))"
          using read_held [OF inv mine temp] by blast
        then show ?thesis using Read True False mine numbers by (auto simp: numbers_ok_def accounted_def loop_read_def)
      next
        case later: False
        then show ?thesis using Read mine q by (auto simp: accounted_def loop_read_def)
      qed
    qed
  next
    case (Begin b h)
    have "\<not> pd_overflow (wl_pending s)"
    proof
      assume "pd_overflow (wl_pending s)"
      then have "reported dir name n s'" using Begin n by (auto simp: flush_begin_def Let_def reported_emit covers_def)
      then show False using new by simp
    qed
    then show ?thesis using Begin mine here by (auto simp: accounted_def flush_begin_def held_def Let_def)
  next
    case (Gone b d ds h)
    obtain out w where d: "dropLocked d True (wl_watcher s) = (out, w)" by force
    have "d \<noteq> dir"
    proof
      assume "d = dir"
      then have "out = [unwatched_note dir]" using dropLocked_facts [OF inv d] seen by simp
      then have "reported dir name n s'" using Gone d n by (auto simp: flush_gone_def Let_def reported_emit covers_def)
      then show False using new by simp
    qed
    moreover have "map_of (byDir w) dir = Some wd" using dropLocked_facts [OF inv d] mine \<open>d \<noteq> dir\<close> by simp
    ultimately show ?thesis using Gone d here
      by (auto simp: accounted_def flush_gone_def emit_def Let_def map_of_filter_other)
  next
    case (Sorted b)
    then show ?thesis using mine here by (auto simp: accounted_def flush_sorted_def dest: map_of_SomeD)
  next
    case (Dir b d ns0 ds h now)
    obtain out w where d: "flush_dir h now (pd_resets (wl_pending s)) d ns0 (wl_watcher s) = (out, w)" by force
    have out: "\<not> covers h dir name x" if "x \<in> set out" for x
      using new that Dir d n by (auto simp: flush_changed_def reported_emit)
    then have "unwatched_note dir \<notin> set out" by (auto simp: covers_def)
    then have table': "map_of (byDir w) dir = Some wd" using flush_dir_table [OF d inv] mine by (cases "d = dir") auto
    have "\<exists>ns. (dir, ns) \<in> set ds \<and> (name \<in> set ns \<or> dir \<in> set (pd_resets (wl_pending s)))" if i: "i < wl_taken s"
    proof -
      obtain ns where ns: "(dir, ns) \<in> set ((d, ns0) # ds)" "name \<in> set ns \<or> dir \<in> set (pd_resets (wl_pending s))"
        using here(1) [OF i] Dir by auto
      have "(dir, ns) \<noteq> (d, ns0)"
      proof
        assume same: "(dir, ns) = (d, ns0)"
        have "watched d (wl_watcher s)" using seen same by simp
        then have "out = [unwatched_note d] \<or> out = [reset_note d] \<or> d \<notin> set (pd_resets (wl_pending s)) \<and> out = [dir_note h d ns0]"
          using flush_dir_facts [OF d] by blast
        then have "\<exists>note \<in> set out. covers h dir name note" using same ns(2) by (elim disjE conjE) (auto simp: covers_def)
        then show False using out by blast
      qed
      then show ?thesis using ns by auto
    qed
    then show ?thesis using Dir d table' here by (auto simp: accounted_def flush_changed_def emit_def)
  next
    case (End b)
    then have "\<not> i < wl_taken s" using here(1) by auto
    then show ?thesis using End mine here by (auto simp: accounted_def flush_end_def)
  next
    case Ask
    then show ?thesis using mine here by (auto simp: accounted_def barrier_ask_def split: if_splits)
  qed (use mine here in \<open>auto simp: accounted_def loop_defs Let_def split: if_splits\<close>)
qed

section \<open>The thread left alone\<close>

lemma wrun_append: "wrun s1 es' s2 \<Longrightarrow> wrun s es s1 \<Longrightarrow> wrun s (es @ es') s2"
proof (induction rule: wrun.induct)
  case (More s1 es' s2 e s3)
  then show ?case using wrun.More by fastforce
qed simp

definition alone :: "watch_loop \<Rightarrow> watch_loop \<Rightarrow> bool" where
  "alone s s' \<longleftrightarrow> (\<exists>n. wrun s (replicate n ThreadStep) s')"

lemma alone_refl [intro]: "alone s s"
  unfolding alone_def by (rule exI [of _ 0]) (simp add: wrun.Here)

lemma alone_step: "wstep s ThreadStep s1 \<Longrightarrow> alone s1 s2 \<Longrightarrow> alone s s2"
proof -
  assume a: "wstep s ThreadStep s1" "alone s1 s2"
  obtain n where n: "wrun s1 (replicate n ThreadStep) s2" using a(2) by (auto simp: alone_def)
  have "wrun s ([] @ [ThreadStep]) s1" by (rule wrun.More [OF wrun.Here a(1)])
  then have "wrun s (replicate (Suc n) ThreadStep) s2" using wrun_append [OF n] by fastforce
  then show "alone s s2" unfolding alone_def by blast
qed

lemma alone_trans: "alone s s1 \<Longrightarrow> alone s1 s2 \<Longrightarrow> alone s s2"
  unfolding alone_def using wrun_append by (metis replicate_add)

text \<open>The pass of a barrier comes to its end, and answers it.\<close>

definition passed :: "nat \<Rightarrow> watch_loop \<Rightarrow> watch_loop \<Rightarrow> bool" where
  "passed b s s' \<longleftrightarrow>
     alone s s' \<and> wl_phase s' = Polling \<and> wl_done s' = max (wl_done s) b \<and> wl_asked s' = wl_asked s
     \<and> dw_stopping (wl_watcher s') = dw_stopping (wl_watcher s)"

lemma passed_step:
  assumes "wstep s ThreadStep s1" and "passed b s1 s'" and "wl_done s1 = wl_done s" and "wl_asked s1 = wl_asked s"
    and "dw_stopping (wl_watcher s1) = dw_stopping (wl_watcher s)"
  shows "passed b s s'"
  using assms alone_step by (auto simp: passed_def)

lemma flush_dir_stopping: "flush_dir h now resets d names w = (out, w') \<Longrightarrow> dw_stopping w' = dw_stopping w"
  by (auto simp: flush_dir_def Let_def split: option.splits if_splits dest!: dropLocked_stopping)

lemma dirs_pass: "wl_phase s = FlushDirs b ds \<Longrightarrow> \<exists>s'. passed b s s'"
proof (induction ds arbitrary: s)
  case Nil
  then have "wstep s ThreadStep (flush_end b s)" by (rule wstep.End)
  then have "alone s (flush_end b s)" using alone_step by blast
  then show ?case by (intro exI [of _ "flush_end b s"]) (simp add: passed_def flush_end_def)
next
  case (Cons d ds)
  obtain dir names where d: "d = (dir, names)" by (cases d)
  fix h :: host and now :: int
  let ?s1 = "flush_changed b dir names ds h now s"
  have step: "wstep s ThreadStep ?s1" using Cons.prems d by (intro wstep.Dir) simp
  obtain out w where f: "flush_dir h now (pd_resets (wl_pending s)) dir names (wl_watcher s) = (out, w)" by force
  have s1: "wl_phase ?s1 = FlushDirs b ds" "wl_done ?s1 = wl_done s" "wl_asked ?s1 = wl_asked s"
    "dw_stopping (wl_watcher ?s1) = dw_stopping (wl_watcher s)"
    using flush_dir_stopping [OF f] by (simp_all add: flush_changed_def emit_def f)
  show ?case using Cons.IH [OF s1(1)] passed_step [OF step _ s1(2-4)] by blast
qed

lemma gone_pass: "wl_phase s = FlushGone b ds \<Longrightarrow> \<exists>s'. passed b s s'"
proof (induction ds arbitrary: s)
  case Nil
  then have step: "wstep s ThreadStep (flush_sorted b s)" by (rule wstep.Sorted)
  obtain s' where "passed b (flush_sorted b s) s'" using dirs_pass [of "flush_sorted b s" b] by (auto simp: flush_sorted_def)
  then show ?case using passed_step [OF step] by (auto simp: flush_sorted_def)
next
  case (Cons d ds)
  fix h :: host
  let ?s1 = "flush_gone b d ds h s"
  have step: "wstep s ThreadStep ?s1" using Cons.prems by (rule wstep.Gone)
  obtain out w where f: "dropLocked d True (wl_watcher s) = (out, w)" by force
  have s1: "wl_phase ?s1 = FlushGone b ds" "wl_done ?s1 = wl_done s" "wl_asked ?s1 = wl_asked s"
    "dw_stopping (wl_watcher ?s1) = dw_stopping (wl_watcher s)"
    using dropLocked_stopping [OF f] by (simp_all add: flush_gone_def emit_def f Let_def)
  show ?case using Cons.IH [OF s1(1)] passed_step [OF step _ s1(2-4)] by blast
qed

lemma start_pass: "wl_phase s = FlushStart b \<Longrightarrow> \<exists>s'. passed b s s'"
proof -
  assume p: "wl_phase s = FlushStart b"
  fix h :: host
  let ?s1 = "flush_begin b h s"
  have step: "wstep s ThreadStep ?s1" using p by (rule wstep.Begin)
  have s1: "\<exists>ds. wl_phase ?s1 = FlushGone b ds" "wl_done ?s1 = wl_done s" "wl_asked ?s1 = wl_asked s" "wl_watcher ?s1 = wl_watcher s"
    by (simp_all add: flush_begin_def emit_def Let_def)
  then obtain s' where "passed b ?s1 s'" using gone_pass by blast
  then show ?thesis using passed_step [OF step] s1(2-4) by auto
qed

lemma drained_pass: "wl_phase s = Draining b start \<Longrightarrow> wl_queue s = [] \<Longrightarrow> \<exists>s'. passed b s s'"
proof -
  assume p: "wl_phase s = Draining b start" "wl_queue s = []"
  let ?now = "(case wl_first s of Some t \<Rightarrow> t | None \<Rightarrow> start) + kMaxHoldMs"
  let ?s1 = "loop_drained b start ?now s"
  have step: "wstep s ThreadStep ?s1" using p by (rule wstep.Drained)
  have s1: "wl_phase ?s1 = FlushStart b" "wl_done ?s1 = wl_done s" "wl_asked ?s1 = wl_asked s" "wl_watcher ?s1 = wl_watcher s"
    by (simp_all add: loop_drained_def Let_def)
  then obtain s' where "passed b ?s1 s'" using start_pass by blast
  then show ?thesis using passed_step [OF step] s1(2-4) by auto
qed

lemma draining_pass: "wl_phase s = Draining b start \<Longrightarrow> \<exists>s'. passed b s s'"
proof (cases "wl_queue s = []")
  case True
  then show "wl_phase s = Draining b start \<Longrightarrow> ?thesis" using drained_pass by blast
next
  case False
  assume p: "wl_phase s = Draining b start"
  let ?s1 = "loop_read (length (wl_queue s)) s"
  have step: "wstep s ThreadStep ?s1" using p False by (intro wstep.Read) auto
  have s1: "wl_phase ?s1 = Draining b start" "wl_queue ?s1 = []" "wl_done ?s1 = wl_done s" "wl_asked ?s1 = wl_asked s"
    "wl_watcher ?s1 = wl_watcher s"
    using p by (simp_all add: loop_read_def)
  then obtain s' where "passed b ?s1 s'" using drained_pass by blast
  then show ?thesis using passed_step [OF step] s1(3-5) by auto
qed

lemma woken_pass:
  assumes "is_woken (wl_phase s)" and "\<not> dw_stopping (wl_watcher s)" and "wl_asked s \<noteq> 0"
  shows "\<exists>s'. passed (wl_asked s) s s'"
proof -
  obtain ready start where p: "wl_phase s = Woken ready start" using assms(1) by (cases "wl_phase s") auto
  let ?s1 = "loop_woken ready start s"
  have step: "wstep s ThreadStep ?s1" using p by (rule wstep.WokenUp)
  have s1: "wl_phase ?s1 = Draining (wl_asked s) start" "wl_done ?s1 = wl_done s" "wl_asked ?s1 = wl_asked s" "wl_watcher ?s1 = wl_watcher s"
    using assms(2,3) by (simp_all add: loop_woken_def)
  then obtain s' where "passed (wl_asked s) ?s1 s'" using draining_pass by blast
  then show ?thesis using passed_step [OF step] s1(2-4) by auto
qed

lemma polling_pass:
  assumes "wl_phase s = Polling" and "0 < wl_wake s" and "\<not> dw_stopping (wl_watcher s)" and "wl_asked s \<noteq> 0"
  shows "\<exists>s'. passed (wl_asked s) s s'"
proof -
  let ?s1 = "loop_poll False True 0 s"
  have step: "wstep s ThreadStep ?s1" using assms(1,2) by (intro wstep.Poll) auto
  have s1: "is_woken (wl_phase ?s1)" "wl_done ?s1 = wl_done s" "wl_asked ?s1 = wl_asked s" "wl_watcher ?s1 = wl_watcher s"
    by (simp_all add: loop_poll_def)
  then obtain s' where "passed (wl_asked s) ?s1 s'" using woken_pass [of ?s1] assms(3,4) by auto
  then show ?thesis using passed_step [OF step] s1(2-4) by auto
qed

section \<open>Properties\<close>

definition loop_ok :: "watch_loop \<Rightarrow> bool" where
  "loop_ok s \<longleftrightarrow> numbers_ok s \<and> no_lost_wakeup s"

lemma new_ok: "loop_ok new_watch_loop"
  by (simp add: loop_ok_def numbers_ok_def no_lost_wakeup_def new_watch_loop_def new_dir_watcher_def)

lemma new_table: "table_ok new_watch_loop"
  by (simp add: table_ok_def new_watch_loop_def dw_count_def new_dir_watcher_def dw_inv_alt)

lemma run_table: "single_named_run s es s' \<Longrightarrow> table_ok s \<Longrightarrow> table_ok s'"
  by (induction rule: single_named_run.induct) (auto intro: table_step)

lemma step_ok: "wstep s e s' \<Longrightarrow> loop_ok s \<Longrightarrow> loop_ok s'"
  using numbers_step wakeup_step by (auto simp: loop_ok_def)

lemma run_ok: "wrun s es s' \<Longrightarrow> loop_ok s \<Longrightarrow> loop_ok s'"
  by (induction rule: wrun.induct) (auto intro: step_ok)

lemma passed_alone:
  assumes "wrun new_watch_loop es s" and "\<not> dw_stopping (wl_watcher s)"
  shows "\<exists>n s'. wrun s (replicate n ThreadStep) s' \<and> wl_asked s' = wl_asked s \<and> wl_asked s \<le> wl_done s'"
proof -
  have go: "\<exists>s'. alone t s' \<and> wl_asked s' = wl_asked t \<and> wl_asked t \<le> wl_done s'"
    if t: "loop_ok t" "\<not> dw_stopping (wl_watcher t)" "phase_barrier (wl_phase t) = None" for t
  proof (cases "wl_asked t \<le> wl_done t")
    case False
    then have "wl_asked t \<noteq> 0" "wl_done t < wl_asked t" by simp_all
    moreover have "0 < wl_wake t \<or> is_woken (wl_phase t)" "wl_phase t \<noteq> LoopReturned"
      using t \<open>wl_done t < wl_asked t\<close> by (auto simp: loop_ok_def no_lost_wakeup_def)
    ultimately obtain s' where "passed (wl_asked t) t s'"
      using t(2,3) polling_pass [of t] woken_pass [of t] by (cases "wl_phase t") auto
    then show ?thesis by (auto simp: passed_def)
  qed auto
  have ok: "loop_ok s" using run_ok [OF assms(1) new_ok] .
  have "\<exists>s'. alone s s' \<and> wl_asked s' = wl_asked s \<and> wl_asked s \<le> wl_done s'"
  proof (cases "phase_barrier (wl_phase s)")
    case None
    then show ?thesis using go [OF ok assms(2)] by simp
  next
    case (Some b)
    then have "\<exists>t. passed b s t"
      using draining_pass start_pass gone_pass dirs_pass by (cases "wl_phase s") auto
    then obtain t where t: "passed b s t" by blast
    then have "loop_ok t" using run_ok ok by (auto simp: passed_def alone_def)
    then obtain s' where "alone t s'" "wl_asked s' = wl_asked t" "wl_asked t \<le> wl_done s'"
      using go [of t] t assms(2) by (auto simp: passed_def)
    then show ?thesis using t alone_trans by (auto simp: passed_def)
  qed
  then show ?thesis by (auto simp: alone_def)
qed

text \<open>
  C16. A barrier that nobody stops is answered. Whatever happened before, however the threads interleaved and whichever
  wake bytes were read for which barrier, as long as the watcher is not being stopped the thread can go on by itself to
  a point where every barrier that was asked for is done: no wakeup is lost, no pass forgets its barrier.
\<close>

theorem barrier_answered:
  assumes "wrun new_watch_loop es s" and "\<not> dw_stopping (wl_watcher s)"
  shows "\<exists>n s'. wrun s (replicate n ThreadStep) s' \<and> wl_asked s' = wl_asked s \<and> wl_asked s \<le> wl_done s'"
  using assms by (rule passed_alone)

lemma accounted_run:
  assumes "single_named_run s es s'" and "loop_ok s" and "table_ok s" and "Forgotten dir \<notin> set es"
    and "\<not> starts_with name ''.scrutiny-write-''" and "n \<le> length (wl_out s)" and "accounted dir name wd i n s"
  shows "accounted dir name wd i n s' \<and> length (wl_out s) \<le> length (wl_out s')"
  using assms
proof (induction rule: single_named_run.induct)
  case (Next s es s1 e s2)
  then have s1: "accounted dir name wd i n s1" "length (wl_out s) \<le> length (wl_out s1)" by auto
  have "loop_ok s1" using run_ok [OF single_named_is_run [OF Next.hyps(1)]] Next.prems(1) by blast
  moreover have "table_ok s1" using run_table Next.hyps(1) Next.prems(2) by blast
  ultimately have "accounted dir name wd i n s2"
    using accounted_step [OF Next.hyps(2,3)] Next.prems(3-5) s1 by (auto simp: loop_ok_def)
  then show ?case using s1(2) out_grows [OF Next.hyps(2)] by auto
qed simp

lemma mark_run: "wrun s es s' \<Longrightarrow> wl_asked s \<le> wl_asked s' \<and> (\<forall>b \<le> wl_asked s. wl_mark s' b = wl_mark s b)"
proof (induction rule: wrun.induct)
  case (More s es s1 e s2)
  have "wl_asked s1 \<le> wl_asked s2 \<and> (\<forall>b \<le> wl_asked s1. wl_mark s2 b = wl_mark s1 b)"
    using More.hyps(2)
    by (cases rule: wstep.cases) (auto simp: loop_defs barrier_ask_def Let_def split: prod.splits if_splits option.splits)
  then show ?case using More.IH by auto
qed simp

lemma total_grows: "wrun s es s' \<Longrightarrow> wl_taken s + length (wl_queue s) \<le> wl_taken s' + length (wl_queue s')"
proof (induction rule: wrun.induct)
  case (More s es s1 e s2)
  have "wl_taken s1 + length (wl_queue s1) \<le> wl_taken s2 + length (wl_queue s2)"
    using More.hyps(2)
    by (cases rule: wstep.cases) (auto simp: loop_defs barrier_ask_def Let_def split: prod.splits if_splits option.splits)
  then show ?case using More.IH by simp
qed simp

text \<open>
  C15. What a handler changed is reported before it replies. When the kernel queues an event for \<open>name\<close> in a directory the
  agent watches, and after that a handler calls \<^verbatim>\<open>barrier\<close>, then however the watching thread, the kernel and the
  other handlers interleave, once the number of that barrier is done a notification that covers the change, made
  from the files as they were after it, is in the queue to the client; provided that no directory is ever watched under
  two names at a time (the descriptor they share would report under the last one only: \<open>watch_alias_is_silent\<close>) and
  no handler gives the directory up in between, which it would say in its own reply. Names of the agent's own temporary
  files are not reported.
\<close>

theorem barrier_reports:
  assumes "single_named_run new_watch_loop es0 s0" and "map_of (byDir (wl_watcher s0)) dir = Some wd"
    and "\<not> starts_with name ''.scrutiny-write-''"
    and "single_named_run (s0\<lparr>wl_queue := wl_queue s0 @ [Changed wd (Some name)]\<rparr>) es1 s1"
    and "barrier_ask s1 = Some s2" and "single_named_run s2 es2 s3" and "wl_asked s2 \<le> wl_done s3"
    and "Forgotten dir \<notin> set es1 \<union> set es2"
  shows "\<exists>(h, x) \<in> set (drop (length (wl_out s0)) (wl_out s3)). covers h dir name x"
proof -
  let ?q = "s0\<lparr>wl_queue := wl_queue s0 @ [Changed wd (Some name)]\<rparr>"
  let ?i = "wl_taken s0 + length (wl_queue s0)" and ?n = "length (wl_out s0)"
  have ask: "single_named_run s1 [Asked] s2"
    using single_named_run.Next [OF single_named_run.Rest wstep.Ask [OF assms(5)]] by (simp add: unshared_def)
  have queue: "wstep s0 (Queued (Changed wd (Some name))) ?q" by (rule wstep.Kernel)
  have ok: "loop_ok ?q" "loop_ok s1" "loop_ok s2" "loop_ok s3"
    using run_ok [OF single_named_is_run [OF assms(1)] new_ok] step_ok [OF queue] assms(4,6) ask run_ok single_named_is_run
    by metis+
  have table: "table_ok ?q" "table_ok s1" "table_ok s2"
    using run_table [OF assms(1) new_table] table_step [OF queue] assms(4) ask run_table by (metis unshared_def watch_event.simps)+
  have accq: "accounted dir name wd ?i ?n ?q" using assms(2) by (simp add: accounted_def)
  have acc1: "accounted dir name wd ?i ?n s1" "?n \<le> length (wl_out s1)"
    using accounted_run [OF assms(4) ok(1) table(1) _ assms(3) _ accq] assms(8) by auto
  have acc2: "accounted dir name wd ?i ?n s2" "?n \<le> length (wl_out s2)"
    using accounted_run [OF ask ok(2) table(2) _ assms(3) _ acc1(1)] acc1(2) by auto
  have acc3: "accounted dir name wd ?i ?n s3"
    using accounted_run [OF assms(6) ok(3) table(3) _ assms(3) _ acc2(1)] acc2(2) assms(8) by auto
  have grown: "?i < wl_taken s1 + length (wl_queue s1)"
    using total_grows [OF single_named_is_run [OF assms(4)]] by simp
  have "wl_mark s3 (wl_asked s2) = wl_mark s2 (wl_asked s2)" using mark_run [OF single_named_is_run [OF assms(6)]] by simp
  also have "\<dots> = wl_taken s1 + length (wl_queue s1)" using assms(5) by (auto simp: barrier_ask_def split: if_splits)
  finally have "wl_taken s1 + length (wl_queue s1) \<le> wl_flushed s3"
    using ok(4) assms(7) by (metis loop_ok_def numbers_ok_def)
  then have "?i < wl_flushed s3" "wl_flushed s3 \<le> wl_taken s3" using grown ok(4) by (auto simp: loop_ok_def numbers_ok_def)
  then have "reported dir name ?n s3" using acc3 by (auto simp: accounted_def)
  then show ?thesis by (simp add: reported_def)
qed

definition demo_loop :: watch_loop where
  "demo_loop = emit demo_host [] (new_watch_loop\<lparr>wl_watcher := one_watch\<rparr>)"

lemma demo_loop_single: "single_named_run new_watch_loop [Watched ''/r/d'' 1] demo_loop"
proof -
  have "dw_watch True True 1 ''/r/d'' new_dir_watcher = (True, [], one_watch)" by code_simp
  then have "wstep new_watch_loop (Watched ''/r/d'' 1) demo_loop"
    unfolding demo_loop_def by (intro wstep.Watch) (simp_all add: new_watch_loop_def)
  moreover have "unshared new_watch_loop (Watched ''/r/d'' 1)"
    by (simp add: unshared_def new_watch_loop_def new_dir_watcher_def)
  ultimately show ?thesis using single_named_run.Next [OF single_named_run.Rest] by fastforce
qed

lemmas demo_loop_run = single_named_is_run [OF demo_loop_single]

definition demo_queued :: watch_loop where
  "demo_queued = demo_loop\<lparr>wl_queue := wl_queue demo_loop @ [Changed 1 (Some ''a'')]\<rparr>"

lemma demo_asks:
  "\<exists>s2. barrier_ask demo_queued = Some s2 \<and> wl_asked s2 = 1 \<and> \<not> dw_stopping (wl_watcher s2)
     \<and> wrun new_watch_loop ([Watched ''/r/d'' 1] @ [Queued (Changed 1 (Some ''a''))] @ [Asked]) s2"
proof -
  have w: "dw_started one_watch" "\<not> dw_stopping one_watch" "byDir one_watch \<noteq> []" by code_simp+
  obtain s2 where s2: "barrier_ask demo_queued = Some s2" "wl_asked s2 = 1" "\<not> dw_stopping (wl_watcher s2)"
    using w by (simp add: barrier_ask_def demo_queued_def demo_loop_def emit_def new_watch_loop_def)
  have q: "wrun new_watch_loop ([Watched ''/r/d'' 1] @ [Queued (Changed 1 (Some ''a''))]) demo_queued"
    unfolding demo_queued_def by (rule wrun.More [OF demo_loop_run wstep.Kernel])
  have "wrun new_watch_loop (([Watched ''/r/d'' 1] @ [Queued (Changed 1 (Some ''a''))]) @ [Asked]) s2"
    by (rule wrun.More [OF q wstep.Ask [OF s2(1)]])
  then show ?thesis using s2 by auto
qed

lemma barrier_answered_witness: "\<exists>(s :: watch_loop) (s' :: watch_loop). wl_asked s = 1 \<and> wl_asked s \<le> wl_done s' \<and> wl_asked s' = wl_asked s"
proof -
  obtain s2 where s2: "wl_asked s2 = 1" "\<not> dw_stopping (wl_watcher s2)"
    "wrun new_watch_loop ([Watched ''/r/d'' 1] @ [Queued (Changed 1 (Some ''a''))] @ [Asked]) s2"
    using demo_asks by blast
  obtain s' :: watch_loop where r: "wl_asked s' = wl_asked s2" "wl_asked s2 \<le> wl_done s'"
    using barrier_answered [OF s2(3,2)] by blast
  show ?thesis by (rule exI [of _ s2], rule exI [of _ s']) (use s2(1) r in simp)
qed

lemma thread_alone_single: "wrun s es s' \<Longrightarrow> set es \<subseteq> {ThreadStep} \<Longrightarrow> single_named_run s es s'"
  by (induction rule: wrun.induct) (auto intro!: single_named_run.intros simp: unshared_def)

lemma barrier_reports_witness:
  "\<exists>s :: watch_loop. \<exists>(h, x) \<in> set (wl_out s). covers h ''/r/d'' ''a'' x"
proof -
  obtain s2 where s2: "barrier_ask demo_queued = Some s2" "wl_asked s2 = 1" "\<not> dw_stopping (wl_watcher s2)"
    "wrun new_watch_loop ([Watched ''/r/d'' 1] @ [Queued (Changed 1 (Some ''a''))] @ [Asked]) s2"
    using demo_asks by blast
  obtain n s3 where s3: "wrun s2 (replicate n ThreadStep) s3" "wl_asked s2 \<le> wl_done s3"
    using passed_alone [OF s2(4,3)] by blast
  have alone: "single_named_run s2 (replicate n ThreadStep) s3" by (rule thread_alone_single [OF s3(1)]) auto
  have dir: "map_of (byDir (wl_watcher demo_loop)) ''/r/d'' = Some 1"
    by (simp add: demo_loop_def emit_def) code_simp
  have "\<exists>(h, x) \<in> set (drop (length (wl_out demo_loop)) (wl_out s3)). covers h ''/r/d'' ''a'' x"
    using demo_queued_def
    by (intro barrier_reports [OF demo_loop_single dir _ single_named_run.Rest _ alone s3(2)])
      (simp_all add: s2(1) demo_queued_def [symmetric] starts_with_def)
  then obtain h x where x: "(h, x) \<in> set (drop (length (wl_out demo_loop)) (wl_out s3))" "covers h ''/r/d'' ''a'' x" by auto
  have "(h, x) \<in> set (wl_out s3)" by (rule in_set_dropD [OF x(1)])
  then show ?thesis using x(2) by (intro exI [of _ s3] bexI [of _ "(h, x)"]) simp_all
qed

end
