(* ===== verification/CMemory.thy ===== *)
theory CMemory
  imports LspHandlers
begin

text \<open>
  The memory of the C API (\<^verbatim>\<open>src/core/src/GitReviewCore.cpp\<close>): answers are copied into blocks that the caller reads and
  gives back with the \<^verbatim>\<open>grc_free_*\<close> functions. A memory is a map from addresses to blocks; reading a block that is not there
  or beyond its end, and deleting what was not allocated, is undefined behaviour and the value \<open>None\<close> here.
\<close>

section \<open>Blocks\<close>

type_synonym ptr = nat

record c_location =
  cl_uri :: ptr
  cl_range :: lsp_range

record c_document_symbol =
  cd_name :: ptr
  cd_detail :: ptr
  cd_kind :: int
  cd_range :: lsp_range
  cd_selection :: lsp_range
  cd_children :: ptr
  cd_count :: int

record c_symbol_information =
  sy_name :: ptr
  sy_kind :: int
  sy_location :: c_location
  sy_container :: ptr

record c_definition =
  xd_name :: ptr
  xd_uri :: ptr
  xd_kind :: int
  xd_range :: lsp_range
  xd_container :: ptr

record c_reference =
  xr_from :: ptr
  xr_from_range :: lsp_range
  xr_to :: ptr
  xr_to_range :: lsp_range
  xr_symbol :: ptr

datatype c_block =
    Chars string
  | Locations "c_location list"
  | DocumentSymbols "c_document_symbol list"
  | SymbolInformations "c_symbol_information list"
  | FoldingRanges "(int \<times> int \<times> bool \<times> int) list"
  | Definitions "c_definition list"
  | References "c_reference list"
  | ArrayStruct "ptr \<times> int"
  | HoverStruct "ptr \<times> lsp_range option"

fun locations_in :: "c_block \<Rightarrow> c_location list option" where
  "locations_in (Locations cs) = Some cs"
| "locations_in _ = None"

fun document_symbols_in :: "c_block \<Rightarrow> c_document_symbol list option" where
  "document_symbols_in (DocumentSymbols cs) = Some cs"
| "document_symbols_in _ = None"

fun symbol_informations_in :: "c_block \<Rightarrow> c_symbol_information list option" where
  "symbol_informations_in (SymbolInformations cs) = Some cs"
| "symbol_informations_in _ = None"

fun folding_ranges_in :: "c_block \<Rightarrow> (int \<times> int \<times> bool \<times> int) list option" where
  "folding_ranges_in (FoldingRanges cs) = Some cs"
| "folding_ranges_in _ = None"

fun definitions_in :: "c_block \<Rightarrow> c_definition list option" where
  "definitions_in (Definitions cs) = Some cs"
| "definitions_in _ = None"

fun references_in :: "c_block \<Rightarrow> c_reference list option" where
  "references_in (References cs) = Some cs"
| "references_in _ = None"

section \<open>Memory\<close>

text \<open>
  Where \<^verbatim>\<open>new\<close> puts a block is a parameter: any function of what is allocated that gives an address in use by nothing, other
  than the null pointer 0. That memory runs out is not modelled.
\<close>

type_synonym memory = "ptr \<Rightarrow> c_block option"

definition allocator :: "(memory \<Rightarrow> ptr) \<Rightarrow> bool" where
  "allocator al \<longleftrightarrow> (\<forall>h. finite (dom h) \<longrightarrow> h (al h) = None \<and> al h \<noteq> 0)"

definition new_block :: "(memory \<Rightarrow> ptr) \<Rightarrow> c_block \<Rightarrow> memory \<Rightarrow> ptr \<times> memory" where
  "new_block al b h = (al h, h(al h \<mapsto> b))"

definition delete_block :: "ptr \<Rightarrow> memory \<Rightarrow> memory option" where
  "delete_block p h = (if p = 0 then Some h else case h p of None \<Rightarrow> None | Some _ \<Rightarrow> Some (h(p := None)))"

definition duplicateString :: "(memory \<Rightarrow> ptr) \<Rightarrow> string \<Rightarrow> memory \<Rightarrow> ptr \<times> memory" where
  "duplicateString al s h = new_block al (Chars (s @ [CHR 0x00])) h"

text \<open>What \<^verbatim>\<open>std::string\<close> takes from a pointer to characters; the handlers take a null pointer for the empty string.\<close>

definition chars_at :: "memory \<Rightarrow> ptr \<Rightarrow> string option" where
  "chars_at h p =
     (if p = 0 then Some []
      else case h p of
             Some (Chars s) \<Rightarrow> (if CHR 0x00 \<in> set s then Some (c_str s) else None)
           | _ \<Rightarrow> None)"

text \<open>
  An array of structures: as many as there are, the array first, then what each of them points to, in order. The count
  is an \<^verbatim>\<open>int32_t\<close>, and nothing at all is allocated for an empty one.
\<close>

fun store_each :: "('a \<Rightarrow> memory \<Rightarrow> 'c \<times> memory) \<Rightarrow> 'a list \<Rightarrow> memory \<Rightarrow> 'c list \<times> memory" where
  "store_each store [] h = ([], h)"
| "store_each store (x # xs) h =
     (let (c, h1) = store x h; (cs, h2) = store_each store xs h1 in (c # cs, h2))"

definition new_array ::
  "(memory \<Rightarrow> ptr) \<Rightarrow> ('c list \<Rightarrow> c_block) \<Rightarrow> ('a \<Rightarrow> memory \<Rightarrow> 'c \<times> memory) \<Rightarrow> 'a list \<Rightarrow> memory \<Rightarrow> (ptr \<times> int) \<times> memory" where
  "new_array al block store xs h =
     (if xs = [] then ((0, 0), h)
      else let (p, h1) = new_block al (block []) h; (cs, h2) = store_each store xs h1
           in ((p, to_int32 (int (length xs))), h2(p \<mapsto> block cs)))"

text \<open>Reading an array, as the handlers do, and giving it back: what each element owns, then the array itself.\<close>

definition read_array :: "(c_block \<Rightarrow> 'c list option) \<Rightarrow> (memory \<Rightarrow> 'c \<Rightarrow> 'v option) \<Rightarrow> ptr \<times> int \<Rightarrow> memory \<Rightarrow> 'v list option" where
  "read_array content look a h =
     (if fst a = 0 then Some []
      else case Option.bind (h (fst a)) content of
             None \<Rightarrow> None
           | Some cs \<Rightarrow> (if nat (snd a) \<le> length cs then those (map (look h) (take (nat (snd a)) cs)) else None))"

fun free_from ::
  "(c_block \<Rightarrow> 'c list option) \<Rightarrow> ('c \<Rightarrow> memory \<Rightarrow> memory option) \<Rightarrow> ptr \<Rightarrow> nat \<Rightarrow> nat \<Rightarrow> memory \<Rightarrow> memory option" where
  "free_from content release p i 0 h = Some h"
| "free_from content release p i (Suc n) h =
     (case Option.bind (h p) content of
        None \<Rightarrow> None
      | Some cs \<Rightarrow>
          (if length cs \<le> i then None
           else Option.bind (release (cs ! i) h) (free_from content release p (Suc i) n)))"

definition free_array ::
  "(c_block \<Rightarrow> 'c list option) \<Rightarrow> ('c \<Rightarrow> memory \<Rightarrow> memory option) \<Rightarrow> ptr \<times> int \<Rightarrow> memory \<Rightarrow> memory option" where
  "free_array content release a h =
     (if fst a = 0 then Some h
      else Option.bind (free_from content release (fst a) 0 (nat (snd a)) h) (delete_block (fst a)))"

lemma store_each_cong [fundef_cong]:
  "xs = ys \<Longrightarrow> h = h' \<Longrightarrow> (\<And>x g. x \<in> set ys \<Longrightarrow> f x g = f' x g) \<Longrightarrow> store_each f xs h = store_each f' ys h'"
proof (induction xs arbitrary: ys h h')
  case (Cons x xs)
  have "store_each f xs g = store_each f' xs g" for g by (rule Cons.IH) (use Cons.prems in auto)
  moreover have "f x h = f' x h" using Cons.prems by auto
  ultimately show ?case using Cons.prems(1,2) by auto
qed auto

lemma new_array_cong [fundef_cong]:
  "al = al' \<Longrightarrow> block = block' \<Longrightarrow> xs = ys \<Longrightarrow> h = h' \<Longrightarrow> (\<And>x g. x \<in> set ys \<Longrightarrow> f x g = f' x g)
    \<Longrightarrow> new_array al block f xs h = new_array al' block' f' ys h'"
  using store_each_cong [of xs ys _ _ f f'] by (simp add: new_array_def Let_def split: prod.split)

section \<open>The structures of the API\<close>

definition store_location :: "(memory \<Rightarrow> ptr) \<Rightarrow> location \<Rightarrow> memory \<Rightarrow> c_location \<times> memory" where
  "store_location al l h = (let (p, h1) = duplicateString al (fst l) h in (\<lparr>cl_uri = p, cl_range = snd l\<rparr>, h1))"

definition convertLocations :: "(memory \<Rightarrow> ptr) \<Rightarrow> location list \<Rightarrow> memory \<Rightarrow> (ptr \<times> int) \<times> memory" where
  "convertLocations al ls h = new_array al Locations (store_location al) ls h"

definition free_location :: "c_location \<Rightarrow> memory \<Rightarrow> memory option" where
  "free_location c = delete_block (cl_uri c)"

definition grc_free_locations :: "ptr \<times> int \<Rightarrow> memory \<Rightarrow> memory option" where
  "grc_free_locations a h = free_array locations_in free_location a h"

definition read_c_location :: "memory \<Rightarrow> c_location \<Rightarrow> location option" where
  "read_c_location h c = map_option (\<lambda>s. (s, cl_range c)) (chars_at h (cl_uri c))"

fun store_document_symbol :: "(memory \<Rightarrow> ptr) \<Rightarrow> doc_symbol \<Rightarrow> memory \<Rightarrow> c_document_symbol \<times> memory" where
  "store_document_symbol al (DocSymbol n d k r sel cs) h =
     (let (p, h1) = duplicateString al n h; (q, h2) = duplicateString al d h1;
          (a, h3) = new_array al DocumentSymbols (store_document_symbol al) cs h2
      in (\<lparr>cd_name = p, cd_detail = q, cd_kind = k, cd_range = r, cd_selection = sel, cd_children = fst a,
           cd_count = snd a\<rparr>, h3))"

definition convertDocumentSymbols :: "(memory \<Rightarrow> ptr) \<Rightarrow> doc_symbol list \<Rightarrow> memory \<Rightarrow> (ptr \<times> int) \<times> memory" where
  "convertDocumentSymbols al ss h = new_array al DocumentSymbols (store_document_symbol al) ss h"

text \<open>Freeing a symbol follows the pointers to its children; the fuel is the depth it may follow them to.\<close>

fun freeDocumentSymbol :: "nat \<Rightarrow> c_document_symbol \<Rightarrow> memory \<Rightarrow> memory option" where
  "freeDocumentSymbol 0 c h = None"
| "freeDocumentSymbol (Suc n) c h =
     Option.bind (delete_block (cd_name c) h) (\<lambda>h1.
     Option.bind (delete_block (cd_detail c) h1) (\<lambda>h2.
       free_array document_symbols_in (freeDocumentSymbol n) (cd_children c, cd_count c) h2))"

definition grc_free_document_symbols :: "nat \<Rightarrow> ptr \<times> int \<Rightarrow> memory \<Rightarrow> memory option" where
  "grc_free_document_symbols n a h = free_array document_symbols_in (freeDocumentSymbol n) a h"

fun read_document_symbol :: "nat \<Rightarrow> memory \<Rightarrow> c_document_symbol \<Rightarrow> doc_symbol option" where
  "read_document_symbol 0 h c = None"
| "read_document_symbol (Suc n) h c =
     Option.bind (chars_at h (cd_name c)) (\<lambda>name.
     Option.bind (chars_at h (cd_detail c)) (\<lambda>detail.
     Option.bind (read_array document_symbols_in (read_document_symbol n) (cd_children c, cd_count c) h) (\<lambda>cs.
       Some (DocSymbol name detail (cd_kind c) (cd_range c) (cd_selection c) cs))))"

definition store_symbol_information :: "(memory \<Rightarrow> ptr) \<Rightarrow> symbol_info \<Rightarrow> memory \<Rightarrow> c_symbol_information \<times> memory" where
  "store_symbol_information al s h =
     (let (p, h1) = duplicateString al (si_name s) h; (l, h2) = store_location al (si_location s) h1;
          (q, h3) = duplicateString al (si_container s) h2
      in (\<lparr>sy_name = p, sy_kind = si_kind s, sy_location = l, sy_container = q\<rparr>, h3))"

definition convertSymbolInformation :: "(memory \<Rightarrow> ptr) \<Rightarrow> symbol_info list \<Rightarrow> memory \<Rightarrow> (ptr \<times> int) \<times> memory" where
  "convertSymbolInformation al ss h = new_array al SymbolInformations (store_symbol_information al) ss h"

definition free_symbol_information :: "c_symbol_information \<Rightarrow> memory \<Rightarrow> memory option" where
  "free_symbol_information c h =
     Option.bind (delete_block (sy_name c) h) (\<lambda>h1.
     Option.bind (delete_block (cl_uri (sy_location c)) h1) (delete_block (sy_container c)))"

definition grc_free_symbol_information :: "ptr \<times> int \<Rightarrow> memory \<Rightarrow> memory option" where
  "grc_free_symbol_information a h = free_array symbol_informations_in free_symbol_information a h"

definition read_symbol_information :: "memory \<Rightarrow> c_symbol_information \<Rightarrow> symbol_info option" where
  "read_symbol_information h c =
     Option.bind (chars_at h (sy_name c)) (\<lambda>name.
     Option.bind (read_c_location h (sy_location c)) (\<lambda>l.
     Option.bind (chars_at h (sy_container c)) (\<lambda>container.
       Some \<lparr>si_name = name, si_kind = sy_kind c, si_location = l, si_container = container\<rparr>)))"

definition store_definition :: "(memory \<Rightarrow> ptr) \<Rightarrow> index_definition \<Rightarrow> memory \<Rightarrow> c_definition \<times> memory" where
  "store_definition al d h =
     (let (p, h1) = duplicateString al (id_name d) h; (q, h2) = duplicateString al (id_uri d) h1;
          (r, h3) = duplicateString al (id_container d) h2
      in (\<lparr>xd_name = p, xd_uri = q, xd_kind = id_kind d, xd_range = id_range d, xd_container = r\<rparr>, h3))"

definition free_definition :: "c_definition \<Rightarrow> memory \<Rightarrow> memory option" where
  "free_definition c h =
     Option.bind (delete_block (xd_name c) h) (\<lambda>h1. Option.bind (delete_block (xd_uri c) h1) (delete_block (xd_container c)))"

definition grc_free_index_definitions :: "ptr \<times> int \<Rightarrow> memory \<Rightarrow> memory option" where
  "grc_free_index_definitions a h = free_array definitions_in free_definition a h"

definition read_c_definition :: "memory \<Rightarrow> c_definition \<Rightarrow> index_definition option" where
  "read_c_definition h c =
     Option.bind (chars_at h (xd_name c)) (\<lambda>name.
     Option.bind (chars_at h (xd_uri c)) (\<lambda>uri.
     Option.bind (chars_at h (xd_container c)) (\<lambda>container.
       Some \<lparr>id_name = name, id_uri = uri, id_kind = xd_kind c, id_range = xd_range c, id_container = container\<rparr>)))"

definition store_reference :: "(memory \<Rightarrow> ptr) \<Rightarrow> index_reference \<Rightarrow> memory \<Rightarrow> c_reference \<times> memory" where
  "store_reference al r h =
     (let (p, h1) = duplicateString al (ir_fromUri r) h; (q, h2) = duplicateString al (ir_toUri r) h1;
          (s, h3) = duplicateString al (ir_symbol r) h2
      in (\<lparr>xr_from = p, xr_from_range = ir_fromRange r, xr_to = q, xr_to_range = ir_toRange r, xr_symbol = s\<rparr>, h3))"

definition free_reference :: "c_reference \<Rightarrow> memory \<Rightarrow> memory option" where
  "free_reference c h =
     Option.bind (delete_block (xr_from c) h) (\<lambda>h1. Option.bind (delete_block (xr_to c) h1) (delete_block (xr_symbol c)))"

definition grc_free_index_references :: "ptr \<times> int \<Rightarrow> memory \<Rightarrow> memory option" where
  "grc_free_index_references a h = free_array references_in free_reference a h"

definition read_c_reference :: "memory \<Rightarrow> c_reference \<Rightarrow> index_reference option" where
  "read_c_reference h c =
     Option.bind (chars_at h (xr_from c)) (\<lambda>from.
     Option.bind (chars_at h (xr_to c)) (\<lambda>to.
     Option.bind (chars_at h (xr_symbol c)) (\<lambda>sym.
       Some \<lparr>ir_symbol = sym, ir_fromUri = from, ir_fromRange = xr_from_range c, ir_toUri = to, ir_toRange = xr_to_range c\<rparr>)))"

text \<open>Folding ranges own nothing; an array is made even for none of them.\<close>

definition convertFoldingRanges ::
  "(memory \<Rightarrow> ptr) \<Rightarrow> (nat \<Rightarrow> int) \<Rightarrow> lsp_folding list \<Rightarrow> memory \<Rightarrow> (ptr \<times> int) \<times> memory" where
  "convertFoldingRanges al garbage fs h =
     (let (p, h1) = new_block al (FoldingRanges (map (\<lambda>(i, f). convert_folding (garbage i) f) (enumerate 0 fs))) h
      in ((p, to_int32 (int (length fs))), h1))"

definition grc_free_folding_ranges :: "ptr \<times> int \<Rightarrow> memory \<Rightarrow> memory option" where
  "grc_free_folding_ranges a h = delete_block (fst a) h"

definition store_hover :: "(memory \<Rightarrow> ptr) \<Rightarrow> lsp_hover option \<Rightarrow> memory \<Rightarrow> (ptr \<times> lsp_range option) \<times> memory" where
  "store_hover al ho h =
     (case ho of
        None \<Rightarrow> ((0, None), h)
      | Some x \<Rightarrow> (let (p, h1) = duplicateString al (ho_contents x) h in ((p, ho_range x), h1)))"

definition grc_free_hover :: "ptr \<times> lsp_range option \<Rightarrow> memory \<Rightarrow> memory option" where
  "grc_free_hover c h = delete_block (fst c) h"

definition grc_free_string :: "ptr \<Rightarrow> memory \<Rightarrow> memory option" where
  "grc_free_string p h = delete_block p h"

section \<open>Ownership\<close>

text \<open>The part of memory a copy added, and the part that a list of structures owns.\<close>

definition grown :: "memory \<Rightarrow> memory \<Rightarrow> memory \<Rightarrow> bool" where
  "grown h m h' \<longleftrightarrow> h' = h ++ m \<and> dom m \<inter> dom h = {} \<and> finite (dom m)"

fun owns_all :: "('a \<Rightarrow> 'c \<Rightarrow> memory \<Rightarrow> bool) \<Rightarrow> 'a list \<Rightarrow> 'c list \<Rightarrow> memory \<Rightarrow> bool" where
  "owns_all P [] [] m \<longleftrightarrow> m = Map.empty"
| "owns_all P (x # xs) (c # cs) m \<longleftrightarrow> (\<exists>m1 m2. m = m1 ++ m2 \<and> dom m1 \<inter> dom m2 = {} \<and> P x c m1 \<and> owns_all P xs cs m2)"
| "owns_all P _ _ m \<longleftrightarrow> False"

definition owns_array ::
  "('c list \<Rightarrow> c_block) \<Rightarrow> ('a \<Rightarrow> 'c \<Rightarrow> memory \<Rightarrow> bool) \<Rightarrow> 'a list \<Rightarrow> ptr \<times> int \<Rightarrow> memory \<Rightarrow> bool" where
  "owns_array block P xs a m \<longleftrightarrow>
     xs = [] \<and> fst a = 0 \<and> m = Map.empty
     \<or> fst a \<noteq> 0 \<and> snd a = int (length xs)
        \<and> (\<exists>cs m'. m' (fst a) = None \<and> owns_all P xs cs m' \<and> m = m'(fst a \<mapsto> block cs))"

lemma grown_none: "grown h Map.empty h"
  by (simp add: grown_def)

lemma grown_trans: "grown h m1 h1 \<Longrightarrow> grown h1 m2 h2 \<Longrightarrow> grown h (m1 ++ m2) h2 \<and> dom m1 \<inter> dom m2 = {}"
  by (auto simp: grown_def)

lemma grown_finite: "grown h m h' \<Longrightarrow> finite (dom h) \<Longrightarrow> finite (dom h')"
  by (simp add: grown_def)

lemma new_block_grown:
  assumes "allocator al" and "finite (dom h)" and "new_block al b h = (p, h')"
  shows "grown h [p \<mapsto> b] h' \<and> p \<noteq> 0 \<and> h p = None"
  using assms by (auto simp: allocator_def new_block_def grown_def)

lemma delete_grown: "h p = None \<Longrightarrow> p \<noteq> 0 \<Longrightarrow> delete_block p (h ++ [p \<mapsto> b]) = Some h"
  by (auto simp: delete_block_def)

lemma owns_all_length: "owns_all P xs cs m \<Longrightarrow> length cs = length xs"
  by (induction P xs cs m rule: owns_all.induct) auto

text \<open>
  The contract of a structure of the API: copying a value into memory adds a part that the structure owns, reading it
  there gives what the value looks like from C, and releasing it takes exactly that part away again.
\<close>

locale c_struct =
  fixes block :: "'c list \<Rightarrow> c_block" and content :: "c_block \<Rightarrow> 'c list option"
    and store :: "(memory \<Rightarrow> ptr) \<Rightarrow> 'a \<Rightarrow> memory \<Rightarrow> 'c \<times> memory"
    and look :: "memory \<Rightarrow> 'c \<Rightarrow> 'v option" and release :: "'c \<Rightarrow> memory \<Rightarrow> memory option"
    and owns :: "'a \<Rightarrow> 'c \<Rightarrow> memory \<Rightarrow> bool" and seen :: "'a \<Rightarrow> 'v" and small :: "'a \<Rightarrow> bool"
  assumes content_block: "content (block cs) = Some cs"
    and stored: "allocator al \<Longrightarrow> finite (dom h) \<Longrightarrow> small x \<Longrightarrow> store al x h = (c, h') \<Longrightarrow> \<exists>m. grown h m h' \<and> owns x c m"
    and looked: "owns x c m \<Longrightarrow> m \<subseteq>\<^sub>m h \<Longrightarrow> look h c = Some (seen x)"
    and released: "owns x c m \<Longrightarrow> dom m \<inter> dom h = {} \<Longrightarrow> release c (h ++ m) = Some h"
begin

lemma each_stored:
  assumes "allocator al" and "finite (dom h)" and "\<forall>x \<in> set xs. small x" and "store_each (store al) xs h = (cs, h')"
  shows "\<exists>m. grown h m h' \<and> owns_all owns xs cs m"
  using assms(2-4)
proof (induction xs arbitrary: h cs)
  case Nil
  then show ?case using grown_none by auto
next
  case (Cons x xs)
  obtain c h1 where c: "store al x h = (c, h1)" by force
  obtain cs' where cs': "store_each (store al) xs h1 = (cs', h')" "cs = c # cs'" using Cons.prems(3) c by (auto split: prod.splits)
  obtain m1 where m1: "grown h m1 h1" "owns x c m1" using stored [OF assms(1) Cons.prems(1) _ c] Cons.prems(2) by auto
  obtain m2 where m2: "grown h1 m2 h'" "owns_all owns xs cs' m2"
    using Cons.IH [OF grown_finite [OF m1(1) Cons.prems(1)] _ cs'(1)] Cons.prems(2) by auto
  have "owns_all owns (x # xs) (c # cs') (m1 ++ m2)" using m1(2) m2(2) grown_trans [OF m1(1) m2(1)] by auto
  then show ?case using grown_trans [OF m1(1) m2(1)] cs'(2) by auto
qed

lemma array_stored:
  assumes al: "allocator al" and fin: "finite (dom h)" and "\<forall>x \<in> set xs. small x" and "length xs < 2 ^ 31"
    and run: "new_array al block (store al) xs h = (a, h')"
  shows "\<exists>m. grown h m h' \<and> owns_array block owns xs a m"
proof (cases "xs = []")
  case True
  then show ?thesis using run grown_none by (auto simp: new_array_def owns_array_def)
next
  case False
  obtain p h1 where p: "new_block al (block []) h = (p, h1)" by force
  obtain cs h2 where cs: "store_each (store al) xs h1 = (cs, h2)" by force
  have a: "a = (p, to_int32 (int (length xs)))" "h' = h2(p \<mapsto> block cs)"
    using run False p cs by (auto simp: new_array_def)
  have g1: "grown h [p \<mapsto> block []] h1" "p \<noteq> 0" "h p = None" using new_block_grown [OF al fin p] by auto
  obtain m where m: "grown h1 m h2" "owns_all owns xs cs m"
    using each_stored [OF al grown_finite [OF g1(1) fin] assms(3) cs] by auto
  have "m p = None" using g1(1) m(1) by (auto simp: grown_def)
  moreover from this have "grown h (m(p \<mapsto> block cs)) h'" using g1 m(1) by (auto simp: grown_def a(2) fun_eq_iff map_add_def split: option.split)
  ultimately show ?thesis using a(1) g1(2) m(2) to_int32_small [of "int (length xs)"] assms(4)
    by (auto simp: owns_array_def)
qed

lemma all_looked: "owns_all owns xs cs m \<Longrightarrow> m \<subseteq>\<^sub>m h \<Longrightarrow> those (map (look h) cs) = Some (map seen xs)"
proof (induction xs arbitrary: cs m)
  case Nil
  then show ?case by (cases cs) auto
next
  case (Cons x xs)
  obtain c cs' m1 m2 where m: "cs = c # cs'" "m = m1 ++ m2" "dom m1 \<inter> dom m2 = {}" "owns x c m1" "owns_all owns xs cs' m2"
    using Cons.prems(1) by (cases cs) auto
  have "m1 \<subseteq>\<^sub>m m1 ++ m2" using map_le_map_add [of m1 m2] map_add_comm [OF m(3)] by simp
  moreover have "m2 \<subseteq>\<^sub>m m1 ++ m2" by (rule map_le_map_add)
  ultimately have "m1 \<subseteq>\<^sub>m h" "m2 \<subseteq>\<^sub>m h" using Cons.prems(2) m(2) map_le_trans by blast+
  then show ?case using Cons.IH [OF m(5)] looked [OF m(4)] m(1) by simp
qed

lemma array_looked: "owns_array block owns xs a m \<Longrightarrow> m \<subseteq>\<^sub>m h \<Longrightarrow> read_array content look a h = Some (map seen xs)"
proof -
  assume own: "owns_array block owns xs a m" and sub: "m \<subseteq>\<^sub>m h"
  show ?thesis
  proof (cases "fst a = 0")
    case True
    then show ?thesis using own by (auto simp: owns_array_def read_array_def)
  next
    case False
    then obtain cs m' where o: "snd a = int (length xs)" "m' (fst a) = None" "owns_all owns xs cs m'" "m = m'(fst a \<mapsto> block cs)"
      using own by (auto simp: owns_array_def)
    have "m' \<subseteq>\<^sub>m h" using sub o(2,4) by (auto simp: map_le_def split: if_splits) (metis domI domIff fun_upd_other)
    moreover have "h (fst a) = Some (block cs)" using sub o(4) by (auto simp: map_le_def)
    ultimately show ?thesis using False o(1) owns_all_length [OF o(3)] all_looked [OF o(3)]
      by (simp add: read_array_def content_block)
  qed
qed

lemma from_released:
  assumes "h p = Some (block cs)" and "owns_all owns xs (drop i cs) m" and "dom m \<inter> dom h = {}"
  shows "free_from content release p i (length xs) (h ++ m) = Some h"
  using assms(2,3)
proof (induction xs arbitrary: i m)
  case Nil
  then show ?case by (cases "drop i cs") auto
next
  case (Cons x xs)
  have i: "i < length cs" using Cons.prems(1) by (cases "i < length cs") auto
  then have "drop i cs = cs ! i # drop (Suc i) cs" by (simp add: Cons_nth_drop_Suc)
  then obtain m1 m2 where m: "m = m1 ++ m2" "dom m1 \<inter> dom m2 = {}" "owns x (cs ! i) m1" "owns_all owns xs (drop (Suc i) cs) m2"
    using Cons.prems(1) by auto
  have "(h ++ m) p = Some (block cs)" using assms(1) Cons.prems(2) by (auto simp: map_add_def split: option.split)
  moreover have "h ++ m = (h ++ m2) ++ m1" using map_add_comm [OF m(2)] m(1) by simp
  moreover have "release (cs ! i) ((h ++ m2) ++ m1) = Some (h ++ m2)"
    by (rule released [OF m(3)]) (use m(1,2) Cons.prems(2) in auto)
  moreover have "free_from content release p (Suc i) (length xs) (h ++ m2) = Some h"
    by (rule Cons.IH [OF m(4)]) (use m(1) Cons.prems(2) in auto)
  ultimately show ?case using i by (simp add: content_block)
qed

lemma array_freed:
  assumes "owns_array block owns xs a m" and "dom m \<inter> dom h = {}"
  shows "free_array content release a (h ++ m) = Some h"
proof (cases "fst a = 0")
  case True
  then show ?thesis using assms(1) by (auto simp: owns_array_def free_array_def)
next
  case False
  then obtain cs m' where o: "snd a = int (length xs)" "m' (fst a) = None" "owns_all owns xs cs m'" "m = m'(fst a \<mapsto> block cs)"
    using assms(1) by (auto simp: owns_array_def)
  let ?h = "h(fst a \<mapsto> block cs)"
  have none: "h (fst a) = None" using assms(2) o(4) by auto
  have "h ++ m = ?h ++ m'" using o(2,4) by (auto simp: fun_eq_iff map_add_def split: option.split)
  moreover have "free_from content release (fst a) 0 (length xs) (?h ++ m') = Some ?h"
    by (rule from_released) (use o assms(2) in auto)
  moreover have "delete_block (fst a) ?h = Some h" using False none by (auto simp: delete_block_def)
  ultimately show ?thesis using False o(1) by (simp add: free_array_def)
qed

text \<open>What a caller does with an answer: it reads the whole of it and gives it back.\<close>

lemma copied_read_freed:
  assumes "allocator al" and "finite (dom h)" and "\<forall>x \<in> set xs. small x" and "length xs < 2 ^ 31"
    and "new_array al block (store al) xs h = (a, h')"
  shows "read_array content look a h' = Some (map seen xs) \<and> free_array content release a h' = Some h"
proof -
  obtain m where m: "grown h m h'" "owns_array block owns xs a m" using array_stored [OF assms] by blast
  then have "h' = h ++ m" "dom m \<inter> dom h = {}" by (auto simp: grown_def)
  then show ?thesis using array_looked [OF m(2)] array_freed [OF m(2)] by simp
qed

end

section \<open>The structures keep the contract\<close>

abbreviation chars :: "string \<Rightarrow> c_block" where
  "chars s \<equiv> Chars (s @ [CHR 0x00])"

lemma duplicate_grown:
  assumes "allocator al" and "finite (dom h)" and "duplicateString al s h = (p, h')"
  shows "grown h [p \<mapsto> chars s] h' \<and> p \<noteq> 0 \<and> h p = None"
  using new_block_grown [OF assms(1,2)] assms(3) by (simp add: duplicateString_def)

lemma chars_read: "p \<noteq> 0 \<Longrightarrow> h p = Some (chars s) \<Longrightarrow> chars_at h p = Some (c_str s)"
  by (simp add: chars_at_def c_str_def takeWhile_tail)

text \<open>Three strings, as most of the structures own.\<close>

definition owns_three :: "string \<Rightarrow> string \<Rightarrow> string \<Rightarrow> ptr \<Rightarrow> ptr \<Rightarrow> ptr \<Rightarrow> memory \<Rightarrow> bool" where
  "owns_three a b c p q r m \<longleftrightarrow>
     0 \<notin> {p, q, r} \<and> distinct [p, q, r] \<and> m = [p \<mapsto> chars a, q \<mapsto> chars b, r \<mapsto> chars c]"

lemma three_stored:
  assumes al: "allocator al" and fin: "finite (dom h)" and p: "duplicateString al a h = (p, h1)"
    and q: "duplicateString al b h1 = (q, h2)" and r: "duplicateString al c h2 = (r, h3)"
  shows "\<exists>m. grown h m h3 \<and> owns_three a b c p q r m"
proof -
  have g1: "grown h [p \<mapsto> chars a] h1" "p \<noteq> 0" using duplicate_grown [OF al fin p] by auto
  have f1: "finite (dom h1)" by (rule grown_finite [OF g1(1) fin])
  have g2: "grown h1 [q \<mapsto> chars b] h2" "q \<noteq> 0" using duplicate_grown [OF al f1 q] by auto
  have g3: "grown h2 [r \<mapsto> chars c] h3" "r \<noteq> 0" using duplicate_grown [OF al grown_finite [OF g2(1) f1] r] by auto
  have d1: "p \<noteq> q" using grown_trans [OF g1(1) g2(1)] by auto
  have g12: "grown h ([p \<mapsto> chars a] ++ [q \<mapsto> chars b]) h2" using grown_trans [OF g1(1) g2(1)] by blast
  have d2: "p \<noteq> r" "q \<noteq> r" using grown_trans [OF g12 g3(1)] by auto
  have "grown h (([p \<mapsto> chars a] ++ [q \<mapsto> chars b]) ++ [r \<mapsto> chars c]) h3" using grown_trans [OF g12 g3(1)] by blast
  moreover have "owns_three a b c p q r (([p \<mapsto> chars a] ++ [q \<mapsto> chars b]) ++ [r \<mapsto> chars c])"
    using g1(2) g2(2) g3(2) d1 d2 by (simp add: owns_three_def)
  ultimately show ?thesis by blast
qed

lemma three_read:
  assumes "owns_three a b c p q r m" and "m \<subseteq>\<^sub>m h"
  shows "chars_at h p = Some (c_str a) \<and> chars_at h q = Some (c_str b) \<and> chars_at h r = Some (c_str c)"
proof -
  have "h p = Some (chars a)" "h q = Some (chars b)" "h r = Some (chars c)"
    using assms by (auto simp: owns_three_def map_le_def dest!: bspec)
  then show ?thesis using assms(1) chars_read by (simp add: owns_three_def)
qed

lemma three_freed:
  assumes "owns_three a b c p q r m" and "dom m \<inter> dom h = {}"
  shows "Option.bind (delete_block p (h ++ m)) (\<lambda>h1. Option.bind (delete_block q h1) (delete_block r)) = Some h"
proof -
  have "h p = None" "h q = None" "h r = None" using assms by (auto simp: owns_three_def)
  then show ?thesis using assms(1)
    by (clarsimp simp: owns_three_def delete_block_def fun_upd_twist map_add_def fun_eq_iff)
qed

definition owns_location :: "location \<Rightarrow> c_location \<Rightarrow> memory \<Rightarrow> bool" where
  "owns_location l c m \<longleftrightarrow> cl_uri c \<noteq> 0 \<and> cl_range c = snd l \<and> m = [cl_uri c \<mapsto> chars (fst l)]"

interpretation locations: c_struct Locations locations_in store_location read_c_location free_location owns_location
  convert_location "\<lambda>_. True"
proof
  fix al :: "memory \<Rightarrow> ptr" and h h' :: memory and x :: location and c
  assume "allocator al" and "finite (dom h)" and "store_location al x h = (c, h')"
  then show "\<exists>m. grown h m h' \<and> owns_location x c m"
    using duplicate_grown [of al h "fst x"] by (auto simp: store_location_def owns_location_def split: prod.splits)
next
  fix x :: location and c and m h :: memory
  assume "owns_location x c m" and "m \<subseteq>\<^sub>m h"
  then have "cl_uri c \<noteq> 0" "h (cl_uri c) = Some (chars (fst x))" "cl_range c = snd x"
    by (auto simp: owns_location_def map_le_def)
  then show "read_c_location h c = Some (convert_location x)"
    using chars_read by (simp add: read_c_location_def convert_location_def)
next
  fix x :: location and c and m h :: memory
  assume "owns_location x c m" and "dom m \<inter> dom h = {}"
  then show "free_location c (h ++ m) = Some h"
    using delete_grown [of h "cl_uri c"] by (auto simp: owns_location_def free_location_def)
qed simp

definition owns_symbol_information :: "symbol_info \<Rightarrow> c_symbol_information \<Rightarrow> memory \<Rightarrow> bool" where
  "owns_symbol_information s c m \<longleftrightarrow>
     sy_kind c = si_kind s \<and> cl_range (sy_location c) = snd (si_location s)
     \<and> owns_three (si_name s) (fst (si_location s)) (si_container s) (sy_name c) (cl_uri (sy_location c)) (sy_container c) m"

interpretation symbol_informations: c_struct SymbolInformations symbol_informations_in store_symbol_information
  read_symbol_information free_symbol_information owns_symbol_information convert_symbol_information "\<lambda>_. True"
proof
  fix al :: "memory \<Rightarrow> ptr" and h h' :: memory and x :: symbol_info and c
  assume "allocator al" and "finite (dom h)" and "store_symbol_information al x h = (c, h')"
  then show "\<exists>m. grown h m h' \<and> owns_symbol_information x c m"
    using three_stored [of al h "si_name x" _ _ "fst (si_location x)" _ _ "si_container x"]
    by (auto simp: store_symbol_information_def store_location_def owns_symbol_information_def split: prod.splits)
next
  fix x :: symbol_info and c and m h :: memory
  assume "owns_symbol_information x c m" and "m \<subseteq>\<^sub>m h"
  then show "read_symbol_information h c = Some (convert_symbol_information x)"
    using three_read by (fastforce simp: owns_symbol_information_def read_symbol_information_def read_c_location_def
        convert_symbol_information_def convert_location_def)
next
  fix x :: symbol_info and c and m h :: memory
  assume "owns_symbol_information x c m" and "dom m \<inter> dom h = {}"
  then show "free_symbol_information c (h ++ m) = Some h"
    unfolding owns_symbol_information_def free_symbol_information_def by (intro three_freed) auto
qed simp

definition seen_definition :: "index_definition \<Rightarrow> index_definition" where
  "seen_definition d = d\<lparr>id_name := c_str (id_name d), id_uri := c_str (id_uri d), id_container := c_str (id_container d)\<rparr>"

definition owns_definition :: "index_definition \<Rightarrow> c_definition \<Rightarrow> memory \<Rightarrow> bool" where
  "owns_definition d c m \<longleftrightarrow>
     xd_kind c = id_kind d \<and> xd_range c = id_range d
     \<and> owns_three (id_name d) (id_uri d) (id_container d) (xd_name c) (xd_uri c) (xd_container c) m"

interpretation definitions: c_struct Definitions definitions_in store_definition read_c_definition free_definition
  owns_definition seen_definition "\<lambda>_. True"
proof
  fix al :: "memory \<Rightarrow> ptr" and h h' :: memory and x :: index_definition and c
  assume "allocator al" and "finite (dom h)" and "store_definition al x h = (c, h')"
  then show "\<exists>m. grown h m h' \<and> owns_definition x c m"
    using three_stored [of al h "id_name x" _ _ "id_uri x" _ _ "id_container x"]
    by (auto simp: store_definition_def owns_definition_def split: prod.splits)
next
  fix x :: index_definition and c and m h :: memory
  assume "owns_definition x c m" and "m \<subseteq>\<^sub>m h"
  then show "read_c_definition h c = Some (seen_definition x)"
    using three_read by (fastforce simp: owns_definition_def read_c_definition_def seen_definition_def)
next
  fix x :: index_definition and c and m h :: memory
  assume "owns_definition x c m" and "dom m \<inter> dom h = {}"
  then show "free_definition c (h ++ m) = Some h"
    unfolding owns_definition_def free_definition_def by (intro three_freed) auto
qed simp

definition seen_reference :: "index_reference \<Rightarrow> index_reference" where
  "seen_reference r =
     r\<lparr>ir_symbol := c_str (ir_symbol r), ir_fromUri := c_str (ir_fromUri r), ir_toUri := c_str (ir_toUri r)\<rparr>"

definition owns_reference :: "index_reference \<Rightarrow> c_reference \<Rightarrow> memory \<Rightarrow> bool" where
  "owns_reference r c m \<longleftrightarrow>
     xr_from_range c = ir_fromRange r \<and> xr_to_range c = ir_toRange r
     \<and> owns_three (ir_fromUri r) (ir_toUri r) (ir_symbol r) (xr_from c) (xr_to c) (xr_symbol c) m"

interpretation references: c_struct References references_in store_reference read_c_reference free_reference
  owns_reference seen_reference "\<lambda>_. True"
proof
  fix al :: "memory \<Rightarrow> ptr" and h h' :: memory and x :: index_reference and c
  assume "allocator al" and "finite (dom h)" and "store_reference al x h = (c, h')"
  then show "\<exists>m. grown h m h' \<and> owns_reference x c m"
    using three_stored [of al h "ir_fromUri x" _ _ "ir_toUri x" _ _ "ir_symbol x"]
    by (auto simp: store_reference_def owns_reference_def split: prod.splits)
next
  fix x :: index_reference and c and m h :: memory
  assume "owns_reference x c m" and "m \<subseteq>\<^sub>m h"
  then show "read_c_reference h c = Some (seen_reference x)"
    using three_read by (fastforce simp: owns_reference_def read_c_reference_def seen_reference_def)
next
  fix x :: index_reference and c and m h :: memory
  assume "owns_reference x c m" and "dom m \<inter> dom h = {}"
  then show "free_reference c (h ++ m) = Some h"
    unfolding owns_reference_def free_reference_def by (intro three_freed) auto
qed simp

text \<open>
  A symbol with its children, for as many levels as the fuel has. \<open>small_symbol\<close>: it has no more levels, and nowhere more
  children than an \<^verbatim>\<open>int32_t\<close> counts.
\<close>

fun small_symbol :: "nat \<Rightarrow> doc_symbol \<Rightarrow> bool" where
  "small_symbol 0 s \<longleftrightarrow> False"
| "small_symbol (Suc n) (DocSymbol name d k r sel cs) \<longleftrightarrow> length cs < 2 ^ 31 \<and> (\<forall>c \<in> set cs. small_symbol n c)"

fun owns_symbol :: "nat \<Rightarrow> doc_symbol \<Rightarrow> c_document_symbol \<Rightarrow> memory \<Rightarrow> bool" where
  "owns_symbol 0 s c m \<longleftrightarrow> False"
| "owns_symbol (Suc n) (DocSymbol name d k r sel cs) c m \<longleftrightarrow>
     cd_kind c = k \<and> cd_range c = r \<and> cd_selection c = sel \<and> cd_name c \<noteq> 0 \<and> cd_detail c \<noteq> 0 \<and> cd_name c \<noteq> cd_detail c
     \<and> (\<exists>m'. owns_array DocumentSymbols (owns_symbol n) cs (cd_children c, cd_count c) m'
            \<and> m' (cd_name c) = None \<and> m' (cd_detail c) = None
            \<and> m = [cd_name c \<mapsto> chars name, cd_detail c \<mapsto> chars d] ++ m')"

lemma symbol_contract:
  "c_struct DocumentSymbols document_symbols_in store_document_symbol (read_document_symbol n) (freeDocumentSymbol n)
     (owns_symbol n) convertDocumentSymbol (small_symbol n)"
proof (induction n)
  case 0
  show ?case by unfold_locales simp_all
next
  case (Suc n)
  show ?case
  proof
    fix al :: "memory \<Rightarrow> ptr" and h h' :: memory and x c
    assume al: "allocator al" and fin: "finite (dom h)" and small: "small_symbol (Suc n) x"
      and run: "store_document_symbol al x h = (c, h')"
    obtain name d k r sel cs where x: "x = DocSymbol name d k r sel cs" by (cases x)
    obtain p h1 where p: "duplicateString al name h = (p, h1)" by force
    obtain q h2 where q: "duplicateString al d h1 = (q, h2)" by force
    obtain a where a: "new_array al DocumentSymbols (store_document_symbol al) cs h2 = (a, h')"
      and c: "c = \<lparr>cd_name = p, cd_detail = q, cd_kind = k, cd_range = r, cd_selection = sel, cd_children = fst a,
                   cd_count = snd a\<rparr>"
      using run p q x by (auto split: prod.splits)
    have g1: "grown h [p \<mapsto> chars name] h1" "p \<noteq> 0" using duplicate_grown [OF al fin p] by auto
    have f1: "finite (dom h1)" by (rule grown_finite [OF g1(1) fin])
    have g2: "grown h1 [q \<mapsto> chars d] h2" "q \<noteq> 0" using duplicate_grown [OF al f1 q] by auto
    have g12: "grown h ([p \<mapsto> chars name] ++ [q \<mapsto> chars d]) h2" "p \<noteq> q" using grown_trans [OF g1(1) g2(1)] by auto
    obtain m where m: "grown h2 m h'" "owns_array DocumentSymbols (owns_symbol n) cs a m"
      using c_struct.array_stored [OF Suc.IH al grown_finite [OF g2(1) f1] _ _ a] small x by auto
    have all: "grown h ([p \<mapsto> chars name, q \<mapsto> chars d] ++ m) h'" "m p = None" "m q = None"
      using grown_trans [OF g12(1) m(1)] by auto
    then show "\<exists>m. grown h m h' \<and> owns_symbol (Suc n) x c m" using g1(2) g2(2) g12(2) m(2) by (auto simp: x c)
  next
    fix x c and m h :: memory
    assume own: "owns_symbol (Suc n) x c m" and sub: "m \<subseteq>\<^sub>m h"
    obtain name d k r sel cs where x: "x = DocSymbol name d k r sel cs" by (cases x)
    obtain m' where m': "owns_array DocumentSymbols (owns_symbol n) cs (cd_children c, cd_count c) m'"
      "m' (cd_name c) = None" "m' (cd_detail c) = None" "m = [cd_name c \<mapsto> chars name, cd_detail c \<mapsto> chars d] ++ m'"
      using own by (auto simp: x)
    have ptrs: "cd_name c \<noteq> 0" "cd_detail c \<noteq> 0" "cd_name c \<noteq> cd_detail c" using own by (auto simp: x)
    have "m (cd_name c) = Some (chars name)" "m (cd_detail c) = Some (chars d)"
      using ptrs m'(2-4) by (simp_all add: map_add_def)
    then have "h (cd_name c) = Some (chars name)" "h (cd_detail c) = Some (chars d)"
      using sub by (metis domI map_le_def)+
    then have "chars_at h (cd_name c) = Some (c_str name)" "chars_at h (cd_detail c) = Some (c_str d)"
      using ptrs chars_read by auto
    moreover have "m' \<subseteq>\<^sub>m h" using sub m'(4) map_le_map_add map_le_trans by blast
    then have "read_array document_symbols_in (read_document_symbol n) (cd_children c, cd_count c) h
        = Some (map convertDocumentSymbol cs)"
      by (rule c_struct.array_looked [OF Suc.IH m'(1)])
    ultimately show "read_document_symbol (Suc n) h c = Some (convertDocumentSymbol x)" using own by (simp add: x)
  next
    fix x c and m h :: memory
    assume own: "owns_symbol (Suc n) x c m" and apart: "dom m \<inter> dom h = {}"
    obtain name d k r sel cs where x: "x = DocSymbol name d k r sel cs" by (cases x)
    obtain m' where m': "owns_array DocumentSymbols (owns_symbol n) cs (cd_children c, cd_count c) m'"
      "m' (cd_name c) = None" "m' (cd_detail c) = None" "m = [cd_name c \<mapsto> chars name, cd_detail c \<mapsto> chars d] ++ m'"
      using own by (auto simp: x)
    have ptrs: "cd_name c \<noteq> 0" "cd_detail c \<noteq> 0" "cd_name c \<noteq> cd_detail c" using own by (auto simp: x)
    have free: "h (cd_name c) = None" "h (cd_detail c) = None" "dom m' \<inter> dom h = {}" using apart m'(4) by auto
    have "Option.bind (delete_block (cd_name c) (h ++ m)) (delete_block (cd_detail c)) = Some (h ++ m')"
      using ptrs free m'(2-4) by (auto simp: delete_block_def map_add_def fun_eq_iff split: option.split)
    then show "freeDocumentSymbol (Suc n) c (h ++ m) = Some h"
      using c_struct.array_freed [OF Suc.IH m'(1) free(3)] by (auto simp: bind_eq_Some_conv)
  qed simp
qed

interpretation document_symbols: c_struct DocumentSymbols document_symbols_in store_document_symbol
  "read_document_symbol n" "freeDocumentSymbol n" "owns_symbol n" convertDocumentSymbol "small_symbol n" for n
  by (rule symbol_contract)

section \<open>Answers cross the C API whole\<close>

lemma hover_read_freed:
  assumes "allocator al" and "finite (dom h)" and "store_hover al ho h = (c, h')"
  shows "(if fst c = 0 then ho = None else chars_at h' (fst c) = map_option (c_str \<circ> ho_contents) ho) \<and> grc_free_hover c h' = Some h"
proof (cases ho)
  case None
  then show ?thesis using assms(3) by (auto simp: store_hover_def grc_free_hover_def delete_block_def)
next
  case (Some x)
  obtain p where p: "duplicateString al (ho_contents x) h = (p, h')" "c = (p, ho_range x)"
    using assms(3) Some by (auto simp: store_hover_def split: prod.splits)
  have g: "grown h [p \<mapsto> chars (ho_contents x)] h'" "p \<noteq> 0" "h p = None" using duplicate_grown [OF assms(1,2) p(1)] by auto
  then have "h' p = Some (chars (ho_contents x))" by (simp add: grown_def)
  then show ?thesis using g Some p(2) chars_read delete_grown [where h = h, OF g(3,2)] by (simp add: grc_free_hover_def grown_def)
qed

lemma folding_ranges_freed:
  assumes "allocator al" and "finite (dom h)" and "length fs < 2 ^ 31" and "convertFoldingRanges al garbage fs h = (a, h')"
  shows "read_array folding_ranges_in (\<lambda>_. Some) a h' = Some (map (\<lambda>(i, f). convert_folding (garbage i) f) (enumerate 0 fs))
    \<and> grc_free_folding_ranges a h' = Some h"
proof -
  let ?b = "FoldingRanges (map (\<lambda>(i, f). convert_folding (garbage i) f) (enumerate 0 fs))"
  obtain p where p: "new_block al ?b h = (p, h')" "a = (p, to_int32 (int (length fs)))"
    using assms(4) by (auto simp: convertFoldingRanges_def split: prod.splits)
  have g: "grown h [p \<mapsto> ?b] h'" "p \<noteq> 0" "h p = None" using new_block_grown [OF assms(1,2) p(1)] by auto
  have "those (map Some xs) = Some xs" for xs :: "(int \<times> int \<times> bool \<times> int) list" by (induction xs) simp_all
  then have "those (map (Some \<circ> f) xs) = Some (map f xs)" for f :: "nat \<times> lsp_folding \<Rightarrow> int \<times> int \<times> bool \<times> int" and xs
    by (metis map_map)
  moreover have "h' p = Some ?b" using g(1) by (simp add: grown_def)
  ultimately have "read_array folding_ranges_in (\<lambda>_. Some) a h'
      = Some (map (\<lambda>(i, f). convert_folding (garbage i) f) (enumerate 0 fs))"
    using g(2) p(2) assms(3) to_int32_small [of "int (length fs)"] by (simp add: read_array_def)
  then show ?thesis using g p(2) delete_grown [where h = h, OF g(3,2)] by (simp add: grc_free_folding_ranges_def grown_def)
qed

text \<open>
  C27. An outline that the core library hands out through its C API is read by the agent as the value the handler was
  modelled with, at every level of its children, and giving it back with \<^verbatim>\<open>grc_free_document_symbols\<close> frees exactly what was
  allocated for it: nothing is freed twice, nothing else is touched, nothing stays behind. Wherever the allocator puts
  blocks; as long as no array has more elements than an \<^verbatim>\<open>int32_t\<close> counts.
\<close>

theorem outline_read_and_freed:
  assumes "allocator al" and "finite (dom h)" and "\<forall>s \<in> set ss. small_symbol n s" and "length ss < 2 ^ 31"
    and "convertDocumentSymbols al ss h = (a, h')"
  shows "read_array document_symbols_in (read_document_symbol n) a h' = Some (map convertDocumentSymbol ss)
    \<and> grc_free_document_symbols n a h' = Some h"
  using document_symbols.copied_read_freed [OF assms(1-4)] assms(5)
  by (simp add: convertDocumentSymbols_def grc_free_document_symbols_def)

text \<open>An allocator that can be computed with: the first address above those in use.\<close>

definition next_free :: "memory \<Rightarrow> ptr" where
  "next_free h = (if dom h = {} then 1 else Suc (Max (dom h)))"

lemma next_free_allocates: "allocator next_free"
proof -
  have "h (next_free h) = None \<and> next_free h \<noteq> 0" if "finite (dom h)" for h :: memory
  proof (cases "dom h = {}")
    case False
    have "Suc (Max (dom h)) \<notin> dom h" using Max_ge [OF that] by fastforce
    then show ?thesis using False by (auto simp: next_free_def)
  qed (simp add: next_free_def)
  then show ?thesis by (simp add: allocator_def)
qed

definition demo_outline :: "doc_symbol list" where
  "demo_outline =
     [DocSymbol ''C'' [] 5 no_range no_range [DocSymbol ''m'' ''()'' 6 no_range no_range []], DocSymbol ''f'' [] 12 no_range no_range []]"

lemma outline_read_and_freed_witness:
  "\<exists>a h'. convertDocumentSymbols next_free demo_outline Map.empty = (a, h')
     \<and> read_array document_symbols_in (read_document_symbol 2) a h' = Some demo_outline
     \<and> grc_free_document_symbols 2 a h' = Some Map.empty"
proof -
  obtain a h' where run: "convertDocumentSymbols next_free demo_outline Map.empty = (a, h')" by (meson surj_pair)
  have "\<forall>s \<in> set demo_outline. small_symbol (Suc (Suc 0)) s" by (simp add: demo_outline_def)
  then have "\<forall>s \<in> set demo_outline. small_symbol 2 s" by (simp add: numeral_2_eq_2)
  moreover have "map convertDocumentSymbol demo_outline = demo_outline" by (simp add: demo_outline_def c_str_def)
  ultimately show ?thesis
    using outline_read_and_freed [OF next_free_allocates _ _ _ run, of 2] run by (simp add: demo_outline_def)
qed

text \<open>
  The same for the flat answers: locations, symbols of the workspace, and the definitions and references of an index.
\<close>

theorem answers_read_and_freed:
  assumes "allocator al" and "finite (dom h)" and "length ls < 2 ^ 31" and "length ss < 2 ^ 31" and "length ds < 2 ^ 31"
    and "length rs < 2 ^ 31"
  shows "(let (a, h') = convertLocations al ls h
          in read_array locations_in read_c_location a h' = Some (map convert_location ls) \<and> grc_free_locations a h' = Some h)
    \<and> (let (a, h') = convertSymbolInformation al ss h
       in read_array symbol_informations_in read_symbol_information a h' = Some (map convert_symbol_information ss)
          \<and> grc_free_symbol_information a h' = Some h)
    \<and> (let (a, h') = new_array al Definitions (store_definition al) ds h
       in read_array definitions_in read_c_definition a h' = Some (map seen_definition ds)
          \<and> grc_free_index_definitions a h' = Some h)
    \<and> (let (a, h') = new_array al References (store_reference al) rs h
       in read_array references_in read_c_reference a h' = Some (map seen_reference rs)
          \<and> grc_free_index_references a h' = Some h)"
  using locations.copied_read_freed [OF assms(1,2) _ assms(3)] symbol_informations.copied_read_freed [OF assms(1,2) _ assms(4)]
    definitions.copied_read_freed [OF assms(1,2) _ assms(5)] references.copied_read_freed [OF assms(1,2) _ assms(6)]
  by (simp add: convertLocations_def convertSymbolInformation_def grc_free_locations_def grc_free_symbol_information_def
      grc_free_index_definitions_def grc_free_index_references_def split: prod.split)

lemma answers_read_and_freed_witness:
  "let (a, h') = convertLocations next_free [(''file:///x'', no_range)] Map.empty
   in read_array locations_in read_c_location a h' = Some [(''file:///x'', no_range)] \<and> grc_free_locations a h' = Some Map.empty"
  using answers_read_and_freed [OF next_free_allocates, of Map.empty "[(''file:///x'', no_range)]" "[]" "[]" "[]"]
  by (simp add: convert_location_def)

end
