(* ===== verification/CoreApi.thy ===== *)
theory CoreApi
  imports CMemory IndexReg
begin

text \<open>
  The rest of the C API of the core library (\<^verbatim>\<open>src/core/src/GitReviewCore.cpp\<close>): the calls on a cache and on an indexer,
  with the getters of \<^verbatim>\<open>Indexer.cpp\<close> behind them, the asynchronous variants of the queries, and the names of symbol
  kinds. A handle is \<open>None\<close> when it is the null pointer, and so is a string.
\<close>

section \<open>Caches\<close>

definition or_no_text :: "string option \<Rightarrow> string" where
  "or_no_text s = (case s of Some t \<Rightarrow> c_str t | None \<Rightarrow> [])"

text \<open>\<open>opened\<close> is the constructor of the cache class: nothing when it throws, else a cache whose database may not be open.\<close>

definition grc_cache_create :: "(string \<Rightarrow> query_cache option) \<Rightarrow> string option \<Rightarrow> int + query_cache" where
  "grc_cache_create opened path =
     (case path of
        None \<Rightarrow> Inl 1
      | Some p \<Rightarrow>
          (case opened (c_str p) of
             None \<Rightarrow> Inl 7
           | Some c \<Rightarrow> (if lc_open (qc_index c) then Inr c else Inl 8)))"

definition grc_cache_set_git_sha :: "string option \<Rightarrow> query_cache option \<Rightarrow> query_cache option" where
  "grc_cache_set_git_sha sha c = map_option (setCurrentGitSha (or_no_text sha)) c"

definition grc_cache_is_valid :: "string option \<Rightarrow> query_cache option \<Rightarrow> bool" where
  "grc_cache_is_valid path c = (case c of Some q \<Rightarrow> isCacheValid (or_no_text path) q | None \<Rightarrow> False)"

definition grc_cache_invalidate_file :: "string option \<Rightarrow> query_cache option \<Rightarrow> query_cache option" where
  "grc_cache_invalidate_file path c = map_option (invalidateFile (or_no_text path)) c"

definition grc_cache_clear_all :: "query_cache option \<Rightarrow> query_cache option" where
  "grc_cache_clear_all c = map_option clearAll c"

definition grc_cache_get_stats :: "int \<Rightarrow> int \<Rightarrow> query_cache option \<Rightarrow> cache_stats" where
  "grc_cache_get_stats pages page_size c =
     (case c of
        Some q \<Rightarrow> getStats pages page_size q
      | None \<Rightarrow> \<lparr>st_definitions = 0, st_references = 0, st_hovers = 0, st_symbols = 0, st_size = 0\<rparr>)"

definition grc_cache_prune :: "int \<Rightarrow> int \<Rightarrow> query_cache option \<Rightarrow> int \<times> query_cache option" where
  "grc_cache_prune now days c =
     (case c of Some q \<Rightarrow> (case pruneOlderThan now days q of (n, q') \<Rightarrow> (n, Some q')) | None \<Rightarrow> (0, None))"

text \<open>A cache that was created is open and reports success; no call on it but \<^verbatim>\<open>clear_all\<close> touches the index tables.\<close>

lemma cache_created_open: "grc_cache_create opened path = Inr c \<Longrightarrow> lc_open (qc_index c)"
  by (auto simp: grc_cache_create_def split: option.splits if_splits)

lemma cache_calls_keep_index:
  assumes "c' \<in> {grc_cache_invalidate_file path (Some c), snd (grc_cache_prune now days (Some c))}"
  shows "\<exists>d. c' = Some d \<and> qc_index d = qc_index c"
  using assms by (auto simp: grc_cache_invalidate_file_def grc_cache_prune_def invalidateFile_def pruneOlderThan_def Let_def)

section \<open>Names\<close>

definition symbol_kind_names :: "string list" where
  "symbol_kind_names =
     [''file'', ''module'', ''namespace'', ''package'', ''class'', ''method'', ''property'', ''field'', ''constructor'',
      ''enum'', ''interface'', ''function'', ''variable'', ''constant'', ''string'', ''number'', ''boolean'', ''array'',
      ''object'', ''key'', ''null'', ''enumMember'', ''struct'', ''event'', ''operator'', ''typeParameter'']"

definition grc_symbol_kind_name :: "int \<Rightarrow> string" where
  "grc_symbol_kind_name k = (if 1 \<le> k \<and> k \<le> 26 then symbol_kind_names ! nat (k - 1) else ''unknown'')"

lemma symbol_kind_names_differ:
  assumes "1 \<le> j" and "j \<le> 26" and "grc_symbol_kind_name j = grc_symbol_kind_name k"
  shows "j = k"
proof -
  have u: "''unknown'' \<notin> set symbol_kind_names" and d: "distinct symbol_kind_names" and l: "length symbol_kind_names = 26"
    by (simp_all add: symbol_kind_names_def)
  have k: "1 \<le> k \<and> k \<le> 26"
  proof (rule ccontr)
    assume "\<not> (1 \<le> k \<and> k \<le> 26)"
    then have "grc_symbol_kind_name k = ''unknown''" by (auto simp: grc_symbol_kind_name_def)
    then have "symbol_kind_names ! nat (j - 1) = ''unknown''" using assms by (simp add: grc_symbol_kind_name_def)
    moreover have "nat (j - 1) < length symbol_kind_names" using l assms(1,2) by linarith
    ultimately show False using u nth_mem [of "nat (j - 1)" symbol_kind_names] by metis
  qed
  then have "symbol_kind_names ! nat (j - 1) = symbol_kind_names ! nat (k - 1)" using assms by (simp add: grc_symbol_kind_name_def)
  moreover have "nat (j - 1) < length symbol_kind_names" "nat (k - 1) < length symbol_kind_names"
    using l k assms(1,2) by linarith+
  ultimately have "nat (j - 1) = nat (k - 1)" using nth_eq_iff_index_eq [OF d] by blast
  then show ?thesis using k assms(1) by linarith
qed

section \<open>Indexers\<close>

text \<open>What an \<^verbatim>\<open>Indexer\<close> was made with, and the patterns it goes by.\<close>

record index_job =
  ij_workspace :: string
  ij_language :: int
  ij_includes :: "string list"
  ij_excludes :: "string list"
  ij_indexer :: indexer
  ij_cancelled :: bool

definition new_index_job :: "string \<Rightarrow> int \<Rightarrow> lsp_cache option \<Rightarrow> index_job" where
  "new_index_job ws lang cache =
     \<lparr>ij_workspace = ws, ij_language = lang, ij_includes = default_includes, ij_excludes = default_excludes,
      ij_indexer = new_indexer cache, ij_cancelled = False\<rparr>"

definition setIncludePatterns :: "string list \<Rightarrow> index_job \<Rightarrow> index_job" where
  "setIncludePatterns ps j = j\<lparr>ij_includes := ps\<rparr>"

definition setExcludePatterns :: "string list \<Rightarrow> index_job \<Rightarrow> index_job" where
  "setExcludePatterns ps j = j\<lparr>ij_excludes := ps\<rparr>"

definition isRunning :: "index_job \<Rightarrow> bool" where
  "isRunning j = ix_running (ij_indexer j)"

definition cancel_index :: "index_job \<Rightarrow> index_job" where
  "cancel_index j = j\<lparr>ij_cancelled := True\<rparr>"

definition getDefinitions :: "index_job \<Rightarrow> index_definition list" where
  "getDefinitions j = ix_definitions (ij_indexer j)"

definition getReferences :: "index_job \<Rightarrow> index_reference list" where
  "getReferences j = ix_references (ij_indexer j)"

definition getFileDefinitions :: "string \<Rightarrow> index_job \<Rightarrow> index_definition list" where
  "getFileDefinitions uri j = filter (\<lambda>d. id_uri d = uri) (ix_definitions (ij_indexer j))"

definition getFileReferences :: "string \<Rightarrow> index_job \<Rightarrow> index_reference list" where
  "getFileReferences uri j = filter (\<lambda>r. ir_fromUri r = uri) (ix_references (ij_indexer j))"

definition getReferencesToFile :: "string \<Rightarrow> index_job \<Rightarrow> index_reference list" where
  "getReferencesToFile uri j = filter (\<lambda>r. ir_toUri r = uri) (ix_references (ij_indexer j))"

text \<open>
  A run on the workspace's files: the earlier cancellation is cleared, unless a run is under way, and the patterns decide
  which files there are. \<open>listing\<close> is what is below the workspace, \<open>cancelled\<close> what the looks at the flag find.
\<close>

definition run_index_job ::
  "(bool \<Rightarrow> string \<Rightarrow> string \<Rightarrow> bool) \<Rightarrow> (string \<times> string) list \<Rightarrow> (nat \<Rightarrow> bool) \<Rightarrow> lsp_server \<Rightarrow> (string \<Rightarrow> string)
    \<Rightarrow> (string \<Rightarrow> int \<Rightarrow> int \<Rightarrow> 'c \<Rightarrow> bool \<times> 'c) \<Rightarrow> 'c \<Rightarrow> index_job \<Rightarrow> index_result \<times> 'c \<times> index_job" where
  "run_index_job fnm listing cancelled ls content cb c j =
     (let (r, c', ix) = index_run cancelled ls content cb (collectFiles fnm (ij_includes j) (ij_excludes j) listing) c (ij_indexer j)
      in (r, c', j\<lparr>ij_indexer := ix, ij_cancelled := isRunning j \<and> ij_cancelled j\<rparr>))"

text \<open>
  \<^verbatim>\<open>runAsync\<close> is refused while an indexer runs; else a thread runs it. The list is the calls of the completion callback:
  the error, and the three counts. \<open>j'\<close> is the indexer as the thread finds it.
\<close>

definition completion :: "index_result \<Rightarrow> index_error option \<times> int \<times> int \<times> int" where
  "completion r = (xr_error r, xr_filesIndexed r, xr_definitionsFound r, xr_referencesFound r)"

definition runAsync ::
  "(bool \<Rightarrow> string \<Rightarrow> string \<Rightarrow> bool) \<Rightarrow> (string \<times> string) list \<Rightarrow> (nat \<Rightarrow> bool) \<Rightarrow> lsp_server \<Rightarrow> (string \<Rightarrow> string)
    \<Rightarrow> (string \<Rightarrow> int \<Rightarrow> int \<Rightarrow> 'c \<Rightarrow> bool \<times> 'c) \<Rightarrow> bool \<Rightarrow> 'c \<Rightarrow> index_job \<Rightarrow> index_job
    \<Rightarrow> (index_error option \<times> int \<times> int \<times> int) list \<times> 'c \<times> index_job" where
  "runAsync fnm listing cancelled ls content cb wants c j j' =
     (if isRunning j then ((if wants then [(Some AlreadyRunning, 0, 0, 0)] else []), c, j')
      else let (r, c', j'') = run_index_job fnm listing cancelled ls content cb c j'
           in ((if wants then [completion r] else []), c', j''))"

section \<open>The calls on an indexer\<close>

definition grc_indexer_create :: "bool \<Rightarrow> string option \<Rightarrow> int \<Rightarrow> lsp_cache option \<Rightarrow> int + index_job" where
  "grc_indexer_create throws ws lang cache =
     (case ws of None \<Rightarrow> Inl 1 | Some p \<Rightarrow> (if throws then Inl 7 else Inr (new_index_job (c_str p) lang cache)))"

definition grc_indexer_set_include_patterns :: "string list option \<Rightarrow> index_job option \<Rightarrow> index_job option" where
  "grc_indexer_set_include_patterns ps j =
     (case ps of None \<Rightarrow> j | Some l \<Rightarrow> map_option (setIncludePatterns (map c_str l)) j)"

definition grc_indexer_set_exclude_patterns :: "string list option \<Rightarrow> index_job option \<Rightarrow> index_job option" where
  "grc_indexer_set_exclude_patterns ps j =
     (case ps of None \<Rightarrow> j | Some l \<Rightarrow> map_option (setExcludePatterns (map c_str l)) j)"

definition grc_indexer_cancel :: "index_job option \<Rightarrow> index_job option" where
  "grc_indexer_cancel j = map_option cancel_index j"

definition grc_indexer_is_running :: "index_job option \<Rightarrow> bool" where
  "grc_indexer_is_running j = (case j of Some x \<Rightarrow> isRunning x | None \<Rightarrow> False)"

text \<open>The error number of a failed run: \<open>start_error\<close> is that of the language server's start.\<close>

definition index_error_number :: "int \<Rightarrow> index_error option \<Rightarrow> int" where
  "index_error_number start_error e = (case e of None \<Rightarrow> 0 | Some AlreadyRunning \<Rightarrow> 5 | Some ServerFailed \<Rightarrow> start_error)"

text \<open>Without a progress callback a run goes on. The path is read from C up to a NUL.\<close>

definition wrapped_progress :: "(string \<Rightarrow> int \<Rightarrow> int \<Rightarrow> 'c \<Rightarrow> bool \<times> 'c) option \<Rightarrow> string \<Rightarrow> int \<Rightarrow> int \<Rightarrow> 'c \<Rightarrow> bool \<times> 'c" where
  "wrapped_progress cb path current total' c =
     (case cb of None \<Rightarrow> (True, c) | Some f \<Rightarrow> f (c_str path) current total' c)"

definition grc_indexer_run ::
  "(bool \<Rightarrow> string \<Rightarrow> string \<Rightarrow> bool) \<Rightarrow> (string \<times> string) list \<Rightarrow> (nat \<Rightarrow> bool) \<Rightarrow> lsp_server \<Rightarrow> (string \<Rightarrow> string) \<Rightarrow> int
    \<Rightarrow> (string \<Rightarrow> int \<Rightarrow> int \<Rightarrow> 'c \<Rightarrow> bool \<times> 'c) option \<Rightarrow> 'c \<Rightarrow> index_job option
    \<Rightarrow> int \<times> (int \<times> int \<times> int) option \<times> 'c \<times> index_job option" where
  "grc_indexer_run fnm listing cancelled ls content start_error cb c j =
     (case j of
        None \<Rightarrow> (1, None, c, None)
      | Some x \<Rightarrow>
          (let (r, c', x') = run_index_job fnm listing cancelled ls content (wrapped_progress cb) c x
           in (index_error_number start_error (xr_error r),
               Some (xr_filesIndexed r, xr_definitionsFound r, xr_referencesFound r), c', Some x')))"

definition grc_indexer_run_async ::
  "(bool \<Rightarrow> string \<Rightarrow> string \<Rightarrow> bool) \<Rightarrow> (string \<times> string) list \<Rightarrow> (nat \<Rightarrow> bool) \<Rightarrow> lsp_server \<Rightarrow> (string \<Rightarrow> string) \<Rightarrow> int
    \<Rightarrow> (string \<Rightarrow> int \<Rightarrow> int \<Rightarrow> 'c \<Rightarrow> bool \<times> 'c) option \<Rightarrow> bool \<Rightarrow> 'c \<Rightarrow> index_job option \<Rightarrow> index_job
    \<Rightarrow> (int \<times> int \<times> int \<times> int) list \<times> 'c \<times> index_job option" where
  "grc_indexer_run_async fnm listing cancelled ls content start_error cb wants c j j' =
     (case j of
        None \<Rightarrow> ((if wants then [(1, 0, 0, 0)] else []), c, None)
      | Some x \<Rightarrow>
          (let (calls, c', x') = runAsync fnm listing cancelled ls content (wrapped_progress cb) wants c x j'
           in (map (\<lambda>(e, counts). (index_error_number start_error e, counts)) calls, c', Some x')))"

text \<open>The getters copy into memory; \<open>out\<close> says whether there is somewhere to put the array.\<close>

definition copy_definitions ::
  "(memory \<Rightarrow> ptr) \<Rightarrow> index_definition list \<Rightarrow> memory \<Rightarrow> int \<times> (ptr \<times> int) option \<times> memory" where
  "copy_definitions al ds h = (let (a, h') = new_array al Definitions (store_definition al) ds h in (0, Some a, h'))"

definition copy_references ::
  "(memory \<Rightarrow> ptr) \<Rightarrow> index_reference list \<Rightarrow> memory \<Rightarrow> int \<times> (ptr \<times> int) option \<times> memory" where
  "copy_references al rs h = (let (a, h') = new_array al References (store_reference al) rs h in (0, Some a, h'))"

definition grc_indexer_get_definitions ::
  "(memory \<Rightarrow> ptr) \<Rightarrow> index_job option \<Rightarrow> bool \<Rightarrow> memory \<Rightarrow> int \<times> (ptr \<times> int) option \<times> memory" where
  "grc_indexer_get_definitions al j out h =
     (case j of Some x \<Rightarrow> (if out then copy_definitions al (getDefinitions x) h else (1, None, h)) | None \<Rightarrow> (1, None, h))"

definition grc_indexer_get_references ::
  "(memory \<Rightarrow> ptr) \<Rightarrow> index_job option \<Rightarrow> bool \<Rightarrow> memory \<Rightarrow> int \<times> (ptr \<times> int) option \<times> memory" where
  "grc_indexer_get_references al j out h =
     (case j of Some x \<Rightarrow> (if out then copy_references al (getReferences x) h else (1, None, h)) | None \<Rightarrow> (1, None, h))"

definition grc_indexer_get_file_definitions ::
  "(memory \<Rightarrow> ptr) \<Rightarrow> index_job option \<Rightarrow> string option \<Rightarrow> bool \<Rightarrow> memory \<Rightarrow> int \<times> (ptr \<times> int) option \<times> memory" where
  "grc_indexer_get_file_definitions al j uri out h =
     (case (j, uri) of
        (Some x, Some u) \<Rightarrow> (if out then copy_definitions al (getFileDefinitions (c_str u) x) h else (1, None, h))
      | _ \<Rightarrow> (1, None, h))"

definition grc_indexer_get_file_references ::
  "(memory \<Rightarrow> ptr) \<Rightarrow> index_job option \<Rightarrow> string option \<Rightarrow> bool \<Rightarrow> memory \<Rightarrow> int \<times> (ptr \<times> int) option \<times> memory" where
  "grc_indexer_get_file_references al j uri out h =
     (case (j, uri) of
        (Some x, Some u) \<Rightarrow> (if out then copy_references al (getFileReferences (c_str u) x) h else (1, None, h))
      | _ \<Rightarrow> (1, None, h))"

definition grc_indexer_get_references_to_file ::
  "(memory \<Rightarrow> ptr) \<Rightarrow> index_job option \<Rightarrow> string option \<Rightarrow> bool \<Rightarrow> memory \<Rightarrow> int \<times> (ptr \<times> int) option \<times> memory" where
  "grc_indexer_get_references_to_file al j uri out h =
     (case (j, uri) of
        (Some x, Some u) \<Rightarrow> (if out then copy_references al (getReferencesToFile (c_str u) x) h else (1, None, h))
      | _ \<Rightarrow> (1, None, h))"

section \<open>Asynchronous queries\<close>

text \<open>
  The client's own variants: refused when it is not ready, else the query on a thread, whose outcome is handed to a
  callback. \<open>c'\<close> is the client as that thread finds it.
\<close>

definition async_refusal :: lsp_error where
  "async_refusal = \<lparr>le_code = not_initialized, le_message = ''Not initialized''\<rparr>"

definition gotoDefinitionAsync ::
  "'w lsp_env \<Rightarrow> string \<Rightarrow> position \<Rightarrow> lsp_client \<Rightarrow> lsp_client \<Rightarrow> (lsp_client \<times> lsp_error \<times> location list) option" where
  "gotoDefinitionAsync env uri pos c c' =
     (if \<not> is_ready c then Some (c', async_refusal, [])
      else map_option finish_query
             (gotoDefinition (en_lib env) (en_server env) (en_now env) (en_first env) (en_second env) (en_start env) uri pos c'))"

definition findReferencesAsync ::
  "'w lsp_env \<Rightarrow> string \<Rightarrow> position \<Rightarrow> bool \<Rightarrow> lsp_client \<Rightarrow> lsp_client \<Rightarrow> (lsp_client \<times> lsp_error \<times> location list) option" where
  "findReferencesAsync env uri pos incl c c' =
     (if \<not> is_ready c then Some (c', async_refusal, [])
      else map_option finish_query
             (findReferences (en_lib env) (en_server env) (en_now env) (en_first env) (en_second env) (en_start env) uri pos
               incl c'))"

definition hoverAsync ::
  "'w lsp_env \<Rightarrow> string \<Rightarrow> position \<Rightarrow> lsp_client \<Rightarrow> lsp_client \<Rightarrow> (lsp_client \<times> lsp_error \<times> lsp_hover option) option" where
  "hoverAsync env uri pos c c' =
     (if \<not> is_ready c then Some (c', async_refusal, None)
      else map_option finish_query
             (hover_query (en_lib env) (en_server env) (en_now env) (en_first env) (en_second env) (en_start env) uri pos c'))"

definition documentSymbolsAsync ::
  "'w lsp_env \<Rightarrow> string \<Rightarrow> lsp_client \<Rightarrow> lsp_client \<Rightarrow> (lsp_client \<times> lsp_error \<times> doc_symbol list) option" where
  "documentSymbolsAsync env uri c c' =
     (if \<not> is_ready c then Some (c', async_refusal, [])
      else map_option finish_query
             (documentSymbols (en_lib env) (en_server env) (en_now env) (en_first env) (en_second env) (en_start env) uri c'))"

definition workspaceSymbolsAsync ::
  "'w lsp_env \<Rightarrow> string \<Rightarrow> lsp_client \<Rightarrow> lsp_client \<Rightarrow> (lsp_client \<times> lsp_error \<times> symbol_info list) option" where
  "workspaceSymbolsAsync env query c c' =
     (if \<not> is_ready c then Some (c', async_refusal, [])
      else map_option finish_query
             (workspaceSymbols (en_lib env) (en_server env) (en_now env) (en_first env) (en_second env) (en_start env) query c'))"

definition foldingRangeAsync ::
  "'w lsp_env \<Rightarrow> string \<Rightarrow> lsp_client \<Rightarrow> lsp_client \<Rightarrow> (lsp_client \<times> lsp_error \<times> lsp_folding list) option" where
  "foldingRangeAsync env uri c c' =
     (if \<not> is_ready c then Some (c', async_refusal, [])
      else Some (foldings_query (en_lib env) (en_server env 0) (en_now env) uri c'))"

text \<open>
  What the C callback is given: the error alone, or a new structure with the array in it. The calls of the callback, the
  client and the memory after them; nothing when the query does not end.
\<close>

definition array_callback ::
  "(memory \<Rightarrow> ptr) \<Rightarrow> ('r list \<Rightarrow> memory \<Rightarrow> (ptr \<times> int) \<times> memory) \<Rightarrow> lsp_error \<Rightarrow> 'r list \<Rightarrow> memory \<Rightarrow> (int \<times> ptr) \<times> memory" where
  "array_callback al conv e xs h =
     (if is_error e then ((toGRCError e, 0), h)
      else let (p, h1) = new_block al (ArrayStruct (0, 0)) h; (a, h2) = conv xs h1
           in ((0, p), h2(p \<mapsto> ArrayStruct a)))"

definition hover_callback :: "(memory \<Rightarrow> ptr) \<Rightarrow> lsp_error \<Rightarrow> lsp_hover option \<Rightarrow> memory \<Rightarrow> (int \<times> ptr) \<times> memory" where
  "hover_callback al e ho h =
     (if is_error e then ((toGRCError e, 0), h)
      else let (p, h1) = new_block al (HoverStruct (0, None)) h; (c, h2) = store_hover al ho h1
           in ((0, p), h2(p \<mapsto> HoverStruct c)))"

definition folding_callback ::
  "(memory \<Rightarrow> ptr) \<Rightarrow> (nat \<Rightarrow> int) \<Rightarrow> lsp_error \<Rightarrow> lsp_folding list \<Rightarrow> memory \<Rightarrow> (int \<times> ptr \<times> int) \<times> memory" where
  "folding_callback al garbage e fs h =
     (if is_error e then ((toGRCError e, 0, 0), h)
      else let (a, h1) = convertFoldingRanges al garbage fs h in ((0, a), h1))"

definition called_back ::
  "bool \<Rightarrow> (lsp_client \<times> string) option \<Rightarrow> 'call \<Rightarrow> (lsp_client \<Rightarrow> string \<Rightarrow> (lsp_client \<times> lsp_error \<times> 'r) option)
    \<Rightarrow> (lsp_error \<Rightarrow> 'r \<Rightarrow> memory \<Rightarrow> 'call \<times> memory) \<Rightarrow> lsp_client \<Rightarrow> memory \<Rightarrow> ('call list \<times> lsp_client \<times> memory) option" where
  "called_back wants args refused query reply c' h =
     (if \<not> wants then Some ([], c', h)
      else case args of
             None \<Rightarrow> Some ([refused], c', h)
           | Some (c, s) \<Rightarrow>
               (case query c (c_str s) of
                  None \<Rightarrow> None
                | Some (c2, e, r) \<Rightarrow> (let (call, h') = reply e r h in Some ([call], c2, h'))))"

fun both :: "'a option \<Rightarrow> 'b option \<Rightarrow> ('a \<times> 'b) option" where
  "both (Some a) (Some b) = Some (a, b)"
| "both _ _ = None"

definition grc_lsp_client_goto_definition_async where
  "grc_lsp_client_goto_definition_async al env client uri pos wants c' h =
     called_back wants (both client uri) (1, 0) (\<lambda>c u. gotoDefinitionAsync env u pos c c')
       (array_callback al (convertLocations al)) c' h"

definition grc_lsp_client_find_references_async where
  "grc_lsp_client_find_references_async al env client uri pos incl wants c' h =
     called_back wants (both client uri) (1, 0) (\<lambda>c u. findReferencesAsync env u pos incl c c')
       (array_callback al (convertLocations al)) c' h"

definition grc_lsp_client_hover_async where
  "grc_lsp_client_hover_async al env client uri pos wants c' h =
     called_back wants (both client uri) (1, 0) (\<lambda>c u. hoverAsync env u pos c c') (hover_callback al) c' h"

definition grc_lsp_client_document_symbols_async where
  "grc_lsp_client_document_symbols_async al env client uri wants c' h =
     called_back wants (both client uri) (1, 0) (\<lambda>c u. documentSymbolsAsync env u c c')
       (array_callback al (convertDocumentSymbols al)) c' h"

definition grc_lsp_client_workspace_symbols_async where
  "grc_lsp_client_workspace_symbols_async al env client query wants c' h =
     called_back wants (both client query) (1, 0) (\<lambda>c q. workspaceSymbolsAsync env q c c')
       (array_callback al (convertSymbolInformation al)) c' h"

definition grc_lsp_client_folding_range_async where
  "grc_lsp_client_folding_range_async al env client uri wants c' h =
     called_back wants (both client uri) (1, 0, 0) (\<lambda>c u. foldingRangeAsync env u c c') (folding_callback al (en_garbage env)) c' h"

text \<open>
  A structure handed to a callback holds an array like any other; after that is given back, the structure itself is left,
  and no function of the API frees one.
\<close>

context c_struct
begin

lemma callback_array:
  assumes al: "allocator al" and fin: "finite (dom h)" and small: "\<forall>x \<in> set xs. small x" and len: "length xs < 2 ^ 31"
    and run: "array_callback al (new_array al block (store al)) e xs h = (call, h')" and ok: "\<not> is_error e"
  shows "\<exists>p a. call = (0, p) \<and> h' p = Some (ArrayStruct a) \<and> read_array content look a h' = Some (map seen xs)
    \<and> free_array content release a h' = Some (h(p \<mapsto> ArrayStruct a)) \<and> h p = None"
proof -
  obtain p h1 where p: "new_block al (ArrayStruct (0, 0)) h = (p, h1)" by force
  obtain a h2 where a: "new_array al block (store al) xs h1 = (a, h2)" by (meson surj_pair)
  have r: "call = (0, p)" "h' = h2(p \<mapsto> ArrayStruct a)" using run ok p a by (auto simp: array_callback_def)
  have g: "grown h [p \<mapsto> ArrayStruct (0, 0)] h1" "p \<noteq> 0" "h p = None" using new_block_grown [OF al fin p] by auto
  obtain m where m: "grown h1 m h2" "owns_array block owns xs a m"
    using array_stored [OF al grown_finite [OF g(1) fin] small len a] by blast
  have h1: "h1 = h(p \<mapsto> ArrayStruct (0, 0))" using g(1) by (auto simp: grown_def)
  have apart: "m p = None" "dom m \<inter> dom h = {}" using m(1) h1 by (auto simp: grown_def)
  have h': "h' = h(p \<mapsto> ArrayStruct a) ++ m"
    using r(2) m(1) apart(1) by (auto simp: grown_def h1 fun_eq_iff map_add_def split: option.split)
  have "read_array content look a h' = Some (map seen xs)" by (rule array_looked [OF m(2)]) (simp add: h')
  moreover have "free_array content release a h' = Some (h(p \<mapsto> ArrayStruct a))"
    unfolding h' by (rule array_freed [OF m(2)]) (use apart in auto)
  ultimately show ?thesis using r g(3) by (intro exI [of _ p] exI [of _ a]) simp
qed

end

text \<open>
  C30. An asynchronous query answers like the synchronous one. Once the client is ready, the callback of
  \<^verbatim>\<open>grc_lsp_client_goto_definition_async\<close> is called exactly once, with success and an array that reads as what
  \<^verbatim>\<open>grc_lsp_client_goto_definition\<close> would have returned to the thread's client; and the client ends up the same. Giving
  the array back leaves just the one block of the structure, which nothing in the API can free.
\<close>

theorem async_answers_as_sync:
  assumes "allocator al" and "finite (dom h)" and "is_ready c"
    and "grc_lsp_client_goto_definition env uri pos c' = Some (c2, Inr ls)" and "length ls < 2 ^ 31"
  shows "\<exists>p a h'. grc_lsp_client_goto_definition_async al env (Some c) (Some uri) pos True c' h = Some ([(0, p)], c2, h')
    \<and> h' p = Some (ArrayStruct a) \<and> read_array locations_in read_c_location a h' = Some ls
    \<and> grc_free_locations a h' = Some (h(p \<mapsto> ArrayStruct a)) \<and> h p = None"
proof -
  obtain e xs where q: "gotoDefinitionAsync env (c_str uri) pos c c' = Some (c2, e, xs)" "\<not> is_error e" "ls = map convert_location xs"
  proof -
    obtain res where g: "gotoDefinition (en_lib env) (en_server env) (en_now env) (en_first env) (en_second env) (en_start env)
        (c_str uri) pos c' = Some res" and a: "grc_answer (map convert_location) (finish_query res) = (c2, Inr ls)"
      using assms(4) by (auto simp: grc_lsp_client_goto_definition_def)
    obtain c3 e xs where f: "finish_query res = (c3, e, xs)" by (cases "finish_query res") auto
    have "gotoDefinitionAsync env (c_str uri) pos c c' = Some (c3, e, xs)" using assms(3) g f by (simp add: gotoDefinitionAsync_def)
    then show thesis using that a f by (auto simp: grc_answer_def split: if_splits)
  qed
  obtain call h' where run: "array_callback al (convertLocations al) e xs h = (call, h')" by (meson surj_pair)
  have "convertLocations al = new_array al Locations (store_location al)" by (intro ext) (simp add: convertLocations_def)
  then obtain p a where f: "call = (0, p)" "h' p = Some (ArrayStruct a)" "read_array locations_in read_c_location a h' = Some ls"
    "grc_free_locations a h' = Some (h(p \<mapsto> ArrayStruct a))" "h p = None"
    using locations.callback_array [OF assms(1,2) _ _ _ q(2), of xs call h'] run q(3) assms(5)
    by (auto simp: grc_free_locations_def)
  have "grc_lsp_client_goto_definition_async al env (Some c) (Some uri) pos True c' h = Some ([(0, p)], c2, h')"
    using q(1) run f(1) by (simp add: grc_lsp_client_goto_definition_async_def called_back_def)
  then show ?thesis using f(2-5) by blast
qed

text \<open>A ready client whose cache holds the answer.\<close>

definition cached_client :: lsp_client where
  "cached_client =
     (new_client ''/w'' LangC)\<lparr>cl_initialized := True, cl_running := True,
        cl_cache := Some (cacheDefinition 1 ''/w/a.c'' (3, 4) (''file:///w/b.c'', ((1, 0), (1, 3))) (empty_cache ''abc''))\<rparr>"

lemma cached_client_answers:
  "grc_lsp_client_goto_definition demo_env ''/w/a.c'' (3, 4) cached_client
    = Some (cached_client\<lparr>cl_gave_up := False\<rparr>, Inr [(''file:///w/b.c'', ((1, 0), (1, 3)))])"
proof -
  have hit: "Option.bind (cl_cache cached_client) (getCachedDefinitions ''/w/a.c'' (3, 4)) = Some [(''file:///w/b.c'', ((1, 0), (1, 3)))]"
    "is_ready cached_client" "c_str ''/w/a.c'' = ''/w/a.c''" "c_str ''file:///w/b.c'' = ''file:///w/b.c''"
    by code_simp+
  then have "definition_once lib srv now ''/w/a.c'' (3, 4) cached_client
      = (cached_client, no_error, [(''file:///w/b.c'', ((1, 0), (1, 3)))])" for lib srv now
    by (simp add: definition_once_def run_query_def)
  then show ?thesis
    by (simp add: grc_lsp_client_goto_definition_def gotoDefinition_def hit retry_loop.simps finish_query_def grc_answer_def
        is_error_def no_error_def convert_location_def)
qed

lemma async_answers_as_sync_witness:
  "\<exists>p a h'. grc_lsp_client_goto_definition_async next_free demo_env (Some cached_client) (Some ''/w/a.c'') (3, 4) True
       cached_client Map.empty = Some ([(0, p)], cached_client\<lparr>cl_gave_up := False\<rparr>, h')
    \<and> h' p = Some (ArrayStruct a)
    \<and> read_array locations_in read_c_location a h' = Some [(''file:///w/b.c'', ((1, 0), (1, 3)))]
    \<and> grc_free_locations a h' = Some [p \<mapsto> ArrayStruct a]"
proof -
  have "is_ready cached_client" by code_simp
  then show ?thesis
    using async_answers_as_sync [OF next_free_allocates _ _ cached_client_answers, of Map.empty cached_client] by simp
qed

section \<open>What an index says of a file\<close>

text \<open>
  The getters of one file give exactly what the index holds of it, in order; the file is compared as it is spelt, unlike in
  the tables of the cache.
\<close>

lemma file_getters_exact:
  assumes "allocator al" and "finite (dom h)" and "length (getDefinitions j) < 2 ^ 31" and "length (getReferences j) < 2 ^ 31"
  shows "\<exists>a h'. grc_indexer_get_file_definitions al (Some j) (Some u) True h = (0, Some a, h')
      \<and> read_array definitions_in read_c_definition a h' = Some (map seen_definition [d \<leftarrow> getDefinitions j. id_uri d = c_str u])
      \<and> grc_free_index_definitions a h' = Some h"
    and "\<exists>a h'. grc_indexer_get_file_references al (Some j) (Some u) True h = (0, Some a, h')
      \<and> read_array references_in read_c_reference a h' = Some (map seen_reference [r \<leftarrow> getReferences j. ir_fromUri r = c_str u])
      \<and> grc_free_index_references a h' = Some h"
    and "\<exists>a h'. grc_indexer_get_references_to_file al (Some j) (Some u) True h = (0, Some a, h')
      \<and> read_array references_in read_c_reference a h' = Some (map seen_reference [r \<leftarrow> getReferences j. ir_toUri r = c_str u])
      \<and> grc_free_index_references a h' = Some h"
proof -
  have d: "length (getFileDefinitions v j) < 2 ^ 31" for v
    using assms(3) length_filter_le [of "\<lambda>d. id_uri d = v" "getDefinitions j"]
    using le_less_trans by (auto simp only: getFileDefinitions_def getDefinitions_def)
  have r: "length (getFileReferences v j) < 2 ^ 31" "length (getReferencesToFile v j) < 2 ^ 31" for v
    using assms(4) length_filter_le [of "\<lambda>r. ir_fromUri r = v" "getReferences j"]
      length_filter_le [of "\<lambda>r. ir_toUri r = v" "getReferences j"]
    using le_less_trans by (auto simp only: getFileReferences_def getReferencesToFile_def getReferences_def)
  show "\<exists>a h'. grc_indexer_get_file_definitions al (Some j) (Some u) True h = (0, Some a, h')
      \<and> read_array definitions_in read_c_definition a h' = Some (map seen_definition [d \<leftarrow> getDefinitions j. id_uri d = c_str u])
      \<and> grc_free_index_definitions a h' = Some h"
    using definitions.copied_read_freed [OF assms(1,2) _ d]
    by (auto simp: grc_indexer_get_file_definitions_def copy_definitions_def grc_free_index_definitions_def
        getFileDefinitions_def getDefinitions_def split: prod.split)
  show "\<exists>a h'. grc_indexer_get_file_references al (Some j) (Some u) True h = (0, Some a, h')
      \<and> read_array references_in read_c_reference a h' = Some (map seen_reference [r \<leftarrow> getReferences j. ir_fromUri r = c_str u])
      \<and> grc_free_index_references a h' = Some h"
    using references.copied_read_freed [OF assms(1,2) _ r(1)]
    by (auto simp: grc_indexer_get_file_references_def copy_references_def grc_free_index_references_def
        getFileReferences_def getReferences_def split: prod.split)
  show "\<exists>a h'. grc_indexer_get_references_to_file al (Some j) (Some u) True h = (0, Some a, h')
      \<and> read_array references_in read_c_reference a h' = Some (map seen_reference [r \<leftarrow> getReferences j. ir_toUri r = c_str u])
      \<and> grc_free_index_references a h' = Some h"
    using references.copied_read_freed [OF assms(1,2) _ r(2)]
    by (auto simp: grc_indexer_get_references_to_file_def copy_references_def grc_free_index_references_def
        getReferencesToFile_def getReferences_def split: prod.split)
qed

end
