(* ===== verification/LspProcess.thy ===== *)
theory LspProcess
  imports LspMessage
begin

text \<open>
  The child process of a language server (\<^verbatim>\<open>src/core/src/lsp/Process.cpp\<close>): the thread that hands its output to the client,
  the pipe to its input, and how it is stopped. Each step is what one thread or the child does between two looks at
  what they share.
\<close>

section \<open>State\<close>

text \<open>
  Where the reading thread is: before the loop's condition, before it looks at its buffer, in \<^verbatim>\<open>peek\<close>, or past the loop.
\<close>

datatype reader = NoReader | AtTop | Looking | Peeking | ReaderDone

text \<open>
  \<open>pr_pipe\<close> is what the child wrote and nobody read yet, \<open>pr_buffer\<close> what is in the buffer of the stream, \<open>pr_out\<close> what
  the callback was given. \<open>pr_held\<close>: a descendant of the child has the pipe open too. \<open>pr_bad\<close> is the state of the input
  stream. \<open>pr_produced\<close>, all that was written to the pipe, is for the theorems. The child's standard error is not
  here: the loop reads it only when the buffer of its stream holds something, and nothing but that read fills it.
\<close>

record process =
  pr_running :: bool
  pr_alive :: bool
  pr_held :: bool
  pr_pipe :: string
  pr_buffer :: string
  pr_out :: "string list"
  pr_stdin :: string
  pr_bad :: bool
  pr_reader :: reader
  pr_produced :: string

definition new_process :: process where
  "new_process =
     \<lparr>pr_running = False, pr_alive = False, pr_held = False, pr_pipe = [], pr_buffer = [], pr_out = [], pr_stdin = [],
      pr_bad = False, pr_reader = NoReader, pr_produced = []\<rparr>"

definition read_size :: nat where "read_size = 4096"

section \<open>Operations\<close>

text \<open>Whether the executable is there, the child could be started, and it was running right after.\<close>

definition start_process :: "bool \<Rightarrow> bool \<Rightarrow> bool \<Rightarrow> process \<Rightarrow> bool \<times> process" where
  "start_process there spawned up p =
     (if \<not> there \<or> \<not> spawned \<or> \<not> up then (False, p)
      else (True, p\<lparr>pr_alive := True, pr_running := True, pr_reader := AtTop\<rparr>))"

text \<open>\<^verbatim>\<open>stop\<close> up to its wait for the thread: the flag, then the end of the child.\<close>

definition stop_begin :: "process \<Rightarrow> process" where
  "stop_begin p = p\<lparr>pr_running := False\<rparr>"

definition stop_kill :: "process \<Rightarrow> process" where
  "stop_kill p = (if pr_alive p then p\<lparr>pr_alive := False\<rparr> else p)"

definition isRunning_process :: "process \<Rightarrow> bool" where
  "isRunning_process p \<longleftrightarrow> pr_running p \<and> pr_alive p"

text \<open>
  A write to the child. The stream throws nothing: when nobody reads the pipe, or an earlier write failed, the bytes are
  gone and the answer is the same.
\<close>

definition write_process :: "string \<Rightarrow> process \<Rightarrow> bool \<times> process" where
  "write_process data p =
     (if \<not> pr_running p then (False, p)
      else if pr_bad p then (True, p)
      else if pr_alive p then (True, p\<lparr>pr_stdin := pr_stdin p @ data\<rparr>)
      else (True, p\<lparr>pr_bad := True\<rparr>))"

section \<open>The reading thread\<close>

definition hand_over :: "string \<Rightarrow> process \<Rightarrow> process" where
  "hand_over b p = p\<lparr>pr_out := pr_out p @ [take read_size b], pr_buffer := drop read_size b, pr_reader := AtTop\<rparr>"

definition reader_top :: "process \<Rightarrow> process" where
  "reader_top p = p\<lparr>pr_reader := (if pr_running p \<and> pr_alive p then Looking else ReaderDone)\<rparr>"

definition reader_look :: "process \<Rightarrow> process" where
  "reader_look p = (if pr_buffer p \<noteq> [] then hand_over (pr_buffer p) p else p\<lparr>pr_reader := Peeking\<rparr>)"

text \<open>\<^verbatim>\<open>peek\<close> got \<open>k\<close> bytes from the pipe, or its end.\<close>

definition reader_peek :: "nat \<Rightarrow> process \<Rightarrow> process" where
  "reader_peek k p = (hand_over (take k (pr_pipe p)) p)\<lparr>pr_pipe := drop k (pr_pipe p)\<rparr>"

definition reader_eof :: "process \<Rightarrow> process" where
  "reader_eof p = p\<lparr>pr_reader := AtTop\<rparr>"

text \<open>
  A child may leave its end of the pipe to a descendant, which then writes to it or closes it when it likes, whether the
  child still runs or not.
\<close>

datatype process_event =
    ChildWrites string
  | ChildExits
  | Inherited
  | DescendantWrites string
  | Released
  | Written string
  | StopBegun
  | Killed
  | ReaderStep

inductive prstep :: "process \<Rightarrow> process_event \<Rightarrow> process \<Rightarrow> bool" where
  Writes: "pr_alive p \<Longrightarrow> prstep p (ChildWrites s) (p\<lparr>pr_pipe := pr_pipe p @ s, pr_produced := pr_produced p @ s\<rparr>)"
| Exits: "pr_alive p \<Longrightarrow> prstep p ChildExits (p\<lparr>pr_alive := False\<rparr>)"
| Inherit: "pr_alive p \<Longrightarrow> prstep p Inherited (p\<lparr>pr_held := True\<rparr>)"
| HeldWrite: "pr_held p \<Longrightarrow> prstep p (DescendantWrites s) (p\<lparr>pr_pipe := pr_pipe p @ s, pr_produced := pr_produced p @ s\<rparr>)"
| Release: "pr_held p \<Longrightarrow> prstep p Released (p\<lparr>pr_held := False\<rparr>)"
| Write: "prstep p (Written s) (snd (write_process s p))"
| Stop: "pr_running p \<Longrightarrow> prstep p StopBegun (stop_begin p)"
| Kill: "\<not> pr_running p \<Longrightarrow> prstep p Killed (stop_kill p)"
| Top: "pr_reader p = AtTop \<Longrightarrow> prstep p ReaderStep (reader_top p)"
| Look: "pr_reader p = Looking \<Longrightarrow> prstep p ReaderStep (reader_look p)"
| Peek: "pr_reader p = Peeking \<Longrightarrow> 0 < k \<Longrightarrow> k \<le> length (pr_pipe p) \<Longrightarrow> prstep p ReaderStep (reader_peek k p)"
| Eof: "pr_reader p = Peeking \<Longrightarrow> pr_pipe p = [] \<Longrightarrow> \<not> pr_alive p \<Longrightarrow> \<not> pr_held p \<Longrightarrow> prstep p ReaderStep (reader_eof p)"

inductive prrun :: "process \<Rightarrow> process_event list \<Rightarrow> process \<Rightarrow> bool" where
  Same: "prrun p [] p"
| Then: "prrun p es p1 \<Longrightarrow> prstep p1 e p2 \<Longrightarrow> prrun p (es @ [e]) p2"

lemmas process_defs = write_process_def stop_begin_def stop_kill_def hand_over_def reader_top_def reader_look_def
  reader_peek_def reader_eof_def

section \<open>Invariant\<close>

text \<open>Nothing is lost or reordered on the way; while child and flag are up the thread is in its loop.\<close>

definition process_ok :: "process \<Rightarrow> bool" where
  "process_ok p \<longleftrightarrow>
     pr_produced p = concat (pr_out p) @ pr_buffer p @ pr_pipe p
     \<and> (pr_reader p = Peeking \<longrightarrow> pr_buffer p = [])
     \<and> (pr_running p \<and> pr_alive p \<longrightarrow> pr_reader p \<notin> {NoReader, ReaderDone})
     \<and> [] \<notin> set (pr_out p)"

lemma step_process_ok:
  assumes "prstep p e p'" and "process_ok p"
  shows "process_ok p'"
  using assms
proof (cases rule: prstep.cases)
  case Look
  then show ?thesis using assms(2) by (auto simp: process_ok_def process_defs read_size_def)
next
  case (Peek k)
  have "take read_size (take k (pr_pipe p)) \<noteq> []" using Peek(4,5) by (cases "pr_pipe p") (auto simp: read_size_def)
  moreover have "take read_size (take k (pr_pipe p)) @ drop read_size (take k (pr_pipe p)) @ drop k (pr_pipe p) = pr_pipe p"
    by (metis append_assoc append_take_drop_id)
  ultimately show ?thesis using Peek assms(2) by (auto simp: process_ok_def reader_peek_def hand_over_def)
qed (use assms(2) in \<open>auto simp: process_ok_def process_defs\<close>)

lemma run_process_ok: "prrun p es p' \<Longrightarrow> process_ok p \<Longrightarrow> process_ok p'"
  by (induction rule: prrun.induct) (auto intro: step_process_ok)

lemma started_ok: "start_process there spawned up new_process = (True, p) \<Longrightarrow> process_ok p"
  by (auto simp: start_process_def process_ok_def new_process_def split: if_splits)

lemma prrun_trans: "prrun p2 es' p3 \<Longrightarrow> prrun p es p2 \<Longrightarrow> prrun p (es @ es') p3"
proof (induction rule: prrun.induct)
  case (Then p2 es' p3 e p4)
  then have "prrun p ((es @ es') @ [e]) p4" by (blast intro: prrun.Then)
  then show ?case by simp
qed simp

section \<open>What the server says arrives\<close>

lemma reader_step: "prstep p ReaderStep p1 \<Longrightarrow> prrun p1 (replicate n ReaderStep) p2 \<Longrightarrow> prrun p (replicate (Suc n) ReaderStep) p2"
  using prrun_trans [OF _ prrun.Then [OF prrun.Same]] by fastforce

fun stage :: "reader \<Rightarrow> nat" where
  "stage AtTop = 2"
| "stage Looking = 1"
| "stage _ = 0"

lemma reader_drains:
  assumes "process_ok p" and "pr_running p" and "pr_alive p"
  shows "\<exists>n p'. prrun p (replicate n ReaderStep) p' \<and> pr_buffer p' = [] \<and> pr_pipe p' = [] \<and> pr_produced p' = pr_produced p
    \<and> pr_stdin p' = pr_stdin p"
  using assms
proof (induction "3 * (length (pr_buffer p) + length (pr_pipe p)) + stage (pr_reader p)" arbitrary: p rule: less_induct)
  case (less p)
  have go: "\<exists>n p'. prrun p (replicate n ReaderStep) p' \<and> pr_buffer p' = [] \<and> pr_pipe p' = [] \<and> pr_produced p' = pr_produced p
      \<and> pr_stdin p' = pr_stdin p"
    if s: "prstep p ReaderStep p1" and l: "3 * (length (pr_buffer p1) + length (pr_pipe p1)) + stage (pr_reader p1)
        < 3 * (length (pr_buffer p) + length (pr_pipe p)) + stage (pr_reader p)"
      and k: "pr_running p1" "pr_alive p1" "pr_produced p1 = pr_produced p" "pr_stdin p1 = pr_stdin p" for p1
  proof -
    have "process_ok p1" by (rule step_process_ok [OF s less.prems(1)])
    then obtain n p' where "prrun p1 (replicate n ReaderStep) p'" "pr_buffer p' = []" "pr_pipe p' = []"
      "pr_produced p' = pr_produced p1" "pr_stdin p' = pr_stdin p1"
      using less.hyps [OF l] k(1,2) by blast
    then show ?thesis using reader_step [OF s] k(3,4) by metis
  qed
  show ?case
  proof (cases "pr_buffer p = [] \<and> pr_pipe p = []")
    case True
    then show ?thesis using prrun.Same [of p] by (intro exI [of _ 0] exI [of _ p]) simp
  next
    case False
    consider "pr_reader p = AtTop" | "pr_reader p = Looking" | "pr_reader p = Peeking"
      using less.prems by (cases "pr_reader p") (auto simp: process_ok_def)
    then show ?thesis
    proof cases
      case 1
      then show ?thesis using less.prems by (intro go [OF prstep.Top]) (simp_all add: reader_top_def)
    next
      case 2
      then show ?thesis using less.prems
        by (intro go [OF prstep.Look]; cases "pr_buffer p") (auto simp: reader_look_def hand_over_def read_size_def)
    next
      case 3
      then have b: "pr_buffer p = []" "0 < length (pr_pipe p)" using less.prems(1) False by (auto simp: process_ok_def)
      show ?thesis
        by (rule go [OF prstep.Peek [OF 3 b(2) order_refl]]; cases "pr_pipe p")
          (use b less.prems in \<open>auto simp: reader_peek_def hand_over_def read_size_def\<close>)
    qed
  qed
qed

text \<open>
  C19. What a server says arrives: when a started server has written a series of messages, in whatever pieces and however
  the writes, the reading thread and the client's own writes interleaved, then as long as it stays up the thread alone
  hands the client pieces from which it takes exactly these messages, in order and whole.
\<close>

theorem server_output_arrives:
  assumes "start_process there spawned up new_process = (True, p0)" and "prrun p0 es p" and "isRunning_process p"
    and "list_all sendable bodies" and "pr_produced p = lsp_frames bodies"
  shows "\<exists>n p'. prrun p (replicate n ReaderStep) p' \<and> feed_output [] (pr_out p') = Some (bodies, [], False)"
proof -
  have ok: "process_ok p" by (rule run_process_ok [OF assms(2) started_ok [OF assms(1)]])
  obtain n p' where r: "prrun p (replicate n ReaderStep) p'" "pr_buffer p' = []" "pr_pipe p' = []" "pr_produced p' = pr_produced p"
    using reader_drains [OF ok] assms(3) by (auto simp: isRunning_process_def)
  have "process_ok p'" by (rule run_process_ok [OF r(1) ok])
  then have "concat (pr_out p') = lsp_frames bodies" "[] \<notin> set (pr_out p')"
    using r(2-4) assms(5) by (simp_all add: process_ok_def)
  then have "feed_output [] (pr_out p') = Some (bodies, [], False)" by (intro feed_frames) (use assms(4) in auto)
  then show ?thesis using r(1) by blast
qed

definition demo_process :: process where
  "demo_process = (snd (start_process True True True new_process))\<lparr>pr_pipe := lsp_frames [''{}''], pr_produced := lsp_frames [''{}'']\<rparr>"

lemma demo_process_run:
  "prrun (snd (start_process True True True new_process)) [ChildWrites (lsp_frames [''{}''])] demo_process"
proof -
  have "prstep (snd (start_process True True True new_process)) (ChildWrites (lsp_frames [''{}''])) demo_process"
    using prstep.Writes [of "snd (start_process True True True new_process)" "lsp_frames [''{}'']"]
    by (simp add: demo_process_def start_process_def new_process_def)
  then show ?thesis using prrun.Then [OF prrun.Same] by fastforce
qed

lemma server_output_arrives_witness:
  "\<exists>n p'. prrun demo_process (replicate n ReaderStep) p' \<and> feed_output [] (pr_out p') = Some ([''{}''], [], False)"
proof (rule server_output_arrives [OF _ demo_process_run])
  show "start_process True True True new_process = (True, snd (start_process True True True new_process))"
    by (simp add: start_process_def)
  show "isRunning_process demo_process" "pr_produced demo_process = lsp_frames [''{}'']"
    by (simp_all add: demo_process_def isRunning_process_def start_process_def)
  show "list_all sendable [''{}'']" by (simp add: sendable_def)
qed

section \<open>Where it falls short\<close>

text \<open>
  The loop's condition asks for a live child before it looks at the pipe: what a server wrote last, before it exits, is
  still in the pipe when the thread ends.
\<close>

lemma last_words_lost:
  "\<exists>es p. prrun (snd (start_process True True True new_process)) es p \<and> pr_reader p = ReaderDone
    \<and> pr_produced p = lsp_frames [''{}''] \<and> pr_out p = []"
proof -
  let ?q = "demo_process\<lparr>pr_alive := False\<rparr>"
  have q: "pr_alive demo_process" "pr_reader demo_process = AtTop" "pr_running demo_process"
    by (simp_all add: demo_process_def start_process_def)
  have "prrun (snd (start_process True True True new_process)) ([ChildWrites (lsp_frames [''{}''])] @ [ChildExits]) ?q"
    by (rule prrun.Then [OF demo_process_run prstep.Exits [OF q(1)]])
  moreover have "prstep ?q ReaderStep (reader_top ?q)" by (rule prstep.Top) (simp add: q)
  ultimately have "prrun (snd (start_process True True True new_process))
      (([ChildWrites (lsp_frames [''{}''])] @ [ChildExits]) @ [ReaderStep]) (reader_top ?q)"
    by (rule prrun.Then)
  moreover have "pr_reader (reader_top ?q) = ReaderDone" "pr_produced (reader_top ?q) = lsp_frames [''{}'']"
    "pr_out (reader_top ?q) = []"
    by (simp_all add: reader_top_def demo_process_def start_process_def new_process_def)
  ultimately show ?thesis by blast
qed

text \<open>A write to a server that has exited is reported as done, and so is every later one.\<close>

lemma write_to_the_dead:
  "pr_running p \<Longrightarrow> \<not> pr_alive p \<Longrightarrow> write_process s p = (True, p\<lparr>pr_bad := True\<rparr>)"
  by (auto simp: write_process_def)

section \<open>Stopping\<close>

text \<open>How many steps of its own the reading thread still makes once the flag is down.\<close>

fun steps_left :: "reader \<Rightarrow> string \<Rightarrow> nat" where
  "steps_left NoReader b = 0"
| "steps_left ReaderDone b = 0"
| "steps_left AtTop b = 1"
| "steps_left Peeking b = 2"
| "steps_left Looking b = (if b = [] then 3 else 2)"

lemma down_stays:
  "prrun p es p' \<Longrightarrow> (\<not> pr_running p \<longrightarrow> \<not> pr_running p') \<and> (\<not> pr_alive p \<longrightarrow> \<not> pr_alive p')"
proof (induction rule: prrun.induct)
  case (Then p es p1 e p2)
  have "(\<not> pr_running p1 \<longrightarrow> \<not> pr_running p2) \<and> (\<not> pr_alive p1 \<longrightarrow> \<not> pr_alive p2)"
    using Then.hyps(2) by (cases rule: prstep.cases) (auto simp: process_defs)
  then show ?case using Then.IH by blast
qed simp

lemma reader_stays: "prrun p es p' \<Longrightarrow> pr_reader p \<noteq> NoReader \<Longrightarrow> pr_reader p' \<noteq> NoReader"
proof (induction rule: prrun.induct)
  case (Then p es p1 e p2)
  then show ?case by (cases rule: prstep.cases [OF Then.hyps(2)]) (auto simp: process_defs)
qed simp

lemma one_step_fewer:
  assumes "prstep p e p'" and "\<not> pr_running p"
  shows "(if e = ReaderStep then 1 else 0) + steps_left (pr_reader p') (pr_buffer p') \<le> steps_left (pr_reader p) (pr_buffer p)"
  using assms by (cases rule: prstep.cases) (auto simp: process_defs)

lemma steps_run_out:
  "prrun p es p' \<Longrightarrow> \<not> pr_running p \<Longrightarrow>
     count_list es ReaderStep + steps_left (pr_reader p') (pr_buffer p') \<le> steps_left (pr_reader p) (pr_buffer p)"
proof (induction rule: prrun.induct)
  case (Then p es p1 e p2)
  have "\<not> pr_running p1" using down_stays [OF Then.hyps(1)] Then.prems by blast
  from one_step_fewer [OF Then.hyps(2) this] Then.IH [OF Then.prems] show ?case by (auto split: if_splits)
qed simp

lemma steps_left_le: "steps_left r b \<le> 3"
  by (cases r) auto

lemma reader_can_go:
  assumes "\<not> pr_alive p" and "pr_reader p \<notin> {NoReader, ReaderDone}"
  shows "(\<exists>p'. prstep p ReaderStep p') \<longleftrightarrow> \<not> (pr_reader p = Peeking \<and> pr_pipe p = [] \<and> pr_held p)"
proof
  assume "\<exists>p'. prstep p ReaderStep p'"
  then show "\<not> (pr_reader p = Peeking \<and> pr_pipe p = [] \<and> pr_held p)" by (auto elim: prstep.cases)
next
  assume free: "\<not> (pr_reader p = Peeking \<and> pr_pipe p = [] \<and> pr_held p)"
  show "\<exists>p'. prstep p ReaderStep p'"
  proof (cases "pr_reader p")
    case Peeking
    show ?thesis
    proof (cases "pr_pipe p = []")
      case True
      with prstep.Eof [OF Peeking True assms(1)] free Peeking show ?thesis by blast
    next
      case False
      with prstep.Peek [OF Peeking, of 1] show ?thesis by (auto simp: Suc_le_eq)
    qed
  next
    case AtTop
    then show ?thesis using prstep.Top by blast
  next
    case Looking
    then show ?thesis using prstep.Look by blast
  qed (use assms(2) in simp_all)
qed

text \<open>
  C23. \<^verbatim>\<open>stop\<close>, called on a server that was started and is meant to run, ends: it lowers the flag and, whatever the threads
  and the child do before it comes to that, makes sure the child is gone; from then on, in every interleaving, the server
  stays down, no write is taken, and the reading thread that \<^verbatim>\<open>stop\<close> joins makes at most three more steps before it is
  done, however much is left in the pipe. It is held up only while a descendant of the server has the empty pipe open.
\<close>

theorem stop_joins:
  assumes "start_process there spawned up new_process = (True, p0)" and "prrun p0 es p" and "pr_running p"
    and "prrun (stop_begin p) es1 p1" and "prrun (stop_kill p1) es2 p2"
  shows "\<not> pr_running p2 \<and> \<not> pr_alive p2 \<and> \<not> fst (write_process data p2)
    \<and> count_list es2 ReaderStep \<le> 3
    \<and> (pr_reader p2 \<noteq> ReaderDone \<longrightarrow>
         ((\<exists>p3. prstep p2 ReaderStep p3) \<longleftrightarrow> \<not> (pr_reader p2 = Peeking \<and> pr_pipe p2 = [] \<and> pr_held p2)))"
proof -
  have "\<not> pr_running (stop_begin p)" by (simp add: stop_begin_def)
  then have down: "\<not> pr_running (stop_kill p1)" using down_stays [OF assms(4)] by (simp add: stop_kill_def)
  moreover have "\<not> pr_alive (stop_kill p1)" by (simp add: stop_kill_def)
  ultimately have p2: "\<not> pr_running p2" "\<not> pr_alive p2" using down_stays [OF assms(5)] by blast+
  have "pr_reader p0 \<noteq> NoReader" using assms(1) by (auto simp: start_process_def split: if_splits)
  then have "pr_reader (stop_begin p) \<noteq> NoReader" using reader_stays [OF assms(2)] by (simp add: stop_begin_def)
  then have "pr_reader (stop_kill p1) \<noteq> NoReader" using reader_stays [OF assms(4)] by (simp add: stop_kill_def)
  then have "pr_reader p2 \<noteq> NoReader" using reader_stays [OF assms(5)] by blast
  moreover have "count_list es2 ReaderStep \<le> 3"
    using steps_run_out [OF assms(5) down] steps_left_le [of "pr_reader (stop_kill p1)" "pr_buffer (stop_kill p1)"] by linarith
  ultimately show ?thesis using p2 reader_can_go [OF p2(2)] by (simp add: write_process_def)
qed

lemma stop_joins_witness:
  "\<exists>es2 p2. prrun (stop_kill (stop_begin demo_process)) es2 p2 \<and> count_list es2 ReaderStep \<le> 3 \<and> \<not> pr_alive p2
     \<and> pr_reader p2 = ReaderDone"
proof -
  let ?p0 = "snd (start_process True True True new_process)"
  let ?q = "stop_kill (stop_begin demo_process)"
  have up: "start_process True True True new_process = (True, ?p0)" "pr_running demo_process"
    by (simp_all add: start_process_def demo_process_def)
  have "prstep ?q ReaderStep (reader_top ?q)"
    by (rule prstep.Top) (simp add: stop_kill_def stop_begin_def demo_process_def start_process_def)
  then have run: "prrun ?q ([] @ [ReaderStep]) (reader_top ?q)" by (rule prrun.Then [OF prrun.Same])
  have "pr_reader (reader_top ?q) = ReaderDone"
    by (simp add: reader_top_def stop_kill_def stop_begin_def)
  with stop_joins [OF up(1) demo_process_run up(2) prrun.Same run] run show ?thesis by blast
qed

text \<open>A server that leaves the pipe to a descendant and is stopped: the reading thread waits in \<^verbatim>\<open>peek\<close>.\<close>

lemma stop_waits_for_descendant:
  "\<exists>es1 es2 p1 p2. prrun (snd (start_process True True True new_process)) es1 p1 \<and> pr_running p1
     \<and> prrun (stop_kill (stop_begin p1)) es2 p2 \<and> pr_reader p2 = Peeking \<and> (\<nexists>p3. prstep p2 ReaderStep p3)"
proof -
  let ?p = "snd (start_process True True True new_process)"
  let ?a = "?p\<lparr>pr_held := True\<rparr>"
  let ?b = "reader_look (reader_top ?a)"
  have p: "pr_alive ?p" "pr_reader ?p = AtTop" "pr_running ?p" "pr_buffer ?p = []" "pr_pipe ?p = []"
    by (simp_all add: start_process_def new_process_def)
  have steps: "prstep ?p Inherited ?a" "prstep ?a ReaderStep (reader_top ?a)" "prstep (reader_top ?a) ReaderStep ?b"
    by (rule prstep.Inherit prstep.Top prstep.Look; simp add: p reader_top_def)+
  have run: "prrun ?p ((([] @ [Inherited]) @ [ReaderStep]) @ [ReaderStep]) ?b"
    by (rule prrun.Then [OF prrun.Then [OF prrun.Then [OF prrun.Same steps(1)] steps(2)] steps(3)])
  let ?q = "stop_kill (stop_begin ?b)"
  have q: "\<not> pr_alive ?q" "pr_reader ?q = Peeking" "pr_pipe ?q = []" "pr_held ?q" "pr_running ?b"
    by (simp_all add: p stop_kill_def stop_begin_def reader_look_def reader_top_def)
  then have "\<nexists>p3. prstep ?q ReaderStep p3" using reader_can_go [OF q(1)] by simp
  with run prrun.Same [of ?q] q show ?thesis by blast
qed

end
