(* ===== verification/GitStatus.thy ===== *)
theory GitStatus
  imports GitRead "HOL-Library.Word"
begin

unbundle bit_operations_syntax

text \<open>
  The status of a work tree and of a branch against its upstream (\<^verbatim>\<open>src/gitmanip/src/status.cpp\<close>), who wrote the lines of
  a file (\<^verbatim>\<open>src/gitmanip/src/blame.cpp\<close>). What libgit2 answers is a parameter; the flags of its answers are read as it
  documents them.
\<close>

section \<open>Status flags\<close>

definition GIT_STATUS_INDEX_NEW :: "32 word" where "GIT_STATUS_INDEX_NEW = 0x1"
definition GIT_STATUS_INDEX_MODIFIED :: "32 word" where "GIT_STATUS_INDEX_MODIFIED = 0x2"
definition GIT_STATUS_INDEX_DELETED :: "32 word" where "GIT_STATUS_INDEX_DELETED = 0x4"
definition GIT_STATUS_INDEX_RENAMED :: "32 word" where "GIT_STATUS_INDEX_RENAMED = 0x8"
definition GIT_STATUS_INDEX_TYPECHANGE :: "32 word" where "GIT_STATUS_INDEX_TYPECHANGE = 0x10"
definition GIT_STATUS_WT_NEW :: "32 word" where "GIT_STATUS_WT_NEW = 0x80"
definition GIT_STATUS_WT_MODIFIED :: "32 word" where "GIT_STATUS_WT_MODIFIED = 0x100"
definition GIT_STATUS_WT_DELETED :: "32 word" where "GIT_STATUS_WT_DELETED = 0x200"
definition GIT_STATUS_WT_TYPECHANGE :: "32 word" where "GIT_STATUS_WT_TYPECHANGE = 0x400"
definition GIT_STATUS_WT_RENAMED :: "32 word" where "GIT_STATUS_WT_RENAMED = 0x800"
definition GIT_STATUS_WT_UNREADABLE :: "32 word" where "GIT_STATUS_WT_UNREADABLE = 0x1000"
definition GIT_STATUS_IGNORED :: "32 word" where "GIT_STATUS_IGNORED = 0x4000"
definition GIT_STATUS_CONFLICTED :: "32 word" where "GIT_STATUS_CONFLICTED = 0x8000"

lemmas status_flags = GIT_STATUS_INDEX_NEW_def GIT_STATUS_INDEX_MODIFIED_def GIT_STATUS_INDEX_DELETED_def
  GIT_STATUS_INDEX_RENAMED_def GIT_STATUS_INDEX_TYPECHANGE_def GIT_STATUS_WT_NEW_def GIT_STATUS_WT_MODIFIED_def
  GIT_STATUS_WT_DELETED_def GIT_STATUS_WT_TYPECHANGE_def GIT_STATUS_WT_RENAMED_def GIT_STATUS_WT_UNREADABLE_def
  GIT_STATUS_IGNORED_def GIT_STATUS_CONFLICTED_def

datatype file_state = FNew | FModified | FDeleted | FRenamed | FCopied | FTypeChange | FIgnored | FConflicted

fun file_state_name :: "file_state \<Rightarrow> string" where
  "file_state_name FNew = ''new''"
| "file_state_name FModified = ''modified''"
| "file_state_name FDeleted = ''deleted''"
| "file_state_name FRenamed = ''renamed''"
| "file_state_name FCopied = ''copied''"
| "file_state_name FTypeChange = ''typechange''"
| "file_state_name FIgnored = ''ignored''"
| "file_state_name FConflicted = ''conflicted''"

definition has_flag :: "32 word \<Rightarrow> 32 word \<Rightarrow> bool" where
  "has_flag flags m \<longleftrightarrow> flags AND m \<noteq> 0"

definition convert_index_status :: "32 word \<Rightarrow> file_state" where
  "convert_index_status flags =
     (if has_flag flags GIT_STATUS_INDEX_NEW then FNew
      else if has_flag flags GIT_STATUS_INDEX_MODIFIED then FModified
      else if has_flag flags GIT_STATUS_INDEX_DELETED then FDeleted
      else if has_flag flags GIT_STATUS_INDEX_RENAMED then FRenamed
      else if has_flag flags GIT_STATUS_INDEX_TYPECHANGE then FTypeChange
      else FModified)"

definition convert_workdir_status :: "32 word \<Rightarrow> file_state" where
  "convert_workdir_status flags =
     (if has_flag flags GIT_STATUS_WT_NEW then FNew
      else if has_flag flags GIT_STATUS_WT_MODIFIED then FModified
      else if has_flag flags GIT_STATUS_WT_DELETED then FDeleted
      else if has_flag flags GIT_STATUS_WT_RENAMED then FRenamed
      else if has_flag flags GIT_STATUS_WT_TYPECHANGE then FTypeChange
      else if has_flag flags GIT_STATUS_IGNORED then FIgnored
      else if has_flag flags GIT_STATUS_CONFLICTED then FConflicted
      else FModified)"

definition has_index_status :: "32 word \<Rightarrow> bool" where
  "has_index_status flags \<longleftrightarrow>
     has_flag flags (GIT_STATUS_INDEX_NEW OR GIT_STATUS_INDEX_MODIFIED OR GIT_STATUS_INDEX_DELETED
       OR GIT_STATUS_INDEX_RENAMED OR GIT_STATUS_INDEX_TYPECHANGE)"

definition has_workdir_status :: "32 word \<Rightarrow> bool" where
  "has_workdir_status flags \<longleftrightarrow>
     has_flag flags (GIT_STATUS_WT_NEW OR GIT_STATUS_WT_MODIFIED OR GIT_STATUS_WT_DELETED OR GIT_STATUS_WT_RENAMED
       OR GIT_STATUS_WT_TYPECHANGE OR GIT_STATUS_CONFLICTED)"

lemma has_flag_or: "has_flag flags (a OR b) \<longleftrightarrow> has_flag flags a \<or> has_flag flags b"
  by (simp add: has_flag_def bit.conj_disj_distrib or_eq_0_iff)

section \<open>The status of a work tree\<close>

record status_delta =
  sd_old :: "string option"
  sd_new :: "string option"
  sd_similarity :: nat

record raw_status =
  rw_flags :: "32 word"
  rw_head_index :: "status_delta option"
  rw_index_workdir :: "status_delta option"

datatype status_show = IndexAndWorkdir | IndexOnly | WorkdirOnly

record status_query =
  sq_show :: status_show
  sq_untracked :: bool
  sq_recurse :: bool
  sq_ignored :: bool
  sq_renames_index :: bool
  sq_renames_workdir :: bool
  sq_sorted :: bool
  sq_threshold :: nat
  sq_paths :: "string list"

definition plain_query :: "status_show \<Rightarrow> status_query" where
  "plain_query sh =
     \<lparr>sq_show = sh, sq_untracked = False, sq_recurse = False, sq_ignored = False, sq_renames_index = False,
      sq_renames_workdir = False, sq_sorted = False, sq_threshold = 0, sq_paths = []\<rparr>"

record status_options =
  so_untracked :: bool
  so_recurse :: bool
  so_ignored :: bool
  so_renames :: bool
  so_threshold :: nat
  so_paths :: "string list"

definition default_status_options :: status_options where
  "default_status_options =
     \<lparr>so_untracked = True, so_recurse = True, so_ignored = False, so_renames = True, so_threshold = 50, so_paths = []\<rparr>"

record status_entry =
  se_path :: string
  se_old_path :: "string option"
  se_index :: "file_state option"
  se_workdir :: "file_state option"
  se_similarity :: nat

text \<open>
  libgit2 for this part: the list for a query (an entry may be missing), the two counts of a comparison, whether a walker
  can be made, and what it walks when one commit is pushed and one hidden.
\<close>

record status_lib =
  sl_list :: "status_query \<Rightarrow> git_failure + raw_status option list"
  sl_ahead_behind :: "oid \<Rightarrow> oid \<Rightarrow> git_failure + nat \<times> nat"
  sl_walker :: "git_failure option"
  sl_walk :: "oid \<Rightarrow> oid \<Rightarrow> oid list"

definition list_query :: "status_options \<Rightarrow> status_query" where
  "list_query o' =
     \<lparr>sq_show = IndexAndWorkdir, sq_untracked = so_untracked o', sq_recurse = so_recurse o', sq_ignored = so_ignored o',
      sq_renames_index = True, sq_renames_workdir = so_renames o', sq_sorted = True, sq_threshold = so_threshold o',
      sq_paths = map c_str (so_paths o')\<rparr>"

definition status_path :: "raw_status \<Rightarrow> string" where
  "status_path r =
     (case Option.bind (rw_head_index r) sd_new of
        Some p \<Rightarrow> p
      | None \<Rightarrow> (case Option.bind (rw_index_workdir r) sd_new of Some p \<Rightarrow> p | None \<Rightarrow> []))"

definition status_old_path :: "raw_status \<Rightarrow> string option" where
  "status_old_path r =
     (case rw_head_index r of
        None \<Rightarrow> None
      | Some d \<Rightarrow>
          (case (sd_new d, sd_old d) of
             (Some p, Some q) \<Rightarrow> (if q \<noteq> p then Some q else None)
           | _ \<Rightarrow> None))"

definition status_entry_of :: "raw_status \<Rightarrow> status_entry" where
  "status_entry_of r =
     \<lparr>se_path = status_path r, se_old_path = status_old_path r,
      se_index = (if has_index_status (rw_flags r) then Some (convert_index_status (rw_flags r)) else None),
      se_workdir = (if has_flag (rw_flags r) GIT_STATUS_IGNORED then Some FIgnored
                    else if has_workdir_status (rw_flags r) then Some (convert_workdir_status (rw_flags r)) else None),
      se_similarity = (case rw_head_index r of Some d \<Rightarrow> (if sd_new d \<noteq> None then sd_similarity d else 0) | None \<Rightarrow> 0)\<rparr>"

definition status_list :: "status_lib \<Rightarrow> status_options \<Rightarrow> gm_error + status_entry list" where
  "status_list lib o' =
     bindr (checked ''getting status list'' (sl_list lib (list_query o'))) (\<lambda>rs.
       Inr (map status_entry_of (filter (\<lambda>r. status_path r \<noteq> []) (somes rs))))"

definition status_has_changes :: "status_lib \<Rightarrow> gm_error + bool" where
  "status_has_changes lib =
     bindr (checked ''getting status list'' (sl_list lib (plain_query IndexAndWorkdir))) (\<lambda>rs. Inr (rs \<noteq> []))"

definition status_has_staged :: "status_lib \<Rightarrow> gm_error + bool" where
  "status_has_staged lib =
     bindr (checked ''getting status list'' (sl_list lib (plain_query IndexOnly))) (\<lambda>rs. Inr (rs \<noteq> []))"

definition status_has_unstaged :: "status_lib \<Rightarrow> gm_error + bool" where
  "status_has_unstaged lib =
     bindr (checked ''getting status list'' (sl_list lib (plain_query WorkdirOnly))) (\<lambda>rs.
       Inr (list_ex (\<lambda>r. has_flag (rw_flags r) (GIT_STATUS_WT_MODIFIED OR GIT_STATUS_WT_DELETED OR GIT_STATUS_WT_RENAMED
                                                  OR GIT_STATUS_WT_TYPECHANGE)) (somes rs)))"

definition status_has_untracked :: "status_lib \<Rightarrow> gm_error + bool" where
  "status_has_untracked lib =
     bindr (checked ''getting status list'' (sl_list lib ((plain_query WorkdirOnly)\<lparr>sq_untracked := True\<rparr>))) (\<lambda>rs.
       Inr (list_ex (\<lambda>r. has_flag (rw_flags r) GIT_STATUS_WT_NEW) (somes rs)))"

section \<open>Against the upstream\<close>

record sync_status =
  sy_upstream :: string
  sy_ahead :: "oid list"
  sy_behind :: "oid list"

definition is_synced :: "sync_status \<Rightarrow> bool" where
  "is_synced s \<longleftrightarrow> sy_ahead s = [] \<and> sy_behind s = []"

text \<open>One side is walked only when its count is not zero. Whether push and hide succeeded is not looked at.\<close>

definition sync_side :: "status_lib \<Rightarrow> nat \<Rightarrow> oid \<Rightarrow> oid \<Rightarrow> gm_error + oid list" where
  "sync_side lib n from hidden =
     (if n = 0 then Inr []
      else case sl_walker lib of
             Some f \<Rightarrow> Inl (check_libgit2_error f ''creating revision walker'')
           | None \<Rightarrow> Inr (sl_walk lib from hidden))"

definition sync_branch :: "status_lib \<Rightarrow> ref_lib \<Rightarrow> string \<Rightarrow> gm_error + sync_status option" where
  "sync_branch lib rl branch =
     (case branch_upstream rl branch of
        None \<Rightarrow> Inr None
      | Some up \<Rightarrow>
          bindr (branch_get rl branch False) (\<lambda>local.
            case local of
              None \<Rightarrow> Inr None
            | Some l \<Rightarrow>
                bindr (checked ''computing ahead/behind'' (sl_ahead_behind lib (bi_target l) (bi_target up))) (\<lambda>(a, b).
                bindr (sync_side lib a (bi_target l) (bi_target up)) (\<lambda>ahead.
                bindr (sync_side lib b (bi_target up) (bi_target l)) (\<lambda>behind.
                  Inr (Some \<lparr>sy_upstream = bi_name up, sy_ahead = ahead, sy_behind = behind\<rparr>))))))"

definition sync_current :: "status_lib \<Rightarrow> ref_lib \<Rightarrow> gm_error + sync_status option" where
  "sync_current lib rl =
     (case branch_current rl of None \<Rightarrow> Inr None | Some b \<Rightarrow> sync_branch lib rl (bi_name b))"

section \<open>What a status says is so\<close>

text \<open>The flags a state stands for, in the index and in the work tree.\<close>

fun index_flag :: "file_state \<Rightarrow> 32 word" where
  "index_flag FNew = GIT_STATUS_INDEX_NEW"
| "index_flag FModified = GIT_STATUS_INDEX_MODIFIED"
| "index_flag FDeleted = GIT_STATUS_INDEX_DELETED"
| "index_flag FRenamed = GIT_STATUS_INDEX_RENAMED"
| "index_flag FTypeChange = GIT_STATUS_INDEX_TYPECHANGE"
| "index_flag _ = 0"

fun workdir_flag :: "file_state \<Rightarrow> 32 word" where
  "workdir_flag FNew = GIT_STATUS_WT_NEW"
| "workdir_flag FModified = GIT_STATUS_WT_MODIFIED"
| "workdir_flag FDeleted = GIT_STATUS_WT_DELETED"
| "workdir_flag FRenamed = GIT_STATUS_WT_RENAMED"
| "workdir_flag FTypeChange = GIT_STATUS_WT_TYPECHANGE"
| "workdir_flag FIgnored = GIT_STATUS_IGNORED"
| "workdir_flag FConflicted = GIT_STATUS_CONFLICTED"
| "workdir_flag FCopied = 0"

definition tells :: "raw_status \<Rightarrow> status_entry \<Rightarrow> bool" where
  "tells r e \<longleftrightarrow>
     se_path e = status_path r
     \<and> (case se_index e of
          Some s \<Rightarrow> has_flag (rw_flags r) (index_flag s)
        | None \<Rightarrow> (\<forall>s \<in> {FNew, FModified, FDeleted, FRenamed, FTypeChange}. \<not> has_flag (rw_flags r) (index_flag s)))
     \<and> (case se_workdir e of
          Some s \<Rightarrow> has_flag (rw_flags r) (workdir_flag s)
        | None \<Rightarrow> (\<forall>s. \<not> has_flag (rw_flags r) (workdir_flag s)))"

lemma no_flag [simp]: "\<not> has_flag flags 0"
  by (simp add: has_flag_def)

lemma entry_tells: "tells r (status_entry_of r)"
proof -
  have "has_workdir_status f \<Longrightarrow> \<not> has_flag f GIT_STATUS_IGNORED \<Longrightarrow> has_flag f (workdir_flag (convert_workdir_status f))" for f
    by (auto simp: has_workdir_status_def convert_workdir_status_def has_flag_or)
  moreover have "has_index_status f \<Longrightarrow> has_flag f (index_flag (convert_index_status f))" for f
    by (auto simp: has_index_status_def convert_index_status_def has_flag_or)
  moreover have "\<not> has_flag f (workdir_flag s)" if "\<not> has_workdir_status f" "\<not> has_flag f GIT_STATUS_IGNORED" for f s
    using that by (cases s) (simp_all add: has_workdir_status_def has_flag_or)
  moreover have "\<not> has_index_status f \<Longrightarrow> s \<in> {FNew, FModified, FDeleted, FRenamed, FTypeChange} \<Longrightarrow> \<not> has_flag f (index_flag s)" for f s
    by (auto simp: has_index_status_def has_flag_or)
  ultimately show ?thesis by (simp add: tells_def status_entry_of_def)
qed

text \<open>
  A status says what is so: the entries listed are those libgit2 gave that have a path, each once and in its order, and
  each of them tells, of the index and of the work tree, a state libgit2 flagged, or none only where it flagged no state
  that an entry can tell; the fallbacks of the conversion are never used.
\<close>

theorem status_truthful:
  assumes "status_list lib o' = Inr es" and "sl_list lib (list_query o') = Inr rs"
  shows "list_all2 tells (filter (\<lambda>r. status_path r \<noteq> []) (somes rs)) es"
  using assms entry_tells by (auto simp: status_list_def bindr_def list_all2_map2 list.rel_refl)

definition demo_status :: status_lib where
  "demo_status =
     \<lparr>sl_list = (\<lambda>_. Inr [Some \<lparr>rw_flags = 0x108, rw_head_index = Some \<lparr>sd_old = Some ''a'', sd_new = Some ''b'', sd_similarity = 90\<rparr>,
                               rw_index_workdir = Some \<lparr>sd_old = Some ''b'', sd_new = Some ''b'', sd_similarity = 0\<rparr>\<rparr>, None]),
      sl_ahead_behind = (\<lambda>i h. Inr (if i = h then (0, 0) else (1, 1))), sl_walker = None,
      sl_walk = (\<lambda>i h. if i = h then [] else [i])\<rparr>"

lemma status_truthful_witness:
  "\<exists>es. status_list demo_status default_status_options = Inr es \<and> length es = 1
     \<and> list_all2 tells (filter (\<lambda>r. status_path r \<noteq> []) (somes [Some \<lparr>rw_flags = 0x108,
          rw_head_index = Some \<lparr>sd_old = Some ''a'', sd_new = Some ''b'', sd_similarity = 90\<rparr>,
          rw_index_workdir = Some \<lparr>sd_old = Some ''b'', sd_new = Some ''b'', sd_similarity = 0\<rparr>\<rparr>, None])) es"
proof -
  obtain es where "status_list demo_status default_status_options = Inr es" "length es = 1"
    by (simp add: status_list_def demo_status_def bindr_def somes_def status_path_def)
  then show ?thesis using status_truthful [of demo_status default_status_options es] by (simp add: demo_status_def)
qed

text \<open>
  The shorter questions do not agree with the list: a file in conflict is no unstaged change, and a file that cannot be read
  is listed without any state.
\<close>

lemma conflict_not_unstaged:
  assumes "sl_list lib (plain_query WorkdirOnly) = Inr [Some \<lparr>rw_flags = GIT_STATUS_CONFLICTED, rw_head_index = h, rw_index_workdir = w\<rparr>]"
  shows "status_has_unstaged lib = Inr False
    \<and> se_workdir (status_entry_of \<lparr>rw_flags = GIT_STATUS_CONFLICTED, rw_head_index = h, rw_index_workdir = w\<rparr>) = Some FConflicted"
  using assms
  by (simp add: status_has_unstaged_def bindr_def somes_def status_entry_of_def has_workdir_status_def convert_workdir_status_def
      has_flag_def status_flags)

lemma unreadable_without_state:
  "se_index (status_entry_of \<lparr>rw_flags = GIT_STATUS_WT_UNREADABLE, rw_head_index = h, rw_index_workdir = w\<rparr>) = None"
  "se_workdir (status_entry_of \<lparr>rw_flags = GIT_STATUS_WT_UNREADABLE, rw_head_index = h, rw_index_workdir = w\<rparr>) = None"
  by (simp_all add: status_entry_of_def has_workdir_status_def has_index_status_def has_flag_def status_flags)

text \<open>What libgit2 documents of the comparison of two commits and of a walk from one that hides the other.\<close>

definition compares_exactly :: "status_lib \<Rightarrow> repository \<Rightarrow> oid \<Rightarrow> oid \<Rightarrow> bool" where
  "compares_exactly lib rp i j \<longleftrightarrow>
     finite (history rp i) \<and> finite (history rp j)
     \<and> sl_ahead_behind lib i j = Inr (card (history rp i - history rp j), card (history rp j - history rp i))
     \<and> distinct (sl_walk lib i j) \<and> set (sl_walk lib i j) = history rp i - history rp j
     \<and> distinct (sl_walk lib j i) \<and> set (sl_walk lib j i) = history rp j - history rp i"

lemma side_exact:
  assumes "sync_side lib (card (A - B)) i h = Inr xs" and "finite A" and "distinct (sl_walk lib i h)" and "set (sl_walk lib i h) = A - B"
  shows "distinct xs \<and> set xs = A - B"
  using assms by (auto simp: sync_side_def split: if_splits option.splits)

text \<open>
  C37. What is to be pushed and what is to be pulled: a branch's sync status lists, each once, exactly the commits in the
  history of the branch and not in its upstream's, and the other way round; and the branch counts as synced only when the
  two histories are the same.
\<close>

theorem sync_exact:
  assumes "sync_branch lib rl branch = Inr (Some s)" and "branch_upstream rl branch = Some up"
    and "branch_get rl branch False = Inr (Some l)" and "compares_exactly lib rp (bi_target l) (bi_target up)"
  shows "distinct (sy_ahead s) \<and> set (sy_ahead s) = history rp (bi_target l) - history rp (bi_target up)
    \<and> distinct (sy_behind s) \<and> set (sy_behind s) = history rp (bi_target up) - history rp (bi_target l)
    \<and> (is_synced s \<longleftrightarrow> history rp (bi_target l) = history rp (bi_target up))"
proof -
  let ?i = "bi_target l" and ?j = "bi_target up"
  note c = assms(4) [unfolded compares_exactly_def]
  obtain ahead behind where a: "sync_side lib (card (history rp ?i - history rp ?j)) ?i ?j = Inr ahead"
    and b: "sync_side lib (card (history rp ?j - history rp ?i)) ?j ?i = Inr behind"
    and s: "s = \<lparr>sy_upstream = bi_name up, sy_ahead = ahead, sy_behind = behind\<rparr>"
    using assms(1) c by (auto simp: sync_branch_def assms(2,3) bindr_def split: sum.splits)
  have "distinct ahead \<and> set ahead = history rp ?i - history rp ?j" using side_exact [OF a] c by blast
  moreover have "distinct behind \<and> set behind = history rp ?j - history rp ?i" using side_exact [OF b] c by blast
  ultimately show ?thesis by (auto simp: s is_synced_def simp flip: set_empty)
qed

lemma sync_exact_witness:
  "\<exists>s. sync_branch demo_status forked_refs ''main'' = Inr (Some s) \<and> set (sy_ahead s) = history forked ''2'' - history forked ''3''
     \<and> (is_synced s \<longleftrightarrow> history forked ''2'' = history forked ''3'')"
proof -
  let ?u = "\<lparr>bi_name = ''o/main'', bi_refname = ''refs/remotes/o/main'', bi_target = ''3'', bi_is_remote = True, bi_is_head = False,
      bi_upstream = None, bi_remote_name = Some ''o''\<rparr>"
  let ?l = "\<lparr>bi_name = ''main'', bi_refname = ''refs/heads/main'', bi_target = ''2'', bi_is_remote = False, bi_is_head = True,
     bi_upstream = Some ''o/main'', bi_remote_name = None\<rparr>"
  have u: "branch_upstream forked_refs ''main'' = Some ?u"
    by (simp add: branch_upstream_def forked_refs_def c_str_def bindr_def remote_part_def before_def or_else_def Let_def)
  have l: "branch_get forked_refs ''main'' False = Inr (Some ?l)"
    by (simp add: branch_get_def found_def forked_refs_def branch_of_def upstream_name_def c_str_def bindr_def)
  let ?s = "\<lparr>sy_upstream = ''o/main'', sy_ahead = [''2''], sy_behind = [''3'']\<rparr>"
  have s: "sync_branch demo_status forked_refs ''main'' = Inr (Some ?s)"
    by (simp add: sync_branch_def u l bindr_def demo_status_def sync_side_def)
  have "compares_exactly demo_status forked (bi_target ?l) (bi_target ?u)"
    by (simp add: compares_exactly_def forked_history demo_status_def insert_Diff_if)
  from sync_exact [OF s u l this] have "set (sy_ahead ?s) = history forked ''2'' - history forked ''3''"
    "is_synced ?s \<longleftrightarrow> history forked ''2'' = history forked ''3''"
    by simp_all
  with s show ?thesis by blast
qed

section \<open>Who wrote a line\<close>

record raw_signature =
  rg_name :: "string option"
  rg_email :: "string option"
  rg_time :: int
  rg_offset :: int

record raw_hunk =
  rh_lines :: nat
  rh_final :: oid
  rh_start :: nat
  rh_final_sig :: "raw_signature option"
  rh_orig :: oid
  rh_path :: "string option"
  rh_orig_start :: nat
  rh_orig_sig :: "raw_signature option"
  rh_boundary :: int

record blame_hunk =
  bh_lines :: nat
  bh_final :: oid
  bh_start :: nat
  bh_final_sig :: signature
  bh_orig :: oid
  bh_path :: string
  bh_orig_start :: nat
  bh_orig_sig :: signature
  bh_boundary :: bool

definition no_signature :: signature where
  "no_signature = \<lparr>sg_name = [], sg_email = [], sg_time = 0, sg_offset = 0\<rparr>"

definition signature_from :: "raw_signature option \<Rightarrow> signature" where
  "signature_from r =
     (case r of
        None \<Rightarrow> no_signature
      | Some s \<Rightarrow> \<lparr>sg_name = or_else [] (rg_name s), sg_email = or_else [] (rg_email s), sg_time = rg_time s, sg_offset = rg_offset s\<rparr>)"

definition convert_hunk :: "raw_hunk \<Rightarrow> blame_hunk" where
  "convert_hunk h =
     \<lparr>bh_lines = rh_lines h, bh_final = rh_final h, bh_start = rh_start h, bh_final_sig = signature_from (rh_final_sig h),
      bh_orig = rh_orig h, bh_path = or_else [] (rh_path h), bh_orig_start = rh_orig_start h,
      bh_orig_sig = signature_from (rh_orig_sig h), bh_boundary = (rh_boundary h \<noteq> 0)\<rparr>"

text \<open>The options as libgit2 is given them; the two lines are cut to 32 bits.\<close>

record blame_options =
  bo_whitespace :: bool
  bo_same_file :: bool
  bo_same_commit :: bool
  bo_any_commit :: bool
  bo_newest :: "oid option"
  bo_oldest :: "oid option"
  bo_min_line :: nat
  bo_max_line :: nat

definition blame_query :: "blame_options \<Rightarrow> blame_options" where
  "blame_query o' = o'\<lparr>bo_min_line := bo_min_line o' mod 2 ^ 32, bo_max_line := bo_max_line o' mod 2 ^ 32\<rparr>"

definition blame_file :: "(string \<Rightarrow> blame_options \<Rightarrow> git_failure + raw_hunk list) \<Rightarrow> string \<Rightarrow> blame_options \<Rightarrow> gm_error + raw_hunk list" where
  "blame_file blame path o' = checked (''blaming file '' @ path) (blame (c_str path) (blame_query o'))"

definition blame_file_at ::
  "(string \<Rightarrow> blame_options \<Rightarrow> git_failure + raw_hunk list) \<Rightarrow> string \<Rightarrow> oid \<Rightarrow> blame_options \<Rightarrow> gm_error + raw_hunk list" where
  "blame_file_at blame path i o' = blame_file blame path (o'\<lparr>bo_newest := Some i\<rparr>)"

text \<open>A hunk by its number, which is cut to 32 bits, and by a line, from 1, which libgit2 looks for.\<close>

definition hunk_at :: "raw_hunk list \<Rightarrow> nat \<Rightarrow> raw_hunk option" where
  "hunk_at hs n = (if n < length hs then Some (hs ! n) else None)"

definition blame_hunk_at :: "raw_hunk list \<Rightarrow> nat \<Rightarrow> blame_hunk option" where
  "blame_hunk_at hs n = map_option convert_hunk (hunk_at hs (n mod 2 ^ 32))"

definition blame_hunks :: "raw_hunk list \<Rightarrow> blame_hunk list" where
  "blame_hunks hs = somes (map (blame_hunk_at hs) [0..<length hs])"

definition blame_line :: "(raw_hunk list \<Rightarrow> nat \<Rightarrow> raw_hunk option) \<Rightarrow> raw_hunk list \<Rightarrow> nat \<Rightarrow> blame_hunk option" where
  "blame_line byline hs n = map_option convert_hunk (byline hs n)"

definition line_commit :: "(raw_hunk list \<Rightarrow> nat \<Rightarrow> raw_hunk option) \<Rightarrow> raw_hunk list \<Rightarrow> nat \<Rightarrow> oid option" where
  "line_commit byline hs n = map_option bh_final (blame_line byline hs n)"

definition contains_line :: "blame_hunk \<Rightarrow> nat \<Rightarrow> bool" where
  "contains_line h n \<longleftrightarrow> bh_start h \<le> n \<and> n < bh_start h + bh_lines h"

text \<open>The last line of a hunk, at the width of \<^verbatim>\<open>size_t\<close>: an empty hunk at line 0 ends at the largest number.\<close>

definition end_line :: "blame_hunk \<Rightarrow> 64 word" where
  "end_line h = of_nat (bh_start h) + of_nat (bh_lines h) - 1"

lemma end_line_last:
  assumes "bh_start h + bh_lines h < 2 ^ 64" and "0 < bh_lines h"
  shows "contains_line h (unat (end_line h)) \<and> \<not> contains_line h (Suc (unat (end_line h)))"
proof -
  have "end_line h = of_nat (bh_start h + bh_lines h - 1)"
    using assms(2) by (simp add: end_line_def of_nat_diff)
  then have "unat (end_line h) = bh_start h + bh_lines h - 1"
    using assms(1) by (simp add: unat_of_nat take_bit_nat_eq_self)
  then show ?thesis using assms(2) by (auto simp: contains_line_def)
qed

lemma blame_hunks_all:
  assumes "length hs \<le> 2 ^ 32"
  shows "blame_hunks hs = map convert_hunk hs"
proof -
  have "map (blame_hunk_at hs) [0..<length hs] = map (Some \<circ> convert_hunk) hs"
    by (rule nth_equalityI) (use assms in \<open>simp_all add: blame_hunk_at_def hunk_at_def\<close>)
  moreover have "somes (map (Some \<circ> f) xs) = map f xs" for f :: "raw_hunk \<Rightarrow> blame_hunk" and xs
    by (induction xs) (simp_all add: somes_def)
  ultimately show ?thesis by (simp add: blame_hunks_def)
qed

lemma hunk_index_wraps: "0 < length hs \<Longrightarrow> blame_hunk_at hs (2 ^ 32) = Some (convert_hunk (hs ! 0))"
  by (simp add: blame_hunk_at_def hunk_at_def)

text \<open>The line's commit is that of a listed hunk that contains the line, when libgit2's search finds such a hunk.\<close>

lemma line_in_hunks:
  assumes "length hs \<le> 2 ^ 32" and "\<And>h. byline hs n = Some h \<Longrightarrow> h \<in> set hs \<and> rh_start h \<le> n \<and> n < rh_start h + rh_lines h"
    and "line_commit byline hs n = Some i"
  shows "\<exists>h \<in> set (blame_hunks hs). bh_final h = i \<and> contains_line h n"
proof -
  obtain h where h: "byline hs n = Some h" "i = rh_final h"
    using assms(3) by (auto simp: line_commit_def blame_line_def convert_hunk_def)
  then have "convert_hunk h \<in> set (blame_hunks hs)" "contains_line (convert_hunk h) n"
    using assms(1,2) by (simp_all add: blame_hunks_all contains_line_def convert_hunk_def)
  then show ?thesis using h(2) by (intro bexI [of _ "convert_hunk h"]) (simp_all add: convert_hunk_def)
qed

end
