(* ===== verification/RepoCalls.thy ===== *)
theory RepoCalls
  imports GitStatus
begin

text \<open>
  The rest of \<^verbatim>\<open>Repository\<close> (\<^verbatim>\<open>src/gitmanip/src/repository.cpp\<close>): opening and making repositories, references and branches,
  trees and blobs, the index and the work tree. libgit2's calls are parameters; a call that changes the repository takes
  a state of any type and gives the failure, if any, with the state it leaves.
\<close>

section \<open>Opening\<close>

record 'r open_lib =
  ol_open :: "string \<Rightarrow> git_failure + 'r"
  ol_discover :: "string \<Rightarrow> git_failure + string"
  ol_init :: "string \<Rightarrow> bool \<Rightarrow> git_failure + 'r"

definition repository_open :: "'r open_lib \<Rightarrow> string \<Rightarrow> gm_error + 'r" where
  "repository_open ol path = checked (''opening repository at '' @ path) (ol_open ol (c_str path))"

definition repository_discover :: "'r open_lib \<Rightarrow> string \<Rightarrow> gm_error + 'r" where
  "repository_discover ol path =
     bindr (checked (''discovering repository from '' @ path) (ol_discover ol (c_str path))) (repository_open ol)"

definition repository_init :: "'r open_lib \<Rightarrow> string \<Rightarrow> bool \<Rightarrow> gm_error + 'r" where
  "repository_init ol path bare = checked (''initializing repository at '' @ path) (ol_init ol (c_str path) bare)"

text \<open>libgit2 is started with the first of its users and shut down with the last.\<close>

definition init_libgit2 :: "int \<times> bool \<Rightarrow> int \<times> bool" where
  "init_libgit2 st = (fst st + 1, fst st = 0 \<or> snd st)"

definition shutdown_libgit2 :: "int \<times> bool \<Rightarrow> int \<times> bool" where
  "shutdown_libgit2 st = (fst st - 1, fst st \<noteq> 1 \<and> snd st)"

definition libgit2_counted :: "int \<times> bool \<Rightarrow> bool" where
  "libgit2_counted st \<longleftrightarrow> 0 \<le> fst st \<and> (snd st \<longleftrightarrow> 0 < fst st)"

lemma libgit2_up_while_used:
  "libgit2_counted st \<Longrightarrow> libgit2_counted (init_libgit2 st)"
  "libgit2_counted st \<Longrightarrow> 0 < fst st \<Longrightarrow> libgit2_counted (shutdown_libgit2 st)"
  by (auto simp: libgit2_counted_def init_libgit2_def shutdown_libgit2_def)

text \<open>An id from libgit2, zero for a null pointer; a signature of now, its offset cut to minutes.\<close>

definition oid_from :: "oid option \<Rightarrow> oid" where
  "oid_from i = or_else zero_oid i"

definition signature_now :: "string \<Rightarrow> string \<Rightarrow> int \<Rightarrow> int \<Rightarrow> signature" where
  "signature_now name email now gmtoff =
     \<lparr>sg_name = name, sg_email = email, sg_time = now, sg_offset = sgn gmtoff * (\<bar>gmtoff\<bar> div 60)\<rparr>"

text \<open>The work tree, the empty path for a bare repository.\<close>

definition repository_workdir :: "string option \<Rightarrow> string" where
  "repository_workdir wd = or_else [] wd"

section \<open>References and branches\<close>

definition try_resolve_ref :: "(string \<Rightarrow> git_failure + oid) \<Rightarrow> string \<Rightarrow> gm_error + oid option" where
  "try_resolve_ref name_to_id refname =
     (case name_to_id (c_str refname) of
        Inr i \<Rightarrow> Inr (Some i)
      | Inl f \<Rightarrow> (if gf_code f = GIT_ENOTFOUND then Inr None
                  else Inl (check_libgit2_error f (''resolving reference '' @ refname))))"

definition head_name :: "ref_lib \<Rightarrow> gm_error + string" where
  "head_name rl = bindr (checked ''getting HEAD reference'' (rl_head rl)) (\<lambda>r. Inr (rf_name r))"

definition branch_names :: "ref_lib \<Rightarrow> bool \<Rightarrow> bool \<Rightarrow> gm_error + string list" where
  "branch_names rl local remote =
     bindr (checked ''creating branch iterator'' (rl_branches rl local remote)) (\<lambda>rs. Inr (somes (map (rf_short \<circ> fst) rs)))"

text \<open>The names are those of \<^verbatim>\<open>Branch::list\<close>, when every branch has one and some kind is asked for.\<close>

lemma branch_names_listed:
  assumes "rl_branches rl local remote = Inr rs" and "\<forall>(r, _) \<in> set rs. rf_short r \<noteq> None" and "local \<or> remote"
  shows "\<exists>bs. branch_list rl local remote = Inr bs \<and> branch_names rl local remote = Inr (map bi_name bs)"
proof -
  have "somes (map (rf_short \<circ> fst) rs) = map (bi_name \<circ> (\<lambda>(r, is_remote). branch_of rl (or_else [] (rf_short r)) is_remote r)) rs"
    using assms(2) by (induction rs) (auto simp: somes_def branch_of_def or_else_def)
  then show ?thesis using assms(1,3) by (auto simp: branch_list_def branch_names_def bindr_def)
qed

type_synonym 's git_call = "'s \<Rightarrow> git_failure option \<times> 's"
type_synonym 's gm_call = "'s \<Rightarrow> gm_error option \<times> 's"

definition calling :: "string \<Rightarrow> 's git_call \<Rightarrow> 's gm_call" where
  "calling ctx call s = (case call s of (f, s') \<Rightarrow> (map_option (\<lambda>f. check_libgit2_error f ctx) f, s'))"

definition and_then :: "'s gm_call \<Rightarrow> 's gm_call \<Rightarrow> 's gm_call" where
  "and_then a b s = (case a s of (Some e, s') \<Rightarrow> (Some e, s') | (None, s') \<Rightarrow> b s')"

text \<open>
  The calls that change something: branches, HEAD, the index in memory and on disk, the work tree. \<open>cl_head\<close> is what
  \<^verbatim>\<open>HEAD\<close> resolves to.
\<close>

record 's change_lib =
  cl_branch_create :: "string \<Rightarrow> oid \<Rightarrow> bool \<Rightarrow> 's git_call"
  cl_branch_lookup :: "string \<Rightarrow> 's \<Rightarrow> git_failure option"
  cl_branch_delete :: "string \<Rightarrow> 's git_call"
  cl_set_head :: "string \<Rightarrow> 's git_call"
  cl_detach_head :: "oid \<Rightarrow> 's git_call"
  cl_index :: "'s \<Rightarrow> git_failure option"
  cl_index_add :: "string \<Rightarrow> 's git_call"
  cl_index_add_all :: "string list \<Rightarrow> 's git_call"
  cl_index_clear :: "'s git_call"
  cl_index_write :: "'s git_call"
  cl_index_tree :: "'s \<Rightarrow> git_failure + oid"
  cl_head :: "'s \<Rightarrow> git_failure + oid"
  cl_reset_mixed :: "oid \<Rightarrow> 's git_call"
  cl_checkout_tree :: "git_tree \<Rightarrow> bool \<Rightarrow> 's git_call"
  cl_checkout_head :: "bool \<Rightarrow> 's git_call"

definition looking :: "('s \<Rightarrow> git_failure option) \<Rightarrow> 's git_call" where
  "looking f s = (f s, s)"

definition create_branch :: "'s change_lib \<Rightarrow> string \<Rightarrow> oid \<Rightarrow> bool \<Rightarrow> 's gm_call" where
  "create_branch cl name target force = calling (''creating branch '' @ name) (cl_branch_create cl (c_str name) target force)"

definition delete_branch :: "'s change_lib \<Rightarrow> string \<Rightarrow> 's gm_call" where
  "delete_branch cl name =
     and_then (calling (''looking up branch '' @ name) (looking (cl_branch_lookup cl (c_str name))))
       (calling (''deleting branch '' @ name) (cl_branch_delete cl (c_str name)))"

definition set_head :: "'s change_lib \<Rightarrow> string \<Rightarrow> 's gm_call" where
  "set_head cl refname = calling (''setting HEAD to '' @ refname) (cl_set_head cl (c_str refname))"

definition set_head_detached :: "'s change_lib \<Rightarrow> oid \<Rightarrow> 's gm_call" where
  "set_head_detached cl i = calling (''detaching HEAD to '' @ short_id i) (cl_detach_head cl i)"

section \<open>The index and the work tree\<close>

definition index_opened :: "'s change_lib \<Rightarrow> 's gm_call" where
  "index_opened cl = calling ''getting repository index'' (looking (cl_index cl))"

definition index_written :: "'s change_lib \<Rightarrow> 's gm_call" where
  "index_written cl = calling ''writing index'' (cl_index_write cl)"

definition add_to_index :: "'s change_lib \<Rightarrow> string \<Rightarrow> 's gm_call" where
  "add_to_index cl path =
     and_then (index_opened cl)
       (and_then (calling (''adding '' @ path @ '' to index'') (cl_index_add cl (c_str path))) (index_written cl))"

definition add_all_to_index :: "'s change_lib \<Rightarrow> 's gm_call" where
  "add_all_to_index cl =
     and_then (index_opened cl)
       (and_then (calling ''adding all files to index'' (cl_index_add_all cl [''.''])) (index_written cl))"

text \<open>Back to HEAD, or to nothing when there is no HEAD yet.\<close>

definition reset_index :: "'s change_lib \<Rightarrow> 's gm_call" where
  "reset_index cl s =
     (case cl_head cl s of
        Inr i \<Rightarrow> calling ''resetting index'' (cl_reset_mixed cl i) s
      | Inl f \<Rightarrow>
          (if gf_code f = GIT_ENOTFOUND
           then and_then (index_opened cl) (and_then (calling ''clearing index'' (cl_index_clear cl)) (index_written cl)) s
           else (Some (check_libgit2_error f ''resolving HEAD''), s)))"

definition lookup_tree :: "(oid \<Rightarrow> git_failure + git_tree) \<Rightarrow> oid \<Rightarrow> gm_error + git_tree" where
  "lookup_tree trees i = checked (''looking up tree '' @ short_id i) (trees i)"

definition empty_tree_id :: oid where
  "empty_tree_id = ''4b825dc642cb6eb9a060e54bf8d69288fbee4904''"

definition empty_tree :: "(oid \<Rightarrow> git_failure + git_tree) \<Rightarrow> gm_error + git_tree" where
  "empty_tree trees = checked ''looking up empty tree'' (trees empty_tree_id)"

definition write_index_as_tree :: "(oid \<Rightarrow> git_failure + git_tree) \<Rightarrow> 's change_lib \<Rightarrow> 's \<Rightarrow> gm_error + git_tree" where
  "write_index_as_tree trees cl s =
     (case cl_index cl s of
        Some f \<Rightarrow> Inl (check_libgit2_error f ''getting repository index'')
      | None \<Rightarrow> bindr (checked ''writing index as tree'' (cl_index_tree cl s)) (lookup_tree trees))"

definition blob_content_of :: "(oid \<Rightarrow> git_failure + string) \<Rightarrow> oid \<Rightarrow> gm_error + string" where
  "blob_content_of blobs i = checked (''looking up blob '' @ short_id i) (blobs i)"

definition checkout_tree :: "'s change_lib \<Rightarrow> git_tree \<Rightarrow> bool \<Rightarrow> 's gm_call" where
  "checkout_tree cl t force = calling ''checking out tree'' (cl_checkout_tree cl t force)"

definition checkout_head :: "'s change_lib \<Rightarrow> bool \<Rightarrow> 's gm_call" where
  "checkout_head cl force = calling ''checking out HEAD'' (cl_checkout_head cl force)"

definition clean_query :: status_query where
  "clean_query = (plain_query IndexAndWorkdir)\<lparr>sq_untracked := True, sq_recurse := True\<rparr>"

definition is_workdir_clean :: "status_lib \<Rightarrow> bool \<Rightarrow> gm_error + bool" where
  "is_workdir_clean lib bare =
     (if bare then Inr True
      else bindr (checked ''getting status list'' (sl_list lib clean_query)) (\<lambda>rs. Inr (rs = [])))"

definition has_staged_changes :: "status_lib \<Rightarrow> gm_error + bool" where
  "has_staged_changes lib =
     bindr (checked ''getting status list'' (sl_list lib (plain_query IndexOnly))) (\<lambda>rs. Inr (rs \<noteq> []))"

text \<open>The same question is asked in two places of the library, with the same answer.\<close>

lemma staged_twice: "has_staged_changes lib = status_has_staged lib"
  by (simp add: has_staged_changes_def status_has_staged_def)

section \<open>Diffs\<close>

text \<open>What libgit2 gives of one file, and what \<^verbatim>\<open>Diff\<close> makes of it.\<close>

record raw_delta =
  rd_status :: int
  rd_old :: "string option"
  rd_new :: "string option"
  rd_old_id :: oid
  rd_new_id :: oid
  rd_old_mode :: nat
  rd_new_mode :: nat
  rd_similarity :: nat

record diff_delta =
  de_status :: int
  de_old_path :: string
  de_new_path :: string
  de_old_id :: oid
  de_new_id :: oid
  de_old_mode :: nat
  de_new_mode :: nat
  de_similarity :: nat

definition convert_delta :: "raw_delta \<Rightarrow> diff_delta" where
  "convert_delta d =
     \<lparr>de_status = convert_status (rd_status d), de_old_path = or_else [] (rd_old d), de_new_path = or_else [] (rd_new d),
      de_old_id = rd_old_id d, de_new_id = rd_new_id d, de_old_mode = rd_old_mode d, de_new_mode = rd_new_mode d,
      de_similarity = rd_similarity d\<rparr>"

definition diff_delta_at :: "raw_delta list \<Rightarrow> nat \<Rightarrow> diff_delta option" where
  "diff_delta_at ds i = (if i < length ds then Some (convert_delta (ds ! i)) else None)"

definition diff_deltas :: "raw_delta list \<Rightarrow> diff_delta list" where
  "diff_deltas ds = somes (map (diff_delta_at ds) [0..<length ds])"

lemma diff_deltas_all: "diff_deltas ds = map convert_delta ds"
proof -
  have "map (diff_delta_at ds) [0..<length ds] = map (Some \<circ> convert_delta) ds"
    by (rule nth_equalityI) (simp_all add: diff_delta_at_def)
  moreover have "somes (map (Some \<circ> f) xs) = map f xs" for f :: "raw_delta \<Rightarrow> diff_delta" and xs
    by (induction xs) (simp_all add: somes_def)
  ultimately show ?thesis by (simp add: diff_deltas_def)
qed

text \<open>The text of a file's patch: made from the diff, then written out.\<close>

definition diff_patch :: "(nat \<Rightarrow> git_failure + git_failure + string) \<Rightarrow> nat \<Rightarrow> gm_error + string" where
  "diff_patch patches i =
     bindr (checked ''creating patch from diff'' (patches i)) (checked ''converting patch to buffer'')"

definition diff_stats :: "git_failure + nat \<times> nat \<times> nat \<Rightarrow> gm_error + nat \<times> nat \<times> nat" where
  "diff_stats answer = checked ''getting diff stats'' answer"

text \<open>The options of a diff, and those of them that reach libgit2 in each of the three comparisons.\<close>

record diff_options =
  dx_context :: nat
  dx_whitespace :: bool
  dx_whitespace_change :: bool
  dx_whitespace_eol :: bool
  dx_untracked :: bool
  dx_recurse :: bool
  dx_paths :: "string list"

definition plain_diff :: "nat \<Rightarrow> diff_options" where
  "plain_diff n =
     \<lparr>dx_context = n, dx_whitespace = False, dx_whitespace_change = False, dx_whitespace_eol = False, dx_untracked = False,
      dx_recurse = False, dx_paths = []\<rparr>"

record diff_lib =
  dl_trees :: "git_tree \<Rightarrow> git_tree \<Rightarrow> diff_options \<Rightarrow> git_failure + raw_delta list"
  dl_index :: "git_failure option"
  dl_tree_index :: "git_tree \<Rightarrow> diff_options \<Rightarrow> git_failure + raw_delta list"
  dl_workdir :: "diff_options \<Rightarrow> git_failure + raw_delta list"

definition diff_tree_to_tree :: "diff_lib \<Rightarrow> git_tree \<Rightarrow> git_tree \<Rightarrow> diff_options \<Rightarrow> gm_error + raw_delta list" where
  "diff_tree_to_tree dl old new o' =
     checked ''creating tree-to-tree diff''
       (dl_trees dl old new
         ((plain_diff (dx_context o'))\<lparr>dx_whitespace := dx_whitespace o', dx_whitespace_change := dx_whitespace_change o',
           dx_whitespace_eol := dx_whitespace_eol o'\<rparr>))"

definition diff_tree_to_index :: "diff_lib \<Rightarrow> git_tree \<Rightarrow> diff_options \<Rightarrow> gm_error + raw_delta list" where
  "diff_tree_to_index dl t o' =
     (case dl_index dl of
        Some f \<Rightarrow> Inl (check_libgit2_error f ''getting repository index'')
      | None \<Rightarrow> checked ''creating tree-to-index diff'' (dl_tree_index dl t (plain_diff (dx_context o'))))"

definition diff_index_to_workdir :: "diff_lib \<Rightarrow> diff_options \<Rightarrow> gm_error + raw_delta list" where
  "diff_index_to_workdir dl o' =
     (case dl_index dl of
        Some f \<Rightarrow> Inl (check_libgit2_error f ''getting repository index'')
      | None \<Rightarrow>
          checked ''creating index-to-workdir diff''
            (dl_workdir dl ((plain_diff (dx_context o'))\<lparr>dx_untracked := dx_untracked o', dx_recurse := dx_recurse o'\<rparr>)))"

text \<open>Two of a commit's own questions: its diff to another, and whether it is an ancestor, of which libgit2 says 0, 1 or an error.\<close>

definition commit_diff_to :: "diff_lib \<Rightarrow> commit \<Rightarrow> commit \<Rightarrow> gm_error + raw_delta list" where
  "commit_diff_to dl c d =
     diff_tree_to_tree dl (commit_tree c) (commit_tree d) (plain_diff 3)"

definition is_ancestor_of :: "(oid \<Rightarrow> oid \<Rightarrow> git_failure + int) \<Rightarrow> oid \<Rightarrow> oid \<Rightarrow> gm_error + bool" where
  "is_ancestor_of descendant_of c d = bindr (checked ''checking ancestry'' (descendant_of d c)) (\<lambda>r. Inr (r = 1))"

text \<open>The paths a diff is asked for never reach libgit2, and whitespace is ignored in none but the first comparison.\<close>

lemma paths_of_a_diff_ignored:
  "diff_tree_to_tree dl old new (o'\<lparr>dx_paths := ps\<rparr>) = diff_tree_to_tree dl old new o'"
  "diff_tree_to_index dl old (o'\<lparr>dx_paths := ps\<rparr>) = diff_tree_to_index dl old o'"
  "diff_index_to_workdir dl (o'\<lparr>dx_paths := ps\<rparr>) = diff_index_to_workdir dl o'"
  by (simp_all add: diff_tree_to_tree_def diff_tree_to_index_def diff_index_to_workdir_def split: option.splits)

lemma whitespace_ignored_in_trees_only:
  "diff_tree_to_index dl old (o'\<lparr>dx_whitespace := b, dx_whitespace_change := c, dx_whitespace_eol := e\<rparr>) = diff_tree_to_index dl old o'"
  "diff_index_to_workdir dl (o'\<lparr>dx_whitespace := b, dx_whitespace_change := c, dx_whitespace_eol := e\<rparr>) = diff_index_to_workdir dl o'"
  by (simp_all add: diff_tree_to_index_def diff_index_to_workdir_def split: option.splits)

section \<open>The index on disk\<close>

text \<open>
  Of the calls on the index, only writing it and a mixed reset reach the disk, and both leave it as it was when they fail
  (libgit2 writes to a lock file that it renames).
\<close>

definition index_lib_ok :: "'s change_lib \<Rightarrow> ('s \<Rightarrow> 'd) \<Rightarrow> bool" where
  "index_lib_ok cl disk \<longleftrightarrow>
     (\<forall>p s. disk (snd (cl_index_add cl p s)) = disk s) \<and>
     (\<forall>ps s. disk (snd (cl_index_add_all cl ps s)) = disk s) \<and>
     (\<forall>s. disk (snd (cl_index_clear cl s)) = disk s) \<and>
     (\<forall>s. fst (cl_index_write cl s) \<noteq> None \<longrightarrow> disk (snd (cl_index_write cl s)) = disk s) \<and>
     (\<forall>i s. fst (cl_reset_mixed cl i s) \<noteq> None \<longrightarrow> disk (snd (cl_reset_mixed cl i s)) = disk s)"

lemma written_last:
  assumes "index_lib_ok cl disk" and "disk (snd (call s)) = disk s"
    and "and_then (index_opened cl) (and_then (calling ctx call) (index_written cl)) s = (Some e, s')"
  shows "disk s' = disk s"
proof (cases "call s")
  case (Pair f t)
  have "fst (cl_index_write cl t) \<noteq> None \<Longrightarrow> disk (snd (cl_index_write cl t)) = disk t"
    using assms(1) by (simp add: index_lib_ok_def)
  then show ?thesis
    using assms(2,3) Pair
    by (cases "cl_index_write cl t")
      (auto simp: and_then_def index_opened_def index_written_def calling_def looking_def split: option.splits)
qed

lemma failed_add:
  "index_lib_ok cl disk \<Longrightarrow> add_to_index cl path s = (Some e, s') \<Longrightarrow> disk s' = disk s"
  unfolding add_to_index_def by (rule written_last) (simp_all add: index_lib_ok_def)

lemma failed_add_all:
  "index_lib_ok cl disk \<Longrightarrow> add_all_to_index cl s = (Some e, s') \<Longrightarrow> disk s' = disk s"
  unfolding add_all_to_index_def by (rule written_last) (simp_all add: index_lib_ok_def)

lemma failed_reset:
  assumes ok: "index_lib_ok cl disk" and run: "reset_index cl s = (Some e, s')"
  shows "disk s' = disk s"
proof (cases "cl_head cl s")
  case (Inr i)
  have "fst (cl_reset_mixed cl i s) \<noteq> None \<Longrightarrow> disk (snd (cl_reset_mixed cl i s)) = disk s"
    using ok by (simp add: index_lib_ok_def)
  then show ?thesis
    using run Inr by (cases "cl_reset_mixed cl i s") (auto simp: reset_index_def calling_def)
next
  case (Inl f)
  show ?thesis
  proof (cases "gf_code f = GIT_ENOTFOUND")
    case True
    then have "and_then (index_opened cl) (and_then (calling ''clearing index'' (cl_index_clear cl)) (index_written cl)) s
        = (Some e, s')"
      using run Inl by (simp add: reset_index_def)
    moreover have "disk (snd (cl_index_clear cl s)) = disk s"
      using ok by (simp add: index_lib_ok_def)
    ultimately show ?thesis by (rule written_last [OF ok, rotated])
  qed (use run Inl in \<open>simp add: reset_index_def\<close>)
qed

end
