(* ===== verification/Session.thy ===== *)
theory Session
  imports WorkQueue Writer
begin

text \<open>
  The agent from its start to its end (\<^verbatim>\<open>main\<close> of \<^verbatim>\<open>src/agent/main.cpp\<close>): the reader loop, the pool, the threads that
  handlers leave behind, the writer, and the order in which \<^verbatim>\<open>main\<close> stops them once its input ends.
\<close>

section \<open>State\<close>

text \<open>Where \<^verbatim>\<open>main\<close> is: in its reader loop, or waiting for the part it is stopping.\<close>

datatype phase =
    Serving | JoiningPool | StoppingWatches | StoppingTunnels | StoppingDirWatcher | StopsWriter | JoiningWriter | Exited

text \<open>
  The threads that outlive the request that started them, and send on their own: one per HEAD watch, one per tunnel
  (\<^verbatim>\<open>tunnelStdoutLoop\<close>), that of the credential broker a tunnel of \<^verbatim>\<open>git.spawn\<close> keeps, and that of \<^verbatim>\<open>g_dirWatcher\<close>.
\<close>

datatype producer = WatchThread string | TunnelThread string | BrokerThread string | DirThread

record session =
  se_phase :: phase
  se_pool :: pool
  se_writer :: writer
  se_live :: "producer set"

definition initial_session :: session where
  "initial_session = \<lparr>se_phase = Serving, se_pool = initial_pool, se_writer = new_writer, se_live = {}\<rparr>"

definition send_frame :: "lane \<Rightarrow> string \<Rightarrow> session \<Rightarrow> session" where
  "send_frame l p s = s\<lparr>se_writer := writer_enqueue l p (se_writer s)\<rparr>"

section \<open>The main thread\<close>

text \<open>Whether the call \<^verbatim>\<open>main\<close> is in returns: the loop at the end of the input, a join when the threads have ended.\<close>

definition may_go_on :: "session \<Rightarrow> bool" where
  "may_go_on s =
     (case se_phase s of
        Serving \<Rightarrow> True
      | JoiningPool \<Rightarrow> set (p_workers (se_pool s)) \<subseteq> {Returned}
      | StoppingWatches \<Rightarrow> (\<forall>w. WatchThread w \<notin> se_live s)
      | StoppingTunnels \<Rightarrow> (\<forall>t. TunnelThread t \<notin> se_live s \<and> BrokerThread t \<notin> se_live s)
      | StoppingDirWatcher \<Rightarrow> DirThread \<notin> se_live s
      | StopsWriter \<Rightarrow> True
      | JoiningWriter \<Rightarrow> w_returned (se_writer s)
      | Exited \<Rightarrow> False)"

fun next_phase :: "phase \<Rightarrow> phase" where
  "next_phase Serving = JoiningPool"
| "next_phase JoiningPool = StoppingWatches"
| "next_phase StoppingWatches = StoppingTunnels"
| "next_phase StoppingTunnels = StoppingDirWatcher"
| "next_phase StoppingDirWatcher = StopsWriter"
| "next_phase StopsWriter = JoiningWriter"
| "next_phase JoiningWriter = Exited"
| "next_phase Exited = Exited"

text \<open>\<^verbatim>\<open>g_queue.stop\<close> comes after the loop, \<^verbatim>\<open>g_writer.stop\<close> last.\<close>

definition main_step :: "session \<Rightarrow> session" where
  "main_step s =
     s\<lparr>se_phase := next_phase (se_phase s),
       se_pool := (if se_phase s = Serving then (se_pool s)\<lparr>p_queue := queue_stop (p_queue (se_pool s))\<rparr> else se_pool s),
       se_writer := (if se_phase s = StopsWriter then writer_stop (se_writer s) else se_writer s)\<rparr>"

section \<open>Steps\<close>

text \<open>
  Each step is what one thread does under a lock. A handler sends notes and the chunks of its answer while it runs, and so
  do the threads it joins before it returns (the broker of \<^verbatim>\<open>runGitBrokered\<close>); the last frame of an answer, of a refusal
  too, is the event \<open>Answers\<close>. A thread with a HEAD watch ends when its watch is stopped, by the reader or at the end;
  that of a tunnel with its process, and sends \<^verbatim>\<open>lsp.tunnelClosed\<close> as its last frame; a tunnel's broker when the tunnel
  is dropped; that of the directories when \<^verbatim>\<open>main\<close> stops it.
\<close>

fun is_reply :: "pevent \<Rightarrow> bool" where
  "is_reply (Reply _ _) = True"
| "is_reply (Refuse _ _) = True"
| "is_reply _ = False"

fun event_job :: "pevent \<Rightarrow> job option" where
  "event_job (Reply _ j) = Some j"
| "event_job (Refuse _ j) = Some j"
| "event_job (Submit j) = Some j"
| "event_job _ = None"

definition answering :: "pool \<Rightarrow> nat \<Rightarrow> bool" where
  "answering p i \<longleftrightarrow>
     (\<exists>j. worker_at p i (Dispatching j) \<or> worker_at p i (Holding j) \<and> isCancelled (job_idKey j) (p_cancel p))"

fun may_end :: "producer \<Rightarrow> phase \<Rightarrow> bool" where
  "may_end (WatchThread w) f \<longleftrightarrow> f = Serving \<or> f = StoppingWatches"
| "may_end (TunnelThread t) f \<longleftrightarrow> True"
| "may_end (BrokerThread t) f \<longleftrightarrow> True"
| "may_end DirThread f \<longleftrightarrow> f = StoppingDirWatcher"

fun last_frames :: "producer \<Rightarrow> string \<Rightarrow> string list" where
  "last_frames (TunnelThread t) p = [p]"
| "last_frames _ p = []"

datatype sevent =
    ReaderSends lane string | Submits job | Cancels string
  | Works pevent | HandlerSends nat lane string | Answers pevent job string
  | Starts nat producer | ThreadSends producer lane string | ThreadEnds producer string
  | MainGoesOn phase | WriterRuns "nat option"

inductive sstep :: "session \<Rightarrow> sevent \<Rightarrow> session \<Rightarrow> bool" where
  reader_sends: "se_phase s = Serving \<Longrightarrow> sstep s (ReaderSends l p) (send_frame l p s)"
| submits: "se_phase s = Serving \<Longrightarrow> pstep (se_pool s) (Submit j) q \<Longrightarrow> sstep s (Submits j) (s\<lparr>se_pool := q\<rparr>)"
| cancels: "se_phase s = Serving \<Longrightarrow> pstep (se_pool s) (Cancel k) q \<Longrightarrow> sstep s (Cancels k) (s\<lparr>se_pool := q\<rparr>)"
| works: "by_worker e \<Longrightarrow> \<not> is_reply e \<Longrightarrow> pstep (se_pool s) e q \<Longrightarrow> sstep s (Works e) (s\<lparr>se_pool := q\<rparr>)"
| handler_sends: "answering (se_pool s) i \<Longrightarrow> sstep s (HandlerSends i l p) (send_frame l p s)"
| answers: "is_reply e \<Longrightarrow> event_job e = Some j \<Longrightarrow> pstep (se_pool s) e q \<Longrightarrow>
    sstep s (Answers e j p) (send_frame (job_lane j) p (s\<lparr>se_pool := q\<rparr>))"
| starts: "worker_at (se_pool s) i (Dispatching j) \<Longrightarrow> sstep s (Starts i x) (s\<lparr>se_live := insert x (se_live s)\<rparr>)"
| thread_sends: "x \<in> se_live s \<Longrightarrow> sstep s (ThreadSends x l p) (send_frame l p s)"
| thread_ends: "x \<in> se_live s \<Longrightarrow> may_end x (se_phase s) \<Longrightarrow>
    sstep s (ThreadEnds x p) (fold (send_frame Interactive) (last_frames x p) (s\<lparr>se_live := se_live s - {x}\<rparr>))"
| main_goes_on: "may_go_on s \<Longrightarrow> sstep s (MainGoesOn (se_phase s)) (main_step s)"
| writer_runs: "writer_iter acc (se_writer s) = Some w \<Longrightarrow> sstep s (WriterRuns acc) (s\<lparr>se_writer := w\<rparr>)"

inductive srun :: "session \<Rightarrow> sevent list \<Rightarrow> session \<Rightarrow> bool" where
  nil: "srun s [] s"
| snoc: "srun s es s1 \<Longrightarrow> sstep s1 e s2 \<Longrightarrow> srun s (es @ [e]) s2"

text \<open>What the pool and the writer see of a run, and the answers with their jobs.\<close>

fun pool_events :: "sevent \<Rightarrow> pevent list" where
  "pool_events (Submits j) = [Submit j]"
| "pool_events (Cancels k) = [Cancel k]"
| "pool_events (Works e) = [e]"
| "pool_events (Answers e j p) = [e]"
| "pool_events (MainGoesOn f) = (if f = Serving then [StopAll] else [])"
| "pool_events _ = []"

fun writes :: "sevent \<Rightarrow> wevent list" where
  "writes (ReaderSends l p) = [WEnqueue l p]"
| "writes (HandlerSends i l p) = [WEnqueue l p]"
| "writes (Answers e j p) = [WEnqueue (job_lane j) p]"
| "writes (ThreadSends x l p) = [WEnqueue l p]"
| "writes (ThreadEnds x p) = map (WEnqueue Interactive) (last_frames x p)"
| "writes (MainGoesOn f) = (if f = StopsWriter then [WStop] else [])"
| "writes (WriterRuns acc) = [WIter acc]"
| "writes _ = []"

fun answers_of :: "sevent \<Rightarrow> (job \<times> string) list" where
  "answers_of (Answers e j p) = [(j, p)]"
| "answers_of _ = []"

fun requests_of :: "sevent \<Rightarrow> job list" where
  "requests_of (Submits j) = [j]"
| "requests_of _ = []"

definition all_of :: "(sevent \<Rightarrow> 'a list) \<Rightarrow> sevent list \<Rightarrow> 'a list" where
  "all_of f es = concat (map f es)"

lemma all_of_simps [simp]: "all_of f [] = []" "all_of f (es @ fs) = all_of f es @ all_of f fs" "all_of f [e] = f e"
  by (simp_all add: all_of_def)

section \<open>The pool and the writer within a session\<close>

lemma step_pool: "sstep s e s' \<Longrightarrow> prun (se_pool s) (pool_events e) (se_pool s')"
proof (induction rule: sstep.induct)
  case (thread_ends x s p)
  then show ?case by (cases x) (simp_all add: send_frame_def prun.nil)
next
  case (main_goes_on s)
  then show ?case
    using prun.snoc [OF prun.nil pstep.stop [of "se_pool s"]] by (auto simp: main_step_def intro: prun.nil)
qed (auto simp: send_frame_def intro: prun.nil prun.snoc [OF prun.nil, simplified])

lemma prun_append: "prun p2 fs p3 \<Longrightarrow> prun p1 es p2 \<Longrightarrow> prun p1 (es @ fs) p3"
proof (induction rule: prun.induct)
  case (snoc p fs q e r)
  then have "prun p1 ((es @ fs) @ [e]) r" by (blast intro: prun.snoc)
  then show ?case by simp
qed simp

lemma run_pool: "srun s es s' \<Longrightarrow> prun (se_pool s) (all_of pool_events es) (se_pool s')"
  by (induction rule: srun.induct) (auto intro: prun.nil prun_append step_pool)

lemma writer_run_append: "wrun w1 es sent w2 \<Longrightarrow> wrun w2 fs sent' w3 \<Longrightarrow> wrun w1 (es @ fs) (sent @ sent') w3"
  by (induction rule: wrun.induct) (auto intro: wrun.cons)

lemma wrun_one: "wstep w e w' \<Longrightarrow> wrun w [e] (event_sent e w) w'"
  using wrun.cons [OF _ wrun.nil] by fastforce

lemma step_writer: "sstep s e s' \<Longrightarrow> \<exists>sent. wrun (se_writer s) (writes e) sent (se_writer s')"
proof (induction rule: sstep.induct)
  case (thread_ends x s p)
  then show ?case
    using wrun_one [OF wstep.enqueue] by (cases x) (auto simp: send_frame_def intro: wrun.nil)
next
  case (main_goes_on s)
  then show ?case using wrun_one [OF wstep.stop] by (auto simp: main_step_def intro: wrun.nil)
next
  case (writer_runs acc s w)
  then show ?case using wrun_one [OF wstep.iter] by auto
qed (use wrun_one [OF wstep.enqueue] in \<open>auto simp: send_frame_def intro: wrun.nil\<close>)

lemma run_writer: "srun s es s' \<Longrightarrow> \<exists>sent. wrun (se_writer s) (all_of writes es) sent (se_writer s')"
proof (induction rule: srun.induct)
  case (snoc s es s1 e s2)
  then show ?case using step_writer [OF snoc.hyps(2)] by (auto intro: writer_run_append)
qed (auto intro: wrun.nil)

lemma pipe_up_append [simp]: "pipe_up (es @ fs) \<longleftrightarrow> pipe_up es \<and> pipe_up fs"
  by (simp add: pipe_up_def)

lemma enqueued_append [simp]: "enqueued l (es @ fs) = enqueued l es @ enqueued l fs"
  by (induction es rule: enqueued.induct) auto

section \<open>The invariant\<close>

fun stage :: "phase \<Rightarrow> nat" where
  "stage Serving = 0"
| "stage JoiningPool = 1"
| "stage StoppingWatches = 2"
| "stage StoppingTunnels = 3"
| "stage StoppingDirWatcher = 4"
| "stage StopsWriter = 5"
| "stage JoiningWriter = 6"
| "stage Exited = 7"

fun joined_at :: "producer \<Rightarrow> nat" where
  "joined_at (WatchThread w) = 3"
| "joined_at (TunnelThread t) = 4"
| "joined_at (BrokerThread t) = 4"
| "joined_at DirThread = 5"

definition all_returned :: "pool \<Rightarrow> bool" where
  "all_returned p \<longleftrightarrow> set (p_workers p) \<subseteq> {Returned}"

text \<open>What \<^verbatim>\<open>main\<close> has joined is gone, and the writer is told to stop only when nobody is left.\<close>

definition session_ok :: "session \<Rightarrow> bool" where
  "session_ok s \<longleftrightarrow>
     (q_stop (p_queue (se_pool s)) \<longleftrightarrow> 0 < stage (se_phase s))
     \<and> (2 \<le> stage (se_phase s) \<longrightarrow> all_returned (se_pool s))
     \<and> (\<forall>x \<in> se_live s. stage (se_phase s) < joined_at x)
     \<and> (w_stop (se_writer s) \<longleftrightarrow> 6 \<le> stage (se_phase s))
     \<and> (stage (se_phase s) = 7 \<longrightarrow> w_returned (se_writer s)) \<and> finite (se_live s)"

lemma pstep_q_stop: "pstep p e q \<Longrightarrow> q_stop (p_queue q) \<longleftrightarrow> q_stop (p_queue p) \<or> e = StopAll"
  by (induction rule: pstep.induct)
    (auto simp: set_worker_def queue_push_def queue_insert_def queue_finish_def queue_stop_def elim: queue_pop_Popped)

lemma returned_at: "all_returned p \<Longrightarrow> worker_at p i w \<Longrightarrow> w = Returned"
  unfolding all_returned_def worker_at_def by (metis nth_mem singletonD subset_iff)

lemma returned_no_step: "pstep p e q \<Longrightarrow> by_worker e \<Longrightarrow> \<not> all_returned p"
  by (induction rule: pstep.induct) (auto dest: returned_at)

lemma returned_not_answering: "answering p i \<Longrightarrow> \<not> all_returned p"
  by (auto simp: answering_def dest: returned_at)

lemma reply_by_worker: "is_reply e \<Longrightarrow> by_worker e"
  by (cases e) simp_all

lemma writer_iter_stop: "writer_iter acc w = Some w' \<Longrightarrow> w_stop w' = w_stop w"
  by (auto simp: writer_iter_def writer_take_Some split: if_splits option.splits)

lemma writer_iter_returned: "writer_iter acc w = Some w' \<Longrightarrow> \<not> w_returned w"
  by (auto simp: writer_iter_def split: if_splits)

lemma send_frame_simps [simp]:
  "se_phase (send_frame l p s) = se_phase s" "se_pool (send_frame l p s) = se_pool s" "se_live (send_frame l p s) = se_live s"
  "w_stop (se_writer (send_frame l p s)) = w_stop (se_writer s)"
  "w_returned (se_writer (send_frame l p s)) = w_returned (se_writer s)"
  by (simp_all add: send_frame_def writer_enqueue_def)

lemma send_frame_ok [simp]: "session_ok (send_frame l p s) = session_ok s"
  by (simp add: session_ok_def)

lemma joined_next:
  "session_ok s \<Longrightarrow> may_go_on s \<Longrightarrow> x \<in> se_live s \<Longrightarrow> stage (next_phase (se_phase s)) < joined_at x"
  by (cases "se_phase s"; cases x) (auto simp: session_ok_def may_go_on_def)

lemma main_step_ok:
  assumes "session_ok s" and "may_go_on s"
  shows "session_ok (main_step s)"
proof -
  have "\<forall>x \<in> se_live s. stage (next_phase (se_phase s)) < joined_at x" using joined_next [OF assms] by blast
  then show ?thesis
    using assms
    by (cases "se_phase s")
      (simp_all add: session_ok_def may_go_on_def main_step_def queue_stop_def writer_stop_def all_returned_def)
qed

lemma pool_step_ok:
  assumes "session_ok s" and "pstep (se_pool s) e q" and "e \<noteq> StopAll" and "by_worker e \<or> se_phase s = Serving"
  shows "session_ok (s\<lparr>se_pool := q\<rparr>)"
  using assms pstep_q_stop [OF assms(2)] returned_no_step [OF assms(2)] by (auto simp: session_ok_def)

lemma session_step_ok: "sstep s e s' \<Longrightarrow> session_ok s \<Longrightarrow> session_ok s'"
proof (induction rule: sstep.induct)
  case (works e s q)
  then show ?case by (intro pool_step_ok) auto
next
  case (answers e j s q p)
  then have "session_ok (s\<lparr>se_pool := q\<rparr>)" by (intro pool_step_ok) (auto dest: reply_by_worker)
  then show ?case by simp
next
  case (starts s i j x)
  then have "\<not> all_returned (se_pool s)" by (auto dest: returned_at)
  then have "stage (se_phase s) < 2" using starts.prems by (auto simp: session_ok_def)
  then have "stage (se_phase s) < joined_at x" by (cases x) simp_all
  then show ?case using starts.prems by (simp add: session_ok_def)
next
  case (thread_ends x s p)
  then show ?case by (cases x) (auto simp: session_ok_def)
next
  case (writer_runs acc s w)
  then show ?case using writer_iter_stop [OF writer_runs.hyps] writer_iter_returned [OF writer_runs.hyps]
    by (auto simp: session_ok_def)
qed (auto intro: pool_step_ok main_step_ok)

lemma initial_ok: "session_ok initial_session"
  by (simp add: session_ok_def initial_session_def initial_pool_def new_work_queue_def new_writer_def)

lemma session_run_ok: "srun s es s' \<Longrightarrow> session_ok s \<Longrightarrow> session_ok s'"
  by (induction rule: srun.induct) (auto intro: session_step_ok)

text \<open>Nobody sends once the writer was told to stop.\<close>

lemma nobody_sends:
  assumes "sstep s e s'" and "session_ok s" and "w_stop (se_writer s)"
  shows "enqueued l (writes e) = []"
proof -
  have six: "6 \<le> stage (se_phase s)" using assms(2,3) by (simp add: session_ok_def)
  then have r: "all_returned (se_pool s)" using assms(2) by (simp add: session_ok_def)
  have none: "x \<notin> se_live s" for x
  proof
    assume "x \<in> se_live s"
    then have "stage (se_phase s) < joined_at x" using assms(2) unfolding session_ok_def by blast
    then show False using six by (cases x) auto
  qed
  from assms(1) show ?thesis
    by cases
      (use six r none in \<open>auto dest: returned_not_answering returned_no_step reply_by_worker\<close>)
qed

text \<open>While the pipe is up, the writer's thread returns only when it was told to and has nothing left.\<close>

definition writer_done :: "writer \<Rightarrow> bool" where
  "writer_done w \<longleftrightarrow> (w_returned w \<longrightarrow> w_stop w \<and> lq_empty (w_q w))"

lemma iter_done: "writer_iter None w = Some w' \<Longrightarrow> writer_done w'"
  by (auto simp: writer_iter_def writer_done_def anyReadyLocked_def writer_take_None writer_take_Some
      split: if_splits option.splits)

lemma silent_run:
  assumes "wrun w es sent w'" and "pipe_up es" and "\<forall>l. enqueued l es = []" and "writer_done w"
  shows "writer_done w'"
  using assms
proof (induction rule: wrun.induct)
  case (cons w e w1 es sent w2)
  from cons.hyps(1) have "writer_done w1"
  proof cases
    case (enqueue l p)
    then show ?thesis using cons.prems(2) by (auto dest: spec [of _ l])
  next
    case stop
    then show ?thesis using cons.prems(3) by (auto simp: writer_done_def writer_stop_def)
  next
    case (iter acc)
    then show ?thesis using cons.prems(1) iter_done by simp
  qed
  moreover have "\<forall>l. enqueued l es = []"
    using cons.prems(2) by (metis (no_types) append_is_Nil_conv append_Cons append_Nil enqueued_append)
  ultimately show ?case using cons.IH cons.prems(1) by (cases e) auto
qed

lemma returning_only_by_iter:
  assumes "wrun w es sent w'" and "\<not> w_returned w" and "\<forall>acc. WIter acc \<notin> set es"
  shows "\<not> w_returned w'"
  using assms
proof (induction rule: wrun.induct)
  case (cons w e w1 es sent w2)
  from cons.hyps(1) have "\<not> w_returned w1"
    by cases (use cons.prems in \<open>auto simp: writer_enqueue_def writer_stop_def\<close>)
  then show ?case using cons by simp
qed

lemma step_done:
  assumes "sstep s e s'" and "session_ok s" and "pipe_up (writes e)" and "writer_done (se_writer s)"
  shows "writer_done (se_writer s')"
proof -
  obtain sent where run: "wrun (se_writer s) (writes e) sent (se_writer s')" using step_writer [OF assms(1)] by blast
  show ?thesis
  proof (cases "w_stop (se_writer s)")
    case True
    then show ?thesis using silent_run [OF run assms(3) _ assms(4)] nobody_sends [OF assms(1,2)] by blast
  next
    case False
    then have r: "\<not> w_returned (se_writer s)" using assms(4) by (simp add: writer_done_def)
    show ?thesis
    proof (cases "\<exists>acc. e = WriterRuns acc")
      case True
      then show ?thesis using assms(1,3) by (auto elim!: sstep.cases intro: iter_done)
    next
      case False
      then have "\<forall>acc. WIter acc \<notin> set (writes e)" by (cases e rule: writes.cases) auto
      then show ?thesis using returning_only_by_iter [OF run r] by (simp add: writer_done_def)
    qed
  qed
qed

lemma run_done:
  "srun s es s' \<Longrightarrow> session_ok s \<Longrightarrow> pipe_up (all_of writes es) \<Longrightarrow> writer_done (se_writer s) \<Longrightarrow> writer_done (se_writer s')"
  by (induction rule: srun.induct) (auto intro: step_done session_run_ok)

section \<open>Every request has its answer\<close>

fun replied :: "pevent list \<Rightarrow> job multiset" where
  "replied [] = {#}"
| "replied (Reply i j # es) = add_mset j (replied es)"
| "replied (Refuse i j # es) = add_mset j (replied es)"
| "replied (_ # es) = replied es"

lemma replied_append [simp]: "replied (es @ fs) = replied es + replied fs"
  by (induction es rule: replied.induct) auto

fun dispatched_job :: "worker \<Rightarrow> job multiset" where
  "dispatched_job (Dispatching j) = {#j#}"
| "dispatched_job _ = {#}"

definition dispatched_jobs :: "pool \<Rightarrow> job multiset" where
  "dispatched_jobs p = sum_list (map dispatched_job (p_workers p))"

lemma dispatched_set_worker:
  assumes "worker_at p i w0"
  shows "dispatched_jobs (set_worker i w p) + dispatched_job w0 = dispatched_jobs p + dispatched_job w"
  using assms sum_list_map_update [of i "p_workers p" dispatched_job w]
  by (auto simp: dispatched_jobs_def set_worker_def worker_at_def)

lemma dispatched_simps [simp]:
  "dispatched_jobs (p\<lparr>p_queue := q\<rparr>) = dispatched_jobs p" "dispatched_jobs (p\<lparr>p_cancel := c\<rparr>) = dispatched_jobs p"
  by (simp_all add: dispatched_jobs_def)

lemma replies_conserved_step:
  "pstep p e p' \<Longrightarrow> answered [e] + dispatched_jobs p = replied [e] + dispatched_jobs p'"
proof (induction rule: pstep.induct)
  case (pop p i j q')
  then show ?case using dispatched_set_worker [of "p\<lparr>p_queue := q'\<rparr>" i Waiting "Holding j"] by simp
next
  case (quit p i)
  then show ?case using dispatched_set_worker [of p i Waiting Returned] by simp
next
  case (dispatch p i j)
  then show ?case using dispatched_set_worker [of p i "Holding j" "Dispatching j"] by simp
next
  case (refuse p i j)
  then show ?case using dispatched_set_worker [of p i "Holding j" "Replied j"] by simp
next
  case (reply p i j)
  then show ?case using dispatched_set_worker [of p i "Dispatching j" "Replied j"] by simp
next
  case (forget p i j)
  then show ?case
    using dispatched_set_worker [of "p\<lparr>p_cancel := cancel_forget (job_idKey j) (p_cancel p)\<rparr>" i "Replied j" "Forgot j"] by simp
next
  case (finish p i j)
  then show ?case
    using dispatched_set_worker [of "p\<lparr>p_queue := queue_finish (job_lane j) (p_queue p)\<rparr>" i "Forgot j" Waiting] by simp
qed simp_all

lemma replies_conserved: "prun initial_pool es p \<Longrightarrow> answered es = replied es + dispatched_jobs p"
proof (induction initial_pool es p rule: prun.induct)
  case nil
  show ?case by (simp add: dispatched_jobs_def initial_pool_def kPoolSize_def numeral_eq_Suc)
next
  case (snoc es p1 e p2)
  from replies_conserved_step [OF snoc(3)] snoc(2) show ?case by (simp add: ac_simps)
qed

lemma all_replied:
  assumes "prun initial_pool es p" and "all_returned p"
  shows "replied es = submitted es"
proof -
  have inv: "pool_inv p" using assms(1) by (rule pool_inv_reachable)
  then have "p_workers p \<noteq> []" by (auto simp: pool_inv_def kPoolSize_def)
  with assms(2) have "Returned \<in> set (p_workers p)" by (cases "p_workers p") (auto simp: all_returned_def)
  with inv have "queued_jobs (p_queue p) = {#}" by (auto simp: pool_inv_def lq_empty_iff queued_jobs_def)
  moreover have "set ws \<subseteq> {Returned} \<Longrightarrow> sum_list (map held_job ws) = {#} \<and> sum_list (map dispatched_job ws) = {#}" for ws
    by (induction ws) auto
  then have "held_jobs p = {#}" "dispatched_jobs p = {#}"
    using assms(2) by (simp_all add: held_jobs_def dispatched_jobs_def all_returned_def)
  ultimately show ?thesis using jobs_conserved [OF assms(1)] replies_conserved [OF assms(1)] by simp
qed

lemma step_answers:
  "sstep s e s' \<Longrightarrow> mset (map fst (answers_of e)) = replied (pool_events e) \<and> mset (requests_of e) = submitted (pool_events e)"
proof (induction rule: sstep.induct)
  case (works e s q)
  then show ?case by (cases e) auto
next
  case (answers e j s q p)
  then show ?case by (cases e) auto
qed simp_all

lemma run_answers:
  "srun s es s' \<Longrightarrow> mset (map fst (all_of answers_of es)) = replied (all_of pool_events es)
     \<and> mset (all_of requests_of es) = submitted (all_of pool_events es)"
  by (induction rule: srun.induct) (auto dest: step_answers)

lemma answers_written: "(j, p) \<in> set (all_of answers_of es) \<Longrightarrow> p \<in> set (enqueued (job_lane j) (all_of writes es))"
proof (induction es rule: rev_induct)
  case (snoc e es)
  then show ?case by (cases e) auto
qed simp

section \<open>Properties\<close>

definition frames_fit :: "nat \<Rightarrow> wevent list \<Rightarrow> bool" where
  "frames_fit mem es \<longleftrightarrow> (\<forall>l. \<forall>p \<in> set (enqueued l es). length p \<le> mem \<and> length p \<le> ulong_max)"

lemma in_taken: "(l, p) \<in> set sent \<longleftrightarrow> p \<in> set (taken l sent)"
  by (force simp: taken_def)

text \<open>
  C4. A session ends with nothing left unsaid. When the agent exits and the client's pipe accepted what it was given, then
  every request read before the end of the input was answered exactly once, and every frame that any thread ever
  queued, the reader's, the answers, the notes of watches and the last words of tunnels, whatever the interleaving, was
  written: a reader of the protocol gets all of them, those of a lane in the order they were queued, and then the end.
\<close>

theorem session_complete:
  assumes "srun initial_session es s" and "se_phase s = Exited"
    and "pipe_up (all_of writes es)" and "frames_fit mem (all_of writes es)"
  shows "\<exists>sent. (\<forall>l. taken l sent = enqueued l (all_of writes es))
    \<and> read_session mem (w_stdout (se_writer s)) = (map (\<lambda>p. Incoming (snd p)) sent, TransportClosed)
    \<and> mset (map fst (all_of answers_of es)) = mset (all_of requests_of es)
    \<and> (\<forall>(j, p) \<in> set (all_of answers_of es). (job_lane j, p) \<in> set sent)"
proof -
  obtain sent where run: "wrun new_writer (all_of writes es) sent (se_writer s)"
    using run_writer [OF assms(1)] by (auto simp: initial_session_def)
  have ok: "session_ok s" by (rule session_run_ok [OF assms(1) initial_ok])
  have "writer_done (se_writer s)"
    by (rule run_done [OF assms(1) initial_ok assms(3)]) (simp add: writer_done_def initial_session_def new_writer_def)
  then have "w_q (se_writer s) l = []" for l
    using ok assms(2) by (simp add: session_ok_def writer_done_def lq_empty_iff)
  then have t: "taken l sent = enqueued l (all_of writes es)" for l
    using wrun_conserves [OF run assms(3), of l] by (simp add: new_writer_def no_queues_def)
  have out: "w_stdout (se_writer s) = concat (map frame_bytes (map snd sent))"
    using wrun_conserves [OF run assms(3)] by (simp add: new_writer_def comp_def)
  have "list_all (\<lambda>b. length b \<le> mem \<and> length b \<le> ulong_max) (map snd sent)"
    using assms(4) by (auto simp: list_all_iff frames_fit_def in_taken t)
  from pipe.dec_session [OF this] have read: "read_session mem (w_stdout (se_writer s)) = (map (\<lambda>p. Incoming (snd p)) sent, TransportClosed)"
    by (simp add: out)
  have "all_returned (se_pool s)" using ok assms(2) by (simp add: session_ok_def)
  then have "replied (all_of pool_events es) = submitted (all_of pool_events es)"
    using all_replied run_pool [OF assms(1)] by (simp add: initial_session_def)
  then have "mset (map fst (all_of answers_of es)) = mset (all_of requests_of es)"
    using run_answers [OF assms(1)] by simp
  then show ?thesis using t read by (intro exI [of _ sent]) (auto simp: in_taken dest: answers_written)
qed

section \<open>The end is reached\<close>

definition quiet :: "sevent list \<Rightarrow> bool" where
  "quiet es \<longleftrightarrow> pipe_up (all_of writes es) \<and> (\<forall>l. set (enqueued l (all_of writes es)) \<subseteq> {[]}) \<and> all_of requests_of es = []"

definition leads_to :: "session \<Rightarrow> session \<Rightarrow> bool" where
  "leads_to s s' \<longleftrightarrow> (\<exists>es. srun s es s' \<and> quiet es)"

lemma quiet_append [simp]: "quiet (es @ fs) \<longleftrightarrow> quiet es \<and> quiet fs"
  by (auto simp: quiet_def)

lemma leads_refl: "leads_to s s"
  unfolding leads_to_def by (intro exI [of _ "[]"]) (simp add: srun.nil quiet_def)

lemma srun_append: "srun s1 fs s2 \<Longrightarrow> srun s es s1 \<Longrightarrow> srun s (es @ fs) s2"
proof (induction rule: srun.induct)
  case (snoc s1 fs s2 e s3)
  then have "srun s ((es @ fs) @ [e]) s3" by (blast intro: srun.snoc)
  then show ?case by simp
qed simp

lemma leads_trans: "leads_to s s1 \<Longrightarrow> leads_to s1 s2 \<Longrightarrow> leads_to s s2"
  unfolding leads_to_def using srun_append quiet_append by blast

lemma leads_step: "sstep s e s' \<Longrightarrow> quiet [e] \<Longrightarrow> leads_to s s'"
  unfolding leads_to_def using srun.snoc [OF srun.nil] by fastforce

lemma leads_then: "sstep s e s1 \<Longrightarrow> quiet [e] \<Longrightarrow> leads_to s1 s2 \<Longrightarrow> leads_to s s2"
  by (blast intro: leads_trans leads_step)

lemma pool_drains:
  assumes "pool_inv (se_pool s)" and "q_stop (p_queue (se_pool s))"
  shows "\<exists>s'. leads_to s s' \<and> se_phase s' = se_phase s \<and> se_live s' = se_live s \<and> all_returned (se_pool s')"
  using assms
proof (induction "pool_todo (se_pool s)" arbitrary: s rule: less_induct)
  case less
  show ?case
  proof (cases "all_returned (se_pool s)")
    case True
    then show ?thesis using leads_refl by blast
  next
    case False
    then obtain w where "w \<in> set (p_workers (se_pool s))" "w \<noteq> Returned" by (auto simp: all_returned_def)
    then obtain i where "i < length (p_workers (se_pool s))" "p_workers (se_pool s) ! i \<noteq> Returned" by (metis in_set_conv_nth)
    then obtain e q where e: "by_worker e" "pstep (se_pool s) e q"
      using worker_enabled [OF less.prems(1) _ _ less.prems(2)] by blast
    have q: "pool_todo q < pool_todo (se_pool s)" "pool_inv q" "q_stop (p_queue q)"
      using todo_decreases [OF e(2,1)] pool_inv_step [OF e(2) less.prems(1)] pstep_q_stop [OF e(2)] less.prems(2) by simp_all
    have "\<exists>e1 s1. sstep s e1 s1 \<and> quiet [e1] \<and> se_pool s1 = q \<and> se_phase s1 = se_phase s \<and> se_live s1 = se_live s"
    proof (cases "is_reply e")
      case True
      then obtain j where "event_job e = Some j" by (cases e) auto
      from sstep.answers [OF True this e(2), of "[]"] show ?thesis
        by (intro exI [of _ "Answers e j []"] exI [of _ "send_frame (job_lane j) [] (s\<lparr>se_pool := q\<rparr>)"] conjI)
          (auto simp: quiet_def)
    next
      case False
      from sstep.works [OF e(1) this e(2)] show ?thesis
        by (intro exI [of _ "Works e"] exI [of _ "s\<lparr>se_pool := q\<rparr>"] conjI) (auto simp: quiet_def)
    qed
    then obtain e1 s1 where s1: "sstep s e1 s1" "quiet [e1]" "se_pool s1 = q" "se_phase s1 = se_phase s" "se_live s1 = se_live s" by blast
    then obtain s' where "leads_to s1 s'" "se_phase s' = se_phase s" "se_live s' = se_live s" "all_returned (se_pool s')"
      using less.hyps [of s1] q by auto
    then show ?thesis using leads_then [OF s1(1,2)] by blast
  qed
qed

lemma threads_end:
  assumes "finite (se_live s)" and "\<forall>x \<in> P. may_end x (se_phase s)"
  shows "\<exists>s'. leads_to s s' \<and> se_phase s' = se_phase s \<and> se_pool s' = se_pool s \<and> se_live s' \<inter> P = {}"
  using assms
proof (induction "card (se_live s)" arbitrary: s rule: less_induct)
  case less
  show ?case
  proof (cases "se_live s \<inter> P = {}")
    case True
    then show ?thesis using leads_refl by blast
  next
    case False
    then obtain x where x: "x \<in> se_live s" "x \<in> P" by blast
    let ?s1 = "fold (send_frame Interactive) (last_frames x []) (s\<lparr>se_live := se_live s - {x}\<rparr>)"
    have s1: "sstep s (ThreadEnds x []) ?s1" by (rule sstep.thread_ends) (use x less.prems in auto)
    have f: "se_phase ?s1 = se_phase s" "se_pool ?s1 = se_pool s" "se_live ?s1 = se_live s - {x}" by (cases x; simp)+
    have "quiet [ThreadEnds x []]" by (cases x) (simp_all add: quiet_def)
    moreover have "card (se_live ?s1) < card (se_live s)" using x(1) less.prems(1) by (simp only: f(3)) (meson card_Diff1_less)
    then obtain s' where "leads_to ?s1 s'" "se_phase s' = se_phase s" "se_pool s' = se_pool s" "se_live s' \<inter> P = {}"
      using less.hyps [of ?s1] less.prems f by auto
    ultimately show ?thesis using leads_then [OF s1] by blast
  qed
qed

lemma main_goes: "may_go_on s \<Longrightarrow> leads_to s (main_step s)"
  by (rule leads_step [OF sstep.main_goes_on]) (auto simp: quiet_def)

lemma writer_ends:
  assumes "w_stop (se_writer s)"
  shows "\<exists>s'. leads_to s s' \<and> se_phase s' = se_phase s \<and> w_returned (se_writer s')"
  using assms
proof (induction "length (drain_order (se_writer s))" arbitrary: s rule: less_induct)
  case less
  show ?case
  proof (cases "w_returned (se_writer s)")
    case True
    then show ?thesis using leads_refl by blast
  next
    case False
    have "writer_iter None (se_writer s) \<noteq> None"
      using False less.prems by (auto simp: writer_iter_def split: option.splits)
    then obtain w where w: "writer_iter None (se_writer s) = Some w" by blast
    have step: "leads_to s (s\<lparr>se_writer := w\<rparr>)" by (rule leads_step [OF sstep.writer_runs [OF w]]) (simp add: quiet_def)
    show ?thesis
    proof (cases "w_returned w")
      case True
      then show ?thesis using step by force
    next
      case nr: False
      obtain l f w1 where t: "writer_take (se_writer s) = Some (l, f, w1)"
        using w False nr by (auto simp: writer_iter_def split: if_splits option.splits)
      then have "w = w1\<lparr>w_stdout := w_stdout w1 @ frame_bytes f\<rparr>" using w False nr by (auto simp: writer_iter_def split: if_splits)
      then have "length (drain_order w) < length (drain_order (se_writer s))"
        using drain_order_take [OF t] by (simp add: drain_order_def)
      then obtain s' where "leads_to (s\<lparr>se_writer := w\<rparr>) s'" "se_phase s' = se_phase s" "w_returned (se_writer s')"
        using less.hyps [of "s\<lparr>se_writer := w\<rparr>"] writer_iter_stop [OF w] less.prems by auto
      then show ?thesis using leads_trans [OF step] by blast
    qed
  qed
qed

definition reachable :: "session \<Rightarrow> bool" where
  "reachable s \<longleftrightarrow> (\<exists>es. srun initial_session es s)"

definition comes_to_its_end :: "session \<Rightarrow> bool" where
  "comes_to_its_end s \<longleftrightarrow> (\<exists>s'. leads_to s s' \<and> se_phase s' = Exited)"

lemma reachable_leads: "reachable s \<Longrightarrow> leads_to s s' \<Longrightarrow> reachable s'"
  unfolding reachable_def leads_to_def using srun_append by blast

lemma reachable_session_ok: "reachable s \<Longrightarrow> session_ok s \<and> pool_inv (se_pool s)"
  unfolding reachable_def using session_run_ok [OF _ initial_ok] pool_inv_reachable run_pool
  by (force simp: initial_session_def)

text \<open>From a phase to the next: the threads waited for can end, and the rest goes on from there.\<close>

lemma next_comes:
  assumes "reachable s" and "leads_to s s1" and "may_go_on s1"
    and "\<And>s2. reachable s2 \<Longrightarrow> se_phase s2 = next_phase (se_phase s1) \<Longrightarrow> comes_to_its_end s2"
  shows "comes_to_its_end s"
proof -
  have l: "leads_to s (main_step s1)" by (rule leads_trans [OF assms(2) main_goes [OF assms(3)]])
  have "comes_to_its_end (main_step s1)"
    by (rule assms(4) [OF reachable_leads [OF assms(1) l]]) (simp add: main_step_def)
  then show ?thesis unfolding comes_to_its_end_def using leads_trans [OF l] by blast
qed

lemma threads_comes:
  assumes "reachable s" and "\<forall>x \<in> P. may_end x (se_phase s)"
    and "\<And>s1. se_phase s1 = se_phase s \<Longrightarrow> se_live s1 \<inter> P = {} \<Longrightarrow> may_go_on s1"
    and "\<And>s2. reachable s2 \<Longrightarrow> se_phase s2 = next_phase (se_phase s) \<Longrightarrow> comes_to_its_end s2"
  shows "comes_to_its_end s"
proof -
  have "finite (se_live s)" using reachable_session_ok [OF assms(1)] by (simp add: session_ok_def)
  from threads_end [OF this assms(2)] obtain s1 where s1: "leads_to s s1" "se_phase s1 = se_phase s" "se_live s1 \<inter> P = {}"
    by blast
  show ?thesis by (rule next_comes [OF assms(1) s1(1) assms(3) [OF s1(2,3)]]) (rule assms(4), assumption, simp add: s1(2))
qed

lemma exited_comes: "se_phase s = Exited \<Longrightarrow> comes_to_its_end s"
  unfolding comes_to_its_end_def using leads_refl by blast

lemma joining_writer_comes:
  assumes "reachable s" and "se_phase s = JoiningWriter"
  shows "comes_to_its_end s"
proof -
  have "w_stop (se_writer s)" using reachable_session_ok [OF assms(1)] assms(2) by (simp add: session_ok_def)
  then obtain s1 where s1: "leads_to s s1" "se_phase s1 = JoiningWriter" "w_returned (se_writer s1)"
    using writer_ends assms(2) by metis
  show ?thesis by (rule next_comes [OF assms(1) s1(1)]) (simp_all add: may_go_on_def s1(2,3) exited_comes)
qed

lemma stops_writer_comes: "reachable s \<Longrightarrow> se_phase s = StopsWriter \<Longrightarrow> comes_to_its_end s"
  by (rule next_comes [OF _ leads_refl]) (simp_all add: may_go_on_def joining_writer_comes)

lemma dirs_come: "reachable s \<Longrightarrow> se_phase s = StoppingDirWatcher \<Longrightarrow> comes_to_its_end s"
  by (rule threads_comes [of _ "{DirThread}"]) (auto simp: may_go_on_def stops_writer_comes)

lemma tunnels_come: "reachable s \<Longrightarrow> se_phase s = StoppingTunnels \<Longrightarrow> comes_to_its_end s"
  by (rule threads_comes [of _ "range TunnelThread \<union> range BrokerThread"]) (auto simp: may_go_on_def dirs_come)

lemma watches_come: "reachable s \<Longrightarrow> se_phase s = StoppingWatches \<Longrightarrow> comes_to_its_end s"
  by (rule threads_comes [of _ "range WatchThread"]) (auto simp: may_go_on_def tunnels_come)

lemma pool_comes:
  assumes "reachable s" and "se_phase s = JoiningPool"
  shows "comes_to_its_end s"
proof -
  have "pool_inv (se_pool s)" "q_stop (p_queue (se_pool s))"
    using reachable_session_ok [OF assms(1)] assms(2) by (simp_all add: session_ok_def)
  from pool_drains [OF this] obtain s1 where s1: "leads_to s s1" "se_phase s1 = JoiningPool" "all_returned (se_pool s1)"
    using assms(2) by metis
  show ?thesis
    by (rule next_comes [OF assms(1) s1(1)])
      (use s1 in \<open>simp_all add: may_go_on_def all_returned_def watches_come\<close>)
qed

text \<open>
  C5. A session can always come to its end: whatever happened before, however many requests wait, watches and tunnels live
  and frames are queued, once the input has ended the agent still exits, without another frame having to come from the
  client, as long as the handlers return and the processes that were killed end.
\<close>

theorem session_ends:
  assumes "srun initial_session es s" and "se_phase s \<noteq> Serving"
  shows "\<exists>es' s'. srun s es' s' \<and> quiet es' \<and> se_phase s' = Exited"
proof -
  have r: "reachable s" using assms(1) unfolding reachable_def by blast
  have "comes_to_its_end s"
    using assms(2) pool_comes [OF r] watches_come [OF r] tunnels_come [OF r] dirs_come [OF r] stops_writer_comes [OF r]
      joining_writer_comes [OF r] exited_comes [of s]
    by (cases "se_phase s") blast+
  then show ?thesis by (auto simp: comes_to_its_end_def leads_to_def)
qed

text \<open>A short session: one request comes, and the input ends.\<close>

definition short_session :: session where
  "short_session = main_step (initial_session\<lparr>se_pool := demo_pool\<rparr>)"

lemma short_run: "srun initial_session [Submits demo_job, MainGoesOn Serving] short_session"
proof -
  have "sstep initial_session (Submits demo_job) (initial_session\<lparr>se_pool := demo_pool\<rparr>)"
    by (rule sstep.submits) (use demo_submit [of "{}"] in \<open>simp_all add: initial_session_def initial_pool_def demo_pool_def\<close>)
  moreover have "sstep (initial_session\<lparr>se_pool := demo_pool\<rparr>) (MainGoesOn Serving) short_session"
    using sstep.main_goes_on [of "initial_session\<lparr>se_pool := demo_pool\<rparr>"]
    by (simp add: short_session_def initial_session_def may_go_on_def)
  ultimately show ?thesis using srun.snoc [OF srun.snoc [OF srun.nil]] by fastforce
qed

lemma session_ends_witness:
  "\<exists>es' s'. srun short_session es' s' \<and> quiet es' \<and> se_phase s' = Exited"
  by (rule session_ends [OF short_run]) (simp add: short_session_def main_step_def initial_session_def)

lemma session_complete_witness:
  "\<exists>es s (sent :: (lane \<times> string) list). srun initial_session es s \<and> se_phase s = Exited
    \<and> read_session 0 (w_stdout (se_writer s)) = (map (\<lambda>p. Incoming (snd p)) sent, TransportClosed)
    \<and> mset (map fst (all_of answers_of es)) = {#demo_job#}"
proof -
  have "reachable short_session" "se_phase short_session = JoiningPool"
    using short_run by (auto simp: reachable_def short_session_def main_step_def initial_session_def)
  from pool_comes [OF this] obtain es' s' where e: "srun short_session es' s'" "quiet es'" "se_phase s' = Exited"
    by (auto simp: comes_to_its_end_def leads_to_def)
  let ?es = "[Submits demo_job, MainGoesOn Serving] @ es'"
  have run: "srun initial_session ?es s'" by (rule srun_append [OF e(1) short_run])
  have "p = []" if "p \<in> set (enqueued l (all_of writes es'))" for l p
    using e(2) that unfolding quiet_def by blast
  then have "frames_fit 0 (all_of writes es')" by (fastforce simp: frames_fit_def)
  moreover have "all_of writes ?es = all_of writes es'" by (simp add: all_of_def)
  ultimately have f: "frames_fit 0 (all_of writes ?es)" by simp
  have u: "pipe_up (all_of writes ?es)" using e(2) by (simp add: quiet_def all_of_def)
  have q: "mset (all_of requests_of ?es) = {#demo_job#}" using e(2) by (simp add: quiet_def all_of_def)
  from session_complete [OF run e(3) u f] obtain sent :: "(lane \<times> string) list"
    where "read_session 0 (w_stdout (se_writer s')) = (map (\<lambda>p. Incoming (snd p)) sent, TransportClosed)"
      "mset (map fst (all_of answers_of ?es)) = {#demo_job#}"
    unfolding q by (elim exE conjE) (rule that)
  with run e(3) show ?thesis by (intro exI [of _ ?es] exI [of _ s'] exI [of _ sent] conjI)
qed

end
