(* ===== verification/CredLoop.thy ===== *)
theory CredLoop
  imports Cred
begin

text \<open>
  The thread of a credential broker (\<^verbatim>\<open>CredBroker::loop\<close>, \<^verbatim>\<open>serve\<close> and \<^verbatim>\<open>stop\<close> of \<^verbatim>\<open>src/agent/main.cpp\<close>), step by step over
  the shared table of pending requests: accepting a connection, reading its prompt, waiting for the client's answer, and
  what stopping it has to wait for.
\<close>

section \<open>State\<close>

text \<open>
  Where the thread is: before it looks at the flag, in \<^verbatim>\<open>poll\<close>, reading a prompt, with a whole prompt, waiting for the
  answer under an id, with a value to write back, or at its end.
\<close>

datatype broker_at = AtTest | InPoll | Reading string | Prompted string | Asking string | Answering string string | Ended

text \<open>\<open>bk_socket\<close>: the socket and its file are there. \<open>bk_sent\<close>: what was written to the connections served, one after the other.\<close>

record broker =
  bk_running :: bool
  bk_at :: broker_at
  bk_socket :: bool
  bk_sent :: "string list"

definition started_broker :: broker where
  "started_broker = \<lparr>bk_running = True, bk_at = AtTest, bk_socket = True, bk_sent = []\<rparr>"

section \<open>Steps\<close>

definition loop_test :: "broker \<Rightarrow> broker" where
  "loop_test b = b\<lparr>bk_at := (if bk_running b then InPoll else Ended)\<rparr>"

text \<open>Whether \<^verbatim>\<open>poll\<close> found a connection within 250 ms and \<^verbatim>\<open>accept\<close> got it.\<close>

definition loop_poll :: "bool \<Rightarrow> broker \<Rightarrow> broker" where
  "loop_poll got b = b\<lparr>bk_at := (if got then Reading [] else AtTest)\<rparr>"

text \<open>One byte of the prompt, or the end of the stream.\<close>

definition loop_read :: "char option \<Rightarrow> string \<Rightarrow> broker \<Rightarrow> broker" where
  "loop_read c prompt b =
     (case c of
        None \<Rightarrow> b\<lparr>bk_at := Prompted prompt\<rparr>
      | Some ch \<Rightarrow> if ch = CHR 0x0A then b\<lparr>bk_at := Prompted prompt\<rparr> else b\<lparr>bk_at := Reading (prompt @ [ch])\<rparr>)"

definition loop_reply :: "string \<Rightarrow> broker \<Rightarrow> broker" where
  "loop_reply out b = b\<lparr>bk_at := AtTest, bk_sent := bk_sent b @ [out]\<rparr>"

text \<open>\<^verbatim>\<open>stop\<close>: the flag, then the join, then the socket is closed and its file removed.\<close>

definition broker_stop :: "broker \<Rightarrow> broker" where
  "broker_stop b = b\<lparr>bk_running := False\<rparr>"

definition broker_gone :: "broker \<Rightarrow> broker option" where
  "broker_gone b = (if bk_at b = Ended then Some (b\<lparr>bk_socket := False\<rparr>) else None)"

text \<open>
  The events: those of the thread itself, a step of anybody else on the table, and the two parts of \<^verbatim>\<open>stop\<close>. The wait
  ends when the answer is there or the two minutes are over.
\<close>

datatype bevent =
    Test | Poll bool | Byte "char option" | Ask string json | Take bool | Reply | Elsewhere cevent | StopAsked | StopDone

inductive bstep :: "string \<Rightarrow> broker \<times> creds \<Rightarrow> bevent \<Rightarrow> broker \<times> creds \<Rightarrow> bool" for opId where
  test: "bk_at b = AtTest \<Longrightarrow> bstep opId (b, cs) Test (loop_test b, cs)"
| poll: "bk_at b = InPoll \<Longrightarrow> bstep opId (b, cs) (Poll got) (loop_poll got b, cs)"
| byte: "bk_at b = Reading p \<Longrightarrow> bstep opId (b, cs) (Byte c) (loop_read c p b, cs)"
| ask: "bk_at b = Prompted p \<Longrightarrow> serve_ask opId p cs = (i, msg, cs') \<Longrightarrow>
    bstep opId (b, cs) (Ask i msg) (b\<lparr>bk_at := Asking i\<rparr>, cs')"
| take: "bk_at b = Asking i \<Longrightarrow> serve_take timeout i cs = Some out \<Longrightarrow>
    bstep opId (b, cs) (Take timeout) (b\<lparr>bk_at := Answering i out\<rparr>, cs)"
| reply: "bk_at b = Answering i out \<Longrightarrow> bstep opId (b, cs) Reply (loop_reply out b, serve_end i cs)"
| elsewhere: "cstep cs e cs' \<Longrightarrow> (\<forall>i. e = CEnd i \<longrightarrow> bk_at b \<noteq> Asking i) \<Longrightarrow> bstep opId (b, cs) (Elsewhere e) (b, cs')"
| stop_asked: "bstep opId (b, cs) StopAsked (broker_stop b, cs)"
| stop_done: "\<not> bk_running b \<Longrightarrow> broker_gone b = Some b' \<Longrightarrow> bstep opId (b, cs) StopDone (b', cs)"

inductive brun :: "string \<Rightarrow> broker \<times> creds \<Rightarrow> bevent list \<Rightarrow> broker \<times> creds \<Rightarrow> bool" for opId where
  nil: "brun opId s [] s"
| snoc: "brun opId s es s1 \<Longrightarrow> bstep opId s1 e s2 \<Longrightarrow> brun opId s (es @ [e]) s2"

section \<open>Invariant\<close>

text \<open>While the thread waits its request is in the table, and the socket is there until the thread has ended.\<close>

definition broker_ok :: "broker \<times> creds \<Rightarrow> bool" where
  "broker_ok s \<longleftrightarrow>
     creds_inv (snd s)
     \<and> (\<forall>i. bk_at (fst s) = Asking i \<longrightarrow> tab_lookup i (snd s) \<noteq> None)
     \<and> (bk_at (fst s) = Ended \<longrightarrow> \<not> bk_running (fst s))
     \<and> (bk_at (fst s) \<noteq> Ended \<longrightarrow> bk_socket (fst s))"

lemma cstep_keeps:
  assumes "cstep cs e cs'" and "creds_inv cs" and "tab_lookup i cs \<noteq> None" and "e \<noteq> CEnd i"
  shows "tab_lookup i cs' \<noteq> None"
  using assms
proof (induction rule: cstep.induct)
  case (ask opId prompt cs credId msg cs')
  then have "credId \<noteq> i"
    using cred.fresh_unknown [of cs new_pending] by (auto simp: creds_inv_def serve_ask_def split: prod.splits)
  with ask show ?case
    using cred.alloc_lookup [of cs i new_pending] by (auto simp: creds_inv_def serve_ask_def split: prod.splits)
next
  case (provide cs p)
  then show ?case
    by (auto simp: handleCredProvide_def tab_update_def tab_lookup_def Let_def split: option.splits sum.splits)
qed (auto simp: broker_start_def Let_def tab_lookup_def serve_end_def tab_remove_def split: if_splits)

lemma asked_is_pending:
  assumes "creds_inv cs" and "serve_ask opId p cs = (i, msg, cs')"
  shows "creds_inv cs' \<and> tab_lookup i cs' \<noteq> None"
  using assms cred.alloc_ok [of cs new_pending] cred.alloc_lookup [of cs i new_pending]
  by (auto simp: creds_inv_def serve_ask_def split: prod.splits)

lemma bstep_ok: "bstep opId s e s' \<Longrightarrow> broker_ok s \<Longrightarrow> broker_ok s'"
proof (induction rule: bstep.induct)
  case (ask b p cs i msg cs')
  then show ?case using asked_is_pending [of cs opId p i msg cs'] by (auto simp: broker_ok_def)
next
  case (reply b i out cs)
  then show ?case using cred.remove_ok [of cs i] by (auto simp: broker_ok_def loop_reply_def creds_inv_def serve_end_def)
next
  case (elsewhere cs e cs' b)
  have "tab_lookup i cs' \<noteq> None" if "bk_at b = Asking i" for i
    by (rule cstep_keeps [OF elsewhere.hyps(1)]) (use elsewhere that in \<open>auto simp: broker_ok_def\<close>)
  moreover have "creds_inv cs'" using cstep_inv [OF elsewhere.hyps(1)] elsewhere.prems by (simp add: broker_ok_def)
  ultimately show ?case using elsewhere.prems by (simp add: broker_ok_def)
qed (auto simp: broker_ok_def loop_test_def loop_poll_def loop_read_def broker_stop_def broker_gone_def split: option.splits if_splits)

lemma brun_ok: "brun opId s es s' \<Longrightarrow> broker_ok s \<Longrightarrow> broker_ok s'"
  by (induction rule: brun.induct) (auto intro: bstep_ok)

section \<open>A prompt is asked as it was sent\<close>

lemma prompt_read:
  "bk_at b = Reading s \<Longrightarrow> CHR 0x0A \<notin> set p \<Longrightarrow>
     brun opId (b, cs) (map (\<lambda>c. Byte (Some c)) (p @ [CHR 0x0A])) (b\<lparr>bk_at := Prompted (s @ p)\<rparr>, cs)"
proof (induction p rule: rev_induct)
  case Nil
  have "bstep opId (b, cs) (Byte (Some (CHR 0x0A))) (loop_read (Some (CHR 0x0A)) s b, cs)" by (rule bstep.byte [OF Nil(1)])
  then show ?case using brun.snoc [OF brun.nil] by (fastforce simp: loop_read_def)
next
  case (snoc c p)
  have "brun opId (b, cs) (map (\<lambda>c. Byte (Some c)) q) (b\<lparr>bk_at := Reading (s @ q)\<rparr>, cs)" if "CHR 0x0A \<notin> set q" for q
    using that
  proof (induction q rule: rev_induct)
    case Nil
    then show ?case using snoc.prems(1) brun.nil [of opId "(b, cs)"] by (cases b) simp
  next
    case (snoc d q)
    have "bstep opId (b\<lparr>bk_at := Reading (s @ q)\<rparr>, cs) (Byte (Some d)) (loop_read (Some d) (s @ q) (b\<lparr>bk_at := Reading (s @ q)\<rparr>), cs)"
      by (rule bstep.byte) simp
    with snoc show ?case using brun.snoc by (fastforce simp: loop_read_def)
  qed
  from this [of "p @ [c]"] snoc.prems(2)
  have r: "brun opId (b, cs) (map (\<lambda>c. Byte (Some c)) (p @ [c])) (b\<lparr>bk_at := Reading (s @ p @ [c])\<rparr>, cs)" by simp
  have "bstep opId (b\<lparr>bk_at := Reading (s @ p @ [c])\<rparr>, cs) (Byte (Some (CHR 0x0A)))
      (loop_read (Some (CHR 0x0A)) (s @ p @ [c]) (b\<lparr>bk_at := Reading (s @ p @ [c])\<rparr>), cs)"
    by (rule bstep.byte) simp
  from brun.snoc [OF r this] show ?case by (simp add: loop_read_def)
qed

section \<open>Stopping\<close>

text \<open>
  Once it is asked to stop, the thread by itself ends in at most five steps, of which only the wait for an answer can take
  two minutes, and \<^verbatim>\<open>stop\<close> then removes the socket; unless it is reading a prompt.
\<close>

definition own_step :: "bevent \<Rightarrow> bool" where
  "own_step e \<longleftrightarrow> (case e of Elsewhere _ \<Rightarrow> False | StopAsked \<Rightarrow> False | StopDone \<Rightarrow> False | Byte _ \<Rightarrow> False | _ \<Rightarrow> True)"

fun steps_left :: "broker_at \<Rightarrow> nat" where
  "steps_left (Prompted p) = 4"
| "steps_left (Asking i) = 3"
| "steps_left (Answering i out) = 2"
| "steps_left InPoll = 2"
| "steps_left AtTest = 1"
| "steps_left _ = 0"

lemma stopping_step:
  assumes "broker_ok s" and "\<not> bk_running (fst s)" and "bk_at (fst s) \<noteq> Ended" and "\<forall>p. bk_at (fst s) \<noteq> Reading p"
  shows "\<exists>e s'. bstep opId s e s' \<and> own_step e \<and> \<not> bk_running (fst s') \<and> (\<forall>p. bk_at (fst s') \<noteq> Reading p)
    \<and> Suc (steps_left (bk_at (fst s'))) = steps_left (bk_at (fst s))"
proof -
  obtain b cs where s: "s = (b, cs)" by (cases s)
  show ?thesis
  proof (cases "bk_at b")
    case AtTest
    from bstep.test [OF this] show ?thesis using assms(2) AtTest
      by (intro exI [of _ Test] exI [of _ "(loop_test b, cs)"]) (simp add: s loop_test_def own_step_def)
  next
    case InPoll
    from bstep.poll [OF this, of opId cs False] show ?thesis using assms(2) InPoll
      by (intro exI [of _ "Poll False"] exI [of _ "(loop_poll False b, cs)"]) (simp add: s loop_poll_def own_step_def)
  next
    case (Prompted p)
    obtain i msg cs' where a: "serve_ask opId p cs = (i, msg, cs')" by (cases "serve_ask opId p cs")
    from bstep.ask [OF Prompted a] show ?thesis using assms(2) Prompted
      by (intro exI [of _ "Ask i msg"] exI [of _ "(b\<lparr>bk_at := Asking i\<rparr>, cs')"]) (simp add: s own_step_def)
  next
    case (Asking i)
    then obtain pc where "tab_lookup i cs = Some pc" using assms(1) by (auto simp: broker_ok_def s)
    then obtain out where out: "serve_take True i cs = Some out" by (simp add: serve_take_def)
    from bstep.take [OF Asking out] show ?thesis using assms(2) Asking
      by (intro exI [of _ "Take True"] exI [of _ "(b\<lparr>bk_at := Answering i out\<rparr>, cs)"]) (simp add: s own_step_def)
  next
    case (Answering i out)
    from bstep.reply [OF Answering] show ?thesis using assms(2) Answering
      by (intro exI [of _ Reply] exI [of _ "(loop_reply out b, serve_end i cs)"]) (simp add: s loop_reply_def own_step_def)
  qed (use assms(3,4) s in auto)
qed

lemma brun_append: "brun opId s1 fs s2 \<Longrightarrow> brun opId s es s1 \<Longrightarrow> brun opId s (es @ fs) s2"
proof (induction rule: brun.induct)
  case (snoc s1 fs s2 e s3)
  then have "brun opId s ((es @ fs) @ [e]) s3" by (blast intro: brun.snoc)
  then show ?case by simp
qed simp

lemma stopping_ends:
  assumes "broker_ok s" and "\<not> bk_running (fst s)" and "\<forall>p. bk_at (fst s) \<noteq> Reading p"
  shows "\<exists>es s'. brun opId s es s' \<and> list_all own_step es \<and> length es = steps_left (bk_at (fst s)) \<and> bk_at (fst s') = Ended"
  using assms
proof (induction "steps_left (bk_at (fst s))" arbitrary: s)
  case 0
  then have "bk_at (fst s) = Ended" by (cases "bk_at (fst s)") auto
  then show ?case using brun.nil [of opId s] by (intro exI [of _ "[]"] exI [of _ s]) simp
next
  case (Suc n)
  then have "bk_at (fst s) \<noteq> Ended" by auto
  from stopping_step [OF Suc.prems(1,2) this Suc.prems(3), of opId]
  obtain e s1 where e: "bstep opId s e s1" "own_step e" "\<not> bk_running (fst s1)" "\<forall>p. bk_at (fst s1) \<noteq> Reading p"
    "Suc (steps_left (bk_at (fst s1))) = steps_left (bk_at (fst s))" by blast
  obtain es s' where r: "brun opId s1 es s'" "list_all own_step es" "length es = steps_left (bk_at (fst s1))" "bk_at (fst s') = Ended"
    using Suc.hyps(1) [of s1] Suc.hyps(2) e(3-5) bstep_ok [OF e(1) Suc.prems(1)] by auto
  have "brun opId s ([e] @ es) s'" using brun_append [OF r(1) brun.snoc [OF brun.nil e(1), simplified]] by simp
  then show ?case using r(2-4) e(2,5) by (intro exI [of _ "[e] @ es"] exI [of _ s']) simp
qed

text \<open>
  A broker can be stopped: however its connections, answers and the other brokers interleaved, once \<^verbatim>\<open>stop\<close> lowered
  the flag the broker's thread by itself comes to its end in at most four steps, none of which needs the client or a
  connection, and the socket is then removed; but only while it is not in the middle of a prompt.
\<close>

theorem broker_stops:
  assumes "creds_inv cs" and "brun opId (started_broker, cs) es s" and "\<not> bk_running (fst s)"
    and "\<forall>p. bk_at (fst s) \<noteq> Reading p" and "bk_socket (fst s)"
  shows "\<exists>es' s'. brun opId s (es' @ [StopDone]) s' \<and> list_all own_step es' \<and> length es' \<le> 4 \<and> \<not> bk_socket (fst s')"
proof -
  have "broker_ok (started_broker, cs)" using assms(1) by (simp add: broker_ok_def started_broker_def)
  then have ok: "broker_ok s" by (rule brun_ok [OF assms(2)])
  obtain es' b cs' where r: "brun opId s es' (b, cs')" "list_all own_step es'" "length es' = steps_left (bk_at (fst s))" "bk_at b = Ended"
    using stopping_ends [OF ok assms(3,4)] by force
  have "\<not> bk_running b" using brun_ok [OF r(1) ok] r(4) by (simp add: broker_ok_def)
  then have "bstep opId (b, cs') StopDone (b\<lparr>bk_socket := False\<rparr>, cs')" by (rule bstep.stop_done) (simp add: broker_gone_def r(4))
  from brun.snoc [OF r(1) this] r(2,3) show ?thesis
    by (intro exI [of _ es'] exI [of _ "(b\<lparr>bk_socket := False\<rparr>, cs')"]) (cases "bk_at (fst s)"; simp)
qed

lemma broker_stops_witness:
  "\<exists>es' s'. brun ''op'' (broker_stop started_broker, empty_table) (es' @ [StopDone]) s' \<and> length es' \<le> 4 \<and> \<not> bk_socket (fst s')"
proof -
  have "brun ''op'' (started_broker, empty_table) ([] @ [StopAsked]) (broker_stop started_broker, empty_table)"
    by (rule brun.snoc [OF brun.nil bstep.stop_asked])
  from broker_stops [OF _ this] show ?thesis
    by (auto simp: creds_inv_def broker_stop_def started_broker_def)
qed

text \<open>
  In the middle of a prompt nothing but the connection moves it: the read has no time limit, so that whoever connects and
  sends nothing keeps \<^verbatim>\<open>stop\<close>, and with it the git command's request, from ever returning.
\<close>

lemma silent_connection_holds:
  "bk_at (fst s) = Reading p \<Longrightarrow> bstep opId s e s' \<Longrightarrow> own_step e \<Longrightarrow> False"
  "bk_at (fst s) = Reading p \<Longrightarrow> bstep opId s e s' \<Longrightarrow> (\<forall>c. e \<noteq> Byte c) \<Longrightarrow> bk_at (fst s') = Reading p"
  by (auto elim!: bstep.cases simp: own_step_def broker_stop_def broker_gone_def split: if_splits)

end
