(* ===== verification/Spec2Isabelle.thy ===== *)
theory Spec2Isabelle
  imports Prelude Json Config Lanes GitPolicy Codec Framing LaneFifo Writer Respond WorkQueue IdTable Tunnel
    FileSystem Sandbox FsMeta FsWrite FsSafety DirWatch Cred GitExec GitTyped Indexer IndexReg HeadWatch
    GitObjects RebasePlan RebaseEngine Logging Hello Sha256 DiffCache Substring Refs GitWalk
    Signing GitRead LspCache LspMessage LspWorkspace LspClient DeclSearch
    Dispatch StartOptions LspHandlers LspDocuments WatchLoop CMemory CoreApi LspProcess GitStatus RepoCalls
    Session CredLoop
begin

text \<open>
  \<^bold>\<open>A model of the scrutiny agent.\<close> The agent (\<^verbatim>\<open>src/agent/main.cpp\<close>) is a C++ daemon that a development tool starts
  on the machine where the sources are, usually over ssh, and drives with JSON-RPC frames on its standard
  input and output: it reads and writes files inside configured roots, runs git under a policy, tunnels
  language servers, watches directories and HEAD, brokers credentials and indexes source trees with the core
  library (\<^verbatim>\<open>src/core\<close>).

  \<^bold>\<open>How the program is put together.\<close> One reader thread parses frames and hands requests to a pool of sixteen
  workers through a queue with three lanes; notifications are handled on the reader thread. Every message
  to the client goes through one writer thread with the same three lanes. Handlers are functions of a
  responder and the request's parameters. Long-lived objects (tunnels, indexers, watches, pending
  credentials) live in tables under identifiers the agent makes up.

  \<^bold>\<open>The theories.\<close>
  \<^item> \<open>Prelude\<close>: strings, decimal numerals, C integer conversions. \<open>Json\<close>: JSON values, error codes,
    parameter checks (\<^verbatim>\<open>reqStr\<close>), replies. \<open>Config\<close>: what the command line decided; \<open>StartOptions\<close>: the command
    line, configuration files and the roots (locale \<open>setting_invariant\<close>). \<open>Logging\<close>: the diagnostics log, its rotation
    and redaction.
  \<^item> Transport. \<open>Codec\<close>: base64. \<open>Framing\<close>: \<^verbatim>\<open>readFrame\<close> and the reader loop. \<open>Lanes\<close>, \<open>LaneFifo\<close>: the
    three lanes, their queues and the contract of such a queue (locale \<open>lane_fifo\<close>). \<open>Writer\<close>: the class
    \<^verbatim>\<open>Writer\<close>. \<open>Respond\<close>: \<^verbatim>\<open>respondEnvelope\<close>, compression and \<^verbatim>\<open>rpc.chunk\<close>. \<open>WorkQueue\<close>: \<^verbatim>\<open>WorkQueue\<close>,
    \<^verbatim>\<open>CancelRegistry\<close> and \<^verbatim>\<open>workerLoop\<close>. \<open>Hello\<close>: \<^verbatim>\<open>meta.*\<close>, the negotiation of version, encoding and frame cap, and
    \<^verbatim>\<open>fs.selftest\<close>. \<open>Dispatch\<close>: the way of a message from the reader to its handler and back. \<open>Session\<close>: the
    agent as a whole, from its first frame to its exit.
  \<^item> Registries. \<open>IdTable\<close>: tables of objects under fresh identifiers (locale \<open>id_registry\<close>). \<open>Tunnel\<close>: the
    tunnels of \<^verbatim>\<open>lsp.tunnel*\<close> and \<^verbatim>\<open>git.spawn\<close>, with \<^verbatim>\<open>git.signal\<close>. \<open>Cred\<close>, \<open>CredLoop\<close>: the credential broker. \<open>IndexReg\<close>:
    \<^verbatim>\<open>index.*\<close>. \<open>HeadWatch\<close>: \<^verbatim>\<open>watch.head\<close> and the thread of \<^verbatim>\<open>HeadWatcher.cpp\<close>.
  \<^item> Files. \<open>FileSystem\<close>: nodes, links and the kernel's path walk. \<open>Sandbox\<close>: the three resolutions
    (locale \<open>authorizer\<close>). \<open>FsMeta\<close>: reading handlers. \<open>FsWrite\<close>: changing handlers. \<open>FsSafety\<close>: what they
    guarantee. \<open>DirWatch\<close>: the class \<^verbatim>\<open>DirWatcher\<close> and \<^verbatim>\<open>fs.listDirectory\<close>; \<open>WatchLoop\<close>: its thread, and \<^verbatim>\<open>barrier\<close>,
    by which a handler waits until what it changed is reported. \<open>Sha256\<close>, \<open>DiffCache\<close>: \<^verbatim>\<open>diffcache.*\<close>.
  \<^item> Git. \<open>GitPolicy\<close>: \<^verbatim>\<open>gitExecPermitted\<close>. \<open>GitExec\<close>: child processes, \<^verbatim>\<open>git.exec\<close>, \<^verbatim>\<open>git.spawn\<close>. \<open>GitTyped\<close>:
    the handlers that run fixed commands.
  \<^item> \<open>Indexer\<close>: the class \<^verbatim>\<open>Indexer\<close> of the core library with the cache operations it uses.
  \<^item> Language servers (\<^verbatim>\<open>src/core/src/lsp\<close>, \<^verbatim>\<open>src/core/src/db\<close>). \<open>LspCache\<close>: the cache of answers, its tables and their
    contract (locale \<open>answer_table\<close>). \<open>LspMessage\<close>: the wire format and the reading of answers. \<open>LspProcess\<close>: the child
    process of a server and the thread that reads it. \<open>LspWorkspace\<close>: what is found
    or generated for a workspace. \<open>LspClient\<close>: the class \<^verbatim>\<open>LSPClient\<close>, its requests, queries and the retry while a server
    warms up. \<open>DeclSearch\<close>: the text search that stands in for a server. \<open>LspHandlers\<close>: the C API
    (\<^verbatim>\<open>src/core/src/GitReviewCore.cpp\<close>), the agent's sessions and the handlers of \<^verbatim>\<open>lsp.*\<close>. \<open>LspDocuments\<close>: what servers were
    shown over a history of requests. \<open>CMemory\<close>: the memory of the C API, what its answers own and how they are given back
    (locale \<open>c_struct\<close>). \<open>CoreApi\<close>: its caches, indexers and asynchronous calls.
  \<^item> History (\<^verbatim>\<open>src/gitmanip\<close>). \<open>GitObjects\<close>: errors of libgit2, object ids, commits, trees, the repository's calls
    and the tree builder. \<open>RebasePlan\<close>: the plan of a rebase, its checks and its text. \<open>RebaseEngine\<close>: carrying it
    out, and the operations built on it. \<open>Refs\<close>: remotes, branches and tags. \<open>GitWalk\<close>: walking the history,
    merge diffs, the history of a file and the search for commits. \<open>Substring\<close>: the facts about \<^verbatim>\<open>std::string::find\<close>
    they need. \<open>Signing\<close>: signers and signed commits (locale \<open>signing\<close>). \<open>GitRead\<close>: the C bridge and the handlers that read
    a repository or check a branch out. \<open>GitStatus\<close>: status and blame. \<open>RepoCalls\<close>: the rest of \<^verbatim>\<open>Repository\<close> and
    \<^verbatim>\<open>Diff\<close>: opening, branches, the index, checkout.

  \<^bold>\<open>How state and operations correspond.\<close> A class is a record of its fields and each method a function
  from the record to the record; names are the source's. A reply is \<open>Result\<close> or \<open>Error\<close> with the code, an
  early return is \<open>Inl\<close>. Threads are step relations: each step is what one thread does under one lock, so
  that the theorems hold for every interleaving. Words are kept at their width where they can wrap (the
  byte counters, \<^verbatim>\<open>strtoul\<close>, \<^verbatim>\<open>get<int>\<close>).

  \<^bold>\<open>Parameters.\<close> Not defined here but arguments of the model: the JSON printer and parser (nlohmann), zlib,
  the children a command line starts, what a read, write or poll returns, the language server. The file
  system is a map from absolute paths to files, directories and links; its path walk is written out
  because the sandbox depends on it. libgit2 is the record \<open>git_lib\<close>: which names it accepts, its three-way
  merge of trees, the id a new commit gets and its errors. Where a theorem needs it, \<open>content_addressed\<close> says
  that different commits get different ids and \<open>store_ok\<close> that the commits already stored have theirs. The order of
  the entries in a tree is not modelled, and writing an object succeeds. What gpg, ssh-keygen and the shell
  do is what their manuals say, as hypotheses of the theorem that needs them (\<open>gpg_honest\<close>, \<open>ssh_keygen\<close>, \<open>sh_parse\<close>); so is what
  inotify queues for a change of HEAD (\<open>raised\<close>).

  \<^bold>\<open>Bounds and fuel.\<close> The loops over input are structural or have a measure. \<open>realpath\<close> follows at most
  \<open>max_links\<close> links, as the kernel does. \<open>chunk_loop\<close> is a partial function, because its step is a
  negotiated number, and is proved to end for every cap the agent accepts. \<open>applyConfigFile\<close> has the depth of the
  recursion as fuel, and \<open>startup_ends\<close> says that any depth above the rank of the files gives the same. \<open>copy_tree\<close> has fuel, one more
  than the depth of the tree.

  \<^bold>\<open>What the lemmas show.\<close> The transport delivers every frame in order, whole, the urgent lane first
  (\<open>Writer\<close>, \<open>Framing\<close>, \<open>Respond\<close>); the pool keeps the capacity reserved for interactive requests, answers
  each request once and shuts down (\<open>WorkQueue\<close>); a request reaches the handler of its method with its parameters and
  its answer goes back under its identifier (\<open>Dispatch\<close>); without an option to the contrary an agent is read-only, and
  its roots are canonical (\<open>StartOptions\<close>); when it exits, every request was answered and every frame written, and it
  can always come to its exit once the input ended (\<open>Session\<close>); paths cannot leave the roots, files are replaced
  atomically, a read-only agent changes nothing (\<open>Sandbox\<close>, \<open>FsMeta\<close>, \<open>FsSafety\<close>); only permitted git
  commands run, in the roots, with a confined environment (\<open>GitPolicy\<close>, \<open>GitExec\<close>); tunnels, credentials,
  watches and indexes deliver what they promise (\<open>Tunnel\<close>, \<open>Cred\<close>, \<open>DirWatch\<close>, \<open>WatchLoop\<close>, \<open>HeadWatch\<close>, \<open>Indexer\<close>,
  \<open>IndexReg\<close>); a rebase plan keeps what was put in it and its execution writes the commits it asks for and
  touches nothing else, where a modification acts on whole entries of the tree and one of hunks does nothing (\<open>RebasePlan\<close>, \<open>RebaseEngine\<close>); the digest is the standard's and the cache returns
  what was stored (\<open>Sha256\<close>, \<open>DiffCache\<close>); histories and searches are exactly the commits that match (\<open>GitWalk\<close>);
  what was signed verifies (\<open>Signing\<close>), and the replies about a repository are complete and typed (\<open>GitRead\<close>);
  every request to a language server is answered at most once, the cache returns whole answers that nothing has made
  stale, the retry ends, and the text search finds exactly what is there (\<open>LspClient\<close>, \<open>LspCache\<close>, \<open>DeclSearch\<close>); a reply with locations says
  truly where they are from, and servers see every version of a document in order (\<open>LspHandlers\<close>, \<open>LspDocuments\<close>);
  answers cross the C API whole and are freed exactly (\<open>CMemory\<close>), and asynchronous calls answer like the others (\<open>CoreApi\<close>);
  what a server writes reaches the client whole, and stopping it ends the thread unless a descendant of the
  server holds its output open (\<open>LspProcess\<close>); a status says what libgit2
  flagged, what is to be pushed and pulled is exact (\<open>GitStatus\<close>), and a failed index operation leaves the disk alone (\<open>RepoCalls\<close>). Where the code falls short of that, a theorem says exactly how.

  \<^bold>\<open>Not modelled.\<close> Of \<^verbatim>\<open>src/core\<close>: SQLite and its wrapper, the log of a server's standard error, the sharing of one cache by
  several handles; the Emacs client, the examples and the tests are other programs. Of the agent: the BSD branches of the two
  watchers and the text of \<^verbatim>\<open>--help\<close>.
\<close>

end
